(* ===== verification/Prelude.thy ===== *)
theory Prelude
  imports Main "HOL-Library.Word" "HOL-Library.Monad_Syntax"
begin

text \<open>
  What every component shares: the names of the C integer types, bounds-checked access to C
  arrays, NUL-terminated strings, and the collections of rewrite rules the component proofs use.

  A C array is a list. Reading or writing outside it is undefined behaviour in C, so the two
  access functions return \<open>None\<close> there and the operations that use them run in the option
  monad: \<open>None\<close> means \<^emph>\<open>the code touched memory outside the array\<close>, and a theorem
  that an operation returns \<open>Some\<close> is a memory-safety theorem.
\<close>

section \<open>Integer types\<close>

type_synonym u8 = "8 word"
type_synonym u16 = "16 word"
type_synonym u32 = "32 word"
type_synonym u64 = "64 word"
type_synonym bytes = "u8 list"

unbundle bit_operations_syntax

named_theorems cmem \<open>bounds-checked array access inside its bounds\<close>
named_theorems frame_simps \<open>fields an operation leaves alone\<close>

section \<open>Bounds-checked arrays\<close>

definition rd :: "'a list \<Rightarrow> nat \<Rightarrow> 'a option" where
  "rd a i = (if i < length a then Some (a ! i) else None)"

definition wr :: "'a list \<Rightarrow> nat \<Rightarrow> 'a \<Rightarrow> 'a list option" where
  "wr a i v = (if i < length a then Some (a[i := v]) else None)"

text \<open>\<^verbatim>\<open>memcpy(a + i, xs, length xs)\<close>.\<close>

definition wr_block :: "'a list \<Rightarrow> nat \<Rightarrow> 'a list \<Rightarrow> 'a list option" where
  "wr_block a i xs =
     (if i + length xs \<le> length a then Some (take i a @ xs @ drop (i + length xs) a) else None)"

lemma rd_in [simp, cmem]: "i < length a \<Longrightarrow> rd a i = Some (a ! i)"
  by (simp add: rd_def)

lemma wr_in [simp, cmem]: "i < length a \<Longrightarrow> wr a i v = Some (a[i := v])"
  by (simp add: wr_def)

lemma wr_block_in [simp, cmem]:
  "i + length xs \<le> length a \<Longrightarrow>
   wr_block a i xs = Some (take i a @ xs @ drop (i + length xs) a)"
  by (simp add: wr_block_def)

lemma rd_eq_Some_iff: "rd a i = Some v \<longleftrightarrow> i < length a \<and> v = a ! i"
  by (auto simp: rd_def)

lemma wr_eq_Some_iff: "wr a i v = Some b \<longleftrightarrow> i < length a \<and> b = a[i := v]"
  by (auto simp: wr_def)

lemma length_wr: "wr a i v = Some b \<Longrightarrow> length b = length a"
  by (auto simp: wr_eq_Some_iff)

lemma length_wr_block: "wr_block a i xs = Some b \<Longrightarrow> length b = length a"
  by (auto simp: wr_block_def split: if_splits)

lemma take_list_update_Suc:
  "i < length a \<Longrightarrow> take (Suc i) (a[i := v]) = take i a @ [v]"
  by (simp add: take_Suc_conv_app_nth)

lemma list_update_Cons_numeral [simp]:
  "(x # xs)[numeral k := v] = x # xs[pred_numeral k := v]"
  by (simp add: numeral_eq_Suc)

section \<open>NUL-terminated strings\<close>

text \<open>
  \<^verbatim>\<open>strlen\<close>, \<^verbatim>\<open>strcmp\<close> and printing with \<^verbatim>\<open>%s\<close> see a char array up to
  its first NUL. \<open>cstr\<close> is that prefix; two arrays are equal for \<^verbatim>\<open>strcmp\<close> when
  their prefixes are.
\<close>

definition cstr :: "string \<Rightarrow> string" where
  "cstr a = takeWhile (\<lambda>c. c \<noteq> CHR 0x00) a"

definition nul_free :: "string \<Rightarrow> bool" where
  "nul_free s = list_all (\<lambda>c. c \<noteq> CHR 0x00) s"

lemma cstr_nul_free [simp]: "nul_free s \<Longrightarrow> cstr s = s"
  by (simp add: cstr_def nul_free_def list_all_iff takeWhile_eq_all_conv)

lemma nul_free_cstr [simp]: "nul_free (cstr s)"
  by (auto simp: cstr_def nul_free_def list_all_iff dest: set_takeWhileD)

lemma cstr_append_nul [simp]: "nul_free s \<Longrightarrow> cstr (s @ CHR 0x00 # t) = s"
  by (simp add: cstr_def nul_free_def list_all_iff takeWhile_append2)

lemma nul_free_append [simp]: "nul_free (s @ t) \<longleftrightarrow> nul_free s \<and> nul_free t"
  by (simp add: nul_free_def)

lemma nul_free_Cons [simp]: "nul_free (c # t) \<longleftrightarrow> c \<noteq> CHR 0x00 \<and> nul_free t"
  by (simp add: nul_free_def)

lemma nul_free_Nil [simp]: "nul_free []"
  by (simp add: nul_free_def)

text \<open>
  The C string functions on whole arrays. \<open>strcpy\<close> copies the string and its NUL and is
  undefined when they do not fit; \<open>strncpy\<close> copies at most \<open>n\<close> characters and pads with
  NULs up to \<open>n\<close>; \<open>sprintf_buf\<close> is the text of a \<^verbatim>\<open>sprintf\<close> into a local buffer of
  the given size; \<open>snprintf_buf\<close> is the text \<^verbatim>\<open>snprintf\<close> leaves in one, cut to fit.
\<close>

definition zeros :: "nat \<Rightarrow> string" where
  "zeros n = replicate n (CHR 0x00)"

definition strcpy :: "string \<Rightarrow> string \<Rightarrow> string option" where
  "strcpy dst src = wr_block dst 0 (cstr src @ [CHR 0x00])"

definition strncpy :: "string \<Rightarrow> string \<Rightarrow> nat \<Rightarrow> string option" where
  "strncpy dst src n = wr_block dst 0 (take n (cstr src) @ zeros (n - length (cstr src)))"

definition sprintf_buf :: "nat \<Rightarrow> string \<Rightarrow> string option" where
  "sprintf_buf cap txt = (if length txt < cap then Some txt else None)"

definition snprintf_buf :: "nat \<Rightarrow> string \<Rightarrow> string" where
  "snprintf_buf cap t = take (cap - 1) t"

lemma snprintf_buf_fits [simp]: "length t < cap \<Longrightarrow> snprintf_buf cap t = t"
  by (simp add: snprintf_buf_def)

lemma length_zeros [simp]: "length (zeros n) = n"
  by (simp add: zeros_def)

lemma cstr_zeros [simp]: "cstr (zeros n) = []"
  by (cases n) (simp_all add: zeros_def cstr_def)

lemma cstr_append_zeros [simp]: "nul_free s \<Longrightarrow> cstr (s @ zeros n) = s"
  by (cases n) (simp_all add: zeros_def)

lemma drop_zeros [simp]: "drop m (zeros n) = zeros (n - m)"
  by (simp add: zeros_def)

lemma NUL_zeros [simp]: "CHR 0x00 # zeros n = zeros (Suc n)"
  by (simp add: zeros_def)

lemma strcpy_zeros:
  "length (cstr src) < n \<Longrightarrow> strcpy (zeros n) src = Some (cstr src @ zeros (n - length (cstr src)))"
  by (simp add: strcpy_def Suc_diff_Suc)

lemma strcpy_eq_None_iff: "strcpy dst src = None \<longleftrightarrow> length dst \<le> length (cstr src)"
  by (auto simp: strcpy_def wr_block_def)

lemma length_strcpy: "strcpy dst src = Some d \<Longrightarrow> length d = length dst"
  by (auto simp: strcpy_def dest: length_wr_block)

lemma cstr_strcpy: "strcpy dst src = Some d \<Longrightarrow> cstr d = cstr src"
  by (auto simp: strcpy_def wr_block_def split: if_splits)

lemma strncpy_zeros:
  "n \<le> m \<Longrightarrow> strncpy (zeros m) src n = Some (take n (cstr src) @ zeros (m - min n (length (cstr src))))"
  by (auto simp: strncpy_def wr_block_def zeros_def replicate_add [symmetric] min_def)

text \<open>Bytes and characters.\<close>

definition chr_of_byte :: "u8 \<Rightarrow> char" where
  "chr_of_byte b = char_of (unat b)"

definition byte_of_chr :: "char \<Rightarrow> u8" where
  "byte_of_chr c = word_of_nat (of_char c)"

section \<open>Words\<close>

lemma word_of_nat_unat_le: "n < 2 ^ LENGTH('a::len) \<Longrightarrow> unat (word_of_nat n :: 'a word) = n"
  by (simp add: unsigned_of_nat take_bit_nat_eq_self)

lemma unat_u8_less [simp]: "unat (b :: u8) < 256"
  using unsigned_less [of b, where ?'a = nat] by simp

lemma unat_u16_less [simp]: "unat (b :: u16) < 65536"
  using unsigned_less [of b, where ?'a = nat] by simp

lemma bit_u16_ge [simp]: "16 \<le> n \<Longrightarrow> \<not> bit (x :: u16) n"
  using bit_imp_le_length [of x n] by force

lemma bit_u8_ge [simp]: "8 \<le> n \<Longrightarrow> \<not> bit (x :: u8) n"
  using bit_imp_le_length [of x n] by force

lemma bit_u8_less [dest]: "bit (x :: u8) n \<Longrightarrow> n < 8"
  using bit_imp_le_length [of x n] by simp

lemma bit_u16_less [dest]: "bit (x :: u16) n \<Longrightarrow> n < 16"
  using bit_imp_le_length [of x n] by simp

lemma byte_of_chr_of_byte [simp]: "byte_of_chr (chr_of_byte b) = b"
  by (simp add: byte_of_chr_def chr_of_byte_def)

lemma chr_of_byte_of_chr [simp]: "chr_of_byte (byte_of_chr c) = c"
  
  by (simp add: byte_of_chr_def chr_of_byte_def unsigned_of_nat take_bit_nat_eq_self)

section \<open>Folding an operation over a list of inputs\<close>

lemma foldl_invariant:
  "I s \<Longrightarrow> (\<And>s x. I s \<Longrightarrow> I (f s x)) \<Longrightarrow> I (foldl f s xs)"
  by (induction xs arbitrary: s) auto

end
