(* ===== verification/Cstdio.thy ===== *)
theory Cstdio
  imports Prelude
begin

text \<open>
  The parts of the C standard library the firmware formats and scans text with:
  \<^verbatim>\<open>%d\<close> and \<^verbatim>\<open>%03d\<close> of \<^verbatim>\<open>printf\<close>, \<^verbatim>\<open>%02X\<close>, \<^verbatim>\<open>%d\<close> of
  \<^verbatim>\<open>sscanf\<close> (white space, sign, longest run of digits), comma-separated lists of
  \<^verbatim>\<open>%d\<close>, and \<^verbatim>\<open>fgets\<close>. A number outside the range of \<^verbatim>\<open>int\<close> makes
  \<^verbatim>\<open>sscanf\<close> undefined; the model keeps the mathematical value.

  The lemmas are the round trips: scanning what was printed gives the number back.
\<close>

section \<open>Printing numbers\<close>

definition digit_chr :: "nat \<Rightarrow> char" where
  "digit_chr d = char_of (48 + d)"

fun digits :: "nat \<Rightarrow> string" where
  "digits n = (if n < 10 then [digit_chr n] else digits (n div 10) @ [digit_chr (n mod 10)])"

declare digits.simps [simp del]

definition printf_d :: "int \<Rightarrow> string" where
  "printf_d i = (if i < 0 then ''-'' @ digits (nat (- i)) else digits (nat i))"

definition printf_03d :: "int \<Rightarrow> string" where
  "printf_03d i =
     (let s = digits (nat \<bar>i\<bar>); w = (if i < 0 then 2 else 3)
      in (if i < 0 then ''-'' else []) @ replicate (w - length s) (CHR ''0'') @ s)"

definition hex_chr :: "nat \<Rightarrow> char" where
  "hex_chr d = (if d < 10 then char_of (48 + d) else char_of (55 + d))"

definition printf_02X :: "u8 \<Rightarrow> string" where
  "printf_02X b = [hex_chr (unat b div 16), hex_chr (unat b mod 16)]"

section \<open>Scanning numbers\<close>

definition is_digit :: "char \<Rightarrow> bool" where
  "is_digit c = (48 \<le> (of_char c :: nat) \<and> (of_char c :: nat) \<le> 57)"

definition digit_val :: "char \<Rightarrow> nat" where
  "digit_val c = of_char c - 48"

definition is_space :: "char \<Rightarrow> bool" where
  "is_space c = (of_char c = (32 :: nat) \<or> 9 \<le> (of_char c :: nat) \<and> (of_char c :: nat) \<le> 13)"

definition digits_val :: "string \<Rightarrow> nat" where
  "digits_val s = foldl (\<lambda>acc c. 10 * acc + digit_val c) 0 s"

text \<open>One \<^verbatim>\<open>%d\<close>: the number and the rest of the input, or \<open>None\<close> for a matching failure.\<close>

definition scan_digits :: "string \<Rightarrow> (nat \<times> string) option" where
  "scan_digits s =
     (case takeWhile is_digit s of [] \<Rightarrow> None | ds \<Rightarrow> Some (digits_val ds, dropWhile is_digit s))"

definition scan_d :: "string \<Rightarrow> (int \<times> string) option" where
  "scan_d s =
     (case dropWhile is_space s of
        [] \<Rightarrow> None
      | c # cs \<Rightarrow>
          (if c = CHR ''-'' then map_option (\<lambda>(n, r). (- int n, r)) (scan_digits cs)
           else if c = CHR ''+'' then map_option (\<lambda>(n, r). (int n, r)) (scan_digits cs)
           else map_option (\<lambda>(n, r). (int n, r)) (scan_digits (c # cs))))"

text \<open>\<^verbatim>\<open>%d,%d,...\<close> with \<open>k\<close> conversions: the values assigned before the first failure.\<close>

fun scan_list :: "nat \<Rightarrow> string \<Rightarrow> int list" where
  "scan_list 0 s = []"
| "scan_list (Suc k) s =
     (case scan_d s of
        None \<Rightarrow> []
      | Some (v, rest) \<Rightarrow>
          v # (case rest of [] \<Rightarrow> [] | c # cs \<Rightarrow> if c = CHR '','' then scan_list k cs else []))"

text \<open>The scanned values overwrite a prefix of the destination array.\<close>

definition scan_into :: "'a list \<Rightarrow> (int \<Rightarrow> 'a) \<Rightarrow> string \<Rightarrow> 'a list" where
  "scan_into dst conv s = (let vs = map conv (scan_list (length dst) s) in vs @ drop (length vs) dst)"

section \<open>Reading lines\<close>

text \<open>
  \<^verbatim>\<open>fgets(line, size, file)\<close>: up to \<open>size - 1\<close> characters, stopping after a newline;
  \<open>None\<close> at the end of the file.
\<close>

fun fgets_take :: "nat \<Rightarrow> string \<Rightarrow> string \<times> string" where
  "fgets_take 0 s = ([], s)"
| "fgets_take (Suc n) [] = ([], [])"
| "fgets_take (Suc n) (c # cs) =
     (if c = CHR 0x0A then ([c], cs) else (let (l, r) = fgets_take n cs in (c # l, r)))"

definition fgets :: "nat \<Rightarrow> string \<Rightarrow> (string \<times> string) option" where
  "fgets sz s = (case s of [] \<Rightarrow> None | _ \<Rightarrow> Some (fgets_take (sz - 1) s))"

lemma fgets_take_append: "fst (fgets_take n s) @ snd (fgets_take n s) = s"
  by (induction n s rule: fgets_take.induct) (auto split: prod.splits)

lemma fgets_take_shorter:
  "0 < n \<Longrightarrow> s \<noteq> [] \<Longrightarrow> length (snd (fgets_take n s)) < length s"
proof -
  assume n: "0 < n" and s: "s \<noteq> []"
  then obtain m c cs where eq: "n = Suc m" "s = c # cs"
    by (metis gr0_implies_Suc list.exhaust)
  have "length (snd (fgets_take m cs)) \<le> length cs"
    using arg_cong [OF fgets_take_append [of m cs], of length] by simp
  with eq show ?thesis by (auto split: prod.splits)
qed

lemma fgets_shorter: "fgets sz s = Some (l, r) \<Longrightarrow> 1 < sz \<Longrightarrow> length r < length s"
  using fgets_take_shorter [of "sz - 1" s] by (auto simp: fgets_def split: list.splits)

lemma fgets_take_line:
  "CHR 0x0A \<notin> set l \<Longrightarrow> length l < n \<Longrightarrow> fgets_take n (l @ CHR 0x0A # r) = (l @ [CHR 0x0A], r)"
proof (induction l arbitrary: n)
  case Nil
  then show ?case by (cases n) auto
next
  case (Cons a l)
  then show ?case by (cases n) auto
qed

section \<open>Round trips\<close>

lemma of_char_digit_chr [simp]: "d < 10 \<Longrightarrow> (of_char (digit_chr d) :: nat) = 48 + d"
  by (simp add: digit_chr_def)

lemma is_digit_digit_chr [simp]: "d < 10 \<Longrightarrow> is_digit (digit_chr d)"
  by (simp add: is_digit_def)

lemma digit_val_digit_chr [simp]: "d < 10 \<Longrightarrow> digit_val (digit_chr d) = d"
  by (simp add: digit_val_def)

lemma digits_nonempty [simp]: "digits n \<noteq> []"
  by (subst digits.simps) simp

lemma digits_all_digit: "c \<in> set (digits n) \<Longrightarrow> is_digit c"
proof (induction n rule: digits.induct)
  case (1 n)
  show ?case
  proof (cases "n < 10")
    case True
    with "1.prems" show ?thesis by (simp add: digits.simps [of n])
  next
    case False
    with "1.prems" have "c \<in> set (digits (n div 10)) \<or> c = digit_chr (n mod 10)"
      by (auto simp: digits.simps [of n])
    with "1.IH" False show ?thesis by auto
  qed
qed

lemma digits_val_append: "digits_val (s @ [c]) = 10 * digits_val s + digit_val c"
  by (simp add: digits_val_def)

lemma digits_val_digits [simp]: "digits_val (digits n) = n"
proof (induction n rule: digits.induct)
  case (1 n)
  show ?case
  proof (cases "n < 10")
    case True
    then show ?thesis by (simp add: digits.simps [of n] digits_val_def)
  next
    case False
    with "1.IH" show ?thesis
      by (subst digits.simps) (simp add: digits_val_append)
  qed
qed

lemma digits_val_zeros: "digits_val (replicate k (CHR ''0'') @ s) = digits_val s"
proof -
  have "foldl (\<lambda>acc c. 10 * acc + digit_val c) 0 (replicate k (CHR ''0'')) = 0"
    by (induction k) (simp_all add: digit_val_def)
  then show ?thesis by (simp add: digits_val_def)
qed

lemma is_digit_0 [simp]: "is_digit (CHR ''0'')"
  by (simp add: is_digit_def)

lemma scan_digits_run:
  assumes "ds \<noteq> []" "\<And>c. c \<in> set ds \<Longrightarrow> is_digit c" "rest = [] \<or> \<not> is_digit (hd rest)"
  shows "scan_digits (ds @ rest) = Some (digits_val ds, rest)"
proof -
  have "takeWhile is_digit (ds @ rest) = ds" "dropWhile is_digit (ds @ rest) = rest"
    using assms(2,3) by (cases rest; simp)+
  with assms(1) show ?thesis
    by (cases ds) (simp_all only: scan_digits_def append_Cons list.case, simp)
qed

lemma is_digit_not_special:
  "is_digit c \<Longrightarrow> \<not> is_space c \<and> c \<noteq> CHR ''-'' \<and> c \<noteq> CHR ''+''"
  by (auto simp: is_digit_def is_space_def)

lemma scan_d_digits:
  assumes "ds \<noteq> []" "\<And>c. c \<in> set ds \<Longrightarrow> is_digit c" "rest = [] \<or> \<not> is_digit (hd rest)"
  shows "scan_d (ds @ rest) = Some (int (digits_val ds), rest)"
proof -
  obtain d ds' where ds: "ds = d # ds'" using assms(1) by (cases ds) auto
  have "\<not> is_space d \<and> d \<noteq> CHR ''-'' \<and> d \<noteq> CHR ''+''"
    using assms(2) ds is_digit_not_special by simp
  then show ?thesis
    using scan_digits_run [OF assms] ds by (simp add: scan_d_def)
qed

lemma scan_d_minus:
  assumes "ds \<noteq> []" "\<And>c. c \<in> set ds \<Longrightarrow> is_digit c" "rest = [] \<or> \<not> is_digit (hd rest)"
  shows "scan_d (CHR ''-'' # ds @ rest) = Some (- int (digits_val ds), rest)"
  using scan_digits_run [OF assms] by (simp add: scan_d_def is_space_def)

lemma scan_d_printf_03d:
  assumes "rest = [] \<or> \<not> is_digit (hd rest)"
  shows "scan_d (printf_03d i @ rest) = Some (i, rest)"
proof -
  let ?ds = "replicate ((if i < 0 then 2 else 3) - length (digits (nat \<bar>i\<bar>))) (CHR ''0'') @ digits (nat \<bar>i\<bar>)"
  have all: "?ds \<noteq> []" "\<And>c. c \<in> set ?ds \<Longrightarrow> is_digit c"
    by (auto dest: digits_all_digit)
  have v: "digits_val ?ds = nat \<bar>i\<bar>"
    by (simp add: digits_val_zeros)
  have "scan_d (CHR ''-'' # ?ds @ rest) = Some (- int (nat \<bar>i\<bar>), rest)"
    using scan_d_minus [OF all assms] v by simp
  moreover have "scan_d (?ds @ rest) = Some (int (nat \<bar>i\<bar>), rest)"
    using scan_d_digits [OF all assms] v by simp
  ultimately show ?thesis
    unfolding printf_03d_def Let_def by (cases "i < 0") (simp_all only: if_True if_False append.simps append_assoc, simp_all)
qed

lemma scan_d_printf_d:
  assumes "rest = [] \<or> \<not> is_digit (hd rest)"
  shows "scan_d (printf_d i @ rest) = Some (i, rest)"
  using scan_d_digits [OF digits_nonempty _ assms] scan_d_minus [OF digits_nonempty _ assms]
    digits_all_digit
  by (simp add: printf_d_def)

lemma not_digit_comma [simp]: "\<not> is_digit (CHR '','')"
  by (simp add: is_digit_def)

lemma printf_03d_chars: "c \<in> set (printf_03d i) \<Longrightarrow> is_digit c \<or> c = CHR ''-''"
  by (auto simp: printf_03d_def Let_def split: if_splits dest: digits_all_digit)

lemma not_newline_if_digit: "is_digit c \<or> c = CHR ''-'' \<or> c = CHR '','' \<Longrightarrow>
  c \<noteq> CHR 0x0A \<and> c \<noteq> CHR 0x0D \<and> c \<noteq> CHR 0x00"
  by (auto simp: is_digit_def)

lemma length_printf_02X [simp]: "length (printf_02X b) = 2"
  by (simp add: printf_02X_def)

lemma hex_chr_inj: "a < 16 \<Longrightarrow> b < 16 \<Longrightarrow> hex_chr a = hex_chr b \<Longrightarrow> a = b"
proof -
  assume ab: "a < 16" "b < 16" "hex_chr a = hex_chr b"
  have "(of_char (hex_chr n) :: nat) = (if n < 10 then 48 + n else 55 + n)" if "n < 16" for n
    using that by (simp add: hex_chr_def)
  then have "(if a < 10 then 48 + a else 55 + a) = (if b < 10 then 48 + b else 55 + b)"
    using ab by metis
  with ab show "a = b" by (simp split: if_splits)
qed

lemma printf_02X_inj: "printf_02X a = printf_02X b \<Longrightarrow> a = b"
proof -
  assume "printf_02X a = printf_02X b"
  then have "unat a div 16 = unat b div 16" "unat a mod 16 = unat b mod 16"
    using unat_u8_less [of a] unat_u8_less [of b] hex_chr_inj [of "unat a div 16" "unat b div 16"]
      hex_chr_inj [of "unat a mod 16" "unat b mod 16"]
    by (simp_all add: printf_02X_def del: unat_u8_less)
  then have "unat a = unat b"
    by (metis div_mult_mod_eq)
  then show "a = b" by (rule unsigned_word_eqI)
qed

lemma hex_chr_nonzero: "d < 16 \<Longrightarrow> hex_chr d \<noteq> CHR 0x00"
proof -
  assume "d < 16"
  then have "(of_char (hex_chr d) :: nat) \<noteq> 0" by (simp add: hex_chr_def)
  moreover have "(of_char (CHR 0x00) :: nat) = 0" by simp
  ultimately show ?thesis by metis
qed

lemma nul_free_printf_02X [simp]: "nul_free (printf_02X b)"
  using unat_u8_less [of b] by (simp add: printf_02X_def hex_chr_nonzero del: unat_u8_less)

end
