(* ===== verification/Time_Spent.thy ===== *)
theory Time_Spent
  imports Prelude
begin

text \<open>
  The millisecond clock, \<^verbatim>\<open>src/main/src/time_spent.cpp\<close>. The hardware timer
  \<^verbatim>\<open>esp_timer_get_time\<close> counts microseconds in 64 bits and is an input;
  \<open>GetStartTime\<close> scales it to milliseconds and keeps 32 bits, so it wraps after about 49
  days. \<open>TimeSpent\<close> samples the clock twice, once for the comparison and once for the
  difference, and takes both samples as arguments.
\<close>

definition FULL_SCALE_VALUE :: u32 where
  "FULL_SCALE_VALUE = 0xffffffff"

definition GetStartTime :: "u64 \<Rightarrow> u32" where
  "GetStartTime timer_us = ucast (timer_us div 1000)"

definition TimeSpent :: "u32 \<Rightarrow> u32 \<Rightarrow> u32 \<Rightarrow> u32 \<Rightarrow> u8" where
  "TimeSpent now1 now2 startTick totalTimeInMs =
     (if now1 \<ge> startTick
      then (if now2 - startTick < totalTimeInMs then 0 else 1)
      else (if FULL_SCALE_VALUE - (startTick - now2) < totalTimeInMs then 0 else 1))"

text \<open>A timeout test at one instant, as the handlers use it.\<close>

definition elapsed :: "u32 \<Rightarrow> u32 \<Rightarrow> u32 \<Rightarrow> bool" where
  "elapsed now startTick totalTimeInMs = (TimeSpent now now startTick totalTimeInMs \<noteq> 0)"

lemma full_scale_minus: "FULL_SCALE_VALUE - (s - n) = (n - s) - 1"
  by (simp add: FULL_SCALE_VALUE_def)

lemma TimeSpent_same_sample:
  "TimeSpent now now s t = 1 \<longleftrightarrow> (if s \<le> now then t \<le> now - s else t \<le> (now - s) - 1)"
  by (auto simp: TimeSpent_def full_scale_minus not_less)

lemma TimeSpent_bool: "TimeSpent now1 now2 s t = 0 \<or> TimeSpent now1 now2 s t = 1"
  by (simp add: TimeSpent_def)

lemma word_dec_le: "(x :: u32) \<noteq> 0 \<Longrightarrow> x - 1 < x"
  by (simp add: word_less_nat_alt unat_minus_one unat_gt_0)

lemma u32_le_dec_iff: "(x :: u32) \<noteq> 0 \<Longrightarrow> t \<le> x - 1 \<longleftrightarrow> t < x"
  by (simp add: word_less_nat_alt word_le_nat_alt unat_minus_one)
     (metis Suc_pred less_Suc_eq_le unat_eq_zero unat_gt_0 word_neq_0_conv)

section \<open>Properties\<close>

text \<open>
  C30. The timeout test is never early and at most one millisecond late, across the wrap of the
  32-bit clock: it reports a timeout only when at least \<open>t\<close> milliseconds, counted modulo
  \<open>2 ^ 32\<close>, have passed since \<open>s\<close>, and always reports one when more than \<open>t\<close>
  have.
\<close>

theorem TimeSpent_accuracy:
  "(TimeSpent now now s t = 1 \<longrightarrow> t \<le> now - s) \<and> (t < now - s \<longrightarrow> TimeSpent now now s t = 1)"
proof (cases "s \<le> now")
  case True
  then show ?thesis by (auto simp: TimeSpent_same_sample)
next
  case False
  then have "now - s \<noteq> 0" by auto
  with False show ?thesis by (auto simp: TimeSpent_same_sample u32_le_dec_iff)
qed

theorem TimeSpent_accuracy_witness:
  "TimeSpent 5 5 0xfffffffd 7 = (1 :: u8) \<and> (7 :: u32) \<le> 5 - 0xfffffffd"
  using TimeSpent_accuracy [of 5 "0xfffffffd" 7] by (simp add: TimeSpent_def FULL_SCALE_VALUE_def)

end
