(* ===== verification/Led.thy ===== *)
theory Led
  imports Prelude
begin

text \<open>
  The LED component, \<^verbatim>\<open>src/main/src/led_app.cpp\<close> and \<^verbatim>\<open>inc/led_app.h\<close>: the state
  the landing pad and the two ears should show. The bus slave copies it into the register block
  the main controller reads. Colours arrive as \<^verbatim>\<open>int\<close> and are stored in
  \<^verbatim>\<open>uint8_t\<close> arrays of three, so they are reduced modulo 256.
\<close>

datatype landing_pad_led_states_et =
    ESP_IDLE_MODE | ESP_PLAYING_AUDIO | ESP_DOWNLOADING_AUDIO | ESP_DOWNLOADING_ERR | ESP_ERR
  | BAT_LOW | ESP_LP_LED_DEFINED_BY_RGB | SHUT_ME_DOWN_BY_ESP | ESP_BUSY_LAMP_MODE
  | POWER_OFF_IF_NO_LAMP | IMMEDIATE_POWER_OFF

fun pad_code :: "landing_pad_led_states_et \<Rightarrow> u8" where
  "pad_code ESP_IDLE_MODE = 0"
| "pad_code ESP_PLAYING_AUDIO = 1"
| "pad_code ESP_DOWNLOADING_AUDIO = 2"
| "pad_code ESP_DOWNLOADING_ERR = 3"
| "pad_code ESP_ERR = 4"
| "pad_code BAT_LOW = 5"
| "pad_code ESP_LP_LED_DEFINED_BY_RGB = 6"
| "pad_code SHUT_ME_DOWN_BY_ESP = 7"
| "pad_code ESP_BUSY_LAMP_MODE = 8"
| "pad_code POWER_OFF_IF_NO_LAMP = 9"
| "pad_code IMMEDIATE_POWER_OFF = 10"

record LED =
  padState :: landing_pad_led_states_et
  leftEarColor :: "u8 list"
  rightEarColor :: "u8 list"
  padColor :: "u8 list"

definition setPadState :: "landing_pad_led_states_et \<Rightarrow> LED \<Rightarrow> LED" where
  "setPadState st l = l\<lparr>padState := st\<rparr>"

definition getPadState :: "LED \<Rightarrow> landing_pad_led_states_et" where
  "getPadState l = padState l"

definition rgb :: "int \<Rightarrow> int \<Rightarrow> int \<Rightarrow> u8 list" where
  "rgb r g b = [word_of_int r, word_of_int g, word_of_int b]"

definition setLandingPadColor :: "int \<Rightarrow> int \<Rightarrow> int \<Rightarrow> LED \<Rightarrow> LED" where
  "setLandingPadColor rVal gVal bVal l =
     l\<lparr>padState := ESP_LP_LED_DEFINED_BY_RGB, padColor := rgb rVal gVal bVal\<rparr>"

definition setLeftEarColor :: "int \<Rightarrow> int \<Rightarrow> int \<Rightarrow> LED \<Rightarrow> LED" where
  "setLeftEarColor rVal gVal bVal l = l\<lparr>leftEarColor := rgb rVal gVal bVal\<rparr>"

definition setRightEarColor :: "int \<Rightarrow> int \<Rightarrow> int \<Rightarrow> LED \<Rightarrow> LED" where
  "setRightEarColor rVal gVal bVal l = l\<lparr>rightEarColor := rgb rVal gVal bVal\<rparr>"

definition getLandingPadColor :: "LED \<Rightarrow> nat \<Rightarrow> u8 option" where
  "getLandingPadColor l i = rd (padColor l) i"

definition getLeftEarColor :: "LED \<Rightarrow> nat \<Rightarrow> u8 option" where
  "getLeftEarColor l i = rd (leftEarColor l) i"

definition getRightEarColor :: "LED \<Rightarrow> nat \<Rightarrow> u8 option" where
  "getRightEarColor l i = rd (rightEarColor l) i"

definition bleWriteLampData :: "int \<Rightarrow> u32 \<Rightarrow> int \<Rightarrow> int \<Rightarrow> int \<Rightarrow> bool" where
  "bleWriteLampData lamp_on duration rVal gVal bVal = True"

definition checkRGBValue :: "int \<Rightarrow> bool" where
  "checkRGBValue v = (if v \<ge> 0 \<and> v \<le> 255 then True else False)"

lemmas led_defs = setPadState_def getPadState_def setLandingPadColor_def setLeftEarColor_def
  setRightEarColor_def getLandingPadColor_def getLeftEarColor_def getRightEarColor_def rgb_def

text \<open>The three arrays have three elements each.\<close>

definition led_wf :: "LED \<Rightarrow> bool" where
  "led_wf l \<longleftrightarrow> length (leftEarColor l) = 3 \<and> length (rightEarColor l) = 3 \<and> length (padColor l) = 3"

lemma led_wf_ops [simp]:
  "led_wf l \<Longrightarrow> led_wf (setPadState st l)"
  "led_wf l \<Longrightarrow> led_wf (setLandingPadColor r g b l)"
  "led_wf l \<Longrightarrow> led_wf (setLeftEarColor r g b l)"
  "led_wf l \<Longrightarrow> led_wf (setRightEarColor r g b l)"
  by (simp_all add: led_wf_def led_defs)

lemma led_getters [cmem]:
  assumes "led_wf l" "i < 3"
  shows "getLandingPadColor l i = Some (padColor l ! i)"
    and "getLeftEarColor l i = Some (leftEarColor l ! i)"
    and "getRightEarColor l i = Some (rightEarColor l ! i)"
  using assms by (simp_all add: led_wf_def led_defs)

end
