(* ===== verification/Firmware.thy ===== *)
theory Firmware
  imports Cstdio Time_Spent Led
begin

text \<open>
  The state the firmware's components share, and the small operations of the \<open>System\<close>
  object every other component calls (\<^verbatim>\<open>src/main/src/system.cpp\<close>,
  \<^verbatim>\<open>inc/system.h\<close>).

  One record per class: \<open>System\<close>, \<open>Player\<close>, \<open>WiFi\<close>; the globals of
  \<^verbatim>\<open>system.cpp\<close>, \<^verbatim>\<open>player.cpp\<close> and \<^verbatim>\<open>qbus_s.cpp\<close> in \<open>globals\<close>; the SD
  card in \<open>sdcard\<close>. \<open>world\<close> holds them together as \<^verbatim>\<open>main.cpp\<close> does.

  Code outside the repository is not modelled. What it answers is an argument (the clock, the
  state of the audio element, the bits of the event group, the cJSON functions of the record
  \<open>cJSON\<close>); what the firmware asks it to do is recorded, in order, in the field \<open>calls\<close>.
\<close>

section \<open>States of the system\<close>

datatype system_states_et =
    SYS_POST | SYS_INIT | SYS_IDLE | SYS_INIT_WIFI_CHECK | SYS_INIT_USER_ID_CHECK
  | SYS_TOY_DETECTED | SYS_PLAY_TOY | SYS_WAIT_FOR_PLAYER | SYS_PLAYING_COMPLETE | SYS_PLAY_NEXT
  | SYS_PLAY_PREVIOUS | SYS_RESUME_PLAYING | SYS_GET_DIRECTION | SYS_ERROR
  | SYS_READ_AUDIO_HEADER | SYS_PLAY_ACTIVITY | SYS_WAIT_ACTIVITY_RESP | SYS_PLAY_QNA
  | SYS_WAIT_QNA_RESP | SYS_INCORRECT_ANS_TRY1 | SYS_CORRECT_ANS | SYS_PLAY_NORMAL_AUDIO
  | SYS_DOWNLOAD_WIFI_CONN | SYS_DOWNLOAD_TOY | SYS_WIFI_CONNECT_ERR
  | SYS_WIFI_CRED_MISSING_ERR | SYS_SHUT_ME_DOWN | SYS_TURN_OFF

fun state_code :: "system_states_et \<Rightarrow> nat" where
  "state_code SYS_POST = 0"
| "state_code SYS_INIT = 1"
| "state_code SYS_IDLE = 2"
| "state_code SYS_INIT_WIFI_CHECK = 3"
| "state_code SYS_INIT_USER_ID_CHECK = 4"
| "state_code SYS_TOY_DETECTED = 5"
| "state_code SYS_PLAY_TOY = 6"
| "state_code SYS_WAIT_FOR_PLAYER = 7"
| "state_code SYS_PLAYING_COMPLETE = 8"
| "state_code SYS_PLAY_NEXT = 9"
| "state_code SYS_PLAY_PREVIOUS = 10"
| "state_code SYS_RESUME_PLAYING = 11"
| "state_code SYS_GET_DIRECTION = 12"
| "state_code SYS_ERROR = 13"
| "state_code SYS_READ_AUDIO_HEADER = 14"
| "state_code SYS_PLAY_ACTIVITY = 15"
| "state_code SYS_WAIT_ACTIVITY_RESP = 16"
| "state_code SYS_PLAY_QNA = 17"
| "state_code SYS_WAIT_QNA_RESP = 18"
| "state_code SYS_INCORRECT_ANS_TRY1 = 19"
| "state_code SYS_CORRECT_ANS = 20"
| "state_code SYS_PLAY_NORMAL_AUDIO = 21"
| "state_code SYS_DOWNLOAD_WIFI_CONN = 22"
| "state_code SYS_DOWNLOAD_TOY = 23"
| "state_code SYS_WIFI_CONNECT_ERR = 24"
| "state_code SYS_WIFI_CRED_MISSING_ERR = 25"
| "state_code SYS_SHUT_ME_DOWN = 26"
| "state_code SYS_TURN_OFF = 27"

lemma state_code_inj: "state_code a = state_code b \<Longrightarrow> a = b"
  by (cases a; cases b; simp)

text \<open>C compares enumerators by their codes; \<^verbatim>\<open>Player::next\<close> relies on it.\<close>

instantiation system_states_et :: linorder
begin

definition less_eq_system_states_et :: "system_states_et \<Rightarrow> system_states_et \<Rightarrow> bool" where
  "less_eq_system_states_et a b = (state_code a \<le> state_code b)"

definition less_system_states_et :: "system_states_et \<Rightarrow> system_states_et \<Rightarrow> bool" where
  "less_system_states_et a b = (state_code a < state_code b)"

instance
  by standard (auto simp: less_eq_system_states_et_def less_system_states_et_def
    intro: state_code_inj)

end

text \<open>
  \<^verbatim>\<open>turn_table_direction_et\<close>. The bus casts any byte to it, so the model keeps the byte.
\<close>

definition eNORTH :: u8 where "eNORTH = 0"
definition eEAST :: u8 where "eEAST = 1"
definition eWEST :: u8 where "eWEST = 2"
definition eSOUTH :: u8 where "eSOUTH = 3"
definition eBLANK :: u8 where "eBLANK = 4"

lemmas directions = eNORTH_def eEAST_def eWEST_def eSOUTH_def eBLANK_def

fun SystemStateToString :: "system_states_et \<Rightarrow> string" where
  "SystemStateToString SYS_POST = ''SYS_POST''"
| "SystemStateToString SYS_INIT = ''SYS_INIT''"
| "SystemStateToString SYS_IDLE = ''SYS_IDLE''"
| "SystemStateToString SYS_WAIT_FOR_PLAYER = ''SYS_WAIT_FOR_PLAYER''"
| "SystemStateToString SYS_PLAY_NEXT = ''SYS_PLAY_NEXT''"
| "SystemStateToString SYS_RESUME_PLAYING = ''SYS_RESUME_PLAYING''"
| "SystemStateToString SYS_TOY_DETECTED = ''SYS_TOY_DETECTED''"
| "SystemStateToString SYS_PLAY_TOY = ''SYS_PLAY_TOY''"
| "SystemStateToString SYS_GET_DIRECTION = ''SYS_GET_DIRECTION''"
| "SystemStateToString SYS_READ_AUDIO_HEADER = ''SYS_READ_AUDIO_HEADER''"
| "SystemStateToString SYS_PLAY_ACTIVITY = ''SYS_PLAY_ACTIVITY''"
| "SystemStateToString SYS_PLAY_QNA = ''SYS_PLAY_QNA''"
| "SystemStateToString SYS_WAIT_QNA_RESP = ''SYS_WAIT_QNA_RESP''"
| "SystemStateToString SYS_PLAY_NORMAL_AUDIO = ''SYS_PLAY_NORMAL_AUDIO''"
| "SystemStateToString SYS_DOWNLOAD_WIFI_CONN = ''SYS_DOWNLOAD_WIFI_CONN''"
| "SystemStateToString SYS_DOWNLOAD_TOY = ''SYS_DOWNLOAD_TOY''"
| "SystemStateToString SYS_WIFI_CONNECT_ERR = ''SYS_WIFI_CONNECT_ERR''"
| "SystemStateToString SYS_WIFI_CRED_MISSING_ERR = ''SYS_WIFI_CRED_MISSING_ERR''"
| "SystemStateToString SYS_SHUT_ME_DOWN = ''SYS_SHUT_ME_DOWN''"
| "SystemStateToString SYS_TURN_OFF = ''SYS_TURN_OFF''"
| "SystemStateToString SYS_ERROR = ''SYS_ERROR''"
| "SystemStateToString _ = ''UNKNOWN_STATE''"

section \<open>The outside\<close>

datatype audio_element_state_t =
    AEL_STATE_NONE | AEL_STATE_INIT | AEL_STATE_INITIALIZING | AEL_STATE_RUNNING
  | AEL_STATE_PAUSED | AEL_STATE_STOPPED | AEL_STATE_FINISHED | AEL_STATE_ERROR

datatype ext_call =
    Audio_pipeline_stop | Audio_pipeline_wait_for_stop | Audio_pipeline_terminate
  | Audio_pipeline_pause | Audio_pipeline_resume | Audio_pipeline_run
  | Audio_pipeline_reset_ringbuffer | Audio_pipeline_reset_elements
  | Audio_element_set_uri string | Audio_sync_clock | Audio_hal_set_volume int
  | Audio_pipeline_init | Ble_init | Ble_notify string
  | Uart_write u8
  | Wifi_start string string | Wifi_stop | Wifi_connect | Wifi_disconnect | Wifi_driver_init
  | Event_set_bits u32 | Sdcard_mount | Ble_deinit | Nvs_init | Nvs_erase | Task_create string

text \<open>
  cJSON, a library of the build. \<open>item_string\<close> is \<^verbatim>\<open>valuestring\<close> of an item that
  \<^verbatim>\<open>cJSON_IsString\<close> accepts and \<open>item_int\<close> is \<^verbatim>\<open>valueint\<close> of one that
  \<^verbatim>\<open>cJSON_IsNumber\<close> accepts; \<open>valueint\<close> is the field of any item.
  \<open>get_object_item_cs\<close> is the lookup that distinguishes case.
\<close>

record 'j cJSON =
  parse :: "string \<Rightarrow> 'j option"
  get_object_item :: "'j \<Rightarrow> string \<Rightarrow> 'j option"
  get_object_item_cs :: "'j \<Rightarrow> string \<Rightarrow> 'j option"
  get_array_size :: "'j \<Rightarrow> nat"
  get_array_item :: "'j \<Rightarrow> nat \<Rightarrow> 'j option"
  is_array :: "'j \<Rightarrow> bool"
  is_true :: "'j \<Rightarrow> bool"
  item_string :: "'j \<Rightarrow> string option"
  item_int :: "'j \<Rightarrow> int option"
  valueint :: "'j \<Rightarrow> int"

section \<open>Records\<close>

record 'j System =
  sys_state :: system_states_et
  playerGoBackToState :: system_states_et
  toy :: string
  previousToy :: string
  turnTable :: u8
  previousTurntable :: u8
  macID :: string
  uniqueBoxID :: string
  boxName :: string
  sys_user1 :: string
  sys_user2 :: string
  idleSinceTick :: u32
  toyRemovalTick :: u32
  init_ssid :: string
  init_password :: string
  init_user1 :: string
  init_user2 :: string
  toyPresenseFlag :: bool
  toyPlacedOnce :: bool
  chargingState :: u8
  powerState :: u8
  batteryLevel :: u8
  leftEarButtonState :: bool
  rightEarButtonState :: bool
  sys_json :: "'j option"

record Player =
  volume :: u8
  maxVolume :: u8
  brightnessData :: "u8 list"
  fileFinishedPlaying :: bool

record Header =
  hT :: int
  hA :: int
  hL :: "int list"
  hR :: "int list"
  hZ :: string

record WiFi =
  wifi_count :: int
  connected :: bool
  connectFlag :: bool
  cred_ssid :: string
  cred_password :: string
  wifiInitDoneFlag :: bool

record globals =
  indexx :: u8
  qnaAttempt :: u8
  themeColor :: "u8 list"
  responseWaitTick :: u32
  isResponseRequiredFlag :: bool
  headerData :: Header
  audioIndex :: string
  location :: string
  playerFilename :: string
  tagUid_qbus :: string
  previousTagUid :: string
  tagPresentFlag_qbus :: u8
  qbusDataBuff :: "u8 list"
  validTokenFlag :: bool
  tokenRequestFlag :: bool
  accessToken :: string
  sys_outputBuff :: string
  bleReady :: bool

text \<open>
  The card: the contents of its files; the paths the medium takes a write at (it is not full and
  not read-only there); for every directory what \<^verbatim>\<open>readdir\<close> lists, the flag telling
  regular files from directories.
\<close>

record sdcard =
  files :: "string \<Rightarrow> string option"
  writable :: "string \<Rightarrow> bool"
  dirents :: "string \<Rightarrow> (string \<times> bool) list option"

text \<open>
  What one \<^verbatim>\<open>esp_http_client_perform\<close> did: the events it raised, in order, whether it
  returned \<^verbatim>\<open>ESP_OK\<close>, and the status code.
\<close>

datatype http_event =
    HTTP_EVENT_ERROR | HTTP_EVENT_REDIRECT | HTTP_EVENT_ON_CONNECTED | HTTP_EVENT_HEADER_SENT
  | HTTP_EVENT_ON_HEADER string string | HTTP_EVENT_ON_DATA string
  | HTTP_EVENT_ON_FINISH | HTTP_EVENT_DISCONNECTED

record http_result =
  events :: "http_event list"
  perform_ok :: bool
  status_code :: int

text \<open>
  The variables of \<^verbatim>\<open>downloader.cpp\<close>. An open \<^verbatim>\<open>FILE *\<close> is the path it was opened
  at; \<^verbatim>\<open>N_server\<close> and \<^verbatim>\<open>direction_file_names\<close> are the lists of their
  \<^verbatim>\<open>N_count\<close> and \<^verbatim>\<open>direction_file_count\<close> strings, an entry \<^verbatim>\<open>malloc\<close> left
  uninitialised being \<open>None\<close>.
\<close>

record 'j Downloader =
  dl_outputBuff :: string
  response_buffer :: string
  master_file :: "string option"
  direction_file_names :: "string option list"
  N_server :: "string list option"
  media_json :: "'j option"
  baseUrl :: string
  output_buffer :: string
  output_len :: nat
  mp3_file :: "string option"
  download_buffer :: string
  buffer_pos :: nat

record 'j world =
  led :: LED
  sys :: "'j System"
  player :: Player
  wifi :: WiFi
  glob :: globals
  sd :: sdcard
  dl :: "'j Downloader"
  calls :: "ext_call list"
  ext_waits :: "u32 list"
  ext_http :: "http_result list"

text \<open>
  \<open>ext_waits\<close> and \<open>ext_http\<close> are what the event group and the HTTP client will answer, in
  the order they are asked; a device that is asked more than that gets a time-out and a failed
  request.
\<close>

definition call :: "ext_call \<Rightarrow> 'j world \<Rightarrow> 'j world" where
  "call c w = w\<lparr>calls := calls w @ [c]\<rparr>"

definition call_all :: "ext_call list \<Rightarrow> 'j world \<Rightarrow> 'j world" where
  "call_all cs w = w\<lparr>calls := calls w @ cs\<rparr>"

definition on_led :: "(LED \<Rightarrow> LED) \<Rightarrow> 'j world \<Rightarrow> 'j world" where
  "on_led f w = w\<lparr>led := f (led w)\<rparr>"

definition on_sys :: "('j System \<Rightarrow> 'j System) \<Rightarrow> 'j world \<Rightarrow> 'j world" where
  "on_sys f w = w\<lparr>sys := f (sys w)\<rparr>"

definition on_player :: "(Player \<Rightarrow> Player) \<Rightarrow> 'j world \<Rightarrow> 'j world" where
  "on_player f w = w\<lparr>player := f (player w)\<rparr>"

definition on_wifi :: "(WiFi \<Rightarrow> WiFi) \<Rightarrow> 'j world \<Rightarrow> 'j world" where
  "on_wifi f w = w\<lparr>wifi := f (wifi w)\<rparr>"

definition on_glob :: "(globals \<Rightarrow> globals) \<Rightarrow> 'j world \<Rightarrow> 'j world" where
  "on_glob f w = w\<lparr>glob := f (glob w)\<rparr>"

definition on_dl :: "('j Downloader \<Rightarrow> 'j Downloader) \<Rightarrow> 'j world \<Rightarrow> 'j world" where
  "on_dl f w = w\<lparr>dl := f (dl w)\<rparr>"

definition on_sd :: "(sdcard \<Rightarrow> sdcard) \<Rightarrow> 'j world \<Rightarrow> 'j world" where
  "on_sd f w = w\<lparr>sd := f (sd w)\<rparr>"

lemmas on_defs = call_def call_all_def on_led_def on_sys_def on_player_def on_wifi_def on_glob_def
  on_dl_def on_sd_def

section \<open>Files\<close>

text \<open>
  \<^verbatim>\<open>SdCard::read\<close> and \<^verbatim>\<open>SdCard::write\<close> are \<^verbatim>\<open>fread\<close> and \<^verbatim>\<open>fwrite\<close> with
  element size 1. A read of up to \<open>n\<close> bytes replaces a prefix of the buffer.
\<close>

definition fopen_r :: "sdcard \<Rightarrow> string \<Rightarrow> string option" where
  "fopen_r s p = files s p"

definition sd_read :: "'a list \<Rightarrow> (char \<Rightarrow> 'a) \<Rightarrow> nat \<Rightarrow> string \<Rightarrow> 'a list option" where
  "sd_read buf conv n content = wr_block buf 0 (map conv (take n content))"

definition dirname :: "string \<Rightarrow> string" where
  "dirname p = rev (drop 1 (dropWhile (\<lambda>c. c \<noteq> CHR ''/'') (rev p)))"

definition basename :: "string \<Rightarrow> string" where
  "basename p = rev (takeWhile (\<lambda>c. c \<noteq> CHR ''/'') (rev p))"

definition norm_dir :: "string \<Rightarrow> string" where
  "norm_dir p = (if p \<noteq> [] \<and> last p = CHR ''/'' then butlast p else p)"

definition opendir :: "sdcard \<Rightarrow> string \<Rightarrow> (string \<times> bool) list option" where
  "opendir s p = dirents s (norm_dir p)"

text \<open>\<^verbatim>\<open>fopen(p, "w")\<close> succeeds when the directory is there and the medium takes it.\<close>

definition fopen_w :: "sdcard \<Rightarrow> string \<Rightarrow> bool" where
  "fopen_w s p = (writable s p \<and> dirents s (dirname p) \<noteq> None)"

definition add_entry :: "string \<Rightarrow> bool \<Rightarrow> sdcard \<Rightarrow> sdcard" where
  "add_entry p regular s =
     (case dirents s (dirname p) of
        None \<Rightarrow> s
      | Some es \<Rightarrow>
          if basename p \<in> set (map fst es) then s
          else s\<lparr>dirents := (dirents s)(dirname p \<mapsto> es @ [(basename p, regular)])\<rparr>)"

definition write_file :: "string \<Rightarrow> string \<Rightarrow> sdcard \<Rightarrow> sdcard" where
  "write_file p content s = add_entry p True (s\<lparr>files := (files s)(p \<mapsto> content)\<rparr>)"

definition append_file :: "string \<Rightarrow> string \<Rightarrow> sdcard \<Rightarrow> sdcard" where
  "append_file p content s =
     s\<lparr>files := (files s)(p \<mapsto> (case files s p of Some c \<Rightarrow> c | None \<Rightarrow> []) @ content)\<rparr>"

text \<open>
  \<^verbatim>\<open>mkdir\<close>: success, the entry was there already (\<^verbatim>\<open>EEXIST\<close>), or another error.
\<close>

datatype mkdir_result = MK_OK | MK_EEXIST | MK_FAIL

definition mkdir :: "string \<Rightarrow> sdcard \<Rightarrow> sdcard \<times> mkdir_result" where
  "mkdir p s =
     (if dirents s p \<noteq> None \<or> files s p \<noteq> None then (s, MK_EEXIST)
      else if writable s p \<and> dirents s (dirname p) \<noteq> None
      then (let s1 = add_entry p False s in (s1\<lparr>dirents := (dirents s1)(p \<mapsto> [])\<rparr>, MK_OK))
      else (s, MK_FAIL))"

definition remove_entry :: "string \<Rightarrow> sdcard \<Rightarrow> sdcard" where
  "remove_entry p s =
     (case dirents s (dirname p) of
        None \<Rightarrow> s
      | Some es \<Rightarrow> s\<lparr>dirents := (dirents s)(dirname p \<mapsto> filter (\<lambda>e. fst e \<noteq> basename p) es)\<rparr>)"

text \<open>\<^verbatim>\<open>rename\<close> on this file system fails when the target exists.\<close>

definition rename :: "string \<Rightarrow> string \<Rightarrow> sdcard \<Rightarrow> sdcard option" where
  "rename a b s =
     (case files s a of
        None \<Rightarrow> None
      | Some c \<Rightarrow>
          if files s b \<noteq> None \<or> dirents s b \<noteq> None \<or> \<not> fopen_w s b then None
          else Some (write_file b c (remove_entry a (s\<lparr>files := (files s)(a := None)\<rparr>))))"

lemma add_entry_simps [simp]:
  "files (add_entry p r s) = files s" "writable (add_entry p r s) = writable s"
  "dirents (add_entry p r s) d = None \<longleftrightarrow> dirents s d = None"
  by (simp_all add: add_entry_def split: option.split)

lemma write_file_simps [simp]:
  "files (write_file p c s) = (files s)(p \<mapsto> c)" "writable (write_file p c s) = writable s"
  "dirents (write_file p c s) d = None \<longleftrightarrow> dirents s d = None"
  by (simp_all add: write_file_def)

lemma fopen_write_file [simp]:
  "fopen_r (write_file p c s) q = (if q = p then Some c else fopen_r s q)"
  by (simp add: fopen_r_def)

lemma fopen_w_write_file [simp]: "fopen_w (write_file p c s) q = fopen_w s q"
  by (simp add: fopen_w_def)

lemma fopen_w_append_file [simp]: "fopen_w (append_file p c s) q = fopen_w s q"
  by (simp add: fopen_w_def append_file_def)

section \<open>Operations of the System object\<close>

definition setState :: "u32 \<Rightarrow> system_states_et \<Rightarrow> 'j System \<Rightarrow> 'j System" where
  "setState now st s =
     (let s = (if st = SYS_IDLE then s\<lparr>idleSinceTick := now\<rparr> else s) in s\<lparr>sys_state := st\<rparr>)"

definition set_state :: "u32 \<Rightarrow> system_states_et \<Rightarrow> 'j world \<Rightarrow> 'j world" where
  "set_state now st = on_sys (setState now st)"

definition setPowerStatus :: "u8 \<Rightarrow> 'j System \<Rightarrow> 'j System" where
  "setPowerStatus v s = s\<lparr>powerState := v\<rparr>"

definition getPowerStatus :: "'j System \<Rightarrow> u8" where
  "getPowerStatus s = powerState s"

definition setChargingStatus :: "u8 \<Rightarrow> 'j System \<Rightarrow> 'j System" where
  "setChargingStatus v s = s\<lparr>chargingState := v\<rparr>"

definition getChargingStatus :: "'j System \<Rightarrow> u8" where
  "getChargingStatus s = chargingState s"

definition setBatteryLevel :: "u8 \<Rightarrow> 'j System \<Rightarrow> 'j System" where
  "setBatteryLevel v s = s\<lparr>batteryLevel := v\<rparr>"

definition getBatteryLevel :: "'j System \<Rightarrow> u8" where
  "getBatteryLevel s = batteryLevel s"

definition getTurnTable :: "'j System \<Rightarrow> u8" where
  "getTurnTable s = turnTable s"

definition setTurnTable :: "u8 \<Rightarrow> 'j System \<Rightarrow> 'j System" where
  "setTurnTable v s = s\<lparr>turnTable := v\<rparr>"

definition setToy :: "string \<Rightarrow> 'j System \<Rightarrow> 'j System option" where
  "setToy t s = do {
     t' \<leftarrow> strcpy (zeros 20) t;
     Some (s\<lparr>toy := t', toyPresenseFlag := True\<rparr>)
   }"

definition setRightEarButton :: "bool \<Rightarrow> 'j System \<Rightarrow> 'j System" where
  "setRightEarButton v s = s\<lparr>rightEarButtonState := v\<rparr>"

definition setLeftEarButton :: "bool \<Rightarrow> 'j System \<Rightarrow> 'j System" where
  "setLeftEarButton v s = s\<lparr>leftEarButtonState := v\<rparr>"

definition getRightEarButton :: "'j System \<Rightarrow> bool" where
  "getRightEarButton s = rightEarButtonState s"

definition getLeftEarButton :: "'j System \<Rightarrow> bool" where
  "getLeftEarButton s = leftEarButtonState s"

lemmas sys_setters = setState_def set_state_def setPowerStatus_def getPowerStatus_def
  setChargingStatus_def getChargingStatus_def setBatteryLevel_def getBatteryLevel_def
  getTurnTable_def setTurnTable_def setRightEarButton_def setLeftEarButton_def
  getRightEarButton_def getLeftEarButton_def

section \<open>Identity of the box and its users\<close>

abbreviation USER_ID1_SDCARD_LOCATION :: string where
  "USER_ID1_SDCARD_LOCATION \<equiv> ''/sdcard/data/user1.cubbies''"
abbreviation USER_ID2_SDCARD_LOCATION :: string where
  "USER_ID2_SDCARD_LOCATION \<equiv> ''/sdcard/data/user2.cubbies''"
abbreviation BOX_ID_SDCARD_LOCATION :: string where
  "BOX_ID_SDCARD_LOCATION \<equiv> ''/sdcard/data/boxid.cubbies''"
abbreviation BOX_NAME_SDCARD_LOCATION :: string where
  "BOX_NAME_SDCARD_LOCATION \<equiv> ''/sdcard/data/boxname.cubbies''"

definition System_init :: "u8 list \<Rightarrow> 'j System \<Rightarrow> 'j System option" where
  "System_init mac s =
     (case mac of
        [a, b, c, d, e, f] \<Rightarrow> do {
          m \<leftarrow> sprintf_buf 20 (printf_02X a @ '':'' @ printf_02X b @ '':'' @ printf_02X c @ '':'' @
            printf_02X d @ '':'' @ printf_02X e @ '':'' @ printf_02X f);
          Some (s\<lparr>macID := m, sys_state := SYS_POST, powerState := 0\<rparr>)
        }
      | _ \<Rightarrow> None)"

definition System_initialize ::
  "u32 \<Rightarrow> string \<Rightarrow> string \<Rightarrow> string \<Rightarrow> 'j System \<Rightarrow> 'j System option" where
  "System_initialize now ssid password user1 s = do {
     a \<leftarrow> strcpy (zeros 32) ssid;
     b \<leftarrow> strcpy (zeros 64) password;
     c \<leftarrow> strcpy (zeros 50) user1;
     Some (setState now SYS_INIT_WIFI_CHECK
             (s\<lparr>init_ssid := a, init_password := b, init_user1 := c\<rparr>))
   }"

definition verifyUserID :: "u32 \<Rightarrow> string \<Rightarrow> u8 \<Rightarrow> 'j System \<Rightarrow> 'j System option" where
  "verifyUserID now userToCheck userNo s = do {
     s1 \<leftarrow> (if userNo = 1 then do { a \<leftarrow> strcpy (zeros 50) userToCheck; Some (s\<lparr>init_user1 := a\<rparr>) }
           else if userNo = 2 then do { a \<leftarrow> strcpy (zeros 50) userToCheck; Some (s\<lparr>init_user2 := a\<rparr>) }
           else Some s);
     Some (setState now SYS_INIT_USER_ID_CHECK s1)
   }"

definition ReadBoxUniqueID :: "'j world \<Rightarrow> ('j world \<times> bool) option" where
  "ReadBoxUniqueID w =
     (case fopen_r (sd w) BOX_ID_SDCARD_LOCATION of
        Some content \<Rightarrow> do {
          b \<leftarrow> sd_read (zeros 40) id 36 content;
          Some (on_sys (\<lambda>s. s\<lparr>uniqueBoxID := b\<rparr>) w, True)
        }
      | None \<Rightarrow> Some (on_sys (\<lambda>s. s\<lparr>uniqueBoxID := zeros 40\<rparr>) w, False))"

definition getUserID :: "int \<Rightarrow> 'j System \<Rightarrow> string option" where
  "getUserID userIndex s =
     (if userIndex = 1 then Some (sys_user1 s)
      else if userIndex = 2 then Some (sys_user2 s)
      else None)"

definition writeUserID :: "int \<Rightarrow> string \<Rightarrow> 'j world \<Rightarrow> 'j world option" where
  "writeUserID userIndex user w =
     (if userIndex = 1 then do {
        u \<leftarrow> strncpy (zeros 40) user 36;
        let w1 = on_sys (\<lambda>s. s\<lparr>sys_user1 := u\<rparr>) w;
        Some (if fopen_w (sd w) USER_ID1_SDCARD_LOCATION
              then on_sd (write_file USER_ID1_SDCARD_LOCATION (take 36 u)) w1 else w1)
      } else if userIndex = 2 then do {
        u \<leftarrow> strncpy (zeros 40) user 36;
        let w1 = on_sys (\<lambda>s. s\<lparr>sys_user2 := u\<rparr>) w;
        Some (if fopen_w (sd w) USER_ID2_SDCARD_LOCATION
              then on_sd (write_file USER_ID2_SDCARD_LOCATION (take 36 u)) w1 else w1)
      } else Some w)"

definition verifyUser :: "string \<Rightarrow> 'j System \<Rightarrow> bool" where
  "verifyUser user s = (cstr (sys_user1 s) = cstr user \<or> cstr (sys_user2 s) = cstr user)"

definition readUserIDs :: "'j world \<Rightarrow> 'j world option" where
  "readUserIDs w = do {
     u1 \<leftarrow> (case fopen_r (sd w) USER_ID1_SDCARD_LOCATION of
              Some content \<Rightarrow> sd_read (sys_user1 (sys w)) id 36 content
            | None \<Rightarrow> Some (zeros 40));
     u2 \<leftarrow> (case fopen_r (sd w) USER_ID2_SDCARD_LOCATION of
              Some content \<Rightarrow> sd_read (sys_user2 (sys w)) id 36 content
            | None \<Rightarrow> Some (zeros 40));
     Some (on_sys (\<lambda>s. s\<lparr>sys_user1 := u1, sys_user2 := u2\<rparr>) w)
   }"

definition isBoxInitialized :: "'j System \<Rightarrow> bool" where
  "isBoxInitialized s =
     (if length (cstr (sys_user1 s)) = 0 \<and> length (cstr (sys_user2 s)) = 0 then False else True)"

definition ReadBoxName :: "'j world \<Rightarrow> ('j world \<times> bool) option" where
  "ReadBoxName w =
     (case fopen_r (sd w) BOX_NAME_SDCARD_LOCATION of
        Some content \<Rightarrow> do {
          b \<leftarrow> sd_read (boxName (sys w)) id 100 content;
          Some (on_sys (\<lambda>s. s\<lparr>boxName := b\<rparr>) w, True)
        }
      | None \<Rightarrow> Some (on_sys (\<lambda>s. s\<lparr>boxName := zeros 100\<rparr>) w, False))"

definition WriteBoxName :: "string \<Rightarrow> 'j world \<Rightarrow> 'j world option" where
  "WriteBoxName name w = do {
     b \<leftarrow> strcpy (zeros 100) name;
     let w1 = on_sys (\<lambda>s. s\<lparr>boxName := b\<rparr>) w;
     Some (if fopen_w (sd w) BOX_NAME_SDCARD_LOCATION
           then on_sd (write_file BOX_NAME_SDCARD_LOCATION b) w1 else w1)
   }"

section \<open>A device after reset\<close>

text \<open>
  The objects \<^verbatim>\<open>main.cpp\<close> creates, on a card with the directories of \<^verbatim>\<open>setupFiles\<close>
  that takes every write. Members the
  constructors leave unset are zero here; the bus sets battery, charger and ear buttons before
  they matter.
\<close>

definition boot_LED :: LED where
  "boot_LED = \<lparr>padState = ESP_IDLE_MODE, leftEarColor = [0, 0, 0], rightEarColor = [0, 0, 0],
     padColor = [0, 0, 0]\<rparr>"

definition boot_System :: "'j System" where
  "boot_System = \<lparr>sys_state = SYS_POST, playerGoBackToState = SYS_POST, toy = zeros 20,
     previousToy = zeros 20, turnTable = eNORTH, previousTurntable = eBLANK, macID = zeros 20,
     uniqueBoxID = zeros 40, boxName = zeros 100, sys_user1 = zeros 40, sys_user2 = zeros 40,
     idleSinceTick = 0, toyRemovalTick = 0, init_ssid = zeros 32, init_password = zeros 64,
     init_user1 = zeros 50, init_user2 = zeros 50, toyPresenseFlag = False, toyPlacedOnce = False,
     chargingState = 0, powerState = 0, batteryLevel = 0, leftEarButtonState = False,
     rightEarButtonState = False, sys_json = None\<rparr>"

definition boot_globals :: globals where
  "boot_globals = \<lparr>indexx = 0, qnaAttempt = 0, themeColor = [0, 0, 0], responseWaitTick = 0,
     isResponseRequiredFlag = False,
     headerData = \<lparr>hT = 0, hA = 0, hL = [0, 0, 0], hR = [0, 0, 0], hZ = zeros 20\<rparr>,
     audioIndex = [], location = [], playerFilename = [], tagUid_qbus = zeros 20,
     previousTagUid = zeros 20, tagPresentFlag_qbus = 0, qbusDataBuff = replicate 20 0,
     validTokenFlag = False, tokenRequestFlag = False, accessToken = zeros 40,
     sys_outputBuff = zeros 1024, bleReady = False\<rparr>"

definition boot_Downloader :: "'j Downloader" where
  "boot_Downloader = \<lparr>dl_outputBuff = zeros 2048, response_buffer = [], master_file = None,
     direction_file_names = [], N_server = None, media_json = None, baseUrl = zeros 256,
     output_buffer = zeros 4096, output_len = 0, mp3_file = None, download_buffer = zeros 4096,
     buffer_pos = 0\<rparr>"

definition boot_world :: "'j world" where
  "boot_world = \<lparr>led = boot_LED, sys = boot_System,
     player = \<lparr>volume = 0, maxVolume = 0, brightnessData = replicate 7 0, fileFinishedPlaying = False\<rparr>,
     wifi = \<lparr>wifi_count = 0, connected = False, connectFlag = False, cred_ssid = zeros 32,
       cred_password = zeros 64, wifiInitDoneFlag = False\<rparr>,
     glob = boot_globals,
     sd = \<lparr>files = Map.empty, writable = (\<lambda>_. True), dirents = [''/sdcard'' \<mapsto> [],
       ''/sdcard/data'' \<mapsto> [], ''/sdcard/media'' \<mapsto> [], ''/sdcard/media/audio'' \<mapsto> [],
       ''/sdcard/media/toys'' \<mapsto> []]\<rparr>,
     dl = boot_Downloader, calls = [], ext_waits = [], ext_http = []\<rparr>"

lemmas boot_defs = boot_world_def boot_System_def boot_globals_def boot_LED_def boot_Downloader_def

lemma boot_fopen_w [simp]:
  "fopen_w (sd boot_world) ''/sdcard/data/volume.cubbies''"
  "fopen_w (sd boot_world) ''/sdcard/data/brightness.cubbies''"
  by (simp_all add: boot_world_def fopen_w_def dirname_def)

end
