(* ===== verification/Player_App.thy ===== *)
theory Player_App
  imports Firmware
begin

text \<open>
  The player, \<^verbatim>\<open>src/main/src/player.cpp\<close>: volume and its file, the header of an audio
  file, and the commands that drive the audio pipeline of ESP-ADF. The state of the pipeline's
  writer element is what \<^verbatim>\<open>audio_element_get_state\<close> answers and is the argument
  \<open>el\<close>; every call to the pipeline is recorded.

  Inside the methods \<^verbatim>\<open>volume\<close> and \<^verbatim>\<open>maxVolume\<close> name the members of the class (or,
  in \<^verbatim>\<open>setVolume\<close> and \<^verbatim>\<open>setMaxVolume\<close>, the parameter), never the globals of the same
  name. Closing a file that could not be opened for writing, as \<^verbatim>\<open>writeVolume\<close> does, is
  undefined in C and is \<open>None\<close> here.
\<close>

abbreviation VOLUME_SDCARD_LOCATION :: string where
  "VOLUME_SDCARD_LOCATION \<equiv> ''/sdcard/data/volume.cubbies''"
abbreviation BRIGHTNESS_SDCARD_LOCATION :: string where
  "BRIGHTNESS_SDCARD_LOCATION \<equiv> ''/sdcard/data/brightness.cubbies''"

section \<open>Volume\<close>

definition readVolume :: "'j world \<Rightarrow> 'j world option" where
  "readVolume w =
     (case fopen_r (sd w) VOLUME_SDCARD_LOCATION of
        Some content \<Rightarrow> do {
          data \<leftarrow> sd_read [0, 0] byte_of_chr 2 content;
          v \<leftarrow> rd data 0;
          m \<leftarrow> rd data 1;
          Some (on_player (\<lambda>p. p\<lparr>volume := v, maxVolume := m\<rparr>) w)
        }
      | None \<Rightarrow> Some (on_player (\<lambda>p. p\<lparr>volume := 100, maxVolume := 100\<rparr>) w))"

definition writeVolume :: "'j world \<Rightarrow> 'j world option" where
  "writeVolume w =
     (if fopen_w (sd w) VOLUME_SDCARD_LOCATION
      then Some (on_sd (write_file VOLUME_SDCARD_LOCATION
             [chr_of_byte (volume (player w)), chr_of_byte (maxVolume (player w))]) w)
      else None)"

definition audible :: "audio_element_state_t \<Rightarrow> bool" where
  "audible el = (el = AEL_STATE_RUNNING \<or> el = AEL_STATE_PAUSED)"

definition apply_volume :: "audio_element_state_t \<Rightarrow> int \<Rightarrow> 'j world \<Rightarrow> 'j world" where
  "apply_volume el v w = (if audible el then call (Audio_hal_set_volume v) w else w)"

definition incVolume :: "audio_element_state_t \<Rightarrow> 'j world \<Rightarrow> 'j world option" where
  "incVolume el w =
     (let p1 = (player w)\<lparr>volume := volume (player w) + 5\<rparr>;
          p2 = (if volume p1 > maxVolume p1 then p1\<lparr>volume := maxVolume p1\<rparr> else p1)
      in writeVolume (apply_volume el (uint (volume p2)) (w\<lparr>player := p2\<rparr>)))"

definition decVolume :: "audio_element_state_t \<Rightarrow> 'j world \<Rightarrow> 'j world option" where
  "decVolume el w =
     (let v = volume (player w);
          p1 = (if v > 5 then (player w)\<lparr>volume := v - 5\<rparr> else (player w)\<lparr>volume := 0\<rparr>)
      in writeVolume (apply_volume el (uint (volume p1)) (w\<lparr>player := p1\<rparr>)))"

definition setVolume :: "audio_element_state_t \<Rightarrow> int \<Rightarrow> 'j world \<Rightarrow> 'j world option" where
  "setVolume el vol w =
     (let vol = (if vol < 0 then 0 else if vol > 100 then 100 else vol)
      in writeVolume (apply_volume el vol w))"

definition setMaxVolume :: "int \<Rightarrow> 'j world \<Rightarrow> 'j world option" where
  "setMaxVolume vol w =
     (let p1 = (if vol < 0 then (player w)\<lparr>maxVolume := 0\<rparr>
                else if vol > 100 then (player w)\<lparr>maxVolume := 100\<rparr> else player w);
          p2 = p1\<lparr>maxVolume := word_of_int vol\<rparr>
      in writeVolume (w\<lparr>player := p2\<rparr>))"

definition getVolume :: "'j world \<Rightarrow> int" where
  "getVolume w = uint (volume (player w))"

definition getMaxVolume :: "'j world \<Rightarrow> int" where
  "getMaxVolume w = uint (maxVolume (player w))"

section \<open>Brightness\<close>

definition writeBrightness :: "int \<Rightarrow> int \<Rightarrow> int \<Rightarrow> u32 \<Rightarrow> 'j world \<Rightarrow> 'j world option" where
  "writeBrightness r g b duration w =
     (if fopen_w (sd w) BRIGHTNESS_SDCARD_LOCATION then
        (let bd = [word_of_int r, word_of_int g, word_of_int b,
                   ucast (duration OR 0xFF), ucast (drop_bit 8 duration OR 0xFF),
                   ucast (drop_bit 16 duration OR 0xFF), ucast (drop_bit 24 duration OR 0xFF)]
         in Some (on_sd (write_file BRIGHTNESS_SDCARD_LOCATION (map chr_of_byte bd))
                   (on_player (\<lambda>p. p\<lparr>brightnessData := bd\<rparr>) w)))
      else None)"

definition readBrightess :: "'j world \<Rightarrow> 'j world option" where
  "readBrightess w =
     (case fopen_r (sd w) BRIGHTNESS_SDCARD_LOCATION of
        Some content \<Rightarrow> do {
          bd \<leftarrow> sd_read (brightnessData (player w)) byte_of_chr 7 content;
          Some (on_player (\<lambda>p. p\<lparr>brightnessData := bd\<rparr>) w)
        }
      | None \<Rightarrow> None)"

section \<open>The pipeline\<close>

definition Player_init :: "'j world \<Rightarrow> 'j world" where
  "Player_init w = call_all [Audio_hal_set_volume 50, Audio_pipeline_init] w"

definition play :: "string \<Rightarrow> 'j world \<Rightarrow> 'j world option" where
  "play loc w = do {
     w1 \<leftarrow> readVolume w;
     Some (on_player (\<lambda>p. p\<lparr>fileFinishedPlaying := False\<rparr>)
       (call_all [Audio_pipeline_stop, Audio_pipeline_wait_for_stop, Audio_pipeline_terminate,
          Audio_element_set_uri loc, Audio_pipeline_reset_ringbuffer,
          Audio_pipeline_reset_elements, Audio_sync_clock, Audio_pipeline_run] w1))
   }"

definition playPauseToggle :: "audio_element_state_t \<Rightarrow> 'j world \<Rightarrow> 'j world" where
  "playPauseToggle el w =
     (if el = AEL_STATE_RUNNING then call Audio_pipeline_pause w
      else if el = AEL_STATE_PAUSED then call Audio_pipeline_resume w
      else w)"

definition resumePlaying :: "u32 \<Rightarrow> audio_element_state_t \<Rightarrow> 'j world \<Rightarrow> 'j world" where
  "resumePlaying now el w =
     (if el = AEL_STATE_PAUSED then
        set_state now SYS_WAIT_FOR_PLAYER
          (on_sys (\<lambda>s. s\<lparr>playerGoBackToState := SYS_PLAY_NEXT\<rparr>) (call Audio_pipeline_resume w))
      else set_state now SYS_PLAY_NEXT w)"

definition Player_deinit :: "'j world \<Rightarrow> 'j world" where
  "Player_deinit w = on_led (\<lambda>l. setRightEarColor 0 0 0 (setLeftEarColor 0 0 0 l)) w"

definition checkDownloadStatus :: "string \<Rightarrow> 'j world \<Rightarrow> u8 option" where
  "checkDownloadStatus t w = do {
     p \<leftarrow> sprintf_buf 100 (''/sdcard/media/toys/'' @ cstr t @ ''/verify.txt'');
     Some (case fopen_r (sd w) p of Some _ \<Rightarrow> 1 | None \<Rightarrow> 0)
   }"

text \<open>
  The message \<^verbatim>\<open>audio_event_iface_listen\<close> filled in: who sent it, what it reports and
  its status. When the call times out the message is whatever was on the stack, so nothing is
  assumed of it.
\<close>

datatype msg_source = From_decoder | From_writer | From_other
datatype msg_cmd = REPORT_MUSIC_INFO | REPORT_STATUS | CMD_other
datatype msg_data = STATUS_STATE_STOPPED | STATUS_STATE_FINISHED | DATA_other

record audio_msg =
  is_element :: bool
  msg_source :: msg_source
  msg_cmd :: msg_cmd
  msg_data :: msg_data

definition CheckPlayingCompleted :: "audio_msg \<Rightarrow> 'j world \<Rightarrow> 'j world \<times> bool" where
  "CheckPlayingCompleted m w =
     (let w1 = (if is_element m \<and> msg_source m = From_decoder \<and> msg_cmd m = REPORT_MUSIC_INFO
                then call Audio_sync_clock w else w)
      in if is_element m \<and> msg_source m = From_writer \<and> msg_cmd m = REPORT_STATUS \<and>
            (msg_data m = STATUS_STATE_STOPPED \<or> msg_data m = STATUS_STATE_FINISHED)
         then (let w2 = (if isResponseRequiredFlag (glob w1)
                         then on_glob (\<lambda>g. g\<lparr>isResponseRequiredFlag := False\<rparr>) w1 else w1)
               in (w2, msg_data m = STATUS_STATE_FINISHED))
         else (w1, False))"

definition SkipCurrentAudio :: "audio_element_state_t \<Rightarrow> 'j world \<Rightarrow> 'j world" where
  "SkipCurrentAudio el w =
     (if audible el then call_all [Audio_pipeline_stop, Audio_pipeline_wait_for_stop] w else w)"

definition PauseCurrentAudio :: "audio_element_state_t \<Rightarrow> 'j world \<Rightarrow> 'j world" where
  "PauseCurrentAudio el w = (if el = AEL_STATE_RUNNING then call Audio_pipeline_pause w else w)"

definition skipQuestion :: "audio_element_state_t \<Rightarrow> 'j world \<Rightarrow> 'j world" where
  "skipQuestion el w = (if isResponseRequiredFlag (glob w) then SkipCurrentAudio el w else w)"

definition ToyRemoved :: "u32 \<Rightarrow> audio_element_state_t \<Rightarrow> 'j world \<Rightarrow> 'j world option" where
  "ToyRemoved now el w = do {
     let w1 = PauseCurrentAudio el w;
     pt \<leftarrow> strcpy (zeros 20) (toy (sys w1));
     Some (set_state now SYS_IDLE
       (on_sys (\<lambda>s. s\<lparr>previousToy := pt, previousTurntable := getTurnTable s\<rparr>) w1))
   }"

definition DirectionUpdated :: "audio_element_state_t \<Rightarrow> 'j world \<Rightarrow> 'j world" where
  "DirectionUpdated el w = SkipCurrentAudio el w"

definition Player_next :: "u32 \<Rightarrow> 'j world \<Rightarrow> 'j world" where
  "Player_next now w =
     (if sys_state (sys w) > SYS_PLAY_TOY \<and> sys_state (sys w) < SYS_PLAYING_COMPLETE
      then set_state now SYS_PLAY_NEXT w else w)"

definition Player_previous :: "u32 \<Rightarrow> 'j world \<Rightarrow> 'j world" where
  "Player_previous now w =
     (if sys_state (sys w) > SYS_PLAY_TOY \<and> sys_state (sys w) < SYS_PLAYING_COMPLETE
      then (if indexx (glob w) > 0 then set_state now SYS_PLAY_PREVIOUS w else w)
      else w)"

definition stopPipeline :: "'j world \<Rightarrow> 'j world" where
  "stopPipeline w = call Audio_pipeline_stop w"

definition waitForPipelineStop :: "'j world \<Rightarrow> 'j world" where
  "waitForPipelineStop w = call Audio_pipeline_wait_for_stop w"

text \<open>\<^verbatim>\<open>System::resetToy\<close>, which calls back into the player.\<close>

definition resetToy :: "u32 \<Rightarrow> audio_element_state_t \<Rightarrow> 'j world \<Rightarrow> 'j world option" where
  "resetToy now el w = do {
     let w1 = on_sys (\<lambda>s. s\<lparr>toyPresenseFlag := False\<rparr>) w;
     w2 \<leftarrow> ToyRemoved now el w1;
     Some (set_state now SYS_IDLE (on_sys (\<lambda>s. s\<lparr>toy := zeros 20\<rparr>) w2))
   }"

section \<open>The header of an audio file\<close>

definition trim_line :: "string \<Rightarrow> string" where
  "trim_line raw = takeWhile (\<lambda>c. c \<noteq> CHR 0x0D \<and> c \<noteq> CHR 0x0A \<and> c \<noteq> CHR 0x00) raw"

definition header_line :: "string \<Rightarrow> Header \<Rightarrow> Header" where
  "header_line line h =
     (let arg = drop 2 line in
      if take 2 line = ''T:'' then (case scan_list 1 arg of v # _ \<Rightarrow> h\<lparr>hT := v\<rparr> | [] \<Rightarrow> h)
      else if take 2 line = ''A:'' then (case scan_list 1 arg of v # _ \<Rightarrow> h\<lparr>hA := v\<rparr> | [] \<Rightarrow> h)
      else if take 2 line = ''L:'' then h\<lparr>hL := scan_into (hL h) id arg\<rparr>
      else if take 2 line = ''R:'' then h\<lparr>hR := scan_into (hR h) id arg\<rparr>
      else if take 2 line = ''Z:'' then h\<lparr>hZ := take 19 arg @ zeros (20 - length (take 19 arg))\<rparr>
      else h)"

function parse_header :: "string \<Rightarrow> Header \<Rightarrow> Header" where
  "parse_header content h =
     (case fgets 256 content of
        None \<Rightarrow> h
      | Some (raw, rest) \<Rightarrow>
          (let line = trim_line raw in
           if take 12 line = ''HEADER_START'' then parse_header rest h
           else if take 10 line = ''HEADER_END'' then h
           else parse_header rest (header_line line h)))"
  by pat_completeness auto
termination
  by (relation "measure (\<lambda>(c, h). length c)") (auto dest: fgets_shorter)

declare parse_header.simps [simp del]

definition audio_name :: "'j cJSON \<Rightarrow> 'j option \<Rightarrow> string \<Rightarrow> string option" where
  "audio_name cj json idx = do {
     j \<leftarrow> json;
     item \<leftarrow> get_object_item cj j idx;
     item_string cj item
   }"

definition readHeader :: "'j cJSON \<Rightarrow> 'j world \<Rightarrow> 'j world option" where
  "readHeader cj w = do {
     idx \<leftarrow> sprintf_buf 4 (printf_d (uint (indexx (glob w)) + 1));
     name \<leftarrow> audio_name cj (sys_json (sys w)) idx;
     loc \<leftarrow> sprintf_buf 100 (''/sdcard/media/audio/'' @ name @ ''.mp3'');
     Some (case fopen_r (sd w) loc of
             None \<Rightarrow> w
           | Some content \<Rightarrow>
               on_glob (\<lambda>g. g\<lparr>headerData := parse_header content (headerData g)\<rparr>) w)
   }"

definition getHeaderValue :: "char \<Rightarrow> Header \<Rightarrow> int" where
  "getHeaderValue field h =
     (if field = CHR ''T'' then hT h else if field = CHR ''A'' then hA h else -1)"

definition getHeaderRGBValue :: "char \<Rightarrow> Header \<Rightarrow> int list option" where
  "getHeaderRGBValue field h =
     (if field = CHR ''L'' then Some (hL h)
      else if field = CHR ''R'' then Some (hR h)
      else None)"

definition getHeaderDateRange :: "Header \<Rightarrow> string" where
  "getHeaderDateRange h = hZ h"

section \<open>Volume: lemmas\<close>

lemma sd_read_two [simp]: "sd_read [0, 0] byte_of_chr 2 [a, b] = Some [byte_of_chr a, byte_of_chr b]"
  by (simp add: sd_read_def)

lemma readVolume_writeVolume: "writeVolume w = Some w' \<Longrightarrow> readVolume w' = Some w'"
  by (cases w; cases "player w")
     (auto simp: writeVolume_def readVolume_def on_sd_def on_player_def split: if_splits)

lemma writeVolume_frame [frame_simps]:
  "writeVolume w = Some w' \<Longrightarrow> player w' = player w \<and> sys w' = sys w \<and> glob w' = glob w \<and> led w' = led w"
  by (auto simp: writeVolume_def on_sd_def split: if_splits)

lemma apply_volume_frame [simp]:
  "player (apply_volume el v w) = player w" "sys (apply_volume el v w) = sys w"
  "sd (apply_volume el v w) = sd w" "glob (apply_volume el v w) = glob w"
  by (simp_all add: apply_volume_def call_def)

text \<open>The range the volume is meant to stay in.\<close>

definition volume_ok :: "'j world \<Rightarrow> bool" where
  "volume_ok w \<longleftrightarrow> volume (player w) \<le> maxVolume (player w) \<and> maxVolume (player w) \<le> 100"

lemma u8_add5: "v \<le> 100 \<Longrightarrow> unat ((v :: u8) + 5) = unat v + 5"
  by (simp add: word_le_nat_alt unat_word_ariths)

lemma u8_sub5: "5 < v \<Longrightarrow> unat ((v :: u8) - 5) = unat v - 5"
  by (simp add: word_less_nat_alt unat_sub word_le_nat_alt)

lemma incVolume_player:
  assumes "incVolume el w = Some w'"
  shows "player w' = (player w)\<lparr>volume := (let v = volume (player w) + 5
    in if v > maxVolume (player w) then maxVolume (player w) else v)\<rparr>"
  using assms by (auto simp: incVolume_def Let_def split: if_splits dest: writeVolume_frame)

lemma decVolume_player:
  assumes "decVolume el w = Some w'"
  shows "player w' = (player w)\<lparr>volume := (if volume (player w) > 5 then volume (player w) - 5 else 0)\<rparr>"
  using assms by (auto simp: decVolume_def Let_def split: if_splits dest: writeVolume_frame)

lemma writeVolume_total: "fopen_w (sd w) VOLUME_SDCARD_LOCATION \<Longrightarrow> \<exists>w'. writeVolume w = Some w'"
  by (simp add: writeVolume_def)

section \<open>Properties\<close>

text \<open>
  C22. The volume buttons. On a card that takes the write and with the volume in range, both
  buttons succeed, keep the range \<open>volume \<le> maxVolume \<le> 100\<close>, move the volume by five and clip
  it at \<open>maxVolume\<close> and at 0 (the 8-bit addition never wraps), and the pair written to the card
  is the pair in memory.
\<close>

theorem volume_buttons:
  assumes "volume_ok w" and "fopen_w (sd w) VOLUME_SDCARD_LOCATION"
  shows "\<exists>up down. incVolume el w = Some up \<and> decVolume el w = Some down \<and>
     volume_ok up \<and> volume_ok down \<and>
     unat (volume (player up)) = min (unat (volume (player w)) + 5) (unat (maxVolume (player w))) \<and>
     unat (volume (player down)) = unat (volume (player w)) - 5 \<and>
     readVolume up = Some up \<and> readVolume down = Some down"
proof -
  obtain up where up: "incVolume el w = Some up"
    using assms(2) by (auto simp: incVolume_def Let_def writeVolume_def)
  obtain down where down: "decVolume el w = Some down"
    using assms(2) by (auto simp: decVolume_def Let_def writeVolume_def)
  have v: "volume (player w) \<le> 100"
    using assms(1) by (auto simp: volume_ok_def)
  note pu = incVolume_player [OF up] and pd = decVolume_player [OF down]
  have su: "unat (volume (player up)) = min (unat (volume (player w)) + 5) (unat (maxVolume (player w)))"
    using u8_add5 [OF v] by (auto simp: pu Let_def word_less_nat_alt)
  have sdn: "unat (volume (player down)) = unat (volume (player w)) - 5"
    using u8_sub5 [of "volume (player w)"] by (auto simp: pd word_less_nat_alt)
  have "volume_ok up"
    using assms(1) su by (simp add: volume_ok_def pu word_le_nat_alt)
  moreover have "volume_ok down"
    using assms(1) sdn by (auto simp: volume_ok_def pd word_le_nat_alt)
  moreover have "readVolume up = Some up" "readVolume down = Some down"
    using up down unfolding incVolume_def decVolume_def Let_def
    by (simp_all only: readVolume_writeVolume)
  ultimately show ?thesis
    using up down su sdn by blast
qed

theorem volume_buttons_witness:
  "volume_ok (boot_world\<lparr>player := \<lparr>volume = 98, maxVolume = 100, brightnessData = [], fileFinishedPlaying = False\<rparr>\<rparr> :: nat world) \<and>
   (\<exists>up. incVolume AEL_STATE_RUNNING
      (boot_world\<lparr>player := \<lparr>volume = 98, maxVolume = 100, brightnessData = [], fileFinishedPlaying = False\<rparr>\<rparr> :: nat world)
      = Some up \<and> unat (volume (player up)) = 100)"
proof -
  let ?w = "boot_world\<lparr>player := \<lparr>volume = 98, maxVolume = 100, brightnessData = [], fileFinishedPlaying = False\<rparr>\<rparr> :: nat world"
  have h: "volume_ok ?w" "fopen_w (sd ?w) VOLUME_SDCARD_LOCATION"
    by (simp_all add: volume_ok_def)
  show ?thesis
    using h(1) volume_buttons [OF h, of AEL_STATE_RUNNING] by auto
qed

text \<open>
  \<^verbatim>\<open>setVolume\<close> never stores the volume it is given: its assignment
  \<^verbatim>\<open>volume = volume\<close> writes the parameter to itself, so the member and the file keep the
  old value while the codec may be driven with the new one.
\<close>

theorem setVolume_does_not_store:
  assumes "setVolume el v w = Some w'"
  shows "volume (player w') = volume (player w) \<and>
    fopen_r (sd w') VOLUME_SDCARD_LOCATION =
      Some [chr_of_byte (volume (player w)), chr_of_byte (maxVolume (player w))]"
  using assms by (auto simp: setVolume_def Let_def writeVolume_def on_sd_def split: if_splits)

theorem setVolume_does_not_store_witness:
  "\<exists>w'. setVolume AEL_STATE_RUNNING 30 (boot_world :: nat world) = Some w' \<and> volume (player w') = 0"
proof -
  obtain w' where h: "setVolume AEL_STATE_RUNNING 30 (boot_world :: nat world) = Some w'"
    by (simp add: setVolume_def writeVolume_def apply_volume_def audible_def call_def)
  show ?thesis
    using h setVolume_does_not_store [OF h] by (simp add: boot_world_def)
qed

text \<open>
  \<^verbatim>\<open>setMaxVolume\<close> does not limit its argument to 100: the clipping is overwritten by
  the unconditional assignment, and the stored maximum is the argument modulo 256.
\<close>

theorem setMaxVolume_unclipped:
  assumes "setMaxVolume v w = Some w'"
  shows "maxVolume (player w') = word_of_int v \<and> (v = 300 \<longrightarrow> maxVolume (player w') = 44) \<and>
    (v = 200 \<longrightarrow> \<not> maxVolume (player w') \<le> 100)"
  using assms by (auto simp: setMaxVolume_def Let_def dest: writeVolume_frame)

theorem setMaxVolume_unclipped_witness:
  "\<exists>w'. setMaxVolume 300 (boot_world :: nat world) = Some w' \<and> maxVolume (player w') = 44"
proof -
  obtain w' where h: "setMaxVolume 300 (boot_world :: nat world) = Some w'"
    by (simp add: setMaxVolume_def writeVolume_def)
  show ?thesis
    using h setMaxVolume_unclipped [OF h] by simp
qed

lemma or_255_low: "(ucast ((d :: u32) OR 0xFF) :: u8) = 255"
proof (rule bit_word_eqI)
  fix n assume n: "n < LENGTH(8)"
  have "bit (mask 8 :: u32) n" "bit (mask 8 :: u8) n"
    using n by (simp_all only: bit_mask_iff possible_bit_def, simp_all)
  moreover have "mask 8 = (0xFF :: u32)" "mask 8 = (255 :: u8)"
    by (simp_all add: mask_eq_exp_minus_1)
  ultimately have "bit (0xFF :: u32) n" "bit (255 :: u8) n" by metis+
  then show "bit (ucast (d OR 0xFF) :: u8) n = bit (255 :: u8) n"
    using n by (simp add: bit_ucast_iff bit_or_iff)
qed

text \<open>
  \<^verbatim>\<open>writeBrightness\<close> loses the duration: the four bytes that should hold it are
  combined with \<^verbatim>\<open>| 0xFF\<close> and are 255 for every duration.
\<close>

theorem writeBrightness_loses_duration:
  assumes "writeBrightness r g b duration w = Some w'"
  shows "drop 3 (brightnessData (player w')) = [255, 255, 255, 255]"
  using assms by (auto simp: writeBrightness_def Let_def on_defs or_255_low split: if_splits)

theorem writeBrightness_loses_duration_witness:
  "\<exists>w'. writeBrightness 1 2 3 60 (boot_world :: nat world) = Some w' \<and>
     drop 3 (brightnessData (player w')) = [255, 255, 255, 255]"
proof -
  obtain w' where h: "writeBrightness 1 2 3 60 (boot_world :: nat world) = Some w'"
    by (simp add: writeBrightness_def)
  show ?thesis
    using h writeBrightness_loses_duration [OF h] by blast
qed

end
