(* ===== verification/Wifi_App.thy ===== *)
theory Wifi_App
  imports Player_App
begin

text \<open>
  Wi-Fi, \<^verbatim>\<open>src/main/src/wifi.cpp\<close>: the credentials and their file, and a connection that
  several users share through a counter. The driver of ESP-IDF is outside; calls to it are
  recorded, and the bits \<^verbatim>\<open>xEventGroupWaitBits\<close> answers are taken from
  \<open>ext_waits\<close>. The counter is an \<^verbatim>\<open>int\<close>; no run is long enough to overflow it.

  \<^verbatim>\<open>credentials_t\<close> is two adjacent arrays, so a name without a NUL in its 32 bytes reads on
  into the password.
\<close>

abbreviation CREDENTIALS_SDCARD_LOCATION :: string where
  "CREDENTIALS_SDCARD_LOCATION \<equiv> ''/sdcard/data/credentials.cubbies''"

definition WIFI_CONNECTED_BIT :: u32 where "WIFI_CONNECTED_BIT = 1"
definition WIFI_DISCONNECTED_BIT :: u32 where "WIFI_DISCONNECTED_BIT = 2"
definition WIFI_FAILED_BIT :: u32 where "WIFI_FAILED_BIT = 4"

lemmas wifi_bits = WIFI_CONNECTED_BIT_def WIFI_DISCONNECTED_BIT_def WIFI_FAILED_BIT_def

section \<open>Operations\<close>

definition xEventGroupWaitBits :: "'j world \<Rightarrow> 'j world \<times> u32" where
  "xEventGroupWaitBits w =
     (case ext_waits w of [] \<Rightarrow> (w, 0) | b # bs \<Rightarrow> (w\<lparr>ext_waits := bs\<rparr>, b))"

definition WiFi_init :: "'j world \<Rightarrow> 'j world \<times> u8" where
  "WiFi_init w =
     (if wifiInitDoneFlag (wifi w) then (w, 0)
      else (on_wifi (\<lambda>f. f\<lparr>wifiInitDoneFlag := True\<rparr>) (call Wifi_driver_init w), 0))"

definition readCredentials :: "'j world \<Rightarrow> 'j world \<times> u8" where
  "readCredentials w =
     (case fopen_r (sd w) CREDENTIALS_SDCARD_LOCATION of
        Some content \<Rightarrow>
          (let c = take 96 content @ zeros (96 - length content)
           in (on_wifi (\<lambda>f. f\<lparr>cred_ssid := take 32 c, cred_password := drop 32 c\<rparr>) w, 0))
      | None \<Rightarrow> (on_wifi (\<lambda>f. f\<lparr>cred_ssid := zeros 32, cred_password := zeros 64\<rparr>) w, 1))"

definition wifi_configure :: "string \<Rightarrow> string \<Rightarrow> 'j world \<Rightarrow> 'j world option" where
  "wifi_configure s p w = do {
     a \<leftarrow> strcpy (zeros 32) s;
     b \<leftarrow> strcpy (zeros 64) p;
     Some (call (Wifi_start (cstr a) (cstr b)) w)
   }"

definition ConfigSdCardCredentials :: "'j world \<Rightarrow> ('j world \<times> u8) option" where
  "ConfigSdCardCredentials w =
     (let (w1, rc) = readCredentials w in
      if rc \<noteq> 0 then Some (w1, 1)
      else do {
        w2 \<leftarrow> wifi_configure (cred_ssid (wifi w1) @ cred_password (wifi w1)) (cred_password (wifi w1)) w1;
        Some (w2, 0)
      })"

datatype wifi_event = WIFI_EVENT_STA_DISCONNECTED | IP_EVENT_STA_GOT_IP | WIFI_EVENT_other

definition eventHandler :: "wifi_event \<Rightarrow> 'j world \<Rightarrow> 'j world" where
  "eventHandler ev w =
     (case ev of
        WIFI_EVENT_STA_DISCONNECTED \<Rightarrow>
          if connectFlag (wifi w) then call Wifi_connect w
          else call (Event_set_bits WIFI_DISCONNECTED_BIT) w
      | IP_EVENT_STA_GOT_IP \<Rightarrow> call (Event_set_bits WIFI_CONNECTED_BIT) w
      | WIFI_EVENT_other \<Rightarrow> w)"

definition connect_impl :: "'j world \<Rightarrow> 'j world \<times> u8" where
  "connect_impl w =
     (let w1 = call Wifi_connect (on_wifi (\<lambda>f. f\<lparr>connectFlag := True\<rparr>) w);
          (w2, bits) = xEventGroupWaitBits w1
      in if bits AND WIFI_CONNECTED_BIT \<noteq> 0 then (on_wifi (\<lambda>f. f\<lparr>connected := True\<rparr>) w2, 0)
         else if bits AND WIFI_FAILED_BIT \<noteq> 0 then (w2, 1)
         else (w2, 1))"

definition connect :: "'j world \<Rightarrow> 'j world \<times> u8" where
  "connect w =
     (if cstr (cred_ssid (wifi w) @ cred_password (wifi w)) = [] then (w, 1)
      else (let w1 = on_wifi (\<lambda>f. f\<lparr>wifi_count := wifi_count f + 1\<rparr>) w in
            if connected (wifi w1) then (w1, 0) else connect_impl w1))"

definition disconnect_impl :: "'j world \<Rightarrow> 'j world \<times> bool" where
  "disconnect_impl w =
     (let w1 = call Wifi_disconnect (on_wifi (\<lambda>f. f\<lparr>connectFlag := False\<rparr>) w);
          (w2, bits) = xEventGroupWaitBits w1
      in if bits AND WIFI_DISCONNECTED_BIT \<noteq> 0 then (on_wifi (\<lambda>f. f\<lparr>connected := False\<rparr>) w2, True)
         else if bits AND WIFI_FAILED_BIT \<noteq> 0 then (w2, False)
         else (w2, False))"

definition disconnect :: "'j world \<Rightarrow> 'j world \<times> bool" where
  "disconnect w =
     (if cstr (cred_ssid (wifi w) @ cred_password (wifi w)) = [] then (w, False)
      else (let w1 = on_wifi (\<lambda>f. f\<lparr>wifi_count := wifi_count f - 1\<rparr>) w in
            if wifi_count (wifi w1) = 0 then disconnect_impl w1 else (w1, False)))"

definition isConnected :: "'j world \<Rightarrow> bool" where
  "isConnected w = connected (wifi w)"

definition writeCredentials :: "string \<Rightarrow> string \<Rightarrow> 'j world \<Rightarrow> 'j world option" where
  "writeCredentials ssid password w = do {
     a \<leftarrow> strcpy (zeros 32) ssid;
     b \<leftarrow> strcpy (zeros 64) password;
     let w1 = on_wifi (\<lambda>f. f\<lparr>cred_ssid := a, cred_password := b\<rparr>) w;
     Some (if fopen_w (sd w) CREDENTIALS_SDCARD_LOCATION
           then on_sd (write_file CREDENTIALS_SDCARD_LOCATION (a @ b)) w1 else w1)
   }"

definition BLE_notify :: "string \<Rightarrow> 'j world \<Rightarrow> 'j world" where
  "BLE_notify m w = (if bleReady (glob w) then call (Ble_notify m) w else w)"

definition bleWriteCredentials :: "string \<Rightarrow> string \<Rightarrow> 'j world \<Rightarrow> ('j world \<times> bool) option" where
  "bleWriteCredentials newSsid newPassword w = do {
     let w1 = (if isConnected w then call Wifi_stop (fst (disconnect_impl w)) else w);
     w2 \<leftarrow> wifi_configure newSsid newPassword w1;
     let (w3, rc) = connect_impl w2;
     if rc = 0 then do {
       let w4 = (if wifi_count (wifi w3) = 0 then fst (disconnect_impl w3) else w3);
       w5 \<leftarrow> writeCredentials newSsid newPassword w4;
       Some (BLE_notify ''11'' w5, True)
     } else do {
       let w4 = BLE_notify ''12'' w3;
       w5 \<leftarrow> (if wifi_count (wifi w4) \<noteq> 0 then do {
                w6 \<leftarrow> wifi_configure (cred_ssid (wifi w4) @ cred_password (wifi w4)) (cred_password (wifi w4)) w4;
                Some (fst (connect_impl w6))
              } else Some w4);
       Some (w5, False)
     }
   }"

section \<open>What the operations leave alone\<close>

lemma xEventGroupWaitBits_frame [simp]:
  "wifi (fst (xEventGroupWaitBits w)) = wifi w" "sd (fst (xEventGroupWaitBits w)) = sd w"
  "glob (fst (xEventGroupWaitBits w)) = glob w" "sys (fst (xEventGroupWaitBits w)) = sys w"
  "led (fst (xEventGroupWaitBits w)) = led w" "player (fst (xEventGroupWaitBits w)) = player w"
  by (simp_all add: xEventGroupWaitBits_def split: list.split)

lemma connect_impl_frame [simp]:
  "sd (fst (connect_impl w)) = sd w" "glob (fst (connect_impl w)) = glob w"
  "cred_ssid (wifi (fst (connect_impl w))) = cred_ssid (wifi w)"
  "cred_password (wifi (fst (connect_impl w))) = cred_password (wifi w)"
  "wifi_count (wifi (fst (connect_impl w))) = wifi_count (wifi w)"
  by (simp_all add: connect_impl_def Let_def split_beta on_defs)

lemma disconnect_impl_frame [simp]:
  "sd (fst (disconnect_impl w)) = sd w" "glob (fst (disconnect_impl w)) = glob w"
  "cred_ssid (wifi (fst (disconnect_impl w))) = cred_ssid (wifi w)"
  "cred_password (wifi (fst (disconnect_impl w))) = cred_password (wifi w)"
  "wifi_count (wifi (fst (disconnect_impl w))) = wifi_count (wifi w)"
  by (simp_all add: disconnect_impl_def Let_def split_beta on_defs)

lemma BLE_notify_frame [simp]:
  "sd (BLE_notify m w) = sd w" "glob (BLE_notify m w) = glob w" "wifi (BLE_notify m w) = wifi w"
  "sys (BLE_notify m w) = sys w"
  by (simp_all add: BLE_notify_def on_defs)

lemma wifi_configure_frame:
  "wifi_configure s p w = Some w' \<Longrightarrow> wifi w' = wifi w \<and> sd w' = sd w \<and> glob w' = glob w"
  by (auto simp: wifi_configure_def bind_eq_Some_conv on_defs)

lemma writeCredentials_ok:
  assumes "length (cstr ssid) < 32" "length (cstr password) < 64"
    and "fopen_w (sd w) CREDENTIALS_SDCARD_LOCATION"
  shows "\<exists>w'. writeCredentials ssid password w = Some w' \<and> length (cred_ssid (wifi w')) = 32 \<and>
    length (cred_password (wifi w')) = 64 \<and> cstr (cred_ssid (wifi w')) = cstr ssid \<and>
    cstr (cred_password (wifi w')) = cstr password \<and>
    fopen_r (sd w') CREDENTIALS_SDCARD_LOCATION = Some (cred_ssid (wifi w') @ cred_password (wifi w'))"
  using assms by (simp add: writeCredentials_def strcpy_zeros on_defs)

lemma readCredentials_back:
  assumes "fopen_r (sd w) CREDENTIALS_SDCARD_LOCATION = Some (s @ p)" "length s = 32" "length p = 64"
  shows "readCredentials w = (on_wifi (\<lambda>f. f\<lparr>cred_ssid := s, cred_password := p\<rparr>) w, 0)"
  using assms by (simp add: readCredentials_def Let_def zeros_def)

lemma wifi_configure_ok:
  "length (cstr s) < 32 \<Longrightarrow> length (cstr p) < 64 \<Longrightarrow>
   wifi_configure s p w = Some (call (Wifi_start (cstr s) (cstr p)) w)"
  by (simp add: wifi_configure_def strcpy_zeros)

lemma cstr_append_padded:
  assumes "length (cstr a) < length a"
  shows "cstr (a @ b) = cstr a"
proof -
  have "cstr a \<noteq> a" using assms by auto
  then obtain x where "x \<in> set a" "\<not> x \<noteq> CHR 0x00"
    by (auto simp: cstr_def takeWhile_eq_all_conv)
  then show ?thesis unfolding cstr_def by (rule takeWhile_append1)
qed

lemma Config_after_write:
  assumes "writeCredentials ssid password w = Some w'" "length (cstr ssid) < 32"
    "length (cstr password) < 64" "fopen_w (sd w) CREDENTIALS_SDCARD_LOCATION" "sd w'' = sd w'"
  shows "\<exists>v. ConfigSdCardCredentials w'' = Some (v, 0) \<and> last (calls v) = Wifi_start (cstr ssid) (cstr password)"
proof -
  let ?a = "cred_ssid (wifi w')" and ?b = "cred_password (wifi w')"
  have a: "length ?a = 32" "cstr ?a = cstr ssid" and b: "length ?b = 64" "cstr ?b = cstr password"
    and f: "fopen_r (sd w'') CREDENTIALS_SDCARD_LOCATION = Some (?a @ ?b)"
    using writeCredentials_ok [OF assms(2-4)] assms(1,5) by auto
  have "cstr (?a @ ?b) = cstr ssid"
    using a assms(2) cstr_append_padded [of ?a ?b] by simp
  then show ?thesis
    using readCredentials_back [OF f a(1) b(1)] b assms(2,3)
    by (simp add: ConfigSdCardCredentials_def wifi_configure_ok on_defs)
qed

section \<open>What the driver answers\<close>

text \<open>The answer of a wait.\<close>

definition wait_answer :: "u32 list \<Rightarrow> u32" where
  "wait_answer bs = (case bs of [] \<Rightarrow> 0 | b # _ \<Rightarrow> b)"

definition up_bit :: "u32 \<Rightarrow> bool" where
  "up_bit b \<longleftrightarrow> b AND WIFI_CONNECTED_BIT \<noteq> 0"

text \<open>The answers left for the trial of new credentials, which comes after a disconnection if there is one.\<close>

definition trial_waits :: "'j world \<Rightarrow> u32 list" where
  "trial_waits w = (if connected (wifi w) then drop 1 (ext_waits w) else ext_waits w)"

lemma wait_eq: "xEventGroupWaitBits w = (w\<lparr>ext_waits := drop 1 (ext_waits w)\<rparr>, wait_answer (ext_waits w))"
  by (cases "ext_waits w") (simp_all add: xEventGroupWaitBits_def wait_answer_def)

lemma connect_impl_result:
  "snd (connect_impl w) = (if up_bit (wait_answer (ext_waits w)) then 0 else 1)"
  "connected (wifi (fst (connect_impl w))) = (up_bit (wait_answer (ext_waits w)) \<or> connected (wifi w))"
  "ext_waits (fst (connect_impl w)) = drop 1 (ext_waits w)"
  "calls (fst (connect_impl w)) = calls w @ [Wifi_connect]"
  by (simp_all add: connect_impl_def wait_eq up_bit_def Let_def on_defs)

lemma disconnect_impl_result:
  "ext_waits (fst (disconnect_impl w)) = drop 1 (ext_waits w)"
  "calls (fst (disconnect_impl w)) = calls w @ [Wifi_disconnect]"
  by (simp_all add: disconnect_impl_def wait_eq Let_def on_defs)

lemma call_simps:
  "ext_waits (call c w) = ext_waits w" "calls (call c w) = calls w @ [c]" "wifi (call c w) = wifi w"
  "sd (call c w) = sd w"
  by (simp_all add: call_def)

lemma BLE_notify_waits: "ext_waits (BLE_notify m w) = ext_waits w"
  by (simp add: BLE_notify_def call_def)

lemma BLE_notify_calls: "\<exists>cs. calls (BLE_notify m w) = calls w @ cs"
  by (simp add: BLE_notify_def call_def)

lemma writeCredentials_frame:
  assumes "writeCredentials s p w = Some w'"
  shows "connected (wifi w') = connected (wifi w)" "wifi_count (wifi w') = wifi_count (wifi w)"
    "ext_waits w' = ext_waits w" "calls w' = calls w"
  using assms by (auto simp: writeCredentials_def on_defs bind_eq_Some_conv Let_def split: if_splits)

text \<open>Names and passwords that fit their fields, and those the device holds.\<close>

definition fits_fields :: "string \<Rightarrow> string \<Rightarrow> bool" where
  "fits_fields s p \<longleftrightarrow> length (cstr s) < 32 \<and> length (cstr p) < 64"

abbreviation held_name :: "'j world \<Rightarrow> string" where
  "held_name w \<equiv> cred_ssid (wifi w) @ cred_password (wifi w)"

abbreviation held_password :: "'j world \<Rightarrow> string" where
  "held_password w \<equiv> cred_password (wifi w)"

text \<open>The trial: the driver is started with the new credentials and asked to connect; \<open>v\<close> is the device after it.\<close>

definition tried :: "string \<Rightarrow> string \<Rightarrow> 'j world \<Rightarrow> 'j world \<Rightarrow> bool" where
  "tried s p w v \<longleftrightarrow> sd v = sd w \<and> cred_ssid (wifi v) = cred_ssid (wifi w) \<and>
     cred_password (wifi v) = cred_password (wifi w) \<and> wifi_count (wifi v) = wifi_count (wifi w) \<and>
     (connected (wifi v) \<or> \<not> up_bit (wait_answer (trial_waits w))) \<and> ext_waits v = drop 1 (trial_waits w) \<and>
     (\<exists>us. calls v = calls w @ us @ [Wifi_start (cstr s) (cstr p), Wifi_connect])"

lemma trial:
  assumes "fits_fields s p"
  shows "\<exists>v. tried s p w v \<and> bleWriteCredentials s p w =
    (if up_bit (wait_answer (trial_waits w))
     then map_option (\<lambda>x. (BLE_notify ''11'' x, True))
            (writeCredentials s p (if wifi_count (wifi v) = 0 then fst (disconnect_impl v) else v))
     else map_option (\<lambda>x. (x, False))
            (let w4 = BLE_notify ''12'' v in
             if wifi_count (wifi w4) \<noteq> 0
             then map_option (\<lambda>w6. fst (connect_impl w6)) (wifi_configure (held_name w4) (held_password w4) w4)
             else Some w4))"
proof -
  define w1 where "w1 = (if isConnected w then call Wifi_stop (fst (disconnect_impl w)) else w)"
  define w2 where "w2 = call (Wifi_start (cstr s) (cstr p)) w1"
  define v where "v = fst (connect_impl w2)"
  have w1: "sd w1 = sd w" "cred_ssid (wifi w1) = cred_ssid (wifi w)" "cred_password (wifi w1) = cred_password (wifi w)"
    "wifi_count (wifi w1) = wifi_count (wifi w)" "ext_waits w1 = trial_waits w" "\<exists>us. calls w1 = calls w @ us"
    by (simp_all add: w1_def trial_waits_def isConnected_def call_simps disconnect_impl_result)
  have w2: "wifi_configure s p w1 = Some w2"
    using assms by (simp add: w2_def fits_fields_def wifi_configure_ok)
  have v: "connect_impl w2 = (v, if up_bit (wait_answer (trial_waits w)) then 0 else 1)"
    using connect_impl_result(1) [of w2] w1(5) by (simp add: v_def w2_def call_simps prod_eq_iff)
  have "tried s p w v"
    using w1 connect_impl_result [of w2] by (auto simp: tried_def v_def w2_def call_simps)
  moreover have "do { x \<leftarrow> A; Some (f x) } = map_option f A" for A and f :: "'a world \<Rightarrow> 'a world \<times> bool"
    by (cases A) simp_all
  moreover have "do { x \<leftarrow> A; Some (f x) } = map_option f A" for A and f :: "'a world \<Rightarrow> 'a world"
    by (cases A) simp_all
  ultimately show ?thesis
    using w2 v by (intro exI [of _ v]) (simp add: bleWriteCredentials_def w1_def [symmetric] Let_def)
qed

text \<open>A user of the connection takes it or gives it back; a phone replaces the credentials.\<close>

datatype wifi_op = Take | Give | Replace string string

fun wifi_do :: "wifi_op \<Rightarrow> 'j world \<Rightarrow> 'j world option" where
  "wifi_do Take w = Some (fst (connect w))"
| "wifi_do Give w = Some (fst (disconnect w))"
| "wifi_do (Replace s p) w = map_option fst (bleWriteCredentials s p w)"

fun wifi_run :: "wifi_op list \<Rightarrow> 'j world \<Rightarrow> 'j world option" where
  "wifi_run [] w = Some w"
| "wifi_run (op # ops) w = Option.bind (wifi_do op w) (wifi_run ops)"

fun balance :: "wifi_op list \<Rightarrow> int" where
  "balance [] = 0"
| "balance (Take # ops) = 1 + balance ops"
| "balance (Give # ops) = balance ops - 1"
| "balance (Replace s p # ops) = balance ops"

text \<open>The counter \<open>n\<close> never comes down to zero, and the credentials that are written fit and have a name.\<close>

fun kept :: "int \<Rightarrow> wifi_op list \<Rightarrow> bool" where
  "kept n [] = True"
| "kept n (Take # ops) = kept (n + 1) ops"
| "kept n (Give # ops) = (n > 1 \<and> kept (n - 1) ops)"
| "kept n (Replace s p # ops) = (fits_fields s p \<and> cstr s \<noteq> [] \<and> kept n ops)"

text \<open>
  The driver answers that the access point is there: for each replacement, which waits for the
  disconnection first, at the trial, or else with the old credentials.
\<close>

fun answered :: "wifi_op list \<Rightarrow> u32 list \<Rightarrow> bool" where
  "answered [] bs = True"
| "answered (Replace s p # ops) (d # t # bs) =
     (if up_bit t then answered ops bs
      else case bs of [] \<Rightarrow> False | r # bs' \<Rightarrow> up_bit r \<and> answered ops bs')"
| "answered (Replace s p # ops) bs = False"
| "answered (op # ops) bs = answered ops bs"

text \<open>The connection is up, with credentials in memory that fit.\<close>

definition wifi_up :: "'j world \<Rightarrow> bool" where
  "wifi_up w \<longleftrightarrow> connected (wifi w) \<and> 0 < wifi_count (wifi w) \<and> cstr (held_name w) \<noteq> [] \<and>
     fits_fields (held_name w) (held_password w)"

lemma shared_step:
  assumes "wifi_up w" "op = Give \<longrightarrow> wifi_count (wifi w) > 1" "\<forall>s p. op \<noteq> Replace s p"
  shows "wifi_do op w = Some (on_wifi (\<lambda>f. f\<lparr>wifi_count := wifi_count f + balance [op]\<rparr>) w)"
  using assms by (cases op) (simp_all add: wifi_up_def connect_def disconnect_def Let_def on_defs)

lemma new_credentials_held:
  assumes "writeCredentials s p v = Some w'" "fits_fields s p"
  shows "cstr (held_name w') = cstr s" "cstr (held_password w') = cstr p"
proof -
  have f: "cred_ssid (wifi w') = s' \<and> cred_password (wifi w') = p'"
    if "strcpy (zeros 32) s = Some s'" "strcpy (zeros 64) p = Some p'" for s' p'
    using that assms(1) by (auto simp: writeCredentials_def on_defs Let_def split: if_splits)
  obtain s' p' where sp: "strcpy (zeros 32) s = Some s'" "strcpy (zeros 64) p = Some p'"
    using assms(1) by (auto simp: writeCredentials_def bind_eq_Some_conv)
  have "length s' = 32" "cstr s' = cstr s" "cstr p' = cstr p"
    using sp assms(2) by (auto simp: strcpy_zeros fits_fields_def)
  then show "cstr (held_name w') = cstr s" "cstr (held_password w') = cstr p"
    using f [OF sp] cstr_append_padded [of s' p'] assms(2) by (simp_all add: fits_fields_def)
qed

lemma replace_step:
  assumes up: "wifi_up w" and fit: "fits_fields s p" "cstr s \<noteq> []"
    and waits: "ext_waits w = d # t # bs" "up_bit t \<or> (\<exists>r bs'. bs = r # bs' \<and> up_bit r)"
  shows "\<exists>w'. wifi_do (Replace s p) w = Some w' \<and> wifi_up w' \<and> wifi_count (wifi w') = wifi_count (wifi w) \<and>
    ext_waits w' = (if up_bit t then bs else drop 1 bs)"
proof -
  have t: "trial_waits w = t # bs" using up waits(1) by (simp add: trial_waits_def wifi_up_def)
  then have a: "wait_answer (trial_waits w) = t" by (simp add: wait_answer_def)
  obtain v where v: "tried s p w v" "bleWriteCredentials s p w =
    (if up_bit t
     then map_option (\<lambda>x. (BLE_notify ''11'' x, True))
            (writeCredentials s p (if wifi_count (wifi v) = 0 then fst (disconnect_impl v) else v))
     else map_option (\<lambda>x. (x, False))
            (let w4 = BLE_notify ''12'' v in
             if wifi_count (wifi w4) \<noteq> 0
             then map_option (\<lambda>w6. fst (connect_impl w6)) (wifi_configure (held_name w4) (held_password w4) w4)
             else Some w4))"
    using trial [OF fit(1), of w] unfolding a by blast
  have c: "wifi_count (wifi v) = wifi_count (wifi w)" "0 < wifi_count (wifi w)"
    using v(1) up by (simp_all add: tried_def wifi_up_def)
  show ?thesis
  proof (cases "up_bit t")
    case True
    obtain x where x: "writeCredentials s p v = Some x"
      using fit(1) by (auto simp: writeCredentials_def fits_fields_def strcpy_zeros Let_def)
    note held = new_credentials_held [OF x fit(1)] and frame = writeCredentials_frame [OF x]
    have "wifi_up (BLE_notify ''11'' x)"
      using held frame c v(1) fit a True by (auto simp: wifi_up_def fits_fields_def tried_def)
    then show ?thesis
      using True v(2) c x frame v(1) t by (simp add: BLE_notify_waits tried_def)
  next
    case False
    then obtain r bs' where r: "bs = r # bs'" "up_bit r" using waits(2) by blast
    let ?w4 = "BLE_notify ''12'' v"
    have creds: "held_name ?w4 = held_name w" "held_password ?w4 = held_password w"
      using v(1) by (simp_all add: tried_def)
    have "fits_fields (held_name ?w4) (held_password ?w4)" using up creds by (simp add: wifi_up_def)
    then have cfg: "wifi_configure (held_name ?w4) (held_password ?w4) ?w4 =
        Some (call (Wifi_start (cstr (held_name ?w4)) (cstr (held_password ?w4))) ?w4)"
      by (simp add: fits_fields_def wifi_configure_ok)
    let ?w' = "fst (connect_impl (call (Wifi_start (cstr (held_name ?w4)) (cstr (held_password ?w4))) ?w4))"
    have "wifi_do (Replace s p) w = Some ?w'" using v(2) False c cfg by (simp add: Let_def)
    moreover have "wifi_up ?w'" "wifi_count (wifi ?w') = wifi_count (wifi w)" "ext_waits ?w' = drop 1 bs"
      using v(1) up creds r t False
      by (simp_all add: wifi_up_def connect_impl_result call_simps BLE_notify_waits tried_def wait_answer_def)
    ultimately show ?thesis using False by (intro exI [of _ ?w']) simp
  qed
qed

section \<open>Properties\<close>

text \<open>
  C21. New credentials are stored exactly when they work. For a name and a password that fit their
  fields, on a card that takes the write, storing credentials over BLE always returns. It starts the
  driver with them and asks it to connect, and answers with success exactly when the driver reports
  that it is connected. Then they are on the card, and reading the card at the next boot starts the
  driver with exactly that name and password; otherwise the card and the credentials in memory are
  as before.
\<close>

theorem bleWriteCredentials_effect:
  assumes "length (cstr s) < 32" "length (cstr p) < 64"
    and "fopen_w (sd w) CREDENTIALS_SDCARD_LOCATION"
    and "length (cstr (cred_ssid (wifi w) @ cred_password (wifi w))) < 32"
    and "length (cstr (cred_password (wifi w))) < 64"
  shows "\<exists>w' ok us vs. bleWriteCredentials s p w = Some (w', ok) \<and>
    (ok \<longleftrightarrow> wait_answer (if connected (wifi w) then drop 1 (ext_waits w) else ext_waits w) AND WIFI_CONNECTED_BIT \<noteq> 0) \<and>
    calls w' = calls w @ us @ [Wifi_start (cstr s) (cstr p), Wifi_connect] @ vs \<and>
    (ok \<longrightarrow> (\<exists>v. ConfigSdCardCredentials w' = Some (v, 0) \<and> last (calls v) = Wifi_start (cstr s) (cstr p))) \<and>
    (\<not> ok \<longrightarrow> sd w' = sd w \<and> cred_ssid (wifi w') = cred_ssid (wifi w) \<and>
       cred_password (wifi w') = cred_password (wifi w))"
proof -
  let ?up = "up_bit (wait_answer (trial_waits w))"
  have fit: "fits_fields s p" "fits_fields (held_name w) (held_password w)" using assms by (simp_all add: fits_fields_def)
  have up: "?up \<longleftrightarrow> wait_answer (if connected (wifi w) then drop 1 (ext_waits w) else ext_waits w) AND WIFI_CONNECTED_BIT \<noteq> 0"
    by (simp add: up_bit_def trial_waits_def)
  obtain v where v: "tried s p w v" "bleWriteCredentials s p w =
    (if ?up
     then map_option (\<lambda>x. (BLE_notify ''11'' x, True))
            (writeCredentials s p (if wifi_count (wifi v) = 0 then fst (disconnect_impl v) else v))
     else map_option (\<lambda>x. (x, False))
            (let w4 = BLE_notify ''12'' v in
             if wifi_count (wifi w4) \<noteq> 0
             then map_option (\<lambda>w6. fst (connect_impl w6)) (wifi_configure (held_name w4) (held_password w4) w4)
             else Some w4))"
    using trial [OF fit(1), of w] by blast
  obtain us where us: "calls v = calls w @ us @ [Wifi_start (cstr s) (cstr p), Wifi_connect]"
    using v(1) by (auto simp: tried_def)
  show ?thesis
  proof (cases ?up)
    case True
    let ?w4 = "if wifi_count (wifi v) = 0 then fst (disconnect_impl v) else v"
    have w: "fopen_w (sd ?w4) CREDENTIALS_SDCARD_LOCATION" using assms(3) v(1) by (simp add: tried_def)
    obtain x where x: "writeCredentials s p ?w4 = Some x" using writeCredentials_ok [OF assms(1,2) w] by blast
    obtain cs where "calls (BLE_notify ''11'' x) = calls x @ cs" using BLE_notify_calls by blast
    then have "\<exists>vs. calls (BLE_notify ''11'' x) = calls v @ vs"
      using writeCredentials_frame(4) [OF x] by (auto simp: disconnect_impl_result split: if_splits)
    moreover have "\<exists>u. ConfigSdCardCredentials (BLE_notify ''11'' x) = Some (u, 0) \<and> last (calls u) = Wifi_start (cstr s) (cstr p)"
      by (rule Config_after_write [OF x assms(1,2) w]) simp
    ultimately show ?thesis using True v(2) x us unfolding up [symmetric] by auto
  next
    case False
    let ?w4 = "BLE_notify ''12'' v"
    have creds: "held_name ?w4 = held_name w" "held_password ?w4 = held_password w" "cred_ssid (wifi ?w4) = cred_ssid (wifi w)"
      "sd ?w4 = sd w" using v(1) by (simp_all add: tried_def)
    obtain cs where cs: "calls ?w4 = calls v @ cs" using BLE_notify_calls by blast
    define w' where "w' = (if wifi_count (wifi ?w4) \<noteq> 0
      then fst (connect_impl (call (Wifi_start (cstr (held_name ?w4)) (cstr (held_password ?w4))) ?w4)) else ?w4)"
    have "bleWriteCredentials s p w = Some (w', False)"
      using v(2) False fit(2) creds by (simp add: Let_def w'_def fits_fields_def wifi_configure_ok)
    moreover have "\<exists>vs. calls w' = calls v @ vs"
      using cs by (simp add: w'_def connect_impl_result call_simps)
    moreover have "sd w' = sd w" "cred_ssid (wifi w') = cred_ssid (wifi w)" "cred_password (wifi w') = cred_password (wifi w)"
      using creds by (simp_all add: w'_def call_simps)
    ultimately show ?thesis using False us unfolding up [symmetric] by auto
  qed
qed

theorem bleWriteCredentials_effect_witness:
  "\<exists>w' v. bleWriteCredentials ''home'' ''secret12'' (boot_world\<lparr>ext_waits := [1, 2]\<rparr> :: nat world) = Some (w', True) \<and>
     ConfigSdCardCredentials w' = Some (v, 0) \<and> last (calls v) = Wifi_start ''home'' ''secret12''"
proof -
  let ?w = "boot_world\<lparr>ext_waits := [1, 2]\<rparr> :: nat world"
  have h: "length (cstr ''home'') < 32" "length (cstr ''secret12'') < 64"
    "fopen_w (sd ?w) CREDENTIALS_SDCARD_LOCATION"
    "length (cstr (cred_ssid (wifi ?w) @ cred_password (wifi ?w))) < 32"
    "length (cstr (cred_password (wifi ?w))) < 64"
    by (simp_all add: cstr_def boot_world_def fopen_w_def dirname_def zeros_def)
  have "isConnected ?w = False" by (simp add: isConnected_def boot_world_def)
  then have "bleWriteCredentials ''home'' ''secret12'' ?w = Some (a, b) \<Longrightarrow> b" for a b
    using h(1,2) by (auto simp: bleWriteCredentials_def wifi_configure_ok connect_impl_def
        xEventGroupWaitBits_def on_defs wifi_bits Let_def bind_eq_Some_conv split: if_splits)
  then show ?thesis
    using bleWriteCredentials_effect [OF h] by (fastforce simp: cstr_def)
qed



end
