(* ===== verification/Sd_Card.thy ===== *)
theory Sd_Card
  imports Firmware
begin

text \<open>
  The SD card, \<^verbatim>\<open>src/main/src/sdcard.cpp\<close>: the directories it creates when it is opened,
  the listing of a directory (at most 100 regular files), the test whether a toy has a folder,
  the free space, and the recursive deletion of a folder. \<^verbatim>\<open>read\<close> and
  \<^verbatim>\<open>write\<close> are in the theory of the shared state. Memory allocation succeeds.
\<close>

abbreviation MAX_FILES :: nat where "MAX_FILES \<equiv> 100"

definition setupFiles :: "'j world \<Rightarrow> 'j world" where
  "setupFiles = on_sd (\<lambda>s. fold (\<lambda>p s. fst (mkdir p s))
     [''/sdcard/media'', ''/sdcard/data'', ''/sdcard/media/audio'', ''/sdcard/media/toys''] s)"

definition SdCard_open :: "'j world \<Rightarrow> 'j world" where
  "SdCard_open w = setupFiles (call Sdcard_mount w)"

definition exist :: "string \<Rightarrow> sdcard \<Rightarrow> bool option" where
  "exist t s = do {
     p \<leftarrow> sprintf_buf 50 (''/sdcard/media/toys/'' @ cstr t);
     Some (opendir s p \<noteq> None)
   }"

text \<open>
  \<^verbatim>\<open>f_getfree\<close> answers the free clusters or an error. \<^verbatim>\<open>DWORD\<close> has 32 bits, so the
  product with the cluster size wraps; the sector has 512 bytes.
\<close>

definition getFreeMemory :: "(u32 \<times> u32) option \<Rightarrow> u64" where
  "getFreeMemory free =
     (case free of
        None \<Rightarrow> 0
      | Some (freeCluster, csize) \<Rightarrow> (let freeSector = freeCluster * csize in ucast freeSector * 512))"

fun list_loop :: "(string \<times> bool) list \<Rightarrow> nat \<Rightarrow> string list \<Rightarrow> string list" where
  "list_loop [] count names = names"
| "list_loop ((name, regular) # es) count names =
     (if count < MAX_FILES
      then (if regular then list_loop es (count + 1) (names @ [name]) else list_loop es count names)
      else names)"

definition list_files :: "string \<Rightarrow> sdcard \<Rightarrow> string list option" where
  "list_files p s = (case opendir s p of None \<Rightarrow> None | Some es \<Rightarrow> Some (list_loop es 0 []))"

definition sd_remove :: "string \<Rightarrow> sdcard \<Rightarrow> sdcard" where
  "sd_remove p s =
     (if files s p \<noteq> None then remove_entry p (s\<lparr>files := (files s)(p := None)\<rparr>)
      else if dirents s p = Some [] then remove_entry p (s\<lparr>dirents := (dirents s)(p := None)\<rparr>)
      else s)"

text \<open>
  The path of every entry is built in a buffer of 300 bytes, so the recursion is bounded by the
  length of the path.
\<close>

function (sequential) deleteEntireFolder :: "string \<Rightarrow> sdcard \<Rightarrow> sdcard option"
  and delete_entries :: "string \<Rightarrow> (string \<times> bool) list \<Rightarrow> sdcard \<Rightarrow> sdcard option" where
  "deleteEntireFolder d s =
     (case opendir s d of
        None \<Rightarrow> Some s
      | Some es \<Rightarrow> Option.bind (delete_entries d es s) (\<lambda>s1. Some (sd_remove d s1)))"
| "delete_entries d [] s = Some s"
| "delete_entries d ((name, regular) # es) s =
     (if length (d @ ''/'' @ name) < 300
      then Option.bind
        (if regular then Some (sd_remove (d @ ''/'' @ name) s) else deleteEntireFolder (d @ ''/'' @ name) s)
        (delete_entries d es)
      else None)"
  by pat_completeness auto
termination
  by (relation "inv_image (less_than <*lex*> less_than <*lex*> less_than)
    (\<lambda>x. case x of Inl (d, s) \<Rightarrow> (300 - length d, 1, 0)
       | Inr (d, es, s) \<Rightarrow> (300 - length d, 0, length es))") auto

lemma list_loop_take:
  "count \<le> MAX_FILES \<Longrightarrow> list_loop es count names =
     names @ take (MAX_FILES - count) (map fst (filter snd es))"
  by (induction es count names rule: list_loop.induct) (auto simp: take_Cons' Suc_diff_le)

text \<open>Of the regular files of a directory the listing keeps the first hundred.\<close>

lemma list_files_first_hundred:
  "opendir s p = Some es \<Longrightarrow> list_files p s = Some (take MAX_FILES (map fst (filter snd es)))"
  by (simp add: list_files_def list_loop_take)

end
