(* ===== verification/Downloader_App.thy ===== *)
theory Downloader_App
  imports Wifi_App Sd_Card
begin

text \<open>
  The downloader, \<^verbatim>\<open>src/main/src/downloader.cpp\<close>: it logs the box in, fetches the
  description of a toy (the master JSON), its direction files and its audio files, and leaves
  \<^verbatim>\<open>verify.txt\<close> behind when they are complete.

  The HTTP client of ESP-IDF is outside: what a request did is the next entry of
  \<open>ext_http\<close>, and its events are handed to the callback in order. Requests carry the fields
  the code sets; they do not influence the model's answers and only their buffers are checked.
  The object's member \<^verbatim>\<open>toy\<close> is an argument. Memory allocation succeeds.

  \<open>None\<close> is undefined behaviour of the C++ code, as everywhere: a string that does not fit
  its buffer, an uninitialised entry of a list that is used, or closing a file that is
  not open.
\<close>

section \<open>Requests\<close>

definition perform :: "'j world \<Rightarrow> 'j world \<times> http_result" where
  "perform w =
     (case ext_http w of
        [] \<Rightarrow> (w, \<lparr>events = [], perform_ok = False, status_code = 0\<rparr>)
      | r # rs \<Rightarrow> (w\<lparr>ext_http := rs\<rparr>, r))"

fun run_events ::
  "(http_event \<Rightarrow> 'j world \<Rightarrow> 'j world option) \<Rightarrow> http_event list \<Rightarrow> 'j world \<Rightarrow> 'j world option" where
  "run_events cb [] w = Some w"
| "run_events cb (e # es) w = do { w1 \<leftarrow> cb e w; run_events cb es w1 }"

section \<open>Logging in\<close>

definition createFolders :: "string \<Rightarrow> 'j world \<Rightarrow> 'j world option" where
  "createFolders t w = do {
     folderName \<leftarrow> sprintf_buf 150 (''/sdcard/media/toys/'' @ cstr t);
     Some (on_sd (\<lambda>s. fst (mkdir folderName s)) w)
   }"

definition token_header :: "string \<Rightarrow> string \<Rightarrow> 'j world \<Rightarrow> 'j world option" where
  "token_header key val w =
     (if tokenRequestFlag (glob w) \<and> \<not> validTokenFlag (glob w) \<and>
         take 19 key = ''x-cubbies-box-token''
      then (if length (cstr val) > 40 then Some w
            else do {
              a \<leftarrow> strncpy (accessToken (glob w)) val 39;
              a1 \<leftarrow> wr a 39 (CHR 0x00);
              Some (on_glob (\<lambda>g. g\<lparr>accessToken := a1, validTokenFlag := True\<rparr>) w)
            })
      else Some w)"

definition TokenCallback :: "http_event \<Rightarrow> 'j world \<Rightarrow> 'j world option" where
  "TokenCallback evt w =
     (case evt of
        HTTP_EVENT_ON_HEADER key val \<Rightarrow> token_header key val w
      | HTTP_EVENT_ON_DATA data \<Rightarrow>
          (if length data > 2047 then Some w
           else do {
             o1 \<leftarrow> wr_block (dl_outputBuff (dl w)) 0 data;
             o2 \<leftarrow> wr o1 (length data) (CHR 0x00);
             Some (on_dl (\<lambda>d. d\<lparr>dl_outputBuff := o2\<rparr>) w)
           })
      | _ \<Rightarrow> Some w)"

text \<open>
  After a failed login the code writes four bytes starting at a one-byte variable to
  \<^verbatim>\<open>err.cubbies\<close>, which reads outside the variable.
\<close>

definition downloadToken :: "string \<Rightarrow> 'j world \<Rightarrow> 'j world option" where
  "downloadToken t w =
     (if validTokenFlag (glob w) then Some w
      else (let (w1, rc) = connect w in
        if rc = 0 then do {
          let w2 = on_glob (\<lambda>g. g\<lparr>tokenRequestFlag := True\<rparr>) w1;
          postData \<leftarrow> sprintf_buf 100 (''{\"macAddress\": \"'' @ cstr (macID (sys w2)) @
            ''\", \"boxUniqueId\": \"'' @ cstr (uniqueBoxID (sys w2)) @ ''\"}'');
          let (w3, r) = perform w2;
          w4 \<leftarrow> run_events TokenCallback (events r) w3;
          let httpResponseCode = (if perform_ok r then status_code r else 0);
          w5 \<leftarrow> (if httpResponseCode < 200 \<or> httpResponseCode > 299
                then do {
                  errUrl \<leftarrow> sprintf_buf 200 (''/sdcard/media/toys/'' @ cstr t @ ''/err.cubbies'');
                  if fopen_w (sd w4) errUrl then None else Some w4
                } else Some w4);
          Some (on_glob (\<lambda>g. g\<lparr>tokenRequestFlag := False\<rparr>) w5)
        } else Some w1))"

section \<open>The master JSON\<close>

definition path_prefixes :: "string \<Rightarrow> string list" where
  "path_prefixes p = map (\<lambda>i. take i p) (filter (\<lambda>i. p ! i = CHR ''/'') [1..<length p]) @ [p]"

fun mkdir_all :: "string list \<Rightarrow> sdcard \<Rightarrow> sdcard \<times> bool" where
  "mkdir_all [] s = (s, True)"
| "mkdir_all (p # ps) s =
     (let (s1, r) = mkdir p s in if r = MK_FAIL then (s1, False) else mkdir_all ps s1)"

definition create_directory :: "string \<Rightarrow> sdcard \<Rightarrow> (sdcard \<times> bool) option" where
  "create_directory path s =
     (let temp_path = snprintf_buf 256 path in
      if temp_path = [] then None
      else Some (mkdir_all (path_prefixes (norm_dir temp_path)) s))"

definition create_file :: "string \<Rightarrow> string \<Rightarrow> sdcard \<Rightarrow> sdcard" where
  "create_file path content s = (if fopen_w s path then write_file path content s else s)"

fun commas :: "string list \<Rightarrow> string" where
  "commas [] = []"
| "commas [x] = x"
| "commas (x # y # xs) = x @ '','' @ commas (y # xs)"

definition write_array_to_file :: "string \<Rightarrow> int list \<Rightarrow> sdcard \<Rightarrow> sdcard" where
  "write_array_to_file path array s =
     (if fopen_w s path then write_file path (commas (map printf_d array)) s else s)"

text \<open>The names a media entry asks for: its own and, for a question, the two answers.\<close>

definition media_names :: "'j cJSON \<Rightarrow> 'j option \<Rightarrow> string list" where
  "media_names cj item =
     (case Option.bind item (\<lambda>m. get_object_item cj m ''N'') of
        None \<Rightarrow> []
      | Some n \<Rightarrow>
          (case (item_string cj n, Option.bind item (\<lambda>m. get_object_item cj m ''T'')) of
             (Some N, Some t) \<Rightarrow>
               (case item_int cj t of
                  None \<Rightarrow> []
                | Some T \<Rightarrow> N # (if T = 1 then [N @ ''C'', N @ ''W''] else []))
           | _ \<Rightarrow> []))"

fun media_loop :: "'j cJSON \<Rightarrow> 'j \<Rightarrow> nat list \<Rightarrow> nat \<Rightarrow> string list \<Rightarrow> string list option" where
  "media_loop cj media [] cap names = Some names"
| "media_loop cj media (i # is) cap names =
     (let names1 = names @ media_names cj (get_array_item cj media i) in
      if length names1 \<le> cap then media_loop cj media is cap names1 else None)"

definition store_base_url :: "'j cJSON \<Rightarrow> 'j \<Rightarrow> 'j Downloader \<Rightarrow> 'j Downloader option" where
  "store_base_url cj j d =
     (case Option.bind (get_object_item cj j ''baseUrl'') (item_string cj) of
        None \<Rightarrow> Some d
      | Some v \<Rightarrow> do {
          b \<leftarrow> strncpy (baseUrl d) v 255;
          b1 \<leftarrow> wr b 255 (CHR 0x00);
          Some (d\<lparr>baseUrl := b1\<rparr>)
        })"

definition store_directions :: "'j cJSON \<Rightarrow> 'j \<Rightarrow> 'j Downloader \<Rightarrow> 'j Downloader" where
  "store_directions cj j d =
     (case get_object_item cj j ''directionFiles'' of
        None \<Rightarrow> d
      | Some a \<Rightarrow>
          if is_array cj a
          then d\<lparr>direction_file_names :=
                 map (\<lambda>i. Option.bind (get_array_item cj a i) (item_string cj)) [0..<get_array_size cj a]\<rparr>
          else d)"

definition store_media :: "'j cJSON \<Rightarrow> 'j \<Rightarrow> 'j Downloader \<Rightarrow> 'j Downloader option" where
  "store_media cj j d = do {
     let d1 = (case get_object_item cj j ''media'' of
                 None \<Rightarrow> d
               | Some m \<Rightarrow> if is_array cj m then d\<lparr>media_json := Some m\<rparr> else d);
     (case media_json d1 of
        None \<Rightarrow> Some d1
      | Some m \<Rightarrow>
          if is_array cj m then do {
            names \<leftarrow> media_loop cj m [0..<get_array_size cj m] (3 * get_array_size cj m) [];
            Some (d1\<lparr>N_server := Some names\<rparr>)
          } else Some d1)
   }"

definition theme_values :: "'j cJSON \<Rightarrow> 'j \<Rightarrow> int list option" where
  "theme_values cj a =
     those (map (\<lambda>i. map_option (valueint cj) (get_array_item cj a i)) [0..<get_array_size cj a])"

definition store_files :: "'j cJSON \<Rightarrow> 'j \<Rightarrow> string \<Rightarrow> sdcard \<Rightarrow> sdcard option" where
  "store_files cj j base s = do {
     let s1 = (case Option.bind (get_object_item cj j ''version'') (item_int cj) of
                 None \<Rightarrow> s
               | Some v \<Rightarrow> create_file (snprintf_buf 512 (base @ ''/version.cubbies'')) (printf_d v) s);
     let s2 = (case Option.bind (get_object_item cj j ''productCode'') (item_string cj) of
                 None \<Rightarrow> s1
               | Some v \<Rightarrow> create_file (snprintf_buf 512 (base @ ''/productCode.cubbies'')) v s1);
     let s3 = (case Option.bind (get_object_item cj j ''recordable'') (item_int cj) of
                 None \<Rightarrow> s2
               | Some v \<Rightarrow> create_file (snprintf_buf 512 (base @ ''/recordable.cubbies'')) (printf_d v) s2);
     (case get_object_item cj j ''colourTheme'' of
        None \<Rightarrow> Some s3
      | Some a \<Rightarrow>
          if is_array cj a then do {
            vs \<leftarrow> theme_values cj a;
            Some (write_array_to_file (snprintf_buf 512 (base @ ''/colourTheme.cubbies'')) vs s3)
          } else Some s3)
   }"

definition parse_and_store_metadata :: "'j cJSON \<Rightarrow> string \<Rightarrow> 'j world \<Rightarrow> 'j world option" where
  "parse_and_store_metadata cj buf w =
     (case parse cj buf of
        None \<Rightarrow> Some w
      | Some j \<Rightarrow> do {
          d1 \<leftarrow> store_base_url cj j (dl w);
          d2 \<leftarrow> store_media cj j (store_directions cj j d1);
          let base = snprintf_buf 256 (''/sdcard/media/toys/'' @ cstr (tagUid_qbus (glob w)));
          s1 \<leftarrow> store_files cj j base (sd w);
          Some (w\<lparr>dl := d2, sd := s1\<rparr>)
        })"

definition master_open :: "'j world \<Rightarrow> ('j world \<times> bool) option" where
  "master_open w =
     (if master_file (dl w) \<noteq> None then Some (w, True)
      else do {
        dir \<leftarrow> sprintf_buf 256 (''/sdcard/media/toys/'' @ cstr (tagUid_qbus (glob w)) @ ''/'');
        (s1, ok) \<leftarrow> create_directory dir (sd w);
        let w1 = w\<lparr>sd := s1\<rparr>;
        if \<not> ok then Some (w1, False)
        else do {
          file_path \<leftarrow> sprintf_buf 256 (dir @ ''metadata.cubbies'');
          if fopen_w s1 file_path
          then Some (on_dl (\<lambda>d. d\<lparr>master_file := Some file_path\<rparr>) (on_sd (write_file file_path []) w1), True)
          else Some (w1, False)
        }
      })"

definition MasterjsonCallback :: "'j cJSON \<Rightarrow> http_event \<Rightarrow> 'j world \<Rightarrow> 'j world option" where
  "MasterjsonCallback cj evt w =
     (case evt of
        HTTP_EVENT_ON_DATA data \<Rightarrow>
          (if data = [] then Some w
           else do {
             let w1 = on_dl (\<lambda>d. d\<lparr>response_buffer := response_buffer d @ data\<rparr>) w;
             (w2, ok) \<leftarrow> master_open w1;
             Some (case (ok, master_file (dl w2)) of
                     (True, Some p) \<Rightarrow> on_sd (append_file p data) w2
                   | _ \<Rightarrow> w2)
           })
      | HTTP_EVENT_ON_FINISH \<Rightarrow> do {
          w1 \<leftarrow> (if master_file (dl w) \<noteq> None
                then parse_and_store_metadata cj (response_buffer (dl w))
                       (on_dl (\<lambda>d. d\<lparr>master_file := None\<rparr>) w)
                else Some w);
          Some (on_dl (\<lambda>d. d\<lparr>response_buffer := []\<rparr>) w1)
        }
      | HTTP_EVENT_DISCONNECTED \<Rightarrow> Some (on_dl (\<lambda>d. d\<lparr>response_buffer := []\<rparr>) w)
      | _ \<Rightarrow> Some w)"

definition download_master_json :: "'j cJSON \<Rightarrow> string \<Rightarrow> 'j world \<Rightarrow> 'j world option" where
  "download_master_json cj t w = do {
     request_body \<leftarrow> sprintf_buf 500 (''{\"rfid\":\"'' @ cstr t @ ''\",\"userIds\":[\"'' @
       cstr (uniqueBoxID (sys w)) @ ''\"],\"macAddress\":\"'' @ cstr (macID (sys w)) @ ''\"}'');
     let (w1, r) = perform w;
     run_events (MasterjsonCallback cj) (events r) w1
   }"

definition get_direction_file_name :: "nat \<Rightarrow> 'j Downloader \<Rightarrow> string option option" where
  "get_direction_file_name i d =
     (if i < length (direction_file_names d) then Some (direction_file_names d ! i) else None)"

definition get_N_value :: "nat \<Rightarrow> 'j Downloader \<Rightarrow> string option" where
  "get_N_value i d =
     (case N_server d of
        None \<Rightarrow> None
      | Some ns \<Rightarrow> if i < length ns then Some (ns ! i) else None)"

definition free_N_server :: "'j Downloader \<Rightarrow> 'j Downloader" where
  "free_N_server d = d\<lparr>N_server := None\<rparr>"

fun keep_unseen :: "string list \<Rightarrow> string list \<Rightarrow> string list" where
  "keep_unseen sd_files [] = []"
| "keep_unseen sd_files (n # ns) =
     (if n \<in> set sd_files then keep_unseen sd_files ns else n # keep_unseen sd_files ns)"

definition update_N_server :: "string list \<Rightarrow> 'j Downloader \<Rightarrow> 'j Downloader" where
  "update_N_server sd_files d =
     (let ns = (case N_server d of None \<Rightarrow> [] | Some ns \<Rightarrow> ns)
      in (free_N_server d)\<lparr>N_server := Some (keep_unseen sd_files ns)\<rparr>)"

definition compare_and_update_N_server :: "string \<Rightarrow> 'j world \<Rightarrow> 'j world" where
  "compare_and_update_N_server path w =
     (case list_files path (sd w) of
        None \<Rightarrow> w
      | Some names \<Rightarrow> on_dl (update_N_server names) w)"

section \<open>Direction files\<close>

definition DirectionCallback :: "http_event \<Rightarrow> 'j world \<Rightarrow> 'j world option" where
  "DirectionCallback evt w =
     (case evt of
        HTTP_EVENT_ON_DATA data \<Rightarrow>
          (if output_len (dl w) + length data < 4096
           then do {
             b \<leftarrow> wr_block (output_buffer (dl w)) (output_len (dl w)) data;
             b1 \<leftarrow> wr b (output_len (dl w) + length data) (CHR 0x00);
             Some (on_dl (\<lambda>d. d\<lparr>output_buffer := b1, output_len := output_len d + length data\<rparr>) w)
           } else Some w)
      | HTTP_EVENT_ON_FINISH \<Rightarrow> Some (on_dl (\<lambda>d. d\<lparr>output_len := 0\<rparr>) w)
      | HTTP_EVENT_DISCONNECTED \<Rightarrow> Some (on_dl (\<lambda>d. d\<lparr>output_len := 0\<rparr>) w)
      | _ \<Rightarrow> Some w)"

definition save_file_to_sd :: "string \<Rightarrow> string \<Rightarrow> string \<Rightarrow> sdcard \<Rightarrow> sdcard" where
  "save_file_to_sd t direction_name data s =
     create_file (snprintf_buf 256 (''/sdcard/media/toys/'' @ cstr t @ ''/'' @ direction_name @ ''.cubbies''))
       (cstr data) s"

text \<open>\<^verbatim>\<open>strrchr\<close> for the last underscore and \<^verbatim>\<open>strchr\<close> for the dot after it.\<close>

definition direction_of :: "string \<Rightarrow> string option" where
  "direction_of name =
     (if CHR ''_'' \<in> set name
      then Some (takeWhile (\<lambda>c. c \<noteq> CHR ''.'') (rev (takeWhile (\<lambda>c. c \<noteq> CHR ''_'') (rev name))))
      else None)"

definition download_file :: "string \<Rightarrow> string \<Rightarrow> 'j world \<Rightarrow> 'j world option" where
  "download_file t dir_file_name w = do {
     let w1 = on_dl (\<lambda>d. d\<lparr>output_buffer := zeros 4096, output_len := 0\<rparr>) w;
     let (w2, r) = perform w1;
     w3 \<leftarrow> run_events DirectionCallback (events r) w2;
     Some (if perform_ok r
           then (case direction_of (snprintf_buf 256 dir_file_name) of
                   Some direction_part \<Rightarrow>
                     on_sd (save_file_to_sd t direction_part (output_buffer (dl w3))) w3
                 | None \<Rightarrow> w3)
           else w3)
   }"

fun direction_loop :: "string \<Rightarrow> nat list \<Rightarrow> 'j world \<Rightarrow> 'j world option" where
  "direction_loop t [] w = Some w"
| "direction_loop t (i # is) w =
     (case get_direction_file_name i (dl w) of
        None \<Rightarrow> direction_loop t is w
      | Some None \<Rightarrow> None
      | Some (Some name) \<Rightarrow> Option.bind (download_file t name w) (direction_loop t is))"

definition process_direction_files :: "string \<Rightarrow> 'j world \<Rightarrow> 'j world option" where
  "process_direction_files t w = direction_loop t [0..<length (direction_file_names (dl w))] w"

section \<open>Audio files\<close>

abbreviation BUFFER_SIZE :: nat where "BUFFER_SIZE \<equiv> 4096"
abbreviation MAX_RETRY_COUNT :: nat where "MAX_RETRY_COUNT \<equiv> 3"

definition flush_buffer :: "'j world \<Rightarrow> 'j world" where
  "flush_buffer w =
     (case mp3_file (dl w) of
        Some p \<Rightarrow>
          if buffer_pos (dl w) > 0
          then on_dl (\<lambda>d. d\<lparr>buffer_pos := 0\<rparr>)
                 (on_sd (append_file p (take (buffer_pos (dl w)) (download_buffer (dl w)))) w)
          else w
      | None \<Rightarrow> w)"

text \<open>
  The copying loop of a data event. With a full buffer that is not flushed it would copy nothing
  and run forever; then the value is \<open>None\<close>.
\<close>

partial_function (option) mp3_data :: "string \<Rightarrow> 'j world \<Rightarrow> 'j world option" where
  "mp3_data data w =
     (if data = [] then Some w
      else (let to_copy = min (length data) (BUFFER_SIZE - buffer_pos (dl w)) in
        Option.bind (wr_block (download_buffer (dl w)) (buffer_pos (dl w)) (take to_copy data)) (\<lambda>b.
          let w1 = on_dl (\<lambda>d. d\<lparr>download_buffer := b, buffer_pos := buffer_pos d + to_copy\<rparr>) w;
              w2 = (if buffer_pos (dl w1) = BUFFER_SIZE then flush_buffer w1 else w1)
          in mp3_data (drop to_copy data) w2)))"

definition Downloadmp3Callback :: "http_event \<Rightarrow> 'j world \<Rightarrow> 'j world option" where
  "Downloadmp3Callback evt w =
     (case evt of
        HTTP_EVENT_ON_DATA data \<Rightarrow> if mp3_file (dl w) \<noteq> None then mp3_data data w else Some w
      | HTTP_EVENT_ON_FINISH \<Rightarrow>
          Some (if mp3_file (dl w) \<noteq> None
                then on_dl (\<lambda>d. d\<lparr>mp3_file := None\<rparr>) (flush_buffer w) else w)
      | HTTP_EVENT_DISCONNECTED \<Rightarrow>
          Some (if mp3_file (dl w) \<noteq> None then on_dl (\<lambda>d. d\<lparr>mp3_file := None\<rparr>) w else w)
      | _ \<Rightarrow> Some w)"

definition find_metadata_for_file :: "'j cJSON \<Rightarrow> string \<Rightarrow> 'j Downloader \<Rightarrow> 'j option" where
  "find_metadata_for_file cj name d =
     (case media_json d of
        None \<Rightarrow> None
      | Some m \<Rightarrow>
          Option.bind
            (find (\<lambda>i. Option.bind (Option.bind (get_array_item cj m i) (\<lambda>it. get_object_item cj it ''N''))
                   (item_string cj) = Some name) [0..<get_array_size cj m])
            (get_array_item cj m))"

text \<open>The defaults and, where the JSON has them, the values of the fields.\<close>

definition int_field :: "'j cJSON \<Rightarrow> 'j \<Rightarrow> string \<Rightarrow> int" where
  "int_field cj m k =
     (case Option.bind (get_object_item cj m k) (item_int cj) of Some v \<Rightarrow> v | None \<Rightarrow> 0)"

definition array_field :: "'j cJSON \<Rightarrow> 'j \<Rightarrow> string \<Rightarrow> nat \<Rightarrow> int list option" where
  "array_field cj m k n =
     (case get_object_item cj m k of
        Some a \<Rightarrow>
          if is_array cj a \<and> get_array_size cj a = n
          then those (map (\<lambda>i. map_option (valueint cj) (get_array_item cj a i)) [0..<n])
          else Some (replicate n 0)
      | None \<Rightarrow> Some (replicate n 0))"

definition header_text :: "int \<Rightarrow> int \<Rightarrow> int list \<Rightarrow> int list \<Rightarrow> int list \<Rightarrow> string" where
  "header_text t a l r z =
     ''HEADER_START'' @ [CHR 0x0A] @
     ''T:'' @ printf_03d t @ [CHR 0x0A] @
     ''A:'' @ printf_03d a @ [CHR 0x0A] @
     ''L:'' @ commas (map printf_03d l) @ [CHR 0x0A] @
     ''R:'' @ commas (map printf_03d r) @ [CHR 0x0A] @
     ''Z:'' @ commas (map printf_03d z) @ [CHR 0x0A] @
     ''HEADER_END'' @ [CHR 0x0A]"

definition write_metadata_to_file :: "'j cJSON \<Rightarrow> 'j \<Rightarrow> string option" where
  "write_metadata_to_file cj m = do {
     let t_value = int_field cj m ''T'';
     let a_value = (if t_value = 1 then int_field cj m ''A'' else 0);
     l_values \<leftarrow> (if t_value = 1 then array_field cj m ''L'' 3 else Some [0, 0, 0]);
     r_values \<leftarrow> (if t_value = 1 then array_field cj m ''R'' 3 else Some [0, 0, 0]);
     z_values \<leftarrow> array_field cj m ''Z'' 2;
     Some (header_text t_value a_value l_values r_values z_values)
   }"

text \<open>At most three attempts; the result is whether one of them succeeded.\<close>

fun attempts :: "nat \<Rightarrow> 'j world \<Rightarrow> ('j world \<times> bool) option" where
  "attempts 0 w = Some (w, False)"
| "attempts (Suc n) w =
     (let (w1, r) = perform w in
      Option.bind (run_events Downloadmp3Callback (events r) w1) (\<lambda>w2.
        if perform_ok r then Some (w2, True) else attempts n w2))"

definition audio_path :: "string \<Rightarrow> string \<Rightarrow> string" where
  "audio_path name suffix = snprintf_buf 256 (''/sdcard/media/audio/'' @ name @ suffix)"

definition download_mp3_file :: "'j cJSON \<Rightarrow> string \<Rightarrow> 'j world \<Rightarrow> ('j world \<times> bool) option" where
  "download_mp3_file cj name w =
     (let temp_file_path = audio_path name ''temp.mp3'';
          final_file_path = audio_path name ''.mp3''
      in if \<not> fopen_w (sd w) temp_file_path
         then Some (on_dl (\<lambda>d. d\<lparr>mp3_file := None\<rparr>) w, False)
         else do {
           let w1 = on_dl (\<lambda>d. d\<lparr>mp3_file := Some temp_file_path\<rparr>)
                      (on_sd (write_file temp_file_path []) w);
           header \<leftarrow> (case find_metadata_for_file cj name (dl w1) of
                        Some m \<Rightarrow> write_metadata_to_file cj m
                      | None \<Rightarrow> Some ([CHR ''0'', CHR 0x0A] @ ''0,0'' @ [CHR 0x0A]));
           let w2 = on_sd (append_file temp_file_path header) w1;
           (w3, ok) \<leftarrow> attempts MAX_RETRY_COUNT w2;
           if ok then
             (case rename temp_file_path final_file_path (sd w3) of
                None \<Rightarrow> Some (w3, False)
              | Some s \<Rightarrow> Some (w3\<lparr>sd := s\<rparr>, True))
           else if mp3_file (dl w3) = None then None
           else Some (w3, False)
         })"

definition strip_ext :: "string \<Rightarrow> string" where
  "strip_ext s =
     (if CHR ''.'' \<in> set s then rev (drop 1 (dropWhile (\<lambda>c. c \<noteq> CHR ''.'') (rev s))) else s)"

definition files_to_download :: "string list \<Rightarrow> string list \<Rightarrow> string list" where
  "files_to_download sd_files ns =
     filter (\<lambda>n. \<not> list_ex (\<lambda>f. strip_ext n = strip_ext f) sd_files) ns"

fun download_loop :: "'j cJSON \<Rightarrow> string list \<Rightarrow> 'j world \<Rightarrow> ('j world \<times> bool) option" where
  "download_loop cj [] w = Some (w, True)"
| "download_loop cj (n # ns) w =
     Option.bind (download_mp3_file cj n w) (\<lambda>(w1, success).
       if success then download_loop cj ns w1 else Some (w1, False))"

definition create_verified_file :: "int \<Rightarrow> 'j world \<Rightarrow> 'j world option" where
  "create_verified_file seconds w = do {
     file_path \<leftarrow> sprintf_buf 256 (''/sdcard/media/toys/'' @ cstr (tagUid_qbus (glob w)) @ ''/verify.txt'');
     Some (on_sd (create_file file_path
       (''All files downloaded successfully at: '' @ printf_d seconds @ [CHR 0x0A])) w)
   }"

definition process_audio_files ::
  "'j cJSON \<Rightarrow> int \<Rightarrow> string \<Rightarrow> 'j world \<Rightarrow> ('j world \<times> bool) option" where
  "process_audio_files cj seconds sd_card_path w =
     (case list_files sd_card_path (sd w) of
        None \<Rightarrow> Some (w, False)
      | Some sd_files \<Rightarrow> do {
          let todo = files_to_download sd_files (case N_server (dl w) of None \<Rightarrow> [] | Some ns \<Rightarrow> ns);
          (w1, all_downloads_successful) \<leftarrow> download_loop cj todo w;
          w2 \<leftarrow> (if all_downloads_successful \<and> todo \<noteq> [] then create_verified_file seconds w1 else Some w1);
          Some (on_dl free_N_server w2, all_downloads_successful)
        })"

section \<open>The whole download\<close>

definition Downloader_begin ::
  "'j cJSON \<Rightarrow> int \<Rightarrow> string \<Rightarrow> 'j world \<Rightarrow> ('j world \<times> bool) option" where
  "Downloader_begin cj seconds t w = do {
     my_toy \<leftarrow> strcpy (zeros 20) t;
     let (w1, rc) = connect w;
     if rc = 0 then do {
       w2 \<leftarrow> createFolders my_toy w1;
       w3 \<leftarrow> downloadToken my_toy w2;
       w4 \<leftarrow> download_master_json cj my_toy w3;
       w5 \<leftarrow> process_direction_files my_toy w4;
       process_audio_files cj seconds ''/sdcard/media/audio/'' w5
     } else Some (w1, False)
   }"

end
