(* ===== verification/Download_Lemmas.thy ===== *)
theory Download_Lemmas
  imports Downloader_App
begin

text \<open>
  Lemmas about the downloader: the header text against the player's parser, the buffered
  streaming of an audio file, what a download can change on the card, the buffer of a direction
  file, and the size of the list of names.
\<close>

section \<open>Header lines\<close>

lemma length_digits: "n < 10 ^ Suc k \<Longrightarrow> length (digits n) \<le> Suc k"
proof (induction k arbitrary: n)
  case 0
  then show ?case by (simp add: digits.simps [of n])
next
  case (Suc k)
  have "n div 10 < 10 ^ Suc k" using Suc.prems by (simp add: less_mult_imp_div_less)
  then have "length (digits (n div 10)) \<le> Suc k" by (rule Suc.IH)
  then show ?case by (subst digits.simps) simp
qed

definition c_int :: "int \<Rightarrow> bool" where
  "c_int i \<longleftrightarrow> - (2 ^ 31) \<le> i \<and> i < 2 ^ 31"

lemma length_printf_03d: "c_int i \<Longrightarrow> length (printf_03d i) \<le> 11"
proof -
  assume "c_int i"
  then have "nat \<bar>i\<bar> < 10 ^ Suc 9" by (auto simp: c_int_def)
  then have "length (digits (nat \<bar>i\<bar>)) \<le> 10" using length_digits [of _ 9] by simp
  then show ?thesis by (cases "i < 0") (auto simp: printf_03d_def Let_def)
qed

text \<open>One line of a header.\<close>

lemma parse_header_line:
  assumes "\<forall>c \<in> set line. c \<noteq> CHR 0x0A \<and> c \<noteq> CHR 0x0D \<and> c \<noteq> CHR 0x00" "length line < 255"
  shows "parse_header (line @ CHR 0x0A # rest) h =
    (if take 12 line = ''HEADER_START'' then parse_header rest h
     else if take 10 line = ''HEADER_END'' then h
     else parse_header rest (header_line line h))"
proof -
  have "CHR 0x0A \<notin> set line" using assms(1) by blast
  then have "fgets_take 255 (line @ CHR 0x0A # rest) = (line @ [CHR 0x0A], rest)"
    using assms(2) by (intro fgets_take_line) auto
  then have f: "fgets 256 (line @ CHR 0x0A # rest) = Some (line @ [CHR 0x0A], rest)"
    by (cases line) (simp_all add: fgets_def)
  have "trim_line (line @ [CHR 0x0A]) = line"
    using assms(1) by (simp add: trim_line_def takeWhile_append2)
  then show ?thesis
    by (subst parse_header.simps) (simp add: f Let_def)
qed

lemma scan_list_commas:
  "scan_list (length vs) (commas (map printf_03d vs)) = vs"
proof (induction vs)
  case Nil
  then show ?case by simp
next
  case (Cons v vs)
  then show ?case
    using scan_d_printf_03d [of "[]" v] scan_d_printf_03d [of "CHR '','' # commas (map printf_03d vs)" v]
    by (cases vs) auto
qed

lemma commas_chars:
  "c \<in> set (commas (map printf_03d vs)) \<Longrightarrow> is_digit c \<or> c = CHR ''-'' \<or> c = CHR '',''"
proof (induction vs)
  case (Cons v vs)
  then show ?case by (cases vs) (auto dest: printf_03d_chars)
qed simp

lemma length_commas:
  "list_all c_int vs \<Longrightarrow> length (commas (map printf_03d vs)) \<le> 12 * length vs"
proof (induction vs)
  case (Cons v vs)
  then show ?case using length_printf_03d [of v] by (cases vs) auto
qed simp

lemma parse_numbers_line:
  assumes "list_all c_int vs" "length vs \<le> 3"
    and "x \<noteq> CHR ''H''" "x \<noteq> CHR 0x0A" "x \<noteq> CHR 0x0D" "x \<noteq> CHR 0x00"
  shows "parse_header (x # CHR '':'' # commas (map printf_03d vs) @ CHR 0x0A # rest) h =
    parse_header rest (header_line (x # CHR '':'' # commas (map printf_03d vs)) h)"
proof -
  let ?line = "x # CHR '':'' # commas (map printf_03d vs)"
  have "\<forall>c \<in> set ?line. c \<noteq> CHR 0x0A \<and> c \<noteq> CHR 0x0D \<and> c \<noteq> CHR 0x00"
    using assms(4-6) not_newline_if_digit commas_chars by auto
  moreover have "length ?line < 255" using length_commas [OF assms(1)] assms(2) by simp
  ultimately have "parse_header (?line @ CHR 0x0A # rest) h =
    (if take 12 ?line = ''HEADER_START'' then parse_header rest h
     else if take 10 ?line = ''HEADER_END'' then h
     else parse_header rest (header_line ?line h))" by (rule parse_header_line)
  then show ?thesis using assms(3) by simp
qed

lemma parse_header_text:
  assumes "c_int t" "c_int a" "list_all c_int l" "list_all c_int r" "list_all c_int z"
    and "length l = 3" "length r = 3" "length z \<le> 3" "length (hL h) = 3" "length (hR h) = 3"
  shows "parse_header (header_text t a l r z @ audio) h =
    h\<lparr>hT := t, hA := a, hL := l, hR := r,
      hZ := take 19 (commas (map printf_03d z)) @ zeros (20 - length (take 19 (commas (map printf_03d z))))\<rparr>"
proof -
  have start: "parse_header (''HEADER_START'' @ CHR 0x0A # rest) h = parse_header rest h" for rest h
    by (subst parse_header_line) simp_all
  have fin: "parse_header (''HEADER_END'' @ CHR 0x0A # rest) h = h" for rest h
    by (subst parse_header_line) simp_all
  have T: "parse_header (CHR ''T'' # CHR '':'' # printf_03d t @ CHR 0x0A # rest) h =
      parse_header rest (h\<lparr>hT := t\<rparr>)" for rest h
    using parse_numbers_line [of "[t]" "CHR ''T''" rest h] assms(1) scan_list_commas [of "[t]"]
    by (simp add: header_line_def)
  have A: "parse_header (CHR ''A'' # CHR '':'' # printf_03d a @ CHR 0x0A # rest) h =
      parse_header rest (h\<lparr>hA := a\<rparr>)" for rest h
    using parse_numbers_line [of "[a]" "CHR ''A''" rest h] assms(2) scan_list_commas [of "[a]"]
    by (simp add: header_line_def)
  have L: "parse_header (CHR ''L'' # CHR '':'' # commas (map printf_03d l) @ CHR 0x0A # rest) h =
      parse_header rest (h\<lparr>hL := l\<rparr>)" if "length (hL h) = 3" for rest h
    using parse_numbers_line [of l "CHR ''L''" rest h] assms(3,6) scan_list_commas [of l] that
    by (simp add: header_line_def scan_into_def)
  have R: "parse_header (CHR ''R'' # CHR '':'' # commas (map printf_03d r) @ CHR 0x0A # rest) h =
      parse_header rest (h\<lparr>hR := r\<rparr>)" if "length (hR h) = 3" for rest h
    using parse_numbers_line [of r "CHR ''R''" rest h] assms(4,7) scan_list_commas [of r] that
    by (simp add: header_line_def scan_into_def)
  have Z: "parse_header (CHR ''Z'' # CHR '':'' # commas (map printf_03d z) @ CHR 0x0A # rest) h =
      parse_header rest (h\<lparr>hZ := take 19 (commas (map printf_03d z)) @
        zeros (20 - length (take 19 (commas (map printf_03d z))))\<rparr>)" for rest h
    using parse_numbers_line [of z "CHR ''Z''" rest h] assms(5,8)
    by (simp add: header_line_def Let_def)
  show ?thesis
    using assms(9,10) start fin
    by (simp add: header_text_def T A L R Z)
qed

section \<open>Streaming\<close>

text \<open>Bytes received and not yet on the card.\<close>

definition pending :: "'j world \<Rightarrow> string" where
  "pending w = take (buffer_pos (dl w)) (download_buffer (dl w))"

definition streamed :: "string \<Rightarrow> string \<Rightarrow> string \<Rightarrow> nat \<Rightarrow> 'j world \<Rightarrow> 'j world" where
  "streamed p c b n w = w\<lparr>sd := (sd w)\<lparr>files := (files (sd w))(p \<mapsto> c)\<rparr>,
     dl := (dl w)\<lparr>download_buffer := b, buffer_pos := n\<rparr>\<rparr>"

definition receiving :: "string \<Rightarrow> string \<Rightarrow> 'j world \<Rightarrow> bool" where
  "receiving p c w \<longleftrightarrow> mp3_file (dl w) = Some p \<and> files (sd w) p = Some c \<and>
     length (download_buffer (dl w)) = 4096 \<and> buffer_pos (dl w) < 4096"

lemma streamed_streamed [simp]: "streamed p c b n (streamed p c' b' n' w) = streamed p c b n w"
  by (simp add: streamed_def)

lemma streamed_self:
  "receiving p c w \<Longrightarrow> streamed p c (download_buffer (dl w)) (buffer_pos (dl w)) w = w"
  by (simp add: streamed_def receiving_def fun_upd_idem)

lemma receiving_streamed [simp]:
  "receiving p c w \<Longrightarrow> length b = 4096 \<Longrightarrow> n < 4096 \<Longrightarrow> receiving p c' (streamed p c' b n w)"
  by (simp add: receiving_def streamed_def)

lemma pending_streamed [simp]: "pending (streamed p c b n w) = take n b"
  by (simp add: pending_def streamed_def)

text \<open>
  One pass of the copying loop: it copies at least one byte, and what is on the card followed by
  what is pending grows by what was copied.
\<close>

lemma mp3_data_step:
  assumes "receiving p c w" "data \<noteq> []"
  obtains k b n x where "0 < k" "mp3_data data w = mp3_data (drop k data) (streamed p (c @ x) b n w)"
    "length b = 4096" "n < 4096" "x @ take n b = pending w @ take k data"
proof -
  let ?pos = "buffer_pos (dl w)" and ?buf = "download_buffer (dl w)"
  define k where "k = min (length data) (4096 - ?pos)"
  define b where "b = take ?pos ?buf @ take k data @ drop (?pos + k) ?buf"
  have r: "mp3_file (dl w) = Some p" "files (sd w) p = Some c" "length ?buf = 4096" "?pos < 4096"
    using assms(1) by (simp_all add: receiving_def)
  have k: "0 < k" "?pos + k \<le> 4096" "k \<le> length data" using assms(2) r(4) by (auto simp: k_def)
  note kd = k_def [symmetric]
  have wb: "wr_block ?buf ?pos (take k data) = Some b"
    using r(3) k(2,3) by (simp add: b_def)
  have lb: "length b = 4096" using r(3) k(2,3) by (simp add: b_def)
  have tb: "take (?pos + k) b = pending w @ take k data"
    using r(3,4) k by (simp add: b_def pending_def)
  show thesis
  proof (cases "?pos + k = 4096")
    case True
    have e: "mp3_data data w = mp3_data (drop k data) (streamed p (c @ b) b 0 w)"
      using assms(2) wb True r lb k(1)
      by (subst mp3_data.simps) (simp add: Let_def kd flush_buffer_def on_defs append_file_def streamed_def)
    have a: "b @ take 0 b = pending w @ take k data"
      using tb True lb by simp
    show thesis by (rule that [OF k(1) e lb _ a]) simp
  next
    case False
    have e: "mp3_data data w = mp3_data (drop k data) (streamed p (c @ []) b (?pos + k) w)"
      using assms(2) wb False r
      by (subst mp3_data.simps) (simp add: Let_def kd on_defs streamed_def fun_upd_idem)
    show thesis by (rule that [OF k(1) e lb]) (use False k tb in simp_all)
  qed
qed

lemma mp3_data_ok:
  assumes "receiving p c w"
  shows "\<exists>b n x. mp3_data data w = Some (streamed p (c @ x) b n w) \<and> length b = 4096 \<and> n < 4096 \<and>
    x @ take n b = pending w @ data"
  using assms
proof (induction data arbitrary: w c rule: length_induct)
  case (1 data)
  show ?case
  proof (cases "data = []")
    case True
    have "mp3_data data w = Some (streamed p (c @ []) (download_buffer (dl w)) (buffer_pos (dl w)) w)"
      using True streamed_self [OF 1(2)] by (subst mp3_data.simps) simp
    then show ?thesis
      using 1(2) True unfolding receiving_def pending_def
      by (metis append.left_neutral append.right_neutral)
  next
    case False
    obtain k b n x where s: "0 < k" "mp3_data data w = mp3_data (drop k data) (streamed p (c @ x) b n w)"
      "length b = 4096" "n < 4096" "x @ take n b = pending w @ take k data"
      by (rule mp3_data_step [OF 1(2) False])
    have "length (drop k data) < length data" using s(1) False by simp
    moreover have "receiving p (c @ x) (streamed p (c @ x) b n w)" using 1(2) s by simp
    ultimately obtain b2 n2 y where "mp3_data (drop k data) (streamed p (c @ x) b n w) =
        Some (streamed p ((c @ x) @ y) b2 n2 (streamed p (c @ x) b n w))" "length b2 = 4096" "n2 < 4096"
      "y @ take n2 b2 = pending (streamed p (c @ x) b n w) @ drop k data"
      using 1(1) by blast
    then have "mp3_data data w = Some (streamed p (c @ (x @ y)) b2 n2 w)" "length b2 = 4096" "n2 < 4096"
      "(x @ y) @ take n2 b2 = pending w @ data"
      using s by (simp_all, metis append.assoc append_take_drop_id)
    then show ?thesis by blast
  qed
qed

fun body :: "http_event list \<Rightarrow> string" where
  "body [] = []"
| "body (HTTP_EVENT_ON_DATA d # es) = d @ body es"
| "body (_ # es) = body es"

definition quiet :: "http_event \<Rightarrow> bool" where
  "quiet e \<longleftrightarrow> e \<noteq> HTTP_EVENT_ON_FINISH \<and> e \<noteq> HTTP_EVENT_DISCONNECTED"

lemma quiet_cb:
  "quiet e \<Longrightarrow> (\<exists>d. e = HTTP_EVENT_ON_DATA d) \<or> Downloadmp3Callback e w = Some w \<and> body (e # es) = body es"
  by (cases e) (auto simp: quiet_def Downloadmp3Callback_def)

lemma run_quiet:
  assumes "receiving p c w" "list_all quiet es"
  shows "\<exists>b n x. run_events Downloadmp3Callback es w = Some (streamed p (c @ x) b n w) \<and> length b = 4096 \<and>
    n < 4096 \<and> x @ take n b = pending w @ body es"
  using assms
proof (induction es arbitrary: w c)
  case Nil
  have "run_events Downloadmp3Callback [] w = Some (streamed p (c @ []) (download_buffer (dl w)) (buffer_pos (dl w)) w)"
    using streamed_self [OF Nil(1)] by simp
  then show ?case
    using Nil(1) unfolding receiving_def pending_def body.simps
    by (metis append.left_neutral append.right_neutral)
next
  case (Cons e es)
  consider d where "e = HTTP_EVENT_ON_DATA d" | "Downloadmp3Callback e w = Some w" "body (e # es) = body es"
    using quiet_cb [of e w es] Cons.prems(2) by auto
  then show ?case
  proof cases
    case 1
    obtain b n x where m: "mp3_data d w = Some (streamed p (c @ x) b n w)" "length b = 4096" "n < 4096"
      "x @ take n b = pending w @ d"
      using mp3_data_ok [OF Cons.prems(1)] by blast
    have "Downloadmp3Callback e w = Some (streamed p (c @ x) b n w)"
      using 1 m Cons.prems(1) by (simp add: Downloadmp3Callback_def receiving_def)
    moreover obtain b2 n2 y where r: "run_events Downloadmp3Callback es (streamed p (c @ x) b n w) =
        Some (streamed p ((c @ x) @ y) b2 n2 (streamed p (c @ x) b n w))" "length b2 = 4096" "n2 < 4096"
      "y @ take n2 b2 = pending (streamed p (c @ x) b n w) @ body es"
      using Cons.IH [of "c @ x" "streamed p (c @ x) b n w"] Cons.prems m by auto
    ultimately have e: "run_events Downloadmp3Callback (e # es) w = Some (streamed p (c @ (x @ y)) b2 n2 w)"
      by simp
    have "(x @ y) @ take n2 b2 = (x @ take n b) @ body es" using r(4) by simp
    then have "(x @ y) @ take n2 b2 = pending w @ body (e # es)" using m(4) 1 by simp
    with e r(2,3) have "run_events Downloadmp3Callback (e # es) w = Some (streamed p (c @ (x @ y)) b2 n2 w) \<and>
        length b2 = 4096 \<and> n2 < 4096 \<and> (x @ y) @ take n2 b2 = pending w @ body (e # es)" by blast
    then show ?thesis by blast
  next
    case 2
    then show ?thesis using Cons by simp
  qed
qed

lemma run_events_append:
  "run_events cb (es @ fs) w = Option.bind (run_events cb es w) (run_events cb fs)"
  by (induction es arbitrary: w) (simp_all split: bind_split)

lemma run_events_closed:
  "mp3_file (dl w) = None \<Longrightarrow> run_events Downloadmp3Callback es w = Some w"
proof (induction es arbitrary: w)
  case (Cons e es)
  then show ?case by (cases e) (simp_all add: Downloadmp3Callback_def)
qed simp

text \<open>A whole response: everything pending is on the card and the file is closed.\<close>

lemma run_finish:
  assumes "receiving p c w" "list_all quiet es"
  shows "\<exists>w' b. run_events Downloadmp3Callback (es @ HTTP_EVENT_ON_FINISH # fs) w = Some w' \<and>
    w' = w\<lparr>sd := (sd w)\<lparr>files := (files (sd w))(p \<mapsto> c @ pending w @ body es)\<rparr>,
      dl := (dl w)\<lparr>download_buffer := b, buffer_pos := 0, mp3_file := None\<rparr>\<rparr>"
proof -
  obtain b n x where r: "run_events Downloadmp3Callback es w = Some (streamed p (c @ x) b n w)"
    "length b = 4096" "n < 4096" "x @ take n b = pending w @ body es"
    using run_quiet [OF assms] by blast
  have "Downloadmp3Callback HTTP_EVENT_ON_FINISH (streamed p (c @ x) b n w) =
    Some (w\<lparr>sd := (sd w)\<lparr>files := (files (sd w))(p \<mapsto> c @ x @ take n b)\<rparr>,
      dl := (dl w)\<lparr>download_buffer := b, buffer_pos := 0, mp3_file := None\<rparr>\<rparr>)"
    using assms(1) by (simp add: Downloadmp3Callback_def flush_buffer_def streamed_def receiving_def
        on_defs append_file_def)
  then show ?thesis
    using r by (auto simp: run_events_append run_events_closed)
qed

lemma run_interrupted:
  assumes "receiving p c w" "list_all quiet es"
  shows "\<exists>b n x. run_events Downloadmp3Callback (es @ HTTP_EVENT_DISCONNECTED # fs) w =
      Some ((streamed p (c @ x) b n w)\<lparr>dl := (dl (streamed p (c @ x) b n w))\<lparr>mp3_file := None\<rparr>\<rparr>) \<and>
    length b = 4096 \<and> n < 4096 \<and> x @ take n b = pending w @ body es"
proof -
  obtain b n x where r: "run_events Downloadmp3Callback es w = Some (streamed p (c @ x) b n w)"
    "length b = 4096" "n < 4096" "x @ take n b = pending w @ body es"
    using run_quiet [OF assms] by blast
  have "Downloadmp3Callback HTTP_EVENT_DISCONNECTED (streamed p (c @ x) b n w) =
    Some ((streamed p (c @ x) b n w)\<lparr>dl := (dl (streamed p (c @ x) b n w))\<lparr>mp3_file := None\<rparr>\<rparr>)"
    using assms(1) by (simp add: Downloadmp3Callback_def streamed_def receiving_def on_defs)
  then have "run_events Downloadmp3Callback (HTTP_EVENT_DISCONNECTED # fs) (streamed p (c @ x) b n w) =
    Some ((streamed p (c @ x) b n w)\<lparr>dl := (dl (streamed p (c @ x) b n w))\<lparr>mp3_file := None\<rparr>\<rparr>)"
    by (simp add: run_events_closed)
  then show ?thesis
    using r by (auto simp: run_events_append)
qed


definition file_header :: "'j cJSON \<Rightarrow> string \<Rightarrow> 'j world \<Rightarrow> string option" where
  "file_header cj name w =
     (case find_metadata_for_file cj name (dl w) of
        Some m \<Rightarrow> write_metadata_to_file cj m
      | None \<Rightarrow> Some ([CHR ''0'', CHR 0x0A] @ ''0,0'' @ [CHR 0x0A]))"

definition mp3_started :: "string \<Rightarrow> string \<Rightarrow> 'j world \<Rightarrow> 'j world" where
  "mp3_started p h w = on_sd (append_file p h) (on_dl (\<lambda>d. d\<lparr>mp3_file := Some p\<rparr>) (on_sd (write_file p []) w))"

lemma download_mp3_file_attempts:
  assumes "fopen_w (sd w) (audio_path name ''temp.mp3'')" "file_header cj name w = Some h"
  shows "download_mp3_file cj name w =
    Option.bind (attempts 3 (mp3_started (audio_path name ''temp.mp3'') h w)) (\<lambda>(w3, ok).
      if ok then
        (case rename (audio_path name ''temp.mp3'') (audio_path name ''.mp3'') (sd w3) of
           None \<Rightarrow> Some (w3, False)
         | Some s \<Rightarrow> Some (w3\<lparr>sd := s\<rparr>, True))
      else if mp3_file (dl w3) = None then None
      else Some (w3, False))"
proof -
  let ?w1 = "on_dl (\<lambda>d. d\<lparr>mp3_file := Some (audio_path name ''temp.mp3'')\<rparr>)
    (on_sd (write_file (audio_path name ''temp.mp3'') []) w)"
  have "media_json (dl ?w1) = media_json (dl w)" by (simp add: on_defs)
  then have "file_header cj name ?w1 = Some h"
    using assms(2) by (simp add: file_header_def find_metadata_for_file_def)
  then have "(case find_metadata_for_file cj name (dl ?w1) of
      None \<Rightarrow> Some ([CHR ''0'', CHR 0x0A] @ ''0,0'' @ [CHR 0x0A])
    | Some m \<Rightarrow> write_metadata_to_file cj m) = Some h" by (simp only: file_header_def)
  then show ?thesis
    using assms(1) unfolding download_mp3_file_def Let_def mp3_started_def
    by (simp only: not_True_eq_False if_False bind.bind_lunit)
qed

lemma mp3_started_ok:
  assumes "length (download_buffer (dl w)) = 4096" "buffer_pos (dl w) < 4096"
  shows "receiving p h (mp3_started p h w)" "pending (mp3_started p h w) = pending w"
    "ext_http (mp3_started p h w) = ext_http w"
    "files (sd (mp3_started p h w)) q = (if q = p then Some h else files (sd w) q)"
    "fopen_w (sd (mp3_started p h w)) q = fopen_w (sd w) q"
    "dirents (sd (mp3_started p h w)) q = None \<longleftrightarrow> dirents (sd w) q = None"
  using assms by (simp_all add: receiving_def pending_def mp3_started_def on_defs append_file_def fopen_w_def)

lemma audio_paths_differ:
  "length name < 200 \<Longrightarrow> audio_path name ''temp.mp3'' \<noteq> audio_path name ''.mp3''"
  by (simp add: audio_path_def)

lemma rename_ok:
  assumes "files s a = Some c" "files s b = None" "dirents s b = None" "fopen_w s b" "a \<noteq> b"
  shows "\<exists>s'. rename a b s = Some s' \<and> files s' b = Some c \<and> files s' a = None"
  using assms by (simp add: rename_def remove_entry_def split: option.split)

section \<open>Downloads touch only their own file\<close>

definition only_at :: "string \<Rightarrow> 'j world \<Rightarrow> 'j world \<Rightarrow> bool" where
  "only_at p w w' \<longleftrightarrow> (\<forall>q. q \<noteq> p \<longrightarrow> files (sd w') q = files (sd w) q) \<and>
     (mp3_file (dl w') = mp3_file (dl w) \<or> mp3_file (dl w') = None) \<and>
     dirents (sd w') = dirents (sd w) \<and> writable (sd w') = writable (sd w) \<and>
     glob w' = glob w \<and> N_server (dl w') = N_server (dl w)"

definition only_file :: "string \<Rightarrow> 'j world \<Rightarrow> bool" where
  "only_file p w \<longleftrightarrow> mp3_file (dl w) = Some p \<or> mp3_file (dl w) = None"

lemma only_at_refl [simp]: "only_at p w w"
  by (simp add: only_at_def)

lemma only_at_trans: "only_at p w w1 \<Longrightarrow> only_at p w1 w2 \<Longrightarrow> only_at p w w2"
  by (auto simp: only_at_def)

lemma only_at_only_file: "only_at p w w' \<Longrightarrow> only_file p w \<Longrightarrow> only_file p w'"
  by (auto simp: only_at_def only_file_def)

lemma flush_only_at: "only_file p w \<Longrightarrow> only_at p w (flush_buffer w)"
  by (auto simp: only_at_def flush_buffer_def on_defs append_file_def only_file_def split: option.split)

lemma mp3_data_only_at:
  assumes "mp3_data data w = Some w'" "only_file p w"
  shows "only_at p w w'"
proof -
  have "only_file p w \<longrightarrow> only_at p w w'"
  proof (rule mp3_data.raw_induct [OF _ assms(1)], rule impI)
    fix f :: "string \<Rightarrow> 'a world \<Rightarrow> 'a world option" and data w w'
    assume IH: "\<And>data w w'. f data w = Some w' \<Longrightarrow> only_file p w \<longrightarrow> only_at p w w'"
      and body: "(if data = [] then Some w
        else let to_copy = min (length data) (4096 - buffer_pos (dl w))
             in Option.bind (wr_block (download_buffer (dl w)) (buffer_pos (dl w)) (take to_copy data))
                 (\<lambda>b. let w1 = on_dl (\<lambda>d. d\<lparr>download_buffer := b, buffer_pos := buffer_pos d + to_copy\<rparr>) w;
                      w2 = if buffer_pos (dl w1) = 4096 then flush_buffer w1 else w1
                  in f (drop to_copy data) w2)) = Some w'"
      and fo: "only_file p w"
    show "only_at p w w'"
    proof (cases "data = []")
      case True
      then show ?thesis using body by simp
    next
      case False
      let ?k = "min (length data) (4096 - buffer_pos (dl w))"
      obtain b where b: "wr_block (download_buffer (dl w)) (buffer_pos (dl w)) (take ?k data) = Some b"
        using body False
        by (cases "wr_block (download_buffer (dl w)) (buffer_pos (dl w)) (take ?k data)") simp_all
      let ?w1 = "on_dl (\<lambda>d. d\<lparr>download_buffer := b, buffer_pos := buffer_pos d + ?k\<rparr>) w"
      let ?w2 = "if buffer_pos (dl ?w1) = 4096 then flush_buffer ?w1 else ?w1"
      have "f (drop ?k data) ?w2 = Some w'" using body False b by (simp add: Let_def)
      note fin = IH [OF this]
      have w1: "only_at p w ?w1" by (simp add: only_at_def on_defs)
      then have f1: "only_file p ?w1" using fo only_at_only_file by blast
      then have w2: "only_at p ?w1 ?w2" using flush_only_at [of p ?w1] by (simp only: if_split only_at_refl) blast
      then show ?thesis
        using fin w1 f1 only_at_only_file only_at_trans by blast
    qed
  qed
  then show ?thesis using assms(2) by blast
qed

lemma callback_only_at:
  assumes "Downloadmp3Callback e w = Some w'" "only_file p w"
  shows "only_at p w w'"
proof -
  have "only_at p w (on_dl (\<lambda>d. d\<lparr>mp3_file := None\<rparr>) (flush_buffer w))"
    by (rule only_at_trans [OF flush_only_at [OF assms(2)]]) (simp add: only_at_def on_defs)
  moreover have "only_at p w (on_dl (\<lambda>d. d\<lparr>mp3_file := None\<rparr>) w)"
    by (simp add: only_at_def on_defs)
  ultimately show ?thesis
    using assms mp3_data_only_at
    by (cases e) (auto simp: Downloadmp3Callback_def split: if_splits)
qed

lemma run_events_only_at:
  "run_events Downloadmp3Callback es w = Some w' \<Longrightarrow> only_file p w \<Longrightarrow> only_at p w w'"
proof (induction es arbitrary: w)
  case (Cons e es)
  then obtain w1 where "Downloadmp3Callback e w = Some w1" "run_events Downloadmp3Callback es w1 = Some w'"
    by (auto simp: bind_eq_Some_conv)
  then show ?case
    using Cons callback_only_at only_at_only_file only_at_trans by metis
qed simp

lemma perform_only_at: "only_at p w (fst (perform w))"
  by (simp add: perform_def only_at_def split: list.split)

lemma attempts_only_at:
  "attempts n w = Some (w', ok) \<Longrightarrow> only_file p w \<Longrightarrow> only_at p w w'"
proof (induction n arbitrary: w)
  case (Suc n)
  let ?w1 = "fst (perform w)"
  obtain w2 where r: "run_events Downloadmp3Callback (events (snd (perform w))) ?w1 = Some w2"
    "if perform_ok (snd (perform w)) then w' = w2 \<and> ok else attempts n w2 = Some (w', ok)"
    using Suc.prems(1) by (auto simp: split_beta bind_eq_Some_conv split: if_splits)
  have f1: "only_file p ?w1" using only_at_only_file [OF perform_only_at Suc.prems(2)] .
  have "only_at p ?w1 w2" using run_events_only_at [OF r(1) f1] .
  then have "only_at p w w2" "only_file p w2"
    using only_at_trans [OF perform_only_at] only_at_only_file [OF _ f1] by blast+
  then show ?case
    using r(2) Suc.IH [of w2] only_at_trans by (auto split: if_splits)
qed simp

lemma download_mp3_file_result:
  assumes "download_mp3_file cj name w = Some (w', True)" "length name < 200"
  shows "files (sd w') (audio_path name ''.mp3'') \<noteq> None \<and>
    (\<forall>q. q \<noteq> audio_path name ''temp.mp3'' \<longrightarrow> files (sd w) q \<noteq> None \<longrightarrow> files (sd w') q \<noteq> None) \<and>
    glob w' = glob w \<and> N_server (dl w') = N_server (dl w)"
proof -
  let ?p = "audio_path name ''temp.mp3''" and ?q = "audio_path name ''.mp3''"
  have fo: "fopen_w (sd w) ?p"
    using assms(1) by (cases "fopen_w (sd w) ?p") (simp_all add: download_mp3_file_def Let_def)
  let ?w1 = "on_dl (\<lambda>d. d\<lparr>mp3_file := Some ?p\<rparr>) (on_sd (write_file ?p []) w)"
  have "media_json (dl ?w1) = media_json (dl w)" by (simp add: on_defs)
  then have "find_metadata_for_file cj name (dl ?w1) = find_metadata_for_file cj name (dl w)"
    by (simp add: find_metadata_for_file_def)
  then obtain h where h: "file_header cj name w = Some h"
    using assms(1) fo unfolding download_mp3_file_def Let_def file_header_def
    by (cases "find_metadata_for_file cj name (dl w)"; cases "write_metadata_to_file cj (the (find_metadata_for_file cj name (dl w)))")
       simp_all
  obtain w3 s where a: "attempts 3 (mp3_started ?p h w) = Some (w3, True)"
    "rename ?p ?q (sd w3) = Some s" "w' = w3\<lparr>sd := s\<rparr>"
    using assms(1) download_mp3_file_attempts [OF fo h]
    by (auto simp: bind_eq_Some_conv split: if_splits option.splits)
  have "only_file ?p (mp3_started ?p h w)" by (simp add: only_file_def mp3_started_def on_defs)
  from attempts_only_at [OF a(1) this] have o: "only_at ?p (mp3_started ?p h w) w3" .
  have st: "files (sd (mp3_started ?p h w)) q = (if q = ?p then Some h else files (sd w) q)"
    "glob (mp3_started ?p h w) = glob w" "N_server (dl (mp3_started ?p h w)) = N_server (dl w)" for q
    by (simp_all add: mp3_started_def on_defs append_file_def)
  have "files s ?q \<noteq> None" "\<forall>q. q \<noteq> ?p \<longrightarrow> files (sd w3) q \<noteq> None \<longrightarrow> files s q \<noteq> None"
    using a(2) by (auto simp: rename_def remove_entry_def split: option.splits if_splits)
  then show ?thesis
    using o st a(3) by (auto simp: only_at_def)
qed

text \<open>No name of the list is the temporary name of another.\<close>

definition no_temp_clash :: "string list \<Rightarrow> bool" where
  "no_temp_clash ns \<longleftrightarrow> list_all (\<lambda>n. length n < 200) ns \<and>
     list_all (\<lambda>n. list_all (\<lambda>m. n \<noteq> m @ ''temp'') ns) ns"

lemma audio_path_clash:
  "length n < 200 \<Longrightarrow> length m < 200 \<Longrightarrow> audio_path n ''.mp3'' = audio_path m ''temp.mp3'' \<Longrightarrow> n = m @ ''temp''"
proof -
  assume l: "length n < 200" "length m < 200" and e: "audio_path n ''.mp3'' = audio_path m ''temp.mp3''"
  then have "n @ ''.mp3'' = (m @ ''temp'') @ ''.mp3''" by (simp add: audio_path_def)
  then show "n = m @ ''temp''" by (simp only: append_same_eq)
qed

lemma download_loop_keeps:
  assumes "download_loop cj ns w = Some (w', True)" "list_all (\<lambda>n. length n < 200) ns"
    and "files (sd w) q \<noteq> None" "\<forall>m \<in> set ns. q \<noteq> audio_path m ''temp.mp3''"
  shows "files (sd w') q \<noteq> None"
  using assms
proof (induction ns arbitrary: w)
  case (Cons m ns)
  then obtain w1 where d: "download_mp3_file cj m w = Some (w1, True)" "download_loop cj ns w1 = Some (w', True)"
    by (auto simp: bind_eq_Some_conv split: if_splits)
  then have "files (sd w1) q \<noteq> None"
    using download_mp3_file_result [OF d(1)] Cons.prems(2-4) by auto
  then show ?case using Cons.IH [OF d(2)] Cons.prems by simp
qed simp

lemma download_loop_all:
  assumes "download_loop cj ns w = Some (w', True)" "list_all (\<lambda>n. length n < 200) (ns @ ms)"
    and "list_all (\<lambda>n. list_all (\<lambda>m. n \<noteq> m @ ''temp'') (ns @ ms)) (ns @ ms)"
  shows "\<forall>n \<in> set ns. files (sd w') (audio_path n ''.mp3'') \<noteq> None"
  using assms
proof (induction ns arbitrary: w)
  case (Cons n ns)
  then obtain w1 where d: "download_mp3_file cj n w = Some (w1, True)" "download_loop cj ns w1 = Some (w', True)"
    by (auto simp: bind_eq_Some_conv split: if_splits)
  have l: "length n < 200" "\<forall>m \<in> set ns. length m < 200 \<and> n \<noteq> m @ ''temp''"
    using Cons.prems(2,3) by (auto simp: list_all_iff)
  have "files (sd w1) (audio_path n ''.mp3'') \<noteq> None"
    using download_mp3_file_result [OF d(1) l(1)] by simp
  then have "files (sd w') (audio_path n ''.mp3'') \<noteq> None"
    using download_loop_keeps [OF d(2)] l audio_path_clash by (fastforce simp: list_all_iff)
  moreover have "\<forall>m \<in> set ns. files (sd w') (audio_path m ''.mp3'') \<noteq> None"
    using Cons.IH [OF d(2)] Cons.prems(2,3) by (auto simp: list_all_iff)
  ultimately show ?case by simp
qed simp

section \<open>Lists stay inside their allocation\<close>

lemma length_media_names: "length (media_names cj item) \<le> 3"
  by (simp add: media_names_def split: option.split)

lemma media_loop_fits:
  "length names + 3 * length is \<le> cap \<Longrightarrow>
   \<exists>ns. media_loop cj m is cap names = Some ns \<and> length ns \<le> length names + 3 * length is \<and>
     ns = names @ concat (map (\<lambda>i. media_names cj (get_array_item cj m i)) is)"
proof (induction "is" arbitrary: names)
  case (Cons i "is")
  have "length (media_names cj (get_array_item cj m i)) \<le> 3" by (rule length_media_names)
  then show ?case
    using Cons.IH [of "names @ media_names cj (get_array_item cj m i)"] Cons.prems
    by (auto simp: Let_def)
qed simp

lemma rename_elsewhere: "rename a b s = Some s' \<Longrightarrow> q \<noteq> a \<Longrightarrow> q \<noteq> b \<Longrightarrow> files s' q = files s q"
  by (auto simp: rename_def remove_entry_def split: option.splits if_splits)

lemma download_mp3_file_elsewhere:
  assumes "download_mp3_file cj name w = Some (w', ok)"
    and "q \<noteq> audio_path name ''temp.mp3''" "q \<noteq> audio_path name ''.mp3''"
  shows "files (sd w') q = files (sd w) q \<and> glob w' = glob w"
proof (cases "fopen_w (sd w) (audio_path name ''temp.mp3'')")
  case False
  then show ?thesis using assms(1) by (auto simp: download_mp3_file_def Let_def on_defs)
next
  case True
  let ?p = "audio_path name ''temp.mp3''"
  let ?w1 = "on_dl (\<lambda>d. d\<lparr>mp3_file := Some ?p\<rparr>) (on_sd (write_file ?p []) w)"
  have "media_json (dl ?w1) = media_json (dl w)" by (simp add: on_defs)
  then have "find_metadata_for_file cj name (dl ?w1) = find_metadata_for_file cj name (dl w)"
    by (simp add: find_metadata_for_file_def)
  then obtain h where h: "file_header cj name w = Some h"
    using assms(1) True unfolding download_mp3_file_def Let_def file_header_def
    by (cases "find_metadata_for_file cj name (dl w)"; cases "write_metadata_to_file cj (the (find_metadata_for_file cj name (dl w)))")
       simp_all
  obtain w3 ok3 where a: "attempts 3 (mp3_started ?p h w) = Some (w3, ok3)"
    using assms(1) download_mp3_file_attempts [OF True h]
    by (cases "attempts 3 (mp3_started ?p h w)") auto
  then have "(if ok3 then
        (case rename ?p (audio_path name ''.mp3'') (sd w3) of
           None \<Rightarrow> Some (w3, False)
         | Some s \<Rightarrow> Some (w3\<lparr>sd := s\<rparr>, True))
      else if mp3_file (dl w3) = None then None
      else Some (w3, False)) = Some (w', ok)"
    using assms(1) download_mp3_file_attempts [OF True h] by simp
  then have b: "glob w' = glob w3" "files (sd w') q = files (sd w3) q"
    using assms(2,3) rename_elsewhere [of ?p "audio_path name ''.mp3''" "sd w3" _ q]
    by (auto split: if_splits option.splits)
  have "only_file ?p (mp3_started ?p h w)" by (simp add: only_file_def mp3_started_def on_defs)
  then show ?thesis
    using attempts_only_at [OF a] b assms(2)
    by (auto simp: only_at_def mp3_started_def on_defs append_file_def)
qed

lemma download_loop_elsewhere:
  "download_loop cj ns w = Some (w', ok) \<Longrightarrow>
   \<forall>n. q \<noteq> audio_path n ''temp.mp3'' \<and> q \<noteq> audio_path n ''.mp3'' \<Longrightarrow>
   files (sd w') q = files (sd w) q \<and> glob w' = glob w"
proof (induction ns arbitrary: w)
  case (Cons n ns)
  then obtain w1 success where d: "download_mp3_file cj n w = Some (w1, success)"
    "if success then download_loop cj ns w1 = Some (w', ok) else w' = w1"
    by (auto simp: bind_eq_Some_conv split: if_splits)
  have "files (sd w1) q = files (sd w) q \<and> glob w1 = glob w"
    using download_mp3_file_elsewhere [OF d(1), of q] Cons.prems(2) by blast
  then show ?case using d(2) Cons.IH [of w1] Cons.prems(2) by (auto split: if_splits)
qed simp

definition verify_path :: "'j world \<Rightarrow> string" where
  "verify_path w = ''/sdcard/media/toys/'' @ cstr (tagUid_qbus (glob w)) @ ''/verify.txt''"

lemma verify_not_audio: "verify_path w \<noteq> audio_path n x"
proof
  assume "verify_path w = audio_path n x"
  then have "take 15 (verify_path w) = take 15 (audio_path n x)" by simp
  then show False by (simp add: verify_path_def audio_path_def snprintf_buf_def)
qed

text \<open>The response of a direction file in the buffer.\<close>

definition direction_ok :: "string \<Rightarrow> 'j world \<Rightarrow> bool" where
  "direction_ok acc w \<longleftrightarrow> length (output_buffer (dl w)) = 4096 \<and> output_len (dl w) = length acc \<and>
     length acc < 4096 \<and> take (length acc + 1) (output_buffer (dl w)) = acc @ [CHR 0x00]"

lemma direction_data:
  assumes "direction_ok acc w" "length acc + length d < 4096"
  shows "\<exists>w'. DirectionCallback (HTTP_EVENT_ON_DATA d) w = Some w' \<and> direction_ok (acc @ d) w' \<and>
    sd w' = sd w \<and> glob w' = glob w"
proof -
  let ?b = "output_buffer (dl w)" and ?n = "length acc"
  let ?b1 = "take ?n ?b @ d @ drop (?n + length d) ?b"
  have n: "output_len (dl w) = ?n" "length ?b = 4096"
    using assms(1) by (simp_all add: direction_ok_def)
  have "take ?n (take (?n + 1) ?b) = acc" using assms(1) by (simp only: direction_ok_def) simp
  then have t: "take ?n ?b = acc" by simp
  have l: "length ?b1 = 4096" "take (?n + length d) ?b1 = acc @ d" using n t assms(2) by simp_all
  let ?b2 = "?b1[?n + length d := CHR 0x00]"
  have t2: "take (Suc (?n + length d)) ?b2 = (acc @ d) @ [CHR 0x00]"
    using l assms(2) take_list_update_Suc [of "?n + length d" ?b1 "CHR 0x00"] by simp
  let ?w' = "on_dl (\<lambda>x. x\<lparr>output_buffer := ?b2, output_len := output_len x + length d\<rparr>) w"
  have "wr_block ?b (output_len (dl w)) d = Some ?b1" "wr ?b1 (output_len (dl w) + length d) (CHR 0x00) = Some ?b2"
    using n l assms(2) by simp_all
  then have "DirectionCallback (HTTP_EVENT_ON_DATA d) w = Some ?w'"
    using n assms(2) by (simp add: DirectionCallback_def)
  moreover have "direction_ok (acc @ d) ?w'"
    using t2 l n assms(2) by (simp add: direction_ok_def on_defs)
  ultimately show ?thesis by (simp add: on_defs)
qed

lemma run_direction:
  assumes "direction_ok acc w" "list_all quiet es" "length acc + length (body es) < 4096"
  shows "\<exists>w'. run_events DirectionCallback es w = Some w' \<and> direction_ok (acc @ body es) w' \<and>
    sd w' = sd w \<and> glob w' = glob w"
  using assms
proof (induction es arbitrary: acc w)
  case Nil
  then show ?case by simp
next
  case (Cons e es)
  consider d where "e = HTTP_EVENT_ON_DATA d" | "DirectionCallback e w = Some w" "body (e # es) = body es"
    using Cons.prems(2) by (cases e) (auto simp: quiet_def DirectionCallback_def)
  then show ?case
  proof cases
    case 1
    obtain w1 where w1: "DirectionCallback e w = Some w1" "direction_ok (acc @ d) w1" "sd w1 = sd w"
      "glob w1 = glob w"
      using direction_data [OF Cons.prems(1), of d] Cons.prems(3) 1 by auto
    show ?thesis
      using Cons.IH [OF w1(2)] Cons.prems 1 w1 by simp
  next
    case 2
    then show ?thesis using Cons by simp
  qed
qed

lemma direction_ok_cstr: "direction_ok acc w \<Longrightarrow> nul_free acc \<Longrightarrow> cstr (output_buffer (dl w)) = acc"
proof -
  assume d: "direction_ok acc w" and n: "nul_free acc"
  have "output_buffer (dl w) = (acc @ [CHR 0x00]) @ drop (length acc + 1) (output_buffer (dl w))"
    using d by (metis append_take_drop_id direction_ok_def)
  then show ?thesis using n by (metis append.assoc append_Cons append_Nil cstr_append_nul)
qed

lemma direction_of_name:
  assumes "CHR ''_'' \<notin> set dir" "CHR ''.'' \<notin> set dir"
  shows "direction_of (base @ ''_'' @ dir @ ''.json'') = Some dir"
proof -
  have r: "rev (base @ ''_'' @ dir @ ''.json'') = (''nosj.'' @ rev dir) @ CHR ''_'' # rev base" by simp
  have "takeWhile (\<lambda>c. c \<noteq> CHR ''_'') ((''nosj.'' @ rev dir) @ CHR ''_'' # rev base) = ''nosj.'' @ rev dir"
    using assms(1) by (subst takeWhile_append2) auto
  then have "takeWhile (\<lambda>c. c \<noteq> CHR ''_'') (rev (base @ ''_'' @ dir @ ''.json'')) = ''nosj.'' @ rev dir"
    by (simp only: r)
  moreover have "takeWhile (\<lambda>c. c \<noteq> CHR ''.'') (dir @ CHR ''.'' # ''json'') = dir"
    using assms(2) by (subst takeWhile_append2) auto
  then have "takeWhile (\<lambda>c. c \<noteq> CHR ''.'') (rev (''nosj.'' @ rev dir)) = dir" by simp
  ultimately show ?thesis by (simp only: direction_of_def) simp
qed

lemma mp3_download_ok:
  assumes "fopen_w (sd w) (audio_path name ''temp.mp3'')" "length name < 200"
    and "file_header cj name w = Some h"
    and "length (download_buffer (dl w)) = 4096" "buffer_pos (dl w) < 4096"
    and "ext_http w = r # rs" "events r = es @ HTTP_EVENT_ON_FINISH # fs" "list_all quiet es" "perform_ok r"
    and "files (sd w) (audio_path name ''.mp3'') = None" "dirents (sd w) (audio_path name ''.mp3'') = None"
    and "fopen_w (sd w) (audio_path name ''.mp3'')"
  shows "\<exists>w'. download_mp3_file cj name w = Some (w', True) \<and>
    files (sd w') (audio_path name ''.mp3'') = Some (h @ pending w @ body es) \<and>
    files (sd w') (audio_path name ''temp.mp3'') = None \<and> pending w' = [] \<and> glob w' = glob w"
proof -
  let ?p = "audio_path name ''temp.mp3''" and ?q = "audio_path name ''.mp3''"
  define w1 where "w1 = (mp3_started ?p h w)\<lparr>ext_http := rs\<rparr>"
  note st = mp3_started_ok [OF assms(4,5), of ?p h]
  have w1: "receiving ?p h w1" "pending w1 = pending w" "files (sd w1) ?q = None"
    "dirents (sd w1) ?q = None" "fopen_w (sd w1) ?q"
    using st assms(10-12) audio_paths_differ [OF assms(2)]
    by (simp_all add: w1_def receiving_def pending_def)
  obtain w2 b where w2: "run_events Downloadmp3Callback (events r) w1 = Some w2"
    "w2 = w1\<lparr>sd := (sd w1)\<lparr>files := (files (sd w1))(?p \<mapsto> h @ pending w1 @ body es)\<rparr>,
      dl := (dl w1)\<lparr>download_buffer := b, buffer_pos := 0, mp3_file := None\<rparr>\<rparr>"
    using run_finish [OF w1(1) assms(8), of fs] assms(7) by auto
  have "attempts 3 (mp3_started ?p h w) = Some (w2, True)"
    using st(3) assms(6,9) w2(1) by (simp add: numeral_3_eq_3 perform_def w1_def)
  moreover obtain s' where "rename ?p ?q (sd w2) = Some s'" "files s' ?q = Some (h @ pending w1 @ body es)"
    "files s' ?p = None"
    using rename_ok [of "sd w2" ?p "h @ pending w1 @ body es" ?q] w1 w2(2) audio_paths_differ [OF assms(2)]
    by (auto simp: fopen_w_def)
  moreover have "glob w2 = glob w"
    using w2(2) by (simp add: w1_def mp3_started_def on_defs)
  ultimately show ?thesis
    using download_mp3_file_attempts [OF assms(1,3)] w1(2) w2(2)
    by (simp add: pending_def)
qed

end
