(* ===== verification/Download_Props.thy ===== *)
theory Download_Props
  imports Download_Lemmas
begin

text \<open>
  What the downloader guarantees, together with the player that reads the files, and what an
  interrupted transfer does to it.
\<close>

section \<open>Example answers\<close>

text \<open>A description with one question named \<open>q1\<close>, as an instance of the cJSON functions.\<close>

definition tiny_json :: "nat cJSON" where
  "tiny_json = \<lparr>parse = (\<lambda>_. Some 0),
     get_object_item = (\<lambda>j k. if j = 0 \<and> k = ''media'' then Some 1
       else if j = 2 \<and> k = ''N'' then Some 3 else if j = 2 \<and> k = ''T'' then Some 4 else None),
     get_object_item_cs = (\<lambda>_ _. None),
     get_array_size = (\<lambda>j. if j = 1 then 1 else 0),
     get_array_item = (\<lambda>j i. if j = 1 \<and> i = 0 then Some 2 else None),
     is_array = (\<lambda>j. j = 1), is_true = (\<lambda>_. False),
     item_string = (\<lambda>j. if j = 3 then Some ''q1'' else None),
     item_int = (\<lambda>j. if j = 4 then Some 1 else None), valueint = (\<lambda>j. if j = 4 then 1 else 0)\<rparr>"

definition song_world :: "http_result list \<Rightarrow> nat world" where
  "song_world rs = boot_world\<lparr>ext_http := rs, dl := boot_Downloader\<lparr>N_server := Some [''song'']\<rparr>\<rparr>"

definition good_answer :: http_result where
  "good_answer = \<lparr>events = [HTTP_EVENT_ON_CONNECTED, HTTP_EVENT_ON_DATA ''ID3'', HTTP_EVENT_ON_DATA ''tone'',
     HTTP_EVENT_ON_FINISH], perform_ok = True, status_code = 200\<rparr>"

definition broken_answer :: http_result where
  "broken_answer = \<lparr>events = [HTTP_EVENT_ON_DATA ''ID3'', HTTP_EVENT_DISCONNECTED],
     perform_ok = False, status_code = 0\<rparr>"

lemma song_world_simps [simp]:
  "fopen_w (sd (song_world rs)) ''/sdcard/media/audio/songtemp.mp3''"
  "fopen_w (sd (song_world rs)) ''/sdcard/media/audio/song.mp3''"
  "files (sd (song_world rs)) q = None"
  "dirents (sd (song_world rs)) ''/sdcard/media/audio/song.mp3'' = None"
  "length (download_buffer (dl (song_world rs))) = 4096" "buffer_pos (dl (song_world rs)) = 0"
  "ext_http (song_world rs) = rs" "file_header cj ''song'' (song_world rs) = Some ([CHR ''0'', CHR 0x0A] @ ''0,0'' @ [CHR 0x0A])"
  "N_server (dl (song_world rs)) = Some [''song'']"
  by (simp_all add: song_world_def boot_world_def boot_Downloader_def fopen_w_def dirname_def
      file_header_def find_metadata_for_file_def)

lemma song_paths [simp]:
  "audio_path ''song'' ''temp.mp3'' = ''/sdcard/media/audio/songtemp.mp3''"
  "audio_path ''song'' ''.mp3'' = ''/sdcard/media/audio/song.mp3''"
  by (simp_all add: audio_path_def)

lemma song_assms:
  shows "fopen_w (sd (song_world [good_answer])) (audio_path ''song'' ''temp.mp3'')" "length ''song'' < 200"
    "file_header tiny_json ''song'' (song_world [good_answer]) = Some ([CHR ''0'', CHR 0x0A] @ ''0,0'' @ [CHR 0x0A])"
    "length (download_buffer (dl (song_world [good_answer]))) = 4096"
    "buffer_pos (dl (song_world [good_answer])) < 4096"
    "ext_http (song_world [good_answer]) = good_answer # []"
    "events good_answer = [HTTP_EVENT_ON_CONNECTED, HTTP_EVENT_ON_DATA ''ID3'', HTTP_EVENT_ON_DATA ''tone''] @
       HTTP_EVENT_ON_FINISH # []"
    "list_all quiet [HTTP_EVENT_ON_CONNECTED, HTTP_EVENT_ON_DATA ''ID3'', HTTP_EVENT_ON_DATA ''tone'']"
    "perform_ok good_answer"
    "files (sd (song_world [good_answer])) (audio_path ''song'' ''.mp3'') = None"
    "dirents (sd (song_world [good_answer])) (audio_path ''song'' ''.mp3'') = None"
    "fopen_w (sd (song_world [good_answer])) (audio_path ''song'' ''.mp3'')"
  by (simp_all add: good_answer_def quiet_def)

definition south_answer :: http_result where
  "south_answer = \<lparr>events = [HTTP_EVENT_ON_DATA ''{1:'', HTTP_EVENT_ON_DATA ''song}'', HTTP_EVENT_ON_FINISH],
     perform_ok = True, status_code = 200\<rparr>"

definition south_world :: "nat world" where
  "south_world = boot_world\<lparr>ext_http := [south_answer],
     sd := (sd (boot_world :: nat world))\<lparr>dirents := (dirents (sd (boot_world :: nat world)))(''/sdcard/media/toys/E004'' \<mapsto> [])\<rparr>\<rparr>"

section \<open>Properties\<close>

text \<open>
  C10. An audio file arrives whole. Whatever the size of the chunks, an attempt that is finished
  without a disconnection leaves under the final name exactly the header, the bytes still
  pending from before, and the body; the temporary file is gone and nothing stays pending. With
  nothing pending before, the file is the header and the body.
\<close>

theorem mp3_download_intact:
  assumes "fopen_w (sd w) (audio_path name ''temp.mp3'')" "length name < 200"
    and "file_header cj name w = Some h"
    and "length (download_buffer (dl w)) = 4096" "buffer_pos (dl w) < 4096"
    and "ext_http w = r # rs" "events r = es @ HTTP_EVENT_ON_FINISH # fs" "list_all quiet es" "perform_ok r"
    and "files (sd w) (audio_path name ''.mp3'') = None" "dirents (sd w) (audio_path name ''.mp3'') = None"
    and "fopen_w (sd w) (audio_path name ''.mp3'')"
  shows "\<exists>w'. download_mp3_file cj name w = Some (w', True) \<and>
    files (sd w') (audio_path name ''.mp3'') = Some (h @ pending w @ body es) \<and>
    files (sd w') (audio_path name ''temp.mp3'') = None \<and> pending w' = []"
  using mp3_download_ok [OF assms] by blast

theorem mp3_download_intact_witness:
  "\<exists>w'. download_mp3_file tiny_json ''song'' (song_world [good_answer]) = Some (w', True) \<and>
     files (sd w') ''/sdcard/media/audio/song.mp3'' =
       Some ([CHR ''0'', CHR 0x0A] @ ''0,0'' @ [CHR 0x0A] @ ''ID3tone'')"
proof -
  have "pending (song_world [good_answer]) = []" by (simp add: pending_def)
  then show ?thesis using mp3_download_intact [OF song_assms] by auto
qed

text \<open>
  A retry after an interruption stores a truncated file and reports success. The interruption
  closes the file, the next attempt's data is dropped because no file is open, and the temporary
  file is renamed all the same: under the final name are the header and what was flushed before
  the interruption. The bytes that were still in the buffer stay pending, and by the previous
  property they become the beginning of the next audio file.
\<close>

theorem mp3_retry_truncates:
  assumes "fopen_w (sd w) (audio_path name ''temp.mp3'')" "length name < 200"
    and "file_header cj name w = Some h"
    and "length (download_buffer (dl w)) = 4096" "buffer_pos (dl w) = 0"
    and "ext_http w = r1 # r2 # rs" "events r1 = es @ HTTP_EVENT_DISCONNECTED # fs" "list_all quiet es"
    and "\<not> perform_ok r1" "perform_ok r2"
    and "files (sd w) (audio_path name ''.mp3'') = None" "dirents (sd w) (audio_path name ''.mp3'') = None"
    and "fopen_w (sd w) (audio_path name ''.mp3'')"
  shows "\<exists>w' flushed. download_mp3_file cj name w = Some (w', True) \<and>
    files (sd w') (audio_path name ''.mp3'') = Some (h @ flushed) \<and>
    flushed @ pending w' = body es \<and> length (pending w') < 4096"
proof -
  let ?p = "audio_path name ''temp.mp3''" and ?q = "audio_path name ''.mp3''"
  define w1 where "w1 = (mp3_started ?p h w)\<lparr>ext_http := r2 # rs\<rparr>"
  note st = mp3_started_ok [of w ?p h, simplified assms(4,5), simplified]
  have w1: "receiving ?p h w1" "pending w1 = []" "files (sd w1) ?q = None"
    "dirents (sd w1) ?q = None" "fopen_w (sd w1) ?q"
    using st assms(5,11-13) audio_paths_differ [OF assms(2)]
    by (simp_all add: w1_def receiving_def pending_def)
  obtain b n x where w2: "run_events Downloadmp3Callback (events r1) w1 =
      Some ((streamed ?p (h @ x) b n w1)\<lparr>dl := (dl (streamed ?p (h @ x) b n w1))\<lparr>mp3_file := None\<rparr>\<rparr>)"
    "length b = 4096" "n < 4096" "x @ take n b = body es"
    using run_interrupted [OF w1(1) assms(8), of fs] assms(7) w1(2) by auto
  let ?w2 = "(streamed ?p (h @ x) b n w1)\<lparr>dl := (dl (streamed ?p (h @ x) b n w1))\<lparr>mp3_file := None\<rparr>\<rparr>"
  have r2: "run_events Downloadmp3Callback (events r2) (?w2\<lparr>ext_http := rs\<rparr>) = Some (?w2\<lparr>ext_http := rs\<rparr>)"
    by (rule run_events_closed) simp
  have e2: "ext_http ?w2 = r2 # rs" by (simp add: streamed_def w1_def)
  have "attempts 3 (mp3_started ?p h w) = attempts 2 ?w2"
    using st(3) assms(6,9) w2(1) by (simp add: numeral_3_eq_3 numeral_2_eq_2 perform_def w1_def)
  also have "attempts 2 ?w2 = Some (?w2\<lparr>ext_http := rs\<rparr>, True)"
    unfolding numeral_2_eq_2 attempts.simps(2) using e2 r2 assms(10)
    by (simp add: perform_def)
  finally have a: "attempts 3 (mp3_started ?p h w) = Some (?w2\<lparr>ext_http := rs\<rparr>, True)" .
  obtain s' where s': "rename ?p ?q (sd ?w2) = Some s'" "files s' ?q = Some (h @ x)"
    using rename_ok [of "sd ?w2" ?p "h @ x" ?q] w1 audio_paths_differ [OF assms(2)]
    by (auto simp: fopen_w_def streamed_def)
  have "pending ((?w2\<lparr>ext_http := rs\<rparr>)\<lparr>sd := s'\<rparr>) = take n b"
    by (simp add: pending_def streamed_def)
  moreover have "download_mp3_file cj name w = Some ((?w2\<lparr>ext_http := rs\<rparr>)\<lparr>sd := s'\<rparr>, True)"
    using download_mp3_file_attempts [OF assms(1,3)] a s'(1) by simp
  moreover have "sd ((?w2\<lparr>ext_http := rs\<rparr>)\<lparr>sd := s'\<rparr>) = s'" by simp
  ultimately show ?thesis using s'(2) w2(2-4) by fastforce
qed

theorem mp3_retry_truncates_witness:
  "\<exists>w' flushed. download_mp3_file tiny_json ''song'' (song_world [broken_answer, good_answer]) = Some (w', True) \<and>
     files (sd w') ''/sdcard/media/audio/song.mp3'' =
       Some ([CHR ''0'', CHR 0x0A] @ ''0,0'' @ [CHR 0x0A] @ flushed) \<and> flushed @ pending w' = ''ID3''"
proof -
  let ?w = "song_world [broken_answer, good_answer]"
  have h: "fopen_w (sd ?w) (audio_path ''song'' ''temp.mp3'')" "length ''song'' < 200"
    "file_header tiny_json ''song'' ?w = Some ([CHR ''0'', CHR 0x0A] @ ''0,0'' @ [CHR 0x0A])"
    "length (download_buffer (dl ?w)) = 4096" "buffer_pos (dl ?w) = 0"
    "ext_http ?w = broken_answer # good_answer # []"
    "events broken_answer = [HTTP_EVENT_ON_DATA ''ID3''] @ HTTP_EVENT_DISCONNECTED # []"
    "list_all quiet [HTTP_EVENT_ON_DATA ''ID3'']" "\<not> perform_ok broken_answer" "perform_ok good_answer"
    "files (sd ?w) (audio_path ''song'' ''.mp3'') = None" "dirents (sd ?w) (audio_path ''song'' ''.mp3'') = None"
    "fopen_w (sd ?w) (audio_path ''song'' ''.mp3'')"
    by (simp_all add: good_answer_def broken_answer_def quiet_def)
  show ?thesis using mp3_retry_truncates [OF h] by auto
qed

text \<open>
  C18. The header the downloader puts in front of an audio file is the header the player reads
  back, whatever follows it: every number the \<^verbatim>\<open>int\<close> range holds comes back in its field
  (the date range is cut to 19 characters).
\<close>

theorem audio_header_roundtrip:
  assumes "c_int t" "c_int a" "list_all c_int l" "list_all c_int r" "list_all c_int z"
    and "length l = 3" "length r = 3" "length z = 2" "length (hL h) = 3" "length (hR h) = 3"
  shows "parse_header (header_text t a l r z @ audio) h =
    \<lparr>hT = t, hA = a, hL = l, hR = r,
     hZ = take 19 (commas (map printf_03d z)) @ zeros (20 - length (take 19 (commas (map printf_03d z))))\<rparr>"
  using parse_header_text [OF assms(1-7) _ assms(9,10), of audio] assms(8) by simp

theorem audio_header_roundtrip_witness:
  "hA (parse_header (header_text 1 (-7) [10, 200, 3000] [0, 0, 255] [20240101, 20241231] @ ''ID3'')
     (headerData boot_globals)) = -7"
proof -
  have h: "c_int 1" "c_int (-7)" "list_all c_int [10, 200, 3000]" "list_all c_int [0, 0, 255]"
    "list_all c_int [20240101, 20241231]" "length [10, 200, 3000 :: int] = 3" "length [0, 0, 255 :: int] = 3"
    "length [20240101, 20241231 :: int] = 2" "length (hL (headerData boot_globals)) = 3"
    "length (hR (headerData boot_globals)) = 3"
    by (simp_all add: c_int_def boot_globals_def)
  show ?thesis by (simp add: audio_header_roundtrip [OF h])
qed

text \<open>
  C19. \<^verbatim>\<open>verify.txt\<close> tells the truth, by the rule the code has: a name of the server's list
  counts as present when the audio folder lists a file of the same stem, whatever its extension.
  When processing the audio files succeeds, every other name of the list has been downloaded and
  its \<^verbatim>\<open>.mp3\<close> is on the card, and every file that was on the card is still there, except
  under the temporary names of what was downloaded. \<^verbatim>\<open>verify.txt\<close> changes only on such a
  success, after at least one download, and then holds the line with the time.
\<close>

theorem verify_means_complete:
  assumes "process_audio_files cj seconds path w = Some (w', ok)"
    and "list_files path (sd w) = Some sdf" "N_server (dl w) = Some ns"
    and "todo = filter (\<lambda>n. \<forall>f \<in> set sdf. strip_ext n \<noteq> strip_ext f) ns" "no_temp_clash todo"
  shows "(ok \<longrightarrow> (\<forall>n \<in> set todo. files (sd w') (audio_path n ''.mp3'') \<noteq> None) \<and>
      (\<forall>q. files (sd w) q \<noteq> None \<longrightarrow> (\<forall>n \<in> set todo. q \<noteq> audio_path n ''temp.mp3'') \<longrightarrow>
        files (sd w') q \<noteq> None)) \<and>
    (files (sd w') (verify_path w) \<noteq> files (sd w) (verify_path w) \<longrightarrow> ok \<and> todo \<noteq> [] \<and>
      files (sd w') (verify_path w) =
        Some (''All files downloaded successfully at: '' @ printf_d seconds @ [CHR 0x0A]))"
proof -
  have t: "files_to_download sdf ns = todo"
    by (simp add: assms(4) files_to_download_def list_ex_iff)
  obtain w1 w2 where d: "download_loop cj todo w = Some (w1, ok)"
    "(if ok \<and> todo \<noteq> [] then create_verified_file seconds w1 else Some w1) = Some w2"
    "w' = on_dl free_N_server w2"
    using assms(1-3) t by (auto simp: process_audio_files_def bind_eq_Some_conv Let_def)
  have keep: "files (sd w1) q \<noteq> None \<Longrightarrow> files (sd w') q \<noteq> None" for q
    using d(2,3) by (auto simp: create_verified_file_def create_file_def on_defs bind_eq_Some_conv
        split: if_splits)
  have v: "files (sd w1) (verify_path w) = files (sd w) (verify_path w)" "glob w1 = glob w"
    using download_loop_elsewhere [OF d(1), of "verify_path w"] verify_not_audio by blast+
  have "ok \<longrightarrow> (\<forall>n \<in> set todo. files (sd w1) (audio_path n ''.mp3'') \<noteq> None)"
    using download_loop_all [of cj todo w w1 "[]"] d(1) assms(5) by (auto simp: no_temp_clash_def)
  moreover have "ok \<longrightarrow> (\<forall>q. files (sd w) q \<noteq> None \<longrightarrow> (\<forall>n \<in> set todo. q \<noteq> audio_path n ''temp.mp3'') \<longrightarrow>
      files (sd w1) q \<noteq> None)"
    using download_loop_keeps [of cj todo w w1] d(1) assms(5) by (auto simp: no_temp_clash_def)
  moreover have "files (sd w') (verify_path w) \<noteq> files (sd w) (verify_path w) \<longrightarrow> ok \<and> todo \<noteq> [] \<and>
      files (sd w') (verify_path w) =
        Some (''All files downloaded successfully at: '' @ printf_d seconds @ [CHR 0x0A])"
    using d(2,3) v by (auto simp: create_verified_file_def create_file_def verify_path_def on_defs
        sprintf_buf_def bind_eq_Some_conv split: if_splits)
  ultimately show ?thesis using keep by blast
qed

theorem verify_means_complete_witness:
  "\<exists>w'. process_audio_files tiny_json 7 ''/sdcard/media/audio/'' (song_world [good_answer]) = Some (w', True) \<and>
     files (sd w') ''/sdcard/media/audio/song.mp3'' \<noteq> None"
proof -
  let ?w = "song_world [good_answer]"
  have l: "list_files ''/sdcard/media/audio/'' (sd ?w) = Some []"
    by (simp add: list_files_def opendir_def norm_dir_def song_world_def boot_world_def)
  have todo: "files_to_download [] [''song''] = [''song'']" by (simp add: files_to_download_def)
  obtain w1 where w1: "download_mp3_file tiny_json ''song'' ?w = Some (w1, True)" "glob w1 = glob ?w"
    using mp3_download_ok [OF song_assms] by blast
  have "cstr (tagUid_qbus (glob w1)) = []"
    using w1(2) by (simp add: song_world_def boot_world_def boot_globals_def)
  then have "\<exists>w'. process_audio_files tiny_json 7 ''/sdcard/media/audio/'' ?w = Some (w', True)"
    using w1(1) l todo by (simp add: process_audio_files_def create_verified_file_def sprintf_buf_def)
  then obtain w' where p: "process_audio_files tiny_json 7 ''/sdcard/media/audio/'' ?w = Some (w', True)" ..
  have nt: "[''song''] = filter (\<lambda>n. \<forall>f \<in> set []. strip_ext n \<noteq> strip_ext f) [''song'']"
    "no_temp_clash [''song'']"
    by (simp_all add: no_temp_clash_def)
  show ?thesis
    using verify_means_complete [OF p l _ nt] p by auto
qed

text \<open>
  C25. A direction file lands where the player looks for it: the answer to a request for
  \<open><base>_<direction>.json\<close>, up to 4095 bytes in chunks of any size, is written to the
  toy's folder under the name of the direction.
\<close>

theorem direction_file_saved:
  assumes "CHR ''_'' \<notin> set dir" "CHR ''.'' \<notin> set dir" "length (base @ ''_'' @ dir @ ''.json'') < 256"
    and "ext_http w = r # rs" "events r = es @ [HTTP_EVENT_ON_FINISH]" "list_all quiet es" "perform_ok r"
    and "length (body es) < 4096" "nul_free (body es)"
    and p: "p = ''/sdcard/media/toys/'' @ cstr t @ ''/'' @ dir @ ''.cubbies''" "length p < 256"
    and "fopen_w (sd w) p"
  shows "\<exists>w'. download_file t (base @ ''_'' @ dir @ ''.json'') w = Some w' \<and>
    files (sd w') p = Some (body es)"
proof -
  let ?w1 = "(on_dl (\<lambda>d. d\<lparr>output_buffer := zeros 4096, output_len := 0\<rparr>) w)\<lparr>ext_http := rs\<rparr>"
  have pf: "perform (on_dl (\<lambda>d. d\<lparr>output_buffer := zeros 4096, output_len := 0\<rparr>) w) = (?w1, r)"
    using assms(4) by (simp add: perform_def on_defs)
  have "direction_ok [] ?w1"
    by (simp add: direction_ok_def on_defs zeros_def numeral_eq_Suc)
  then obtain w2 where w2: "run_events DirectionCallback es ?w1 = Some w2" "direction_ok (body es) w2"
    "sd w2 = sd w"
    using run_direction [of "[]" ?w1 es] assms(6,8) by (auto simp: on_defs)
  let ?w3 = "on_dl (\<lambda>d. d\<lparr>output_len := 0\<rparr>) w2"
  have "run_events DirectionCallback (events r) ?w1 = Some ?w3"
    using assms(5) w2(1) by (simp add: run_events_append DirectionCallback_def)
  then have "download_file t (base @ ''_'' @ dir @ ''.json'') w =
      Some (on_sd (save_file_to_sd t dir (output_buffer (dl ?w3))) ?w3)"
    using pf assms(3,7) direction_of_name [OF assms(1,2), of base]
    unfolding download_file_def Let_def by simp
  moreover have "cstr (output_buffer (dl ?w3)) = body es"
    using direction_ok_cstr [OF w2(2) assms(9)] by (simp add: on_defs)
  ultimately show ?thesis
    using p assms(12) w2(3) by (simp add: save_file_to_sd_def create_file_def on_defs)
qed

theorem direction_file_saved_witness:
  "\<exists>w'. download_file ''E004'' ''Starter_kit_south.json'' south_world = Some w' \<and>
     files (sd w') ''/sdcard/media/toys/E004/south.cubbies'' = Some ''{1:song}''"
proof -
  let ?es = "[HTTP_EVENT_ON_DATA ''{1:'', HTTP_EVENT_ON_DATA ''song}'']"
  let ?p = "''/sdcard/media/toys/E004/south.cubbies''"
  have c: "cstr ''E004'' = ''E004''" by (simp add: cstr_def)
  have h: "CHR ''_'' \<notin> set ''south''" "CHR ''.'' \<notin> set ''south''"
    "length (''Starter_kit'' @ ''_'' @ ''south'' @ ''.json'') < 256"
    "ext_http south_world = south_answer # []" "events south_answer = ?es @ [HTTP_EVENT_ON_FINISH]"
    "list_all quiet ?es" "perform_ok south_answer" "length (body ?es) < 4096" "nul_free (body ?es)"
    "?p = ''/sdcard/media/toys/'' @ cstr ''E004'' @ ''/'' @ ''south'' @ ''.cubbies''" "length ?p < 256"
    "fopen_w (sd south_world) ?p"
    by (simp_all add: c south_world_def south_answer_def quiet_def boot_world_def fopen_w_def dirname_def)
  show ?thesis using direction_file_saved [OF h] by auto
qed

text \<open>
  C28. The list of names stays inside its allocation. Storing a description whose
  \<^verbatim>\<open>media\<close> is an array never writes outside the list allocated for three names per entry,
  and the list is the names of the entries in order, with the two answers after each question.
\<close>

theorem media_list_fits:
  assumes "get_object_item cj j ''media'' = Some m" "is_array cj m"
  shows "\<exists>d'. store_media cj j d = Some d' \<and> media_json d' = Some m \<and>
    (\<exists>ns. N_server d' = Some ns \<and> length ns \<le> 3 * get_array_size cj m \<and>
      ns = concat (map (\<lambda>i. media_names cj (get_array_item cj m i)) [0..<get_array_size cj m]))"
  using media_loop_fits [of "[]" "[0..<get_array_size cj m]" "3 * get_array_size cj m" cj m] assms
  by (auto simp: store_media_def Let_def)

theorem media_list_fits_witness:
  "\<exists>d'. store_media tiny_json 0 boot_Downloader = Some d' \<and> N_server d' = Some [''q1'', ''q1C'', ''q1W'']"
proof -
  have h: "get_object_item tiny_json 0 ''media'' = Some 1" "is_array tiny_json 1"
    by (simp_all add: tiny_json_def)
  have "concat (map (\<lambda>i. media_names tiny_json (get_array_item tiny_json 1 i)) [0..<get_array_size tiny_json 1])
      = [''q1'', ''q1C'', ''q1W'']"
    by (simp add: tiny_json_def media_names_def)
  then show ?thesis using media_list_fits [OF h, of boot_Downloader] by auto
qed

text \<open>
  A description that was interrupted is mixed with the next toy's. The interruption drops
  what was received but leaves the file open, so the first data of the next description, with
  another tag on the box, is appended to the metadata file of the earlier toy.
\<close>

theorem interrupted_description_mixes:
  assumes "master_file (dl w) = Some p" "files (sd w) p = Some c" "data \<noteq> []"
  shows "\<exists>w1 w2. MasterjsonCallback cj HTTP_EVENT_DISCONNECTED w = Some w1 \<and>
    MasterjsonCallback cj (HTTP_EVENT_ON_DATA data) (on_glob (\<lambda>g. g\<lparr>tagUid_qbus := other\<rparr>) w1) = Some w2 \<and>
    files (sd w2) p = Some (c @ data) \<and> response_buffer (dl w2) = data"
  using assms by (simp add: MasterjsonCallback_def master_open_def on_defs append_file_def)

theorem interrupted_description_mixes_witness:
  "\<exists>w1 w2. MasterjsonCallback tiny_json HTTP_EVENT_DISCONNECTED
      (boot_world\<lparr>dl := boot_Downloader\<lparr>master_file := Some ''m''\<rparr>, sd := write_file ''m'' ''old'' (sd (boot_world :: nat world))\<rparr>)
      = Some w1 \<and>
     MasterjsonCallback tiny_json (HTTP_EVENT_ON_DATA ''new'') (on_glob (\<lambda>g. g\<lparr>tagUid_qbus := ''E005''\<rparr>) w1) = Some w2 \<and>
     files (sd w2) ''m'' = Some ''oldnew''"
proof -
  let ?w = "boot_world\<lparr>dl := boot_Downloader\<lparr>master_file := Some ''m''\<rparr>,
    sd := write_file ''m'' ''old'' (sd (boot_world :: nat world))\<rparr> :: nat world"
  have h: "master_file (dl ?w) = Some ''m''" "files (sd ?w) ''m'' = Some ''old''" "''new'' \<noteq> []" by simp_all
  show ?thesis using interrupted_description_mixes [OF h, of tiny_json "''E005''"] by auto
qed

end
