(* ===== verification/System_App.thy ===== *)
theory System_App
  imports Downloader_App
begin

text \<open>
  The state machine of the device, \<^verbatim>\<open>System::handler\<close> of
  \<^verbatim>\<open>src/main/src/system.cpp\<close>, and the check of a user with the server.
  \<open>System_handler\<close> is one call of the handler, which the system task repeats every 200 ms; it
  is one definition per state, dispatched as the \<^verbatim>\<open>switch\<close> does.

  What a call learns from the outside is the record \<open>sys_inputs\<close>: the clock (one instant per
  call), the state of the audio element, the message of the audio event interface, and the
  seconds since start. \<^verbatim>\<open>cJSON_GetObjectItem(...)->valuestring\<close> of a missing item is a null
  pointer access and gives \<open>None\<close>.
\<close>

record sys_inputs =
  i_now :: u32
  i_el :: audio_element_state_t
  i_msg :: audio_msg
  i_seconds :: int

abbreviation STARTUP_TONE :: string where "STARTUP_TONE \<equiv> ''/sdcard/media/startup.mp3''"
abbreviation TOY_DETECT_TONE :: string where "TOY_DETECT_TONE \<equiv> ''/sdcard/media/toydetect.mp3''"
abbreviation DOWNLOAD_START_TONE :: string where "DOWNLOAD_START_TONE \<equiv> ''/sdcard/media/downloading.mp3''"
abbreviation SHUTDOWN_TONE :: string where "SHUTDOWN_TONE \<equiv> ''/sdcard/media/shutdown.mp3''"
abbreviation BAT_LOW_TONE :: string where "BAT_LOW_TONE \<equiv> ''/sdcard/media/batterylow.mp3''"
abbreviation INVALID_WIFI_CREDS_TONE :: string where
  "INVALID_WIFI_CREDS_TONE \<equiv> ''/sdcard/media/unabletoconnect.mp3''"
abbreviation PLEASE_ENTER_WIFI_CREDS_TONE :: string where
  "PLEASE_ENTER_WIFI_CREDS_TONE \<equiv> ''/sdcard/media/plsenterwifi.mp3''"

section \<open>Steps the states share\<close>

text \<open>Play a file, then go to the given state when it is over.\<close>

definition play_then :: "u32 \<Rightarrow> string \<Rightarrow> system_states_et \<Rightarrow> 'j world \<Rightarrow> 'j world option" where
  "play_then now loc back w = do {
     w1 \<leftarrow> play loc w;
     Some (set_state now SYS_WAIT_FOR_PLAYER (on_sys (\<lambda>s. s\<lparr>playerGoBackToState := back\<rparr>) w1))
   }"

definition tone_then :: "u32 \<Rightarrow> string \<Rightarrow> system_states_et \<Rightarrow> 'j world \<Rightarrow> 'j world option" where
  "tone_then now tone st w =
     (case fopen_r (sd w) tone of
        Some _ \<Rightarrow> play_then now tone st w
      | None \<Rightarrow> Some (set_state now st w))"

definition low_battery :: "u32 \<Rightarrow> 'j world \<Rightarrow> 'j world option" where
  "low_battery now w = tone_then now BAT_LOW_TONE SYS_SHUT_ME_DOWN w"

definition battery_gate :: "u32 \<Rightarrow> system_states_et \<Rightarrow> 'j world \<Rightarrow> 'j world option" where
  "battery_gate now st w =
     (let batteryLevel = uint (getBatteryLevel (sys w)); chargingStatus = getChargingStatus (sys w) in
      if batteryLevel \<ge> 35 then Some (set_state now st w)
      else if batteryLevel \<ge> 28 then
        (if chargingStatus > 0 then Some (set_state now st w) else low_battery now w)
      else Some (set_state now SYS_SHUT_ME_DOWN w))"

section \<open>Checking a user with the server\<close>

definition InitializerCallback :: "http_event \<Rightarrow> 'j world \<Rightarrow> 'j world option" where
  "InitializerCallback evt w =
     (case evt of
        HTTP_EVENT_ON_DATA data \<Rightarrow> do {
          b \<leftarrow> wr_block (sys_outputBuff (glob w)) 0 data;
          Some (on_glob (\<lambda>g. g\<lparr>sys_outputBuff := b\<rparr>) w)
        }
      | _ \<Rightarrow> Some w)"

definition user_answer ::
  "'j cJSON \<Rightarrow> 'j \<Rightarrow> string \<Rightarrow> int \<Rightarrow> string \<Rightarrow> 'j world \<Rightarrow> 'j world option" where
  "user_answer cj j k userIndex user w =
     (if (case get_object_item_cs cj j k of None \<Rightarrow> False | Some u \<Rightarrow> is_true cj u)
      then do { w1 \<leftarrow> writeUserID userIndex user w; Some (BLE_notify ''9'' w1) }
      else Some (BLE_notify ''10'' w))"

definition verifyUserIdWithServer :: "'j cJSON \<Rightarrow> 'j world \<Rightarrow> ('j world \<times> bool) option" where
  "verifyUserIdWithServer cj w = do {
     w1 \<leftarrow> (if \<not> validTokenFlag (glob w) then downloadToken (zeros 20) w else Some w);
     let (w2, rc) = connect w1;
     if rc = 0 then do {
       postData \<leftarrow> sprintf_buf 500 (''{\"macAddress\": \"'' @ cstr (macID (sys w2)) @ ''\",\"user1Id\": \"'' @
         cstr (init_user1 (sys w2)) @ ''\",\"user2Id\": \"'' @ cstr (init_user2 (sys w2)) @ ''\"}'');
       let (w3, r) = perform w2;
       w4 \<leftarrow> run_events InitializerCallback (events r) w3;
       if \<not> perform_ok r then Some (fst (disconnect w4), False)
       else (case parse cj (cstr (sys_outputBuff (glob w4))) of
               None \<Rightarrow> Some (w4, False)
             | Some j \<Rightarrow> do {
                 w5 \<leftarrow> (if cstr (init_user1 (sys w4)) \<noteq> []
                       then user_answer cj j ''user1'' 1 (init_user1 (sys w4)) w4
                       else if cstr (init_user2 (sys w4)) \<noteq> []
                       then user_answer cj j ''user2'' 2 (init_user2 (sys w4)) w4
                       else Some w4);
                 Some (fst (disconnect w5), True)
               })
     } else Some (fst (disconnect w2), True)
   }"

section \<open>The states\<close>

definition BLE_init :: "'j world \<Rightarrow> 'j world" where
  "BLE_init w = on_glob (\<lambda>g. g\<lparr>bleReady := True\<rparr>) (call Ble_init w)"

definition do_POST :: "sys_inputs \<Rightarrow> 'j world \<Rightarrow> 'j world option" where
  "do_POST i w = battery_gate (i_now i) SYS_INIT w"

definition do_INIT :: "sys_inputs \<Rightarrow> 'j world \<Rightarrow> 'j world option" where
  "do_INIT i w =
     tone_then (i_now i) STARTUP_TONE SYS_IDLE
       (BLE_init (Player_init (on_led (\<lambda>l. setRightEarColor 80 80 80 (setLeftEarColor 80 80 80 l)) w)))"

definition idle_battery :: "sys_inputs \<Rightarrow> 'j world \<Rightarrow> 'j world option" where
  "idle_battery i w =
     (let batteryLevel = uint (getBatteryLevel (sys w)); chargingStatus = getChargingStatus (sys w) in
      if batteryLevel \<ge> 28 \<and> batteryLevel < 35 then
        (if chargingStatus > 0 then Some (set_state (i_now i) SYS_INIT w) else low_battery (i_now i) w)
      else if batteryLevel < 28 then Some (set_state (i_now i) SYS_SHUT_ME_DOWN w)
      else Some w)"

definition idle_toy :: "sys_inputs \<Rightarrow> 'j world \<Rightarrow> 'j world option" where
  "idle_toy i w =
     (if toyPresenseFlag (sys w) then
        (let w1 = on_sys (\<lambda>s. s\<lparr>toyPlacedOnce := True\<rparr>) w in
         if cstr (toy (sys w1)) \<noteq> cstr (previousToy (sys w1))
         then tone_then (i_now i) TOY_DETECT_TONE SYS_TOY_DETECTED w1
         else Some (set_state (i_now i) SYS_TOY_DETECTED w1))
      else Some w)"

definition idle_removed :: "sys_inputs \<Rightarrow> 'j world \<Rightarrow> 'j world" where
  "idle_removed i w =
     (let w1 = (if \<not> toyPresenseFlag (sys w) \<and> toyPlacedOnce (sys w) \<and> toyRemovalTick (sys w) = 0
                then on_sys (\<lambda>s. s\<lparr>toyRemovalTick := i_now i\<rparr>) w else w)
      in if \<not> toyPresenseFlag (sys w1) \<and> toyPlacedOnce (sys w1) \<and>
            elapsed (i_now i) (toyRemovalTick (sys w1)) 10000
         then waitForPipelineStop (stopPipeline w1) else w1)"

definition do_IDLE :: "sys_inputs \<Rightarrow> 'j world \<Rightarrow> 'j world option" where
  "do_IDLE i w =
     (if elapsed (i_now i) (idleSinceTick (sys w)) 300000
      then Some (set_state (i_now i) SYS_SHUT_ME_DOWN w)
      else do {
        w1 \<leftarrow> idle_battery i w;
        w2 \<leftarrow> idle_toy i w1;
        Some (idle_removed i w2)
      })"

definition do_INIT_WIFI_CHECK :: "sys_inputs \<Rightarrow> 'j world \<Rightarrow> 'j world option" where
  "do_INIT_WIFI_CHECK i w = do {
     (w1, ok) \<leftarrow> bleWriteCredentials (init_ssid (sys w)) (init_password (sys w)) w;
     Some (set_state (i_now i) (if ok then SYS_INIT_USER_ID_CHECK else SYS_IDLE) w1)
   }"

definition do_INIT_USER_ID_CHECK :: "'j cJSON \<Rightarrow> sys_inputs \<Rightarrow> 'j world \<Rightarrow> 'j world option" where
  "do_INIT_USER_ID_CHECK cj i w = do {
     (w1, ok) \<leftarrow> verifyUserIdWithServer cj w;
     Some (if ok then set_state (i_now i) SYS_IDLE w1 else w1)
   }"

definition do_WAIT_FOR_PLAYER :: "sys_inputs \<Rightarrow> 'j world \<Rightarrow> 'j world" where
  "do_WAIT_FOR_PLAYER i w =
     (let pressed = getLeftEarButton (sys w) \<or> getRightEarButton (sys w) in
      if playerGoBackToState (sys w) = SYS_WAIT_QNA_RESP \<and> pressed
      then set_state (i_now i) SYS_WAIT_QNA_RESP (playPauseToggle (i_el i) w)
      else if playerGoBackToState (sys w) = SYS_WAIT_ACTIVITY_RESP \<and> pressed
      then set_state (i_now i) SYS_PLAY_NEXT (playPauseToggle (i_el i) w)
      else (let (w1, completed) = CheckPlayingCompleted (i_msg i) w in
            if completed
            then set_state (i_now i) (playerGoBackToState (sys w1))
                   (on_glob (\<lambda>g. g\<lparr>responseWaitTick := i_now i\<rparr>) w1)
            else w1))"

definition do_TOY_DETECTED :: "sys_inputs \<Rightarrow> 'j world \<Rightarrow> 'j world option" where
  "do_TOY_DETECTED i w = do {
     let same = (cstr (toy (sys w)) = cstr (previousToy (sys w)));
     folder \<leftarrow> exist (toy (sys w)) (sd w);
     verified \<leftarrow> (if folder then checkDownloadStatus (toy (sys w)) w else Some 0);
     let st = (if verified \<noteq> 0
               then (if same \<and> previousTurntable (sys w) = getTurnTable (sys w) \<and>
                        \<not> elapsed (i_now i) (toyRemovalTick (sys w)) 10000
                     then SYS_RESUME_PLAYING else SYS_PLAY_TOY)
               else SYS_DOWNLOAD_WIFI_CONN);
     let w1 = set_state (i_now i) st w;
     Some (if same then on_sys (\<lambda>s. s\<lparr>toyRemovalTick := 0\<rparr>) w1 else w1)
   }"

definition do_PLAY_TOY :: "sys_inputs \<Rightarrow> 'j world \<Rightarrow> 'j world" where
  "do_PLAY_TOY i w = set_state (i_now i) SYS_GET_DIRECTION w"

definition direction_name :: "u8 \<Rightarrow> string option" where
  "direction_name d =
     (if d = eNORTH then Some ''north'' else if d = eSOUTH then Some ''south''
      else if d = eEAST then Some ''east'' else if d = eWEST then Some ''west'' else None)"

definition load_direction :: "'j cJSON \<Rightarrow> sys_inputs \<Rightarrow> string \<Rightarrow> 'j world \<Rightarrow> 'j world option" where
  "load_direction cj i loc w =
     (case fopen_r (sd w) loc of
        Some content \<Rightarrow>
          battery_gate (i_now i) SYS_READ_AUDIO_HEADER
            (on_glob (\<lambda>g. g\<lparr>indexx := 0\<rparr>)
              (on_sys (\<lambda>s. s\<lparr>sys_json := parse cj (cstr (take 1023 content))\<rparr>) w))
      | None \<Rightarrow> Some (set_state (i_now i) SYS_DOWNLOAD_WIFI_CONN w))"

definition load_theme :: "'j world \<Rightarrow> 'j world option" where
  "load_theme w = do {
     loc \<leftarrow> sprintf_buf 100 (''/sdcard/media/toys/'' @ cstr (toy (sys w)) @ ''/colourTheme.cubbies'');
     Some (case fopen_r (sd w) loc of
             None \<Rightarrow> w
           | Some content \<Rightarrow>
               (case fgets 16 content of
                  None \<Rightarrow> w
                | Some (colorString, _) \<Rightarrow>
                    (let tc = scan_into (themeColor (glob w)) word_of_int colorString;
                         c = (\<lambda>k. uint (tc ! k))
                     in on_led (\<lambda>l. setRightEarColor (c 0) (c 1) (c 2)
                          (setLeftEarColor (c 0) (c 1) (c 2) (setLandingPadColor (c 0) (c 1) (c 2) l)))
                        (on_glob (\<lambda>g. g\<lparr>themeColor := tc\<rparr>) w))))
   }"

definition do_GET_DIRECTION :: "'j cJSON \<Rightarrow> sys_inputs \<Rightarrow> 'j world \<Rightarrow> 'j world option" where
  "do_GET_DIRECTION cj i w =
     (let w1 = on_sys (\<lambda>s. s\<lparr>turnTable := getTurnTable s\<rparr>) w in
      case direction_name (turnTable (sys w1)) of
        None \<Rightarrow> Some (set_state (i_now i) SYS_ERROR w1)
      | Some direction \<Rightarrow> do {
          loc \<leftarrow> sprintf_buf 100 (''/sdcard/media/toys/'' @ cstr (toy (sys w1)) @ ''/'' @ direction @ ''.cubbies'');
          w2 \<leftarrow> load_direction cj i loc w1;
          load_theme w2
        })"

definition do_READ_AUDIO_HEADER :: "'j cJSON \<Rightarrow> sys_inputs \<Rightarrow> 'j world \<Rightarrow> 'j world option" where
  "do_READ_AUDIO_HEADER cj i w = do {
     w1 \<leftarrow> readHeader cj w;
     Some (set_state (i_now i)
       (if hT (headerData (glob w1)) = 2 then SYS_PLAY_ACTIVITY
        else if hT (headerData (glob w1)) = 1 then SYS_PLAY_QNA
        else SYS_PLAY_NORMAL_AUDIO) w1)
   }"

definition json_size :: "'j cJSON \<Rightarrow> 'j option \<Rightarrow> nat" where
  "json_size cj j = (case j of None \<Rightarrow> 0 | Some j \<Rightarrow> get_array_size cj j)"

definition do_PLAY_NEXT :: "'j cJSON \<Rightarrow> sys_inputs \<Rightarrow> 'j world \<Rightarrow> 'j world option" where
  "do_PLAY_NEXT cj i w =
     (let w1 = on_glob (\<lambda>g. g\<lparr>indexx := indexx g + 1\<rparr>) (SkipCurrentAudio (i_el i) w) in
      if unat (indexx (glob w1)) \<ge> json_size cj (sys_json (sys w1))
      then Some (set_state (i_now i) SYS_PLAYING_COMPLETE w1)
      else battery_gate (i_now i) SYS_READ_AUDIO_HEADER w1)"

definition do_PLAY_PREVIOUS :: "sys_inputs \<Rightarrow> 'j world \<Rightarrow> 'j world" where
  "do_PLAY_PREVIOUS i w =
     (let w1 = SkipCurrentAudio (i_el i) w;
          w2 = (if indexx (glob w1) > 0 then on_glob (\<lambda>g. g\<lparr>indexx := indexx g - 1\<rparr>) w1 else w1)
      in set_state (i_now i) SYS_READ_AUDIO_HEADER w2)"

definition do_RESUME_PLAYING :: "sys_inputs \<Rightarrow> 'j world \<Rightarrow> 'j world" where
  "do_RESUME_PLAYING i w = resumePlaying (i_now i) (i_el i) w"

text \<open>The file of the current index, and its path with a suffix for the answers.\<close>

definition select_audio :: "'j cJSON \<Rightarrow> 'j world \<Rightarrow> 'j world option" where
  "select_audio cj w = do {
     idx \<leftarrow> sprintf_buf 4 (printf_d (uint (indexx (glob w)) + 1));
     name \<leftarrow> audio_name cj (sys_json (sys w)) idx;
     loc \<leftarrow> sprintf_buf 100 (''/sdcard/media/audio/'' @ name @ ''.mp3'');
     fname \<leftarrow> sprintf_buf 50 name;
     Some (on_glob (\<lambda>g. g\<lparr>audioIndex := idx, location := loc, playerFilename := fname\<rparr>) w)
   }"

definition select_answer :: "'j cJSON \<Rightarrow> string \<Rightarrow> 'j world \<Rightarrow> 'j world option" where
  "select_answer cj suffix w = do {
     name \<leftarrow> audio_name cj (sys_json (sys w)) (audioIndex (glob w));
     loc \<leftarrow> sprintf_buf 100 (''/sdcard/media/audio/'' @ name @ suffix @ ''.mp3'');
     Some (on_glob (\<lambda>g. g\<lparr>location := loc\<rparr>) w)
   }"

definition await_response :: "sys_inputs \<Rightarrow> 'j world \<Rightarrow> 'j world" where
  "await_response i w =
     on_glob (\<lambda>g. g\<lparr>isResponseRequiredFlag := True, responseWaitTick := i_now i\<rparr>)
       (on_sys (\<lambda>s. setRightEarButton False (setLeftEarButton False s)) w)"

definition do_PLAY_NORMAL_AUDIO :: "'j cJSON \<Rightarrow> sys_inputs \<Rightarrow> 'j world \<Rightarrow> 'j world option" where
  "do_PLAY_NORMAL_AUDIO cj i w = do {
     w1 \<leftarrow> select_audio cj w;
     play_then (i_now i) (location (glob w1)) SYS_PLAY_NEXT w1
   }"

definition ear_colors :: "int list \<Rightarrow> int list \<Rightarrow> LED \<Rightarrow> LED" where
  "ear_colors l r d = setRightEarColor (r ! 0) (r ! 1) (r ! 2) (setLeftEarColor (l ! 0) (l ! 1) (l ! 2) d)"

definition do_PLAY_QNA :: "'j cJSON \<Rightarrow> sys_inputs \<Rightarrow> 'j world \<Rightarrow> 'j world option" where
  "do_PLAY_QNA cj i w = do {
     let h = headerData (glob w);
     w1 \<leftarrow> select_audio cj (await_response i
             (on_led (ear_colors (hL h) (hR h)) (on_glob (\<lambda>g. g\<lparr>qnaAttempt := 1\<rparr>) w)));
     play_then (i_now i) (location (glob w1)) SYS_WAIT_QNA_RESP w1
   }"

definition do_WAIT_QNA_RESP :: "sys_inputs \<Rightarrow> 'j world \<Rightarrow> 'j world" where
  "do_WAIT_QNA_RESP i w =
     (let resp = (if getLeftEarButton (sys w) then 0 else if getRightEarButton (sys w) then 1 else 5);
          a = qnaAttempt (glob w);
          wrong = (if a = 1 then set_state (i_now i) SYS_INCORRECT_ANS_TRY1 w
                   else if a = 2 then set_state (i_now i) SYS_CORRECT_ANS w else w)
      in if resp \<noteq> 5 then
           (if resp = hA (headerData (glob w)) then set_state (i_now i) SYS_CORRECT_ANS w else wrong)
         else if elapsed (i_now i) (responseWaitTick (glob w)) 10000 then wrong else w)"

definition do_INCORRECT_ANS_TRY1 :: "'j cJSON \<Rightarrow> sys_inputs \<Rightarrow> 'j world \<Rightarrow> 'j world option" where
  "do_INCORRECT_ANS_TRY1 cj i w = do {
     w1 \<leftarrow> select_answer cj ''W'' (await_response i w);
     w2 \<leftarrow> play (location (glob w1)) w1;
     Some (set_state (i_now i) SYS_WAIT_FOR_PLAYER
       (on_sys (\<lambda>s. s\<lparr>playerGoBackToState := SYS_WAIT_QNA_RESP\<rparr>)
         (on_glob (\<lambda>g. g\<lparr>qnaAttempt := 2\<rparr>) w2)))
   }"

definition do_CORRECT_ANS :: "'j cJSON \<Rightarrow> sys_inputs \<Rightarrow> 'j world \<Rightarrow> 'j world option" where
  "do_CORRECT_ANS cj i w = do {
     w1 \<leftarrow> select_answer cj ''C'' w;
     w2 \<leftarrow> play (location (glob w1)) w1;
     Some (set_state (i_now i) SYS_WAIT_FOR_PLAYER
       (on_sys (\<lambda>s. s\<lparr>playerGoBackToState := SYS_PLAY_NEXT\<rparr>)
         (on_glob (\<lambda>g. g\<lparr>qnaAttempt := 0\<rparr>) w2)))
   }"

definition do_PLAY_ACTIVITY :: "'j cJSON \<Rightarrow> sys_inputs \<Rightarrow> 'j world \<Rightarrow> 'j world option" where
  "do_PLAY_ACTIVITY cj i w = do {
     w1 \<leftarrow> select_audio cj (await_response i
             (on_led (\<lambda>l. setRightEarColor 0 255 0 (setLeftEarColor 0 255 0 l)) w));
     play_then (i_now i) (location (glob w1)) SYS_WAIT_ACTIVITY_RESP w1
   }"

definition do_WAIT_ACTIVITY_RESP :: "sys_inputs \<Rightarrow> 'j world \<Rightarrow> 'j world" where
  "do_WAIT_ACTIVITY_RESP i w =
     (if elapsed (i_now i) (responseWaitTick (glob w)) 10000 \<or> getLeftEarButton (sys w) \<or>
         getLeftEarButton (sys w)
      then set_state (i_now i) SYS_PLAY_NEXT w else w)"

definition do_DOWNLOAD_WIFI_CONN :: "sys_inputs \<Rightarrow> 'j world \<Rightarrow> 'j world option" where
  "do_DOWNLOAD_WIFI_CONN i w =
     (let (w1, rc) = WiFi_init w in
      if rc = 0 then do {
        (w2, rc2) \<leftarrow> ConfigSdCardCredentials w1;
        if rc2 = 0 then
          (let (w3, rc3) = connect w2 in
           if rc3 = 0 then tone_then (i_now i) DOWNLOAD_START_TONE SYS_DOWNLOAD_TOY w3
           else Some (set_state (i_now i) SYS_WIFI_CONNECT_ERR w3))
        else Some (set_state (i_now i) SYS_WIFI_CRED_MISSING_ERR w2)
      } else Some w1)"

definition do_DOWNLOAD_TOY :: "'j cJSON \<Rightarrow> sys_inputs \<Rightarrow> 'j world \<Rightarrow> 'j world option" where
  "do_DOWNLOAD_TOY cj i w = do {
     (w1, _) \<leftarrow> ReadBoxUniqueID (on_led (setLandingPadColor 254 13 0) w);
     (w2, download_success) \<leftarrow> Downloader_begin cj (i_seconds i) (toy (sys w1)) w1;
     Some (set_state (i_now i) SYS_IDLE w2)
   }"

definition do_SHUT_ME_DOWN :: "sys_inputs \<Rightarrow> 'j world \<Rightarrow> 'j world option" where
  "do_SHUT_ME_DOWN i w =
     tone_then (i_now i) SHUTDOWN_TONE SYS_TURN_OFF
       (on_led (\<lambda>l. setRightEarColor 255 0 0 (setLeftEarColor 255 0 0 (setLandingPadColor 255 0 0 l))) w)"

definition System_handler :: "'j cJSON \<Rightarrow> sys_inputs \<Rightarrow> 'j world \<Rightarrow> 'j world option" where
  "System_handler cj i w =
     (case sys_state (sys w) of
        SYS_POST \<Rightarrow> do_POST i w
      | SYS_INIT \<Rightarrow> do_INIT i w
      | SYS_IDLE \<Rightarrow> do_IDLE i w
      | SYS_INIT_WIFI_CHECK \<Rightarrow> do_INIT_WIFI_CHECK i w
      | SYS_INIT_USER_ID_CHECK \<Rightarrow> do_INIT_USER_ID_CHECK cj i w
      | SYS_WAIT_FOR_PLAYER \<Rightarrow> Some (do_WAIT_FOR_PLAYER i w)
      | SYS_TOY_DETECTED \<Rightarrow> do_TOY_DETECTED i w
      | SYS_PLAY_TOY \<Rightarrow> Some (do_PLAY_TOY i w)
      | SYS_ERROR \<Rightarrow> Some w
      | SYS_GET_DIRECTION \<Rightarrow> do_GET_DIRECTION cj i w
      | SYS_READ_AUDIO_HEADER \<Rightarrow> do_READ_AUDIO_HEADER cj i w
      | SYS_PLAY_NEXT \<Rightarrow> do_PLAY_NEXT cj i w
      | SYS_PLAY_PREVIOUS \<Rightarrow> Some (do_PLAY_PREVIOUS i w)
      | SYS_RESUME_PLAYING \<Rightarrow> Some (do_RESUME_PLAYING i w)
      | SYS_PLAY_NORMAL_AUDIO \<Rightarrow> do_PLAY_NORMAL_AUDIO cj i w
      | SYS_PLAY_QNA \<Rightarrow> do_PLAY_QNA cj i w
      | SYS_WAIT_QNA_RESP \<Rightarrow> Some (do_WAIT_QNA_RESP i w)
      | SYS_INCORRECT_ANS_TRY1 \<Rightarrow> do_INCORRECT_ANS_TRY1 cj i w
      | SYS_CORRECT_ANS \<Rightarrow> do_CORRECT_ANS cj i w
      | SYS_PLAY_ACTIVITY \<Rightarrow> do_PLAY_ACTIVITY cj i w
      | SYS_WAIT_ACTIVITY_RESP \<Rightarrow> Some (do_WAIT_ACTIVITY_RESP i w)
      | SYS_PLAYING_COMPLETE \<Rightarrow> Some (set_state (i_now i) SYS_PLAY_TOY w)
      | SYS_DOWNLOAD_WIFI_CONN \<Rightarrow> do_DOWNLOAD_WIFI_CONN i w
      | SYS_DOWNLOAD_TOY \<Rightarrow> do_DOWNLOAD_TOY cj i w
      | SYS_WIFI_CONNECT_ERR \<Rightarrow> tone_then (i_now i) INVALID_WIFI_CREDS_TONE SYS_IDLE w
      | SYS_WIFI_CRED_MISSING_ERR \<Rightarrow> tone_then (i_now i) PLEASE_ENTER_WIFI_CREDS_TONE SYS_IDLE w
      | SYS_SHUT_ME_DOWN \<Rightarrow> do_SHUT_ME_DOWN i w
      | SYS_TURN_OFF \<Rightarrow> Some (on_sys (setPowerStatus 1) w))"

end
