(* ===== verification/Crc16.thy ===== *)
theory Crc16
  imports Prelude
begin

text \<open>
  The checksum of the serial bus, \<^verbatim>\<open>src/main/src/crc16.cpp\<close>: the reflected CRC-16 with
  polynomial 0xA001 (Modbus). The inner loop over the eight bits is \<open>crc_bit\<close> iterated, the
  outer loop walks the buffer and is \<open>None\<close> when it would read past the end of it.

  The lemmas show that the register update is linear over XOR and invertible. From these follow
  the three facts the bus relies on: a frame followed by its checksum, low byte first, has
  checksum 0; and a frame damaged inside one byte, or inside a window of two adjacent bytes, no
  longer has it.
\<close>

section \<open>The algorithm\<close>

definition crc_bit :: "u16 \<Rightarrow> u16" where
  "crc_bit crc = (if crc AND 1 \<noteq> 0 then drop_bit 1 crc XOR 0xA001 else drop_bit 1 crc)"

fun crc_bits :: "nat \<Rightarrow> u16 \<Rightarrow> u16" where
  "crc_bits 0 crc = crc"
| "crc_bits (Suc i) crc = crc_bits i (crc_bit crc)"

definition crc_byte :: "u16 \<Rightarrow> u8 \<Rightarrow> u16" where
  "crc_byte crc b = crc_bits 8 (crc XOR ucast b)"

fun Crc16GetFromSeed :: "u16 \<Rightarrow> bytes \<Rightarrow> nat \<Rightarrow> u16 option" where
  "Crc16GetFromSeed crc data 0 = Some crc"
| "Crc16GetFromSeed crc [] (Suc len) = None"
| "Crc16GetFromSeed crc (b # data) (Suc len) = Crc16GetFromSeed (crc_byte crc b) data len"

definition Crc16Get :: "bytes \<Rightarrow> nat \<Rightarrow> u16 option" where
  "Crc16Get data len = Crc16GetFromSeed 0xFFFF data len"

text \<open>The two bytes a frame ends with: low byte, then high byte.\<close>

definition crc_lo :: "u16 \<Rightarrow> u8" where
  "crc_lo c = ucast (c AND 0x00FF)"

definition crc_hi :: "u16 \<Rightarrow> u8" where
  "crc_hi c = ucast (drop_bit 8 c)"

section \<open>Reading inside the buffer\<close>

lemma Crc16GetFromSeed_foldl:
  "len \<le> length data \<Longrightarrow> Crc16GetFromSeed s data len = Some (foldl crc_byte s (take len data))"
  by (induction s data len rule: Crc16GetFromSeed.induct) auto

lemma Crc16GetFromSeed_None: "Crc16GetFromSeed s data len = None \<longleftrightarrow> length data < len"
  by (induction s data len rule: Crc16GetFromSeed.induct) auto

lemma Crc16Get_foldl [cmem]:
  "len \<le> length data \<Longrightarrow> Crc16Get data len = Some (foldl crc_byte 0xFFFF (take len data))"
  by (simp add: Crc16Get_def Crc16GetFromSeed_foldl)

section \<open>Linearity and invertibility\<close>

lemma bit_crc_bit:
  "bit (crc_bit x) n \<longleftrightarrow> n < 16 \<and> (bit x (Suc n) \<noteq> (bit x 0 \<and> bit (0xA001 :: u16) n))"
proof -
  have "(x AND 1 \<noteq> 0) = bit x 0"
    by (simp add: and_one_eq bit_0 odd_iff_mod_2_eq_one)
  then show ?thesis
    using bit_imp_le_length [of x "Suc n"] bit_imp_le_length [of "0xA001 :: u16" n]
    by (auto simp: crc_bit_def bit_xor_iff bit_drop_bit_eq)
qed

lemma crc_bit_xor: "crc_bit (x XOR y) = crc_bit x XOR crc_bit y"
  by (rule bit_word_eqI) (auto simp: bit_crc_bit bit_xor_iff)

lemma crc_bits_xor: "crc_bits n (x XOR y) = crc_bits n x XOR crc_bits n y"
  by (induction n arbitrary: x y) (simp_all add: crc_bit_xor)

lemma crc_byte_xor: "crc_byte (x XOR y) (a XOR b) = crc_byte x a XOR crc_byte y b"
proof -
  have "(x XOR y) XOR ucast (a XOR b) = (x XOR ucast a) XOR (y XOR (ucast b :: u16))"
    by (rule bit_word_eqI) (auto simp: bit_xor_iff bit_ucast_iff)
  then show ?thesis by (simp add: crc_byte_def crc_bits_xor)
qed

lemma crc_bit_eq_0D: "crc_bit x = 0 \<Longrightarrow> x = 0"
proof (rule bit_word_eqI)
  fix n assume z: "crc_bit x = 0" and n: "n < LENGTH(16)"
  have all: "\<not> bit (crc_bit x) k" for k by (simp add: z)
  have b0: "\<not> bit x 0"
    using all [of 15] by (simp add: bit_crc_bit)
  have "\<not> bit x (Suc k)" if "k < 15" for k
    using all [of k] b0 that by (simp add: bit_crc_bit)
  with b0 n show "bit x n = bit (0 :: u16) n"
    by (cases n) auto
qed

lemma crc_bit_0 [simp]: "crc_bit 0 = 0"
  by (simp add: crc_bit_def)

lemma crc_bit_eq_0 [simp]: "crc_bit x = 0 \<longleftrightarrow> x = 0"
  using crc_bit_eq_0D [of x] by auto

lemma crc_bits_0 [simp]: "crc_bits n 0 = 0"
  by (induction n) simp_all

lemma crc_bits_eq_0 [simp]: "crc_bits n x = 0 \<longleftrightarrow> x = 0"
  by (induction n arbitrary: x) simp_all

lemma xor_eq_0_iff_u16: "(x :: u16) XOR y = 0 \<longleftrightarrow> x = y"
proof
  assume "x XOR y = 0"
  then have "(x XOR y) XOR y = 0 XOR y" by simp
  then show "x = y" by (simp add: xor.assoc)
qed simp

lemma crc_bits_inj [simp]: "crc_bits n x = crc_bits n y \<longleftrightarrow> x = y"
  using crc_bits_eq_0 [of n "x XOR y"] by (simp add: crc_bits_xor xor_eq_0_iff_u16)

lemma crc_byte_inj_seed: "crc_byte x b = crc_byte y b \<Longrightarrow> x = y"
proof -
  assume "crc_byte x b = crc_byte y b"
  then have "(x XOR ucast b) XOR ucast b = (y XOR ucast b) XOR (ucast b :: u16)"
    by (simp add: crc_byte_def)
  then show "x = y" by (simp add: xor.assoc)
qed

lemma foldl_crc_inj_seed: "foldl crc_byte x bs = foldl crc_byte y bs \<Longrightarrow> x = y"
  by (induction bs arbitrary: x y) (auto dest: crc_byte_inj_seed)

lemma ucast_u8_u16_inj: "(ucast (a :: u8) :: u16) = ucast b \<Longrightarrow> a = b"
proof (rule bit_word_eqI)
  fix n assume e: "(ucast a :: u16) = ucast b" and "n < LENGTH(8)"
  then have "bit (ucast a :: u16) n = bit (ucast b :: u16) n" "n < 16" by simp_all
  then show "bit a n = bit b n" by (simp add: bit_ucast_iff)
qed

lemma crc_byte_inj_byte: "crc_byte x a = crc_byte x b \<Longrightarrow> a = b"
proof -
  assume "crc_byte x a = crc_byte x b"
  then have "x XOR (x XOR ucast a) = x XOR (x XOR (ucast b :: u16))"
    by (simp add: crc_byte_def)
  then show "a = b"
    by (simp add: xor.assoc [symmetric] ucast_u8_u16_inj)
qed

section \<open>The residue\<close>

lemma crc_bits_low_zero:
  "(\<forall>k < n. \<not> bit x k) \<Longrightarrow> crc_bits n x = drop_bit n x"
proof (induction n arbitrary: x)
  case 0
  then show ?case by simp
next
  case (Suc n)
  have "crc_bit x = drop_bit 1 x"
    using Suc.prems by (auto simp: crc_bit_def and_one_eq bit_0 even_iff_mod_2_eq_zero)
  moreover have "crc_bits n (drop_bit 1 x) = drop_bit n (drop_bit 1 x)"
    using Suc.prems by (intro Suc.IH) (auto simp: bit_drop_bit_eq)
  ultimately show ?case by simp
qed

lemma bit_crc_lo: "bit (crc_lo c) n \<longleftrightarrow> n < 8 \<and> bit c n"
proof -
  have m: "(0x00FF :: u16) = mask 8" by (simp add: mask_eq_exp_minus_1)
  show ?thesis
    using bit_imp_le_length [of c n]
    by (auto simp: crc_lo_def m bit_and_iff bit_mask_iff bit_ucast_iff)
qed

lemma bit_crc_hi: "bit (crc_hi c) n \<longleftrightarrow> n < 8 \<and> bit c (8 + n)"
  by (auto simp: crc_hi_def bit_ucast_iff bit_drop_bit_eq)

lemma crc_byte_lo: "crc_byte c (crc_lo c) = drop_bit 8 c"
proof -
  let ?x = "c XOR ucast (crc_lo c)"
  have b: "bit ?x n \<longleftrightarrow> 8 \<le> n \<and> bit c n" for n
    using bit_imp_le_length [of c n]
    by (auto simp: bit_xor_iff bit_ucast_iff bit_crc_lo)
  have "crc_bits 8 ?x = drop_bit 8 ?x"
    by (rule crc_bits_low_zero) (simp add: b)
  also have "\<dots> = drop_bit 8 c"
    by (rule bit_word_eqI) (simp add: bit_drop_bit_eq b del: drop_bit_xor)
  finally show ?thesis by (simp add: crc_byte_def)
qed

lemma crc_byte_hi: "crc_byte (drop_bit 8 c) (crc_hi c) = 0"
proof -
  have "drop_bit 8 c XOR ucast (crc_hi c) = (0 :: u16)"
    by (rule bit_word_eqI)
       (auto simp: bit_xor_iff bit_ucast_iff bit_drop_bit_eq bit_crc_hi not_less)
  then show ?thesis by (simp add: crc_byte_def)
qed

lemma foldl_crc_residue:
  "foldl crc_byte s (bs @ [crc_lo (foldl crc_byte s bs), crc_hi (foldl crc_byte s bs)]) = 0"
  by (simp add: crc_byte_lo crc_byte_hi)

section \<open>Two adjacent bytes\<close>

lemma crc_bits_add: "crc_bits (m + n) x = crc_bits n (crc_bits m x)"
  by (induction m arbitrary: x) simp_all

lemma crc_byte_twice:
  "crc_byte (crc_byte c a) b = crc_bits 16 (c XOR (ucast a XOR push_bit 8 (ucast b)))"
proof -
  have "crc_bits 8 (push_bit 8 (ucast b) :: u16) = drop_bit 8 (push_bit 8 (ucast b))"
    by (rule crc_bits_low_zero) (simp add: bit_push_bit_iff)
  also have "\<dots> = (ucast b :: u16)"
    by (rule bit_word_eqI) (auto simp: bit_drop_bit_eq bit_push_bit_iff bit_ucast_iff)
  finally have "crc_bits 8 (push_bit 8 (ucast b)) = (ucast b :: u16)" .
  moreover have "crc_bits 16 x = crc_bits 8 (crc_bits 8 x)" for x
    using crc_bits_add [of 8 8 x] by simp
  ultimately show ?thesis
    by (simp add: crc_byte_def crc_bits_xor xor.assoc)
qed

lemma byte_pair_xor_inj:
  assumes "ucast a XOR push_bit 8 (ucast b) = (ucast a' XOR push_bit 8 (ucast b') :: u16)"
  shows "a = (a' :: u8) \<and> b = (b' :: u8)"
proof -
  have bits: "bit (ucast x XOR push_bit 8 (ucast y) :: u16) n \<longleftrightarrow>
      (if n < 8 then bit x n else n < 16 \<and> bit y (n - 8))" for x y :: u8 and n
    by (auto simp: bit_xor_iff bit_push_bit_iff bit_ucast_iff)
  have "bit a n = bit a' n" if "n < 8" for n
    using arg_cong [OF assms, of "\<lambda>w. bit w n"] that by (simp add: bits)
  moreover have "bit b n = bit b' n" if "n < 8" for n
    using arg_cong [OF assms, of "\<lambda>w. bit w (8 + n)"] that by (simp add: bits)
  ultimately show ?thesis
    by (auto intro!: bit_word_eqI)
qed

lemma crc_pair_inj:
  "crc_byte (crc_byte c a) b = crc_byte (crc_byte c a') b' \<Longrightarrow> a = a' \<and> b = b'"
proof -
  assume "crc_byte (crc_byte c a) b = crc_byte (crc_byte c a') b'"
  then have "c XOR (c XOR (ucast a XOR push_bit 8 (ucast b)))
      = c XOR (c XOR (ucast a' XOR push_bit 8 (ucast b')))"
    by (simp add: crc_byte_twice)
  then have "ucast a XOR push_bit 8 (ucast b) = (ucast a' XOR push_bit 8 (ucast b') :: u16)"
    by (simp add: xor.assoc [symmetric])
  then show ?thesis by (rule byte_pair_xor_inj)
qed

section \<open>Properties\<close>

text \<open>
  C20. A frame that ends with its own checksum, low byte first, checks: whatever the payload, the
  payload followed by the two bytes of its checksum has checksum 0, which is what
  \<^verbatim>\<open>QBSlaveValidateFrame\<close> tests.
\<close>

theorem crc_frame_residue:
  assumes "Crc16Get payload (length payload) = Some c"
  shows "Crc16Get (payload @ [crc_lo c, crc_hi c]) (length payload + 2) = Some 0"
proof -
  have "c = foldl crc_byte 0xFFFF payload"
    using assms by (simp add: Crc16Get_foldl)
  then show ?thesis
    using foldl_crc_residue [of "0xFFFF" payload] by (simp add: Crc16Get_foldl)
qed

theorem crc_frame_residue_witness:
  "Crc16Get [1, 2, 3] 3 = Some 0x6161 \<and> Crc16Get [1, 2, 3, 0x61, 0x61] 5 = Some 0"
proof -
  have h: "Crc16Get [1, 2, 3] (length [1, 2, 3 :: u8]) = Some 0x6161"
    by code_simp
  show ?thesis
    using h crc_frame_residue [OF h] by (simp add: crc_lo_def crc_hi_def, simp add: eval_nat_numeral)
qed

text \<open>
  C26. Damage inside any window of two adjacent bytes is detected: two frames that agree outside
  such a window and differ inside it have different checksums, so at most one of them is
  accepted.
\<close>

theorem crc_detects_two_byte_burst:
  assumes "(a, b) \<noteq> (a', b')"
  shows "Crc16Get (pre @ [a, b] @ post) (length pre + 2 + length post)
       \<noteq> Crc16Get (pre @ [a', b'] @ post) (length pre + 2 + length post)"
proof
  assume "Crc16Get (pre @ [a, b] @ post) (length pre + 2 + length post)
        = Crc16Get (pre @ [a', b'] @ post) (length pre + 2 + length post)"
  then have "crc_byte (crc_byte (foldl crc_byte 0xFFFF pre) a) b
           = crc_byte (crc_byte (foldl crc_byte 0xFFFF pre) a') b'"
    by (auto simp: Crc16Get_foldl dest: foldl_crc_inj_seed)
  then show False
    using assms by (auto dest: crc_pair_inj)
qed

theorem crc_detects_two_byte_burst_witness:
  "(2 :: u8, 3 :: u8) \<noteq> (2, 4) \<and> Crc16Get [1, 2, 3, 0x61, 0x61] 5 \<noteq> Crc16Get [1, 2, 4, 0x61, 0x61] 5"
proof -
  have h: "(2 :: u8, 3 :: u8) \<noteq> (2, 4)" by simp
  show ?thesis
    using h crc_detects_two_byte_burst [OF h, of "[1]" "[0x61, 0x61]"]
    by (simp add: eval_nat_numeral)
qed

end
