(* ===== verification/Qbus_Slave.thy ===== *)
theory Qbus_Slave
  imports Crc16 Player_App
begin

text \<open>
  The slave side of the serial bus, \<^verbatim>\<open>src/main/src/qbus_s.cpp\<close> and
  \<^verbatim>\<open>inc/qbus_s.h\<close>. The main controller sends a read or write frame (function code,
  address, length, data, CRC); the slave collects bytes until 3 ms pass without one, checks the
  frame, acts on it through the register callbacks, and sends the reply from the same buffer.

  \<open>qBSlave\<close> is \<^verbatim>\<open>qBSlave_st\<close>, its function pointers included; they act on a state
  \<open>'w\<close>. The 16-bit counters are naturals with the reduction modulo \<open>2 ^ 16\<close> written
  where the code computes with them. \<^verbatim>\<open>debugCount\<close>, which nothing reads, is left out.
  \<^verbatim>\<open>char\<close> is unsigned on the Xtensa target, so \<^verbatim>\<open>%02X\<close> of a byte prints two digits.
\<close>

section \<open>Data\<close>

datatype qBSlaveState_et = QBS_INIT | QBS_IDLE | QBS_FRAME_RCV | QBS_SEND_FRAME | QBS_STOP

datatype qBRegRetCode_et = QB_REG_SUCCESS | QB_REG_ERR_FUNC_CODE | QB_REG_ERR_ADDR

fun ret_code :: "qBRegRetCode_et \<Rightarrow> u8" where
  "ret_code QB_REG_SUCCESS = 0"
| "ret_code QB_REG_ERR_FUNC_CODE = 1"
| "ret_code QB_REG_ERR_ADDR = 2"

text \<open>What the callbacks ask of the outside: the clock and the state of the audio element.\<close>

record inputs =
  now :: u32
  el :: audio_element_state_t

type_synonym 'w RegCb =
  "inputs \<Rightarrow> nat \<Rightarrow> nat \<Rightarrow> bytes \<Rightarrow> 'w \<Rightarrow> (qBRegRetCode_et \<times> bytes \<times> 'w) option"

record 'w qBSlave =
  qBState :: qBSlaveState_et
  timeOutStartTick :: u32
  frameBuffer :: bytes
  framBuffLen :: nat
  recvByteCount :: nat
  sentByteCount :: nat
  totalByteToSend :: nat
  TransmitChar :: "u8 \<Rightarrow> 'w \<Rightarrow> 'w"
  EnableTxRx :: "u8 \<Rightarrow> u8 \<Rightarrow> 'w \<Rightarrow> 'w"
  ReadRegCb :: "'w RegCb"
  WriteRegCb :: "'w RegCb"

abbreviation QB_DISABLE :: u8 where "QB_DISABLE \<equiv> 0"
abbreviation QB_ENABLE :: u8 where "QB_ENABLE \<equiv> 1"
abbreviation QB_REG_READ_CMD :: u8 where "QB_REG_READ_CMD \<equiv> 1"
abbreviation QB_REG_WRITE_CMD :: u8 where "QB_REG_WRITE_CMD \<equiv> 2"
abbreviation QB_ERR_CODE :: u8 where "QB_ERR_CODE \<equiv> 0x80"
abbreviation QB_FRAME_MIN_LEN :: nat where "QB_FRAME_MIN_LEN \<equiv> 7"
abbreviation QB_FRAME_TIMEOUT_MS :: u32 where "QB_FRAME_TIMEOUT_MS \<equiv> 3"
abbreviation QB_FRAME_REG_DATA_INDEX :: nat where "QB_FRAME_REG_DATA_INDEX \<equiv> 5"

definition u16_wrap :: "nat \<Rightarrow> nat" where
  "u16_wrap n = n mod 65536"

lemma u16_wrap_small [simp]: "n < 65536 \<Longrightarrow> u16_wrap n = n"
  by (simp add: u16_wrap_def)

text \<open>\<^verbatim>\<open>x = hi << 8; x |= lo;\<close> in a \<^verbatim>\<open>uint16_t\<close>.\<close>

definition be16 :: "u8 \<Rightarrow> u8 \<Rightarrow> nat" where
  "be16 hi lo = unat (push_bit 8 (ucast hi :: u16) OR ucast lo)"

section \<open>Operations\<close>

definition QBSlaveInit ::
  "inputs \<Rightarrow> bytes \<Rightarrow> nat \<Rightarrow> (u8 \<Rightarrow> 'w \<Rightarrow> 'w) \<Rightarrow> (u8 \<Rightarrow> u8 \<Rightarrow> 'w \<Rightarrow> 'w) \<Rightarrow> 'w RegCb \<Rightarrow> 'w RegCb \<Rightarrow>
   'w \<Rightarrow> 'w qBSlave \<times> 'w" where
  "QBSlaveInit inp frameBuff buffLen tx enable readCb writeCb w =
     (\<lparr>qBState = QBS_INIT, timeOutStartTick = now inp, frameBuffer = frameBuff,
       framBuffLen = buffLen, recvByteCount = 0, sentByteCount = 0, totalByteToSend = 0,
       TransmitChar = tx, EnableTxRx = enable, ReadRegCb = readCb, WriteRegCb = writeCb\<rparr>,
      enable QB_DISABLE QB_DISABLE w)"

definition QBSlaveSetState ::
  "'w qBSlave \<Rightarrow> qBSlaveState_et \<Rightarrow> 'w \<Rightarrow> 'w qBSlave \<times> 'w" where
  "QBSlaveSetState q st w =
     (let q = q\<lparr>qBState := st\<rparr> in
      case st of
        QBS_IDLE \<Rightarrow> (q\<lparr>recvByteCount := 0\<rparr>, EnableTxRx q QB_DISABLE QB_ENABLE w)
      | QBS_FRAME_RCV \<Rightarrow> (q, w)
      | QBS_SEND_FRAME \<Rightarrow> (q\<lparr>sentByteCount := 0\<rparr>, EnableTxRx q QB_ENABLE QB_DISABLE w)
      | QBS_STOP \<Rightarrow> (q\<lparr>sentByteCount := 0, recvByteCount := 0\<rparr>, EnableTxRx q QB_DISABLE QB_DISABLE w)
      | QBS_INIT \<Rightarrow> (q, w))"

definition QBSlaveValidateFrame :: "'w qBSlave \<Rightarrow> u8 option" where
  "QBSlaveValidateFrame q =
     (if recvByteCount q < QB_FRAME_MIN_LEN then Some 0
      else do {
        c \<leftarrow> Crc16Get (frameBuffer q) (recvByteCount q);
        Some (if c = 0 then 1 else 0)
      })"

text \<open>The tag, battery and charger bytes every read request carries.\<close>

definition read_uid :: "bytes \<Rightarrow> string option" where
  "read_uid fb = do {
     b0 \<leftarrow> rd fb 5; b1 \<leftarrow> rd fb 6; b2 \<leftarrow> rd fb 7; b3 \<leftarrow> rd fb 8;
     b4 \<leftarrow> rd fb 9; b5 \<leftarrow> rd fb 10; b6 \<leftarrow> rd fb 11; b7 \<leftarrow> rd fb 12;
     Some (concat (map printf_02X [b0, b1, b2, b3, b4, b5, b6, b7]))
   }"

definition tag_update :: "inputs \<Rightarrow> 'j world \<Rightarrow> 'j world option" where
  "tag_update inp w =
     (if cstr (tagUid_qbus (glob w)) = ''0000000000000000'' then do {
        w1 \<leftarrow> (if tagPresentFlag_qbus (glob w) = 1 then resetToy (now inp) (el inp) w else Some w);
        Some (on_glob (\<lambda>g. g\<lparr>tagPresentFlag_qbus := 0\<rparr>) w1)
      } else do {
        w1 \<leftarrow> (if tagPresentFlag_qbus (glob w) = 0 \<or>
                 take 16 (cstr (previousTagUid (glob w))) \<noteq> take 16 (cstr (tagUid_qbus (glob w)))
              then do {
                pt \<leftarrow> strncpy (previousTagUid (glob w)) (tagUid_qbus (glob w)) 16;
                s \<leftarrow> setToy (tagUid_qbus (glob w)) (sys w);
                Some (on_glob (\<lambda>g. g\<lparr>previousTagUid := pt\<rparr>) (w\<lparr>sys := s\<rparr>))
              } else Some w);
        Some (on_glob (\<lambda>g. g\<lparr>tagPresentFlag_qbus := 1\<rparr>) w1)
      })"

definition tag_process :: "inputs \<Rightarrow> bytes \<Rightarrow> 'j world \<Rightarrow> 'j world option" where
  "tag_process inp fb w = do {
     txt \<leftarrow> read_uid fb;
     uid \<leftarrow> strcpy (tagUid_qbus (glob w)) txt;
     batteryVolts \<leftarrow> rd fb 13;
     chargingSt \<leftarrow> rd fb 14;
     tag_update inp
       (on_sys (\<lambda>s. setChargingStatus chargingSt (setBatteryLevel batteryVolts s))
         (on_glob (\<lambda>g. g\<lparr>tagUid_qbus := uid\<rparr>) w))
   }"

text \<open>The reply: what to send and how many bytes, before the checksum.\<close>

definition process_command ::
  "inputs \<Rightarrow> 'j world qBSlave \<Rightarrow> 'j world \<Rightarrow> (bytes \<times> nat \<times> 'j world) option" where
  "process_command inp q w = do {
     let fb = frameBuffer q;
     functionCode \<leftarrow> rd fb 0;
     ah \<leftarrow> rd fb 1; al \<leftarrow> rd fb 2;
     lh \<leftarrow> rd fb 3; ll \<leftarrow> rd fb 4;
     let address = be16 ah al;
     let regLen = be16 lh ll;
     if functionCode = QB_REG_READ_CMD then do {
       w1 \<leftarrow> tag_process inp fb w;
       (retCode, regData, w2) \<leftarrow> ReadRegCb q inp address regLen (drop QB_FRAME_REG_DATA_INDEX fb) w1;
       let fb1 = take QB_FRAME_REG_DATA_INDEX fb @ regData;
       if retCode = QB_REG_SUCCESS then Some (fb1, u16_wrap (5 + regLen), w2)
       else do {
         fb2 \<leftarrow> wr fb1 0 (QB_ERR_CODE OR functionCode);
         fb3 \<leftarrow> wr fb2 5 (ret_code retCode);
         Some (fb3, 6, w2)
       }
     } else if functionCode = QB_REG_WRITE_CMD then do {
       (retCode, regData, w2) \<leftarrow> WriteRegCb q inp address regLen (drop QB_FRAME_REG_DATA_INDEX fb) w;
       let fb1 = take QB_FRAME_REG_DATA_INDEX fb @ regData;
       fb2 \<leftarrow> (if retCode \<noteq> QB_REG_SUCCESS then wr fb1 0 (QB_ERR_CODE OR functionCode) else Some fb1);
       fb3 \<leftarrow> wr fb2 5 (ret_code retCode);
       Some (fb3, 6, w2)
     } else do {
       fb2 \<leftarrow> wr fb 0 QB_ERR_CODE;
       fb3 \<leftarrow> wr fb2 5 (ret_code QB_REG_ERR_FUNC_CODE);
       Some (fb3, 6, w)
     }
   }"

definition QBSlaveProcessFrame ::
  "inputs \<Rightarrow> 'j world qBSlave \<Rightarrow> 'j world \<Rightarrow> ('j world qBSlave \<times> 'j world) option" where
  "QBSlaveProcessFrame inp q w = do {
     (fb, total, w1) \<leftarrow> process_command inp q w;
     checksum \<leftarrow> Crc16Get fb total;
     fb1 \<leftarrow> wr fb total (ucast (checksum AND 0x00ff));
     fb2 \<leftarrow> wr fb1 (u16_wrap (total + 1)) (ucast (drop_bit 8 checksum));
     Some (q\<lparr>frameBuffer := fb2, totalByteToSend := u16_wrap (total + 2)\<rparr>, w1)
   }"

fun tx_loop :: "nat \<Rightarrow> 'w qBSlave \<Rightarrow> 'w \<Rightarrow> ('w qBSlave \<times> 'w) option" where
  "tx_loop 0 q w = Some (q, w)"
| "tx_loop (Suc n) q w =
     (if sentByteCount q < framBuffLen q then do {
        b \<leftarrow> rd (frameBuffer q) (sentByteCount q);
        tx_loop n (q\<lparr>sentByteCount := u16_wrap (sentByteCount q + 1), totalByteToSend := n\<rparr>)
          (TransmitChar q b w)
      } else tx_loop n (q\<lparr>totalByteToSend := n\<rparr>) w)"

definition QBSlavePortTxEmptyIsr :: "'w qBSlave \<Rightarrow> 'w \<Rightarrow> ('w qBSlave \<times> 'w) option" where
  "QBSlavePortTxEmptyIsr q w =
     (if totalByteToSend q > 0 then tx_loop (totalByteToSend q) q w
      else Some (QBSlaveSetState q QBS_IDLE w))"

definition QBSlavePoll ::
  "inputs \<Rightarrow> 'j world qBSlave \<Rightarrow> 'j world \<Rightarrow> ('j world qBSlave \<times> 'j world) option" where
  "QBSlavePoll inp q w =
     (case qBState q of
        QBS_IDLE \<Rightarrow>
          (if recvByteCount q \<ge> 1 then do {
             b \<leftarrow> rd (frameBuffer q) 0;
             Some (if b = 0x01 \<or> b = 0x02 then QBSlaveSetState q QBS_FRAME_RCV w
                   else QBSlaveSetState q QBS_IDLE w)
           } else Some (q, w))
      | QBS_FRAME_RCV \<Rightarrow>
          (if elapsed (now inp) (timeOutStartTick q) QB_FRAME_TIMEOUT_MS then do {
             let w1 = EnableTxRx q QB_DISABLE QB_DISABLE w;
             ok \<leftarrow> QBSlaveValidateFrame q;
             if ok = 1 then do {
               (q2, w2) \<leftarrow> QBSlaveProcessFrame inp q w1;
               Some (QBSlaveSetState q2 QBS_SEND_FRAME w2)
             } else Some (QBSlaveSetState q QBS_IDLE w1)
           } else Some (q, w))
      | QBS_SEND_FRAME \<Rightarrow> QBSlavePortTxEmptyIsr q w
      | _ \<Rightarrow> Some (q, w))"

definition QBSlavePortByteReceived :: "u32 \<Rightarrow> u8 \<Rightarrow> 'w qBSlave \<Rightarrow> 'w qBSlave option" where
  "QBSlavePortByteReceived t byte q = do {
     let q1 = (if recvByteCount q < framBuffLen q then q
               else q\<lparr>recvByteCount := framBuffLen q - 1\<rparr>);
     fb \<leftarrow> wr (frameBuffer q1) (recvByteCount q1) byte;
     Some (q1\<lparr>frameBuffer := fb, recvByteCount := u16_wrap (recvByteCount q1 + 1),
             timeOutStartTick := t\<rparr>)
   }"

definition QBSlaveStart :: "'w qBSlave \<Rightarrow> 'w \<Rightarrow> 'w qBSlave \<times> 'w" where
  "QBSlaveStart q w = QBSlaveSetState q QBS_IDLE w"

definition QBSlaveStop :: "'w qBSlave \<Rightarrow> 'w \<Rightarrow> 'w qBSlave \<times> 'w" where
  "QBSlaveStop q w = QBSlaveSetState q QBS_STOP w"

end
