(* ===== verification/Iot_Qbus.thy ===== *)
theory Iot_Qbus
  imports Qbus_Slave
begin

text \<open>
  The registers behind the bus, \<^verbatim>\<open>src/main/src/iot_qbus.cpp\<close>, and its UART port,
  \<^verbatim>\<open>src/main/src/iot_qbus_port.cpp\<close>. Writes at eight register addresses drive the player
  and the system object; reads at 0x1000 return eleven bytes of LED and power state.
  \<^verbatim>\<open>IotQbusSendByte\<close> hands a byte to the UART driver (a recorded call);
  \<^verbatim>\<open>IotQbusInterruptEnable\<close> has an empty body.
\<close>

section \<open>The port\<close>

definition IotQbusSendByte :: "u8 \<Rightarrow> 'j world \<Rightarrow> 'j world" where
  "IotQbusSendByte b w = call (Uart_write b) w"

definition IotQbusInterruptEnable :: "u8 \<Rightarrow> u8 \<Rightarrow> 'j world \<Rightarrow> 'j world" where
  "IotQbusInterruptEnable xTxEnable xRxEnable w = w"

fun uart_data :: "u32 \<Rightarrow> bytes \<Rightarrow> 'w qBSlave \<Rightarrow> 'w qBSlave option" where
  "uart_data t [] q = Some q"
| "uart_data t (b # bs) q = do { q1 \<leftarrow> QBSlavePortByteReceived t b q; uart_data t bs q1 }"

section \<open>Register maps\<close>

definition in_range :: "nat \<Rightarrow> nat \<Rightarrow> nat \<Rightarrow> nat \<Rightarrow> bool" where
  "in_range start num address len = (address \<ge> start \<and> address + len \<le> start + num)"

definition UpdateDataBuffer :: "'j world \<Rightarrow> bytes \<Rightarrow> bytes option" where
  "UpdateDataBuffer w d = do {
     l0 \<leftarrow> getLeftEarColor (led w) 0; l1 \<leftarrow> getLeftEarColor (led w) 1; l2 \<leftarrow> getLeftEarColor (led w) 2;
     r0 \<leftarrow> getRightEarColor (led w) 0; r1 \<leftarrow> getRightEarColor (led w) 1; r2 \<leftarrow> getRightEarColor (led w) 2;
     p0 \<leftarrow> getLandingPadColor (led w) 0; p1 \<leftarrow> getLandingPadColor (led w) 1; p2 \<leftarrow> getLandingPadColor (led w) 2;
     wr_block d 0 [pad_code (getPadState (led w)), l0, l1, l2, r0, r1, r2, p0, p1, p2,
       getPowerStatus (sys w)]
   }"

fun copy_regs :: "nat \<Rightarrow> nat \<Rightarrow> bytes \<Rightarrow> nat \<Rightarrow> bytes \<Rightarrow> bytes option" where
  "copy_regs 0 index buf k regData = Some regData"
| "copy_regs (Suc len) index buf k regData = do {
     v \<leftarrow> rd buf index;
     regData1 \<leftarrow> wr regData k v;
     copy_regs len (Suc index) buf (Suc k) regData1
   }"

definition QbusRegReadCb :: "'j world RegCb" where
  "QbusRegReadCb inp address len regData w =
     (if in_range 0x1000 11 address len then do {
        let index = address - 0x1000;
        buf \<leftarrow> UpdateDataBuffer w (qbusDataBuff (glob w));
        regData1 \<leftarrow> copy_regs len index buf 0 regData;
        Some (QB_REG_SUCCESS, regData1, on_glob (\<lambda>g. g\<lparr>qbusDataBuff := buf\<rparr>) w)
      } else Some (QB_REG_ERR_ADDR, regData, w))"

definition QbusRegWriteCb :: "'j world RegCb" where
  "QbusRegWriteCb inp address len regData w =
     (if in_range 0x3000 1 address len then do {
        d \<leftarrow> rd regData 0;
        w1 \<leftarrow> (if d = 2 then decVolume (el inp) w
              else if d = 1 then incVolume (el inp) w else Some w);
        Some (QB_REG_SUCCESS, regData, w1)
      }
      else if in_range 0x4000 1 address len then
        Some (QB_REG_SUCCESS, regData,
          if tagPresentFlag_qbus (glob w) \<noteq> 0 then playPauseToggle (el inp) w else w)
      else if in_range 0x5000 1 address len then do {
        d \<leftarrow> rd regData 0;
        Some (QB_REG_SUCCESS, regData,
          if d = 2 then Player_previous (now inp) w
          else if d = 1 then Player_next (now inp) w else w)
      }
      else if in_range 0x7000 1 address len then do {
        d \<leftarrow> rd regData 0;
        Some (QB_REG_SUCCESS, regData,
          if d = 1 then skipQuestion (el inp) (on_sys (setLeftEarButton True) w)
          else if d = 2 then skipQuestion (el inp) (on_sys (setRightEarButton True) w) else w)
      }
      else if in_range 0x8000 1 address len then do {
        d \<leftarrow> rd regData 0;
        Some (QB_REG_SUCCESS, regData, on_sys (setChargingStatus (if d = 0 then 0 else 1)) w)
      }
      else if in_range 0x9000 1 address len then do {
        d \<leftarrow> rd regData 0;
        Some (QB_REG_SUCCESS, regData, on_sys (setBatteryLevel d) w)
      }
      else if in_range 0xA000 1 address len then do {
        d \<leftarrow> rd regData 0;
        Some (QB_REG_SUCCESS, regData, on_sys (setTurnTable d) w)
      }
      else Some (QB_REG_ERR_ADDR, regData, w))"

definition QbusInit :: "inputs \<Rightarrow> 'j world \<Rightarrow> 'j world qBSlave \<times> 'j world" where
  "QbusInit inp w =
     (let (q, w1) = QBSlaveInit inp (replicate 100 0) 100 IotQbusSendByte IotQbusInterruptEnable
                      QbusRegReadCb QbusRegWriteCb w
      in QBSlaveStart q w1)"

definition QbusHandler ::
  "inputs \<Rightarrow> 'j world qBSlave \<Rightarrow> 'j world \<Rightarrow> ('j world qBSlave \<times> 'j world) option" where
  "QbusHandler inp q w = QBSlavePoll inp q w"

section \<open>The invariant of the slave\<close>

definition slave_ok :: "'w qBSlave \<Rightarrow> bool" where
  "slave_ok q \<longleftrightarrow> length (frameBuffer q) = 100 \<and> framBuffLen q = 100 \<and> recvByteCount q \<le> 100 \<and>
     totalByteToSend q \<le> 18"

definition wired :: "'j world RegCb \<Rightarrow> 'j world RegCb \<Rightarrow> 'j world qBSlave \<Rightarrow> bool" where
  "wired read_cb write_cb q \<longleftrightarrow> ReadRegCb q = read_cb \<and> WriteRegCb q = write_cb \<and>
     TransmitChar q = IotQbusSendByte \<and> EnableTxRx q = IotQbusInterruptEnable"

lemma slave_ok_received:
  assumes "slave_ok q"
  shows "\<exists>q'. QBSlavePortByteReceived t b q = Some q' \<and> slave_ok q' \<and>
    (wired rcb wcb q \<longrightarrow> wired rcb wcb q')"
  using assms by (auto simp: slave_ok_def QBSlavePortByteReceived_def wired_def Let_def)

lemma slave_ok_SetState:
  assumes "slave_ok q" "wired rcb wcb q"
  obtains q' where "QBSlaveSetState q st w = (q', w)" "slave_ok q'" "wired rcb wcb q'" "qBState q' = st"
  using assms
  by (cases st) (simp_all add: slave_ok_def QBSlaveSetState_def wired_def IotQbusInterruptEnable_def)

section \<open>What the callbacks promise the slave\<close>

text \<open>
  The contract between the slave and the register callbacks. \<open>inv\<close> is the invariant of the
  shared state; both callbacks are total on a buffer of at least ten bytes, keep the invariant
  and the size of the buffer, and a read is granted for at most eleven registers, so that the
  reply and its checksum fit the frame buffer.
\<close>

locale register_callbacks =
  fixes inv :: "'j world \<Rightarrow> bool"
    and read_cb :: "'j world RegCb"
    and write_cb :: "'j world RegCb"
  assumes read_ok: "\<lbrakk>inv w; 11 \<le> length d\<rbrakk> \<Longrightarrow>
      \<exists>rc d' w'. read_cb inp a n d w = Some (rc, d', w') \<and> length d' = length d \<and> inv w' \<and>
        (rc = QB_REG_SUCCESS \<longrightarrow> n \<le> 11)"
    and write_ok: "\<lbrakk>inv w; 11 \<le> length d\<rbrakk> \<Longrightarrow>
      \<exists>rc d' w'. write_cb inp a n d w = Some (rc, d', w') \<and> length d' = length d \<and> inv w'"
    and inv_call: "inv w \<Longrightarrow> inv (call c w)"
    and tag_ok: "\<lbrakk>inv w; 15 \<le> length fb\<rbrakk> \<Longrightarrow> \<exists>w'. tag_process inp fb w = Some w' \<and> inv w'"
begin

lemma process_command_safe:
  assumes "inv w" "length (frameBuffer q) = 100" "ReadRegCb q = read_cb" "WriteRegCb q = write_cb"
  shows "\<exists>fb n w'. process_command inp q w = Some (fb, n, w') \<and> length fb = 100 \<and>
    5 \<le> n \<and> n \<le> 16 \<and> inv w'"
proof -
  let ?fb = "frameBuffer q"
  let ?a = "be16 (?fb ! 1) (?fb ! 2)" and ?n = "be16 (?fb ! 3) (?fb ! 4)"
  have d: "11 \<le> length (drop 5 ?fb)" using assms(2) by simp
  consider (is_read) "?fb ! 0 = 1" | (is_write) "?fb ! 0 = 2" | (other) "?fb ! 0 \<noteq> 1" "?fb ! 0 \<noteq> 2"
    by blast
  then show ?thesis
  proof cases
    case is_read
    obtain w1 where w1: "tag_process inp ?fb w = Some w1" "inv w1"
      using tag_ok [OF assms(1), of ?fb inp] assms(2) by auto
    obtain rc d' w2 where r: "read_cb inp ?a ?n (drop 5 ?fb) w1 = Some (rc, d', w2)"
      "length d' = 95" "inv w2" "rc = QB_REG_SUCCESS \<longrightarrow> ?n \<le> 11"
      using read_ok [OF w1(2) d, of inp ?a ?n] assms(2) by auto
    show ?thesis
      using is_read w1 r assms
      by (cases "rc = QB_REG_SUCCESS") (simp_all add: process_command_def Let_def)
  next
    case is_write
    obtain rc d' w2 where r: "write_cb inp ?a ?n (drop 5 ?fb) w = Some (rc, d', w2)"
      "length d' = 95" "inv w2"
      using write_ok [OF assms(1) d, of inp ?a ?n] assms(2) by auto
    show ?thesis
      using is_write r assms
      by (cases "rc = QB_REG_SUCCESS") (simp_all add: process_command_def Let_def)
  next
    case other
    then show ?thesis
      using assms by (simp add: process_command_def Let_def)
  qed
qed

lemma process_frame_safe:
  assumes "inv w" "slave_ok q" "wired read_cb write_cb q"
  shows "\<exists>q' w'. QBSlaveProcessFrame inp q w = Some (q', w') \<and> slave_ok q' \<and>
    wired read_cb write_cb q' \<and> inv w' \<and> 7 \<le> totalByteToSend q' \<and>
    Crc16Get (frameBuffer q') (totalByteToSend q') = Some 0"
proof -
  obtain fb n w1 where c: "process_command inp q w = Some (fb, n, w1)" and fb: "length fb = 100"
    and n: "5 \<le> n" "n \<le> 16" and w1: "inv w1"
    using process_command_safe [OF assms(1), of q inp] assms(2,3) by (auto simp: slave_ok_def wired_def)
  let ?s = "foldl crc_byte 0xFFFF (take n fb)"
  have s: "Crc16Get fb n = Some ?s"
    using fb n by (simp add: Crc16Get_foldl)
  let ?fb' = "fb[n := crc_lo ?s, Suc n := crc_hi ?s]"
  have "take (n + 2) ?fb' = take n fb @ [crc_lo ?s, crc_hi ?s]"
    using fb n take_list_update_Suc [of "Suc n" "fb[n := crc_lo ?s]"] take_list_update_Suc [of n fb]
    by simp
  then have "Crc16Get ?fb' (n + 2) = Some 0"
    using fb n foldl_crc_residue [of "0xFFFF" "take n fb"] by (simp add: Crc16Get_foldl)
  moreover have "QBSlaveProcessFrame inp q w =
      Some (q\<lparr>frameBuffer := ?fb', totalByteToSend := n + 2\<rparr>, w1)"
    using c s fb n by (simp add: QBSlaveProcessFrame_def crc_lo_def crc_hi_def)
  ultimately show ?thesis
    using assms(2,3) fb n w1 by (simp add: slave_ok_def wired_def)
qed

lemma tx_loop_safe:
  assumes "inv w" "slave_ok q" "wired read_cb write_cb q" "n \<le> 18"
  shows "\<exists>q' w'. tx_loop n q w = Some (q', w') \<and> slave_ok q' \<and> wired read_cb write_cb q' \<and> inv w'"
  using assms
proof (induction n arbitrary: q w)
  case 0
  then show ?case by simp
next
  case (Suc n)
  let ?q = "q\<lparr>sentByteCount := u16_wrap (sentByteCount q + 1), totalByteToSend := n\<rparr>"
  have ok: "slave_ok ?q" "wired read_cb write_cb ?q"
    "slave_ok (q\<lparr>totalByteToSend := n\<rparr>)" "wired read_cb write_cb (q\<lparr>totalByteToSend := n\<rparr>)"
    using Suc.prems by (simp_all add: slave_ok_def wired_def)
  have inv: "inv (TransmitChar q (frameBuffer q ! sentByteCount q) w)"
    using Suc.prems inv_call by (simp add: wired_def IotQbusSendByte_def)
  show ?case
    using Suc.IH [OF inv ok(1,2)] Suc.IH [OF Suc.prems(1) ok(3,4)] Suc.prems
    by (auto simp: slave_ok_def)
qed

lemma poll_safe:
  assumes "inv w" "slave_ok q" "wired read_cb write_cb q"
  shows "\<exists>q' w'. QbusHandler inp q w = Some (q', w') \<and> slave_ok q' \<and> wired read_cb write_cb q' \<and> inv w'"
proof (cases "qBState q")
  case QBS_IDLE
  obtain q1 where q1: "QBSlaveSetState q QBS_IDLE w = (q1, w)" "slave_ok q1" "wired read_cb write_cb q1"
    by (rule slave_ok_SetState [OF assms(2,3), of QBS_IDLE w])
  obtain q2 where q2: "QBSlaveSetState q QBS_FRAME_RCV w = (q2, w)" "slave_ok q2" "wired read_cb write_cb q2"
    by (rule slave_ok_SetState [OF assms(2,3), of QBS_FRAME_RCV w])
  show ?thesis
    using QBS_IDLE assms q1 q2 by (auto simp: QbusHandler_def QBSlavePoll_def slave_ok_def)
next
  case QBS_FRAME_RCV
  have v: "\<exists>r. QBSlaveValidateFrame q = Some r"
    using assms(2) by (auto simp: QBSlaveValidateFrame_def slave_ok_def Crc16Get_foldl)
  obtain q2 w2 where p: "QBSlaveProcessFrame inp q w = Some (q2, w2)" "slave_ok q2"
    "wired read_cb write_cb q2" "inv w2"
    using process_frame_safe [OF assms] by blast
  obtain q1 where q1: "QBSlaveSetState q QBS_IDLE w = (q1, w)" "slave_ok q1" "wired read_cb write_cb q1"
    by (rule slave_ok_SetState [OF assms(2,3), of QBS_IDLE w])
  obtain q3 where q3: "QBSlaveSetState q2 QBS_SEND_FRAME w2 = (q3, w2)" "slave_ok q3" "wired read_cb write_cb q3"
    by (rule slave_ok_SetState [OF p(2,3), of QBS_SEND_FRAME w2])
  have e: "EnableTxRx q a b w = w" for a b
    using assms(3) by (simp add: wired_def IotQbusInterruptEnable_def)
  show ?thesis
    using QBS_FRAME_RCV v p assms q1 q3 by (auto simp: QbusHandler_def QBSlavePoll_def e)
next
  case QBS_SEND_FRAME
  obtain q1 where q1: "QBSlaveSetState q QBS_IDLE w = (q1, w)" "slave_ok q1" "wired read_cb write_cb q1"
    by (rule slave_ok_SetState [OF assms(2,3), of QBS_IDLE w])
  show ?thesis
    using QBS_SEND_FRAME assms q1 tx_loop_safe [OF assms, of "totalByteToSend q"]
    by (auto simp: QbusHandler_def QBSlavePoll_def QBSlavePortTxEmptyIsr_def slave_ok_def)
qed (use assms in \<open>auto simp: QbusHandler_def QBSlavePoll_def\<close>)

end

section \<open>The device's registers keep the contract\<close>

definition bus_ok :: "'j world \<Rightarrow> bool" where
  "bus_ok w \<longleftrightarrow> led_wf (led w) \<and> length (qbusDataBuff (glob w)) = 20 \<and>
     length (tagUid_qbus (glob w)) = 20 \<and> length (previousTagUid (glob w)) = 20 \<and>
     length (cstr (toy (sys w))) < 20 \<and> fopen_w (sd w) VOLUME_SDCARD_LOCATION"

lemma bus_ok_frame:
  "bus_ok w \<Longrightarrow> led w' = led w \<Longrightarrow> glob w' = glob w \<Longrightarrow> toy (sys w') = toy (sys w) \<Longrightarrow>
   (\<And>p. fopen_w (sd w') p = fopen_w (sd w) p) \<Longrightarrow> bus_ok w'"
  by (simp add: bus_ok_def)

lemma bus_ok_call [simp]: "bus_ok (call c w) = bus_ok w" "bus_ok (call_all cs w) = bus_ok w"
  by (simp_all add: bus_ok_def on_defs)

lemma bus_ok_setState [simp]: "bus_ok (set_state t st w) = bus_ok w"
  by (simp add: bus_ok_def sys_setters on_defs Let_def)

lemma bus_ok_volume:
  assumes "bus_ok w"
  shows "\<exists>w'. incVolume e w = Some w' \<and> bus_ok w'" and "\<exists>w'. decVolume e w = Some w' \<and> bus_ok w'"
  using assms
  by (simp_all add: incVolume_def decVolume_def Let_def writeVolume_def apply_volume_def bus_ok_def
      on_defs)

lemma bus_ok_player [simp]:
  "bus_ok w \<Longrightarrow> bus_ok (playPauseToggle e w)"
  "bus_ok w \<Longrightarrow> bus_ok (Player_previous t w)"
  "bus_ok w \<Longrightarrow> bus_ok (Player_next t w)"
  "bus_ok w \<Longrightarrow> bus_ok (skipQuestion e w)"
  by (simp_all add: playPauseToggle_def Player_previous_def Player_next_def skipQuestion_def
      SkipCurrentAudio_def)

lemma bus_ok_sys_setters [simp]:
  "bus_ok w \<Longrightarrow> bus_ok (on_sys (setLeftEarButton b) w)"
  "bus_ok w \<Longrightarrow> bus_ok (on_sys (setRightEarButton b) w)"
  "bus_ok w \<Longrightarrow> bus_ok (on_sys (setChargingStatus v) w)"
  "bus_ok w \<Longrightarrow> bus_ok (on_sys (setBatteryLevel v) w)"
  "bus_ok w \<Longrightarrow> bus_ok (on_sys (setTurnTable v) w)"
  by (simp_all add: bus_ok_def sys_setters on_defs)

lemma UpdateDataBuffer_ok:
  assumes "led_wf (led w)" "11 \<le> length d"
  shows "UpdateDataBuffer w d = Some ([pad_code (padState (led w))] @ leftEarColor (led w) @
    rightEarColor (led w) @ padColor (led w) @ [powerState (sys w)] @ drop 11 d)"
proof -
  have three: "[xs ! 0, xs ! 1, xs ! 2] = xs" if "length xs = 3" for xs :: "u8 list"
    using that by (auto simp: numeral_3_eq_3 length_Suc_conv)
  show ?thesis
    using assms three [of "leftEarColor (led w)"] three [of "rightEarColor (led w)"]
      three [of "padColor (led w)"]
    by (simp add: UpdateDataBuffer_def led_getters led_wf_def getPadState_def getPowerStatus_def
        numeral_3_eq_3 length_Suc_conv) (auto simp: eval_nat_numeral)
qed

lemma copy_regs_ok:
  "index + len \<le> length buf \<Longrightarrow> k + len \<le> length regData \<Longrightarrow>
   copy_regs len index buf k regData =
     Some (take k regData @ take len (drop index buf) @ drop (k + len) regData)"
proof (induction len arbitrary: index k regData)
  case 0
  then show ?case by simp
next
  case (Suc len)
  have "take (Suc k) (regData[k := buf ! index]) = take k regData @ [buf ! index]"
    using Suc.prems by (intro take_list_update_Suc) simp
  moreover have "take (Suc len) (drop index buf) = buf ! index # take len (drop (Suc index) buf)"
    using Suc.prems by (simp add: take_Suc_Cons Cons_nth_drop_Suc [symmetric])
  ultimately show ?case
    using Suc by simp
qed

lemma read_cb_ok:
  assumes "bus_ok w" "11 \<le> length d"
  shows "\<exists>rc d' w'. QbusRegReadCb inp a n d w = Some (rc, d', w') \<and> length d' = length d \<and> bus_ok w' \<and>
    (rc = QB_REG_SUCCESS \<longrightarrow> n \<le> 11)"
proof (cases "in_range 0x1000 11 a n")
  case True
  then have n: "a - 0x1000 + n \<le> 11" "n \<le> 11" by (auto simp: in_range_def)
  define buf where "buf = [pad_code (padState (led w))] @ leftEarColor (led w) @
    rightEarColor (led w) @ padColor (led w) @ [powerState (sys w)] @ drop 11 (qbusDataBuff (glob w))"
  have buf: "UpdateDataBuffer w (qbusDataBuff (glob w)) = Some buf" "length buf = 20"
    using assms(1) by (simp_all add: bus_ok_def UpdateDataBuffer_ok buf_def led_wf_def)
  have "copy_regs n (a - 0x1000) buf 0 d = Some (take n (drop (a - 0x1000) buf) @ drop n d)"
    using n buf(2) assms(2) by (simp add: copy_regs_ok)
  then show ?thesis
    using True n buf assms by (simp add: QbusRegReadCb_def bus_ok_def on_glob_def)
next
  case False
  then show ?thesis using assms by (simp add: QbusRegReadCb_def)
qed

lemma write_cb_ok:
  assumes "bus_ok w" "11 \<le> length d"
  shows "\<exists>rc d' w'. QbusRegWriteCb inp a n d w = Some (rc, d', w') \<and> length d' = length d \<and> bus_ok w'"
proof -
  obtain wi wd where v: "incVolume (el inp) w = Some wi" "bus_ok wi"
    "decVolume (el inp) w = Some wd" "bus_ok wd"
    using bus_ok_volume [OF assms(1)] by metis
  have d: "rd d 0 = Some (d ! 0)" using assms(2) by (intro rd_in) linarith
  show ?thesis
    using assms(1) v by (simp add: QbusRegWriteCb_def d)
qed

lemma read_uid_ok:
  assumes "15 \<le> length fb"
  shows "\<exists>ut. read_uid fb = Some ut \<and> length ut = 16 \<and> nul_free ut"
  using assms by (simp add: read_uid_def)

lemma tag_ok:
  assumes "bus_ok w" "15 \<le> length fb"
  shows "\<exists>w'. tag_process inp fb w = Some w' \<and> bus_ok w'"
proof -
  obtain ut where ut: "read_uid fb = Some ut" "length ut = 16" "nul_free ut"
    using read_uid_ok [OF assms(2)] by blast
  obtain uid where uid: "strcpy (tagUid_qbus (glob w)) ut = Some uid"
    using assms(1) ut by (cases "strcpy (tagUid_qbus (glob w)) ut")
      (auto simp: strcpy_eq_None_iff bus_ok_def)
  have lu: "length uid = 20" "cstr uid = ut"
    using uid assms(1) ut by (auto dest: length_strcpy cstr_strcpy simp: bus_ok_def)
  define w1 where "w1 = on_sys (\<lambda>s. setChargingStatus (fb ! 14) (setBatteryLevel (fb ! 13) s))
    (on_glob (\<lambda>g. g\<lparr>tagUid_qbus := uid\<rparr>) w)"
  have w1: "bus_ok w1" "tagUid_qbus (glob w1) = uid"
    using assms(1) lu by (simp_all add: w1_def bus_ok_def on_defs sys_setters)
  have t20: "length (cstr (toy (sys w1))) < 20" using w1 by (simp add: bus_ok_def)
  obtain w2 where w2: "resetToy (now inp) (el inp) w1 = Some w2" "bus_ok w2"
    using w1(1) t20
    by (simp add: resetToy_def ToyRemoved_def PauseCurrentAudio_def strcpy_zeros on_defs
        sys_setters Let_def bus_ok_def)
  have pt: "\<exists>pt. strncpy (previousTagUid (glob w1)) uid 16 = Some pt \<and> length pt = 20"
    using w1(1) lu ut by (simp add: strncpy_def bus_ok_def)
  have "\<exists>w'. tag_update inp w1 = Some w' \<and> bus_ok w'"
    using w1 w2 pt lu ut
    by (auto simp: tag_update_def setToy_def strcpy_zeros bus_ok_def on_defs)
  moreover have "tag_process inp fb w = tag_update inp w1"
    using ut uid assms(2) by (simp add: tag_process_def w1_def)
  ultimately show ?thesis by simp
qed

interpretation device: register_callbacks bus_ok QbusRegReadCb QbusRegWriteCb
  by unfold_locales (simp_all only: read_cb_ok write_cb_ok bus_ok_call tag_ok)

section \<open>Runs of the bus\<close>

text \<open>
  The UART task delivers bytes, the bus task polls, and the other tasks change the shared state
  in between; each is one step. The other tasks are only known to keep \<open>bus_ok\<close>.
\<close>

type_synonym 'j bus = "'j world qBSlave \<times> 'j world"

inductive bus_step :: "'j bus \<Rightarrow> 'j bus \<Rightarrow> bool" where
  receive: "QBSlavePortByteReceived t b q = Some q' \<Longrightarrow> bus_step (q, w) (q', w)"
| poll: "QbusHandler inp q w = Some (q', w') \<Longrightarrow> bus_step (q, w) (q', w')"
| other_task: "bus_ok w' \<Longrightarrow> bus_step (q, w) (q, w')"

inductive bus_reach :: "'j bus \<Rightarrow> bool" where
  start: "bus_ok w \<Longrightarrow> bus_reach (QbusInit inp w)"
| step: "bus_reach c \<Longrightarrow> bus_step c c' \<Longrightarrow> bus_reach c'"

definition bus_inv :: "'j bus \<Rightarrow> bool" where
  "bus_inv c \<longleftrightarrow> slave_ok (fst c) \<and> wired QbusRegReadCb QbusRegWriteCb (fst c) \<and> bus_ok (snd c)"

inductive_cases bus_stepE: "bus_step c c'"

lemma bus_inv_init: "bus_ok w \<Longrightarrow> bus_inv (QbusInit inp w)"
  by (simp add: bus_inv_def QbusInit_def QBSlaveInit_def QBSlaveStart_def QBSlaveSetState_def
      slave_ok_def wired_def IotQbusInterruptEnable_def)

lemma bus_inv_step: "bus_step c c' \<Longrightarrow> bus_inv c \<Longrightarrow> bus_inv c'"
proof (induction rule: bus_step.induct)
  case (receive t b q q' w)
  then show ?case
    using slave_ok_received [of q t b QbusRegReadCb QbusRegWriteCb] by (auto simp: bus_inv_def)
next
  case (poll inp q w q' w')
  then show ?case
    using device.poll_safe [of w q inp] by (auto simp: bus_inv_def)
next
  case (other_task w' q w)
  then show ?case by (simp add: bus_inv_def)
qed

lemma bus_reach_inv: "bus_reach c \<Longrightarrow> bus_inv c"
  by (induction rule: bus_reach.induct) (auto intro: bus_inv_init bus_inv_step)

section \<open>One transaction\<close>

lemma uart_data_ok:
  "slave_ok q \<Longrightarrow> recvByteCount q + length bs \<le> 100 \<Longrightarrow>
   uart_data t bs q = Some (if bs = [] then q else
     q\<lparr>frameBuffer := take (recvByteCount q) (frameBuffer q) @ bs @
         drop (recvByteCount q + length bs) (frameBuffer q),
       recvByteCount := recvByteCount q + length bs, timeOutStartTick := t\<rparr>)"
proof (induction bs arbitrary: q)
  case Nil
  then show ?case by simp
next
  case (Cons b bs)
  let ?q = "q\<lparr>frameBuffer := (frameBuffer q)[recvByteCount q := b],
    recvByteCount := recvByteCount q + 1, timeOutStartTick := t\<rparr>"
  have "QBSlavePortByteReceived t b q = Some ?q"
    using Cons.prems by (simp add: QBSlavePortByteReceived_def slave_ok_def)
  moreover have "slave_ok ?q"
    using Cons.prems by (simp add: slave_ok_def)
  moreover have "take (Suc (recvByteCount q)) ((frameBuffer q)[recvByteCount q := b]) =
      take (recvByteCount q) (frameBuffer q) @ [b]"
    using Cons.prems by (intro take_list_update_Suc) (simp add: slave_ok_def)
  ultimately show ?case
    using Cons.IH [of ?q] Cons.prems by (cases bs) (simp_all add: upd_conv_take_nth_drop slave_ok_def add.commute)
qed

lemma tx_loop_sends:
  assumes "wired rcb wcb q" "slave_ok q" "n \<le> 18" "sentByteCount q + n \<le> 100"
  shows "tx_loop n q w =
    Some (if n = 0 then q else q\<lparr>sentByteCount := sentByteCount q + n, totalByteToSend := 0\<rparr>,
      call_all (map Uart_write (take n (drop (sentByteCount q) (frameBuffer q)))) w)"
  using assms
proof (induction n arbitrary: q w)
  case 0
  then show ?case by (simp add: call_all_def)
next
  case (Suc n)
  let ?q = "q\<lparr>sentByteCount := sentByteCount q + 1, totalByteToSend := n\<rparr>"
  have q: "wired rcb wcb ?q" "slave_ok ?q" "n \<le> 18" "sentByteCount ?q + n \<le> 100"
    using Suc.prems by (simp_all add: wired_def slave_ok_def)
  have tk: "take (Suc n) (drop (sentByteCount q) (frameBuffer q)) =
      frameBuffer q ! sentByteCount q # take n (drop (Suc (sentByteCount q)) (frameBuffer q))"
    using Suc.prems by (simp add: slave_ok_def take_Suc_Cons Cons_nth_drop_Suc [symmetric])
  have "tx_loop (Suc n) q w = tx_loop n ?q (call (Uart_write (frameBuffer q ! sentByteCount q)) w)"
    using Suc.prems by (simp add: slave_ok_def wired_def IotQbusSendByte_def)
  then show ?case
    unfolding Suc.IH [OF q] tk by (simp add: on_defs)
qed

fun run_polls ::
  "inputs list \<Rightarrow> 'j world qBSlave \<Rightarrow> 'j world \<Rightarrow> ('j world qBSlave \<times> 'j world) option" where
  "run_polls [] q w = Some (q, w)"
| "run_polls (i # is) q w = do { (q1, w1) \<leftarrow> QbusHandler i q w; run_polls is q1 w1 }"

text \<open>The eleven registers a read at 0x1000 sees.\<close>

definition register_block :: "'j world \<Rightarrow> bytes" where
  "register_block w = [pad_code (padState (led w))] @ leftEarColor (led w) @ rightEarColor (led w) @
     padColor (led w) @ [powerState (sys w)]"

lemma length_register_block: "bus_ok w \<Longrightarrow> length (register_block w) = 11"
  by (simp add: bus_ok_def led_wf_def register_block_def)

lemma read_cb_reply:
  assumes "bus_ok w" "in_range 0x1000 11 a n" "11 \<le> length d"
  shows "\<exists>w'. QbusRegReadCb inp a n d w =
      Some (QB_REG_SUCCESS, take n (drop (a - 0x1000) (register_block w)) @ drop n d, w') \<and>
    calls w' = calls w \<and> bus_ok w'"
proof -
  have n: "a - 0x1000 + n \<le> 11" "n \<le> 11" using assms(2) by (auto simp: in_range_def)
  define rest where "rest = drop 11 (qbusDataBuff (glob w))"
  have u: "UpdateDataBuffer w (qbusDataBuff (glob w)) = Some (register_block w @ rest)"
    using assms(1) by (simp add: bus_ok_def UpdateDataBuffer_ok register_block_def rest_def)
  have lr: "length (register_block w @ rest) = 20"
    using assms(1) length_register_block [OF assms(1)] by (simp add: rest_def bus_ok_def)
  have "copy_regs n (a - 0x1000) (register_block w @ rest) 0 d =
      Some (take n (drop (a - 0x1000) (register_block w)) @ drop n d)"
    using n lr assms(3) length_register_block [OF assms(1)]
    by (subst copy_regs_ok) auto
  then show ?thesis
    using u lr assms by (simp add: QbusRegReadCb_def bus_ok_def on_glob_def)
qed

lemma tag_process_prefix:
  assumes "15 \<le> length p"
  shows "tag_process inp (p @ r) w = tag_process inp p w"
  using assms by (simp add: tag_process_def read_uid_def nth_append)

lemma be16_less: "be16 a b < 65536"
  by (simp add: be16_def)

lemma process_read_frame:
  assumes "bus_ok w" "slave_ok q" "wired QbusRegReadCb QbusRegWriteCb q"
    and "frameBuffer q = payload @ rest" "length payload = 15" "payload ! 0 = 1"
    and rng: "in_range 0x1000 11 (be16 (payload ! 1) (payload ! 2)) (be16 (payload ! 3) (payload ! 4))"
  shows "\<exists>w1 w' fb c. tag_process inp payload w = Some w1 \<and> calls w' = calls w1 \<and> bus_ok w' \<and>
    Crc16Get fb (length fb) = Some c \<and>
    fb = take 5 payload @ take (be16 (payload ! 3) (payload ! 4))
      (drop (be16 (payload ! 1) (payload ! 2) - 0x1000) (register_block w1)) \<and>
    length fb = 5 + be16 (payload ! 3) (payload ! 4) \<and>
    (\<exists>rest'. QBSlaveProcessFrame inp q w =
      Some (q\<lparr>frameBuffer := fb @ [crc_lo c, crc_hi c] @ rest', totalByteToSend := length fb + 2\<rparr>, w'))"
proof -
  let ?a = "be16 (payload ! 1) (payload ! 2)" and ?n = "be16 (payload ! 3) (payload ! 4)"
  have n: "?n \<le> 11" "?a - 0x1000 + ?n \<le> 11" using rng by (auto simp: in_range_def)
  have lq: "length (payload @ rest) = 100" using assms(2,4) by (simp add: slave_ok_def)
  obtain w1 where w1: "tag_process inp payload w = Some w1" "bus_ok w1"
    using tag_ok [OF assms(1), of payload inp] assms(5) by auto
  let ?d = "drop 5 payload @ rest"
  have d: "11 \<le> length ?d" using lq assms(5) by simp
  obtain w2 where w2: "QbusRegReadCb inp ?a ?n ?d w1 = Some (QB_REG_SUCCESS,
      take ?n (drop (?a - 0x1000) (register_block w1)) @ drop ?n ?d, w2)"
    "calls w2 = calls w1" "bus_ok w2"
    using read_cb_reply [OF w1(2) rng d, of inp] by blast
  define fb where "fb = take 5 payload @ take ?n (drop (?a - 0x1000) (register_block w1))"
  have lfb: "length fb = 5 + ?n"
    using n assms(5) length_register_block [OF w1(2)] by (simp add: fb_def)
  define c where "c = foldl crc_byte 0xFFFF fb"
  have "process_command inp q w = Some (fb @ drop ?n ?d, 5 + ?n, w2)"
    using w1 w2 assms n
    by (simp add: process_command_def Let_def nth_append wired_def tag_process_prefix fb_def)
  moreover have "length (drop ?n ?d) = 95 - ?n" using lq assms(5) by simp
  then obtain x y rest' where xy: "drop ?n ?d = x # y # rest'"
    using n by (cases "drop ?n ?d"; cases "tl (drop ?n ?d)") auto
  ultimately have "process_command inp q w = Some (fb @ x # y # rest', length fb, w2)"
    by (simp add: lfb)
  moreover have "Crc16Get (fb @ x # y # rest') (length fb) = Some c" "Crc16Get fb (length fb) = Some c"
    by (simp_all add: Crc16Get_foldl c_def)
  moreover have "(fb @ x # y # rest')[5 + ?n := u, 6 + ?n := v] = fb @ u # v # rest'" for u v
    using lfb by (simp add: list_update_append)
  ultimately have "QBSlaveProcessFrame inp q w = Some (q\<lparr>frameBuffer := fb @ [crc_lo c, crc_hi c] @ rest',
      totalByteToSend := length fb + 2\<rparr>, w2)"
    using n lfb by (simp add: QBSlaveProcessFrame_def crc_lo_def crc_hi_def)
  then show ?thesis
    using w1 w2 \<open>Crc16Get fb (length fb) = Some c\<close> lfb fb_def by blast
qed

end
