(* ===== verification/Bus_Protocol.thy ===== *)
theory Bus_Protocol
  imports Iot_Qbus
begin

text \<open>
  What the serial bus guarantees: the properties of the slave (\<^verbatim>\<open>qbus_s.cpp\<close>) connected
  to the registers of the device (\<^verbatim>\<open>iot_qbus.cpp\<close>) that involve both, over runs of
  interleaved steps of the UART task, the bus task and the other tasks.
\<close>

section \<open>A whole transaction\<close>

lemma frame_accepted:
  assumes "slave_ok q" "frameBuffer q = bs @ rest" "recvByteCount q = length bs" "7 \<le> length bs"
    and "Crc16Get bs (length bs) = Some 0"
  shows "QBSlaveValidateFrame q = Some 1"
  using assms by (simp add: QBSlaveValidateFrame_def Crc16Get_foldl)

text \<open>The four polls that serve a read request: start of frame, time-out, transmission, idle.\<close>

lemma read_transaction_polls:
  assumes "bus_ok w" "slave_ok q" "wired QbusRegReadCb QbusRegWriteCb q" "qBState q = QBS_IDLE"
    and fb: "frameBuffer q = payload @ [crc_lo c, crc_hi c] @ rest" "recvByteCount q = 17"
    and p: "length payload = 15" "payload ! 0 = 1" "Crc16Get payload 15 = Some c"
    and rng: "in_range 0x1000 11 (be16 (payload ! 1) (payload ! 2)) (be16 (payload ! 3) (payload ! 4))"
    and t: "elapsed (now i2) (timeOutStartTick q) QB_FRAME_TIMEOUT_MS"
  shows "\<exists>q' w' w1 reply c'. run_polls [i1, i2, i3, i4] q w = Some (q', w') \<and>
     qBState q' = QBS_IDLE \<and> recvByteCount q' = 0 \<and> totalByteToSend q' = 0 \<and>
     tag_process i2 payload w = Some w1 \<and>
     reply = take 5 payload @ take (be16 (payload ! 3) (payload ! 4))
       (drop (be16 (payload ! 1) (payload ! 2) - 0x1000) (register_block w1)) \<and>
     Crc16Get reply (length reply) = Some c' \<and>
     calls w' = calls w1 @ map Uart_write (reply @ [crc_lo c', crc_hi c'])"
proof -
  have e: "EnableTxRx q a b v = v" for a b v
    using assms(3) by (simp add: wired_def IotQbusInterruptEnable_def)
  let ?q1 = "q\<lparr>qBState := QBS_FRAME_RCV\<rparr>"
  have q1: "slave_ok ?q1" "wired QbusRegReadCb QbusRegWriteCb ?q1"
    using assms(2,3) by (simp_all add: slave_ok_def wired_def)
  have "(payload @ [crc_lo c, crc_hi c] @ rest) ! 0 = 1"
    using p by (simp add: nth_append)
  moreover have "length (payload @ [crc_lo c, crc_hi c] @ rest) = 100"
    using assms(2) fb(1) by (simp add: slave_ok_def)
  ultimately have s1: "QbusHandler i1 q w = Some (?q1, w)"
    using assms(4) fb by (simp add: QbusHandler_def QBSlavePoll_def QBSlaveSetState_def)
  have "Crc16Get (payload @ [crc_lo c, crc_hi c]) 17 = Some 0"
    using p foldl_crc_residue [of "0xFFFF" payload] by (simp add: Crc16Get_foldl)
  then have v: "QBSlaveValidateFrame ?q1 = Some 1"
    using q1 fb p by (intro frame_accepted [where bs = "payload @ [crc_lo c, crc_hi c]" and rest = rest]) simp_all
  obtain w1 w2 reply c' rest' where r: "tag_process i2 payload w = Some w1" "calls w2 = calls w1"
    "bus_ok w2" "Crc16Get reply (length reply) = Some c'"
    "reply = take 5 payload @ take (be16 (payload ! 3) (payload ! 4))
       (drop (be16 (payload ! 1) (payload ! 2) - 0x1000) (register_block w1))"
    "length reply = 5 + be16 (payload ! 3) (payload ! 4)"
    "QBSlaveProcessFrame i2 ?q1 w = Some (?q1\<lparr>frameBuffer := reply @ [crc_lo c', crc_hi c'] @ rest',
       totalByteToSend := length reply + 2\<rparr>, w2)"
    using process_read_frame [OF assms(1) q1, of payload "[crc_lo c, crc_hi c] @ rest" i2] fb p rng
    by auto
  let ?q2 = "q\<lparr>qBState := QBS_SEND_FRAME, frameBuffer := reply @ [crc_lo c', crc_hi c'] @ rest',
    totalByteToSend := length reply + 2, sentByteCount := 0\<rparr>"
  have s2: "QbusHandler i2 ?q1 w = Some (?q2, w2)"
    using t v r(7) by (simp add: QbusHandler_def QBSlavePoll_def QBSlaveSetState_def e)
  have n: "length reply \<le> 16" using rng r(6) by (auto simp: in_range_def)
  have "length (reply @ [crc_lo c', crc_hi c'] @ rest') = 100"
    using device.process_frame_safe [OF assms(1) q1, of i2] r(7) by (simp add: slave_ok_def)
  then have q2: "slave_ok ?q2" "wired QbusRegReadCb QbusRegWriteCb ?q2"
    using assms(2,3) n by (simp_all add: slave_ok_def wired_def)
  let ?q3 = "?q2\<lparr>sentByteCount := length reply + 2, totalByteToSend := 0\<rparr>"
  let ?w3 = "call_all (map Uart_write (reply @ [crc_lo c', crc_hi c'])) w2"
  have s3: "QbusHandler i3 ?q2 w2 = Some (?q3, ?w3)"
    using tx_loop_sends [OF q2(2,1), of "length reply + 2" w2] n
    by (simp add: QbusHandler_def QBSlavePoll_def QBSlavePortTxEmptyIsr_def)
  have s4: "QbusHandler i4 ?q3 ?w3 = Some (?q3\<lparr>qBState := QBS_IDLE, recvByteCount := 0\<rparr>, ?w3)"
    by (simp add: QbusHandler_def QBSlavePoll_def QBSlavePortTxEmptyIsr_def QBSlaveSetState_def e)
  have "run_polls [i1, i2, i3, i4] q w = Some (?q3\<lparr>qBState := QBS_IDLE, recvByteCount := 0\<rparr>, ?w3)"
    using s1 s2 s3 s4 by simp
  moreover have "calls ?w3 = calls w1 @ map Uart_write (reply @ [crc_lo c', crc_hi c'])"
    using r(2) by (simp add: call_all_def)
  ultimately obtain q4 w4 where "run_polls [i1, i2, i3, i4] q w = Some (q4, w4)" "qBState q4 = QBS_IDLE"
    "recvByteCount q4 = 0" "totalByteToSend q4 = 0"
    "calls w4 = calls w1 @ map Uart_write (reply @ [crc_lo c', crc_hi c'])" by simp
  then show ?thesis
    using r(1,4,5) by blast
qed

lemma crc_one_byte_changed:
  assumes "k < length xs"
  shows "foldl crc_byte s (xs[k := b]) = foldl crc_byte s xs \<longleftrightarrow> b = xs ! k"
proof
  assume "foldl crc_byte s (xs[k := b]) = foldl crc_byte s xs"
  then have "foldl crc_byte s (take k xs @ b # drop (Suc k) xs) =
      foldl crc_byte s (take k xs @ xs ! k # drop (Suc k) xs)"
    using assms by (simp add: upd_conv_take_nth_drop id_take_nth_drop [symmetric])
  then show "b = xs ! k"
    by (auto dest!: foldl_crc_inj_seed crc_byte_inj_byte)
qed simp

lemma bus_reach_uart:
  "bus_reach (q, w) \<Longrightarrow> uart_data t bs q = Some q' \<Longrightarrow> bus_reach (q', w)"
  by (induction t bs q rule: uart_data.induct)
     (auto simp: bind_eq_Some_conv intro: bus_reach.step bus_step.receive)

lemma process_unknown_write:
  assumes "slave_ok q" "wired QbusRegReadCb QbusRegWriteCb q" "frameBuffer q = hdr @ rest"
    and "hdr = [2, ah, al, lh, ll]"
    and "\<forall>r \<in> {0x3000, 0x4000, 0x5000, 0x7000, 0x8000, 0x9000, 0xA000}. \<not> in_range r 1 (be16 ah al) (be16 lh ll)"
  shows "\<exists>c rest'. Crc16Get [0x82, ah, al, lh, ll, 2] 6 = Some c \<and>
    QBSlaveProcessFrame inp q w = Some (q\<lparr>frameBuffer :=
      [0x82, ah, al, lh, ll, 2, crc_lo c, crc_hi c] @ rest', totalByteToSend := 8\<rparr>, w)"
proof -
  have "length rest = 95" using assms(1,3,4) by (simp add: slave_ok_def)
  then obtain x y z rest' where r: "rest = x # y # z # rest'"
    by (cases rest; cases "tl rest"; cases "tl (tl rest)") auto
  have "QbusRegWriteCb inp (be16 ah al) (be16 lh ll) d w = Some (QB_REG_ERR_ADDR, d, w)" for d
    using assms(5) by (simp add: QbusRegWriteCb_def)
  then have "process_command inp q w = Some ([0x82, ah, al, lh, ll, 2] @ y # z # rest', 6, w)"
    using assms(2-4) r by (simp add: process_command_def wired_def Let_def)
  then show ?thesis
    by (simp add: QBSlaveProcessFrame_def Crc16Get_foldl crc_lo_def crc_hi_def) blast
qed

lemma poll_to_reply:
  assumes "bus_reach (q, w)" "qBState q = QBS_FRAME_RCV"
    and "QbusHandler inp q w = Some (q', w')" "qBState q' = QBS_SEND_FRAME"
  shows "\<exists>p. QBSlaveProcessFrame inp q w = Some (p, w') \<and> slave_ok p \<and>
    wired QbusRegReadCb QbusRegWriteCb p \<and> q' = p\<lparr>qBState := QBS_SEND_FRAME, sentByteCount := 0\<rparr> \<and>
    recvByteCount p = recvByteCount q \<and> 7 \<le> totalByteToSend p \<and>
    Crc16Get (frameBuffer p) (totalByteToSend p) = Some 0"
proof -
  have i: "slave_ok q" "wired QbusRegReadCb QbusRegWriteCb q" "bus_ok w"
    using bus_reach_inv [OF assms(1)] by (simp_all add: bus_inv_def)
  have e: "EnableTxRx q a b v = v" for a b v
    using i(2) by (simp add: wired_def IotQbusInterruptEnable_def)
  obtain p w2 where p: "QBSlaveProcessFrame inp q w = Some (p, w2)" "slave_ok p"
    "7 \<le> totalByteToSend p" "Crc16Get (frameBuffer p) (totalByteToSend p) = Some 0"
    using device.process_frame_safe [OF i(3,1,2), of inp] by blast
  have f: "recvByteCount p = recvByteCount q" "wired QbusRegReadCb QbusRegWriteCb p"
    "EnableTxRx p a b v = v" for a b v
    using p(1) i(2) by (auto simp: QBSlaveProcessFrame_def wired_def bind_eq_Some_conv
        IotQbusInterruptEnable_def)
  then have "q' = p\<lparr>qBState := QBS_SEND_FRAME, sentByteCount := 0\<rparr>" "w' = w2"
    using assms(2-4) p(1) by (auto simp: QbusHandler_def QBSlavePoll_def QBSlaveSetState_def e
        bind_eq_Some_conv split: if_splits)
  then show ?thesis using p f(1,2) by auto
qed

section \<open>Properties\<close>

text \<open>
  C1. Memory safety of the bus in every reachable configuration: whatever bytes arrive and
  however the tasks interleave, accepting a byte and polling stay inside every buffer (they
  return), at most 100 received bytes are counted, and at most 18 bytes wait to be sent.
\<close>

theorem bus_memory_safe:
  assumes "bus_reach (q, w)"
  shows "(\<exists>q'. QBSlavePortByteReceived t b q = Some q') \<and>
    (\<exists>q' w'. QbusHandler inp q w = Some (q', w')) \<and> recvByteCount q \<le> 100 \<and> totalByteToSend q \<le> 18"
proof -
  have i: "slave_ok q" "wired QbusRegReadCb QbusRegWriteCb q" "bus_ok w"
    using bus_reach_inv [OF assms] by (simp_all add: bus_inv_def)
  show ?thesis
    using slave_ok_received [OF i(1), of t b QbusRegReadCb QbusRegWriteCb]
      device.poll_safe [OF i(3,1,2), of inp] i(1)
    by (auto simp: slave_ok_def)
qed

lemma bus_ok_boot: "bus_ok boot_world"
  by (simp add: bus_ok_def) (simp add: boot_defs led_wf_def)

definition idle_inputs :: "u32 \<Rightarrow> inputs" where
  "idle_inputs t = \<lparr>now = t, el = AEL_STATE_NONE\<rparr>"

text \<open>A reachable configuration: a write to the unmapped address 0xF000 has been received.\<close>

definition unmapped_write :: bytes where
  "unmapped_write = [2, 0xF0, 0, 0, 1, 175, 0]"

definition after_request :: "bytes \<Rightarrow> nat world qBSlave" where
  "after_request bs = (fst (QbusInit (idle_inputs 0) boot_world))
     \<lparr>frameBuffer := bs @ replicate (100 - length bs) 0, recvByteCount := length bs,
      timeOutStartTick := 10\<rparr>"

lemma QbusInit_boot:
  "snd (QbusInit inp w) = w" "slave_ok (fst (QbusInit inp w))"
  "wired QbusRegReadCb QbusRegWriteCb (fst (QbusInit inp w))" "qBState (fst (QbusInit inp w)) = QBS_IDLE"
  "recvByteCount (fst (QbusInit inp w)) = 0" "frameBuffer (fst (QbusInit inp w)) = replicate 100 0"
  by (simp_all add: QbusInit_def QBSlaveInit_def QBSlaveStart_def QBSlaveSetState_def slave_ok_def
      wired_def IotQbusInterruptEnable_def)

lemma after_request_reach:
  assumes "bs \<noteq> []" "length bs \<le> 100"
  shows "bus_reach (after_request bs, boot_world)" "slave_ok (after_request bs)"
    "wired QbusRegReadCb QbusRegWriteCb (after_request bs)"
proof -
  have r: "bus_reach (fst (QbusInit (idle_inputs 0) boot_world), boot_world :: nat world)"
    using bus_reach.start [OF bus_ok_boot, of "idle_inputs 0"] QbusInit_boot(1)
    by (metis prod.collapse)
  have "uart_data 10 bs (fst (QbusInit (idle_inputs 0) (boot_world :: nat world))) = Some (after_request bs)"
    using uart_data_ok [of "fst (QbusInit (idle_inputs 0) (boot_world :: nat world))" bs 10] assms
    by (simp add: QbusInit_boot after_request_def)
  then show "bus_reach (after_request bs, boot_world)" by (rule bus_reach_uart [OF r])
  then show "slave_ok (after_request bs)" "wired QbusRegReadCb QbusRegWriteCb (after_request bs)"
    using bus_reach_inv [of "(after_request bs, boot_world)"] by (simp_all add: bus_inv_def)
qed

lemma unmapped_write_crc: "Crc16Get unmapped_write (length unmapped_write) = Some 0"
  by code_simp

theorem bus_memory_safe_witness:
  "\<exists>q' w'. QbusHandler (idle_inputs 9) (fst (QbusInit (idle_inputs 0) (boot_world :: nat world)))
     (snd (QbusInit (idle_inputs 0) (boot_world :: nat world))) = Some (q', w')"
proof -
  have h: "bus_reach (fst (QbusInit (idle_inputs 0) (boot_world :: nat world)),
      snd (QbusInit (idle_inputs 0) (boot_world :: nat world)))"
    using bus_reach.start [OF bus_ok_boot] by simp
  show ?thesis
    using bus_memory_safe [OF h, of 0 0 "idle_inputs 9"] by blast
qed

text \<open>
  C8. Every reply is a valid frame: when a poll accepts a received frame and goes to sending,
  the 7 to 18 bytes it is about to send pass the same check the slave applies to requests.
\<close>

theorem reply_is_valid_frame:
  assumes "bus_reach (q, w)" and "qBState q = QBS_FRAME_RCV"
    and "QbusHandler inp q w = Some (q', w')" and "qBState q' = QBS_SEND_FRAME"
  shows "7 \<le> totalByteToSend q' \<and> totalByteToSend q' \<le> 18 \<and>
    QBSlaveValidateFrame (q'\<lparr>recvByteCount := totalByteToSend q'\<rparr>) = Some 1"
  using poll_to_reply [OF assms] by (auto simp: QBSlaveValidateFrame_def slave_ok_def)

lemma unmapped_write_polls:
  "QbusHandler (idle_inputs 11) (after_request unmapped_write) boot_world =
     Some ((after_request unmapped_write)\<lparr>qBState := QBS_FRAME_RCV\<rparr>, boot_world)"
  "\<exists>c rest. Crc16Get [0x82, 0xF0, 0, 0, 1, 2] 6 = Some c \<and>
     QbusHandler (idle_inputs 20) ((after_request unmapped_write)\<lparr>qBState := QBS_FRAME_RCV\<rparr>) boot_world =
     Some ((after_request unmapped_write)\<lparr>frameBuffer := [0x82, 0xF0, 0, 0, 1, 2, crc_lo c, crc_hi c] @ rest,
       totalByteToSend := 8, qBState := QBS_SEND_FRAME, sentByteCount := 0\<rparr>, boot_world)"
proof -
  note ok = after_request_reach(2,3) [of unmapped_write, simplified unmapped_write_def, simplified,
      folded unmapped_write_def]
  have st: "qBState (after_request bs) = QBS_IDLE" "timeOutStartTick (after_request bs) = 10"
    "recvByteCount (after_request bs) = length bs"
    "frameBuffer (after_request bs) = bs @ replicate (100 - length bs) 0" for bs
    by (simp_all add: after_request_def QbusInit_boot)
  show "QbusHandler (idle_inputs 11) (after_request unmapped_write) boot_world =
     Some ((after_request unmapped_write)\<lparr>qBState := QBS_FRAME_RCV\<rparr>, boot_world)"
    by (simp add: QbusHandler_def QBSlavePoll_def st unmapped_write_def QBSlaveSetState_def)
  let ?q = "(after_request unmapped_write)\<lparr>qBState := QBS_FRAME_RCV\<rparr>"
  have q: "slave_ok ?q" "wired QbusRegReadCb QbusRegWriteCb ?q"
    using ok by (simp_all add: slave_ok_def wired_def)
  have e: "EnableTxRx (after_request unmapped_write) a b w = w" for a b w
    using ok(2) by (simp add: wired_def IotQbusInterruptEnable_def)
  have "QBSlaveValidateFrame ?q = Some 1"
    using unmapped_write_crc 
    by (intro frame_accepted [OF q(1), where bs = unmapped_write and rest = "replicate 93 0"]) (simp_all add: st, simp_all add: unmapped_write_def)
  moreover obtain c rest' where "Crc16Get [0x82, 0xF0, 0, 0, 1, 2] 6 = Some c"
    "QBSlaveProcessFrame (idle_inputs 20) ?q boot_world = Some (?q\<lparr>frameBuffer :=
      [0x82, 0xF0, 0, 0, 1, 2, crc_lo c, crc_hi c] @ rest', totalByteToSend := 8\<rparr>, boot_world)"
    using process_unknown_write [OF q, of "[2, 0xF0, 0, 0, 1]" "[175, 0] @ replicate 93 0" "0xF0" 0 0 1
        "idle_inputs 20" boot_world]
    by (auto simp: st unmapped_write_def in_range_def be16_def)
  moreover have "elapsed 20 10 3" by (simp add: elapsed_def TimeSpent_def)
  ultimately show "\<exists>c rest. Crc16Get [0x82, 0xF0, 0, 0, 1, 2] 6 = Some c \<and>
     QbusHandler (idle_inputs 20) ?q boot_world =
     Some ((after_request unmapped_write)\<lparr>frameBuffer := [0x82, 0xF0, 0, 0, 1, 2, crc_lo c, crc_hi c] @ rest,
       totalByteToSend := 8, qBState := QBS_SEND_FRAME, sentByteCount := 0\<rparr>, boot_world)"
    by (auto simp: QbusHandler_def QBSlavePoll_def st idle_inputs_def QBSlaveSetState_def e)
qed

theorem reply_is_valid_frame_witness:
  "\<exists>q' w'. QbusHandler (idle_inputs 20) ((after_request unmapped_write)\<lparr>qBState := QBS_FRAME_RCV\<rparr>)
       boot_world = Some (q', w') \<and> totalByteToSend q' = 8 \<and>
     QBSlaveValidateFrame (q'\<lparr>recvByteCount := totalByteToSend q'\<rparr>) = Some 1"
proof -
  let ?q = "(after_request unmapped_write)\<lparr>qBState := QBS_FRAME_RCV\<rparr>"
  have r: "bus_reach (?q, boot_world)"
    using bus_reach.step [OF after_request_reach(1) bus_step.poll [OF unmapped_write_polls(1)]]
    by (simp add: unmapped_write_def)
  obtain q' where q': "QbusHandler (idle_inputs 20) ?q boot_world = Some (q', boot_world)"
    "qBState q' = QBS_SEND_FRAME" "totalByteToSend q' = 8"
    using unmapped_write_polls(2) by auto
  have "qBState ?q = QBS_FRAME_RCV" by simp
  from reply_is_valid_frame [OF r this q'(1,2)] show ?thesis using q' by blast
qed

text \<open>
  C5. A read request is answered. An idle slave with an empty buffer receives a 15-byte read
  request and its checksum, for registers inside the block at 0x1000; the bus task polls once,
  once more after the frame time-out, and twice to send. Then the tag and battery bytes of the
  request have been applied, the bytes handed to the UART are the five header bytes, the
  requested slice of the register block and the checksum of both, and the slave is idle with an
  empty buffer again.
\<close>

theorem read_transaction:
  assumes "bus_ok w" "slave_ok q" "wired QbusRegReadCb QbusRegWriteCb q"
    and "qBState q = QBS_IDLE" "recvByteCount q = 0"
    and "length payload = 15" "payload ! 0 = 1" "Crc16Get payload 15 = Some c"
    and "in_range 0x1000 11 (be16 (payload ! 1) (payload ! 2)) (be16 (payload ! 3) (payload ! 4))"
    and "elapsed (now i2) t QB_FRAME_TIMEOUT_MS"
  shows "\<exists>q1 q' w' w1 reply c'. uart_data t (payload @ [crc_lo c, crc_hi c]) q = Some q1 \<and>
     run_polls [i1, i2, i3, i4] q1 w = Some (q', w') \<and>
     qBState q' = QBS_IDLE \<and> recvByteCount q' = 0 \<and> totalByteToSend q' = 0 \<and>
     tag_process i2 payload w = Some w1 \<and>
     reply = take 5 payload @ take (be16 (payload ! 3) (payload ! 4))
       (drop (be16 (payload ! 1) (payload ! 2) - 0x1000) (register_block w1)) \<and>
     Crc16Get reply (length reply) = Some c' \<and>
     calls w' = calls w1 @ map Uart_write (reply @ [crc_lo c', crc_hi c'])"
proof -
  let ?q1 = "q\<lparr>frameBuffer := payload @ [crc_lo c, crc_hi c] @ drop 17 (frameBuffer q),
    recvByteCount := 17, timeOutStartTick := t\<rparr>"
  have u: "uart_data t (payload @ [crc_lo c, crc_hi c]) q = Some ?q1"
    using uart_data_ok [OF assms(2), of "payload @ [crc_lo c, crc_hi c]" t] assms(5,6) by auto
  have "slave_ok ?q1" "wired QbusRegReadCb QbusRegWriteCb ?q1"
    using assms(2,3,6) by (simp_all add: slave_ok_def wired_def)
  note read_transaction_polls [OF assms(1) this, where payload = payload and c = c and
      rest = "drop 17 (frameBuffer q)" and ?i2.0 = i2 and ?i1.0 = i1 and ?i3.0 = i3 and ?i4.0 = i4]
  then show ?thesis
    using u assms(4,6-10) by simp
qed

theorem read_transaction_witness:
  "\<exists>q1 q' w'. uart_data 10 [1, 0x10, 0, 0, 11, 0xE0, 4, 1, 0x50, 0, 0, 0, 0, 80, 0, 46, 20]
       (fst (QbusInit (idle_inputs 0) (boot_world :: nat world))) = Some q1 \<and>
     run_polls [idle_inputs 11, idle_inputs 20, idle_inputs 21, idle_inputs 22] q1 boot_world = Some (q', w') \<and>
     qBState q' = QBS_IDLE"
proof -
  let ?p = "[1, 0x10, 0, 0, 11, 0xE0, 4, 1, 0x50, 0, 0, 0, 0, 80, 0] :: bytes"
  note init = QbusInit_boot [of "idle_inputs 0" "boot_world :: nat world"]
  have c: "Crc16Get ?p 15 = Some 5166" by code_simp
  have "in_range 0x1000 11 (be16 (?p ! 1) (?p ! 2)) (be16 (?p ! 3) (?p ! 4))"
    by (simp add: in_range_def be16_def)
  moreover have "elapsed (now (idle_inputs 20)) 10 QB_FRAME_TIMEOUT_MS"
    by (simp add: elapsed_def TimeSpent_def idle_inputs_def)
  moreover have "crc_lo 5166 = 46" "crc_hi 5166 = 20" by code_simp+
  ultimately show ?thesis
    using read_transaction [OF bus_ok_boot init(2-5) _ _ c, where ?i2.0 = "idle_inputs 20" and t = 10 and ?i1.0 = "idle_inputs 11" and ?i3.0 = "idle_inputs 21" and ?i4.0 = "idle_inputs 22"]
    by auto
qed

text \<open>
  A write to an address no register has is refused and changes nothing: the reply is the
  request's header with the error bit set, the address-error code and the checksum, eight bytes
  in all, and the rest of the firmware's state is untouched.
\<close>

theorem unknown_register_write:
  assumes "slave_ok q" "wired QbusRegReadCb QbusRegWriteCb q"
    and "frameBuffer q = [2, ah, al, lh, ll] @ rest"
    and "\<forall>r \<in> {0x3000, 0x4000, 0x5000, 0x7000, 0x8000, 0x9000, 0xA000}. \<not> in_range r 1 (be16 ah al) (be16 lh ll)"
  shows "\<exists>q' c. QBSlaveProcessFrame inp q w = Some (q', w) \<and> totalByteToSend q' = 8 \<and>
    Crc16Get [0x82, ah, al, lh, ll, 2] 6 = Some c \<and>
    take 8 (frameBuffer q') = [0x82, ah, al, lh, ll, 2, crc_lo c, crc_hi c]"
  using process_unknown_write [OF assms(1-3) refl assms(4), of inp w] by auto

theorem unknown_register_write_witness:
  "\<exists>q' c. QBSlaveProcessFrame (idle_inputs 20) (after_request unmapped_write) boot_world = Some (q', boot_world) \<and>
     take 8 (frameBuffer q') = [0x82, 0xF0, 0, 0, 1, 2, crc_lo c, crc_hi c]"
proof -
  have ok: "slave_ok (after_request unmapped_write)"
    "wired QbusRegReadCb QbusRegWriteCb (after_request unmapped_write)"
    using after_request_reach [of unmapped_write] by (simp_all add: unmapped_write_def)
  have fb: "frameBuffer (after_request unmapped_write) = [2, 0xF0, 0, 0, 1] @ ([175, 0] @ replicate 93 0)"
    by (simp add: after_request_def unmapped_write_def)
  have "\<forall>r \<in> {0x3000, 0x4000, 0x5000, 0x7000, 0x8000, 0x9000, 0xA000}. \<not> in_range r 1 (be16 0xF0 0) (be16 0 1)"
    by (simp add: in_range_def be16_def)
  from unknown_register_write [OF ok fb this] show ?thesis by blast
qed

text \<open>
  C27. Reception is not stopped while a reply is sent, because \<^verbatim>\<open>IotQbusInterruptEnable\<close> has
  no body: a poll that turns a received frame into a reply leaves the firmware's state as
  processing the frame left it, with no call to the UART driver. When the request was shorter
  than the reply, a byte that arrives next replaces the reply's byte behind the request's last
  one; the next poll sends the reply with that byte in it, and what is sent passes the frame
  check only if the byte happens to equal the one it replaced.
\<close>

theorem byte_during_reply_corrupts_it:
  assumes "bus_reach (q, w)" "qBState q = QBS_FRAME_RCV"
    and "QbusHandler inp q w = Some (q1, w1)" "qBState q1 = QBS_SEND_FRAME"
    and "recvByteCount q < totalByteToSend q1"
  shows "\<exists>p q2 q3 w3 sent. QBSlaveProcessFrame inp q w = Some (p, w1) \<and>
    uart_data t [b] q1 = Some q2 \<and> QbusHandler i q2 w1 = Some (q3, w3) \<and>
    calls w3 = calls w1 @ map Uart_write sent \<and>
    sent = (take (totalByteToSend q1) (frameBuffer q1))[recvByteCount q := b] \<and>
    (Crc16Get sent (length sent) = Some 0 \<longleftrightarrow> b = frameBuffer q1 ! recvByteCount q)"
proof -
  obtain p where p: "QBSlaveProcessFrame inp q w = Some (p, w1)" "slave_ok p"
    "wired QbusRegReadCb QbusRegWriteCb p" "q1 = p\<lparr>qBState := QBS_SEND_FRAME, sentByteCount := 0\<rparr>"
    "recvByteCount p = recvByteCount q" "7 \<le> totalByteToSend p"
    "Crc16Get (frameBuffer p) (totalByteToSend p) = Some 0"
    using poll_to_reply [OF assms(1-4)] by auto
  let ?k = "recvByteCount q" and ?n = "totalByteToSend p"
  let ?sent = "(take ?n (frameBuffer p))[?k := b]"
  let ?q2 = "q1\<lparr>frameBuffer := (frameBuffer p)[?k := b], recvByteCount := ?k + 1, timeOutStartTick := t\<rparr>"
  have k: "?k < ?n" "?n \<le> 18" "length (frameBuffer p) = 100"
    using assms(5) p(2,4) by (simp_all add: slave_ok_def)
  then have u: "uart_data t [b] q1 = Some ?q2"
    using p(2,4,5) by (simp add: QBSlavePortByteReceived_def slave_ok_def)
  have ok: "slave_ok ?q2" "wired QbusRegReadCb QbusRegWriteCb ?q2"
    using p(2-4) k by (simp_all add: slave_ok_def wired_def)
  obtain q3 w3 where s: "QbusHandler i ?q2 w1 = Some (q3, w3)"
    "calls w3 = calls w1 @ map Uart_write ?sent"
    using tx_loop_sends [OF ok(2,1), of ?n w1] p(4,6) k
    by (auto simp: QbusHandler_def QBSlavePoll_def QBSlavePortTxEmptyIsr_def call_all_def take_update_swap)
  have "foldl crc_byte 0xFFFF (take ?n (frameBuffer p)) = 0"
    using p(7) k by (simp add: Crc16Get_foldl)
  then have "Crc16Get ?sent (length ?sent) = Some 0 \<longleftrightarrow> b = frameBuffer p ! ?k"
    using k crc_one_byte_changed [of ?k "take ?n (frameBuffer p)" "0xFFFF" b]
    by (simp add: Crc16Get_foldl)
  then show ?thesis
    using p(1,4) u s by auto
qed

theorem byte_during_reply_corrupts_it_witness:
  "\<exists>q1 q2 q3 w3 sent. QbusHandler (idle_inputs 20) ((after_request unmapped_write)\<lparr>qBState := QBS_FRAME_RCV\<rparr>)
       boot_world = Some (q1, boot_world) \<and> uart_data 30 [0] q1 = Some q2 \<and>
     QbusHandler (idle_inputs 31) q2 boot_world = Some (q3, w3) \<and>
     calls w3 = calls (boot_world :: nat world) @ map Uart_write sent \<and> Crc16Get sent (length sent) \<noteq> Some 0"
proof -
  let ?q = "(after_request unmapped_write)\<lparr>qBState := QBS_FRAME_RCV\<rparr>"
  have r: "bus_reach (?q, boot_world)"
    using bus_reach.step [OF after_request_reach(1) bus_step.poll [OF unmapped_write_polls(1)]]
    by (simp add: unmapped_write_def)
  obtain c rest q1 where c: "Crc16Get [0x82, 0xF0, 0, 0, 1, 2] 6 = Some c"
    "QbusHandler (idle_inputs 20) ?q boot_world = Some (q1, boot_world)"
    "q1 = (after_request unmapped_write)\<lparr>frameBuffer := [0x82, 0xF0, 0, 0, 1, 2, crc_lo c, crc_hi c] @ rest,
       totalByteToSend := 8, qBState := QBS_SEND_FRAME, sentByteCount := 0\<rparr>"
    using unmapped_write_polls(2) by auto
  have "Crc16Get [0x82, 0xF0, 0, 0, 1, 2] 6 = Some 0x7DDE" by code_simp
  then have "crc_hi c \<noteq> 0" using c(1) by (simp add: crc_hi_def)
  have f: "qBState ?q = QBS_FRAME_RCV" "qBState q1 = QBS_SEND_FRAME"
    "recvByteCount ?q = 7" "recvByteCount ?q < totalByteToSend q1"
    "frameBuffer q1 ! 7 = crc_hi c"
    by (simp_all add: c(3) after_request_def unmapped_write_def)
  obtain q2 q3 w3 sent where "uart_data 30 [0] q1 = Some q2"
    "QbusHandler (idle_inputs 31) q2 boot_world = Some (q3, w3)"
    "calls w3 = calls (boot_world :: nat world) @ map Uart_write sent"
    "Crc16Get sent (length sent) = Some 0 \<longleftrightarrow> 0 = frameBuffer q1 ! recvByteCount ?q"
    using byte_during_reply_corrupts_it [OF r f(1) c(2) f(2,4), of 30 0 "idle_inputs 31"] by blast
  moreover have "0 \<noteq> frameBuffer q1 ! recvByteCount ?q"
    using \<open>crc_hi c \<noteq> 0\<close> f(3,5) by simp
  ultimately show ?thesis using c(2) by blast
qed

end
