(* ===== verification/System_Props.thy ===== *)
theory System_Props
  imports System_App Bus_Protocol
begin

text \<open>
  What the state machine guarantees over runs in which its handler interleaves with the bus and
  the BLE callbacks, and what it does not.
\<close>

section \<open>The steps of the device\<close>

inductive task_step :: "'j world \<Rightarrow> 'j world \<Rightarrow> bool" where
  bus_write: "QbusRegWriteCb inp a n d w = Some (rc, d', w') \<Longrightarrow> task_step w w'"
| bus_tag: "tag_process inp fb w = Some w' \<Longrightarrow> task_step w w'"
| ble_initialize: "System_initialize t ssid pw u (sys w) = Some s \<Longrightarrow> task_step w (w\<lparr>sys := s\<rparr>)"
| ble_user: "verifyUserID t u k (sys w) = Some s \<Longrightarrow> task_step w (w\<lparr>sys := s\<rparr>)"
| ble_credentials: "bleWriteCredentials s p w = Some (w', ok) \<Longrightarrow> task_step w w'"

text \<open>
  The reachable states, with the number of times the current question has been asked: a handler call
  in \<open>SYS_PLAY_QNA\<close> asks a new question, one in \<open>SYS_INCORRECT_ANS_TRY1\<close> asks it again.
\<close>

definition asked_after :: "system_states_et \<Rightarrow> nat \<Rightarrow> nat" where
  "asked_after st n = (if st = SYS_PLAY_QNA then 1 else if st = SYS_INCORRECT_ANS_TRY1 then n + 1 else n)"

inductive dev_reach :: "'j cJSON \<Rightarrow> nat \<Rightarrow> 'j world \<Rightarrow> bool" for cj where
  power_on: "sys_state (sys w) = SYS_POST \<Longrightarrow> dev_reach cj 0 w"
| handler: "dev_reach cj n w \<Longrightarrow> System_handler cj i w = Some w' \<Longrightarrow>
    dev_reach cj (asked_after (sys_state (sys w)) n) w'"
| other: "dev_reach cj n w \<Longrightarrow> task_step w w' \<Longrightarrow> dev_reach cj n w'"

section \<open>The question protocol\<close>

text \<open>The part of the state the protocol is about, and what leaves it alone.\<close>

definition core :: "'j world \<Rightarrow> system_states_et \<times> system_states_et \<times> u8" where
  "core w = (sys_state (sys w), playerGoBackToState (sys w), qnaAttempt (glob w))"

text \<open>
  Outside a question the machine does not wait for an answer and does not return to a state in which
  it would, nor to one that the battery guards.
\<close>

definition calm_state :: "system_states_et \<Rightarrow> bool" where
  [simp]: "calm_state st \<longleftrightarrow> st \<noteq> SYS_WAIT_QNA_RESP \<and> st \<noteq> SYS_INCORRECT_ANS_TRY1"

definition calm_return :: "system_states_et \<Rightarrow> bool" where
  [simp]: "calm_return st \<longleftrightarrow> calm_state st \<and> st \<noteq> SYS_INIT \<and> st \<noteq> SYS_READ_AUDIO_HEADER"

definition calm :: "'j world \<Rightarrow> bool" where
  "calm w \<longleftrightarrow> calm_state (sys_state (sys w)) \<and>
     (sys_state (sys w) = SYS_WAIT_FOR_PLAYER \<longrightarrow> calm_return (playerGoBackToState (sys w)))"

text \<open>Within a question the count of the attempts is the number of times it was asked.\<close>

definition waiting_answer :: "'j world \<Rightarrow> bool" where
  "waiting_answer w \<longleftrightarrow> sys_state (sys w) = SYS_WAIT_QNA_RESP \<or>
     sys_state (sys w) = SYS_WAIT_FOR_PLAYER \<and> playerGoBackToState (sys w) = SYS_WAIT_QNA_RESP"

definition qna_inv :: "nat \<Rightarrow> 'j world \<Rightarrow> bool" where
  "qna_inv n w \<longleftrightarrow> n \<le> 2 \<and>
     (calm w \<or> sys_state (sys w) = SYS_INCORRECT_ANS_TRY1 \<and> n = 1 \<or>
      waiting_answer w \<and> 1 \<le> n \<and> unat (qnaAttempt (glob w)) = n)"

lemmas calm_defs = calm_def calm_state_def calm_return_def

lemma qna_inv_core: "core w' = core w \<Longrightarrow> qna_inv n w' = qna_inv n w"
  by (simp add: core_def qna_inv_def calm_defs waiting_answer_def)

lemma calm_inv: "calm w \<Longrightarrow> n \<le> 2 \<Longrightarrow> qna_inv n w"
  by (simp add: qna_inv_def)

lemma calm_core: "core w' = core w \<Longrightarrow> calm w' = calm w"
  by (simp add: core_def calm_defs)

lemma core_simps [simp]:
  "core (call c w) = core w" "core (call_all cs w) = core w" "core (on_led f w) = core w"
  "core (on_player g w) = core w" "core (on_wifi h w) = core w" "core (on_dl k w) = core w"
  "core (on_sd m w) = core w" "core (BLE_notify t w) = core w" "core (w\<lparr>sd := s\<rparr>) = core w"
  "core (w\<lparr>dl := d\<rparr>) = core w" "core (w\<lparr>ext_http := r\<rparr>) = core w" "core (w\<lparr>ext_waits := b\<rparr>) = core w"
  by (simp_all add: core_def on_defs BLE_notify_def)

lemma core_wait [simp]: "core (fst (xEventGroupWaitBits w)) = core w"
  by (simp add: xEventGroupWaitBits_def split: list.split)

lemma core_wifi [simp]:
  "core (fst (connect_impl w)) = core w" "core (fst (disconnect_impl w)) = core w"
  "core (fst (connect w)) = core w" "core (fst (disconnect w)) = core w"
  "core (fst (WiFi_init w)) = core w" "core (fst (readCredentials w)) = core w"
  by (simp_all add: connect_impl_def disconnect_impl_def connect_def disconnect_def WiFi_init_def
      readCredentials_def Let_def split_beta split: option.split)

lemma core_perform [simp]: "core (fst (perform w)) = core w"
  by (simp add: perform_def split: list.split)

lemma core_player [simp]:
  "core (playPauseToggle e w) = core w" "core (SkipCurrentAudio e w) = core w"
  "core (PauseCurrentAudio e w) = core w" "core (skipQuestion e w) = core w"
  "core (stopPipeline w) = core w" "core (waitForPipelineStop w) = core w" "core (Player_init w) = core w"
  "core (apply_volume e v w) = core w"
  by (simp_all add: playPauseToggle_def SkipCurrentAudio_def PauseCurrentAudio_def skipQuestion_def
      stopPipeline_def waitForPipelineStop_def Player_init_def apply_volume_def)

lemma core_writeVolume: "writeVolume w = Some w' \<Longrightarrow> core w' = core w"
  by (auto simp: writeVolume_def split: if_splits)

lemma core_volume:
  "incVolume e w = Some w' \<Longrightarrow> core w' = core w" "decVolume e w = Some w' \<Longrightarrow> core w' = core w"
  by (auto simp: incVolume_def decVolume_def Let_def dest!: core_writeVolume, simp_all add: core_def split: if_splits)

lemma core_readVolume: "readVolume w = Some w' \<Longrightarrow> core w' = core w"
  by (auto simp: readVolume_def bind_eq_Some_conv split: option.splits)

lemma core_play: "play loc w = Some w' \<Longrightarrow> core w' = core w"
  by (auto simp: play_def bind_eq_Some_conv dest: core_readVolume)

lemma core_wifi_configure: "wifi_configure s p w = Some w' \<Longrightarrow> core w' = core w"
  by (auto simp: wifi_configure_def bind_eq_Some_conv)

lemma core_Config: "ConfigSdCardCredentials w = Some (w', rc) \<Longrightarrow> core w' = core w"
  using core_wifi(6) [of w]
  by (auto simp: ConfigSdCardCredentials_def bind_eq_Some_conv split_beta dest!: core_wifi_configure
      split: if_splits prod.splits)

lemma core_writeCredentials: "writeCredentials s p w = Some w' \<Longrightarrow> core w' = core w"
  by (auto simp: writeCredentials_def bind_eq_Some_conv Let_def)

lemma core_bleWriteCredentials: "bleWriteCredentials s p w = Some (w', ok) \<Longrightarrow> core w' = core w"
  using core_wifi
  by (auto simp: bleWriteCredentials_def bind_eq_Some_conv split_beta
      dest!: core_wifi_configure core_writeCredentials split: if_splits)

lemma core_run_events:
  "(\<And>e w w'. cb e w = Some w' \<Longrightarrow> core w' = core w) \<Longrightarrow> run_events cb es w = Some w' \<Longrightarrow> core w' = core w"
  by (induction es arbitrary: w) (fastforce simp: bind_eq_Some_conv)+

lemma core_glob_same: "qnaAttempt (f (glob w)) = qnaAttempt (glob w) \<Longrightarrow> core (on_glob f w) = core w"
  by (simp add: core_def on_defs)

lemma core_sys_same:
  "sys_state (f (sys w)) = sys_state (sys w) \<Longrightarrow> playerGoBackToState (f (sys w)) = playerGoBackToState (sys w) \<Longrightarrow>
   core (on_sys f w) = core w"
  by (simp add: core_def on_defs)

lemma core_TokenCallback: "TokenCallback e w = Some w' \<Longrightarrow> core w' = core w"
  by (auto simp: TokenCallback_def token_header_def bind_eq_Some_conv core_glob_same
      split: http_event.splits if_splits)

lemma core_InitializerCallback: "InitializerCallback e w = Some w' \<Longrightarrow> core w' = core w"
  by (auto simp: InitializerCallback_def bind_eq_Some_conv core_glob_same split: http_event.splits)

lemma core_downloadToken: "downloadToken t w = Some w' \<Longrightarrow> core w' = core w"
proof -
  assume d: "downloadToken t w = Some w'"
  consider "w' = w" | "w' = fst (connect w)" | w2 w4 where "w2 = on_glob (\<lambda>g. g\<lparr>tokenRequestFlag := True\<rparr>) (fst (connect w))"
    "run_events TokenCallback (events (snd (perform w2))) (fst (perform w2)) = Some w4"
    "w' = on_glob (\<lambda>g. g\<lparr>tokenRequestFlag := False\<rparr>) w4"
    using d by (auto simp: downloadToken_def bind_eq_Some_conv split_beta Let_def split: if_splits)
  then show ?thesis
  proof cases
    case 3
    have "core w4 = core (fst (perform w2))"
      using core_run_events [OF core_TokenCallback 3(2)] .
    then show ?thesis using 3 by (simp add: core_glob_same)
  qed simp_all
qed

lemma core_writeUserID: "writeUserID k u w = Some w' \<Longrightarrow> core w' = core w"
  by (auto simp: writeUserID_def bind_eq_Some_conv core_sys_same Let_def split: if_splits)

lemma core_user_answer: "user_answer cj j k n u w = Some w' \<Longrightarrow> core w' = core w"
  by (auto simp: user_answer_def bind_eq_Some_conv dest!: core_writeUserID split: if_splits)

lemma core_verify:
  assumes "verifyUserIdWithServer cj w = Some (w', ok)"
  shows "core w' = core w"
proof -
  obtain w1 where w1: "core w1 = core w" and v: "(let (w2, rc) = connect w1 in
      if rc = 0 then do {
        postData \<leftarrow> sprintf_buf 500 (''{\"macAddress\": \"'' @ cstr (macID (sys w2)) @ ''\",\"user1Id\": \"'' @
          cstr (init_user1 (sys w2)) @ ''\",\"user2Id\": \"'' @ cstr (init_user2 (sys w2)) @ ''\"}'');
        let (w3, r) = perform w2;
        w4 \<leftarrow> run_events InitializerCallback (events r) w3;
        if \<not> perform_ok r then Some (fst (disconnect w4), False)
        else (case parse cj (cstr (sys_outputBuff (glob w4))) of
                None \<Rightarrow> Some (w4, False)
              | Some j \<Rightarrow> do {
                  w5 \<leftarrow> (if cstr (init_user1 (sys w4)) \<noteq> []
                        then user_answer cj j ''user1'' 1 (init_user1 (sys w4)) w4
                        else if cstr (init_user2 (sys w4)) \<noteq> []
                        then user_answer cj j ''user2'' 2 (init_user2 (sys w4)) w4
                        else Some w4);
                  Some (fst (disconnect w5), True)
                })
      } else Some (fst (disconnect w2), True)) = Some (w', ok)"
    using assms unfolding verifyUserIdWithServer_def bind_eq_Some_conv
    by (metis (no_types, lifting) core_downloadToken option.inject)
  obtain w2 rc where c: "connect w1 = (w2, rc)" by fastforce
  have c2: "core w2 = core w1" using core_wifi(3) [of w1] c by simp
  show ?thesis
  proof (cases "rc = 0")
    case True
    obtain w3 r where pf: "perform w2 = (w3, r)" by fastforce
    have c3: "core w3 = core w2" using core_perform [of w2] pf by simp
    obtain w4 where w4: "run_events InitializerCallback (events r) w3 = Some w4"
      using v True c pf by (auto simp: bind_eq_Some_conv)
    have "core w4 = core w3" using core_run_events [OF core_InitializerCallback w4] .
    moreover have "core w' = core w4"
      using v True c pf w4
      by (auto simp: bind_eq_Some_conv dest: core_user_answer split: if_splits option.splits)
    ultimately show ?thesis using c2 c3 w1 by simp
  next
    case False
    then show ?thesis using v c c2 w1 by auto
  qed
qed

section \<open>One handler call keeps the protocol\<close>

lemma sys_state_set_state [simp]:
  "sys_state (sys (set_state t st w)) = st" "glob (set_state t st w) = glob w"
  "playerGoBackToState (sys (set_state t st w)) = playerGoBackToState (sys w)"
  by (simp_all add: set_state_def setState_def on_sys_def Let_def)

lemma calm_set_state [simp]:
  "st \<noteq> SYS_WAIT_FOR_PLAYER \<Longrightarrow> calm (set_state t st w) \<longleftrightarrow> calm_state st"
  by (simp add: calm_def)

lemma play_then_result:
  assumes "play_then t loc back w = Some w'"
  shows "sys_state (sys w') = SYS_WAIT_FOR_PLAYER" "playerGoBackToState (sys w') = back"
    "qnaAttempt (glob w') = qnaAttempt (glob w)"
  using assms core_play [of loc w]
  by (auto simp: play_then_def bind_eq_Some_conv on_sys_def core_def)

lemma play_then_calm: "play_then t loc back w = Some w' \<Longrightarrow> calm_return back \<Longrightarrow> calm w'"
  using play_then_result [of t loc _ w w'] by (fastforce simp: calm_def)

lemma tone_then_calm:
  assumes "tone_then t tone st w = Some w'" "calm_return st" "st \<noteq> SYS_WAIT_FOR_PLAYER"
  shows "calm w'"
  using assms play_then_calm [of t tone st w w']
  by (auto simp: tone_then_def calm_return_def split: option.splits)

lemma battery_gate_calm:
  assumes "battery_gate t st w = Some w'" "calm_state st" "st \<noteq> SYS_WAIT_FOR_PLAYER"
  shows "calm w'"
  using assms tone_then_calm [of t BAT_LOW_TONE SYS_SHUT_ME_DOWN w w']
  by (auto simp: battery_gate_def low_battery_def Let_def calm_return_def calm_state_def split: if_splits)

lemma core_load_theme:
  assumes "load_theme w = Some w'"
  shows "core w' = core w"
proof -
  obtain loc where w': "w' = (case fopen_r (sd w) loc of
             None \<Rightarrow> w
           | Some content \<Rightarrow>
               (case fgets 16 content of
                  None \<Rightarrow> w
                | Some (colorString, _) \<Rightarrow>
                    (let tc = scan_into (themeColor (glob w)) word_of_int colorString;
                         c = (\<lambda>k. uint (tc ! k))
                     in on_led (\<lambda>l. setRightEarColor (c 0) (c 1) (c 2)
                          (setLeftEarColor (c 0) (c 1) (c 2) (setLandingPadColor (c 0) (c 1) (c 2) l)))
                        (on_glob (\<lambda>g. g\<lparr>themeColor := tc\<rparr>) w))))"
    using assms unfolding load_theme_def bind_eq_Some_conv by blast
  show ?thesis
  proof (cases "fopen_r (sd w) loc")
    case (Some content)
    then show ?thesis
      using w' by (cases "fgets 16 content") (simp_all add: split_beta Let_def core_glob_same)
  qed (simp add: w')
qed

lemma core_readHeader: "readHeader cj w = Some w' \<Longrightarrow> core w' = core w"
  by (auto simp: readHeader_def bind_eq_Some_conv core_glob_same split: option.splits)

lemma core_idle_removed: "core (idle_removed i w) = core w"
  by (simp add: idle_removed_def Let_def core_sys_same)

lemma select_qna:
  "select_audio cj w = Some w' \<Longrightarrow> qnaAttempt (glob w') = qnaAttempt (glob w)"
  "select_answer cj x w = Some w' \<Longrightarrow> qnaAttempt (glob w') = qnaAttempt (glob w)"
  by (auto simp: select_audio_def select_answer_def bind_eq_Some_conv on_defs)

lemma calm_IDLE:
  assumes "do_IDLE i w = Some w'" "sys_state (sys w) = SYS_IDLE"
  shows "calm w'"
proof (cases "elapsed (i_now i) (idleSinceTick (sys w)) 300000")
  case True
  then show ?thesis using assms by (auto simp: do_IDLE_def calm_state_def)
next
  case False
  obtain w1 w2 where w: "idle_battery i w = Some w1" "idle_toy i w1 = Some w2" "w' = idle_removed i w2"
    using False assms by (auto simp: do_IDLE_def bind_eq_Some_conv)
  have "calm w" using assms(2) by (simp add: calm_defs)
  then have "calm w1"
    using w(1) tone_then_calm [of "i_now i" BAT_LOW_TONE SYS_SHUT_ME_DOWN w w1]
    by (auto simp: idle_battery_def low_battery_def Let_def calm_state_def split: if_splits)
  then have "calm w2"
    using w(2) tone_then_calm [of "i_now i" TOY_DETECT_TONE SYS_TOY_DETECTED _ w2]
    by (auto simp: idle_toy_def Let_def calm_state_def split: if_splits)
  then show ?thesis
    using w(3) calm_core [OF core_idle_removed, of i w2] by blast
qed

lemma calm_GET_DIRECTION: "do_GET_DIRECTION cj i w = Some w' \<Longrightarrow> calm w'"
  by (auto simp: do_GET_DIRECTION_def Let_def bind_eq_Some_conv load_direction_def calm_state_def
      calm_core [OF core_load_theme] dest!: battery_gate_calm split: option.splits)

lemma CheckPlaying_core: "CheckPlayingCompleted m w = (w', b) \<Longrightarrow> core w' = core w"
  by (auto simp: CheckPlayingCompleted_def Let_def core_glob_same split: if_splits)

lemma qna_WAIT_FOR_PLAYER:
  assumes "qna_inv n w" "sys_state (sys w) = SYS_WAIT_FOR_PLAYER"
  shows "qna_inv n (do_WAIT_FOR_PLAYER i w)"
proof -
  obtain w1 b where c: "CheckPlayingCompleted (i_msg i) w = (w1, b)" by fastforce
  have c1: "core w1 = core w" by (rule CheckPlaying_core [OF c])
  then have g: "playerGoBackToState (sys w1) = playerGoBackToState (sys w)"
    "qnaAttempt (glob w1) = qnaAttempt (glob w)" by (simp_all add: core_def)
  have "glob (playPauseToggle (i_el i) w) = glob w"
    by (simp add: playPauseToggle_def call_def)
  then show ?thesis
    using assms g qna_inv_core [OF c1, of n]
    by (auto simp: do_WAIT_FOR_PLAYER_def c Let_def qna_inv_def calm_defs waiting_answer_def on_glob_def)
qed

lemma core_ReadBox: "ReadBoxUniqueID w = Some (w', b) \<Longrightarrow> core w' = core w"
  by (auto simp: ReadBoxUniqueID_def bind_eq_Some_conv core_sys_same split: option.splits)

lemma handler_calm:
  assumes h: "System_handler cj i w = Some w'"
    and st: "sys_state (sys w) \<notin> {SYS_WAIT_FOR_PLAYER, SYS_PLAY_QNA, SYS_WAIT_QNA_RESP, SYS_INCORRECT_ANS_TRY1}"
  shows "calm w'"
proof (cases "sys_state (sys w)")
  case SYS_POST
  then show ?thesis
    using h battery_gate_calm [of "i_now i" SYS_INIT w w'] by (simp add: System_handler_def do_POST_def)
next
  case SYS_INIT
  then show ?thesis
    using h tone_then_calm [of "i_now i" STARTUP_TONE SYS_IDLE _ w']
    by (auto simp: System_handler_def do_INIT_def)
next
  case SYS_IDLE
  then show ?thesis using h calm_IDLE [of i w w'] by (simp add: System_handler_def)
next
  case SYS_INIT_WIFI_CHECK
  then show ?thesis
    using h by (auto simp: System_handler_def do_INIT_WIFI_CHECK_def bind_eq_Some_conv calm_state_def)
next
  case SYS_INIT_USER_ID_CHECK
  then obtain w1 ok where v: "verifyUserIdWithServer cj w = Some (w1, ok)"
    "w' = (if ok then set_state (i_now i) SYS_IDLE w1 else w1)"
    using h by (auto simp: System_handler_def do_INIT_USER_ID_CHECK_def bind_eq_Some_conv)
  have "calm w" using SYS_INIT_USER_ID_CHECK by (simp add: calm_defs)
  then show ?thesis
    using v calm_core [OF core_verify [OF v(1)]] by (auto simp: calm_state_def)
next
  case SYS_TOY_DETECTED
  then show ?thesis
    using h by (auto simp: System_handler_def do_TOY_DETECTED_def bind_eq_Some_conv Let_def calm_defs on_sys_def
        split: if_splits)
next
  case SYS_GET_DIRECTION
  then show ?thesis using h calm_GET_DIRECTION [of cj i w w'] by (simp add: System_handler_def)
next
  case SYS_READ_AUDIO_HEADER
  then show ?thesis
    using h by (auto simp: System_handler_def do_READ_AUDIO_HEADER_def bind_eq_Some_conv calm_state_def)
next
  case SYS_PLAY_NEXT
  then show ?thesis
    using h by (auto simp: System_handler_def do_PLAY_NEXT_def Let_def calm_state_def
        dest: battery_gate_calm split: if_splits)
next
  case SYS_RESUME_PLAYING
  then show ?thesis
    using h by (auto simp: System_handler_def do_RESUME_PLAYING_def resumePlaying_def calm_defs on_sys_def
        split: if_splits)
next
  case SYS_PLAY_NORMAL_AUDIO
  then show ?thesis
    using h by (auto simp: System_handler_def do_PLAY_NORMAL_AUDIO_def bind_eq_Some_conv calm_defs
        dest: play_then_result)
next
  case SYS_CORRECT_ANS
  then show ?thesis
    using h by (auto simp: System_handler_def do_CORRECT_ANS_def bind_eq_Some_conv calm_defs on_defs)
next
  case SYS_PLAY_ACTIVITY
  then show ?thesis
    using h by (auto simp: System_handler_def do_PLAY_ACTIVITY_def bind_eq_Some_conv calm_defs
        dest: play_then_result)
next
  case SYS_DOWNLOAD_WIFI_CONN
  then show ?thesis
    using h by (auto simp: System_handler_def do_DOWNLOAD_WIFI_CONN_def bind_eq_Some_conv Let_def split_beta
        calm_state_def dest: tone_then_calm split: if_splits)
       (simp_all add: calm_defs WiFi_init_def on_defs split: if_splits)
next
  case SYS_DOWNLOAD_TOY
  then show ?thesis
    using h by (auto simp: System_handler_def do_DOWNLOAD_TOY_def bind_eq_Some_conv calm_state_def)
next
  case SYS_SHUT_ME_DOWN
  then show ?thesis
    using h tone_then_calm [of "i_now i" SHUTDOWN_TONE SYS_TURN_OFF _ w']
    by (auto simp: System_handler_def do_SHUT_ME_DOWN_def)
qed (use h st in \<open>auto simp: System_handler_def do_PLAY_TOY_def do_PLAY_PREVIOUS_def Let_def
    do_WAIT_ACTIVITY_RESP_def calm_state_def calm_defs on_sys_def setPowerStatus_def
    dest: tone_then_calm split: if_splits\<close>)

lemma qna_inv_handler:
  assumes h: "System_handler cj i w = Some w'" and inv: "qna_inv n w"
  shows "qna_inv (asked_after (sys_state (sys w)) n) w'"
proof (cases "sys_state (sys w) \<in> {SYS_WAIT_FOR_PLAYER, SYS_PLAY_QNA, SYS_WAIT_QNA_RESP, SYS_INCORRECT_ANS_TRY1}")
  case False
  then show ?thesis using handler_calm [OF h] inv by (simp add: qna_inv_def asked_after_def)
next
  case True
  then consider (a) "sys_state (sys w) = SYS_WAIT_FOR_PLAYER" | (b) "sys_state (sys w) = SYS_PLAY_QNA"
    | (c) "sys_state (sys w) = SYS_WAIT_QNA_RESP" | (d) "sys_state (sys w) = SYS_INCORRECT_ANS_TRY1" by blast
  then show ?thesis
  proof cases
    case a
    then show ?thesis using h qna_WAIT_FOR_PLAYER [OF inv a, of i] by (simp add: System_handler_def asked_after_def)
  next
    case b
    obtain w1 where w1: "select_audio cj (await_response i (on_led (ear_colors (hL (headerData (glob w)))
        (hR (headerData (glob w)))) (on_glob (\<lambda>g. g\<lparr>qnaAttempt := 1\<rparr>) w))) = Some w1"
      "play_then (i_now i) (location (glob w1)) SYS_WAIT_QNA_RESP w1 = Some w'"
      using h b by (auto simp: System_handler_def do_PLAY_QNA_def bind_eq_Some_conv Let_def)
    have "qnaAttempt (glob w1) = 1"
      using select_qna(1) [OF w1(1)] by (simp add: await_response_def on_defs)
    then show ?thesis
      using play_then_result [OF w1(2)] b by (simp add: qna_inv_def waiting_answer_def asked_after_def)
  next
    case c
    then have n: "n = 1 \<or> n = 2" "unat (qnaAttempt (glob w)) = n"
      using inv by (auto simp: qna_inv_def calm_defs)
    then have "qnaAttempt (glob w) = 1 \<longleftrightarrow> n = 1" "qnaAttempt (glob w) = 2 \<longleftrightarrow> n = 2"
      by (auto simp: word_unat_eq_iff)
    then show ?thesis
      using h inv c n by (auto simp: System_handler_def do_WAIT_QNA_RESP_def Let_def qna_inv_def calm_defs
          asked_after_def split: if_splits)
  next
    case d
    then have "n = 1" using inv by (auto simp: qna_inv_def calm_defs waiting_answer_def)
    then show ?thesis
      using h d by (auto simp: System_handler_def do_INCORRECT_ANS_TRY1_def bind_eq_Some_conv qna_inv_def
          waiting_answer_def asked_after_def on_defs)
  qed
qed

section \<open>The other tasks keep the protocol\<close>

lemma core_Qbus_write:
  assumes "QbusRegWriteCb inp a n d w = Some (rc, d', w')"
  shows "core w' = core w \<or> sys_state (sys w') = SYS_PLAY_NEXT \<or> sys_state (sys w') = SYS_PLAY_PREVIOUS"
proof -
  have "core (Player_next t w) = core w \<or> sys_state (sys (Player_next t w)) = SYS_PLAY_NEXT"
    "core (Player_previous t w) = core w \<or> sys_state (sys (Player_previous t w)) = SYS_PLAY_PREVIOUS" for t
    by (simp_all add: Player_next_def Player_previous_def)
  then show ?thesis
    using assms
    by (auto simp: QbusRegWriteCb_def bind_eq_Some_conv core_sys_same sys_setters
        dest: core_volume split: if_splits)
qed

lemma resetToy_idle: "resetToy t e w = Some w' \<Longrightarrow> sys_state (sys w') = SYS_IDLE"
  by (auto simp: resetToy_def bind_eq_Some_conv)

lemma core_tag_update:
  assumes "tag_update inp w = Some w'"
  shows "core w' = core w \<or> sys_state (sys w') = SYS_IDLE"
proof -
  have toy: "core (on_glob (\<lambda>g. g\<lparr>previousTagUid := pt\<rparr>) (w\<lparr>sys := s\<rparr>)) = core w"
    if "setToy t (sys w) = Some s" for t s pt
    using that by (auto simp: setToy_def bind_eq_Some_conv core_def on_glob_def)
  obtain w1 f where w1: "w' = on_glob (\<lambda>g. g\<lparr>tagPresentFlag_qbus := f\<rparr>) w1"
    "core w1 = core w \<or> sys_state (sys w1) = SYS_IDLE"
  proof (cases "cstr (tagUid_qbus (glob w)) = ''0000000000000000''")
    case True
    then obtain w1 where "(if tagPresentFlag_qbus (glob w) = 1 then resetToy (now inp) (el inp) w else Some w) = Some w1"
      "w' = on_glob (\<lambda>g. g\<lparr>tagPresentFlag_qbus := 0\<rparr>) w1"
      using assms by (simp add: tag_update_def bind_eq_Some_conv) blast
    then show thesis
      using that [of 0 w1] resetToy_idle [of "now inp" "el inp" w w1] by (simp split: if_splits)
  next
    case False
    then obtain w1 where "(if tagPresentFlag_qbus (glob w) = 0 \<or>
          take 16 (cstr (previousTagUid (glob w))) \<noteq> take 16 (cstr (tagUid_qbus (glob w)))
        then do {
          pt \<leftarrow> strncpy (previousTagUid (glob w)) (tagUid_qbus (glob w)) 16;
          s \<leftarrow> setToy (tagUid_qbus (glob w)) (sys w);
          Some (on_glob (\<lambda>g. g\<lparr>previousTagUid := pt\<rparr>) (w\<lparr>sys := s\<rparr>))
        } else Some w) = Some w1" "w' = on_glob (\<lambda>g. g\<lparr>tagPresentFlag_qbus := 1\<rparr>) w1"
      using assms by (simp add: tag_update_def bind_eq_Some_conv) blast
    moreover from this(1) have "core w1 = core w"
      using toy by (auto simp: bind_eq_Some_conv split: if_splits)
    ultimately show thesis using that [of 1 w1] by simp
  qed
  then show ?thesis by (simp add: core_glob_same on_glob_def core_def)
qed

lemma core_tag_process:
  assumes "tag_process inp fb w = Some w'"
  shows "core w' = core w \<or> sys_state (sys w') = SYS_IDLE"
proof -
  obtain uid b c where "tag_update inp (on_sys (\<lambda>s. setChargingStatus c (setBatteryLevel b s))
      (on_glob (\<lambda>g. g\<lparr>tagUid_qbus := uid\<rparr>) w)) = Some w'"
    using assms unfolding tag_process_def bind_eq_Some_conv by blast
  moreover have "core (on_sys (\<lambda>s. setChargingStatus c (setBatteryLevel b s))
      (on_glob (\<lambda>g. g\<lparr>tagUid_qbus := uid\<rparr>) w)) = core w"
    by (simp add: core_sys_same core_glob_same sys_setters)
  ultimately show ?thesis using core_tag_update by metis
qed

lemma qna_inv_task:
  assumes "task_step w w'" "qna_inv n w"
  shows "qna_inv n w'"
proof -
  have n: "n \<le> 2" using assms(2) by (simp add: qna_inv_def)
  have calm: "qna_inv n v" if "sys_state (sys v) \<in> {SYS_IDLE, SYS_PLAY_NEXT, SYS_PLAY_PREVIOUS, SYS_INIT_WIFI_CHECK, SYS_INIT_USER_ID_CHECK}" for v :: "'a world"
    using that n by (intro calm_inv) (auto simp: calm_defs)
  show ?thesis
    using assms(1)
  proof cases
    case (bus_write inp a n d rc d')
    then show ?thesis
      using core_Qbus_write [OF bus_write] qna_inv_core [of w' w] calm [of w'] assms(2) by auto
  next
    case (bus_tag inp fb)
    then show ?thesis
      using core_tag_process [OF bus_tag] qna_inv_core [of w' w] calm [of w'] assms(2) by auto
  next
    case (ble_initialize t ssid pw u s)
    then show ?thesis by (intro calm) (auto simp: System_initialize_def bind_eq_Some_conv setState_def)
  next
    case (ble_user t u k s)
    then show ?thesis by (intro calm) (auto simp: verifyUserID_def bind_eq_Some_conv setState_def)
  next
    case (ble_credentials s p ok)
    then show ?thesis
      using assms(2) qna_inv_core [OF core_bleWriteCredentials] by blast
  qed
qed

lemma dev_reach_qna: "dev_reach cj n w \<Longrightarrow> qna_inv n w"
proof (induction rule: dev_reach.induct)
  case (power_on w)
  then show ?case by (simp add: calm_inv calm_defs)
next
  case (handler n w i w')
  then show ?case using qna_inv_handler by blast
next
  case (other n w w')
  then show ?case using qna_inv_task by blast
qed

section \<open>Example situations\<close>

definition quiet_inputs :: "u32 \<Rightarrow> sys_inputs" where
  "quiet_inputs t = \<lparr>i_now = t, i_el = AEL_STATE_NONE,
     i_msg = \<lparr>is_element = False, msg_source = From_other, msg_cmd = CMD_other, msg_data = DATA_other\<rparr>,
     i_seconds = 0\<rparr>"

definition at_state :: "system_states_et \<Rightarrow> u8 \<Rightarrow> nat world" where
  "at_state st battery = boot_world\<lparr>sys := boot_System\<lparr>sys_state := st, batteryLevel := battery,
     leftEarButtonState := False\<rparr>\<rparr>"

text \<open>A reachable state that waits for an answer: a question on the card, taken up to the prompt.\<close>

definition qna_json :: "nat cJSON" where
  "qna_json = \<lparr>parse = (\<lambda>_. Some 0),
     get_object_item = (\<lambda>j k. if j = 0 \<and> k = ''1'' then Some 3 else None),
     get_object_item_cs = (\<lambda>_ _. None), get_array_size = (\<lambda>j. if j = 0 then 1 else 0),
     get_array_item = (\<lambda>_ _. None), is_array = (\<lambda>_. False), is_true = (\<lambda>_. False),
     item_string = (\<lambda>j. if j = 3 then Some ''q1'' else None), item_int = (\<lambda>_. None), valueint = (\<lambda>_. 0)\<rparr>"

section \<open>Properties\<close>

text \<open>
  C15. A question never gets stuck and is asked at most twice. In every reachable state the current
  question has been asked at most twice. In one that waits for the answer, a pressed ear or ten seconds
  of silence moves the handler on: to the correct answer, or, when the question was asked only once, to
  the second attempt.
\<close>

theorem qna_terminates:
  assumes "dev_reach cj n w"
  shows "n \<le> 2 \<and>
    (sys_state (sys w) = SYS_WAIT_QNA_RESP \<and>
       (leftEarButtonState (sys w) \<or> rightEarButtonState (sys w) \<or>
        elapsed (i_now i) (responseWaitTick (glob w)) 10000) \<longrightarrow>
     (\<exists>w'. System_handler cj i w = Some w' \<and>
        (sys_state (sys w') = SYS_CORRECT_ANS \<or> sys_state (sys w') = SYS_INCORRECT_ANS_TRY1 \<and> n = 1)))"
proof (intro conjI impI)
  have inv: "qna_inv n w" by (rule dev_reach_qna [OF assms])
  then show "n \<le> 2" by (simp add: qna_inv_def)
  assume w: "sys_state (sys w) = SYS_WAIT_QNA_RESP \<and>
    (leftEarButtonState (sys w) \<or> rightEarButtonState (sys w) \<or> elapsed (i_now i) (responseWaitTick (glob w)) 10000)"
  then have n: "n = 1 \<or> n = 2" "unat (qnaAttempt (glob w)) = n"
    using inv by (auto simp: qna_inv_def calm_defs)
  then have "qnaAttempt (glob w) = 1 \<and> n = 1 \<or> qnaAttempt (glob w) = 2 \<and> n = 2"
    by (auto simp: word_unat_eq_iff)
  then show "\<exists>w'. System_handler cj i w = Some w' \<and>
      (sys_state (sys w') = SYS_CORRECT_ANS \<or> sys_state (sys w') = SYS_INCORRECT_ANS_TRY1 \<and> n = 1)"
    using w by (auto simp: System_handler_def do_WAIT_QNA_RESP_def Let_def sys_setters(10,11) getLeftEarButton_def
        getRightEarButton_def)
qed

text \<open>
  The witness runs the device from power-on to a question: the low-battery tone, the button for
  the previous file, the prompt of the question, and a pressed ear.
\<close>

definition qna_start :: "nat world" where
  "qna_start = boot_world\<lparr>sys := boot_System\<lparr>batteryLevel := 30, sys_json := Some 0\<rparr>,
     glob := boot_globals\<lparr>indexx := 1, headerData := (headerData boot_globals)\<lparr>hT := 1\<rparr>\<rparr>,
     sd := (sd (boot_world :: nat world))\<lparr>files := [BAT_LOW_TONE \<mapsto> ''tone'']\<rparr>\<rparr>"

definition press :: "nat \<Rightarrow> u8 \<Rightarrow> nat world \<Rightarrow> nat world option" where
  "press a b w = map_option (\<lambda>(rc, d, w'). w') (QbusRegWriteCb \<lparr>now = 7, el = AEL_STATE_NONE\<rparr> a 1 [b] w)"

definition qna_run :: "nat world option" where
  "qna_run = do {
     w1 \<leftarrow> System_handler qna_json (quiet_inputs 5) qna_start;
     w2 \<leftarrow> press 0x5000 2 w1;
     w3 \<leftarrow> System_handler qna_json (quiet_inputs 8) w2;
     w4 \<leftarrow> System_handler qna_json (quiet_inputs 9) w3;
     w5 \<leftarrow> System_handler qna_json (quiet_inputs 10) w4;
     w6 \<leftarrow> press 0x7000 1 w5;
     System_handler qna_json (quiet_inputs 11) w6
   }"

lemma press_reach: "dev_reach qna_json n w \<Longrightarrow> press a b w = Some w' \<Longrightarrow> dev_reach qna_json n w'"
  by (auto simp: press_def intro: dev_reach.other task_step.bus_write)

lemma play_ok:
  assumes "fopen_r (sd w) VOLUME_SDCARD_LOCATION = None"
  shows "\<exists>w'. play loc w = Some w' \<and> sys w' = sys w \<and> glob w' = glob w \<and> sd w' = sd w"
  using assms by (simp add: play_def readVolume_def on_defs)

lemma play_then_ok:
  assumes "fopen_r (sd w) VOLUME_SDCARD_LOCATION = None"
  shows "\<exists>w'. play_then t loc back w = Some w' \<and> glob w' = glob w \<and> sd w' = sd w \<and>
    sys w' = (sys w)\<lparr>playerGoBackToState := back, sys_state := SYS_WAIT_FOR_PLAYER\<rparr>"
  using play_ok [OF assms, of loc]
  by (auto simp: play_then_def set_state_def setState_def on_sys_def Let_def)

lemma qna_one: "sprintf_buf 4 (printf_d 1) = Some ''1''"
  by code_simp

lemma qna_run_state:
  "\<exists>w. qna_run = Some w \<and> dev_reach qna_json 1 w \<and> sys_state (sys w) = SYS_WAIT_QNA_RESP \<and> leftEarButtonState (sys w)"
proof -
  let ?f = "[BAT_LOW_TONE \<mapsto> ''tone'']"
  have v: "fopen_r (sd w) VOLUME_SDCARD_LOCATION = None" if "files (sd w) = ?f" for w :: "nat world"
    by (simp add: fopen_r_def that)
  have f0: "files (sd qna_start) = ?f" by (simp add: qna_start_def)
  have s0: "sys_state (sys qna_start) = SYS_POST" "batteryLevel (sys qna_start) = 30"
    "chargingState (sys qna_start) = 0" "sys_json (sys qna_start) = Some 0"
    "indexx (glob qna_start) = 1" "hT (headerData (glob qna_start)) = 1"
    by (simp_all add: qna_start_def boot_System_def)
  obtain w1 where w1: "System_handler qna_json (quiet_inputs 5) qna_start = Some w1"
    "files (sd w1) = ?f" "glob w1 = glob qna_start" "sys_state (sys w1) = SYS_WAIT_FOR_PLAYER"
    "sys_json (sys w1) = Some 0"
    using play_then_ok [OF v [OF f0], of 5 BAT_LOW_TONE SYS_SHUT_ME_DOWN] s0 f0
    by (auto simp: System_handler_def do_POST_def battery_gate_def low_battery_def tone_then_def
        getBatteryLevel_def getChargingStatus_def fopen_r_def quiet_inputs_def)
  obtain w2 where w2: "press 0x5000 2 w1 = Some w2" "files (sd w2) = ?f" "glob w2 = glob qna_start"
    "sys_state (sys w2) = SYS_PLAY_PREVIOUS" "sys_json (sys w2) = Some 0"
    using w1 s0 by (auto simp: press_def QbusRegWriteCb_def in_range_def Player_previous_def
        less_system_states_et_def set_state_def setState_def on_sys_def)
  obtain w3 where w3: "System_handler qna_json (quiet_inputs 8) w2 = Some w3" "files (sd w3) = ?f"
    "indexx (glob w3) = 0" "hT (headerData (glob w3)) = 1" "sys_state (sys w3) = SYS_READ_AUDIO_HEADER"
    "sys_json (sys w3) = Some 0"
    using w2 s0 by (auto simp: System_handler_def do_PLAY_PREVIOUS_def SkipCurrentAudio_def audible_def
        quiet_inputs_def Let_def set_state_def setState_def on_defs)
  have rh: "readHeader qna_json w3 = Some w3"
    using w3(2,3,6) qna_one
    by (simp add: readHeader_def audio_name_def qna_json_def sprintf_buf_def fopen_r_def)
  obtain w4 where w4: "System_handler qna_json (quiet_inputs 9) w3 = Some w4" "files (sd w4) = ?f"
    "indexx (glob w4) = 0" "sys_state (sys w4) = SYS_PLAY_QNA" "sys_json (sys w4) = Some 0"
    using w3 rh by (auto simp: System_handler_def do_READ_AUDIO_HEADER_def set_state_def setState_def on_sys_def Let_def)
  let ?w = "await_response (quiet_inputs 10) (on_led (ear_colors (hL (headerData (glob w4)))
    (hR (headerData (glob w4)))) (on_glob (\<lambda>g. g\<lparr>qnaAttempt := 1\<rparr>) w4))"
  let ?v = "on_glob (\<lambda>g. g\<lparr>audioIndex := ''1'', location := ''/sdcard/media/audio/q1.mp3'',
    playerFilename := ''q1''\<rparr>) ?w"
  have sel: "select_audio qna_json ?w = Some ?v"
    using w4(3,5) qna_one
    by (simp add: select_audio_def audio_name_def qna_json_def sprintf_buf_def await_response_def on_defs
        setRightEarButton_def setLeftEarButton_def)
  have "files (sd ?v) = ?f" using w4(2) by (simp add: await_response_def on_defs)
  from play_then_ok [OF v [OF this], of 10 "location (glob ?v)" SYS_WAIT_QNA_RESP]
  obtain w5 where w5: "play_then 10 (location (glob ?v)) SYS_WAIT_QNA_RESP ?v = Some w5"
    "glob w5 = glob ?v" "sys w5 = (sys ?v)\<lparr>playerGoBackToState := SYS_WAIT_QNA_RESP, sys_state := SYS_WAIT_FOR_PLAYER\<rparr>"
    by blast
  have h5: "System_handler qna_json (quiet_inputs 10) w4 = Some w5"
    using w4(4) sel w5(1) by (simp add: System_handler_def do_PLAY_QNA_def Let_def quiet_inputs_def)
  obtain w6 where w6: "press 0x7000 1 w5 = Some w6" "sys_state (sys w6) = SYS_WAIT_FOR_PLAYER"
    "playerGoBackToState (sys w6) = SYS_WAIT_QNA_RESP" "leftEarButtonState (sys w6)"
    using w5(3) by (auto simp: press_def QbusRegWriteCb_def in_range_def skipQuestion_def SkipCurrentAudio_def
        audible_def on_defs setLeftEarButton_def)
  obtain w7 where w7: "System_handler qna_json (quiet_inputs 11) w6 = Some w7"
    "sys_state (sys w7) = SYS_WAIT_QNA_RESP" "leftEarButtonState (sys w7)"
    using w6 by (auto simp: System_handler_def do_WAIT_FOR_PLAYER_def Let_def getLeftEarButton_def
        playPauseToggle_def quiet_inputs_def set_state_def setState_def on_sys_def)
  have "dev_reach qna_json 0 qna_start" using s0(1) by (rule power_on)
  from dev_reach.handler [OF this w1(1)] have "dev_reach qna_json 0 w1" using s0(1) by (simp add: asked_after_def)
  from dev_reach.handler [OF press_reach [OF this w2(1)] w3(1)]
  have "dev_reach qna_json 0 w3" using w2(4) by (simp add: asked_after_def)
  from dev_reach.handler [OF this w4(1)] have "dev_reach qna_json 0 w4" using w3(5) by (simp add: asked_after_def)
  from dev_reach.handler [OF this h5] have "dev_reach qna_json 1 w5" using w4(4) by (simp add: asked_after_def)
  from dev_reach.handler [OF press_reach [OF this w6(1)] w7(1)]
  have "dev_reach qna_json 1 w7" using w6(2) by (simp add: asked_after_def)
  then show ?thesis using w1(1) w2(1) w3(1) w4(1) h5 w6(1) w7 by (simp add: qna_run_def)
qed

theorem qna_terminates_witness:
  "\<exists>w w'. qna_run = Some w \<and> dev_reach qna_json 1 w \<and> System_handler qna_json (quiet_inputs 20000) w = Some w' \<and>
     (sys_state (sys w') = SYS_CORRECT_ANS \<or> sys_state (sys w') = SYS_INCORRECT_ANS_TRY1)"
proof -
  obtain w where w: "qna_run = Some w" "dev_reach qna_json 1 w" "sys_state (sys w) = SYS_WAIT_QNA_RESP" "leftEarButtonState (sys w)"
    using qna_run_state by blast
  then show ?thesis using qna_terminates [OF w(2), of "quiet_inputs 20000"] by blast
qed

text \<open>A battery that is too weak: below 28 percent, or below 35 and not charging.\<close>

definition flat :: "'j world \<Rightarrow> bool" where
  "flat w \<longleftrightarrow> uint (batteryLevel (sys w)) < 28 \<or> uint (batteryLevel (sys w)) < 35 \<and> chargingState (sys w) = 0"

definition guarded :: "system_states_et \<Rightarrow> bool" where
  "guarded st \<longleftrightarrow> st = SYS_INIT \<or> st = SYS_READ_AUDIO_HEADER"

lemma flat_gate:
  assumes "battery_gate t st v = Some v'" "flat v"
  shows "\<not> guarded (sys_state (sys v'))"
  using assms play_then_result(1) [of t BAT_LOW_TONE SYS_SHUT_ME_DOWN v v']
  by (auto simp: battery_gate_def low_battery_def tone_then_def getBatteryLevel_def getChargingStatus_def flat_def
      guarded_def Let_def split: if_splits option.splits)

lemma tone_then_state:
  "tone_then t tone st v = Some v' \<Longrightarrow> sys_state (sys v') = st \<or> sys_state (sys v') = SYS_WAIT_FOR_PLAYER"
  using play_then_result(1) [of t tone st v v'] by (auto simp: tone_then_def split: option.splits)

lemma play_then_state: "play_then t loc st v = Some v' \<Longrightarrow> sys_state (sys v') = SYS_WAIT_FOR_PLAYER"
  by (rule play_then_result(1))

lemma flat_IDLE:
  assumes "do_IDLE i w = Some w'" "sys_state (sys w) = SYS_IDLE" "flat w"
  shows "\<not> guarded (sys_state (sys w'))"
proof (cases "elapsed (i_now i) (idleSinceTick (sys w)) 300000")
  case True
  then show ?thesis using assms by (auto simp: do_IDLE_def guarded_def)
next
  case False
  obtain w1 w2 where w: "idle_battery i w = Some w1" "idle_toy i w1 = Some w2" "w' = idle_removed i w2"
    using False assms by (auto simp: do_IDLE_def bind_eq_Some_conv)
  have "uint (batteryLevel (sys w)) < 28 \<or> chargingState (sys w) = 0" using assms(3) by (auto simp: flat_def)
  then have "\<not> guarded (sys_state (sys w1))"
    using w(1) assms(2) tone_then_state [of "i_now i" BAT_LOW_TONE SYS_SHUT_ME_DOWN w w1]
    by (auto simp: idle_battery_def low_battery_def getBatteryLevel_def getChargingStatus_def guarded_def Let_def
        split: if_splits)
  then have "\<not> guarded (sys_state (sys w2))"
    using w(2) tone_then_state [of "i_now i" TOY_DETECT_TONE SYS_TOY_DETECTED _ w2]
    by (auto simp: idle_toy_def guarded_def Let_def on_sys_def split: if_splits)
  then show ?thesis
    using w(3) core_idle_removed [of i w2] by (simp add: core_def)
qed

lemma flat_GET_DIRECTION:
  assumes "do_GET_DIRECTION cj i w = Some w'" "flat w"
  shows "\<not> guarded (sys_state (sys w'))"
proof -
  let ?w1 = "on_sys (\<lambda>s. s\<lparr>turnTable := getTurnTable s\<rparr>) w"
  have f: "flat (on_glob g (on_sys (\<lambda>s. s\<lparr>sys_json := j\<rparr>) ?w1))" for g j
    using assms(2) by (simp add: flat_def on_defs)
  show ?thesis
  proof (cases "direction_name (turnTable (sys ?w1))")
    case None
    then show ?thesis using assms(1) by (auto simp: do_GET_DIRECTION_def Let_def guarded_def)
  next
    case (Some dn)
    obtain loc w2 where l: "load_direction cj i loc ?w1 = Some w2" "load_theme w2 = Some w'"
      using assms(1) Some by (auto simp: do_GET_DIRECTION_def Let_def bind_eq_Some_conv)
    have "\<not> guarded (sys_state (sys w2))"
      using l(1) flat_gate [OF _ f] by (auto simp: load_direction_def guarded_def split: option.splits)
    then show ?thesis using core_load_theme [OF l(2)] by (simp add: core_def)
  qed
qed

lemma verify_state: "verifyUserIdWithServer cj w = Some (w', ok) \<Longrightarrow> sys_state (sys w') = sys_state (sys w)"
  using core_verify by (fastforce simp: core_def)

lemma flat_handler:
  assumes h: "System_handler cj i w = Some w'" and f: "flat w" and inv: "qna_inv n w"
    and st: "sys_state (sys w) \<noteq> SYS_PLAY_PREVIOUS"
  shows "\<not> guarded (sys_state (sys w'))"
proof (cases "sys_state (sys w)")
  case SYS_POST
  then show ?thesis using h flat_gate [OF _ f] by (simp add: System_handler_def do_POST_def)
next
  case SYS_IDLE
  then show ?thesis using h f flat_IDLE by (simp add: System_handler_def)
next
  case SYS_GET_DIRECTION
  then show ?thesis using h f flat_GET_DIRECTION by (simp add: System_handler_def)
next
  case SYS_PLAY_NEXT
  let ?w1 = "on_glob (\<lambda>g. g\<lparr>indexx := indexx g + 1\<rparr>) (SkipCurrentAudio (i_el i) w)"
  have "flat ?w1" using f by (simp add: flat_def SkipCurrentAudio_def on_defs)
  then show ?thesis
    using h SYS_PLAY_NEXT flat_gate [of "i_now i" SYS_READ_AUDIO_HEADER ?w1 w']
    by (auto simp: System_handler_def do_PLAY_NEXT_def Let_def guarded_def split: if_splits)
next
  case SYS_WAIT_FOR_PLAYER
  obtain w1 b where c: "CheckPlayingCompleted (i_msg i) w = (w1, b)" by fastforce
  have "core w1 = core w" by (rule CheckPlaying_core [OF c])
  then have "playerGoBackToState (sys w1) = playerGoBackToState (sys w)" "sys_state (sys w1) = sys_state (sys w)"
    by (simp_all add: core_def)
  then show ?thesis
    using h inv SYS_WAIT_FOR_PLAYER
    by (auto simp: System_handler_def do_WAIT_FOR_PLAYER_def c Let_def qna_inv_def calm_def waiting_answer_def guarded_def
        split: if_splits)
next
  case SYS_INIT
  then show ?thesis using h by (auto simp: System_handler_def do_INIT_def guarded_def dest!: tone_then_state)
next
  case SYS_INIT_USER_ID_CHECK
  then show ?thesis
    using h by (auto simp: System_handler_def do_INIT_USER_ID_CHECK_def bind_eq_Some_conv guarded_def dest: verify_state
        split: if_splits)
next
  case SYS_DOWNLOAD_WIFI_CONN
  then show ?thesis
    using h by (auto simp: System_handler_def do_DOWNLOAD_WIFI_CONN_def bind_eq_Some_conv Let_def split_beta guarded_def
        dest!: tone_then_state split: if_splits) (simp_all add: WiFi_init_def on_defs split: if_splits)
next
  case SYS_SHUT_ME_DOWN
  then show ?thesis
    using h by (auto simp: System_handler_def do_SHUT_ME_DOWN_def guarded_def dest!: tone_then_state)
qed (use h st in \<open>auto simp: System_handler_def bind_eq_Some_conv Let_def guarded_def on_sys_def setPowerStatus_def
    do_INIT_WIFI_CHECK_def do_TOY_DETECTED_def do_PLAY_TOY_def do_READ_AUDIO_HEADER_def do_RESUME_PLAYING_def
    resumePlaying_def do_PLAY_NORMAL_AUDIO_def do_PLAY_QNA_def do_WAIT_QNA_RESP_def do_INCORRECT_ANS_TRY1_def
    do_CORRECT_ANS_def do_PLAY_ACTIVITY_def do_WAIT_ACTIVITY_RESP_def do_DOWNLOAD_TOY_def
    dest!: tone_then_state play_then_state split: if_splits\<close>)

text \<open>
  C23. With a flat battery nothing is started, but for one state. In a reachable state with a battery
  below 28 percent, or below 35 and not charging, a handler call does not go on to initialise the
  device or to read an audio file, unless the previous file was asked for: \<open>SYS_PLAY_PREVIOUS\<close> does
  not look at the battery and goes on to read that file.
\<close>

theorem flat_battery_starts_nothing:
  assumes "dev_reach cj n w" "System_handler cj i w = Some w'"
    and "uint (batteryLevel (sys w)) < 28 \<or> uint (batteryLevel (sys w)) < 35 \<and> chargingState (sys w) = 0"
  shows "if sys_state (sys w) = SYS_PLAY_PREVIOUS then sys_state (sys w') = SYS_READ_AUDIO_HEADER
    else sys_state (sys w') \<noteq> SYS_INIT \<and> sys_state (sys w') \<noteq> SYS_READ_AUDIO_HEADER"
proof (cases "sys_state (sys w) = SYS_PLAY_PREVIOUS")
  case True
  then show ?thesis using assms(2) by (auto simp: System_handler_def do_PLAY_PREVIOUS_def Let_def)
next
  case False
  have "flat w" using assms(3) by (simp add: flat_def)
  then show ?thesis
    using flat_handler [OF assms(2) _ dev_reach_qna [OF assms(1)] False] False by (simp add: guarded_def)
qed

theorem flat_battery_starts_nothing_witness:
  "\<exists>w'. dev_reach qna_json 0 (at_state SYS_POST 20) \<and>
     System_handler qna_json (quiet_inputs 5) (at_state SYS_POST 20) = Some w' \<and> sys_state (sys w') \<noteq> SYS_INIT"
proof -
  have st: "sys_state (sys (at_state SYS_POST 20)) = SYS_POST" by (simp add: at_state_def)
  have r: "dev_reach qna_json 0 (at_state SYS_POST 20)" by (rule power_on) (rule st)
  have b: "uint (batteryLevel (sys (at_state SYS_POST 20))) < 28 \<or>
     uint (batteryLevel (sys (at_state SYS_POST 20))) < 35 \<and> chargingState (sys (at_state SYS_POST 20)) = 0"
    by (simp add: at_state_def)
  obtain w' where "System_handler qna_json (quiet_inputs 5) (at_state SYS_POST 20) = Some w'"
    by (simp add: System_handler_def do_POST_def battery_gate_def getBatteryLevel_def at_state_def)
  then show ?thesis using flat_battery_starts_nothing [OF r _ b] st r by fastforce
qed

text \<open>
  Except in the idle state: there the shutdown for a critical battery is overridden when a
  toy is on the box, and the handler goes on with the toy.
\<close>

theorem idle_toy_overrides_shutdown:
  assumes "sys_state (sys w) = SYS_IDLE" "uint (batteryLevel (sys w)) < 28" "toyPresenseFlag (sys w)"
    and "\<not> elapsed (i_now i) (idleSinceTick (sys w)) 300000" "System_handler cj i w = Some w'"
  shows "sys_state (sys w') = SYS_TOY_DETECTED \<or>
    sys_state (sys w') = SYS_WAIT_FOR_PLAYER \<and> playerGoBackToState (sys w') = SYS_TOY_DETECTED"
proof -
  let ?w1 = "set_state (i_now i) SYS_SHUT_ME_DOWN w"
  have "idle_battery i w = Some ?w1"
    using assms(2) by (simp add: idle_battery_def getBatteryLevel_def Let_def)
  then obtain w2 where w2: "idle_toy i ?w1 = Some w2" "w' = idle_removed i w2"
    using assms(1,4,5) by (auto simp: System_handler_def do_IDLE_def bind_eq_Some_conv)
  have "toyPresenseFlag (sys ?w1)" using assms(3) by (simp add: set_state_def setState_def on_sys_def)
  then have "sys_state (sys w2) = SYS_TOY_DETECTED \<or>
      sys_state (sys w2) = SYS_WAIT_FOR_PLAYER \<and> playerGoBackToState (sys w2) = SYS_TOY_DETECTED"
    using w2(1) play_then_result [of "i_now i" TOY_DETECT_TONE SYS_TOY_DETECTED _ w2]
    by (auto simp: idle_toy_def tone_then_def Let_def split: if_splits option.splits)
  then show ?thesis using w2(2) core_idle_removed [of i w2] by (simp add: core_def)
qed

theorem idle_toy_overrides_shutdown_witness:
  "\<exists>w'. System_handler qna_json (quiet_inputs 5)
       (on_sys (\<lambda>s. s\<lparr>toyPresenseFlag := True\<rparr>) (at_state SYS_IDLE 10)) = Some w' \<and>
     (sys_state (sys w') = SYS_TOY_DETECTED \<or> playerGoBackToState (sys w') = SYS_TOY_DETECTED)"
proof -
  let ?w = "on_sys (\<lambda>s. s\<lparr>toyPresenseFlag := True\<rparr>) (at_state SYS_IDLE 10)"
  have h: "sys_state (sys ?w) = SYS_IDLE" "uint (batteryLevel (sys ?w)) < 28" "toyPresenseFlag (sys ?w)"
    "\<not> elapsed (i_now (quiet_inputs 5)) (idleSinceTick (sys ?w)) 300000"
    by (simp_all add: at_state_def on_defs boot_System_def elapsed_def TimeSpent_def quiet_inputs_def)
  have "cstr (toy (sys ?w)) = cstr (previousToy (sys ?w))" by (simp add: at_state_def on_defs boot_System_def)
  then have "\<exists>w'. System_handler qna_json (quiet_inputs 5) ?w = Some w'"
    using h by (simp add: System_handler_def do_IDLE_def idle_battery_def idle_toy_def getBatteryLevel_def
        set_state_def setState_def on_sys_def Let_def)
  then show ?thesis using idle_toy_overrides_shutdown [OF h] by blast
qed

text \<open>
  The button that asks for the next file aborts a shutdown: while the shutdown tone plays the
  machine waits for the player, and there \<^verbatim>\<open>Player::next\<close> sends it on to the next file
  instead of to the power-off.
\<close>

theorem next_button_aborts_shutdown:
  assumes "sys_state (sys w) = SYS_SHUT_ME_DOWN" "fopen_r (sd w) SHUTDOWN_TONE = Some tone"
    and "System_handler cj i w = Some w'"
  shows "playerGoBackToState (sys w') = SYS_TURN_OFF \<and> sys_state (sys (Player_next t w')) = SYS_PLAY_NEXT"
proof -
  let ?w1 = "on_led (\<lambda>l. setRightEarColor 255 0 0 (setLeftEarColor 255 0 0 (setLandingPadColor 255 0 0 l))) w"
  have "sd ?w1 = sd w" by (simp add: on_defs)
  then have "play_then (i_now i) SHUTDOWN_TONE SYS_TURN_OFF ?w1 = Some w'"
    using assms by (simp add: System_handler_def do_SHUT_ME_DOWN_def tone_then_def)
  note r = play_then_result [OF this]
  then show ?thesis by (simp add: Player_next_def less_system_states_et_def)
qed

theorem next_button_aborts_shutdown_witness:
  "\<exists>w'. System_handler qna_json (quiet_inputs 5)
       (on_sd (write_file SHUTDOWN_TONE ''tone'') (at_state SYS_SHUT_ME_DOWN 20)) = Some w' \<and>
     sys_state (sys (Player_next 6 w')) = SYS_PLAY_NEXT"
proof -
  let ?w = "on_sd (write_file SHUTDOWN_TONE ''tone'') (at_state SYS_SHUT_ME_DOWN 20)"
  have h: "sys_state (sys ?w) = SYS_SHUT_ME_DOWN" "fopen_r (sd ?w) SHUTDOWN_TONE = Some ''tone''"
    by (simp_all add: at_state_def on_defs)
  have "fopen_r (sd ?w) VOLUME_SDCARD_LOCATION = None"
    by (simp add: at_state_def on_defs boot_world_def, simp add: fopen_r_def)
  then have "\<exists>w'. System_handler qna_json (quiet_inputs 5) ?w = Some w'"
    using h by (simp add: System_handler_def do_SHUT_ME_DOWN_def tone_then_def play_then_def play_def
        readVolume_def on_defs)
  then show ?thesis using next_button_aborts_shutdown [OF h] by blast
qed

definition finished_msg :: audio_msg where
  "finished_msg = \<lparr>is_element = True, msg_source = From_writer, msg_cmd = REPORT_STATUS,
     msg_data = STATUS_STATE_FINISHED\<rparr>"

text \<open>A run of the handler alone.\<close>

fun handler_run :: "'j cJSON \<Rightarrow> sys_inputs list \<Rightarrow> 'j world \<Rightarrow> 'j world option" where
  "handler_run cj [] w = Some w"
| "handler_run cj (i # ins) w = Option.bind (System_handler cj i w) (handler_run cj ins)"

lemma play_returns: "\<exists>w'. play loc w = Some w' \<and> sys w' = sys w"
proof -
  have "\<exists>v. readVolume w = Some v \<and> sys v = sys w"
  proof (cases "fopen_r (sd w) VOLUME_SDCARD_LOCATION")
    case (Some c)
    have "\<exists>d. sd_read [0, 0] byte_of_chr 2 c = Some d \<and> length d = 2"
      by (simp add: sd_read_def wr_block_def min_def)
    then obtain d where "sd_read [0, 0] byte_of_chr 2 c = Some d" "length d = 2" by blast
    then show ?thesis using Some by (simp add: readVolume_def on_defs)
  qed (simp add: readVolume_def on_defs)
  then show ?thesis by (auto simp: play_def on_defs)
qed

lemma turn_off_run:
  assumes "sys_state (sys w) = SYS_TURN_OFF"
  shows "\<exists>w'. handler_run cj ins w = Some w' \<and> sys_state (sys w') = SYS_TURN_OFF \<and>
    (ins = [] \<or> powerState (sys w') = 1)"
proof -
  have "\<exists>w'. handler_run cj ins w = Some w' \<and> sys_state (sys w') = SYS_TURN_OFF \<and>
      (ins \<noteq> [] \<or> powerState (sys w) = 1 \<longrightarrow> powerState (sys w') = 1)"
    using assms
  proof (induction ins arbitrary: w)
    case (Cons i ins)
    let ?w1 = "on_sys (setPowerStatus 1) w"
    have "System_handler cj i w = Some ?w1" using Cons.prems by (simp add: System_handler_def)
    moreover have "sys_state (sys ?w1) = SYS_TURN_OFF" "powerState (sys ?w1) = 1"
      using Cons.prems by (simp_all add: setPowerStatus_def on_sys_def)
    ultimately show ?case using Cons.IH [of ?w1] by auto
  qed simp
  then show ?thesis by auto
qed

text \<open>While the tone plays a call waits, and the call that learns of its end goes on.\<close>

lemma tone_run:
  assumes "sys_state (sys w) = SYS_WAIT_FOR_PLAYER" "playerGoBackToState (sys w) = SYS_TURN_OFF"
  shows "\<exists>w'. handler_run cj ins w = Some w' \<and>
    (sys_state (sys w') = SYS_TURN_OFF \<or>
     sys_state (sys w') = SYS_WAIT_FOR_PLAYER \<and> playerGoBackToState (sys w') = SYS_TURN_OFF) \<and>
    ((\<exists>i \<in> set ins. i_msg i = finished_msg) \<longrightarrow> sys_state (sys w') = SYS_TURN_OFF)"
  using assms
proof (induction ins arbitrary: w)
  case (Cons i ins)
  obtain v b where c: "CheckPlayingCompleted (i_msg i) w = (v, b)" by fastforce
  have v: "sys_state (sys v) = SYS_WAIT_FOR_PLAYER" "playerGoBackToState (sys v) = SYS_TURN_OFF"
    using CheckPlaying_core [OF c] Cons.prems by (simp_all add: core_def)
  have b: "i_msg i = finished_msg \<Longrightarrow> b"
    using c by (auto simp: CheckPlayingCompleted_def finished_msg_def Let_def)
  show ?case
  proof (cases b)
    case True
    then show ?thesis
      using Cons.prems v c turn_off_run [of "set_state (i_now i) SYS_TURN_OFF (on_glob (\<lambda>g. g\<lparr>responseWaitTick := i_now i\<rparr>) v)" cj ins]
      by (auto simp: System_handler_def do_WAIT_FOR_PLAYER_def Let_def)
  next
    case False
    then show ?thesis
      using Cons.IH [OF v] Cons.prems c b by (auto simp: System_handler_def do_WAIT_FOR_PLAYER_def Let_def)
  qed
qed simp

text \<open>
  C29. Left to the handler, a shutdown ends with the power off. From the shutdown state every run of
  handler calls returns, whatever they learn. When the player has reported the end of the shutdown
  tone in one of them, however many it took, or when there is no such tone, the next call raises the
  power-off flag.
\<close>

theorem shutdown_turns_off:
  assumes "sys_state (sys w) = SYS_SHUT_ME_DOWN"
    and "fopen_r (sd w) SHUTDOWN_TONE = None \<or> (\<exists>i \<in> set ins. i_msg i = finished_msg)"
  shows "\<exists>w'. handler_run cj (i0 # ins @ [i1]) w = Some w' \<and> powerState (sys w') = 1"
proof -
  let ?w0 = "on_led (\<lambda>l. setRightEarColor 255 0 0 (setLeftEarColor 255 0 0 (setLandingPadColor 255 0 0 l))) w"
  have sd: "sd ?w0 = sd w" by (simp add: on_defs)
  have append: "handler_run cj (xs @ ys) v = Option.bind (handler_run cj xs v) (handler_run cj ys)" for xs ys v
  proof (induction xs arbitrary: v)
    case (Cons x xs)
    then show ?case by (cases "System_handler cj x v") simp_all
  qed simp
  show ?thesis
  proof (cases "fopen_r (sd w) SHUTDOWN_TONE")
    case None
    then have "System_handler cj i0 w = Some (set_state (i_now i0) SYS_TURN_OFF ?w0)"
      using assms(1) sd by (simp add: System_handler_def do_SHUT_ME_DOWN_def tone_then_def)
    then show ?thesis using turn_off_run [of "set_state (i_now i0) SYS_TURN_OFF ?w0" cj "ins @ [i1]"] by auto
  next
    case (Some tone)
    obtain w1 where w1: "play_then (i_now i0) SHUTDOWN_TONE SYS_TURN_OFF ?w0 = Some w1"
      using play_returns [of SHUTDOWN_TONE ?w0] by (auto simp: play_then_def)
    then have "System_handler cj i0 w = Some w1"
      using assms(1) sd Some by (simp add: System_handler_def do_SHUT_ME_DOWN_def tone_then_def)
    moreover obtain w2 where "handler_run cj ins w1 = Some w2" "sys_state (sys w2) = SYS_TURN_OFF"
      using tone_run [OF play_then_result(1,2) [OF w1], of cj ins] assms(2) Some by auto
    ultimately show ?thesis using turn_off_run [of w2 cj "[i1]"] by (auto simp: append)
  qed
qed

text \<open>The tone is on the card; the player reports its end at the third call.\<close>

theorem shutdown_turns_off_witness:
  "\<exists>w'. handler_run qna_json [quiet_inputs 5, quiet_inputs 6, (quiet_inputs 7)\<lparr>i_msg := finished_msg\<rparr>, quiet_inputs 8]
       (on_sd (write_file SHUTDOWN_TONE ''tone'') (at_state SYS_SHUT_ME_DOWN 20)) = Some w' \<and> powerState (sys w') = 1"
proof -
  let ?w = "on_sd (write_file SHUTDOWN_TONE ''tone'') (at_state SYS_SHUT_ME_DOWN 20)"
  let ?is = "[quiet_inputs 6, (quiet_inputs 7)\<lparr>i_msg := finished_msg\<rparr>]"
  have st: "sys_state (sys ?w) = SYS_SHUT_ME_DOWN" by (simp add: at_state_def on_defs)
  have m: "fopen_r (sd ?w) SHUTDOWN_TONE = None \<or> (\<exists>i \<in> set ?is. i_msg i = finished_msg)" by simp
  show ?thesis using shutdown_turns_off [OF st m, of qna_json "quiet_inputs 5" "quiet_inputs 8"] by simp
qed

text \<open>
  During an activity the right ear is not looked at: the handler tests the left ear twice,
  so a press of the right ear alone leaves the machine waiting until the ten seconds are over.
\<close>

theorem activity_ignores_right_ear:
  assumes "sys_state (sys w) = SYS_WAIT_ACTIVITY_RESP" "\<not> leftEarButtonState (sys w)"
    and "\<not> elapsed (i_now i) (responseWaitTick (glob w)) 10000"
  shows "System_handler cj i (on_sys (setRightEarButton True) w) = Some (on_sys (setRightEarButton True) w)"
  using assms
  by (simp add: System_handler_def do_WAIT_ACTIVITY_RESP_def on_defs setRightEarButton_def getLeftEarButton_def)

theorem activity_ignores_right_ear_witness:
  "System_handler qna_json (quiet_inputs 5) (on_sys (setRightEarButton True) (at_state SYS_WAIT_ACTIVITY_RESP 90)) =
     Some (on_sys (setRightEarButton True) (at_state SYS_WAIT_ACTIVITY_RESP 90))"
proof -
  let ?w = "at_state SYS_WAIT_ACTIVITY_RESP 90"
  have h: "sys_state (sys ?w) = SYS_WAIT_ACTIVITY_RESP" "\<not> leftEarButtonState (sys ?w)"
    "\<not> elapsed (i_now (quiet_inputs 5)) (responseWaitTick (glob ?w)) 10000"
    by (simp_all add: at_state_def boot_world_def boot_globals_def elapsed_def TimeSpent_def quiet_inputs_def)
  show ?thesis by (rule activity_ignores_right_ear [OF h])
qed

end
