(* ===== verification/Ble_App.thy ===== *)
theory Ble_App
  imports System_App
begin

text \<open>
  The BLE interface, \<^verbatim>\<open>src/main/src/ble_app.cpp\<close>: what a read of a characteristic answers
  and what a write does. NimBLE is outside; the value a client wrote is the argument, and the
  answer is the string handed to \<^verbatim>\<open>setValue\<close>. Printing the free space uses floating point
  and is the argument \<open>fmt_gb\<close>.
\<close>

datatype uuid =
    WRITE_COMMAND_UUID | WRITE_INITIALIZE_UUID | READ_MAC_ID_UUID | READ_BATTERY_UUID
  | READ_STORAGEINFO_UUID | READ_WIFISTAT_UUID | READ_VOLUME_UUID | READ_LAMPINFO_UUID
  | READ_USER1 | READ_USER2 | READ_BOX_ID | NOTIFY_COMMAND_UUID

text \<open>The message types, by their code in the JSON.\<close>

definition eBLE_WRITE_CREDENTIALS :: int where "eBLE_WRITE_CREDENTIALS = 1"
definition eBLE_WRITE_MAX_VOLUME :: int where "eBLE_WRITE_MAX_VOLUME = 2"
definition eBLE_WRITE_LAMP_DATA :: int where "eBLE_WRITE_LAMP_DATA = 3"
definition eBLE_WRITE_BOX_NAME :: int where "eBLE_WRITE_BOX_NAME = 4"
definition eBLE_WRITE_FOTA_URL :: int where "eBLE_WRITE_FOTA_URL = 5"
definition eBLE_WRITE_ADD_USER :: int where "eBLE_WRITE_ADD_USER = 6"

lemmas ble_message_types = eBLE_WRITE_CREDENTIALS_def eBLE_WRITE_MAX_VOLUME_def
  eBLE_WRITE_LAMP_DATA_def eBLE_WRITE_BOX_NAME_def eBLE_WRITE_FOTA_URL_def eBLE_WRITE_ADD_USER_def

section \<open>Reads\<close>

definition onRead :: "string \<Rightarrow> uuid \<Rightarrow> 'j world \<Rightarrow> ('j world \<times> string option) option" where
  "onRead fmt_gb u w =
     (case u of
        READ_MAC_ID_UUID \<Rightarrow> do {
          r \<leftarrow> sprintf_buf 80 (''{\"macID\":\"'' @ cstr (macID (sys w)) @ ''\"}'');
          Some (w, Some r)
        }
      | READ_BATTERY_UUID \<Rightarrow> do {
          r \<leftarrow> sprintf_buf 80 (''{\"battery\":'' @ printf_d (uint (getBatteryLevel (sys w))) @ ''}'');
          Some (w, Some r)
        }
      | READ_STORAGEINFO_UUID \<Rightarrow> do {
          r \<leftarrow> sprintf_buf 80 (''{\"freeBytes\":\"'' @ fmt_gb @ ''\"}'');
          Some (w, Some r)
        }
      | READ_WIFISTAT_UUID \<Rightarrow> do {
          r \<leftarrow> sprintf_buf 80 (''{\"wifi\":\"'' @ (if isConnected w then ''connected'' else ''notConnected'') @ ''\"}'');
          Some (w, Some r)
        }
      | READ_VOLUME_UUID \<Rightarrow> do {
          r \<leftarrow> sprintf_buf 80 (''{\"V\":'' @ printf_d (getVolume w) @ '', \"maxV\":'' @ printf_d (getMaxVolume w) @ ''}'');
          Some (w, Some r)
        }
      | READ_USER1 \<Rightarrow> do {
          n \<leftarrow> getUserID 1 (sys w);
          r \<leftarrow> sprintf_buf 80 (''{\"user1\":\"'' @ cstr n @ ''\"}'');
          Some (w, Some r)
        }
      | READ_USER2 \<Rightarrow> do {
          n \<leftarrow> getUserID 2 (sys w);
          r \<leftarrow> sprintf_buf 80 (''{\"user2\":\"'' @ cstr n @ ''\"}'');
          Some (w, Some r)
        }
      | READ_BOX_ID \<Rightarrow> do {
          (w1, _) \<leftarrow> ReadBoxUniqueID w;
          r \<leftarrow> sprintf_buf 80 (''{\"boxid\":\"'' @ cstr (uniqueBoxID (sys w1)) @ ''\"}'');
          Some (w1, Some r)
        }
      | READ_LAMPINFO_UUID \<Rightarrow> do {
          r \<leftarrow> sprintf_buf 80 ''{\"state\":1,\"duration\":300,\"color\":[255,128,0]}'';
          Some (w, Some r)
        }
      | _ \<Rightarrow> Some (w, None))"

section \<open>Writes\<close>

text \<open>\<^verbatim>\<open>cJSON_GetObjectItem(json, k)->valuestring\<close> used as a string, and \<^verbatim>\<open>->valueint\<close>.\<close>

definition string_member :: "'j cJSON \<Rightarrow> 'j \<Rightarrow> string \<Rightarrow> string option" where
  "string_member cj j k = Option.bind (get_object_item cj j k) (item_string cj)"

definition int_member :: "'j cJSON \<Rightarrow> 'j \<Rightarrow> string \<Rightarrow> int option" where
  "int_member cj j k = map_option (valueint cj) (get_object_item cj j k)"

definition array_member :: "'j cJSON \<Rightarrow> 'j \<Rightarrow> string \<Rightarrow> nat \<Rightarrow> int option" where
  "array_member cj j k n =
     map_option (valueint cj) (Option.bind (get_object_item cj j k) (\<lambda>a. get_array_item cj a n))"

definition write_initialize :: "'j cJSON \<Rightarrow> u32 \<Rightarrow> 'j \<Rightarrow> 'j world \<Rightarrow> 'j world option" where
  "write_initialize cj now j w = do {
     ssid \<leftarrow> string_member cj j ''ssid'';
     password \<leftarrow> string_member cj j ''password'';
     newUser \<leftarrow> string_member cj j ''newUser'';
     s \<leftarrow> System_initialize now ssid password newUser (sys w);
     Some (w\<lparr>sys := s\<rparr>)
   }"

text \<open>
  A \<^verbatim>\<open>newUser\<close> that is no string is a null pointer, which is only followed for the slots 1 and 2.
\<close>

definition write_command :: "'j cJSON \<Rightarrow> u32 \<Rightarrow> 'j \<Rightarrow> int \<Rightarrow> 'j world \<Rightarrow> 'j world option" where
  "write_command cj now j msgType w =
     (if msgType = eBLE_WRITE_ADD_USER then do {
        newUser \<leftarrow> get_object_item cj j ''newUser'';
        userNo \<leftarrow> int_member cj j ''updateUserNo'';
        s \<leftarrow> (case item_string cj newUser of
               Some user \<Rightarrow> verifyUserID now user (word_of_int userNo) (sys w)
             | None \<Rightarrow> if (word_of_int userNo :: u8) = 1 \<or> (word_of_int userNo :: u8) = 2 then None
                       else Some (setState now SYS_INIT_USER_ID_CHECK (sys w)));
        Some (w\<lparr>sys := s\<rparr>)
      } else if msgType = eBLE_WRITE_CREDENTIALS then do {
        ssid \<leftarrow> string_member cj j ''ssid'';
        password \<leftarrow> string_member cj j ''password'';
        (w1, _) \<leftarrow> bleWriteCredentials ssid password w;
        Some w1
      } else if msgType = eBLE_WRITE_MAX_VOLUME then do {
        v \<leftarrow> int_member cj j ''volume'';
        Some (BLE_notify (if v \<ge> 0 \<and> v \<le> 100 then ''MaxVolumeSet'' else ''MaxVolumeValueError'') w)
      } else if msgType = eBLE_WRITE_LAMP_DATA then do {
        st \<leftarrow> int_member cj j ''state'';
        duration \<leftarrow> int_member cj j ''duration'';
        r \<leftarrow> array_member cj j ''color'' 0;
        g \<leftarrow> array_member cj j ''color'' 1;
        b \<leftarrow> array_member cj j ''color'' 2;
        Some w
      } else if msgType = eBLE_WRITE_BOX_NAME then do {
        name \<leftarrow> string_member cj j ''boxName'';
        w1 \<leftarrow> WriteBoxName name w;
        Some (BLE_notify ''BoxNameSet'' w1)
      } else if msgType = eBLE_WRITE_FOTA_URL then do {
        u \<leftarrow> get_object_item cj j ''url'';
        Some w
      } else Some w)"

definition onWrite :: "'j cJSON \<Rightarrow> u32 \<Rightarrow> uuid \<Rightarrow> string \<Rightarrow> 'j world \<Rightarrow> 'j world option" where
  "onWrite cj now u val w =
     (if length val \<ge> 200 then Some w
      else (case parse cj (take 199 (cstr val)) of
              None \<Rightarrow> Some (BLE_notify ''JsonParseFailed'' w)
            | Some j \<Rightarrow>
                if u = WRITE_INITIALIZE_UUID then write_initialize cj now j w
                else if u = WRITE_COMMAND_UUID then
                  (case Option.bind (get_object_item cj j ''msgTyp'') (item_int cj) of
                     None \<Rightarrow> Some w
                   | Some msgType \<Rightarrow>
                       (case Option.bind (get_object_item cj j ''userID'') (item_string cj) of
                          None \<Rightarrow> Some w
                        | Some userID \<Rightarrow>
                            if \<not> verifyUser userID (sys w) then Some (BLE_notify ''InvalidUserID'' w)
                            else write_command cj now j msgType w))
                else Some w))"

definition BLE_deinit :: "'j world \<Rightarrow> 'j world" where
  "BLE_deinit w = on_glob (\<lambda>g. g\<lparr>bleReady := False\<rparr>) (call Ble_deinit w)"

section \<open>Start\<close>

text \<open>
  \<^verbatim>\<open>app_main\<close> of \<^verbatim>\<open>src/main/src/main.cpp\<close>. A failed \<^verbatim>\<open>ESP_ERROR_CHECK\<close> restarts the
  device; the value is then \<open>None\<close>.
\<close>

datatype esp_err_t = ESP_OK | ESP_ERR_NVS_NO_FREE_PAGES | ESP_ERR_NVS_NEW_VERSION | ESP_ERR_other

definition nvs_start :: "esp_err_t \<Rightarrow> esp_err_t \<Rightarrow> esp_err_t \<Rightarrow> 'j world \<Rightarrow> 'j world option" where
  "nvs_start first erase second w =
     (let w1 = call Nvs_init w in
      if first = ESP_ERR_NVS_NO_FREE_PAGES \<or> first = ESP_ERR_NVS_NEW_VERSION
      then (if erase = ESP_OK \<and> second = ESP_OK then Some (call_all [Nvs_erase, Nvs_init] w1) else None)
      else if first = ESP_OK then Some w1 else None)"

definition app_main :: "esp_err_t \<Rightarrow> esp_err_t \<Rightarrow> esp_err_t \<Rightarrow> 'j world \<Rightarrow> 'j world option" where
  "app_main first erase second w = do {
     w1 \<leftarrow> nvs_start first erase second w;
     w2 \<leftarrow> readUserIDs (SdCard_open (call_all [Task_create ''system'', Task_create ''qbus''] w1));
     let (w3, rc) = WiFi_init w2;
     if rc = 0 then do {
       (w4, rc4) \<leftarrow> ConfigSdCardCredentials w3;
       Some (if rc4 = 0 then fst (connect w4) else w4)
     } else Some w3
   }"

section \<open>Properties\<close>

text \<open>
  C31. A command needs a user of the box. A well-formed command is carried out when its user name is the
  one in one of the two slots in memory, an empty slot holding the empty name; otherwise it changes
  nothing, on the card or in memory, and is answered with \<^verbatim>\<open>InvalidUserID\<close> once BLE is up.
\<close>

theorem ble_command_needs_user:
  assumes "length val < 200" "parse cj (cstr val) = Some j"
    and "Option.bind (get_object_item cj j ''msgTyp'') (item_int cj) = Some msgType"
    and "Option.bind (get_object_item cj j ''userID'') (item_string cj) = Some userID"
  shows "onWrite cj now WRITE_COMMAND_UUID val w =
    (if cstr userID = cstr (sys_user1 (sys w)) \<or> cstr userID = cstr (sys_user2 (sys w))
     then write_command cj now j msgType w
     else Some (if bleReady (glob w) then call (Ble_notify ''InvalidUserID'') w else w))"
proof -
  have "length (cstr val) \<le> length val" by (simp add: cstr_def length_takeWhile_le)
  then show ?thesis
    using assms by (auto simp: onWrite_def BLE_notify_def verifyUser_def)
qed

definition ble_json :: "nat cJSON" where
  "ble_json = \<lparr>parse = (\<lambda>_. Some 0),
     get_object_item = (\<lambda>j k. if k = ''msgTyp'' then Some 1 else if k = ''userID'' then Some 2
       else if k = ''ssid'' then Some 3 else if k = ''newUser'' then Some 2 else if k = ''password'' then Some 2
       else None),
     get_object_item_cs = (\<lambda>_ _. None), get_array_size = (\<lambda>_. 0), get_array_item = (\<lambda>_ _. None),
     is_array = (\<lambda>_. False), is_true = (\<lambda>_. False),
     item_string = (\<lambda>j. if j = 2 then Some ''eve'' else if j = 3 then Some (replicate 40 (CHR ''x'')) else None),
     item_int = (\<lambda>j. if j = 1 then Some 1 else None), valueint = (\<lambda>_. 0)\<rparr>"

text \<open>The box of Bob refuses the command of Eve; the box of Eve carries it out.\<close>

theorem ble_command_needs_user_witness:
  "let bob = on_sys (\<lambda>s. s\<lparr>sys_user1 := ''bob'' @ zeros 47\<rparr>) (on_glob (\<lambda>g. g\<lparr>bleReady := True\<rparr>) boot_world);
     eve = on_sys (\<lambda>s. s\<lparr>sys_user1 := ''eve'' @ zeros 47\<rparr>) boot_world in
   onWrite ble_json 0 WRITE_COMMAND_UUID ''{}'' bob = Some (call (Ble_notify ''InvalidUserID'') bob) \<and>
   onWrite ble_json 0 WRITE_COMMAND_UUID ''{}'' eve = write_command ble_json 0 0 1 eve"
proof -
  have h: "length ''{}'' < 200" "parse ble_json (cstr ''{}'') = Some 0"
    "Option.bind (get_object_item ble_json 0 ''msgTyp'') (item_int ble_json) = Some 1"
    "Option.bind (get_object_item ble_json 0 ''userID'') (item_string ble_json) = Some ''eve''"
    by (simp_all add: ble_json_def)
  show ?thesis
    by (simp add: ble_command_needs_user [OF h] Let_def on_defs)
       (simp add: boot_world_def boot_System_def cstr_def zeros_def)
qed

text \<open>
  On a box without registered users the empty user name is accepted, because the names in
  memory are empty strings: every command is open to anyone.
\<close>

theorem unregistered_box_is_open:
  assumes "\<not> isBoxInitialized s"
  shows "verifyUser [] s"
  using assms by (auto simp: isBoxInitialized_def verifyUser_def cstr_def split: if_splits)

theorem unregistered_box_is_open_witness:
  "verifyUser [] (boot_System :: nat System)"
proof -
  have h: "\<not> isBoxInitialized (boot_System :: nat System)" by (simp add: isBoxInitialized_def boot_System_def)
  show ?thesis by (rule unregistered_box_is_open [OF h])
qed

text \<open>
  C32. The initialisation packet overflows the network name: a name of 32 characters or more, which
  a packet of under 200 bytes can carry, is copied into 32 bytes without a check (the copy is
  undefined, \<open>None\<close> in the model).
\<close>

theorem ble_initialize_overflows:
  assumes "length val < 200" "parse cj (cstr val) = Some j"
    and "string_member cj j ''ssid'' = Some ssid" "32 \<le> length (cstr ssid)"
  shows "onWrite cj now WRITE_INITIALIZE_UUID val w = None"
proof -
  have "length (cstr val) \<le> length val" by (simp add: cstr_def length_takeWhile_le)
  moreover have "strcpy (zeros 32) ssid = None" using assms(4) by (simp add: strcpy_eq_None_iff)
  ultimately show ?thesis
    using assms by (simp add: onWrite_def write_initialize_def System_initialize_def split: bind_split)
qed

theorem ble_initialize_overflows_witness:
  "onWrite ble_json 0 WRITE_INITIALIZE_UUID ''{}'' (boot_world :: nat world) = None"
proof -
  have h: "length ''{}'' < 200" "parse ble_json (cstr ''{}'') = Some 0"
    "string_member ble_json 0 ''ssid'' = Some (replicate 40 (CHR ''x''))"
    "32 \<le> length (cstr (replicate 40 (CHR ''x'')))"
    by (simp_all add: ble_json_def string_member_def cstr_def)
  show ?thesis by (rule ble_initialize_overflows [OF h])
qed

end
