(* ===== verification/Board.thy ===== *)
theory Board
  imports Prelude
begin

text \<open>
  The custom audio board of \<^verbatim>\<open>src/components/my_board\<close>: the board handle and the start and stop
  of the board (\<^verbatim>\<open>board.c\<close>), the pins (\<^verbatim>\<open>board_pins_config.c\<close>) and the codec driver
  (\<^verbatim>\<open>new_codec.c\<close>). The heap holds the allocated handle blocks; the addresses
  \<^verbatim>\<open>audio_calloc\<close> returns, and the answers of the HAL and of the card, are arguments.
\<close>

type_synonym esp_err = u32

abbreviation ESP_OK' :: esp_err where "ESP_OK' \<equiv> 0"
abbreviation ESP_FAIL' :: esp_err where "ESP_FAIL' \<equiv> - 1"

section \<open>The board handle\<close>

record audio_board_handle =
  audio_hal :: "nat option"
  adc_hal :: "nat option"

record board =
  board_handle :: "nat option"
  blocks :: "nat \<rightharpoonup> audio_board_handle"

text \<open>A null answer of \<^verbatim>\<open>audio_hal_init\<close> is handed on as null.\<close>

definition audio_board_codec_init :: "nat option \<Rightarrow> nat option" where
  "audio_board_codec_init hal = (case hal of None \<Rightarrow> None | Some h \<Rightarrow> Some h)"

definition audio_board_init :: "nat option \<Rightarrow> nat option \<Rightarrow> board \<Rightarrow> board \<times> nat option" where
  "audio_board_init mem hal b =
     (case board_handle b of
        Some h \<Rightarrow> (b, Some h)
      | None \<Rightarrow>
          (case mem of
             None \<Rightarrow> (b\<lparr>board_handle := None\<rparr>, None)
           | Some a \<Rightarrow>
               (b\<lparr>board_handle := Some a,
                  blocks := (blocks b)(a \<mapsto> \<lparr>audio_hal = audio_board_codec_init hal, adc_hal = None\<rparr>)\<rparr>,
                Some a)))"

definition audio_board_get_handle :: "board \<Rightarrow> nat option" where
  "audio_board_get_handle b = board_handle b"

text \<open>
  \<^verbatim>\<open>audio_board_deinit\<close>: the argument is dereferenced and freed, whatever it is; a pointer to no
  live block is undefined (\<open>None\<close>).
\<close>

definition audio_board_deinit :: "esp_err \<Rightarrow> nat \<Rightarrow> board \<Rightarrow> (board \<times> esp_err) option" where
  "audio_board_deinit hal_rc a b =
     (case blocks b a of
        None \<Rightarrow> None
      | Some _ \<Rightarrow> Some (b\<lparr>board_handle := None, blocks := (blocks b)(a := None)\<rparr>, or ESP_OK' hal_rc))"

definition audio_board_key_init :: "esp_err \<Rightarrow> bool \<Rightarrow> esp_err \<Rightarrow> esp_err" where
  "audio_board_key_init ESP_ERR_ADF_MEMORY_LACK got_handle start_rc =
     (if got_handle then start_rc else ESP_ERR_ADF_MEMORY_LACK)"

text \<open>
  The wait for the card. \<open>mounted n\<close> is the answer of the \<open>n\<close>-th poll; the result is the number of
  half-second delays. A card that never mounts keeps the caller here.
\<close>

partial_function (option) mount_wait :: "(nat \<Rightarrow> bool) \<Rightarrow> nat \<Rightarrow> nat option" where
  "mount_wait mounted n = (if mounted n then Some n else mount_wait mounted (n + 1))"

definition audio_board_sdcard_init :: "esp_err \<Rightarrow> (nat \<Rightarrow> bool) \<Rightarrow> (nat \<times> esp_err) option" where
  "audio_board_sdcard_init start_rc mounted =
     (case mount_wait mounted 0 of None \<Rightarrow> None | Some n \<Rightarrow> Some (n, start_rc))"

section \<open>Pins\<close>

record i2c_config =
  sda_io_num :: int
  scl_io_num :: int

definition get_i2c_pins :: "nat \<Rightarrow> i2c_config option \<Rightarrow> i2c_config option \<times> esp_err" where
  "get_i2c_pins port cfg =
     (case cfg of
        None \<Rightarrow> (None, ESP_FAIL')
      | Some c \<Rightarrow>
          if port = 0 \<or> port = 1 then (Some (c\<lparr>sda_io_num := 18, scl_io_num := 23\<rparr>), ESP_OK')
          else (Some (c\<lparr>sda_io_num := - 1, scl_io_num := - 1\<rparr>), ESP_FAIL'))"

record board_i2s_pin =
  mck_io_num :: int
  bck_io_num :: int
  ws_io_num :: int
  data_out_num :: int
  data_in_num :: int

definition get_i2s_pins :: "int \<Rightarrow> board_i2s_pin option \<Rightarrow> board_i2s_pin option \<times> esp_err" where
  "get_i2s_pins port cfg =
     (case cfg of
        None \<Rightarrow> (None, ESP_FAIL')
      | Some c \<Rightarrow>
          if port = 0
          then (Some (c\<lparr>mck_io_num := 0, bck_io_num := 4, ws_io_num := 13, data_out_num := 16, data_in_num := 39\<rparr>), ESP_OK')
          else if port = 1
          then (Some (c\<lparr>bck_io_num := - 1, ws_io_num := - 1, data_out_num := - 1, data_in_num := - 1\<rparr>), ESP_OK')
          else (Some (c\<lparr>mck_io_num := - 1, bck_io_num := - 1, ws_io_num := - 1, data_out_num := - 1, data_in_num := - 1\<rparr>), ESP_FAIL'))"

record spi_bus_config =
  mosi_io_num :: int
  miso_io_num :: int
  sclk_io_num :: int
  quadwp_io_num :: int
  quadhd_io_num :: int

record spi_device_config =
  spics_io_num :: int

definition get_spi_pins :: "spi_bus_config option \<Rightarrow> spi_device_config option
    \<Rightarrow> spi_bus_config option \<times> spi_device_config option \<times> esp_err" where
  "get_spi_pins bus dev =
     (case (bus, dev) of
        (Some b, Some d) \<Rightarrow>
          (Some (b\<lparr>mosi_io_num := - 1, miso_io_num := - 1, sclk_io_num := - 1,
                   quadwp_io_num := - 1, quadhd_io_num := - 1\<rparr>),
           Some (d\<lparr>spics_io_num := - 1\<rparr>), ESP_OK')
      | _ \<Rightarrow> (bus, dev, ESP_FAIL'))"

definition get_sdcard_intr_gpio :: int where "get_sdcard_intr_gpio = 9"
definition get_sdcard_open_file_num_max :: int where "get_sdcard_open_file_num_max = 5"
definition get_input_volup_id :: int where "get_input_volup_id = 0"
definition get_input_voldown_id :: int where "get_input_voldown_id = 1"
definition get_pa_enable_gpio :: int where "get_pa_enable_gpio = 6"
definition get_input_mode_id :: int where "get_input_mode_id = 4"
definition get_input_set_id :: int where "get_input_set_id = 3"
definition get_input_play_id :: int where "get_input_play_id = 5"
definition get_input_mute_id :: int where "get_input_mute_id = 2"

section \<open>The codec driver\<close>

text \<open>Every operation of the driver only answers \<^verbatim>\<open>ESP_OK\<close>; the volume out-parameter keeps its value.\<close>

definition new_codec_initialized :: "bool \<Rightarrow> bool" where "new_codec_initialized codec_init_flag = codec_init_flag"
definition new_codec_init :: esp_err where "new_codec_init = ESP_OK'"
definition new_codec_deinit :: esp_err where "new_codec_deinit = ESP_OK'"
definition new_codec_ctrl_state :: "int \<Rightarrow> int \<Rightarrow> esp_err" where "new_codec_ctrl_state mode ctrl = ESP_OK'"
definition new_codec_config_i2s :: "int \<Rightarrow> int \<Rightarrow> esp_err" where "new_codec_config_i2s mode iface = ESP_OK'"
definition new_codec_set_voice_mute :: "bool \<Rightarrow> esp_err" where "new_codec_set_voice_mute mute = ESP_OK'"
definition new_codec_set_voice_volume :: "int \<Rightarrow> esp_err" where "new_codec_set_voice_volume vol = ESP_OK'"
definition new_codec_get_voice_volume :: "int \<Rightarrow> int \<times> esp_err" where "new_codec_get_voice_volume vol = (vol, ESP_OK')"

section \<open>Lemmas\<close>

lemma mount_wait_returns:
  assumes "mounted m" "n \<le> m" "\<forall>k. n \<le> k \<and> k < m \<longrightarrow> \<not> mounted k"
  shows "mount_wait mounted n = Some m"
  using assms
proof (induction "m - n" arbitrary: n)
  case 0
  then show ?case by (simp add: mount_wait.simps)
next
  case (Suc d)
  then have "n < m" by simp
  then have "\<not> mounted n" "mount_wait mounted (n + 1) = Some m"
    using Suc.prems Suc.hyps(1) [of "n + 1"] Suc.hyps(2) by auto
  then show ?case by (subst mount_wait.simps) simp
qed

lemma mount_wait_sound: "mount_wait mounted n = Some m \<Longrightarrow> mounted m"
  by (erule mount_wait.raw_induct [rotated, of mounted n m "\<lambda>md _ k. md k"]) (auto split: if_splits)

text \<open>The calls a program makes: start (with the answers of the allocator and the HAL) and stop.\<close>

datatype board_op = Board_init "nat option" "nat option" | Board_deinit esp_err

fun board_do :: "board_op \<Rightarrow> board \<Rightarrow> board option" where
  "board_do (Board_init mem hal) b = Some (fst (audio_board_init mem hal b))"
| "board_do (Board_deinit rc) b =
     (case audio_board_get_handle b of
        None \<Rightarrow> Some b
      | Some a \<Rightarrow> map_option fst (audio_board_deinit rc a b))"

fun board_run :: "board_op list \<Rightarrow> board \<Rightarrow> board option" where
  "board_run [] b = Some b"
| "board_run (x # xs) b = Option.bind (board_do x b) (board_run xs)"

definition board_ok :: "board \<Rightarrow> bool" where
  "board_ok b \<longleftrightarrow> (case board_handle b of
     None \<Rightarrow> blocks b = Map.empty
   | Some a \<Rightarrow> \<exists>h. blocks b = [a \<mapsto> h])"

lemma board_do_ok: "board_ok b \<Longrightarrow> \<exists>b'. board_do x b = Some b' \<and> board_ok b'"
  by (cases x) (auto simp: board_ok_def audio_board_init_def audio_board_deinit_def
    audio_board_get_handle_def split: option.splits)

lemma board_run_ok: "board_ok b \<Longrightarrow> \<exists>b'. board_run xs b = Some b' \<and> board_ok b'"
proof (induction xs arbitrary: b)
  case (Cons x xs)
  then obtain b1 where "board_do x b = Some b1" "board_ok b1" using board_do_ok by blast
  then show ?case using Cons.IH by simp
qed simp

section \<open>Properties\<close>

text \<open>
  C33. One board at a time: any sequence of starts and stops of the current board stays inside live
  memory (it returns), and afterwards at most the block the handle points to is allocated; a start
  on a running board returns the same handle and changes nothing, whatever the allocator would say.
\<close>

theorem board_never_leaks:
  "\<exists>b. board_run ops \<lparr>board_handle = None, blocks = Map.empty\<rparr> = Some b \<and>
     dom (blocks b) = set_option (board_handle b) \<and>
     (case board_handle b of None \<Rightarrow> True | Some h \<Rightarrow> audio_board_init mem hal b = (b, Some h))"
proof -
  have "board_ok \<lparr>board_handle = None, blocks = Map.empty\<rparr>" by (simp add: board_ok_def)
  from board_run_ok [OF this, of ops] obtain b
    where b: "board_run ops \<lparr>board_handle = None, blocks = Map.empty\<rparr> = Some b" "board_ok b" by blast
  then have "dom (blocks b) = set_option (board_handle b)"
    by (auto simp: board_ok_def split: option.splits if_splits)
  then show ?thesis using b by (auto simp: audio_board_init_def split: option.split)
qed

text \<open>
  The start of the card returns exactly when the card is mounted at some poll, after as many
  delays as polls failed before; without a card it never returns.
\<close>

theorem sdcard_init_returns_iff:
  "audio_board_sdcard_init rc mounted =
     (if \<exists>n. mounted n then Some (LEAST n. mounted n, rc) else None)"
proof (cases "\<exists>n. mounted n")
  case True
  then have "mounted (LEAST n. mounted n)" by (rule LeastI_ex)
  then have "mount_wait mounted 0 = Some (LEAST n. mounted n)"
    using not_less_Least by (intro mount_wait_returns) auto
  then show ?thesis using True by (simp add: audio_board_sdcard_init_def)
next
  case False
  then have "mount_wait mounted 0 = None"
    using mount_wait_sound by (cases "mount_wait mounted 0") blast+
  then show ?thesis using False by (simp add: audio_board_sdcard_init_def)
qed

end
