(* ===== verification/Ng_Base.thy ===== *)
theory Ng_Base
  imports Prelude
begin

text \<open>
  The helpers of the HTTP/2 library under \<^verbatim>\<open>src/managed_components/espressif__nghttp/nghttp2/lib\<close>,
  from \<^verbatim>\<open>nghttp2_helper.c\<close>: integers in network order, the character tables and the checks
  of header fields that use them, and the texts of the error codes.

  A pointer into a buffer is the buffer and an offset; \<open>None\<close> is an access outside of it. Sizes
  (\<^verbatim>\<open>size_t\<close>) are natural numbers: they count bytes of objects in memory, so they stay below the
  bound of the type. Where the C code subtracts sizes the model subtracts only where the C code
  has made sure that the result is not negative, and says so where it has not. The allocator is
  a list of answers to the coming allocations; when the list is used up they all succeed.
\<close>

section \<open>Error codes and allocation\<close>

abbreviation NGHTTP2_ERR_INVALID_ARGUMENT :: int where "NGHTTP2_ERR_INVALID_ARGUMENT \<equiv> - 501"
abbreviation NGHTTP2_ERR_BUFFER_ERROR :: int where "NGHTTP2_ERR_BUFFER_ERROR \<equiv> - 502"
abbreviation NGHTTP2_ERR_FRAME_SIZE_ERROR :: int where "NGHTTP2_ERR_FRAME_SIZE_ERROR \<equiv> - 522"
abbreviation NGHTTP2_ERR_HEADER_COMP :: int where "NGHTTP2_ERR_HEADER_COMP \<equiv> - 523"
abbreviation NGHTTP2_ERR_FLOW_CONTROL :: int where "NGHTTP2_ERR_FLOW_CONTROL \<equiv> - 524"
abbreviation NGHTTP2_ERR_NOMEM :: int where "NGHTTP2_ERR_NOMEM \<equiv> - 901"

type_synonym mem = "bool list"

definition mem_alloc :: "mem \<Rightarrow> bool \<times> mem" where
  "mem_alloc m = (case m of [] \<Rightarrow> (True, []) | ok # m' \<Rightarrow> (ok, m'))"

section \<open>Integers in network order\<close>

definition rd_block :: "'a list \<Rightarrow> nat \<Rightarrow> nat \<Rightarrow> 'a list option" where
  "rd_block a i n = (if i + n \<le> length a then Some (take n (drop i a)) else None)"

definition be_bytes16 :: "u16 \<Rightarrow> bytes" where
  "be_bytes16 n = [ucast (drop_bit 8 n), ucast n]"

definition be_bytes32 :: "u32 \<Rightarrow> bytes" where
  "be_bytes32 n = [ucast (drop_bit 24 n), ucast (drop_bit 16 n), ucast (drop_bit 8 n), ucast n]"

fun of_be16 :: "bytes \<Rightarrow> u16" where
  "of_be16 [a, b] = or (push_bit 8 (ucast a)) (ucast b)"
| "of_be16 _ = 0"

fun of_be32 :: "bytes \<Rightarrow> u32" where
  "of_be32 [a, b, c, d] =
     or (push_bit 24 (ucast a)) (or (push_bit 16 (ucast b)) (or (push_bit 8 (ucast c)) (ucast d)))"
| "of_be32 _ = 0"

definition nghttp2_put_uint16be :: "bytes \<Rightarrow> nat \<Rightarrow> u16 \<Rightarrow> bytes option" where
  "nghttp2_put_uint16be buf i n = wr_block buf i (be_bytes16 n)"

definition nghttp2_put_uint32be :: "bytes \<Rightarrow> nat \<Rightarrow> u32 \<Rightarrow> bytes option" where
  "nghttp2_put_uint32be buf i n = wr_block buf i (be_bytes32 n)"

definition nghttp2_get_uint16 :: "bytes \<Rightarrow> nat \<Rightarrow> u16 option" where
  "nghttp2_get_uint16 d i = map_option of_be16 (rd_block d i 2)"

definition nghttp2_get_uint32 :: "bytes \<Rightarrow> nat \<Rightarrow> u32 option" where
  "nghttp2_get_uint32 d i = map_option of_be32 (rd_block d i 4)"

text \<open>\<^verbatim>\<open>nghttp2_cpymem\<close> answers the offset behind the copy.\<close>

definition nghttp2_cpymem :: "bytes \<Rightarrow> nat \<Rightarrow> bytes \<Rightarrow> (bytes \<times> nat) option" where
  "nghttp2_cpymem dest i src =
     (if src = [] then Some (dest, i) else map_option (\<lambda>b. (b, i + length src)) (wr_block dest i src))"

lemma length_be_bytes [simp]: "length (be_bytes16 n) = 2" "length (be_bytes32 m) = 4"
  by (simp_all add: be_bytes16_def be_bytes32_def)

lemma of_be16_be_bytes16 [simp]: "of_be16 (be_bytes16 n) = n"
  unfolding be_bytes16_def of_be16.simps
  by (rule bit_word_eqI) (auto simp: bit_simps)

lemma of_be32_be_bytes32 [simp]: "of_be32 (be_bytes32 n) = n"
  unfolding be_bytes32_def of_be32.simps
proof (rule bit_word_eqI)
  fix k assume k: "k < LENGTH(32)"
  consider "k < 8" | "8 \<le> k" "k < 16" | "16 \<le> k" "k < 24" | "24 \<le> k" by linarith
  then show "bit (or (push_bit 24 (ucast (ucast (drop_bit 24 n) :: u8) :: u32)) (or (push_bit 16 (ucast (ucast (drop_bit 16 n) :: u8)))
      (or (push_bit 8 (ucast (ucast (drop_bit 8 n) :: u8))) (ucast (ucast n :: u8))))) k = bit n k"
    using k by cases (auto simp: bit_simps)
qed

lemma rd_block_append: "length pre = i \<Longrightarrow> length xs = n \<Longrightarrow> rd_block (pre @ xs @ post) i n = Some xs"
  by (simp add: rd_block_def)

lemma rd_block_eq_Some: "rd_block a i n = Some xs \<longleftrightarrow> i + n \<le> length a \<and> xs = take n (drop i a)"
  by (auto simp: rd_block_def)

section \<open>Character tables\<close>

definition DOWNCASE_TBL :: "nat list" where
  "DOWNCASE_TBL =
    [0, 1, 2, 3, 4, 5, 6, 7, 8, 9, 10, 11, 12, 13, 14, 15, 16, 17, 18, 19,
     20, 21, 22, 23, 24, 25, 26, 27, 28, 29, 30, 31, 32, 33, 34, 35, 36, 37, 38, 39,
     40, 41, 42, 43, 44, 45, 46, 47, 48, 49, 50, 51, 52, 53, 54, 55, 56, 57, 58, 59,
     60, 61, 62, 63, 64, 97, 98, 99, 100, 101, 102, 103, 104, 105, 106, 107, 108, 109, 110, 111,
     112, 113, 114, 115, 116, 117, 118, 119, 120, 121, 122, 91, 92, 93, 94, 95, 96, 97, 98, 99,
     100, 101, 102, 103, 104, 105, 106, 107, 108, 109, 110, 111, 112, 113, 114, 115, 116, 117, 118, 119,
     120, 121, 122, 123, 124, 125, 126, 127, 128, 129, 130, 131, 132, 133, 134, 135, 136, 137, 138, 139,
     140, 141, 142, 143, 144, 145, 146, 147, 148, 149, 150, 151, 152, 153, 154, 155, 156, 157, 158, 159,
     160, 161, 162, 163, 164, 165, 166, 167, 168, 169, 170, 171, 172, 173, 174, 175, 176, 177, 178, 179,
     180, 181, 182, 183, 184, 185, 186, 187, 188, 189, 190, 191, 192, 193, 194, 195, 196, 197, 198, 199,
     200, 201, 202, 203, 204, 205, 206, 207, 208, 209, 210, 211, 212, 213, 214, 215, 216, 217, 218, 219,
     220, 221, 222, 223, 224, 225, 226, 227, 228, 229, 230, 231, 232, 233, 234, 235, 236, 237, 238, 239,
     240, 241, 242, 243, 244, 245, 246, 247, 248, 249, 250, 251, 252, 253, 254, 255]"

definition VALID_HD_NAME_CHARS :: "nat list" where
  "VALID_HD_NAME_CHARS =
    [0, 0, 0, 0, 0, 0, 0, 0, 0, 0, 0, 0, 0, 0, 0, 0, 0, 0, 0, 0, 0, 0, 0, 0, 0, 0, 0, 0, 0, 0, 0, 0,
     0, 1, 0, 1, 1, 1, 1, 1, 0, 0, 1, 1, 0, 1, 1, 0, 1, 1, 1, 1, 1, 1, 1, 1, 1, 1, 0, 0, 0, 0, 0, 0,
     0, 0, 0, 0, 0, 0, 0, 0, 0, 0, 0, 0, 0, 0, 0, 0, 0, 0, 0, 0, 0, 0, 0, 0, 0, 0, 0, 0, 0, 0, 1, 1,
     1, 1, 1, 1, 1, 1, 1, 1, 1, 1, 1, 1, 1, 1, 1, 1, 1, 1, 1, 1, 1, 1, 1, 1, 1, 1, 1, 0, 1, 0, 1, 0,
     0, 0, 0, 0, 0, 0, 0, 0, 0, 0, 0, 0, 0, 0, 0, 0, 0, 0, 0, 0, 0, 0, 0, 0, 0, 0, 0, 0, 0, 0, 0, 0,
     0, 0, 0, 0, 0, 0, 0, 0, 0, 0, 0, 0, 0, 0, 0, 0, 0, 0, 0, 0, 0, 0, 0, 0, 0, 0, 0, 0, 0, 0, 0, 0,
     0, 0, 0, 0, 0, 0, 0, 0, 0, 0, 0, 0, 0, 0, 0, 0, 0, 0, 0, 0, 0, 0, 0, 0, 0, 0, 0, 0, 0, 0, 0, 0,
     0, 0, 0, 0, 0, 0, 0, 0, 0, 0, 0, 0, 0, 0, 0, 0, 0, 0, 0, 0, 0, 0, 0, 0, 0, 0, 0, 0, 0, 0, 0, 0]"

definition VALID_HD_VALUE_CHARS :: "nat list" where
  "VALID_HD_VALUE_CHARS =
    [0, 0, 0, 0, 0, 0, 0, 0, 0, 1, 0, 0, 0, 0, 0, 0, 0, 0, 0, 0, 0, 0, 0, 0, 0, 0, 0, 0, 0, 0, 0, 0,
     1, 1, 1, 1, 1, 1, 1, 1, 1, 1, 1, 1, 1, 1, 1, 1, 1, 1, 1, 1, 1, 1, 1, 1, 1, 1, 1, 1, 1, 1, 1, 1,
     1, 1, 1, 1, 1, 1, 1, 1, 1, 1, 1, 1, 1, 1, 1, 1, 1, 1, 1, 1, 1, 1, 1, 1, 1, 1, 1, 1, 1, 1, 1, 1,
     1, 1, 1, 1, 1, 1, 1, 1, 1, 1, 1, 1, 1, 1, 1, 1, 1, 1, 1, 1, 1, 1, 1, 1, 1, 1, 1, 1, 1, 1, 1, 0,
     1, 1, 1, 1, 1, 1, 1, 1, 1, 1, 1, 1, 1, 1, 1, 1, 1, 1, 1, 1, 1, 1, 1, 1, 1, 1, 1, 1, 1, 1, 1, 1,
     1, 1, 1, 1, 1, 1, 1, 1, 1, 1, 1, 1, 1, 1, 1, 1, 1, 1, 1, 1, 1, 1, 1, 1, 1, 1, 1, 1, 1, 1, 1, 1,
     1, 1, 1, 1, 1, 1, 1, 1, 1, 1, 1, 1, 1, 1, 1, 1, 1, 1, 1, 1, 1, 1, 1, 1, 1, 1, 1, 1, 1, 1, 1, 1,
     1, 1, 1, 1, 1, 1, 1, 1, 1, 1, 1, 1, 1, 1, 1, 1, 1, 1, 1, 1, 1, 1, 1, 1, 1, 1, 1, 1, 1, 1, 1, 1]"

definition VALID_METHOD_CHARS :: "nat list" where
  "VALID_METHOD_CHARS =
    [0, 0, 0, 0, 0, 0, 0, 0, 0, 0, 0, 0, 0, 0, 0, 0, 0, 0, 0, 0, 0, 0, 0, 0, 0, 0, 0, 0, 0, 0, 0, 0,
     0, 1, 0, 1, 1, 1, 1, 1, 0, 0, 1, 1, 0, 1, 1, 0, 1, 1, 1, 1, 1, 1, 1, 1, 1, 1, 0, 0, 0, 0, 0, 0,
     0, 1, 1, 1, 1, 1, 1, 1, 1, 1, 1, 1, 1, 1, 1, 1, 1, 1, 1, 1, 1, 1, 1, 1, 1, 1, 1, 0, 0, 0, 1, 1,
     1, 1, 1, 1, 1, 1, 1, 1, 1, 1, 1, 1, 1, 1, 1, 1, 1, 1, 1, 1, 1, 1, 1, 1, 1, 1, 1, 0, 1, 0, 1, 0,
     0, 0, 0, 0, 0, 0, 0, 0, 0, 0, 0, 0, 0, 0, 0, 0, 0, 0, 0, 0, 0, 0, 0, 0, 0, 0, 0, 0, 0, 0, 0, 0,
     0, 0, 0, 0, 0, 0, 0, 0, 0, 0, 0, 0, 0, 0, 0, 0, 0, 0, 0, 0, 0, 0, 0, 0, 0, 0, 0, 0, 0, 0, 0, 0,
     0, 0, 0, 0, 0, 0, 0, 0, 0, 0, 0, 0, 0, 0, 0, 0, 0, 0, 0, 0, 0, 0, 0, 0, 0, 0, 0, 0, 0, 0, 0, 0,
     0, 0, 0, 0, 0, 0, 0, 0, 0, 0, 0, 0, 0, 0, 0, 0, 0, 0, 0, 0, 0, 0, 0, 0, 0, 0, 0, 0, 0, 0, 0, 0]"

definition VALID_PATH_CHARS :: "nat list" where
  "VALID_PATH_CHARS =
    [0, 0, 0, 0, 0, 0, 0, 0, 0, 0, 0, 0, 0, 0, 0, 0, 0, 0, 0, 0, 0, 0, 0, 0, 0, 0, 0, 0, 0, 0, 0, 0,
     0, 1, 1, 1, 1, 1, 1, 1, 1, 1, 1, 1, 1, 1, 1, 1, 1, 1, 1, 1, 1, 1, 1, 1, 1, 1, 1, 1, 1, 1, 1, 1,
     1, 1, 1, 1, 1, 1, 1, 1, 1, 1, 1, 1, 1, 1, 1, 1, 1, 1, 1, 1, 1, 1, 1, 1, 1, 1, 1, 1, 1, 1, 1, 1,
     1, 1, 1, 1, 1, 1, 1, 1, 1, 1, 1, 1, 1, 1, 1, 1, 1, 1, 1, 1, 1, 1, 1, 1, 1, 1, 1, 1, 1, 1, 1, 0,
     1, 1, 1, 1, 1, 1, 1, 1, 1, 1, 1, 1, 1, 1, 1, 1, 1, 1, 1, 1, 1, 1, 1, 1, 1, 1, 1, 1, 1, 1, 1, 1,
     1, 1, 1, 1, 1, 1, 1, 1, 1, 1, 1, 1, 1, 1, 1, 1, 1, 1, 1, 1, 1, 1, 1, 1, 1, 1, 1, 1, 1, 1, 1, 1,
     1, 1, 1, 1, 1, 1, 1, 1, 1, 1, 1, 1, 1, 1, 1, 1, 1, 1, 1, 1, 1, 1, 1, 1, 1, 1, 1, 1, 1, 1, 1, 1,
     1, 1, 1, 1, 1, 1, 1, 1, 1, 1, 1, 1, 1, 1, 1, 1, 1, 1, 1, 1, 1, 1, 1, 1, 1, 1, 1, 1, 1, 1, 1, 1]"

definition VALID_AUTHORITY_CHARS :: "nat list" where
  "VALID_AUTHORITY_CHARS =
    [0, 0, 0, 0, 0, 0, 0, 0, 0, 0, 0, 0, 0, 0, 0, 0, 0, 0, 0, 0, 0, 0, 0, 0, 0, 0, 0, 0, 0, 0, 0, 0,
     0, 1, 0, 0, 1, 1, 1, 1, 1, 1, 1, 1, 1, 1, 1, 0, 1, 1, 1, 1, 1, 1, 1, 1, 1, 1, 1, 1, 0, 1, 0, 0,
     1, 1, 1, 1, 1, 1, 1, 1, 1, 1, 1, 1, 1, 1, 1, 1, 1, 1, 1, 1, 1, 1, 1, 1, 1, 1, 1, 1, 0, 1, 0, 1,
     0, 1, 1, 1, 1, 1, 1, 1, 1, 1, 1, 1, 1, 1, 1, 1, 1, 1, 1, 1, 1, 1, 1, 1, 1, 1, 1, 0, 0, 0, 1, 0,
     0, 0, 0, 0, 0, 0, 0, 0, 0, 0, 0, 0, 0, 0, 0, 0, 0, 0, 0, 0, 0, 0, 0, 0, 0, 0, 0, 0, 0, 0, 0, 0,
     0, 0, 0, 0, 0, 0, 0, 0, 0, 0, 0, 0, 0, 0, 0, 0, 0, 0, 0, 0, 0, 0, 0, 0, 0, 0, 0, 0, 0, 0, 0, 0,
     0, 0, 0, 0, 0, 0, 0, 0, 0, 0, 0, 0, 0, 0, 0, 0, 0, 0, 0, 0, 0, 0, 0, 0, 0, 0, 0, 0, 0, 0, 0, 0,
     0, 0, 0, 0, 0, 0, 0, 0, 0, 0, 0, 0, 0, 0, 0, 0, 0, 0, 0, 0, 0, 0, 0, 0, 0, 0, 0, 0, 0, 0, 0, 0]"

definition downcase_byte :: "u8 \<Rightarrow> u8" where
  "downcase_byte c = word_of_nat (DOWNCASE_TBL ! unat c)"

definition nghttp2_downcase :: "bytes \<Rightarrow> bytes" where
  "nghttp2_downcase s = map downcase_byte s"

definition all_valid :: "nat list \<Rightarrow> bytes \<Rightarrow> bool" where
  "all_valid tbl s = list_all (\<lambda>c. tbl ! unat c \<noteq> 0) s"

definition nghttp2_check_header_name :: "bytes \<Rightarrow> bool" where
  "nghttp2_check_header_name name =
     (case name of
        [] \<Rightarrow> False
      | c # cs \<Rightarrow>
          if c = 0x3A then (if cs = [] then False else all_valid VALID_HD_NAME_CHARS cs)
          else all_valid VALID_HD_NAME_CHARS name)"

definition nghttp2_check_header_value :: "bytes \<Rightarrow> bool" where
  "nghttp2_check_header_value v = all_valid VALID_HD_VALUE_CHARS v"

definition nghttp2_check_header_value_rfc9113 :: "bytes \<Rightarrow> bool" where
  "nghttp2_check_header_value_rfc9113 v =
     (if v = [] then True
      else if hd v = 0x20 \<or> hd v = 0x09 \<or> last v = 0x20 \<or> last v = 0x09 then False
      else nghttp2_check_header_value v)"

definition nghttp2_check_method :: "bytes \<Rightarrow> bool" where
  "nghttp2_check_method v = (if v = [] then False else all_valid VALID_METHOD_CHARS v)"

definition nghttp2_check_path :: "bytes \<Rightarrow> bool" where
  "nghttp2_check_path v = all_valid VALID_PATH_CHARS v"

definition nghttp2_check_authority :: "bytes \<Rightarrow> bool" where
  "nghttp2_check_authority v = all_valid VALID_AUTHORITY_CHARS v"

section \<open>The texts of the error codes\<close>

definition nghttp2_strerror :: "int \<Rightarrow> string" where
  "nghttp2_strerror error_code =
     (case map_of [
        (0, ''Success''),
        (- 501, ''Invalid argument''),
        (- 502, ''Out of buffer space''),
        (- 503, ''Unsupported SPDY version''),
        (- 504, ''Operation would block''),
        (- 505, ''Protocol error''),
        (- 506, ''Invalid frame octets''),
        (- 507, ''EOF''),
        (- 508, ''Data transfer deferred''),
        (- 509, ''No more Stream ID available''),
        (- 510, ''Stream was already closed or invalid''),
        (- 511, ''Stream is closing''),
        (- 512, ''The transmission is not allowed for this stream''),
        (- 513, ''Stream ID is invalid''),
        (- 514, ''Invalid stream state''),
        (- 515, ''Another DATA frame has already been deferred''),
        (- 516, ''request HEADERS is not allowed''),
        (- 517, ''GOAWAY has already been sent''),
        (- 518, ''Invalid header block''),
        (- 519, ''Invalid state''),
        (- 521, ''The user callback function failed due to the temporal error''),
        (- 522, ''The length of the frame is invalid''),
        (- 523, ''Header compression/decompression error''),
        (- 524, ''Flow control error''),
        (- 525, ''Insufficient buffer size given to function''),
        (- 526, ''Callback was paused by the application''),
        (- 527, ''Too many inflight SETTINGS''),
        (- 528, ''Server push is disabled by peer''),
        (- 529, ''DATA or HEADERS frame has already been submitted for the stream''),
        (- 530, ''The current session is closing''),
        (- 531, ''Invalid HTTP header field was received''),
        (- 532, ''Violation in HTTP messaging rule''),
        (- 533, ''Stream was refused''),
        (- 534, ''Internal error''),
        (- 535, ''Cancel''),
        (- 536, ''When a local endpoint expects to receive SETTINGS frame, it receives an other type of frame''),
        (- 901, ''Out of memory''),
        (- 902, ''The user callback function failed''),
        (- 903, ''Received bad client magic byte string''),
        (- 904, ''Flooding was detected in this HTTP/2 session, and it must be closed''),
        (- 537, ''SETTINGS frame contained more than the maximum allowed entries''),
        (- 905, ''Too many CONTINUATION frames following a HEADER frame'')] error_code of
        Some s \<Rightarrow> s | None \<Rightarrow> ''Unknown error code'')"

definition nghttp2_http2_strerror :: "u32 \<Rightarrow> string" where
  "nghttp2_http2_strerror error_code =
     (case map_of [
        (0, ''NO_ERROR''),
        (1, ''PROTOCOL_ERROR''),
        (2, ''INTERNAL_ERROR''),
        (3, ''FLOW_CONTROL_ERROR''),
        (4, ''SETTINGS_TIMEOUT''),
        (5, ''STREAM_CLOSED''),
        (6, ''FRAME_SIZE_ERROR''),
        (7, ''REFUSED_STREAM''),
        (8, ''CANCEL''),
        (9, ''COMPRESSION_ERROR''),
        (10, ''CONNECT_ERROR''),
        (11, ''ENHANCE_YOUR_CALM''),
        (12, ''INADEQUATE_SECURITY''),
        (13, ''HTTP_1_1_REQUIRED'')] error_code of
        Some s \<Rightarrow> s | None \<Rightarrow> ''unknown'')"

section \<open>The tables as character classes\<close>

definition lower_alpha :: "nat \<Rightarrow> bool" where "lower_alpha c \<longleftrightarrow> 97 \<le> c \<and> c \<le> 122"
definition upper_alpha :: "nat \<Rightarrow> bool" where "upper_alpha c \<longleftrightarrow> 65 \<le> c \<and> c \<le> 90"
definition digit :: "nat \<Rightarrow> bool" where "digit c \<longleftrightarrow> 48 \<le> c \<and> c \<le> 57"

definition token_specials :: "nat list" where
  "token_specials = [33, 35, 36, 37, 38, 39, 42, 43, 45, 46, 94, 95, 96, 124, 126]"

definition authority_specials :: "nat list" where
  "authority_specials = [33, 36, 37, 38, 39, 40, 41, 42, 43, 44, 45, 46, 58, 59, 61, 64, 91, 93, 95, 126]"

text \<open>The special characters of an RFC 9110 token: \<^verbatim>\<open>!#$%&'*+-.^_`|~\<close>.\<close>

definition token_special :: "nat \<Rightarrow> bool" where
  "token_special c \<longleftrightarrow> c \<in> set token_specials"

text \<open>The other characters of an RFC 3986 authority: unreserved, sub-delims and \<^verbatim>\<open>%:@[]\<close>.\<close>

definition authority_special :: "nat \<Rightarrow> bool" where
  "authority_special c \<longleftrightarrow>
     c \<in> set authority_specials"

lemmas class_defs = lower_alpha_def upper_alpha_def digit_def token_special_def authority_special_def

text \<open>A table is a base table in which the cells of a list of positions are overwritten.\<close>

definition span :: "nat \<Rightarrow> nat \<Rightarrow> nat list" where
  "span a b = [a..<b]"

lemma set_span [simp]: "set (span a b) = {a..<b}" "length (span a b) = b - a" "i < b - a \<Longrightarrow> span a b ! i = a + i"
  by (simp_all add: span_def)

definition set_all :: "(nat \<Rightarrow> nat) \<Rightarrow> nat list \<Rightarrow> nat list \<Rightarrow> nat list" where
  "set_all v cs t = foldl (\<lambda>t c. t[c := v c]) t cs"

lemma set_all_nth:
  "c < length t \<Longrightarrow> length (set_all v cs t) = length t \<and>
   set_all v cs t ! c = (if c \<in> set cs then v c else t ! c)"
proof (induction cs arbitrary: t)
  case (Cons d cs)
  from Cons.IH [of "t[d := v d]"] Cons.prems show ?case
    by (auto simp: set_all_def nth_list_update)
qed (simp add: set_all_def)

lemma downcase_table: "DOWNCASE_TBL = set_all (\<lambda>c. c + 32) (span 65 91) (span 0 256)"
  by code_simp

lemma name_table:
  "VALID_HD_NAME_CHARS = set_all (\<lambda>_. 1) (span 97 123 @ span 48 58 @ token_specials) (replicate 256 0)"
  by code_simp

lemma value_table: "VALID_HD_VALUE_CHARS = set_all (\<lambda>_. 0) (span 0 9 @ span 10 32 @ [127]) (replicate 256 1)"
  by code_simp

lemma method_table:
  "VALID_METHOD_CHARS =
     set_all (\<lambda>_. 1) (span 97 123 @ span 65 91 @ span 48 58 @ token_specials) (replicate 256 0)"
  by code_simp

lemma path_table: "VALID_PATH_CHARS = set_all (\<lambda>_. 0) (span 0 33 @ [127]) (replicate 256 1)"
  by code_simp

lemma authority_table:
  "VALID_AUTHORITY_CHARS =
     set_all (\<lambda>_. 1) (span 97 123 @ span 65 91 @ span 48 58 @ authority_specials) (replicate 256 0)"
  by code_simp

lemma all_valid_set_all:
  "all_valid (set_all (\<lambda>_. 1) cs (replicate 256 0)) s \<longleftrightarrow> (\<forall>c \<in> set s. unat c \<in> set cs)"
  "all_valid (set_all (\<lambda>_. 0) cs (replicate 256 1)) s \<longleftrightarrow> (\<forall>c \<in> set s. unat c \<notin> set cs)"
  by (auto simp: all_valid_def list_all_iff set_all_nth)

lemma unat_downcase:
  "unat (downcase_byte c) = (if upper_alpha (unat c) then unat c + 32 else unat c)"
proof -
  have "DOWNCASE_TBL ! unat c = (if upper_alpha (unat c) then unat c + 32 else unat c)"
    by (simp add: downcase_table set_all_nth upper_alpha_def)
  moreover have "(if upper_alpha (unat c) then unat c + 32 else unat c) < 256"
    using unat_u8_less [of c] by (auto simp: upper_alpha_def simp del: unat_u8_less)
  ultimately show ?thesis by (simp add: downcase_byte_def word_of_nat_unat_le)
qed

definition name_char :: "u8 \<Rightarrow> bool" where
  "name_char c \<longleftrightarrow> lower_alpha (unat c) \<or> digit (unat c) \<or> token_special (unat c)"

definition value_char :: "u8 \<Rightarrow> bool" where
  "value_char c \<longleftrightarrow> c = 9 \<or> 32 \<le> c \<and> c \<noteq> 127"

definition method_char :: "u8 \<Rightarrow> bool" where
  "method_char c \<longleftrightarrow> lower_alpha (unat c) \<or> upper_alpha (unat c) \<or> digit (unat c) \<or> token_special (unat c)"

definition path_char :: "u8 \<Rightarrow> bool" where
  "path_char c \<longleftrightarrow> 33 \<le> c \<and> c \<noteq> 127"

definition authority_char :: "u8 \<Rightarrow> bool" where
  "authority_char c \<longleftrightarrow>
     lower_alpha (unat c) \<or> upper_alpha (unat c) \<or> digit (unat c) \<or> authority_special (unat c)"

lemma all_valid_iff:
  "all_valid VALID_HD_NAME_CHARS s \<longleftrightarrow> list_all name_char s"
  "all_valid VALID_HD_VALUE_CHARS s \<longleftrightarrow> list_all value_char s"
  "all_valid VALID_METHOD_CHARS s \<longleftrightarrow> list_all method_char s"
  "all_valid VALID_PATH_CHARS s \<longleftrightarrow> list_all path_char s"
  "all_valid VALID_AUTHORITY_CHARS s \<longleftrightarrow> list_all authority_char s"
proof -
  show "all_valid VALID_HD_NAME_CHARS s \<longleftrightarrow> list_all name_char s"
    unfolding name_table all_valid_set_all list_all_iff by (auto simp: name_char_def class_defs)
  have "unat c \<notin> set (span 0 9 @ span 10 32 @ [127]) \<longleftrightarrow> value_char c" for c :: u8
    by (auto simp: value_char_def word_le_nat_alt word_unat_eq_iff)
  then show "all_valid VALID_HD_VALUE_CHARS s \<longleftrightarrow> list_all value_char s"
    unfolding value_table all_valid_set_all list_all_iff by simp
  show "all_valid VALID_METHOD_CHARS s \<longleftrightarrow> list_all method_char s"
    unfolding method_table all_valid_set_all list_all_iff by (auto simp: method_char_def class_defs)
  have "unat c \<notin> set (span 0 33 @ [127]) \<longleftrightarrow> path_char c" for c :: u8
    by (auto simp: path_char_def word_le_nat_alt word_unat_eq_iff)
  then show "all_valid VALID_PATH_CHARS s \<longleftrightarrow> list_all path_char s"
    unfolding path_table all_valid_set_all list_all_iff by simp
  show "all_valid VALID_AUTHORITY_CHARS s \<longleftrightarrow> list_all authority_char s"
    unfolding authority_table all_valid_set_all list_all_iff by (auto simp: authority_char_def class_defs)
qed

lemma check_header_name_iff:
  "nghttp2_check_header_name name \<longleftrightarrow>
     (\<exists>t. (name = t \<or> name = 0x3A # t) \<and> t \<noteq> [] \<and> list_all name_char t)"
proof -
  have "\<not> name_char 0x3A" by (simp add: name_char_def class_defs token_specials_def)
  then show ?thesis
    by (cases name) (auto simp: nghttp2_check_header_name_def all_valid_iff)
qed

section \<open>Properties\<close>

text \<open>The lower case of an ASCII letter, for the statement; other bytes are their own.\<close>

definition ascii_lower :: "u8 \<Rightarrow> u8" where
  "ascii_lower c = (if 0x41 \<le> c \<and> c \<le> 0x5A then c + 0x20 else c)"

lemma downcase_ascii: "downcase_byte c = ascii_lower c"
proof -
  have "unat (c + 0x20) = unat c + 32" if "unat c \<le> 90"
    using that by (simp add: unat_word_ariths)
  then show ?thesis
    by (auto simp: word_unat_eq_iff unat_downcase ascii_lower_def upper_alpha_def word_le_nat_alt)
qed


text \<open>Lower-casing is idempotent and turns a token into one the name check accepts.\<close>

lemma downcase_idem: "nghttp2_downcase (nghttp2_downcase s) = nghttp2_downcase s"
  by (auto simp: nghttp2_downcase_def word_unat_eq_iff unat_downcase upper_alpha_def)

lemma downcase_token:
  assumes "nghttp2_check_method s"
  shows "nghttp2_check_header_name (nghttp2_downcase s)"
proof -
  have ne: "s \<noteq> []" and ok: "list_all method_char s"
    using assms by (auto simp: nghttp2_check_method_def all_valid_iff split: if_splits)
  have "name_char (downcase_byte c)" if "c \<in> set s" for c
    using ok that
    by (auto simp: list_all_iff method_char_def name_char_def unat_downcase lower_alpha_def upper_alpha_def
      split: if_splits)
  then have "nghttp2_downcase s \<noteq> [] \<and> list_all name_char (nghttp2_downcase s)"
    using ne by (auto simp: nghttp2_downcase_def list_all_iff)
  then show ?thesis unfolding check_header_name_iff by blast
qed

end
