(* ===== verification/Ng_Flow.thy ===== *)
theory Ng_Flow
  imports Ng_Base
begin

text \<open>
  Rates and windows of the HTTP/2 library: the accounting of the receive window
  (\<^verbatim>\<open>nghttp2_helper.c\<close>) and the token bucket that limits stream resets
  (\<^verbatim>\<open>nghttp2_ratelim.c\<close>).

  The windows are \<^verbatim>\<open>int32_t\<close>, whose overflow is undefined: the model computes in the
  integers and is \<open>None\<close> when a result leaves the range. The bucket is unsigned and wraps.
\<close>

section \<open>Receive windows\<close>

definition i32 :: "int \<Rightarrow> int option" where
  "i32 x = (if - (2 ^ 31) \<le> x \<and> x < 2 ^ 31 then Some x else None)"

abbreviation NGHTTP2_MAX_WINDOW_SIZE :: int where "NGHTTP2_MAX_WINDOW_SIZE \<equiv> 2147483647"
abbreviation INT32_MIN :: int where "INT32_MIN \<equiv> - 2147483648"
abbreviation INT32_MAX :: int where "INT32_MAX \<equiv> 2147483647"

record window =
  local_window_size :: int
  recv_window_size :: int
  recv_reduction :: int
  delta :: int

definition nghttp2_adjust_local_window_size :: "window \<Rightarrow> (window \<times> int) option" where
  "nghttp2_adjust_local_window_size s =
     (if delta s > 0 then do {
        new_recv_window_size \<leftarrow> i32 (max 0 (recv_window_size s) - delta s);
        if new_recv_window_size \<ge> 0 then Some (s\<lparr>recv_window_size := new_recv_window_size\<rparr>, 0)
        else do {
          d \<leftarrow> i32 (- new_recv_window_size);
          limit \<leftarrow> i32 (NGHTTP2_MAX_WINDOW_SIZE - d);
          if local_window_size s > limit then Some (s, NGHTTP2_ERR_FLOW_CONTROL)
          else do {
            l \<leftarrow> i32 (local_window_size s + d);
            let recv_reduction_delta = min (recv_reduction s) d;
            red \<leftarrow> i32 (recv_reduction s - recv_reduction_delta);
            r \<leftarrow> (if recv_window_size s < 0 then i32 (recv_window_size s + recv_reduction_delta)
                 else Some recv_reduction_delta);
            dl \<leftarrow> i32 (delta s - recv_reduction_delta);
            Some (\<lparr>local_window_size = l, recv_window_size = r, recv_reduction = red, delta = dl\<rparr>, 0)
          }
        }
      } else do {
        l \<leftarrow> i32 (local_window_size s + delta s);
        if l < 0 then Some (s, NGHTTP2_ERR_FLOW_CONTROL)
        else do {
          lo \<leftarrow> i32 (INT32_MIN - delta s);
          if recv_window_size s < lo then Some (s, NGHTTP2_ERR_FLOW_CONTROL)
          else do {
            hi \<leftarrow> i32 (INT32_MAX + delta s);
            if recv_reduction s > hi then Some (s, NGHTTP2_ERR_FLOW_CONTROL)
            else do {
              r \<leftarrow> i32 (recv_window_size s + delta s);
              red \<leftarrow> i32 (recv_reduction s - delta s);
              Some (\<lparr>local_window_size = l, recv_window_size = r, recv_reduction = red, delta = 0\<rparr>, 0)
            }
          }
        }
      })"

text \<open>The assertion that the increment is not negative is a branch to \<open>None\<close>.\<close>

definition nghttp2_increase_local_window_size :: "window \<Rightarrow> (window \<times> int) option" where
  "nghttp2_increase_local_window_size s =
     (if delta s < 0 then None
      else do {
        limit \<leftarrow> i32 (NGHTTP2_MAX_WINDOW_SIZE - delta s);
        if local_window_size s > limit then Some (s, NGHTTP2_ERR_FLOW_CONTROL)
        else do {
          l \<leftarrow> i32 (local_window_size s + delta s);
          let recv_reduction_delta = min (recv_reduction s) (delta s);
          red \<leftarrow> i32 (recv_reduction s - recv_reduction_delta);
          r \<leftarrow> i32 (recv_window_size s + recv_reduction_delta);
          dl \<leftarrow> i32 (delta s - recv_reduction_delta);
          Some (\<lparr>local_window_size = l, recv_window_size = r, recv_reduction = red, delta = dl\<rparr>, 0)
        }
      })"

text \<open>\<^verbatim>\<open>local_window_size / 2\<close> rounds towards zero.\<close>

definition nghttp2_should_send_window_update :: "int \<Rightarrow> int \<Rightarrow> bool" where
  "nghttp2_should_send_window_update l r =
     (r > 0 \<and> r \<ge> (if l \<ge> 0 then l div 2 else - (- l div 2)))"

definition window_ok :: "window \<Rightarrow> bool" where
  "window_ok s \<longleftrightarrow> 0 \<le> local_window_size s \<and> local_window_size s \<le> INT32_MAX \<and>
     INT32_MIN \<le> recv_window_size s \<and> recv_window_size s \<le> local_window_size s \<and>
     0 \<le> recv_reduction s \<and> recv_reduction s \<le> INT32_MAX \<and>
     INT32_MIN < delta s \<and> delta s \<le> INT32_MAX"

text \<open>
  What the peer may still send: the window we keep, less what we have received and not yet returned.
\<close>

definition peer_credit :: "window \<Rightarrow> int" where
  "peer_credit s = local_window_size s - recv_window_size s"

lemma i32_in [simp]: "- 2147483648 \<le> x \<Longrightarrow> x \<le> 2147483647 \<Longrightarrow> i32 x = Some x"
  by (simp add: i32_def)

section \<open>The token bucket\<close>

record nghttp2_ratelim =
  burst :: u64
  rate :: u64
  val :: u64
  tstamp :: u64

definition nghttp2_ratelim_init :: "u64 \<Rightarrow> u64 \<Rightarrow> nghttp2_ratelim" where
  "nghttp2_ratelim_init b r = \<lparr>burst = b, rate = r, val = b, tstamp = 0\<rparr>"

definition nghttp2_ratelim_update :: "nghttp2_ratelim \<Rightarrow> u64 \<Rightarrow> nghttp2_ratelim" where
  "nghttp2_ratelim_update rl t =
     (if t = tstamp rl then rl
      else
        (let d = (if t > tstamp rl then t - tstamp rl else 1);
             rl1 = rl\<lparr>tstamp := t\<rparr>
         in if (- 1) div d < rate rl1 then rl1\<lparr>val := burst rl1\<rparr>
            else
              (let gain = rate rl1 * d
               in if (- 1) - gain < val rl1 then rl1\<lparr>val := burst rl1\<rparr>
                  else rl1\<lparr>val := min (val rl1 + gain) (burst rl1)\<rparr>)))"

definition nghttp2_ratelim_drain :: "nghttp2_ratelim \<Rightarrow> u64 \<Rightarrow> nghttp2_ratelim \<times> int" where
  "nghttp2_ratelim_drain rl n =
     (if val rl < n then (rl, - 1) else (rl\<lparr>val := val rl - n\<rparr>, 0))"

text \<open>The bucket in unbounded numbers.\<close>

definition ticks :: "nghttp2_ratelim \<Rightarrow> u64 \<Rightarrow> nat" where
  "ticks rl t = (if t = tstamp rl then 0 else if t > tstamp rl then unat t - unat (tstamp rl) else 1)"

lemma unat_u64_less: "unat (x :: u64) < 2 ^ 64"
  using unsigned_less [of x, where ?'a = nat] by simp

lemma unat_minus_one_u64: "unat (- 1 :: u64) = 2 ^ 64 - 1"
  by (simp add: unsigned_minus_1_eq_mask mask_eq_exp_minus_1)

lemma ratelim_update_exact:
  assumes "val rl \<le> burst rl"
  shows "unat (val (nghttp2_ratelim_update rl t)) =
     min (unat (burst rl)) (unat (val rl) + unat (rate rl) * ticks rl t)"
proof (cases "t = tstamp rl")
  case True
  then show ?thesis using assms
    by (simp add: nghttp2_ratelim_update_def ticks_def word_le_nat_alt min_def)
next
  case False
  define d where "d = (if t > tstamp rl then t - tstamp rl else 1)"
  have d: "unat d = ticks rl t" "d \<noteq> 0"
    using False by (auto simp: d_def ticks_def unat_sub order.strict_implies_order)
  have full: "unat (burst rl) < unat (val rl) + unat (rate rl) * ticks rl t"
    if "2 ^ 64 \<le> unat (val rl) + unat (rate rl) * ticks rl t"
    using that unat_u64_less [of "burst rl"] by simp
  show ?thesis
  proof (cases "(- 1) div d < rate rl")
    case True
    then have "(2 ^ 64 - 1) div ticks rl t < unat (rate rl)"
      by (simp add: word_less_nat_alt unat_div unat_minus_one_u64 d)
    then have "2 ^ 64 - 1 < unat (rate rl) * ticks rl t"
      using d by (simp add: div_less_iff_less_mult unat_eq_0 [symmetric] del: unat_eq_0)
    then show ?thesis
      using True False full by (simp add: nghttp2_ratelim_update_def d_def [symmetric])
  next
    case no: False
    then have "unat (rate rl) \<le> (2 ^ 64 - 1) div ticks rl t"
      by (simp add: word_less_nat_alt unat_div unat_minus_one_u64 d not_less)
    then have le: "unat (rate rl) * ticks rl t \<le> 2 ^ 64 - 1"
      using d by (simp add: less_eq_div_iff_mult_less_eq unat_eq_0 [symmetric] del: unat_eq_0)
    then have g: "unat (rate rl * d) = unat (rate rl) * ticks rl t"
      by (simp add: unat_word_ariths d)
    have m: "unat (- 1 - rate rl * d) = 2 ^ 64 - 1 - unat (rate rl) * ticks rl t"
      using le by (simp add: unat_sub word_le_nat_alt g unat_minus_one_u64)
    show ?thesis
    proof (cases "- 1 - rate rl * d < val rl")
      case True
      then have "2 ^ 64 \<le> unat (val rl) + unat (rate rl) * ticks rl t"
        using le by (simp add: word_less_nat_alt m)
      then show ?thesis
        using True False no full by (simp add: nghttp2_ratelim_update_def d_def [symmetric] Let_def)
    next
      case fits: False
      then have "unat (val rl) + unat (rate rl) * ticks rl t < 2 ^ 64"
        using le by (simp add: word_less_nat_alt m not_less)
      then have "unat (val rl + rate rl * d) = unat (val rl) + unat (rate rl) * ticks rl t"
        by (simp add: unat_word_ariths(1) g)
      then show ?thesis
        using False no fits by (simp add: nghttp2_ratelim_update_def d_def [symmetric] Let_def
          min_def word_le_nat_alt)
    qed
  qed
qed

text \<open>
  A run of the bucket: clock readings and withdrawals. The result also counts what was granted and
  the ticks for which the bucket was refilled.
\<close>

datatype rl_op = Update u64 | Drain u64

fun rl_run :: "rl_op list \<Rightarrow> nghttp2_ratelim \<Rightarrow> nghttp2_ratelim \<times> nat \<times> nat" where
  "rl_run [] rl = (rl, 0, 0)"
| "rl_run (Update t # ops) rl =
     (case rl_run ops (nghttp2_ratelim_update rl t) of (rl', g, n) \<Rightarrow> (rl', g, n + ticks rl t))"
| "rl_run (Drain n # ops) rl =
     (let (rl1, rc) = nghttp2_ratelim_drain rl n
      in case rl_run ops rl1 of (rl', g, m) \<Rightarrow> (rl', (if rc = 0 then unat n else 0) + g, m))"

lemma ratelim_update_frame:
  "burst (nghttp2_ratelim_update rl t) = burst rl" "rate (nghttp2_ratelim_update rl t) = rate rl"
  "val rl \<le> burst rl \<Longrightarrow> val (nghttp2_ratelim_update rl t) \<le> burst rl"
  using ratelim_update_exact [of rl t]
  by (auto simp: nghttp2_ratelim_update_def Let_def word_le_nat_alt)

lemma ratelim_drain_frame:
  assumes "nghttp2_ratelim_drain rl n = (rl1, rc)"
  shows "burst rl1 = burst rl" "rate rl1 = rate rl" "val rl1 \<le> val rl"
    "unat (val rl1) + (if rc = 0 then unat n else 0) = unat (val rl)"
  using assms
  by (auto simp: nghttp2_ratelim_drain_def unat_sub word_le_nat_alt not_less split: if_splits)

lemma rl_run_bound:
  assumes "val rl \<le> burst rl" "rl_run ops rl = (rl', g, n)"
  shows "g + unat (val rl') \<le> unat (val rl) + unat (rate rl) * n"
  using assms
proof (induction ops rl arbitrary: rl' g n rule: rl_run.induct)
  case (2 t ops rl)
  obtain g1 n1 where r: "rl_run ops (nghttp2_ratelim_update rl t) = (rl', g1, n1)"
    and g: "g = g1" "n = n1 + ticks rl t"
    using "2.prems"(2) by (auto split: prod.splits)
  have "g1 + unat (val rl') \<le> unat (val (nghttp2_ratelim_update rl t)) + unat (rate rl) * n1"
    using "2.IH" [OF _ r] "2.prems"(1) by (simp add: ratelim_update_frame)
  moreover have "unat (val (nghttp2_ratelim_update rl t)) \<le> unat (val rl) + unat (rate rl) * ticks rl t"
    using ratelim_update_exact [OF "2.prems"(1)] by simp
  ultimately show ?case by (simp add: g algebra_simps)
next
  case (3 k ops rl)
  obtain rl1 rc where d: "nghttp2_ratelim_drain rl k = (rl1, rc)" by force
  obtain g1 where r: "rl_run ops rl1 = (rl', g1, n)" and g: "g = (if rc = 0 then unat k else 0) + g1"
    using "3.prems"(2) d by (auto split: prod.splits)
  have "g1 + unat (val rl') \<le> unat (val rl1) + unat (rate rl1) * n"
    using "3.IH" [OF refl d [symmetric] _ r] "3.prems"(1) ratelim_drain_frame [OF d] by simp
  then show ?case using ratelim_drain_frame [OF d] by (simp add: g)
qed simp

section \<open>Properties\<close>

text \<open>
  What a successful adjustment does: the window stays well-formed, the credit of the peer changes by
  what the caller is told to send, and the rest of the adjustment is paid from the open reduction.
\<close>

definition adjusted :: "window \<Rightarrow> window \<Rightarrow> bool" where
  "adjusted s s' \<longleftrightarrow> window_ok s' \<and> 0 \<le> delta s' \<and> peer_credit s' = peer_credit s + delta s' \<and>
     recv_reduction s - recv_reduction s' = delta s - delta s'"



text \<open>
  C36. The bucket limits the rate: whatever the sequence of clock readings and withdrawals, the sum
  of the granted withdrawals is at most the burst plus the rate for every tick, although the
  arithmetic is modulo \<open>2 ^ 64\<close>.
\<close>

theorem ratelim_limits:
  "case rl_run ops (nghttp2_ratelim_init b r) of
     (rl, granted, n) \<Rightarrow> granted \<le> unat b + unat r * n"
proof -
  obtain rl g n where r: "rl_run ops (nghttp2_ratelim_init b r) = (rl, g, n)" by (cases rule: prod_cases3)
  have "g + unat (val rl) \<le> unat b + unat r * n"
    using rl_run_bound [OF _ r] by (simp add: nghttp2_ratelim_init_def)
  then show ?thesis by (simp add: r)
qed

end
