(* ===== verification/Ng_Pq.thy ===== *)
theory Ng_Pq
  imports Ng_Base "HOL-Library.Multiset"
begin

text \<open>
  The priority queue of the HTTP/2 library, \<^verbatim>\<open>nghttp2_pq.c\<close>: a binary heap in an array
  whose entries know their own position. An entry is a value of type \<open>'a\<close> (its address in C);
  the positions (\<^verbatim>\<open>entry->index\<close>) are a function. The array is its live prefix
  \<open>pq_q\<close>, so \<^verbatim>\<open>pq->length\<close> is its length; \<open>pq_capacity\<close> is what is allocated.

  The comparison is the callback \<^verbatim>\<open>pq->less\<close>. The heap is correct for any strict weak order
  of the entries in it (locale \<open>entry_order\<close>), and the library's own comparison of streams,
  \<^verbatim>\<open>stream_less\<close>, is one for streams whose cycles lie in a window, although the cycle counter
  wraps around.
\<close>

section \<open>The queue\<close>

record 'a nghttp2_pq =
  pq_q :: "'a list"
  pq_index :: "'a \<Rightarrow> nat"
  pq_capacity :: nat

abbreviation pq_length :: "'a nghttp2_pq \<Rightarrow> nat" where "pq_length pq \<equiv> length (pq_q pq)"

definition nghttp2_pq_init :: "('a \<Rightarrow> nat) \<Rightarrow> 'a nghttp2_pq" where
  "nghttp2_pq_init idx = \<lparr>pq_q = [], pq_index = idx, pq_capacity = 0\<rparr>"

definition pq_swap :: "'a nghttp2_pq \<Rightarrow> nat \<Rightarrow> nat \<Rightarrow> 'a nghttp2_pq" where
  "pq_swap pq i j =
     (let a = pq_q pq ! i; b = pq_q pq ! j
      in pq\<lparr>pq_q := (pq_q pq)[i := b, j := a], pq_index := (pq_index pq)(b := i, a := j)\<rparr>)"

function bubble_up :: "('a \<Rightarrow> 'a \<Rightarrow> bool) \<Rightarrow> 'a nghttp2_pq \<Rightarrow> nat \<Rightarrow> 'a nghttp2_pq" where
  "bubble_up lt pq index =
     (if index \<noteq> 0 then
        (let parent = (index - 1) div 2
         in if \<not> lt (pq_q pq ! index) (pq_q pq ! parent) then pq
            else bubble_up lt (pq_swap pq parent index) parent)
      else pq)"
  by pat_completeness auto
termination by (relation "measure (\<lambda>(_, _, i). i)") auto

text \<open>Growing the array fails when the allocator does; then the queue is unchanged.\<close>

definition nghttp2_pq_push :: "('a \<Rightarrow> 'a \<Rightarrow> bool) \<Rightarrow> mem \<Rightarrow> 'a \<Rightarrow> 'a nghttp2_pq \<Rightarrow> 'a nghttp2_pq \<times> mem \<times> int" where
  "nghttp2_pq_push lt m item pq =
     (let (ok, m1, cap) =
        (if pq_capacity pq \<le> pq_length pq
         then (let (ok, m1) = mem_alloc m in (ok, m1, max 4 (pq_capacity pq * 2)))
         else (True, m, pq_capacity pq))
      in if \<not> ok then (pq, m1, NGHTTP2_ERR_NOMEM)
         else
           (let pq1 = \<lparr>pq_q = pq_q pq @ [item], pq_index = (pq_index pq)(item := pq_length pq), pq_capacity = cap\<rparr>
            in (bubble_up lt pq1 (pq_length pq1 - 1), m1, 0)))"

definition nghttp2_pq_top :: "'a nghttp2_pq \<Rightarrow> 'a option" where
  "nghttp2_pq_top pq = (if pq_length pq = 0 then None else Some (pq_q pq ! 0))"

definition min_index :: "('a \<Rightarrow> 'a \<Rightarrow> bool) \<Rightarrow> 'a list \<Rightarrow> nat \<Rightarrow> nat" where
  "min_index lt q index =
     (let j = index * 2 + 1;
          m1 = (if j < length q \<and> lt (q ! j) (q ! index) then j else index)
      in if j < length q \<and> j + 1 < length q \<and> lt (q ! (j + 1)) (q ! m1) then j + 1 else m1)"

lemma length_pq_swap [simp]: "length (pq_q (pq_swap pq i j)) = length (pq_q pq)"
  by (simp add: pq_swap_def Let_def)

lemma min_index_range:
  "min_index lt q k \<noteq> k \<Longrightarrow> k < min_index lt q k \<and> min_index lt q k < length q"
  by (auto simp: min_index_def Let_def split: if_splits)

lemma min_index_out: "length q \<le> k \<Longrightarrow> min_index lt q k = k"
  by (simp add: min_index_def)

function bubble_down :: "('a \<Rightarrow> 'a \<Rightarrow> bool) \<Rightarrow> 'a nghttp2_pq \<Rightarrow> nat \<Rightarrow> 'a nghttp2_pq" where
  "bubble_down lt pq index =
     (let minindex = min_index lt (pq_q pq) index
      in if minindex = index then pq
         else bubble_down lt (pq_swap pq index minindex) minindex)"
  by pat_completeness auto
termination
proof (relation "measure (\<lambda>(_, pq, i). pq_length pq - i)")
  fix lt :: "'a \<Rightarrow> 'a \<Rightarrow> bool" and pq :: "'a nghttp2_pq" and k m
  assume "m = min_index lt (pq_q pq) k" "m \<noteq> k"
  then show "((lt, pq_swap pq k m, m), (lt, pq, k)) \<in> measure (\<lambda>(_, pq, i). pq_length pq - i)"
    using min_index_range [of lt "pq_q pq" k] by (auto intro: diff_less_mono2)
qed simp

declare bubble_up.simps [simp del] bubble_down.simps [simp del]

definition nghttp2_pq_pop :: "('a \<Rightarrow> 'a \<Rightarrow> bool) \<Rightarrow> 'a nghttp2_pq \<Rightarrow> 'a nghttp2_pq" where
  "nghttp2_pq_pop lt pq =
     (if pq_length pq > 0 then
        (let x = pq_q pq ! (pq_length pq - 1)
         in bubble_down lt
              (pq\<lparr>pq_q := butlast ((pq_q pq)[0 := x]), pq_index := (pq_index pq)(x := 0)\<rparr>) 0)
      else pq)"

text \<open>The assertion that the entry is where it says is a branch to \<open>None\<close>.\<close>

definition nghttp2_pq_remove :: "('a \<Rightarrow> 'a \<Rightarrow> bool) \<Rightarrow> 'a \<Rightarrow> 'a nghttp2_pq \<Rightarrow> 'a nghttp2_pq option" where
  "nghttp2_pq_remove lt item pq =
     (let i = pq_index pq item in
      if \<not> (i < pq_length pq \<and> pq_q pq ! i = item) then None
      else if i = 0 then Some (nghttp2_pq_pop lt pq)
      else if i = pq_length pq - 1 then Some (pq\<lparr>pq_q := butlast (pq_q pq)\<rparr>)
      else
        (let x = pq_q pq ! (pq_length pq - 1);
             pq1 = pq\<lparr>pq_q := butlast ((pq_q pq)[i := x]), pq_index := (pq_index pq)(x := i)\<rparr>
         in Some (if lt item x then bubble_down lt pq1 i else bubble_up lt pq1 i)))"

definition nghttp2_pq_empty :: "'a nghttp2_pq \<Rightarrow> bool" where
  "nghttp2_pq_empty pq = (pq_length pq = 0)"

definition nghttp2_pq_size :: "'a nghttp2_pq \<Rightarrow> nat" where
  "nghttp2_pq_size pq = pq_length pq"

text \<open>
  \<^verbatim>\<open>nghttp2_pq_update\<close>: the callback may change the keys; \<open>lt\<close> is the comparison with the
  keys after it, \<open>changed\<close> whether some call answered non-zero.
\<close>

fun heapify :: "('a \<Rightarrow> 'a \<Rightarrow> bool) \<Rightarrow> nat \<Rightarrow> 'a nghttp2_pq \<Rightarrow> 'a nghttp2_pq" where
  "heapify lt 0 pq = pq"
| "heapify lt (Suc i) pq = heapify lt i (bubble_down lt pq i)"

definition nghttp2_pq_update :: "('a \<Rightarrow> 'a \<Rightarrow> bool) \<Rightarrow> ('a \<Rightarrow> int) \<Rightarrow> 'a nghttp2_pq \<Rightarrow> 'a nghttp2_pq" where
  "nghttp2_pq_update lt fn pq =
     (if pq_length pq = 0 then pq
      else if list_ex (\<lambda>x. fn x \<noteq> 0) (pq_q pq) then heapify lt (pq_length pq) pq else pq)"

definition nghttp2_pq_each :: "('a \<Rightarrow> int) \<Rightarrow> 'a nghttp2_pq \<Rightarrow> bool" where
  "nghttp2_pq_each fn pq = list_ex (\<lambda>x. fn x \<noteq> 0) (pq_q pq)"

section \<open>Positions and contents\<close>

definition index_ok :: "'a nghttp2_pq \<Rightarrow> bool" where
  "index_ok pq \<longleftrightarrow> distinct (pq_q pq) \<and> (\<forall>i < pq_length pq. pq_index pq (pq_q pq ! i) = i)"

lemma pq_swap_nth:
  "i < pq_length pq \<Longrightarrow> j < pq_length pq \<Longrightarrow> k < pq_length pq \<Longrightarrow>
   pq_q (pq_swap pq i j) ! k =
     (if k = j then pq_q pq ! i else if k = i then pq_q pq ! j else pq_q pq ! k)"
  by (simp add: pq_swap_def Let_def nth_list_update)

lemma mset_pq_swap [simp]:
  "i < pq_length pq \<Longrightarrow> j < pq_length pq \<Longrightarrow> mset (pq_q (pq_swap pq i j)) = mset (pq_q pq)"
  by (simp add: pq_swap_def Let_def mset_swap)

lemma pq_swap_capacity [simp]: "pq_capacity (pq_swap pq i j) = pq_capacity pq"
  by (simp add: pq_swap_def Let_def)

lemma index_ok_swap:
  assumes ok: "index_ok pq" and "i < pq_length pq" "j < pq_length pq"
  shows "index_ok (pq_swap pq i j)"
proof -
  have "distinct (pq_q (pq_swap pq i j))"
    using assms mset_eq_imp_distinct_iff [OF mset_pq_swap [OF assms(2,3)]] by (simp add: index_ok_def)
  moreover have "pq_index (pq_swap pq i j) (pq_q (pq_swap pq i j) ! k) = k" if "k < pq_length pq" for k
    using assms that
    by (auto simp: pq_swap_nth index_ok_def nth_eq_iff_index_eq) (auto simp: pq_swap_def Let_def index_ok_def nth_eq_iff_index_eq)
  ultimately show ?thesis by (simp add: index_ok_def)
qed

definition par :: "nat \<Rightarrow> nat" where "par i = (i - 1) div 2"

lemma par_less [simp]: "0 < i \<Longrightarrow> par i < i"
  by (simp add: par_def)

lemma par_bound [simp]: "i < n \<Longrightarrow> par i < n"
  by (simp add: par_def)

lemma par_eq_iff: "0 < i \<Longrightarrow> par i = k \<longleftrightarrow> i = 2 * k + 1 \<or> i = 2 * k + 2"
  unfolding par_def by presburger

lemma bubble_up_eq:
  "bubble_up lt pq k =
     (if 0 < k \<and> lt (pq_q pq ! k) (pq_q pq ! par k) then bubble_up lt (pq_swap pq (par k) k) (par k) else pq)"
  by (subst bubble_up.simps) (simp add: Let_def par_def)

lemma bubble_up_frame:
  "k < pq_length pq \<Longrightarrow> mset (pq_q (bubble_up lt pq k)) = mset (pq_q pq) \<and>
   pq_capacity (bubble_up lt pq k) = pq_capacity pq \<and> (index_ok pq \<longrightarrow> index_ok (bubble_up lt pq k))"
proof (induction k arbitrary: pq rule: less_induct)
  case (less k)
  show ?case
  proof (cases "0 < k \<and> lt (pq_q pq ! k) (pq_q pq ! par k)")
    case True
    then have "par k < k" by simp
    then show ?thesis
      using less.IH [of "par k" "pq_swap pq (par k) k"] less.prems True
      by (simp add: bubble_up_eq [of lt pq k] index_ok_swap)
  next
    case False
    then have "bubble_up lt pq k = pq" by (subst bubble_up_eq) auto
    then show ?thesis by simp
  qed
qed

lemma bubble_down_frame:
  "k < pq_length pq \<or> min_index lt (pq_q pq) k = k \<Longrightarrow>
   mset (pq_q (bubble_down lt pq k)) = mset (pq_q pq) \<and>
   pq_capacity (bubble_down lt pq k) = pq_capacity pq \<and>
   (index_ok pq \<longrightarrow> index_ok (bubble_down lt pq k))"
proof (induction lt pq k rule: bubble_down.induct)
  case (1 lt pq k)
  let ?m = "min_index lt (pq_q pq) k"
  show ?case
  proof (cases "?m = k")
    case False
    then have r: "?m < pq_length pq" "k < pq_length pq" using min_index_range [of lt "pq_q pq" k] by auto
    then show ?thesis
      using 1 False by (subst (1 2 3) bubble_down.simps) (simp add: Let_def index_ok_swap)
  next
    case True
    then show ?thesis by (subst (1 2 3) bubble_down.simps) (simp add: Let_def)
  qed
qed

lemma bubble_down_mset [simp]: "mset (pq_q (bubble_down lt pq k)) = mset (pq_q pq)"
proof (cases "k < pq_length pq")
  case False
  then have "min_index lt (pq_q pq) k = k" by (simp add: min_index_out)
  then show ?thesis using bubble_down_frame [of k pq lt] by simp
qed (simp add: bubble_down_frame)

lemma bubble_down_index_ok: "index_ok pq \<Longrightarrow> index_ok (bubble_down lt pq k)"
proof (cases "k < pq_length pq")
  case False
  then have "min_index lt (pq_q pq) k = k" by (simp add: min_index_out)
  then show "index_ok pq \<Longrightarrow> ?thesis" using bubble_down_frame [of k pq lt] by simp
qed (simp add: bubble_down_frame)

lemma bubble_length [simp]:
  "pq_length (bubble_down lt pq k) = pq_length pq"
  by (rule mset_eq_length) simp

lemma bubble_up_length [simp]:
  assumes "k < pq_length pq" shows "pq_length (bubble_up lt pq k) = pq_length pq"
  using bubble_up_frame [OF assms, of lt] by (blast dest: mset_eq_length)

section \<open>The heap order\<close>

text \<open>
  \<open>ordered lt m q\<close>: every entry whose parent is at \<open>m\<close> or behind is not before its parent; with
  \<open>m = 0\<close> the array is a heap. While an entry bubbles, the order is broken at one place:
  \<open>down_inv\<close> and \<open>up_inv\<close>.
\<close>

definition ordered :: "('a \<Rightarrow> 'a \<Rightarrow> bool) \<Rightarrow> nat \<Rightarrow> 'a list \<Rightarrow> bool" where
  "ordered lt m q \<longleftrightarrow> (\<forall>i. 0 < i \<and> i < length q \<and> m \<le> par i \<longrightarrow> \<not> lt (q ! i) (q ! par i))"

definition down_inv :: "('a \<Rightarrow> 'a \<Rightarrow> bool) \<Rightarrow> nat \<Rightarrow> 'a list \<Rightarrow> nat \<Rightarrow> bool" where
  "down_inv lt m q k \<longleftrightarrow>
     (\<forall>i. 0 < i \<and> i < length q \<and> m \<le> par i \<and> par i \<noteq> k \<longrightarrow> \<not> lt (q ! i) (q ! par i)) \<and>
     (0 < k \<and> m \<le> par k \<longrightarrow> (\<forall>i. 0 < i \<and> i < length q \<and> par i = k \<longrightarrow> \<not> lt (q ! i) (q ! par k)))"

definition up_inv :: "('a \<Rightarrow> 'a \<Rightarrow> bool) \<Rightarrow> 'a list \<Rightarrow> nat \<Rightarrow> bool" where
  "up_inv lt q k \<longleftrightarrow>
     (\<forall>i. 0 < i \<and> i < length q \<and> i \<noteq> k \<longrightarrow> \<not> lt (q ! i) (q ! par i)) \<and>
     (0 < k \<longrightarrow> (\<forall>i. 0 < i \<and> i < length q \<and> par i = k \<longrightarrow> \<not> lt (q ! i) (q ! par k)))"

locale entry_order =
  fixes lt :: "'a \<Rightarrow> 'a \<Rightarrow> bool" and carrier :: "'a set"
  assumes asym: "a \<in> carrier \<Longrightarrow> b \<in> carrier \<Longrightarrow> lt a b \<Longrightarrow> \<not> lt b a"
    and negtrans: "a \<in> carrier \<Longrightarrow> b \<in> carrier \<Longrightarrow> c \<in> carrier \<Longrightarrow>
      \<not> lt a b \<Longrightarrow> \<not> lt b c \<Longrightarrow> \<not> lt a c"
begin

lemma irrefl: "a \<in> carrier \<Longrightarrow> \<not> lt a a"
  using asym by blast

lemma min_index_min:
  assumes "set q \<subseteq> carrier" "k < length q" "0 < i" "i < length q" "par i = k"
  shows "\<not> lt (q ! i) (q ! min_index lt q k)"
proof -
  have c: "q ! j \<in> carrier" if "j < length q" for j using assms(1) that by auto
  consider (left) "i = 2 * k + 1" | (right) "i = 2 * k + 2" using assms(3,5) par_eq_iff by blast
  then show ?thesis
  proof cases
    case left
    have m: "min_index lt q k = (let m1 = (if lt (q ! i) (q ! k) then i else k)
        in if i + 1 < length q \<and> lt (q ! (i + 1)) (q ! m1) then i + 1 else m1)"
      using assms(4) unfolding left min_index_def Let_def by (simp add: mult.commute)
    show ?thesis
    proof (cases "i + 1 < length q")
      case True
      show ?thesis
        using c [OF assms(4)] c [OF assms(2)] c [OF True] True
          asym [of "q ! (i + 1)" "q ! i"] asym [of "q ! (i + 1)" "q ! k"]
          negtrans [of "q ! i" "q ! k" "q ! (i + 1)"] irrefl [of "q ! i"]
        by (auto simp: m Let_def)
    next
      case False
      then show ?thesis using c [OF assms(4)] irrefl [of "q ! i"] by (simp add: m Let_def)
    qed
  next
    case right
    then have i: "2 * k + 1 < length q" using assms(4) by simp
    have "min_index lt q k = (let m1 = (if lt (q ! (2 * k + 1)) (q ! k) then 2 * k + 1 else k)
        in if lt (q ! i) (q ! m1) then i else m1)"
      using assms(4) unfolding right min_index_def Let_def by (simp add: mult.commute)
    then show ?thesis
      using c [OF assms(4)] irrefl [of "q ! i"] by (auto simp: Let_def)
  qed
qed

end

lemma min_index_child:
  "min_index lt q k \<noteq> k \<Longrightarrow> par (min_index lt q k) = k"
  by (auto simp: min_index_def Let_def par_def split: if_splits)

context entry_order begin

lemma min_index_lt:
  assumes "set q \<subseteq> carrier" "min_index lt q k \<noteq> k"
  shows "lt (q ! min_index lt q k) (q ! k)"
proof -
  have len: "k < length q" using min_index_range [OF assms(2)] by simp
  have c: "q ! j \<in> carrier" if "j < length q" for j using assms(1) that by auto
  define j where "j = k * 2 + 1"
  define m1 where "m1 = (if j < length q \<and> lt (q ! j) (q ! k) then j else k)"
  have m: "min_index lt q k = (if j < length q \<and> j + 1 < length q \<and> lt (q ! (j + 1)) (q ! m1) then j + 1 else m1)"
    by (simp add: min_index_def Let_def j_def m1_def)
  show ?thesis
  proof (cases "j + 1 < length q \<and> lt (q ! (j + 1)) (q ! m1)")
    case True
    then show ?thesis
      using m negtrans [of "q ! (j + 1)" "q ! k" "q ! j"] asym [of "q ! j" "q ! k"] c [OF len] c [of j] c [of "j + 1"]
      by (auto simp: m1_def split: if_splits)
  next
    case False
    then show ?thesis using m assms(2) by (auto simp: m1_def split: if_splits)
  qed
qed

text \<open>One step of bubbling down keeps the order broken at one place.\<close>

lemma down_step:
  assumes car: "set (pq_q pq) \<subseteq> carrier" and m: "m \<le> k" and inv: "down_inv lt m (pq_q pq) k"
    and c: "c = min_index lt (pq_q pq) k" "c \<noteq> k"
  shows "down_inv lt m (pq_q (pq_swap pq k c)) c"
proof -
  let ?q = "pq_q pq" and ?q' = "pq_q (pq_swap pq k c)"
  have len: "k < length ?q" "c < length ?q" "k < c" using min_index_range [of lt ?q k] c by auto
  have pc: "par c = k" using min_index_child [of lt ?q k] c by simp
  have mem: "?q ! j \<in> carrier" if "j < length ?q" for j using car that by auto
  have nth: "?q' ! j = (if j = c then ?q ! k else if j = k then ?q ! c else ?q ! j)" if "j < length ?q" for j
    using pq_swap_nth [OF len(1,2) that] .
  have lt: "\<not> lt (?q ! k) (?q ! c)" 
    using min_index_lt [OF car] c asym mem [OF len(1)] mem [OF len(2)] by auto
  show ?thesis
    unfolding down_inv_def
  proof (intro conjI allI impI)
    fix i assume i: "0 < i \<and> i < length ?q' \<and> m \<le> par i \<and> par i \<noteq> c"
    then have il: "i < length ?q" "par i < length ?q" using par_less [of i] by auto
    show "\<not> lt (?q' ! i) (?q' ! par i)"
    proof (cases "par i = k")
      case True
      then have "i \<noteq> k" using par_less [of i] i by auto
      have "?q' ! par i = ?q ! c" using nth [OF il(2)] True len by simp
      moreover have "?q' ! i = (if i = c then ?q ! k else ?q ! i)" using nth [OF il(1)] \<open>i \<noteq> k\<close> by simp
      moreover have "\<not> lt (?q ! i) (?q ! c)"
        using min_index_min [OF car len(1), of i] i il c True by simp
      ultimately show ?thesis using lt by simp
    next
      case False
      then have "i \<noteq> c" using pc by auto
      show ?thesis
      proof (cases "i = k")
        case True
        then have "\<not> lt (?q ! c) (?q ! par k)"
          using inv i len pc by (auto simp: down_inv_def)
        then show ?thesis using True i il len False \<open>i \<noteq> c\<close> by (simp add: nth)
      next
        case nk: False
        then show ?thesis
          using inv i il False \<open>i \<noteq> c\<close> by (auto simp: nth down_inv_def)
      qed
    qed
  next
    fix i assume "0 < c \<and> m \<le> par c" and i: "0 < i \<and> i < length ?q' \<and> par i = c"
    then have "i \<noteq> c" "i \<noteq> k" "par i \<noteq> k" using par_less [of i] len by auto
    then have "\<not> lt (?q ! i) (?q ! c)"
      using inv i m len by (auto simp: down_inv_def)
    then show "\<not> lt (?q' ! i) (?q' ! par c)"
      using i \<open>i \<noteq> c\<close> \<open>i \<noteq> k\<close> len by (simp add: nth pc)
  qed
qed

lemma bubble_down_ordered:
  assumes "set (pq_q pq) \<subseteq> carrier" "m \<le> k" "down_inv lt m (pq_q pq) k"
  shows "ordered lt m (pq_q (bubble_down lt pq k))"
  using assms
proof (induction "pq_length pq - k" arbitrary: pq k rule: less_induct)
  case less
  let ?c = "min_index lt (pq_q pq) k"
  show ?case
  proof (cases "?c = k")
    case True
    have "\<not> lt (pq_q pq ! i) (pq_q pq ! par i)" if "0 < i" "i < pq_length pq" "par i = k" for i
      using min_index_min [OF less.prems(1), of k i] that True par_less [of i] by auto
    then have "ordered lt m (pq_q pq)"
      using less.prems(3) by (auto simp: ordered_def down_inv_def)
    then show ?thesis using True by (subst bubble_down.simps) (simp add: Let_def)
  next
    case False
    then have r: "k < ?c" "?c < pq_length pq" using min_index_range [of lt "pq_q pq" k] by auto
    have "set (pq_q (pq_swap pq k ?c)) = set (pq_q pq)"
      using r by (intro mset_eq_setD) simp
    then have "ordered lt m (pq_q (bubble_down lt (pq_swap pq k ?c) ?c))"
      using r less.prems down_step [OF less.prems refl False] by (intro less.hyps) auto
    then show ?thesis using False by (subst bubble_down.simps) (simp add: Let_def)
  qed
qed

lemma up_step:
  assumes car: "set (pq_q pq) \<subseteq> carrier" and k: "0 < k" "k < pq_length pq"
    and inv: "up_inv lt (pq_q pq) k" and lt: "lt (pq_q pq ! k) (pq_q pq ! par k)"
  shows "up_inv lt (pq_q (pq_swap pq (par k) k)) (par k)"
proof -
  let ?q = "pq_q pq" and ?q' = "pq_q (pq_swap pq (par k) k)"
  have pl: "par k < k" using k by simp
  then have len: "par k < length ?q" using k by simp
  have mem: "?q ! j \<in> carrier" if "j < length ?q" for j using car that by auto
  have nth: "?q' ! j = (if j = k then ?q ! par k else if j = par k then ?q ! k else ?q ! j)" if "j < length ?q" for j
    using pq_swap_nth [OF len k(2) that] .
  have nlt: "\<not> lt (?q ! par k) (?q ! k)" using lt asym mem len k by blast
  show ?thesis
    unfolding up_inv_def
  proof (intro conjI allI impI)
    fix i assume i: "0 < i \<and> i < length ?q' \<and> i \<noteq> par k"
    then have il: "i < length ?q" "par i < length ?q" "par i < i" using par_less [of i] by auto
    show "\<not> lt (?q' ! i) (?q' ! par i)"
    proof (cases "i = k")
      case True
      then show ?thesis using nlt pl k il by (simp add: nth)
    next
      case ik: False
      then have o: "\<not> lt (?q ! i) (?q ! par i)" using inv i by (simp add: up_inv_def)
      consider "par i = k" | "par i = par k" | "par i \<noteq> k" "par i \<noteq> par k" by blast
      then show ?thesis
      proof cases
        case 1
        then have "\<not> lt (?q ! i) (?q ! par k)" using inv i k by (simp add: up_inv_def)
        then show ?thesis using 1 ik i il k by (simp add: nth)
      next
        case 2
        then have "\<not> lt (?q ! i) (?q ! k)"
          using o nlt negtrans mem il len k by metis
        then show ?thesis using 2 ik i il pl by (simp add: nth)
      next
        case 3
        then show ?thesis using o ik i il by (simp add: nth)
      qed
    qed
  next
    fix i assume pk: "0 < par k" and i: "0 < i \<and> i < length ?q' \<and> par i = par k"
    have pp: "par (par k) < par k" using pk by simp
    have o: "\<not> lt (?q ! par k) (?q ! par (par k))" using inv pk len pl by (simp add: up_inv_def)
    have "par (par k) \<noteq> k" "par (par k) \<noteq> par k" "par (par k) < length ?q" using pp pl k by linarith+
    then have ppk: "?q' ! par (par k) = ?q ! par (par k)" by (simp only: nth if_False)
    show "\<not> lt (?q' ! i) (?q' ! par (par k))"
    proof (cases "i = k")
      case True
      have "?q' ! k = ?q ! par k" using nth [OF k(2)] by simp
      then show ?thesis using True o ppk by simp
    next
      case False
      then have "\<not> lt (?q ! i) (?q ! par k)" using inv i by (auto simp: up_inv_def)
      then have "\<not> lt (?q ! i) (?q ! par (par k))"
        using o negtrans mem i len pp by (metis length_pq_swap order.strict_trans)
      moreover have "i \<noteq> par k" using i par_less [of i] by (metis less_irrefl)
      ultimately show ?thesis using False i nth [of i] unfolding ppk by simp
    qed
  qed
qed

lemma bubble_up_ordered:
  assumes "set (pq_q pq) \<subseteq> carrier" "k < pq_length pq" "up_inv lt (pq_q pq) k"
  shows "ordered lt 0 (pq_q (bubble_up lt pq k))"
  using assms
proof (induction k arbitrary: pq rule: less_induct)
  case (less k)
  show ?case
  proof (cases "0 < k \<and> lt (pq_q pq ! k) (pq_q pq ! par k)")
    case True
    then have r: "par k < k" "par k < pq_length pq" using less.prems(2) par_less [of k] by auto
    have "set (pq_q (pq_swap pq (par k) k)) = set (pq_q pq)"
      using r less.prems(2) by (intro mset_eq_setD) simp
    then have "ordered lt 0 (pq_q (bubble_up lt (pq_swap pq (par k) k) (par k)))"
      using r less.prems True up_step [OF less.prems(1) _ less.prems(2,3)] by (intro less.IH) auto
    then show ?thesis using True bubble_up_eq [of lt pq k] by simp
  next
    case False
    then have "bubble_up lt pq k = pq" by (subst bubble_up_eq) auto
    moreover have "ordered lt 0 (pq_q pq)"
      using less.prems(3) False by (auto simp: ordered_def up_inv_def)
    ultimately show ?thesis by simp
  qed
qed

text \<open>The invariant, and what each operation does with the multiset of the entries.\<close>

definition pq_ok :: "'a nghttp2_pq \<Rightarrow> bool" where
  "pq_ok pq \<longleftrightarrow> index_ok pq \<and> ordered lt 0 (pq_q pq) \<and> set (pq_q pq) \<subseteq> carrier"

lemma ordered_least:
  assumes "set q \<subseteq> carrier" "ordered lt 0 q" "i < length q"
  shows "\<not> lt (q ! i) (q ! 0)"
  using assms(3)
proof (induction i rule: less_induct)
  case (less i)
  show ?case
  proof (cases "i = 0")
    case False
    then have p: "par i < i" "par i < length q" using less.prems by auto
    have "\<not> lt (q ! par i) (q ! 0)" using less.IH p by blast
    moreover have "\<not> lt (q ! i) (q ! par i)" using assms(2) less.prems False by (simp add: ordered_def)
    moreover have "0 < length q" using less.prems by linarith
    then have "q ! i \<in> carrier" "q ! par i \<in> carrier" "q ! 0 \<in> carrier"
      using assms(1) less.prems p(2) nth_mem by blast+
    ultimately show ?thesis using negtrans by blast
  next
    case True
    have "q ! 0 \<in> carrier" using assms(1) less.prems True by auto
    then show ?thesis using True irrefl by blast
  qed
qed

lemma top_least:
  assumes "pq_ok pq" "nghttp2_pq_top pq = Some x" "y \<in> set (pq_q pq)"
  shows "x \<in> set (pq_q pq) \<and> \<not> lt y x"
proof -
  have x: "0 < pq_length pq" "x = pq_q pq ! 0"
    using assms(2) by (auto simp: nghttp2_pq_top_def split: if_splits)
  obtain i where "i < pq_length pq" "y = pq_q pq ! i" using assms(3) by (auto simp: in_set_conv_nth)
  then show ?thesis
    using ordered_least [of "pq_q pq" i] assms(1) x by (auto simp: pq_ok_def)
qed

lemma push_ok:
  assumes ok: "pq_ok pq" and item: "item \<in> carrier" "item \<notin> set (pq_q pq)"
    and push: "nghttp2_pq_push lt m item pq = (pq', m', rc)"
  shows "if rc = 0 then pq_ok pq' \<and> mset (pq_q pq') = add_mset item (mset (pq_q pq)) else pq' = pq"
proof (cases "rc = 0")
  case True
  then obtain cap where
    p: "pq' = bubble_up lt \<lparr>pq_q = pq_q pq @ [item], pq_index = (pq_index pq)(item := pq_length pq), pq_capacity = cap\<rparr>
          (pq_length pq)"
    using push by (auto simp: nghttp2_pq_push_def Let_def split: prod.splits if_splits)
  let ?pq1 = "\<lparr>pq_q = pq_q pq @ [item], pq_index = (pq_index pq)(item := pq_length pq), pq_capacity = cap\<rparr>"
  let ?n = "pq_length pq"
  have i1: "index_ok ?pq1"
    using ok item by (auto simp: pq_ok_def index_ok_def nth_append)
  have "up_inv lt (pq_q ?pq1) ?n"
    using ok by (auto simp: up_inv_def pq_ok_def ordered_def nth_append par_eq_iff)
  moreover have "set (pq_q ?pq1) \<subseteq> carrier" using ok item by (auto simp: pq_ok_def)
  ultimately have o: "ordered lt 0 (pq_q pq')" unfolding p by (intro bubble_up_ordered) auto
  have f: "mset (pq_q pq') = mset (pq_q ?pq1)" "index_ok pq'"
    using bubble_up_frame [of ?n ?pq1 lt] i1 by (auto simp: p)
  then have "set (pq_q pq') \<subseteq> carrier"
    using ok item mset_eq_setD [OF f(1)] by (simp add: pq_ok_def)
  then show ?thesis using True o f by (simp add: pq_ok_def)
next
  case False
  then show ?thesis using push by (auto simp: nghttp2_pq_push_def Let_def split: prod.splits if_splits)
qed

text \<open>Cutting off the last entry, after it took the place of another one.\<close>

lemma replace_mset:
  "i < length q \<Longrightarrow> mset (butlast (q[i := last q])) = mset q - {#q ! i#}"
proof -
  assume i: "i < length q"
  have ne: "q \<noteq> []" "q[i := last q] \<noteq> []" using i by auto
  have last: "last (q[i := last q]) = last q" using ne(1) by (simp add: last_list_update)
  have "mset (q[i := last q]) = add_mset (last q) (mset (butlast (q[i := last q])))"
    using arg_cong [OF append_butlast_last_id [OF ne(2)], of mset] last by simp
  moreover have "mset (q[i := last q]) = add_mset (last q) (mset q - {#q ! i#})" by (rule mset_update [OF i])
  ultimately show ?thesis by simp
qed

lemma replace_index_ok:
  assumes "index_ok pq" "i < pq_length pq - 1"
  shows "index_ok (pq\<lparr>pq_q := butlast ((pq_q pq)[i := last (pq_q pq)]),
                     pq_index := (pq_index pq)(last (pq_q pq) := i)\<rparr>)"
proof -
  let ?q = "pq_q pq"
  have ne: "?q \<noteq> []" using assms(2) by auto
  then have n: "last ?q = ?q ! (length ?q - 1)" by (simp add: last_conv_nth)
  have d: "distinct ?q" using assms(1) by (simp add: index_ok_def)
  have "distinct (butlast (?q[i := last ?q]))"
  proof -
    have "mset (?q ! i # butlast (?q[i := last ?q])) = mset ?q"
      using replace_mset [of i ?q] assms(2) by (simp add: nth_mem)
    then show ?thesis using d mset_eq_imp_distinct_iff by (metis distinct.simps(2))
  qed
  moreover have "?q ! k \<noteq> last ?q" if "k < length ?q - 1" for k
    using d that n by (auto simp: nth_eq_iff_index_eq)
  ultimately show ?thesis
    using assms by (auto simp: index_ok_def nth_butlast nth_list_update)
qed

lemma pop_ok:
  assumes ok: "pq_ok pq" and n: "0 < pq_length pq"
  shows "pq_ok (nghttp2_pq_pop lt pq) \<and> mset (pq_q (nghttp2_pq_pop lt pq)) = mset (pq_q pq) - {#pq_q pq ! 0#}"
proof -
  let ?q = "pq_q pq" and ?x = "last (pq_q pq)"
  let ?pq1 = "pq\<lparr>pq_q := butlast (?q[0 := ?x]), pq_index := (pq_index pq)(?x := 0)\<rparr>"
  have p: "nghttp2_pq_pop lt pq = bubble_down lt ?pq1 0"
    using n by (simp add: nghttp2_pq_pop_def Let_def last_conv_nth)
  have m: "mset (pq_q ?pq1) = mset ?q - {#?q ! 0#}" using replace_mset [OF n] by simp
  have i: "index_ok ?pq1"
  proof (cases "0 < length ?q - 1")
    case True
    then show ?thesis using replace_index_ok [of pq 0] ok by (simp add: pq_ok_def)
  next
    case False
    then have "length ?q = 1" using n by linarith
    then show ?thesis by (cases ?q) (auto simp: index_ok_def)
  qed
  have c: "set (pq_q ?pq1) \<subseteq> carrier"
    using ok m in_diffD by (fastforce simp: pq_ok_def set_mset_mset [symmetric] simp del: set_mset_mset)
  have "down_inv lt 0 (pq_q ?pq1) 0"
    using ok by (auto simp: down_inv_def pq_ok_def ordered_def nth_butlast nth_list_update)
  then have "ordered lt 0 (pq_q (bubble_down lt ?pq1 0))" using bubble_down_ordered [OF c] by simp
  moreover have "set (pq_q (bubble_down lt ?pq1 0)) = set (pq_q ?pq1)" by (rule mset_eq_setD) simp
  ultimately show ?thesis
    using i c m bubble_down_index_ok by (simp add: p pq_ok_def)
qed

lemma remove_ok:
  assumes ok: "pq_ok pq" and item: "item \<in> set (pq_q pq)"
  shows "\<exists>pq'. nghttp2_pq_remove lt item pq = Some pq' \<and> pq_ok pq' \<and>
    mset (pq_q pq') = mset (pq_q pq) - {#item#}"
proof -
  let ?q = "pq_q pq" and ?x = "last (pq_q pq)"
  obtain i where i: "i < length ?q" "?q ! i = item" "pq_index pq item = i"
    using item ok by (auto simp: in_set_conv_nth pq_ok_def index_ok_def)
  then have ne: "?q \<noteq> []" by auto
  then have x: "?q ! (length ?q - 1) = ?x" by (simp add: last_conv_nth)
  consider "i = 0" | "i \<noteq> 0" "i = length ?q - 1" | "i \<noteq> 0" "i < length ?q - 1" using i(1) by linarith
  then show ?thesis
  proof cases
    case 1
    then show ?thesis using i pop_ok [OF ok] by (auto simp: nghttp2_pq_remove_def Let_def)
  next
    case 2
    have "mset (butlast ?q) = mset ?q - {#item#}"
      using arg_cong [OF append_butlast_last_id [OF ne], of mset] i 2 x by (metis add_mset_add_single add_mset_remove_trivial mset_append mset.simps)
    moreover have "pq_ok (pq\<lparr>pq_q := butlast ?q\<rparr>)"
      using ok by (auto simp: pq_ok_def index_ok_def ordered_def nth_butlast distinct_butlast dest: in_set_butlastD)
    ultimately show ?thesis using i 2 by (simp add: nghttp2_pq_remove_def Let_def)
  next
    case 3
    let ?pq1 = "pq\<lparr>pq_q := butlast (?q[i := ?x]), pq_index := (pq_index pq)(?x := i)\<rparr>"
    let ?r = "if lt item ?x then bubble_down lt ?pq1 i else bubble_up lt ?pq1 i"
    have r: "nghttp2_pq_remove lt item pq = Some ?r"
      using i 3 x by (simp add: nghttp2_pq_remove_def Let_def)
    have m: "mset (pq_q ?pq1) = mset ?q - {#item#}" using replace_mset [OF i(1)] i(2) by simp
    have c: "set (pq_q ?pq1) \<subseteq> carrier"
      using ok m in_diffD by (fastforce simp: pq_ok_def set_mset_mset [symmetric] simp del: set_mset_mset)
    have ix: "index_ok ?pq1" using replace_index_ok [OF _ 3(2)] ok by (simp add: pq_ok_def)
    have il: "i < pq_length ?pq1" using 3 by simp
    have nth: "pq_q ?pq1 ! j = (if j = i then ?x else ?q ! j)" if "j < length ?q - 1" for j
      using that by (simp add: nth_butlast nth_list_update)
    have mem: "?q ! j \<in> carrier" if "j < length ?q" for j using ok that by (auto simp: pq_ok_def)
    have o: "\<not> lt (?q ! j) (?q ! par j)" if "0 < j" "j < length ?q" for j
      using ok that by (simp add: pq_ok_def ordered_def)
    have o2: "\<not> lt (?q ! j) (?q ! par i)" if "0 < j" "j < length ?q" "par j = i" for j
      using negtrans [OF mem [of j] mem [of i] mem [of "par i"]] o [of j] o [of i] that i(1) 3 by simp
    have "par i < i" using 3 by simp
    then have pi: "par i \<noteq> i" by (rule less_imp_neq)
    have xc: "?x \<in> carrier" "item \<in> carrier" using mem [of "length ?q - 1"] x mem [OF i(1)] i ne by auto
    have up: "\<not> lt ?x (?q ! par i)" if "lt item ?x"
      using negtrans [OF xc(1,2) mem [of "par i"]] asym [OF xc(2,1) that] o [of i] i 3 by simp
    have down: "\<not> lt (?q ! j) ?x" if "\<not> lt item ?x" "0 < j" "j < length ?q" "par j = i" for j
      using negtrans [OF mem [of j] xc(2,1)] o [of j] that i by simp
    have "ordered lt 0 (pq_q ?r)"
    proof (cases "lt item ?x")
      case True
      have "\<not> lt (pq_q ?pq1 ! j) (pq_q ?pq1 ! par j)" if "0 < j" "j < length ?q - 1" "par j \<noteq> i" for j
        using o [of j] up [OF True] that nth [of j] nth [of "par j"] by (cases "j = i") auto
      moreover have "\<not> lt (pq_q ?pq1 ! j) (pq_q ?pq1 ! par i)" if "0 < j" "j < length ?q - 1" "par j = i" for j
        using o2 [of j] that nth [of j] nth [of "par i"] pi par_less [of j] 3 by auto
      ultimately have "down_inv lt 0 (pq_q ?pq1) i" by (simp add: down_inv_def)
      then show ?thesis using True bubble_down_ordered [OF c] by simp
    next
      case False
      have "\<not> lt (pq_q ?pq1 ! j) (pq_q ?pq1 ! par j)" if "0 < j" "j < length ?q - 1" "j \<noteq> i" for j
        using o [of j] down [OF False, of j] that nth [of j] nth [of "par j"] by (cases "par j = i") auto
      moreover have "\<not> lt (pq_q ?pq1 ! j) (pq_q ?pq1 ! par i)" if "0 < j" "j < length ?q - 1" "par j = i" for j
        using o2 [of j] that nth [of j] nth [of "par i"] pi par_less [of j] 3 by auto
      ultimately have "up_inv lt (pq_q ?pq1) i" by (simp add: up_inv_def)
      then show ?thesis using False bubble_up_ordered [OF c il] by simp
    qed
    moreover have rm: "mset (pq_q ?r) = mset (pq_q ?pq1)" "index_ok ?r"
      using bubble_up_frame [OF il, of lt] bubble_down_index_ok ix by auto
    moreover have "set (pq_q ?r) \<subseteq> carrier" using c mset_eq_setD [OF rm(1)] by simp
    ultimately have "pq_ok ?r \<and> mset (pq_q ?r) = mset ?q - {#item#}"
      using m by (simp only: pq_ok_def simp_thms)
    then show ?thesis using r by blast
  qed
qed

lemma heapify_ok:
  assumes "index_ok pq" "set (pq_q pq) \<subseteq> carrier" "ordered lt k (pq_q pq)"
  shows "pq_ok (heapify lt k pq) \<and> mset (pq_q (heapify lt k pq)) = mset (pq_q pq)"
  using assms
proof (induction k arbitrary: pq)
  case (Suc k)
  let ?p = "bubble_down lt pq k"
  have "down_inv lt k (pq_q pq) k"
    using Suc.prems(3) by (auto simp: down_inv_def ordered_def) (metis Suc_leI le_neq_implies_less not_less_eq_eq par_less)
  then have "ordered lt k (pq_q ?p)" using bubble_down_ordered [OF Suc.prems(2) order_refl] by blast
  moreover have "set (pq_q ?p) = set (pq_q pq)" by (rule mset_eq_setD) simp
  ultimately show ?case
    using Suc.IH [of ?p] Suc.prems bubble_down_index_ok [of pq] by simp
qed (simp add: pq_ok_def)

lemma update_ok:
  assumes "index_ok pq" "set (pq_q pq) \<subseteq> carrier"
    and "list_ex (\<lambda>x. fn x \<noteq> 0) (pq_q pq) \<or> ordered lt 0 (pq_q pq)"
  shows "pq_ok (nghttp2_pq_update lt fn pq) \<and> mset (pq_q (nghttp2_pq_update lt fn pq)) = mset (pq_q pq)"
proof -
  have "ordered lt (pq_length pq) (pq_q pq)"
    by (auto simp: ordered_def) (metis le_less_trans less_asym par_less)
  then show ?thesis
    using assms heapify_ok [of pq "pq_length pq"]
    by (auto simp: nghttp2_pq_update_def pq_ok_def ordered_def)
qed

end

section \<open>The order of streams\<close>

text \<open>
  \<^verbatim>\<open>stream_less\<close> of \<^verbatim>\<open>nghttp2_stream.c\<close>, for the fields it reads. The cycles are
  unsigned and wrap; for streams whose cycles lie within \<open>NGHTTP2_MAX_CYCLE_DISTANCE\<close> of some base
  it is the lexicographic order of (distance from the base, sequence number).
\<close>

record pq_stream =
  stream_no :: nat
  cycle :: u64
  seq :: u64

definition NGHTTP2_MAX_CYCLE_DISTANCE :: u64 where
  "NGHTTP2_MAX_CYCLE_DISTANCE = 16777215 * 256 + 255"

definition stream_less :: "pq_stream \<Rightarrow> pq_stream \<Rightarrow> bool" where
  "stream_less lhs rhs =
     (if cycle lhs = cycle rhs then seq lhs < seq rhs
      else cycle rhs - cycle lhs \<le> NGHTTP2_MAX_CYCLE_DISTANCE)"

definition cycle_window :: "u64 \<Rightarrow> pq_stream set" where
  "cycle_window b = {s. cycle s - b \<le> NGHTTP2_MAX_CYCLE_DISTANCE}"

lemma window_diff:
  fixes x y :: u64
  assumes "x \<le> NGHTTP2_MAX_CYCLE_DISTANCE" "y \<le> NGHTTP2_MAX_CYCLE_DISTANCE"
  shows "y - x \<le> NGHTTP2_MAX_CYCLE_DISTANCE \<longleftrightarrow> x \<le> y"
  using assms by (auto simp: NGHTTP2_MAX_CYCLE_DISTANCE_def word_le_nat_alt unat_sub_if')

lemma stream_less_window:
  assumes "l \<in> cycle_window b" "r \<in> cycle_window b"
  shows "stream_less l r \<longleftrightarrow>
    cycle l - b < cycle r - b \<or> cycle l - b = cycle r - b \<and> seq l < seq r"
  using window_diff [of "cycle l - b" "cycle r - b"] assms
  by (auto simp: stream_less_def cycle_window_def order.strict_iff_order)

interpretation streams: entry_order stream_less "cycle_window b" for b
  by unfold_locales (auto simp: stream_less_window)

section \<open>Properties\<close>

text \<open>
  The operations of a scheduler on its queue and the memory, with what they answer: the code of a
  push, the stream on top, the number of streams.
\<close>

datatype pq_op = Push pq_stream | Pop | Remove pq_stream | Top | Count

datatype pq_answer = Code int | Stream "pq_stream option" | Amount nat | Nothing

type_synonym pq_state = "pq_stream nghttp2_pq \<times> mem"

fun pq_do :: "pq_op \<Rightarrow> pq_state \<Rightarrow> (pq_state \<times> pq_answer) option" where
  "pq_do (Push s) (pq, m) =
     (case nghttp2_pq_push stream_less m s pq of (pq', m', rc) \<Rightarrow> Some ((pq', m'), Code rc))"
| "pq_do Pop (pq, m) = Some ((nghttp2_pq_pop stream_less pq, m), Nothing)"
| "pq_do (Remove s) (pq, m) =
     map_option (\<lambda>pq'. ((pq', m), Nothing)) (nghttp2_pq_remove stream_less s pq)"
| "pq_do Top (pq, m) = Some ((pq, m), Stream (nghttp2_pq_top pq))"
| "pq_do Count (pq, m) = Some ((pq, m), Amount (nghttp2_pq_size pq))"

text \<open>
  The abstract queue: a multiset. The stream on top is one that no other is before, and the one that
  is taken is such a one. Only a failing allocation keeps a stream out.
\<close>

definition least_in :: "pq_stream \<Rightarrow> pq_stream multiset \<Rightarrow> bool" where
  "least_in s M \<longleftrightarrow> s \<in># M \<and> (\<forall>t \<in># M. \<not> stream_less t s)"

inductive spec_step :: "pq_op \<Rightarrow> pq_stream multiset \<Rightarrow> pq_answer \<Rightarrow> pq_stream multiset \<Rightarrow> bool" where
  push: "spec_step (Push s) M (Code 0) (add_mset s M)"
| push_no_memory: "spec_step (Push s) M (Code NGHTTP2_ERR_NOMEM) M"
| pop: "least_in s M \<Longrightarrow> spec_step Pop M Nothing (M - {#s#})"
| pop_empty: "spec_step Pop {#} Nothing {#}"
| remove: "spec_step (Remove s) M Nothing (M - {#s#})"
| top: "least_in s M \<Longrightarrow> spec_step Top M (Stream (Some s)) M"
| top_empty: "spec_step Top {#} (Stream None) {#}"
| count: "spec_step Count M (Amount (size M)) M"

inductive spec_run :: "(pq_op \<times> pq_answer) list \<Rightarrow> pq_stream multiset \<Rightarrow> bool" where
  start: "spec_run [] {#}"
| step: "spec_run tr M \<Longrightarrow> spec_step x M a M' \<Longrightarrow> spec_run (tr @ [(x, a)]) M'"

text \<open>
  What the header asks of the caller: a stream is pushed once, removed only while it waits, and the
  waiting streams always lie in one window of cycles, which may move on from call to call.
\<close>

definition op_ok :: "pq_op \<Rightarrow> pq_stream multiset \<Rightarrow> bool" where
  "op_ok x M =
     (case x of
        Push s \<Rightarrow> s \<notin># M \<and> (\<exists>b. insert s (set_mset M) \<subseteq> cycle_window b)
      | Remove s \<Rightarrow> s \<in># M | _ \<Rightarrow> True)"

inductive pq_run :: "mem \<Rightarrow> (pq_op \<times> pq_answer) list \<Rightarrow> pq_state \<Rightarrow> bool" for m0 where
  start: "pq_run m0 [] (nghttp2_pq_init idx, m0)"
| step: "pq_run m0 tr (pq, m) \<Longrightarrow> op_ok x (mset (pq_q pq)) \<Longrightarrow> pq_do x (pq, m) = Some (st, a) \<Longrightarrow>
    pq_run m0 (tr @ [(x, a)]) st"

definition queue_ok :: "pq_stream nghttp2_pq \<Rightarrow> bool" where
  "queue_ok pq \<longleftrightarrow> (\<exists>b. streams.pq_ok b pq)"

lemma queue_ok_window: "queue_ok pq \<Longrightarrow> set (pq_q pq) \<subseteq> cycle_window b \<Longrightarrow> streams.pq_ok b pq"
  by (auto simp: queue_ok_def streams.pq_ok_def)

lemma init_ok: "queue_ok (nghttp2_pq_init idx)"
  by (simp add: queue_ok_def streams.pq_ok_def nghttp2_pq_init_def index_ok_def ordered_def)

lemma push_codes:
  "nghttp2_pq_push lt m s pq = (pq', m', rc) \<Longrightarrow>
   (rc = 0 \<or> rc = NGHTTP2_ERR_NOMEM) \<and> set m' \<subseteq> set m \<and> (False \<notin> set m \<longrightarrow> rc = 0)"
  by (auto simp: nghttp2_pq_push_def mem_alloc_def Let_def split: if_splits prod.splits list.splits)

lemma top_is_least:
  assumes "queue_ok pq" "0 < pq_length pq"
  shows "least_in (pq_q pq ! 0) (mset (pq_q pq))"
proof -
  obtain b where b: "streams.pq_ok b pq" using assms(1) by (auto simp: queue_ok_def)
  have "nghttp2_pq_top pq = Some (pq_q pq ! 0)" using assms(2) by (simp add: nghttp2_pq_top_def)
  then show ?thesis using streams.top_least [OF b] assms(2) by (auto simp: least_in_def)
qed

lemma pq_step:
  assumes ok: "queue_ok pq" and x: "op_ok x (mset (pq_q pq))"
  shows "\<exists>pq' m' a. pq_do x (pq, m) = Some ((pq', m'), a) \<and> queue_ok pq' \<and> set m' \<subseteq> set m \<and>
    spec_step x (mset (pq_q pq)) a (mset (pq_q pq')) \<and> (False \<notin> set m \<longrightarrow> a \<noteq> Code NGHTTP2_ERR_NOMEM)"
proof (cases x)
  case (Push s)
  obtain pq' m' rc where p: "nghttp2_pq_push stream_less m s pq = (pq', m', rc)" by (rule prod_cases3)
  obtain b where b: "s \<in> cycle_window b" "set (pq_q pq) \<subseteq> cycle_window b" "s \<notin> set (pq_q pq)"
    using x Push by (auto simp: op_ok_def)
  note pushed = streams.push_ok [OF queue_ok_window [OF ok b(2)] b(1,3) p] push_codes [OF p]
  show ?thesis
    using pushed p Push ok by (cases "rc = 0") (auto simp: queue_ok_def intro: spec_step.intros)
next
  case Pop
  show ?thesis
  proof (cases "pq_length pq = 0")
    case True
    then show ?thesis using ok Pop by (auto simp: nghttp2_pq_pop_def intro: spec_step.intros)
  next
    case False
    obtain b where "streams.pq_ok b pq" using ok by (auto simp: queue_ok_def)
    then show ?thesis
      using streams.pop_ok [of b pq] spec_step.pop [OF top_is_least [OF ok]] False Pop
      by (auto simp: queue_ok_def)
  qed
next
  case (Remove s)
  obtain b where "streams.pq_ok b pq" using ok by (auto simp: queue_ok_def)
  then obtain pq' where "nghttp2_pq_remove stream_less s pq = Some pq'" "streams.pq_ok b pq'"
      "mset (pq_q pq') = mset (pq_q pq) - {#s#}"
    using streams.remove_ok [of b pq s] x Remove by (auto simp: op_ok_def)
  then show ?thesis using Remove spec_step.remove [of s "mset (pq_q pq)"] by (auto simp: queue_ok_def)
next
  case Top
  then show ?thesis
    using ok spec_step.top [OF top_is_least [OF ok]] spec_step.top_empty
    by (auto simp: nghttp2_pq_top_def)
next
  case Count
  then show ?thesis
    using ok spec_step.count [of "mset (pq_q pq)"] by (simp add: nghttp2_pq_size_def)
qed

lemma pq_run_inv:
  "pq_run m0 tr st \<Longrightarrow> queue_ok (fst st) \<and> set (snd st) \<subseteq> set m0 \<and> spec_run tr (mset (pq_q (fst st))) \<and>
     (False \<notin> set m0 \<longrightarrow> (\<forall>x. (x, Code NGHTTP2_ERR_NOMEM) \<notin> set tr))"
proof (induction rule: pq_run.induct)
  case (start idx)
  then show ?case using init_ok spec_run.start by (simp add: nghttp2_pq_init_def)
next
  case (step tr pq m x st a)
  then have "queue_ok pq" by simp
  then show ?case
    using pq_step [of pq x m] step by (auto intro: spec_run.step)
qed

text \<open>
  C14. The priority queue refines a multiset with a least element. A run of any operations from the
  empty queue, called as the header says, with any answers of the allocator, is a run of the abstract
  queue with the same answers: what is on top is a waiting stream that no other is before, and what
  is taken is such a one. Each next operation returns; each stream knows its position; without a
  failing allocation every push succeeds.
\<close>

theorem pq_refines:
  assumes "pq_run m0 tr (pq, m)"
  shows "spec_run tr (mset (pq_q pq)) \<and> index_ok pq \<and>
    (\<forall>x. op_ok x (mset (pq_q pq)) \<longrightarrow> pq_do x (pq, m) \<noteq> None) \<and>
    (False \<notin> set m0 \<longrightarrow> (\<forall>x. (x, Code NGHTTP2_ERR_NOMEM) \<notin> set tr))"
proof -
  have inv: "queue_ok pq" using pq_run_inv [OF assms] by simp
  then have "index_ok pq" by (auto simp: queue_ok_def streams.pq_ok_def)
  moreover have "pq_do x (pq, m) \<noteq> None" if "op_ok x (mset (pq_q pq))" for x
    using pq_step [OF inv that, of m] by auto
  ultimately show ?thesis using pq_run_inv [OF assms] by auto
qed

definition stream_a :: pq_stream where
  "stream_a = \<lparr>stream_no = 1, cycle = - 1, seq = 1\<rparr>"

definition stream_b :: pq_stream where
  "stream_b = \<lparr>stream_no = 3, cycle = 7, seq = 0\<rparr>"

text \<open>Two streams on both sides of the wrap-around of the cycle: the one with cycle \<open>- 1\<close> is first.\<close>

theorem pq_refines_witness:
  "\<exists>pq. pq_run [True] [(Push stream_b, Code 0), (Push stream_a, Code 0), (Top, Stream (Some stream_a)),
      (Pop, Nothing), (Top, Stream (Some stream_b))] (pq, []) \<and>
    spec_run [(Push stream_b, Code 0), (Push stream_a, Code 0), (Top, Stream (Some stream_a)),
      (Pop, Nothing), (Top, Stream (Some stream_b))] (mset (pq_q pq)) \<and> pq_q pq = [stream_b]"
proof -
  note run = nghttp2_pq_init_def nghttp2_pq_push_def nghttp2_pq_pop_def nghttp2_pq_top_def mem_alloc_def
    Let_def stream_less_def stream_a_def stream_b_def NGHTTP2_MAX_CYCLE_DISTANCE_def pq_swap_def min_index_def
    bubble_up.simps [of _ _ 0] bubble_up.simps [of _ _ "Suc 0"] bubble_down.simps [of _ _ 0]
  have w: "{stream_a, stream_b} \<subseteq> cycle_window (- 5)"
    by (simp add: cycle_window_def NGHTTP2_MAX_CYCLE_DISTANCE_def stream_a_def stream_b_def)
  let ?p0 = "nghttp2_pq_init (\<lambda>_. 0)"
  let ?p1 = "\<lparr>pq_q = [stream_b], pq_index = (\<lambda>_. 0)(stream_b := 0), pq_capacity = 4\<rparr>"
  have r1: "pq_do (Push stream_b) (?p0, [True]) = Some ((?p1, []), Code 0)"
    by (simp add: run)
  obtain i2 where r2: "pq_do (Push stream_a) (?p1, []) =
      Some ((\<lparr>pq_q = [stream_a, stream_b], pq_index = i2, pq_capacity = 4\<rparr>, []), Code 0)"
    by (auto simp: run)
  let ?p2 = "\<lparr>pq_q = [stream_a, stream_b], pq_index = i2, pq_capacity = 4\<rparr>"
  have r3: "pq_do Top (?p2, []) = Some ((?p2, []), Stream (Some stream_a))" by (simp add: run)
  obtain i4 where r4: "pq_do Pop (?p2, []) = Some ((\<lparr>pq_q = [stream_b], pq_index = i4, pq_capacity = 4\<rparr>, []), Nothing)"
    by (auto simp: run)
  let ?p4 = "\<lparr>pq_q = [stream_b], pq_index = i4, pq_capacity = 4\<rparr>"
  have r5: "pq_do Top (?p4, []) = Some ((?p4, []), Stream (Some stream_b))" by (simp add: run)
  have ab: "stream_a \<noteq> stream_b" by (simp add: stream_a_def stream_b_def)
  have push: "op_ok (Push stream_b) {#}" "op_ok (Push stream_a) {#stream_b#}"
    using w ab unfolding op_ok_def by auto
  have "pq_run [True] ([] @ [(Push stream_b, Code 0)]) (?p1, [])"
    by (rule pq_run.step [OF pq_run.start _ r1]) (use push in \<open>simp add: nghttp2_pq_init_def\<close>)
  from pq_run.step [OF this _ r2]
  have "pq_run [True] [(Push stream_b, Code 0), (Push stream_a, Code 0)] (?p2, [])" using push by simp
  from pq_run.step [OF pq_run.step [OF pq_run.step [OF this _ r3] _ r4] _ r5]
  have final: "pq_run [True] [(Push stream_b, Code 0), (Push stream_a, Code 0), (Top, Stream (Some stream_a)),
      (Pop, Nothing), (Top, Stream (Some stream_b))] (?p4, [])" by (simp add: op_ok_def)
  show ?thesis
    using final pq_refines [OF final] by (intro exI [of _ ?p4]) simp
qed

end
