(* ===== verification/Ng_Huff_Check.thy ===== *)
theory Ng_Huff_Check
  imports Ng_Huff_Data
begin

unbundle bit_operations_syntax

text \<open>
  The check of the decoder's table against the code. \<open>node_path s\<close> are the bits that have been
  read in state \<open>s\<close> and belong to no symbol yet; in the failure state 256 these are the
  bits of the end-of-string symbol. An entry is right when the bits of the state
  followed by the four bits of the entry are the code of the symbol it emits, if it does, followed
  by the bits of the next state. The check computes on numbers: a bit string is its length and value.
\<close>

section \<open>Bit strings as numbers\<close>

definition bits_of :: "nat \<times> nat \<Rightarrow> bool list" where
  "bits_of p = (case p of (n, v) \<Rightarrow> map (\<lambda>i. bit v (n - 1 - i)) [0..<n])"

definition cat :: "nat \<times> nat \<Rightarrow> nat \<times> nat \<Rightarrow> nat \<times> nat" where
  "cat p q = (fst p + fst q, snd p * 2 ^ fst q + snd q)"

definition fits :: "nat \<times> nat \<Rightarrow> bool" where
  "fits p \<longleftrightarrow> snd p < 2 ^ fst p"

lemma length_bits_of [simp]: "length (bits_of p) = fst p"
  by (simp add: bits_of_def split: prod.splits)

lemma bits_of_nth: "i < fst p \<Longrightarrow> bits_of p ! i = bit (snd p) (fst p - 1 - i)"
  by (cases p) (simp add: bits_of_def)

lemma bit_div: "bit (v div 2 ^ k :: nat) j \<longleftrightarrow> bit v (k + j)"
  by (simp add: bit_drop_bit_eq flip: drop_bit_eq_div)

lemma bits_of_cat:
  assumes "fits q"
  shows "bits_of (cat p q) = bits_of p @ bits_of q"
proof (rule nth_equalityI)
  fix i assume "i < length (bits_of (cat p q))"
  then have i: "i < fst p + fst q" by (simp add: cat_def)
  show "bits_of (cat p q) ! i = (bits_of p @ bits_of q) ! i"
  proof (cases "i < fst p")
    case True
    have idx: "fst p + fst q - 1 - i = fst q + (fst p - 1 - i)" using True by simp
    have "(snd p * 2 ^ fst q + snd q) div 2 ^ fst q = snd p" using assms by (simp add: fits_def)
    then have "bit (snd p * 2 ^ fst q + snd q) (fst q + (fst p - 1 - i)) \<longleftrightarrow> bit (snd p) (fst p - 1 - i)"
      by (metis bit_div)
    then show ?thesis using True i idx by (simp only: bits_of_nth cat_def nth_append fst_conv snd_conv length_bits_of if_True)
  next
    case False
    let ?j = "fst p + fst q - 1 - i"
    have j: "?j < fst q" "?j = fst q - 1 - (i - fst p)" using i False by auto
    have "bit (snd p * 2 ^ fst q + snd q) ?j \<longleftrightarrow> bit (take_bit (fst q) (snd p * 2 ^ fst q + snd q)) ?j"
      using j(1) by (simp add: bit_take_bit_iff)
    also have "take_bit (fst q) (snd p * 2 ^ fst q + snd q) = snd q"
      using assms by (simp add: take_bit_eq_mod fits_def)
    finally show ?thesis using False i j(2) by (simp add: bits_of_nth cat_def nth_append)
  qed
qed (simp add: cat_def)

lemma bits_of_take:
  assumes "k \<le> fst p"
  shows "take k (bits_of p) = bits_of (k, snd p div 2 ^ (fst p - k))"
proof (rule nth_equalityI)
  fix i assume "i < length (take k (bits_of p))"
  then have i: "i < k" using assms by simp
  have "fst p - 1 - i = fst p - k + (k - 1 - i)" using i assms by simp
  then show "take k (bits_of p) ! i = bits_of (k, snd p div 2 ^ (fst p - k)) ! i"
    using i assms by (simp only: bits_of_nth bit_div nth_take fst_conv snd_conv less_le_trans)
qed (use assms in simp)

lemma bits_of_ones: "bits_of (n, 2 ^ n - 1) = replicate n True"
proof (rule nth_equalityI)
  fix i assume "i < length (bits_of (n, 2 ^ n - 1))"
  then have i: "i < n" by simp
  have "bit (mask n :: nat) (n - 1 - i)" using i by (simp add: bit_mask_iff)
  then have "bit (2 ^ n - 1 :: nat) (n - 1 - i)" by (simp only: mask_eq_exp_minus_1)
  then show "bits_of (n, 2 ^ n - 1) ! i = replicate n True ! i" using i by (simp only: bits_of_nth fst_conv snd_conv nth_replicate)
qed simp

lemma bits_of_inject: "fits p \<Longrightarrow> fits q \<Longrightarrow> bits_of p = bits_of q \<Longrightarrow> p = q"
proof -
  assume p: "fits p" and q: "fits q" and eq: "bits_of p = bits_of q"
  have len: "fst p = fst q" using arg_cong [OF eq, of length] by simp
  have "bit (snd p) i = bit (snd q) i" if "i < fst p" for i
  proof -
    have "bits_of p ! (fst p - 1 - i) = bits_of q ! (fst p - 1 - i)" using eq by simp
    moreover have "fst p - 1 - i < fst p" "fst p - 1 - (fst p - 1 - i) = i" using that by auto
    ultimately show ?thesis using len by (simp add: bits_of_nth)
  qed
  then have "take_bit (fst p) (snd p) = take_bit (fst p) (snd q)" by (auto intro!: bit_eqI simp: bit_take_bit_iff)
  then have "snd p = snd q" using p q len by (simp add: fits_def take_bit_nat_eq_self)
  with len show ?thesis by (simp add: prod_eq_iff)
qed

section \<open>Codes and states\<close>

definition huff_code :: "nat \<Rightarrow> bool list" where
  "huff_code s = (case huff_sym_table ! s of (n, c) \<Rightarrow> map (\<lambda>i. bit c (31 - i)) [0..<n])"

definition sym_code :: "nat \<Rightarrow> nat \<times> nat" where
  "sym_code s = (case huff_sym_table ! s of (n, c) \<Rightarrow> (n, unat c div 2 ^ (32 - n)))"

definition node_codes :: "(nat \<times> nat) list" where
  "node_codes = [
     (0, 0), (1, 0), (2, 0), (3, 0), (4, 0), (4, 1), (3, 1), (4, 2),
     (4, 3), (2, 1), (3, 2), (4, 4), (4, 5), (5, 10), (5, 11), (3, 3),
     (4, 6), (5, 12), (5, 13), (4, 7), (5, 14), (5, 15), (1, 1), (2, 2),
     (3, 4), (4, 8), (5, 16), (5, 17), (4, 9), (5, 18), (5, 19), (3, 5),
     (4, 10), (5, 20), (5, 21), (4, 11), (5, 22), (5, 23), (6, 46), (6, 47),
     (2, 3), (3, 6), (4, 12), (5, 24), (6, 48), (6, 49), (5, 25), (6, 50),
     (6, 51), (4, 13), (5, 26), (6, 52), (6, 53), (5, 27), (6, 54), (6, 55),
     (3, 7), (4, 14), (5, 28), (6, 56), (6, 57), (5, 29), (6, 58), (6, 59),
     (4, 15), (5, 30), (6, 60), (6, 61), (5, 31), (6, 62), (7, 124), (7, 125),
     (6, 63), (7, 126), (7, 127), (8, 254), (9, 508), (9, 509), (8, 255), (9, 510),
     (10, 1021), (9, 511), (10, 1022), (11, 2045), (10, 1023), (11, 2046), (12, 4092), (12, 4093),
     (11, 2047), (12, 4094), (12, 4095), (13, 8190), (13, 8191), (14, 16382), (14, 16383), (15, 32767),
     (16, 65534), (17, 131068), (18, 262136), (18, 262137), (19, 524275), (17, 131069), (18, 262138), (19, 524276),
     (19, 524277), (18, 262139), (19, 524278), (19, 524279), (20, 1048558), (20, 1048559), (16, 65535), (17, 131070),
     (18, 262140), (19, 524280), (20, 1048560), (20, 1048561), (19, 524281), (20, 1048562), (20, 1048563), (18, 262141),
     (19, 524282), (20, 1048564), (21, 2097129), (20, 1048565), (21, 2097130), (21, 2097131), (19, 524283), (20, 1048566),
     (21, 2097132), (21, 2097133), (20, 1048567), (21, 2097134), (21, 2097135), (17, 131071), (18, 262142), (19, 524284),
     (20, 1048568), (21, 2097136), (21, 2097137), (20, 1048569), (21, 2097138), (21, 2097139), (19, 524285), (20, 1048570),
     (21, 2097140), (21, 2097141), (20, 1048571), (21, 2097142), (22, 4194284), (22, 4194285), (21, 2097143), (22, 4194286),
     (22, 4194287), (18, 262143), (19, 524286), (20, 1048572), (21, 2097144), (22, 4194288), (22, 4194289), (21, 2097145),
     (22, 4194290), (22, 4194291), (20, 1048573), (21, 2097146), (22, 4194292), (22, 4194293), (21, 2097147), (22, 4194294),
     (22, 4194295), (19, 524287), (20, 1048574), (21, 2097148), (22, 4194296), (22, 4194297), (21, 2097149), (22, 4194298),
     (23, 8388597), (22, 4194299), (23, 8388598), (23, 8388599), (20, 1048575), (21, 2097150), (22, 4194300), (23, 8388600),
     (23, 8388601), (22, 4194301), (23, 8388602), (23, 8388603), (24, 16777206), (24, 16777207), (21, 2097151), (22, 4194302),
     (23, 8388604), (24, 16777208), (25, 33554416), (25, 33554417), (24, 16777209), (25, 33554418), (25, 33554419), (23, 8388605),
     (24, 16777210), (25, 33554420), (25, 33554421), (24, 16777211), (25, 33554422), (25, 33554423), (26, 67108847), (22, 4194303),
     (23, 8388606), (24, 16777212), (25, 33554424), (26, 67108848), (26, 67108849), (25, 33554425), (26, 67108850), (26, 67108851),
     (24, 16777213), (25, 33554426), (26, 67108852), (26, 67108853), (25, 33554427), (26, 67108854), (26, 67108855), (23, 8388607),
     (24, 16777214), (25, 33554428), (26, 67108856), (27, 134217713), (26, 67108857), (27, 134217714), (27, 134217715), (25, 33554429),
     (26, 67108858), (27, 134217716), (27, 134217717), (26, 67108859), (27, 134217718), (27, 134217719), (24, 16777215), (25, 33554430),
     (26, 67108860), (27, 134217720), (27, 134217721), (26, 67108861), (27, 134217722), (27, 134217723), (25, 33554431), (26, 67108862),
     (27, 134217724), (27, 134217725), (26, 67108863), (27, 134217726), (27, 134217727), (28, 268435455), (29, 536870910), (29, 536870911),
     (30, 1073741823)]"

definition node_code :: "nat \<Rightarrow> nat \<times> nat" where
  "node_code s = node_codes ! s"

definition node_path :: "nat \<Rightarrow> bool list" where
  "node_path s = bits_of (node_code s)"

fun nibble_bits :: "nat \<Rightarrow> bool list" where
  "nibble_bits n = [odd (n div 8), odd (n div 4), odd (n div 2), odd n]"

definition padding :: "bool list \<Rightarrow> bool" where
  "padding p \<longleftrightarrow> length p \<le> 7 \<and> list_all id p"

definition entry_ok :: "bool list \<Rightarrow> nat \<Rightarrow> u16 \<times> u8 \<Rightarrow> bool" where
  "entry_ok p n e =
     (case e of (fs, sy) \<Rightarrow>
        let s' = unat (fs AND 0x1ff) in
        if s' = 256 then fs = 0x100 \<and> 30 \<le> length (p @ nibble_bits n) \<and> list_all id (take 30 (p @ nibble_bits n))
        else s' < 256 \<and>
          p @ nibble_bits n = (if fs AND 0x8000 \<noteq> 0 then huff_code (unat sy) else []) @ node_path s' \<and>
          (fs AND 0x4000 \<noteq> 0) = padding (node_path s'))"

text \<open>The flags are taken off the number of the entry; what remains is the next state.\<close>

fun state_check :: "nat \<times> nat \<Rightarrow> nat \<Rightarrow> nat \<Rightarrow> bool \<Rightarrow> bool \<Rightarrow> nat \<Rightarrow> bool" where
  "state_check p n sy em acc s' \<longleftrightarrow>
     (if s' = 256 then \<not> em \<and> \<not> acc \<and> 30 \<le> fst p + 4 \<and> (snd p * 16 + n) div 2 ^ (fst p + 4 - 30) = 2 ^ 30 - 1
      else s' < 256 \<and>
        cat p (4, n) = cat (if em then sym_code sy else (0, 0)) (node_code s') \<and>
        acc = (fst (node_code s') \<le> 7 \<and> snd (node_code s') = 2 ^ fst (node_code s') - 1))"

fun acc_check :: "nat \<times> nat \<Rightarrow> nat \<Rightarrow> nat \<Rightarrow> bool \<Rightarrow> nat \<Rightarrow> bool" where
  "acc_check p n sy em fs \<longleftrightarrow>
     (if 0x4000 \<le> fs then state_check p n sy em True (fs - 0x4000) else state_check p n sy em False fs)"

fun entry_check :: "nat \<times> nat \<Rightarrow> nat \<Rightarrow> nat \<Rightarrow> nat \<Rightarrow> bool" where
  "entry_check p n fs sy \<longleftrightarrow>
     (if 0x8000 \<le> fs then acc_check p n sy True (fs - 0x8000) else acc_check p n sy False fs)"

fun entries_ok :: "nat \<times> nat \<Rightarrow> nat \<Rightarrow> (u16 \<times> u8) list \<Rightarrow> bool" where
  "entries_ok p n [] \<longleftrightarrow> n = 16"
| "entries_ok p n ((fs, sy) # es) \<longleftrightarrow> entry_check p n (unat fs) (unat sy) \<and> entries_ok p (n + 1) es"

fun rows_ok :: "nat \<Rightarrow> (u16 \<times> u8) list list \<Rightarrow> bool" where
  "rows_ok s [] \<longleftrightarrow> True"
| "rows_ok s (r # rs) \<longleftrightarrow> entries_ok (node_code s) 0 r \<and> rows_ok (s + 1) rs"

lemma sym_table_nth:
  "huff_sym_table ! 0 = (13, 0xffc00000)"
  "huff_sym_table ! 1 = (23, 0xffffb000)"
  "huff_sym_table ! 2 = (28, 0xfffffe20)"
  "huff_sym_table ! 3 = (28, 0xfffffe30)"
  "huff_sym_table ! 4 = (28, 0xfffffe40)"
  "huff_sym_table ! 5 = (28, 0xfffffe50)"
  "huff_sym_table ! 6 = (28, 0xfffffe60)"
  "huff_sym_table ! 7 = (28, 0xfffffe70)"
  "huff_sym_table ! 8 = (28, 0xfffffe80)"
  "huff_sym_table ! 9 = (24, 0xffffea00)"
  "huff_sym_table ! 10 = (30, 0xfffffff0)"
  "huff_sym_table ! 11 = (28, 0xfffffe90)"
  "huff_sym_table ! 12 = (28, 0xfffffea0)"
  "huff_sym_table ! 13 = (30, 0xfffffff4)"
  "huff_sym_table ! 14 = (28, 0xfffffeb0)"
  "huff_sym_table ! 15 = (28, 0xfffffec0)"
  "huff_sym_table ! 16 = (28, 0xfffffed0)"
  "huff_sym_table ! 17 = (28, 0xfffffee0)"
  "huff_sym_table ! 18 = (28, 0xfffffef0)"
  "huff_sym_table ! 19 = (28, 0xffffff00)"
  "huff_sym_table ! 20 = (28, 0xffffff10)"
  "huff_sym_table ! 21 = (28, 0xffffff20)"
  "huff_sym_table ! 22 = (30, 0xfffffff8)"
  "huff_sym_table ! 23 = (28, 0xffffff30)"
  "huff_sym_table ! 24 = (28, 0xffffff40)"
  "huff_sym_table ! 25 = (28, 0xffffff50)"
  "huff_sym_table ! 26 = (28, 0xffffff60)"
  "huff_sym_table ! 27 = (28, 0xffffff70)"
  "huff_sym_table ! 28 = (28, 0xffffff80)"
  "huff_sym_table ! 29 = (28, 0xffffff90)"
  "huff_sym_table ! 30 = (28, 0xffffffa0)"
  "huff_sym_table ! 31 = (28, 0xffffffb0)"
  "huff_sym_table ! 32 = (6, 0x50000000)"
  "huff_sym_table ! 33 = (10, 0xfe000000)"
  "huff_sym_table ! 34 = (10, 0xfe400000)"
  "huff_sym_table ! 35 = (12, 0xffa00000)"
  "huff_sym_table ! 36 = (13, 0xffc80000)"
  "huff_sym_table ! 37 = (6, 0x54000000)"
  "huff_sym_table ! 38 = (8, 0xf8000000)"
  "huff_sym_table ! 39 = (11, 0xff400000)"
  "huff_sym_table ! 40 = (10, 0xfe800000)"
  "huff_sym_table ! 41 = (10, 0xfec00000)"
  "huff_sym_table ! 42 = (8, 0xf9000000)"
  "huff_sym_table ! 43 = (11, 0xff600000)"
  "huff_sym_table ! 44 = (8, 0xfa000000)"
  "huff_sym_table ! 45 = (6, 0x58000000)"
  "huff_sym_table ! 46 = (6, 0x5c000000)"
  "huff_sym_table ! 47 = (6, 0x60000000)"
  "huff_sym_table ! 48 = (5, 0x00000000)"
  "huff_sym_table ! 49 = (5, 0x08000000)"
  "huff_sym_table ! 50 = (5, 0x10000000)"
  "huff_sym_table ! 51 = (6, 0x64000000)"
  "huff_sym_table ! 52 = (6, 0x68000000)"
  "huff_sym_table ! 53 = (6, 0x6c000000)"
  "huff_sym_table ! 54 = (6, 0x70000000)"
  "huff_sym_table ! 55 = (6, 0x74000000)"
  "huff_sym_table ! 56 = (6, 0x78000000)"
  "huff_sym_table ! 57 = (6, 0x7c000000)"
  "huff_sym_table ! 58 = (7, 0xb8000000)"
  "huff_sym_table ! 59 = (8, 0xfb000000)"
  "huff_sym_table ! 60 = (15, 0xfff80000)"
  "huff_sym_table ! 61 = (6, 0x80000000)"
  "huff_sym_table ! 62 = (12, 0xffb00000)"
  "huff_sym_table ! 63 = (10, 0xff000000)"
  "huff_sym_table ! 64 = (13, 0xffd00000)"
  "huff_sym_table ! 65 = (6, 0x84000000)"
  "huff_sym_table ! 66 = (7, 0xba000000)"
  "huff_sym_table ! 67 = (7, 0xbc000000)"
  "huff_sym_table ! 68 = (7, 0xbe000000)"
  "huff_sym_table ! 69 = (7, 0xc0000000)"
  "huff_sym_table ! 70 = (7, 0xc2000000)"
  "huff_sym_table ! 71 = (7, 0xc4000000)"
  "huff_sym_table ! 72 = (7, 0xc6000000)"
  "huff_sym_table ! 73 = (7, 0xc8000000)"
  "huff_sym_table ! 74 = (7, 0xca000000)"
  "huff_sym_table ! 75 = (7, 0xcc000000)"
  "huff_sym_table ! 76 = (7, 0xce000000)"
  "huff_sym_table ! 77 = (7, 0xd0000000)"
  "huff_sym_table ! 78 = (7, 0xd2000000)"
  "huff_sym_table ! 79 = (7, 0xd4000000)"
  "huff_sym_table ! 80 = (7, 0xd6000000)"
  "huff_sym_table ! 81 = (7, 0xd8000000)"
  "huff_sym_table ! 82 = (7, 0xda000000)"
  "huff_sym_table ! 83 = (7, 0xdc000000)"
  "huff_sym_table ! 84 = (7, 0xde000000)"
  "huff_sym_table ! 85 = (7, 0xe0000000)"
  "huff_sym_table ! 86 = (7, 0xe2000000)"
  "huff_sym_table ! 87 = (7, 0xe4000000)"
  "huff_sym_table ! 88 = (8, 0xfc000000)"
  "huff_sym_table ! 89 = (7, 0xe6000000)"
  "huff_sym_table ! 90 = (8, 0xfd000000)"
  "huff_sym_table ! 91 = (13, 0xffd80000)"
  "huff_sym_table ! 92 = (19, 0xfffe0000)"
  "huff_sym_table ! 93 = (13, 0xffe00000)"
  "huff_sym_table ! 94 = (14, 0xfff00000)"
  "huff_sym_table ! 95 = (6, 0x88000000)"
  "huff_sym_table ! 96 = (15, 0xfffa0000)"
  "huff_sym_table ! 97 = (5, 0x18000000)"
  "huff_sym_table ! 98 = (6, 0x8c000000)"
  "huff_sym_table ! 99 = (5, 0x20000000)"
  "huff_sym_table ! 100 = (6, 0x90000000)"
  "huff_sym_table ! 101 = (5, 0x28000000)"
  "huff_sym_table ! 102 = (6, 0x94000000)"
  "huff_sym_table ! 103 = (6, 0x98000000)"
  "huff_sym_table ! 104 = (6, 0x9c000000)"
  "huff_sym_table ! 105 = (5, 0x30000000)"
  "huff_sym_table ! 106 = (7, 0xe8000000)"
  "huff_sym_table ! 107 = (7, 0xea000000)"
  "huff_sym_table ! 108 = (6, 0xa0000000)"
  "huff_sym_table ! 109 = (6, 0xa4000000)"
  "huff_sym_table ! 110 = (6, 0xa8000000)"
  "huff_sym_table ! 111 = (5, 0x38000000)"
  "huff_sym_table ! 112 = (6, 0xac000000)"
  "huff_sym_table ! 113 = (7, 0xec000000)"
  "huff_sym_table ! 114 = (6, 0xb0000000)"
  "huff_sym_table ! 115 = (5, 0x40000000)"
  "huff_sym_table ! 116 = (5, 0x48000000)"
  "huff_sym_table ! 117 = (6, 0xb4000000)"
  "huff_sym_table ! 118 = (7, 0xee000000)"
  "huff_sym_table ! 119 = (7, 0xf0000000)"
  "huff_sym_table ! 120 = (7, 0xf2000000)"
  "huff_sym_table ! 121 = (7, 0xf4000000)"
  "huff_sym_table ! 122 = (7, 0xf6000000)"
  "huff_sym_table ! 123 = (15, 0xfffc0000)"
  "huff_sym_table ! 124 = (11, 0xff800000)"
  "huff_sym_table ! 125 = (14, 0xfff40000)"
  "huff_sym_table ! 126 = (13, 0xffe80000)"
  "huff_sym_table ! 127 = (28, 0xffffffc0)"
  "huff_sym_table ! 128 = (20, 0xfffe6000)"
  "huff_sym_table ! 129 = (22, 0xffff4800)"
  "huff_sym_table ! 130 = (20, 0xfffe7000)"
  "huff_sym_table ! 131 = (20, 0xfffe8000)"
  "huff_sym_table ! 132 = (22, 0xffff4c00)"
  "huff_sym_table ! 133 = (22, 0xffff5000)"
  "huff_sym_table ! 134 = (22, 0xffff5400)"
  "huff_sym_table ! 135 = (23, 0xffffb200)"
  "huff_sym_table ! 136 = (22, 0xffff5800)"
  "huff_sym_table ! 137 = (23, 0xffffb400)"
  "huff_sym_table ! 138 = (23, 0xffffb600)"
  "huff_sym_table ! 139 = (23, 0xffffb800)"
  "huff_sym_table ! 140 = (23, 0xffffba00)"
  "huff_sym_table ! 141 = (23, 0xffffbc00)"
  "huff_sym_table ! 142 = (24, 0xffffeb00)"
  "huff_sym_table ! 143 = (23, 0xffffbe00)"
  "huff_sym_table ! 144 = (24, 0xffffec00)"
  "huff_sym_table ! 145 = (24, 0xffffed00)"
  "huff_sym_table ! 146 = (22, 0xffff5c00)"
  "huff_sym_table ! 147 = (23, 0xffffc000)"
  "huff_sym_table ! 148 = (24, 0xffffee00)"
  "huff_sym_table ! 149 = (23, 0xffffc200)"
  "huff_sym_table ! 150 = (23, 0xffffc400)"
  "huff_sym_table ! 151 = (23, 0xffffc600)"
  "huff_sym_table ! 152 = (23, 0xffffc800)"
  "huff_sym_table ! 153 = (21, 0xfffee000)"
  "huff_sym_table ! 154 = (22, 0xffff6000)"
  "huff_sym_table ! 155 = (23, 0xffffca00)"
  "huff_sym_table ! 156 = (22, 0xffff6400)"
  "huff_sym_table ! 157 = (23, 0xffffcc00)"
  "huff_sym_table ! 158 = (23, 0xffffce00)"
  "huff_sym_table ! 159 = (24, 0xffffef00)"
  "huff_sym_table ! 160 = (22, 0xffff6800)"
  "huff_sym_table ! 161 = (21, 0xfffee800)"
  "huff_sym_table ! 162 = (20, 0xfffe9000)"
  "huff_sym_table ! 163 = (22, 0xffff6c00)"
  "huff_sym_table ! 164 = (22, 0xffff7000)"
  "huff_sym_table ! 165 = (23, 0xffffd000)"
  "huff_sym_table ! 166 = (23, 0xffffd200)"
  "huff_sym_table ! 167 = (21, 0xfffef000)"
  "huff_sym_table ! 168 = (23, 0xffffd400)"
  "huff_sym_table ! 169 = (22, 0xffff7400)"
  "huff_sym_table ! 170 = (22, 0xffff7800)"
  "huff_sym_table ! 171 = (24, 0xfffff000)"
  "huff_sym_table ! 172 = (21, 0xfffef800)"
  "huff_sym_table ! 173 = (22, 0xffff7c00)"
  "huff_sym_table ! 174 = (23, 0xffffd600)"
  "huff_sym_table ! 175 = (23, 0xffffd800)"
  "huff_sym_table ! 176 = (21, 0xffff0000)"
  "huff_sym_table ! 177 = (21, 0xffff0800)"
  "huff_sym_table ! 178 = (22, 0xffff8000)"
  "huff_sym_table ! 179 = (21, 0xffff1000)"
  "huff_sym_table ! 180 = (23, 0xffffda00)"
  "huff_sym_table ! 181 = (22, 0xffff8400)"
  "huff_sym_table ! 182 = (23, 0xffffdc00)"
  "huff_sym_table ! 183 = (23, 0xffffde00)"
  "huff_sym_table ! 184 = (20, 0xfffea000)"
  "huff_sym_table ! 185 = (22, 0xffff8800)"
  "huff_sym_table ! 186 = (22, 0xffff8c00)"
  "huff_sym_table ! 187 = (22, 0xffff9000)"
  "huff_sym_table ! 188 = (23, 0xffffe000)"
  "huff_sym_table ! 189 = (22, 0xffff9400)"
  "huff_sym_table ! 190 = (22, 0xffff9800)"
  "huff_sym_table ! 191 = (23, 0xffffe200)"
  "huff_sym_table ! 192 = (26, 0xfffff800)"
  "huff_sym_table ! 193 = (26, 0xfffff840)"
  "huff_sym_table ! 194 = (20, 0xfffeb000)"
  "huff_sym_table ! 195 = (19, 0xfffe2000)"
  "huff_sym_table ! 196 = (22, 0xffff9c00)"
  "huff_sym_table ! 197 = (23, 0xffffe400)"
  "huff_sym_table ! 198 = (22, 0xffffa000)"
  "huff_sym_table ! 199 = (25, 0xfffff600)"
  "huff_sym_table ! 200 = (26, 0xfffff880)"
  "huff_sym_table ! 201 = (26, 0xfffff8c0)"
  "huff_sym_table ! 202 = (26, 0xfffff900)"
  "huff_sym_table ! 203 = (27, 0xfffffbc0)"
  "huff_sym_table ! 204 = (27, 0xfffffbe0)"
  "huff_sym_table ! 205 = (26, 0xfffff940)"
  "huff_sym_table ! 206 = (24, 0xfffff100)"
  "huff_sym_table ! 207 = (25, 0xfffff680)"
  "huff_sym_table ! 208 = (19, 0xfffe4000)"
  "huff_sym_table ! 209 = (21, 0xffff1800)"
  "huff_sym_table ! 210 = (26, 0xfffff980)"
  "huff_sym_table ! 211 = (27, 0xfffffc00)"
  "huff_sym_table ! 212 = (27, 0xfffffc20)"
  "huff_sym_table ! 213 = (26, 0xfffff9c0)"
  "huff_sym_table ! 214 = (27, 0xfffffc40)"
  "huff_sym_table ! 215 = (24, 0xfffff200)"
  "huff_sym_table ! 216 = (21, 0xffff2000)"
  "huff_sym_table ! 217 = (21, 0xffff2800)"
  "huff_sym_table ! 218 = (26, 0xfffffa00)"
  "huff_sym_table ! 219 = (26, 0xfffffa40)"
  "huff_sym_table ! 220 = (28, 0xffffffd0)"
  "huff_sym_table ! 221 = (27, 0xfffffc60)"
  "huff_sym_table ! 222 = (27, 0xfffffc80)"
  "huff_sym_table ! 223 = (27, 0xfffffca0)"
  "huff_sym_table ! 224 = (20, 0xfffec000)"
  "huff_sym_table ! 225 = (24, 0xfffff300)"
  "huff_sym_table ! 226 = (20, 0xfffed000)"
  "huff_sym_table ! 227 = (21, 0xffff3000)"
  "huff_sym_table ! 228 = (22, 0xffffa400)"
  "huff_sym_table ! 229 = (21, 0xffff3800)"
  "huff_sym_table ! 230 = (21, 0xffff4000)"
  "huff_sym_table ! 231 = (23, 0xffffe600)"
  "huff_sym_table ! 232 = (22, 0xffffa800)"
  "huff_sym_table ! 233 = (22, 0xffffac00)"
  "huff_sym_table ! 234 = (25, 0xfffff700)"
  "huff_sym_table ! 235 = (25, 0xfffff780)"
  "huff_sym_table ! 236 = (24, 0xfffff400)"
  "huff_sym_table ! 237 = (24, 0xfffff500)"
  "huff_sym_table ! 238 = (26, 0xfffffa80)"
  "huff_sym_table ! 239 = (23, 0xffffe800)"
  "huff_sym_table ! 240 = (26, 0xfffffac0)"
  "huff_sym_table ! 241 = (27, 0xfffffcc0)"
  "huff_sym_table ! 242 = (26, 0xfffffb00)"
  "huff_sym_table ! 243 = (26, 0xfffffb40)"
  "huff_sym_table ! 244 = (27, 0xfffffce0)"
  "huff_sym_table ! 245 = (27, 0xfffffd00)"
  "huff_sym_table ! 246 = (27, 0xfffffd20)"
  "huff_sym_table ! 247 = (27, 0xfffffd40)"
  "huff_sym_table ! 248 = (27, 0xfffffd60)"
  "huff_sym_table ! 249 = (28, 0xffffffe0)"
  "huff_sym_table ! 250 = (27, 0xfffffd80)"
  "huff_sym_table ! 251 = (27, 0xfffffda0)"
  "huff_sym_table ! 252 = (27, 0xfffffdc0)"
  "huff_sym_table ! 253 = (27, 0xfffffde0)"
  "huff_sym_table ! 254 = (27, 0xfffffe00)"
  "huff_sym_table ! 255 = (26, 0xfffffb80)"
  "huff_sym_table ! 256 = (30, 0xfffffffc)"
  by (simp_all add: huff_sym_table_def)

lemma sym_code_simps:
  "sym_code 0 = (13, 8184)"
  "sym_code 1 = (23, 8388568)"
  "sym_code 2 = (28, 268435426)"
  "sym_code 3 = (28, 268435427)"
  "sym_code 4 = (28, 268435428)"
  "sym_code 5 = (28, 268435429)"
  "sym_code 6 = (28, 268435430)"
  "sym_code 7 = (28, 268435431)"
  "sym_code 8 = (28, 268435432)"
  "sym_code 9 = (24, 16777194)"
  "sym_code 10 = (30, 1073741820)"
  "sym_code 11 = (28, 268435433)"
  "sym_code 12 = (28, 268435434)"
  "sym_code 13 = (30, 1073741821)"
  "sym_code 14 = (28, 268435435)"
  "sym_code 15 = (28, 268435436)"
  "sym_code 16 = (28, 268435437)"
  "sym_code 17 = (28, 268435438)"
  "sym_code 18 = (28, 268435439)"
  "sym_code 19 = (28, 268435440)"
  "sym_code 20 = (28, 268435441)"
  "sym_code 21 = (28, 268435442)"
  "sym_code 22 = (30, 1073741822)"
  "sym_code 23 = (28, 268435443)"
  "sym_code 24 = (28, 268435444)"
  "sym_code 25 = (28, 268435445)"
  "sym_code 26 = (28, 268435446)"
  "sym_code 27 = (28, 268435447)"
  "sym_code 28 = (28, 268435448)"
  "sym_code 29 = (28, 268435449)"
  "sym_code 30 = (28, 268435450)"
  "sym_code 31 = (28, 268435451)"
  "sym_code 32 = (6, 20)"
  "sym_code 33 = (10, 1016)"
  "sym_code 34 = (10, 1017)"
  "sym_code 35 = (12, 4090)"
  "sym_code 36 = (13, 8185)"
  "sym_code 37 = (6, 21)"
  "sym_code 38 = (8, 248)"
  "sym_code 39 = (11, 2042)"
  "sym_code 40 = (10, 1018)"
  "sym_code 41 = (10, 1019)"
  "sym_code 42 = (8, 249)"
  "sym_code 43 = (11, 2043)"
  "sym_code 44 = (8, 250)"
  "sym_code 45 = (6, 22)"
  "sym_code 46 = (6, 23)"
  "sym_code 47 = (6, 24)"
  "sym_code 48 = (5, 0)"
  "sym_code 49 = (5, 1)"
  "sym_code 50 = (5, 2)"
  "sym_code 51 = (6, 25)"
  "sym_code 52 = (6, 26)"
  "sym_code 53 = (6, 27)"
  "sym_code 54 = (6, 28)"
  "sym_code 55 = (6, 29)"
  "sym_code 56 = (6, 30)"
  "sym_code 57 = (6, 31)"
  "sym_code 58 = (7, 92)"
  "sym_code 59 = (8, 251)"
  "sym_code 60 = (15, 32764)"
  "sym_code 61 = (6, 32)"
  "sym_code 62 = (12, 4091)"
  "sym_code 63 = (10, 1020)"
  "sym_code 64 = (13, 8186)"
  "sym_code 65 = (6, 33)"
  "sym_code 66 = (7, 93)"
  "sym_code 67 = (7, 94)"
  "sym_code 68 = (7, 95)"
  "sym_code 69 = (7, 96)"
  "sym_code 70 = (7, 97)"
  "sym_code 71 = (7, 98)"
  "sym_code 72 = (7, 99)"
  "sym_code 73 = (7, 100)"
  "sym_code 74 = (7, 101)"
  "sym_code 75 = (7, 102)"
  "sym_code 76 = (7, 103)"
  "sym_code 77 = (7, 104)"
  "sym_code 78 = (7, 105)"
  "sym_code 79 = (7, 106)"
  "sym_code 80 = (7, 107)"
  "sym_code 81 = (7, 108)"
  "sym_code 82 = (7, 109)"
  "sym_code 83 = (7, 110)"
  "sym_code 84 = (7, 111)"
  "sym_code 85 = (7, 112)"
  "sym_code 86 = (7, 113)"
  "sym_code 87 = (7, 114)"
  "sym_code 88 = (8, 252)"
  "sym_code 89 = (7, 115)"
  "sym_code 90 = (8, 253)"
  "sym_code 91 = (13, 8187)"
  "sym_code 92 = (19, 524272)"
  "sym_code 93 = (13, 8188)"
  "sym_code 94 = (14, 16380)"
  "sym_code 95 = (6, 34)"
  "sym_code 96 = (15, 32765)"
  "sym_code 97 = (5, 3)"
  "sym_code 98 = (6, 35)"
  "sym_code 99 = (5, 4)"
  "sym_code 100 = (6, 36)"
  "sym_code 101 = (5, 5)"
  "sym_code 102 = (6, 37)"
  "sym_code 103 = (6, 38)"
  "sym_code 104 = (6, 39)"
  "sym_code 105 = (5, 6)"
  "sym_code 106 = (7, 116)"
  "sym_code 107 = (7, 117)"
  "sym_code 108 = (6, 40)"
  "sym_code 109 = (6, 41)"
  "sym_code 110 = (6, 42)"
  "sym_code 111 = (5, 7)"
  "sym_code 112 = (6, 43)"
  "sym_code 113 = (7, 118)"
  "sym_code 114 = (6, 44)"
  "sym_code 115 = (5, 8)"
  "sym_code 116 = (5, 9)"
  "sym_code 117 = (6, 45)"
  "sym_code 118 = (7, 119)"
  "sym_code 119 = (7, 120)"
  "sym_code 120 = (7, 121)"
  "sym_code 121 = (7, 122)"
  "sym_code 122 = (7, 123)"
  "sym_code 123 = (15, 32766)"
  "sym_code 124 = (11, 2044)"
  "sym_code 125 = (14, 16381)"
  "sym_code 126 = (13, 8189)"
  "sym_code 127 = (28, 268435452)"
  "sym_code 128 = (20, 1048550)"
  "sym_code 129 = (22, 4194258)"
  "sym_code 130 = (20, 1048551)"
  "sym_code 131 = (20, 1048552)"
  "sym_code 132 = (22, 4194259)"
  "sym_code 133 = (22, 4194260)"
  "sym_code 134 = (22, 4194261)"
  "sym_code 135 = (23, 8388569)"
  "sym_code 136 = (22, 4194262)"
  "sym_code 137 = (23, 8388570)"
  "sym_code 138 = (23, 8388571)"
  "sym_code 139 = (23, 8388572)"
  "sym_code 140 = (23, 8388573)"
  "sym_code 141 = (23, 8388574)"
  "sym_code 142 = (24, 16777195)"
  "sym_code 143 = (23, 8388575)"
  "sym_code 144 = (24, 16777196)"
  "sym_code 145 = (24, 16777197)"
  "sym_code 146 = (22, 4194263)"
  "sym_code 147 = (23, 8388576)"
  "sym_code 148 = (24, 16777198)"
  "sym_code 149 = (23, 8388577)"
  "sym_code 150 = (23, 8388578)"
  "sym_code 151 = (23, 8388579)"
  "sym_code 152 = (23, 8388580)"
  "sym_code 153 = (21, 2097116)"
  "sym_code 154 = (22, 4194264)"
  "sym_code 155 = (23, 8388581)"
  "sym_code 156 = (22, 4194265)"
  "sym_code 157 = (23, 8388582)"
  "sym_code 158 = (23, 8388583)"
  "sym_code 159 = (24, 16777199)"
  "sym_code 160 = (22, 4194266)"
  "sym_code 161 = (21, 2097117)"
  "sym_code 162 = (20, 1048553)"
  "sym_code 163 = (22, 4194267)"
  "sym_code 164 = (22, 4194268)"
  "sym_code 165 = (23, 8388584)"
  "sym_code 166 = (23, 8388585)"
  "sym_code 167 = (21, 2097118)"
  "sym_code 168 = (23, 8388586)"
  "sym_code 169 = (22, 4194269)"
  "sym_code 170 = (22, 4194270)"
  "sym_code 171 = (24, 16777200)"
  "sym_code 172 = (21, 2097119)"
  "sym_code 173 = (22, 4194271)"
  "sym_code 174 = (23, 8388587)"
  "sym_code 175 = (23, 8388588)"
  "sym_code 176 = (21, 2097120)"
  "sym_code 177 = (21, 2097121)"
  "sym_code 178 = (22, 4194272)"
  "sym_code 179 = (21, 2097122)"
  "sym_code 180 = (23, 8388589)"
  "sym_code 181 = (22, 4194273)"
  "sym_code 182 = (23, 8388590)"
  "sym_code 183 = (23, 8388591)"
  "sym_code 184 = (20, 1048554)"
  "sym_code 185 = (22, 4194274)"
  "sym_code 186 = (22, 4194275)"
  "sym_code 187 = (22, 4194276)"
  "sym_code 188 = (23, 8388592)"
  "sym_code 189 = (22, 4194277)"
  "sym_code 190 = (22, 4194278)"
  "sym_code 191 = (23, 8388593)"
  "sym_code 192 = (26, 67108832)"
  "sym_code 193 = (26, 67108833)"
  "sym_code 194 = (20, 1048555)"
  "sym_code 195 = (19, 524273)"
  "sym_code 196 = (22, 4194279)"
  "sym_code 197 = (23, 8388594)"
  "sym_code 198 = (22, 4194280)"
  "sym_code 199 = (25, 33554412)"
  "sym_code 200 = (26, 67108834)"
  "sym_code 201 = (26, 67108835)"
  "sym_code 202 = (26, 67108836)"
  "sym_code 203 = (27, 134217694)"
  "sym_code 204 = (27, 134217695)"
  "sym_code 205 = (26, 67108837)"
  "sym_code 206 = (24, 16777201)"
  "sym_code 207 = (25, 33554413)"
  "sym_code 208 = (19, 524274)"
  "sym_code 209 = (21, 2097123)"
  "sym_code 210 = (26, 67108838)"
  "sym_code 211 = (27, 134217696)"
  "sym_code 212 = (27, 134217697)"
  "sym_code 213 = (26, 67108839)"
  "sym_code 214 = (27, 134217698)"
  "sym_code 215 = (24, 16777202)"
  "sym_code 216 = (21, 2097124)"
  "sym_code 217 = (21, 2097125)"
  "sym_code 218 = (26, 67108840)"
  "sym_code 219 = (26, 67108841)"
  "sym_code 220 = (28, 268435453)"
  "sym_code 221 = (27, 134217699)"
  "sym_code 222 = (27, 134217700)"
  "sym_code 223 = (27, 134217701)"
  "sym_code 224 = (20, 1048556)"
  "sym_code 225 = (24, 16777203)"
  "sym_code 226 = (20, 1048557)"
  "sym_code 227 = (21, 2097126)"
  "sym_code 228 = (22, 4194281)"
  "sym_code 229 = (21, 2097127)"
  "sym_code 230 = (21, 2097128)"
  "sym_code 231 = (23, 8388595)"
  "sym_code 232 = (22, 4194282)"
  "sym_code 233 = (22, 4194283)"
  "sym_code 234 = (25, 33554414)"
  "sym_code 235 = (25, 33554415)"
  "sym_code 236 = (24, 16777204)"
  "sym_code 237 = (24, 16777205)"
  "sym_code 238 = (26, 67108842)"
  "sym_code 239 = (23, 8388596)"
  "sym_code 240 = (26, 67108843)"
  "sym_code 241 = (27, 134217702)"
  "sym_code 242 = (26, 67108844)"
  "sym_code 243 = (26, 67108845)"
  "sym_code 244 = (27, 134217703)"
  "sym_code 245 = (27, 134217704)"
  "sym_code 246 = (27, 134217705)"
  "sym_code 247 = (27, 134217706)"
  "sym_code 248 = (27, 134217707)"
  "sym_code 249 = (28, 268435454)"
  "sym_code 250 = (27, 134217708)"
  "sym_code 251 = (27, 134217709)"
  "sym_code 252 = (27, 134217710)"
  "sym_code 253 = (27, 134217711)"
  "sym_code 254 = (27, 134217712)"
  "sym_code 255 = (26, 67108846)"
  "sym_code 256 = (30, 1073741823)"
  by (simp_all add: sym_code_def sym_table_nth sym_table_nth(2) [unfolded One_nat_def])

lemma node_code_simps:
  "node_code 0 = (0, 0)"
  "node_code 1 = (1, 0)"
  "node_code 2 = (2, 0)"
  "node_code 3 = (3, 0)"
  "node_code 4 = (4, 0)"
  "node_code 5 = (4, 1)"
  "node_code 6 = (3, 1)"
  "node_code 7 = (4, 2)"
  "node_code 8 = (4, 3)"
  "node_code 9 = (2, 1)"
  "node_code 10 = (3, 2)"
  "node_code 11 = (4, 4)"
  "node_code 12 = (4, 5)"
  "node_code 13 = (5, 10)"
  "node_code 14 = (5, 11)"
  "node_code 15 = (3, 3)"
  "node_code 16 = (4, 6)"
  "node_code 17 = (5, 12)"
  "node_code 18 = (5, 13)"
  "node_code 19 = (4, 7)"
  "node_code 20 = (5, 14)"
  "node_code 21 = (5, 15)"
  "node_code 22 = (1, 1)"
  "node_code 23 = (2, 2)"
  "node_code 24 = (3, 4)"
  "node_code 25 = (4, 8)"
  "node_code 26 = (5, 16)"
  "node_code 27 = (5, 17)"
  "node_code 28 = (4, 9)"
  "node_code 29 = (5, 18)"
  "node_code 30 = (5, 19)"
  "node_code 31 = (3, 5)"
  "node_code 32 = (4, 10)"
  "node_code 33 = (5, 20)"
  "node_code 34 = (5, 21)"
  "node_code 35 = (4, 11)"
  "node_code 36 = (5, 22)"
  "node_code 37 = (5, 23)"
  "node_code 38 = (6, 46)"
  "node_code 39 = (6, 47)"
  "node_code 40 = (2, 3)"
  "node_code 41 = (3, 6)"
  "node_code 42 = (4, 12)"
  "node_code 43 = (5, 24)"
  "node_code 44 = (6, 48)"
  "node_code 45 = (6, 49)"
  "node_code 46 = (5, 25)"
  "node_code 47 = (6, 50)"
  "node_code 48 = (6, 51)"
  "node_code 49 = (4, 13)"
  "node_code 50 = (5, 26)"
  "node_code 51 = (6, 52)"
  "node_code 52 = (6, 53)"
  "node_code 53 = (5, 27)"
  "node_code 54 = (6, 54)"
  "node_code 55 = (6, 55)"
  "node_code 56 = (3, 7)"
  "node_code 57 = (4, 14)"
  "node_code 58 = (5, 28)"
  "node_code 59 = (6, 56)"
  "node_code 60 = (6, 57)"
  "node_code 61 = (5, 29)"
  "node_code 62 = (6, 58)"
  "node_code 63 = (6, 59)"
  "node_code 64 = (4, 15)"
  "node_code 65 = (5, 30)"
  "node_code 66 = (6, 60)"
  "node_code 67 = (6, 61)"
  "node_code 68 = (5, 31)"
  "node_code 69 = (6, 62)"
  "node_code 70 = (7, 124)"
  "node_code 71 = (7, 125)"
  "node_code 72 = (6, 63)"
  "node_code 73 = (7, 126)"
  "node_code 74 = (7, 127)"
  "node_code 75 = (8, 254)"
  "node_code 76 = (9, 508)"
  "node_code 77 = (9, 509)"
  "node_code 78 = (8, 255)"
  "node_code 79 = (9, 510)"
  "node_code 80 = (10, 1021)"
  "node_code 81 = (9, 511)"
  "node_code 82 = (10, 1022)"
  "node_code 83 = (11, 2045)"
  "node_code 84 = (10, 1023)"
  "node_code 85 = (11, 2046)"
  "node_code 86 = (12, 4092)"
  "node_code 87 = (12, 4093)"
  "node_code 88 = (11, 2047)"
  "node_code 89 = (12, 4094)"
  "node_code 90 = (12, 4095)"
  "node_code 91 = (13, 8190)"
  "node_code 92 = (13, 8191)"
  "node_code 93 = (14, 16382)"
  "node_code 94 = (14, 16383)"
  "node_code 95 = (15, 32767)"
  "node_code 96 = (16, 65534)"
  "node_code 97 = (17, 131068)"
  "node_code 98 = (18, 262136)"
  "node_code 99 = (18, 262137)"
  "node_code 100 = (19, 524275)"
  "node_code 101 = (17, 131069)"
  "node_code 102 = (18, 262138)"
  "node_code 103 = (19, 524276)"
  "node_code 104 = (19, 524277)"
  "node_code 105 = (18, 262139)"
  "node_code 106 = (19, 524278)"
  "node_code 107 = (19, 524279)"
  "node_code 108 = (20, 1048558)"
  "node_code 109 = (20, 1048559)"
  "node_code 110 = (16, 65535)"
  "node_code 111 = (17, 131070)"
  "node_code 112 = (18, 262140)"
  "node_code 113 = (19, 524280)"
  "node_code 114 = (20, 1048560)"
  "node_code 115 = (20, 1048561)"
  "node_code 116 = (19, 524281)"
  "node_code 117 = (20, 1048562)"
  "node_code 118 = (20, 1048563)"
  "node_code 119 = (18, 262141)"
  "node_code 120 = (19, 524282)"
  "node_code 121 = (20, 1048564)"
  "node_code 122 = (21, 2097129)"
  "node_code 123 = (20, 1048565)"
  "node_code 124 = (21, 2097130)"
  "node_code 125 = (21, 2097131)"
  "node_code 126 = (19, 524283)"
  "node_code 127 = (20, 1048566)"
  "node_code 128 = (21, 2097132)"
  "node_code 129 = (21, 2097133)"
  "node_code 130 = (20, 1048567)"
  "node_code 131 = (21, 2097134)"
  "node_code 132 = (21, 2097135)"
  "node_code 133 = (17, 131071)"
  "node_code 134 = (18, 262142)"
  "node_code 135 = (19, 524284)"
  "node_code 136 = (20, 1048568)"
  "node_code 137 = (21, 2097136)"
  "node_code 138 = (21, 2097137)"
  "node_code 139 = (20, 1048569)"
  "node_code 140 = (21, 2097138)"
  "node_code 141 = (21, 2097139)"
  "node_code 142 = (19, 524285)"
  "node_code 143 = (20, 1048570)"
  "node_code 144 = (21, 2097140)"
  "node_code 145 = (21, 2097141)"
  "node_code 146 = (20, 1048571)"
  "node_code 147 = (21, 2097142)"
  "node_code 148 = (22, 4194284)"
  "node_code 149 = (22, 4194285)"
  "node_code 150 = (21, 2097143)"
  "node_code 151 = (22, 4194286)"
  "node_code 152 = (22, 4194287)"
  "node_code 153 = (18, 262143)"
  "node_code 154 = (19, 524286)"
  "node_code 155 = (20, 1048572)"
  "node_code 156 = (21, 2097144)"
  "node_code 157 = (22, 4194288)"
  "node_code 158 = (22, 4194289)"
  "node_code 159 = (21, 2097145)"
  "node_code 160 = (22, 4194290)"
  "node_code 161 = (22, 4194291)"
  "node_code 162 = (20, 1048573)"
  "node_code 163 = (21, 2097146)"
  "node_code 164 = (22, 4194292)"
  "node_code 165 = (22, 4194293)"
  "node_code 166 = (21, 2097147)"
  "node_code 167 = (22, 4194294)"
  "node_code 168 = (22, 4194295)"
  "node_code 169 = (19, 524287)"
  "node_code 170 = (20, 1048574)"
  "node_code 171 = (21, 2097148)"
  "node_code 172 = (22, 4194296)"
  "node_code 173 = (22, 4194297)"
  "node_code 174 = (21, 2097149)"
  "node_code 175 = (22, 4194298)"
  "node_code 176 = (23, 8388597)"
  "node_code 177 = (22, 4194299)"
  "node_code 178 = (23, 8388598)"
  "node_code 179 = (23, 8388599)"
  "node_code 180 = (20, 1048575)"
  "node_code 181 = (21, 2097150)"
  "node_code 182 = (22, 4194300)"
  "node_code 183 = (23, 8388600)"
  "node_code 184 = (23, 8388601)"
  "node_code 185 = (22, 4194301)"
  "node_code 186 = (23, 8388602)"
  "node_code 187 = (23, 8388603)"
  "node_code 188 = (24, 16777206)"
  "node_code 189 = (24, 16777207)"
  "node_code 190 = (21, 2097151)"
  "node_code 191 = (22, 4194302)"
  "node_code 192 = (23, 8388604)"
  "node_code 193 = (24, 16777208)"
  "node_code 194 = (25, 33554416)"
  "node_code 195 = (25, 33554417)"
  "node_code 196 = (24, 16777209)"
  "node_code 197 = (25, 33554418)"
  "node_code 198 = (25, 33554419)"
  "node_code 199 = (23, 8388605)"
  "node_code 200 = (24, 16777210)"
  "node_code 201 = (25, 33554420)"
  "node_code 202 = (25, 33554421)"
  "node_code 203 = (24, 16777211)"
  "node_code 204 = (25, 33554422)"
  "node_code 205 = (25, 33554423)"
  "node_code 206 = (26, 67108847)"
  "node_code 207 = (22, 4194303)"
  "node_code 208 = (23, 8388606)"
  "node_code 209 = (24, 16777212)"
  "node_code 210 = (25, 33554424)"
  "node_code 211 = (26, 67108848)"
  "node_code 212 = (26, 67108849)"
  "node_code 213 = (25, 33554425)"
  "node_code 214 = (26, 67108850)"
  "node_code 215 = (26, 67108851)"
  "node_code 216 = (24, 16777213)"
  "node_code 217 = (25, 33554426)"
  "node_code 218 = (26, 67108852)"
  "node_code 219 = (26, 67108853)"
  "node_code 220 = (25, 33554427)"
  "node_code 221 = (26, 67108854)"
  "node_code 222 = (26, 67108855)"
  "node_code 223 = (23, 8388607)"
  "node_code 224 = (24, 16777214)"
  "node_code 225 = (25, 33554428)"
  "node_code 226 = (26, 67108856)"
  "node_code 227 = (27, 134217713)"
  "node_code 228 = (26, 67108857)"
  "node_code 229 = (27, 134217714)"
  "node_code 230 = (27, 134217715)"
  "node_code 231 = (25, 33554429)"
  "node_code 232 = (26, 67108858)"
  "node_code 233 = (27, 134217716)"
  "node_code 234 = (27, 134217717)"
  "node_code 235 = (26, 67108859)"
  "node_code 236 = (27, 134217718)"
  "node_code 237 = (27, 134217719)"
  "node_code 238 = (24, 16777215)"
  "node_code 239 = (25, 33554430)"
  "node_code 240 = (26, 67108860)"
  "node_code 241 = (27, 134217720)"
  "node_code 242 = (27, 134217721)"
  "node_code 243 = (26, 67108861)"
  "node_code 244 = (27, 134217722)"
  "node_code 245 = (27, 134217723)"
  "node_code 246 = (25, 33554431)"
  "node_code 247 = (26, 67108862)"
  "node_code 248 = (27, 134217724)"
  "node_code 249 = (27, 134217725)"
  "node_code 250 = (26, 67108863)"
  "node_code 251 = (27, 134217726)"
  "node_code 252 = (27, 134217727)"
  "node_code 253 = (28, 268435455)"
  "node_code 254 = (29, 536870910)"
  "node_code 255 = (29, 536870911)"
  "node_code 256 = (30, 1073741823)"
  by (simp_all add: node_code_def node_codes_def)

lemma unat_numbers:
  "(numeral k :: nat) < 65536 \<Longrightarrow> unat (numeral k :: u16) = numeral k"
  "(numeral k :: nat) < 256 \<Longrightarrow> unat (numeral k :: u8) = numeral k"
  using word_of_nat_unat_le [of "numeral k", where 'a = 16] word_of_nat_unat_le [of "numeral k", where 'a = 8]
  by simp_all

lemmas check_simps = unat_numbers cat_def sym_code_simps node_code_simps
  sym_code_simps(2) [unfolded One_nat_def] node_code_simps(2-7) [unfolded eval_nat_numeral BitM.simps One_nat_def]

section \<open>The check\<close>

lemma rows_0: "rows_ok 0 huff_rows_0"
  by (simp add: huff_rows_0_def check_simps)

lemma rows_1: "rows_ok 7 huff_rows_1"
  by (simp add: huff_rows_1_def check_simps)

lemma rows_2: "rows_ok 14 huff_rows_2"
  by (simp add: huff_rows_2_def check_simps)

lemma rows_3: "rows_ok 21 huff_rows_3"
  by (simp add: huff_rows_3_def check_simps)

lemma rows_4: "rows_ok 28 huff_rows_4"
  by (simp add: huff_rows_4_def check_simps)

lemma rows_5: "rows_ok 35 huff_rows_5"
  by (simp add: huff_rows_5_def check_simps)

lemma rows_6: "rows_ok 42 huff_rows_6"
  by (simp add: huff_rows_6_def check_simps)

lemma rows_7: "rows_ok 49 huff_rows_7"
  by (simp add: huff_rows_7_def check_simps)

lemma rows_8: "rows_ok 56 huff_rows_8"
  by (simp add: huff_rows_8_def check_simps)

lemma rows_9: "rows_ok 63 huff_rows_9"
  by (simp add: huff_rows_9_def check_simps)

lemma rows_10: "rows_ok 70 huff_rows_10"
  by (simp add: huff_rows_10_def check_simps)

lemma rows_11: "rows_ok 77 huff_rows_11"
  by (simp add: huff_rows_11_def check_simps)

lemma rows_12: "rows_ok 84 huff_rows_12"
  by (simp add: huff_rows_12_def check_simps)

lemma rows_13: "rows_ok 91 huff_rows_13"
  by (simp add: huff_rows_13_def check_simps)

lemma rows_14: "rows_ok 98 huff_rows_14"
  by (simp add: huff_rows_14_def check_simps)

lemma rows_15: "rows_ok 105 huff_rows_15"
  by (simp add: huff_rows_15_def check_simps)

lemma rows_16: "rows_ok 112 huff_rows_16"
  by (simp add: huff_rows_16_def check_simps)

lemma rows_17: "rows_ok 119 huff_rows_17"
  by (simp add: huff_rows_17_def check_simps)

lemma rows_18: "rows_ok 126 huff_rows_18"
  by (simp add: huff_rows_18_def check_simps)

lemma rows_19: "rows_ok 133 huff_rows_19"
  by (simp add: huff_rows_19_def check_simps)

lemma rows_20: "rows_ok 140 huff_rows_20"
  by (simp add: huff_rows_20_def check_simps)

lemma rows_21: "rows_ok 147 huff_rows_21"
  by (simp add: huff_rows_21_def check_simps)

lemma rows_22: "rows_ok 154 huff_rows_22"
  by (simp add: huff_rows_22_def check_simps)

lemma rows_23: "rows_ok 161 huff_rows_23"
  by (simp add: huff_rows_23_def check_simps)

lemma rows_24: "rows_ok 168 huff_rows_24"
  by (simp add: huff_rows_24_def check_simps)

lemma rows_25: "rows_ok 175 huff_rows_25"
  by (simp add: huff_rows_25_def check_simps)

lemma rows_26: "rows_ok 182 huff_rows_26"
  by (simp add: huff_rows_26_def check_simps)

lemma rows_27: "rows_ok 189 huff_rows_27"
  by (simp add: huff_rows_27_def check_simps)

lemma rows_28: "rows_ok 196 huff_rows_28"
  by (simp add: huff_rows_28_def check_simps)

lemma rows_29: "rows_ok 203 huff_rows_29"
  by (simp add: huff_rows_29_def check_simps)

lemma rows_30: "rows_ok 210 huff_rows_30"
  by (simp add: huff_rows_30_def check_simps)

lemma rows_31: "rows_ok 217 huff_rows_31"
  by (simp add: huff_rows_31_def check_simps)

lemma rows_32: "rows_ok 224 huff_rows_32"
  by (simp add: huff_rows_32_def check_simps)

lemma rows_33: "rows_ok 231 huff_rows_33"
  by (simp add: huff_rows_33_def check_simps)

lemma rows_34: "rows_ok 238 huff_rows_34"
  by (simp add: huff_rows_34_def check_simps)

lemma rows_35: "rows_ok 245 huff_rows_35"
  by (simp add: huff_rows_35_def check_simps)

lemma rows_36: "rows_ok 252 huff_rows_36"
  by (simp add: huff_rows_36_def check_simps)

lemma rows_ok_append:
  "rows_ok s (rs @ rs') \<longleftrightarrow> rows_ok s rs \<and> rows_ok (s + length rs) rs'"
  by (induction rs arbitrary: s) auto

lemma length_rows:
  "length huff_rows_0 = 7"
  "length huff_rows_1 = 7"
  "length huff_rows_2 = 7"
  "length huff_rows_3 = 7"
  "length huff_rows_4 = 7"
  "length huff_rows_5 = 7"
  "length huff_rows_6 = 7"
  "length huff_rows_7 = 7"
  "length huff_rows_8 = 7"
  "length huff_rows_9 = 7"
  "length huff_rows_10 = 7"
  "length huff_rows_11 = 7"
  "length huff_rows_12 = 7"
  "length huff_rows_13 = 7"
  "length huff_rows_14 = 7"
  "length huff_rows_15 = 7"
  "length huff_rows_16 = 7"
  "length huff_rows_17 = 7"
  "length huff_rows_18 = 7"
  "length huff_rows_19 = 7"
  "length huff_rows_20 = 7"
  "length huff_rows_21 = 7"
  "length huff_rows_22 = 7"
  "length huff_rows_23 = 7"
  "length huff_rows_24 = 7"
  "length huff_rows_25 = 7"
  "length huff_rows_26 = 7"
  "length huff_rows_27 = 7"
  "length huff_rows_28 = 7"
  "length huff_rows_29 = 7"
  "length huff_rows_30 = 7"
  "length huff_rows_31 = 7"
  "length huff_rows_32 = 7"
  "length huff_rows_33 = 7"
  "length huff_rows_34 = 7"
  "length huff_rows_35 = 7"
  "length huff_rows_36 = 5"
  by (simp_all add: huff_rows_0_def huff_rows_1_def huff_rows_2_def huff_rows_3_def huff_rows_4_def huff_rows_5_def huff_rows_6_def huff_rows_7_def huff_rows_8_def huff_rows_9_def huff_rows_10_def huff_rows_11_def huff_rows_12_def huff_rows_13_def huff_rows_14_def huff_rows_15_def huff_rows_16_def huff_rows_17_def huff_rows_18_def huff_rows_19_def huff_rows_20_def huff_rows_21_def huff_rows_22_def huff_rows_23_def huff_rows_24_def huff_rows_25_def huff_rows_26_def huff_rows_27_def huff_rows_28_def huff_rows_29_def huff_rows_30_def huff_rows_31_def huff_rows_32_def huff_rows_33_def huff_rows_34_def huff_rows_35_def huff_rows_36_def)

lemma decode_table_ok: "rows_ok 0 huff_decode_table"
  unfolding huff_decode_table_def rows_ok_append length_rows
  by (intro conjI) (simp_all add: rows_0 rows_1 rows_2 rows_3 rows_4 rows_5 rows_6 rows_7 rows_8 rows_9 rows_10 rows_11 rows_12 rows_13 rows_14 rows_15 rows_16 rows_17 rows_18 rows_19 rows_20 rows_21 rows_22 rows_23 rows_24 rows_25 rows_26 rows_27 rows_28 rows_29 rows_30 rows_31 rows_32 rows_33 rows_34 rows_35 rows_36)

lemma length_decode_table: "length huff_decode_table = 257"
  by (simp add: huff_decode_table_def length_rows)

lemma node_codes_fit: "list_all fits node_codes" "length node_codes = 257"
  by (simp_all add: node_codes_def fits_def)

lemma node_code_fits: "s \<le> 256 \<Longrightarrow> fits (node_code s)"
  using node_codes_fit by (simp add: node_code_def list_all_length)

lemma huff_code_bits: "fst (huff_sym_table ! s) \<le> 32 \<Longrightarrow> huff_code s = bits_of (sym_code s)"
proof -
  obtain n c where nc: "huff_sym_table ! s = (n, c)" by fastforce
  assume "fst (huff_sym_table ! s) \<le> 32"
  then have n: "n \<le> 32" by (simp add: nc)
  show ?thesis
  proof (rule nth_equalityI)
    fix i assume "i < length (huff_code s)"
    then have i: "i < n" by (simp add: huff_code_def nc)
    have "31 - i = 32 - n + (n - 1 - i)" using i n by simp
    then have "bit c (31 - i) = bit (unat c div 2 ^ (32 - n)) (n - 1 - i)"
      by (simp add: bit_div bit_unsigned_iff)
    then show "huff_code s ! i = bits_of (sym_code s) ! i"
      using i by (simp add: huff_code_def sym_code_def nc bits_of_nth)
  qed (simp add: huff_code_def sym_code_def nc)
qed

end
