(* ===== verification/Ng_Buf.thy ===== *)
theory Ng_Buf
  imports Ng_Base
begin

text \<open>
  The growing output buffers of the HTTP/2 library, \<^verbatim>\<open>nghttp2_buf.c\<close>: a single buffer and a
  chain of buffers of one size (\<^verbatim>\<open>nghttp2_bufs\<close>), into which frames and header blocks are
  written.

  The bytes of \<^verbatim>\<open>[begin, end)\<close> are the list \<open>bytes_of\<close>; the pointers into them are offsets
  from \<^verbatim>\<open>begin\<close>. The chain is a list and \<^verbatim>\<open>cur\<close> an index into it. The allocator
  answers from a list, fills fresh memory with bytes the code does not know, and counts the live
  blocks. A result \<open>None\<close> is an access outside a buffer, or a loop that does not return.
\<close>

section \<open>The allocator\<close>

record nghttp2_mem =
  mem_answers :: mem
  mem_fill :: "nat \<Rightarrow> u8"
  mem_live :: int

definition nghttp2_mem_malloc :: "nghttp2_mem \<Rightarrow> bool \<times> nghttp2_mem" where
  "nghttp2_mem_malloc m =
     (case mem_alloc (mem_answers m) of
        (ok, a) \<Rightarrow> (ok, m\<lparr>mem_answers := a, mem_live := mem_live m + (if ok then 1 else 0)\<rparr>))"

definition nghttp2_mem_free :: "nghttp2_mem \<Rightarrow> nghttp2_mem" where
  "nghttp2_mem_free m = m\<lparr>mem_live := mem_live m - 1\<rparr>"

section \<open>One buffer\<close>

record nghttp2_buf =
  bytes_of :: bytes
  buf_pos :: nat
  buf_last :: nat
  buf_mark :: nat

definition nghttp2_buf_len :: "nghttp2_buf \<Rightarrow> nat" where
  "nghttp2_buf_len b = buf_last b - buf_pos b"

definition nghttp2_buf_cap :: "nghttp2_buf \<Rightarrow> nat" where
  "nghttp2_buf_cap b = length (bytes_of b)"

definition nghttp2_buf_avail :: "nghttp2_buf \<Rightarrow> nat" where
  "nghttp2_buf_avail b = nghttp2_buf_cap b - buf_last b"

definition nghttp2_buf_shift_right :: "nat \<Rightarrow> nghttp2_buf \<Rightarrow> nghttp2_buf" where
  "nghttp2_buf_shift_right n b = b\<lparr>buf_pos := buf_pos b + n, buf_last := buf_last b + n\<rparr>"

definition nghttp2_buf_shift_left :: "nat \<Rightarrow> nghttp2_buf \<Rightarrow> nghttp2_buf" where
  "nghttp2_buf_shift_left n b = b\<lparr>buf_pos := buf_pos b - n, buf_last := buf_last b - n\<rparr>"

definition nghttp2_buf_init :: nghttp2_buf where
  "nghttp2_buf_init = \<lparr>bytes_of = [], buf_pos = 0, buf_last = 0, buf_mark = 0\<rparr>"

text \<open>A buffer of capacity 0 has no block; growing it is an allocation.\<close>

definition nghttp2_buf_reserve :: "nghttp2_buf \<Rightarrow> nat \<Rightarrow> nghttp2_mem \<Rightarrow> nghttp2_buf \<times> nghttp2_mem \<times> int" where
  "nghttp2_buf_reserve b new_cap m =
     (let cap = nghttp2_buf_cap b in
      if new_cap \<le> cap then (b, m, 0)
      else let new_cap' = max new_cap (cap * 2) in
        (case nghttp2_mem_malloc m of
           (False, m') \<Rightarrow> (b, m', NGHTTP2_ERR_NOMEM)
         | (True, m') \<Rightarrow>
             (b\<lparr>bytes_of := bytes_of b @ map (mem_fill m) [cap..<new_cap']\<rparr>,
              (if cap = 0 then m' else nghttp2_mem_free m'), 0)))"

definition nghttp2_buf_init2 :: "nat \<Rightarrow> nghttp2_mem \<Rightarrow> nghttp2_buf \<times> nghttp2_mem \<times> int" where
  "nghttp2_buf_init2 initial m = nghttp2_buf_reserve nghttp2_buf_init initial m"

definition nghttp2_buf_free :: "nghttp2_buf \<Rightarrow> nghttp2_mem \<Rightarrow> nghttp2_mem" where
  "nghttp2_buf_free b m = (if nghttp2_buf_cap b = 0 then m else nghttp2_mem_free m)"

definition nghttp2_buf_reset :: "nghttp2_buf \<Rightarrow> nghttp2_buf" where
  "nghttp2_buf_reset b = b\<lparr>buf_pos := 0, buf_last := 0, buf_mark := 0\<rparr>"

definition nghttp2_buf_wrap_init :: "bytes \<Rightarrow> nghttp2_buf" where
  "nghttp2_buf_wrap_init bs = \<lparr>bytes_of = bs, buf_pos = 0, buf_last = 0, buf_mark = 0\<rparr>"

text \<open>The bytes written and not yet consumed.\<close>

definition present :: "nghttp2_buf \<Rightarrow> bytes" where
  "present b = drop (buf_pos b) (take (buf_last b) (bytes_of b))"

text \<open>A write through \<^verbatim>\<open>last\<close>, which moves it.\<close>

definition buf_put :: "bytes \<Rightarrow> nghttp2_buf \<Rightarrow> nghttp2_buf option" where
  "buf_put bs b = map_option (\<lambda>d. b\<lparr>bytes_of := d, buf_last := buf_last b + length bs\<rparr>)
                    (wr_block (bytes_of b) (buf_last b) bs)"

section \<open>A chain of buffers\<close>

record nghttp2_bufs =
  chunks :: "nghttp2_buf list"
  bufs_cur :: nat
  bufs_mem :: nghttp2_mem
  chunk_length :: nat
  max_chunk :: nat
  chunk_used :: nat
  chunk_keep :: nat
  bufs_offset :: nat

definition buf_chain_new :: "nat \<Rightarrow> nghttp2_mem \<Rightarrow> nghttp2_buf option \<times> nghttp2_mem \<times> int" where
  "buf_chain_new len m =
     (case nghttp2_mem_malloc m of
        (False, m1) \<Rightarrow> (None, m1, NGHTTP2_ERR_NOMEM)
      | (True, m1) \<Rightarrow>
          (case nghttp2_buf_init2 len m1 of
             (b, m2, rv) \<Rightarrow>
               if rv \<noteq> 0 then (None, nghttp2_mem_free m2, NGHTTP2_ERR_NOMEM) else (Some b, m2, 0)))"

definition buf_chain_del :: "nghttp2_buf \<Rightarrow> nghttp2_mem \<Rightarrow> nghttp2_mem" where
  "buf_chain_del b m = nghttp2_mem_free (nghttp2_buf_free b m)"

definition nghttp2_bufs_init3 ::
  "nat \<Rightarrow> nat \<Rightarrow> nat \<Rightarrow> nat \<Rightarrow> nghttp2_mem \<Rightarrow> (nghttp2_bufs option \<times> nghttp2_mem \<times> int)" where
  "nghttp2_bufs_init3 len max_ch keep off m =
     (if keep = 0 \<or> max_ch < keep \<or> len < off then (None, m, NGHTTP2_ERR_INVALID_ARGUMENT)
      else
        (case buf_chain_new len m of
           (None, m1, rv) \<Rightarrow> (None, m1, rv)
         | (Some b, m1, _) \<Rightarrow>
             (Some \<lparr>chunks = [nghttp2_buf_shift_right off b], bufs_cur = 0, bufs_mem = m1,
                    chunk_length = len, max_chunk = max_ch, chunk_used = 1, chunk_keep = keep,
                    bufs_offset = off\<rparr>, m1, 0)))"

definition nghttp2_bufs_init2 ::
  "nat \<Rightarrow> nat \<Rightarrow> nat \<Rightarrow> nghttp2_mem \<Rightarrow> (nghttp2_bufs option \<times> nghttp2_mem \<times> int)" where
  "nghttp2_bufs_init2 len max_ch off m = nghttp2_bufs_init3 len max_ch max_ch off m"

definition nghttp2_bufs_init ::
  "nat \<Rightarrow> nat \<Rightarrow> nghttp2_mem \<Rightarrow> (nghttp2_bufs option \<times> nghttp2_mem \<times> int)" where
  "nghttp2_bufs_init len max_ch m = nghttp2_bufs_init2 len max_ch 0 m"

definition nghttp2_bufs_free :: "nghttp2_bufs \<Rightarrow> nghttp2_bufs" where
  "nghttp2_bufs_free bs = bs\<lparr>bufs_mem := fold buf_chain_del (chunks bs) (bufs_mem bs), chunks := []\<rparr>"

definition nghttp2_bufs_realloc :: "nghttp2_bufs \<Rightarrow> nat \<Rightarrow> nghttp2_bufs \<times> int" where
  "nghttp2_bufs_realloc bs len =
     (if len < bufs_offset bs then (bs, NGHTTP2_ERR_INVALID_ARGUMENT)
      else
        (case buf_chain_new len (bufs_mem bs) of
           (None, m, rv) \<Rightarrow> (bs\<lparr>bufs_mem := m\<rparr>, rv)
         | (Some b, m, _) \<Rightarrow>
             ((nghttp2_bufs_free (bs\<lparr>bufs_mem := m\<rparr>))
                \<lparr>chunks := [nghttp2_buf_shift_right (bufs_offset bs) b], bufs_cur := 0,
                 chunk_length := len, chunk_used := 1\<rparr>, 0)))"

definition nghttp2_bufs_wrap_init :: "bytes \<Rightarrow> nghttp2_mem \<Rightarrow> nghttp2_bufs option \<times> nghttp2_mem \<times> int" where
  "nghttp2_bufs_wrap_init bs m =
     (case nghttp2_mem_malloc m of
        (False, m1) \<Rightarrow> (None, m1, NGHTTP2_ERR_NOMEM)
      | (True, m1) \<Rightarrow>
          (Some \<lparr>chunks = [nghttp2_buf_wrap_init bs], bufs_cur = 0, bufs_mem = m1,
                 chunk_length = length bs, max_chunk = 1, chunk_used = 1, chunk_keep = 1,
                 bufs_offset = 0\<rparr>, m1, 0))"

definition nghttp2_bufs_wrap_init2 :: "bytes list \<Rightarrow> nghttp2_mem \<Rightarrow> nghttp2_bufs option \<times> nghttp2_mem \<times> int" where
  "nghttp2_bufs_wrap_init2 vec m =
     (if vec = [] then nghttp2_bufs_wrap_init [] m
      else
        (case nghttp2_mem_malloc m of
           (False, m1) \<Rightarrow> (None, m1, NGHTTP2_ERR_NOMEM)
         | (True, m1) \<Rightarrow>
             (Some \<lparr>chunks = map nghttp2_buf_wrap_init vec, bufs_cur = 0, bufs_mem = m1,
                    chunk_length = 0, max_chunk = length vec, chunk_used = length vec,
                    chunk_keep = length vec, bufs_offset = 0\<rparr>, m1, 0)))"

definition nghttp2_bufs_wrap_free :: "nghttp2_bufs \<Rightarrow> nghttp2_bufs" where
  "nghttp2_bufs_wrap_free bs =
     (if chunks bs = [] then bs else bs\<lparr>bufs_mem := nghttp2_mem_free (bufs_mem bs)\<rparr>)"

text \<open>\<open>seek_last i bs\<close> walks the buffers from index \<open>i\<close> on, remembering the last with data.\<close>

fun seek_last :: "nat \<Rightarrow> nat \<Rightarrow> nghttp2_buf list \<Rightarrow> nat" where
  "seek_last c i [] = c"
| "seek_last c i (b # bs) = (if nghttp2_buf_len b = 0 then c else seek_last i (Suc i) bs)"

definition nghttp2_bufs_seek_last_present :: "nghttp2_bufs \<Rightarrow> nghttp2_bufs" where
  "nghttp2_bufs_seek_last_present bs =
     bs\<lparr>bufs_cur := seek_last (bufs_cur bs) (bufs_cur bs) (drop (bufs_cur bs) (chunks bs))\<rparr>"

definition nghttp2_bufs_len :: "nghttp2_bufs \<Rightarrow> nat" where
  "nghttp2_bufs_len bs = foldl (\<lambda>len b. len + nghttp2_buf_len b) 0 (chunks bs)"

definition bufs_alloc_chain :: "nghttp2_bufs \<Rightarrow> nghttp2_bufs \<times> int" where
  "bufs_alloc_chain bs =
     (if Suc (bufs_cur bs) < length (chunks bs) then (bs\<lparr>bufs_cur := Suc (bufs_cur bs)\<rparr>, 0)
      else if max_chunk bs = chunk_used bs then (bs, NGHTTP2_ERR_BUFFER_ERROR)
      else
        (case buf_chain_new (chunk_length bs) (bufs_mem bs) of
           (None, m, rv) \<Rightarrow> (bs\<lparr>bufs_mem := m\<rparr>, rv)
         | (Some b, m, _) \<Rightarrow>
             (bs\<lparr>bufs_mem := m, chunk_used := chunk_used bs + 1,
                 chunks := chunks bs @ [nghttp2_buf_shift_right (bufs_offset bs) b],
                 bufs_cur := Suc (bufs_cur bs)\<rparr>, 0)))"

definition cur_buf :: "nghttp2_bufs \<Rightarrow> nghttp2_buf option" where
  "cur_buf bs = rd (chunks bs) (bufs_cur bs)"

definition put_cur :: "bytes \<Rightarrow> nghttp2_bufs \<Rightarrow> nghttp2_bufs option" where
  "put_cur d bs = do {
     b \<leftarrow> cur_buf bs;
     b1 \<leftarrow> buf_put d b;
     cs \<leftarrow> wr (chunks bs) (bufs_cur bs) b1;
     Some (bs\<lparr>chunks := cs\<rparr>)
   }"

definition nghttp2_bufs_cur_avail :: "nghttp2_bufs \<Rightarrow> nat option" where
  "nghttp2_bufs_cur_avail bs = map_option nghttp2_buf_avail (cur_buf bs)"

partial_function (option) nghttp2_bufs_add :: "nghttp2_bufs \<Rightarrow> bytes \<Rightarrow> (nghttp2_bufs \<times> int) option" where
  "nghttp2_bufs_add bs p =
     (if p = [] then Some (bs, 0)
      else do {
        av \<leftarrow> nghttp2_bufs_cur_avail bs;
        let nwrite = min av (length p);
        if nwrite = 0
        then (case bufs_alloc_chain bs of
                (bs1, rv) \<Rightarrow> if rv \<noteq> 0 then Some (bs1, rv) else nghttp2_bufs_add bs1 p)
        else do {
          bs1 \<leftarrow> put_cur (take nwrite p) bs;
          nghttp2_bufs_add bs1 (drop nwrite p)
        }
      })"

declare nghttp2_bufs_add.simps [code]

definition bufs_ensure_addb :: "nghttp2_bufs \<Rightarrow> (nghttp2_bufs \<times> int) option" where
  "bufs_ensure_addb bs = do {
     av \<leftarrow> nghttp2_bufs_cur_avail bs;
     if 0 < av then Some (bs, 0) else Some (bufs_alloc_chain bs)
   }"

definition nghttp2_bufs_addb :: "nghttp2_bufs \<Rightarrow> u8 \<Rightarrow> (nghttp2_bufs \<times> int) option" where
  "nghttp2_bufs_addb bs b = do {
     (bs1, rv) \<leftarrow> bufs_ensure_addb bs;
     if rv \<noteq> 0 then Some (bs1, rv)
     else do { bs2 \<leftarrow> put_cur [b] bs1; Some (bs2, 0) }
   }"

text \<open>The variants that hold leave \<^verbatim>\<open>last\<close> where it is; those that or combine with the byte there.\<close>

definition upd_last :: "bool \<Rightarrow> (u8 \<Rightarrow> u8) \<Rightarrow> nghttp2_bufs \<Rightarrow> nghttp2_bufs option" where
  "upd_last hold f bs = do {
     b \<leftarrow> cur_buf bs;
     x \<leftarrow> rd (bytes_of b) (buf_last b);
     d \<leftarrow> wr (bytes_of b) (buf_last b) (f x);
     cs \<leftarrow> wr (chunks bs) (bufs_cur bs)
             (b\<lparr>bytes_of := d, buf_last := (if hold then buf_last b else buf_last b + 1)\<rparr>);
     Some (bs\<lparr>chunks := cs\<rparr>)
   }"

definition nghttp2_bufs_addb_hold :: "nghttp2_bufs \<Rightarrow> u8 \<Rightarrow> (nghttp2_bufs \<times> int) option" where
  "nghttp2_bufs_addb_hold bs b = do {
     (bs1, rv) \<leftarrow> bufs_ensure_addb bs;
     if rv \<noteq> 0 then Some (bs1, rv)
     else do { bs2 \<leftarrow> upd_last True (\<lambda>_. b) bs1; Some (bs2, 0) }
   }"

definition nghttp2_bufs_orb :: "nghttp2_bufs \<Rightarrow> u8 \<Rightarrow> (nghttp2_bufs \<times> int) option" where
  "nghttp2_bufs_orb bs b = do {
     (bs1, rv) \<leftarrow> bufs_ensure_addb bs;
     if rv \<noteq> 0 then Some (bs1, rv)
     else do { bs2 \<leftarrow> upd_last False (\<lambda>x. or x b) bs1; Some (bs2, 0) }
   }"

definition nghttp2_bufs_orb_hold :: "nghttp2_bufs \<Rightarrow> u8 \<Rightarrow> (nghttp2_bufs \<times> int) option" where
  "nghttp2_bufs_orb_hold bs b = do {
     (bs1, rv) \<leftarrow> bufs_ensure_addb bs;
     if rv \<noteq> 0 then Some (bs1, rv)
     else do { bs2 \<leftarrow> upd_last True (\<lambda>x. or x b) bs1; Some (bs2, 0) }
   }"

definition total_len :: "nghttp2_buf list \<Rightarrow> nat" where
  "total_len bs = foldl (\<lambda>len b. len + nghttp2_buf_len b) 0 bs"

text \<open>The copy of all buffers one after the other into a buffer of their total length.\<close>

fun copy_all :: "nghttp2_buf list \<Rightarrow> nghttp2_buf \<Rightarrow> nghttp2_buf option" where
  "copy_all [] res = Some res"
| "copy_all (b # bs) res = do {
     d \<leftarrow> rd_block (bytes_of b) (buf_pos b) (nghttp2_buf_len b);
     res1 \<leftarrow> buf_put d res;
     copy_all bs res1
   }"

text \<open>\<^verbatim>\<open>nghttp2_bufs_remove\<close>: the copy, if there is one, the buffers and the length or error.\<close>

definition nghttp2_bufs_remove :: "nghttp2_bufs \<Rightarrow> (bytes option \<times> nghttp2_bufs \<times> int) option" where
  "nghttp2_bufs_remove bs =
     (let len = total_len (chunks bs) in
      if len = 0 then Some (None, bs, 0)
      else
        (case nghttp2_mem_malloc (bufs_mem bs) of
           (False, m) \<Rightarrow> Some (None, bs\<lparr>bufs_mem := m\<rparr>, NGHTTP2_ERR_NOMEM)
         | (True, m) \<Rightarrow> do {
             res \<leftarrow> copy_all (chunks bs) (nghttp2_buf_wrap_init (map (mem_fill m) [0..<len]));
             Some (Some (bytes_of res), bs\<lparr>bufs_mem := m\<rparr>, int len)
           }))"

definition nghttp2_bufs_remove_copy :: "nghttp2_bufs \<Rightarrow> bytes \<Rightarrow> (bytes \<times> nat) option" where
  "nghttp2_bufs_remove_copy bs out = do {
     res \<leftarrow> copy_all (chunks bs) (nghttp2_buf_wrap_init out);
     Some (bytes_of res, nghttp2_bufs_len bs)
   }"

text \<open>The first \<^verbatim>\<open>chunk_keep\<close> buffers are kept and cleaned, the others released.
  With \<open>k = 0\<close> the counter of the C loop wraps and every buffer is kept.\<close>

definition nghttp2_bufs_reset :: "nghttp2_bufs \<Rightarrow> nghttp2_bufs" where
  "nghttp2_bufs_reset bs =
     (let k = chunk_keep bs; cs = chunks bs;
          clean = (\<lambda>b. nghttp2_buf_shift_right (bufs_offset bs) (nghttp2_buf_reset b)) in
      if 0 < k \<and> k \<le> length cs
      then bs\<lparr>chunks := map clean (take k cs),
              bufs_mem := fold buf_chain_del (drop k cs) (bufs_mem bs),
              chunk_used := k, bufs_cur := 0\<rparr>
      else bs\<lparr>chunks := map clean cs, bufs_cur := 0\<rparr>)"

definition nghttp2_bufs_advance :: "nghttp2_bufs \<Rightarrow> nghttp2_bufs \<times> int" where
  "nghttp2_bufs_advance bs = bufs_alloc_chain bs"

definition nghttp2_bufs_rewind :: "nghttp2_bufs \<Rightarrow> nghttp2_bufs" where
  "nghttp2_bufs_rewind bs = bs\<lparr>bufs_cur := 0\<rparr>"

definition nghttp2_bufs_next_present :: "nghttp2_bufs \<Rightarrow> bool" where
  "nghttp2_bufs_next_present bs =
     (case rd (chunks bs) (Suc (bufs_cur bs)) of None \<Rightarrow> False | Some b \<Rightarrow> nghttp2_buf_len b \<noteq> 0)"

section \<open>What the buffers hold\<close>

definition buf_ok :: "nghttp2_buf \<Rightarrow> bool" where
  "buf_ok b \<longleftrightarrow> buf_pos b \<le> buf_last b \<and> buf_last b \<le> nghttp2_buf_cap b"

definition content :: "nghttp2_bufs \<Rightarrow> bytes" where
  "content bs = concat (map present (chunks bs))"

text \<open>Bytes are only written at \<^verbatim>\<open>cur\<close>: the buffers behind it are empty.\<close>

definition bufs_ok :: "nghttp2_bufs \<Rightarrow> bool" where
  "bufs_ok bs \<longleftrightarrow> bufs_cur bs < length (chunks bs) \<and> list_all buf_ok (chunks bs) \<and>
     list_all (\<lambda>b. nghttp2_buf_len b = 0) (drop (Suc (bufs_cur bs)) (chunks bs)) \<and>
     chunk_used bs = length (chunks bs) \<and> length (chunks bs) \<le> max_chunk bs \<and>
     bufs_offset bs \<le> chunk_length bs"

text \<open>The number of bytes that can still be added.\<close>

definition room :: "nghttp2_bufs \<Rightarrow> nat" where
  "room bs = sum_list (map nghttp2_buf_avail (drop (bufs_cur bs) (chunks bs))) +
     (max_chunk bs - chunk_used bs) * (chunk_length bs - bufs_offset bs)"

text \<open>The blocks a chain owns, and the blocks that are live besides.\<close>

definition owned :: "nghttp2_buf list \<Rightarrow> int" where
  "owned cs = sum_list (map (\<lambda>b. if nghttp2_buf_cap b = 0 then 1 else 2) cs)"

definition others_live :: "nghttp2_bufs \<Rightarrow> int" where
  "others_live bs = mem_live (bufs_mem bs) - owned (chunks bs)"

text \<open>No empty buffer comes after \<^verbatim>\<open>cur\<close>; what writes a single byte relies on it.\<close>

definition roomy :: "nghttp2_bufs \<Rightarrow> bool" where
  "roomy bs \<longleftrightarrow> list_all (\<lambda>b. 0 < nghttp2_buf_avail b) (drop (Suc (bufs_cur bs)) (chunks bs)) \<and>
     (chunk_used bs < max_chunk bs \<longrightarrow> bufs_offset bs < chunk_length bs)"

text \<open>The buffers of a chain the library allocates have one size.\<close>

definition sized :: "nghttp2_bufs \<Rightarrow> bool" where
  "sized bs \<longleftrightarrow> list_all (\<lambda>b. nghttp2_buf_cap b = chunk_length bs) (chunks bs)"

text \<open>What no operation on a chain changes.\<close>

definition same_chain :: "nghttp2_bufs \<Rightarrow> nghttp2_bufs \<Rightarrow> bool" where
  "same_chain bs bs' \<longleftrightarrow> max_chunk bs' = max_chunk bs \<and> chunk_length bs' = chunk_length bs \<and>
     bufs_offset bs' = bufs_offset bs \<and> chunk_keep bs' = chunk_keep bs \<and>
     others_live bs' = others_live bs \<and> (roomy bs \<longrightarrow> roomy bs') \<and>
     (sized bs \<longrightarrow> sized bs') \<and>
     (\<exists>used. mem_answers (bufs_mem bs) = used @ mem_answers (bufs_mem bs'))"

text \<open>The data of a buffer stay where they begin; a new buffer has its data behind the offset.\<close>

definition same_places :: "nghttp2_bufs \<Rightarrow> nghttp2_bufs \<Rightarrow> bool" where
  "same_places bs bs' \<longleftrightarrow> (\<exists>n. map buf_pos (chunks bs') = map buf_pos (chunks bs) @ replicate n (bufs_offset bs))"

lemma same_places_refl [simp]: "same_places bs bs"
  by (auto simp: same_places_def intro: exI [of _ 0])

lemma same_places_trans: "same_places a b \<Longrightarrow> same_places b c \<Longrightarrow> bufs_offset b = bufs_offset a \<Longrightarrow> same_places a c"
  unfolding same_places_def by (metis append_assoc replicate_add)

lemma same_chain_refl [simp]: "same_chain bs bs"
  by (simp add: same_chain_def)

lemma same_chain_trans: "same_chain a b \<Longrightarrow> same_chain b c \<Longrightarrow> same_chain a c"
  by (auto simp: same_chain_def)

lemma owned_simps [simp]:
  "owned [] = 0" "owned (b # cs) = (if nghttp2_buf_cap b = 0 then 1 else 2) + owned cs"
  "owned (cs @ ds) = owned cs + owned ds"
  by (simp_all add: owned_def)

lemma owned_update:
  "i < length cs \<Longrightarrow> nghttp2_buf_cap b = nghttp2_buf_cap (cs ! i) \<Longrightarrow> owned (cs[i := b]) = owned cs"
  unfolding owned_def map_update by (metis (no_types, lifting) list_update_id map_update nth_map)

lemma del_all_live: "mem_live (fold buf_chain_del cs m) = mem_live m - owned cs"
  by (induction cs arbitrary: m) (simp_all add: buf_chain_del_def nghttp2_buf_free_def nghttp2_mem_free_def)

lemma del_all_answers [simp]: "mem_answers (fold buf_chain_del cs m) = mem_answers m"
  by (induction cs arbitrary: m) (simp_all add: buf_chain_del_def nghttp2_buf_free_def nghttp2_mem_free_def)

lemma malloc_cases:
  "nghttp2_mem_malloc m = (ok, m') \<Longrightarrow>
   \<exists>used. mem_answers m = used @ mem_answers m' \<and> (ok \<or> False \<in> set used) \<and>
     mem_live m' = mem_live m + (if ok then 1 else 0)"
  by (auto simp: nghttp2_mem_malloc_def mem_alloc_def split: list.splits intro: exI [of _ "[ok]"])

lemma buf_init2_cases:
  assumes "nghttp2_buf_init2 len m = (b, m', rv)"
  shows "\<exists>used. mem_answers m = used @ mem_answers m' \<and>
    (if rv = 0
     then length (bytes_of b) = len \<and> buf_pos b = 0 \<and> buf_last b = 0 \<and> buf_mark b = 0 \<and>
       mem_live m' = mem_live m + (if len = 0 then 0 else 1)
     else rv = NGHTTP2_ERR_NOMEM \<and> False \<in> set used \<and> mem_live m' = mem_live m)"
proof (cases "len = 0")
  case True
  then show ?thesis
    using assms by (auto simp: nghttp2_buf_init2_def nghttp2_buf_reserve_def nghttp2_buf_init_def nghttp2_buf_cap_def)
next
  case False
  obtain ok m1 where m1: "nghttp2_mem_malloc m = (ok, m1)" by fastforce
  show ?thesis
    using assms False malloc_cases [OF m1]
    by (cases ok) (auto simp: nghttp2_buf_init2_def nghttp2_buf_reserve_def nghttp2_buf_init_def nghttp2_buf_cap_def
        m1 Let_def)
qed

lemma buf_chain_new_cases:
  assumes "buf_chain_new len m = (b, m', rv)"
  shows "\<exists>used. mem_answers m = used @ mem_answers m' \<and>
    (if rv = 0
     then \<exists>d. b = Some d \<and> length (bytes_of d) = len \<and> buf_pos d = 0 \<and> buf_last d = 0 \<and> buf_mark d = 0 \<and>
            mem_live m' = mem_live m + (if len = 0 then 1 else 2)
     else b = None \<and> rv = NGHTTP2_ERR_NOMEM \<and> False \<in> set used \<and> mem_live m' = mem_live m)"
proof -
  obtain ok m1 where m1: "nghttp2_mem_malloc m = (ok, m1)" by fastforce
  then obtain u1 where u1: "mem_answers m = u1 @ mem_answers m1" "ok \<or> False \<in> set u1"
    "mem_live m1 = mem_live m + (if ok then 1 else 0)" using malloc_cases by blast
  show ?thesis
  proof (cases ok)
    case False
    then show ?thesis using assms m1 u1 by (auto simp: buf_chain_new_def)
  next
    case True
    obtain d m2 r where d: "nghttp2_buf_init2 len m1 = (d, m2, r)" by (cases "nghttp2_buf_init2 len m1")
    obtain u2 where u2: "mem_answers m1 = u2 @ mem_answers m2"
      "if r = 0
       then length (bytes_of d) = len \<and> buf_pos d = 0 \<and> buf_last d = 0 \<and> buf_mark d = 0 \<and>
         mem_live m2 = mem_live m1 + (if len = 0 then 0 else 1)
       else r = NGHTTP2_ERR_NOMEM \<and> False \<in> set u2 \<and> mem_live m2 = mem_live m1"
      using buf_init2_cases [OF d] by blast
    have "mem_answers m = (u1 @ u2) @ mem_answers m2" using u1 u2 by simp
    then show ?thesis
      using assms m1 u1(3) u2(2) d True
      by (cases "r = 0") (auto simp: buf_chain_new_def nghttp2_mem_free_def intro!: exI [of _ "u1 @ u2"])
  qed
qed

lemma sum_avail_last:
  "i < length cs \<Longrightarrow> drop i cs = cs ! i # drop (Suc i) cs"
  by (simp add: Cons_nth_drop_Suc)

lemma cur_buf_ok: "bufs_ok bs \<Longrightarrow> cur_buf bs = Some (chunks bs ! bufs_cur bs) \<and> buf_ok (chunks bs ! bufs_cur bs)"
  by (simp add: bufs_ok_def cur_buf_def list_all_length)

lemma cur_avail_ok:
  "bufs_ok bs \<Longrightarrow> nghttp2_bufs_cur_avail bs = Some (nghttp2_buf_avail (chunks bs ! bufs_cur bs))"
  by (simp add: nghttp2_bufs_cur_avail_def cur_buf_ok)

lemma present_empty: "buf_ok b \<Longrightarrow> nghttp2_buf_len b = 0 \<Longrightarrow> present b = []"
  by (simp add: present_def buf_ok_def nghttp2_buf_len_def)

lemma content_split:
  assumes "bufs_ok bs"
  shows "content bs = concat (map present (take (bufs_cur bs) (chunks bs))) @ present (chunks bs ! bufs_cur bs)"
proof -
  let ?c = "bufs_cur bs" and ?cs = "chunks bs"
  have cs: "?cs = take ?c ?cs @ ?cs ! ?c # drop (Suc ?c) ?cs"
    using assms by (simp add: bufs_ok_def id_take_nth_drop)
  have "concat (map present (drop (Suc ?c) ?cs)) = []"
    using assms unfolding bufs_ok_def list_all_iff by (auto intro!: present_empty dest: in_set_dropD)
  then show ?thesis unfolding content_def by (subst cs) (simp only: map_append concat_append list.simps concat.simps append_Nil2)
qed

lemma present_put:
  assumes "buf_ok b" "length d \<le> nghttp2_buf_avail b"
  shows "\<exists>b'. buf_put d b = Some b' \<and> buf_ok b' \<and> present b' = present b @ d \<and>
    nghttp2_buf_avail b' = nghttp2_buf_avail b - length d \<and> nghttp2_buf_cap b' = nghttp2_buf_cap b"
proof -
  have len: "buf_last b + length d \<le> length (bytes_of b)" "buf_pos b \<le> buf_last b"
    using assms by (auto simp: buf_ok_def nghttp2_buf_avail_def nghttp2_buf_cap_def)
  then show ?thesis
    by (simp add: buf_put_def present_def buf_ok_def nghttp2_buf_avail_def nghttp2_buf_cap_def)
qed

lemma put_cur_ok:
  assumes ok: "bufs_ok bs" and len: "length d \<le> nghttp2_buf_avail (chunks bs ! bufs_cur bs)"
  shows "\<exists>bs'. put_cur d bs = Some bs' \<and> bufs_ok bs' \<and> same_chain bs bs' \<and> same_places bs bs' \<and> content bs' = content bs @ d \<and>
    room bs' = room bs - length d \<and> length d \<le> room bs \<and> bufs_cur bs' = bufs_cur bs \<and> length (chunks bs') = length (chunks bs) \<and>
    nghttp2_bufs_cur_avail bs' = Some (nghttp2_buf_avail (chunks bs ! bufs_cur bs) - length d)"
proof -
  let ?c = "bufs_cur bs" and ?cs = "chunks bs"
  obtain b' where b': "buf_put d (?cs ! ?c) = Some b'" "buf_ok b'" "present b' = present (?cs ! ?c) @ d"
    "nghttp2_buf_avail b' = nghttp2_buf_avail (?cs ! ?c) - length d" "nghttp2_buf_cap b' = nghttp2_buf_cap (?cs ! ?c)"
    using present_put [OF conjunct2 [OF cur_buf_ok [OF ok]] len] by blast
  have c: "?c < length ?cs" using ok by (simp add: bufs_ok_def)
  let ?bs' = "bs\<lparr>chunks := ?cs[?c := b']\<rparr>"
  have put: "put_cur d bs = Some ?bs'"
    using c b' ok by (simp add: put_cur_def cur_buf_ok)
  have ok': "bufs_ok ?bs'"
    using ok b'(2) by (auto simp: bufs_ok_def list_all_iff dest!: set_update_subset_insert [THEN subsetD])
  have "sized bs \<longrightarrow> sized ?bs'"
    using c b'(5) by (auto simp: sized_def list_all_iff dest!: set_update_subset_insert [THEN subsetD])
  then have "same_chain bs ?bs'" using c b'(5) by (simp add: same_chain_def others_live_def owned_update roomy_def)
  moreover have "same_places bs ?bs'"
  proof -
    have "map buf_pos (?cs[?c := b']) = map buf_pos ?cs"
      using c b'(1) unfolding map_update by (auto simp: buf_put_def list_eq_iff_nth_eq nth_list_update)
    then show ?thesis by (auto simp: same_places_def intro: exI [of _ 0])
  qed
  moreover have "content ?bs' = content bs @ d"
    using content_split [OF ok] content_split [OF ok'] b'(3) c by simp
  moreover have "room ?bs' = room bs - length d \<and> length d \<le> room bs"
    using c b'(4) len unfolding room_def by (simp add: sum_avail_last)
  moreover have "nghttp2_bufs_cur_avail ?bs' = Some (nghttp2_buf_avail (?cs ! ?c) - length d)"
    using c b'(4) by (simp add: cur_avail_ok [OF ok'])
  ultimately show ?thesis using put ok' c by simp
qed

definition chain_left :: "nghttp2_bufs \<Rightarrow> nat" where
  "chain_left bs = max_chunk bs - bufs_cur bs"

text \<open>\<open>added bs p bs' rv\<close>: what adding the bytes \<open>p\<close> may lead to.\<close>

definition added :: "nghttp2_bufs \<Rightarrow> bytes \<Rightarrow> nghttp2_bufs \<Rightarrow> int \<Rightarrow> bool" where
  "added bs p bs' rv \<longleftrightarrow> bufs_ok bs' \<and> same_chain bs bs' \<and> same_places bs bs' \<and>
     (\<exists>n. content bs' = content bs @ take n p \<and> n \<le> room bs \<and> room bs' = room bs - n \<and>
        (rv = 0 \<and> n = length p \<or>
         rv = NGHTTP2_ERR_BUFFER_ERROR \<and> n = room bs \<and> n < length p \<or>
         rv = NGHTTP2_ERR_NOMEM \<and> n < length p \<and> \<not> list_all id (mem_answers (bufs_mem bs))))"

lemma added_ok: "added bs p bs' rv \<Longrightarrow> bufs_ok bs'"
  by (simp add: added_def)

lemma added_same: "added bs p bs' rv \<Longrightarrow> same_chain bs bs'"
  by (simp add: added_def)

lemma added_roomy: "added bs p bs' rv \<Longrightarrow> roomy bs \<Longrightarrow> roomy bs'"
  by (simp add: added_def same_chain_def)

lemma added_content: "added bs p bs' 0 \<Longrightarrow> content bs' = content bs @ p"
  by (auto simp: added_def)

lemma added_nothing [simp]: "bufs_ok bs \<Longrightarrow> added bs [] bs 0"
  by (simp add: added_def)

lemma added_seq:
  assumes "added bs p bs1 0" "added bs1 q bs2 rv"
  shows "added bs (p @ q) bs2 rv"
proof -
  have p: "same_chain bs bs1" "same_places bs bs1" "content bs1 = content bs @ p" "length p \<le> room bs" "room bs1 = room bs - length p"
    using assms(1) by (auto simp: added_def)
  obtain n where q: "bufs_ok bs2" "same_chain bs1 bs2" "same_places bs1 bs2" "content bs2 = content bs1 @ take n q" "n \<le> room bs1"
    "room bs2 = room bs1 - n"
    "rv = 0 \<and> n = length q \<or> rv = NGHTTP2_ERR_BUFFER_ERROR \<and> n = room bs1 \<and> n < length q \<or>
     rv = NGHTTP2_ERR_NOMEM \<and> n < length q \<and> \<not> list_all id (mem_answers (bufs_mem bs1))"
    using assms(2) by (auto simp: added_def)
  have "\<not> list_all id (mem_answers (bufs_mem bs1)) \<Longrightarrow> \<not> list_all id (mem_answers (bufs_mem bs))"
    using p(1) by (auto simp: same_chain_def)
  moreover have "same_places bs bs2" using same_places_trans [OF p(2) q(3)] p(1) by (simp add: same_chain_def)
  ultimately show ?thesis
    using p q same_chain_trans [OF p(1) q(2)] unfolding added_def
    by (intro conjI exI [of _ "length p + n"]) auto
qed

lemma added_stop:
  assumes "added bs p bs1 rv" "rv \<noteq> 0"
  shows "added bs (p @ q) bs1 rv"
proof -
  obtain n where "bufs_ok bs1" "same_chain bs bs1" "same_places bs bs1" "content bs1 = content bs @ take n p" "n \<le> room bs"
    "room bs1 = room bs - n" "n < length p"
    "rv = NGHTTP2_ERR_BUFFER_ERROR \<and> n = room bs \<or>
     rv = NGHTTP2_ERR_NOMEM \<and> \<not> list_all id (mem_answers (bufs_mem bs))"
    using assms unfolding added_def by blast
  then show ?thesis unfolding added_def by (intro conjI exI [of _ n]) auto
qed

lemma alloc_chain_ok:
  assumes ok: "bufs_ok bs" and full: "nghttp2_buf_avail (chunks bs ! bufs_cur bs) = 0"
    and alloc: "bufs_alloc_chain bs = (bs', rv)"
  shows "bufs_ok bs' \<and> same_chain bs bs' \<and> same_places bs bs' \<and> content bs' = content bs \<and> room bs' = room bs \<and>
    (if rv = 0 then chain_left bs' < chain_left bs
     else if rv = NGHTTP2_ERR_BUFFER_ERROR then room bs = 0
     else rv = NGHTTP2_ERR_NOMEM \<and> \<not> list_all id (mem_answers (bufs_mem bs)))"
proof -
  let ?c = "bufs_cur bs" and ?cs = "chunks bs"
  have c: "?c < length ?cs" "length ?cs \<le> max_chunk bs" using ok by (simp_all add: bufs_ok_def)
  consider (reuse) "Suc ?c < length ?cs" | (last) "Suc ?c = length ?cs" using c by linarith
  then show ?thesis
  proof cases
    case reuse
    then have bs': "bs' = bs\<lparr>bufs_cur := Suc ?c\<rparr>" "rv = 0" using alloc by (simp_all add: bufs_alloc_chain_def)
    have "list_all (\<lambda>b. nghttp2_buf_len b = 0) (drop (Suc (Suc ?c)) ?cs)"
      using ok set_drop_subset_set_drop [of "Suc ?c" "Suc (Suc ?c)" ?cs] by (auto simp: bufs_ok_def list_all_iff)
    then have ok': "bufs_ok bs'" using ok reuse bs' by (simp add: bufs_ok_def)
    have "present (?cs ! Suc ?c) = []"
      using ok reuse by (intro present_empty) (auto simp: bufs_ok_def list_all_length dest: spec [of _ 0])
    then have "content bs' = content bs"
      using content_split [OF ok] content_split [OF ok'] bs' reuse by (simp add: take_Suc_conv_app_nth c(1))
    moreover have "room bs' = room bs" using full bs' c by (simp add: room_def sum_avail_last)
    ultimately show ?thesis
      using ok' bs' reuse c set_drop_subset_set_drop [of "Suc ?c" "Suc (Suc ?c)" ?cs]
      by (auto simp: same_chain_def same_places_def others_live_def chain_left_def roomy_def sized_def list_all_iff intro: exI [of _ 0])
  next
    case last
    then have nolast: "\<not> Suc ?c < length ?cs" by simp
    show ?thesis
    proof (cases "max_chunk bs = chunk_used bs")
      case True
      then have "bs' = bs" "rv = NGHTTP2_ERR_BUFFER_ERROR" using alloc nolast by (simp_all add: bufs_alloc_chain_def)
      then show ?thesis using ok full True c last by (simp add: room_def sum_avail_last)
    next
      case False
      obtain b m r where new: "buf_chain_new (chunk_length bs) (bufs_mem bs) = (b, m, r)" by (cases "buf_chain_new (chunk_length bs) (bufs_mem bs)")
      obtain used where used: "mem_answers (bufs_mem bs) = used @ mem_answers m"
        and rv: "if r = 0
          then \<exists>d. b = Some d \<and> length (bytes_of d) = chunk_length bs \<and> buf_pos d = 0 \<and> buf_last d = 0 \<and> buf_mark d = 0 \<and>
            mem_live m = mem_live (bufs_mem bs) + (if chunk_length bs = 0 then 1 else 2)
          else b = None \<and> r = NGHTTP2_ERR_NOMEM \<and> False \<in> set used \<and> mem_live m = mem_live (bufs_mem bs)"
        using buf_chain_new_cases [OF new] by blast
      show ?thesis
      proof (cases "r = 0")
        case True
        then obtain d where d: "b = Some d" "length (bytes_of d) = chunk_length bs" "buf_pos d = 0" "buf_last d = 0"
          "mem_live m = mem_live (bufs_mem bs) + (if chunk_length bs = 0 then 1 else 2)" using rv by auto
        let ?d = "nghttp2_buf_shift_right (bufs_offset bs) d"
        have bs': "bs' = bs\<lparr>bufs_mem := m, chunk_used := chunk_used bs + 1, chunks := ?cs @ [?d], bufs_cur := Suc ?c\<rparr>" "rv = 0"
          using alloc nolast False new d by (simp_all add: bufs_alloc_chain_def)
        have ok': "bufs_ok bs'"
          using ok bs' d(2-4) False last
          by (auto simp: bufs_ok_def buf_ok_def nghttp2_buf_shift_right_def nghttp2_buf_cap_def)
        have "present ?d = []" by (simp add: present_def nghttp2_buf_shift_right_def d)
        then have "content bs' = content bs" by (simp add: content_def bs')
        moreover have "room bs' = room bs"
        proof -
          have "max_chunk bs - chunk_used bs = Suc (max_chunk bs - (chunk_used bs + 1))"
            using False c ok by (simp add: bufs_ok_def)
          then show ?thesis
            using full c last d(2-4) by (simp add: room_def bs' sum_avail_last nghttp2_buf_avail_def nghttp2_buf_cap_def
                nghttp2_buf_shift_right_def)
        qed
        moreover have "same_chain bs bs'"
          using used d(2) d(5) last by (simp add: same_chain_def roomy_def sized_def bs' others_live_def nghttp2_buf_cap_def nghttp2_buf_shift_right_def)
        moreover have "same_places bs bs'"
          using bs' d(3) by (auto simp: same_places_def nghttp2_buf_shift_right_def intro: exI [of _ 1])
        moreover have "chain_left bs' < chain_left bs"
          using bs' last False c ok by (auto simp: chain_left_def bufs_ok_def)
        ultimately show ?thesis using ok' bs'(2) by simp
      next
        case False': False
        then have bs': "bs' = bs\<lparr>bufs_mem := m\<rparr>" "rv = r"
          using alloc nolast False new rv by (simp_all add: bufs_alloc_chain_def)
        then show ?thesis
          using ok used rv False'
          by (auto simp: bufs_ok_def content_def same_chain_def same_places_def others_live_def list_all_iff roomy_def room_def sized_def
              intro: exI [of _ 0])
      qed
    qed
  qed
qed

lemma alloc_chain_added:
  assumes "bufs_ok bs" "nghttp2_buf_avail (chunks bs ! bufs_cur bs) = 0" "bufs_alloc_chain bs = (bs', rv)"
  shows "if rv = 0 then added bs [] bs' 0 \<and> chain_left bs' < chain_left bs else p \<noteq> [] \<longrightarrow> added bs p bs' rv"
  using alloc_chain_ok [OF assms] by (auto simp: added_def split: if_splits)

lemma put_cur_added:
  assumes "bufs_ok bs" "length d \<le> nghttp2_buf_avail (chunks bs ! bufs_cur bs)"
  shows "\<exists>bs'. put_cur d bs = Some bs' \<and> added bs d bs' 0 \<and> bufs_cur bs' = bufs_cur bs \<and>
    nghttp2_bufs_cur_avail bs' = Some (nghttp2_buf_avail (chunks bs ! bufs_cur bs) - length d)"
  using put_cur_ok [OF assms] by (auto simp: added_def)

lemma bufs_add_returns:
  assumes "bufs_ok bs"
  shows "\<exists>bs' rv. nghttp2_bufs_add bs p = Some (bs', rv) \<and> added bs p bs' rv"
  using assms
proof (induction "length p + chain_left bs" arbitrary: bs p rule: less_induct)
  case less
  let ?av = "nghttp2_buf_avail (chunks bs ! bufs_cur bs)"
  have unfold: "nghttp2_bufs_add bs p = (if p = [] then Some (bs, 0)
      else if min ?av (length p) = 0
      then (case bufs_alloc_chain bs of (bs1, rv) \<Rightarrow> if rv \<noteq> 0 then Some (bs1, rv) else nghttp2_bufs_add bs1 p)
      else Option.bind (put_cur (take (min ?av (length p)) p) bs) (\<lambda>bs1. nghttp2_bufs_add bs1 (drop (min ?av (length p)) p)))"
    by (subst nghttp2_bufs_add.simps) (simp add: cur_avail_ok [OF less.prems] Let_def)
  consider (nil) "p = []" | (full) "p \<noteq> []" "?av = 0" | (copy) "p \<noteq> []" "0 < ?av" by blast
  then show ?case
  proof cases
    case nil
    then show ?thesis using less.prems unfold by simp
  next
    case full
    obtain bs1 r where alloc: "bufs_alloc_chain bs = (bs1, r)" by fastforce
    note a = alloc_chain_added [OF less.prems full(2) alloc, of p]
    show ?thesis
    proof (cases "r = 0")
      case True
      then have "length p + chain_left bs1 < length p + chain_left bs" "bufs_ok bs1" and a1: "added bs [] bs1 0"
        using a by (auto dest: added_ok)
      from less.hyps [OF this(1,2)] show ?thesis
        using full True added_seq [OF a1] by (auto simp: unfold alloc)
    next
      case False
      then show ?thesis using a full by (simp add: unfold alloc)
    qed
  next
    case copy
    let ?n = "min ?av (length p)"
    have n: "0 < ?n" "length (take ?n p) \<le> ?av" using copy by auto
    obtain bs1 where b1: "put_cur (take ?n p) bs = Some bs1" "added bs (take ?n p) bs1 0" "bufs_cur bs1 = bufs_cur bs"
      using put_cur_added [OF less.prems n(2)] by auto
    have left: "chain_left bs1 = chain_left bs" using b1(2,3) by (simp add: chain_left_def same_chain_def added_def)
    have "length (drop ?n p) + chain_left bs1 < length p + chain_left bs" using n(1) copy left by auto
    from less.hyps [OF this added_ok [OF b1(2)]] obtain bs' rv
      where r: "nghttp2_bufs_add bs1 (drop ?n p) = Some (bs', rv)" "added bs1 (drop ?n p) bs' rv" by blast
    have "nghttp2_bufs_add bs p = Some (bs', rv)" using unfold n(1) copy b1(1) r(1) by simp
    moreover have "added bs p bs' rv" using added_seq [OF b1(2) r(2)] by simp
    ultimately show ?thesis by blast
  qed
qed

lemma alloc_chain_roomy:
  "bufs_ok bs \<Longrightarrow> roomy bs \<Longrightarrow> bufs_alloc_chain bs = (bs', 0) \<Longrightarrow>
   0 < nghttp2_buf_avail (chunks bs' ! bufs_cur bs')"
proof -
  assume ok: "bufs_ok bs" and roomy: "roomy bs" and alloc: "bufs_alloc_chain bs = (bs', 0)"
  show ?thesis
  proof (cases "Suc (bufs_cur bs) < length (chunks bs)")
    case True
    then show ?thesis
      using roomy alloc by (auto simp: bufs_alloc_chain_def roomy_def list_all_length dest: spec [of _ 0])
  next
    case False
    obtain b m r where new: "buf_chain_new (chunk_length bs) (bufs_mem bs) = (b, m, r)"
      by (cases "buf_chain_new (chunk_length bs) (bufs_mem bs)")
    have used: "max_chunk bs \<noteq> chunk_used bs" using alloc False by (auto simp: bufs_alloc_chain_def)
    then obtain d where d: "b = Some d" "length (bytes_of d) = chunk_length bs" "buf_last d = 0"
      using buf_chain_new_cases [OF new] alloc False new
      by (auto simp: bufs_alloc_chain_def split: if_splits option.splits)
    have "bufs_offset bs < chunk_length bs" using roomy ok used by (auto simp: roomy_def bufs_ok_def)
    then show ?thesis
      using alloc False used new d ok
      by (auto simp: bufs_alloc_chain_def bufs_ok_def nghttp2_buf_avail_def nghttp2_buf_cap_def
          nghttp2_buf_shift_right_def nth_append)
  qed
qed

lemma bufs_addb_returns:
  assumes ok: "bufs_ok bs" and roomy: "roomy bs"
  shows "\<exists>bs' rv. nghttp2_bufs_addb bs b = Some (bs', rv) \<and> added bs [b] bs' rv"
proof (cases "0 < nghttp2_buf_avail (chunks bs ! bufs_cur bs)")
  case True
  then show ?thesis
    using put_cur_added [OF ok, of "[b]"]
    by (auto simp: nghttp2_bufs_addb_def bufs_ensure_addb_def cur_avail_ok [OF ok])
next
  case False
  obtain bs1 r where alloc: "bufs_alloc_chain bs = (bs1, r)" by fastforce
  have a: "if r = 0 then added bs [] bs1 0 \<and> chain_left bs1 < chain_left bs else added bs [b] bs1 r"
    using alloc_chain_added [OF ok _ alloc, of "[b]"] False by auto
  show ?thesis
  proof (cases "r = 0")
    case True
    then have a1: "added bs [] bs1 0" using a by simp
    obtain bs2 where p: "put_cur [b] bs1 = Some bs2" "added bs1 [b] bs2 0"
      using put_cur_added [OF added_ok [OF a1], of "[b]"] alloc_chain_roomy [OF ok roomy] alloc True by fastforce
    then show ?thesis
      using True False alloc added_seq [OF a1 p(2)]
      by (simp add: nghttp2_bufs_addb_def bufs_ensure_addb_def cur_avail_ok [OF ok])
  next
    case False': False
    then show ?thesis
      using a False alloc by (simp add: nghttp2_bufs_addb_def bufs_ensure_addb_def cur_avail_ok [OF ok])
  qed
qed

lemma copy_all_ok:
  "list_all buf_ok cs \<Longrightarrow> buf_ok r \<Longrightarrow> length (concat (map present cs)) \<le> nghttp2_buf_avail r \<Longrightarrow>
   \<exists>r'. copy_all cs r = Some r' \<and> buf_ok r' \<and> present r' = present r @ concat (map present cs) \<and>
     nghttp2_buf_avail r' = nghttp2_buf_avail r - length (concat (map present cs)) \<and>
     nghttp2_buf_cap r' = nghttp2_buf_cap r \<and> buf_pos r' = buf_pos r"
proof (induction cs arbitrary: r)
  case (Cons b cs)
  have rd: "rd_block (bytes_of b) (buf_pos b) (nghttp2_buf_len b) = Some (present b)"
    using Cons.prems(1) by (auto simp: rd_block_def present_def nghttp2_buf_len_def buf_ok_def nghttp2_buf_cap_def drop_take)
  obtain r1 where r1: "buf_put (present b) r = Some r1" "buf_ok r1" "present r1 = present r @ present b"
    "nghttp2_buf_avail r1 = nghttp2_buf_avail r - length (present b)" "nghttp2_buf_cap r1 = nghttp2_buf_cap r"
    using present_put [of r "present b"] Cons.prems by auto
  have pos: "buf_pos r1 = buf_pos r" using r1(1) by (auto simp: buf_put_def)
  have "length (concat (map present cs)) \<le> nghttp2_buf_avail r1" using Cons.prems(3) r1(4) by simp
  from Cons.IH [OF _ r1(2) this] show ?case using Cons.prems rd r1 pos by auto
qed simp

lemma total_len_content:
  "list_all buf_ok cs \<Longrightarrow> foldl (\<lambda>len b. len + nghttp2_buf_len b) n cs = n + length (concat (map present cs))"
  by (induction cs arbitrary: n)
    (auto simp: present_def nghttp2_buf_len_def buf_ok_def nghttp2_buf_cap_def)

lemma bufs_len_content: "bufs_ok bs \<Longrightarrow> nghttp2_bufs_len bs = length (content bs)"
  by (simp add: nghttp2_bufs_len_def bufs_ok_def total_len_content content_def)

lemma bufs_remove_content:
  assumes "bufs_ok bs" "content bs \<noteq> []"
  shows "\<exists>d bs' rv. nghttp2_bufs_remove bs = Some (d, bs', rv) \<and>
    (if rv = int (length (content bs)) then d = Some (content bs) else d = None \<and> rv = NGHTTP2_ERR_NOMEM)"
proof -
  obtain ok m where m: "nghttp2_mem_malloc (bufs_mem bs) = (ok, m)" by fastforce
  have len: "total_len (chunks bs) = length (content bs)"
    using assms by (simp add: total_len_def bufs_ok_def total_len_content content_def)
  let ?r = "nghttp2_buf_wrap_init (map (mem_fill m) [0..<length (content bs)])"
  have "list_all buf_ok (chunks bs)" using assms(1) by (simp add: bufs_ok_def)
  moreover have "buf_ok ?r" "nghttp2_buf_avail ?r = length (content bs)"
    by (simp_all add: buf_ok_def nghttp2_buf_avail_def nghttp2_buf_cap_def nghttp2_buf_wrap_init_def)
  ultimately obtain r where r: "copy_all (chunks bs) ?r = Some r" "buf_ok r" "present r = present ?r @ content bs"
    "nghttp2_buf_cap r = length (content bs)" "buf_pos r = 0"
    using copy_all_ok [of "chunks bs" ?r]
    by (auto simp: content_def nghttp2_buf_cap_def nghttp2_buf_wrap_init_def)
  have "present r = content bs" using r(3) by (simp add: present_def nghttp2_buf_wrap_init_def)
  moreover from this have "buf_last r = length (bytes_of r)"
    using r(2,4,5) by (auto simp: present_def buf_ok_def nghttp2_buf_cap_def dest!: arg_cong [of _ _ length])
  ultimately have "bytes_of r = content bs" using r(5) by (simp add: present_def)
  then show ?thesis
    using assms(2) len m r(1) by (cases ok) (auto simp: nghttp2_bufs_remove_def Let_def)
qed

section \<open>Collecting bytes\<close>

lemma init3_cases:
  assumes "nghttp2_bufs_init3 len mx keep off m = (r, m', rv)"
  shows "case r of
     None \<Rightarrow> mem_live m' = mem_live m \<and>
       (rv = NGHTTP2_ERR_INVALID_ARGUMENT \<and> (keep = 0 \<or> mx < keep \<or> len < off) \<or>
        rv = NGHTTP2_ERR_NOMEM \<and> \<not> list_all id (mem_answers m))
   | Some bs \<Rightarrow> rv = 0 \<and> 0 < keep \<and> keep \<le> mx \<and> bufs_ok bs \<and> sized bs \<and> (off < len \<longrightarrow> roomy bs) \<and>
       content bs = [] \<and> room bs = mx * (len - off) \<and> others_live bs = mem_live m \<and>
       max_chunk bs = mx \<and> chunk_length bs = len \<and> bufs_offset bs = off \<and> chunk_keep bs = keep \<and>
       (\<exists>used. mem_answers m = used @ mem_answers (bufs_mem bs))"
proof (cases "keep = 0 \<or> mx < keep \<or> len < off")
  case True
  then show ?thesis using assms by (auto simp: nghttp2_bufs_init3_def)
next
  case False
  obtain b m1 r1 where new: "buf_chain_new len m = (b, m1, r1)" by (cases "buf_chain_new len m")
  have "mx = Suc (mx - 1)" using False by simp
  then have mx: "(mx - Suc 0) * k + k = mx * k" for k by (metis add.commute diff_Suc_1' mult_Suc)
  show ?thesis
    using buf_chain_new_cases [OF new] assms False mx [of "len - off"]
    by (auto simp: nghttp2_bufs_init3_def new bufs_ok_def sized_def roomy_def content_def room_def others_live_def
        present_def buf_ok_def nghttp2_buf_cap_def nghttp2_buf_avail_def nghttp2_buf_shift_right_def list_all_iff
        split: if_splits option.splits)
qed

lemma reset_ok:
  assumes ok: "bufs_ok bs" "sized bs" and keep: "0 < chunk_keep bs" "chunk_keep bs \<le> max_chunk bs"
    and off: "bufs_offset bs < chunk_length bs"
  shows "bufs_ok (nghttp2_bufs_reset bs) \<and> same_chain bs (nghttp2_bufs_reset bs) \<and> sized (nghttp2_bufs_reset bs) \<and>
    roomy (nghttp2_bufs_reset bs) \<and> content (nghttp2_bufs_reset bs) = [] \<and>
    room (nghttp2_bufs_reset bs) = max_chunk bs * (chunk_length bs - bufs_offset bs)"
proof -
  let ?clean = "\<lambda>b. nghttp2_buf_shift_right (bufs_offset bs) (nghttp2_buf_reset b)"
  define j where "j = (if chunk_keep bs \<le> length (chunks bs) then chunk_keep bs else length (chunks bs))"
  let ?cs = "map ?clean (take j (chunks bs))"
  have len: "length (chunks bs) \<le> max_chunk bs" "chunk_used bs = length (chunks bs)" "chunks bs \<noteq> []"
    using ok(1) by (auto simp: bufs_ok_def)
  have reset: "nghttp2_bufs_reset bs = bs\<lparr>chunks := ?cs, bufs_mem := fold buf_chain_del (drop j (chunks bs)) (bufs_mem bs),
      chunk_used := j, bufs_cur := 0\<rparr>"
    using keep len by (auto simp: nghttp2_bufs_reset_def Let_def j_def)
  have each: "nghttp2_buf_cap (?clean b) = nghttp2_buf_cap b" "present (?clean b) = []"
    "nghttp2_buf_avail (?clean b) = nghttp2_buf_cap b - bufs_offset bs" "nghttp2_buf_len (?clean b) = 0"
    "buf_ok (?clean b) \<longleftrightarrow> bufs_offset bs \<le> nghttp2_buf_cap b" for b
    by (simp_all add: nghttp2_buf_cap_def present_def nghttp2_buf_avail_def nghttp2_buf_shift_right_def
        nghttp2_buf_reset_def nghttp2_buf_len_def buf_ok_def)
  have cap: "nghttp2_buf_cap b = chunk_length bs" if "b \<in> set (take j (chunks bs))" for b
    using that ok(2) by (auto simp: sized_def list_all_iff dest: in_set_takeD)
  have k: "0 < j" "j \<le> length (chunks bs)" using keep len by (auto simp: j_def)
  have "owned (map ?clean cs) = owned cs" for cs by (induction cs) (simp_all add: each)
  then have owned: "owned ?cs + owned (drop j (chunks bs)) = owned (chunks bs)"
    by (metis append_take_drop_id owned_simps(3))
  have avail: "sum_list (map nghttp2_buf_avail ?cs) = j * (chunk_length bs - bufs_offset bs)"
  proof -
    have "map nghttp2_buf_avail ?cs = map (\<lambda>_. chunk_length bs - bufs_offset bs) (take j (chunks bs))"
      using cap by (simp add: each)
    then show ?thesis using k(2) by (simp only: map_replicate_const sum_list_replicate length_take min_absorb2 of_nat_id)
  qed
  have ok': "bufs_ok (nghttp2_bufs_reset bs)"
    using k len off cap unfolding bufs_ok_def reset by (auto simp: list_all_iff each dest!: in_set_dropD)
  moreover have "sized (nghttp2_bufs_reset bs)"
    by (auto simp: sized_def reset list_all_iff each cap)
  moreover have roomy: "roomy (nghttp2_bufs_reset bs)"
    using off by (auto simp: roomy_def reset list_all_iff each cap dest!: in_set_dropD)
  moreover have "content (nghttp2_bufs_reset bs) = []"
    by (simp add: content_def reset comp_def each)
  moreover have "room (nghttp2_bufs_reset bs) = max_chunk bs * (chunk_length bs - bufs_offset bs)"
  proof -
    have "j \<le> max_chunk bs" using k len by simp
    then have "j * d + (max_chunk bs - j) * d = max_chunk bs * d" for d by (metis add_mult_distrib le_add_diff_inverse)
    then show ?thesis using avail by (simp add: room_def reset del: map_map)
  qed
  moreover have "same_chain bs (nghttp2_bufs_reset bs)"
    using owned roomy calculation(2) by (simp add: same_chain_def others_live_def reset del_all_live)
  ultimately show ?thesis by blast
qed

lemma free_live: "mem_live (bufs_mem (nghttp2_bufs_free bs)) = others_live bs"
  by (simp add: nghttp2_bufs_free_def others_live_def del_all_live)

text \<open>A client's calls on one chain, up to the first error, and what it has then collected.\<close>

datatype buf_op = Add bytes | Addb u8 | Reset

fun buf_do :: "buf_op \<Rightarrow> nghttp2_bufs \<Rightarrow> (nghttp2_bufs \<times> int) option" where
  "buf_do (Add p) bs = nghttp2_bufs_add bs p"
| "buf_do (Addb b) bs = nghttp2_bufs_addb bs b"
| "buf_do Reset bs = Some (nghttp2_bufs_reset bs, 0)"

fun collect :: "buf_op list \<Rightarrow> nghttp2_bufs \<Rightarrow> (nghttp2_bufs \<times> int) option" where
  "collect [] bs = Some (bs, 0)"
| "collect (x # ops) bs = do {
     (bs1, rv) \<leftarrow> buf_do x bs;
     if rv \<noteq> 0 then Some (bs1, rv) else collect ops bs1
   }"

fun spec_do :: "buf_op \<Rightarrow> bytes \<Rightarrow> bytes" where
  "spec_do (Add p) d = d @ p"
| "spec_do (Addb b) d = d @ [b]"
| "spec_do Reset d = []"

abbreviation spec_collect :: "buf_op list \<Rightarrow> bytes \<Rightarrow> bytes" where
  "spec_collect ops d \<equiv> fold spec_do ops d"

definition chain_ok :: "nat \<Rightarrow> nghttp2_bufs \<Rightarrow> bool" where
  "chain_ok cap bs \<longleftrightarrow> bufs_ok bs \<and> sized bs \<and> roomy bs \<and> 0 < chunk_keep bs \<and> chunk_keep bs \<le> max_chunk bs \<and>
     bufs_offset bs < chunk_length bs \<and> cap = max_chunk bs * (chunk_length bs - bufs_offset bs) \<and>
     room bs + length (content bs) = cap"

lemma chain_ok_added:
  "chain_ok cap bs \<Longrightarrow> added bs p bs' rv \<Longrightarrow> chain_ok cap bs'"
  by (auto simp: chain_ok_def added_def same_chain_def)

lemma buf_do_ok:
  assumes ok: "chain_ok cap bs"
  shows "\<exists>bs' rv. buf_do x bs = Some (bs', rv) \<and> chain_ok cap bs' \<and> others_live bs' = others_live bs \<and>
    (list_all id (mem_answers (bufs_mem bs)) \<longrightarrow> list_all id (mem_answers (bufs_mem bs'))) \<and>
    (if rv = 0 then content bs' = spec_do x (content bs)
     else if rv = NGHTTP2_ERR_BUFFER_ERROR then cap < length (spec_do x (content bs))
     else rv = NGHTTP2_ERR_NOMEM \<and> \<not> list_all id (mem_answers (bufs_mem bs)))"
proof -
  have add: "added bs p bs' rv \<Longrightarrow> chain_ok cap bs' \<and> others_live bs' = others_live bs \<and>
    (list_all id (mem_answers (bufs_mem bs)) \<longrightarrow> list_all id (mem_answers (bufs_mem bs'))) \<and>
    (if rv = 0 then content bs' = content bs @ p
     else if rv = NGHTTP2_ERR_BUFFER_ERROR then cap < length (content bs @ p)
     else rv = NGHTTP2_ERR_NOMEM \<and> \<not> list_all id (mem_answers (bufs_mem bs)))" for p bs' rv
    using chain_ok_added [OF ok] ok by (auto simp: added_def same_chain_def chain_ok_def)
  show ?thesis
  proof (cases x)
    case (Add p)
    then show ?thesis using bufs_add_returns [of bs p] ok add by (fastforce simp: chain_ok_def)
  next
    case (Addb b)
    then show ?thesis using bufs_addb_returns [of bs b] ok add by (fastforce simp: chain_ok_def)
  next
    case Reset
    then show ?thesis using reset_ok [of bs] ok by (auto simp: chain_ok_def same_chain_def)
  qed
qed

lemma collect_ok:
  "chain_ok cap bs \<Longrightarrow>
   \<exists>bs' rv. collect ops bs = Some (bs', rv) \<and> chain_ok cap bs' \<and> others_live bs' = others_live bs \<and>
    (if rv = 0 then content bs' = spec_collect ops (content bs)
     else if rv = NGHTTP2_ERR_BUFFER_ERROR then \<exists>k. cap < length (spec_collect (take k ops) (content bs))
     else rv = NGHTTP2_ERR_NOMEM \<and> \<not> list_all id (mem_answers (bufs_mem bs)))"
proof (induction ops arbitrary: bs)
  case (Cons x ops)
  obtain bs1 rv1 where 1: "buf_do x bs = Some (bs1, rv1)" "chain_ok cap bs1" "others_live bs1 = others_live bs"
    "list_all id (mem_answers (bufs_mem bs)) \<longrightarrow> list_all id (mem_answers (bufs_mem bs1))"
    "if rv1 = 0 then content bs1 = spec_do x (content bs)
     else if rv1 = NGHTTP2_ERR_BUFFER_ERROR then cap < length (spec_do x (content bs))
     else rv1 = NGHTTP2_ERR_NOMEM \<and> \<not> list_all id (mem_answers (bufs_mem bs))"
    using buf_do_ok [OF Cons.prems] by blast
  show ?case
  proof (cases "rv1 = 0")
    case True
    obtain bs' rv where 2: "collect ops bs1 = Some (bs', rv)" "chain_ok cap bs'" "others_live bs' = others_live bs1"
      "if rv = 0 then content bs' = spec_collect ops (content bs1)
       else if rv = NGHTTP2_ERR_BUFFER_ERROR then \<exists>k. cap < length (spec_collect (take k ops) (content bs1))
       else rv = NGHTTP2_ERR_NOMEM \<and> \<not> list_all id (mem_answers (bufs_mem bs1))"
      using Cons.IH [OF 1(2)] by blast
    have "cap < length (spec_collect (take k ops) (content bs1)) \<Longrightarrow>
      cap < length (spec_collect (take (Suc k) (x # ops)) (content bs))" for k
      using 1(5) True by simp
    then show ?thesis
      using 1 2 True by (intro exI [of _ bs'] exI [of _ rv]) (auto split: if_splits simp del: take_Suc_Cons)
  next
    case False
    have "spec_collect (take 1 (x # ops)) (content bs) = spec_do x (content bs)" by simp
    then show ?thesis
      using 1 False by (intro exI [of _ bs1] exI [of _ rv1]) (auto split: if_splits intro: exI [of _ 1])
  qed
qed (auto intro: exI)

lemma remove_after:
  assumes "bufs_ok bs"
  shows "\<exists>d bs' n. nghttp2_bufs_remove bs = Some (d, bs', n) \<and>
    (n = int (length (content bs)) \<and> d = (if content bs = [] then None else Some (content bs)) \<or>
     n = NGHTTP2_ERR_NOMEM \<and> d = None)"
proof (cases "content bs = []")
  case True
  have "total_len (chunks bs) = 0"
    using assms True by (simp add: total_len_def bufs_ok_def total_len_content content_def)
  then show ?thesis using True by (simp add: nghttp2_bufs_remove_def)
next
  case False
  then show ?thesis using bufs_remove_content [OF assms False] by (auto split: if_splits)
qed

text \<open>
  C16. A chain of buffers collects what is written to it. Whatever the sequence of additions of byte
  strings and single bytes and of resets, every call returns and writes inside the buffers; when
  all succeed, removing yields exactly the bytes since the last reset, in order. The space error
  occurs only if more bytes were added than all buffers together hold, the memory error only if an
  allocation failed, and freeing the chain gives back every block.
\<close>

theorem bufs_collect:
  "case nghttp2_bufs_init3 (off + Suc n) mx keep off m of
     (None, m', rv) \<Rightarrow> mem_live m' = mem_live m \<and>
       (rv = NGHTTP2_ERR_INVALID_ARGUMENT \<and> (keep = 0 \<or> mx < keep) \<or>
        rv = NGHTTP2_ERR_NOMEM \<and> \<not> list_all id (mem_answers m))
   | (Some bs, _, _) \<Rightarrow>
       (\<exists>bs' rv. collect ops bs = Some (bs', rv) \<and>
          mem_live (bufs_mem (nghttp2_bufs_free bs')) = mem_live m \<and>
          (if rv = 0
           then nghttp2_bufs_len bs' = length (spec_collect ops []) \<and>
             (\<exists>d bs'' k. nghttp2_bufs_remove bs' = Some (d, bs'', k) \<and>
               (k = int (length (spec_collect ops [])) \<and>
                  d = (if spec_collect ops [] = [] then None else Some (spec_collect ops [])) \<or>
                k = NGHTTP2_ERR_NOMEM \<and> d = None))
           else if rv = NGHTTP2_ERR_BUFFER_ERROR then \<exists>k. mx * Suc n < length (spec_collect (take k ops) [])
           else rv = NGHTTP2_ERR_NOMEM \<and> \<not> list_all id (mem_answers m)))"
proof -
  obtain r m' rv0 where init: "nghttp2_bufs_init3 (off + Suc n) mx keep off m = (r, m', rv0)"
    by (cases "nghttp2_bufs_init3 (off + Suc n) mx keep off m")
  show ?thesis
  proof (cases r)
    case None
    then show ?thesis using init3_cases [OF init] init by auto
  next
    case (Some bs)
    note i = init3_cases [OF init, unfolded Some option.case]
    have ok: "chain_ok (mx * Suc n) bs" using i by (simp add: chain_ok_def)
    have empty: "content bs = []" and live: "others_live bs = mem_live m"
      and answers: "\<not> list_all id (mem_answers (bufs_mem bs)) \<Longrightarrow> \<not> list_all id (mem_answers m)"
      using i by auto
    obtain bs' rv where c: "collect ops bs = Some (bs', rv)" "chain_ok (mx * Suc n) bs'" "others_live bs' = others_live bs"
      "if rv = 0 then content bs' = spec_collect ops []
       else if rv = NGHTTP2_ERR_BUFFER_ERROR then \<exists>k. mx * Suc n < length (spec_collect (take k ops) [])
       else rv = NGHTTP2_ERR_NOMEM \<and> \<not> list_all id (mem_answers (bufs_mem bs))"
      using collect_ok [OF ok, of ops] unfolding empty by blast
    have ok': "bufs_ok bs'" using c(2) by (simp add: chain_ok_def)
    have "mem_live (bufs_mem (nghttp2_bufs_free bs')) = mem_live m" using c(3) live by (simp add: free_live)
    moreover have "if rv = 0
           then nghttp2_bufs_len bs' = length (spec_collect ops []) \<and>
             (\<exists>d bs'' k. nghttp2_bufs_remove bs' = Some (d, bs'', k) \<and>
               (k = int (length (spec_collect ops [])) \<and>
                  d = (if spec_collect ops [] = [] then None else Some (spec_collect ops [])) \<or>
                k = NGHTTP2_ERR_NOMEM \<and> d = None))
           else if rv = NGHTTP2_ERR_BUFFER_ERROR then \<exists>k. mx * Suc n < length (spec_collect (take k ops) [])
           else rv = NGHTTP2_ERR_NOMEM \<and> \<not> list_all id (mem_answers m)"
    proof (cases "rv = 0")
      case True
      then have "content bs' = spec_collect ops []" using c(4) by simp
      then show ?thesis using True remove_after [OF ok'] bufs_len_content [OF ok'] by metis
    next
      case False
      then show ?thesis using c(4) answers by (auto split: if_splits)
    qed
    ultimately show ?thesis unfolding init Some option.case prod.case using c(1) by blast
  qed
qed

text \<open>
  A single byte can be written outside the memory of the caller. In a vector of buffers whose first
  one has been filled, with any number of bytes, and whose next one is empty,
  \<^verbatim>\<open>nghttp2_bufs_addb\<close> moves to the empty one and writes there without a check, where
  \<^verbatim>\<open>nghttp2_bufs_add\<close> moves on to the next one with room, or answers with an error.
\<close>

theorem addb_overflows_empty_buffer:
  assumes "length xs = length x"
  shows "case nghttp2_bufs_wrap_init2 (x # [] # v) \<lparr>mem_answers = [], mem_fill = f, mem_live = l\<rparr> of
     (Some bs, _, _) \<Rightarrow>
       (case nghttp2_bufs_add bs xs of
          Some (bs1, rv1) \<Rightarrow> rv1 = 0 \<and> nghttp2_bufs_addb bs1 b = None \<and>
            (case nghttp2_bufs_add bs1 [b] of
               None \<Rightarrow> False
             | Some (bs', rv) \<Rightarrow> rv = (if concat v = [] then NGHTTP2_ERR_BUFFER_ERROR else 0) \<and>
                 content bs' = xs @ (if concat v = [] then [] else [b]))
        | None \<Rightarrow> False)
   | _ \<Rightarrow> False"
proof -
  let ?m = "\<lparr>mem_answers = [], mem_fill = f, mem_live = l\<rparr>"
  let ?bs = "\<lparr>chunks = map nghttp2_buf_wrap_init (x # [] # v), bufs_cur = 0, bufs_mem = ?m\<lparr>mem_live := l + 1\<rparr>,
    chunk_length = 0, max_chunk = length v + 2, chunk_used = length v + 2, chunk_keep = length v + 2, bufs_offset = 0\<rparr>"
  let ?full = "\<lparr>bytes_of = xs, buf_pos = 0, buf_last = length xs, buf_mark = 0\<rparr>"
  let ?bs1 = "?bs\<lparr>chunks := ?full # map nghttp2_buf_wrap_init ([] # v)\<rparr>"
  have init: "nghttp2_bufs_wrap_init2 (x # [] # v) ?m = (Some ?bs, ?m\<lparr>mem_live := l + 1\<rparr>, 0)"
    by (simp add: nghttp2_bufs_wrap_init2_def nghttp2_mem_malloc_def mem_alloc_def)
  have wrap: "nghttp2_buf_avail (nghttp2_buf_wrap_init y) = length y" "present (nghttp2_buf_wrap_init y) = []" for y
    by (simp_all add: nghttp2_buf_avail_def nghttp2_buf_cap_def nghttp2_buf_wrap_init_def present_def)
  have full: "nghttp2_buf_avail ?full = 0" "present ?full = xs"
    by (simp_all add: nghttp2_buf_avail_def nghttp2_buf_cap_def present_def)
  have fill: "nghttp2_bufs_add ?bs xs = Some (?bs1, 0)"
  proof (cases "xs = []")
    case True
    then have "x = []" using assms by simp
    then show ?thesis using True
      by (simp add: nghttp2_bufs_add.simps [of _ xs] nghttp2_bufs_add.simps [of _ "[]"] nghttp2_buf_wrap_init_def)
  next
    case False
    then have "put_cur xs ?bs = Some ?bs1"
      using assms by (simp add: put_cur_def cur_buf_def buf_put_def nghttp2_buf_wrap_init_def wr_block_def)
    then show ?thesis using False assms
      by (auto simp: nghttp2_bufs_add.simps [of _ xs] nghttp2_bufs_add.simps [of _ "[]"] nghttp2_bufs_cur_avail_def cur_buf_def wrap Let_def)
  qed
  have ok: "bufs_ok ?bs1"
    by (auto simp: bufs_ok_def list_all_iff buf_ok_def nghttp2_buf_wrap_init_def nghttp2_buf_len_def nghttp2_buf_cap_def)
  have room: "room ?bs1 = length (concat v)"
    by (simp add: room_def wrap full comp_def length_concat)
  have content: "content ?bs1 = xs" by (simp add: content_def wrap full comp_def)
  have "nghttp2_bufs_addb ?bs1 b = None"
    by (simp add: nghttp2_bufs_addb_def bufs_ensure_addb_def nghttp2_bufs_cur_avail_def cur_buf_def full
        bufs_alloc_chain_def put_cur_def buf_put_def nghttp2_buf_wrap_init_def wr_block_def)
  moreover obtain bs' rv where add: "nghttp2_bufs_add ?bs1 [b] = Some (bs', rv)" "added ?bs1 [b] bs' rv"
    using bufs_add_returns [OF ok] by blast
  moreover have "rv = (if concat v = [] then NGHTTP2_ERR_BUFFER_ERROR else 0)" "content bs' = xs @ (if concat v = [] then [] else [b])"
    using add(2) room content by (cases "concat v"; auto simp: added_def simp del: concat_eq_Nil_conv)+
  ultimately show ?thesis by (simp only: init fill prod.case option.case simp_thms)
qed

text \<open>Two bytes fill the first buffer; the third is written outside the second, although the last has room.\<close>

theorem addb_overflows_empty_buffer_witness:
  "case nghttp2_bufs_wrap_init2 [[0, 0], [], [0]] \<lparr>mem_answers = [], mem_fill = (\<lambda>_. 0), mem_live = 0\<rparr> of
     (Some bs, _, _) \<Rightarrow>
       (case nghttp2_bufs_add bs [1, 2] of
          Some (bs1, rv1) \<Rightarrow> rv1 = 0 \<and> nghttp2_bufs_addb bs1 3 = None \<and>
            (case nghttp2_bufs_add bs1 [3] of
               None \<Rightarrow> False | Some (bs', rv) \<Rightarrow> rv = 0 \<and> content bs' = [1, 2, 3])
        | None \<Rightarrow> False)
   | _ \<Rightarrow> False"
  using addb_overflows_empty_buffer [where xs = "[1, 2]" and x = "[0, 0]" and v = "[[0]]" and f = "\<lambda>_. 0" and l = 0 and b = 3]
  by (simp cong: option.case_cong prod.case_cong)

end
