(* ===== verification/Ng_Huffman.thy ===== *)
theory Ng_Huffman
  imports Ng_Huff_Check Ng_Buf "HOL-Library.Sublist"
begin

unbundle bit_operations_syntax

text \<open>
  The Huffman coding of header strings, \<^verbatim>\<open>nghttp2_hd_huffman.c\<close>, over the tables of
  \<^verbatim>\<open>nghttp2_hd_huffman_data.c\<close>: the encoder collects the codes in a 64-bit word and writes
  it out by words or bytes; the decoder walks its table, four bits at a time.
\<close>

section \<open>The encoder and the decoder\<close>

abbreviation NGHTTP2_HUFF_ACCEPTED :: u16 where "NGHTTP2_HUFF_ACCEPTED \<equiv> 0x4000"
abbreviation NGHTTP2_HUFF_SYM :: u16 where "NGHTTP2_HUFF_SYM \<equiv> 0x8000"

definition nghttp2_hd_huff_encode_count :: "bytes \<Rightarrow> nat" where
  "nghttp2_hd_huff_encode_count src =
     (foldl (\<lambda>nbits b. nbits + fst (huff_sym_table ! unat b)) 0 src + 7) div 8"

text \<open>\<open>flush_bytes\<close> are the loops that write whole bytes from the top of the word.\<close>

fun flush_bytes :: "u64 \<Rightarrow> nat \<Rightarrow> nghttp2_bufs \<Rightarrow> (u64 \<times> nat \<times> nghttp2_bufs \<times> int) option" where
  "flush_bytes code nbits bs =
     (if 8 \<le> nbits
      then do {
        (bs1, rv) \<leftarrow> nghttp2_bufs_addb bs (ucast (drop_bit 56 code));
        if rv \<noteq> 0 then Some (code, nbits, bs1, rv)
        else flush_bytes (push_bit 8 code) (nbits - 8) bs1
      }
      else Some (code, nbits, bs, 0))"

declare flush_bytes.simps [simp del]

fun encode_loop :: "bytes \<Rightarrow> u64 \<Rightarrow> nat \<Rightarrow> nat \<Rightarrow> nghttp2_bufs \<Rightarrow> (u64 \<times> nat \<times> nghttp2_bufs \<times> int) option" where
  "encode_loop [] code nbits avail bs = Some (code, nbits, bs, 0)"
| "encode_loop (b # src) code nbits avail bs =
     (case huff_sym_table ! unat b of
        (n, c) \<Rightarrow>
          let code1 = code OR push_bit (32 - nbits) (ucast c); nbits1 = nbits + n in
          if nbits1 < 32 then encode_loop src code1 nbits1 avail bs
          else if 4 \<le> avail
          then do {
            bs1 \<leftarrow> put_cur (be_bytes32 (ucast (drop_bit 32 code1))) bs;
            encode_loop src (push_bit 32 code1) (nbits1 - 32) (avail - 4) bs1
          }
          else do {
            (code2, nbits2, bs1, rv) \<leftarrow> flush_bytes code1 nbits1 bs;
            if rv \<noteq> 0 then Some (code2, nbits2, bs1, rv)
            else do {
              avail1 \<leftarrow> nghttp2_bufs_cur_avail bs1;
              encode_loop src code2 nbits2 avail1 bs1
            }
          })"

definition nghttp2_hd_huff_encode :: "nghttp2_bufs \<Rightarrow> bytes \<Rightarrow> (nghttp2_bufs \<times> int) option" where
  "nghttp2_hd_huff_encode bs src = do {
     avail \<leftarrow> nghttp2_bufs_cur_avail bs;
     (code, nbits, bs1, rv) \<leftarrow> encode_loop src 0 0 avail bs;
     if rv \<noteq> 0 then Some (bs1, rv)
     else do {
       (code1, nbits1, bs2, rv1) \<leftarrow> flush_bytes code nbits bs1;
       if rv1 \<noteq> 0 then Some (bs2, rv1)
       else if nbits1 \<noteq> 0
       then nghttp2_bufs_addb bs2 (ucast (drop_bit 56 code1) OR (push_bit (8 - nbits1) 1 - 1))
       else Some (bs2, 0)
     }
   }"

definition nghttp2_hd_huff_decode_context_init :: u16 where
  "nghttp2_hd_huff_decode_context_init = NGHTTP2_HUFF_ACCEPTED"

text \<open>One step: the entry for four bits, and its symbol, written if it has one.\<close>

definition decode_step :: "u16 \<Rightarrow> nghttp2_buf \<Rightarrow> u8 \<Rightarrow> (u16 \<times> nghttp2_buf) option" where
  "decode_step fs buf k = do {
     row \<leftarrow> rd huff_decode_table (unat (fs AND 0x1ff));
     t \<leftarrow> rd row (unat k);
     if fst t AND NGHTTP2_HUFF_SYM \<noteq> 0
     then do { buf1 \<leftarrow> buf_put [snd t] buf; Some (fst t, buf1) }
     else Some (fst t, buf)
   }"

fun decode_loop :: "u16 \<Rightarrow> nghttp2_buf \<Rightarrow> bytes \<Rightarrow> (u16 \<times> nghttp2_buf) option" where
  "decode_loop fs buf [] = Some (fs, buf)"
| "decode_loop fs buf (c # src) = do {
     (fs1, buf1) \<leftarrow> decode_step fs buf (drop_bit 4 c);
     (fs2, buf2) \<leftarrow> decode_step fs1 buf1 (c AND 0xf);
     decode_loop fs2 buf2 src
   }"

definition nghttp2_hd_huff_decode :: "u16 \<Rightarrow> nghttp2_buf \<Rightarrow> bytes \<Rightarrow> bool \<Rightarrow> (u16 \<times> nghttp2_buf \<times> int) option" where
  "nghttp2_hd_huff_decode ctx buf src final = do {
     (fs, buf1) \<leftarrow> decode_loop ctx buf src;
     Some (fs, buf1,
           if final \<and> fs AND NGHTTP2_HUFF_ACCEPTED = 0 then NGHTTP2_ERR_HEADER_COMP else int (length src))
   }"

definition nghttp2_hd_huff_decode_failure_state :: "u16 \<Rightarrow> bool" where
  "nghttp2_hd_huff_decode_failure_state ctx \<longleftrightarrow> ctx = 0x100"

section \<open>The prefix property\<close>

text \<open>
  In the order of their values, each code lies behind the range of the extensions of its
  predecessor. A state is a proper prefix of a code.
\<close>

definition code_order :: "nat list" where
  "code_order = [48, 49, 50, 97, 99, 101, 105, 111, 115, 116, 32, 37, 45, 46, 47, 51, 52, 53, 54, 55,
     56, 57, 61, 65, 95, 98, 100, 102, 103, 104, 108, 109, 110, 112, 114, 117, 58, 66, 67, 68,
     69, 70, 71, 72, 73, 74, 75, 76, 77, 78, 79, 80, 81, 82, 83, 84, 85, 86, 87, 89,
     106, 107, 113, 118, 119, 120, 121, 122, 38, 42, 44, 59, 88, 90, 33, 34, 40, 41, 63, 39,
     43, 124, 35, 62, 0, 36, 64, 91, 93, 126, 94, 125, 60, 96, 123, 92, 195, 208, 128, 130,
     131, 162, 184, 194, 224, 226, 153, 161, 167, 172, 176, 177, 179, 209, 216, 217, 227, 229, 230, 129,
     132, 133, 134, 136, 146, 154, 156, 160, 163, 164, 169, 170, 173, 178, 181, 185, 186, 187, 189, 190,
     196, 198, 228, 232, 233, 1, 135, 137, 138, 139, 140, 141, 143, 147, 149, 150, 151, 152, 155, 157,
     158, 165, 166, 168, 174, 175, 180, 182, 183, 188, 191, 197, 231, 239, 9, 142, 144, 145, 148, 159,
     171, 206, 215, 225, 236, 237, 199, 207, 234, 235, 192, 193, 200, 201, 202, 205, 210, 213, 218, 219,
     238, 240, 242, 243, 255, 203, 204, 211, 212, 214, 221, 222, 223, 241, 244, 245, 246, 247, 248, 250,
     251, 252, 253, 254, 2, 3, 4, 5, 6, 7, 8, 11, 12, 14, 15, 16, 17, 18, 19, 20,
     21, 23, 24, 25, 26, 27, 28, 29, 30, 31, 127, 220, 249, 10, 13, 22, 256]"

fun apart :: "(nat \<times> u32) list \<Rightarrow> bool" where
  "apart ((n, c) # (m, d) # xs) \<longleftrightarrow>
     0 < n \<and> n \<le> 30 \<and> uint c mod 2 ^ (32 - n) = 0 \<and> uint c + 2 ^ (32 - n) \<le> uint d \<and> apart ((m, d) # xs)"
| "apart [(n, c)] \<longleftrightarrow> 0 < n \<and> n \<le> 30 \<and> uint c mod 2 ^ (32 - n) = 0"
| "apart [] \<longleftrightarrow> True"

definition below_symbol :: "nat list" where
  "below_symbol = [0, 32, 48, 48, 48, 50, 99, 99, 105, 32, 32, 115, 32, 32, 45, 47, 47, 47, 52, 54,
     54, 56, 0, 58, 61, 61, 61, 95, 100, 100, 103, 58, 108, 108, 110, 58, 114, 58, 58, 67,
     0, 69, 69, 69, 69, 71, 73, 73, 75, 77, 77, 77, 79, 81, 81, 83, 0, 85, 85, 85,
     87, 106, 106, 113, 0, 119, 119, 121, 0, 38, 38, 44, 0, 88, 0, 33, 33, 40, 0, 39,
     39, 0, 35, 35, 0, 0, 0, 64, 1, 93, 1, 94, 1, 60, 1, 1, 92, 92, 92, 128,
     128, 131, 131, 131, 184, 153, 224, 153, 153, 167, 1, 129, 176, 176, 176, 179, 216, 216, 227, 129,
     129, 129, 129, 133, 133, 136, 154, 154, 154, 160, 164, 164, 170, 1, 1, 178, 178, 178, 185, 187,
     187, 190, 1, 198, 198, 232, 1, 1, 1, 137, 139, 139, 141, 2, 147, 147, 147, 147, 150, 152,
     152, 157, 165, 165, 165, 168, 175, 175, 182, 2, 9, 188, 188, 197, 9, 9, 9, 144, 144, 148,
     2, 171, 171, 171, 215, 199, 236, 199, 199, 234, 2, 192, 192, 192, 192, 200, 202, 202, 210, 203,
     218, 218, 238, 203, 242, 203, 203, 2, 211, 211, 211, 211, 214, 222, 222, 241, 245, 245, 245, 247,
     250, 250, 252, 2, 2, 2, 2, 2, 4, 4, 6, 8, 8, 8, 12, 15, 15, 17, 10, 19,
     19, 19, 21, 24, 24, 26, 10, 28, 28, 30, 10, 127, 10, 10, 10, 22]"

fun paths_below :: "nat \<Rightarrow> nat list \<Rightarrow> bool" where
  "paths_below s [] \<longleftrightarrow> True"
| "paths_below s (k # ks) \<longleftrightarrow>
     fst (node_code s) < fst (sym_code k) \<and>
     snd (sym_code k) div 2 ^ (fst (sym_code k) - fst (node_code s)) = snd (node_code s) \<and> k \<le> 256 \<and> paths_below (s + 1) ks"

lemma codes_apart: "apart (map ((!) huff_sym_table) code_order)"
  by (simp add: code_order_def sym_table_nth sym_table_nth(2) [unfolded One_nat_def])

lemma order_range: "list_all (\<lambda>s. s < 257) code_order" "length code_order = 257"
  by (simp_all add: code_order_def)

lemma below_ok: "paths_below 0 below_symbol"
  by (simp add: below_symbol_def check_simps del: One_nat_def)

lemma length_below: "length below_symbol = 256"
  by (simp add: below_symbol_def)

end
