(* ===== verification/Ng_Huff_Props.thy ===== *)
theory Ng_Huff_Props
  imports Ng_Huffman
begin

unbundle bit_operations_syntax

text \<open>
  The correctness of the Huffman coding: \<open>huff_encoding\<close> is what RFC 7541 says, the codes one after
  the other, filled up to a byte with ones. The encoder writes it, the decoder accepts it and
  nothing else.
\<close>

declare nibble_bits.simps [simp del]
declare entry_check.simps [simp del]
declare acc_check.simps [simp del]
declare state_check.simps [simp del]

section \<open>Bits and bytes\<close>

definition byte_bits :: "u8 \<Rightarrow> bool list" where
  "byte_bits b = map (\<lambda>i. bit b (7 - i)) [0..<8]"

definition byte_of :: "bool list \<Rightarrow> u8" where
  "byte_of bs = horner_sum of_bool 2 (rev bs)"

fun pack :: "bool list \<Rightarrow> bytes" where
  "pack bs = (if bs = [] then [] else byte_of (take 8 (bs @ replicate 7 True)) # pack (drop 8 bs))"

declare pack.simps [simp del]

abbreviation all_bits :: "bytes \<Rightarrow> bool list" where
  "all_bits es \<equiv> concat (map byte_bits es)"

definition huff_bits :: "bytes \<Rightarrow> bool list" where
  "huff_bits src = concat (map (\<lambda>b. huff_code (unat b)) src)"

definition huff_encoding :: "bytes \<Rightarrow> bytes" where
  "huff_encoding src = pack (huff_bits src)"

lemma length_byte_bits [simp]: "length (byte_bits b) = 8"
  by (simp add: byte_bits_def)

lemma byte_bits_inject: "byte_bits a = byte_bits b \<Longrightarrow> a = b"
proof (rule bit_word_eqI)
  fix n assume eq: "byte_bits a = byte_bits b" and "n < LENGTH(8)"
  then have "byte_bits a ! (7 - n) = byte_bits b ! (7 - n)" by simp
  then show "bit a n \<longleftrightarrow> bit b n" using \<open>n < LENGTH(8)\<close> by (simp add: byte_bits_def)
qed

lemma byte_bits_byte_of: "length bs = 8 \<Longrightarrow> byte_bits (byte_of bs) = bs"
  by (rule nth_equalityI) (auto simp: byte_bits_def byte_of_def bit_horner_sum_bit_iff rev_nth)

lemma byte_of_eq: "byte_bits b = bs \<Longrightarrow> byte_of bs = b"
  using byte_bits_byte_of [of bs] byte_bits_inject by force

lemma pack_Nil [simp]: "pack [] = []"
  by (simp add: pack.simps)

lemma pack_byte: "byte_bits b = take 8 bs \<Longrightarrow> 8 \<le> length bs \<Longrightarrow> pack bs = b # pack (drop 8 bs)"
  by (subst pack.simps) (auto simp: byte_of_eq)

lemma pack_padded:
  "all_bits es = bs @ replicate k True \<Longrightarrow> k < 8 \<Longrightarrow> pack bs = es"
proof (induction es arbitrary: bs)
  case Nil
  then show ?case by simp
next
  case (Cons b es)
  have len: "8 * length es + 8 = length bs + k"
    using arg_cong [OF Cons.prems(1), of length] by (simp add: length_concat comp_def sum_list_triv)
  show ?case
  proof (cases "8 \<le> length bs")
    case True
    have "byte_bits b = take 8 (bs @ replicate k True)"
      using Cons.prems(1) by (metis append_eq_conv_conj concat.simps(2) length_byte_bits list.simps(9))
    moreover have "all_bits es = drop 8 (bs @ replicate k True)"
      using Cons.prems(1) by (metis append_eq_conv_conj concat.simps(2) length_byte_bits list.simps(9))
    ultimately have "byte_bits b = take 8 bs" "all_bits es = drop 8 bs @ replicate k True"
      using True by simp_all
    then show ?thesis using Cons.IH [OF _ Cons.prems(2)] pack_byte True by simp
  next
    case False
    then have "length es = 0" using len Cons.prems(2) by linarith
    then have es: "es = []" and bs: "bs \<noteq> []" "length bs + k = 8" using len Cons.prems(2) by auto
    have "take 8 (bs @ replicate 7 True) = bs @ replicate k True"
      using bs False by (cases bs) (auto simp: take_replicate)
    then have "byte_of (take 8 (bs @ replicate 7 True)) = b"
      using Cons.prems(1) es byte_of_eq [of b] by simp
    then show ?thesis using es bs False by (subst pack.simps) simp
  qed
qed

lemma all_bits_pack:
  "\<exists>k < 8. all_bits (pack bs) = bs @ replicate k True"
proof (induction bs rule: pack.induct)
  case (1 bs)
  show ?case
  proof (cases "8 \<le> length bs")
    case True
    then obtain k where "k < 8" "all_bits (pack (drop 8 bs)) = drop 8 bs @ replicate k True"
      using 1 by fastforce
    moreover have "pack bs = byte_of (take 8 bs) # pack (drop 8 bs)"
      using True by (subst pack.simps) auto
    ultimately show ?thesis using True byte_bits_byte_of [of "take 8 bs"] by (intro exI [of _ k]) simp
  next
    case False
    show ?thesis
    proof (cases "bs = []")
      case False': False
      then have "pack bs = [byte_of (take 8 (bs @ replicate 7 True))]" using False by (subst pack.simps) simp
      moreover have "take 8 (bs @ replicate 7 True) = bs @ replicate (8 - length bs) True"
        using False False' by (cases bs) (simp_all add: take_replicate)
      moreover have "0 < length bs" using False' by simp
      ultimately show ?thesis
        using False by (intro exI [of _ "8 - length bs"]) (simp add: byte_bits_byte_of)
    qed (auto intro: exI [of _ 0])
  qed
qed

lemma odd_unat: "odd (unat (w :: 'a::len word) div 2 ^ n) \<longleftrightarrow> bit w n"
  by (simp add: bit_unsigned_iff flip: bit_iff_odd)

lemma nibbles_byte:
  "nibble_bits (unat (drop_bit 4 c)) @ nibble_bits (unat (c AND 0xf)) = byte_bits c"
proof -
  have nib: "nibble_bits (unat w) = map (\<lambda>i. bit w (3 - i)) [0..<4]" for w :: u8
    using odd_unat [of w 0] odd_unat [of w 1] odd_unat [of w 2] odd_unat [of w 3]
    by (simp add: upt_rec nibble_bits.simps)
  have 15: "(0xf :: u8) = mask 4" by (simp add: mask_eq_decr_exp)
  show ?thesis
    unfolding nib by (rule nth_equalityI) (auto simp: byte_bits_def nth_append bit_simps 15)
qed

section \<open>The prefix property\<close>

lemma apart_sorted:
  "apart xs \<Longrightarrow> sorted_wrt (\<lambda>(n, c) (m, d). uint c + 2 ^ (32 - n) \<le> uint d) xs \<and>
    list_all (\<lambda>(n, c). 0 < n \<and> n \<le> 30 \<and> uint c mod 2 ^ (32 - n) = 0) xs"
proof (induction xs rule: apart.induct)
  case (1 n c m d xs)
  then have IH: "sorted_wrt (\<lambda>(n, c) (m, d). uint c + 2 ^ (32 - n) \<le> uint d) ((m, d) # xs)"
    "list_all (\<lambda>(n, c). 0 < n \<and> n \<le> 30 \<and> uint c mod 2 ^ (32 - n) = 0) ((m, d) # xs)" by simp_all
  have le: "uint c + 2 ^ (32 - n) \<le> uint d'" if "(m', d') \<in> set ((m, d) # xs)" for m' d'
  proof (cases "(m', d') = (m, d)")
    case False
    then have "uint d + 2 ^ (32 - m) \<le> uint d'" using IH(1) that by auto
    moreover have "(0::int) < 2 ^ (32 - m)" by simp
    moreover have "uint c + 2 ^ (32 - n) \<le> uint d" using 1(2) by simp
    ultimately show ?thesis by linarith
  qed (use 1(2) in simp)
  then show ?case using IH 1(2) by auto
qed auto

lemma set_order: "set code_order = {..<257}"
proof -
  have "sorted_wrt (\<lambda>s t. s \<noteq> t) code_order"
  proof -
    have "sorted_wrt (\<lambda>s t. case huff_sym_table ! s of (n, c) \<Rightarrow> case huff_sym_table ! t of (m, d) \<Rightarrow>
        uint c + 2 ^ (32 - n) \<le> uint d) code_order"
      using apart_sorted [OF codes_apart] by (simp add: sorted_wrt_map case_prod_beta)
    then show ?thesis
    proof (rule sorted_wrt_mono_rel [rotated])
      fix s t
      assume le: "case huff_sym_table ! s of (n, c) \<Rightarrow> case huff_sym_table ! t of (m, d) \<Rightarrow> uint c + 2 ^ (32 - n) \<le> uint d"
      show "s \<noteq> t"
      proof
        assume "s = t"
        then have "(2::int) ^ (32 - fst (huff_sym_table ! s)) \<le> 0" using le by (simp add: case_prod_beta)
        then show False by simp
      qed
    qed
  qed
  then have "distinct code_order" by (simp add: distinct_conv_nth sorted_wrt_iff_nth_less) (metis nat_neq_iff)
  then have "card (set code_order) = 257" using order_range(2) by (simp add: distinct_card)
  moreover have "set code_order \<subseteq> {..<257}" using order_range(1) by (auto simp: list_all_iff)
  ultimately show ?thesis by (intro card_subset_eq) simp_all
qed

lemma code_cases:
  assumes "s < 257"
  obtains n c where "huff_sym_table ! s = (n, c)" "0 < n" "n \<le> 30" "uint c mod 2 ^ (32 - n) = 0"
    "huff_code s = map (\<lambda>i. bit c (31 - i)) [0..<n]"
proof -
  have "s \<in> set code_order" using assms set_order by simp
  then show ?thesis
    using apart_sorted [OF codes_apart] that
    by (cases "huff_sym_table ! s") (force simp: list_all_iff huff_code_def)
qed

lemma code_apart_cases:
  assumes "s < 257" "t < 257" "s \<noteq> t" "huff_sym_table ! s = (n, c)" "huff_sym_table ! t = (m, d)"
  shows "uint c + 2 ^ (32 - n) \<le> uint d \<or> uint d + 2 ^ (32 - m) \<le> uint c"
proof -
  obtain i j where ij: "i < length code_order" "j < length code_order" "code_order ! i = s" "code_order ! j = t"
    using assms set_order by (metis in_set_conv_nth lessThan_iff)
  have "i \<noteq> j" using ij assms(3) by auto
  then consider "i < j" | "j < i" by linarith
  moreover have "uint (snd (huff_sym_table ! (code_order ! i))) + 2 ^ (32 - fst (huff_sym_table ! (code_order ! i)))
      \<le> uint (snd (huff_sym_table ! (code_order ! j)))" if "i < j" "j < length code_order" for i j
    using conjunct1 [OF apart_sorted [OF codes_apart]] that
    by (simp add: sorted_wrt_map sorted_wrt_iff_nth_less case_prod_beta)
  from this [of i j] this [of j i] ij assms(4,5) calculation show ?thesis by auto
qed

lemma code_prefix_free:
  assumes "s < 257" "t < 257" "prefix (huff_code s) (huff_code t)"
  shows "s = t"
proof (rule ccontr)
  assume "s \<noteq> t"
  obtain n c where s: "huff_sym_table ! s = (n, c)" "0 < n" "n \<le> 30" "uint c mod 2 ^ (32 - n) = 0"
    "huff_code s = map (\<lambda>i. bit c (31 - i)) [0..<n]" using code_cases assms(1) by blast
  obtain m d where t: "huff_sym_table ! t = (m, d)" "0 < m" "m \<le> 30"
    "huff_code t = map (\<lambda>i. bit d (31 - i)) [0..<m]" using code_cases assms(2) by blast
  have nm: "n \<le> m" using prefix_length_le [OF assms(3)] s(5) t(4) by simp
  have eq: "bit c (31 - i) = bit d (31 - i)" if "i < n" for i
    using assms(3) that nm s(5) t(4) by (auto simp: prefix_def nth_append dest!: arg_cong [of _ _ "\<lambda>xs. xs ! i"])
  have "drop_bit (32 - n) (uint c) = drop_bit (32 - n) (uint d)"
  proof (rule bit_eqI)
    fix i
    show "bit (drop_bit (32 - n) (uint c)) i \<longleftrightarrow> bit (drop_bit (32 - n) (uint d)) i"
    proof (cases "i < n")
      case True
      then show ?thesis using eq [of "n - 1 - i"] s(3) by (simp add: bit_simps)
    qed (use s(3) in \<open>auto simp: bit_simps dest!: bit_imp_le_length\<close>)
  qed
  then have div: "uint c div 2 ^ (32 - n) = uint d div 2 ^ (32 - n)" by (simp only: drop_bit_eq_div)
  have c: "uint c = 2 ^ (32 - n) * (uint c div 2 ^ (32 - n))"
    using s(4) mult_div_mod_eq [of "2 ^ (32 - n)" "uint c"] by simp
  have p: "(0::int) < 2 ^ (32 - n)" "(0::int) < 2 ^ (32 - m)" by simp_all
  from code_apart_cases [OF assms(1,2) \<open>s \<noteq> t\<close> s(1) t(1)] show False
  proof
    assume "uint c + 2 ^ (32 - n) \<le> uint d"
    then have "(uint c + 2 ^ (32 - n)) div 2 ^ (32 - n) \<le> uint d div 2 ^ (32 - n)"
      using p by (intro zdiv_mono1)
    moreover have "(uint c + 2 ^ (32 - n)) div 2 ^ (32 - n) = uint c div 2 ^ (32 - n) + 1"
      using p by (intro div_add_self2) simp
    ultimately show False using div by linarith
  next
    assume "uint d + 2 ^ (32 - m) \<le> uint c"
    then have "uint d < uint c" using p by linarith
    moreover have "2 ^ (32 - n) * (uint d div 2 ^ (32 - n)) \<le> uint d"
      by (simp add: minus_mod_eq_mult_div [symmetric])
    ultimately show False using c div by simp
  qed
qed

lemma code_nonempty: "s < 257 \<Longrightarrow> huff_code s \<noteq> []"
  by (rule code_cases [of s]) auto

text \<open>A rest of the input that no code begins.\<close>

definition rest_ok :: "bool list \<Rightarrow> bool" where
  "rest_ok r \<longleftrightarrow> (\<forall>s < 257. \<not> prefix (huff_code s) r)"

lemma below_rest_ok: "t < 257 \<Longrightarrow> strict_prefix r (huff_code t) \<Longrightarrow> rest_ok r"
  unfolding rest_ok_def by (metis code_prefix_free prefix_order.dual_order.trans prefix_order.less_le_not_le)

lemma EOS_code: "huff_code 256 = replicate 30 True"
proof -
  have "huff_code 256 = bits_of (30, 2 ^ 30 - 1)"
    by (subst huff_code_bits) (simp_all add: sym_table_nth sym_code_simps)
  then show ?thesis by (simp only: bits_of_ones)
qed

lemma ones_rest_ok: "k < 30 \<Longrightarrow> rest_ok (replicate k True)"
proof -
  assume "k < 30"
  then have "replicate 30 True = replicate k True @ replicate (30 - k) True" by (simp flip: replicate_add)
  then have "strict_prefix (replicate k True) (huff_code 256)"
    using \<open>k < 30\<close> unfolding EOS_code strict_prefix_def prefix_def by (metis length_replicate nat_neq_iff)
  then show ?thesis by (intro below_rest_ok [of 256]) simp
qed

lemma paths_below_nth:
  "paths_below s ks \<Longrightarrow> i < length ks \<Longrightarrow> fst (node_code (s + i)) < fst (sym_code (ks ! i)) \<and> ks ! i \<le> 256 \<and>
     snd (sym_code (ks ! i)) div 2 ^ (fst (sym_code (ks ! i)) - fst (node_code (s + i))) = snd (node_code (s + i))"
proof (induction ks arbitrary: s i)
  case (Cons k ks)
  then show ?case using Cons.IH [of "Suc s" "i - 1"] by (cases i) simp_all
qed simp

lemma code_bits: "s < 257 \<Longrightarrow> huff_code s = bits_of (sym_code s)"
  using code_cases [of s "huff_code s = bits_of (sym_code s)"] huff_code_bits [of s] by auto

lemma node_rest_ok: "s < 256 \<Longrightarrow> rest_ok (node_path s)"
proof -
  assume "s < 256"
  then have n: "fst (node_code s) < fst (sym_code (below_symbol ! s))" "below_symbol ! s \<le> 256"
    "snd (sym_code (below_symbol ! s)) div 2 ^ (fst (sym_code (below_symbol ! s)) - fst (node_code s)) = snd (node_code s)"
    using paths_below_nth [OF below_ok, of s] length_below by simp_all
  have p: "take (length (node_path s)) (huff_code (below_symbol ! s)) = node_path s"
    "length (node_path s) < length (huff_code (below_symbol ! s))" "below_symbol ! s \<le> 256"
    using n bits_of_take [of "fst (node_code s)" "sym_code (below_symbol ! s)"] code_bits [of "below_symbol ! s"]
    by (simp_all add: node_path_def)
  then have "strict_prefix (node_path s) (huff_code (below_symbol ! s))"
    by (metis less_irrefl take_is_prefix strict_prefix_def)
  then show ?thesis using p(3) by (intro below_rest_ok) simp_all
qed

lemma codes_prefix:
  assumes "prefix (concat (map huff_code xs)) (concat (map huff_code ys) @ r)"
    "\<forall>x \<in> set xs \<union> set ys. x < 257" "rest_ok r"
  shows "prefix xs ys"
  using assms
proof (induction xs arbitrary: ys)
  case (Cons x xs)
  have x: "prefix (huff_code x) (concat (map huff_code ys) @ r)"
    using Cons.prems(1) by (simp add: prefix_def) (metis append.assoc)
  show ?case
  proof (cases ys)
    case Nil
    then show ?thesis using x Cons.prems(2,3) by (auto simp: rest_ok_def)
  next
    case (Cons y ys')
    then have "prefix (huff_code x) (huff_code y) \<or> prefix (huff_code y) (huff_code x)"
      using x prefix_same_cases [of "huff_code x" "concat (map huff_code ys) @ r" "huff_code y"] by auto
    then have "x = y" using code_prefix_free Cons.prems(2) Cons by auto
    then show ?thesis using Cons Cons.prems Cons.IH [of ys'] by auto
  qed
qed simp

lemma codes_unique:
  assumes "concat (map huff_code xs) @ q = concat (map huff_code ys) @ r"
    "\<forall>x \<in> set xs \<union> set ys. x < 257" "rest_ok q" "rest_ok r"
  shows "xs = ys \<and> q = r"
proof -
  have "prefix xs ys" using codes_prefix [of xs ys r] assms by (metis prefixI)
  moreover have "prefix ys xs"
    using codes_prefix [of ys xs q] assms by (metis prefixI sup_commute)
  ultimately have "xs = ys" by (rule prefix_order.antisym)
  then show ?thesis using assms(1) by simp
qed

section \<open>The decoder\<close>

definition node :: "u16 \<Rightarrow> nat" where
  "node fs = unat (fs AND 0x1ff)"

text \<open>The entry for four bits, the symbols it writes, and a run without the buffer.\<close>

definition entry :: "u16 \<Rightarrow> u8 \<Rightarrow> u16 \<times> u8" where
  "entry fs k = huff_decode_table ! node fs ! unat k"

definition emits :: "u16 \<times> u8 \<Rightarrow> bytes" where
  "emits t = (if fst t AND NGHTTP2_HUFF_SYM \<noteq> 0 then [snd t] else [])"

fun walk :: "u16 \<Rightarrow> u8 list \<Rightarrow> u16 \<times> bytes" where
  "walk fs [] = (fs, [])"
| "walk fs (k # ks) = (case walk (fst (entry fs k)) ks of (fs', out) \<Rightarrow> (fs', emits (entry fs k) @ out))"

definition nibbles :: "bytes \<Rightarrow> u8 list" where
  "nibbles es = concat (map (\<lambda>c. [drop_bit 4 c, c AND 0xf]) es)"

lemma rows_ok_nth:
  "rows_ok s rs \<Longrightarrow> i < length rs \<Longrightarrow> entries_ok (node_code (s + i)) 0 (rs ! i)"
proof (induction rs arbitrary: s i)
  case (Cons r rs)
  then show ?case using Cons.IH [of "Suc s" "i - 1"] by (cases i) simp_all
qed simp

lemma entries_ok_nth:
  "entries_ok p n es \<Longrightarrow> n + length es = 16 \<and>
   (\<forall>i < length es. entry_check p (n + i) (unat (fst (es ! i))) (unat (snd (es ! i))))"
proof (induction p n es rule: entries_ok.induct)
  case (2 p n fs sy es)
  have "entry_check p (n + i) (unat (fst (((fs, sy) # es) ! i))) (unat (snd (((fs, sy) # es) ! i)))"
    if "i < length ((fs, sy) # es)" for i
    using 2 that by (cases i) auto
  then show ?case using 2 by auto
qed simp

lemma nibble_bits_of: "n < 16 \<Longrightarrow> nibble_bits n = bits_of (4, n)"
  by (simp add: nibble_bits.simps bits_of_def bit_iff_odd upt_rec)

lemma flag_values:
  "fs AND 0x8000 \<noteq> 0 \<longleftrightarrow> 0x8000 \<le> unat (fs :: u16)"
  "fs AND 0x4000 \<noteq> 0 \<longleftrightarrow> 0x4000 \<le> unat fs mod 0x8000"
  "unat (fs AND 0x1ff) = unat fs mod 512"
proof -
  have flag: "fs AND 2 ^ n \<noteq> 0 \<longleftrightarrow> odd (unat fs div 2 ^ n)" for n
    by (simp add: and_exp_eq_0_iff_not_bit odd_unat)
  have pow: "(2 :: u16) ^ 15 = 0x8000" "(2 :: u16) ^ 14 = 0x4000" "(2 :: nat) ^ 15 = 32768" "(2 :: nat) ^ 14 = 16384"
    by simp_all
  have "unat fs < 65536" by (rule unat_u16_less)
  then have "unat fs div 32768 < 2" by (intro less_mult_imp_div_less) simp
  then have "odd (unat fs div 32768) \<longleftrightarrow> unat fs div 32768 \<noteq> 0" by (elim less_2_cases [THEN disjE]) simp_all
  also have "\<dots> \<longleftrightarrow> 0x8000 \<le> unat fs" by (simp add: div_eq_0_iff not_less)
  finally show "fs AND 0x8000 \<noteq> 0 \<longleftrightarrow> 0x8000 \<le> unat fs" using flag [of 15, unfolded pow] by metis
  have mod: "unat fs mod 32768 = 16384 * (unat fs div 16384 mod 2) + unat fs mod 16384"
    using mod_mult2_eq [of "unat fs" 16384 2] by simp
  have "16384 * (d mod 2) + r \<ge> 16384 \<longleftrightarrow> odd d" if "r < 16384" for d r :: nat
    using that by (cases "odd d") (simp_all add: odd_iff_mod_2_eq_one)
  from this [of "unat fs mod 16384" "unat fs div 16384"]
  have "16384 \<le> unat fs mod 32768 \<longleftrightarrow> odd (unat fs div 16384)" unfolding mod by simp
  then show "fs AND 0x4000 \<noteq> 0 \<longleftrightarrow> 0x4000 \<le> unat fs mod 0x8000" using flag [of 14, unfolded pow] by metis
  have m: "(0x1ff :: u16) = mask 9" by (simp add: mask_eq_decr_exp)
  have "unat (take_bit 9 fs) = unat fs mod 2 ^ 9" unfolding unsigned_take_bit_eq by (rule take_bit_eq_mod)
  then show "unat (fs AND 0x1ff) = unat fs mod 512" unfolding m take_bit_eq_mask by simp
qed

lemma mod_half: "(n :: nat) < 2 * h \<Longrightarrow> n mod h = (if h \<le> n then n - h else n)"
  by (auto simp: le_mod_geq)

lemma entry_number:
  assumes "entry_check (node_code s) n (unat fs) (unat sy)" "s \<le> 256" "n < 16"
  shows "entry_ok (node_path s) n (fs, sy)"
proof -
  let ?sym = "0x8000 \<le> unat fs" and ?acc = "0x4000 \<le> unat fs mod 0x8000" and ?s' = "unat fs mod 0x4000"
  have less: "unat fs < 65536" by (rule unat_u16_less)
  have c: "state_check (node_code s) n (unat sy) ?sym ?acc ?s'"
  proof -
    have m: "unat fs mod 0x8000 = (if ?sym then unat fs - 0x8000 else unat fs)" using less by (intro mod_half) simp
    have "?s' = unat fs mod 0x8000 mod 0x4000" by (simp add: mod_mod_cancel)
    also have "\<dots> = (if ?acc then unat fs mod 0x8000 - 0x4000 else unat fs mod 0x8000)" by (intro mod_half) simp
    finally have s': "?s' = (if ?acc then unat fs mod 0x8000 - 0x4000 else unat fs mod 0x8000)" .
    have "acc_check (node_code s) n (unat sy) ?sym (unat fs mod 0x8000)"
      using assms(1) unfolding entry_check.simps m by (simp split: if_splits)
    then show ?thesis unfolding acc_check.simps s' by (simp split: if_splits)
  qed
  then have small: "?s' \<le> 256" by (auto simp: state_check.simps split: if_splits)
  have "unat fs mod 512 = ?s' mod 512" by (simp add: mod_mod_cancel)
  then have node: "unat (fs AND 0x1ff) = ?s'" using small by (simp add: flag_values)
  have w: "node_path s @ nibble_bits n = bits_of (cat (node_code s) (4, n))"
    using assms(3) bits_of_cat [of "(4, n)" "node_code s"] by (simp add: node_path_def nibble_bits_of fits_def)
  have b: "unat sy < 257" by (rule less_trans [OF unat_u8_less]) simp
  show ?thesis
  proof (cases "?s' = 256")
    case True
    then have f: "\<not> ?sym" "\<not> ?acc" "30 \<le> fst (node_code s) + 4"
      "(snd (node_code s) * 16 + n) div 2 ^ (fst (node_code s) + 4 - 30) = 2 ^ 30 - 1" using c by (simp_all only: state_check.simps if_True simp_thms)
    have "unat fs mod 0x8000 = unat fs" using f(1) by simp
    then have "unat fs = 256" using f(2) True by simp
    then have "fs = 0x100" by (simp add: word_unat_eq_iff)
    moreover have "take 30 (node_path s @ nibble_bits n) = replicate 30 True"
      unfolding w using f(3,4) by (subst bits_of_take) (simp_all add: cat_def flip: bits_of_ones)
    ultimately show ?thesis
      using True node f(3) by (simp add: entry_ok_def node_path_def nibble_bits.simps list_all_length)
  next
    case False
    then have f: "?s' < 256" "cat (node_code s) (4, n) = cat (if ?sym then sym_code (unat sy) else (0, 0)) (node_code ?s')"
      "?acc = (fst (node_code ?s') \<le> 7 \<and> snd (node_code ?s') = 2 ^ fst (node_code ?s') - 1)"
      using c by (simp_all only: state_check.simps if_False simp_thms)
    have fit: "fits (node_code ?s')" using node_code_fits small by simp
    have "bits_of (0, 0) = []" by (simp add: bits_of_def)
    then have "node_path s @ nibble_bits n = (if ?sym then huff_code (unat sy) else []) @ node_path ?s'"
      unfolding w f(2) bits_of_cat [OF fit] using code_bits [OF b] by (simp add: node_path_def)
    moreover have "padding (node_path ?s') \<longleftrightarrow> fst (node_code ?s') \<le> 7 \<and> snd (node_code ?s') = 2 ^ fst (node_code ?s') - 1"
    proof -
      have "list_all id (node_path ?s') \<longleftrightarrow> node_path ?s' = replicate (fst (node_code ?s')) True"
        by (auto simp: list_all_length node_path_def intro!: nth_equalityI)
      also have "\<dots> \<longleftrightarrow> node_code ?s' = (fst (node_code ?s'), 2 ^ fst (node_code ?s') - 1)"
        unfolding node_path_def bits_of_ones [symmetric]
        using bits_of_inject [OF fit, of "(fst (node_code ?s'), 2 ^ fst (node_code ?s') - 1)"] by (auto simp: fits_def)
      also have "\<dots> \<longleftrightarrow> snd (node_code ?s') = 2 ^ fst (node_code ?s') - 1" by (simp add: prod_eq_iff)
      finally show ?thesis by (simp add: padding_def node_path_def)
    qed
    ultimately show ?thesis
      using False f(1,3) node flag_values(1,2) [of fs] by (simp add: entry_ok_def)
  qed
qed

lemma table_row:
  assumes "s \<le> 256" "k < 16"
  shows "length (huff_decode_table ! s) = 16 \<and> entry_ok (node_path s) k (huff_decode_table ! s ! k)"
proof -
  have "entries_ok (node_code s) 0 (huff_decode_table ! s)"
    using rows_ok_nth [OF decode_table_ok, of s] assms(1) length_decode_table by simp
  then show ?thesis
    using entries_ok_nth [of "node_code s" 0 "huff_decode_table ! s"] assms entry_number
    by (metis add_0 prod.collapse)
qed

lemma failure_row: "huff_decode_table ! 256 = replicate 16 (0x100, 0)"
  by (simp add: huff_decode_table_def nth_append length_rows huff_rows_36_def numeral_eq_Suc)

lemma node_less: "fst (entry fs k) = fs' \<Longrightarrow> node fs \<le> 256 \<Longrightarrow> unat k < 16 \<Longrightarrow> node fs' \<le> 256"
  using table_row [of "node fs" "unat k"]
  by (auto simp: entry_def entry_ok_def node_def Let_def case_prod_beta split: if_splits)

lemma entry_step:
  assumes "node fs \<le> 256" "unat k < 16"
  shows "if node (fst (entry fs k)) = 256
     then entry fs k = (0x100, 0) \<or>
       fst (entry fs k) = 0x100 \<and> 30 \<le> length (node_path (node fs) @ nibble_bits (unat k)) \<and>
       list_all id (take 30 (node_path (node fs) @ nibble_bits (unat k)))
     else node (fst (entry fs k)) < 256 \<and> node fs < 256 \<and>
       node_path (node fs) @ nibble_bits (unat k) =
         concat (map (\<lambda>b. huff_code (unat b)) (emits (entry fs k))) @ node_path (node (fst (entry fs k))) \<and>
       (fst (entry fs k) AND NGHTTP2_HUFF_ACCEPTED \<noteq> 0) = padding (node_path (node (fst (entry fs k))))"
proof -
  have "node fs < 256" if "node (fst (entry fs k)) \<noteq> 256"
    using that assms failure_row by (cases "node fs = 256") (auto simp: entry_def node_def)
  then show ?thesis
    using table_row [OF assms]
    by (auto simp: entry_def entry_ok_def node_def Let_def case_prod_beta emits_def split: if_splits)
qed

definition good :: "u16 \<Rightarrow> bool" where
  "good fs \<longleftrightarrow> node fs < 256 \<and> (fs AND NGHTTP2_HUFF_ACCEPTED \<noteq> 0) = padding (node_path (node fs))"

abbreviation nibs_bits :: "u8 list \<Rightarrow> bool list" where
  "nibs_bits ks \<equiv> concat (map (\<lambda>k. nibble_bits (unat k)) ks)"

lemma entry_good:
  assumes "good fs" "unat k < 16"
  shows "good (fst (entry fs k)) \<and>
      node_path (node fs) @ nibble_bits (unat k) = huff_bits (emits (entry fs k)) @ node_path (node (fst (entry fs k))) \<or>
    fst (entry fs k) = 0x100 \<and> emits (entry fs k) = [] \<and>
      prefix (huff_code 256) (node_path (node fs) @ nibble_bits (unat k))"
proof (cases "node (fst (entry fs k)) = 256")
  case True
  let ?w = "node_path (node fs) @ nibble_bits (unat k)"
  have e: "fst (entry fs k) = 0x100" "30 \<le> length ?w" "list_all id (take 30 ?w)"
    using entry_step [of fs k] True assms table_row [of "node fs" "unat k"]
    by (auto simp: good_def entry_def entry_ok_def node_def Let_def case_prod_beta split: if_splits)
  have "take 30 ?w = replicate 30 True"
    using e(2,3) by (intro nth_equalityI) (auto simp: list_all_length)
  then have "prefix (huff_code 256) ?w" unfolding EOS_code by (metis take_is_prefix)
  then show ?thesis using e(1) by (simp add: emits_def)
next
  case False
  then show ?thesis
    using entry_step [of fs k] assms by (auto simp: good_def huff_bits_def)
qed

lemma entry_failed: "unat k < 16 \<Longrightarrow> entry 0x100 k = (0x100, 0)"
  using failure_row by (simp add: entry_def node_def)

lemma walk_failed: "\<forall>k \<in> set ks. unat k < 16 \<Longrightarrow> walk 0x100 ks = (0x100, [])"
  by (induction ks) (simp_all add: entry_failed emits_def)

lemma walk_ok:
  "good fs \<Longrightarrow> \<forall>k \<in> set ks. unat k < 16 \<Longrightarrow> walk fs ks = (fs', out) \<Longrightarrow>
   good fs' \<and> node_path (node fs) @ nibs_bits ks = huff_bits out @ node_path (node fs') \<or>
   fs' = 0x100 \<and> prefix (huff_bits out @ huff_code 256) (node_path (node fs) @ nibs_bits ks)"
proof (induction ks arbitrary: fs out)
  case Nil
  then show ?case by (simp add: huff_bits_def)
next
  case (Cons k ks)
  let ?fs = "fst (entry fs k)" and ?e = "emits (entry fs k)"
  obtain out1 where walk: "walk ?fs ks = (fs', out1)" "out = ?e @ out1"
    using Cons.prems(3) by (auto split: prod.splits)
  from entry_good [OF Cons.prems(1), of k] Cons.prems(2)
  consider (good) "good ?fs" "node_path (node fs) @ nibble_bits (unat k) = huff_bits ?e @ node_path (node ?fs)"
    | (failed) "?fs = 0x100" "?e = []" "prefix (huff_code 256) (node_path (node fs) @ nibble_bits (unat k))" by auto
  then show ?case
  proof cases
    case good
    have bits: "node_path (node fs) @ nibs_bits (k # ks) = huff_bits ?e @ node_path (node ?fs) @ nibs_bits ks"
      using good(2) by simp
    have out: "huff_bits out = huff_bits ?e @ huff_bits out1" using walk(2) by (simp add: huff_bits_def)
    show ?thesis
      using Cons.IH [OF good(1) _ walk(1)] Cons.prems(2) unfolding bits out by auto
  next
    case failed
    have "fs' = 0x100" "out = []" using walk_failed [of ks] walk Cons.prems(2) failed by simp_all
    then show ?thesis
      using prefix_prefix [OF failed(3), of "nibs_bits ks"] by (simp add: huff_bits_def)
  qed
qed

lemma nibs_of_bytes: "nibs_bits (nibbles es) = all_bits es"
  by (induction es) (simp_all add: nibbles_def nibbles_byte [symmetric])

lemma nibbles_small: "\<forall>k \<in> set (nibbles es). unat k < 16"
proof -
  have "unat (drop_bit 4 c) < 16" for c :: u8
  proof -
    have "unat (drop_bit 4 c) = unat c div 16"
      by (simp add: drop_bit_eq_div unat_div_distrib)
    then show ?thesis by (simp add: less_mult_imp_div_less)
  qed
  moreover have "unat (c AND 0xf) < 16" for c :: u8
    using word_and_le1 [of c 15] by (simp add: word_le_nat_alt le_imp_less_Suc)
  ultimately show ?thesis by (auto simp: nibbles_def)
qed

lemma walk_append:
  "walk fs (ks @ ls) = (case walk fs ks of (fs1, o1) \<Rightarrow> case walk fs1 ls of (fs2, o2) \<Rightarrow> (fs2, o1 @ o2))"
  by (induction ks arbitrary: fs) (auto split: prod.splits)

lemma start_good: "good nghttp2_hd_huff_decode_context_init" "node nghttp2_hd_huff_decode_context_init = 0" "node_path 0 = []"
  by (simp_all add: good_def node_def nghttp2_hd_huff_decode_context_init_def padding_def node_path_def node_code_simps bits_of_def)

lemma walk_accepts:
  assumes "walk nghttp2_hd_huff_decode_context_init (nibbles es) = (fs', out)"
  shows "if fs' AND NGHTTP2_HUFF_ACCEPTED \<noteq> 0 then es = huff_encoding out else \<forall>src. es \<noteq> huff_encoding src"
proof -
  have run: "good fs' \<and> all_bits es = huff_bits out @ node_path (node fs') \<or>
      fs' = 0x100 \<and> prefix (huff_bits out @ huff_code 256) (all_bits es)"
    using walk_ok [OF start_good(1) nibbles_small assms] by (simp add: start_good nibs_of_bytes)
  have codes: "huff_bits xs = concat (map huff_code (map unat xs))" for xs
    by (simp add: huff_bits_def comp_def)
  have small: "unat b < 257" "unat b \<noteq> 256" for b :: u8
    by (rule less_trans [OF unat_u8_less]) (simp, rule less_imp_neq [OF unat_u8_less])
  show ?thesis
  proof (cases "fs' AND NGHTTP2_HUFF_ACCEPTED = 0")
    case False
    then have "good fs'" "all_bits es = huff_bits out @ node_path (node fs')" "padding (node_path (node fs'))"
      using run by (auto simp: good_def)
    moreover from this have "node_path (node fs') = replicate (length (node_path (node fs'))) True"
      by (intro nth_equalityI) (auto simp: padding_def list_all_length)
    ultimately show ?thesis
      using False pack_padded [of es "huff_bits out" "length (node_path (node fs'))"]
      by (auto simp: huff_encoding_def padding_def)
  next
    case True
    have "es \<noteq> huff_encoding src" for src
    proof
      assume "es = huff_encoding src"
      then obtain k where k: "k < 8" "all_bits es = huff_bits src @ replicate k True"
        using all_bits_pack [of "huff_bits src"] by (auto simp: huff_encoding_def)
      have pad: "rest_ok (replicate k True)" using k(1) by (intro ones_rest_ok) simp
      from run show False
      proof
        assume good: "good fs' \<and> all_bits es = huff_bits out @ node_path (node fs')"
        have "concat (map huff_code (map unat out)) @ node_path (node fs') =
            concat (map huff_code (map unat src)) @ replicate k True"
          using good k(2) unfolding codes by metis
        from codes_unique [OF this _ _ pad] have "node_path (node fs') = replicate k True"
          using small node_rest_ok good by (auto simp: good_def)
        then show False using good True k(1) by (auto simp: good_def padding_def list_all_length)
      next
        assume "fs' = 0x100 \<and> prefix (huff_bits out @ huff_code 256) (all_bits es)"
        then have "prefix (concat (map huff_code (map unat out @ [256]))) (concat (map huff_code (map unat src)) @ replicate k True)"
          using k(2) codes by simp
        then have "prefix (map unat out @ [256]) (map unat src)"
          using small by (intro codes_prefix [OF _ _ pad]) auto
        then have "256 \<in> set (map unat src)" by (auto dest!: set_mono_prefix)
        then show False using small by auto
      qed
    qed
    then show ?thesis using True by simp
  qed
qed

text \<open>The loop writes what the walk emits, if the buffer has room for two bytes per byte read.\<close>

lemma step_walk:
  assumes "node fs \<le> 256" "unat k < 16" "buf_ok buf" "1 \<le> nghttp2_buf_avail buf"
  shows "\<exists>buf'. decode_step fs buf k = Some (fst (entry fs k), buf') \<and> buf_ok buf' \<and>
    present buf' = present buf @ emits (entry fs k) \<and> nghttp2_buf_avail buf \<le> nghttp2_buf_avail buf' + 1"
proof -
  have rd: "rd huff_decode_table (unat (fs AND 0x1ff)) = Some (huff_decode_table ! node fs)"
    "rd (huff_decode_table ! node fs) (unat k) = Some (entry fs k)"
    using assms(1,2) table_row [of "node fs" "unat k"] length_decode_table
    by (auto simp: rd_eq_Some_iff node_def entry_def)
  obtain buf' where "buf_put [snd (entry fs k)] buf = Some buf'" "buf_ok buf'"
    "present buf' = present buf @ [snd (entry fs k)]" "nghttp2_buf_avail buf' = nghttp2_buf_avail buf - 1"
    using present_put [OF assms(3), of "[snd (entry fs k)]"] assms(4) by auto
  then show ?thesis
    using rd assms(3,4) by (auto simp: decode_step_def emits_def)
qed

lemma loop_walk:
  "node fs \<le> 256 \<Longrightarrow> buf_ok buf \<Longrightarrow> 2 * length es \<le> nghttp2_buf_avail buf \<Longrightarrow> walk fs (nibbles es) = (fs', out) \<Longrightarrow>
   \<exists>buf'. decode_loop fs buf es = Some (fs', buf') \<and> buf_ok buf' \<and> present buf' = present buf @ out \<and>
     nghttp2_buf_avail buf \<le> nghttp2_buf_avail buf' + 2 * length es \<and> node fs' \<le> 256"
proof (induction es arbitrary: fs buf out)
  case Nil
  then show ?case by (simp add: nibbles_def)
next
  case (Cons c es)
  let ?k = "drop_bit 4 c" and ?l = "c AND 0xf"
  have nib: "nibbles (c # es) = ?k # ?l # nibbles es" by (simp add: nibbles_def)
  have small: "unat ?k < 16" "unat ?l < 16" using nibbles_small [of "c # es"] unfolding nib by simp_all
  let ?fs1 = "fst (entry fs ?k)"
  let ?fs2 = "fst (entry ?fs1 ?l)"
  have n1: "node ?fs1 \<le> 256" using node_less [OF refl Cons.prems(1) small(1)] .
  have n2: "node ?fs2 \<le> 256" using node_less [OF refl n1 small(2)] .
  obtain out2 where walk: "walk ?fs2 (nibbles es) = (fs', out2)" "out = emits (entry fs ?k) @ emits (entry ?fs1 ?l) @ out2"
    using Cons.prems(4) unfolding nib by (auto split: prod.splits)
  obtain b1 where b1: "decode_step fs buf ?k = Some (?fs1, b1)" "buf_ok b1"
    "present b1 = present buf @ emits (entry fs ?k)" "nghttp2_buf_avail buf \<le> nghttp2_buf_avail b1 + 1"
    using step_walk [OF Cons.prems(1) small(1) Cons.prems(2)] Cons.prems(3) by auto
  obtain b2 where b2: "decode_step ?fs1 b1 ?l = Some (?fs2, b2)" "buf_ok b2"
    "present b2 = present b1 @ emits (entry ?fs1 ?l)" "nghttp2_buf_avail b1 \<le> nghttp2_buf_avail b2 + 1"
    using step_walk [OF n1 small(2) b1(2)] b1(4) Cons.prems(3) by auto
  have "2 * length es \<le> nghttp2_buf_avail b2" using b1(4) b2(4) Cons.prems(3) by simp
  from Cons.IH [OF n2 b2(2) this walk(1)] show ?case using b1 b2 walk(2) by auto
qed

section \<open>The encoder\<close>

text \<open>The accumulator holds the pending bits in its upper end and zeros below.\<close>

definition pending :: "u64 \<Rightarrow> nat \<Rightarrow> bool list \<Rightarrow> bool" where
  "pending code nbits bs \<longleftrightarrow> nbits = length bs \<and> nbits \<le> 64 \<and>
     (\<forall>i < 64. bit code (63 - i) \<longleftrightarrow> i < nbits \<and> bs ! i)"

lemma pending_bit: "pending code nbits bs \<Longrightarrow> j < 64 \<Longrightarrow> bit code j \<longleftrightarrow> 63 - j < nbits \<and> bs ! (63 - j)"
proof -
  assume p: "pending code nbits bs" "j < 64"
  then have "63 - j < 64" "63 - (63 - j) = j" by simp_all
  then show ?thesis using p(1) unfolding pending_def by metis
qed

lemma pending_push:
  assumes "pending code nbits bs" "n \<le> nbits"
  shows "pending (push_bit n code) (nbits - n) (drop n bs)"
  unfolding pending_def
proof (intro conjI allI impI)
  fix i :: nat assume i: "i < 64"
  show "bit (push_bit n code) (63 - i) \<longleftrightarrow> i < nbits - n \<and> drop n bs ! i"
  proof (cases "n \<le> 63 - i")
    case True
    then have "bit (push_bit n code) (63 - i) \<longleftrightarrow> bit code (63 - (i + n))"
      using i by (auto simp: bit_push_bit_iff)
    also have "\<dots> \<longleftrightarrow> i + n < nbits \<and> bs ! (i + n)"
      using pending_bit [OF assms(1), of "63 - (i + n)"] True i by simp
    finally show ?thesis using assms by (auto simp: pending_def add.commute)
  next
    case False
    then show ?thesis using assms i by (auto simp: bit_push_bit_iff pending_def)
  qed
qed (use assms in \<open>auto simp: pending_def\<close>)

lemma pending_byte:
  assumes "pending code nbits bs" "8 \<le> nbits"
  shows "byte_bits (ucast (drop_bit 56 code)) = take 8 bs"
proof (rule nth_equalityI)
  show "length (byte_bits (ucast (drop_bit 56 code))) = length (take 8 bs)" using assms by (simp add: pending_def)
  fix i assume "i < length (byte_bits (ucast (drop_bit 56 code)))"
  then have i: "i < 8" by simp
  then have "byte_bits (ucast (drop_bit 56 code)) ! i \<longleftrightarrow> bit code (63 - i)"
    by (auto simp: byte_bits_def bit_simps)
  then show "byte_bits (ucast (drop_bit 56 code)) ! i = take 8 bs ! i"
    using pending_bit [OF assms(1), of "63 - i"] i assms(2) by simp
qed

lemma pending_word:
  assumes "pending code nbits bs" "32 \<le> nbits"
  shows "all_bits (be_bytes32 (ucast (drop_bit 32 code))) = take 32 bs"
proof (rule nth_equalityI)
  show "length (all_bits (be_bytes32 (ucast (drop_bit 32 code)))) = length (take 32 bs)"
    using assms by (simp add: pending_def be_bytes32_def)
  fix i assume "i < length (all_bits (be_bytes32 (ucast (drop_bit 32 code))))"
  then have i: "i < 32" by (simp add: be_bytes32_def)
  have "all_bits (be_bytes32 (ucast (drop_bit 32 code))) ! i \<longleftrightarrow> bit code (63 - i)"
    using i by (auto simp: be_bytes32_def byte_bits_def nth_append bit_simps)
  then show "all_bits (be_bytes32 (ucast (drop_bit 32 code))) ! i = take 32 bs ! i"
    using pending_bit [OF assms(1), of "63 - i"] i assms(2) by simp
qed

lemma pending_code:
  assumes "pending code nbits bs" "nbits < 32" "s < 257" "huff_sym_table ! s = (n, c)"
  shows "pending (code OR push_bit (32 - nbits) (ucast c)) (nbits + n) (bs @ huff_code s)"
proof -
  have n: "n \<le> 30" "uint c mod 2 ^ (32 - n) = 0" "huff_code s = map (\<lambda>i. bit c (31 - i)) [0..<n]"
    using code_cases [OF assms(3)] assms(4) by (metis Pair_inject)+
  have low: "\<not> bit c j" if "j < 32 - n" for j
  proof -
    have "take_bit (32 - n) (uint c) = 0" using n(2) by (simp add: take_bit_eq_mod)
    then have "\<not> bit (take_bit (32 - n) (uint c)) j" by simp
    then show ?thesis using that by (simp add: bit_take_bit_iff bit_uint_iff)
  qed
  show ?thesis
    unfolding pending_def
  proof (intro conjI allI impI)
    fix i :: nat assume i: "i < 64"
    show "bit (code OR push_bit (32 - nbits) (ucast c)) (63 - i) \<longleftrightarrow> i < nbits + n \<and> (bs @ huff_code s) ! i"
    proof (cases "i < nbits")
      case True
      have "\<not> bit c (63 - i - (32 - nbits))" using True assms(2) by (intro notI) (auto dest!: bit_imp_le_length)
      then show ?thesis
        using True i pending_bit [OF assms(1), of "63 - i"] assms(1)
        by (auto simp: bit_simps nth_append pending_def)
    next
      case False
      have idx: "63 - i - (32 - nbits) = 31 - (i - nbits)" using False assms(2) by simp
      have "bit (code OR push_bit (32 - nbits) (ucast c)) (63 - i) \<longleftrightarrow> 32 - nbits \<le> 63 - i \<and> bit c (31 - (i - nbits))"
        using False i pending_bit [OF assms(1), of "63 - i"] idx by (auto simp: bit_simps)
      also have "\<dots> \<longleftrightarrow> i < nbits + n \<and> huff_code s ! (i - nbits)"
      proof (cases "i < nbits + n")
        case True
        then show ?thesis using False n(1,3) assms(2) by auto
      next
        case ge: False
        then have "32 - nbits \<le> 63 - i \<Longrightarrow> \<not> bit c (31 - (i - nbits))"
          using False n(1) assms(2) by (intro low) linarith
        then show ?thesis using ge by auto
      qed
      finally show ?thesis using False assms(1) by (simp add: nth_append pending_def)
    qed
  qed (use assms n in \<open>auto simp: pending_def\<close>)
qed

text \<open>What the loops that write reach: the bytes of the first bits are written, the rest is pending.\<close>

definition encoded :: "bool list \<Rightarrow> nghttp2_bufs \<Rightarrow> u64 \<times> nat \<times> nghttp2_bufs \<times> int \<Rightarrow> bool" where
  "encoded bits bs r \<longleftrightarrow>
     (case r of (code', nbits', bs', rv) \<Rightarrow>
        if rv = 0
        then \<exists>es bits'. added bs es bs' 0 \<and> pending code' nbits' bits' \<and> (\<forall>more. pack (bits @ more) = es @ pack (bits' @ more))
        else \<forall>more. added bs (pack (bits @ more)) bs' rv)"

lemma encoded_nothing: "bufs_ok bs \<Longrightarrow> pending code nbits bits \<Longrightarrow> encoded bits bs (code, nbits, bs, 0)"
proof -
  assume "bufs_ok bs" "pending code nbits bits"
  then have "added bs [] bs 0 \<and> pending code nbits bits \<and> (\<forall>more. pack (bits @ more) = [] @ pack (bits @ more))" by simp
  then show ?thesis unfolding encoded_def prod.case if_True simp_thms by blast
qed

lemma encoded_seq:
  assumes "added bs es bs1 0" "\<And>more. pack (bits @ more) = es @ pack (bits1 @ more)" "encoded (bits1 @ s) bs1 r"
  shows "encoded (bits @ s) bs r"
proof -
  obtain code' nbits' bs' rv where r: "r = (code', nbits', bs', rv)" by (cases r)
  show ?thesis
  proof (cases "rv = 0")
    case True
    then obtain es1 bits' where e: "added bs1 es1 bs' 0" "pending code' nbits' bits'"
      "\<And>more. pack (bits1 @ s @ more) = es1 @ pack (bits' @ more)" using assms(3) by (auto simp: encoded_def r)
    have "added bs (es @ es1) bs' 0 \<and> pending code' nbits' bits' \<and>
        (\<forall>more. pack ((bits @ s) @ more) = (es @ es1) @ pack (bits' @ more))"
      using added_seq [OF assms(1) e(1)] e(2) by (simp add: assms(2) e(3))
    then show ?thesis unfolding encoded_def r prod.case True simp_thms if_True by blast
  next
    case False
    then have "\<forall>more. added bs (pack ((bits @ s) @ more)) bs' rv"
      using assms(3) added_seq [OF assms(1)] by (auto simp: encoded_def r assms(2))
    then show ?thesis using False by (simp only: encoded_def r prod.case if_False simp_thms)
  qed
qed

lemma encoded_error: "rv \<noteq> 0 \<Longrightarrow> encoded bits bs (code, nbits, bs', rv) \<Longrightarrow> encoded (bits @ s) bs (code', nbits', bs', rv)"
  by (simp add: encoded_def)

lemma encoded_all: "rv \<noteq> 0 \<Longrightarrow> encoded bits bs (code, nbits, bs', rv) \<Longrightarrow> added bs (pack bits) bs' rv"
  by (auto simp: encoded_def dest: spec [of _ "[]"])

lemma flush_ok:
  "pending code nbits bits \<Longrightarrow> bufs_ok bs \<Longrightarrow> roomy bs \<Longrightarrow>
   \<exists>code' nbits' bs' rv. flush_bytes code nbits bs = Some (code', nbits', bs', rv) \<and>
     encoded bits bs (code', nbits', bs', rv) \<and> (rv \<noteq> 0 \<or> nbits' < 8)"
proof (induction nbits arbitrary: code bits bs rule: less_induct)
  case (less nbits)
  show ?case
  proof (cases "8 \<le> nbits")
    case False
    then show ?thesis
      using encoded_nothing [OF less.prems(2,1)] by (subst flush_bytes.simps) simp
  next
    case True
    let ?b = "ucast (drop_bit 56 code) :: u8"
    obtain bs1 rv1 where add: "nghttp2_bufs_addb bs ?b = Some (bs1, rv1)" "added bs [?b] bs1 rv1"
      using bufs_addb_returns [OF less.prems(2,3)] by blast
    have len: "8 \<le> length bits" using True less.prems(1) by (simp add: pending_def)
    have pack: "pack (bits @ more) = [?b] @ pack (drop 8 bits @ more)" for more
      using pack_byte [of ?b "bits @ more"] pending_byte [OF less.prems(1) True] len by simp
    show ?thesis
    proof (cases "rv1 = 0")
      case False
      have "encoded bits bs (code, nbits, bs1, rv1)"
        using added_stop [OF add(2) False] False unfolding encoded_def prod.case pack by simp
      then show ?thesis using add(1) True False by (subst flush_bytes.simps) simp
    next
      case rv1: True
      then have a: "added bs [?b] bs1 0" using add(2) by simp
      obtain code' nbits' bs' rv where r: "flush_bytes (push_bit 8 code) (nbits - 8) bs1 = Some (code', nbits', bs', rv)"
        "encoded (drop 8 bits) bs1 (code', nbits', bs', rv)" "rv \<noteq> 0 \<or> nbits' < 8"
        using less.IH [of "nbits - 8", OF _ pending_push [OF less.prems(1) True] added_ok [OF a] added_roomy [OF a less.prems(3)]]
          True by auto
      have "flush_bytes code nbits bs = Some (code', nbits', bs', rv)"
        using add(1) r(1) rv1 True by (subst flush_bytes.simps) simp
      then show ?thesis using encoded_seq [OF a pack, of "[]"] r(2,3) by simp
    qed
  qed
qed

lemma pack_bytes: "pack (all_bits ws @ zs) = ws @ pack zs"
  by (induction ws) (simp_all add: pack_byte)

lemma loop_ok:
  "pending code nbits bits \<Longrightarrow> nbits < 32 \<Longrightarrow> bufs_ok bs \<Longrightarrow> roomy bs \<Longrightarrow> nghttp2_bufs_cur_avail bs = Some avail \<Longrightarrow>
   \<exists>r. encode_loop src code nbits avail bs = Some r \<and> encoded (bits @ huff_bits src) bs r"
proof (induction src arbitrary: code nbits bits bs avail)
  case Nil
  then show ?case using encoded_nothing by (simp add: huff_bits_def)
next
  case (Cons b src)
  obtain n c where nc: "huff_sym_table ! unat b = (n, c)" by fastforce
  have b: "unat b < 257" by (rule less_trans [OF unat_u8_less]) simp
  let ?code = "code OR push_bit (32 - nbits) (ucast c)" and ?n = "nbits + n" and ?bits = "bits @ huff_code (unat b)"
  have p: "pending ?code ?n ?bits" using pending_code [OF Cons.prems(1,2) b nc] .
  have bits: "bits @ huff_bits (b # src) = ?bits @ huff_bits src" by (simp add: huff_bits_def)
  have n: "n \<le> 30" using code_cases [OF b] nc by (metis Pair_inject)
  consider (small) "?n < 32" | (word) "32 \<le> ?n" "4 \<le> avail" | (bytes) "32 \<le> ?n" "avail < 4" by linarith
  then show ?case
  proof cases
    case small
    then show ?thesis
      using Cons.IH [OF p small Cons.prems(3-5)] by (simp add: nc Let_def bits)
  next
    case word
    let ?w = "be_bytes32 (ucast (drop_bit 32 ?code))"
    have av: "length ?w \<le> nghttp2_buf_avail (chunks bs ! bufs_cur bs)"
      using word(2) Cons.prems(3,5) by (simp add: cur_avail_ok)
    obtain bs1 where put: "put_cur ?w bs = Some bs1" "added bs ?w bs1 0" "nghttp2_bufs_cur_avail bs1 = Some (avail - 4)"
      using put_cur_added [OF Cons.prems(3) av] Cons.prems(3,5) by (auto simp: cur_avail_ok)
    have p1: "pending (push_bit 32 ?code) (?n - 32) (drop 32 ?bits)" using pending_push [OF p word(1)] .
    have pack4: "pack (?bits @ more) = ?w @ pack (drop 32 ?bits @ more)" for more
      using pack_bytes [of ?w "drop 32 ?bits @ more"] unfolding pending_word [OF p word(1)]
      by (metis append.assoc append_take_drop_id)
    show ?thesis
      using Cons.IH [OF p1 _ added_ok [OF put(2)] added_roomy [OF put(2) Cons.prems(4)] put(3)] n Cons.prems(2)
        put(1) word encoded_seq [OF put(2) pack4, of "huff_bits src"] unfolding bits
      by (force simp: nc Let_def)
  next
    case bytes
    obtain code1 nbits1 bs1 rv1 where f: "flush_bytes ?code ?n bs = Some (code1, nbits1, bs1, rv1)"
      "encoded ?bits bs (code1, nbits1, bs1, rv1)" "rv1 \<noteq> 0 \<or> nbits1 < 8"
      using flush_ok [OF p Cons.prems(3,4)] by blast
    show ?thesis
    proof (cases "rv1 = 0")
      case False
      then show ?thesis
        using f bytes encoded_error [OF False f(2)] unfolding bits by (simp add: nc Let_def)
    next
      case True
      then obtain es1 bits1 where e1: "added bs es1 bs1 0" "pending code1 nbits1 bits1"
        "\<And>more. pack (?bits @ more) = es1 @ pack (bits1 @ more)" using f(2) by (auto simp: encoded_def)
      have av1: "nghttp2_bufs_cur_avail bs1 = Some (nghttp2_buf_avail (chunks bs1 ! bufs_cur bs1))"
        using cur_avail_ok [OF added_ok [OF e1(1)]] .
      show ?thesis
        using Cons.IH [OF e1(2) _ added_ok [OF e1(1)] added_roomy [OF e1(1) Cons.prems(4)] av1] f(1,3) True bytes av1
          encoded_seq [OF e1(1,3), of "huff_bits src"] unfolding bits
        by (force simp: nc Let_def)
    qed
  qed
qed

lemma last_byte:
  assumes "pending code nbits bits" "nbits < 8" "nbits \<noteq> 0"
  shows "pack bits = [ucast (drop_bit 56 code) OR (push_bit (8 - nbits) 1 - 1)]"
proof (rule pack_padded)
  let ?b = "ucast (drop_bit 56 code) OR (push_bit (8 - nbits) 1 - 1) :: u8"
  show "all_bits [?b] = bits @ replicate (8 - nbits) True"
  proof (rule nth_equalityI)
    show "length (all_bits [?b]) = length (bits @ replicate (8 - nbits) True)"
      using assms by (simp add: pending_def)
    fix i assume "i < length (all_bits [?b])"
    then have i: "i < 8" by simp
    have "all_bits [?b] ! i \<longleftrightarrow> bit code (63 - i) \<or> 7 - i < 8 - nbits"
      using i by (auto simp: byte_bits_def bit_simps push_bit_of_1 simp flip: mask_eq_decr_exp)
    then show "all_bits [?b] ! i = (bits @ replicate (8 - nbits) True) ! i"
      using pending_bit [OF assms(1), of "63 - i"] assms i by (auto simp: nth_append pending_def)
  qed
qed (use assms in simp)

lemma encode_ok:
  assumes "bufs_ok bs" "roomy bs"
  shows "\<exists>bs' rv. nghttp2_hd_huff_encode bs src = Some (bs', rv) \<and> added bs (huff_encoding src) bs' rv"
proof -
  have av: "nghttp2_bufs_cur_avail bs = Some (nghttp2_buf_avail (chunks bs ! bufs_cur bs))"
    using cur_avail_ok [OF assms(1)] .
  have p0: "pending 0 0 []" by (simp add: pending_def)
  obtain code nbits bs1 rv where l: "encode_loop src 0 0 (nghttp2_buf_avail (chunks bs ! bufs_cur bs)) bs =
      Some (code, nbits, bs1, rv)" "encoded (huff_bits src) bs (code, nbits, bs1, rv)"
    using loop_ok [OF p0 zero_less_numeral assms av, of src] by auto
  show ?thesis
  proof (cases "rv = 0")
    case False
    then show ?thesis using encoded_all [OF False l(2)] l(1) av False by (simp add: nghttp2_hd_huff_encode_def huff_encoding_def)
  next
    case True
    then obtain es bits where e: "added bs es bs1 0" "pending code nbits bits"
      "\<And>more. pack (huff_bits src @ more) = es @ pack (bits @ more)" using l(2) by (auto simp: encoded_def)
    obtain code1 nbits1 bs2 rv1 where f: "flush_bytes code nbits bs1 = Some (code1, nbits1, bs2, rv1)"
      "encoded bits bs1 (code1, nbits1, bs2, rv1)" "rv1 \<noteq> 0 \<or> nbits1 < 8"
      using flush_ok [OF e(2) added_ok [OF e(1)] added_roomy [OF e(1) assms(2)]] by blast
    have all: "encoded (huff_bits src) bs (code1, nbits1, bs2, rv1)"
      using encoded_seq [OF e(1,3), of "[]"] f(2) by simp
    show ?thesis
    proof (cases "rv1 = 0")
      case False
      then show ?thesis using encoded_all [OF False all] l(1) f(1) True av False by (simp add: nghttp2_hd_huff_encode_def huff_encoding_def)
    next
      case rv1: True
      then obtain es1 bits1 where e1: "added bs es1 bs2 0" "pending code1 nbits1 bits1"
        "\<And>more. pack (huff_bits src @ more) = es1 @ pack (bits1 @ more)" using all by (auto simp: encoded_def)
      have enc: "huff_encoding src = es1 @ pack bits1" using e1(3) [of "[]"] by (simp add: huff_encoding_def)
      show ?thesis
      proof (cases "nbits1 = 0")
        case True
        then have "pack bits1 = []" using e1(2) by (simp add: pending_def)
        then show ?thesis
          using l(1) f(1) \<open>rv = 0\<close> rv1 True av e1(1) enc by (simp add: nghttp2_hd_huff_encode_def)
      next
        case False
        let ?b = "ucast (drop_bit 56 code1) OR (push_bit (8 - nbits1) 1 - 1) :: u8"
        obtain bs3 rv3 where add: "nghttp2_bufs_addb bs2 ?b = Some (bs3, rv3)" "added bs2 [?b] bs3 rv3"
          using bufs_addb_returns [OF added_ok [OF e1(1)] added_roomy [OF e1(1) assms(2)]] by blast
        have "added bs (huff_encoding src) bs3 rv3"
          using added_seq [OF e1(1) add(2)] last_byte [OF e1(2) _ False] f(3) rv1 enc by simp
        then show ?thesis
          using l(1) f(1) \<open>rv = 0\<close> rv1 av False add(1) by (simp add: nghttp2_hd_huff_encode_def)
      qed
    qed
  qed
qed

lemma count_ok: "nghttp2_hd_huff_encode_count src = length (huff_encoding src)"
proof -
  have len: "length (huff_code (unat b)) = fst (huff_sym_table ! unat b)" for b :: u8
    by (rule code_cases [OF less_trans [OF unat_u8_less [of b], of 257]]) simp_all
  have sum: "foldl (\<lambda>nbits b. nbits + fst (huff_sym_table ! unat b)) n src = n + length (huff_bits src)" for n
    by (induction src arbitrary: n) (simp_all add: huff_bits_def len)
  obtain k where k: "k < 8" "all_bits (huff_encoding src) = huff_bits src @ replicate k True"
    using all_bits_pack [of "huff_bits src"] by (auto simp: huff_encoding_def)
  have "8 * length (huff_encoding src) = length (huff_bits src) + k"
    using arg_cong [OF k(2), of length] by (simp add: length_concat comp_def sum_list_triv)
  then show ?thesis using k(1) sum [of 0] by (simp add: nghttp2_hd_huff_encode_count_def)
qed

lemma huff_encoding_inject:
  assumes "huff_encoding a = huff_encoding b"
  shows "a = b"
proof -
  obtain j k where "j < 8" "k < 8" "all_bits (huff_encoding a) = huff_bits a @ replicate j True"
    "all_bits (huff_encoding b) = huff_bits b @ replicate k True"
    using all_bits_pack unfolding huff_encoding_def by metis
  then have eq: "concat (map huff_code (map unat a)) @ replicate j True = concat (map huff_code (map unat b)) @ replicate k True"
    and pads: "rest_ok (replicate j True)" "rest_ok (replicate k True)"
    using assms by (auto simp: huff_bits_def comp_def intro!: ones_rest_ok)
  have "unat c < 257" for c :: u8 by (rule less_trans [OF unat_u8_less]) simp
  then have "map unat a = map unat b" using codes_unique [OF eq _ pads] by auto
  moreover have "inj (unat :: u8 \<Rightarrow> nat)" by (rule injI) (simp add: word_unat_eq_iff)
  ultimately show ?thesis by (metis map_injective)
qed

lemma decode_encoding:
  assumes "buf_ok buf" "2 * length (huff_encoding src) \<le> nghttp2_buf_avail buf"
  shows "\<exists>fs buf'. nghttp2_hd_huff_decode nghttp2_hd_huff_decode_context_init buf (huff_encoding src) True =
      Some (fs, buf', int (length (huff_encoding src))) \<and>
    buf_ok buf' \<and> present buf' = present buf @ src \<and> \<not> nghttp2_hd_huff_decode_failure_state fs \<and>
    nghttp2_buf_avail buf \<le> nghttp2_buf_avail buf' + 2 * length (huff_encoding src)"
proof -
  let ?init = nghttp2_hd_huff_decode_context_init
  obtain fs out where w: "walk ?init (nibbles (huff_encoding src)) = (fs, out)" by fastforce
  obtain buf' where d: "decode_loop ?init buf (huff_encoding src) = Some (fs, buf')" "buf_ok buf'" "present buf' = present buf @ out"
    "nghttp2_buf_avail buf \<le> nghttp2_buf_avail buf' + 2 * length (huff_encoding src)"
    using loop_walk [OF _ assms w] start_good(2) by auto
  have acc: "fs AND NGHTTP2_HUFF_ACCEPTED \<noteq> 0" "huff_encoding src = huff_encoding out"
    using walk_accepts [OF w] by (auto split: if_splits)
  have "fs \<noteq> 0x100" using acc(1) by auto
  then show ?thesis
    using d acc huff_encoding_inject [OF acc(2)]
    by (simp add: nghttp2_hd_huff_decode_def nghttp2_hd_huff_decode_failure_state_def)
qed

section \<open>The theorems\<close>

text \<open>The input may arrive in pieces; only the last is decoded as final.\<close>

fun decode_pieces :: "u16 \<Rightarrow> nghttp2_buf \<Rightarrow> bytes list \<Rightarrow> bytes \<Rightarrow> (u16 \<times> nghttp2_buf \<times> int) option" where
  "decode_pieces ctx buf [] p = nghttp2_hd_huff_decode ctx buf p True"
| "decode_pieces ctx buf (q # qs) p = do {
     (ctx1, buf1, rv) \<leftarrow> nghttp2_hd_huff_decode ctx buf q False;
     decode_pieces ctx1 buf1 qs p
   }"

lemma pieces_walk:
  "node fs \<le> 256 \<Longrightarrow> buf_ok buf \<Longrightarrow> 2 * length (concat qs @ p) \<le> nghttp2_buf_avail buf \<Longrightarrow>
   walk fs (nibbles (concat qs @ p)) = (fs', out) \<Longrightarrow>
   \<exists>buf'. decode_pieces fs buf qs p =
       Some (fs', buf', if fs' AND NGHTTP2_HUFF_ACCEPTED = 0 then NGHTTP2_ERR_HEADER_COMP else int (length p)) \<and>
     present buf' = present buf @ out"
proof (induction qs arbitrary: fs buf out)
  case Nil
  then show ?case using loop_walk [of fs buf p fs' out] by (auto simp: nghttp2_hd_huff_decode_def)
next
  case (Cons q qs)
  have nib: "nibbles (concat (q # qs) @ p) = nibbles q @ nibbles (concat qs @ p)" by (simp add: nibbles_def)
  obtain fs1 o1 where w1: "walk fs (nibbles q) = (fs1, o1)" by fastforce
  obtain o2 where w2: "walk fs1 (nibbles (concat qs @ p)) = (fs', o2)" "out = o1 @ o2"
    using Cons.prems(4) unfolding nib walk_append w1 by (auto split: prod.splits)
  obtain buf1 where b1: "decode_loop fs buf q = Some (fs1, buf1)" "buf_ok buf1" "present buf1 = present buf @ o1"
    "nghttp2_buf_avail buf \<le> nghttp2_buf_avail buf1 + 2 * length q" "node fs1 \<le> 256"
    using loop_walk [OF Cons.prems(1,2) _ w1] Cons.prems(3) by auto
  have "2 * length (concat qs @ p) \<le> nghttp2_buf_avail buf1" using b1(4) Cons.prems(3) by simp
  from Cons.IH [OF b1(5,2) this w2(1)] show ?case
    using b1 w2(2) by (auto simp: nghttp2_hd_huff_decode_def)
qed

text \<open>
  C13. The decoder accepts exactly the Huffman encodings and recovers what was encoded. With a buffer
  of two bytes for each byte of input, however the input is cut into pieces, decoding stays inside
  the tables and the buffer; it reports an error when the input encodes no string at all, and
  otherwise has written the one string of which the input is the encoding. Once the failure state is
  reached, no continuation of the input is an encoding.
\<close>

theorem huff_decode_exact:
  assumes "buf_ok buf" "2 * length (concat qs @ p) \<le> nghttp2_buf_avail buf"
  shows "\<exists>fs buf' out rv.
    decode_pieces nghttp2_hd_huff_decode_context_init buf qs p = Some (fs, buf', rv) \<and>
    present buf' = present buf @ out \<and>
    (if rv = NGHTTP2_ERR_HEADER_COMP then \<forall>src. concat qs @ p \<noteq> huff_encoding src
     else rv = int (length p) \<and> concat qs @ p = huff_encoding out) \<and>
    (if nghttp2_hd_huff_decode_failure_state fs then \<forall>rest src. concat qs @ p @ rest \<noteq> huff_encoding src else True)"
proof -
  let ?init = nghttp2_hd_huff_decode_context_init
  obtain fs out where w: "walk ?init (nibbles (concat qs @ p)) = (fs, out)" by fastforce
  have "node ?init \<le> 256" by (simp add: start_good)
  from pieces_walk [OF this assms w] obtain buf' where d: "decode_pieces ?init buf qs p =
      Some (fs, buf', if fs AND NGHTTP2_HUFF_ACCEPTED = 0 then NGHTTP2_ERR_HEADER_COMP else int (length p))"
    "present buf' = present buf @ out" by blast
  have "\<forall>rest src. concat qs @ p @ rest \<noteq> huff_encoding src" if "fs = 0x100"
  proof -
    have "walk ?init (nibbles (concat qs @ p @ rest)) = (0x100, out)" for rest
    proof -
      have "nibbles (concat qs @ p @ rest) = nibbles (concat qs @ p) @ nibbles rest" by (simp add: nibbles_def)
      then show ?thesis using w that walk_failed [OF nibbles_small [of rest]] by (simp add: walk_append)
    qed
    from walk_accepts [OF this] show ?thesis by simp
  qed
  then show ?thesis
    using d walk_accepts [OF w] by (auto simp: nghttp2_hd_huff_decode_failure_state_def split: if_splits)
qed

theorem huff_decode_exact_witness:
  "\<exists>fs buf' out rv.
    decode_pieces nghttp2_hd_huff_decode_context_init (nghttp2_buf_wrap_init [0, 0, 0, 0]) [[0x64]] [0x02] = Some (fs, buf', rv) \<and>
    present buf' = present (nghttp2_buf_wrap_init [0, 0, 0, 0]) @ out \<and>
    (if rv = NGHTTP2_ERR_HEADER_COMP then \<forall>src. concat [[0x64]] @ [0x02] \<noteq> huff_encoding src
     else rv = int (length [0x02 :: u8]) \<and> concat [[0x64]] @ [0x02] = huff_encoding out) \<and>
    (if nghttp2_hd_huff_decode_failure_state fs
     then \<forall>rest src. concat [[0x64]] @ [0x02] @ rest \<noteq> huff_encoding src else True)"
proof (rule huff_decode_exact)
  show "buf_ok (nghttp2_buf_wrap_init [0, 0, 0, 0])"
    "2 * length (concat [[0x64]] @ [0x02 :: u8]) \<le> nghttp2_buf_avail (nghttp2_buf_wrap_init [0, 0, 0, 0])"
    by (simp_all add: buf_ok_def nghttp2_buf_wrap_init_def nghttp2_buf_avail_def nghttp2_buf_cap_def)
qed

text \<open>
  C38. The encoder writes the Huffman encoding. Into any chain of buffers it returns, writes inside
  the buffers and appends exactly the encoding of its input, whose length is what
  \<^verbatim>\<open>nghttp2_hd_huff_encode_count\<close> announces; it fails only if the chain has no room for it or
  an allocation fails, and then a beginning of the encoding has been written.
\<close>

theorem huff_encode_writes:
  assumes "bufs_ok bs" "roomy bs"
  shows "\<exists>bs' rv n. nghttp2_hd_huff_encode bs src = Some (bs', rv) \<and> bufs_ok bs' \<and>
    content bs' = content bs @ take n (huff_encoding src) \<and>
    nghttp2_hd_huff_encode_count src = length (huff_encoding src) \<and>
    (if rv = 0 then n = nghttp2_hd_huff_encode_count src
     else n < nghttp2_hd_huff_encode_count src \<and>
       (rv = NGHTTP2_ERR_BUFFER_ERROR \<and> room bs = n \<or>
        rv = NGHTTP2_ERR_NOMEM \<and> \<not> list_all id (mem_answers (bufs_mem bs))))"
proof -
  obtain bs' rv where e: "nghttp2_hd_huff_encode bs src = Some (bs', rv)" "added bs (huff_encoding src) bs' rv"
    using encode_ok [OF assms] by blast
  then show ?thesis unfolding count_ok added_def by (auto split: if_splits)
qed

text \<open>
  Decoding undoes encoding: a string is encoded into a buffer of the announced length, and
  decoding the bytes written gives the string back.
\<close>

theorem huff_roundtrip:
  assumes "length mem = nghttp2_hd_huff_encode_count src" "length out = 2 * length mem"
  shows "case nghttp2_bufs_wrap_init mem \<lparr>mem_answers = [], mem_fill = f, mem_live = l\<rparr> of
     (Some bs, _, _) \<Rightarrow>
       (case nghttp2_hd_huff_encode bs src of
          Some (bs', rv) \<Rightarrow> rv = 0 \<and>
            (case nghttp2_hd_huff_decode nghttp2_hd_huff_decode_context_init (nghttp2_buf_wrap_init out) (content bs') True of
               Some (fs, buf', n) \<Rightarrow> n = int (length mem) \<and> present buf' = src
             | None \<Rightarrow> False)
        | None \<Rightarrow> False)
   | _ \<Rightarrow> False"
proof -
  let ?init = nghttp2_hd_huff_decode_context_init
  let ?m = "\<lparr>mem_answers = [], mem_fill = f, mem_live = l\<rparr>"
  obtain bs m' rv0 where init: "nghttp2_bufs_wrap_init mem ?m = (Some bs, m', rv0)"
    and ok: "bufs_ok bs" "roomy bs" "content bs = []" "room bs = length mem"
    by (simp add: nghttp2_bufs_wrap_init_def nghttp2_mem_malloc_def mem_alloc_def bufs_ok_def roomy_def content_def room_def
        buf_ok_def nghttp2_buf_wrap_init_def nghttp2_buf_avail_def nghttp2_buf_cap_def present_def)
  obtain bs' rv where e: "nghttp2_hd_huff_encode bs src = Some (bs', rv)" "added bs (huff_encoding src) bs' rv"
    using encode_ok [OF ok(1,2)] by blast
  have answers: "list_all id (mem_answers (bufs_mem bs))"
    using init by (auto simp: nghttp2_bufs_wrap_init_def nghttp2_mem_malloc_def mem_alloc_def)
  have rv: "rv = 0" "content bs' = huff_encoding src"
    using e(2) ok(3,4) assms(1) answers unfolding count_ok added_def by auto
  let ?buf = "nghttp2_buf_wrap_init out"
  have buf: "buf_ok ?buf" "2 * length (content bs') \<le> nghttp2_buf_avail ?buf" "present ?buf = []"
    using assms rv(2) count_ok [of src]
    by (simp_all add: buf_ok_def nghttp2_buf_wrap_init_def nghttp2_buf_avail_def nghttp2_buf_cap_def present_def)
  show ?thesis
    using init e(1) rv decode_encoding [OF buf(1) buf(2) [unfolded rv(2)]] buf(3) assms(1) count_ok [of src] by auto
qed

theorem huff_roundtrip_witness:
  "case nghttp2_bufs_wrap_init [0] \<lparr>mem_answers = [], mem_fill = \<lambda>_. 0, mem_live = 0\<rparr> of
     (Some bs, _, _) \<Rightarrow>
       (case nghttp2_hd_huff_encode bs [0x61] of
          Some (bs', rv) \<Rightarrow> rv = 0 \<and>
            (case nghttp2_hd_huff_decode nghttp2_hd_huff_decode_context_init (nghttp2_buf_wrap_init [0, 0]) (content bs') True of
               Some (fs, buf', n) \<Rightarrow> n = int (length [0 :: u8]) \<and> present buf' = [0x61]
             | None \<Rightarrow> False)
        | None \<Rightarrow> False)
   | _ \<Rightarrow> False"
  by (rule huff_roundtrip) (simp_all add: nghttp2_hd_huff_encode_count_def sym_table_nth)

theorem huff_encode_writes_witness:
  "case nghttp2_bufs_wrap_init [0, 0] \<lparr>mem_answers = [], mem_fill = \<lambda>_. 0, mem_live = 0\<rparr> of
     (Some bs, _, _) \<Rightarrow>
       \<exists>bs' rv n. nghttp2_hd_huff_encode bs [0x61] = Some (bs', rv) \<and> bufs_ok bs' \<and>
         content bs' = take n (huff_encoding [0x61]) \<and> nghttp2_hd_huff_encode_count [0x61] = length (huff_encoding [0x61]) \<and>
         (if rv = 0 then n = nghttp2_hd_huff_encode_count [0x61]
          else n < nghttp2_hd_huff_encode_count [0x61] \<and>
            (rv = NGHTTP2_ERR_BUFFER_ERROR \<and> room bs = n \<or>
             rv = NGHTTP2_ERR_NOMEM \<and> \<not> list_all id (mem_answers (bufs_mem bs))))
   | _ \<Rightarrow> False"
proof -
  obtain bs m' where init: "nghttp2_bufs_wrap_init [0, 0] \<lparr>mem_answers = [], mem_fill = \<lambda>_. 0, mem_live = 0\<rparr> = (Some bs, m', 0)"
    and ok: "bufs_ok bs" "roomy bs" "content bs = []"
    by (simp add: nghttp2_bufs_wrap_init_def nghttp2_mem_malloc_def mem_alloc_def bufs_ok_def roomy_def content_def
        buf_ok_def nghttp2_buf_wrap_init_def nghttp2_buf_cap_def present_def)
  show ?thesis using huff_encode_writes [OF ok(1,2), of "[0x61]"] ok(3) by (simp add: init del: take_Suc_Cons)
qed

end
