(* ===== verification/Ng_Queue.thy ===== *)
theory Ng_Queue
  imports Ng_Base "HOL-Library.Multiset"
begin

text \<open>
  The linked structures of the HTTP/2 library: the queue of \<^verbatim>\<open>nghttp2_queue.c\<close>, whose
  cells are allocated, the queue of outbound items of \<^verbatim>\<open>nghttp2_outbound_item.c\<close>, which links
  the items themselves, and the reference-counted buffers of \<^verbatim>\<open>nghttp2_rcbuf.c\<close>. The store is
  explicit: addresses are numbers, and following a dead pointer or a failed assertion is \<open>None\<close>.

  Both queues promise the same to their users, first in, first out; that is the locale \<open>fifo\<close>.
\<close>

section \<open>What a queue promises\<close>

locale fifo =
  fixes repr :: "'s \<Rightarrow> 'a list \<Rightarrow> bool"
    and push :: "'a \<Rightarrow> 's \<Rightarrow> 's option"
    and pop :: "'s \<Rightarrow> 's option"
    and front :: "'s \<Rightarrow> 'a option"
    and fresh :: "'a \<Rightarrow> 's \<Rightarrow> bool"
  assumes push_repr: "repr s xs \<Longrightarrow> fresh x s \<Longrightarrow> \<exists>s'. push x s = Some s' \<and> repr s' (xs @ [x])"
    and pop_repr: "repr s (x # xs) \<Longrightarrow> \<exists>s'. pop s = Some s' \<and> repr s' xs"
    and front_repr: "repr s (x # xs) \<Longrightarrow> front s = Some x"
begin

text \<open>A run takes \<open>Some x\<close> as a push and \<open>None\<close> as taking the front; it lists what was taken.\<close>

fun run :: "'a option list \<Rightarrow> 's \<Rightarrow> ('s \<times> 'a list) option" where
  "run [] s = Some (s, [])"
| "run (Some x # ops) s = Option.bind (push x s) (run ops)"
| "run (None # ops) s = do {
     x \<leftarrow> front s;
     s1 \<leftarrow> pop s;
     (s2, out) \<leftarrow> run ops s1;
     Some (s2, x # out)
   }"

text \<open>A run is possible when pushed entries are new and nothing is taken from an empty queue.\<close>

fun possible :: "'a option list \<Rightarrow> 's \<Rightarrow> nat \<Rightarrow> bool" where
  "possible [] s n \<longleftrightarrow> True"
| "possible (Some x # ops) s n \<longleftrightarrow> fresh x s \<and> (case push x s of None \<Rightarrow> True | Some s1 \<Rightarrow> possible ops s1 (n + 1))"
| "possible (None # ops) s n \<longleftrightarrow> 0 < n \<and> (case pop s of None \<Rightarrow> True | Some s1 \<Rightarrow> possible ops s1 (n - 1))"

lemma first_in_first_out:
  "repr s xs \<Longrightarrow> possible ops s (length xs) \<Longrightarrow>
   \<exists>s' out rest. run ops s = Some (s', out) \<and> repr s' rest \<and>
     xs @ [x. Some x \<leftarrow> ops] = out @ rest"
proof (induction ops arbitrary: s xs)
  case (Cons a ops)
  show ?case
  proof (cases a)
    case None
    then obtain x ys where x: "xs = x # ys" using Cons.prems(2) by (cases xs) auto
    obtain s1 where s1: "pop s = Some s1" "repr s1 ys" using pop_repr Cons.prems(1) x by blast
    obtain s' out rest where "run ops s1 = Some (s', out)" "repr s' rest"
      "ys @ [x. Some x \<leftarrow> ops] = out @ rest"
      using Cons.IH [OF s1(2)] Cons.prems(2) None s1 x by auto
    then show ?thesis using None s1 x front_repr Cons.prems(1) by auto
  next
    case (Some x)
    have "fresh x s" using Cons.prems(2) Some by simp
    then obtain s1 where s1: "push x s = Some s1" "repr s1 (xs @ [x])"
      using push_repr Cons.prems(1) by blast
    obtain s' out rest where "run ops s1 = Some (s', out)" "repr s' rest"
      "(xs @ [x]) @ [x. Some x \<leftarrow> ops] = out @ rest"
      using Cons.IH [OF s1(2)] Cons.prems(2) Some s1 by auto
    then show ?thesis using Some s1 by auto
  qed
qed simp

end

section \<open>The queue of cells\<close>

record 'a nghttp2_queue =
  q_front :: "nat option"
  q_back :: "nat option"
  q_cells :: "nat \<rightharpoonup> 'a \<times> nat option"

definition nghttp2_queue_init :: "(nat \<rightharpoonup> 'a \<times> nat option) \<Rightarrow> 'a nghttp2_queue" where
  "nghttp2_queue_init cells = \<lparr>q_front = None, q_back = None, q_cells = cells\<rparr>"

text \<open>\<open>cell\<close> is the answer of \<^verbatim>\<open>malloc\<close>, an unused address or null.\<close>

definition nghttp2_queue_push :: "nat option \<Rightarrow> 'a \<Rightarrow> 'a nghttp2_queue \<Rightarrow> ('a nghttp2_queue \<times> int) option" where
  "nghttp2_queue_push cell x q =
     (case cell of
        None \<Rightarrow> Some (q, NGHTTP2_ERR_NOMEM)
      | Some a \<Rightarrow>
          (let cells = (q_cells q)(a \<mapsto> (x, None)) in
           case q_back q of
             None \<Rightarrow> Some (\<lparr>q_front = Some a, q_back = Some a, q_cells = cells\<rparr>, 0)
           | Some b \<Rightarrow>
               (case cells b of
                  None \<Rightarrow> None
                | Some (y, _) \<Rightarrow>
                    Some (q\<lparr>q_back := Some a, q_cells := cells(b \<mapsto> (y, Some a))\<rparr>, 0))))"

definition nghttp2_queue_pop :: "'a nghttp2_queue \<Rightarrow> 'a nghttp2_queue option" where
  "nghttp2_queue_pop q = do {
     a \<leftarrow> q_front q;
     (_, nxt) \<leftarrow> q_cells q a;
     Some \<lparr>q_front = nxt, q_back = (if Some a = q_back q then None else q_back q),
           q_cells = (q_cells q)(a := None)\<rparr>
   }"

definition nghttp2_queue_front :: "'a nghttp2_queue \<Rightarrow> 'a option" where
  "nghttp2_queue_front q = do { a \<leftarrow> q_front q; c \<leftarrow> q_cells q a; Some (fst c) }"

definition nghttp2_queue_back :: "'a nghttp2_queue \<Rightarrow> 'a option" where
  "nghttp2_queue_back q = do { a \<leftarrow> q_back q; c \<leftarrow> q_cells q a; Some (fst c) }"

definition nghttp2_queue_empty :: "'a nghttp2_queue \<Rightarrow> bool" where
  "nghttp2_queue_empty q = (q_front q = None)"

text \<open>\<^verbatim>\<open>nghttp2_queue_free\<close> follows the cells; a cycle of cells would be freed twice.\<close>

fun free_cells :: "nat \<Rightarrow> nat option \<Rightarrow> (nat \<rightharpoonup> 'a \<times> nat option) \<Rightarrow> (nat \<rightharpoonup> 'a \<times> nat option) option" where
  "free_cells n None cells = Some cells"
| "free_cells 0 (Some a) cells = None"
| "free_cells (Suc n) (Some a) cells =
     (case cells a of None \<Rightarrow> None | Some (_, nxt) \<Rightarrow> free_cells n nxt (cells(a := None)))"

definition nghttp2_queue_free :: "nat \<Rightarrow> 'a nghttp2_queue \<Rightarrow> (nat \<rightharpoonup> 'a \<times> nat option) option" where
  "nghttp2_queue_free n q = free_cells n (q_front q) (q_cells q)"

text \<open>The cells from an address on, with their contents, up to the null pointer.\<close>

fun chain :: "(nat \<rightharpoonup> 'a \<times> nat option) \<Rightarrow> nat option \<Rightarrow> (nat \<times> 'a) list \<Rightarrow> bool" where
  "chain cells p [] \<longleftrightarrow> p = None"
| "chain cells p ((a, x) # xs) \<longleftrightarrow> p = Some a \<and> (\<exists>nxt. cells a = Some (x, nxt) \<and> chain cells nxt xs)"

definition queue_repr :: "'a nghttp2_queue \<Rightarrow> (nat \<times> 'a) list \<Rightarrow> bool" where
  "queue_repr q xs \<longleftrightarrow> chain (q_cells q) (q_front q) xs \<and> distinct (map fst xs) \<and>
     q_back q = (if xs = [] then None else Some (fst (last xs)))"

lemma chain_update [simp]:
  "a \<notin> fst ` set xs \<Longrightarrow> chain (cells(a := c)) p xs \<longleftrightarrow> chain cells p xs"
  by (induction xs arbitrary: p) auto

lemma chain_snoc:
  "chain cells p (xs @ [(b, y)]) \<Longrightarrow> distinct (map fst (xs @ [(b, y)])) \<Longrightarrow> a \<notin> fst ` set (xs @ [(b, y)]) \<Longrightarrow>
   chain (cells(a \<mapsto> (x, None), b \<mapsto> (y, Some a))) p (xs @ [(b, y), (a, x)])"
  by (induction xs arbitrary: p) auto

lemma chain_last:
  "chain cells p (xs @ [(b, y)]) \<Longrightarrow> cells b = Some (y, None)"
  by (induction xs arbitrary: p) auto

definition cell_push :: "nat \<times> 'a \<Rightarrow> 'a nghttp2_queue \<Rightarrow> 'a nghttp2_queue option" where
  "cell_push c q = map_option fst (nghttp2_queue_push (Some (fst c)) (snd c) q)"

definition cell_front :: "'a nghttp2_queue \<Rightarrow> (nat \<times> 'a) option" where
  "cell_front q = (case q_front q of None \<Rightarrow> None | Some a \<Rightarrow> map_option (\<lambda>x. (a, x)) (nghttp2_queue_front q))"

definition cell_fresh :: "nat \<times> 'a \<Rightarrow> 'a nghttp2_queue \<Rightarrow> bool" where
  "cell_fresh c q \<longleftrightarrow> q_cells q (fst c) = None"

lemma chain_dom: "chain cells p xs \<Longrightarrow> a \<in> fst ` set xs \<Longrightarrow> cells a \<noteq> None"
proof (induction xs arbitrary: p)
  case (Cons c xs)
  then show ?case by (cases c) (metis chain.simps(2) fst_conv image_insert insert_iff list.simps(15) option.distinct(1))
qed simp

lemma cell_push_ok:
  assumes q: "queue_repr q xs" "cell_fresh c q"
  shows "\<exists>q'. cell_push c q = Some q' \<and> queue_repr q' (xs @ [c])"
proof -
  obtain a x where c: "c = (a, x)" by (cases c)
  have fresh: "a \<notin> fst ` set xs"
    using q chain_dom unfolding queue_repr_def cell_fresh_def c by fastforce
  show ?thesis
  proof (cases xs rule: rev_cases)
    case Nil
    then show ?thesis
      using q by (simp add: c cell_push_def nghttp2_queue_push_def queue_repr_def)
  next
    case (snoc ys d)
    obtain b y where d: "d = (b, y)" by (cases d)
    have qb: "q_back q = Some b" "b \<noteq> a" using q(1) snoc fresh by (auto simp: queue_repr_def d)
    have ch: "chain (q_cells q) (q_front q) (ys @ [(b, y)])" "distinct (map fst (ys @ [(b, y)]))"
      using q(1) snoc by (auto simp: queue_repr_def d)
    have "chain ((q_cells q)(a \<mapsto> (x, None), b \<mapsto> (y, Some a))) (q_front q) (xs @ [c])"
      using chain_snoc [OF ch] fresh snoc c d by simp
    then show ?thesis
      using chain_last [OF ch(1)] qb ch(2) fresh snoc d
      by (simp add: c cell_push_def nghttp2_queue_push_def queue_repr_def)
  qed
qed

lemma cell_pop_ok:
  assumes "queue_repr q (c # xs)"
  shows "\<exists>q'. nghttp2_queue_pop q = Some q' \<and> queue_repr q' xs"
    and "cell_front q = Some c"
proof -
  obtain a x where c: "c = (a, x)" by (cases c)
  show "\<exists>q'. nghttp2_queue_pop q = Some q' \<and> queue_repr q' xs"
    using assms by (cases xs rule: rev_cases) (auto simp: c queue_repr_def nghttp2_queue_pop_def)
  show "cell_front q = Some c"
    using assms by (auto simp: c queue_repr_def cell_front_def nghttp2_queue_front_def)
qed

interpretation queue: fifo queue_repr cell_push nghttp2_queue_pop cell_front cell_fresh
  by unfold_locales (simp_all add: cell_push_ok cell_pop_ok)

lemma free_all:
  "chain cells p xs \<Longrightarrow> distinct (map fst xs) \<Longrightarrow> length xs \<le> n \<Longrightarrow>
   \<exists>cells'. free_cells n p cells = Some cells' \<and> dom cells' = dom cells - fst ` set xs"
proof (induction xs arbitrary: n p cells)
  case (Cons c xs)
  obtain a x where c: "c = (a, x)" by (cases c)
  obtain m where m: "n = Suc m" using Cons.prems(3) by (cases n) auto
  obtain nxt where nxt: "p = Some a" "cells a = Some (x, nxt)" "chain cells nxt xs"
    using Cons.prems(1) c by auto
  have "chain (cells(a := None)) nxt xs" using nxt(3) Cons.prems(2) c by simp
  then obtain cells' where "free_cells m nxt (cells(a := None)) = Some cells'"
    "dom cells' = dom (cells(a := None)) - fst ` set xs"
    using Cons.IH [OF \<open>chain (cells(a := None)) nxt xs\<close>, of m] Cons.prems(2,3) m by (metis Suc_le_mono distinct.simps(2) length_Cons list.simps(9))
  then show ?case using nxt m c by auto
qed (cases n, simp_all)

section \<open>The queue of outbound items\<close>

record outbound_item =
  item_cycle :: u64
  qnext :: "nat option"
  queued :: bool

record outbound_queue =
  oq_head :: "nat option"
  oq_tail :: "nat option"
  oq_n :: nat
  oq_items :: "nat \<rightharpoonup> outbound_item"

definition nghttp2_outbound_item_init :: "outbound_item" where
  "nghttp2_outbound_item_init = \<lparr>item_cycle = 0, qnext = None, queued = False\<rparr>"

definition nghttp2_outbound_queue_init :: "(nat \<rightharpoonup> outbound_item) \<Rightarrow> outbound_queue" where
  "nghttp2_outbound_queue_init items = \<lparr>oq_head = None, oq_tail = None, oq_n = 0, oq_items = items\<rparr>"

definition nghttp2_outbound_queue_push :: "nat \<Rightarrow> outbound_queue \<Rightarrow> outbound_queue option" where
  "nghttp2_outbound_queue_push a q =
     (case oq_tail q of
        Some t \<Rightarrow>
          (case oq_items q t of
             None \<Rightarrow> None
           | Some it \<Rightarrow> Some (q\<lparr>oq_items := (oq_items q)(t \<mapsto> it\<lparr>qnext := Some a\<rparr>), oq_tail := Some a, oq_n := oq_n q + 1\<rparr>))
      | None \<Rightarrow> Some (q\<lparr>oq_head := Some a, oq_tail := Some a, oq_n := oq_n q + 1\<rparr>))"

definition nghttp2_outbound_queue_pop :: "outbound_queue \<Rightarrow> outbound_queue option" where
  "nghttp2_outbound_queue_pop q =
     (case oq_head q of
        None \<Rightarrow> Some q
      | Some h \<Rightarrow> do {
          it \<leftarrow> oq_items q h;
          Some (q\<lparr>oq_head := qnext it, oq_items := (oq_items q)(h \<mapsto> it\<lparr>qnext := None\<rparr>),
                  oq_tail := (if qnext it = None then None else oq_tail q), oq_n := oq_n q - 1\<rparr>)
        })"

definition nghttp2_outbound_queue_top :: "outbound_queue \<Rightarrow> nat option" where
  "nghttp2_outbound_queue_top q = oq_head q"

definition nghttp2_outbound_queue_size :: "outbound_queue \<Rightarrow> nat" where
  "nghttp2_outbound_queue_size q = oq_n q"

text \<open>The items linked from an address on.\<close>

fun items_from :: "(nat \<rightharpoonup> outbound_item) \<Rightarrow> nat option \<Rightarrow> nat list \<Rightarrow> bool" where
  "items_from items p [] \<longleftrightarrow> p = None"
| "items_from items p (a # as) \<longleftrightarrow> p = Some a \<and> (\<exists>it. items a = Some it \<and> items_from items (qnext it) as)"

definition outbound_repr :: "outbound_queue \<Rightarrow> nat list \<Rightarrow> bool" where
  "outbound_repr q as \<longleftrightarrow> items_from (oq_items q) (oq_head q) as \<and> distinct as \<and> oq_n q = length as \<and>
     oq_tail q = (if as = [] then None else Some (last as))"

definition item_fresh :: "nat \<Rightarrow> outbound_queue \<Rightarrow> bool" where
  "item_fresh a q \<longleftrightarrow> (case oq_items q a of None \<Rightarrow> False | Some it \<Rightarrow> qnext it = None) \<and> oq_tail q \<noteq> Some a"

lemma items_from_update [simp]:
  "a \<notin> set as \<Longrightarrow> items_from (items(a := c)) p as \<longleftrightarrow> items_from items p as"
  by (induction as arbitrary: p) auto

lemma items_from_last: "items_from items p (as @ [b]) \<Longrightarrow> \<exists>it. items b = Some it \<and> qnext it = None"
  by (induction as arbitrary: p) auto

lemma items_from_inner:
  "items_from items p as \<Longrightarrow> a \<in> set as \<Longrightarrow> items a = Some it \<Longrightarrow> qnext it = None \<Longrightarrow> a = last as"
proof (induction as arbitrary: p)
  case (Cons b as)
  then show ?case by (cases as) auto
qed simp

lemma items_from_snoc:
  "items_from items p (as @ [b]) \<Longrightarrow> distinct (as @ [b]) \<Longrightarrow> a \<notin> set (as @ [b]) \<Longrightarrow>
   items a = Some it \<Longrightarrow> qnext it = None \<Longrightarrow> items b = Some jt \<Longrightarrow>
   items_from (items(b \<mapsto> jt\<lparr>qnext := Some a\<rparr>)) p (as @ [b, a])"
  by (induction as arbitrary: p) auto

lemma outbound_push_ok:
  assumes q: "outbound_repr q as" "item_fresh a q"
  shows "\<exists>q'. nghttp2_outbound_queue_push a q = Some q' \<and> outbound_repr q' (as @ [a])"
proof -
  obtain it where it: "oq_items q a = Some it" "qnext it = None" "oq_tail q \<noteq> Some a"
    using q(2) by (auto simp: item_fresh_def split: option.splits)
  have new: "a \<notin> set as"
    using items_from_inner [of "oq_items q" "oq_head q" as a it] it(1,2) q(1) it(3) by (auto simp: outbound_repr_def split: if_splits)
  show ?thesis
  proof (cases as rule: rev_cases)
    case Nil
    then show ?thesis using q it by (simp add: nghttp2_outbound_queue_push_def outbound_repr_def)
  next
    case (snoc bs b)
    have r: "items_from (oq_items q) (oq_head q) (bs @ [b])" "distinct (bs @ [b])" "oq_n q = length (bs @ [b])" "oq_tail q = Some b"
      using q(1) snoc by (simp_all add: outbound_repr_def)
    obtain jt where jt: "oq_items q b = Some jt" using items_from_last [OF r(1)] by auto
    show ?thesis
      using items_from_snoc [OF r(1,2) _ it(1,2) jt] new snoc r jt
      by (simp add: nghttp2_outbound_queue_push_def outbound_repr_def)
  qed
qed

lemma outbound_pop_ok:
  assumes "outbound_repr q (a # as)"
  shows "\<exists>q'. nghttp2_outbound_queue_pop q = Some q' \<and> outbound_repr q' as"
    and "nghttp2_outbound_queue_top q = Some a"
  using assms by (cases as; auto simp: outbound_repr_def nghttp2_outbound_queue_pop_def nghttp2_outbound_queue_top_def)+

interpretation outbound: fifo outbound_repr nghttp2_outbound_queue_push nghttp2_outbound_queue_pop
  nghttp2_outbound_queue_top item_fresh
  by unfold_locales (simp_all add: outbound_push_ok outbound_pop_ok)

section \<open>Reference-counted buffers\<close>

record nghttp2_rcbuf =
  rc_base :: bytes
  rc_len :: nat
  rc_ref :: int

type_synonym rc_heap = "nat \<rightharpoonup> nghttp2_rcbuf"

text \<open>\<open>p\<close> is the answer of the allocator, \<open>junk\<close> the content of the fresh memory.\<close>

definition nghttp2_rcbuf_new :: "nat option \<Rightarrow> bytes \<Rightarrow> rc_heap \<Rightarrow> rc_heap \<times> int" where
  "nghttp2_rcbuf_new p junk h =
     (case p of
        None \<Rightarrow> (h, NGHTTP2_ERR_NOMEM)
      | Some a \<Rightarrow> (h(a \<mapsto> \<lparr>rc_base = junk, rc_len = length junk, rc_ref = 1\<rparr>), 0))"

definition nghttp2_rcbuf_new2 :: "nat option \<Rightarrow> bytes \<Rightarrow> bytes \<Rightarrow> rc_heap \<Rightarrow> (rc_heap \<times> int) option" where
  "nghttp2_rcbuf_new2 p junk src h =
     (case nghttp2_rcbuf_new p (take (length src + 1) (junk @ replicate (length src + 1) 0)) h of
        (h1, rv) \<Rightarrow>
          if rv \<noteq> 0 then Some (h1, rv)
          else do {
            a \<leftarrow> p;
            b \<leftarrow> h1 a;
            (base, i) \<leftarrow> nghttp2_cpymem (rc_base b) 0 src;
            base1 \<leftarrow> wr base i 0;
            Some (h1(a \<mapsto> b\<lparr>rc_len := length src, rc_base := base1\<rparr>), 0)
          })"

definition nghttp2_rcbuf_incref :: "nat \<Rightarrow> rc_heap \<Rightarrow> rc_heap option" where
  "nghttp2_rcbuf_incref a h = do {
     b \<leftarrow> h a;
     if rc_ref b = -1 then Some h
     else if rc_ref b = 2147483647 then None
     else Some (h(a \<mapsto> b\<lparr>rc_ref := rc_ref b + 1\<rparr>))
   }"

definition nghttp2_rcbuf_decref :: "nat option \<Rightarrow> rc_heap \<Rightarrow> rc_heap option" where
  "nghttp2_rcbuf_decref p h =
     (case p of
        None \<Rightarrow> Some h
      | Some a \<Rightarrow> do {
          b \<leftarrow> h a;
          if rc_ref b = -1 then Some h
          else if \<not> rc_ref b > 0 then None
          else if rc_ref b - 1 = 0 then Some (h(a := None))
          else Some (h(a \<mapsto> b\<lparr>rc_ref := rc_ref b - 1\<rparr>))
        })"

definition nghttp2_rcbuf_get_buf :: "nat \<Rightarrow> rc_heap \<Rightarrow> bytes option" where
  "nghttp2_rcbuf_get_buf a h = do { b \<leftarrow> h a; rd_block (rc_base b) 0 (rc_len b) }"

definition nghttp2_rcbuf_is_static :: "nat \<Rightarrow> rc_heap \<Rightarrow> bool option" where
  "nghttp2_rcbuf_is_static a h = do { b \<leftarrow> h a; Some (rc_ref b = -1) }"

text \<open>A program of references: each one is an address and can be copied and dropped.\<close>

datatype rc_op = Copy nat | Drop nat

fun rc_do :: "rc_op \<Rightarrow> rc_heap \<Rightarrow> rc_heap option" where
  "rc_do (Copy a) h = nghttp2_rcbuf_incref a h"
| "rc_do (Drop a) h = nghttp2_rcbuf_decref (Some a) h"

fun rc_run :: "rc_op list \<Rightarrow> rc_heap \<Rightarrow> rc_heap option" where
  "rc_run [] h = Some h"
| "rc_run (x # xs) h = Option.bind (rc_do x h) (rc_run xs)"

text \<open>The references that are left, or \<open>None\<close> when one is used that is not held.\<close>

fun held :: "rc_op list \<Rightarrow> nat multiset \<Rightarrow> nat multiset option" where
  "held [] R = Some R"
| "held (Copy a # xs) R = (if a \<in># R \<and> size R < 2147483647 then held xs (R + {#a#}) else None)"
| "held (Drop a # xs) R = (if a \<in># R then held xs (R - {#a#}) else None)"

definition slot_ok :: "nghttp2_rcbuf option \<Rightarrow> nat \<Rightarrow> bool" where
  "slot_ok s n = (case s of None \<Rightarrow> n = 0 | Some b \<Rightarrow> rc_ref b = -1 \<or> 0 < n \<and> rc_ref b = int n)"

definition rc_ok :: "rc_heap \<Rightarrow> nat multiset \<Rightarrow> bool" where
  "rc_ok h R \<longleftrightarrow> (\<forall>a. slot_ok (h a) (count R a))"

lemma rc_ok_held: "rc_ok h R \<Longrightarrow> a \<in># R \<Longrightarrow> \<exists>b. h a = Some b \<and> (rc_ref b = -1 \<or> rc_ref b = int (count R a))"
  unfolding rc_ok_def by (drule spec [of _ a]) (auto simp: count_eq_zero_iff slot_ok_def split: option.splits)

lemma rc_ok_update:
  "rc_ok h R \<Longrightarrow> slot_ok v (count R' a) \<Longrightarrow> (\<And>x. x \<noteq> a \<Longrightarrow> count R' x = count R x) \<Longrightarrow> rc_ok (h(a := v)) R'"
  by (simp add: rc_ok_def)

lemma rc_ok_same:
  "rc_ok h R \<Longrightarrow> h a = Some b \<Longrightarrow> rc_ref b = -1 \<Longrightarrow> (\<And>x. x \<noteq> a \<Longrightarrow> count R' x = count R x) \<Longrightarrow> rc_ok h R'"
proof -
  assume ok: "rc_ok h R" and a: "h a = Some b" "rc_ref b = -1" and R': "\<And>x. x \<noteq> a \<Longrightarrow> count R' x = count R x"
  have "slot_ok (h x) (count R' x)" for x
    using ok R' [of x] a by (cases "x = a") (simp_all add: rc_ok_def slot_ok_def)
  then show ?thesis by (simp add: rc_ok_def)
qed

lemma rc_step:
  assumes ok: "rc_ok h R" and op: "held (x # xs) R = Some R'"
  shows "\<exists>h1 R1. rc_do x h = Some h1 \<and> held xs R1 = Some R' \<and> rc_ok h1 R1 \<and>
    (\<forall>a b. h1 a = Some b \<longrightarrow> (\<exists>c. h a = Some c \<and> rc_base b = rc_base c \<and> rc_len b = rc_len c \<and> (rc_ref b = -1) = (rc_ref c = -1))) \<and>
    (\<forall>a c. h a = Some c \<longrightarrow> rc_ref c = -1 \<longrightarrow> h1 a = Some c)"
proof (cases x)
  case (Copy a)
  then have a: "a \<in># R" "size R < 2147483647" "held xs (R + {#a#}) = Some R'" using op by (auto split: if_splits)
  then obtain b where b: "h a = Some b" "rc_ref b = -1 \<or> rc_ref b = int (count R a)"
    using rc_ok_held [OF ok a(1)] by blast
  have "count R a \<le> size R" by (metis count_le_replicate_mset_subset_eq size_mset_mono size_replicate_mset order_refl)
  then have lt: "rc_ref b \<noteq> 2147483647" using b(2) a(2) by auto
  show ?thesis
  proof (cases "rc_ref b = -1")
    case True
    then have "rc_ok h (R + {#a#})" using rc_ok_same [OF ok b(1) True] by simp
    then show ?thesis using a b True Copy by (auto simp: nghttp2_rcbuf_incref_def)
  next
    case False
    let ?h = "h(a \<mapsto> b\<lparr>rc_ref := rc_ref b + 1\<rparr>)"
    have "rc_ok ?h (R + {#a#})" using b False by (intro rc_ok_update [OF ok]) (auto simp: slot_ok_def)
    then show ?thesis using a b False lt Copy by (intro exI [of _ ?h] exI [of _ "R + {#a#}"]) (auto simp: nghttp2_rcbuf_incref_def)
  qed
next
  case (Drop a)
  then have a: "a \<in># R" "held xs (R - {#a#}) = Some R'" using op by (auto split: if_splits)
  then obtain b where b: "h a = Some b" "rc_ref b = -1 \<or> rc_ref b = int (count R a)"
    using rc_ok_held [OF ok a(1)] by blast
  show ?thesis
  proof (cases "rc_ref b = -1")
    case True
    then have "rc_ok h (R - {#a#})" using rc_ok_same [OF ok b(1) True] by simp
    then show ?thesis using a b True Drop by (auto simp: nghttp2_rcbuf_decref_def)
  next
    case False
    then have ref: "rc_ref b = int (count R a)" "0 < count R a" using a b by auto
    let ?h = "if count R a = 1 then h(a := None) else h(a \<mapsto> b\<lparr>rc_ref := rc_ref b - 1\<rparr>)"
    have "rc_ok ?h (R - {#a#})" by (cases "count R a = 1")
        (use ref in \<open>auto intro!: rc_ok_update [OF ok] simp: slot_ok_def simp del: count_greater_zero_iff\<close>)
    moreover have "rc_do x h = Some ?h" using a b ref False Drop by (auto simp: nghttp2_rcbuf_decref_def)
    ultimately show ?thesis using a b False by (intro exI [of _ ?h] exI [of _ "R - {#a#}"]) (auto split: if_splits)
  qed
qed

text \<open>What a run leaves of a buffer: its content, and that it is static if it was.\<close>

definition same_buf :: "nghttp2_rcbuf \<Rightarrow> nghttp2_rcbuf \<Rightarrow> bool" where
  "same_buf b c \<longleftrightarrow> rc_base b = rc_base c \<and> rc_len b = rc_len c \<and> (rc_ref b = -1 \<longleftrightarrow> rc_ref c = -1)"

lemma rc_run_ok:
  "rc_ok h R \<Longrightarrow> held xs R = Some R' \<Longrightarrow>
   \<exists>h'. rc_run xs h = Some h' \<and> rc_ok h' R' \<and>
     (\<forall>a b. h' a = Some b \<longrightarrow> (\<exists>c. h a = Some c \<and> same_buf b c)) \<and>
     (\<forall>a c. h a = Some c \<longrightarrow> rc_ref c = -1 \<longrightarrow> h' a = Some c)"
proof (induction xs arbitrary: h R)
  case Nil
  then show ?case by (simp add: same_buf_def)
next
  case (Cons x xs)
  obtain h1 R1 where 1: "rc_do x h = Some h1" "held xs R1 = Some R'" "rc_ok h1 R1"
    "\<forall>a b. h1 a = Some b \<longrightarrow> (\<exists>c. h a = Some c \<and> same_buf b c)"
    "\<forall>a c. h a = Some c \<longrightarrow> rc_ref c = -1 \<longrightarrow> h1 a = Some c"
    using rc_step [OF Cons.prems] unfolding same_buf_def by blast
  have trans: "same_buf a b \<Longrightarrow> same_buf b c \<Longrightarrow> same_buf a c" for a b c by (simp add: same_buf_def)
  obtain h' where 2: "rc_run xs h1 = Some h'" "rc_ok h' R'"
    "\<forall>a b. h' a = Some b \<longrightarrow> (\<exists>c. h1 a = Some c \<and> same_buf b c)"
    "\<forall>a c. h1 a = Some c \<longrightarrow> rc_ref c = -1 \<longrightarrow> h' a = Some c"
    using Cons.IH [OF 1(3,2)] by blast
  have "\<exists>c. h a = Some c \<and> same_buf b c" if "h' a = Some b" for a b
    using that 1(4) 2(3) trans by blast
  then show ?case using 1(1,5) 2(1,2,4) by simp
qed

section \<open>The theorems\<close>

text \<open>
  C17. Both queues of the library are first in, first out. From an empty queue, for every sequence of
  insertions of new entries and removals that never removes from an empty queue, no operation follows
  a dead pointer, and what was taken out is, in order, the beginning of what was put in; the count of
  the outbound queue is the number of items left.
\<close>

theorem queues_are_fifo:
  assumes "queue.possible ops (nghttp2_queue_init cells) 0"
    and "outbound.possible ops' (nghttp2_outbound_queue_init items) 0"
  shows "(\<exists>q out rest. queue.run ops (nghttp2_queue_init cells) = Some (q, out) \<and>
      [c. Some c \<leftarrow> ops] = out @ map (\<lambda>(a, x). (a, x)) rest \<and> nghttp2_queue_empty q = (rest = [])) \<and>
    (\<exists>q out rest. outbound.run ops' (nghttp2_outbound_queue_init items) = Some (q, out) \<and>
      [a. Some a \<leftarrow> ops'] = out @ rest \<and> nghttp2_outbound_queue_size q = length rest)"
proof
  have r: "queue_repr (nghttp2_queue_init cells) []" by (simp add: queue_repr_def nghttp2_queue_init_def)
  have empty: "nghttp2_queue_empty q = (rest = [])" if "queue_repr q rest" for q rest
    using that by (cases rest) (auto simp: queue_repr_def nghttp2_queue_empty_def)
  show "\<exists>q out rest. queue.run ops (nghttp2_queue_init cells) = Some (q, out) \<and>
      [c. Some c \<leftarrow> ops] = out @ map (\<lambda>(a, x). (a, x)) rest \<and> nghttp2_queue_empty q = (rest = [])"
    using queue.first_in_first_out [OF r, of ops] assms(1) empty by force
  have r': "outbound_repr (nghttp2_outbound_queue_init items) []"
    by (simp add: outbound_repr_def nghttp2_outbound_queue_init_def)
  show "\<exists>q out rest. outbound.run ops' (nghttp2_outbound_queue_init items) = Some (q, out) \<and>
      [a. Some a \<leftarrow> ops'] = out @ rest \<and> nghttp2_outbound_queue_size q = length rest"
    using outbound.first_in_first_out [OF r', of ops'] assms(2)
    by (force simp: outbound_repr_def nghttp2_outbound_queue_size_def)
qed

text \<open>
  C39. Reference counting is safe. A new buffer holds a copy of its source and one reference; whatever
  the copies and drops of references that are held, at most $2^{31}-1$ at a time, no operation uses a
  freed buffer or overflows the counter, the buffer is there as long as a reference is left, with its
  content unchanged, and it is freed with the last one. Static buffers are never changed or freed.
\<close>

theorem rcbuf_safe:
  assumes "rc_ok h R" "h a = None" "a \<notin># R"
    and "held ops (R + {#a#}) = Some R'"
  shows "case nghttp2_rcbuf_new2 (Some a) junk src h of
     None \<Rightarrow> False
   | Some (h1, rv) \<Rightarrow> rv = 0 \<and> nghttp2_rcbuf_get_buf a h1 = Some src \<and>
       (case rc_run ops h1 of
          None \<Rightarrow> False
        | Some h2 \<Rightarrow>
            (if a \<in># R' then nghttp2_rcbuf_get_buf a h2 = Some src else h2 a = None) \<and>
            (\<forall>s. case h s of None \<Rightarrow> True | Some c \<Rightarrow> if rc_ref c = -1 then h2 s = Some c else True))"
proof -
  define base where "base = take (length src + 1) (junk @ replicate (length src + 1) 0)"
  have len: "length base = length src + 1" by (simp add: base_def)
  let ?b = "\<lparr>rc_base = src @ [0], rc_len = length src, rc_ref = 1\<rparr>"
  have "nghttp2_cpymem base 0 src = Some (src @ drop (length src) base, length src)"
    using len by (auto simp: nghttp2_cpymem_def)
  moreover have "(src @ drop (length src) base)[length src := 0] = src @ [0]"
    using len by (cases "drop (length src) base") (auto simp: list_update_append dest!: arg_cong [of _ _ length])
  ultimately have new: "nghttp2_rcbuf_new2 (Some a) junk src h = Some (h(a \<mapsto> ?b), 0)"
    using len unfolding nghttp2_rcbuf_new2_def nghttp2_rcbuf_new_def base_def [symmetric] by simp
  have ok: "rc_ok (h(a \<mapsto> ?b)) (R + {#a#})"
    using assms(3) by (intro rc_ok_update [OF assms(1)]) (auto simp: slot_ok_def count_eq_zero_iff)
  obtain h2 where h2: "rc_run ops (h(a \<mapsto> ?b)) = Some h2" "rc_ok h2 R'"
    "\<forall>s b. h2 s = Some b \<longrightarrow> (\<exists>c. (h(a \<mapsto> ?b)) s = Some c \<and> same_buf b c)"
    "\<forall>s c. (h(a \<mapsto> ?b)) s = Some c \<longrightarrow> rc_ref c = -1 \<longrightarrow> h2 s = Some c"
    using rc_run_ok [OF ok assms(4)] by blast
  have get: "nghttp2_rcbuf_get_buf a g = Some src" if "g a = Some b" "same_buf b ?b" for g b
    using that by (simp add: nghttp2_rcbuf_get_buf_def same_buf_def rd_block_def)
  have "if a \<in># R' then nghttp2_rcbuf_get_buf a h2 = Some src else h2 a = None"
  proof (cases "h2 a")
    case None
    then show ?thesis using rc_ok_held [OF h2(2), of a] by auto
  next
    case (Some b)
    then have b: "same_buf b ?b" using h2(3) [rule_format, OF Some] by simp
    then have "rc_ref b \<noteq> -1" by (simp add: same_buf_def)
    then have "a \<in># R'" using h2(2) Some by (auto simp: rc_ok_def slot_ok_def dest: spec [of _ a])
    then show ?thesis using get [of h2 b] Some b by simp
  qed
  moreover have "case h s of None \<Rightarrow> True | Some c \<Rightarrow> if rc_ref c = -1 then h2 s = Some c else True" for s
    using h2(4) assms(2) by (cases "s = a") (auto split: option.splits)
  ultimately show ?thesis using new h2(1) get [of "h(a \<mapsto> ?b)" ?b] by (simp add: same_buf_def)
qed

theorem queues_are_fifo_witness:
  "(\<exists>q out rest. queue.run [Some (1, 5 :: nat), Some (2, 6), None] (nghttp2_queue_init Map.empty) = Some (q, out) \<and>
      [c. Some c \<leftarrow> [Some (1, 5), Some (2, 6), None]] = out @ map (\<lambda>(a, x). (a, x)) rest \<and> nghttp2_queue_empty q = (rest = [])) \<and>
    (\<exists>q out rest. outbound.run [Some 1, None]
        (nghttp2_outbound_queue_init [1 \<mapsto> nghttp2_outbound_item_init]) = Some (q, out) \<and>
      [a. Some a \<leftarrow> [Some 1, None]] = out @ rest \<and> nghttp2_outbound_queue_size q = length rest)"
proof (rule queues_are_fifo)
  show "queue.possible [Some (1, 5 :: nat), Some (2, 6), None] (nghttp2_queue_init Map.empty) 0"
    by (simp add: cell_fresh_def cell_push_def nghttp2_queue_init_def nghttp2_queue_push_def nghttp2_queue_pop_def)
  show "outbound.possible [Some 1, None] (nghttp2_outbound_queue_init [1 \<mapsto> nghttp2_outbound_item_init]) 0"
    by (simp add: item_fresh_def nghttp2_outbound_queue_init_def nghttp2_outbound_item_init_def
        nghttp2_outbound_queue_push_def nghttp2_outbound_queue_pop_def)
qed

theorem rcbuf_safe_witness:
  "case nghttp2_rcbuf_new2 (Some 1) [] [7, 8] Map.empty of
     None \<Rightarrow> False
   | Some (h1, rv) \<Rightarrow> rv = 0 \<and> nghttp2_rcbuf_get_buf 1 h1 = Some [7, 8] \<and>
       (case rc_run [Copy 1, Drop 1] h1 of
          None \<Rightarrow> False
        | Some h2 \<Rightarrow>
            (if 1 \<in># {#1 :: nat#} then nghttp2_rcbuf_get_buf 1 h2 = Some [7, 8] else h2 1 = None) \<and>
            (\<forall>s. case (Map.empty :: rc_heap) s of None \<Rightarrow> True | Some c \<Rightarrow> if rc_ref c = -1 then h2 s = Some c else True))"
  by (rule rcbuf_safe [where R = "{#}"]) (simp_all add: rc_ok_def slot_ok_def)

end
