(* ===== verification/Ng_Hd_Int.thy ===== *)
theory Ng_Hd_Int
  imports Ng_Buf
begin

unbundle bit_operations_syntax

text \<open>
  The integers of HPACK, from \<^verbatim>\<open>nghttp2_hd.c\<close>: the low bits of a byte hold the value when it
  is small, else they are all set and the rest follows in groups of seven bits. The decoder takes the
  input in pieces; its result is the value, the shift for the next group, whether the integer is
  complete, and the number of bytes read, or $-1$.
\<close>

section \<open>Encoding\<close>

fun count_loop :: "nat \<Rightarrow> nat \<Rightarrow> nat" where
  "count_loop n len = (if 128 \<le> n then count_loop (n div 128) (len + 1) else len)"

declare count_loop.simps [simp del]

definition count_encoded_length :: "nat \<Rightarrow> nat \<Rightarrow> nat" where
  "count_encoded_length n pre =
     (let k = 2 ^ pre - 1 in if n < k then 1 else count_loop (n - k) 1 + 1)"

fun encode_groups :: "bytes \<Rightarrow> nat \<Rightarrow> nat \<Rightarrow> (bytes \<times> nat) option" where
  "encode_groups buf i n =
     (if 128 \<le> n
      then do { buf1 \<leftarrow> wr buf i (push_bit 7 1 OR (word_of_nat n AND 0x7f)); encode_groups buf1 (i + 1) (n div 128) }
      else do { buf1 \<leftarrow> wr buf i (word_of_nat n); Some (buf1, i + 1) })"

declare encode_groups.simps [simp del]

definition encode_length :: "bytes \<Rightarrow> nat \<Rightarrow> nat \<Rightarrow> (bytes \<times> nat) option" where
  "encode_length buf n pre = do {
     let k = 2 ^ pre - 1;
     b \<leftarrow> rd buf 0;
     let b1 = b AND NOT (word_of_nat k);
     if n < k then do { buf1 \<leftarrow> wr buf 0 (b1 OR word_of_nat n); Some (buf1, 1) }
     else do { buf1 \<leftarrow> wr buf 0 (b1 OR word_of_nat k); encode_groups buf1 1 (n - k) }
   }"

text \<open>
  What the functions that emit an integer share: a block of 16 bytes on the stack, of which the
  first is set and as many are used as the encoding has.
\<close>

definition emit_integer :: "nghttp2_bufs \<Rightarrow> u8 \<Rightarrow> nat \<Rightarrow> nat \<Rightarrow> (nghttp2_bufs \<times> int) option" where
  "emit_integer bs first n pre =
     (let blocklen = count_encoded_length n pre in
      if 16 < blocklen then Some (bs, NGHTTP2_ERR_HEADER_COMP)
      else do {
        (sb, _) \<leftarrow> encode_length (first # replicate 15 0) n pre;
        nghttp2_bufs_add bs (take blocklen sb)
      })"

section \<open>Decoding\<close>

fun decode_groups :: "u32 \<Rightarrow> nat \<Rightarrow> bytes \<Rightarrow> int \<Rightarrow> u32 \<times> nat \<times> bool \<times> int" where
  "decode_groups n shift [] got = (n, shift, False, got)"
| "decode_groups n shift (b # bs) got =
     (let add = ucast b AND 0x7f in
      if 32 \<le> shift then (0, 0, False, -1)
      else if drop_bit shift (- 1) < add then (0, 0, False, -1)
      else
        (let add1 = push_bit shift add in
         if - 1 - add1 < n then (0, 0, False, -1)
         else if b AND push_bit 7 1 = 0 then (n + add1, shift, True, got + 1)
         else decode_groups (n + add1) (shift + 7) bs (got + 1)))"

definition decode_length :: "u32 \<Rightarrow> nat \<Rightarrow> bytes \<Rightarrow> nat \<Rightarrow> (u32 \<times> nat \<times> bool \<times> int) option" where
  "decode_length initial shift ins pre =
     (let k = word_of_nat (2 ^ pre - 1) in
      if initial = 0 then
        (case ins of
           [] \<Rightarrow> None
         | b # rest \<Rightarrow>
             if ucast b AND k \<noteq> k then Some (ucast b AND k, 0, True, 1)
             else if rest = [] then Some (k, 0, False, 1)
             else Some (decode_groups k shift rest 1))
      else Some (decode_groups initial shift ins 0))"

section \<open>The encoding of an integer\<close>

fun int_groups :: "nat \<Rightarrow> bytes" where
  "int_groups n = (if n < 128 then [word_of_nat n] else word_of_nat (128 + n mod 128) # int_groups (n div 128))"

declare int_groups.simps [simp del]

definition int_bytes :: "u8 \<Rightarrow> nat \<Rightarrow> nat \<Rightarrow> bytes" where
  "int_bytes first pre n =
     (let k = 2 ^ pre - 1 in
      if n < k then [first OR word_of_nat n] else (first OR word_of_nat k) # int_groups (n - k))"

lemma count_groups: "count_loop n len + 1 = length (int_groups n) + len"
proof (induction n len rule: count_loop.induct)
  case (1 n len)
  then show ?case by (subst count_loop.simps, subst int_groups.simps) auto
qed

lemma int_bytes_ne [simp]: "int_bytes first pre n \<noteq> []"
  by (simp add: int_bytes_def Let_def)

lemma count_bytes: "count_encoded_length n pre = length (int_bytes first pre n)"
  using count_groups [of "n - (2 ^ pre - 1)" 1] by (simp add: count_encoded_length_def int_bytes_def Let_def)

lemma group_byte: "push_bit 7 1 OR (word_of_nat n AND 0x7f) = (word_of_nat (128 + n mod 128) :: u8)"
proof -
  have low: "(word_of_nat n AND 0x7f :: u8) = word_of_nat (n mod 128)"
  proof -
    have "(word_of_nat n AND 0x7f :: u8) = take_bit 7 (word_of_nat n)" by (simp add: take_bit_eq_mask mask_numeral)
    also have "\<dots> = word_of_nat (take_bit 7 n)" by (simp add: take_bit_of_nat)
    finally show ?thesis by (simp add: take_bit_eq_mod)
  qed
  have "(128 :: u8) AND (word_of_nat n AND 127) = (128 AND 127) AND word_of_nat n" by (simp only: ac_simps)
  then have "(128 :: u8) AND (word_of_nat n AND 127) = 0" by simp
  then have "128 OR (word_of_nat n AND 127) = 128 + (word_of_nat n AND 127 :: u8)"
    using word_plus_and_or [of "128 :: u8" "word_of_nat n AND 127"] by (metis add_0)
  then show ?thesis using low by simp
qed

lemma group_byte_numeral: "128 OR (word_of_nat n AND 127) = (128 + word_of_nat (n mod 128) :: u8)"
  using group_byte [of n] by simp

lemma encode_groups_ok:
  "i + length (int_groups n) \<le> length buf \<Longrightarrow>
   encode_groups buf i n = Some (take i buf @ int_groups n @ drop (i + length (int_groups n)) buf, i + length (int_groups n))"
proof (induction n arbitrary: buf i rule: less_induct)
  case (less n)
  show ?case
  proof (cases "n < 128")
    case True
    have g: "int_groups n = [word_of_nat n]" using True by (subst int_groups.simps) simp
    then show ?thesis
      using less.prems True by (subst encode_groups.simps) (simp add: g upd_conv_take_nth_drop)
  next
    case False
    let ?b = "word_of_nat (128 + n mod 128)" and ?buf = "buf[i := word_of_nat (128 + n mod 128)]"
    have g: "int_groups n = ?b # int_groups (n div 128)" using False by (subst int_groups.simps) simp
    have "n div 128 < n" using False by simp
    then have IH: "encode_groups ?buf (Suc i) (n div 128) = Some (take (Suc i) ?buf @ int_groups (n div 128) @
        drop (Suc i + length (int_groups (n div 128))) ?buf, Suc i + length (int_groups (n div 128)))"
      using less.IH [of "n div 128" "Suc i" ?buf] less.prems g by simp
    have "encode_groups buf i n = encode_groups ?buf (Suc i) (n div 128)"
      using False less.prems g by (subst encode_groups.simps) (simp add: group_byte_numeral)
    then show ?thesis using IH less.prems g by (simp add: take_list_update_Suc)
  qed
qed

lemma encode_length_ok:
  assumes "buf = first # tl buf" "first AND word_of_nat (2 ^ pre - 1) = 0" "length (int_bytes first pre n) \<le> length buf"
  shows "\<exists>rest. encode_length buf n pre = Some (int_bytes first pre n @ rest, length (int_bytes first pre n))"
proof -
  have ne: "buf \<noteq> []" using assms(1) by auto
  have clear: "first AND NOT (word_of_nat (2 ^ pre - 1)) = first"
    using assms(2) by (metis (no_types, lifting) and.commute and.right_neutral bit.conj_cancel_right bit.conj_disj_distrib bit.disj_cancel_right or.left_neutral)
  obtain b bs where buf: "buf = first # bs" using assms(1) by blast
  define k where "k = (2 :: nat) ^ pre - 1"
  show ?thesis
    using assms(3) clear unfolding encode_length_def int_bytes_def Let_def k_def [symmetric]
    by (cases "n < k") (simp_all add: buf encode_groups_ok)
qed

section \<open>What the decoder computes\<close>

text \<open>The groups up to the first without a continuation bit, and their value.\<close>

fun groups :: "bytes \<Rightarrow> bytes" where
  "groups [] = []"
| "groups (b # bs) = (if b AND 128 = 0 then [b] else b # groups bs)"

definition complete :: "bytes \<Rightarrow> bool" where
  "complete bs \<longleftrightarrow> (\<exists>b \<in> set bs. b AND 128 = 0)"

fun groups_value :: "bytes \<Rightarrow> nat" where
  "groups_value [] = 0"
| "groups_value (b # bs) = unat b mod 128 + 128 * groups_value bs"

definition in_range :: "nat \<Rightarrow> nat \<Rightarrow> bytes \<Rightarrow> bool" where
  "in_range n shift gs \<longleftrightarrow> n + groups_value gs * 2 ^ shift < 2 ^ 32 \<and> (gs \<noteq> [] \<longrightarrow> shift + 7 * (length gs - 1) < 32)"

lemma unat_group: "unat (ucast (b :: u8) AND 0x7f :: u32) = unat b mod 128"
proof -
  have "(ucast b AND 0x7f :: u32) = take_bit 7 (ucast b)" by (simp add: take_bit_eq_mask mask_numeral)
  then have "unat (ucast b AND 0x7f :: u32) = take_bit 7 (unat (ucast b :: u32))" by (simp only: unsigned_take_bit_eq)
  also have "unat (ucast b :: u32) = unat b" by (simp add: unsigned_ucast_eq take_bit_nat_eq_self_iff less_trans [OF unat_u8_less])
  finally show ?thesis by (simp add: take_bit_eq_mod)
qed

lemma unat_max: "unat (- 1 :: u32) = 2 ^ 32 - 1"
  by (simp add: unsigned_minus_1_eq_mask mask_eq_exp_minus_1)

lemma unat_max_shift: "unat (drop_bit s (- 1 :: u32)) = (2 ^ 32 - 1) div 2 ^ s"
proof -
  have "unat (drop_bit s (- 1 :: u32)) = drop_bit s (take_bit LENGTH(32) (unat (- 1 :: u32)))" by (rule unsigned_drop_bit_eq)
  also have "take_bit LENGTH(32) (unat (- 1 :: u32)) = 2 ^ 32 - 1" unfolding unat_max by (simp add: take_bit_nat_eq_self_iff)
  finally show ?thesis by (simp only: drop_bit_eq_div)
qed

lemma shift_guard: "(2 ^ 32 - 1) div 2 ^ s < a \<longleftrightarrow> (2 :: nat) ^ 32 \<le> a * 2 ^ s"
  by (simp add: div_less_iff_less_mult) linarith

lemma overflow_guard: "drop_bit s (- 1) < (add :: u32) \<longleftrightarrow> 2 ^ 32 \<le> unat add * 2 ^ s"
  by (simp only: word_less_nat_alt unat_max_shift shift_guard)

lemma unat_push:
  assumes "s < 32" "unat (w :: u32) * 2 ^ s < 2 ^ 32"
  shows "unat (push_bit s w) = unat w * 2 ^ s"
proof -
  have "push_bit s w = word_of_nat (unat w * 2 ^ s)" by (simp add: push_bit_eq_mult)
  then show ?thesis using word_of_nat_unat_le [of "unat w * 2 ^ s", where ?'a = 32] assms(2) by simp
qed

lemma add_guard: "- 1 - (x :: u32) < n \<longleftrightarrow> 2 ^ 32 \<le> unat n + unat x"
proof -
  have "unat (- 1 - x) = unat (- 1 :: u32) - unat x" by (rule unat_sub) simp
  then have "unat (- 1 - x) = 2 ^ 32 - 1 - unat x" by (simp only: unat_max)
  then show ?thesis using unsigned_less [of x, where ?'a = nat] by (auto simp: word_less_nat_alt)
qed

lemma decode_groups_exact:
  "decode_groups n shift bs got =
    (let gs = groups bs in
     if in_range (unat n) shift gs
     then (word_of_nat (unat n + groups_value gs * 2 ^ shift), shift + 7 * (if complete bs then length gs - 1 else length gs),
           complete bs, got + int (length gs))
     else (0, 0, False, -1))"
proof (induction bs arbitrary: n shift got)
  case Nil
  show ?case using unsigned_less [of n, where ?'a = nat] by (simp add: in_range_def complete_def)
next
  case (Cons b bs)
  let ?a = "unat b mod 128"
  define add where "add = (ucast b AND 0x7f :: u32)"
  have a: "unat add = ?a" by (simp add: add_def unat_group)
  note unfold = decode_groups.simps(2) [of n shift b bs got, unfolded Let_def add_def [symmetric] overflow_guard add_guard a]
  show ?case
  proof (cases "32 \<le> shift \<or> 2 ^ 32 \<le> unat n + ?a * 2 ^ shift")
    case True
    have "\<not> in_range (unat n) shift (groups (b # bs))"
    proof
      assume r: "in_range (unat n) shift (groups (b # bs))"
      have v: "?a \<le> groups_value (groups (b # bs))" by simp
      have "unat n + ?a * 2 ^ shift \<le> unat n + groups_value (groups (b # bs)) * 2 ^ shift"
        using mult_le_mono1 [OF v, of "2 ^ shift"] by linarith
      moreover have "groups (b # bs) \<noteq> []" by simp
      then have "unat n + groups_value (groups (b # bs)) * 2 ^ shift < 2 ^ 32" "shift < 32"
        using r unfolding in_range_def by (blast, linarith)
      ultimately show False using True by linarith
    qed
    moreover have "decode_groups n shift (b # bs) got = (0, 0, False, -1)"
    proof (cases "32 \<le> shift \<or> 2 ^ 32 \<le> ?a * 2 ^ shift")
      case True
      then show ?thesis
        unfolding unfold by auto
    next
      case False
      then have "unat (push_bit shift add) = ?a * 2 ^ shift" using unat_push [of shift add] a by simp
      then show ?thesis using True False unfolding unfold by auto
    qed
    ultimately show ?thesis by (simp only: Let_def if_False)
  next
    case False
    then have ok: "shift < 32" "unat n + ?a * 2 ^ shift < 2 ^ 32" by simp_all
    have push: "unat (push_bit shift add) = ?a * 2 ^ shift" using ok unat_push [of shift add] a by simp
    let ?n = "n + push_bit shift add"
    have n: "unat ?n = unat n + ?a * 2 ^ shift" using ok push by (simp add: unat_word_ariths)
    have step: "decode_groups n shift (b # bs) got =
      (if b AND 128 = 0 then (?n, shift, True, got + 1) else decode_groups ?n (shift + 7) bs (got + 1))"
      using ok push unfolding unfold by auto
    show ?thesis
    proof (cases "b AND 128 = 0")
      case True
      have "word_of_nat (unat n + ?a * 2 ^ shift) = ?n" unfolding n [symmetric] by simp
      then show ?thesis using True step ok by (simp add: in_range_def complete_def Let_def)
    next
      case False
      have sum: "unat ?n + groups_value gs * 2 ^ (shift + 7) = unat n + groups_value (b # gs) * 2 ^ shift" for gs
        unfolding n by (simp add: power_add algebra_simps)
      have range: "in_range (unat ?n) (shift + 7) gs \<longleftrightarrow> in_range (unat n) shift (b # gs)" for gs
        unfolding in_range_def sum using ok(1) by (cases gs) auto
      have "complete (b # bs) \<longleftrightarrow> complete bs" "complete bs \<Longrightarrow> groups bs \<noteq> []"
        using False by (auto simp: complete_def neq_Nil_conv) (metis groups.simps(2) list.distinct(1) list.exhaust list.set_cases)
      then show ?thesis
        using False step unfolding Cons.IH Let_def range sum
        by (cases "groups bs") (auto simp del: of_nat_add of_nat_mult groups_value.simps decode_groups.simps)
    qed
  qed
qed

text \<open>The input may end anywhere; the result for the first part is where the second begins.\<close>

lemma groups_append: "\<not> complete p \<Longrightarrow> groups (p @ q) = p @ groups q \<and> groups p = p"
  by (induction p) (auto simp: complete_def)

lemma decode_groups_append:
  "\<not> complete p \<Longrightarrow> decode_groups n shift p got = (n', shift', fin, got') \<Longrightarrow> got' \<noteq> -1 \<Longrightarrow> 0 \<le> got \<Longrightarrow>
   \<not> fin \<and> shift' = shift + 7 * length p \<and> got' = got + int (length p) \<and> decode_groups n shift (p @ q) got = decode_groups n' shift' q got'"
proof (induction p arbitrary: n shift got)
  case (Cons b p)
  have b: "b AND 128 \<noteq> 0" "\<not> complete p" using Cons.prems(1) by (auto simp: complete_def)
  let ?add = "ucast b AND 0x7f :: u32"
  consider (stop) "32 \<le> shift \<or> drop_bit shift (- 1) < ?add \<or> - 1 - push_bit shift ?add < n"
    | (go) "\<not> 32 \<le> shift" "\<not> drop_bit shift (- 1) < ?add" "\<not> - 1 - push_bit shift ?add < n" by blast
  then show ?case
  proof cases
    case stop
    then have "decode_groups n shift (b # p) got = (0, 0, False, -1)"
      by (simp only: decode_groups.simps Let_def) auto
    then show ?thesis using Cons.prems by simp
  next
    case go
    have step: "decode_groups n shift (b # r) got = decode_groups (n + push_bit shift ?add) (shift + 7) r (got + 1)" for r
      using go b(1) by (simp only: decode_groups.simps Let_def if_False) simp
    show ?thesis
      using Cons.IH [of "n + push_bit shift ?add" "shift + 7" "got + 1"] Cons.prems step b(2) by auto
  qed
qed (simp add: complete_def)

lemma int_groups_shape:
  "complete (int_groups n) \<and> groups (int_groups n @ rest) = int_groups n \<and> groups_value (int_groups n) = n \<and>
   (n = 0 \<or> 2 ^ (7 * (length (int_groups n) - 1)) \<le> n) \<and> (n = 0 \<longrightarrow> length (int_groups n) = 1)"
proof (induction n rule: less_induct)
  case (less n)
  show ?case
  proof (cases "n < 128")
    case True
    have "(word_of_nat n :: u8) AND 128 = 0"
    proof -
      have "(word_of_nat n :: u8) = take_bit 7 (word_of_nat n)" using True by (simp add: take_bit_of_nat take_bit_nat_eq_self)
      then have "(word_of_nat n :: u8) AND 128 = word_of_nat n AND (mask 7 AND 128)" by (metis and.assoc take_bit_eq_mask)
      then show ?thesis by (simp add: mask_numeral)
    qed
    moreover have "unat (word_of_nat n :: u8) = n" using True word_of_nat_unat_le [of n, where ?'a = 8] by simp
    ultimately show ?thesis using True by (subst (1 2 3 4 5 6) int_groups.simps) (auto simp add: complete_def)
  next
    case False
    let ?b = "word_of_nat (128 + n mod 128) :: u8"
    have g: "int_groups n = ?b # int_groups (n div 128)" using False by (subst int_groups.simps) simp
    have "n div 128 < n" using False by simp
    note IH = less.IH [OF this]
    have lt: "128 + n mod 128 < 2 ^ LENGTH(8)" by simp
    have b: "unat ?b = 128 + n mod 128" by (rule word_of_nat_unat_le [OF lt])
    have "?b AND 128 = 128"
    proof -
      have "?b = push_bit 7 1 OR (word_of_nat n AND 0x7f)" by (rule group_byte [symmetric])
      then show ?thesis by (simp add: bit.conj_disj_distrib2 flip: and.assoc)
    qed
    then have cont: "?b AND 128 \<noteq> 0" by simp
    have pos: "n div 128 \<noteq> 0" using False by (simp add: div_eq_0_iff)
    then have "2 ^ (7 * (length (int_groups (n div 128)) - 1)) \<le> n div 128" using IH by simp
    then have "128 * 2 ^ (7 * (length (int_groups (n div 128)) - 1)) \<le> n" by (simp add: less_eq_div_iff_mult_less_eq mult.commute)
    moreover have "0 < length (int_groups (n div 128))" by (subst int_groups.simps) simp
    then have "7 * length (int_groups (n div 128)) = 7 + 7 * (length (int_groups (n div 128)) - 1)" by linarith
    ultimately have "2 ^ (7 * length (int_groups (n div 128))) \<le> n" by (simp add: power_add)
    then show ?thesis
      unfolding g using IH cont b False by (auto simp: complete_def)
  qed
qed

lemma int_groups_length: "n < 2 ^ 32 \<Longrightarrow> length (int_groups n) \<le> 5"
proof -
  assume n: "n < 2 ^ 32"
  show ?thesis
  proof (cases "n = 0")
    case False
    then have "2 ^ (7 * (length (int_groups n) - 1)) < (2 :: nat) ^ 32"
      using int_groups_shape [of n "[]"] n by linarith
    then have "7 * (length (int_groups n) - 1) < 32" by (rule power_less_imp_less_exp [rotated]) simp
    then show ?thesis by simp
  qed (use int_groups_shape [of n "[]"] in simp)
qed

lemma int_groups_range:
  assumes "n + m < 2 ^ 32"
  shows "in_range n 0 (int_groups m)"
proof -
  have "length (int_groups m) \<le> 5" using assms by (intro int_groups_length) simp
  then have "7 * (length (int_groups m) - 1) < 32" by linarith
  then show ?thesis using assms int_groups_shape [of m "[]"] by (simp add: in_range_def)
qed

lemma decode_int_groups:
  assumes "unat n + m < 2 ^ 32"
  shows "decode_groups n 0 (int_groups m @ rest) got =
    (word_of_nat (unat n + m), 7 * (length (int_groups m) - 1), True, got + int (length (int_groups m)))"
  using assms int_groups_range [OF assms] int_groups_shape [of m rest] int_groups_shape [of m "[]"]
  by (auto simp add: decode_groups_exact Let_def complete_def)

section \<open>Whole integers\<close>

text \<open>The flag bits of the first byte, above the bits of the integer.\<close>

definition flags_of :: "u8 \<Rightarrow> nat \<Rightarrow> bool" where
  "flags_of first pre \<longleftrightarrow> 1 \<le> pre \<and> pre \<le> 8 \<and> first AND mask pre = 0"

lemma mask_u8: "word_of_nat (2 ^ pre - 1) = (mask pre :: 'a::len word)"
  by (simp add: mask_eq_exp_minus_1 of_nat_diff)

lemma int_bytes_length: "n < 2 ^ 32 \<Longrightarrow> length (int_bytes first pre n) \<le> 6"
proof -
  assume "n < 2 ^ 32"
  then have "n - (2 ^ pre - 1) < 2 ^ 32" by (rule le_less_trans [OF diff_le_self])
  from int_groups_length [OF this] show ?thesis by (simp add: int_bytes_def Let_def)
qed

lemma emit_integer_ok:
  assumes "bufs_ok bs" "flags_of first pre" "n < 2 ^ 32"
  shows "\<exists>bs' rv. emit_integer bs first n pre = Some (bs', rv) \<and> added bs (int_bytes first pre n) bs' rv"
proof -
  have len: "length (int_bytes first pre n) \<le> 16" using int_bytes_length [OF assms(3), of first pre] by simp
  have "first AND word_of_nat (2 ^ pre - 1) = 0" using assms(2) unfolding mask_u8 by (simp add: flags_of_def)
  then obtain rest where e: "encode_length (first # replicate 15 0) n pre =
      Some (int_bytes first pre n @ rest, length (int_bytes first pre n))"
    using encode_length_ok [of "first # replicate 15 0" first pre n] len by auto
  have "emit_integer bs first n pre = nghttp2_bufs_add bs (int_bytes first pre n)"
    unfolding emit_integer_def Let_def count_bytes [of n pre first] e using len by simp
  then show ?thesis using bufs_add_returns [OF assms(1)] by simp
qed

lemma low_bits:
  assumes "flags_of first pre" "n < 2 ^ pre"
  shows "(ucast (first OR word_of_nat n :: u8) :: u32) AND mask pre = word_of_nat n"
proof (rule bit_word_eqI)
  fix i assume i: "i < LENGTH(32)"
  have none: "\<not> (bit first i \<and> i < pre)" if "i < 8"
  proof -
    have "\<not> bit (first AND mask pre) i" using assms(1) by (simp add: flags_of_def)
    then show ?thesis using that unfolding bit_and_iff bit_mask_iff by simp
  qed
  have high: "\<not> bit n i" if "pre \<le> i"
    using assms(2) that by (metis bit_take_bit_iff linorder_not_less take_bit_nat_eq_self)
  show "bit ((ucast (first OR word_of_nat n :: u8) :: u32) AND mask pre) i \<longleftrightarrow> bit (word_of_nat n :: u32) i"
    using i none high assms(1) by (cases "i < pre") (auto simp: bit_simps flags_of_def)
qed

lemma decode_int_bytes_any:
  assumes f: "flags_of first pre" and n: "n < 2 ^ 32"
  shows "\<exists>shift. \<forall>rest. decode_length 0 0 (int_bytes first pre n @ rest) pre =
    Some (word_of_nat n, shift, True, int (length (int_bytes first pre n)))"
proof -
  define k where "k = (2 :: nat) ^ pre - 1"
  have pre: "1 \<le> pre" "pre \<le> 8" using f by (simp_all add: flags_of_def)
  have k: "0 < k" "k < 2 ^ pre" "k < 2 ^ 32" "word_of_nat k = (mask pre :: u32)"
  proof -
    have "(2 :: nat) ^ 1 \<le> 2 ^ pre" "(2 :: nat) ^ pre \<le> 2 ^ 8" using pre by (intro power_increasing; simp)+
    then show "0 < k" "k < 2 ^ pre" "k < 2 ^ 32" by (simp_all add: k_def)
    show "word_of_nat k = (mask pre :: u32)" unfolding k_def by (rule mask_u8)
  qed
  have unat: "unat (word_of_nat m :: u32) = m" if "m < 2 ^ 32" for m
    using that word_of_nat_unat_le [of m, where ?'a = 32] by simp
  show ?thesis
  proof (cases "n < k")
    case True
    have low: "(ucast (first OR word_of_nat n) :: u32) AND word_of_nat k = word_of_nat n"
      unfolding k(4) using True k(2) by (intro low_bits [OF f]) simp
    have "word_of_nat n \<noteq> (word_of_nat k :: u32)"
    proof
      assume "word_of_nat n = (word_of_nat k :: u32)"
      then show False using unat [OF n] unat [OF k(3)] True by simp
    qed
    then show ?thesis
      unfolding int_bytes_def decode_length_def Let_def k_def [symmetric] using True low by simp
  next
    case False
    have low: "(ucast (first OR word_of_nat k) :: u32) AND word_of_nat k = word_of_nat k"
      unfolding k(4) [symmetric] using low_bits [OF f k(2)] unfolding k(4) .
    have ne: "int_groups (n - k) @ rest \<noteq> []" for rest by (subst int_groups.simps) simp
    have "decode_groups (word_of_nat k) 0 (int_groups (n - k) @ rest) 1 =
      (word_of_nat n, 7 * (length (int_groups (n - k)) - 1), True, 1 + int (length (int_groups (n - k))))" for rest
      using decode_int_groups [of "word_of_nat k" "n - k" rest 1] unat [OF k(3)] n False by (simp del: of_nat_diff)
    then show ?thesis
      unfolding int_bytes_def decode_length_def Let_def k_def [symmetric] using False low ne by simp
  qed
qed

lemma decode_int_bytes:
  assumes "flags_of first pre" "n < 2 ^ 32"
  shows "\<exists>shift. decode_length 0 0 (int_bytes first pre n @ rest) pre =
    Some (word_of_nat n, shift, True, int (length (int_bytes first pre n)))"
  using decode_int_bytes_any [OF assms] by blast

end
