(* ===== verification/Ng_Hd_Table.thy ===== *)
theory Ng_Hd_Table
  imports Ng_Buf "HOL-Library.Sublist"
begin

unbundle bit_operations_syntax

text \<open>
  The header tables of HPACK, from \<^verbatim>\<open>nghttp2_hd.c\<close>: the static table and the token of a
  name, the hash map of the encoder, the ring buffer of the dynamic table, and the context with
  insertion, eviction and search.

  A string of a header field is its bytes; the counted buffers that hold it are the subject of
  \<^verbatim>\<open>Ng_Queue\<close> and are not counted here, but their allocations can fail. The context has its
  own list of answers of the allocator. The entries of a bucket, linked by \<^verbatim>\<open>next\<close> in C, are
  a list, and the identity of an entry is its sequence number, which no two entries of a table share.
  \<^verbatim>\<open>None\<close> is an access outside an array or a failed assertion. The position \<^verbatim>\<open>first\<close> of the
  ring buffer wraps, so it is kept at the width of \<^verbatim>\<open>size_t\<close> on the chip. The sum of the size of
  the table and of an entry is a natural number: it would only wrap for a limit that is within the
  size of one entry of \<open>2 ^ 32\<close>.
\<close>

section \<open>Header fields, tokens and the static table\<close>

record nghttp2_nv =
  h_name :: bytes
  h_value :: bytes
  h_flags :: u8

record nghttp2_hd_nv =
  nv_name :: bytes
  nv_value :: bytes
  nv_token :: int
  nv_flags :: u8

abbreviation NGHTTP2_NV_FLAG_NONE :: u8 where "NGHTTP2_NV_FLAG_NONE \<equiv> 0"
abbreviation NGHTTP2_NV_FLAG_NO_INDEX :: u8 where "NGHTTP2_NV_FLAG_NO_INDEX \<equiv> 1"
abbreviation NGHTTP2_STATIC_TABLE_LENGTH :: nat where "NGHTTP2_STATIC_TABLE_LENGTH \<equiv> 61"
abbreviation NGHTTP2_HD_ENTRY_OVERHEAD :: nat where "NGHTTP2_HD_ENTRY_OVERHEAD \<equiv> 32"
abbreviation NGHTTP2_HD_DEFAULT_MAX_BUFFER_SIZE :: nat where "NGHTTP2_HD_DEFAULT_MAX_BUFFER_SIZE \<equiv> 4096"
abbreviation NGHTTP2_TOKEN_WWW_AUTHENTICATE :: int where "NGHTTP2_TOKEN_WWW_AUTHENTICATE \<equiv> 60"

definition text_bytes :: "string \<Rightarrow> bytes" where
  "text_bytes s = map byte_of_chr s"

text \<open>The nested switches of \<^verbatim>\<open>lookup_token\<close>: by length, by last character, then by the rest.\<close>

definition token_rows :: "(nat \<times> (char \<times> (string \<times> int) list) list) list" where
  "token_rows = [
    (2, [(CHR ''e'', [(''t'', 61)])]),
    (3, [(CHR ''a'', [(''vi'', 59)]),
      (CHR ''e'', [(''ag'', 20)])]),
    (4, [(CHR ''e'', [(''dat'', 32)]),
      (CHR ''g'', [(''eta'', 33)]),
      (CHR ''k'', [(''lin'', 44)]),
      (CHR ''m'', [(''fro'', 36)]),
      (CHR ''t'', [(''hos'', 37)]),
      (CHR ''y'', [(''var'', 58)])]),
    (5, [(CHR ''e'', [(''rang'', 49)]),
      (CHR ''h'', [('':pat'', 3)]),
      (CHR ''w'', [(''allo'', 21)])]),
    (6, [(CHR ''e'', [(''cooki'', 31)]),
      (CHR ''r'', [(''serve'', 53)]),
      (CHR ''t'', [(''accep'', 18), (''expec'', 34)])]),
    (7, [(CHR ''d'', [('':metho'', 1)]),
      (CHR ''e'', [('':schem'', 5), (''upgrad'', 65)]),
      (CHR ''h'', [(''refres'', 51)]),
      (CHR ''r'', [(''refere'', 50)]),
      (CHR ''s'', [('':statu'', 7), (''expire'', 35)])]),
    (8, [(CHR ''e'', [(''if-rang'', 41)]),
      (CHR ''h'', [(''if-matc'', 38)]),
      (CHR ''n'', [(''locatio'', 45)]),
      (CHR ''y'', [(''priorit'', 67)])]),
    (9, [(CHR ''l'', [('':protoco'', 66)])]),
    (10, [(CHR ''e'', [(''keep-aliv'', 63), (''set-cooki'', 54)]),
      (CHR ''n'', [(''connectio'', 62)]),
      (CHR ''t'', [(''user-agen'', 57)]),
      (CHR ''y'', [('':authorit'', 0)])]),
    (11, [(CHR ''r'', [(''retry-afte'', 52)])]),
    (12, [(CHR ''e'', [(''content-typ'', 30)]),
      (CHR ''s'', [(''max-forward'', 46)])]),
    (13, [(CHR ''d'', [(''last-modifie'', 43)]),
      (CHR ''e'', [(''content-rang'', 29)]),
      (CHR ''h'', [(''if-none-matc'', 40)]),
      (CHR ''l'', [(''cache-contro'', 23)]),
      (CHR ''n'', [(''authorizatio'', 22)]),
      (CHR ''s'', [(''accept-range'', 17)])]),
    (14, [(CHR ''h'', [(''content-lengt'', 27)]),
      (CHR ''t'', [(''accept-charse'', 14)])]),
    (15, [(CHR ''e'', [(''accept-languag'', 16)]),
      (CHR ''g'', [(''accept-encodin'', 15)])]),
    (16, [(CHR ''e'', [(''content-languag'', 26), (''www-authenticat'', 60)]),
      (CHR ''g'', [(''content-encodin'', 25)]),
      (CHR ''n'', [(''content-locatio'', 28), (''proxy-connectio'', 64)])]),
    (17, [(CHR ''e'', [(''if-modified-sinc'', 39)]),
      (CHR ''g'', [(''transfer-encodin'', 56)])]),
    (18, [(CHR ''e'', [(''proxy-authenticat'', 47)])]),
    (19, [(CHR ''e'', [(''if-unmodified-sinc'', 42)]),
      (CHR ''n'', [(''content-dispositio'', 24), (''proxy-authorizatio'', 48)])]),
    (25, [(CHR ''y'', [(''strict-transport-securit'', 55)])]),
    (27, [(CHR ''n'', [(''access-control-allow-origi'', 19)])])]"

definition lookup_token :: "bytes \<Rightarrow> int" where
  "lookup_token name =
     (case map_of token_rows (length name) of
        None \<Rightarrow> -1
      | Some cases \<Rightarrow>
          (case map_of cases (chr_of_byte (last name)) of
             None \<Rightarrow> -1
           | Some tests \<Rightarrow>
               (case map_of tests (map chr_of_byte (butlast name)) of None \<Rightarrow> -1 | Some t \<Rightarrow> t)))"

definition static_rows :: "(string \<times> string \<times> int \<times> u32) list" where
  "static_rows = [
    ('':authority'', '''', 0, 3153725150),
    ('':method'', ''GET'', 1, 695666056),
    ('':method'', ''POST'', 1, 695666056),
    ('':path'', ''/'', 3, 3292848686),
    ('':path'', ''/index.html'', 3, 3292848686),
    ('':scheme'', ''http'', 5, 2510477674),
    ('':scheme'', ''https'', 5, 2510477674),
    ('':status'', ''200'', 7, 4000288983),
    ('':status'', ''204'', 7, 4000288983),
    ('':status'', ''206'', 7, 4000288983),
    ('':status'', ''304'', 7, 4000288983),
    ('':status'', ''400'', 7, 4000288983),
    ('':status'', ''404'', 7, 4000288983),
    ('':status'', ''500'', 7, 4000288983),
    (''accept-charset'', '''', 14, 3664010344),
    (''accept-encoding'', ''gzip, deflate'', 15, 3379649177),
    (''accept-language'', '''', 16, 1979086614),
    (''accept-ranges'', '''', 17, 1713753958),
    (''accept'', '''', 18, 136609321),
    (''access-control-allow-origin'', '''', 19, 2710797292),
    (''age'', '''', 20, 742476188),
    (''allow'', '''', 21, 2930878514),
    (''authorization'', '''', 22, 2436257726),
    (''cache-control'', '''', 23, 1355326669),
    (''content-disposition'', '''', 24, 3889184348),
    (''content-encoding'', '''', 25, 65203592),
    (''content-language'', '''', 26, 24973587),
    (''content-length'', '''', 27, 1308181789),
    (''content-location'', '''', 28, 2302364718),
    (''content-range'', '''', 29, 3555523146),
    (''content-type'', '''', 30, 4244048277),
    (''cookie'', '''', 31, 2007449791),
    (''date'', '''', 32, 3564297305),
    (''etag'', '''', 33, 113792960),
    (''expect'', '''', 34, 2530896728),
    (''expires'', '''', 35, 1049544579),
    (''from'', '''', 36, 2513272949),
    (''host'', '''', 37, 2952701295),
    (''if-match'', '''', 38, 3597694698),
    (''if-modified-since'', '''', 39, 2213050793),
    (''if-none-match'', '''', 40, 2536202615),
    (''if-range'', '''', 41, 2340978238),
    (''if-unmodified-since'', '''', 42, 3794814858),
    (''last-modified'', '''', 43, 3226950251),
    (''link'', '''', 44, 232457833),
    (''location'', '''', 45, 200649126),
    (''max-forwards'', '''', 46, 1826162134),
    (''proxy-authenticate'', '''', 47, 2709445359),
    (''proxy-authorization'', '''', 48, 2686392507),
    (''range'', '''', 49, 4208725202),
    (''referer'', '''', 50, 3969579366),
    (''refresh'', '''', 51, 3572655668),
    (''retry-after'', '''', 52, 3336180598),
    (''server'', '''', 53, 1085029842),
    (''set-cookie'', '''', 54, 1848371000),
    (''strict-transport-security'', '''', 55, 4138147361),
    (''transfer-encoding'', '''', 56, 3719590988),
    (''user-agent'', '''', 57, 606444526),
    (''vary'', '''', 58, 1085005381),
    (''via'', '''', 59, 1762798611),
    (''www-authenticate'', '''', 60, 779865858)]"

definition static_table :: "(nghttp2_hd_nv \<times> u32) list" where
  "static_table = map (\<lambda>(n, v, t, h).
     (\<lparr>nv_name = text_bytes n, nv_value = text_bytes v, nv_token = t, nv_flags = NGHTTP2_NV_FLAG_NONE\<rparr>, h)) static_rows"

definition name_hash :: "bytes \<Rightarrow> u32" where
  "name_hash name = foldl (\<lambda>h c. let h1 = h XOR ucast c in
     h1 + (push_bit 1 h1 + push_bit 4 h1 + push_bit 7 h1 + push_bit 8 h1 + push_bit 24 h1)) 2166136261 name"

section \<open>Entries and the hash map\<close>

record nghttp2_hd_entry =
  ent_nv :: nghttp2_hd_nv
  ent_seq :: u32
  ent_hash :: u32

type_synonym nghttp2_hd_map = "nghttp2_hd_entry list list"

definition name_eq :: "nghttp2_hd_nv \<Rightarrow> nghttp2_nv \<Rightarrow> bool" where
  "name_eq a b \<longleftrightarrow> nv_name a = h_name b"

definition value_eq :: "nghttp2_hd_nv \<Rightarrow> nghttp2_nv \<Rightarrow> bool" where
  "value_eq a b \<longleftrightarrow> nv_value a = h_value b"

definition hd_map_init :: nghttp2_hd_map where
  "hd_map_init = replicate 128 []"

definition bucket :: "u32 \<Rightarrow> nat" where
  "bucket hash = unat (hash AND 127)"

definition hd_map_insert :: "nghttp2_hd_map \<Rightarrow> nghttp2_hd_entry \<Rightarrow> nghttp2_hd_map option" where
  "hd_map_insert m ent = do {
     ents \<leftarrow> rd m (bucket (ent_hash ent));
     wr m (bucket (ent_hash ent)) (ent # ents)
   }"

text \<open>The loop answers the entry it found and whether its value matches too.\<close>

fun find_chain ::
  "nghttp2_nv \<Rightarrow> int \<Rightarrow> u32 \<Rightarrow> bool \<Rightarrow> nghttp2_hd_entry option \<Rightarrow> nghttp2_hd_entry list \<Rightarrow> nghttp2_hd_entry option \<times> bool" where
  "find_chain nv token hash name_only res [] = (res, False)"
| "find_chain nv token hash name_only res (p # ps) =
     (if token \<noteq> nv_token (ent_nv p) \<or> (token = -1 \<and> (hash \<noteq> ent_hash p \<or> \<not> name_eq (ent_nv p) nv))
      then find_chain nv token hash name_only res ps
      else if res = None \<and> name_only then (Some p, False)
      else if value_eq (ent_nv p) nv then (Some p, True)
      else find_chain nv token hash name_only (if res = None then Some p else res) ps)"

definition hd_map_find ::
  "nghttp2_hd_map \<Rightarrow> nghttp2_nv \<Rightarrow> int \<Rightarrow> u32 \<Rightarrow> bool \<Rightarrow> (nghttp2_hd_entry option \<times> bool) option" where
  "hd_map_find m nv token hash name_only =
     map_option (find_chain nv token hash name_only None) (rd m (bucket hash))"

fun unlink :: "nghttp2_hd_entry \<Rightarrow> nghttp2_hd_entry list \<Rightarrow> nghttp2_hd_entry list" where
  "unlink ent [] = []"
| "unlink ent (d # ds) = (if ent_seq d \<noteq> ent_seq ent then d # unlink ent ds else ds)"

definition hd_map_remove :: "nghttp2_hd_map \<Rightarrow> nghttp2_hd_entry \<Rightarrow> nghttp2_hd_map option" where
  "hd_map_remove m ent = do {
     ents \<leftarrow> rd m (bucket (ent_hash ent));
     wr m (bucket (ent_hash ent)) (unlink ent ents)
   }"

section \<open>The ring buffer\<close>

record nghttp2_hd_ringbuf =
  rb_slots :: "nghttp2_hd_entry option list"
  rb_mask :: u32
  rb_first :: u32
  rb_len :: nat

definition hd_malloc :: "nghttp2_mem \<Rightarrow> bool \<times> nghttp2_mem" where
  "hd_malloc m = (case mem_alloc (mem_answers m) of (ok, a) \<Rightarrow> (ok, m\<lparr>mem_answers := a\<rparr>))"

text \<open>Doubling from 1, which the test for 0 states to be positive, up to the size asked for.\<close>

function ring_size :: "nat \<Rightarrow> nat \<Rightarrow> nat" where
  "ring_size n bufsize = (if 0 < n \<and> n < bufsize then ring_size (2 * n) bufsize else n)"
  by pat_completeness auto
termination by (relation "measure (\<lambda>(n, bufsize). bufsize - n)") auto

declare ring_size.simps [simp del]

definition hd_ringbuf_init :: "nat \<Rightarrow> nghttp2_mem \<Rightarrow> nghttp2_hd_ringbuf option \<times> nghttp2_mem \<times> int" where
  "hd_ringbuf_init bufsize m =
     (let n = ring_size 1 bufsize in
      case hd_malloc m of
        (False, m1) \<Rightarrow> (None, m1, NGHTTP2_ERR_NOMEM)
      | (True, m1) \<Rightarrow>
          (Some \<lparr>rb_slots = replicate n None, rb_mask = word_of_nat (n - 1), rb_first = 0, rb_len = 0\<rparr>, m1, 0))"

definition ring_index :: "nghttp2_hd_ringbuf \<Rightarrow> nat \<Rightarrow> nat" where
  "ring_index rb idx = unat ((rb_first rb + word_of_nat idx) AND rb_mask rb)"

definition hd_ringbuf_get :: "nghttp2_hd_ringbuf \<Rightarrow> nat \<Rightarrow> nghttp2_hd_entry option" where
  "hd_ringbuf_get rb idx =
     (if idx < rb_len rb then Option.bind (rd (rb_slots rb) (ring_index rb idx)) (\<lambda>s. s) else None)"

definition hd_ringbuf_reserve ::
  "nghttp2_hd_ringbuf \<Rightarrow> nat \<Rightarrow> nghttp2_mem \<Rightarrow> (nghttp2_hd_ringbuf \<times> nghttp2_mem \<times> int) option" where
  "hd_ringbuf_reserve rb bufsize m =
     (if bufsize \<le> unat (rb_mask rb + 1) then Some (rb, m, 0)
      else
        (let n = ring_size 1 bufsize in
         case hd_malloc m of
           (False, m1) \<Rightarrow> Some (rb, m1, NGHTTP2_ERR_NOMEM)
         | (True, m1) \<Rightarrow> do {
             ents \<leftarrow> those (map (hd_ringbuf_get rb) [0..<rb_len rb]);
             slots \<leftarrow> wr_block (replicate n None) 0 (map Some ents);
             Some (rb\<lparr>rb_slots := slots, rb_mask := word_of_nat (n - 1), rb_first := 0\<rparr>, m1, 0)
           }))"

definition hd_ringbuf_push_front ::
  "nghttp2_hd_ringbuf \<Rightarrow> nghttp2_hd_entry \<Rightarrow> nghttp2_mem \<Rightarrow> (nghttp2_hd_ringbuf \<times> nghttp2_mem \<times> int) option" where
  "hd_ringbuf_push_front rb ent m = do {
     (rb1, m1, rv) \<leftarrow> hd_ringbuf_reserve rb (rb_len rb + 1) m;
     if rv \<noteq> 0 then Some (rb1, m1, rv)
     else do {
       let first = rb_first rb1 - 1;
       slots \<leftarrow> wr (rb_slots rb1) (unat (first AND rb_mask rb1)) (Some ent);
       Some (rb1\<lparr>rb_slots := slots, rb_first := first, rb_len := rb_len rb1 + 1\<rparr>, m1, 0)
     }
   }"

definition hd_ringbuf_pop_back :: "nghttp2_hd_ringbuf \<Rightarrow> nghttp2_hd_ringbuf option" where
  "hd_ringbuf_pop_back rb = (if 0 < rb_len rb then Some (rb\<lparr>rb_len := rb_len rb - 1\<rparr>) else None)"

section \<open>The context\<close>

record nghttp2_hd_context =
  hd_table :: nghttp2_hd_ringbuf
  ctx_mem :: nghttp2_mem
  hd_table_bufsize :: nat
  hd_table_bufsize_max :: nat
  next_seq :: u32
  ctx_bad :: bool

definition hd_context_init :: "nghttp2_mem \<Rightarrow> nghttp2_hd_context option \<times> nghttp2_mem \<times> int" where
  "hd_context_init m =
     (case hd_ringbuf_init (NGHTTP2_HD_DEFAULT_MAX_BUFFER_SIZE div NGHTTP2_HD_ENTRY_OVERHEAD) m of
        (None, m1, rv) \<Rightarrow> (None, m1, rv)
      | (Some rb, m1, _) \<Rightarrow>
          (Some \<lparr>hd_table = rb, ctx_mem = m1, hd_table_bufsize = 0,
                 hd_table_bufsize_max = NGHTTP2_HD_DEFAULT_MAX_BUFFER_SIZE, next_seq = 0, ctx_bad = False\<rparr>, m1, 0))"

definition entry_room :: "nat \<Rightarrow> nat \<Rightarrow> nat" where
  "entry_room namelen valuelen = NGHTTP2_HD_ENTRY_OVERHEAD + namelen + valuelen"

definition nv_room :: "nghttp2_hd_nv \<Rightarrow> nat" where
  "nv_room nv = entry_room (length (nv_name nv)) (length (nv_value nv))"

text \<open>
  The loop that removes old entries until there is room; to shrink the table is to make room
  for nothing. The map is absent in the decoder.
\<close>

partial_function (option) hd_evict ::
  "nat \<Rightarrow> nghttp2_hd_context \<Rightarrow> nghttp2_hd_map option \<Rightarrow> (nghttp2_hd_context \<times> nghttp2_hd_map option) option" where
  "hd_evict need ctx m =
     (if hd_table_bufsize_max ctx < hd_table_bufsize ctx + need \<and> 0 < rb_len (hd_table ctx)
      then do {
        ent \<leftarrow> hd_ringbuf_get (hd_table ctx) (rb_len (hd_table ctx) - 1);
        rb \<leftarrow> hd_ringbuf_pop_back (hd_table ctx);
        m1 \<leftarrow> (case m of None \<Rightarrow> Some None | Some t \<Rightarrow> map_option Some (hd_map_remove t ent));
        hd_evict need
          (ctx\<lparr>hd_table_bufsize := hd_table_bufsize ctx - nv_room (ent_nv ent), hd_table := rb\<rparr>) m1
      }
      else Some (ctx, m))"

declare hd_evict.simps [code]

definition add_hd_table_incremental ::
  "nghttp2_hd_context \<Rightarrow> nghttp2_hd_nv \<Rightarrow> nghttp2_hd_map option \<Rightarrow> u32 \<Rightarrow>
   (nghttp2_hd_context \<times> nghttp2_hd_map option \<times> int) option" where
  "add_hd_table_incremental ctx nv m hash = do {
     let need = nv_room nv;
     (ctx1, m1) \<leftarrow> hd_evict need ctx m;
     if hd_table_bufsize_max ctx1 < need then Some (ctx1, m1, 0)
     else
       (case hd_malloc (ctx_mem ctx1) of
          (False, a) \<Rightarrow> Some (ctx1\<lparr>ctx_mem := a\<rparr>, m1, NGHTTP2_ERR_NOMEM)
        | (True, a) \<Rightarrow> do {
            let ent = \<lparr>ent_nv = nv, ent_seq = next_seq ctx1, ent_hash = hash\<rparr>;
            (rb, a1, rv) \<leftarrow> hd_ringbuf_push_front (hd_table ctx1) ent a;
            if rv \<noteq> 0 then Some (ctx1\<lparr>hd_table := rb, ctx_mem := a1\<rparr>, m1, rv)
            else do {
              m2 \<leftarrow> (case m1 of None \<Rightarrow> Some None | Some t \<Rightarrow> map_option Some (hd_map_insert t ent));
              Some (ctx1\<lparr>hd_table := rb, ctx_mem := a1, next_seq := next_seq ctx1 + 1,
                         hd_table_bufsize := hd_table_bufsize ctx1 + need\<rparr>, m2, 0)
            }
          })
   }"

definition hd_context_shrink_table_size ::
  "nghttp2_hd_context \<Rightarrow> nghttp2_hd_map option \<Rightarrow> (nghttp2_hd_context \<times> nghttp2_hd_map option) option" where
  "hd_context_shrink_table_size ctx m = hd_evict 0 ctx m"

text \<open>An index and whether the value matches as well; the index is $-1$ when nothing is found.\<close>

fun static_scan :: "nghttp2_nv \<Rightarrow> int \<Rightarrow> int \<Rightarrow> (nghttp2_hd_nv \<times> u32) list \<Rightarrow> int \<times> bool" where
  "static_scan nv token i [] = (token, False)"
| "static_scan nv token i ((e, h) # es) =
     (if nv_token e \<noteq> token then (token, False)
      else if nv_value e = h_value nv then (i, True)
      else static_scan nv token (i + 1) es)"

definition search_static_table :: "nghttp2_nv \<Rightarrow> int \<Rightarrow> bool \<Rightarrow> int \<times> bool" where
  "search_static_table nv token name_only =
     (if name_only then (token, False) else static_scan nv token token (drop (nat token) static_table))"

definition search_hd_table ::
  "nghttp2_hd_context \<Rightarrow> nghttp2_nv \<Rightarrow> int \<Rightarrow> bool \<Rightarrow> nghttp2_hd_map \<Rightarrow> u32 \<Rightarrow> (int \<times> bool) option" where
  "search_hd_table ctx nv token name_only m hash = do {
     (ent, exact) \<leftarrow> hd_map_find m nv token hash name_only;
     if \<not> exact \<and> 0 \<le> token \<and> token \<le> NGHTTP2_TOKEN_WWW_AUTHENTICATE
     then Some (search_static_table nv token name_only)
     else
       (case ent of
          None \<Rightarrow> Some (-1, False)
        | Some e \<Rightarrow> Some (uint (next_seq ctx - 1 - ent_seq e + 61), exact))
   }"

definition get_max_index :: "nghttp2_hd_context \<Rightarrow> nat" where
  "get_max_index ctx = rb_len (hd_table ctx) + NGHTTP2_STATIC_TABLE_LENGTH"

definition INDEX_RANGE_VALID :: "nghttp2_hd_context \<Rightarrow> nat \<Rightarrow> bool" where
  "INDEX_RANGE_VALID ctx idx \<longleftrightarrow> idx < rb_len (hd_table ctx) + NGHTTP2_STATIC_TABLE_LENGTH"

definition nghttp2_hd_table_get :: "nghttp2_hd_context \<Rightarrow> nat \<Rightarrow> nghttp2_hd_nv option" where
  "nghttp2_hd_table_get ctx idx =
     (if \<not> INDEX_RANGE_VALID ctx idx then None
      else if NGHTTP2_STATIC_TABLE_LENGTH \<le> idx
      then map_option ent_nv (hd_ringbuf_get (hd_table ctx) (idx - NGHTTP2_STATIC_TABLE_LENGTH))
      else map_option fst (rd static_table idx))"

text \<open>The application asks for entries by their HPACK index, from 1; it gets name and value.\<close>

definition hd_get_table_entry :: "nghttp2_hd_context \<Rightarrow> nat \<Rightarrow> nghttp2_hd_nv option option" where
  "hd_get_table_entry ctx idx =
     (if idx = 0 then Some None
      else if \<not> INDEX_RANGE_VALID ctx (idx - 1) then Some None
      else map_option Some (nghttp2_hd_table_get ctx (idx - 1)))"

end
