(* ===== verification/Ng_Hd_Table_Props.thy ===== *)
theory Ng_Hd_Table_Props
  imports Ng_Hd_Table
begin

text \<open>
  What the header tables do: the ring buffer is a list of entries, newest first; the buckets of
  the hash map are the entries of the list with that hash; making room keeps the longest prefix
  that fits; the search answers an entry with the name, and the value when it says so.
\<close>

section \<open>Tokens\<close>

text \<open>The switches on characters; a text of the switches by its token.\<close>

definition lookup_text :: "string \<Rightarrow> int" where
  "lookup_text s =
     (case map_of token_rows (length s) of
        None \<Rightarrow> -1
      | Some cases \<Rightarrow>
          (case map_of cases (last s) of
             None \<Rightarrow> -1
           | Some tests \<Rightarrow> (case map_of tests (butlast s) of None \<Rightarrow> -1 | Some t \<Rightarrow> t)))"

definition token_texts :: "(int \<times> string) list" where
  "token_texts =
     concat (map (\<lambda>(n, cs). concat (map (\<lambda>(c, ts). map (\<lambda>(p, t). (t, p @ [c])) ts) cs)) token_rows)"

lemma no_empty_token: "map_of token_rows 0 = None"
  by (simp add: token_rows_def)

lemma lookup_token_text: "lookup_token (text_bytes s) = lookup_text s"
  by (cases s rule: rev_cases)
    (simp_all add: lookup_token_def lookup_text_def text_bytes_def no_empty_token comp_def cong: option.case_cong)

lemma text_bytes_chars: "text_bytes (map chr_of_byte bs) = bs"
  by (simp add: text_bytes_def comp_def)

lemma lookup_text_in: 
  assumes "lookup_text s = t" "t \<noteq> -1"
  shows "(t, s) \<in> set token_texts"
proof -
  obtain cs ts where r: "map_of token_rows (length s) = Some cs" "map_of cs (last s) = Some ts" "map_of ts (butlast s) = Some t"
    using assms by (auto simp: lookup_text_def split: option.splits)
  have "s \<noteq> []" using r(1) by (auto simp: no_empty_token)
  then have "butlast s @ [last s] = s" by simp
  then show ?thesis
    using map_of_SomeD [OF r(1)] map_of_SomeD [OF r(2)] map_of_SomeD [OF r(3)]
    unfolding token_texts_def by force
qed

lemma token_texts_distinct: "distinct (map fst token_texts)"
  by (simp add: token_texts_def token_rows_def)

lemma token_texts_range: "list_all (\<lambda>(t, s). 0 \<le> t \<and> t \<le> 67) token_texts"
  by code_simp

lemma token_texts_static:
  "list_all (\<lambda>(t, s). 60 < t \<or> (case static_rows ! nat t of (n, v, t', h) \<Rightarrow> n = s \<and> t' = t)) token_texts"
  by code_simp

lemma static_names: "list_all (\<lambda>(n, v, t, h). fst (static_rows ! nat t) = n \<and> 0 \<le> t \<and> t \<le> 60) static_rows"
  by code_simp

lemma length_static: "length static_table = 61"
  by (simp add: static_table_def static_rows_def)

lemma lookup_token_range: "lookup_token name = -1 \<or> 0 \<le> lookup_token name \<and> lookup_token name \<le> 67"
proof (cases "lookup_token name = -1")
  case False
  then have "(lookup_token name, map chr_of_byte name) \<in> set token_texts"
    using lookup_text_in [of "map chr_of_byte name"] lookup_token_text [of "map chr_of_byte name"]
    by (simp add: text_bytes_chars)
  then show ?thesis using token_texts_range by (auto simp: list_all_iff)
qed simp

lemma lookup_token_inj:
  assumes "lookup_token a = lookup_token b" "lookup_token a \<noteq> -1"
  shows "a = b"
proof -
  have "(lookup_token a, map chr_of_byte a) \<in> set token_texts" "(lookup_token a, map chr_of_byte b) \<in> set token_texts"
    using lookup_text_in [of "map chr_of_byte a"] lookup_text_in [of "map chr_of_byte b"] assms
      lookup_token_text [of "map chr_of_byte a"] lookup_token_text [of "map chr_of_byte b"] by (simp_all add: text_bytes_chars)
  then have "map chr_of_byte a = map chr_of_byte b"
    using eq_key_imp_eq_value token_texts_distinct by metis
  then show ?thesis by (metis text_bytes_chars)
qed

lemma static_token:
  assumes "lookup_token name = t" "0 \<le> t" "t \<le> 60"
  shows "nat t < 61 \<and> nv_name (fst (static_table ! nat t)) = name \<and> nv_token (fst (static_table ! nat t)) = t"
proof -
  have "(t, map chr_of_byte name) \<in> set token_texts"
    using lookup_text_in [of "map chr_of_byte name"] lookup_token_text [of "map chr_of_byte name"] assms
    by (simp add: text_bytes_chars)
  then have "case static_rows ! nat t of (n, v, t', h) \<Rightarrow> n = map chr_of_byte name \<and> t' = t"
    using token_texts_static assms by (fastforce simp: list_all_iff)
  moreover have "nat t < 61" "length static_rows = 61" using assms length_static by (simp_all add: static_table_def)
  ultimately show ?thesis
    using text_bytes_chars [of name] by (auto simp: static_table_def split: prod.splits)
qed

lemma static_same_token:
  assumes "i < 61" "nv_token (fst (static_table ! i)) = t"
  shows "nv_name (fst (static_table ! i)) = nv_name (fst (static_table ! nat t))"
proof -
  have len: "length static_rows = 61" using length_static by (simp add: static_table_def)
  obtain n v t' h where r: "static_rows ! i = (n, v, t', h)" by (cases "static_rows ! i")
  then have t': "t' = t" "(n, v, t, h) \<in> set static_rows"
    using assms len nth_mem [of i static_rows] by (auto simp: static_table_def)
  then have "fst (static_rows ! nat t) = n" "nat t < 61" using static_names by (auto simp: list_all_iff)
  then show ?thesis using r assms(1) len by (auto simp: static_table_def split: prod.splits)
qed

section \<open>The ring buffer is a list\<close>

definition ring_repr :: "nghttp2_hd_ringbuf \<Rightarrow> nghttp2_hd_entry list \<Rightarrow> bool" where
  "ring_repr rb es \<longleftrightarrow>
     (\<exists>k \<le> 31. length (rb_slots rb) = 2 ^ k \<and> rb_mask rb = mask k) \<and>
     rb_len rb = length es \<and> length es \<le> length (rb_slots rb) \<and>
     (\<forall>i < length es. rb_slots rb ! ring_index rb i = Some (es ! i))"

lemma ring_index_mod:
  assumes "rb_mask rb = mask k" "k \<le> 31"
  shows "ring_index rb i = (unat (rb_first rb) + i) mod 2 ^ k"
proof -
  have "ring_index rb i = unat (take_bit k (rb_first rb + word_of_nat i))"
    using assms by (simp add: ring_index_def take_bit_eq_mask)
  also have "\<dots> = unat (rb_first rb + word_of_nat i) mod 2 ^ k"
    unfolding unsigned_take_bit_eq by (rule take_bit_eq_mod)
  also have "\<dots> = (unat (rb_first rb) + i) mod 2 ^ 32 mod 2 ^ k"
    by (simp add: unat_word_ariths unsigned_of_nat take_bit_eq_mod mod_simps)
  also have "\<dots> = (unat (rb_first rb) + i) mod 2 ^ k"
    by (rule mod_mod_cancel, rule le_imp_power_dvd) (use assms(2) in simp)
  finally show ?thesis .
qed

lemma ring_index_less: "rb_mask rb = mask k \<Longrightarrow> k \<le> 31 \<Longrightarrow> ring_index rb i < 2 ^ k"
  by (simp add: ring_index_mod)

lemma mod_apart: "i < j \<Longrightarrow> j - i < n \<Longrightarrow> (a + i) mod n \<noteq> (a + j) mod (n :: nat)"
proof
  assume lt: "i < j" "j - i < n" and eq: "(a + i) mod n = (a + j) mod n"
  have le: "a + i \<le> a + j" using lt(1) by simp
  have "n dvd (a + j) - (a + i)" by (rule mod_eq_dvd_iff_nat [OF le, of n, THEN iffD1, OF eq [symmetric]])
  then have "n \<le> (a + j) - (a + i)" by (rule dvd_imp_le) (use lt in simp)
  then show False using lt by simp
qed

lemma mask_capacity: "k \<le> 31 \<Longrightarrow> unat (mask k + 1 :: u32) = 2 ^ k"
proof -
  assume "k \<le> 31"
  then have lt: "(2 :: nat) ^ k < 2 ^ LENGTH(32)" by (intro power_strict_increasing) auto
  have "unat (word_of_nat (2 ^ k) :: u32) = 2 ^ k" by (rule word_of_nat_unat_le [OF lt])
  then show ?thesis by (simp add: mask_eq_exp_minus_1)
qed

lemma ring_get: "ring_repr rb es \<Longrightarrow> i < length es \<Longrightarrow> hd_ringbuf_get rb i = Some (es ! i)"
  unfolding ring_repr_def hd_ringbuf_get_def using ring_index_less by auto

lemma ring_get_outside: "ring_repr rb es \<Longrightarrow> length es \<le> i \<Longrightarrow> hd_ringbuf_get rb i = None"
  by (simp add: ring_repr_def hd_ringbuf_get_def)

lemma ring_pop: "ring_repr rb (es @ [e]) \<Longrightarrow> \<exists>rb'. hd_ringbuf_pop_back rb = Some rb' \<and> ring_repr rb' es"
proof -
  assume r: "ring_repr rb (es @ [e])"
  have "ring_index (rb\<lparr>rb_len := n\<rparr>) i = ring_index rb i" for n i by (simp add: ring_index_def)
  then show ?thesis
    using r by (auto simp: ring_repr_def hd_ringbuf_pop_back_def nth_append)
qed

lemma ring_size_power: "\<exists>j. ring_size (2 ^ i) n = 2 ^ j \<and> n \<le> 2 ^ j \<and> (j = i \<or> 2 ^ j < 2 * n)"
proof (induction "n - 2 ^ i" arbitrary: i rule: less_induct)
  case less
  show ?case
  proof (cases "2 ^ i < n")
    case True
    then have "n - 2 ^ Suc i < n - 2 ^ i" by (intro diff_less_mono2) simp_all
    from less [OF this] obtain j where "ring_size (2 ^ Suc i) n = 2 ^ j" "n \<le> 2 ^ j" "j = Suc i \<or> 2 ^ j < 2 * n"
      by blast
    moreover have "ring_size (2 ^ i) n = ring_size (2 ^ Suc i) n" using True by (subst ring_size.simps) simp
    ultimately show ?thesis using True by auto
  next
    case False
    then show ?thesis by (subst ring_size.simps) auto
  qed
qed

lemma ring_size_ok:
  assumes "n \<le> 2 ^ 30"
  shows "\<exists>k \<le> 31. ring_size 1 n = 2 ^ k \<and> n \<le> 2 ^ k \<and> word_of_nat (ring_size 1 n - 1) = (mask k :: u32)"
proof -
  obtain k where k: "ring_size 1 n = 2 ^ k" "n \<le> 2 ^ k" "k = 0 \<or> 2 ^ k < 2 * n" using ring_size_power [of 0 n] by auto
  then have "2 ^ k < (2 :: nat) ^ 32" using assms by auto
  then have "k < 32" by (rule power_less_imp_less_exp [rotated]) simp
  then have "k \<le> 31" by simp
  moreover have "word_of_nat (2 ^ k - 1) = (mask k :: u32)" by (simp add: mask_eq_exp_minus_1 of_nat_diff)
  ultimately show ?thesis using k by auto
qed

lemma those_map_Some: "\<forall>i < n. f i = Some (g i) \<Longrightarrow> those (map f [0..<n]) = Some (map g [0..<n])"
proof (induction n)
  case (Suc n)
  have "those (xs @ [Some y]) = map_option (\<lambda>zs. zs @ [y]) (those xs)" for xs :: "'a option list" and y
    by (induction xs) (auto split: option.splits simp: option.map_comp comp_def)
  then show ?case using Suc by simp
qed simp

lemma ring_init:
  "hd_ringbuf_init n m = (rb, m', rv) \<Longrightarrow> n \<le> 2 ^ 30 \<Longrightarrow>
   if rv = 0 then \<exists>r. rb = Some r \<and> ring_repr r [] else rb = None \<and> rv = NGHTTP2_ERR_NOMEM \<and> \<not> list_all id (mem_answers m)"
  using ring_size_ok [of n]
  by (auto simp: hd_ringbuf_init_def Let_def hd_malloc_def mem_alloc_def ring_repr_def split: prod.splits bool.splits list.splits)

lemma ring_reserve:
  assumes r: "ring_repr rb es" and n: "n \<le> 2 ^ 30" "length es \<le> n"
  shows "\<exists>rb' m' rv. hd_ringbuf_reserve rb n m = Some (rb', m', rv) \<and> ring_repr rb' es \<and>
    (\<exists>u. mem_answers m = u @ mem_answers m') \<and>
    (if rv = 0 then n \<le> length (rb_slots rb') else rv = NGHTTP2_ERR_NOMEM \<and> \<not> list_all id (mem_answers m))"
proof -
  obtain k where k: "k \<le> 31" "length (rb_slots rb) = 2 ^ k" "rb_mask rb = mask k" using r by (auto simp: ring_repr_def)
  show ?thesis
  proof (cases "n \<le> unat (rb_mask rb + 1)")
    case True
    then show ?thesis using r k mask_capacity [OF k(1)] by (auto simp: hd_ringbuf_reserve_def)
  next
    case False
    obtain ok m1 where m1: "hd_malloc m = (ok, m1)" "\<exists>u. mem_answers m = u @ mem_answers m1" "ok \<or> \<not> list_all id (mem_answers m)"
      by (cases "mem_answers m") (auto simp: hd_malloc_def mem_alloc_def)
    show ?thesis
    proof (cases ok)
      case ok: True
      obtain j where j: "j \<le> 31" "ring_size 1 n = 2 ^ j" "n \<le> 2 ^ j" "word_of_nat (ring_size 1 n - 1) = (mask j :: u32)"
        using ring_size_ok [OF n(1)] by blast
      have "those (map (hd_ringbuf_get rb) [0..<length es]) = Some (map (\<lambda>i. es ! i) [0..<length es])"
        using ring_get [OF r] by (intro those_map_Some) simp
      then have copy: "those (map (hd_ringbuf_get rb) [0..<length es]) = Some es" by (simp only: map_nth)
      let ?rb = "rb\<lparr>rb_slots := map Some es @ replicate (2 ^ j - length es) None, rb_mask := mask j, rb_first := 0\<rparr>"
      have "hd_ringbuf_reserve rb n m = Some (?rb, m1, 0)"
        using False m1(1) ok j copy n(2) r unfolding hd_ringbuf_reserve_def
        by (simp add: Let_def ring_repr_def)
      moreover have "ring_index ?rb i = i" if "i < length es" for i
        using ring_index_mod [of ?rb j i] j that n(2) by simp
      then have "ring_repr ?rb es"
        using r j n(2) by (auto simp: ring_repr_def nth_append intro!: exI [of _ j])
      ultimately show ?thesis using m1(2) j(3) n(2) by auto
    next
      case no: False
      then show ?thesis using False m1 r by (auto simp: hd_ringbuf_reserve_def Let_def)
    qed
  qed
qed

lemma ring_push:
  assumes r: "ring_repr rb es" and n: "length es < 2 ^ 30"
  shows "\<exists>rb' m' rv. hd_ringbuf_push_front rb e m = Some (rb', m', rv) \<and>
    (\<exists>u. mem_answers m = u @ mem_answers m') \<and>
    (if rv = 0 then ring_repr rb' (e # es)
     else ring_repr rb' es \<and> rv = NGHTTP2_ERR_NOMEM \<and> \<not> list_all id (mem_answers m))"
proof -
  have len: "rb_len rb = length es" using r by (simp add: ring_repr_def)
  obtain rb1 m1 rv where res: "hd_ringbuf_reserve rb (length es + 1) m = Some (rb1, m1, rv)" "ring_repr rb1 es"
    "\<exists>u. mem_answers m = u @ mem_answers m1"
    "if rv = 0 then length es + 1 \<le> length (rb_slots rb1) else rv = NGHTTP2_ERR_NOMEM \<and> \<not> list_all id (mem_answers m)"
    using ring_reserve [OF r, of "length es + 1" m] n by auto
  show ?thesis
  proof (cases "rv = 0")
    case True
    obtain k where k: "k \<le> 31" "length (rb_slots rb1) = 2 ^ k" "rb_mask rb1 = mask k" using res(2) by (auto simp: ring_repr_def)
    let ?f = "rb_first rb1 - 1"
    define at where "at = unat (?f AND rb_mask rb1)"
    let ?rb = "rb1\<lparr>rb_slots := (rb_slots rb1)[at := Some e], rb_first := ?f, rb_len := length es + 1\<rparr>"
    have at: "at = ring_index ?rb 0" "at < 2 ^ k"
      using ring_index_less [of ?rb k 0] k by (simp_all add: at_def ring_index_def)
    have later: "ring_index ?rb (Suc i) = ring_index rb1 i" for i by (simp add: ring_index_def algebra_simps)
    have apart: "ring_index ?rb (Suc i) \<noteq> at" if "i < length es" for i
    proof -
      have mask: "rb_mask ?rb = mask k" using k(3) by simp
      have "(unat (rb_first ?rb) + 0) mod 2 ^ k \<noteq> (unat (rb_first ?rb) + Suc i) mod 2 ^ k"
        by (rule mod_apart) (use that res(4) True k(2) in simp_all)
      then show ?thesis unfolding ring_index_mod [OF mask k(1), symmetric] at(1) [symmetric] by (rule not_sym)
    qed
    have "rb_slots ?rb ! ring_index ?rb i = Some ((e # es) ! i)" if "i < Suc (length es)" for i
    proof (cases i)
      case 0
      then show ?thesis using at k(2) by simp
    next
      case (Suc j)
      then have j: "j < length es" using that by simp
      have "(rb_slots rb1)[at := Some e] ! ring_index ?rb i = rb_slots rb1 ! ring_index rb1 j"
        unfolding Suc using apart [OF j] later [of j] by simp
      then show ?thesis using res(2) j Suc by (simp add: ring_repr_def)
    qed
    then have "ring_repr ?rb (e # es)" using k res(4) True by (auto simp: ring_repr_def)
    moreover have "hd_ringbuf_push_front rb e m = Some (?rb, m1, 0)"
      using res True at(2) k(2) len unfolding hd_ringbuf_push_front_def
      by (simp add: at_def ring_repr_def Let_def)
    ultimately show ?thesis using res(3) by auto
  next
    case False
    then show ?thesis using res len by (auto simp: hd_ringbuf_push_front_def)
  qed
qed

section \<open>Making room\<close>

text \<open>The longest prefix whose sizes sum up to at most \<open>m\<close>.\<close>

fun keep :: "('a \<Rightarrow> nat) \<Rightarrow> nat \<Rightarrow> 'a list \<Rightarrow> 'a list" where
  "keep f m [] = []"
| "keep f m (x # xs) = (if f x \<le> m then x # keep f (m - f x) xs else [])"

lemma keep_all: "sum_list (map f xs) \<le> m \<Longrightarrow> keep f m xs = xs"
  by (induction xs arbitrary: m) auto

lemma keep_snoc: "m < sum_list (map f (xs @ [x])) \<Longrightarrow> keep f m (xs @ [x]) = keep f m xs"
  by (induction xs arbitrary: m) auto

lemma keep_sum: "sum_list (map f (keep f m xs)) \<le> m"
proof (induction xs arbitrary: m)
  case (Cons x xs)
  show ?case using Cons.IH [of "m - f x"] by auto
qed simp

lemma keep_prefix: "prefix (keep f m xs) xs"
  by (induction xs arbitrary: m) auto

lemma keep_subset: "x \<in> set (keep f m xs) \<Longrightarrow> x \<in> set xs"
  using keep_prefix [of f m xs] set_mono_prefix by blast

lemma keep_keep: "keep f a (keep f b xs) = keep f (min a b) xs"
  by (induction xs arbitrary: a b) (auto simp: min_def)

lemma keep_map: "map g (keep (\<lambda>x. f (g x)) m xs) = keep f m (map g xs)"
  by (induction xs arbitrary: m) auto

definition fitting :: "('a \<Rightarrow> nat) \<Rightarrow> nat \<Rightarrow> nat \<Rightarrow> 'a list \<Rightarrow> 'a list" where
  "fitting f need cap xs = (if need \<le> cap then keep f (cap - need) xs else [])"

lemma fitting_all: "sum_list (map f xs) + need \<le> cap \<Longrightarrow> fitting f need cap xs = xs"
  by (simp add: fitting_def keep_all)

lemma fitting_Nil [simp]: "fitting f need cap [] = []"
  by (simp add: fitting_def)

lemma fitting_snoc: "cap < sum_list (map f (xs @ [x])) + need \<Longrightarrow> fitting f need cap (xs @ [x]) = fitting f need cap xs"
  by (simp add: fitting_def keep_snoc)

lemma fitting_prefix: "prefix (fitting f need cap xs) xs"
  by (simp add: fitting_def keep_prefix)

lemma fitting_push: "f x \<le> cap \<Longrightarrow> x # fitting f (f x) cap xs = keep f cap (x # xs)"
  by (simp add: fitting_def)

lemma fitting_none: "cap < f x \<Longrightarrow> fitting f (f x) cap xs = keep f cap (x # xs)"
  by (simp add: fitting_def)

lemma fitting_sum: "need \<le> cap \<Longrightarrow> sum_list (map f (fitting f need cap xs)) + need \<le> cap"
  using keep_sum [of f "cap - need" xs] by (simp add: fitting_def)

section \<open>The context as a list of entries\<close>

abbreviation ent_room :: "nghttp2_hd_entry \<Rightarrow> nat" where
  "ent_room e \<equiv> nv_room (ent_nv e)"

definition ctx_repr :: "nghttp2_hd_context \<Rightarrow> nghttp2_hd_entry list \<Rightarrow> bool" where
  "ctx_repr ctx es \<longleftrightarrow> ring_repr (hd_table ctx) es \<and>
     hd_table_bufsize ctx = sum_list (map ent_room es) \<and> hd_table_bufsize ctx < 2 ^ 32 \<and>
     (\<forall>i < length es. ent_seq (es ! i) = next_seq ctx - 1 - word_of_nat i)"

definition map_repr :: "nghttp2_hd_map \<Rightarrow> nghttp2_hd_entry list \<Rightarrow> bool" where
  "map_repr m es \<longleftrightarrow> length m = 128 \<and> (\<forall>b < 128. m ! b = filter (\<lambda>e. bucket (ent_hash e) = b) es)"

fun maybe_map_repr :: "nghttp2_hd_map option \<Rightarrow> nghttp2_hd_entry list \<Rightarrow> bool" where
  "maybe_map_repr None es \<longleftrightarrow> True"
| "maybe_map_repr (Some m) es \<longleftrightarrow> map_repr m es"

lemma bucket_less [simp]: "bucket h < 128"
proof -
  have "bucket h = unat (take_bit 7 h)" by (simp add: bucket_def take_bit_eq_mask mask_numeral)
  also have "\<dots> < 2 ^ 7" unfolding unsigned_take_bit_eq by (rule take_bit_nat_less_exp)
  finally show ?thesis by simp
qed

lemma ctx_length: "ctx_repr ctx es \<Longrightarrow> length es < 2 ^ 27"
proof -
  assume c: "ctx_repr ctx es"
  have "32 * length es \<le> sum_list (map ent_room es)"
    by (induction es) (auto simp: nv_room_def entry_room_def)
  then show ?thesis using c by (simp add: ctx_repr_def)
qed

lemma ctx_seq_distinct:
  assumes "ctx_repr ctx es" "i < length es" "j < length es" "ent_seq (es ! i) = ent_seq (es ! j)"
  shows "i = j"
proof -
  have "(word_of_nat i :: u32) = word_of_nat j" using assms by (simp add: ctx_repr_def)
  moreover have "i < 2 ^ LENGTH(32)" "j < 2 ^ LENGTH(32)" using assms ctx_length [OF assms(1)] by simp_all
  ultimately show ?thesis by (metis word_of_nat_unat_le)
qed

lemma map_init: "map_repr hd_map_init []"
  by (simp add: map_repr_def hd_map_init_def)

lemma map_insert: "map_repr m es \<Longrightarrow> \<exists>m'. hd_map_insert m e = Some m' \<and> map_repr m' (e # es)"
  by (auto simp: map_repr_def hd_map_insert_def nth_list_update)

lemma unlink_last: "\<forall>d \<in> set ds. ent_seq d \<noteq> ent_seq e \<Longrightarrow> unlink e (ds @ [e]) = ds"
  by (induction ds) auto

lemma map_remove:
  assumes "map_repr m (es @ [e])" "\<forall>d \<in> set es. ent_seq d \<noteq> ent_seq e"
  shows "\<exists>m'. hd_map_remove m e = Some m' \<and> map_repr m' es"
proof -
  let ?b = "bucket (ent_hash e)"
  have "m ! ?b = filter (\<lambda>d. bucket (ent_hash d) = ?b) es @ [e]" using assms(1) by (simp add: map_repr_def)
  then have "unlink e (m ! ?b) = filter (\<lambda>d. bucket (ent_hash d) = ?b) es" using assms(2) by (simp add: unlink_last)
  then show ?thesis using assms(1) by (auto simp: map_repr_def hd_map_remove_def nth_list_update)
qed

lemma evict_ok:
  assumes "ctx_repr ctx es" "maybe_map_repr m es"
  shows "\<exists>rb b m'. let ctx' = ctx\<lparr>hd_table := rb, hd_table_bufsize := b\<rparr>; es' = fitting ent_room need (hd_table_bufsize_max ctx) es in
    hd_evict need ctx m = Some (ctx', m') \<and> ctx_repr ctx' es' \<and> maybe_map_repr m' es' \<and> (m = None \<longleftrightarrow> m' = None)"
  using assms
proof (induction es arbitrary: ctx m rule: rev_induct)
  case Nil
  then have "hd_evict need ctx m = Some (ctx, m)"
    by (subst hd_evict.simps) (simp add: ctx_repr_def ring_repr_def)
  then show ?case
    using Nil by (intro exI [of _ "hd_table ctx"] exI [of _ "hd_table_bufsize ctx"]) (simp add: Let_def)
next
  case (snoc e es)
  let ?all = "es @ [e]"
  have len: "rb_len (hd_table ctx) = length ?all" and size: "hd_table_bufsize ctx = sum_list (map ent_room ?all)"
    using snoc.prems by (auto simp: ctx_repr_def ring_repr_def)
  show ?case
  proof (cases "hd_table_bufsize_max ctx < hd_table_bufsize ctx + need")
    case False
    then have "hd_evict need ctx m = Some (ctx, m)" by (subst hd_evict.simps) simp
    moreover have "fitting ent_room need (hd_table_bufsize_max ctx) ?all = ?all" using False size by (intro fitting_all) simp
    ultimately show ?thesis
      using snoc.prems by (intro exI [of _ "hd_table ctx"] exI [of _ "hd_table_bufsize ctx"] exI [of _ m]) (simp add: Let_def)
  next
    case True
    obtain rb where rb: "hd_ringbuf_pop_back (hd_table ctx) = Some rb" "ring_repr rb es"
      using ring_pop snoc.prems(1) unfolding ctx_repr_def by blast
    have get: "hd_ringbuf_get (hd_table ctx) (length es) = Some e"
      using ring_get [of "hd_table ctx" ?all "length es"] snoc.prems(1) by (simp add: ctx_repr_def)
    define ctx1 where "ctx1 = ctx\<lparr>hd_table_bufsize := hd_table_bufsize ctx - ent_room e, hd_table := rb\<rparr>"
    have "ent_seq (es ! i) = next_seq ctx - 1 - word_of_nat i" if "i < length es" for i
    proof -
      have "ent_seq (?all ! i) = next_seq ctx - 1 - word_of_nat i"
        using snoc.prems(1) that unfolding ctx_repr_def by (metis length_append_singleton less_SucI)
      then show ?thesis using that by (simp add: nth_append)
    qed
    then have c1: "ctx_repr ctx1 es" using snoc.prems(1) rb(2) by (simp add: ctx_repr_def ctx1_def)
    have distinct: "\<forall>d \<in> set es. ent_seq d \<noteq> ent_seq e"
    proof
      fix d assume "d \<in> set es"
      then obtain i where i: "i < length es" "es ! i = d" by (auto simp: in_set_conv_nth)
      then show "ent_seq d \<noteq> ent_seq e"
        using ctx_seq_distinct [OF snoc.prems(1), of i "length es"] by (auto simp: nth_append)
    qed
    obtain m1 where m1: "(case m of None \<Rightarrow> Some None | Some t \<Rightarrow> map_option Some (hd_map_remove t e)) = Some m1"
      "maybe_map_repr m1 es" "m = None \<longleftrightarrow> m1 = None"
    proof (cases m)
      case (Some t)
      then obtain t' where "hd_map_remove t e = Some t'" "map_repr t' es"
        using map_remove [OF _ distinct] snoc.prems(2) by auto
      then show ?thesis using that [of "Some t'"] Some by simp
    qed simp
    have "hd_evict need ctx m = hd_evict need ctx1 m1"
      using True len rb(1) get m1(1) by (subst hd_evict.simps) (simp add: ctx1_def)
    moreover have "fitting ent_room need (hd_table_bufsize_max ctx) ?all = fitting ent_room need (hd_table_bufsize_max ctx) es"
      using True size by (intro fitting_snoc) simp
    ultimately show ?thesis
      using snoc.IH [OF c1 m1(2)] m1(3) by (auto simp: Let_def ctx1_def)
  qed
qed

text \<open>
  \<open>ctx_ok\<close> holds between the operations: the size is below the limit. Adding an entry keeps the
  longest prefix of the new list that fits; an entry too large for the table empties it.
\<close>

definition ctx_ok :: "nghttp2_hd_context \<Rightarrow> nghttp2_hd_entry list \<Rightarrow> bool" where
  "ctx_ok ctx es \<longleftrightarrow> ctx_repr ctx es \<and> hd_table_bufsize ctx \<le> hd_table_bufsize_max ctx \<and> hd_table_bufsize_max ctx < 2 ^ 32"

lemma ctx_ok_repr: "ctx_ok ctx es \<Longrightarrow> ctx_repr ctx es"
  by (simp add: ctx_ok_def)

lemma ctx_init:
  "hd_context_init m = (c, m', rv) \<Longrightarrow>
   if rv = 0 then \<exists>ctx. c = Some ctx \<and> ctx_ok ctx [] \<and> hd_table_bufsize_max ctx = 4096 \<and> \<not> ctx_bad ctx \<and> (\<exists>u. mem_answers m = u @ mem_answers (ctx_mem ctx))
   else c = None \<and> rv = NGHTTP2_ERR_NOMEM \<and> \<not> list_all id (mem_answers m)"
  using ring_init [of 128 m]
  by (auto simp: hd_context_init_def ctx_ok_def ctx_repr_def split: prod.splits option.splits if_splits)
     (auto simp: hd_ringbuf_init_def hd_malloc_def mem_alloc_def Let_def split: prod.splits bool.splits list.splits)

lemma shrink_ok:
  assumes "ctx_repr ctx es" "maybe_map_repr m es" "hd_table_bufsize_max ctx < 2 ^ 32"
  shows "\<exists>rb b m'. let ctx' = ctx\<lparr>hd_table := rb, hd_table_bufsize := b\<rparr>; es' = keep ent_room (hd_table_bufsize_max ctx) es in
    hd_context_shrink_table_size ctx m = Some (ctx', m') \<and> ctx_ok ctx' es' \<and> maybe_map_repr m' es' \<and> (m = None \<longleftrightarrow> m' = None)"
proof -
  have fit: "fitting ent_room 0 (hd_table_bufsize_max ctx) es = keep ent_room (hd_table_bufsize_max ctx) es"
    by (simp add: fitting_def)
  show ?thesis
    using evict_ok [OF assms(1,2), of 0] assms(3) keep_sum [of ent_room "hd_table_bufsize_max ctx" es]
    unfolding hd_context_shrink_table_size_def fit by (fastforce simp: Let_def ctx_ok_def ctx_repr_def)
qed

lemma shrink_none:
  assumes "ctx_repr ctx es" "hd_table_bufsize_max ctx < 2 ^ 32"
  shows "\<exists>rb b. let ctx' = ctx\<lparr>hd_table := rb, hd_table_bufsize := b\<rparr> in
    hd_context_shrink_table_size ctx None = Some (ctx', None) \<and> ctx_ok ctx' (keep ent_room (hd_table_bufsize_max ctx) es)"
  using shrink_ok [OF assms(1) _ assms(2), of None] by (auto simp: Let_def)

text \<open>What adding an entry may lead to; \<open>es'\<close> are the entries afterwards.\<close>

definition entry_added ::
  "nghttp2_hd_context \<Rightarrow> nghttp2_hd_entry list \<Rightarrow> nghttp2_hd_entry \<Rightarrow> nghttp2_hd_context \<Rightarrow> nghttp2_hd_entry list \<Rightarrow> int \<Rightarrow> bool" where
  "entry_added ctx es ent ctx' es' rv \<longleftrightarrow> ctx_ok ctx' es' \<and>
     hd_table_bufsize_max ctx' = hd_table_bufsize_max ctx \<and> ctx_bad ctx' = ctx_bad ctx \<and>
     (\<exists>u. mem_answers (ctx_mem ctx) = u @ mem_answers (ctx_mem ctx')) \<and>
     (if rv = 0 then es' = keep ent_room (hd_table_bufsize_max ctx) (ent # es)
      else rv = NGHTTP2_ERR_NOMEM \<and> prefix es' es \<and> \<not> list_all id (mem_answers (ctx_mem ctx)))"

lemma add_ok:
  assumes c: "ctx_ok ctx es" and m: "maybe_map_repr m es"
    and ent: "ent = \<lparr>ent_nv = nv, ent_seq = next_seq ctx, ent_hash = hash\<rparr>"
  shows "\<exists>ctx' m' rv es'. add_hd_table_incremental ctx nv m hash = Some (ctx', m', rv) \<and>
    entry_added ctx es ent ctx' es' rv \<and> maybe_map_repr m' es' \<and> (m = None \<longleftrightarrow> m' = None)"
proof -
  let ?need = "nv_room nv" and ?cap = "hd_table_bufsize_max ctx"
  let ?es = "fitting ent_room ?need ?cap es"
  obtain rb b m1 where e: "hd_evict ?need ctx m = Some (ctx\<lparr>hd_table := rb, hd_table_bufsize := b\<rparr>, m1)"
    "ctx_repr (ctx\<lparr>hd_table := rb, hd_table_bufsize := b\<rparr>) ?es" "maybe_map_repr m1 ?es" "m = None \<longleftrightarrow> m1 = None"
    using evict_ok [OF ctx_ok_repr [OF c] m, of ?need] by (auto simp: Let_def)
  define ctx1 where "ctx1 = ctx\<lparr>hd_table := rb, hd_table_bufsize := b\<rparr>"
  have cap: "?cap < 2 ^ 32" using c by (simp add: ctx_ok_def)
  have b: "b = sum_list (map ent_room ?es)" "ring_repr rb ?es" using e(2) by (simp_all add: ctx_repr_def)
  have size: "b \<le> ?cap"
  proof (cases "?need \<le> ?cap")
    case True
    then show ?thesis using fitting_sum [of ?need ?cap ent_room es] b by simp
  qed (simp add: b fitting_def)
  have c1: "ctx_ok ctx1 ?es" using e(2) size cap by (simp add: ctx_ok_def ctx1_def)
  show ?thesis
  proof (cases "?cap < ?need")
    case True
    then have "add_hd_table_incremental ctx nv m hash = Some (ctx1, m1, 0)"
      using e(1) by (simp add: add_hd_table_incremental_def Let_def ctx1_def)
    moreover have "?es = keep ent_room ?cap (ent # es)" using True by (simp add: fitting_def ent)
    ultimately show ?thesis using c1 e(3,4) unfolding entry_added_def
      by (intro exI [of _ ctx1] exI [of _ m1] exI [of _ 0] exI [of _ ?es]) (auto simp: ctx1_def)
  next
    case fits: False
    obtain ok a where a: "hd_malloc (ctx_mem ctx) = (ok, a)" "\<exists>u. mem_answers (ctx_mem ctx) = u @ mem_answers a"
      "ok \<or> \<not> list_all id (mem_answers (ctx_mem ctx))"
      by (cases "mem_answers (ctx_mem ctx)") (auto simp: hd_malloc_def mem_alloc_def)
    show ?thesis
    proof (cases ok)
      case no: False
      then have "add_hd_table_incremental ctx nv m hash = Some (ctx1\<lparr>ctx_mem := a\<rparr>, m1, NGHTTP2_ERR_NOMEM)"
        using e(1) fits a(1) by (simp add: add_hd_table_incremental_def Let_def ctx1_def)
      moreover have "ctx_ok (ctx1\<lparr>ctx_mem := a\<rparr>) ?es" using c1 by (simp add: ctx_ok_def ctx_repr_def)
      ultimately show ?thesis using a(2,3) no e(3,4) fitting_prefix [of ent_room ?need ?cap es] unfolding entry_added_def
        by (intro exI [of _ "ctx1\<lparr>ctx_mem := a\<rparr>"] exI [of _ m1] exI [of _ NGHTTP2_ERR_NOMEM] exI [of _ ?es]) (auto simp: ctx1_def)
    next
      case ok: True
      have len: "length ?es < 2 ^ 30" using ctx_length [OF ctx_ok_repr [OF c1]] by simp
      obtain rb2 a2 rv where push: "hd_ringbuf_push_front rb ent a = Some (rb2, a2, rv)"
        "\<exists>u. mem_answers a = u @ mem_answers a2"
        "if rv = 0 then ring_repr rb2 (ent # ?es) else ring_repr rb2 ?es \<and> rv = NGHTTP2_ERR_NOMEM \<and> \<not> list_all id (mem_answers a)"
        using ring_push [OF b(2) len, of ent a] by blast
      have answers: "\<exists>u. mem_answers (ctx_mem ctx) = u @ mem_answers a2" using a(2) push(2) by (metis append.assoc)
      show ?thesis
      proof (cases "rv = 0")
        case False
        then have "add_hd_table_incremental ctx nv m hash = Some (ctx1\<lparr>hd_table := rb2, ctx_mem := a2\<rparr>, m1, rv)"
          using e(1) fits a(1) ok push(1) by (simp add: add_hd_table_incremental_def Let_def ctx1_def ent)
        moreover have "ctx_ok (ctx1\<lparr>hd_table := rb2, ctx_mem := a2\<rparr>) ?es"
          using c1 push(3) False by (simp add: ctx_ok_def ctx_repr_def)
        ultimately show ?thesis
          using a(2) push(3) False answers e(3,4) fitting_prefix [of ent_room ?need ?cap es] unfolding entry_added_def
          by (intro exI [of _ "ctx1\<lparr>hd_table := rb2, ctx_mem := a2\<rparr>"] exI [of _ m1] exI [of _ rv] exI [of _ ?es]) (auto simp: ctx1_def)
      next
        case True
        obtain m2 where m2: "(case m1 of None \<Rightarrow> Some None | Some t \<Rightarrow> map_option Some (hd_map_insert t ent)) = Some m2"
          "maybe_map_repr m2 (ent # ?es)" "m1 = None \<longleftrightarrow> m2 = None"
        proof (cases m1)
          case (Some t)
          then obtain t' where "hd_map_insert t ent = Some t'" "map_repr t' (ent # ?es)"
            using map_insert e(3) by fastforce
          then show ?thesis using that [of "Some t'"] Some by simp
        qed simp
        let ?ctx = "ctx1\<lparr>hd_table := rb2, ctx_mem := a2, next_seq := next_seq ctx + 1, hd_table_bufsize := b + ?need\<rparr>"
        have run: "add_hd_table_incremental ctx nv m hash = Some (?ctx, m2, 0)"
          using e(1) fits a(1) ok push(1) [unfolded ent] True m2(1) [unfolded ent] by (simp add: add_hd_table_incremental_def Let_def ctx1_def)
        have sum: "b + ?need \<le> ?cap" using fitting_sum [of ?need ?cap ent_room es] fits b(1) by simp
        have seqs: "\<forall>i < length ?es. ent_seq (?es ! i) = next_seq ctx - 1 - word_of_nat i"
          using e(2) by (simp add: ctx_repr_def)
        have "ent_seq ((ent # ?es) ! i) = next_seq ?ctx - 1 - word_of_nat i" if "i < length (ent # ?es)" for i
          using seqs that by (cases i) (simp_all add: ent)
        then have "ctx_ok ?ctx (ent # ?es)"
          using True push(3) sum cap b(1) by (simp add: ctx_ok_def ctx_repr_def ctx1_def ent)
        moreover have "ent # ?es = keep ent_room ?cap (ent # es)"
          using fits by (simp add: fitting_def ent)
        ultimately show ?thesis
          using run m2(2,3) answers e(4) unfolding entry_added_def
          by (intro exI [of _ ?ctx] exI [of _ m2] exI [of _ 0] exI [of _ "ent # ?es"]) (auto simp: ctx1_def)
      qed
    qed
  qed
qed

section \<open>Look-up and search\<close>

lemma max_index: "ctx_repr ctx es \<Longrightarrow> get_max_index ctx = length es + 61"
  by (simp add: get_max_index_def ctx_repr_def ring_repr_def)

text \<open>The address space of the indices: the static table, then the dynamic one.\<close>

definition address_space :: "nghttp2_hd_entry list \<Rightarrow> nghttp2_hd_nv list" where
  "address_space es = map fst static_table @ map ent_nv es"

lemma table_get:
  assumes "ctx_repr ctx es"
  shows "nghttp2_hd_table_get ctx i = (if i < length es + 61 then Some (address_space es ! i) else None)"
  using assms ring_get [of "hd_table ctx" es "i - 61"]
  by (auto simp: nghttp2_hd_table_get_def INDEX_RANGE_VALID_def ctx_repr_def ring_repr_def address_space_def nth_append length_static)

definition same_name :: "nghttp2_nv \<Rightarrow> int \<Rightarrow> nghttp2_hd_entry \<Rightarrow> bool" where
  "same_name nv token e \<longleftrightarrow> nv_token (ent_nv e) = token \<and> (token = -1 \<longrightarrow> name_eq (ent_nv e) nv)"

lemma find_chain_sound:
  assumes "find_chain nv token hash name_only res ps = (r, exact)"
  shows "(exact \<longrightarrow> (\<exists>e \<in> set ps. r = Some e \<and> same_name nv token e \<and> value_eq (ent_nv e) nv)) \<and>
    (r = res \<or> (\<exists>e \<in> set ps. r = Some e \<and> same_name nv token e))"
  using assms
proof (induction ps arbitrary: res)
  case (Cons p ps)
  let ?skip = "token \<noteq> nv_token (ent_nv p) \<or> (token = -1 \<and> (hash \<noteq> ent_hash p \<or> \<not> name_eq (ent_nv p) nv))"
  let ?res = "if res = None then Some p else res"
  consider (skip) ?skip "find_chain nv token hash name_only res ps = (r, exact)"
    | (name) "\<not> ?skip" "r = Some p" "\<not> exact"
    | (exact) "\<not> ?skip" "value_eq (ent_nv p) nv" "r = Some p" "exact"
    | (more) "\<not> ?skip" "find_chain nv token hash name_only ?res ps = (r, exact)"
  proof -
    note step = Cons.prems [unfolded find_chain.simps]
    show ?thesis
    proof (cases ?skip)
      case True
      show ?thesis using True step [unfolded if_P [OF True]] by (rule skip)
    next
      case new: False
      note step1 = step [unfolded if_not_P [OF new]]
      show ?thesis
      proof (cases "res = None \<and> name_only")
        case True
        show ?thesis using new step1 [unfolded if_P [OF True]] by (intro name) auto
      next
        case False
        note step2 = step1 [unfolded if_not_P [OF False]]
        show ?thesis
        proof (cases "value_eq (ent_nv p) nv")
          case True
          show ?thesis using new True step2 [unfolded if_P [OF True]] by (intro exact) auto
        next
          case False
          show ?thesis using new step2 [unfolded if_not_P [OF False]] by (rule more)
        qed
      qed
    qed
  qed
  then show ?case
  proof cases
    case skip
    then show ?thesis using Cons.IH [OF skip(2)] by auto
  next
    case more
    then have "same_name nv token p" by (auto simp: same_name_def)
    then show ?thesis using Cons.IH [OF more(2)] by (auto split: if_splits)
  qed (auto simp: same_name_def)
qed simp

lemma static_scan_sound:
  "static_scan nv token i es = (j, exact) \<Longrightarrow>
   (if exact then \<exists>k < length es. j = i + int k \<and> nv_token (fst (es ! k)) = token \<and> nv_value (fst (es ! k)) = h_value nv
    else j = token)"
proof (induction es arbitrary: i)
  case (Cons eh es)
  obtain e h where eh: "eh = (e, h)" by (cases eh)
  consider (stop) "nv_token e \<noteq> token" | (hit) "nv_token e = token" "nv_value e = h_value nv"
    | (more) "nv_token e = token" "nv_value e \<noteq> h_value nv" by blast
  then show ?case
  proof cases
    case more
    then have step: "static_scan nv token (i + 1) es = (j, exact)" using Cons.prems eh by simp
    show ?thesis
    proof (cases exact)
      case True
      then obtain k where k: "k < length es" "j = i + 1 + int k" "nv_token (fst (es ! k)) = token" "nv_value (fst (es ! k)) = h_value nv"
        using Cons.IH [OF step] by auto
      have "Suc k < length (eh # es) \<and> j = i + int (Suc k) \<and>
          nv_token (fst ((eh # es) ! Suc k)) = token \<and> nv_value (fst ((eh # es) ! Suc k)) = h_value nv"
        using k by simp
      then show ?thesis using True by (metis (mono_tags, lifting))
    next
      case False
      then show ?thesis using Cons.IH [OF step] by simp
    qed
  next
    case hit
    then show ?thesis using Cons.prems by (auto simp: eh intro!: exI [of _ 0])
  qed (use Cons.prems in \<open>simp add: eh\<close>)
qed simp

text \<open>An index the search answers is the index of a field with the name, and the value if it says so.\<close>

lemma search_sound:
  assumes c: "ctx_repr ctx es" and m: "map_repr m es" and t: "token = lookup_token (h_name nv)"
    and toks: "\<forall>e \<in> set es. nv_token (ent_nv e) = lookup_token (nv_name (ent_nv e))"
  shows "\<exists>idx exact. search_hd_table ctx nv token hash_only m hash = Some (idx, exact) \<and>
    (idx = -1 \<and> \<not> exact \<or>
     0 \<le> idx \<and> nat idx < length es + 61 \<and> nv_name (address_space es ! nat idx) = h_name nv \<and>
     nv_token (address_space es ! nat idx) = token \<and> (exact \<longrightarrow> nv_value (address_space es ! nat idx) = h_value nv))"
proof -
  obtain ent exact where find: "find_chain nv token hash hash_only None (m ! bucket hash) = (ent, exact)" by fastforce
  have found: "hd_map_find m nv token hash hash_only = Some (ent, exact)"
    using m find by (simp add: hd_map_find_def map_repr_def)
  have chain: "set (m ! bucket hash) \<subseteq> set es" using m by (auto simp: map_repr_def)
  have named: "nv_name (ent_nv e) = h_name nv" if "e \<in> set es" "same_name nv token e" for e
    using that toks lookup_token_inj [of "nv_name (ent_nv e)" "h_name nv"] t by (auto simp: same_name_def name_eq_def)
  show ?thesis
  proof (cases "\<not> exact \<and> 0 \<le> token \<and> token \<le> 60")
    case static: True
    obtain j ex where s: "search_static_table nv token hash_only = (j, ex)" by fastforce
    have base: "nat token < 61" "nv_name (fst (static_table ! nat token)) = h_name nv" "nv_token (fst (static_table ! nat token)) = token"
      using static_token [of "h_name nv" token] t static by auto
    have at: "address_space es ! k = fst (static_table ! k)" if "k < 61" for k
      using that by (simp add: address_space_def nth_append length_static)
    have "0 \<le> j \<and> nat j < 61 \<and> nv_name (fst (static_table ! nat j)) = h_name nv \<and>
      nv_token (fst (static_table ! nat j)) = token \<and> (ex \<longrightarrow> nv_value (fst (static_table ! nat j)) = h_value nv)"
    proof (cases ex)
      case True
      then obtain k where k: "k < length (drop (nat token) static_table)" "j = token + int k"
        "nv_token (fst (drop (nat token) static_table ! k)) = token" "nv_value (fst (drop (nat token) static_table ! k)) = h_value nv"
        using s static_scan_sound [of nv token token "drop (nat token) static_table" j ex]
        by (auto simp: search_static_table_def split: if_splits)
      have j: "nat j = nat token + k" "nat j < 61" using k(1,2) static length_static by auto
      then show ?thesis using k static static_same_token [of "nat j" token] True base by (simp add: length_static)
    next
      case False
      then have "j = token"
        using s static_scan_sound [of nv token token "drop (nat token) static_table" j ex]
        by (auto simp: search_static_table_def split: if_splits)
      then show ?thesis using base static False by simp
    qed
    then show ?thesis using found static s at [of "nat j"] by (auto simp: search_hd_table_def)
  next
    case dynamic: False
    show ?thesis
    proof (cases ent)
      case None
      then have "\<not> exact" using find_chain_sound [OF find] by auto
      then show ?thesis using found dynamic None by (auto simp: search_hd_table_def)
    next
      case (Some e)
      then have e: "e \<in> set es" "same_name nv token e" "exact \<longrightarrow> value_eq (ent_nv e) nv"
        using find_chain_sound [OF find] chain by auto
      then obtain i where i: "i < length es" "es ! i = e" by (auto simp: in_set_conv_nth)
      have seq: "next_seq ctx - 1 - ent_seq e + 61 = word_of_nat (i + 61)"
        using c i by (auto simp: ctx_repr_def)
      have small: "i + 61 < 2 ^ LENGTH(32)" using i ctx_length [OF c] by simp
      have "uint (next_seq ctx - 1 - ent_seq e + 61) = int (i + 61)"
        unfolding seq using word_of_nat_unat_le [OF small] by (metis uint_nat)
      then have "search_hd_table ctx nv token hash_only m hash = Some (int (i + 61), exact)"
        using found dynamic Some by (auto simp: search_hd_table_def)
      moreover have "address_space es ! (i + 61) = ent_nv e" using i by (simp add: address_space_def nth_append length_static)
      ultimately show ?thesis
        using e i named [OF e(1,2)] by (auto simp: same_name_def value_eq_def nat_add_distrib)
    qed
  qed
qed

end
