(* ===== verification/Ng_Hd_Deflate.thy ===== *)
theory Ng_Hd_Deflate
  imports Ng_Hd_Int Ng_Hd_Table_Props Ng_Huff_Props
begin

unbundle bit_operations_syntax

text \<open>
  The encoder of HPACK, from \<^verbatim>\<open>nghttp2_hd.c\<close>: it writes each header field as an index into
  the tables or as a literal into a chain of buffers, keeps its dynamic table, and announces changes
  of the size of the table. The buffers and the table draw on separate lists of answers of the allocator.
\<close>

section \<open>Writing the representations\<close>

datatype nghttp2_hd_indexing_mode =
  NGHTTP2_HD_WITH_INDEXING | NGHTTP2_HD_WITHOUT_INDEXING | NGHTTP2_HD_NEVER_INDEXING

definition emit_table_size :: "nghttp2_bufs \<Rightarrow> nat \<Rightarrow> (nghttp2_bufs \<times> int) option" where
  "emit_table_size bs table_size = emit_integer bs 0x20 table_size 5"

definition emit_indexed_block :: "nghttp2_bufs \<Rightarrow> nat \<Rightarrow> (nghttp2_bufs \<times> int) option" where
  "emit_indexed_block bs idx = emit_integer bs 0x80 (idx + 1) 7"

definition emit_string :: "nghttp2_bufs \<Rightarrow> bytes \<Rightarrow> (nghttp2_bufs \<times> int) option" where
  "emit_string bs str =
     (let enclen = nghttp2_hd_huff_encode_count str; huffman = enclen < length str in
      do {
        (bs1, rv) \<leftarrow> emit_integer bs (if huffman then push_bit 7 1 else 0) (if huffman then enclen else length str) 7;
        if rv \<noteq> 0 then Some (bs1, rv)
        else if huffman then nghttp2_hd_huff_encode bs1 str
        else nghttp2_bufs_add bs1 str
      })"

fun pack_first_byte :: "nghttp2_hd_indexing_mode \<Rightarrow> u8" where
  "pack_first_byte NGHTTP2_HD_WITH_INDEXING = 0x40"
| "pack_first_byte NGHTTP2_HD_WITHOUT_INDEXING = 0"
| "pack_first_byte NGHTTP2_HD_NEVER_INDEXING = 0x10"

definition emit_indname_block ::
  "nghttp2_bufs \<Rightarrow> nat \<Rightarrow> nghttp2_nv \<Rightarrow> nghttp2_hd_indexing_mode \<Rightarrow> (nghttp2_bufs \<times> int) option" where
  "emit_indname_block bs idx nv mode = do {
     let prefixlen = (if mode = NGHTTP2_HD_WITH_INDEXING then 6 else 4);
     (bs1, rv) \<leftarrow> emit_integer bs (pack_first_byte mode) (idx + 1) prefixlen;
     if rv \<noteq> 0 then Some (bs1, rv) else emit_string bs1 (h_value nv)
   }"

definition emit_newname_block ::
  "nghttp2_bufs \<Rightarrow> nghttp2_nv \<Rightarrow> nghttp2_hd_indexing_mode \<Rightarrow> (nghttp2_bufs \<times> int) option" where
  "emit_newname_block bs nv mode = do {
     (bs1, rv) \<leftarrow> nghttp2_bufs_addb bs (pack_first_byte mode);
     if rv \<noteq> 0 then Some (bs1, rv)
     else do {
       (bs2, rv1) \<leftarrow> emit_string bs1 (h_name nv);
       if rv1 \<noteq> 0 then Some (bs2, rv1) else emit_string bs2 (h_value nv)
     }
   }"

section \<open>The encoder\<close>

abbreviation UINT32_MAX :: nat where "UINT32_MAX \<equiv> 4294967295"
abbreviation NGHTTP2_ERR_INSUFF_BUFSIZE :: int where "NGHTTP2_ERR_INSUFF_BUFSIZE \<equiv> - 525"
abbreviation NGHTTP2_HD_DEFAULT_MAX_DEFLATE_BUFFER_SIZE :: nat where "NGHTTP2_HD_DEFAULT_MAX_DEFLATE_BUFFER_SIZE \<equiv> 4096"

record nghttp2_hd_deflater =
  d_ctx :: nghttp2_hd_context
  d_map :: nghttp2_hd_map
  deflate_hd_table_bufsize_max :: nat
  d_min_hd_table_bufsize_max :: nat
  notify_table_size_change :: bool

definition nghttp2_hd_deflate_init2 :: "nat \<Rightarrow> nghttp2_mem \<Rightarrow> nghttp2_hd_deflater option \<times> nghttp2_mem \<times> int" where
  "nghttp2_hd_deflate_init2 max_size m =
     (case hd_context_init m of
        (None, m1, rv) \<Rightarrow> (None, m1, rv)
      | (Some ctx, m1, _) \<Rightarrow>
          (let small = max_size < NGHTTP2_HD_DEFAULT_MAX_BUFFER_SIZE in
           (Some \<lparr>d_ctx = (if small then ctx\<lparr>hd_table_bufsize_max := max_size\<rparr> else ctx), d_map = hd_map_init,
                  deflate_hd_table_bufsize_max = max_size, d_min_hd_table_bufsize_max = UINT32_MAX,
                  notify_table_size_change = small\<rparr>, m1, 0)))"

definition nghttp2_hd_deflate_init :: "nghttp2_mem \<Rightarrow> nghttp2_hd_deflater option \<times> nghttp2_mem \<times> int" where
  "nghttp2_hd_deflate_init m = nghttp2_hd_deflate_init2 NGHTTP2_HD_DEFAULT_MAX_DEFLATE_BUFFER_SIZE m"

definition nghttp2_hd_deflate_new2 :: "nat \<Rightarrow> nghttp2_mem \<Rightarrow> nghttp2_hd_deflater option \<times> nghttp2_mem \<times> int" where
  "nghttp2_hd_deflate_new2 max_size m =
     (case hd_malloc m of
        (False, m1) \<Rightarrow> (None, m1, NGHTTP2_ERR_NOMEM)
      | (True, m1) \<Rightarrow> nghttp2_hd_deflate_init2 max_size m1)"

definition nghttp2_hd_deflate_change_table_size :: "nghttp2_hd_deflater \<Rightarrow> nat \<Rightarrow> (nghttp2_hd_deflater \<times> int) option" where
  "nghttp2_hd_deflate_change_table_size d settings_max =
     (let next_bufsize = min settings_max (deflate_hd_table_bufsize_max d) in
      case hd_context_shrink_table_size ((d_ctx d)\<lparr>hd_table_bufsize_max := next_bufsize\<rparr>) (Some (d_map d)) of
        Some (ctx, Some m) \<Rightarrow>
          Some (d\<lparr>d_ctx := ctx, d_map := m,
                  d_min_hd_table_bufsize_max := min (d_min_hd_table_bufsize_max d) next_bufsize,
                  notify_table_size_change := True\<rparr>, 0)
      | _ \<Rightarrow> None)"

text \<open>
  The tokens whose values change too often to be worth an entry. The product is computed in
  \<^verbatim>\<open>size_t\<close>, which has 32 bits on the chip.
\<close>

definition hd_deflate_decide_indexing :: "nghttp2_hd_deflater \<Rightarrow> nghttp2_nv \<Rightarrow> int \<Rightarrow> nghttp2_hd_indexing_mode" where
  "hd_deflate_decide_indexing d nv token =
     (if token \<in> {3, 20, 27, 33, 39, 40, 45, 54} \<or>
         hd_table_bufsize_max (d_ctx d) * 3 mod 2 ^ 32 div 4 < entry_room (length (h_name nv)) (length (h_value nv))
      then NGHTTP2_HD_WITHOUT_INDEXING else NGHTTP2_HD_WITH_INDEXING)"

definition indexing_mode :: "nghttp2_hd_deflater \<Rightarrow> nghttp2_nv \<Rightarrow> int \<Rightarrow> nghttp2_hd_indexing_mode" where
  "indexing_mode d nv token =
     (if token = 22 \<or> (token = 31 \<and> length (h_value nv) < 20) \<or> h_flags nv AND NGHTTP2_NV_FLAG_NO_INDEX \<noteq> 0
      then NGHTTP2_HD_NEVER_INDEXING else hd_deflate_decide_indexing d nv token)"

text \<open>\<^verbatim>\<open>nghttp2_rcbuf_new2\<close>, of which the strings are all that is kept here.\<close>

definition rcbuf_copy :: "nghttp2_hd_deflater \<Rightarrow> bool \<times> nghttp2_hd_deflater" where
  "rcbuf_copy d =
     (case hd_malloc (ctx_mem (d_ctx d)) of (ok, m) \<Rightarrow> (ok, d\<lparr>d_ctx := (d_ctx d)\<lparr>ctx_mem := m\<rparr>\<rparr>))"

text \<open>The branch that adds the field to the table: the name comes from the table if it is there.\<close>

definition deflate_add ::
  "nghttp2_hd_deflater \<Rightarrow> nghttp2_nv \<Rightarrow> int \<Rightarrow> u32 \<Rightarrow> int \<Rightarrow> (nghttp2_hd_deflater \<times> int) option" where
  "deflate_add d nv token hash idx = do {
     name \<leftarrow> (if idx \<noteq> -1 then map_option nv_name (nghttp2_hd_table_get (d_ctx d) (nat idx)) else Some (h_name nv));
     let (ok1, d1) = (if idx \<noteq> -1 then (True, d) else rcbuf_copy d);
     if \<not> ok1 then Some (d1, NGHTTP2_ERR_NOMEM)
     else
       (case rcbuf_copy d1 of
          (False, d2) \<Rightarrow> Some (d2, NGHTTP2_ERR_NOMEM)
        | (True, d2) \<Rightarrow> do {
            let hd_nv = \<lparr>nv_name = name, nv_value = h_value nv, nv_token = token, nv_flags = NGHTTP2_NV_FLAG_NONE\<rparr>;
            (ctx, m, rv) \<leftarrow> add_hd_table_incremental (d_ctx d2) hd_nv (Some (d_map d2)) hash;
            m1 \<leftarrow> m;
            Some (d2\<lparr>d_ctx := ctx, d_map := m1\<rparr>, if rv \<noteq> 0 then NGHTTP2_ERR_HEADER_COMP else 0)
          })
   }"

definition deflate_nv ::
  "nghttp2_hd_deflater \<Rightarrow> nghttp2_bufs \<Rightarrow> nghttp2_nv \<Rightarrow> (nghttp2_hd_deflater \<times> nghttp2_bufs \<times> int) option" where
  "deflate_nv d bs nv = do {
     let token = lookup_token (h_name nv);
     hash \<leftarrow> (if token = -1 then Some (name_hash (h_name nv))
              else if token \<le> NGHTTP2_TOKEN_WWW_AUTHENTICATE then map_option snd (rd static_table (nat token))
              else Some 0);
     let mode = indexing_mode d nv token;
     (idx, exact) \<leftarrow> search_hd_table (d_ctx d) nv token (mode = NGHTTP2_HD_NEVER_INDEXING) (d_map d) hash;
     if exact then do {
       (bs1, rv) \<leftarrow> emit_indexed_block bs (nat idx);
       Some (d, bs1, rv)
     }
     else do {
       (d1, rv) \<leftarrow> (if mode = NGHTTP2_HD_WITH_INDEXING then deflate_add d nv token hash idx else Some (d, 0));
       if rv \<noteq> 0 then Some (d1, bs, rv)
       else do {
         (bs1, rv1) \<leftarrow> (if idx = -1 then emit_newname_block bs nv mode else emit_indname_block bs (nat idx) nv mode);
         Some (d1, bs1, rv1)
       }
     }
   }"

text \<open>The announcements: the smallest size since the last block, if it is smaller, and the size.\<close>

definition deflate_table_sizes ::
  "nghttp2_hd_deflater \<Rightarrow> nghttp2_bufs \<Rightarrow> (nghttp2_hd_deflater \<times> nghttp2_bufs \<times> int) option" where
  "deflate_table_sizes d bs =
     (if notify_table_size_change d
      then
        (let least = d_min_hd_table_bufsize_max d; size_max = hd_table_bufsize_max (d_ctx d);
             d1 = d\<lparr>notify_table_size_change := False, d_min_hd_table_bufsize_max := UINT32_MAX\<rparr> in
         do {
           (bs1, rv) \<leftarrow> (if least < size_max then emit_table_size bs least else Some (bs, 0));
           if rv \<noteq> 0 then Some (d1, bs1, rv)
           else do { (bs2, rv1) \<leftarrow> emit_table_size bs1 size_max; Some (d1, bs2, rv1) }
         })
      else Some (d, bs, 0))"

fun deflate_each ::
  "nghttp2_hd_deflater \<Rightarrow> nghttp2_bufs \<Rightarrow> nghttp2_nv list \<Rightarrow> (nghttp2_hd_deflater \<times> nghttp2_bufs \<times> int) option" where
  "deflate_each d bs [] = Some (d, bs, 0)"
| "deflate_each d bs (nv # nvs) = do {
     (d1, bs1, rv) \<leftarrow> deflate_nv d bs nv;
     if rv \<noteq> 0 then Some (d1, bs1, rv) else deflate_each d1 bs1 nvs
   }"

definition d_bad :: "nghttp2_hd_deflater \<Rightarrow> nghttp2_hd_deflater" where
  "d_bad d = d\<lparr>d_ctx := (d_ctx d)\<lparr>ctx_bad := True\<rparr>\<rparr>"

definition nghttp2_hd_deflate_hd_bufs ::
  "nghttp2_hd_deflater \<Rightarrow> nghttp2_bufs \<Rightarrow> nghttp2_nv list \<Rightarrow> (nghttp2_hd_deflater \<times> nghttp2_bufs \<times> int) option" where
  "nghttp2_hd_deflate_hd_bufs d bs nvs =
     (if ctx_bad (d_ctx d) then Some (d, bs, NGHTTP2_ERR_HEADER_COMP)
      else do {
        (d1, bs1, rv) \<leftarrow> deflate_table_sizes d bs;
        if rv \<noteq> 0 then Some (d_bad d1, bs1, rv)
        else do {
          (d2, bs2, rv1) \<leftarrow> deflate_each d1 bs1 nvs;
          Some (if rv1 \<noteq> 0 then d_bad d2 else d2, bs2, rv1)
        }
      })"

text \<open>Into a block of the caller, or several; the answer is the number of bytes written.\<close>

definition deflate_into ::
  "nghttp2_hd_deflater \<Rightarrow> nghttp2_bufs option \<times> nghttp2_mem \<times> int \<Rightarrow> nghttp2_nv list \<Rightarrow>
   (nghttp2_hd_deflater \<times> bytes list \<times> int) option" where
  "deflate_into d wrapped nvs =
     (case wrapped of
        (None, m, rv) \<Rightarrow> Some (d\<lparr>d_ctx := (d_ctx d)\<lparr>ctx_mem := m\<rparr>\<rparr>, [], rv)
      | (Some bs, m, _) \<Rightarrow> do {
          (d1, bs1, rv) \<leftarrow> nghttp2_hd_deflate_hd_bufs (d\<lparr>d_ctx := (d_ctx d)\<lparr>ctx_mem := m\<rparr>\<rparr>) bs nvs;
          let buflen = nghttp2_bufs_len bs1;
          let d2 = d1\<lparr>d_ctx := (d_ctx d1)\<lparr>ctx_mem := nghttp2_mem_free (ctx_mem (d_ctx d1))\<rparr>\<rparr>;
          Some (d2, map bytes_of (chunks bs1),
                if rv = NGHTTP2_ERR_BUFFER_ERROR then NGHTTP2_ERR_INSUFF_BUFSIZE
                else if rv \<noteq> 0 then rv else int buflen)
        })"

definition nghttp2_hd_deflate_hd2 ::
  "nghttp2_hd_deflater \<Rightarrow> bytes \<Rightarrow> nghttp2_nv list \<Rightarrow> (nghttp2_hd_deflater \<times> bytes list \<times> int) option" where
  "nghttp2_hd_deflate_hd2 d buf nvs = deflate_into d (nghttp2_bufs_wrap_init buf (ctx_mem (d_ctx d))) nvs"

definition nghttp2_hd_deflate_hd_vec2 ::
  "nghttp2_hd_deflater \<Rightarrow> bytes list \<Rightarrow> nghttp2_nv list \<Rightarrow> (nghttp2_hd_deflater \<times> bytes list \<times> int) option" where
  "nghttp2_hd_deflate_hd_vec2 d vec nvs = deflate_into d (nghttp2_bufs_wrap_init2 vec (ctx_mem (d_ctx d))) nvs"

definition nghttp2_hd_deflate_bound :: "nghttp2_nv list \<Rightarrow> nat" where
  "nghttp2_hd_deflate_bound nva =
     foldl (\<lambda>n nv. n + (length (h_name nv) + length (h_value nv))) (12 + 6 * 2 * length nva) nva"

definition nghttp2_hd_deflate_get_num_table_entries :: "nghttp2_hd_deflater \<Rightarrow> nat" where
  "nghttp2_hd_deflate_get_num_table_entries d = get_max_index (d_ctx d)"

definition nghttp2_hd_deflate_get_table_entry :: "nghttp2_hd_deflater \<Rightarrow> nat \<Rightarrow> nghttp2_hd_nv option option" where
  "nghttp2_hd_deflate_get_table_entry d idx = hd_get_table_entry (d_ctx d) idx"

definition nghttp2_hd_deflate_get_dynamic_table_size :: "nghttp2_hd_deflater \<Rightarrow> nat" where
  "nghttp2_hd_deflate_get_dynamic_table_size d = hd_table_bufsize (d_ctx d)"

definition nghttp2_hd_deflate_get_max_dynamic_table_size :: "nghttp2_hd_deflater \<Rightarrow> nat" where
  "nghttp2_hd_deflate_get_max_dynamic_table_size d = hd_table_bufsize_max (d_ctx d)"

end
