(* ===== verification/Ng_Hd_Deflate_Props.thy ===== *)
theory Ng_Hd_Deflate_Props
  imports Ng_Hd_Deflate
begin

text \<open>
  What the encoder writes and does to its table: every field becomes a representation that stands
  for it in the address space of the tables, and the table changes as the representation says.
\<close>

section \<open>Representations\<close>

datatype hd_rep =
  Indexed nat
| Literal nghttp2_hd_indexing_mode "nat option" bytes bytes

definition str_bytes :: "bytes \<Rightarrow> bytes" where
  "str_bytes s =
     (if length (huff_encoding s) < length s
      then int_bytes 0x80 7 (length (huff_encoding s)) @ huff_encoding s
      else int_bytes 0 7 (length s) @ s)"

fun index_bits :: "nghttp2_hd_indexing_mode \<Rightarrow> nat" where
  "index_bits NGHTTP2_HD_WITH_INDEXING = 6"
| "index_bits _ = 4"

fun rep_bytes :: "hd_rep \<Rightarrow> bytes" where
  "rep_bytes (Indexed i) = int_bytes 0x80 7 (i + 1)"
| "rep_bytes (Literal mode (Some i) n v) = int_bytes (pack_first_byte mode) (index_bits mode) (i + 1) @ str_bytes v"
| "rep_bytes (Literal mode None n v) = pack_first_byte mode # str_bytes n @ str_bytes v"

type_synonym hd_field = "bytes \<times> bytes \<times> int"

definition nv_field :: "nghttp2_hd_nv \<Rightarrow> hd_field" where
  "nv_field nv = (nv_name nv, nv_value nv, nv_token nv)"

definition field_room :: "hd_field \<Rightarrow> nat" where
  "field_room f = entry_room (length (fst f)) (length (fst (snd f)))"

definition hd_fields :: "nghttp2_hd_entry list \<Rightarrow> hd_field list" where
  "hd_fields es = map (\<lambda>e. nv_field (ent_nv e)) es"

text \<open>The address space of a table of fields, the field of a representation and what it does to the table.\<close>

definition space :: "hd_field list \<Rightarrow> hd_field list" where
  "space fs = map (\<lambda>(nv, h). nv_field nv) static_table @ fs"

fun rep_ok :: "hd_field list \<Rightarrow> hd_rep \<Rightarrow> hd_field \<Rightarrow> bool" where
  "rep_ok fs (Indexed i) f \<longleftrightarrow> i < length fs + 61 \<and> space fs ! i = f"
| "rep_ok fs (Literal mode (Some i) n v) f \<longleftrightarrow>
     i < length fs + 61 \<and> fst (space fs ! i) = n \<and> snd (snd (space fs ! i)) = lookup_token n \<and> f = (n, v, lookup_token n)"
| "rep_ok fs (Literal mode None n v) f \<longleftrightarrow> f = (n, v, lookup_token n)"

fun rep_table :: "nat \<Rightarrow> hd_rep \<Rightarrow> hd_field list \<Rightarrow> hd_field list" where
  "rep_table cap (Literal NGHTTP2_HD_WITH_INDEXING i n v) fs = keep field_room cap ((n, v, lookup_token n) # fs)"
| "rep_table cap _ fs = fs"

lemma length_hd_fields [simp]: "length (hd_fields es) = length es"
  by (simp add: hd_fields_def)

lemma space_address: "i < length es + 61 \<Longrightarrow> space (hd_fields es) ! i = nv_field (address_space es ! i)"
  by (auto simp: space_def hd_fields_def address_space_def nth_append length_static case_prod_beta)

lemma room_field: "nv_room nv = field_room (nv_field nv)"
  by (simp add: nv_room_def field_room_def nv_field_def)

lemma keep_fields: "hd_fields (keep ent_room cap es) = keep field_room cap (hd_fields es)"
  unfolding hd_fields_def room_field by (rule keep_map)

lemma flags_ok:
  "flags_of 0x20 5" "flags_of 0x80 7" "flags_of 0 7" "flags_of (pack_first_byte mode) (index_bits mode)"
  by (simp_all add: flags_of_def mask_numeral) (cases mode; simp add: flags_of_def mask_numeral)

section \<open>What the emitting functions write\<close>

lemma emit_then:
  assumes "\<exists>bs1 rv. a = Some (bs1, rv) \<and> added bs p bs1 rv" "roomy bs"
    and "\<And>bs1. bufs_ok bs1 \<Longrightarrow> roomy bs1 \<Longrightarrow> \<exists>bs2 rv. f bs1 = Some (bs2, rv) \<and> added bs1 q bs2 rv"
  shows "\<exists>bs2 rv. Option.bind a (\<lambda>(bs1, rv). if rv \<noteq> 0 then Some (bs1, rv) else f bs1) = Some (bs2, rv) \<and> added bs (p @ q) bs2 rv"
proof -
  obtain bs1 rv where a: "a = Some (bs1, rv)" "added bs p bs1 rv" using assms(1) by blast
  show ?thesis
  proof (cases "rv = 0")
    case True
    then have "added bs p bs1 0" using a by simp
    moreover obtain bs2 rv2 where "f bs1 = Some (bs2, rv2)" "added bs1 q bs2 rv2"
      using assms(3) [OF added_ok added_roomy] a(2) assms(2) by blast
    ultimately show ?thesis using a True added_seq by auto
  next
    case False
    then show ?thesis using a added_stop [OF a(2)] by auto
  qed
qed

lemma emit_string_ok:
  assumes "bufs_ok bs" "roomy bs" "length s < 2 ^ 32"
  shows "\<exists>bs' rv. emit_string bs s = Some (bs', rv) \<and> added bs (str_bytes s) bs' rv"
proof (cases "length (huff_encoding s) < length s")
  case True
  then have len: "length (huff_encoding s) < 2 ^ 32" using assms(3) by linarith
  show ?thesis
    using emit_then [OF emit_integer_ok [OF assms(1) flags_ok(2) len] assms(2) encode_ok [where src = s]] True
    by (simp add: emit_string_def count_ok str_bytes_def Let_def cong: if_cong)
next
  case False
  show ?thesis
    using emit_then [OF emit_integer_ok [OF assms(1) flags_ok(3) assms(3)] assms(2) bufs_add_returns [where p = s]] False
    by (simp add: emit_string_def count_ok str_bytes_def Let_def cong: if_cong)
qed

lemma emit_indname_ok:
  assumes "bufs_ok bs" "roomy bs" "idx + 1 < 2 ^ 32" "length (h_value nv) < 2 ^ 32"
  shows "\<exists>bs' rv. emit_indname_block bs idx nv mode = Some (bs', rv) \<and> added bs (rep_bytes (Literal mode (Some idx) n (h_value nv))) bs' rv"
proof -
  have bits: "(if mode = NGHTTP2_HD_WITH_INDEXING then 6 else 4) = index_bits mode" by (cases mode) auto
  show ?thesis
    using emit_then [OF emit_integer_ok [OF assms(1) flags_ok(4) [of mode] assms(3)] assms(2) emit_string_ok [OF _ _ assms(4)]]
    by (simp add: emit_indname_block_def Let_def bits)
qed

lemma emit_newname_ok:
  assumes "bufs_ok bs" "roomy bs" "length (h_name nv) < 2 ^ 32" "length (h_value nv) < 2 ^ 32"
  shows "\<exists>bs' rv. emit_newname_block bs nv mode = Some (bs', rv) \<and> added bs (rep_bytes (Literal mode None (h_name nv) (h_value nv))) bs' rv"
proof -
  have rest: "\<exists>bs' rv. Option.bind (emit_string b (h_name nv)) (\<lambda>(bs2, rv1). if rv1 \<noteq> 0 then Some (bs2, rv1) else emit_string bs2 (h_value nv)) = Some (bs', rv) \<and>
      added b (str_bytes (h_name nv) @ str_bytes (h_value nv)) bs' rv" if "bufs_ok b" "roomy b" for b
    using emit_then [OF emit_string_ok [OF that assms(3)] that(2) emit_string_ok [OF _ _ assms(4)]] .
  show ?thesis
    using emit_then [OF bufs_addb_returns [OF assms(1,2), of "pack_first_byte mode"] assms(2) rest]
    by (simp add: emit_newname_block_def)
qed

section \<open>The encoder\<close>

definition deflater_ok :: "nghttp2_hd_deflater \<Rightarrow> nghttp2_hd_entry list \<Rightarrow> bool" where
  "deflater_ok d es \<longleftrightarrow> ctx_ok (d_ctx d) es \<and> map_repr (d_map d) es \<and>
     (\<forall>e \<in> set es. nv_token (ent_nv e) = lookup_token (nv_name (ent_nv e))) \<and>
     deflate_hd_table_bufsize_max d < 2 ^ 32 \<and> d_min_hd_table_bufsize_max d < 2 ^ 32"

text \<open>What a step of the encoder leaves alone.\<close>

definition same_limits :: "nghttp2_hd_deflater \<Rightarrow> nghttp2_hd_deflater \<Rightarrow> bool" where
  "same_limits d d' \<longleftrightarrow> deflate_hd_table_bufsize_max d' = deflate_hd_table_bufsize_max d \<and>
     d_min_hd_table_bufsize_max d' = d_min_hd_table_bufsize_max d \<and>
     notify_table_size_change d' = notify_table_size_change d \<and>
     hd_table_bufsize_max (d_ctx d') = hd_table_bufsize_max (d_ctx d) \<and> ctx_bad (d_ctx d') = ctx_bad (d_ctx d)"

lemma same_limits_refl [simp]: "same_limits d d"
  by (simp add: same_limits_def)

lemma same_limits_trans: "same_limits a b \<Longrightarrow> same_limits b c \<Longrightarrow> same_limits a c"
  by (simp add: same_limits_def)

lemma rcbuf_copy_ok: "deflater_ok d es \<Longrightarrow> rcbuf_copy d = (ok, d') \<Longrightarrow> deflater_ok d' es \<and> same_limits d d'"
  by (auto simp: rcbuf_copy_def deflater_ok_def ctx_ok_def ctx_repr_def same_limits_def split: prod.splits)

lemma deflate_add_ok:
  assumes d: "deflater_ok d es" and tok: "token = lookup_token (h_name nv)"
    and idx: "idx = -1 \<or> 0 \<le> idx \<and> nat idx < length es + 61 \<and> nv_name (address_space es ! nat idx) = h_name nv"
  shows "\<exists>d' rv es'. deflate_add d nv token hash idx = Some (d', rv) \<and> deflater_ok d' es' \<and> same_limits d d' \<and>
    (rv = 0 \<longrightarrow> hd_fields es' = keep field_room (hd_table_bufsize_max (d_ctx d)) ((h_name nv, h_value nv, token) # hd_fields es)) \<and>
    (rv \<noteq> 0 \<longrightarrow> rv = NGHTTP2_ERR_NOMEM \<or> rv = NGHTTP2_ERR_HEADER_COMP)"
proof -
  have c: "ctx_ok (d_ctx d) es" using d by (simp add: deflater_ok_def)
  have name: "(if idx \<noteq> -1 then map_option nv_name (nghttp2_hd_table_get (d_ctx d) (nat idx)) else Some (h_name nv)) = Some (h_name nv)"
    using idx table_get [OF ctx_ok_repr [OF c], of "nat idx"] by auto
  obtain ok1 d1 where d1: "(if idx \<noteq> -1 then (True, d) else rcbuf_copy d) = (ok1, d1)" by fastforce
  then have d1_ok: "deflater_ok d1 es" "same_limits d d1" using rcbuf_copy_ok [OF d] d by (auto split: if_splits)
  show ?thesis
  proof (cases ok1)
    case False
    then show ?thesis using name d1 d1_ok unfolding deflate_add_def by (auto simp: Let_def)
  next
    case ok1: True
    obtain ok2 d2 where d2: "rcbuf_copy d1 = (ok2, d2)" by fastforce
    have d2_ok: "deflater_ok d2 es" "same_limits d d2"
      using rcbuf_copy_ok [OF d1_ok(1) d2] same_limits_trans [OF d1_ok(2)] by auto
    show ?thesis
    proof (cases ok2)
      case False
      then show ?thesis using name d1 ok1 d2 d2_ok unfolding deflate_add_def by (auto simp: Let_def)
    next
      case ok2: True
      let ?nv = "\<lparr>nv_name = h_name nv, nv_value = h_value nv, nv_token = token, nv_flags = NGHTTP2_NV_FLAG_NONE\<rparr>"
      let ?ent = "\<lparr>ent_nv = ?nv, ent_seq = next_seq (d_ctx d2), ent_hash = hash\<rparr>"
      have c2: "ctx_ok (d_ctx d2) es" "maybe_map_repr (Some (d_map d2)) es" using d2_ok by (simp_all add: deflater_ok_def)
      obtain ctx m rv es' where add: "add_hd_table_incremental (d_ctx d2) ?nv (Some (d_map d2)) hash = Some (ctx, m, rv)"
        "entry_added (d_ctx d2) es ?ent ctx es' rv" "maybe_map_repr m es'" "Some (d_map d2) = None \<longleftrightarrow> m = None"
        using add_ok [OF c2 refl] by blast
      obtain t where t: "m = Some t" "map_repr t es'" using add(3,4) by (cases m) auto
      let ?d' = "d2\<lparr>d_ctx := ctx, d_map := t\<rparr>" and ?rv = "if rv \<noteq> 0 then NGHTTP2_ERR_HEADER_COMP else 0"
      have run: "deflate_add d nv token hash idx = Some (?d', ?rv)"
        unfolding deflate_add_def name using d1 ok1 d2 ok2 add(1) t(1) by (simp add: Let_def)
      have cap: "hd_table_bufsize_max (d_ctx d2) = hd_table_bufsize_max (d_ctx d)" using d2_ok(2) by (simp add: same_limits_def)
      have sub: "set es' \<subseteq> insert ?ent (set es)"
        using add(2) set_mono_prefix keep_subset [of _ ent_room] by (fastforce simp: entry_added_def split: if_splits)
      have toks: "\<forall>e \<in> set es'. nv_token (ent_nv e) = lookup_token (nv_name (ent_nv e))"
        using sub d2_ok(1) tok by (auto simp: deflater_ok_def)
      have ok': "deflater_ok ?d' es'"
        using add(2) t(2) toks d2_ok(1) by (simp add: deflater_ok_def entry_added_def)
      have lim: "same_limits d ?d'" using d2_ok(2) add(2) by (simp add: same_limits_def entry_added_def)
      have "hd_fields es' = keep field_room (hd_table_bufsize_max (d_ctx d)) ((h_name nv, h_value nv, token) # hd_fields es)" if "rv = 0"
      proof -
        have "es' = keep ent_room (hd_table_bufsize_max (d_ctx d)) (?ent # es)" using add(2) that cap by (simp add: entry_added_def)
        then have "hd_fields es' = keep field_room (hd_table_bufsize_max (d_ctx d)) (hd_fields (?ent # es))" by (simp only: keep_fields)
        also have "hd_fields (?ent # es) = (h_name nv, h_value nv, token) # hd_fields es" by (simp add: hd_fields_def nv_field_def)
        finally show ?thesis .
      qed
      then show ?thesis using run ok' lim by auto
    qed
  qed
qed

lemma indexing_secret:
  "indexing_mode d nv token = NGHTTP2_HD_NEVER_INDEXING \<longleftrightarrow>
   token = 22 \<or> (token = 31 \<and> length (h_value nv) < 20) \<or> h_flags nv AND NGHTTP2_NV_FLAG_NO_INDEX \<noteq> 0"
  by (simp add: indexing_mode_def hd_deflate_decide_indexing_def)

lemma name_only_inexact:
  assumes "search_hd_table ctx nv token True m hash = Some (idx, exact)"
  shows "\<not> exact"
proof -
  have first: "\<not> ex" if "find_chain nv token hash True None ps = (r, ex)" for ps r ex
    using that by (induction ps) (auto split: if_splits)
  obtain r ex where found: "hd_map_find m nv token hash True = Some (r, ex)"
    using assms by (auto simp: search_hd_table_def bind_eq_Some_conv)
  then have "\<not> ex" using first by (auto simp: hd_map_find_def)
  then show ?thesis
    using assms found by (auto simp: search_hd_table_def search_static_table_def split: if_splits option.splits)
qed

definition nv_rep :: "nghttp2_hd_deflater \<Rightarrow> nghttp2_nv \<Rightarrow> hd_rep \<Rightarrow> bool" where
  "nv_rep d nv rep \<longleftrightarrow>
     (let mode = indexing_mode d nv (lookup_token (h_name nv)) in
      case rep of
        Indexed i \<Rightarrow> mode \<noteq> NGHTTP2_HD_NEVER_INDEXING
      | Literal m i n v \<Rightarrow> m = mode \<and> n = h_name nv \<and> v = h_value nv)"

definition nv_entry :: "nghttp2_nv \<Rightarrow> hd_field" where
  "nv_entry nv = (h_name nv, h_value nv, lookup_token (h_name nv))"

definition emit_errors :: "int set" where
  "emit_errors = {NGHTTP2_ERR_NOMEM, NGHTTP2_ERR_HEADER_COMP, NGHTTP2_ERR_BUFFER_ERROR}"

lemma added_error: "added bs p bs' rv \<Longrightarrow> rv \<noteq> 0 \<Longrightarrow> rv \<in> emit_errors"
  by (auto simp: added_def emit_errors_def)

lemma deflate_nv_ok:
  assumes d: "deflater_ok d es" and bs: "bufs_ok bs" "roomy bs"
    and len: "length (h_name nv) < 2 ^ 32" "length (h_value nv) < 2 ^ 32"
  shows "\<exists>d' bs' rv es'. deflate_nv d bs nv = Some (d', bs', rv) \<and> deflater_ok d' es' \<and> same_limits d d' \<and>
    bufs_ok bs' \<and> roomy bs' \<and> (rv \<noteq> 0 \<longrightarrow> rv \<in> emit_errors) \<and>
    (rv = 0 \<longrightarrow> (\<exists>rep. rep_ok (hd_fields es) rep (nv_entry nv) \<and> nv_rep d nv rep \<and> added bs (rep_bytes rep) bs' 0 \<and>
       hd_fields es' = rep_table (hd_table_bufsize_max (d_ctx d)) rep (hd_fields es)))"
proof -
  define token where "token = lookup_token (h_name nv)"
  define mode where "mode = indexing_mode d nv token"
  have c: "ctx_repr (d_ctx d) es" "ctx_ok (d_ctx d) es" using d by (simp_all add: deflater_ok_def ctx_ok_repr)
  have small: "length es + 61 < 2 ^ 32" using ctx_length [OF c(1)] by simp
  obtain hash where hash: "(if token = -1 then Some (name_hash (h_name nv))
      else if token \<le> NGHTTP2_TOKEN_WWW_AUTHENTICATE then map_option snd (rd static_table (nat token)) else Some 0) = Some hash"
  proof -
    have "nat token < length static_table" if "token \<le> 60" using that by (simp add: length_static)
    then show ?thesis using that by (cases "token = -1"; cases "token \<le> 60") auto
  qed
  obtain idx exact where s: "search_hd_table (d_ctx d) nv token (mode = NGHTTP2_HD_NEVER_INDEXING) (d_map d) hash = Some (idx, exact)"
    and found: "idx = -1 \<and> \<not> exact \<or> 0 \<le> idx \<and> nat idx < length es + 61 \<and> nv_name (address_space es ! nat idx) = h_name nv \<and>
      nv_token (address_space es ! nat idx) = token \<and> (exact \<longrightarrow> nv_value (address_space es ! nat idx) = h_value nv)"
    using search_sound [OF c(1), of "d_map d" token nv "mode = NGHTTP2_HD_NEVER_INDEXING" hash] d token_def
    by (auto simp: deflater_ok_def)
  show ?thesis
  proof (cases exact)
    case True
    have idx: "nat idx < length es + 61" "space (hd_fields es) ! nat idx = nv_entry nv"
      using found True space_address [of "nat idx" es] by (auto simp: nv_field_def nv_entry_def token_def)
    have "nat idx + 1 < 2 ^ 32" using idx(1) ctx_length [OF c(1)] by simp
    then obtain bs' rv where e: "emit_indexed_block bs (nat idx) = Some (bs', rv)" "added bs (rep_bytes (Indexed (nat idx))) bs' rv"
      using emit_integer_ok [OF bs(1) flags_ok(2)] by (fastforce simp: emit_indexed_block_def)
    have run: "deflate_nv d bs nv = Some (d, bs', rv)"
      unfolding deflate_nv_def Let_def token_def [symmetric] hash using s e(1) True mode_def by simp
    have "mode \<noteq> NGHTTP2_HD_NEVER_INDEXING" using name_only_inexact [of "d_ctx d" nv token "d_map d" hash idx exact] s True by auto
    then have "nv_rep d nv (Indexed (nat idx))" by (simp add: nv_rep_def mode_def token_def)
    moreover have "rep_ok (hd_fields es) (Indexed (nat idx)) (nv_entry nv)" using idx by simp
    ultimately show ?thesis
      using run d e(2) added_ok [OF e(2)] added_roomy [OF e(2) bs(2)] added_error [OF e(2)]
      by (intro exI [of _ d] exI [of _ bs'] exI [of _ rv] exI [of _ es]) (auto intro!: exI [of _ "Indexed (nat idx)"])
  next
    case inexact: False
    define i where "i = (if idx = -1 then None else Some (nat idx))"
    let ?rep = "Literal mode i (h_name nv) (h_value nv)"
    have idx: "idx = -1 \<or> 0 \<le> idx \<and> nat idx < length es + 61 \<and> nv_name (address_space es ! nat idx) = h_name nv"
      using found by auto
    obtain d1 rv1 es1 where add: "(if mode = NGHTTP2_HD_WITH_INDEXING then deflate_add d nv token hash idx else Some (d, 0)) = Some (d1, rv1)"
      "deflater_ok d1 es1" "same_limits d d1" "rv1 \<noteq> 0 \<Longrightarrow> rv1 \<in> emit_errors"
      "rv1 = 0 \<Longrightarrow> hd_fields es1 = rep_table (hd_table_bufsize_max (d_ctx d)) ?rep (hd_fields es)"
    proof (cases "mode = NGHTTP2_HD_WITH_INDEXING")
      case True
      obtain d' rv es' where a: "deflate_add d nv token hash idx = Some (d', rv)" "deflater_ok d' es'" "same_limits d d'"
        "rv = 0 \<longrightarrow> hd_fields es' = keep field_room (hd_table_bufsize_max (d_ctx d)) ((h_name nv, h_value nv, token) # hd_fields es)"
        "rv \<noteq> 0 \<longrightarrow> rv = NGHTTP2_ERR_NOMEM \<or> rv = NGHTTP2_ERR_HEADER_COMP"
        using deflate_add_ok [OF d token_def idx] by blast
      show ?thesis
        using True a by (intro that [of d' rv es']) (auto simp: emit_errors_def token_def)
    next
      case False
      show ?thesis using False d by (intro that [of d 0 es]) (cases mode; simp)+
    qed
    have run: "deflate_nv d bs nv = (if rv1 \<noteq> 0 then Some (d1, bs, rv1)
        else Option.bind (if idx = -1 then emit_newname_block bs nv mode else emit_indname_block bs (nat idx) nv mode)
          (\<lambda>(bs1, rv). Some (d1, bs1, rv)))"
      unfolding deflate_nv_def Let_def token_def [symmetric] hash mode_def [symmetric] using s inexact add(1) by simp
    show ?thesis
    proof (cases "rv1 = 0")
      case False
      then show ?thesis using run add(2-4) bs by auto
    next
      case True
      obtain bs' rv where e: "(if idx = -1 then emit_newname_block bs nv mode else emit_indname_block bs (nat idx) nv mode) = Some (bs', rv)"
        "added bs (rep_bytes ?rep) bs' rv"
      proof (cases "idx = -1")
        case True
        then show ?thesis using that emit_newname_ok [OF bs len, of mode] by (auto simp: i_def)
      next
        case False
        have "nat idx + 1 < 2 ^ 32" using idx False ctx_length [OF c(1)] by simp
        from emit_indname_ok [OF bs this len(2), of mode "h_name nv"] show ?thesis
          using that False by (auto simp: i_def)
      qed
      have "rep_ok (hd_fields es) ?rep (nv_entry nv)"
        using found space_address [of "nat idx" es] by (cases "idx = -1") (auto simp: i_def nv_entry_def nv_field_def token_def)
      moreover have "nv_rep d nv ?rep" by (simp add: nv_rep_def mode_def token_def)
      moreover have "deflate_nv d bs nv = Some (d1, bs', rv)" using run True e(1) by simp
      ultimately show ?thesis
        using add(2,3) add(5) [OF True] e(2) added_ok [OF e(2)] added_roomy [OF e(2) bs(2)] added_error [OF e(2)]
        by (intro exI [of _ d1] exI [of _ bs'] exI [of _ rv] exI [of _ es1]) (auto intro!: exI [of _ ?rep])
    qed
  qed
qed

section \<open>Whole blocks\<close>

definition sensitive :: "nghttp2_nv \<Rightarrow> bool" where
  "sensitive nv \<longleftrightarrow> lookup_token (h_name nv) = 22 \<or> (lookup_token (h_name nv) = 31 \<and> length (h_value nv) < 20) \<or>
     h_flags nv AND NGHTTP2_NV_FLAG_NO_INDEX \<noteq> 0"

fun secrecy_ok :: "nghttp2_nv \<Rightarrow> hd_rep \<Rightarrow> bool" where
  "secrecy_ok nv (Indexed i) \<longleftrightarrow> \<not> sensitive nv"
| "secrecy_ok nv (Literal m i n v) \<longleftrightarrow> (m = NGHTTP2_HD_NEVER_INDEXING \<longleftrightarrow> sensitive nv) \<and> n = h_name nv \<and> v = h_value nv"

lemma nv_rep_secrecy: "nv_rep d nv rep \<Longrightarrow> secrecy_ok nv rep"
  by (cases rep) (auto simp: nv_rep_def Let_def sensitive_def indexing_secret)

text \<open>\<open>block cap fs nvs reps fs'\<close>: the representations stand for the fields in turn.\<close>

fun block :: "nat \<Rightarrow> hd_field list \<Rightarrow> nghttp2_nv list \<Rightarrow> hd_rep list \<Rightarrow> hd_field list \<Rightarrow> bool" where
  "block cap fs [] [] fs' \<longleftrightarrow> fs' = fs"
| "block cap fs (nv # nvs) (r # rs) fs' \<longleftrightarrow>
     rep_ok fs r (nv_entry nv) \<and> secrecy_ok nv r \<and> block cap (rep_table cap r fs) nvs rs fs'"
| "block cap fs _ _ fs' \<longleftrightarrow> False"

definition nv_lengths :: "nghttp2_nv \<Rightarrow> bool" where
  "nv_lengths nv \<longleftrightarrow> length (h_name nv) < 2 ^ 32 \<and> length (h_value nv) < 2 ^ 32"

lemma deflate_each_ok:
  "deflater_ok d es \<Longrightarrow> bufs_ok bs \<Longrightarrow> roomy bs \<Longrightarrow> list_all nv_lengths nvs \<Longrightarrow>
   \<exists>d' bs' rv es'. deflate_each d bs nvs = Some (d', bs', rv) \<and> deflater_ok d' es' \<and> same_limits d d' \<and>
     bufs_ok bs' \<and> roomy bs' \<and> (rv \<noteq> 0 \<longrightarrow> rv \<in> emit_errors) \<and>
     (rv = 0 \<longrightarrow> (\<exists>reps. block (hd_table_bufsize_max (d_ctx d)) (hd_fields es) nvs reps (hd_fields es') \<and>
       added bs (concat (map rep_bytes reps)) bs' 0))"
proof (induction nvs arbitrary: d es bs)
  case Nil
  then show ?case
    by (intro exI [of _ d] exI [of _ bs] exI [of _ 0] exI [of _ es]) (auto intro: exI [of _ "[]"])
next
  case (Cons nv nvs)
  have len: "length (h_name nv) < 2 ^ 32" "length (h_value nv) < 2 ^ 32" and rest: "list_all nv_lengths nvs"
    using Cons.prems(4) by (auto simp: nv_lengths_def [of nv])
  let ?cap = "hd_table_bufsize_max (d_ctx d)"
  obtain d1 bs1 rv1 es1 where one: "deflate_nv d bs nv = Some (d1, bs1, rv1)" "deflater_ok d1 es1" "same_limits d d1"
    "bufs_ok bs1" "roomy bs1" "rv1 \<noteq> 0 \<longrightarrow> rv1 \<in> emit_errors"
    "rv1 = 0 \<longrightarrow> (\<exists>rep. rep_ok (hd_fields es) rep (nv_entry nv) \<and> nv_rep d nv rep \<and> added bs (rep_bytes rep) bs1 0 \<and>
       hd_fields es1 = rep_table ?cap rep (hd_fields es))"
    using deflate_nv_ok [OF Cons.prems(1-3) len] by blast
  show ?case
  proof (cases "rv1 = 0")
    case False
    then show ?thesis using one by auto
  next
    case True
    obtain rep where rep: "rep_ok (hd_fields es) rep (nv_entry nv)" "nv_rep d nv rep" "added bs (rep_bytes rep) bs1 0"
      "hd_fields es1 = rep_table ?cap rep (hd_fields es)" using one(7) True by blast
    have cap: "hd_table_bufsize_max (d_ctx d1) = ?cap" using one(3) by (simp add: same_limits_def)
    obtain d' bs' rv es' where more: "deflate_each d1 bs1 nvs = Some (d', bs', rv)" "deflater_ok d' es'" "same_limits d1 d'"
      "bufs_ok bs'" "roomy bs'" "rv \<noteq> 0 \<longrightarrow> rv \<in> emit_errors"
      "rv = 0 \<longrightarrow> (\<exists>reps. block ?cap (hd_fields es1) nvs reps (hd_fields es') \<and> added bs1 (concat (map rep_bytes reps)) bs' 0)"
      using Cons.IH [OF one(2,4,5) rest] unfolding cap by blast
    have run: "deflate_each d bs (nv # nvs) = Some (d', bs', rv)" using one(1) True more(1) by simp
    have "\<exists>reps. block ?cap (hd_fields es) (nv # nvs) reps (hd_fields es') \<and> added bs (concat (map rep_bytes reps)) bs' 0" if rv: "rv = 0"
    proof -
      obtain reps where reps: "block ?cap (hd_fields es1) nvs reps (hd_fields es')" "added bs1 (concat (map rep_bytes reps)) bs' 0"
        using more(7) rv by blast
      have "block ?cap (hd_fields es) (nv # nvs) (rep # reps) (hd_fields es')"
        using rep(1,4) nv_rep_secrecy [OF rep(2)] reps(1) by simp
      then show ?thesis using added_seq [OF rep(3) reps(2)] by (intro exI [of _ "rep # reps"]) simp
    qed
    then show ?thesis using run more(2,4-6) same_limits_trans [OF one(3) more(3)] by blast
  qed
qed

definition size_bytes :: "nghttp2_hd_deflater \<Rightarrow> bytes" where
  "size_bytes d =
     (let least = d_min_hd_table_bufsize_max d; cap = hd_table_bufsize_max (d_ctx d) in
      if notify_table_size_change d
      then (if least < cap then int_bytes 0x20 5 least else []) @ int_bytes 0x20 5 cap else [])"

lemma deflate_table_sizes_ok:
  assumes d: "deflater_ok d es" and bs: "bufs_ok bs" "roomy bs"
  shows "\<exists>bs' rv. deflate_table_sizes d bs =
      Some (if notify_table_size_change d then d\<lparr>notify_table_size_change := False, d_min_hd_table_bufsize_max := UINT32_MAX\<rparr> else d, bs', rv) \<and>
    added bs (size_bytes d) bs' rv"
proof (cases "notify_table_size_change d")
  case True
  let ?least = "d_min_hd_table_bufsize_max d" and ?cap = "hd_table_bufsize_max (d_ctx d)"
  have small: "?least < 2 ^ 32" "?cap < 2 ^ 32" using d by (auto simp: deflater_ok_def ctx_ok_def)
  have first: "\<exists>bs1 rv. (if ?least < ?cap then emit_table_size bs ?least else Some (bs, 0)) = Some (bs1, rv) \<and>
      added bs (if ?least < ?cap then int_bytes 0x20 5 ?least else []) bs1 rv"
    using emit_integer_ok [OF bs(1) flags_ok(1) small(1)] bs(1) by (auto simp: emit_table_size_def)
  have second: "\<exists>bs2 rv. emit_table_size b ?cap = Some (bs2, rv) \<and> added b (int_bytes 0x20 5 ?cap) bs2 rv" if "bufs_ok b" for b
    using emit_integer_ok [OF that flags_ok(1) small(2)] by (simp add: emit_table_size_def)
  obtain bs2 rv where r: "Option.bind (if ?least < ?cap then emit_table_size bs ?least else Some (bs, 0))
      (\<lambda>(bs1, rv). if rv \<noteq> 0 then Some (bs1, rv) else emit_table_size bs1 ?cap) = Some (bs2, rv)" "added bs (size_bytes d) bs2 rv"
    using emit_then [OF first bs(2), of "\<lambda>b. emit_table_size b ?cap", OF second] True unfolding size_bytes_def Let_def by auto
  then show ?thesis
    using True by (auto simp: deflate_table_sizes_def Let_def bind_eq_Some_conv split: if_splits prod.splits)
next
  case False
  then show ?thesis using bs by (simp add: deflate_table_sizes_def size_bytes_def)
qed

lemma deflate_block_ok:
  assumes d: "deflater_ok d es" "\<not> ctx_bad (d_ctx d)" and bs: "bufs_ok bs" "roomy bs" and nvs: "list_all nv_lengths nvs"
  shows "\<exists>d' bs' rv es'. nghttp2_hd_deflate_hd_bufs d bs nvs = Some (d', bs', rv) \<and> deflater_ok d' es' \<and> bufs_ok bs' \<and> roomy bs' \<and>
    deflate_hd_table_bufsize_max d' = deflate_hd_table_bufsize_max d \<and>
    hd_table_bufsize_max (d_ctx d') = hd_table_bufsize_max (d_ctx d) \<and> (ctx_bad (d_ctx d') \<longleftrightarrow> rv \<noteq> 0) \<and> (rv \<noteq> 0 \<longrightarrow> rv \<in> emit_errors) \<and>
    (rv = 0 \<longrightarrow> \<not> notify_table_size_change d' \<and> d_min_hd_table_bufsize_max d' = (if notify_table_size_change d then UINT32_MAX else d_min_hd_table_bufsize_max d) \<and>
      (\<exists>reps. block (hd_table_bufsize_max (d_ctx d)) (hd_fields es) nvs reps (hd_fields es') \<and>
        added bs (size_bytes d @ concat (map rep_bytes reps)) bs' 0))"
proof -
  let ?d1 = "if notify_table_size_change d then d\<lparr>notify_table_size_change := False, d_min_hd_table_bufsize_max := UINT32_MAX\<rparr> else d"
  obtain bs1 rv1 where s: "deflate_table_sizes d bs = Some (?d1, bs1, rv1)" "added bs (size_bytes d) bs1 rv1"
    using deflate_table_sizes_ok [OF d(1) bs] by blast
  have d1: "deflater_ok ?d1 es" "\<not> notify_table_size_change ?d1"
    "hd_table_bufsize_max (d_ctx ?d1) = hd_table_bufsize_max (d_ctx d)" using d(1) by (auto simp: deflater_ok_def)
  have bad: "deflater_ok (d_bad x) ys \<longleftrightarrow> deflater_ok x ys" for x ys
    by (simp add: d_bad_def deflater_ok_def ctx_ok_def ctx_repr_def)
  show ?thesis
  proof (cases "rv1 = 0")
    case False
    then have "nghttp2_hd_deflate_hd_bufs d bs nvs = Some (d_bad ?d1, bs1, rv1)"
      using d(2) s(1) by (simp add: nghttp2_hd_deflate_hd_bufs_def)
    then show ?thesis
      using False d1 bad added_ok [OF s(2)] added_roomy [OF s(2) bs(2)] added_error [OF s(2)]
      by (intro exI [of _ "d_bad ?d1"] exI [of _ bs1] exI [of _ rv1] exI [of _ es]) (auto simp: d_bad_def)
  next
    case True
    obtain d' bs' rv es' where e: "deflate_each ?d1 bs1 nvs = Some (d', bs', rv)" "deflater_ok d' es'" "same_limits ?d1 d'"
      "bufs_ok bs'" "roomy bs'" "rv \<noteq> 0 \<longrightarrow> rv \<in> emit_errors"
      "rv = 0 \<longrightarrow> (\<exists>reps. block (hd_table_bufsize_max (d_ctx d)) (hd_fields es) nvs reps (hd_fields es') \<and>
       added bs1 (concat (map rep_bytes reps)) bs' 0)"
      using deflate_each_ok [OF d1(1) added_ok [OF s(2)] added_roomy [OF s(2) bs(2)] nvs] unfolding d1(3) by blast
    have run: "nghttp2_hd_deflate_hd_bufs d bs nvs = Some (if rv \<noteq> 0 then d_bad d' else d', bs', rv)"
      using d(2) s(1) True e(1) by (simp add: nghttp2_hd_deflate_hd_bufs_def)
    have lim: "deflate_hd_table_bufsize_max d' = deflate_hd_table_bufsize_max d" "hd_table_bufsize_max (d_ctx d') = hd_table_bufsize_max (d_ctx d)"
      "\<not> notify_table_size_change d'" "\<not> ctx_bad (d_ctx d')"
      "d_min_hd_table_bufsize_max d' = (if notify_table_size_change d then UINT32_MAX else d_min_hd_table_bufsize_max d)"
      using e(3) d(2) by (auto simp: same_limits_def split: if_splits)
    have "\<exists>reps. block (hd_table_bufsize_max (d_ctx d)) (hd_fields es) nvs reps (hd_fields es') \<and>
        added bs (size_bytes d @ concat (map rep_bytes reps)) bs' 0" if "rv = 0"
      using e(7) that added_seq [of bs "size_bytes d" bs1] s(2) True by blast
    then show ?thesis using run e(2,4,5,6) lim bad [of d' es']
      by (intro exI [of _ "if rv \<noteq> 0 then d_bad d' else d'"] exI [of _ bs'] exI [of _ rv] exI [of _ es']) (auto simp: d_bad_def)
  qed
qed

lemma deflate_init_ok:
  assumes "nghttp2_hd_deflate_init2 size_max m = (d, m', rv)" "size_max < 2 ^ 32"
  shows "if rv = 0 then \<exists>x. d = Some x \<and> deflater_ok x [] \<and> \<not> ctx_bad (d_ctx x) \<and> deflate_hd_table_bufsize_max x = size_max \<and>
      hd_table_bufsize_max (d_ctx x) = min size_max 4096 \<and> d_min_hd_table_bufsize_max x = UINT32_MAX \<and>
      notify_table_size_change x = (size_max < 4096)
    else d = None \<and> rv = NGHTTP2_ERR_NOMEM \<and> \<not> list_all id (mem_answers m)"
proof -
  obtain c m1 rv1 where c: "hd_context_init m = (c, m1, rv1)" by (cases "hd_context_init m")
  show ?thesis
    using ctx_init [OF c] assms c map_init
    by (cases "rv1 = 0") (auto simp: nghttp2_hd_deflate_init2_def Let_def deflater_ok_def ctx_ok_def ctx_repr_def hd_context_init_def split: prod.splits option.splits if_splits)
qed

lemma deflate_resize_ok:
  assumes "deflater_ok d es" "n < 2 ^ 32"
  shows "\<exists>d' es'. nghttp2_hd_deflate_change_table_size d n = Some (d', 0) \<and> deflater_ok d' es' \<and>
    hd_fields es' = keep field_room (min n (deflate_hd_table_bufsize_max d)) (hd_fields es) \<and>
    deflate_hd_table_bufsize_max d' = deflate_hd_table_bufsize_max d \<and>
    hd_table_bufsize_max (d_ctx d') = min n (deflate_hd_table_bufsize_max d) \<and>
    d_min_hd_table_bufsize_max d' = min (d_min_hd_table_bufsize_max d) (min n (deflate_hd_table_bufsize_max d)) \<and>
    notify_table_size_change d' \<and> ctx_bad (d_ctx d') = ctx_bad (d_ctx d)"
proof -
  let ?n = "min n (deflate_hd_table_bufsize_max d)" and ?c = "(d_ctx d)\<lparr>hd_table_bufsize_max := min n (deflate_hd_table_bufsize_max d)\<rparr>"
  have c: "ctx_repr ?c es" "maybe_map_repr (Some (d_map d)) es" "hd_table_bufsize_max ?c < 2 ^ 32"
    using assms by (auto simp: deflater_ok_def ctx_ok_def ctx_repr_def)
  obtain rb b m' where s: "hd_context_shrink_table_size ?c (Some (d_map d)) = Some (?c\<lparr>hd_table := rb, hd_table_bufsize := b\<rparr>, m')"
    "ctx_ok (?c\<lparr>hd_table := rb, hd_table_bufsize := b\<rparr>) (keep ent_room ?n es)" "maybe_map_repr m' (keep ent_room ?n es)" "m' \<noteq> None"
    using shrink_ok [OF c] by (auto simp: Let_def)
  obtain t where t: "m' = Some t" "map_repr t (keep ent_room ?n es)" using s(3,4) by (cases m') auto
  show ?thesis
    using s(1,2) t assms keep_fields [of ?n es]
    by (auto simp: nghttp2_hd_deflate_change_table_size_def Let_def deflater_ok_def dest: keep_subset intro!: exI [of _ "keep ent_room ?n es"])
qed

end
