(* ===== verification/Ng_Hd_Inflate.thy ===== *)
theory Ng_Hd_Inflate
  imports Ng_Hd_Deflate_Props
begin

unbundle bit_operations_syntax

text \<open>
  The decoder of HPACK, from \<^verbatim>\<open>nghttp2_hd.c\<close>: a state machine that takes a header block in
  pieces, as they arrive, and stops at each header field it has decoded.

  One turn of its loop is \<open>inflate_step\<close>, with one definition per state. The input is the bytes
  between \<^verbatim>\<open>in\<close> and \<^verbatim>\<open>last\<close>; reading where there are none, and writing outside a
  buffer, is \<open>None\<close>. The counted buffers \<^verbatim>\<open>namercbuf\<close> and \<^verbatim>\<open>valuercbuf\<close> are their
  lengths: their bytes are those of \<^verbatim>\<open>namebuf\<close> and \<^verbatim>\<open>valuebuf\<close>, which wrap them.
\<close>

section \<open>The state\<close>

datatype nghttp2_hd_opcode =
  NGHTTP2_HD_OPCODE_NONE | NGHTTP2_HD_OPCODE_INDEXED | NGHTTP2_HD_OPCODE_NEWNAME | NGHTTP2_HD_OPCODE_INDNAME

datatype nghttp2_hd_inflate_state =
  NGHTTP2_HD_STATE_EXPECT_TABLE_SIZE | NGHTTP2_HD_STATE_INFLATE_START | NGHTTP2_HD_STATE_OPCODE
| NGHTTP2_HD_STATE_READ_TABLE_SIZE | NGHTTP2_HD_STATE_READ_INDEX
| NGHTTP2_HD_STATE_NEWNAME_CHECK_NAMELEN | NGHTTP2_HD_STATE_NEWNAME_READ_NAMELEN
| NGHTTP2_HD_STATE_NEWNAME_READ_NAMEHUFF | NGHTTP2_HD_STATE_NEWNAME_READ_NAME
| NGHTTP2_HD_STATE_CHECK_VALUELEN | NGHTTP2_HD_STATE_READ_VALUELEN
| NGHTTP2_HD_STATE_READ_VALUEHUFF | NGHTTP2_HD_STATE_READ_VALUE

abbreviation NGHTTP2_ERR_INVALID_STATE :: int where "NGHTTP2_ERR_INVALID_STATE \<equiv> - 519"
abbreviation NGHTTP2_HD_MAX_NV :: nat where "NGHTTP2_HD_MAX_NV \<equiv> 65536"
abbreviation NGHTTP2_HD_INFLATE_NONE :: u8 where "NGHTTP2_HD_INFLATE_NONE \<equiv> 0"
abbreviation NGHTTP2_HD_INFLATE_FINAL :: u8 where "NGHTTP2_HD_INFLATE_FINAL \<equiv> 1"
abbreviation NGHTTP2_HD_INFLATE_EMIT :: u8 where "NGHTTP2_HD_INFLATE_EMIT \<equiv> 2"

record nghttp2_hd_inflater =
  i_ctx :: nghttp2_hd_context
  huff_decode_ctx :: u16
  namebuf :: nghttp2_buf
  valuebuf :: nghttp2_buf
  namercbuf :: "nat option"
  valuercbuf :: "nat option"
  nv_name_keep :: "bytes option"
  nv_value_keep :: "bytes option"
  i_left :: nat
  i_index :: nat
  settings_hd_table_bufsize_max :: nat
  i_min_hd_table_bufsize_max :: nat
  i_shift :: nat
  i_opcode :: nghttp2_hd_opcode
  i_state :: nghttp2_hd_inflate_state
  huffman_encoded :: bool
  index_required :: bool
  no_index :: bool

definition nghttp2_hd_inflate_init :: "nghttp2_mem \<Rightarrow> nghttp2_hd_inflater option \<times> nghttp2_mem \<times> int" where
  "nghttp2_hd_inflate_init m =
     (case hd_context_init m of
        (None, m1, rv) \<Rightarrow> (None, m1, rv)
      | (Some ctx, m1, _) \<Rightarrow>
          (Some \<lparr>i_ctx = ctx, huff_decode_ctx = 0, namebuf = nghttp2_buf_init, valuebuf = nghttp2_buf_init,
                 namercbuf = None, valuercbuf = None, nv_name_keep = None, nv_value_keep = None,
                 i_left = 0, i_index = 0, settings_hd_table_bufsize_max = NGHTTP2_HD_DEFAULT_MAX_BUFFER_SIZE,
                 i_min_hd_table_bufsize_max = UINT32_MAX, i_shift = 0, i_opcode = NGHTTP2_HD_OPCODE_NONE,
                 i_state = NGHTTP2_HD_STATE_INFLATE_START, huffman_encoded = False, index_required = False,
                 no_index = False\<rparr>, m1, 0))"

definition nghttp2_hd_inflate_new2 :: "nghttp2_mem \<Rightarrow> nghttp2_hd_inflater option \<times> nghttp2_mem \<times> int" where
  "nghttp2_hd_inflate_new2 m =
     (case hd_malloc m of
        (False, m1) \<Rightarrow> (None, m1, NGHTTP2_ERR_NOMEM)
      | (True, m1) \<Rightarrow> nghttp2_hd_inflate_init m1)"

definition hd_inflate_keep_free :: "nghttp2_hd_inflater \<Rightarrow> nghttp2_hd_inflater" where
  "hd_inflate_keep_free i = i\<lparr>nv_value_keep := None, nv_name_keep := None\<rparr>"

definition nghttp2_hd_inflate_change_table_size :: "nghttp2_hd_inflater \<Rightarrow> nat \<Rightarrow> (nghttp2_hd_inflater \<times> int) option" where
  "nghttp2_hd_inflate_change_table_size i settings_max =
     (if i_state i \<noteq> NGHTTP2_HD_STATE_EXPECT_TABLE_SIZE \<and> i_state i \<noteq> NGHTTP2_HD_STATE_INFLATE_START
      then Some (i, NGHTTP2_ERR_INVALID_STATE)
      else
        (let i1 = i\<lparr>settings_hd_table_bufsize_max := settings_max\<rparr> in
         if settings_max < hd_table_bufsize_max (i_ctx i)
         then do {
           (ctx, _) \<leftarrow> hd_context_shrink_table_size ((i_ctx i1)\<lparr>hd_table_bufsize_max := settings_max\<rparr>) None;
           Some (i1\<lparr>i_state := NGHTTP2_HD_STATE_EXPECT_TABLE_SIZE, i_min_hd_table_bufsize_max := settings_max, i_ctx := ctx\<rparr>, 0)
         }
         else Some (i1, 0)))"

section \<open>Reading\<close>

definition hd_inflate_set_huffman_encoded :: "nghttp2_hd_inflater \<Rightarrow> bytes \<Rightarrow> nghttp2_hd_inflater option" where
  "hd_inflate_set_huffman_encoded i ins = do {
     b \<leftarrow> rd ins 0;
     Some (i\<lparr>huffman_encoded := b AND push_bit 7 1 \<noteq> 0\<rparr>)
   }"

text \<open>The results are the number of bytes read, or an error, and whether the integer is complete.\<close>

definition hd_inflate_read_len :: "nghttp2_hd_inflater \<Rightarrow> bytes \<Rightarrow> nat \<Rightarrow> nat \<Rightarrow> (nghttp2_hd_inflater \<times> int \<times> bool) option" where
  "hd_inflate_read_len i ins prefixlen maxlen = do {
     (out, shift, rfin, rv) \<leftarrow> decode_length (word_of_nat (i_left i)) (i_shift i) ins prefixlen;
     let i1 = i\<lparr>i_shift := shift\<rparr>;
     if rv = -1 then Some (i1, NGHTTP2_ERR_HEADER_COMP, rfin)
     else if maxlen < unat out then Some (i1, NGHTTP2_ERR_HEADER_COMP, rfin)
     else Some (i1\<lparr>i_left := unat out\<rparr>, rv, rfin)
   }"

definition hd_inflate_read_huff ::
  "nghttp2_hd_inflater \<Rightarrow> nghttp2_buf \<Rightarrow> bytes \<Rightarrow> (nghttp2_hd_inflater \<times> nghttp2_buf \<times> int) option" where
  "hd_inflate_read_huff i buf ins = do {
     let whole = i_left i \<le> length ins;
     (fs, buf1, readlen) \<leftarrow>
       nghttp2_hd_huff_decode (huff_decode_ctx i) buf (if whole then take (i_left i) ins else ins) whole;
     let i1 = i\<lparr>huff_decode_ctx := fs\<rparr>;
     if readlen < 0 then Some (i1, buf1, readlen)
     else if nghttp2_hd_huff_decode_failure_state fs then Some (i1, buf1, NGHTTP2_ERR_HEADER_COMP)
     else Some (i1\<lparr>i_left := i_left i - nat readlen\<rparr>, buf1, readlen)
   }"

definition hd_inflate_read ::
  "nghttp2_hd_inflater \<Rightarrow> nghttp2_buf \<Rightarrow> bytes \<Rightarrow> (nghttp2_hd_inflater \<times> nghttp2_buf \<times> int) option" where
  "hd_inflate_read i buf ins = do {
     let len = min (length ins) (i_left i);
     buf1 \<leftarrow> buf_put (take len ins) buf;
     Some (i\<lparr>i_left := i_left i - len\<rparr>, buf1, int len)
   }"

text \<open>The NUL behind the string, and the string itself.\<close>

definition put_nul :: "nghttp2_buf \<Rightarrow> nghttp2_buf option" where
  "put_nul buf = map_option (\<lambda>d. buf\<lparr>bytes_of := d\<rparr>) (wr (bytes_of buf) (buf_last buf) 0)"

definition rcbuf_string :: "nat option \<Rightarrow> nghttp2_buf \<Rightarrow> bytes option" where
  "rcbuf_string rc buf = Option.bind rc (rd_block (bytes_of buf) 0)"

definition rcbuf_alloc :: "nghttp2_hd_inflater \<Rightarrow> nat \<Rightarrow> bool \<times> nghttp2_hd_inflater \<times> bytes" where
  "rcbuf_alloc i n =
     (case hd_malloc (ctx_mem (i_ctx i)) of
        (ok, m) \<Rightarrow> (ok, i\<lparr>i_ctx := (i_ctx i)\<lparr>ctx_mem := m\<rparr>\<rparr>, map (mem_fill m) [0..<n]))"

section \<open>Finishing a field\<close>

definition emit_header :: "nghttp2_hd_nv \<Rightarrow> nghttp2_hd_nv" where
  "emit_header nv = nv"

definition hd_inflate_commit_indexed :: "nghttp2_hd_inflater \<Rightarrow> nghttp2_hd_nv option" where
  "hd_inflate_commit_indexed i = map_option emit_header (nghttp2_hd_table_get (i_ctx i) (i_index i))"

definition commit_flags :: "nghttp2_hd_inflater \<Rightarrow> u8" where
  "commit_flags i = (if no_index i then NGHTTP2_NV_FLAG_NO_INDEX else NGHTTP2_NV_FLAG_NONE)"

definition hd_inflate_commit_newname :: "nghttp2_hd_inflater \<Rightarrow> (nghttp2_hd_inflater \<times> nghttp2_hd_nv \<times> int) option" where
  "hd_inflate_commit_newname i = do {
     name \<leftarrow> rcbuf_string (namercbuf i) (namebuf i);
     val \<leftarrow> rcbuf_string (valuercbuf i) (valuebuf i);
     let nv = \<lparr>nv_name = name, nv_value = val, nv_token = lookup_token name, nv_flags = commit_flags i\<rparr>;
     (ctx, _, rv) \<leftarrow> (if index_required i then add_hd_table_incremental (i_ctx i) nv None 0 else Some (i_ctx i, None, 0));
     let i1 = i\<lparr>i_ctx := ctx\<rparr>;
     if rv \<noteq> 0 then Some (i1, nv, rv)
     else Some (i1\<lparr>nv_name_keep := Some name, nv_value_keep := Some val, namercbuf := None, valuercbuf := None\<rparr>,
                emit_header nv, 0)
   }"

definition hd_inflate_commit_indname :: "nghttp2_hd_inflater \<Rightarrow> (nghttp2_hd_inflater \<times> nghttp2_hd_nv \<times> int) option" where
  "hd_inflate_commit_indname i = do {
     nv0 \<leftarrow> nghttp2_hd_table_get (i_ctx i) (i_index i);
     val \<leftarrow> rcbuf_string (valuercbuf i) (valuebuf i);
     let nv = nv0\<lparr>nv_flags := commit_flags i, nv_value := val\<rparr>;
     (ctx, _, rv) \<leftarrow> (if index_required i then add_hd_table_incremental (i_ctx i) nv None 0 else Some (i_ctx i, None, 0));
     let i1 = i\<lparr>i_ctx := ctx\<rparr>;
     if rv \<noteq> 0 then Some (i1, nv, NGHTTP2_ERR_NOMEM)
     else Some (i1\<lparr>nv_name_keep := Some (nv_name nv), nv_value_keep := Some val, valuercbuf := None\<rparr>,
                emit_header nv, 0)
   }"

section \<open>The states\<close>

text \<open>A turn ends with the next turn, for want of input, with an error, or with a field.\<close>

datatype inflate_result =
  Go nghttp2_hd_inflater bytes bool
| Almost nghttp2_hd_inflater bytes
| Fail nghttp2_hd_inflater int
| Emit nghttp2_hd_inflater bytes nghttp2_hd_nv

definition inflate_opcode :: "nghttp2_hd_inflater \<Rightarrow> bytes \<Rightarrow> inflate_result option" where
  "inflate_opcode i ins = do {
     b \<leftarrow> rd ins 0;
     if b AND 0xe0 = 0x20
     then
       (if i_state i = NGHTTP2_HD_STATE_OPCODE then Some (Fail i NGHTTP2_ERR_HEADER_COMP)
        else Some (Go (i\<lparr>i_opcode := NGHTTP2_HD_OPCODE_INDEXED, i_state := NGHTTP2_HD_STATE_READ_TABLE_SIZE,
                         i_left := 0, i_shift := 0\<rparr>) ins False))
     else if b AND 0x80 \<noteq> 0
     then Some (Go (i\<lparr>i_opcode := NGHTTP2_HD_OPCODE_INDEXED, i_state := NGHTTP2_HD_STATE_READ_INDEX,
                      i_left := 0, i_shift := 0\<rparr>) ins False)
     else
       (let newname = b = 0x40 \<or> b = 0 \<or> b = 0x10;
            i1 = i\<lparr>i_opcode := (if newname then NGHTTP2_HD_OPCODE_NEWNAME else NGHTTP2_HD_OPCODE_INDNAME),
                   i_state := (if newname then NGHTTP2_HD_STATE_NEWNAME_CHECK_NAMELEN else NGHTTP2_HD_STATE_READ_INDEX),
                   index_required := b AND 0x40 \<noteq> 0, no_index := b AND 0xf0 = 0x10, i_left := 0, i_shift := 0\<rparr> in
        Some (Go i1 (if newname then drop 1 ins else ins) False))
   }"

definition inflate_expect_table_size :: "nghttp2_hd_inflater \<Rightarrow> bytes \<Rightarrow> inflate_result option" where
  "inflate_expect_table_size i ins = do {
     b \<leftarrow> rd ins 0;
     if b AND 0xe0 \<noteq> 0x20 then Some (Fail i NGHTTP2_ERR_HEADER_COMP) else inflate_opcode i ins
   }"

definition inflate_read_table_size :: "nghttp2_hd_inflater \<Rightarrow> bytes \<Rightarrow> inflate_result option" where
  "inflate_read_table_size i ins = do {
     (i1, rv, rfin) \<leftarrow> hd_inflate_read_len i ins 5 (min (i_min_hd_table_bufsize_max i) (settings_hd_table_bufsize_max i));
     if rv < 0 then Some (Fail i1 rv)
     else if \<not> rfin then Some (Almost i1 (drop (nat rv) ins))
     else do {
       (ctx, _) \<leftarrow> hd_context_shrink_table_size ((i_ctx i1)\<lparr>hd_table_bufsize_max := i_left i1\<rparr>) None;
       Some (Go (i1\<lparr>i_min_hd_table_bufsize_max := UINT32_MAX, i_ctx := ctx, i_state := NGHTTP2_HD_STATE_INFLATE_START\<rparr>)
               (drop (nat rv) ins) False)
     }
   }"

definition inflate_read_index :: "nghttp2_hd_inflater \<Rightarrow> bytes \<Rightarrow> inflate_result option" where
  "inflate_read_index i ins = do {
     let prefixlen = (if i_opcode i = NGHTTP2_HD_OPCODE_INDEXED then 7 else if index_required i then 6 else 4);
     (i1, rv, rfin) \<leftarrow> hd_inflate_read_len i ins prefixlen (get_max_index (i_ctx i));
     if rv < 0 then Some (Fail i1 rv)
     else if \<not> rfin then Some (Almost i1 (drop (nat rv) ins))
     else if i_left i1 = 0 then Some (Fail i1 NGHTTP2_ERR_HEADER_COMP)
     else
       (let i2 = i1\<lparr>i_index := i_left i1 - 1\<rparr> in
        if i_opcode i2 = NGHTTP2_HD_OPCODE_INDEXED
        then map_option (Emit (i2\<lparr>i_state := NGHTTP2_HD_STATE_OPCODE\<rparr>) (drop (nat rv) ins)) (hd_inflate_commit_indexed i2)
        else Some (Go (i2\<lparr>i_state := NGHTTP2_HD_STATE_CHECK_VALUELEN\<rparr>) (drop (nat rv) ins) False))
   }"

definition inflate_read_namelen :: "nghttp2_hd_inflater \<Rightarrow> bytes \<Rightarrow> inflate_result option" where
  "inflate_read_namelen i ins = do {
     (i1, rv, rfin) \<leftarrow> hd_inflate_read_len i ins 7 NGHTTP2_HD_MAX_NV;
     if rv < 0 then Some (Fail i1 rv)
     else if \<not> rfin then Some (Almost i1 (drop (nat rv) ins))
     else
       (let i2 = (if huffman_encoded i1
                  then i1\<lparr>huff_decode_ctx := nghttp2_hd_huff_decode_context_init, i_state := NGHTTP2_HD_STATE_NEWNAME_READ_NAMEHUFF\<rparr>
                  else i1\<lparr>i_state := NGHTTP2_HD_STATE_NEWNAME_READ_NAME\<rparr>);
            n = (if huffman_encoded i1 then i_left i1 * 2 + 1 else i_left i1 + 1) in
        case rcbuf_alloc i2 n of
          (ok, i3, base) \<Rightarrow>
            if \<not> ok then Some (Fail i3 NGHTTP2_ERR_NOMEM)
            else Some (Go (i3\<lparr>namercbuf := Some n, namebuf := nghttp2_buf_wrap_init base\<rparr>) (drop (nat rv) ins) False))
   }"

definition inflate_check_namelen :: "nghttp2_hd_inflater \<Rightarrow> bytes \<Rightarrow> inflate_result option" where
  "inflate_check_namelen i ins = do {
     i1 \<leftarrow> hd_inflate_set_huffman_encoded i ins;
     inflate_read_namelen (i1\<lparr>i_state := NGHTTP2_HD_STATE_NEWNAME_READ_NAMELEN, i_left := 0, i_shift := 0\<rparr>) ins
   }"

definition finish_name :: "(nghttp2_hd_inflater \<times> nghttp2_buf \<times> int) option \<Rightarrow> bytes \<Rightarrow> inflate_result option" where
  "finish_name got ins = do {
     (i1, buf, rv) \<leftarrow> got;
     if rv < 0 then Some (Fail (i1\<lparr>namebuf := buf\<rparr>) rv)
     else if i_left i1 \<noteq> 0 then Some (Almost (i1\<lparr>namebuf := buf\<rparr>) (drop (nat rv) ins))
     else do {
       buf1 \<leftarrow> put_nul buf;
       Some (Go (i1\<lparr>namebuf := buf1, namercbuf := Some (nghttp2_buf_len buf1), i_state := NGHTTP2_HD_STATE_CHECK_VALUELEN\<rparr>)
               (drop (nat rv) ins) False)
     }
   }"

definition inflate_read_namehuff :: "nghttp2_hd_inflater \<Rightarrow> bytes \<Rightarrow> inflate_result option" where
  "inflate_read_namehuff i ins = finish_name (hd_inflate_read_huff i (namebuf i) ins) ins"

definition inflate_read_name :: "nghttp2_hd_inflater \<Rightarrow> bytes \<Rightarrow> inflate_result option" where
  "inflate_read_name i ins = finish_name (hd_inflate_read i (namebuf i) ins) ins"

definition inflate_read_valuelen :: "nghttp2_hd_inflater \<Rightarrow> bytes \<Rightarrow> inflate_result option" where
  "inflate_read_valuelen i ins = do {
     (i1, rv, rfin) \<leftarrow> hd_inflate_read_len i ins 7 NGHTTP2_HD_MAX_NV;
     if rv < 0 then Some (Fail i1 rv)
     else if \<not> rfin then Some (Almost i1 (drop (nat rv) ins))
     else
       (let i2 = (if huffman_encoded i1
                  then i1\<lparr>huff_decode_ctx := nghttp2_hd_huff_decode_context_init, i_state := NGHTTP2_HD_STATE_READ_VALUEHUFF\<rparr>
                  else i1\<lparr>i_state := NGHTTP2_HD_STATE_READ_VALUE\<rparr>);
            n = (if huffman_encoded i1 then i_left i1 * 2 + 1 else i_left i1 + 1) in
        case rcbuf_alloc i2 n of
          (ok, i3, base) \<Rightarrow>
            if \<not> ok then Some (Fail i3 NGHTTP2_ERR_NOMEM)
            else Some (Go (i3\<lparr>valuercbuf := Some n, valuebuf := nghttp2_buf_wrap_init base\<rparr>) (drop (nat rv) ins) True))
   }"

definition inflate_check_valuelen :: "nghttp2_hd_inflater \<Rightarrow> bytes \<Rightarrow> inflate_result option" where
  "inflate_check_valuelen i ins = do {
     i1 \<leftarrow> hd_inflate_set_huffman_encoded i ins;
     inflate_read_valuelen (i1\<lparr>i_state := NGHTTP2_HD_STATE_READ_VALUELEN, i_left := 0, i_shift := 0\<rparr>) ins
   }"

definition finish_value :: "(nghttp2_hd_inflater \<times> nghttp2_buf \<times> int) option \<Rightarrow> bytes \<Rightarrow> inflate_result option" where
  "finish_value got ins = do {
     (i1, buf, rv) \<leftarrow> got;
     if rv < 0 then Some (Fail (i1\<lparr>valuebuf := buf\<rparr>) rv)
     else if i_left i1 \<noteq> 0 then Some (Almost (i1\<lparr>valuebuf := buf\<rparr>) (drop (nat rv) ins))
     else do {
       buf1 \<leftarrow> put_nul buf;
       let i2 = i1\<lparr>valuebuf := buf1, valuercbuf := Some (nghttp2_buf_len buf1)\<rparr>;
       (i3, nv, rv1) \<leftarrow> (if i_opcode i2 = NGHTTP2_HD_OPCODE_NEWNAME then hd_inflate_commit_newname i2 else hd_inflate_commit_indname i2);
       if rv1 \<noteq> 0 then Some (Fail i3 rv1)
       else Some (Emit (i3\<lparr>i_state := NGHTTP2_HD_STATE_OPCODE\<rparr>) (drop (nat rv) ins) nv)
     }
   }"

definition inflate_read_valuehuff :: "nghttp2_hd_inflater \<Rightarrow> bytes \<Rightarrow> inflate_result option" where
  "inflate_read_valuehuff i ins = finish_value (hd_inflate_read_huff i (valuebuf i) ins) ins"

definition inflate_read_value :: "nghttp2_hd_inflater \<Rightarrow> bytes \<Rightarrow> inflate_result option" where
  "inflate_read_value i ins = finish_value (hd_inflate_read i (valuebuf i) ins) ins"

section \<open>The loop\<close>

definition inflate_step :: "nghttp2_hd_inflater \<Rightarrow> bytes \<Rightarrow> inflate_result option" where
  "inflate_step i ins =
     (case i_state i of
        NGHTTP2_HD_STATE_EXPECT_TABLE_SIZE \<Rightarrow> inflate_expect_table_size i ins
      | NGHTTP2_HD_STATE_INFLATE_START \<Rightarrow> inflate_opcode i ins
      | NGHTTP2_HD_STATE_OPCODE \<Rightarrow> inflate_opcode i ins
      | NGHTTP2_HD_STATE_READ_TABLE_SIZE \<Rightarrow> inflate_read_table_size i ins
      | NGHTTP2_HD_STATE_READ_INDEX \<Rightarrow> inflate_read_index i ins
      | NGHTTP2_HD_STATE_NEWNAME_CHECK_NAMELEN \<Rightarrow> inflate_check_namelen i ins
      | NGHTTP2_HD_STATE_NEWNAME_READ_NAMELEN \<Rightarrow> inflate_read_namelen i ins
      | NGHTTP2_HD_STATE_NEWNAME_READ_NAMEHUFF \<Rightarrow> inflate_read_namehuff i ins
      | NGHTTP2_HD_STATE_NEWNAME_READ_NAME \<Rightarrow> inflate_read_name i ins
      | NGHTTP2_HD_STATE_CHECK_VALUELEN \<Rightarrow> inflate_check_valuelen i ins
      | NGHTTP2_HD_STATE_READ_VALUELEN \<Rightarrow> inflate_read_valuelen i ins
      | NGHTTP2_HD_STATE_READ_VALUEHUFF \<Rightarrow> inflate_read_valuehuff i ins
      | NGHTTP2_HD_STATE_READ_VALUE \<Rightarrow> inflate_read_value i ins)"

partial_function (option) inflate_loop :: "nghttp2_hd_inflater \<Rightarrow> bytes \<Rightarrow> bool \<Rightarrow> inflate_result option" where
  "inflate_loop i ins busy =
     (if ins = [] \<and> \<not> busy then Some (Go i ins busy)
      else do {
        r \<leftarrow> inflate_step i ins;
        case r of Go i1 ins1 busy1 \<Rightarrow> inflate_loop i1 ins1 busy1 | _ \<Rightarrow> Some r
      })"

declare inflate_loop.simps [code]

definition i_bad :: "nghttp2_hd_inflater \<Rightarrow> nghttp2_hd_inflater" where
  "i_bad i = i\<lparr>i_ctx := (i_ctx i)\<lparr>ctx_bad := True\<rparr>\<rparr>"

text \<open>The results are the decoder, the flags, the field if there is one, and the bytes read or an error.\<close>

definition nghttp2_hd_inflate_hd_nv ::
  "nghttp2_hd_inflater \<Rightarrow> bytes \<Rightarrow> bool \<Rightarrow> (nghttp2_hd_inflater \<times> u8 \<times> nghttp2_hd_nv option \<times> int) option" where
  "nghttp2_hd_inflate_hd_nv i ins in_final =
     (if ctx_bad (i_ctx i) then Some (i, NGHTTP2_HD_INFLATE_NONE, None, NGHTTP2_ERR_HEADER_COMP)
      else do {
        r \<leftarrow> inflate_loop (hd_inflate_keep_free i) ins False;
        case r of
          Go i1 ins1 busy \<Rightarrow>
            if \<not> in_final then Some (i1, NGHTTP2_HD_INFLATE_NONE, None, int (length ins))
            else if i_state i1 \<noteq> NGHTTP2_HD_STATE_OPCODE \<and> i_state i1 \<noteq> NGHTTP2_HD_STATE_INFLATE_START
            then Some (i_bad i1, NGHTTP2_HD_INFLATE_NONE, None, NGHTTP2_ERR_HEADER_COMP)
            else Some (i1, NGHTTP2_HD_INFLATE_FINAL, None, int (length ins))
        | Almost i1 ins1 \<Rightarrow>
            if in_final then Some (i_bad i1, NGHTTP2_HD_INFLATE_NONE, None, NGHTTP2_ERR_HEADER_COMP)
            else Some (i1, NGHTTP2_HD_INFLATE_NONE, None, int (length ins - length ins1))
        | Fail i1 rv \<Rightarrow> Some (i_bad i1, NGHTTP2_HD_INFLATE_NONE, None, rv)
        | Emit i1 ins1 nv \<Rightarrow> Some (i1, NGHTTP2_HD_INFLATE_EMIT, Some nv, int (length ins - length ins1))
      })"

definition nghttp2_hd_inflate_hd3 ::
  "nghttp2_hd_inflater \<Rightarrow> bytes \<Rightarrow> bool \<Rightarrow> (nghttp2_hd_inflater \<times> u8 \<times> nghttp2_nv option \<times> int) option" where
  "nghttp2_hd_inflate_hd3 i ins in_final = do {
     (i1, flags, nv, rv) \<leftarrow> nghttp2_hd_inflate_hd_nv i ins in_final;
     if rv < 0 then Some (i1, flags, None, rv)
     else if flags AND NGHTTP2_HD_INFLATE_EMIT \<noteq> 0
     then map_option (\<lambda>x. (i1, flags, Some \<lparr>h_name = nv_name x, h_value = nv_value x, h_flags = nv_flags x\<rparr>, rv)) nv
     else Some (i1, flags, None, rv)
   }"

definition nghttp2_hd_inflate_end_headers :: "nghttp2_hd_inflater \<Rightarrow> nghttp2_hd_inflater \<times> int" where
  "nghttp2_hd_inflate_end_headers i = ((hd_inflate_keep_free i)\<lparr>i_state := NGHTTP2_HD_STATE_INFLATE_START\<rparr>, 0)"

definition nghttp2_hd_inflate_get_num_table_entries :: "nghttp2_hd_inflater \<Rightarrow> nat" where
  "nghttp2_hd_inflate_get_num_table_entries i = get_max_index (i_ctx i)"

definition nghttp2_hd_inflate_get_table_entry :: "nghttp2_hd_inflater \<Rightarrow> nat \<Rightarrow> nghttp2_hd_nv option option" where
  "nghttp2_hd_inflate_get_table_entry i idx = hd_get_table_entry (i_ctx i) idx"

definition nghttp2_hd_inflate_get_dynamic_table_size :: "nghttp2_hd_inflater \<Rightarrow> nat" where
  "nghttp2_hd_inflate_get_dynamic_table_size i = hd_table_bufsize (i_ctx i)"

definition nghttp2_hd_inflate_get_max_dynamic_table_size :: "nghttp2_hd_inflater \<Rightarrow> nat" where
  "nghttp2_hd_inflate_get_max_dynamic_table_size i = hd_table_bufsize_max (i_ctx i)"

end
