(* ===== verification/Ng_Hd_Roundtrip.thy ===== *)
theory Ng_Hd_Roundtrip
  imports Ng_Hd_Inflate
begin

unbundle bit_operations_syntax

text \<open>
  The decoder on what the encoder writes: each representation gives the field it stands for and the
  table the encoder has, so that the two stay in step over any sequence of blocks and changes of size.
\<close>

section \<open>First bytes\<close>

lemma int_first:
  assumes "flags_of first pre"
  shows "\<exists>low tl. int_bytes first pre n = (first OR low) # tl \<and> low AND mask pre = low \<and> (0 < n \<longrightarrow> low \<noteq> 0)"
proof -
  have pre: "1 \<le> pre" "pre \<le> 8" using assms by (simp_all add: flags_of_def)
  have pow: "(2 :: nat) ^ 1 \<le> 2 ^ pre" "(2 :: nat) ^ pre \<le> 2 ^ 8" using pre by (intro power_increasing; simp)+
  define k where "k = (2 :: nat) ^ pre - 1"
  have small: "(word_of_nat m :: u8) AND mask pre = word_of_nat m \<and> (0 < m \<longrightarrow> (word_of_nat m :: u8) \<noteq> 0)" if "m \<le> k" for m
  proof
    have "m < 2 ^ pre" "m < 2 ^ LENGTH(8)" using that pow unfolding k_def by auto
    then show "(word_of_nat m :: u8) AND mask pre = word_of_nat m"
      by (simp add: take_bit_of_nat take_bit_nat_eq_self flip: take_bit_eq_mask)
    show "0 < m \<longrightarrow> (word_of_nat m :: u8) \<noteq> 0"
      using word_of_nat_unat_le [OF \<open>m < 2 ^ LENGTH(8)\<close>] by auto
  qed
  have "0 < k" using pow(1) unfolding k_def by simp
  then show ?thesis
    unfolding int_bytes_def Let_def k_def [symmetric] using small [of n] small [of k] by auto
qed

lemma or_and_apart: "low AND mask pre = low \<Longrightarrow> mask pre AND m = 0 \<Longrightarrow> (first OR low) AND m = first AND (m :: u8)"
proof -
  assume low: "low AND mask pre = low" "mask pre AND m = 0"
  have "low AND m = low AND (mask pre AND m)" using low(1) by (metis and.assoc)
  then have "low AND m = 0" using low(2) by simp
  then show ?thesis by (simp add: bit.conj_disj_distrib2)
qed

lemma byte_indexed:
  assumes "low AND mask 7 = low"
  shows "(0x80 OR low) AND 0xe0 \<noteq> (0x20 :: u8)" "(0x80 OR low) AND 0x80 \<noteq> (0 :: u8)"
proof -
  have b: "(0x80 OR low) AND 0x80 = (0x80 :: u8)" using or_and_apart [OF assms, of "0x80" "0x80"] by (simp add: mask_numeral)
  then show "(0x80 OR low) AND 0x80 \<noteq> (0 :: u8)" by simp
  have "((0x80 OR low) AND 0xe0) AND 0x80 = ((0x80 OR low) AND 0x80 :: u8)" by (simp add: and.assoc)
  then show "(0x80 OR low) AND 0xe0 \<noteq> (0x20 :: u8)" using b by auto
qed

lemma byte_literal_indexing:
  assumes "low AND mask 6 = low"
  shows "(0x40 OR low) AND 0xe0 \<noteq> (0x20 :: u8)" "(0x40 OR low) AND 0x80 = (0 :: u8)" "(0x40 OR low) AND 0x40 \<noteq> (0 :: u8)"
    "(0x40 OR low) AND 0xf0 \<noteq> (0x10 :: u8)" "low \<noteq> 0 \<Longrightarrow> 0x40 OR low \<noteq> 0x40 \<and> 0x40 OR low \<noteq> 0 \<and> 0x40 OR low \<noteq> 0x10"
proof -
  let ?b = "0x40 OR low"
  have b: "?b AND 0x40 = 0x40" "?b AND 0x80 = 0"
    using or_and_apart [OF assms, of "0x40" "0x40"] or_and_apart [OF assms, of "0x80" "0x40"] by (simp_all add: mask_numeral)
  then show "?b AND 0x40 \<noteq> 0" "?b AND 0x80 = 0" by simp_all
  have "(?b AND 0xe0) AND 0x40 = ?b AND 0x40" "(?b AND 0xf0) AND 0x40 = ?b AND 0x40" by (simp_all add: and.assoc)
  then show "?b AND 0xe0 \<noteq> 0x20" "?b AND 0xf0 \<noteq> 0x10" using b by auto
  have "?b AND mask 6 = low"
    using assms by (simp add: bit.conj_disj_distrib2 mask_numeral)
  then show "low \<noteq> 0 \<Longrightarrow> ?b \<noteq> 0x40 \<and> ?b \<noteq> 0 \<and> ?b \<noteq> 0x10" using b by (auto simp: mask_numeral)
qed

lemma byte_literal_plain:
  assumes "low AND mask 4 = low" "first = 0 \<or> first = 0x10"
  shows "(first OR low) AND 0xe0 \<noteq> (0x20 :: u8)" "(first OR low) AND 0x80 = (0 :: u8)" "(first OR low) AND 0x40 = (0 :: u8)"
    "(first OR low) AND 0xf0 = first" "low \<noteq> 0 \<Longrightarrow> first OR low \<noteq> 0x40 \<and> first OR low \<noteq> 0 \<and> first OR low \<noteq> 0x10"
proof -
  let ?b = "first OR low"
  have b: "?b AND 0xe0 = first AND 0xe0" "?b AND 0x80 = first AND 0x80" "?b AND 0x40 = first AND 0x40" "?b AND 0xf0 = first AND 0xf0"
    using or_and_apart [OF assms(1)] by (simp_all add: mask_numeral)
  then show "?b AND 0xe0 \<noteq> 0x20" "?b AND 0x80 = 0" "?b AND 0x40 = 0" "?b AND 0xf0 = first" using assms(2) by auto
  have "first AND mask 4 = 0" using assms(2) by (auto simp: mask_numeral)
  then have low: "?b AND mask 4 = low" using assms(1) by (simp add: bit.conj_disj_distrib2)
  show "low \<noteq> 0 \<Longrightarrow> ?b \<noteq> 0x40 \<and> ?b \<noteq> 0 \<and> ?b \<noteq> 0x10"
    using b(3) low assms(2) by (auto simp: mask_numeral)
qed

lemma byte_size:
  assumes "low AND mask 5 = low"
  shows "(0x20 OR low) AND 0xe0 = (0x20 :: u8)"
  using or_and_apart [OF assms, of "0xe0" "0x20"] by (simp add: mask_numeral)

lemma byte_string:
  assumes "low AND mask 7 = low"
  shows "((if h then 0x80 else 0) OR low) AND 0x80 \<noteq> (0 :: u8) \<longleftrightarrow> h"
  using or_and_apart [OF assms, of "0x80" "if h then 0x80 else 0"] by (simp add: mask_numeral)

section \<open>Reading lengths and strings\<close>

lemma read_len_any:
  assumes "flags_of first pre" "n < 2 ^ 32" "n \<le> maxlen" "i_left i = 0" "i_shift i = 0"
  shows "\<exists>sh. \<forall>rest. hd_inflate_read_len i (int_bytes first pre n @ rest) pre maxlen =
    Some (i\<lparr>i_shift := sh, i_left := n\<rparr>, int (length (int_bytes first pre n)), True)"
proof -
  obtain sh where "\<forall>rest. decode_length 0 0 (int_bytes first pre n @ rest) pre =
      Some (word_of_nat n, sh, True, int (length (int_bytes first pre n)))"
    using decode_int_bytes_any [OF assms(1,2)] by blast
  moreover have "unat (word_of_nat n :: u32) = n" using assms(2) word_of_nat_unat_le [of n, where ?'a = 32] by simp
  ultimately show ?thesis using assms(3-5) by (intro exI [of _ sh]) (simp add: hd_inflate_read_len_def Let_def)
qed

lemma read_len_ok:
  assumes "flags_of first pre" "n < 2 ^ 32" "n \<le> maxlen" "i_left i = 0" "i_shift i = 0"
  shows "\<exists>sh. hd_inflate_read_len i (int_bytes first pre n @ rest) pre maxlen =
    Some (i\<lparr>i_shift := sh, i_left := n\<rparr>, int (length (int_bytes first pre n)), True)"
  using read_len_any [OF assms] by blast

definition all_succeed :: "nghttp2_mem \<Rightarrow> bool" where
  "all_succeed m \<longleftrightarrow> list_all id (mem_answers m)"

lemma malloc_succeeds: "all_succeed m \<Longrightarrow> \<exists>m'. hd_malloc m = (True, m') \<and> all_succeed m'"
  by (cases "mem_answers m") (auto simp: all_succeed_def hd_malloc_def mem_alloc_def)

lemma all_succeed_suffix: "all_succeed m \<Longrightarrow> \<exists>u. mem_answers m = u @ mem_answers m' \<Longrightarrow> all_succeed m'"
  by (auto simp: all_succeed_def)

lemma wrap_ok: "buf_ok (nghttp2_buf_wrap_init d) \<and> present (nghttp2_buf_wrap_init d) = [] \<and>
    nghttp2_buf_avail (nghttp2_buf_wrap_init d) = length d \<and> buf_pos (nghttp2_buf_wrap_init d) = 0"
  by (simp add: buf_ok_def present_def nghttp2_buf_wrap_init_def nghttp2_buf_avail_def nghttp2_buf_cap_def)

definition string_in :: "nghttp2_buf \<Rightarrow> bytes \<Rightarrow> bool" where
  "string_in buf s \<longleftrightarrow> buf_ok buf \<and> buf_pos buf = 0 \<and> present buf = s"

lemma put_pos: "buf_put d b = Some b' \<Longrightarrow> buf_pos b' = buf_pos b"
  by (auto simp: buf_put_def)

lemma decode_step_pos: "decode_step fs buf k = Some (fs', buf') \<Longrightarrow> buf_pos buf' = buf_pos buf"
  by (auto simp: decode_step_def bind_eq_Some_conv put_pos split: if_splits)

lemma decode_loop_pos: "decode_loop fs buf es = Some (fs', buf') \<Longrightarrow> buf_pos buf' = buf_pos buf"
proof (induction es arbitrary: fs buf)
  case (Cons c es)
  then show ?case by (auto simp: bind_eq_Some_conv dest!: decode_step_pos)
qed simp

lemma decode_pos: "nghttp2_hd_huff_decode fs buf es fin = Some (fs', buf', rv) \<Longrightarrow> buf_pos buf' = buf_pos buf"
  by (auto simp: nghttp2_hd_huff_decode_def bind_eq_Some_conv dest!: decode_loop_pos)

lemma read_plain_ok:
  assumes "i_left i = length s" "length d = length s + 1"
  shows "\<exists>buf. hd_inflate_read i (nghttp2_buf_wrap_init d) (s @ rest) = Some (i\<lparr>i_left := 0\<rparr>, buf, int (length s)) \<and>
    string_in buf s \<and> 1 \<le> nghttp2_buf_avail buf"
proof -
  obtain b where "buf_put s (nghttp2_buf_wrap_init d) = Some b" "buf_ok b" "present b = s"
    "nghttp2_buf_avail b = length d - length s"
    using present_put [of "nghttp2_buf_wrap_init d" s] wrap_ok [of d] assms(2) by auto
  then show ?thesis
    using assms put_pos [of s "nghttp2_buf_wrap_init d" b] wrap_ok [of d]
    by (simp add: hd_inflate_read_def Let_def string_in_def)
qed

lemma read_huff_ok:
  assumes "i_left i = length (huff_encoding s)" "length d = length (huff_encoding s) * 2 + 1"
    "huff_decode_ctx i = nghttp2_hd_huff_decode_context_init"
  shows "\<exists>buf fs. hd_inflate_read_huff i (nghttp2_buf_wrap_init d) (huff_encoding s @ rest) =
      Some (i\<lparr>huff_decode_ctx := fs, i_left := 0\<rparr>, buf, int (length (huff_encoding s))) \<and>
    string_in buf s \<and> 1 \<le> nghttp2_buf_avail buf"
proof -
  obtain fs b where b: "nghttp2_hd_huff_decode nghttp2_hd_huff_decode_context_init (nghttp2_buf_wrap_init d) (huff_encoding s) True =
      Some (fs, b, int (length (huff_encoding s)))"
    "buf_ok b" "present b = s" "\<not> nghttp2_hd_huff_decode_failure_state fs"
    "nghttp2_buf_avail (nghttp2_buf_wrap_init d) \<le> nghttp2_buf_avail b + 2 * length (huff_encoding s)"
    using decode_encoding [of "nghttp2_buf_wrap_init d" s] wrap_ok [of d] assms(2) by auto
  then show ?thesis
    using assms decode_pos [OF b(1)] wrap_ok [of d]
    by (auto simp: hd_inflate_read_huff_def Let_def string_in_def)
qed

lemma put_nul_ok:
  assumes "string_in buf s" "1 \<le> nghttp2_buf_avail buf"
  shows "\<exists>buf'. put_nul buf = Some buf' \<and> rcbuf_string (Some (nghttp2_buf_len buf')) buf' = Some s"
  using assms
  by (auto simp: put_nul_def string_in_def nghttp2_buf_avail_def nghttp2_buf_cap_def nghttp2_buf_len_def rcbuf_string_def
      rd_block_def present_def buf_ok_def)

section \<open>A field in the middle\<close>

lemma loop_go: "inflate_step i ins = Some (Go i1 ins1 busy1) \<Longrightarrow> ins \<noteq> [] \<or> busy \<Longrightarrow> inflate_loop i ins busy = inflate_loop i1 ins1 busy1"
  by (subst inflate_loop.simps) auto

lemma loop_stop:
  "inflate_step i ins = r \<Longrightarrow> (\<forall>a b c. r \<noteq> Some (Go a b c)) \<Longrightarrow> ins \<noteq> [] \<or> busy \<Longrightarrow> inflate_loop i ins busy = r"
  by (subst inflate_loop.simps, cases r) (auto split: inflate_result.splits)

text \<open>What reading a string does not touch; the allocator keeps succeeding.\<close>

definition same_work :: "nghttp2_hd_inflater \<Rightarrow> nghttp2_hd_inflater \<Rightarrow> bool" where
  "same_work i i' \<longleftrightarrow> (\<exists>m. i_ctx i' = (i_ctx i)\<lparr>ctx_mem := m\<rparr> \<and> all_succeed m) \<and>
     i_opcode i' = i_opcode i \<and> i_index i' = i_index i \<and> index_required i' = index_required i \<and> no_index i' = no_index i \<and>
     settings_hd_table_bufsize_max i' = settings_hd_table_bufsize_max i \<and> i_min_hd_table_bufsize_max i' = i_min_hd_table_bufsize_max i"

definition str_data :: "bytes \<Rightarrow> bytes" where
  "str_data s = (if length (huff_encoding s) < length s then huff_encoding s else s)"

definition str_first :: "bytes \<Rightarrow> u8" where
  "str_first s = (if length (huff_encoding s) < length s then 0x80 else 0)"

lemma str_bytes_parts: "str_bytes s = int_bytes (str_first s) 7 (length (str_data s)) @ str_data s"
  by (simp add: str_bytes_def str_data_def str_first_def)

lemma str_flags: "flags_of (str_first s) 7"
  by (simp add: str_first_def flags_ok)

lemma str_data_length: "length (str_data s) \<le> length s"
  by (simp add: str_data_def)

lemma str_bytes_ne [simp]: "str_bytes s \<noteq> []"
  by (simp add: str_bytes_parts)

lemma string_encoded:
  "hd_inflate_set_huffman_encoded i (str_bytes s @ rest) = Some (i\<lparr>huffman_encoded := length (huff_encoding s) < length s\<rparr>)"
proof -
  obtain low tl where f: "int_bytes (str_first s) 7 (length (str_data s)) = (str_first s OR low) # tl" "low AND mask 7 = low"
    using int_first [OF str_flags [of s]] by blast
  have "rd (str_bytes s @ rest) 0 = Some (str_first s OR low)" by (simp add: str_bytes_parts f(1))
  moreover have "(str_first s OR low) AND 0x80 \<noteq> 0 \<longleftrightarrow> length (huff_encoding s) < length s"
    using byte_string [OF f(2), of "length (huff_encoding s) < length s"] by (simp only: str_first_def)
  ultimately show ?thesis by (simp add: hd_inflate_set_huffman_encoded_def)
qed

text \<open>
  The length of a string and the string itself, for a name and for a value: after the length the
  buffer is a fresh block of the right size, after the string it holds the string.
\<close>

lemma read_string:
  assumes "i_left i = length (str_data s)" "huffman_encoded i = (length (huff_encoding s) < length s)"
    "length d = (if huffman_encoded i then i_left i * 2 + 1 else i_left i + 1)"
    "huffman_encoded i \<longrightarrow> huff_decode_ctx i = nghttp2_hd_huff_decode_context_init"
  shows "\<exists>buf fs. (if huffman_encoded i then hd_inflate_read_huff i (nghttp2_buf_wrap_init d) (str_data s @ rest)
      else hd_inflate_read i (nghttp2_buf_wrap_init d) (str_data s @ rest)) =
      Some (i\<lparr>huff_decode_ctx := fs, i_left := 0\<rparr>, buf, int (length (str_data s))) \<and>
    (\<exists>buf'. put_nul buf = Some buf' \<and> rcbuf_string (Some (nghttp2_buf_len buf')) buf' = Some s)"
proof (cases "length (huff_encoding s) < length s")
  case True
  then show ?thesis
    using read_huff_ok [of i s d rest] put_nul_ok assms by (fastforce simp: str_data_def)
next
  case False
  have same: "i\<lparr>huff_decode_ctx := huff_decode_ctx i\<rparr> = i" by simp
  obtain buf where "hd_inflate_read i (nghttp2_buf_wrap_init d) (s @ rest) = Some (i\<lparr>i_left := 0\<rparr>, buf, int (length s))"
    "string_in buf s" "1 \<le> nghttp2_buf_avail buf"
    using read_plain_ok [of i s d rest] assms False by (auto simp: str_data_def)
  then show ?thesis
    using put_nul_ok [of buf s] assms False
    by (intro exI [of _ buf] exI [of _ "huff_decode_ctx i"]) (simp add: str_data_def)
qed

lemma name_ok:
  assumes st: "i_state i = NGHTTP2_HD_STATE_NEWNAME_CHECK_NAMELEN" and len: "length s \<le> 65536"
    and mem: "all_succeed (ctx_mem (i_ctx i))" and rest: "rest \<noteq> []"
  shows "\<exists>i2. same_work i i2 \<and> i_state i2 = NGHTTP2_HD_STATE_CHECK_VALUELEN \<and>
    rcbuf_string (namercbuf i2) (namebuf i2) = Some s \<and>
    inflate_loop i (str_bytes s @ rest) False = inflate_loop i2 rest False"
proof -
  let ?huff = "length (huff_encoding s) < length s" and ?n = "length (str_data s)"
  let ?i0 = "i\<lparr>huffman_encoded := ?huff, i_state := NGHTTP2_HD_STATE_NEWNAME_READ_NAMELEN, i_left := 0, i_shift := 0\<rparr>"
  have n: "?n \<le> NGHTTP2_HD_MAX_NV" "?n < 2 ^ 32" using str_data_length [of s] len by auto
  obtain sh where l: "hd_inflate_read_len ?i0 (int_bytes (str_first s) 7 ?n @ str_data s @ rest) 7 NGHTTP2_HD_MAX_NV =
      Some (?i0\<lparr>i_shift := sh, i_left := ?n\<rparr>, int (length (int_bytes (str_first s) 7 ?n)), True)"
    using read_len_ok [OF str_flags n(2,1), of ?i0] by auto
  obtain m where m: "hd_malloc (ctx_mem (i_ctx i)) = (True, m)" "all_succeed m" using malloc_succeeds [OF mem] by blast
  define size where "size = (if ?huff then ?n * 2 + 1 else ?n + 1)"
  define d where "d = map (mem_fill m) [0..<size]"
  define i1 where "i1 = ?i0\<lparr>i_shift := sh, i_left := ?n, huff_decode_ctx := (if ?huff then nghttp2_hd_huff_decode_context_init else huff_decode_ctx i),
      i_state := (if ?huff then NGHTTP2_HD_STATE_NEWNAME_READ_NAMEHUFF else NGHTTP2_HD_STATE_NEWNAME_READ_NAME),
      i_ctx := (i_ctx i)\<lparr>ctx_mem := m\<rparr>, namercbuf := Some size, namebuf := nghttp2_buf_wrap_init d\<rparr>"
  have step1: "inflate_step i (str_bytes s @ rest) = Some (Go i1 (str_data s @ rest) False)"
    using l m(1) string_encoded [of i s rest] st
    by (simp add: inflate_step_def inflate_check_namelen_def inflate_read_namelen_def str_bytes_parts rcbuf_alloc_def
        i1_def size_def d_def Let_def)
  have f: "i_left i1 = ?n" "huffman_encoded i1 = ?huff" "length d = (if huffman_encoded i1 then i_left i1 * 2 + 1 else i_left i1 + 1)"
    "huffman_encoded i1 \<longrightarrow> huff_decode_ctx i1 = nghttp2_hd_huff_decode_context_init"
    by (simp_all add: i1_def d_def size_def)
  obtain buf fs buf' where r: "(if ?huff then hd_inflate_read_huff i1 (nghttp2_buf_wrap_init d) (str_data s @ rest)
      else hd_inflate_read i1 (nghttp2_buf_wrap_init d) (str_data s @ rest)) =
      Some (i1\<lparr>huff_decode_ctx := fs, i_left := 0\<rparr>, buf, int ?n)"
    "put_nul buf = Some buf'" "rcbuf_string (Some (nghttp2_buf_len buf')) buf' = Some s"
    using read_string [OF f, of rest] unfolding f(2) by blast
  define i2 where "i2 = i1\<lparr>huff_decode_ctx := fs, i_left := 0, namebuf := buf', namercbuf := Some (nghttp2_buf_len buf'),
      i_state := NGHTTP2_HD_STATE_CHECK_VALUELEN\<rparr>"
  have buf: "namebuf i1 = nghttp2_buf_wrap_init d" by (simp add: i1_def)
  have step2: "inflate_step i1 (str_data s @ rest) = Some (Go i2 rest False)"
  proof (cases ?huff)
    case True
    then have "i_state i1 = NGHTTP2_HD_STATE_NEWNAME_READ_NAMEHUFF" by (simp add: i1_def)
    then show ?thesis using True r by (simp add: inflate_step_def inflate_read_namehuff_def finish_name_def i2_def buf)
  next
    case False
    then have "i_state i1 = NGHTTP2_HD_STATE_NEWNAME_READ_NAME" by (simp add: i1_def)
    then show ?thesis using False r by (simp add: inflate_step_def inflate_read_name_def finish_name_def i2_def buf)
  qed
  have "inflate_loop i (str_bytes s @ rest) False = inflate_loop i2 rest False"
    using loop_go [OF step1] loop_go [OF step2] rest by simp
  moreover have "same_work i i2" using m(2) by (auto simp: same_work_def i2_def i1_def)
  ultimately show ?thesis using r(3) by (intro exI [of _ i2]) (simp add: i2_def)
qed

definition commit :: "nghttp2_hd_inflater \<Rightarrow> (nghttp2_hd_inflater \<times> nghttp2_hd_nv \<times> int) option" where
  "commit i = (if i_opcode i = NGHTTP2_HD_OPCODE_NEWNAME then hd_inflate_commit_newname i else hd_inflate_commit_indname i)"

lemma value_ok:
  assumes st: "i_state i = NGHTTP2_HD_STATE_CHECK_VALUELEN" and len: "length s \<le> 65536"
    and mem: "all_succeed (ctx_mem (i_ctx i))"
  shows "\<exists>i2. same_work i i2 \<and> namebuf i2 = namebuf i \<and> namercbuf i2 = namercbuf i \<and>
    rcbuf_string (valuercbuf i2) (valuebuf i2) = Some s \<and>
    (\<forall>i3 nv. commit i2 = Some (i3, nv, 0) \<longrightarrow>
       inflate_loop i (str_bytes s @ rest) False = Some (Emit (i3\<lparr>i_state := NGHTTP2_HD_STATE_OPCODE\<rparr>) rest nv))"
proof -
  let ?huff = "length (huff_encoding s) < length s" and ?n = "length (str_data s)"
  let ?i0 = "i\<lparr>huffman_encoded := ?huff, i_state := NGHTTP2_HD_STATE_READ_VALUELEN, i_left := 0, i_shift := 0\<rparr>"
  have n: "?n \<le> NGHTTP2_HD_MAX_NV" "?n < 2 ^ 32" using str_data_length [of s] len by auto
  obtain sh where l: "hd_inflate_read_len ?i0 (int_bytes (str_first s) 7 ?n @ str_data s @ rest) 7 NGHTTP2_HD_MAX_NV =
      Some (?i0\<lparr>i_shift := sh, i_left := ?n\<rparr>, int (length (int_bytes (str_first s) 7 ?n)), True)"
    using read_len_ok [OF str_flags n(2,1), of ?i0] by auto
  obtain m where m: "hd_malloc (ctx_mem (i_ctx i)) = (True, m)" "all_succeed m" using malloc_succeeds [OF mem] by blast
  define size where "size = (if ?huff then ?n * 2 + 1 else ?n + 1)"
  define d where "d = map (mem_fill m) [0..<size]"
  define i1 where "i1 = ?i0\<lparr>i_shift := sh, i_left := ?n, huff_decode_ctx := (if ?huff then nghttp2_hd_huff_decode_context_init else huff_decode_ctx i),
      i_state := (if ?huff then NGHTTP2_HD_STATE_READ_VALUEHUFF else NGHTTP2_HD_STATE_READ_VALUE),
      i_ctx := (i_ctx i)\<lparr>ctx_mem := m\<rparr>, valuercbuf := Some size, valuebuf := nghttp2_buf_wrap_init d\<rparr>"
  have step1: "inflate_step i (str_bytes s @ rest) = Some (Go i1 (str_data s @ rest) True)"
    using l m(1) string_encoded [of i s rest] st
    by (simp add: inflate_step_def inflate_check_valuelen_def inflate_read_valuelen_def str_bytes_parts rcbuf_alloc_def
        i1_def size_def d_def Let_def)
  have f: "i_left i1 = ?n" "huffman_encoded i1 = ?huff" "length d = (if huffman_encoded i1 then i_left i1 * 2 + 1 else i_left i1 + 1)"
    "huffman_encoded i1 \<longrightarrow> huff_decode_ctx i1 = nghttp2_hd_huff_decode_context_init"
    by (simp_all add: i1_def d_def size_def)
  obtain buf fs buf' where r: "(if ?huff then hd_inflate_read_huff i1 (nghttp2_buf_wrap_init d) (str_data s @ rest)
      else hd_inflate_read i1 (nghttp2_buf_wrap_init d) (str_data s @ rest)) =
      Some (i1\<lparr>huff_decode_ctx := fs, i_left := 0\<rparr>, buf, int ?n)"
    "put_nul buf = Some buf'" "rcbuf_string (Some (nghttp2_buf_len buf')) buf' = Some s"
    using read_string [OF f, of rest] unfolding f(2) by blast
  define i2 where "i2 = i1\<lparr>huff_decode_ctx := fs, i_left := 0, valuebuf := buf', valuercbuf := Some (nghttp2_buf_len buf')\<rparr>"
  have buf: "valuebuf i1 = nghttp2_buf_wrap_init d" by (simp add: i1_def)
  have "inflate_loop i (str_bytes s @ rest) False = Some (Emit (i3\<lparr>i_state := NGHTTP2_HD_STATE_OPCODE\<rparr>) rest nv)"
    if c: "commit i2 = Some (i3, nv, 0)" for i3 nv
  proof -
    have step2: "inflate_step i1 (str_data s @ rest) = Some (Emit (i3\<lparr>i_state := NGHTTP2_HD_STATE_OPCODE\<rparr>) rest nv)"
    proof (cases ?huff)
      case True
      then have "i_state i1 = NGHTTP2_HD_STATE_READ_VALUEHUFF" by (simp add: i1_def)
      then show ?thesis using True r c
        by (simp add: inflate_step_def inflate_read_valuehuff_def finish_value_def i2_def commit_def buf Let_def split: if_splits)
    next
      case False
      then have "i_state i1 = NGHTTP2_HD_STATE_READ_VALUE" by (simp add: i1_def)
      then show ?thesis using False r c
        by (simp add: inflate_step_def inflate_read_value_def finish_value_def i2_def commit_def buf Let_def split: if_splits)
    qed
    show ?thesis using loop_go [OF step1] loop_stop [OF step2] by simp
  qed
  moreover have "same_work i i2" using m(2) by (auto simp: same_work_def i2_def i1_def)
  ultimately show ?thesis using r(3) by (intro exI [of _ i2]) (simp add: i2_def i1_def)
qed

section \<open>One representation\<close>

definition ready :: "nghttp2_hd_inflater \<Rightarrow> nghttp2_hd_entry list \<Rightarrow> bool" where
  "ready i es \<longleftrightarrow> ctx_ok (i_ctx i) es \<and> \<not> ctx_bad (i_ctx i) \<and> all_succeed (ctx_mem (i_ctx i)) \<and>
     (\<forall>e \<in> set es. nv_flags (ent_nv e) = 0)"

definition same_sizes :: "nghttp2_hd_inflater \<Rightarrow> nghttp2_hd_inflater \<Rightarrow> bool" where
  "same_sizes i i' \<longleftrightarrow> settings_hd_table_bufsize_max i' = settings_hd_table_bufsize_max i \<and>
     i_min_hd_table_bufsize_max i' = i_min_hd_table_bufsize_max i \<and>
     hd_table_bufsize_max (i_ctx i') = hd_table_bufsize_max (i_ctx i)"

lemma same_sizes_trans: "same_sizes a b \<Longrightarrow> same_sizes b c \<Longrightarrow> same_sizes a c"
  by (simp add: same_sizes_def)

lemma work_ready: "same_work i i' \<Longrightarrow> ready i es \<Longrightarrow> ready i' es \<and> same_sizes i i'"
  by (auto simp: same_work_def ready_def same_sizes_def ctx_ok_def ctx_repr_def)

lemma address_flags:
  assumes "ready i es" "j < length es + 61"
  shows "nv_flags (address_space es ! j) = 0"
proof (cases "j < 61")
  case True
  have "list_all (\<lambda>x. nv_flags (fst x) = 0) static_table" by (auto simp: static_table_def list_all_iff)
  then show ?thesis using True by (simp add: address_space_def nth_append length_static list_all_length)
next
  case False
  then show ?thesis using assms by (auto simp: address_space_def nth_append length_static ready_def)
qed

lemma store_ok:
  assumes r: "ctx_ok c es" "\<not> ctx_bad c" "all_succeed (ctx_mem c)" "\<forall>e \<in> set es. nv_flags (ent_nv e) = 0"
    and nv: "req \<longrightarrow> nv_flags nv = 0"
  shows "\<exists>ctx m es'. (if req then add_hd_table_incremental c nv None 0 else Some (c, None, 0)) = Some (ctx, m, 0) \<and>
    ctx_ok ctx es' \<and> \<not> ctx_bad ctx \<and> all_succeed (ctx_mem ctx) \<and> (\<forall>e \<in> set es'. nv_flags (ent_nv e) = 0) \<and>
    hd_table_bufsize_max ctx = hd_table_bufsize_max c \<and>
    hd_fields es' = (if req then keep field_room (hd_table_bufsize_max c) (nv_field nv # hd_fields es) else hd_fields es)"
proof (cases req)
  case True
  let ?ent = "\<lparr>ent_nv = nv, ent_seq = next_seq c, ent_hash = 0\<rparr>"
  obtain ctx m rv es' where a: "add_hd_table_incremental c nv None 0 = Some (ctx, m, rv)" "entry_added c es ?ent ctx es' rv"
    using add_ok [OF r(1) _ refl, of None nv 0] by auto
  have "rv = 0" using a(2) r(3) by (auto simp: entry_added_def all_succeed_def split: if_splits)
  then have e: "es' = keep ent_room (hd_table_bufsize_max c) (?ent # es)" "ctx_ok ctx es'" "ctx_bad ctx = ctx_bad c"
    "hd_table_bufsize_max ctx = hd_table_bufsize_max c" "\<exists>u. mem_answers (ctx_mem c) = u @ mem_answers (ctx_mem ctx)"
    using a(2) unfolding entry_added_def \<open>rv = 0\<close> if_P [OF refl] by blast+
  have "set es' \<subseteq> insert ?ent (set es)" using e(1) keep_subset [of _ ent_room] by fastforce
  then have "\<forall>e \<in> set es'. nv_flags (ent_nv e) = 0" using r(4) nv True by auto
  moreover have "hd_fields es' = keep field_room (hd_table_bufsize_max c) (nv_field nv # hd_fields es)"
  proof -
    have "hd_fields es' = keep field_room (hd_table_bufsize_max c) (hd_fields (?ent # es))" unfolding e(1) by (rule keep_fields)
    then show ?thesis by (simp only: hd_fields_def list.map nghttp2_hd_entry.simps)
  qed
  ultimately show ?thesis
    using True a(1) \<open>rv = 0\<close> e(2-4) r(2) all_succeed_suffix [OF r(3) e(5)]
    by (intro exI [of _ ctx] exI [of _ m] exI [of _ es']) simp
next
  case False
  then show ?thesis using r by auto
qed

lemma emit_header_id [simp]: "map_option emit_header x = x"
  by (cases x) (simp_all add: emit_header_def)

lemma commit_ok:
  assumes r: "ready i es" and flags: "index_required i \<longrightarrow> \<not> no_index i"
    and val: "rcbuf_string (valuercbuf i) (valuebuf i) = Some v"
    and name: "if i_opcode i = NGHTTP2_HD_OPCODE_NEWNAME then rcbuf_string (namercbuf i) (namebuf i) = Some n
      else i_index i < length es + 61 \<and> nv_name (address_space es ! i_index i) = n \<and> nv_token (address_space es ! i_index i) = lookup_token n"
  shows "\<exists>i3 nv es'. commit i = Some (i3, nv, 0) \<and> nv_field nv = (n, v, lookup_token n) \<and>
    nv_flags nv = (if no_index i then 1 else 0) \<and> ready i3 es' \<and> same_sizes i i3 \<and>
    hd_fields es' = (if index_required i then keep field_room (hd_table_bufsize_max (i_ctx i)) ((n, v, lookup_token n) # hd_fields es) else hd_fields es)"
proof -
  have c: "ctx_ok (i_ctx i) es" "\<not> ctx_bad (i_ctx i)" "all_succeed (ctx_mem (i_ctx i))" "\<forall>e \<in> set es. nv_flags (ent_nv e) = 0"
    using r by (simp_all add: ready_def)
  show ?thesis
  proof (cases "i_opcode i = NGHTTP2_HD_OPCODE_NEWNAME")
    case True
    let ?nv = "\<lparr>nv_name = n, nv_value = v, nv_token = lookup_token n, nv_flags = commit_flags i\<rparr>"
    have "index_required i \<longrightarrow> nv_flags ?nv = 0" using flags by (simp add: commit_flags_def)
    from store_ok [OF c this] obtain ctx m es' where s:
      "(if index_required i then add_hd_table_incremental (i_ctx i) ?nv None 0 else Some (i_ctx i, None, 0)) = Some (ctx, m, 0)"
      "ctx_ok ctx es'" "\<not> ctx_bad ctx" "all_succeed (ctx_mem ctx)" "\<forall>e \<in> set es'. nv_flags (ent_nv e) = 0"
      "hd_table_bufsize_max ctx = hd_table_bufsize_max (i_ctx i)"
      "hd_fields es' = (if index_required i then keep field_room (hd_table_bufsize_max (i_ctx i)) (nv_field ?nv # hd_fields es) else hd_fields es)"
      by blast
    let ?i = "i\<lparr>i_ctx := ctx, nv_name_keep := Some n, nv_value_keep := Some v, namercbuf := None, valuercbuf := None\<rparr>"
    have "commit i = Some (?i, ?nv, 0)"
      using True name val s(1) by (simp add: commit_def hd_inflate_commit_newname_def Let_def emit_header_def)
    then show ?thesis
      using s(2-7) by (intro exI [of _ ?i] exI [of _ ?nv] exI [of _ es'])
        (simp add: ready_def same_sizes_def nv_field_def commit_flags_def)
  next
    case False
    let ?base = "address_space es ! i_index i"
    let ?nv = "?base\<lparr>nv_flags := commit_flags i, nv_value := v\<rparr>"
    have idx: "i_index i < length es + 61" "nv_name ?base = n" "nv_token ?base = lookup_token n" using name False by simp_all
    have get: "nghttp2_hd_table_get (i_ctx i) (i_index i) = Some ?base" using table_get [OF ctx_ok_repr [OF c(1)]] idx(1) by simp
    have "index_required i \<longrightarrow> nv_flags ?nv = 0" using flags by (simp add: commit_flags_def)
    from store_ok [OF c this] obtain ctx m es' where s:
      "(if index_required i then add_hd_table_incremental (i_ctx i) ?nv None 0 else Some (i_ctx i, None, 0)) = Some (ctx, m, 0)"
      "ctx_ok ctx es'" "\<not> ctx_bad ctx" "all_succeed (ctx_mem ctx)" "\<forall>e \<in> set es'. nv_flags (ent_nv e) = 0"
      "hd_table_bufsize_max ctx = hd_table_bufsize_max (i_ctx i)"
      "hd_fields es' = (if index_required i then keep field_room (hd_table_bufsize_max (i_ctx i)) (nv_field ?nv # hd_fields es) else hd_fields es)"
      by blast
    let ?i = "i\<lparr>i_ctx := ctx, nv_name_keep := Some n, nv_value_keep := Some v, valuercbuf := None\<rparr>"
    have "commit i = Some (?i, ?nv, 0)"
      using False get val s(1) idx(2) by (simp add: commit_def hd_inflate_commit_indname_def Let_def emit_header_def)
    then show ?thesis
      using s(2-7) idx by (intro exI [of _ ?i] exI [of _ ?nv] exI [of _ es'])
        (simp add: ready_def same_sizes_def nv_field_def commit_flags_def)
  qed
qed

definition at_field :: "nghttp2_hd_inflater \<Rightarrow> bool" where
  "at_field i \<longleftrightarrow> i_state i = NGHTTP2_HD_STATE_INFLATE_START \<or> i_state i = NGHTTP2_HD_STATE_OPCODE"

lemma step_opcode: "at_field i \<Longrightarrow> inflate_step i ins = inflate_opcode i ins"
  by (auto simp: at_field_def inflate_step_def)

lemma index_step:
  assumes "i_state i = NGHTTP2_HD_STATE_READ_INDEX" "i_left i = 0" "i_shift i = 0"
    and f: "flags_of first (if i_opcode i = NGHTTP2_HD_OPCODE_INDEXED then 7 else if index_required i then 6 else 4)"
    and j: "j < get_max_index (i_ctx i)" "get_max_index (i_ctx i) < 2 ^ 32"
  shows "\<exists>sh. let i1 = i\<lparr>i_shift := sh, i_left := j + 1, i_index := j\<rparr>; pre = (if i_opcode i = NGHTTP2_HD_OPCODE_INDEXED then 7 else if index_required i then 6 else 4) in
    inflate_step i (int_bytes first pre (j + 1) @ rest) =
    (if i_opcode i = NGHTTP2_HD_OPCODE_INDEXED
     then map_option (Emit (i1\<lparr>i_state := NGHTTP2_HD_STATE_OPCODE\<rparr>) rest) (nghttp2_hd_table_get (i_ctx i) j)
     else Some (Go (i1\<lparr>i_state := NGHTTP2_HD_STATE_CHECK_VALUELEN\<rparr>) rest False))"
proof -
  let ?pre = "if i_opcode i = NGHTTP2_HD_OPCODE_INDEXED then 7 else if index_required i then 6 else 4"
  have n: "j + 1 < 2 ^ 32" "j + 1 \<le> get_max_index (i_ctx i)" using j by simp_all
  obtain sh where l: "hd_inflate_read_len i (int_bytes first ?pre (j + 1) @ rest) ?pre (get_max_index (i_ctx i)) =
      Some (i\<lparr>i_shift := sh, i_left := j + 1\<rparr>, int (length (int_bytes first ?pre (j + 1))), True)"
    using read_len_ok [OF f n assms(2,3)] by blast
  show ?thesis
    unfolding Let_def
    using assms(1) l by (intro exI [of _ sh]) (simp add: inflate_step_def inflate_read_index_def Let_def hd_inflate_commit_indexed_def)
qed

lemma inflate_indexed:
  assumes "at_field i" "ready i es" "rep_ok (hd_fields es) (Indexed j) (n, v, t)"
  shows "\<exists>i' nv. inflate_loop i (rep_bytes (Indexed j) @ rest) False = Some (Emit i' rest nv) \<and> nv_field nv = (n, v, t) \<and>
    nv_flags nv = 0 \<and> ready i' es \<and> same_sizes i i' \<and> i_state i' = NGHTTP2_HD_STATE_OPCODE"
proof -
  have c: "ctx_repr (i_ctx i) es" using assms(2) by (simp add: ready_def ctx_ok_repr)
  have j: "j < length es + 61" "nv_field (address_space es ! j) = (n, v, t)" using assms(3) space_address [of j es] by auto
  obtain low tl where b: "int_bytes 0x80 7 (j + 1) = (0x80 OR low) # tl" "low AND mask 7 = low"
    using int_first [OF flags_ok(2), of "j + 1"] by blast
  let ?i1 = "i\<lparr>i_opcode := NGHTTP2_HD_OPCODE_INDEXED, i_state := NGHTTP2_HD_STATE_READ_INDEX, i_left := 0, i_shift := 0\<rparr>"
  have step1: "inflate_step i (int_bytes 0x80 7 (j + 1) @ rest) = Some (Go ?i1 (int_bytes 0x80 7 (j + 1) @ rest) False)"
    using byte_indexed [OF b(2)] unfolding step_opcode [OF assms(1)] inflate_opcode_def b(1) by simp
  have max: "j < get_max_index (i_ctx ?i1)" "get_max_index (i_ctx ?i1) < 2 ^ 32"
    using j(1) max_index [OF c] ctx_length [OF c] by simp_all
  obtain sh where step2: "inflate_step ?i1 (int_bytes 0x80 7 (j + 1) @ rest) =
      Some (Emit (?i1\<lparr>i_shift := sh, i_left := j + 1, i_index := j, i_state := NGHTTP2_HD_STATE_OPCODE\<rparr>) rest (address_space es ! j))"
    using index_step [of ?i1 "0x80" j rest] max flags_ok(2) table_get [OF c, of j] j(1) by (auto simp: Let_def)
  have "inflate_loop i (rep_bytes (Indexed j) @ rest) False =
      Some (Emit (?i1\<lparr>i_shift := sh, i_left := j + 1, i_index := j, i_state := NGHTTP2_HD_STATE_OPCODE\<rparr>) rest (address_space es ! j))"
    using loop_go [OF step1, of False] loop_stop [OF step2, of False] by (simp add: b(1))
  then show ?thesis using j(2) address_flags [OF assms(2) j(1)] assms(2) by (auto simp: ready_def same_sizes_def)
qed

definition literal_setup :: "nghttp2_hd_inflater \<Rightarrow> nghttp2_hd_indexing_mode \<Rightarrow> nghttp2_hd_inflater \<Rightarrow> bool" where
  "literal_setup i mode i' \<longleftrightarrow> i_ctx i' = i_ctx i \<and> same_sizes i i' \<and>
     index_required i' = (mode = NGHTTP2_HD_WITH_INDEXING) \<and> no_index i' = (mode = NGHTTP2_HD_NEVER_INDEXING)"

lemma literal_first:
  assumes "at_field i"
    and b: "low AND mask (index_bits mode) = low" "b = pack_first_byte mode OR low"
  defines "new \<equiv> low = 0"
  shows "\<exists>i'. inflate_step i (b # rest) = Some (Go i' (if new then rest else b # rest) False) \<and> literal_setup i mode i' \<and>
    i_left i' = 0 \<and> i_shift i' = 0 \<and>
    i_opcode i' = (if new then NGHTTP2_HD_OPCODE_NEWNAME else NGHTTP2_HD_OPCODE_INDNAME) \<and>
    i_state i' = (if new then NGHTTP2_HD_STATE_NEWNAME_CHECK_NAMELEN else NGHTTP2_HD_STATE_READ_INDEX)"
proof -
  have "b AND 0xe0 \<noteq> 0x20 \<and> b AND 0x80 = 0 \<and> (b AND 0x40 \<noteq> 0 \<longleftrightarrow> mode = NGHTTP2_HD_WITH_INDEXING) \<and>
      (b AND 0xf0 = 0x10 \<longleftrightarrow> mode = NGHTTP2_HD_NEVER_INDEXING) \<and> (b = 0x40 \<or> b = 0 \<or> b = 0x10 \<longleftrightarrow> new)"
  proof (cases mode)
    case NGHTTP2_HD_WITH_INDEXING
    then show ?thesis using byte_literal_indexing [of low] b by (auto simp: new_def)
  next
    case NGHTTP2_HD_WITHOUT_INDEXING
    then show ?thesis using byte_literal_plain [of low 0] b by (auto simp: new_def)
  next
    case NGHTTP2_HD_NEVER_INDEXING
    then show ?thesis using byte_literal_plain [of low "0x10"] b by (auto simp: new_def)
  qed
  then show ?thesis
    unfolding step_opcode [OF assms(1)] inflate_opcode_def
    by (auto simp: Let_def literal_setup_def same_sizes_def)
qed

lemma literal_index:
  assumes "at_field i" "ready i es" "j < length es + 61"
  shows "\<exists>i'. inflate_loop i (int_bytes (pack_first_byte mode) (index_bits mode) (j + 1) @ rest) False = inflate_loop i' rest False \<and>
    literal_setup i mode i' \<and> i_opcode i' = NGHTTP2_HD_OPCODE_INDNAME \<and> i_index i' = j \<and> i_state i' = NGHTTP2_HD_STATE_CHECK_VALUELEN"
proof -
  have c: "ctx_repr (i_ctx i) es" using assms(2) by (simp add: ready_def ctx_ok_repr)
  obtain low tl where b: "int_bytes (pack_first_byte mode) (index_bits mode) (j + 1) = (pack_first_byte mode OR low) # tl"
    "low AND mask (index_bits mode) = low" "low \<noteq> 0" using int_first [OF flags_ok(4) [of mode], of "j + 1"] by auto
  obtain i1 where i1: "inflate_step i ((pack_first_byte mode OR low) # tl @ rest) = Some (Go i1 ((pack_first_byte mode OR low) # tl @ rest) False)"
    "literal_setup i mode i1" "i_left i1 = 0" "i_shift i1 = 0" "i_opcode i1 = NGHTTP2_HD_OPCODE_INDNAME" "i_state i1 = NGHTTP2_HD_STATE_READ_INDEX"
    using literal_first [OF assms(1) b(2) refl, of "tl @ rest"] b(3) by auto
  have pre: "(if i_opcode i1 = NGHTTP2_HD_OPCODE_INDEXED then 7 else if index_required i1 then 6 else 4) = index_bits mode"
    using i1(2,5) by (cases mode) (simp_all add: literal_setup_def)
  have max: "j < get_max_index (i_ctx i1)" "get_max_index (i_ctx i1) < 2 ^ 32"
    using assms(3) max_index [OF c] ctx_length [OF c] i1(2) by (simp_all add: literal_setup_def)
  have fl: "flags_of (pack_first_byte mode) (if i_opcode i1 = NGHTTP2_HD_OPCODE_INDEXED then 7 else if index_required i1 then 6 else 4)"
    unfolding pre by (rule flags_ok(4))
  obtain sh where step2: "inflate_step i1 (int_bytes (pack_first_byte mode) (index_bits mode) (j + 1) @ rest) =
      Some (Go (i1\<lparr>i_shift := sh, i_left := j + 1, i_index := j, i_state := NGHTTP2_HD_STATE_CHECK_VALUELEN\<rparr>) rest False)"
    using index_step [OF i1(6,3,4) fl max, of rest] i1(5) unfolding pre Let_def by auto
  let ?i = "i1\<lparr>i_shift := sh, i_left := j + 1, i_index := j, i_state := NGHTTP2_HD_STATE_CHECK_VALUELEN\<rparr>"
  have "inflate_loop i (int_bytes (pack_first_byte mode) (index_bits mode) (j + 1) @ rest) False = inflate_loop ?i rest False"
    using loop_go [OF i1(1), of False] loop_go [OF step2, of False] unfolding b(1) by simp
  then show ?thesis using i1(2,5) by (intro exI [of _ ?i]) (simp add: literal_setup_def same_sizes_def)
qed

lemma same_work_sizes: "same_work i i' \<Longrightarrow> same_sizes i i'"
  by (auto simp: same_work_def same_sizes_def)

lemma setup_ready: "literal_setup i mode i' \<Longrightarrow> ready i es \<Longrightarrow> ready i' es"
  by (simp add: literal_setup_def ready_def)

definition rep_flags :: "hd_rep \<Rightarrow> u8" where
  "rep_flags rep = (case rep of Literal NGHTTP2_HD_NEVER_INDEXING _ _ _ \<Rightarrow> NGHTTP2_NV_FLAG_NO_INDEX | _ \<Rightarrow> NGHTTP2_NV_FLAG_NONE)"

lemma value_commit:
  assumes i: "ready i es" "i_state i = NGHTTP2_HD_STATE_CHECK_VALUELEN" and len: "length v \<le> 65536"
    and mode: "index_required i = (mode = NGHTTP2_HD_WITH_INDEXING)" "no_index i = (mode = NGHTTP2_HD_NEVER_INDEXING)"
    and name: "if i_opcode i = NGHTTP2_HD_OPCODE_NEWNAME then rcbuf_string (namercbuf i) (namebuf i) = Some n
      else i_index i < length es + 61 \<and> nv_name (address_space es ! i_index i) = n \<and> nv_token (address_space es ! i_index i) = lookup_token n"
  shows "\<exists>i' nv es'. inflate_loop i (str_bytes v @ rest) False = Some (Emit i' rest nv) \<and> nv_field nv = (n, v, lookup_token n) \<and>
    nv_flags nv = rep_flags (Literal mode k n v) \<and> ready i' es' \<and> same_sizes i i' \<and> i_state i' = NGHTTP2_HD_STATE_OPCODE \<and>
    hd_fields es' = rep_table (hd_table_bufsize_max (i_ctx i)) (Literal mode k n v) (hd_fields es)"
proof -
  have mem: "all_succeed (ctx_mem (i_ctx i))" using i(1) by (simp add: ready_def)
  obtain i2 where i2: "same_work i i2" "namebuf i2 = namebuf i" "namercbuf i2 = namercbuf i"
    "rcbuf_string (valuercbuf i2) (valuebuf i2) = Some v"
    "\<forall>i3 nv. commit i2 = Some (i3, nv, 0) \<longrightarrow>
       inflate_loop i (str_bytes v @ rest) False = Some (Emit (i3\<lparr>i_state := NGHTTP2_HD_STATE_OPCODE\<rparr>) rest nv)"
    using value_ok [OF i(2) len mem, of rest] by blast
  have r2: "ready i2 es" using work_ready [OF i2(1) i(1)] by blast
  have same: "i_opcode i2 = i_opcode i" "i_index i2 = i_index i" "index_required i2 = index_required i" "no_index i2 = no_index i"
    "hd_table_bufsize_max (i_ctx i2) = hd_table_bufsize_max (i_ctx i)"
    using i2(1) by (auto simp: same_work_def)
  have "index_required i2 \<longrightarrow> \<not> no_index i2" using mode same by simp
  moreover have "if i_opcode i2 = NGHTTP2_HD_OPCODE_NEWNAME then rcbuf_string (namercbuf i2) (namebuf i2) = Some n
      else i_index i2 < length es + 61 \<and> nv_name (address_space es ! i_index i2) = n \<and> nv_token (address_space es ! i_index i2) = lookup_token n"
    using name same i2(2,3) by simp
  ultimately obtain i3 nv es' where c: "commit i2 = Some (i3, nv, 0)" "nv_field nv = (n, v, lookup_token n)"
    "nv_flags nv = (if no_index i2 then 1 else 0)" "ready i3 es'" "same_sizes i2 i3"
    "hd_fields es' = (if index_required i2 then keep field_room (hd_table_bufsize_max (i_ctx i2)) ((n, v, lookup_token n) # hd_fields es) else hd_fields es)"
    using commit_ok [OF r2 _ i2(4)] by blast
  let ?i = "i3\<lparr>i_state := NGHTTP2_HD_STATE_OPCODE\<rparr>"
  have "ready ?i es'" "same_sizes i ?i"
    using c(4) same_sizes_trans [OF same_work_sizes [OF i2(1)] c(5)] by (simp_all add: ready_def same_sizes_def)
  moreover have "nv_flags nv = rep_flags (Literal mode k n v)" using c(3) same mode by (cases mode) (simp_all add: rep_flags_def)
  moreover have "hd_fields es' = rep_table (hd_table_bufsize_max (i_ctx i)) (Literal mode k n v) (hd_fields es)"
    using c(6) same mode by (cases mode) (simp_all del: keep.simps)
  ultimately show ?thesis using i2(5) c(1,2) by (intro exI [of _ ?i] exI [of _ nv] exI [of _ es']) simp
qed

text \<open>The lengths the decoder accepts.\<close>

fun rep_lengths :: "hd_rep \<Rightarrow> bool" where
  "rep_lengths (Indexed j) \<longleftrightarrow> True"
| "rep_lengths (Literal mode k n v) \<longleftrightarrow> length n \<le> NGHTTP2_HD_MAX_NV \<and> length v \<le> NGHTTP2_HD_MAX_NV"

lemma inflate_rep:
  assumes i: "at_field i" "ready i es" and rep: "rep_ok (hd_fields es) rep f" "rep_lengths rep"
  shows "\<exists>i' nv es'. inflate_loop i (rep_bytes rep @ rest) False = Some (Emit i' rest nv) \<and> nv_field nv = f \<and>
    nv_flags nv = rep_flags rep \<and> ready i' es' \<and> same_sizes i i' \<and> i_state i' = NGHTTP2_HD_STATE_OPCODE \<and>
    hd_fields es' = rep_table (hd_table_bufsize_max (i_ctx i)) rep (hd_fields es)"
proof (cases rep)
  case (Indexed j)
  obtain n v t where f: "f = (n, v, t)" by (cases f)
  show ?thesis using inflate_indexed [OF i, of j n v t rest] rep(1) Indexed f by (fastforce simp: rep_flags_def)
next
  case (Literal mode k n v)
  have len: "length n \<le> 65536" "length v \<le> 65536" using rep(2) Literal by simp_all
  show ?thesis
  proof (cases k)
    case (Some j)
    have j: "j < length es + 61" "fst (space (hd_fields es) ! j) = n" "snd (snd (space (hd_fields es) ! j)) = lookup_token n" "f = (n, v, lookup_token n)"
      using rep(1) Literal Some by auto
    then have at: "nv_name (address_space es ! j) = n" "nv_token (address_space es ! j) = lookup_token n"
      using space_address [OF j(1)] by (simp_all add: nv_field_def)
    obtain i1 where i1: "inflate_loop i (int_bytes (pack_first_byte mode) (index_bits mode) (j + 1) @ (str_bytes v @ rest)) False = inflate_loop i1 (str_bytes v @ rest) False"
      "literal_setup i mode i1" "i_opcode i1 = NGHTTP2_HD_OPCODE_INDNAME" "i_index i1 = j" "i_state i1 = NGHTTP2_HD_STATE_CHECK_VALUELEN"
      using literal_index [OF i j(1)] by blast
    have sizes: "same_sizes i i1" "hd_table_bufsize_max (i_ctx i1) = hd_table_bufsize_max (i_ctx i)"
      using i1(2) by (simp_all add: literal_setup_def)
    obtain i' nv es' where r: "inflate_loop i1 (str_bytes v @ rest) False = Some (Emit i' rest nv)" "nv_field nv = f"
      "nv_flags nv = rep_flags rep" "ready i' es'" "same_sizes i1 i'" "i_state i' = NGHTTP2_HD_STATE_OPCODE"
      "hd_fields es' = rep_table (hd_table_bufsize_max (i_ctx i)) rep (hd_fields es)"
      using value_commit [OF setup_ready [OF i1(2) i(2)] i1(5) len(2), where mode = mode and n = n and k = k and rest = rest] i1 at j Literal sizes(2)
      by (auto simp: literal_setup_def)
    then show ?thesis using i1(1) same_sizes_trans [OF sizes(1) r(5)] Literal Some by auto
  next
    case None
    have f: "f = (n, v, lookup_token n)" using rep(1) Literal None by simp
    obtain i1 where i1: "inflate_step i (pack_first_byte mode # str_bytes n @ str_bytes v @ rest) = Some (Go i1 (str_bytes n @ str_bytes v @ rest) False)"
      "literal_setup i mode i1" "i_opcode i1 = NGHTTP2_HD_OPCODE_NEWNAME" "i_state i1 = NGHTTP2_HD_STATE_NEWNAME_CHECK_NAMELEN"
      using literal_first [OF i(1), of 0 mode "pack_first_byte mode"] by auto
    have mem: "all_succeed (ctx_mem (i_ctx i1))" using setup_ready [OF i1(2) i(2)] by (simp add: ready_def)
    obtain i2 where i2: "same_work i1 i2" "i_state i2 = NGHTTP2_HD_STATE_CHECK_VALUELEN"
      "rcbuf_string (namercbuf i2) (namebuf i2) = Some n"
      "inflate_loop i1 (str_bytes n @ str_bytes v @ rest) False = inflate_loop i2 (str_bytes v @ rest) False"
      using name_ok [OF i1(4) len(1) mem, of "str_bytes v @ rest"] by auto
    have sizes: "same_sizes i i2" "hd_table_bufsize_max (i_ctx i2) = hd_table_bufsize_max (i_ctx i)"
      "i_opcode i2 = NGHTTP2_HD_OPCODE_NEWNAME" "index_required i2 = (mode = NGHTTP2_HD_WITH_INDEXING)" "no_index i2 = (mode = NGHTTP2_HD_NEVER_INDEXING)"
      using i1(2,3) i2(1) by (auto simp: literal_setup_def same_work_def same_sizes_def)
    have r2: "ready i2 es" using work_ready [OF i2(1) setup_ready [OF i1(2) i(2)]] by blast
    obtain i' nv es' where r: "inflate_loop i2 (str_bytes v @ rest) False = Some (Emit i' rest nv)" "nv_field nv = f"
      "nv_flags nv = rep_flags rep" "ready i' es'" "same_sizes i2 i'" "i_state i' = NGHTTP2_HD_STATE_OPCODE"
      "hd_fields es' = rep_table (hd_table_bufsize_max (i_ctx i)) rep (hd_fields es)"
      using value_commit [OF r2 i2(2) len(2) sizes(4,5), where n = n and k = k and rest = rest] i2(3) sizes(2,3) Literal f by auto
    have "inflate_loop i (rep_bytes rep @ rest) False = Some (Emit i' rest nv)"
      using loop_go [OF i1(1), of False] i2(4) r(1) Literal None by simp
    then show ?thesis using r same_sizes_trans [OF sizes(1) r(5)] by blast
  qed
qed

end
