(* ===== verification/Ng_Hd_Session.thy ===== *)
theory Ng_Hd_Session
  imports Ng_Hd_Roundtrip
begin

unbundle bit_operations_syntax

text \<open>
  Encoder and decoder over the life of a connection: blocks of header fields and changes of the
  size of the table in any order. A block is read by the loop the documentation of
  \<^verbatim>\<open>nghttp2_hd_inflate_hd\<close> shows.
\<close>

section \<open>Reading a whole block\<close>

partial_function (option) read_header_block ::
  "nghttp2_hd_inflater \<Rightarrow> bytes \<Rightarrow> (nghttp2_hd_inflater \<times> nghttp2_nv list \<times> int) option" where
  "read_header_block i ins = do {
     (i1, flags, nv, rv) \<leftarrow> nghttp2_hd_inflate_hd3 i ins True;
     if rv < 0 then Some (i1, [], -1)
     else
       (let rest = drop (nat rv) ins; out = (case nv of None \<Rightarrow> [] | Some x \<Rightarrow> [x]) in
        if flags AND NGHTTP2_HD_INFLATE_FINAL \<noteq> 0 then Some (fst (nghttp2_hd_inflate_end_headers i1), out, 0)
        else if flags AND NGHTTP2_HD_INFLATE_EMIT = 0 \<and> rest = [] then Some (i1, out, 0)
        else do { (i2, outs, rv1) \<leftarrow> read_header_block i1 rest; Some (i2, out @ outs, rv1) })
   }"

declare read_header_block.simps [code]

definition nv_received :: "hd_field \<Rightarrow> u8 \<Rightarrow> nghttp2_nv" where
  "nv_received f fl = \<lparr>h_name = fst f, h_value = fst (snd f), h_flags = fl\<rparr>"

lemma hd3_emit:
  assumes "inflate_loop (hd_inflate_keep_free i) (xs @ rest) False = Some (Emit i' rest nv)" "\<not> ctx_bad (i_ctx i)"
  shows "nghttp2_hd_inflate_hd3 i (xs @ rest) True = Some (i', NGHTTP2_HD_INFLATE_EMIT, Some (nv_received (nv_field nv) (nv_flags nv)), int (length xs))"
  using assms by (simp add: nghttp2_hd_inflate_hd3_def nghttp2_hd_inflate_hd_nv_def nv_received_def nv_field_def)

lemma hd3_final:
  assumes "inflate_loop (hd_inflate_keep_free i) xs False = Some (Go i' ys b)" "\<not> ctx_bad (i_ctx i)" "at_field i'"
  shows "nghttp2_hd_inflate_hd3 i xs True = Some (i', NGHTTP2_HD_INFLATE_FINAL, None, int (length xs))"
  using assms by (auto simp: nghttp2_hd_inflate_hd3_def nghttp2_hd_inflate_hd_nv_def at_field_def)

lemma keep_free_simps [simp]:
  "ready (hd_inflate_keep_free i) es = ready i es" "at_field (hd_inflate_keep_free i) = at_field i"
  "i_ctx (hd_inflate_keep_free i) = i_ctx i" "i_state (hd_inflate_keep_free i) = i_state i"
  "settings_hd_table_bufsize_max (hd_inflate_keep_free i) = settings_hd_table_bufsize_max i"
  "i_min_hd_table_bufsize_max (hd_inflate_keep_free i) = i_min_hd_table_bufsize_max i"
  by (simp_all add: hd_inflate_keep_free_def ready_def at_field_def)

lemma same_sizes_keep [simp]: "same_sizes (hd_inflate_keep_free i) i' = same_sizes i i'" "same_sizes i (hd_inflate_keep_free i') = same_sizes i i'"
  by (simp_all add: same_sizes_def)

text \<open>\<open>p\<close> is what stands before the fields, the announced sizes; \<open>i1\<close> is the decoder behind it.\<close>

lemma read_block_ok:
  assumes "\<And>rest. inflate_loop (hd_inflate_keep_free i) (p @ rest) False = inflate_loop i1 rest False"
    and "\<not> ctx_bad (i_ctx i)" "at_field i1" "ready i1 es"
    and "block (hd_table_bufsize_max (i_ctx i1)) (hd_fields es) nvs reps fs" "list_all rep_lengths reps"
  shows "\<exists>i' es'. read_header_block i (p @ concat (map rep_bytes reps)) =
      Some (i', map2 (\<lambda>nv rep. nv_received (nv_entry nv) (rep_flags rep)) nvs reps, 0) \<and>
    ready i' es' \<and> hd_fields es' = fs \<and> i_state i' = NGHTTP2_HD_STATE_INFLATE_START \<and> same_sizes i1 i'"
  using assms
proof (induction reps arbitrary: i p i1 es nvs)
  case Nil
  then have nvs: "nvs = []" "hd_fields es = fs" by (cases nvs; simp)+
  have "inflate_loop (hd_inflate_keep_free i) p False = Some (Go i1 [] False)"
    using Nil.prems(1) [of "[]"] by (subst (asm) (2) inflate_loop.simps) simp
  note f = hd3_final [OF this Nil.prems(2,3)]
  let ?i = "fst (nghttp2_hd_inflate_end_headers i1)"
  have "read_header_block i (p @ concat (map rep_bytes [])) = Some (?i, [], 0)"
    by (subst read_header_block.simps) (simp add: f)
  moreover have "ready ?i es" "i_state ?i = NGHTTP2_HD_STATE_INFLATE_START" "same_sizes i1 ?i"
    using Nil.prems(4) by (simp_all add: nghttp2_hd_inflate_end_headers_def hd_inflate_keep_free_def ready_def same_sizes_def)
  ultimately show ?case using nvs by auto
next
  case (Cons rep reps)
  obtain nv nvs' where nvs: "nvs = nv # nvs'" using Cons.prems(5) by (cases nvs) auto
  let ?cap = "hd_table_bufsize_max (i_ctx i1)" and ?tail = "concat (map rep_bytes reps)"
  have rep: "rep_ok (hd_fields es) rep (nv_entry nv)" "block ?cap (rep_table ?cap rep (hd_fields es)) nvs' reps fs"
    using Cons.prems(5) nvs by simp_all
  have len: "rep_lengths rep" "list_all rep_lengths reps" using Cons.prems(6) by simp_all
  obtain i2 out es2 where e: "inflate_loop i1 (rep_bytes rep @ ?tail) False = Some (Emit i2 ?tail out)" "nv_field out = nv_entry nv"
    "nv_flags out = rep_flags rep" "ready i2 es2" "same_sizes i1 i2" "i_state i2 = NGHTTP2_HD_STATE_OPCODE"
    "hd_fields es2 = rep_table ?cap rep (hd_fields es)"
    using inflate_rep [OF Cons.prems(3,4) rep(1) len(1), of ?tail] by blast
  have cap: "hd_table_bufsize_max (i_ctx i2) = ?cap" using e(5) by (simp add: same_sizes_def)
  have "inflate_loop (hd_inflate_keep_free i) ((p @ rep_bytes rep) @ ?tail) False = Some (Emit i2 ?tail out)"
    using Cons.prems(1) [of "rep_bytes rep @ ?tail"] e(1) by simp
  note first = hd3_emit [OF this Cons.prems(2)]
  have "inflate_loop (hd_inflate_keep_free i2) ([] @ rest) False = inflate_loop (hd_inflate_keep_free i2) rest False" for rest by simp
  moreover have "\<not> ctx_bad (i_ctx i2)" "at_field (hd_inflate_keep_free i2)" "ready (hd_inflate_keep_free i2) es2"
    using e(4,6) by (simp_all add: ready_def at_field_def)
  moreover have "block (hd_table_bufsize_max (i_ctx (hd_inflate_keep_free i2))) (hd_fields es2) nvs' reps fs"
    using rep(2) e(7) cap by simp
  ultimately obtain i' es' where more: "read_header_block i2 ([] @ ?tail) =
      Some (i', map2 (\<lambda>nv rep. nv_received (nv_entry nv) (rep_flags rep)) nvs' reps, 0)"
    "ready i' es'" "hd_fields es' = fs" "i_state i' = NGHTTP2_HD_STATE_INFLATE_START" "same_sizes (hd_inflate_keep_free i2) i'"
    using Cons.IH [of i2 "[]" "hd_inflate_keep_free i2" es2 nvs'] len(2) by blast
  have "read_header_block i ((p @ rep_bytes rep) @ ?tail) =
      Some (i', nv_received (nv_entry nv) (rep_flags rep) # map2 (\<lambda>nv rep. nv_received (nv_entry nv) (rep_flags rep)) nvs' reps, 0)"
    using more(1) unfolding append_Nil by (subst read_header_block.simps, subst first) (simp add: e(2,3))
  then show ?case using more(2-5) nvs same_sizes_trans [OF e(5)] by auto
qed


section \<open>Announced sizes\<close>

lemma size_ok:
  assumes st: "i_state i = NGHTTP2_HD_STATE_EXPECT_TABLE_SIZE \<or> i_state i = NGHTTP2_HD_STATE_INFLATE_START"
    and r: "ready i es" and n: "n \<le> min (i_min_hd_table_bufsize_max i) (settings_hd_table_bufsize_max i)" "n < 2 ^ 32"
  shows "\<exists>i'. (\<forall>rest. inflate_loop i (int_bytes 0x20 5 n @ rest) False = inflate_loop i' rest False) \<and>
    ready i' (keep ent_room n es) \<and> i_state i' = NGHTTP2_HD_STATE_INFLATE_START \<and> hd_table_bufsize_max (i_ctx i') = n \<and>
    i_min_hd_table_bufsize_max i' = UINT32_MAX \<and> settings_hd_table_bufsize_max i' = settings_hd_table_bufsize_max i"
proof -
  obtain low tl where b: "int_bytes 0x20 5 n = (0x20 OR low) # tl" "low AND mask 5 = low"
    using int_first [OF flags_ok(1), of n] by blast
  let ?i1 = "i\<lparr>i_opcode := NGHTTP2_HD_OPCODE_INDEXED, i_state := NGHTTP2_HD_STATE_READ_TABLE_SIZE, i_left := 0, i_shift := 0\<rparr>"
  have step1: "inflate_step i (int_bytes 0x20 5 n @ rest) = Some (Go ?i1 (int_bytes 0x20 5 n @ rest) False)" for rest
    using st byte_size [OF b(2)] unfolding b(1)
    by (auto simp: inflate_step_def inflate_expect_table_size_def inflate_opcode_def)
  have n1: "n \<le> min (i_min_hd_table_bufsize_max ?i1) (settings_hd_table_bufsize_max ?i1)" using n(1) by simp
  obtain sh where l: "hd_inflate_read_len ?i1 (int_bytes 0x20 5 n @ rest) 5 (min (i_min_hd_table_bufsize_max ?i1) (settings_hd_table_bufsize_max ?i1)) =
      Some (?i1\<lparr>i_shift := sh, i_left := n\<rparr>, int (length (int_bytes 0x20 5 n)), True)" for rest
    using read_len_any [OF flags_ok(1) n(2) n1, of ?i1] by auto
  let ?c = "(i_ctx i)\<lparr>hd_table_bufsize_max := n\<rparr>"
  have c: "ctx_repr ?c es" "hd_table_bufsize_max ?c < 2 ^ 32" using r n(2) by (simp_all add: ready_def ctx_ok_def ctx_repr_def)
  obtain rb b where s: "hd_context_shrink_table_size ?c None = Some (?c\<lparr>hd_table := rb, hd_table_bufsize := b\<rparr>, None)"
    "ctx_ok (?c\<lparr>hd_table := rb, hd_table_bufsize := b\<rparr>) (keep ent_room n es)"
    using shrink_none [OF c] by (auto simp: Let_def)
  let ?i2 = "?i1\<lparr>i_shift := sh, i_left := n, i_min_hd_table_bufsize_max := UINT32_MAX,
      i_ctx := ?c\<lparr>hd_table := rb, hd_table_bufsize := b\<rparr>, i_state := NGHTTP2_HD_STATE_INFLATE_START\<rparr>"
  have step2: "inflate_step ?i1 (int_bytes 0x20 5 n @ rest) = Some (Go ?i2 rest False)" for rest
    using l [of rest] s(1) by (simp add: inflate_step_def inflate_read_table_size_def)
  have "\<forall>rest. inflate_loop i (int_bytes 0x20 5 n @ rest) False = inflate_loop ?i2 rest False"
    using loop_go [OF step1] loop_go [OF step2] by (simp add: b(1))
  moreover have "ready ?i2 (keep ent_room n es)" using r s(2) by (auto simp: ready_def dest: keep_subset)
  ultimately show ?thesis by (intro exI [of _ ?i2]) simp
qed

text \<open>
  The two sides between blocks. As long as a change of size is to be announced, the table of the
  encoder is what the announcements will leave of that of the decoder.
\<close>

definition announced :: "nghttp2_hd_deflater \<Rightarrow> nat" where
  "announced d = min (d_min_hd_table_bufsize_max d) (hd_table_bufsize_max (d_ctx d))"

definition sync :: "nghttp2_hd_deflater \<Rightarrow> nghttp2_hd_entry list \<Rightarrow> nghttp2_hd_inflater \<Rightarrow> nghttp2_hd_entry list \<Rightarrow> bool" where
  "sync d ds i is \<longleftrightarrow> deflater_ok d ds \<and> \<not> ctx_bad (d_ctx d) \<and> ready i is \<and>
     hd_table_bufsize_max (d_ctx d) \<le> settings_hd_table_bufsize_max i \<and> settings_hd_table_bufsize_max i < 2 ^ 32 \<and>
     (if notify_table_size_change d
      then (i_state i = NGHTTP2_HD_STATE_EXPECT_TABLE_SIZE \<or> i_state i = NGHTTP2_HD_STATE_INFLATE_START) \<and>
        hd_fields ds = keep field_room (announced d) (hd_fields is) \<and>
        announced d \<le> min (i_min_hd_table_bufsize_max i) (settings_hd_table_bufsize_max i) \<and>
        (d_min_hd_table_bufsize_max d \<le> hd_table_bufsize_max (d_ctx d) \<or> hd_table_bufsize_max (d_ctx d) = deflate_hd_table_bufsize_max d)
      else i_state i = NGHTTP2_HD_STATE_INFLATE_START \<and> hd_fields ds = hd_fields is \<and>
        hd_table_bufsize_max (i_ctx i) = hd_table_bufsize_max (d_ctx d) \<and>
        d_min_hd_table_bufsize_max d = UINT32_MAX \<and> i_min_hd_table_bufsize_max i = UINT32_MAX)"

lemma sizes_ok:
  assumes "sync d ds i is"
  shows "\<exists>i' es. (\<forall>rest. inflate_loop (hd_inflate_keep_free i) (size_bytes d @ rest) False = inflate_loop i' rest False) \<and>
    ready i' es \<and> hd_fields es = hd_fields ds \<and> i_state i' = NGHTTP2_HD_STATE_INFLATE_START \<and>
    hd_table_bufsize_max (i_ctx i') = hd_table_bufsize_max (d_ctx d) \<and> i_min_hd_table_bufsize_max i' = UINT32_MAX \<and>
    settings_hd_table_bufsize_max i' = settings_hd_table_bufsize_max i"
proof (cases "notify_table_size_change d")
  case False
  then show ?thesis
    using assms by (intro exI [of _ "hd_inflate_keep_free i"] exI [of _ "is"]) (simp add: sync_def size_bytes_def)
next
  case True
  let ?least = "d_min_hd_table_bufsize_max d" and ?cap = "hd_table_bufsize_max (d_ctx d)" and ?i = "hd_inflate_keep_free i"
  have s: "i_state ?i = NGHTTP2_HD_STATE_EXPECT_TABLE_SIZE \<or> i_state ?i = NGHTTP2_HD_STATE_INFLATE_START" "ready ?i is"
    "announced d \<le> min (i_min_hd_table_bufsize_max ?i) (settings_hd_table_bufsize_max ?i)" "announced d < 2 ^ 32" "?cap < 2 ^ 32"
    "?cap \<le> settings_hd_table_bufsize_max ?i" "hd_fields ds = keep field_room (announced d) (hd_fields is)"
    using assms True by (auto simp: sync_def announced_def deflater_ok_def ctx_ok_def)
  obtain i1 where i1: "\<forall>rest. inflate_loop ?i (int_bytes 0x20 5 (announced d) @ rest) False = inflate_loop i1 rest False"
    "ready i1 (keep ent_room (announced d) is)" "i_state i1 = NGHTTP2_HD_STATE_INFLATE_START" "hd_table_bufsize_max (i_ctx i1) = announced d"
    "i_min_hd_table_bufsize_max i1 = UINT32_MAX" "settings_hd_table_bufsize_max i1 = settings_hd_table_bufsize_max ?i"
    using size_ok [OF s(1-4)] by blast
  show ?thesis
  proof (cases "?least < ?cap")
    case False
    then have "announced d = ?cap" "size_bytes d = int_bytes 0x20 5 (announced d)" using True by (simp_all add: announced_def size_bytes_def)
    then show ?thesis using i1 s(7) by (intro exI [of _ i1] exI [of _ "keep ent_room (announced d) is"]) (simp add: keep_fields)
  next
    case less: True
    then have a: "announced d = ?least" "size_bytes d = int_bytes 0x20 5 (announced d) @ int_bytes 0x20 5 ?cap"
      using True by (simp_all add: announced_def size_bytes_def)
    have "?cap \<le> min (i_min_hd_table_bufsize_max i1) (settings_hd_table_bufsize_max i1)" using i1(5,6) s(5,6) by simp
    then obtain i2 where i2: "\<forall>rest. inflate_loop i1 (int_bytes 0x20 5 ?cap @ rest) False = inflate_loop i2 rest False"
      "ready i2 (keep ent_room ?cap (keep ent_room (announced d) is))" "i_state i2 = NGHTTP2_HD_STATE_INFLATE_START"
      "hd_table_bufsize_max (i_ctx i2) = ?cap" "i_min_hd_table_bufsize_max i2 = UINT32_MAX"
      "settings_hd_table_bufsize_max i2 = settings_hd_table_bufsize_max i1"
      using size_ok [of i1, OF disjI2 i1(2) _ s(5)] i1(3) by blast
    have "hd_fields (keep ent_room ?cap (keep ent_room (announced d) is)) = hd_fields ds"
      using s(7) less a(1) by (simp add: keep_fields keep_keep)
    then show ?thesis using i1(1,6) i2 a(2) by (intro exI [of _ i2] exI [of _ "keep ent_room ?cap (keep ent_room (announced d) is)"]) simp
  qed
qed

lemma sync_resize:
  assumes s: "sync d ds i is" and n: "n < 2 ^ 32"
  shows "\<exists>d' i' ds' is'. nghttp2_hd_deflate_change_table_size d n = Some (d', 0) \<and>
    nghttp2_hd_inflate_change_table_size i n = Some (i', 0) \<and> sync d' ds' i' is'"
proof -
  let ?dmax = "deflate_hd_table_bufsize_max d"
  let ?n = "min n ?dmax"
  obtain d' ds' where d: "nghttp2_hd_deflate_change_table_size d n = Some (d', 0)" "deflater_ok d' ds'"
    "hd_fields ds' = keep field_room ?n (hd_fields ds)" "deflate_hd_table_bufsize_max d' = ?dmax" "hd_table_bufsize_max (d_ctx d') = ?n"
    "d_min_hd_table_bufsize_max d' = min (d_min_hd_table_bufsize_max d) ?n" "notify_table_size_change d'" "\<not> ctx_bad (d_ctx d')"
    using deflate_resize_ok [of d ds n] s n by (auto simp: sync_def)
  have a: "announced d' = min (d_min_hd_table_bufsize_max d) ?n" using d(5,6) by (simp add: announced_def)
  have st: "i_state i = NGHTTP2_HD_STATE_EXPECT_TABLE_SIZE \<or> i_state i = NGHTTP2_HD_STATE_INFLATE_START"
    using s by (auto simp: sync_def split: if_splits)
  have f: "hd_fields ds' = keep field_room (announced d') (hd_fields is)"
  proof (cases "notify_table_size_change d")
    case True
    then show ?thesis using s d(3) a by (auto simp: sync_def keep_keep announced_def min_def intro!: arg_cong [where f = "\<lambda>m. keep field_room m (hd_fields is)"])
  next
    case False
    then have "hd_fields ds = hd_fields is" "announced d' = ?n" using s a n by (auto simp: sync_def)
    then show ?thesis using d(3) by simp
  qed
  have least: "announced d' \<le> i_min_hd_table_bufsize_max i"
  proof (cases "notify_table_size_change d")
    case True
    then show ?thesis using s a by (auto simp: sync_def announced_def min_def split: if_splits)
  next
    case False
    then show ?thesis using s a n by (auto simp: sync_def)
  qed
  show ?thesis
  proof (cases "n < hd_table_bufsize_max (i_ctx i)")
    case True
    let ?c = "(i_ctx i)\<lparr>hd_table_bufsize_max := n\<rparr>"
    have c: "ctx_repr ?c is" "hd_table_bufsize_max ?c < 2 ^ 32" using s n by (simp_all add: sync_def ready_def ctx_ok_def ctx_repr_def)
    obtain rb b where sh: "hd_context_shrink_table_size ?c None = Some (?c\<lparr>hd_table := rb, hd_table_bufsize := b\<rparr>, None)"
      "ctx_ok (?c\<lparr>hd_table := rb, hd_table_bufsize := b\<rparr>) (keep ent_room n is)"
      using shrink_none [OF c] by (auto simp: Let_def)
    let ?i = "i\<lparr>settings_hd_table_bufsize_max := n, i_state := NGHTTP2_HD_STATE_EXPECT_TABLE_SIZE, i_min_hd_table_bufsize_max := n,
        i_ctx := ?c\<lparr>hd_table := rb, hd_table_bufsize := b\<rparr>\<rparr>"
    have "nghttp2_hd_inflate_change_table_size i n = Some (?i, 0)"
      using st True sh(1) by (auto simp: nghttp2_hd_inflate_change_table_size_def)
    moreover have "ready ?i (keep ent_room n is)" using s sh(2) by (auto simp: sync_def ready_def dest: keep_subset)
    moreover have "hd_fields ds' = keep field_room (announced d') (hd_fields (keep ent_room n is))"
      using f a by (simp add: keep_fields keep_keep min_def)
    ultimately show ?thesis using d(1,2,4-8) a n
      by - (rule exI [of _ d'], rule exI [of _ ?i], rule exI [of _ ds'], rule exI [of _ "keep ent_room n is"], auto simp: sync_def)
  next
    case False
    let ?i = "i\<lparr>settings_hd_table_bufsize_max := n\<rparr>"
    have "nghttp2_hd_inflate_change_table_size i n = Some (?i, 0)"
      using st False by (auto simp: nghttp2_hd_inflate_change_table_size_def)
    moreover have "ready ?i is" using s by (simp add: sync_def ready_def)
    ultimately show ?thesis using d(1,2,4-8) a n f st least
      by - (rule exI [of _ d'], rule exI [of _ ?i], rule exI [of _ ds'], rule exI [of _ "is"], auto simp: sync_def)
  qed
qed

section \<open>The conversation\<close>

text \<open>
  An event is a new size of the table, acknowledged at this place in the sequence of blocks, or a
  block, which the encoder writes into fresh buffers. The result is what the decoder gave for each
  block and its code, and the code of the encoder, which stops the conversation if it is an error.
\<close>

datatype hpack_event = Resize nat | Block "nghttp2_nv list" nghttp2_bufs

fun hpack_run :: "hpack_event list \<Rightarrow> nghttp2_hd_deflater \<Rightarrow> nghttp2_hd_inflater \<Rightarrow> ((nghttp2_nv list \<times> int) list \<times> int) option" where
  "hpack_run [] d i = Some ([], 0)"
| "hpack_run (Resize n # evs) d i = do {
     (d1, rv) \<leftarrow> nghttp2_hd_deflate_change_table_size d n;
     (i1, rv1) \<leftarrow> nghttp2_hd_inflate_change_table_size i n;
     if rv \<noteq> 0 then Some ([], rv) else if rv1 \<noteq> 0 then Some ([], rv1) else hpack_run evs d1 i1
   }"
| "hpack_run (Block nvs bs # evs) d i = do {
     (d1, bs1, rv) \<leftarrow> nghttp2_hd_deflate_hd_bufs d bs nvs;
     if rv \<noteq> 0 then Some ([], rv)
     else do {
       (i1, out, rv1) \<leftarrow> read_header_block i (content bs1);
       (outs, rv2) \<leftarrow> hpack_run evs d1 i1;
       Some ((out, rv1) # outs, rv2)
     }
   }"

definition delivered :: "nghttp2_nv \<Rightarrow> nghttp2_nv" where
  "delivered nv = nv\<lparr>h_flags := if sensitive nv then NGHTTP2_NV_FLAG_NO_INDEX else NGHTTP2_NV_FLAG_NONE\<rparr>"

fun blocks_of :: "hpack_event list \<Rightarrow> nghttp2_nv list list" where
  "blocks_of [] = []"
| "blocks_of (Resize n # evs) = blocks_of evs"
| "blocks_of (Block nvs bs # evs) = nvs # blocks_of evs"

definition nv_fits :: "nghttp2_nv \<Rightarrow> bool" where
  "nv_fits nv \<longleftrightarrow> length (h_name nv) \<le> NGHTTP2_HD_MAX_NV \<and> length (h_value nv) \<le> NGHTTP2_HD_MAX_NV"

fun event_ok :: "hpack_event \<Rightarrow> bool" where
  "event_ok (Resize n) \<longleftrightarrow> n < 2 ^ 32"
| "event_ok (Block nvs bs) \<longleftrightarrow> list_all nv_fits nvs \<and> bufs_ok bs \<and> roomy bs \<and> content bs = []"

lemma nv_received_delivered:
  assumes "rep_ok fs rep (nv_entry nv)" "secrecy_ok nv rep"
  shows "nv_received (nv_entry nv) (rep_flags rep) = delivered nv"
proof -
  have "rep_flags rep = (if sensitive nv then NGHTTP2_NV_FLAG_NO_INDEX else NGHTTP2_NV_FLAG_NONE)"
    using assms(2) by (cases rep; auto simp: rep_flags_def split: nghttp2_hd_indexing_mode.splits)
  then show ?thesis by (simp add: nv_received_def delivered_def nv_entry_def)
qed

lemma block_delivered:
  "block cap fs nvs reps fs' \<Longrightarrow> map2 (\<lambda>nv rep. nv_received (nv_entry nv) (rep_flags rep)) nvs reps = map delivered nvs"
  by (induction cap fs nvs reps fs' rule: block.induct) (auto simp: nv_received_delivered)

lemma block_rep_lengths: "block cap fs nvs reps fs' \<Longrightarrow> list_all nv_fits nvs \<Longrightarrow> list_all rep_lengths reps"
proof (induction cap fs nvs reps fs' rule: block.induct)
  case (2 cap fs nv nvs r rs fs')
  then show ?case by (cases r) (auto simp: nv_fits_def)
qed auto

lemma sync_block:
  assumes s: "sync d ds i is" and b: "bufs_ok bs" "roomy bs" "content bs = []" and nvs: "list_all nv_fits nvs"
  shows "\<exists>d' bs' rv. nghttp2_hd_deflate_hd_bufs d bs nvs = Some (d', bs', rv) \<and> (rv \<noteq> 0 \<longrightarrow> rv \<in> emit_errors) \<and>
    (rv = 0 \<longrightarrow> (\<exists>i' ds' is'. read_header_block i (content bs') = Some (i', map delivered nvs, 0) \<and> sync d' ds' i' is'))"
proof -
  have d: "deflater_ok d ds" "\<not> ctx_bad (d_ctx d)" using s by (simp_all add: sync_def)
  have len: "list_all nv_lengths nvs" using nvs by (auto simp: nv_fits_def nv_lengths_def list_all_iff)
  obtain d' bs' rv ds' where e: "nghttp2_hd_deflate_hd_bufs d bs nvs = Some (d', bs', rv)" "deflater_ok d' ds'"
    "hd_table_bufsize_max (d_ctx d') = hd_table_bufsize_max (d_ctx d)" "ctx_bad (d_ctx d') \<longleftrightarrow> rv \<noteq> 0" "rv \<noteq> 0 \<longrightarrow> rv \<in> emit_errors"
    "rv = 0 \<longrightarrow> \<not> notify_table_size_change d' \<and> d_min_hd_table_bufsize_max d' = (if notify_table_size_change d then UINT32_MAX else d_min_hd_table_bufsize_max d) \<and>
      (\<exists>reps. block (hd_table_bufsize_max (d_ctx d)) (hd_fields ds) nvs reps (hd_fields ds') \<and>
        added bs (size_bytes d @ concat (map rep_bytes reps)) bs' 0)"
    using deflate_block_ok [OF d b(1,2) len] by blast
  have "\<exists>i' ds' is'. read_header_block i (content bs') = Some (i', map delivered nvs, 0) \<and> sync d' ds' i' is'" if rv: "rv = 0"
  proof -
    obtain reps where reps: "block (hd_table_bufsize_max (d_ctx d)) (hd_fields ds) nvs reps (hd_fields ds')"
      "added bs (size_bytes d @ concat (map rep_bytes reps)) bs' 0"
      and q: "\<not> notify_table_size_change d'" "d_min_hd_table_bufsize_max d' = (if notify_table_size_change d then UINT32_MAX else d_min_hd_table_bufsize_max d)"
      using e(6) rv by blast
    have bytes: "content bs' = size_bytes d @ concat (map rep_bytes reps)" using added_content [OF reps(2)] b(3) by simp
    obtain i1 es where i1: "\<forall>rest. inflate_loop (hd_inflate_keep_free i) (size_bytes d @ rest) False = inflate_loop i1 rest False"
      "ready i1 es" "hd_fields es = hd_fields ds" "i_state i1 = NGHTTP2_HD_STATE_INFLATE_START"
      "hd_table_bufsize_max (i_ctx i1) = hd_table_bufsize_max (d_ctx d)" "i_min_hd_table_bufsize_max i1 = UINT32_MAX"
      "settings_hd_table_bufsize_max i1 = settings_hd_table_bufsize_max i"
      using sizes_ok [OF s] by blast
    have "block (hd_table_bufsize_max (i_ctx i1)) (hd_fields es) nvs reps (hd_fields ds')" using reps(1) i1(3,5) by simp
    moreover have "at_field i1" "\<not> ctx_bad (i_ctx i)" using i1(4) s by (simp_all add: at_field_def sync_def ready_def)
    moreover have "inflate_loop (hd_inflate_keep_free i) (size_bytes d @ rest) False = inflate_loop i1 rest False" for rest
      using i1(1) by simp
    ultimately obtain i' is' where r: "read_header_block i (content bs') = Some (i', map delivered nvs, 0)" "ready i' is'"
      "hd_fields is' = hd_fields ds'" "i_state i' = NGHTTP2_HD_STATE_INFLATE_START" "same_sizes i1 i'"
      using read_block_ok [of i "size_bytes d" i1 es nvs reps "hd_fields ds'"] i1(2) block_rep_lengths [OF reps(1) nvs] block_delivered [OF reps(1)] unfolding bytes
      by auto
    have "sync d' ds' i' is'"
      using s e(2-4) q r(2-5) i1(5-7) rv by (auto simp: sync_def same_sizes_def split: if_splits)
    then show ?thesis using r(1) by blast
  qed
  then show ?thesis using e(1,5) by blast
qed

lemma hpack_run_ok:
  "sync d ds i is \<Longrightarrow> list_all event_ok evs \<Longrightarrow>
   \<exists>outs rv. hpack_run evs d i = Some (outs, rv) \<and> prefix outs (map (\<lambda>nvs. (map delivered nvs, 0)) (blocks_of evs)) \<and>
     (if rv = 0 then length outs = length (blocks_of evs) else rv \<in> emit_errors)"
proof (induction evs arbitrary: d ds i "is")
  case (Cons ev evs)
  show ?case
  proof (cases ev)
    case (Resize n)
    obtain d' i' ds' is' where "nghttp2_hd_deflate_change_table_size d n = Some (d', 0)"
      "nghttp2_hd_inflate_change_table_size i n = Some (i', 0)" "sync d' ds' i' is'"
      using sync_resize [OF Cons.prems(1), of n] Cons.prems(2) Resize by auto
    then show ?thesis using Cons.IH [of d' ds' i' is'] Cons.prems(2) Resize by (simp cong: if_cong split del: if_split)
  next
    case (Block nvs bs)
    have ok: "bufs_ok bs" "roomy bs" "content bs = []" "list_all nv_fits nvs" "list_all event_ok evs" using Cons.prems(2) Block by simp_all
    obtain d' bs' rv where e: "nghttp2_hd_deflate_hd_bufs d bs nvs = Some (d', bs', rv)" "rv \<noteq> 0 \<longrightarrow> rv \<in> emit_errors"
      "rv = 0 \<longrightarrow> (\<exists>i' ds' is'. read_header_block i (content bs') = Some (i', map delivered nvs, 0) \<and> sync d' ds' i' is')"
      using sync_block [OF Cons.prems(1) ok(1-4)] by blast
    show ?thesis
    proof (cases "rv = 0")
      case False
      then show ?thesis using e Block by simp
    next
      case True
      then obtain i' ds' is' where r: "read_header_block i (content bs') = Some (i', map delivered nvs, 0)" "sync d' ds' i' is'"
        using e(3) by blast
      obtain outs rv' where "hpack_run evs d' i' = Some (outs, rv')" "prefix outs (map (\<lambda>nvs. (map delivered nvs, 0)) (blocks_of evs))"
        "if rv' = 0 then length outs = length (blocks_of evs) else rv' \<in> emit_errors"
        using Cons.IH [OF r(2) ok(5)] by blast
      then show ?thesis using e(1) r(1) True Block by (auto split: if_splits)
    qed
  qed
qed simp

lemma inflate_init_ok:
  assumes "nghttp2_hd_inflate_init m = (i, m', rv)"
  shows "if rv = 0 then \<exists>x. i = Some x \<and> ctx_ok (i_ctx x) [] \<and> \<not> ctx_bad (i_ctx x) \<and> (all_succeed m \<longrightarrow> all_succeed (ctx_mem (i_ctx x))) \<and>
      hd_table_bufsize_max (i_ctx x) = 4096 \<and> settings_hd_table_bufsize_max x = 4096 \<and> i_min_hd_table_bufsize_max x = UINT32_MAX \<and>
      i_state x = NGHTTP2_HD_STATE_INFLATE_START
    else i = None \<and> rv = NGHTTP2_ERR_NOMEM \<and> \<not> all_succeed m"
proof -
  obtain c m1 rv1 where c: "hd_context_init m = (c, m1, rv1)" by (cases "hd_context_init m")
  show ?thesis
    using ctx_init [OF c] assms c all_succeed_suffix [of m]
    by (cases "rv1 = 0") (auto simp: nghttp2_hd_inflate_init_def all_succeed_def hd_context_init_def split: prod.splits option.splits if_splits)
qed

lemma sync_init:
  assumes "nghttp2_hd_deflate_init2 n m = (Some d, m1, 0)" "n < 2 ^ 32" "nghttp2_hd_inflate_init mi = (Some i, mi1, 0)" "all_succeed mi"
  shows "sync d [] i []"
  using deflate_init_ok [OF assms(1,2)] inflate_init_ok [OF assms(3)] assms(4)
  by (auto simp: sync_def ready_def hd_fields_def announced_def)

text \<open>
  C2. Encoder and decoder never diverge: from their initial states, over any sequence of header
  blocks and changes of the table size, every block the encoder completes is decoded without error
  to exactly its fields in order, with the never-index flag on exactly the sensitive ones; an
  incomplete conversation is due to an error of the encoder (no memory, no room in the buffers).
\<close>

theorem hpack_session:
  assumes "nghttp2_hd_deflate_init2 n m = (Some d, m1, 0)" "n < 2 ^ 32"
    and "nghttp2_hd_inflate_init mi = (Some i, mi1, 0)" "all_succeed mi"
    and "list_all event_ok evs"
  shows "\<exists>outs rv. hpack_run evs d i = Some (outs, rv) \<and> prefix outs (map (\<lambda>nvs. (map delivered nvs, 0)) (blocks_of evs)) \<and>
     (if rv = 0 then length outs = length (blocks_of evs) else rv \<in> emit_errors)"
  by (rule hpack_run_ok [OF sync_init [OF assms(1-4)] assms(5)])

theorem hpack_session_witness:
  "let m = \<lparr>mem_answers = [], mem_fill = \<lambda>_. 0, mem_live = 0\<rparr>; nv = \<lparr>h_name = [0x61, 0x62], h_value = [0x63], h_flags = 0\<rparr> in
   \<exists>d i bs outs rv. fst (nghttp2_hd_deflate_init2 100 m) = Some d \<and> fst (nghttp2_hd_inflate_init m) = Some i \<and>
     fst (nghttp2_bufs_init3 64 4 4 0 m) = Some bs \<and>
     hpack_run [Block [nv, nv] bs, Resize 50, Block [nv\<lparr>h_flags := 1\<rparr>] bs] d i = Some (outs, rv) \<and>
     prefix outs [([delivered nv, delivered nv], 0), ([delivered (nv\<lparr>h_flags := 1\<rparr>)], 0)] \<and>
     (if rv = 0 then length outs = 2 else rv \<in> emit_errors)"
proof -
  define m where "m = \<lparr>mem_answers = [], mem_fill = \<lambda>_. 0, mem_live = 0\<rparr>"
  define nv where "nv = \<lparr>h_name = [0x61, 0x62], h_value = [0x63], h_flags = (0 :: u8)\<rparr>"
  have mem: "all_succeed m" by (simp add: m_def all_succeed_def)
  obtain d0 m1 rv1 where d0: "nghttp2_hd_deflate_init2 100 m = (d0, m1, rv1)" by (cases "nghttp2_hd_deflate_init2 100 m")
  obtain i0 m2 rv2 where i0: "nghttp2_hd_inflate_init m = (i0, m2, rv2)" by (cases "nghttp2_hd_inflate_init m")
  obtain b0 m3 rv3 where b0: "nghttp2_bufs_init3 64 4 4 0 m = (b0, m3, rv3)" by (cases "nghttp2_bufs_init3 64 4 4 0 m")
  have "rv1 = 0 \<and> d0 \<noteq> None" "rv2 = 0 \<and> i0 \<noteq> None"
    using deflate_init_ok [OF d0] inflate_init_ok [OF i0] mem by (auto simp: all_succeed_def split: if_splits)
  then obtain d i where d: "nghttp2_hd_deflate_init2 100 m = (Some d, m1, 0)" and i: "nghttp2_hd_inflate_init m = (Some i, m2, 0)"
    using d0 i0 by auto
  obtain bs where bs: "b0 = Some bs" "bufs_ok bs" "roomy bs" "content bs = []"
    using init3_cases [OF b0] mem by (cases b0) (auto simp: all_succeed_def)
  define evs where "evs = [Block [nv, nv] bs, Resize 50, Block [nv\<lparr>h_flags := 1\<rparr>] bs]"
  have evs: "list_all event_ok evs" "length (blocks_of evs) = 2"
    "map (\<lambda>nvs. (map delivered nvs, 0)) (blocks_of evs) = [([delivered nv, delivered nv], 0), ([delivered (nv\<lparr>h_flags := 1\<rparr>)], 0 :: int)]"
    using bs by (simp_all add: nv_fits_def nv_def evs_def)
  note hpack_session [OF d _ i mem evs(1), unfolded evs(2,3), unfolded evs_def]
  then show ?thesis
    unfolding m_def [symmetric] nv_def [symmetric] Let_def using d i b0 bs(1) by (auto simp del: hpack_run.simps split del: if_split)
qed

end
