(* ===== verification/Ng_Hd_Inflate_Props.thy ===== *)
theory Ng_Hd_Inflate_Props
  imports Ng_Hd_Session
begin

unbundle bit_operations_syntax

text \<open>
  The decoder of HPACK on arbitrary input: it returns, it stays inside its buffers and tables, its
  table keeps to the announced size, and every call makes progress, so that the documented loop
  around it ends.
\<close>

section \<open>The states\<close>

definition room_for :: "nat \<Rightarrow> nghttp2_buf \<Rightarrow> bool" where
  "room_for n buf \<longleftrightarrow> buf_ok buf \<and> buf_pos buf = 0 \<and> n < nghttp2_buf_avail buf"

text \<open>The name of the field being read: a literal, or one in the tables.\<close>

definition name_set :: "nghttp2_hd_inflater \<Rightarrow> bool" where
  "name_set i \<longleftrightarrow>
     (if i_opcode i = NGHTTP2_HD_OPCODE_NEWNAME then \<exists>s. rcbuf_string (namercbuf i) (namebuf i) = Some s
      else i_index i < get_max_index (i_ctx i))"

fun state_ok :: "nghttp2_hd_inflate_state \<Rightarrow> nghttp2_hd_inflater \<Rightarrow> bool" where
  "state_ok NGHTTP2_HD_STATE_READ_INDEX i \<longleftrightarrow> i_opcode i \<noteq> NGHTTP2_HD_OPCODE_NEWNAME"
| "state_ok NGHTTP2_HD_STATE_NEWNAME_CHECK_NAMELEN i \<longleftrightarrow> i_opcode i = NGHTTP2_HD_OPCODE_NEWNAME"
| "state_ok NGHTTP2_HD_STATE_NEWNAME_READ_NAMELEN i \<longleftrightarrow> i_opcode i = NGHTTP2_HD_OPCODE_NEWNAME"
| "state_ok NGHTTP2_HD_STATE_NEWNAME_READ_NAMEHUFF i \<longleftrightarrow>
     i_opcode i = NGHTTP2_HD_OPCODE_NEWNAME \<and> room_for (2 * i_left i) (namebuf i) \<and> node (huff_decode_ctx i) \<le> 256"
| "state_ok NGHTTP2_HD_STATE_NEWNAME_READ_NAME i \<longleftrightarrow>
     i_opcode i = NGHTTP2_HD_OPCODE_NEWNAME \<and> room_for (i_left i) (namebuf i)"
| "state_ok NGHTTP2_HD_STATE_CHECK_VALUELEN i \<longleftrightarrow> name_set i"
| "state_ok NGHTTP2_HD_STATE_READ_VALUELEN i \<longleftrightarrow> name_set i"
| "state_ok NGHTTP2_HD_STATE_READ_VALUEHUFF i \<longleftrightarrow>
     name_set i \<and> room_for (2 * i_left i) (valuebuf i) \<and> node (huff_decode_ctx i) \<le> 256"
| "state_ok NGHTTP2_HD_STATE_READ_VALUE i \<longleftrightarrow> name_set i \<and> room_for (i_left i) (valuebuf i)"
| "state_ok _ i \<longleftrightarrow> True"

definition in_value :: "nghttp2_hd_inflater \<Rightarrow> bool" where
  "in_value i \<longleftrightarrow> i_state i = NGHTTP2_HD_STATE_READ_VALUEHUFF \<or> i_state i = NGHTTP2_HD_STATE_READ_VALUE"

definition ctx_safe :: "nghttp2_hd_inflater \<Rightarrow> bool" where
  "ctx_safe i \<longleftrightarrow> (\<exists>es. ctx_ok (i_ctx i) es) \<and> hd_table_bufsize_max (i_ctx i) \<le> settings_hd_table_bufsize_max i \<and>
     settings_hd_table_bufsize_max i < 2 ^ 32"

definition inflater_ok :: "nghttp2_hd_inflater \<Rightarrow> bool" where
  "inflater_ok i \<longleftrightarrow> ctx_safe i \<and> state_ok (i_state i) i"

text \<open>What no turn of the loop changes; the allocator only goes on.\<close>

definition same_life :: "nghttp2_hd_inflater \<Rightarrow> nghttp2_hd_inflater \<Rightarrow> bool" where
  "same_life i i' \<longleftrightarrow> settings_hd_table_bufsize_max i' = settings_hd_table_bufsize_max i \<and>
     ctx_bad (i_ctx i') = ctx_bad (i_ctx i) \<and> (\<exists>u. mem_answers (ctx_mem (i_ctx i)) = u @ mem_answers (ctx_mem (i_ctx i')))"

lemma same_life_refl [simp]: "same_life i i"
  by (simp add: same_life_def)

lemma same_life_trans: "same_life a b \<Longrightarrow> same_life b c \<Longrightarrow> same_life a c"
  by (auto simp: same_life_def)

fun rank :: "nghttp2_hd_inflate_state \<Rightarrow> nat" where
  "rank NGHTTP2_HD_STATE_EXPECT_TABLE_SIZE = 2"
| "rank NGHTTP2_HD_STATE_INFLATE_START = 2"
| "rank NGHTTP2_HD_STATE_OPCODE = 2"
| "rank NGHTTP2_HD_STATE_NEWNAME_READ_NAMEHUFF = 1"
| "rank NGHTTP2_HD_STATE_NEWNAME_READ_NAME = 1"
| "rank _ = 0"

text \<open>The answer of the allocator that goes with an error.\<close>

definition error_ok :: "nghttp2_hd_inflater \<Rightarrow> int \<Rightarrow> bool" where
  "error_ok i rv \<longleftrightarrow> rv = NGHTTP2_ERR_HEADER_COMP \<or> rv = NGHTTP2_ERR_NOMEM \<and> \<not> list_all id (mem_answers (ctx_mem (i_ctx i)))"

text \<open>One turn, from a state that holds before it; \<open>busy\<close> is whether it is the first turn on a value.\<close>

fun turn_ok :: "nghttp2_hd_inflater \<Rightarrow> bytes \<Rightarrow> inflate_result \<Rightarrow> bool" where
  "turn_ok i ins (Go i1 ins1 busy) \<longleftrightarrow> inflater_ok i1 \<and> same_life i i1 \<and> suffix ins1 ins \<and>
     3 * length ins1 + rank (i_state i1) < 3 * length ins + rank (i_state i) \<and> (in_value i1 \<longleftrightarrow> busy) \<and> (busy \<longrightarrow> length ins1 < length ins)"
| "turn_ok i ins (Almost i1 ins1) \<longleftrightarrow> inflater_ok i1 \<and> same_life i i1 \<and> ins1 = [] \<and> (in_value i1 \<longrightarrow> 0 < i_left i1)"
| "turn_ok i ins (Fail i1 rv) \<longleftrightarrow> ctx_safe i1 \<and> same_life i i1 \<and> error_ok i rv"
| "turn_ok i ins (Emit i1 ins1 nv) \<longleftrightarrow> inflater_ok i1 \<and> same_life i i1 \<and> suffix ins1 ins \<and>
     i_state i1 = NGHTTP2_HD_STATE_OPCODE \<and> (\<not> in_value i \<or> 0 < i_left i \<longrightarrow> length ins1 < length ins)"

section \<open>Reading\<close>

lemma decode_groups_bounds:
  "decode_groups n s bs got = (n', s', fin, rv) \<Longrightarrow>
   rv = -1 \<or> got \<le> rv \<and> rv \<le> got + int (length bs) \<and> (fin \<longrightarrow> got < rv) \<and> (\<not> fin \<longrightarrow> rv = got + int (length bs))"
proof (induction n s bs got rule: decode_groups.induct)
  case (2 n s b bs got)
  let ?add = "ucast b AND 0x7f :: u32"
  let ?n = "n + push_bit s ?add"
  show ?case
  proof (cases "32 \<le> s \<or> drop_bit s (- 1) < ?add \<or> - 1 - push_bit s ?add < n")
    case True
    then have "decode_groups n s (b # bs) got = (0, 0, False, -1)" by (simp only: decode_groups.simps Let_def) auto
    then show ?thesis using 2(2) by simp
  next
    case False
    then have step: "decode_groups n s (b # bs) got = (if b AND push_bit 7 1 = 0 then (?n, s, True, got + 1) else decode_groups ?n (s + 7) bs (got + 1))"
      by (simp only: decode_groups.simps Let_def) auto
    show ?thesis
    proof (cases "b AND push_bit 7 1 = 0")
      case True
      then show ?thesis using 2(2) unfolding step by auto
    next
      case more: False
      have "decode_groups ?n (s + 7) bs (got + 1) = (n', s', fin, rv)" using 2(2) more unfolding step by simp
      then show ?thesis using 2(1) [OF refl _ _ refl] False more by auto
    qed
  qed
qed simp

definition read_bounds :: "bytes \<Rightarrow> bool \<Rightarrow> int \<Rightarrow> bool" where
  "read_bounds ins fin rv \<longleftrightarrow> 1 \<le> rv \<and> rv \<le> int (length ins) \<and> (\<not> fin \<longrightarrow> rv = int (length ins))"

lemma decode_length_bounds:
  assumes "ins \<noteq> []"
  shows "\<exists>n s fin rv. decode_length initial shift ins pre = Some (n, s, fin, rv) \<and> (rv = -1 \<or> read_bounds ins fin rv)"
proof -
  obtain b rest where ins: "ins = b # rest" using assms by (cases ins) auto
  define k where "k = (word_of_nat (2 ^ pre - 1) :: u32)"
  have later: "rv = -1 \<or> read_bounds ins fin rv" if "decode_groups k shift rest 1 = (n, s, fin, rv)" for n s fin rv
    using decode_groups_bounds [OF that] by (auto simp: read_bounds_def ins)
  have again: "rv = -1 \<or> read_bounds ins fin rv" if "decode_groups initial shift ins 0 = (n, s, fin, rv)" for n s fin rv
    using decode_groups_bounds [OF that] by (cases fin) (auto simp: read_bounds_def ins)
  consider (more) "initial \<noteq> 0" | (low) "initial = 0" "ucast b AND k \<noteq> k" | (cut) "initial = 0" "ucast b AND k = k" "rest = []"
    | (high) "initial = 0" "ucast b AND k = k" "rest \<noteq> []" by blast
  then show ?thesis
  proof cases
    case more
    then have "decode_length initial shift ins pre = Some (decode_groups initial shift ins 0)" by (simp add: decode_length_def)
    then show ?thesis using again by (cases "decode_groups initial shift ins 0") metis
  next
    case low
    then have "decode_length initial shift ins pre = Some (ucast b AND k, 0, True, 1)"
      unfolding decode_length_def Let_def k_def [symmetric] ins by simp
    moreover have "read_bounds ins True 1" by (simp add: read_bounds_def ins)
    ultimately show ?thesis by blast
  next
    case cut
    then have "decode_length initial shift ins pre = Some (k, 0, False, 1)"
      unfolding decode_length_def Let_def k_def [symmetric] ins by simp
    moreover have "read_bounds ins False 1" using cut by (simp add: read_bounds_def ins)
    ultimately show ?thesis by blast
  next
    case high
    then have "decode_length initial shift ins pre = Some (decode_groups k shift rest 1)"
      unfolding decode_length_def Let_def k_def [symmetric] ins by simp
    then show ?thesis using later by (cases "decode_groups k shift rest 1") metis
  qed
qed

lemma read_len_any_input:
  assumes "ins \<noteq> []"
  shows "\<exists>sh n rv fin. hd_inflate_read_len i ins pre maxlen = Some (i\<lparr>i_shift := sh, i_left := n\<rparr>, rv, fin) \<and>
    (rv = NGHTTP2_ERR_HEADER_COMP \<or> read_bounds ins fin rv \<and> n \<le> maxlen)"
proof -
  obtain n s fin rv where d: "decode_length (word_of_nat (i_left i)) (i_shift i) ins pre = Some (n, s, fin, rv)"
    "rv = -1 \<or> read_bounds ins fin rv"
    using decode_length_bounds [OF assms] by blast
  show ?thesis
  proof (cases "rv = -1 \<or> maxlen < unat n")
    case True
    have "i\<lparr>i_shift := s\<rparr> = i\<lparr>i_shift := s, i_left := i_left i\<rparr>" by simp
    then have "hd_inflate_read_len i ins pre maxlen = Some (i\<lparr>i_shift := s, i_left := i_left i\<rparr>, NGHTTP2_ERR_HEADER_COMP, fin)"
      using d(1) True by (auto simp: hd_inflate_read_len_def Let_def)
    then show ?thesis by blast
  next
    case False
    then have "hd_inflate_read_len i ins pre maxlen = Some (i\<lparr>i_shift := s, i_left := unat n\<rparr>, rv, fin)" "unat n \<le> maxlen"
      using d(1) by (simp_all add: hd_inflate_read_len_def Let_def)
    then show ?thesis using d(2) False by blast
  qed
qed

section \<open>Strings\<close>

text \<open>What reading a part of a string gives: \<open>k\<close> is the room that a byte may take.\<close>

definition part_read :: "nat \<Rightarrow> nghttp2_hd_inflater \<Rightarrow> bytes \<Rightarrow> (nghttp2_hd_inflater \<times> nghttp2_buf \<times> int) option \<Rightarrow> bool" where
  "part_read k i ins got \<longleftrightarrow>
     (\<exists>fs n buf rv. got = Some (i\<lparr>huff_decode_ctx := fs, i_left := n\<rparr>, buf, rv) \<and>
        (rv = NGHTTP2_ERR_HEADER_COMP \<or>
         rv = int (min (i_left i) (length ins)) \<and> n = i_left i - min (i_left i) (length ins) \<and> room_for (k * n) buf \<and>
         (k = 2 \<longrightarrow> node fs \<le> 256)))"

lemma read_huff_any:
  assumes "room_for (2 * i_left i) buf" "node (huff_decode_ctx i) \<le> 256"
  shows "part_read 2 i ins (hd_inflate_read_huff i buf ins)"
proof -
  let ?len = "min (i_left i) (length ins)"
  let ?part = "take (i_left i) ins"
  have part: "(if i_left i \<le> length ins then take (i_left i) ins else ins) = ?part" "length ?part = ?len" by simp_all
  obtain fs out where w: "walk (huff_decode_ctx i) (nibbles ?part) = (fs, out)" by (cases "walk (huff_decode_ctx i) (nibbles ?part)")
  have av: "buf_ok buf" "2 * length ?part \<le> nghttp2_buf_avail buf" using assms(1) by (auto simp: room_for_def)
  obtain buf' where r: "decode_loop (huff_decode_ctx i) buf ?part = Some (fs, buf')" "buf_ok buf'"
    "nghttp2_buf_avail buf \<le> nghttp2_buf_avail buf' + 2 * length ?part" "node fs \<le> 256"
    using loop_walk [OF assms(2) av w] by blast
  have room: "room_for (2 * (i_left i - ?len)) buf'"
    using assms(1) r(2,3) decode_loop_pos [OF r(1)] by (auto simp: room_for_def)
  define rv where "rv = (if i_left i \<le> length ins \<and> fs AND NGHTTP2_HUFF_ACCEPTED = 0 then NGHTTP2_ERR_HEADER_COMP else int ?len)"
  have d: "nghttp2_hd_huff_decode (huff_decode_ctx i) buf (if i_left i \<le> length ins then take (i_left i) ins else ins) (i_left i \<le> length ins) = Some (fs, buf', rv)"
    unfolding part(1) using r(1) by (simp add: nghttp2_hd_huff_decode_def rv_def min.commute)
  show ?thesis
  proof (cases "rv < 0 \<or> nghttp2_hd_huff_decode_failure_state fs")
    case True
    have "i\<lparr>huff_decode_ctx := fs\<rparr> = i\<lparr>huff_decode_ctx := fs, i_left := i_left i\<rparr>" by simp
    moreover have "rv < 0 \<Longrightarrow> rv = NGHTTP2_ERR_HEADER_COMP" by (simp add: rv_def split: if_splits)
    ultimately have "hd_inflate_read_huff i buf ins = Some (i\<lparr>huff_decode_ctx := fs, i_left := i_left i\<rparr>, buf', NGHTTP2_ERR_HEADER_COMP)"
      using True unfolding hd_inflate_read_huff_def Let_def d by auto
    then show ?thesis unfolding part_read_def by blast
  next
    case False
    then have "rv = int ?len" by (simp add: rv_def split: if_splits)
    then have "hd_inflate_read_huff i buf ins = Some (i\<lparr>huff_decode_ctx := fs, i_left := i_left i - ?len\<rparr>, buf', int ?len)"
      using False unfolding hd_inflate_read_huff_def Let_def d by auto
    then show ?thesis using room r(4) unfolding part_read_def by blast
  qed
qed

lemma read_any:
  assumes "room_for (i_left i) buf"
  shows "part_read 1 i ins (hd_inflate_read i buf ins)"
proof -
  let ?len = "min (i_left i) (length ins)"
  have av: "buf_ok buf" "length (take ?len ins) \<le> nghttp2_buf_avail buf" using assms by (auto simp: room_for_def)
  obtain b where b: "buf_put (take ?len ins) buf = Some b" "buf_ok b" "nghttp2_buf_avail b = nghttp2_buf_avail buf - ?len"
    using present_put [OF av] by auto
  have "room_for (i_left i - ?len) b" using assms b put_pos [OF b(1)] by (auto simp: room_for_def)
  moreover have "hd_inflate_read i buf ins = Some (i\<lparr>huff_decode_ctx := huff_decode_ctx i, i_left := i_left i - ?len\<rparr>, b, int ?len)"
    using b(1) by (simp add: hd_inflate_read_def Let_def min.commute)
  ultimately show ?thesis
    unfolding part_read_def
    by (intro exI [of _ "huff_decode_ctx i"] exI [of _ "i_left i - ?len"] exI [of _ b] exI [of _ "int ?len"]) simp
qed

lemma put_nul_any: "room_for n buf \<Longrightarrow> \<exists>buf' s. put_nul buf = Some buf' \<and> rcbuf_string (Some (nghttp2_buf_len buf')) buf' = Some s"
  using put_nul_ok [of buf "present buf"] by (auto simp: room_for_def string_in_def)

lemma alloc_any:
  "\<exists>m. rcbuf_alloc i n = (ok, i1, d) \<longrightarrow> i1 = i\<lparr>i_ctx := (i_ctx i)\<lparr>ctx_mem := m\<rparr>\<rparr> \<and> length d = n \<and>
     (\<exists>u. mem_answers (ctx_mem (i_ctx i)) = u @ mem_answers m) \<and> (\<not> ok \<longrightarrow> \<not> list_all id (mem_answers (ctx_mem (i_ctx i))))"
  by (cases "mem_answers (ctx_mem (i_ctx i))") (auto simp: rcbuf_alloc_def hd_malloc_def mem_alloc_def)

lemma wrap_room: "n < length d \<Longrightarrow> room_for n (nghttp2_buf_wrap_init d)"
  using wrap_ok [of d] by (simp add: room_for_def)

lemma ctx_safe_mem [simp]: "ctx_ok (c\<lparr>ctx_mem := m\<rparr>) es = ctx_ok c es" "get_max_index (c\<lparr>ctx_mem := m\<rparr>) = get_max_index c"
  by (simp_all add: ctx_ok_def ctx_repr_def get_max_index_def)

lemma start_node: "node nghttp2_hd_huff_decode_context_init \<le> 256"
  by (simp add: node_def nghttp2_hd_huff_decode_context_init_def)

section \<open>The turns\<close>

lemma opcode_turn:
  assumes i: "inflater_ok i" "\<not> in_value i" "rank (i_state i) = 2" and ins: "ins \<noteq> []"
  shows "\<exists>r. inflate_opcode i ins = Some r \<and> turn_ok i ins r"
proof -
  obtain b rest where "ins = b # rest" using ins by (cases ins) auto
  then show ?thesis
    using i by (auto simp: inflate_opcode_def Let_def inflater_ok_def ctx_safe_def same_life_def in_value_def error_ok_def suffix_Cons)
qed

lemma expect_turn:
  assumes i: "inflater_ok i" "\<not> in_value i" "rank (i_state i) = 2" and ins: "ins \<noteq> []"
  shows "\<exists>r. inflate_expect_table_size i ins = Some r \<and> turn_ok i ins r"
proof -
  obtain b rest where b: "ins = b # rest" using ins by (cases ins) auto
  show ?thesis
    using opcode_turn [OF assms] i(1) unfolding inflate_expect_table_size_def b
    by (auto simp: inflater_ok_def error_ok_def)
qed

text \<open>After an integer: it is wrong, it goes on, or it is read.\<close>

lemma len_turn:
  assumes ins: "ins \<noteq> []" and i: "ctx_safe i" "\<not> in_value i"
    and mono: "\<And>sh n. inflater_ok (i\<lparr>i_shift := sh, i_left := n\<rparr>)"
    and same: "same_life i0 i" "ctx_mem (i_ctx i0) = ctx_mem (i_ctx i)"
    and whole: "\<And>sh n rv. read_bounds ins True rv \<Longrightarrow> n \<le> maxlen \<Longrightarrow>
      \<exists>r. f (i\<lparr>i_shift := sh, i_left := n\<rparr>) rv = Some r \<and> turn_ok i0 ins r"
  shows "\<exists>r. (do {
     (i1, rv, rfin) \<leftarrow> hd_inflate_read_len i ins pre maxlen;
     if rv < 0 then Some (Fail i1 rv)
     else if \<not> rfin then Some (Almost i1 (drop (nat rv) ins))
     else f i1 rv }) = Some r \<and> turn_ok i0 ins r"
proof -
  obtain sh n rv fin where l: "hd_inflate_read_len i ins pre maxlen = Some (i\<lparr>i_shift := sh, i_left := n\<rparr>, rv, fin)"
    "rv = NGHTTP2_ERR_HEADER_COMP \<or> read_bounds ins fin rv \<and> n \<le> maxlen"
    using read_len_any_input [OF ins] by blast
  let ?i = "i\<lparr>i_shift := sh, i_left := n\<rparr>"
  have s: "same_life i0 ?i" "\<not> in_value ?i" "ctx_safe ?i" using same i by (simp_all add: same_life_def in_value_def ctx_safe_def)
  consider (bad) "rv = NGHTTP2_ERR_HEADER_COMP" | (cut) "read_bounds ins False rv" "\<not> fin" "n \<le> maxlen" | (all) "read_bounds ins True rv" "fin" "n \<le> maxlen"
    using l(2) by (cases fin) auto
  then show ?thesis
  proof cases
    case bad
    then show ?thesis using l(1) s by (simp add: error_ok_def)
  next
    case cut
    then show ?thesis using l(1) s mono by (simp add: read_bounds_def)
  next
    case all
    then have "\<not> rv < 0" by (simp add: read_bounds_def)
    then show ?thesis using l(1) whole [OF all(1,3)] all(2) by simp
  qed
qed

lemma read_bounds_drop: "read_bounds ins True rv \<Longrightarrow> length (drop (nat rv) ins) < length ins"
  by (auto simp: read_bounds_def)

lemma table_size_turn:
  assumes i: "inflater_ok i" "i_state i = NGHTTP2_HD_STATE_READ_TABLE_SIZE" and ins: "ins \<noteq> []"
  shows "\<exists>r. inflate_read_table_size i ins = Some r \<and> turn_ok i ins r"
  unfolding inflate_read_table_size_def
proof (rule len_turn [OF ins])
  show "ctx_safe i" "\<not> in_value i" "same_life i i" "ctx_mem (i_ctx i) = ctx_mem (i_ctx i)"
    using i by (simp_all add: inflater_ok_def in_value_def)
  show "inflater_ok (i\<lparr>i_shift := sh, i_left := n\<rparr>)" for sh n using i by (simp add: inflater_ok_def ctx_safe_def)
next
  fix sh n rv
  assume rv: "read_bounds ins True rv" and n: "n \<le> min (i_min_hd_table_bufsize_max i) (settings_hd_table_bufsize_max i)"
  obtain es where es: "ctx_ok (i_ctx i) es" "settings_hd_table_bufsize_max i < 2 ^ 32" using i by (auto simp: inflater_ok_def ctx_safe_def)
  let ?c = "(i_ctx i)\<lparr>hd_table_bufsize_max := n\<rparr>"
  have c: "ctx_repr ?c es" "hd_table_bufsize_max ?c < 2 ^ 32" using es n by (simp_all add: ctx_ok_def ctx_repr_def)
  obtain rb b where s: "hd_context_shrink_table_size ?c None = Some (?c\<lparr>hd_table := rb, hd_table_bufsize := b\<rparr>, None)"
    "ctx_ok (?c\<lparr>hd_table := rb, hd_table_bufsize := b\<rparr>) (keep ent_room n es)"
    using shrink_none [OF c] by (auto simp: Let_def)
  let ?i1 = "i\<lparr>i_shift := sh, i_left := n\<rparr>"
  let ?r = "Go (?i1\<lparr>i_min_hd_table_bufsize_max := UINT32_MAX, i_ctx := ?c\<lparr>hd_table := rb, hd_table_bufsize := b\<rparr>,
      i_state := NGHTTP2_HD_STATE_INFLATE_START\<rparr>) (drop (nat rv) ins) False"
  have "turn_ok i ins ?r"
    using s(2) n es(2) i read_bounds_drop [OF rv] by (auto simp: inflater_ok_def ctx_safe_def same_life_def in_value_def suffix_drop)
  moreover have "(do {
       (ctx, _) \<leftarrow> hd_context_shrink_table_size ((i_ctx ?i1)\<lparr>hd_table_bufsize_max := i_left ?i1\<rparr>) None;
       Some (Go (?i1\<lparr>i_min_hd_table_bufsize_max := UINT32_MAX, i_ctx := ctx, i_state := NGHTTP2_HD_STATE_INFLATE_START\<rparr>)
               (drop (nat rv) ins) False)
     }) = Some ?r" using s(1) by simp
  ultimately show "\<exists>r. (do {
       (ctx, _) \<leftarrow> hd_context_shrink_table_size ((i_ctx ?i1)\<lparr>hd_table_bufsize_max := i_left ?i1\<rparr>) None;
       Some (Go (?i1\<lparr>i_min_hd_table_bufsize_max := UINT32_MAX, i_ctx := ctx, i_state := NGHTTP2_HD_STATE_INFLATE_START\<rparr>)
               (drop (nat rv) ins) False)
     }) = Some r \<and> turn_ok i ins r" by blast
qed

lemma index_turn:
  assumes i: "inflater_ok i" "i_state i = NGHTTP2_HD_STATE_READ_INDEX" and ins: "ins \<noteq> []"
  shows "\<exists>r. inflate_read_index i ins = Some r \<and> turn_ok i ins r"
  unfolding inflate_read_index_def Let_def
proof (rule len_turn [OF ins])
  show "ctx_safe i" "\<not> in_value i" "same_life i i" "ctx_mem (i_ctx i) = ctx_mem (i_ctx i)"
    using i by (simp_all add: inflater_ok_def in_value_def)
  show "inflater_ok (i\<lparr>i_shift := sh, i_left := n\<rparr>)" for sh n using i by (simp add: inflater_ok_def ctx_safe_def)
next
  fix sh n rv
  assume rv: "read_bounds ins True rv" and n: "n \<le> get_max_index (i_ctx i)"
  obtain es where es: "ctx_ok (i_ctx i) es" using i by (auto simp: inflater_ok_def ctx_safe_def)
  have max: "get_max_index (i_ctx i) = length es + 61" by (rule max_index [OF ctx_ok_repr [OF es]])
  have get: "n \<noteq> 0 \<Longrightarrow> nghttp2_hd_table_get (i_ctx i) (n - 1) = Some (address_space es ! (n - 1))"
    using table_get [OF ctx_ok_repr [OF es], of "n - 1"] n max by simp
  show "\<exists>r. (if i_left (i\<lparr>i_shift := sh, i_left := n\<rparr>) = 0 then Some (Fail (i\<lparr>i_shift := sh, i_left := n\<rparr>) NGHTTP2_ERR_HEADER_COMP)
      else if i_opcode (i\<lparr>i_shift := sh, i_left := n, i_index := i_left (i\<lparr>i_shift := sh, i_left := n\<rparr>) - 1\<rparr>) = NGHTTP2_HD_OPCODE_INDEXED
      then map_option (Emit (i\<lparr>i_shift := sh, i_left := n, i_index := i_left (i\<lparr>i_shift := sh, i_left := n\<rparr>) - 1, i_state := NGHTTP2_HD_STATE_OPCODE\<rparr>) (drop (nat rv) ins))
        (hd_inflate_commit_indexed (i\<lparr>i_shift := sh, i_left := n, i_index := i_left (i\<lparr>i_shift := sh, i_left := n\<rparr>) - 1\<rparr>))
      else Some (Go (i\<lparr>i_shift := sh, i_left := n, i_index := i_left (i\<lparr>i_shift := sh, i_left := n\<rparr>) - 1, i_state := NGHTTP2_HD_STATE_CHECK_VALUELEN\<rparr>)
        (drop (nat rv) ins) False)) = Some r \<and> turn_ok i ins r"
    using i n get read_bounds_drop [OF rv]
    by (auto simp: hd_inflate_commit_indexed_def inflater_ok_def ctx_safe_def same_life_def in_value_def suffix_drop name_set_def error_ok_def)
qed

text \<open>A block for a string: twice its length if it is compressed, and the NUL.\<close>

lemma block_turn:
  assumes i: "ctx_safe i" "same_life i0 i" "ctx_mem (i_ctx i0) = ctx_mem (i_ctx i)"
    and n: "n = (if huffman_encoded i then i_left i * 2 + 1 else i_left i + 1)"
    and go: "\<And>m d. room_for (if huffman_encoded i then 2 * i_left i else i_left i) (nghttp2_buf_wrap_init d) \<Longrightarrow>
      ctx_safe (i\<lparr>i_ctx := (i_ctx i)\<lparr>ctx_mem := m\<rparr>\<rparr>) \<Longrightarrow> same_life i0 (i\<lparr>i_ctx := (i_ctx i)\<lparr>ctx_mem := m\<rparr>\<rparr>) \<Longrightarrow>
      turn_ok i0 ins (f (i\<lparr>i_ctx := (i_ctx i)\<lparr>ctx_mem := m\<rparr>\<rparr>) (nghttp2_buf_wrap_init d))"
  shows "\<exists>r. (case rcbuf_alloc i n of
      (ok, i3, base) \<Rightarrow> if \<not> ok then Some (Fail i3 NGHTTP2_ERR_NOMEM) else Some (f i3 (nghttp2_buf_wrap_init base))) = Some r \<and> turn_ok i0 ins r"
proof -
  obtain ok i3 d where a: "rcbuf_alloc i n = (ok, i3, d)" by (cases "rcbuf_alloc i n")
  obtain m where m: "i3 = i\<lparr>i_ctx := (i_ctx i)\<lparr>ctx_mem := m\<rparr>\<rparr>" "length d = n" "\<exists>u. mem_answers (ctx_mem (i_ctx i)) = u @ mem_answers m"
    "\<not> ok \<longrightarrow> \<not> list_all id (mem_answers (ctx_mem (i_ctx i)))"
    using alloc_any [of i n ok i3 d] a by blast
  have life: "ctx_safe i3" "same_life i0 i3" using i m(1,3) by (auto simp: ctx_safe_def same_life_def)
  show ?thesis
  proof (cases ok)
    case True
    have "room_for (if huffman_encoded i then 2 * i_left i else i_left i) (nghttp2_buf_wrap_init d)"
      by (rule wrap_room) (simp add: m(2) n)
    then show ?thesis using a True go [of d m] life unfolding m(1) by simp
  next
    case False
    then show ?thesis using a life m(4) i(3) by (simp add: error_ok_def)
  qed
qed

lemma namelen_turn:
  assumes i: "inflater_ok i" "i_state i = NGHTTP2_HD_STATE_NEWNAME_READ_NAMELEN" and ins: "ins \<noteq> []"
    and same: "same_life i0 i" "ctx_mem (i_ctx i0) = ctx_mem (i_ctx i)"
  shows "\<exists>r. inflate_read_namelen i ins = Some r \<and> turn_ok i0 ins r"
  unfolding inflate_read_namelen_def Let_def
proof (rule len_turn [OF ins _ _ _ same])
  show "ctx_safe i" "\<not> in_value i" using i by (simp_all add: inflater_ok_def in_value_def)
  show "inflater_ok (i\<lparr>i_shift := sh, i_left := n\<rparr>)" for sh n using i by (simp add: inflater_ok_def ctx_safe_def)
next
  fix sh n rv
  assume rv: "read_bounds ins True rv"
  let ?i1 = "i\<lparr>i_shift := sh, i_left := n\<rparr>"
  let ?i2 = "if huffman_encoded ?i1
      then ?i1\<lparr>huff_decode_ctx := nghttp2_hd_huff_decode_context_init, i_state := NGHTTP2_HD_STATE_NEWNAME_READ_NAMEHUFF\<rparr>
      else ?i1\<lparr>i_state := NGHTTP2_HD_STATE_NEWNAME_READ_NAME\<rparr>"
  let ?n = "if huffman_encoded ?i1 then i_left ?i1 * 2 + 1 else i_left ?i1 + 1"
  have less: "length (drop (nat rv) ins) < length ins" "suffix (drop (nat rv) ins) ins" using read_bounds_drop [OF rv] by (simp_all add: suffix_drop)
  have op: "i_opcode i = NGHTTP2_HD_OPCODE_NEWNAME" using i by (simp add: inflater_ok_def)
  show "\<exists>r. (case rcbuf_alloc ?i2 ?n of
      (ok, i3, base) \<Rightarrow> if \<not> ok then Some (Fail i3 NGHTTP2_ERR_NOMEM)
        else Some (Go (i3\<lparr>namercbuf := Some ?n, namebuf := nghttp2_buf_wrap_init base\<rparr>) (drop (nat rv) ins) False)) = Some r \<and> turn_ok i0 ins r"
  proof (rule block_turn)
    show "ctx_safe ?i2" "same_life i0 ?i2" "ctx_mem (i_ctx i0) = ctx_mem (i_ctx ?i2)"
      using i same by (simp_all add: inflater_ok_def ctx_safe_def same_life_def)
    show "?n = (if huffman_encoded ?i2 then i_left ?i2 * 2 + 1 else i_left ?i2 + 1)" by simp
  next
    fix m d
    assume room: "room_for (if huffman_encoded ?i2 then 2 * i_left ?i2 else i_left ?i2) (nghttp2_buf_wrap_init d)"
      and life: "ctx_safe (?i2\<lparr>i_ctx := (i_ctx ?i2)\<lparr>ctx_mem := m\<rparr>\<rparr>)" "same_life i0 (?i2\<lparr>i_ctx := (i_ctx ?i2)\<lparr>ctx_mem := m\<rparr>\<rparr>)"
    let ?i3 = "?i2\<lparr>i_ctx := (i_ctx ?i2)\<lparr>ctx_mem := m\<rparr>, namercbuf := Some ?n, namebuf := nghttp2_buf_wrap_init d\<rparr>"
    have "ctx_safe ?i3" "same_life i0 ?i3" "\<not> in_value ?i3" using life by (auto simp: ctx_safe_def same_life_def in_value_def)
    moreover have "state_ok (i_state ?i3) ?i3" using room op start_node by auto
    moreover have "rank (i_state ?i3) = 1" by simp
    ultimately show "turn_ok i0 ins (Go ((?i2\<lparr>i_ctx := (i_ctx ?i2)\<lparr>ctx_mem := m\<rparr>\<rparr>)\<lparr>namercbuf := Some ?n, namebuf := nghttp2_buf_wrap_init d\<rparr>) (drop (nat rv) ins) False)"
      using less by (simp add: inflater_ok_def)
  qed
qed

lemma valuelen_turn:
  assumes i: "inflater_ok i" "i_state i = NGHTTP2_HD_STATE_READ_VALUELEN" and ins: "ins \<noteq> []"
    and same: "same_life i0 i" "ctx_mem (i_ctx i0) = ctx_mem (i_ctx i)"
  shows "\<exists>r. inflate_read_valuelen i ins = Some r \<and> turn_ok i0 ins r"
  unfolding inflate_read_valuelen_def Let_def
proof (rule len_turn [OF ins _ _ _ same])
  show "ctx_safe i" "\<not> in_value i" using i by (simp_all add: inflater_ok_def in_value_def)
  show "inflater_ok (i\<lparr>i_shift := sh, i_left := n\<rparr>)" for sh n using i by (simp add: inflater_ok_def ctx_safe_def name_set_def)
next
  fix sh n rv
  assume rv: "read_bounds ins True rv"
  let ?i1 = "i\<lparr>i_shift := sh, i_left := n\<rparr>"
  let ?i2 = "if huffman_encoded ?i1
      then ?i1\<lparr>huff_decode_ctx := nghttp2_hd_huff_decode_context_init, i_state := NGHTTP2_HD_STATE_READ_VALUEHUFF\<rparr>
      else ?i1\<lparr>i_state := NGHTTP2_HD_STATE_READ_VALUE\<rparr>"
  let ?n = "if huffman_encoded ?i1 then i_left ?i1 * 2 + 1 else i_left ?i1 + 1"
  have less: "length (drop (nat rv) ins) < length ins" "suffix (drop (nat rv) ins) ins" using read_bounds_drop [OF rv] by (simp_all add: suffix_drop)
  have name: "name_set i" using i by (simp add: inflater_ok_def)
  show "\<exists>r. (case rcbuf_alloc ?i2 ?n of
      (ok, i3, base) \<Rightarrow> if \<not> ok then Some (Fail i3 NGHTTP2_ERR_NOMEM)
        else Some (Go (i3\<lparr>valuercbuf := Some ?n, valuebuf := nghttp2_buf_wrap_init base\<rparr>) (drop (nat rv) ins) True)) = Some r \<and> turn_ok i0 ins r"
  proof (rule block_turn)
    show "ctx_safe ?i2" "same_life i0 ?i2" "ctx_mem (i_ctx i0) = ctx_mem (i_ctx ?i2)"
      using i same by (simp_all add: inflater_ok_def ctx_safe_def same_life_def)
    show "?n = (if huffman_encoded ?i2 then i_left ?i2 * 2 + 1 else i_left ?i2 + 1)" by simp
  next
    fix m d
    assume room: "room_for (if huffman_encoded ?i2 then 2 * i_left ?i2 else i_left ?i2) (nghttp2_buf_wrap_init d)"
      and life: "ctx_safe (?i2\<lparr>i_ctx := (i_ctx ?i2)\<lparr>ctx_mem := m\<rparr>\<rparr>)" "same_life i0 (?i2\<lparr>i_ctx := (i_ctx ?i2)\<lparr>ctx_mem := m\<rparr>\<rparr>)"
    let ?i3 = "?i2\<lparr>i_ctx := (i_ctx ?i2)\<lparr>ctx_mem := m\<rparr>, valuercbuf := Some ?n, valuebuf := nghttp2_buf_wrap_init d\<rparr>"
    have "ctx_safe ?i3" "same_life i0 ?i3" "in_value ?i3" using life by (auto simp: ctx_safe_def same_life_def in_value_def)
    moreover have "state_ok (i_state ?i3) ?i3" using room name start_node by (auto simp: name_set_def)
    moreover have "rank (i_state ?i3) = 0" by simp
    ultimately show "turn_ok i0 ins (Go ((?i2\<lparr>i_ctx := (i_ctx ?i2)\<lparr>ctx_mem := m\<rparr>\<rparr>)\<lparr>valuercbuf := Some ?n, valuebuf := nghttp2_buf_wrap_init d\<rparr>) (drop (nat rv) ins) True)"
      using less by (simp add: inflater_ok_def)
  qed
qed

lemma check_namelen_turn:
  assumes i: "inflater_ok i" "i_state i = NGHTTP2_HD_STATE_NEWNAME_CHECK_NAMELEN" and ins: "ins \<noteq> []"
  shows "\<exists>r. inflate_check_namelen i ins = Some r \<and> turn_ok i ins r"
proof -
  obtain b rest where b: "ins = b # rest" using ins by (cases ins) auto
  let ?i = "i\<lparr>huffman_encoded := b AND push_bit 7 1 \<noteq> 0, i_state := NGHTTP2_HD_STATE_NEWNAME_READ_NAMELEN, i_left := 0, i_shift := 0\<rparr>"
  have "inflater_ok ?i" "same_life i ?i" using i by (simp_all add: inflater_ok_def ctx_safe_def same_life_def)
  from namelen_turn [OF this(1) _ ins this(2)] show ?thesis
    unfolding inflate_check_namelen_def hd_inflate_set_huffman_encoded_def b by simp
qed

lemma check_valuelen_turn:
  assumes i: "inflater_ok i" "i_state i = NGHTTP2_HD_STATE_CHECK_VALUELEN" and ins: "ins \<noteq> []"
  shows "\<exists>r. inflate_check_valuelen i ins = Some r \<and> turn_ok i ins r"
proof -
  obtain b rest where b: "ins = b # rest" using ins by (cases ins) auto
  let ?i = "i\<lparr>huffman_encoded := b AND push_bit 7 1 \<noteq> 0, i_state := NGHTTP2_HD_STATE_READ_VALUELEN, i_left := 0, i_shift := 0\<rparr>"
  have "inflater_ok ?i" "same_life i ?i" using i by (simp_all add: inflater_ok_def ctx_safe_def same_life_def name_set_def)
  from valuelen_turn [OF this(1) _ ins this(2)] show ?thesis
    unfolding inflate_check_valuelen_def hd_inflate_set_huffman_encoded_def b by simp
qed

lemma finish_name_turn:
  assumes i: "ctx_safe i" "i_opcode i = NGHTTP2_HD_OPCODE_NEWNAME"
    and st: "k = 2 \<and> i_state i = NGHTTP2_HD_STATE_NEWNAME_READ_NAMEHUFF \<or> k = 1 \<and> i_state i = NGHTTP2_HD_STATE_NEWNAME_READ_NAME"
    and got: "part_read k i ins got"
  shows "\<exists>r. finish_name got ins = Some r \<and> turn_ok i ins r"
proof -
  obtain fs n buf rv where g: "got = Some (i\<lparr>huff_decode_ctx := fs, i_left := n\<rparr>, buf, rv)"
    "rv = NGHTTP2_ERR_HEADER_COMP \<or> rv = int (min (i_left i) (length ins)) \<and> n = i_left i - min (i_left i) (length ins) \<and>
       room_for (k * n) buf \<and> (k = 2 \<longrightarrow> node fs \<le> 256)" using got by (auto simp: part_read_def)
  let ?i = "i\<lparr>huff_decode_ctx := fs, i_left := n, namebuf := buf\<rparr>"
  have life: "ctx_safe ?i" "same_life i ?i" using i by (simp_all add: ctx_safe_def same_life_def)
  consider (bad) "rv = NGHTTP2_ERR_HEADER_COMP" | (part) "rv = int (length ins)" "n \<noteq> 0" "room_for (k * n) buf" "k = 2 \<longrightarrow> node fs \<le> 256"
    | (all) "rv = int (i_left i)" "n = 0" "i_left i \<le> length ins" "room_for 0 buf"
    using g(2) by (cases "i_left i \<le> length ins") auto
  then show ?thesis
  proof cases
    case bad
    then show ?thesis using g(1) life by (simp add: finish_name_def error_ok_def)
  next
    case part
    then show ?thesis using g(1) life st i(2) by (auto simp: finish_name_def inflater_ok_def in_value_def)
  next
    case all
    obtain buf' s where b: "put_nul buf = Some buf'" "rcbuf_string (Some (nghttp2_buf_len buf')) buf' = Some s"
      using put_nul_any [OF all(4)] by blast
    let ?i1 = "?i\<lparr>namebuf := buf', namercbuf := Some (nghttp2_buf_len buf'), i_state := NGHTTP2_HD_STATE_CHECK_VALUELEN\<rparr>"
    have "turn_ok i ins (Go ?i1 (drop (nat rv) ins) False)"
      using i st b(2) all(2) by (auto simp: inflater_ok_def ctx_safe_def same_life_def in_value_def name_set_def suffix_drop)
    then show ?thesis using g(1) all b(1) by (simp add: finish_name_def)
  qed
qed

text \<open>Finishing a field.\<close>

lemma store_any:
  assumes "ctx_ok c es" "hd_table_bufsize_max c \<le> limit"
  shows "\<exists>ctx m rv. (if req then add_hd_table_incremental c nv None 0 else Some (c, None, 0)) = Some (ctx, m, rv) \<and>
    (\<exists>es'. ctx_ok ctx es') \<and> hd_table_bufsize_max ctx \<le> limit \<and> ctx_bad ctx = ctx_bad c \<and>
    (\<exists>u. mem_answers (ctx_mem c) = u @ mem_answers (ctx_mem ctx)) \<and>
    (rv \<noteq> 0 \<longrightarrow> rv = NGHTTP2_ERR_NOMEM \<and> \<not> list_all id (mem_answers (ctx_mem c)))"
proof (cases req)
  case True
  obtain ctx m rv es' where a: "add_hd_table_incremental c nv None 0 = Some (ctx, m, rv)"
    "entry_added c es \<lparr>ent_nv = nv, ent_seq = next_seq c, ent_hash = 0\<rparr> ctx es' rv"
    using add_ok [OF assms(1) _ refl, of None nv 0] by auto
  have "ctx_ok ctx es'" "hd_table_bufsize_max ctx = hd_table_bufsize_max c" "ctx_bad ctx = ctx_bad c"
    "\<exists>u. mem_answers (ctx_mem c) = u @ mem_answers (ctx_mem ctx)"
    "rv \<noteq> 0 \<longrightarrow> rv = NGHTTP2_ERR_NOMEM \<and> \<not> list_all id (mem_answers (ctx_mem c))"
    using a(2) unfolding entry_added_def by (blast, blast, blast, blast, argo)
  then show ?thesis using True a(1) assms(2) by fastforce
next
  case False
  then show ?thesis using assms by auto
qed

lemma commit_any:
  assumes i: "ctx_safe i" "name_set i" and val: "rcbuf_string (valuercbuf i) (valuebuf i) = Some v"
  shows "\<exists>i3 nv rv. commit i = Some (i3, nv, rv) \<and> ctx_safe i3 \<and> same_life i i3 \<and> (rv \<noteq> 0 \<longrightarrow> error_ok i rv)"
proof -
  obtain es where es: "ctx_ok (i_ctx i) es" "hd_table_bufsize_max (i_ctx i) \<le> settings_hd_table_bufsize_max i"
    using i(1) by (auto simp: ctx_safe_def)
  have safe: "settings_hd_table_bufsize_max i < 2 ^ 32" using i(1) by (simp add: ctx_safe_def)
  have max: "get_max_index (i_ctx i) = length es + 61" by (rule max_index [OF ctx_ok_repr [OF es(1)]])
  have store: "\<exists>ctx m rv. (if req then add_hd_table_incremental (i_ctx i) nv None 0 else Some (i_ctx i, None, 0)) = Some (ctx, m, rv) \<and>
      ctx_safe (i\<lparr>i_ctx := ctx\<rparr>) \<and> same_life i (i\<lparr>i_ctx := ctx\<rparr>) \<and> (rv \<noteq> 0 \<longrightarrow> rv = NGHTTP2_ERR_NOMEM \<and> error_ok i rv)" for req nv
    using store_any [OF es, of req nv] safe by (fastforce simp: ctx_safe_def same_life_def error_ok_def)
  have keep: "ctx_safe (i\<lparr>i_ctx := ctx, nv_name_keep := a, nv_value_keep := b, namercbuf := c, valuercbuf := d\<rparr>) = ctx_safe (i\<lparr>i_ctx := ctx\<rparr>)"
    "same_life i (i\<lparr>i_ctx := ctx, nv_name_keep := a, nv_value_keep := b, namercbuf := c, valuercbuf := d\<rparr>) = same_life i (i\<lparr>i_ctx := ctx\<rparr>)"
    "ctx_safe (i\<lparr>i_ctx := ctx, nv_name_keep := a, nv_value_keep := b, valuercbuf := d\<rparr>) = ctx_safe (i\<lparr>i_ctx := ctx\<rparr>)"
    "same_life i (i\<lparr>i_ctx := ctx, nv_name_keep := a, nv_value_keep := b, valuercbuf := d\<rparr>) = same_life i (i\<lparr>i_ctx := ctx\<rparr>)"
    for ctx a b c d by (simp_all add: ctx_safe_def same_life_def)
  show ?thesis
  proof (cases "i_opcode i = NGHTTP2_HD_OPCODE_NEWNAME")
    case True
    then obtain n where n: "rcbuf_string (namercbuf i) (namebuf i) = Some n" using i(2) by (auto simp: name_set_def)
    let ?nv = "\<lparr>nv_name = n, nv_value = v, nv_token = lookup_token n, nv_flags = commit_flags i\<rparr>"
    obtain ctx m rv where s: "(if index_required i then add_hd_table_incremental (i_ctx i) ?nv None 0 else Some (i_ctx i, None, 0)) = Some (ctx, m, rv)"
      "ctx_safe (i\<lparr>i_ctx := ctx\<rparr>)" "same_life i (i\<lparr>i_ctx := ctx\<rparr>)" "rv \<noteq> 0 \<longrightarrow> error_ok i rv"
      using store [of "index_required i" ?nv] by blast
    then show ?thesis
      using True n val keep by (cases "rv = 0") (simp_all add: commit_def hd_inflate_commit_newname_def Let_def split del: if_split)
  next
    case False
    then have idx: "i_index i < length es + 61" using i(2) max by (simp add: name_set_def)
    let ?base = "address_space es ! i_index i"
    have get: "nghttp2_hd_table_get (i_ctx i) (i_index i) = Some ?base" using table_get [OF ctx_ok_repr [OF es(1)]] idx by simp
    let ?nv = "?base\<lparr>nv_flags := commit_flags i, nv_value := v\<rparr>"
    obtain ctx m rv where s: "(if index_required i then add_hd_table_incremental (i_ctx i) ?nv None 0 else Some (i_ctx i, None, 0)) = Some (ctx, m, rv)"
      "ctx_safe (i\<lparr>i_ctx := ctx\<rparr>)" "same_life i (i\<lparr>i_ctx := ctx\<rparr>)" "rv \<noteq> 0 \<longrightarrow> rv = NGHTTP2_ERR_NOMEM \<and> error_ok i rv"
      using store [of "index_required i" ?nv] by blast
    have "rv \<noteq> 0 \<longrightarrow> error_ok i NGHTTP2_ERR_NOMEM" using s(4) by auto
    then show ?thesis
      using s(1-3) False get val keep by (cases "rv = 0") (simp_all add: commit_def hd_inflate_commit_indname_def Let_def split del: if_split)
  qed
qed

lemma finish_value_turn:
  assumes i: "ctx_safe i" "name_set i"
    and st: "k = 2 \<and> i_state i = NGHTTP2_HD_STATE_READ_VALUEHUFF \<or> k = 1 \<and> i_state i = NGHTTP2_HD_STATE_READ_VALUE"
    and got: "part_read k i ins got"
  shows "\<exists>r. finish_value got ins = Some r \<and> turn_ok i ins r"
proof -
  obtain fs n buf rv where g: "got = Some (i\<lparr>huff_decode_ctx := fs, i_left := n\<rparr>, buf, rv)"
    "rv = NGHTTP2_ERR_HEADER_COMP \<or> rv = int (min (i_left i) (length ins)) \<and> n = i_left i - min (i_left i) (length ins) \<and>
       room_for (k * n) buf \<and> (k = 2 \<longrightarrow> node fs \<le> 256)" using got by (auto simp: part_read_def)
  let ?i = "i\<lparr>huff_decode_ctx := fs, i_left := n, valuebuf := buf\<rparr>"
  have life: "ctx_safe ?i" "same_life i ?i" "name_set ?i" using i by (simp_all add: ctx_safe_def same_life_def name_set_def)
  consider (bad) "rv = NGHTTP2_ERR_HEADER_COMP" | (part) "rv = int (length ins)" "n \<noteq> 0" "room_for (k * n) buf" "k = 2 \<longrightarrow> node fs \<le> 256"
    | (all) "rv = int (i_left i)" "n = 0" "i_left i \<le> length ins" "room_for 0 buf"
    using g(2) by (cases "i_left i \<le> length ins") auto
  then show ?thesis
  proof cases
    case bad
    then show ?thesis using g(1) life by (simp add: finish_value_def error_ok_def)
  next
    case part
    then show ?thesis using g(1) life st by (auto simp: finish_value_def inflater_ok_def in_value_def)
  next
    case all
    obtain buf' s where b: "put_nul buf = Some buf'" "rcbuf_string (Some (nghttp2_buf_len buf')) buf' = Some s"
      using put_nul_any [OF all(4)] by blast
    let ?i1 = "i\<lparr>huff_decode_ctx := fs, i_left := n, valuebuf := buf', valuercbuf := Some (nghttp2_buf_len buf')\<rparr>"
    have i1: "ctx_safe ?i1" "name_set ?i1" "same_life i ?i1" "ctx_mem (i_ctx ?i1) = ctx_mem (i_ctx i)"
      using i by (simp_all add: ctx_safe_def name_set_def same_life_def)
    obtain i3 nv rv1 where c: "commit ?i1 = Some (i3, nv, rv1)" "ctx_safe i3" "same_life ?i1 i3" "rv1 \<noteq> 0 \<longrightarrow> error_ok ?i1 rv1"
      using commit_any [OF i1(1,2), of s] b(2) by auto
    have life3: "same_life i i3" "rv1 \<noteq> 0 \<longrightarrow> error_ok i rv1" using same_life_trans [OF i1(3) c(3)] c(4) i1(4) by (simp_all add: error_ok_def)
    have step: "finish_value got ins = (if rv1 \<noteq> 0 then Some (Fail i3 rv1) else Some (Emit (i3\<lparr>i_state := NGHTTP2_HD_STATE_OPCODE\<rparr>) (drop (nat rv) ins) nv))"
      using g(1) all b(1) c(1) by (simp add: finish_value_def commit_def Let_def cong: if_cong split del: if_split)
    have "turn_ok i ins (Emit (i3\<lparr>i_state := NGHTTP2_HD_STATE_OPCODE\<rparr>) (drop (nat rv) ins) nv)"
      using c(2) life3(1) all(1,3) st by (auto simp: inflater_ok_def ctx_safe_def same_life_def suffix_drop in_value_def)
    then show ?thesis using step c(2) life3 by (cases "rv1 = 0") simp_all
  qed
qed

section \<open>The loop\<close>

lemma step_turn:
  assumes i: "inflater_ok i" and ins: "ins \<noteq> [] \<or> in_value i"
  shows "\<exists>r. inflate_step i ins = Some r \<and> turn_ok i ins r"
proof -
  have ne: "ins \<noteq> []" if "\<not> in_value i" using ins that by simp
  have safe: "ctx_safe i" using i by (simp add: inflater_ok_def)
  show ?thesis
  proof (cases "i_state i")
    case NGHTTP2_HD_STATE_NEWNAME_READ_NAMEHUFF
    then show ?thesis using finish_name_turn [OF safe _ _ read_huff_any] i
      by (simp add: inflate_step_def inflate_read_namehuff_def inflater_ok_def)
  next
    case NGHTTP2_HD_STATE_NEWNAME_READ_NAME
    then show ?thesis using finish_name_turn [OF safe _ _ read_any] i
      by (simp add: inflate_step_def inflate_read_name_def inflater_ok_def)
  next
    case NGHTTP2_HD_STATE_READ_VALUEHUFF
    then show ?thesis using finish_value_turn [OF safe _ _ read_huff_any] i
      by (simp add: inflate_step_def inflate_read_valuehuff_def inflater_ok_def)
  next
    case NGHTTP2_HD_STATE_READ_VALUE
    then show ?thesis using finish_value_turn [OF safe _ _ read_any] i
      by (simp add: inflate_step_def inflate_read_value_def inflater_ok_def)
  qed (use i ne in \<open>simp_all add: inflate_step_def in_value_def opcode_turn expect_turn table_size_turn index_turn
      namelen_turn valuelen_turn check_namelen_turn check_valuelen_turn del: turn_ok.simps\<close>)
qed

text \<open>
  The whole loop: it returns; it has read everything unless there is an error or a field; and a field
  takes at least one byte, if no value was left with nothing to read.
\<close>

fun loop_result :: "nghttp2_hd_inflater \<Rightarrow> bytes \<Rightarrow> inflate_result \<Rightarrow> bool" where
  "loop_result i ins (Go i1 ins1 busy) \<longleftrightarrow> inflater_ok i1 \<and> same_life i i1 \<and> ins1 = [] \<and> (in_value i1 \<longrightarrow> 0 < i_left i1)"
| "loop_result i ins (Almost i1 ins1) \<longleftrightarrow> inflater_ok i1 \<and> same_life i i1 \<and> ins1 = [] \<and> (in_value i1 \<longrightarrow> 0 < i_left i1)"
| "loop_result i ins (Fail i1 rv) \<longleftrightarrow> ctx_safe i1 \<and> same_life i i1 \<and> error_ok i rv"
| "loop_result i ins (Emit i1 ins1 nv) \<longleftrightarrow> inflater_ok i1 \<and> same_life i i1 \<and> suffix ins1 ins \<and> i_state i1 = NGHTTP2_HD_STATE_OPCODE"

lemma error_later: "same_life a b \<Longrightarrow> error_ok b rv \<Longrightarrow> error_ok a rv"
  by (auto simp: same_life_def error_ok_def)

lemma loop_ends:
  "inflater_ok i \<Longrightarrow> busy \<longrightarrow> in_value i \<Longrightarrow> in_value i \<and> \<not> busy \<longrightarrow> 0 < i_left i \<Longrightarrow>
   \<exists>r. inflate_loop i ins busy = Some r \<and> loop_result i ins r \<and> (\<not> busy \<longrightarrow> (\<forall>i1 ins1 nv. r = Emit i1 ins1 nv \<longrightarrow> length ins1 < length ins))"
proof (induction "3 * length ins + rank (i_state i)" arbitrary: i ins busy rule: less_induct)
  case less
  show ?case
  proof (cases "ins = [] \<and> \<not> busy")
    case True
    then show ?thesis using less.prems by (subst inflate_loop.simps) auto
  next
    case False
    obtain r where r: "inflate_step i ins = Some r" "turn_ok i ins r" using step_turn [OF less.prems(1), of ins] less.prems(2) False by blast
    show ?thesis
    proof (cases r)
      case (Go i1 ins1 busy1)
      have t: "inflater_ok i1" "same_life i i1" "suffix ins1 ins" "3 * length ins1 + rank (i_state i1) < 3 * length ins + rank (i_state i)"
        "in_value i1 \<longleftrightarrow> busy1" "busy1 \<longrightarrow> length ins1 < length ins" using r(2) Go by simp_all
      obtain r1 where r1: "inflate_loop i1 ins1 busy1 = Some r1" "loop_result i1 ins1 r1"
        "\<not> busy1 \<longrightarrow> (\<forall>i2 ins2 nv. r1 = Emit i2 ins2 nv \<longrightarrow> length ins2 < length ins1)"
        using less.hyps [OF t(4,1), of busy1] t(5) by blast
      have "inflate_loop i ins busy = Some r1" using r(1) Go r1(1) False by (simp add: loop_go)
      moreover have "loop_result i ins r1"
        using r1(2) t(2,3) same_life_trans [OF t(2)] error_later [OF t(2)] suffix_order.trans [OF _ t(3)] by (cases r1) auto
      moreover have "length ins2 < length ins" if "r1 = Emit i2 ins2 nv" for i2 ins2 nv
        using that r1(2,3) t(3,6) suffix_length_le by (cases busy1) fastforce+
      ultimately show ?thesis by blast
    next
      case (Almost i1 ins1)
      then show ?thesis using r False loop_stop [OF r(1), of busy] by auto
    next
      case (Fail i1 rv)
      then show ?thesis using r False loop_stop [OF r(1), of busy] by auto
    next
      case (Emit i1 ins1 nv)
      then show ?thesis using r False less.prems(2,3) loop_stop [OF r(1), of busy] by auto
    qed
  qed
qed

section \<open>The interface\<close>

definition inflater_safe :: "nghttp2_hd_inflater \<Rightarrow> bool" where
  "inflater_safe i \<longleftrightarrow> ctx_safe i \<and> (\<not> ctx_bad (i_ctx i) \<longrightarrow> state_ok (i_state i) i \<and> (in_value i \<longrightarrow> 0 < i_left i))"

lemma state_ok_keep [simp]: "state_ok st (hd_inflate_keep_free i) = state_ok st i" "in_value (hd_inflate_keep_free i) = in_value i"
    "ctx_safe (hd_inflate_keep_free i) = ctx_safe i" "same_life (hd_inflate_keep_free i) i1 = same_life i i1" "i_left (hd_inflate_keep_free i) = i_left i"
    "error_ok (hd_inflate_keep_free i) rv = error_ok i rv"
  by (cases st) (simp_all add: hd_inflate_keep_free_def name_set_def in_value_def ctx_safe_def same_life_def error_ok_def)

definition mem_before :: "nghttp2_hd_inflater \<Rightarrow> nghttp2_hd_inflater \<Rightarrow> bool" where
  "mem_before i i' \<longleftrightarrow> (\<exists>u. mem_answers (ctx_mem (i_ctx i)) = u @ mem_answers (ctx_mem (i_ctx i')))"

lemma mem_before_trans: "mem_before a b \<Longrightarrow> mem_before b c \<Longrightarrow> mem_before a c"
  by (auto simp: mem_before_def)

lemma mem_before_refl [simp]: "mem_before a a"
  by (simp add: mem_before_def)

text \<open>What a call answers: the bytes it took, or an error, after which the decoder only answers with one.\<close>

definition answer_ok :: "nghttp2_hd_inflater \<Rightarrow> bytes \<Rightarrow> nghttp2_hd_inflater \<Rightarrow> u8 \<Rightarrow> int \<Rightarrow> bool" where
  "answer_ok i ins i1 flags rv \<longleftrightarrow>
     (if rv < 0 then error_ok i rv \<and> ctx_bad (i_ctx i1) \<and> flags = NGHTTP2_HD_INFLATE_NONE
      else rv \<le> int (length ins) \<and> \<not> ctx_bad (i_ctx i1) \<and>
        (if flags = NGHTTP2_HD_INFLATE_EMIT then 0 < rv
         else rv = int (length ins) \<and> (flags = NGHTTP2_HD_INFLATE_NONE \<or> flags = NGHTTP2_HD_INFLATE_FINAL)))"

lemma hd3_safe:
  assumes "inflater_safe i"
  shows "\<exists>i1 flags nv rv. nghttp2_hd_inflate_hd3 i ins in_final = Some (i1, flags, nv, rv) \<and> inflater_safe i1 \<and> mem_before i i1 \<and>
    settings_hd_table_bufsize_max i1 = settings_hd_table_bufsize_max i \<and> (nv \<noteq> None \<longleftrightarrow> flags = NGHTTP2_HD_INFLATE_EMIT) \<and>
    answer_ok i ins i1 flags rv"
proof (cases "ctx_bad (i_ctx i)")
  case True
  then show ?thesis using assms
    by (simp add: nghttp2_hd_inflate_hd3_def nghttp2_hd_inflate_hd_nv_def answer_ok_def error_ok_def)
next
  case False
  have i: "inflater_ok (hd_inflate_keep_free i)" "in_value (hd_inflate_keep_free i) \<and> \<not> False \<longrightarrow> 0 < i_left (hd_inflate_keep_free i)"
    using assms False by (simp_all add: inflater_safe_def inflater_ok_def)
  obtain r where r: "inflate_loop (hd_inflate_keep_free i) ins False = Some r" "loop_result (hd_inflate_keep_free i) ins r"
    "\<forall>i1 ins1 nv. r = Emit i1 ins1 nv \<longrightarrow> length ins1 < length ins"
    using loop_ends [OF i(1) _ i(2), of ins] by auto
  have bad: "ctx_safe (i_bad x) = ctx_safe x" "settings_hd_table_bufsize_max (i_bad x) = settings_hd_table_bufsize_max x"
    "mem_before y (i_bad x) = mem_before y x" "ctx_bad (i_ctx (i_bad x))" for x y
    by (simp_all add: i_bad_def ctx_safe_def ctx_ok_def ctx_repr_def mem_before_def)
  have life: "settings_hd_table_bufsize_max x = settings_hd_table_bufsize_max i" "\<not> ctx_bad (i_ctx x)" "mem_before i x" if "same_life i x" for x
    using that False by (simp_all add: same_life_def mem_before_def)
  note defs = nghttp2_hd_inflate_hd3_def nghttp2_hd_inflate_hd_nv_def
  show ?thesis
  proof (cases r)
    case (Go i1 ins1 b)
    then show ?thesis using r False bad life [of i1]
      by (auto simp: defs inflater_safe_def inflater_ok_def answer_ok_def error_ok_def)
  next
    case (Almost i1 ins1)
    then show ?thesis using r False bad life [of i1]
      by (auto simp: defs inflater_safe_def inflater_ok_def answer_ok_def error_ok_def)
  next
    case (Fail i1 rv)
    then have "rv < 0" using r(2) by (auto simp: error_ok_def)
    then show ?thesis using r False bad life [of i1] Fail by (auto simp: defs inflater_safe_def answer_ok_def)
  next
    case (Emit i1 ins1 nv)
    have "length ins1 < length ins" using r(3) Emit by simp
    then show ?thesis using r False Emit life [of i1]
      by (auto simp: defs inflater_safe_def inflater_ok_def answer_ok_def in_value_def)
  qed
qed

lemma resize_safe:
  assumes "inflater_safe i" "n < 2 ^ 32"
  shows "\<exists>i1 rv. nghttp2_hd_inflate_change_table_size i n = Some (i1, rv) \<and> inflater_safe i1 \<and> mem_before i i1 \<and>
    (if rv = 0 then settings_hd_table_bufsize_max i1 = n else rv = NGHTTP2_ERR_INVALID_STATE \<and> i1 = i)"
proof (cases "i_state i \<noteq> NGHTTP2_HD_STATE_EXPECT_TABLE_SIZE \<and> i_state i \<noteq> NGHTTP2_HD_STATE_INFLATE_START")
  case True
  then show ?thesis using assms by (simp add: nghttp2_hd_inflate_change_table_size_def)
next
  case st: False
  obtain es where es: "ctx_ok (i_ctx i) es" using assms(1) by (auto simp: inflater_safe_def ctx_safe_def)
  show ?thesis
  proof (cases "n < hd_table_bufsize_max (i_ctx i)")
    case True
    let ?c = "(i_ctx i)\<lparr>hd_table_bufsize_max := n\<rparr>"
    have c: "ctx_repr ?c es" "hd_table_bufsize_max ?c < 2 ^ 32" using es assms(2) by (simp_all add: ctx_ok_def ctx_repr_def)
    obtain rb b where s: "hd_context_shrink_table_size ?c None = Some (?c\<lparr>hd_table := rb, hd_table_bufsize := b\<rparr>, None)"
      "ctx_ok (?c\<lparr>hd_table := rb, hd_table_bufsize := b\<rparr>) (keep ent_room n es)"
      using shrink_none [OF c] by (auto simp: Let_def)
    then show ?thesis
      using st True assms by (auto simp: nghttp2_hd_inflate_change_table_size_def inflater_safe_def ctx_safe_def mem_before_def in_value_def)
  next
    case False
    then show ?thesis
      using st es assms by (auto simp: nghttp2_hd_inflate_change_table_size_def inflater_safe_def ctx_safe_def mem_before_def in_value_def)
  qed
qed

datatype inflate_call = Feed bytes bool | New_size nat | End_headers

fun inflate_calls :: "inflate_call list \<Rightarrow> nghttp2_hd_inflater \<Rightarrow> (nghttp2_hd_inflater \<times> int list) option" where
  "inflate_calls [] i = Some (i, [])"
| "inflate_calls (Feed ins in_final # cs) i = do {
     (i1, _, _, rv) \<leftarrow> nghttp2_hd_inflate_hd3 i ins in_final;
     (i2, rvs) \<leftarrow> inflate_calls cs i1;
     Some (i2, rv # rvs)
   }"
| "inflate_calls (New_size n # cs) i = do {
     (i1, rv) \<leftarrow> nghttp2_hd_inflate_change_table_size i n;
     (i2, rvs) \<leftarrow> inflate_calls cs i1;
     Some (i2, rv # rvs)
   }"
| "inflate_calls (End_headers # cs) i = do {
     let (i1, rv) = nghttp2_hd_inflate_end_headers i;
     (i2, rvs) \<leftarrow> inflate_calls cs i1;
     Some (i2, rv # rvs)
   }"

fun call_ok :: "inflate_call \<Rightarrow> bool" where
  "call_ok (New_size n) \<longleftrightarrow> n < 2 ^ 32"
| "call_ok _ \<longleftrightarrow> True"

definition code_ok :: "bool \<Rightarrow> int \<Rightarrow> bool" where
  "code_ok enough rv \<longleftrightarrow> 0 \<le> rv \<or> rv = NGHTTP2_ERR_HEADER_COMP \<or> rv = NGHTTP2_ERR_INVALID_STATE \<or> \<not> enough \<and> rv = NGHTTP2_ERR_NOMEM"

lemma code_later: "mem_before i i1 \<Longrightarrow> list_all (code_ok (all_succeed (ctx_mem (i_ctx i1)))) rvs \<Longrightarrow> list_all (code_ok (all_succeed (ctx_mem (i_ctx i)))) rvs"
proof -
  assume "mem_before i i1"
  then have "all_succeed (ctx_mem (i_ctx i)) \<Longrightarrow> all_succeed (ctx_mem (i_ctx i1))" by (auto simp: mem_before_def all_succeed_def)
  then have "code_ok (all_succeed (ctx_mem (i_ctx i1))) rv \<Longrightarrow> code_ok (all_succeed (ctx_mem (i_ctx i))) rv" for rv
    unfolding code_ok_def by blast
  moreover assume "list_all (code_ok (all_succeed (ctx_mem (i_ctx i1)))) rvs"
  ultimately show ?thesis by (simp add: list_all_iff)
qed

lemma calls_safe:
  "inflater_safe i \<Longrightarrow> list_all call_ok cs \<Longrightarrow>
   \<exists>i' rvs. inflate_calls cs i = Some (i', rvs) \<and> inflater_safe i' \<and> list_all (code_ok (all_succeed (ctx_mem (i_ctx i)))) rvs"
proof (induction cs arbitrary: i)
  case (Cons c cs)
  have step: ?case if "inflater_safe i1" "mem_before i i1" "code_ok (all_succeed (ctx_mem (i_ctx i))) rv"
      "\<And>r. inflate_calls cs i1 = Some r \<Longrightarrow> inflate_calls (c # cs) i = Some (fst r, rv # snd r)" for i1 rv
    using Cons.IH [OF that(1)] Cons.prems(2) code_later [OF that(2)] that(3,4) by fastforce
  show ?case
  proof (cases c)
    case (Feed ins fin)
    obtain i1 flags nv rv where h: "nghttp2_hd_inflate_hd3 i ins fin = Some (i1, flags, nv, rv)" "inflater_safe i1" "mem_before i i1" "answer_ok i ins i1 flags rv"
      using hd3_safe [OF Cons.prems(1)] by blast
    have "code_ok (all_succeed (ctx_mem (i_ctx i))) rv" using h(4) by (auto simp: answer_ok_def code_ok_def error_ok_def all_succeed_def)
    then show ?thesis using h(1) Feed by (intro step [OF h(2,3)]) auto
  next
    case (New_size n)
    obtain i1 rv where h: "nghttp2_hd_inflate_change_table_size i n = Some (i1, rv)" "inflater_safe i1" "mem_before i i1"
      "rv = 0 \<or> rv = NGHTTP2_ERR_INVALID_STATE"
      using resize_safe [OF Cons.prems(1), of n] Cons.prems(2) New_size by (auto split: if_splits)
    have "code_ok (all_succeed (ctx_mem (i_ctx i))) rv" using h(4) by (auto simp: code_ok_def)
    then show ?thesis using h(1) New_size by (intro step [OF h(2,3)]) auto
  next
    case End_headers
    have "inflater_safe (fst (nghttp2_hd_inflate_end_headers i))" "mem_before i (fst (nghttp2_hd_inflate_end_headers i))"
      using Cons.prems(1) by (auto simp: nghttp2_hd_inflate_end_headers_def inflater_safe_def ctx_safe_def mem_before_def in_value_def)
    then show ?thesis using End_headers by (intro step [of _ 0]) (auto simp: code_ok_def nghttp2_hd_inflate_end_headers_def)
  qed
qed simp

lemma safe_init: "nghttp2_hd_inflate_init m = (Some i, m', rv) \<Longrightarrow> inflater_safe i \<and> (all_succeed m \<longrightarrow> all_succeed (ctx_mem (i_ctx i)))"
  using inflate_init_ok [of m "Some i" m' rv]
  by (auto simp: inflater_safe_def ctx_safe_def in_value_def split: if_splits)

text \<open>The documented loop: as many fields as bytes at most, and an answer for every input.\<close>

lemma read_block_ends:
  "inflater_safe i \<Longrightarrow> \<exists>i' outs rv. read_header_block i ins = Some (i', outs, rv) \<and> (rv = 0 \<or> rv = -1) \<and> length outs \<le> length ins \<and> inflater_safe i'"
proof (induction "length ins" arbitrary: i ins rule: less_induct)
  case less
  obtain i1 flags nv rv where h: "nghttp2_hd_inflate_hd3 i ins True = Some (i1, flags, nv, rv)" "inflater_safe i1"
    "nv \<noteq> None \<longleftrightarrow> flags = NGHTTP2_HD_INFLATE_EMIT" "answer_ok i ins i1 flags rv"
    using hd3_safe [OF less.prems] by blast
  show ?case
  proof (cases "rv < 0")
    case True
    then show ?thesis using h(1,2) by (subst read_header_block.simps) simp
  next
    case False
    show ?thesis
    proof (cases "flags = NGHTTP2_HD_INFLATE_EMIT")
      case True
      then have rv: "0 < rv" "rv \<le> int (length ins)" using h(4) False by (simp_all add: answer_ok_def)
      then have shorter: "length (drop (nat rv) ins) < length ins" by (cases ins) simp_all
      obtain i2 outs rv2 where r: "read_header_block i1 (drop (nat rv) ins) = Some (i2, outs, rv2)" "rv2 = 0 \<or> rv2 = -1"
        "length outs \<le> length (drop (nat rv) ins)" "inflater_safe i2"
        using less.hyps [OF shorter h(2)] by blast
      obtain x where "nv = Some x" using h(3) True by auto
      then have "read_header_block i ins = Some (i2, x # outs, rv2)"
        using h(1) True False r(1) by (subst read_header_block.simps) simp
      then show ?thesis using r(2-4) shorter by auto
    next
      case plain: False
      then have nv: "nv = None" and all: "drop (nat rv) ins = []" "flags = NGHTTP2_HD_INFLATE_NONE \<or> flags = NGHTTP2_HD_INFLATE_FINAL"
        using h(3,4) False by (auto simp: answer_ok_def split: if_splits)
      have "inflater_safe (fst (nghttp2_hd_inflate_end_headers i1))"
        using h(2) by (auto simp: nghttp2_hd_inflate_end_headers_def inflater_safe_def ctx_safe_def in_value_def)
      then show ?thesis using h(1,2) nv all False by (subst read_header_block.simps) auto
    qed
  qed
qed

lemma init_enough: "\<exists>i m'. nghttp2_hd_inflate_init \<lparr>mem_answers = [], mem_fill = f, mem_live = l\<rparr> = (Some i, m', 0)"
proof -
  let ?m = "\<lparr>mem_answers = [], mem_fill = f, mem_live = l\<rparr>"
  obtain x m' rv where i: "nghttp2_hd_inflate_init ?m = (x, m', rv)" by (cases "nghttp2_hd_inflate_init ?m")
  then show ?thesis using inflate_init_ok [OF i] by (auto simp: all_succeed_def split: if_splits)
qed

text \<open>
  C7. The HPACK decoder is safe on any input: from its initial state, over any calls with any pieces
  of input, sizes and ends of blocks, each call returns with every access inside the buffers and
  tables; the codes are byte counts or the documented errors, out of memory only if an allocation
  failed; and the dynamic table never exceeds its limit, nor the limit the acknowledged setting.
\<close>

theorem inflate_safe:
  assumes "nghttp2_hd_inflate_init m = (Some i, m', 0)" "list_all call_ok cs"
  shows "\<exists>i' rvs. inflate_calls cs i = Some (i', rvs) \<and> list_all (code_ok (all_succeed m)) rvs \<and>
    nghttp2_hd_inflate_get_dynamic_table_size i' \<le> nghttp2_hd_inflate_get_max_dynamic_table_size i' \<and>
    nghttp2_hd_inflate_get_max_dynamic_table_size i' \<le> settings_hd_table_bufsize_max i'"
proof -
  have i: "inflater_safe i" "all_succeed m \<longrightarrow> all_succeed (ctx_mem (i_ctx i))" using safe_init [OF assms(1)] by simp_all
  obtain i' rvs where r: "inflate_calls cs i = Some (i', rvs)" "inflater_safe i'" "list_all (code_ok (all_succeed (ctx_mem (i_ctx i)))) rvs"
    using calls_safe [OF i(1) assms(2)] by blast
  have "list_all (code_ok (all_succeed m)) rvs" using r(3) i(2) by (auto simp: list_all_iff code_ok_def)
  moreover obtain es where "ctx_ok (i_ctx i') es" "hd_table_bufsize_max (i_ctx i') \<le> settings_hd_table_bufsize_max i'"
    using r(2) by (auto simp: inflater_safe_def ctx_safe_def)
  ultimately show ?thesis using r(1)
    by (simp add: nghttp2_hd_inflate_get_dynamic_table_size_def nghttp2_hd_inflate_get_max_dynamic_table_size_def ctx_ok_def)
qed

theorem inflate_safe_witness:
  "let cs = [Feed [0x82, 0x41] False, Feed [0xff] True, End_headers, New_size 100] in
   \<exists>i. fst (nghttp2_hd_inflate_init \<lparr>mem_answers = [], mem_fill = \<lambda>_. 0, mem_live = 0\<rparr>) = Some i \<and>
     (\<exists>i' rvs. inflate_calls cs i = Some (i', rvs) \<and> list_all (code_ok (all_succeed \<lparr>mem_answers = [], mem_fill = \<lambda>_. 0, mem_live = 0\<rparr>)) rvs \<and>
       nghttp2_hd_inflate_get_dynamic_table_size i' \<le> nghttp2_hd_inflate_get_max_dynamic_table_size i' \<and>
       nghttp2_hd_inflate_get_max_dynamic_table_size i' \<le> settings_hd_table_bufsize_max i')"
proof -
  obtain i m' where i: "nghttp2_hd_inflate_init \<lparr>mem_answers = [], mem_fill = \<lambda>_. 0, mem_live = 0\<rparr> = (Some i, m', 0)"
    using init_enough by blast
  have "list_all call_ok [Feed [0x82, 0x41] False, Feed [0xff] True, End_headers, New_size 100]" by simp
  from inflate_safe [OF i this] i show ?thesis unfolding Let_def by (intro exI [of _ i]) (simp del: inflate_calls.simps)
qed

text \<open>
  C9. The loop that the documentation of nghttp2_hd_inflate_hd shows ends on every input, whatever
  the decoder has been fed before: each turn of it takes a byte for a field, so a block of n bytes
  yields at most n fields, and the code is success or failure.
\<close>

theorem inflate_loop_terminates:
  assumes "nghttp2_hd_inflate_init m = (Some i, m', 0)" "list_all call_ok cs"
  shows "\<exists>i1 rvs i2 outs rv. inflate_calls cs i = Some (i1, rvs) \<and> read_header_block i1 ins = Some (i2, outs, rv) \<and>
    (rv = 0 \<or> rv = -1) \<and> length outs \<le> length ins"
  using calls_safe [OF conjunct1 [OF safe_init [OF assms(1)]] assms(2)] read_block_ends by blast

theorem inflate_loop_terminates_witness:
  "\<exists>i. fst (nghttp2_hd_inflate_init \<lparr>mem_answers = [], mem_fill = \<lambda>_. 0, mem_live = 0\<rparr>) = Some i \<and>
     (\<exists>i1 rvs i2 outs rv. inflate_calls [Feed [0x41] False, End_headers] i = Some (i1, rvs) \<and>
       read_header_block i1 [0x82, 0x84] = Some (i2, outs, rv) \<and> (rv = 0 \<or> rv = -1) \<and> length outs \<le> length [0x82 :: u8, 0x84])"
proof -
  obtain i m' where i: "nghttp2_hd_inflate_init \<lparr>mem_answers = [], mem_fill = \<lambda>_. 0, mem_live = 0\<rparr> = (Some i, m', 0)"
    using init_enough by blast
  have "list_all call_ok [Feed [0x41] False, End_headers]" by simp
  from inflate_loop_terminates [OF i this, of "[0x82, 0x84]"] i show ?thesis by (intro exI [of _ i]) (simp del: inflate_calls.simps)
qed

text \<open>
  C12. The states of the HPACK decoder are typed: in each of the thirteen states the fields it relies
  on are well formed (room for the rest of the string, a name, an index inside the tables, a state of
  the Huffman automaton), a turn of the loop never gets stuck, and what it leaves is well formed again.
\<close>

theorem inflate_states_typed:
  assumes "inflater_ok i" "ins \<noteq> [] \<or> in_value i"
  shows "\<exists>r. inflate_step i ins = Some r \<and> turn_ok i ins r"
  by (rule step_turn [OF assms])

theorem inflate_states_typed_witness:
  "\<exists>i. fst (nghttp2_hd_inflate_init \<lparr>mem_answers = [], mem_fill = \<lambda>_. 0, mem_live = 0\<rparr>) = Some i \<and>
     (\<exists>r. inflate_step (i\<lparr>i_state := NGHTTP2_HD_STATE_READ_INDEX\<rparr>) [0xff, 0x80] = Some r \<and>
       turn_ok (i\<lparr>i_state := NGHTTP2_HD_STATE_READ_INDEX\<rparr>) [0xff, 0x80] r)"
proof -
  obtain i m' where i: "nghttp2_hd_inflate_init \<lparr>mem_answers = [], mem_fill = \<lambda>_. 0, mem_live = 0\<rparr> = (Some i, m', 0)"
    using init_enough by blast
  have "i_opcode i = NGHTTP2_HD_OPCODE_NONE" using i by (auto simp: nghttp2_hd_inflate_init_def split: prod.splits option.splits)
  then have ok: "inflater_ok (i\<lparr>i_state := NGHTTP2_HD_STATE_READ_INDEX\<rparr>)"
    using safe_init [OF i] by (simp add: inflater_safe_def inflater_ok_def ctx_safe_def)
  have "[0xff, 0x80 :: u8] \<noteq> [] \<or> in_value (i\<lparr>i_state := NGHTTP2_HD_STATE_READ_INDEX\<rparr>)" by simp
  from inflate_states_typed [OF ok this] show ?thesis using i by (intro exI [of _ i]) simp
qed

end
