(* ===== verification/Ng_Hd_Split.thy ===== *)
theory Ng_Hd_Split
  imports Ng_Hd_Inflate_Props
begin

unbundle bit_operations_syntax

text \<open>
  A header block reaches the decoder in pieces, cut by the frames that carry it. Where it is cut makes
  no difference: a piece and then the rest give what both give together.
\<close>

section \<open>Integers\<close>

lemma groups_split:
  "decode_groups n s p got = (n', s', fin, rv) \<Longrightarrow> 0 \<le> got \<Longrightarrow>
   (if rv = -1 then decode_groups n s (p @ q) got = (0, 0, False, -1)
    else if fin then decode_groups n s (p @ q) got = (n', s', fin, rv)
    else decode_groups n s (p @ q) got = decode_groups n' s' q rv \<and> n \<le> n' \<and> rv = got + int (length p))"
proof (induction n s p got rule: decode_groups.induct)
  case (2 n s b bs got)
  let ?add = "ucast b AND 0x7f :: u32"
  let ?n = "n + push_bit s ?add"
  show ?case
  proof (cases "32 \<le> s \<or> drop_bit s (- 1) < ?add \<or> - 1 - push_bit s ?add < n")
    case True
    then have "decode_groups n s (b # r) got = (0, 0, False, -1)" for r by (simp only: decode_groups.simps Let_def) auto
    then show ?thesis using 2(2) by simp
  next
    case False
    then have step: "decode_groups n s (b # r) got = (if b AND push_bit 7 1 = 0 then (?n, s, True, got + 1) else decode_groups ?n (s + 7) r (got + 1))" for r
      by (simp only: decode_groups.simps Let_def) auto
    have up: "n \<le> ?n"
    proof -
      have "unat n + unat (push_bit s ?add) < 2 ^ 32" using False add_guard [of "push_bit s ?add" n] by linarith
      then show ?thesis by (simp add: word_le_nat_alt unat_word_ariths)
    qed
    show ?thesis
    proof (cases "b AND push_bit 7 1 = 0")
      case True
      then show ?thesis using 2(2,3) unfolding append_Cons step by auto
    next
      case more: False
      have d: "decode_groups ?n (s + 7) bs (got + 1) = (n', s', fin, rv)" using 2(2) more unfolding step by simp
      show ?thesis
        using 2(1) [OF refl _ _ refl _ _ d] False more 2(3) up unfolding append_Cons step by (auto split: if_splits)
    qed
  qed
qed auto

lemma groups_offset:
  "0 \<le> got \<Longrightarrow> decode_groups n s q (got + int k) =
   (case decode_groups n s q got of (a, b, c, rv) \<Rightarrow> (a, b, c, if rv = -1 then -1 else rv + int k))"
proof (induction n s q got rule: decode_groups.induct)
  case (2 n s b bs got)
  let ?add = "ucast b AND 0x7f :: u32"
  let ?n = "n + push_bit s ?add"
  show ?case
  proof (cases "32 \<le> s \<or> drop_bit s (- 1) < ?add \<or> - 1 - push_bit s ?add < n")
    case True
    then have "decode_groups n s (b # bs) g = (0, 0, False, -1)" for g by (simp only: decode_groups.simps Let_def) auto
    then show ?thesis by simp
  next
    case False
    then have step: "decode_groups n s (b # bs) g = (if b AND push_bit 7 1 = 0 then (?n, s, True, g + 1) else decode_groups ?n (s + 7) bs (g + 1))" for g
      by (simp only: decode_groups.simps Let_def) auto
    have assoc: "got + int k + 1 = (got + 1) + int k" by simp
    show ?thesis
      using 2(1) [OF refl _ _ refl] False 2(2) unfolding step assoc by (cases "b AND push_bit 7 1 = 0") auto
  qed
qed simp

lemma groups_up: "decode_groups n s q got = (a, b, c, rv) \<Longrightarrow> rv = -1 \<or> n \<le> a"
proof (induction n s q got rule: decode_groups.induct)
  case (2 n s b' bs got)
  let ?add = "ucast b' AND 0x7f :: u32"
  let ?n = "n + push_bit s ?add"
  show ?case
  proof (cases "32 \<le> s \<or> drop_bit s (- 1) < ?add \<or> - 1 - push_bit s ?add < n")
    case True
    then have "decode_groups n s (b' # bs) got = (0, 0, False, -1)" by (simp only: decode_groups.simps Let_def) auto
    then show ?thesis using 2(2) by simp
  next
    case False
    then have step: "decode_groups n s (b' # bs) got = (if b' AND push_bit 7 1 = 0 then (?n, s, True, got + 1) else decode_groups ?n (s + 7) bs (got + 1))"
      by (simp only: decode_groups.simps Let_def) auto
    have "unat n + unat (push_bit s ?add) < 2 ^ 32" using False add_guard [of "push_bit s ?add" n] by linarith
    then have up: "n \<le> ?n" by (simp add: word_le_nat_alt unat_word_ariths)
    show ?thesis
      using 2(1) [OF refl _ _ refl] False 2(2) up unfolding step by (cases "b' AND push_bit 7 1 = 0") auto
  qed
qed simp

definition later :: "nat \<Rightarrow> u32 \<times> nat \<times> bool \<times> int \<Rightarrow> u32 \<times> nat \<times> bool \<times> int" where
  "later k r = (case r of (a, b, c, rv) \<Rightarrow> (a, b, c, if rv = -1 then -1 else rv + int k))"

lemma length_split:
  assumes d: "decode_length n0 s p pre = Some (n, s', fin, rv)" and p: "p \<noteq> []" and pre: "1 \<le> pre" "pre \<le> 8" and s0: "n0 = 0 \<longrightarrow> s = 0"
  shows "if rv = -1 then \<exists>a b c. decode_length n0 s (p @ q) pre = Some (a, b, c, -1)
    else if fin then decode_length n0 s (p @ q) pre = Some (n, s', fin, rv)
    else n \<noteq> 0 \<and> rv = int (length p) \<and>
      (q \<noteq> [] \<longrightarrow> decode_length n0 s (p @ q) pre = map_option (later (length p)) (decode_length n s' q pre))"
proof -
  define k where "k = (word_of_nat (2 ^ pre - 1) :: u32)"
  have k0: "k \<noteq> 0" using pre unfolding k_def mask_u8 by (simp add: mask_eq_0_iff)
  have again: "decode_length m t q pre = Some (decode_groups m t q 0)" if "m \<noteq> 0" for m t using that by (simp add: decode_length_def)
  have up: "m \<noteq> 0" if "m0 \<le> m" "m0 \<noteq> 0" for m0 m :: u32 using that word_le_0_iff by auto
  show ?thesis
  proof (cases "n0 = 0")
    case False
    then have l: "decode_length n0 s r pre = Some (decode_groups n0 s r 0)" for r by (simp add: decode_length_def)
    then have g: "decode_groups n0 s p 0 = (n, s', fin, rv)" using d by simp
    show ?thesis
      using groups_split [OF g, of q] groups_offset [of 0 n s' q "length p"] again up [OF _ False] unfolding l by (auto simp: later_def)
  next
    case True
    obtain b rest where b: "p = b # rest" using p by (cases p) auto
    have l: "decode_length n0 s (b # r) pre = (if ucast b AND k \<noteq> k then Some (ucast b AND k, 0, True, 1)
        else if r = [] then Some (k, 0, False, 1) else Some (decode_groups k 0 r 1))" for r
      using True s0 unfolding decode_length_def Let_def k_def [symmetric] by simp
    consider (low) "ucast b AND k \<noteq> k" | (cut) "ucast b AND k = k" "rest = []" | (high) "ucast b AND k = k" "rest \<noteq> []" by blast
    then show ?thesis
    proof cases
      case low
      then show ?thesis using d unfolding b append_Cons l by simp
    next
      case cut
      then show ?thesis using d again [OF k0] k0 groups_offset [of 0 k 0 q 1] unfolding b append_Cons l
        by (cases "decode_groups k 0 q 0") (auto simp: later_def)
    next
      case high
      then have g: "decode_groups k 0 rest 1 = (n, s', fin, rv)" using d unfolding b l by simp
      have "rv = 1 + int (length rest) \<Longrightarrow> rv = 0 + int (length p)" using b by simp
      then show ?thesis
        using groups_split [OF g, of q] groups_offset [of 0 n s' q "length p"] again up [OF _ k0] high unfolding b append_Cons l
        by (cases "decode_groups n s' q 0") (auto simp: later_def)
    qed
  qed
qed

section \<open>Strings\<close>

lemma decode_loop_append:
  "decode_loop fs buf (p @ q) = Option.bind (decode_loop fs buf p) (\<lambda>(fs1, buf1). decode_loop fs1 buf1 q)"
proof (induction p arbitrary: fs buf)
  case (Cons c p)
  show ?case
    by (cases "decode_step fs buf (drop_bit 4 c)") (auto simp: Cons.IH bind_assoc split: Option.bind_split prod.splits)
qed simp

lemma put_append: "buf_put (p @ q) buf = Option.bind (buf_put p buf) (buf_put q)"
  by (auto simp: buf_put_def wr_block_def ac_simps split: Option.bind_split)

text \<open>What it is for a reader of strings not to depend on the cut.\<close>

definition reads_on ::
  "(nghttp2_hd_inflater \<Rightarrow> nghttp2_buf \<Rightarrow> bytes \<Rightarrow> (nghttp2_hd_inflater \<times> nghttp2_buf \<times> int) option) \<Rightarrow>
   nghttp2_hd_inflater \<Rightarrow> nghttp2_buf \<Rightarrow> bytes \<Rightarrow> bytes \<Rightarrow> bool" where
  "reads_on f i buf p q \<longleftrightarrow> (\<forall>i1 buf1 rv. f i buf p = Some (i1, buf1, rv) \<longrightarrow>
     (if rv < 0 then \<exists>i' b'. f i buf (p @ q) = Some (i', b', rv)
      else if i_left i1 = 0 then f i buf (p @ q) = Some (i1, buf1, rv) \<and> nat rv \<le> length p
      else rv = int (length p) \<and>
        (\<forall>i2 buf2 rv2. f i1 buf1 q = Some (i2, buf2, rv2) \<longrightarrow>
          (if rv2 < 0 then \<exists>i' b'. f i buf (p @ q) = Some (i', b', rv2) else f i buf (p @ q) = Some (i2, buf2, rv2 + int (length p))))))"

lemma plain_reads_on: "reads_on hd_inflate_read i buf p q"
  unfolding reads_on_def
proof (intro allI impI)
  fix i1 buf1 rv
  assume r: "hd_inflate_read i buf p = Some (i1, buf1, rv)"
  let ?len = "min (length p) (i_left i)"
  have f: "buf_put (take ?len p) buf = Some buf1" "i1 = i\<lparr>i_left := i_left i - ?len\<rparr>" "rv = int ?len"
    using r by (auto simp: hd_inflate_read_def Let_def split: bind_splits)
  show "if rv < 0 then \<exists>i' b'. hd_inflate_read i buf (p @ q) = Some (i', b', rv)
      else if i_left i1 = 0 then hd_inflate_read i buf (p @ q) = Some (i1, buf1, rv) \<and> nat rv \<le> length p
      else rv = int (length p) \<and>
        (\<forall>i2 buf2 rv2. hd_inflate_read i1 buf1 q = Some (i2, buf2, rv2) \<longrightarrow>
          (if rv2 < 0 then \<exists>i' b'. hd_inflate_read i buf (p @ q) = Some (i', b', rv2)
           else hd_inflate_read i buf (p @ q) = Some (i2, buf2, rv2 + int (length p))))"
  proof (cases "i_left i \<le> length p")
    case True
    then have "take (min (length (p @ q)) (i_left i)) (p @ q) = take ?len p" "min (length (p @ q)) (i_left i) = ?len" by auto
    then have "hd_inflate_read i buf (p @ q) = Some (i1, buf1, rv)" using f by (simp add: hd_inflate_read_def Let_def)
    then show ?thesis using f True by simp
  next
    case False
    let ?n = "min (length q) (i_left i - length p)"
    have len: "min (length (p @ q)) (i_left i) = length p + ?n" "take (length p + ?n) (p @ q) = p @ take ?n q" "?len = length p" using False by auto
    have p1: "buf_put p buf = Some buf1" using f(1) len(3) by simp
    have "hd_inflate_read i buf (p @ q) = map_option (\<lambda>b. (i\<lparr>i_left := i_left i - (length p + ?n)\<rparr>, b, int (length p + ?n))) (buf_put (take ?n q) buf1)"
      unfolding hd_inflate_read_def Let_def len(1,2) put_append using p1 by (simp add: map_option_case Option.bind_eq_None_conv split: option.splits)
    moreover have "hd_inflate_read i1 buf1 q = map_option (\<lambda>b. (i1\<lparr>i_left := i_left i1 - ?n\<rparr>, b, int ?n)) (buf_put (take ?n q) buf1)"
      using f(2) len(3) by (simp add: hd_inflate_read_def Let_def map_option_case split: option.splits)
    ultimately show ?thesis using f(2,3) len(3) False by (auto simp: algebra_simps)
  qed
qed

lemma failed_stays:
  assumes "room_for (2 * length q) buf"
  shows "\<exists>buf'. decode_loop 0x100 buf q = Some (0x100, buf')"
proof -
  have "\<forall>k \<in> set (nibbles q). unat k < 16" by (rule nibbles_small)
  from walk_failed [OF this] have w: "walk 0x100 (nibbles q) = (0x100, [])" .
  have "node 0x100 \<le> 256" by (simp add: node_def)
  from loop_walk [OF this _ _ w, of buf] assms show ?thesis unfolding room_for_def by (meson less_imp_le)
qed

lemma huff_reads_on:
  assumes i: "room_for (2 * i_left i) buf" "node (huff_decode_ctx i) \<le> 256"
  shows "reads_on hd_inflate_read_huff i buf p q"
  unfolding reads_on_def
proof (intro allI impI)
  fix i1 buf1 rv
  assume got: "hd_inflate_read_huff i buf p = Some (i1, buf1, rv)"
  let ?n = "i_left i"
  show "if rv < 0 then \<exists>i' b'. hd_inflate_read_huff i buf (p @ q) = Some (i', b', rv)
      else if i_left i1 = 0 then hd_inflate_read_huff i buf (p @ q) = Some (i1, buf1, rv) \<and> nat rv \<le> length p
      else rv = int (length p) \<and>
        (\<forall>i2 buf2 rv2. hd_inflate_read_huff i1 buf1 q = Some (i2, buf2, rv2) \<longrightarrow>
          (if rv2 < 0 then \<exists>i' b'. hd_inflate_read_huff i buf (p @ q) = Some (i', b', rv2)
           else hd_inflate_read_huff i buf (p @ q) = Some (i2, buf2, rv2 + int (length p))))"
  proof (cases "?n \<le> length p")
    case True
    then have "hd_inflate_read_huff i buf (p @ q) = Some (i1, buf1, rv)" using got by (simp add: hd_inflate_read_huff_def)
    moreover have "rv < 0 \<or> i_left i1 = 0 \<and> nat rv \<le> length p"
      using got True by (auto simp: hd_inflate_read_huff_def nghttp2_hd_huff_decode_def Let_def split: bind_splits if_splits)
    ultimately show ?thesis by auto
  next
    case False
    define w where "w \<longleftrightarrow> ?n - length p \<le> length q"
    define r where "r = (if ?n - length p \<le> length q then take (?n - length p) q else q)"
    have cut: "(if ?n \<le> length (p @ q) then take ?n (p @ q) else p @ q) = p @ r" "?n \<le> length (p @ q) \<longleftrightarrow> w"
      using False by (auto simp: w_def r_def)
    obtain fs where l: "decode_loop (huff_decode_ctx i) buf p = Some (fs, buf1)"
      "if fs = 0x100 then rv = NGHTTP2_ERR_HEADER_COMP else rv = int (length p) \<and> i1 = i\<lparr>huff_decode_ctx := fs, i_left := ?n - length p\<rparr>"
      using got False by (auto simp: hd_inflate_read_huff_def nghttp2_hd_huff_decode_def nghttp2_hd_huff_decode_failure_state_def Let_def split: bind_splits if_splits)
    have whole: "hd_inflate_read_huff i buf (p @ q) = Option.bind (decode_loop fs buf1 r) (\<lambda>(fs2, b2).
        if w \<and> fs2 AND NGHTTP2_HUFF_ACCEPTED = 0 then Some (i\<lparr>huff_decode_ctx := fs2\<rparr>, b2, NGHTTP2_ERR_HEADER_COMP)
        else if fs2 = 0x100 then Some (i\<lparr>huff_decode_ctx := fs2\<rparr>, b2, NGHTTP2_ERR_HEADER_COMP)
        else Some (i\<lparr>huff_decode_ctx := fs2, i_left := ?n - (length p + length r)\<rparr>, b2, int (length p + length r)))"
    proof -
      have len: "length (p @ r) = length p + length r" by simp
      show ?thesis
        unfolding hd_inflate_read_huff_def nghttp2_hd_huff_decode_def nghttp2_hd_huff_decode_failure_state_def Let_def cut(1)
        unfolding cut(2) decode_loop_append l(1) len
        by (cases "decode_loop fs buf1 r") (auto simp: cut(2) nat_add_distrib split: prod.split)
    qed
    show ?thesis
    proof (cases "fs = 0x100")
      case True
      obtain fs' out where w: "walk (huff_decode_ctx i) (nibbles p) = (fs', out)" by (cases "walk (huff_decode_ctx i) (nibbles p)")
      have "room_for (2 * length r) buf1"
      proof -
        have "buf_ok buf" "2 * length p \<le> nghttp2_buf_avail buf" "2 * ?n < nghttp2_buf_avail buf" using i(1) False by (auto simp: room_for_def)
        from loop_walk [OF i(2) this(1,2) w] l(1) have "buf_ok buf1" "nghttp2_buf_avail buf \<le> nghttp2_buf_avail buf1 + 2 * length p" by auto
        moreover have "length p + length r \<le> ?n" using False by (auto simp: r_def)
        ultimately show ?thesis using i(1) decode_loop_pos [OF l(1)] \<open>2 * ?n < nghttp2_buf_avail buf\<close> by (auto simp: room_for_def)
      qed
      from failed_stays [OF this] obtain b2 where "decode_loop 0x100 buf1 r = Some (0x100, b2)" by blast
      then have "\<exists>i' b'. hd_inflate_read_huff i buf (p @ q) = Some (i', b', NGHTTP2_ERR_HEADER_COMP)" unfolding whole True by simp
      then show ?thesis using l(2) True by simp
    next
      case ok: False
      have i1: "rv = int (length p)" "i1 = i\<lparr>huff_decode_ctx := fs, i_left := ?n - length p\<rparr>" using l(2) ok by simp_all
      have more: "hd_inflate_read_huff i1 buf1 q = Option.bind (decode_loop fs buf1 r) (\<lambda>(fs2, b2).
        if w \<and> fs2 AND NGHTTP2_HUFF_ACCEPTED = 0 then Some (i1\<lparr>huff_decode_ctx := fs2\<rparr>, b2, NGHTTP2_ERR_HEADER_COMP)
        else if fs2 = 0x100 then Some (i1\<lparr>huff_decode_ctx := fs2\<rparr>, b2, NGHTTP2_ERR_HEADER_COMP)
        else Some (i1\<lparr>huff_decode_ctx := fs2, i_left := ?n - length p - length r\<rparr>, b2, int (length r)))"
      proof -
        have sel: "i_left i1 = ?n - length p" "huff_decode_ctx i1 = fs" by (simp_all add: i1(2))
        show ?thesis
          unfolding hd_inflate_read_huff_def nghttp2_hd_huff_decode_def nghttp2_hd_huff_decode_failure_state_def Let_def sel r_def [symmetric] unfolding w_def [symmetric]
          by (cases "decode_loop fs buf1 r") (auto simp: i1(2) split: prod.split)
      qed
      show ?thesis
      proof (cases "decode_loop fs buf1 r")
        case None
        then show ?thesis unfolding more using i1 False by simp
      next
        case (Some x)
        obtain fs2 b2 where x: "x = (fs2, b2)" by (cases x)
        show ?thesis using Some i1 False unfolding more whole x
          by (cases "w \<and> fs2 AND NGHTTP2_HUFF_ACCEPTED = 0 \<or> fs2 = 0x100") auto
      qed
    qed
  qed
qed

section \<open>Turns\<close>

text \<open>
  How a turn on a piece goes on with the rest: as the same turn on both, or, if the piece did not
  suffice, as the next turn on the rest. After an error the two may hold different scraps.
\<close>

definition similar :: "inflate_result option \<Rightarrow> inflate_result option \<Rightarrow> bool" where
  "similar a b \<longleftrightarrow> a = b \<or> (\<exists>i1 i2 e. a = Some (Fail i1 e) \<and> b = Some (Fail i2 e))"

lemma similar_refl [simp]: "similar a a"
  by (simp add: similar_def)

lemma similar_trans: "similar a b \<Longrightarrow> similar b c \<Longrightarrow> similar a c"
  by (auto simp: similar_def)

definition len_ok :: "nghttp2_hd_inflater \<Rightarrow> bool" where
  "len_ok i \<longleftrightarrow> i_state i \<in> {NGHTTP2_HD_STATE_READ_TABLE_SIZE, NGHTTP2_HD_STATE_READ_INDEX,
       NGHTTP2_HD_STATE_NEWNAME_READ_NAMELEN, NGHTTP2_HD_STATE_READ_VALUELEN} \<longrightarrow> (word_of_nat (i_left i) :: u32) = 0 \<longrightarrow> i_shift i = 0"

fun goes_on :: "bytes \<Rightarrow> inflate_result \<Rightarrow> inflate_result option \<Rightarrow> bool" where
  "goes_on q (Go i1 ins1 busy) whole \<longleftrightarrow> whole = Some (Go i1 (ins1 @ q) busy) \<and> len_ok i1"
| "goes_on q (Emit i1 ins1 nv) whole \<longleftrightarrow> whole = Some (Emit i1 (ins1 @ q) nv)"
| "goes_on q (Fail i1 e) whole \<longleftrightarrow> (\<exists>i2. whole = Some (Fail i2 e))"
| "goes_on q (Almost i1 ins1) whole \<longleftrightarrow> len_ok i1 \<and> i_state i1 \<noteq> NGHTTP2_HD_STATE_OPCODE \<and> i_state i1 \<noteq> NGHTTP2_HD_STATE_INFLATE_START \<and>
     (q \<noteq> [] \<longrightarrow> similar whole (inflate_step i1 q))"

lemma read_len_split:
  assumes r: "hd_inflate_read_len i p pre maxlen = Some (i1, rv, fin)" and p: "p \<noteq> []" and pre: "1 \<le> pre" "pre \<le> 8"
    and s0: "(word_of_nat (i_left i) :: u32) = 0 \<longrightarrow> i_shift i = 0"
  shows "if rv < 0 then \<exists>i' f'. hd_inflate_read_len i (p @ q) pre maxlen = Some (i', rv, f')
    else if fin then hd_inflate_read_len i (p @ q) pre maxlen = Some (i1, rv, fin) \<and> nat rv \<le> length p
    else (word_of_nat (i_left i1) :: u32) \<noteq> 0 \<and> rv = int (length p) \<and>
      (\<exists>sh n. i1 = i\<lparr>i_shift := sh, i_left := n\<rparr>) \<and>
      (q \<noteq> [] \<longrightarrow> (\<exists>i2 rv2 f2. hd_inflate_read_len i1 q pre maxlen = Some (i2, rv2, f2) \<and>
        (if rv2 < 0 then \<exists>i' f'. hd_inflate_read_len i (p @ q) pre maxlen = Some (i', rv2, f')
         else hd_inflate_read_len i (p @ q) pre maxlen = Some (i2, rv2 + int (length p), f2))))"
proof -
  let ?n0 = "word_of_nat (i_left i) :: u32"
  obtain n s' f rv0 where d: "decode_length ?n0 (i_shift i) p pre = Some (n, s', f, rv0)" "rv0 = -1 \<or> read_bounds p f rv0"
    using decode_length_bounds [OF p] by blast
  note split = length_split [OF d(1) p pre s0, of q]
  have r1: "rv = (if rv0 = -1 \<or> maxlen < unat n then NGHTTP2_ERR_HEADER_COMP else rv0)" "fin = f"
    "\<not> (rv0 = -1 \<or> maxlen < unat n) \<Longrightarrow> i1 = i\<lparr>i_shift := s', i_left := unat n\<rparr>"
    using r d(1) by (auto simp: hd_inflate_read_len_def Let_def split: if_splits)
  have whole: "hd_inflate_read_len i (p @ q) pre maxlen =
      Some (i\<lparr>i_shift := b, i_left := if rv' = -1 \<or> maxlen < unat a then i_left i else unat a\<rparr>,
        if rv' = -1 \<or> maxlen < unat a then NGHTTP2_ERR_HEADER_COMP else rv', c)"
    if "decode_length ?n0 (i_shift i) (p @ q) pre = Some (a, b, c, rv')" for a b c rv'
    using that by (simp add: hd_inflate_read_len_def Let_def)
  consider (bad) "rv0 = -1" | (big) "rv0 \<noteq> -1" "maxlen < unat n" | (ok) "rv0 \<noteq> -1" "unat n \<le> maxlen" by linarith
  then show ?thesis
  proof cases
    case bad
    then obtain a b c where "decode_length ?n0 (i_shift i) (p @ q) pre = Some (a, b, c, -1)" using split by auto
    from whole [OF this] show ?thesis using r1(1) bad by simp
  next
    case big
    have "\<exists>a b c rv'. decode_length ?n0 (i_shift i) (p @ q) pre = Some (a, b, c, rv') \<and> (rv' = -1 \<or> maxlen < unat a)"
    proof (cases f)
      case True
      then show ?thesis using split big by auto
    next
      case False
      show ?thesis
      proof (cases "q = []")
        case True
        then show ?thesis using d(1) big by auto
      next
        case q: False
        have nz: "n \<noteq> 0" using split big(1) False by simp
        obtain a b c rv' where g: "decode_groups n s' q 0 = (a, b, c, rv')" by (cases "decode_groups n s' q 0")
        have "decode_length n s' q pre = Some (a, b, c, rv')" using nz g by (simp add: decode_length_def)
        then have w: "decode_length ?n0 (i_shift i) (p @ q) pre = Some (a, b, c, if rv' = -1 then -1 else rv' + int (length p))"
          using split big(1) False q by (simp add: later_def)
        have "rv' = -1 \<or> n \<le> a" by (rule groups_up [OF g])
        then show ?thesis using w big(2) by (auto simp: word_le_nat_alt)
      qed
    qed
    then show ?thesis using whole r1(1) big by auto
  next
    case ok
    have i1: "i1 = i\<lparr>i_shift := s', i_left := unat n\<rparr>" "rv = rv0" using r1 ok by auto
    have pos: "0 \<le> rv0" "nat rv0 \<le> length p" using d(2) ok(1) by (auto simp: read_bounds_def)
    show ?thesis
    proof (cases f)
      case True
      then have "decode_length ?n0 (i_shift i) (p @ q) pre = Some (n, s', f, rv0)" using split ok(1) by simp
      from whole [OF this] show ?thesis using i1 pos True ok r1(2) by simp
    next
      case False
      have nz: "n \<noteq> 0" "rv0 = int (length p)" using split ok(1) False by simp_all
      have "\<exists>i2 rv2 f2. hd_inflate_read_len i1 q pre maxlen = Some (i2, rv2, f2) \<and>
        (if rv2 < 0 then \<exists>i' f'. hd_inflate_read_len i (p @ q) pre maxlen = Some (i', rv2, f')
         else hd_inflate_read_len i (p @ q) pre maxlen = Some (i2, rv2 + int (length p), f2))" if q: "q \<noteq> []"
      proof -
        obtain a b c rv' where g: "decode_groups n s' q 0 = (a, b, c, rv')" by (cases "decode_groups n s' q 0")
        have l: "decode_length n s' q pre = Some (a, b, c, rv')" using nz(1) g by (simp add: decode_length_def)
        then have w: "decode_length ?n0 (i_shift i) (p @ q) pre = Some (a, b, c, if rv' = -1 then -1 else rv' + int (length p))"
          using split ok(1) False q by (simp add: later_def)
        have b: "rv' = -1 \<or> 0 \<le> rv'" using decode_groups_bounds [OF g] by auto
        have l1: "hd_inflate_read_len i1 q pre maxlen = (if rv' = -1 \<or> maxlen < unat a then Some (i1\<lparr>i_shift := b\<rparr>, NGHTTP2_ERR_HEADER_COMP, c)
            else Some (i\<lparr>i_shift := b, i_left := unat a\<rparr>, rv', c))"
          using l i1(1) by (simp add: hd_inflate_read_len_def Let_def)
        show ?thesis
          using whole [OF w] b unfolding l1 by (cases "rv' = -1 \<or> maxlen < unat a") auto
      qed
      then show ?thesis using i1 nz False r1(2) pos by auto
    qed
  qed
qed

text \<open>The states that read an integer: \<open>f\<close> is what they do with it.\<close>

definition int_turn ::
  "nat \<Rightarrow> nat \<Rightarrow> (nghttp2_hd_inflater \<Rightarrow> bytes \<Rightarrow> inflate_result option) \<Rightarrow> nghttp2_hd_inflater \<Rightarrow> bytes \<Rightarrow> inflate_result option" where
  "int_turn pre maxlen f i ins = do {
     (i1, rv, rfin) \<leftarrow> hd_inflate_read_len i ins pre maxlen;
     if rv < 0 then Some (Fail i1 rv)
     else if \<not> rfin then Some (Almost i1 (drop (nat rv) ins))
     else f i1 (drop (nat rv) ins)
   }"

lemma int_turn_goes_on:
  assumes r: "int_turn pre maxlen f i p = Some r" and p: "p \<noteq> []" and pre: "1 \<le> pre" "pre \<le> 8"
    and s0: "(word_of_nat (i_left i) :: u32) = 0 \<longrightarrow> i_shift i = 0"
    and st: "i_state i \<noteq> NGHTTP2_HD_STATE_OPCODE" "i_state i \<noteq> NGHTTP2_HD_STATE_INFLATE_START"
    and f: "\<And>i1 rest r. f i1 rest = Some r \<Longrightarrow> goes_on q r (f i1 (rest @ q)) \<and> (\<forall>a b. r \<noteq> Almost a b)"
    and again: "\<And>sh n. q \<noteq> [] \<Longrightarrow> inflate_step (i\<lparr>i_shift := sh, i_left := n\<rparr>) q = int_turn pre maxlen f (i\<lparr>i_shift := sh, i_left := n\<rparr>) q"
  shows "goes_on q r (int_turn pre maxlen f i (p @ q))"
proof -
  obtain i1 rv fin where l: "hd_inflate_read_len i p pre maxlen = Some (i1, rv, fin)"
    using r by (auto simp: int_turn_def bind_eq_Some_conv)
  note split = read_len_split [OF l p pre s0, of q]
  consider (bad) "rv < 0" | (all) "\<not> rv < 0" "fin" | (cut) "\<not> rv < 0" "\<not> fin" by blast
  then show ?thesis
  proof cases
    case bad
    then obtain i' f' where "hd_inflate_read_len i (p @ q) pre maxlen = Some (i', rv, f')" using split by auto
    then show ?thesis using r l bad by (auto simp: int_turn_def)
  next
    case all
    then have w: "hd_inflate_read_len i (p @ q) pre maxlen = Some (i1, rv, fin)" "nat rv \<le> length p" using split by simp_all
    have "f i1 (drop (nat rv) p) = Some r" using r l all by (simp add: int_turn_def)
    from f [OF this] have "goes_on q r (f i1 (drop (nat rv) p @ q))" by simp
    then show ?thesis using w all by (simp add: int_turn_def)
  next
    case cut
    have nz: "(word_of_nat (i_left i1) :: u32) \<noteq> 0" and rv: "rv = int (length p)"
      and more: "q \<noteq> [] \<longrightarrow> (\<exists>i2 rv2 f2. hd_inflate_read_len i1 q pre maxlen = Some (i2, rv2, f2) \<and>
        (if rv2 < 0 then \<exists>i' f'. hd_inflate_read_len i (p @ q) pre maxlen = Some (i', rv2, f')
         else hd_inflate_read_len i (p @ q) pre maxlen = Some (i2, rv2 + int (length p), f2)))"
      and shape: "\<exists>sh n. i1 = i\<lparr>i_shift := sh, i_left := n\<rparr>"
      using split cut by simp_all
    obtain sh n where i1: "i1 = i\<lparr>i_shift := sh, i_left := n\<rparr>" using shape by blast
    have r1: "r = Almost i1 []" using r l cut rv by (simp add: int_turn_def)
    have "similar (int_turn pre maxlen f i (p @ q)) (inflate_step i1 q)" if q: "q \<noteq> []"
    proof -
      have step: "inflate_step i1 q = int_turn pre maxlen f i1 q" unfolding i1 by (rule again [OF q])
      obtain i2 rv2 f2 where l2: "hd_inflate_read_len i1 q pre maxlen = Some (i2, rv2, f2)"
        "if rv2 < 0 then \<exists>i' f'. hd_inflate_read_len i (p @ q) pre maxlen = Some (i', rv2, f')
         else hd_inflate_read_len i (p @ q) pre maxlen = Some (i2, rv2 + int (length p), f2)" using more q by blast
      show ?thesis
      proof (cases "rv2 < 0")
        case True
        then show ?thesis using l2 unfolding step by (auto simp: int_turn_def similar_def)
      next
        case False
        then have "nat (rv2 + int (length p)) = length p + nat rv2" "\<not> rv2 + int (length p) < 0" by simp_all
        then show ?thesis using l2 False unfolding step by (simp add: int_turn_def)
      qed
    qed
    then show ?thesis using r1 st nz i1 by (simp add: len_ok_def)
  qed
qed

definition table_size_end :: "nghttp2_hd_inflater \<Rightarrow> bytes \<Rightarrow> inflate_result option" where
  "table_size_end i1 rest = do {
     (ctx, _) \<leftarrow> hd_context_shrink_table_size ((i_ctx i1)\<lparr>hd_table_bufsize_max := i_left i1\<rparr>) None;
     Some (Go (i1\<lparr>i_min_hd_table_bufsize_max := UINT32_MAX, i_ctx := ctx, i_state := NGHTTP2_HD_STATE_INFLATE_START\<rparr>) rest False)
   }"

definition index_end :: "nghttp2_hd_inflater \<Rightarrow> bytes \<Rightarrow> inflate_result option" where
  "index_end i1 rest =
     (if i_left i1 = 0 then Some (Fail i1 NGHTTP2_ERR_HEADER_COMP)
      else
        (let i2 = i1\<lparr>i_index := i_left i1 - 1\<rparr> in
         if i_opcode i2 = NGHTTP2_HD_OPCODE_INDEXED
         then map_option (Emit (i2\<lparr>i_state := NGHTTP2_HD_STATE_OPCODE\<rparr>) rest) (hd_inflate_commit_indexed i2)
         else Some (Go (i2\<lparr>i_state := NGHTTP2_HD_STATE_CHECK_VALUELEN\<rparr>) rest False)))"

definition namelen_end :: "nghttp2_hd_inflater \<Rightarrow> bytes \<Rightarrow> inflate_result option" where
  "namelen_end i1 rest =
     (let i2 = (if huffman_encoded i1
                then i1\<lparr>huff_decode_ctx := nghttp2_hd_huff_decode_context_init, i_state := NGHTTP2_HD_STATE_NEWNAME_READ_NAMEHUFF\<rparr>
                else i1\<lparr>i_state := NGHTTP2_HD_STATE_NEWNAME_READ_NAME\<rparr>);
          n = (if huffman_encoded i1 then i_left i1 * 2 + 1 else i_left i1 + 1) in
      case rcbuf_alloc i2 n of
        (ok, i3, base) \<Rightarrow>
          if \<not> ok then Some (Fail i3 NGHTTP2_ERR_NOMEM)
          else Some (Go (i3\<lparr>namercbuf := Some n, namebuf := nghttp2_buf_wrap_init base\<rparr>) rest False))"

definition valuelen_end :: "nghttp2_hd_inflater \<Rightarrow> bytes \<Rightarrow> inflate_result option" where
  "valuelen_end i1 rest =
     (let i2 = (if huffman_encoded i1
                then i1\<lparr>huff_decode_ctx := nghttp2_hd_huff_decode_context_init, i_state := NGHTTP2_HD_STATE_READ_VALUEHUFF\<rparr>
                else i1\<lparr>i_state := NGHTTP2_HD_STATE_READ_VALUE\<rparr>);
          n = (if huffman_encoded i1 then i_left i1 * 2 + 1 else i_left i1 + 1) in
      case rcbuf_alloc i2 n of
        (ok, i3, base) \<Rightarrow>
          if \<not> ok then Some (Fail i3 NGHTTP2_ERR_NOMEM)
          else Some (Go (i3\<lparr>valuercbuf := Some n, valuebuf := nghttp2_buf_wrap_init base\<rparr>) rest True))"

lemma int_turns:
  "inflate_read_table_size i = int_turn 5 (min (i_min_hd_table_bufsize_max i) (settings_hd_table_bufsize_max i)) table_size_end i"
  "inflate_read_index i = int_turn (if i_opcode i = NGHTTP2_HD_OPCODE_INDEXED then 7 else if index_required i then 6 else 4) (get_max_index (i_ctx i)) index_end i"
  "inflate_read_namelen i = int_turn 7 NGHTTP2_HD_MAX_NV namelen_end i"
  "inflate_read_valuelen i = int_turn 7 NGHTTP2_HD_MAX_NV valuelen_end i"
  by (intro ext; simp only: inflate_read_table_size_def inflate_read_index_def inflate_read_namelen_def inflate_read_valuelen_def
      int_turn_def table_size_end_def index_end_def namelen_end_def valuelen_end_def Let_def)+

lemma rcbuf_alloc_state: "rcbuf_alloc i n = (ok, i3, d) \<Longrightarrow> i_state i3 = i_state i"
  by (auto simp: rcbuf_alloc_def split: prod.splits)

lemma ends_go_on:
  "table_size_end i1 rest = Some r \<Longrightarrow> goes_on q r (table_size_end i1 (rest @ q)) \<and> (\<forall>a b. r \<noteq> Almost a b)"
  "index_end i1 rest = Some r \<Longrightarrow> goes_on q r (index_end i1 (rest @ q)) \<and> (\<forall>a b. r \<noteq> Almost a b)"
  "namelen_end i1 rest = Some r \<Longrightarrow> goes_on q r (namelen_end i1 (rest @ q)) \<and> (\<forall>a b. r \<noteq> Almost a b)"
  "valuelen_end i1 rest = Some r \<Longrightarrow> goes_on q r (valuelen_end i1 (rest @ q)) \<and> (\<forall>a b. r \<noteq> Almost a b)"
     apply (auto simp: table_size_end_def len_ok_def bind_eq_Some_conv) [1]
    apply (auto simp: index_end_def len_ok_def Let_def split: if_splits) [1]
   apply (auto simp: namelen_end_def len_ok_def Let_def dest!: rcbuf_alloc_state split: if_splits prod.splits) [1]
  apply (auto simp: valuelen_end_def len_ok_def Let_def dest!: rcbuf_alloc_state split: if_splits prod.splits) [1]
  done

text \<open>The states that read a string.\<close>

lemma drop_later: "\<not> rv < 0 \<Longrightarrow> drop (nat (rv + int (length p))) (p @ q) = drop (nat rv) q"
  by (simp add: nat_add_distrib)

lemma name_goes_on:
  assumes r: "finish_name (f i (namebuf i) p) p = Some r" and f: "reads_on f i (namebuf i) p q"
    and st: "i_state i = NGHTTP2_HD_STATE_NEWNAME_READ_NAMEHUFF \<or> i_state i = NGHTTP2_HD_STATE_NEWNAME_READ_NAME"
    and keep: "\<And>i1 buf rv. f i (namebuf i) p = Some (i1, buf, rv) \<Longrightarrow> i_state i1 = i_state i"
    and again: "\<And>i1 buf rv. f i (namebuf i) p = Some (i1, buf, rv) \<Longrightarrow> inflate_step (i1\<lparr>namebuf := buf\<rparr>) q = finish_name (f (i1\<lparr>namebuf := buf\<rparr>) buf q) q"
    and buf: "\<And>i1 b b'. f (i1\<lparr>namebuf := b'\<rparr>) b q = map_option (\<lambda>(i2, b2, rv). (i2\<lparr>namebuf := b'\<rparr>, b2, rv)) (f i1 b q)"
    and some: "\<And>i1 buf rv. f i (namebuf i) p = Some (i1, buf, rv) \<Longrightarrow> \<not> rv < 0 \<Longrightarrow> f i1 buf q \<noteq> None"
  shows "goes_on q r (finish_name (f i (namebuf i) (p @ q)) (p @ q))"
proof -
  obtain i1 buf rv where g: "f i (namebuf i) p = Some (i1, buf, rv)" using r by (auto simp: finish_name_def bind_eq_Some_conv)
  note split = f [unfolded reads_on_def, rule_format, OF g]
  consider (bad) "rv < 0" | (all) "\<not> rv < 0" "i_left i1 = 0" | (cut) "\<not> rv < 0" "i_left i1 \<noteq> 0" by blast
  then show ?thesis
  proof cases
    case bad
    then obtain i' b' where "f i (namebuf i) (p @ q) = Some (i', b', rv)" using split by auto
    then show ?thesis using r g bad by (auto simp: finish_name_def)
  next
    case all
    then show ?thesis using r g split by (auto simp: finish_name_def bind_eq_Some_conv len_ok_def)
  next
    case cut
    have r1: "r = Almost (i1\<lparr>namebuf := buf\<rparr>) []" "rv = int (length p)" using r g cut split by (simp_all add: finish_name_def)
    obtain i2 b2 rv2 where h: "f i1 buf q = Some (i2, b2, rv2)" using some [OF g cut(1)] by auto
    have whole: "if rv2 < 0 then \<exists>i' b'. f i (namebuf i) (p @ q) = Some (i', b', rv2)
        else f i (namebuf i) (p @ q) = Some (i2, b2, rv2 + int (length p))" using split cut h by simp
    have "similar (finish_name (f i (namebuf i) (p @ q)) (p @ q)) (inflate_step (i1\<lparr>namebuf := buf\<rparr>) q)"
    proof (cases "rv2 < 0")
      case True
      then show ?thesis using whole h unfolding again [OF g] buf by (auto simp: finish_name_def similar_def)
    next
      case False
      then have "\<not> rv2 + int (length p) < 0" by simp
      then show ?thesis using whole h False drop_later [OF False, of p q] unfolding again [OF g] buf by (simp add: finish_name_def)
    qed
    then show ?thesis using r1 st keep [OF g] by (auto simp: len_ok_def)
  qed
qed

lemma value_goes_on:
  assumes r: "finish_value (f i (valuebuf i) p) p = Some r" and f: "reads_on f i (valuebuf i) p q"
    and st: "i_state i = NGHTTP2_HD_STATE_READ_VALUEHUFF \<or> i_state i = NGHTTP2_HD_STATE_READ_VALUE"
    and keep: "\<And>i1 buf rv. f i (valuebuf i) p = Some (i1, buf, rv) \<Longrightarrow> i_state i1 = i_state i"
    and again: "\<And>i1 buf rv. f i (valuebuf i) p = Some (i1, buf, rv) \<Longrightarrow> inflate_step (i1\<lparr>valuebuf := buf\<rparr>) q = finish_value (f (i1\<lparr>valuebuf := buf\<rparr>) buf q) q"
    and buf: "\<And>i1 b b'. f (i1\<lparr>valuebuf := b'\<rparr>) b q = map_option (\<lambda>(i2, b2, rv). (i2\<lparr>valuebuf := b'\<rparr>, b2, rv)) (f i1 b q)"
    and some: "\<And>i1 buf rv. f i (valuebuf i) p = Some (i1, buf, rv) \<Longrightarrow> \<not> rv < 0 \<Longrightarrow> f i1 buf q \<noteq> None"
  shows "goes_on q r (finish_value (f i (valuebuf i) (p @ q)) (p @ q))"
proof -
  obtain i1 buf rv where g: "f i (valuebuf i) p = Some (i1, buf, rv)" using r by (auto simp: finish_value_def bind_eq_Some_conv)
  note split = f [unfolded reads_on_def, rule_format, OF g]
  consider (bad) "rv < 0" | (all) "\<not> rv < 0" "i_left i1 = 0" | (cut) "\<not> rv < 0" "i_left i1 \<noteq> 0" by blast
  then show ?thesis
  proof cases
    case bad
    then obtain i' b' where "f i (valuebuf i) (p @ q) = Some (i', b', rv)" using split by auto
    then show ?thesis using r g bad by (auto simp: finish_value_def)
  next
    case all
    then have "f i (valuebuf i) (p @ q) = Some (i1, buf, rv)" "nat rv \<le> length p" using split by simp_all
    then show ?thesis using r g all by (auto simp: finish_value_def bind_eq_Some_conv Let_def split: if_splits)
  next
    case cut
    have r1: "r = Almost (i1\<lparr>valuebuf := buf\<rparr>) []" "rv = int (length p)" using r g cut split by (simp_all add: finish_value_def)
    obtain i2 b2 rv2 where h: "f i1 buf q = Some (i2, b2, rv2)" using some [OF g cut(1)] by auto
    have whole: "if rv2 < 0 then \<exists>i' b'. f i (valuebuf i) (p @ q) = Some (i', b', rv2)
        else f i (valuebuf i) (p @ q) = Some (i2, b2, rv2 + int (length p))" using split cut h by simp
    have "similar (finish_value (f i (valuebuf i) (p @ q)) (p @ q)) (inflate_step (i1\<lparr>valuebuf := buf\<rparr>) q)"
    proof (cases "rv2 < 0")
      case True
      then show ?thesis using whole h unfolding again [OF g] buf by (auto simp: finish_value_def similar_def)
    next
      case False
      then have "\<not> rv2 + int (length p) < 0" by simp
      then show ?thesis using whole h False drop_later [OF False, of p q] unfolding again [OF g] buf
        by (simp add: finish_value_def del: drop_append cong: if_cong)
    qed
    then show ?thesis using r1 st keep [OF g] by (auto simp: len_ok_def)
  qed
qed

lemma readers_keep:
  "hd_inflate_read i b p = Some (i1, buf, rv) \<Longrightarrow> i_state i1 = i_state i"
  "hd_inflate_read_huff i b p = Some (i1, buf, rv) \<Longrightarrow> i_state i1 = i_state i"
  by (auto simp: hd_inflate_read_def hd_inflate_read_huff_def Let_def split: bind_splits if_splits)

lemma read_namebuf:
  "hd_inflate_read (i1\<lparr>namebuf := b'\<rparr>) b q = map_option (\<lambda>(i2, b2, rv). (i2\<lparr>namebuf := b'\<rparr>, b2, rv)) (hd_inflate_read i1 b q)"
  unfolding hd_inflate_read_def Let_def
  by (cases "buf_put (take (min (length q) (i_left i1)) q) b") simp_all

lemma read_huff_namebuf:
  "hd_inflate_read_huff (i1\<lparr>namebuf := b'\<rparr>) b q = map_option (\<lambda>(i2, b2, rv). (i2\<lparr>namebuf := b'\<rparr>, b2, rv)) (hd_inflate_read_huff i1 b q)"
proof -
  define d where "d = nghttp2_hd_huff_decode (huff_decode_ctx i1) b (if i_left i1 \<le> length q then take (i_left i1) q else q) (i_left i1 \<le> length q)"
  have sel: "i_left (i1\<lparr>namebuf := b'\<rparr>) = i_left i1" "huff_decode_ctx (i1\<lparr>namebuf := b'\<rparr>) = huff_decode_ctx i1" by simp_all
  show ?thesis
    unfolding hd_inflate_read_huff_def Let_def sel d_def [symmetric] by (cases d) auto
qed

lemma read_valuebuf:
  "hd_inflate_read (i1\<lparr>valuebuf := b'\<rparr>) b q = map_option (\<lambda>(i2, b2, rv). (i2\<lparr>valuebuf := b'\<rparr>, b2, rv)) (hd_inflate_read i1 b q)"
  unfolding hd_inflate_read_def Let_def
  by (cases "buf_put (take (min (length q) (i_left i1)) q) b") simp_all

lemma read_huff_valuebuf:
  "hd_inflate_read_huff (i1\<lparr>valuebuf := b'\<rparr>) b q = map_option (\<lambda>(i2, b2, rv). (i2\<lparr>valuebuf := b'\<rparr>, b2, rv)) (hd_inflate_read_huff i1 b q)"
proof -
  define d where "d = nghttp2_hd_huff_decode (huff_decode_ctx i1) b (if i_left i1 \<le> length q then take (i_left i1) q else q) (i_left i1 \<le> length q)"
  have sel: "i_left (i1\<lparr>valuebuf := b'\<rparr>) = i_left i1" "huff_decode_ctx (i1\<lparr>valuebuf := b'\<rparr>) = huff_decode_ctx i1" by simp_all
  show ?thesis
    unfolding hd_inflate_read_huff_def Let_def sel d_def [symmetric] by (cases d) auto
qed

lemmas readers_buf = read_namebuf read_valuebuf read_huff_namebuf read_huff_valuebuf

lemma opcode_step:
  "inflate_opcode i (b # x) =
    (if b AND 0xe0 = 0x20 then
       (if i_state i = NGHTTP2_HD_STATE_OPCODE then Some (Fail i NGHTTP2_ERR_HEADER_COMP)
        else Some (Go (i\<lparr>i_opcode := NGHTTP2_HD_OPCODE_INDEXED, i_state := NGHTTP2_HD_STATE_READ_TABLE_SIZE, i_left := 0, i_shift := 0\<rparr>) (b # x) False))
     else if b AND 0x80 \<noteq> 0 then
       Some (Go (i\<lparr>i_opcode := NGHTTP2_HD_OPCODE_INDEXED, i_state := NGHTTP2_HD_STATE_READ_INDEX, i_left := 0, i_shift := 0\<rparr>) (b # x) False)
     else if b = 0x40 \<or> b = 0 \<or> b = 0x10 then
       Some (Go (i\<lparr>i_opcode := NGHTTP2_HD_OPCODE_NEWNAME, i_state := NGHTTP2_HD_STATE_NEWNAME_CHECK_NAMELEN,
         index_required := b AND 0x40 \<noteq> 0, no_index := b AND 0xf0 = 0x10, i_left := 0, i_shift := 0\<rparr>) x False)
     else
       Some (Go (i\<lparr>i_opcode := NGHTTP2_HD_OPCODE_INDNAME, i_state := NGHTTP2_HD_STATE_READ_INDEX,
         index_required := b AND 0x40 \<noteq> 0, no_index := b AND 0xf0 = 0x10, i_left := 0, i_shift := 0\<rparr>) (b # x) False))"
  unfolding inflate_opcode_def Let_def by simp

lemma opcode_cases:
  assumes "inflate_opcode i (b # x) = Some r"
  obtains "r = Fail i NGHTTP2_ERR_HEADER_COMP" "\<And>y. inflate_opcode i (b # y) = Some (Fail i NGHTTP2_ERR_HEADER_COMP)"
  | j where "r = Go j (b # x) False" "\<And>y. inflate_opcode i (b # y) = Some (Go j (b # y) False)" "i_left j = 0" "i_shift j = 0"
      "nv_name_keep j = nv_name_keep i" "nv_value_keep j = nv_value_keep i"
  | j where "r = Go j x False" "\<And>y. inflate_opcode i (b # y) = Some (Go j y False)" "i_left j = 0" "i_shift j = 0"
      "nv_name_keep j = nv_name_keep i" "nv_value_keep j = nv_value_keep i"
proof -
  consider (size) "b AND 0xe0 = 0x20" "i_state i = NGHTTP2_HD_STATE_OPCODE" | (size') "b AND 0xe0 = 0x20" "i_state i \<noteq> NGHTTP2_HD_STATE_OPCODE"
    | (indexed) "b AND 0xe0 \<noteq> 0x20" "b AND 0x80 \<noteq> 0"
    | (new) "b AND 0xe0 \<noteq> 0x20" "\<not> b AND 0x80 \<noteq> 0" "b = 0x40 \<or> b = 0 \<or> b = 0x10"
    | (ind) "b AND 0xe0 \<noteq> 0x20" "\<not> b AND 0x80 \<noteq> 0" "\<not> (b = 0x40 \<or> b = 0 \<or> b = 0x10)" by blast
  then show thesis
  proof cases
    case size
    note step = opcode_step [of i b, unfolded if_P [OF size(1)] if_P [OF size(2)]]
    show thesis using assms unfolding step option.inject by - (drule sym, erule that(1), simp_all add: step)
  next
    case size'
    note step = opcode_step [of i b, unfolded if_P [OF size'(1)] if_not_P [OF size'(2)]]
    show thesis using assms unfolding step option.inject by - (drule sym, erule that(2), simp_all add: step)
  next
    case indexed
    note step = opcode_step [of i b, unfolded if_not_P [OF indexed(1)] if_P [OF indexed(2)]]
    show thesis using assms unfolding step option.inject by - (drule sym, erule that(2), simp_all add: step)
  next
    case new
    note step = opcode_step [of i b, unfolded if_not_P [OF new(1)] if_not_P [OF new(2)] if_P [OF new(3)]]
    show thesis using assms unfolding step option.inject by - (drule sym, erule that(3), simp_all add: step)
  next
    case ind
    note step = opcode_step [of i b, unfolded if_not_P [OF ind(1)] if_not_P [OF ind(2)] if_not_P [OF ind(3)]]
    show thesis using assms unfolding step option.inject by - (drule sym, erule that(2), simp_all add: step)
  qed
qed

lemma opcode_goes_on:
  assumes r: "inflate_opcode i p = Some r" and p: "p \<noteq> []"
  shows "goes_on q r (inflate_opcode i (p @ q))"
proof -
  obtain b rest where b: "p = b # rest" using p by (cases p) auto
  from r [unfolded b] show ?thesis
    unfolding b append_Cons by (cases rule: opcode_cases) (simp_all add: len_ok_def)
qed

lemma expect_goes_on:
  assumes "inflate_expect_table_size i p = Some r" "p \<noteq> []"
  shows "goes_on q r (inflate_expect_table_size i (p @ q))"
proof -
  obtain b rest where b: "p = b # rest" using assms(2) by (cases p) auto
  show ?thesis
    using assms(1) opcode_goes_on [of i p r q] assms(2) unfolding inflate_expect_table_size_def b by (auto split: if_splits)
qed

lemma int_goes_on:
  assumes "p \<noteq> []" "len_ok i"
  shows
    "inflate_read_table_size i p = Some r \<Longrightarrow> i_state i = NGHTTP2_HD_STATE_READ_TABLE_SIZE \<Longrightarrow> goes_on q r (inflate_read_table_size i (p @ q))"
    "inflate_read_index i p = Some r \<Longrightarrow> i_state i = NGHTTP2_HD_STATE_READ_INDEX \<Longrightarrow> goes_on q r (inflate_read_index i (p @ q))"
    "inflate_read_namelen i p = Some r \<Longrightarrow> i_state i = NGHTTP2_HD_STATE_NEWNAME_READ_NAMELEN \<Longrightarrow> goes_on q r (inflate_read_namelen i (p @ q))"
    "inflate_read_valuelen i p = Some r \<Longrightarrow> i_state i = NGHTTP2_HD_STATE_READ_VALUELEN \<Longrightarrow> goes_on q r (inflate_read_valuelen i (p @ q))"
proof -
  assume r: "inflate_read_table_size i p = Some r" and st: "i_state i = NGHTTP2_HD_STATE_READ_TABLE_SIZE"
  show "goes_on q r (inflate_read_table_size i (p @ q))"
    using int_turn_goes_on [OF r [unfolded int_turns] assms(1) _ _ _ _ _ ends_go_on(1), of q] st assms(2)
    by (simp add: int_turns inflate_step_def len_ok_def)
next
  assume r: "inflate_read_index i p = Some r" and st: "i_state i = NGHTTP2_HD_STATE_READ_INDEX"
  show "goes_on q r (inflate_read_index i (p @ q))"
    using int_turn_goes_on [OF r [unfolded int_turns] assms(1) _ _ _ _ _ ends_go_on(2), of q] st assms(2)
    by (simp add: int_turns inflate_step_def len_ok_def)
next
  assume r: "inflate_read_namelen i p = Some r" and st: "i_state i = NGHTTP2_HD_STATE_NEWNAME_READ_NAMELEN"
  show "goes_on q r (inflate_read_namelen i (p @ q))"
    using int_turn_goes_on [OF r [unfolded int_turns] assms(1) _ _ _ _ _ ends_go_on(3), of q] st assms(2)
    by (simp add: int_turns inflate_step_def len_ok_def)
next
  assume r: "inflate_read_valuelen i p = Some r" and st: "i_state i = NGHTTP2_HD_STATE_READ_VALUELEN"
  show "goes_on q r (inflate_read_valuelen i (p @ q))"
    using int_turn_goes_on [OF r [unfolded int_turns] assms(1) _ _ _ _ _ ends_go_on(4), of q] st assms(2)
    by (simp add: int_turns inflate_step_def len_ok_def)
qed

lemma check_goes_on:
  assumes "p \<noteq> []"
  shows "inflate_check_namelen i p = Some r \<Longrightarrow> goes_on q r (inflate_check_namelen i (p @ q))"
    "inflate_check_valuelen i p = Some r \<Longrightarrow> goes_on q r (inflate_check_valuelen i (p @ q))"
proof -
  obtain b rest where b: "p = b # rest" using assms by (cases p) auto
  let ?i = "\<lambda>st. i\<lparr>huffman_encoded := b AND push_bit 7 1 \<noteq> 0, i_state := st, i_left := 0, i_shift := 0\<rparr>"
  have n: "inflate_check_namelen i (p @ x) = inflate_read_namelen (?i NGHTTP2_HD_STATE_NEWNAME_READ_NAMELEN) (p @ x)" for x
    by (simp add: inflate_check_namelen_def hd_inflate_set_huffman_encoded_def b)
  have v: "inflate_check_valuelen i (p @ x) = inflate_read_valuelen (?i NGHTTP2_HD_STATE_READ_VALUELEN) (p @ x)" for x
    by (simp add: inflate_check_valuelen_def hd_inflate_set_huffman_encoded_def b)
  have l: "len_ok (?i st)" for st by (simp add: len_ok_def)
  show "inflate_check_namelen i p = Some r \<Longrightarrow> goes_on q r (inflate_check_namelen i (p @ q))"
    using int_goes_on(3) [OF assms l, of NGHTTP2_HD_STATE_NEWNAME_READ_NAMELEN r q] n [of "[]"] n [of q] by simp
  show "inflate_check_valuelen i p = Some r \<Longrightarrow> goes_on q r (inflate_check_valuelen i (p @ q))"
    using int_goes_on(4) [OF assms l, of NGHTTP2_HD_STATE_READ_VALUELEN r q] v [of "[]"] v [of q] by simp
qed

lemma part_some:
  assumes "part_read k i p (Some (i1, buf, rv))" "\<not> rv < 0"
  shows "room_for (k * i_left i1) buf" "k = 2 \<Longrightarrow> node (huff_decode_ctx i1) \<le> 256"
  using assms by (auto simp: part_read_def)

lemma part_read_some: "part_read k i p got \<Longrightarrow> got \<noteq> None"
  by (auto simp: part_read_def)

lemma huff_some:
  assumes "room_for (2 * i_left i) b" "node (huff_decode_ctx i) \<le> 256" "hd_inflate_read_huff i b p = Some (i1, buf, rv)" "\<not> rv < 0"
  shows "hd_inflate_read_huff i1 buf q \<noteq> None"
  using part_some [OF read_huff_any [OF assms(1,2), of p, unfolded assms(3)] assms(4)] part_read_some [OF read_huff_any, of i1 buf q] by simp

lemma plain_some:
  assumes "room_for (i_left i) b" "hd_inflate_read i b p = Some (i1, buf, rv)" "\<not> rv < 0"
  shows "hd_inflate_read i1 buf q \<noteq> None"
  using part_some(1) [OF read_any [OF assms(1), of p, unfolded assms(2)] assms(3)] part_read_some [OF read_any, of i1 buf q] by simp

lemma step_goes_on:
  assumes i: "inflater_ok i" "len_ok i" and r: "inflate_step i p = Some r" and p: "p \<noteq> [] \<or> in_value i"
  shows "goes_on q r (inflate_step i (p @ q))"
proof -
  have ne: "p \<noteq> []" if "\<not> in_value i" using p that by simp
  have st: "state_ok (i_state i) i" using i(1) by (simp add: inflater_ok_def)
  show ?thesis
  proof (cases "i_state i")
    case NGHTTP2_HD_STATE_NEWNAME_READ_NAMEHUFF
    note s = this
    have room: "room_for (2 * i_left i) (namebuf i)" "node (huff_decode_ctx i) \<le> 256" using st s by simp_all
    have step: "inflate_step x ins = finish_name (hd_inflate_read_huff x (namebuf x) ins) ins" if "i_state x = i_state i" for x ins
      using that s by (simp add: inflate_step_def inflate_read_namehuff_def)
    show ?thesis
      unfolding step [OF refl]
      by (rule name_goes_on [where f = hd_inflate_read_huff])
        (use r step s room huff_reads_on [OF room] readers_keep readers_buf huff_some [OF room] in auto)
  next
    case NGHTTP2_HD_STATE_NEWNAME_READ_NAME
    note s = this
    have room: "room_for (i_left i) (namebuf i)" using st s by simp
    have step: "inflate_step x ins = finish_name (hd_inflate_read x (namebuf x) ins) ins" if "i_state x = i_state i" for x ins
      using that s by (simp add: inflate_step_def inflate_read_name_def)
    show ?thesis
      unfolding step [OF refl]
      by (rule name_goes_on [where f = hd_inflate_read])
        (use r step s plain_reads_on readers_keep readers_buf plain_some [OF room] in auto)
  next
    case NGHTTP2_HD_STATE_READ_VALUEHUFF
    note s = this
    have room: "room_for (2 * i_left i) (valuebuf i)" "node (huff_decode_ctx i) \<le> 256" using st s by simp_all
    have step: "inflate_step x ins = finish_value (hd_inflate_read_huff x (valuebuf x) ins) ins" if "i_state x = i_state i" for x ins
      using that s by (simp add: inflate_step_def inflate_read_valuehuff_def)
    show ?thesis
      unfolding step [OF refl]
      by (rule value_goes_on [where f = hd_inflate_read_huff])
        (use r step s room huff_reads_on [OF room] readers_keep readers_buf huff_some [OF room] in auto)
  next
    case NGHTTP2_HD_STATE_READ_VALUE
    note s = this
    have room: "room_for (i_left i) (valuebuf i)" using st s by simp
    have step: "inflate_step x ins = finish_value (hd_inflate_read x (valuebuf x) ins) ins" if "i_state x = i_state i" for x ins
      using that s by (simp add: inflate_step_def inflate_read_value_def)
    show ?thesis
      unfolding step [OF refl]
      by (rule value_goes_on [where f = hd_inflate_read])
        (use r step s plain_reads_on readers_keep readers_buf plain_some [OF room] in auto)
  qed (use i ne r in \<open>simp_all add: inflate_step_def in_value_def opcode_goes_on expect_goes_on int_goes_on check_goes_on del: goes_on.simps\<close>)
qed

section \<open>The loop\<close>

fun loop_goes_on :: "bytes \<Rightarrow> inflate_result \<Rightarrow> inflate_result option \<Rightarrow> bool" where
  "loop_goes_on q (Go i1 ins1 busy) whole \<longleftrightarrow> len_ok i1 \<and> similar whole (inflate_loop i1 q False)"
| "loop_goes_on q (Almost i1 ins1) whole \<longleftrightarrow> len_ok i1 \<and> i_state i1 \<noteq> NGHTTP2_HD_STATE_OPCODE \<and> i_state i1 \<noteq> NGHTTP2_HD_STATE_INFLATE_START \<and>
     (q \<noteq> [] \<longrightarrow> similar whole (inflate_loop i1 q False))"
| "loop_goes_on q r whole \<longleftrightarrow> goes_on q r whole"

lemma loop_similar:
  assumes "similar (inflate_step i x) (inflate_step j y)" "x \<noteq> [] \<or> busy" "y \<noteq> [] \<or> busy'"
  shows "similar (inflate_loop i x busy) (inflate_loop j y busy')"
proof (cases "inflate_step i x = inflate_step j y")
  case True
  then have "inflate_loop i x busy = inflate_loop j y busy'" using assms(2,3) by (subst (1 2) inflate_loop.simps) auto
  then show ?thesis by simp
next
  case False
  then obtain i1 i2 e where "inflate_step i x = Some (Fail i1 e)" "inflate_step j y = Some (Fail i2 e)" using assms(1) by (auto simp: similar_def)
  then show ?thesis using assms(2,3) loop_stop [of i x] loop_stop [of j y] by (auto simp: similar_def)
qed

lemma loop_goes_on:
  "inflater_ok i \<Longrightarrow> len_ok i \<Longrightarrow> busy \<longrightarrow> in_value i \<Longrightarrow> inflate_loop i p busy = Some r \<Longrightarrow> loop_goes_on q r (inflate_loop i (p @ q) busy)"
proof (induction "3 * length p + rank (i_state i)" arbitrary: i p busy rule: less_induct)
  case less
  show ?case
  proof (cases "p = [] \<and> \<not> busy")
    case True
    then have "r = Go i p False" using less.prems(4) by (subst (asm) inflate_loop.simps) simp
    then show ?thesis using True less.prems(2) by simp
  next
    case False
    have p: "p \<noteq> [] \<or> in_value i" using False less.prems(3) by blast
    obtain s where s: "inflate_step i p = Some s" "turn_ok i p s" using step_turn [OF less.prems(1) p] by blast
    note g = step_goes_on [OF less.prems(1,2) s(1) p, of q]
    have ne: "p @ q \<noteq> [] \<or> busy" "p \<noteq> [] \<or> busy" using False by auto
    show ?thesis
    proof (cases s)
      case (Go i1 p1 busy1)
      have w: "inflate_step i (p @ q) = Some (Go i1 (p1 @ q) busy1)" "len_ok i1" using g Go by simp_all
      have t: "inflater_ok i1" "3 * length p1 + rank (i_state i1) < 3 * length p + rank (i_state i)" "busy1 \<longrightarrow> in_value i1"
        using s(2) Go by simp_all
      have l1: "inflate_loop i1 p1 busy1 = Some r" using less.prems(4) s(1) Go loop_go [OF _ ne(2)] by simp
      show ?thesis
        using less.hyps [OF t(2,1) w(2) t(3) l1] loop_go [OF w(1) ne(1)] by simp
    next
      case (Almost i1 p1)
      have r: "r = s" using less.prems(4) loop_stop [OF s(1) _ ne(2)] Almost by simp
      have "similar (inflate_loop i (p @ q) busy) (inflate_loop i1 q False)" if "q \<noteq> []"
        using g Almost that ne(1) by (intro loop_similar) auto
      then show ?thesis using g Almost r by simp
    next
      case (Fail i1 e)
      have r: "r = s" using less.prems(4) loop_stop [OF s(1) _ ne(2)] Fail by simp
      obtain i2 where "inflate_step i (p @ q) = Some (Fail i2 e)" using g Fail by auto
      then have "inflate_loop i (p @ q) busy = Some (Fail i2 e)" using loop_stop [OF _ _ ne(1)] by simp
      then show ?thesis using r Fail by simp
    next
      case (Emit i1 p1 nv)
      have r: "r = s" using less.prems(4) loop_stop [OF s(1) _ ne(2)] Emit by simp
      have "inflate_step i (p @ q) = Some (Emit i1 (p1 @ q) nv)" using g Emit by simp
      then have "inflate_loop i (p @ q) busy = Some (Emit i1 (p1 @ q) nv)" using loop_stop [OF _ _ ne(1)] by simp
      then show ?thesis using r Emit by simp
    qed
  qed
qed

section \<open>Calls\<close>

text \<open>The strings of the last field are kept only until the next call.\<close>

definition kept :: "nghttp2_hd_inflater \<Rightarrow> nghttp2_hd_inflater \<Rightarrow> bool" where
  "kept i j \<longleftrightarrow> nv_name_keep j = nv_name_keep i \<and> nv_value_keep j = nv_value_keep i"

fun result_kept :: "nghttp2_hd_inflater \<Rightarrow> inflate_result \<Rightarrow> bool" where
  "result_kept i (Go j ins b) \<longleftrightarrow> kept i j"
| "result_kept i (Almost j ins) \<longleftrightarrow> kept i j"
| "result_kept i r \<longleftrightarrow> True"

lemma kept_refl [simp]: "kept i i"
  by (simp add: kept_def)

lemma read_len_kept: "hd_inflate_read_len i ins pre maxlen = Some (i1, rv, fin) \<Longrightarrow> kept i i1"
  by (auto simp: hd_inflate_read_len_def kept_def Let_def bind_eq_Some_conv split: if_splits)

lemma alloc_kept: "rcbuf_alloc i n = (ok, i3, d) \<Longrightarrow> kept i i3"
  by (auto simp: rcbuf_alloc_def kept_def split: prod.splits)

lemma ends_kept:
  "table_size_end i1 rest = Some r \<Longrightarrow> kept i i1 \<Longrightarrow> result_kept i r"
  "index_end i1 rest = Some r \<Longrightarrow> kept i i1 \<Longrightarrow> result_kept i r"
  "namelen_end i1 rest = Some r \<Longrightarrow> kept i i1 \<Longrightarrow> result_kept i r"
  "valuelen_end i1 rest = Some r \<Longrightarrow> kept i i1 \<Longrightarrow> result_kept i r"
     apply (auto simp: table_size_end_def kept_def bind_eq_Some_conv) [1]
    apply (auto simp: index_end_def kept_def Let_def split: if_splits) [1]
   apply (auto simp: namelen_end_def kept_def Let_def dest!: alloc_kept split: if_splits prod.splits) [1]
  apply (auto simp: valuelen_end_def kept_def Let_def dest!: alloc_kept split: if_splits prod.splits) [1]
  done

lemma int_turn_kept:
  assumes r: "int_turn pre maxlen f i p = Some r" and f: "\<And>i1 rest r. f i1 rest = Some r \<Longrightarrow> kept i i1 \<Longrightarrow> result_kept i r"
  shows "result_kept i r"
  using r by (auto simp: int_turn_def bind_eq_Some_conv dest!: read_len_kept intro: f split: if_splits)

lemma strings_kept:
  "finish_name (hd_inflate_read_huff i b ins) ins = Some r \<Longrightarrow> result_kept i r"
  "finish_name (hd_inflate_read i b ins) ins = Some r \<Longrightarrow> result_kept i r"
  "finish_value (hd_inflate_read_huff i b ins) ins = Some r \<Longrightarrow> result_kept i r"
  "finish_value (hd_inflate_read i b ins) ins = Some r \<Longrightarrow> result_kept i r"
proof -
  have huff: "kept i i1" if "hd_inflate_read_huff i b ins = Some (i1, b1, rv)" for i1 b1 rv
    using that by (auto simp: hd_inflate_read_huff_def kept_def Let_def bind_eq_Some_conv split: if_splits)
  have plain: "kept i i1" if "hd_inflate_read i b ins = Some (i1, b1, rv)" for i1 b1 rv
    using that by (auto simp: hd_inflate_read_def kept_def Let_def bind_eq_Some_conv)
  have name: "result_kept i r" if "finish_name got ins = Some r" "\<And>i1 b1 rv. got = Some (i1, b1, rv) \<Longrightarrow> kept i i1" for got
    using that by (auto simp: finish_name_def kept_def bind_eq_Some_conv split: if_splits)
  have val: "result_kept i r" if "finish_value got ins = Some r" "\<And>i1 b1 rv. got = Some (i1, b1, rv) \<Longrightarrow> kept i i1" for got
    using that by (auto simp: finish_value_def kept_def Let_def bind_eq_Some_conv split: if_splits)
  show "finish_name (hd_inflate_read_huff i b ins) ins = Some r \<Longrightarrow> result_kept i r"
    "finish_name (hd_inflate_read i b ins) ins = Some r \<Longrightarrow> result_kept i r"
    "finish_value (hd_inflate_read_huff i b ins) ins = Some r \<Longrightarrow> result_kept i r"
    "finish_value (hd_inflate_read i b ins) ins = Some r \<Longrightarrow> result_kept i r"
    using name huff plain val by blast+
qed

lemma opcode_kept: "inflate_opcode i ins = Some r \<Longrightarrow> result_kept i r"
proof (cases ins)
  case (Cons b x)
  assume "inflate_opcode i ins = Some r"
  then show ?thesis unfolding Cons by (cases rule: opcode_cases) (simp_all add: kept_def)
qed (simp add: inflate_opcode_def rd_def)

lemma expect_kept: "inflate_expect_table_size i ins = Some r \<Longrightarrow> result_kept i r"
  by (auto simp: inflate_expect_table_size_def bind_eq_Some_conv opcode_kept split: if_splits)

lemma ints_kept:
  "inflate_read_table_size i ins = Some r \<Longrightarrow> result_kept i r"
  "inflate_read_index i ins = Some r \<Longrightarrow> result_kept i r"
  "inflate_read_namelen i ins = Some r \<Longrightarrow> result_kept i r"
  "inflate_read_valuelen i ins = Some r \<Longrightarrow> result_kept i r"
  unfolding int_turns by (erule int_turn_kept, erule ends_kept, assumption)+

lemma result_kept_update:
  "result_kept (i\<lparr>huffman_encoded := h, i_state := st, i_left := l, i_shift := s\<rparr>) r = result_kept i r"
  by (cases r) (simp_all add: kept_def)

lemma checks_kept:
  "inflate_check_namelen i ins = Some r \<Longrightarrow> result_kept i r"
  "inflate_check_valuelen i ins = Some r \<Longrightarrow> result_kept i r"
  by (auto simp: inflate_check_namelen_def inflate_check_valuelen_def hd_inflate_set_huffman_encoded_def bind_eq_Some_conv
      dest!: ints_kept simp: result_kept_update)

lemma step_kept: "inflate_step i ins = Some r \<Longrightarrow> result_kept i r"
  by (cases "i_state i")
    (simp_all add: inflate_step_def inflate_read_namehuff_def inflate_read_name_def inflate_read_valuehuff_def inflate_read_value_def
      opcode_kept expect_kept ints_kept checks_kept strings_kept)

lemma loop_kept:
  "inflater_ok i \<Longrightarrow> busy \<longrightarrow> in_value i \<Longrightarrow> inflate_loop i ins busy = Some r \<Longrightarrow> result_kept i r"
proof (induction "3 * length ins + rank (i_state i)" arbitrary: i ins busy rule: less_induct)
  case less
  show ?case
  proof (cases "ins = [] \<and> \<not> busy")
    case True
    then show ?thesis using less.prems(3) by (subst (asm) inflate_loop.simps) auto
  next
    case False
    have p: "ins \<noteq> [] \<or> in_value i" "ins \<noteq> [] \<or> busy" using False less.prems(2) by auto
    obtain s where s: "inflate_step i ins = Some s" "turn_ok i ins s" using step_turn [OF less.prems(1) p(1)] by blast
    note k = step_kept [OF s(1)]
    show ?thesis
    proof (cases s)
      case (Go i1 ins1 busy1)
      have "inflate_loop i1 ins1 busy1 = Some r" using less.prems(3) s(1) Go loop_go [OF _ p(2)] by simp
      then have "result_kept i1 r" using less.hyps [of ins1 i1 busy1] s(2) Go by simp
      then show ?thesis using k Go by (cases r) (simp_all add: kept_def)
    qed (use less.prems(3) loop_stop [OF s(1) _ p(2)] k in auto)
  qed
qed

definition steady :: "nghttp2_hd_inflater \<Rightarrow> bool" where
  "steady i \<longleftrightarrow> inflater_safe i \<and> (\<not> ctx_bad (i_ctx i) \<longrightarrow> len_ok i)"

lemma kept_free: "kept (hd_inflate_keep_free i) j \<Longrightarrow> hd_inflate_keep_free j = j"
  by (simp add: kept_def hd_inflate_keep_free_def)

lemma len_ok_free [simp]: "len_ok (hd_inflate_keep_free i) = len_ok i"
  by (simp add: len_ok_def hd_inflate_keep_free_def)

text \<open>The answer to a piece and then the rest, as against the answer to both.\<close>

fun rest_answer ::
  "nat \<Rightarrow> (nghttp2_hd_inflater \<times> u8 \<times> 'a option \<times> int) option \<Rightarrow> (nghttp2_hd_inflater \<times> u8 \<times> 'a option \<times> int) option \<Rightarrow> bool" where
  "rest_answer n (Some (j, fl, nv, rv)) (Some (k, fl', nv', rv')) \<longleftrightarrow>
     (if rv' < 0 then rv = rv' else j = k \<and> fl = fl' \<and> nv = nv' \<and> rv = rv' + int n)"
| "rest_answer n _ _ \<longleftrightarrow> False"

definition answer ::
  "nghttp2_hd_inflater \<Rightarrow> bytes \<Rightarrow> bool \<Rightarrow> inflate_result \<Rightarrow> nghttp2_hd_inflater \<times> u8 \<times> nghttp2_hd_nv option \<times> int" where
  "answer i ins in_final r =
     (case r of
        Go i1 ins1 busy \<Rightarrow>
          if \<not> in_final then (i1, NGHTTP2_HD_INFLATE_NONE, None, int (length ins))
          else if i_state i1 \<noteq> NGHTTP2_HD_STATE_OPCODE \<and> i_state i1 \<noteq> NGHTTP2_HD_STATE_INFLATE_START
          then (i_bad i1, NGHTTP2_HD_INFLATE_NONE, None, NGHTTP2_ERR_HEADER_COMP)
          else (i1, NGHTTP2_HD_INFLATE_FINAL, None, int (length ins))
      | Almost i1 ins1 \<Rightarrow>
          if in_final then (i_bad i1, NGHTTP2_HD_INFLATE_NONE, None, NGHTTP2_ERR_HEADER_COMP)
          else (i1, NGHTTP2_HD_INFLATE_NONE, None, int (length ins - length ins1))
      | Fail i1 rv \<Rightarrow> (i_bad i1, NGHTTP2_HD_INFLATE_NONE, None, rv)
      | Emit i1 ins1 nv \<Rightarrow> (i1, NGHTTP2_HD_INFLATE_EMIT, Some nv, int (length ins - length ins1)))"

lemma hd_nv_answer:
  "\<not> ctx_bad (i_ctx i) \<Longrightarrow> nghttp2_hd_inflate_hd_nv i ins in_final =
     map_option (answer i ins in_final) (inflate_loop (hd_inflate_keep_free i) ins False)"
  by (cases "inflate_loop (hd_inflate_keep_free i) ins False")
    (auto simp: nghttp2_hd_inflate_hd_nv_def answer_def split: inflate_result.split)

lemma answer_later:
  assumes "loop_result i1 q r"
  shows "rest_answer (length p) (Some (answer i (p @ q) in_final r)) (Some (answer i1 q in_final r))"
proof (cases r)
  case (Emit j ins1 nv)
  then have "length ins1 \<le> length q" using assms by (simp add: suffix_length_le)
  then show ?thesis using Emit by (simp add: answer_def)
next
  case (Fail j e)
  then have "e < 0" using assms by (auto simp: error_ok_def)
  then show ?thesis using Fail by (simp add: answer_def)
qed (use assms in \<open>auto simp: answer_def\<close>)

lemma similar_answer:
  assumes "similar (Some r) (Some r1)" "loop_result i1 q r1"
  shows "rest_answer (length p) (Some (answer i (p @ q) in_final r)) (Some (answer i1 q in_final r1))"
proof (cases "r = r1")
  case True
  then show ?thesis using answer_later [OF assms(2)] by simp
next
  case False
  then obtain a b e where f: "r = Fail a e" "r1 = Fail b e" using assms(1) by (auto simp: similar_def)
  then have "e < 0" using assms(2) by (auto simp: error_ok_def)
  then show ?thesis using f by (simp add: answer_def)
qed

lemma hd_nv_split:
  assumes i: "steady i" and p: "nghttp2_hd_inflate_hd_nv i p False = Some (i1, fl, nv, rv)"
  shows "steady i1 \<and>
    (if rv < 0 then \<exists>j. nghttp2_hd_inflate_hd_nv i (p @ q) in_final = Some (j, NGHTTP2_HD_INFLATE_NONE, None, rv)
     else if fl = NGHTTP2_HD_INFLATE_EMIT then nghttp2_hd_inflate_hd_nv i (p @ q) in_final = Some (i1, fl, nv, rv)
     else rest_answer (length p) (nghttp2_hd_inflate_hd_nv i (p @ q) in_final) (nghttp2_hd_inflate_hd_nv i1 q in_final))"
proof (cases "ctx_bad (i_ctx i)")
  case True
  then show ?thesis using i p by (auto simp: nghttp2_hd_inflate_hd_nv_def)
next
  case False
  let ?i = "hd_inflate_keep_free i"
  have ok: "inflater_ok ?i" "len_ok ?i" "in_value ?i \<and> \<not> False \<longrightarrow> 0 < i_left ?i"
    using i False by (simp_all add: steady_def inflater_safe_def inflater_ok_def)
  obtain r where r: "inflate_loop ?i p False = Some r" "loop_result ?i p r" using loop_ends [OF ok(1) _ ok(3), of p] by auto
  have "(i1, fl, nv, rv) = answer i p False r" using p r(1) unfolding hd_nv_answer [OF False] by simp
  note a = this [unfolded answer_def]
  have g: "loop_goes_on q r (inflate_loop ?i (p @ q) False)" by (rule loop_goes_on [OF ok(1,2) _ r(1)]) simp
  note k = loop_kept [OF ok(1) _ r(1), simplified]
  obtain w where w: "inflate_loop ?i (p @ q) False = Some w" using loop_ends [OF ok(1) _ ok(3), of "p @ q"] by auto
  have bad: "steady (i_bad j)" if "ctx_safe j" for j
    using that by (auto simp: steady_def inflater_safe_def i_bad_def ctx_safe_def ctx_ok_def ctx_repr_def)
  have good: "steady j" "\<not> ctx_bad (i_ctx j)" if "inflater_ok j" "same_life ?i j" "in_value j \<longrightarrow> 0 < i_left j" "len_ok j" for j
    using that False by (simp_all add: steady_def inflater_safe_def inflater_ok_def same_life_def)
  have onward: "\<exists>r1. inflate_loop j q False = Some r1 \<and> loop_result j q r1 \<and> nghttp2_hd_inflate_hd_nv j q in_final = Some (answer j q in_final r1)"
    if "inflater_ok j" "same_life ?i j" "in_value j \<longrightarrow> 0 < i_left j" "len_ok j" "kept ?i j" for j
    using loop_ends [OF that(1) _ _, of False q] that(3) good [OF that(1-4)] hd_nv_answer [of j q in_final] kept_free [OF that(5)] by auto
  show ?thesis
  proof (cases r)
    case (Go j ins1 b)
    then have j: "inflater_ok j" "same_life ?i j" "in_value j \<longrightarrow> 0 < i_left j" "len_ok j" "kept ?i j" and sim: "similar (Some w) (inflate_loop j q False)"
      using r(2) g k w by simp_all
    have e: "i1 = j" "fl = NGHTTP2_HD_INFLATE_NONE" "\<not> rv < 0" using a Go by simp_all
    obtain r1 where r1: "inflate_loop j q False = Some r1" "loop_result j q r1" "nghttp2_hd_inflate_hd_nv j q in_final = Some (answer j q in_final r1)"
      using onward [OF j] by blast
    have "rest_answer (length p) (nghttp2_hd_inflate_hd_nv i (p @ q) in_final) (nghttp2_hd_inflate_hd_nv j q in_final)"
      using similar_answer [of w r1 j q p i in_final] sim r1 w unfolding hd_nv_answer [OF False] r1(3) by simp
    then show ?thesis using e good(1) [OF j(1-4)] by simp
  next
    case (Almost j ins1)
    then have j: "inflater_ok j" "same_life ?i j" "in_value j \<longrightarrow> 0 < i_left j" "len_ok j" "kept ?i j" and ins1: "ins1 = []"
      and sim: "q \<noteq> [] \<longrightarrow> similar (Some w) (inflate_loop j q False)"
      and st: "i_state j \<noteq> NGHTTP2_HD_STATE_OPCODE" "i_state j \<noteq> NGHTTP2_HD_STATE_INFLATE_START"
      using r(2) g k w by simp_all
    have e: "i1 = j" "fl = NGHTTP2_HD_INFLATE_NONE" "\<not> rv < 0" using a Almost by simp_all
    obtain r1 where r1: "inflate_loop j q False = Some r1" "loop_result j q r1" "nghttp2_hd_inflate_hd_nv j q in_final = Some (answer j q in_final r1)"
      using onward [OF j] by blast
    have "rest_answer (length p) (nghttp2_hd_inflate_hd_nv i (p @ q) in_final) (nghttp2_hd_inflate_hd_nv j q in_final)"
    proof (cases "q = []")
      case True
      have "w = Almost j []" using w r(1) Almost ins1 True by simp
      moreover have "r1 = Go j [] False" using r1(1) True by (subst (asm) inflate_loop.simps) simp
      ultimately show ?thesis using w st True unfolding hd_nv_answer [OF False] r1(3) by (simp add: answer_def)
    next
      case ne: False
      then show ?thesis
        using similar_answer [of w r1 j q p i in_final] sim r1 w unfolding hd_nv_answer [OF False] r1(3) by simp
    qed
    then show ?thesis using e good(1) [OF j(1-4)] by simp
  next
    case (Fail j e)
    then have e: "i1 = i_bad j" "rv = e" "e < 0" "ctx_safe j" using a r(2) by (auto simp: error_ok_def)
    obtain j2 where "w = Fail j2 e" using g Fail w by auto
    then show ?thesis using e bad w unfolding hd_nv_answer [OF False] by (simp add: answer_def)
  next
    case (Emit j ins1 x)
    then have j: "inflater_ok j" "same_life ?i j" "i_state j = NGHTTP2_HD_STATE_OPCODE" "suffix ins1 p" and w1: "w = Emit j (ins1 @ q) x"
      using r(2) g w by simp_all
    have e: "i1 = j" "fl = NGHTTP2_HD_INFLATE_EMIT" "nv = Some x" "rv = int (length p - length ins1)" using a Emit by simp_all
    have "steady j" by (rule good(1)) (use j in \<open>simp_all add: in_value_def len_ok_def\<close>)
    then show ?thesis using e w w1 unfolding hd_nv_answer [OF False] by (simp add: answer_def)
  qed
qed

lemma hd3_split:
  assumes i: "steady i" and p: "nghttp2_hd_inflate_hd3 i p False = Some (i1, fl, nv, rv)"
  shows "steady i1 \<and>
    (if rv < 0 then \<exists>j fl'. nghttp2_hd_inflate_hd3 i (p @ q) in_final = Some (j, fl', None, rv)
     else if fl = NGHTTP2_HD_INFLATE_EMIT then nghttp2_hd_inflate_hd3 i (p @ q) in_final = Some (i1, fl, nv, rv)
     else rest_answer (length p) (nghttp2_hd_inflate_hd3 i (p @ q) in_final) (nghttp2_hd_inflate_hd3 i1 q in_final))"
proof -
  obtain nv0 where n: "nghttp2_hd_inflate_hd_nv i p False = Some (i1, fl, nv0, rv)"
    using p by (auto simp: nghttp2_hd_inflate_hd3_def bind_eq_Some_conv split: if_splits)
  note s = hd_nv_split [OF i n, of q in_final]
  show ?thesis
  proof (cases "rv < 0 \<or> fl = NGHTTP2_HD_INFLATE_EMIT")
    case True
    then show ?thesis using s p n by (auto simp: nghttp2_hd_inflate_hd3_def)
  next
    case False
    let ?w = "nghttp2_hd_inflate_hd_nv i (p @ q) in_final" and ?l = "nghttp2_hd_inflate_hd_nv i1 q in_final"
    have r: "rest_answer (length p) ?w ?l" using s False by simp
    then obtain j f1 n1 r1 k f2 n2 r2 where wl: "?w = Some (j, f1, n1, r1)" "?l = Some (k, f2, n2, r2)"
      by (cases ?w; cases ?l) auto
    have "steady i1" using s by simp
    then obtain x where "nghttp2_hd_inflate_hd3 i1 q in_final = Some x" using hd3_safe [of i1 q in_final] by (auto simp: steady_def)
    then have "rest_answer (length p) (nghttp2_hd_inflate_hd3 i (p @ q) in_final) (nghttp2_hd_inflate_hd3 i1 q in_final)"
      using r wl by (cases n2) (auto simp: nghttp2_hd_inflate_hd3_def split: if_splits)
    then show ?thesis using False \<open>steady i1\<close> by simp
  qed
qed

text \<open>The documented loop on a piece that is not the last, and on a block in pieces.\<close>

partial_function (option) read_part ::
  "nghttp2_hd_inflater \<Rightarrow> bytes \<Rightarrow> (nghttp2_hd_inflater \<times> nghttp2_nv list \<times> int) option" where
  "read_part i ins = do {
     (i1, flags, nv, rv) \<leftarrow> nghttp2_hd_inflate_hd3 i ins False;
     if rv < 0 then Some (i1, [], -1)
     else
       (let rest = drop (nat rv) ins; out = (case nv of None \<Rightarrow> [] | Some x \<Rightarrow> [x]) in
        if flags AND NGHTTP2_HD_INFLATE_EMIT = 0 \<and> rest = [] then Some (i1, out, 0)
        else do { (i2, outs, rv1) \<leftarrow> read_part i1 rest; Some (i2, out @ outs, rv1) })
   }"

declare read_part.simps [code]

fun read_pieces :: "nghttp2_hd_inflater \<Rightarrow> bytes list \<Rightarrow> bytes \<Rightarrow> (nghttp2_nv list \<times> int) option" where
  "read_pieces i [] tail = map_option snd (read_header_block i tail)"
| "read_pieces i (p # ps) tail = do {
     (i1, outs, rv) \<leftarrow> read_part i p;
     if rv \<noteq> 0 then Some (outs, rv)
     else do { (outs1, rv1) \<leftarrow> read_pieces i1 ps tail; Some (outs @ outs1, rv1) }
   }"

lemma read_part_split:
  "steady i \<Longrightarrow> \<exists>i1 outs1 rv1 i2 outs rv. read_part i p = Some (i1, outs1, rv1) \<and> steady i1 \<and>
    read_header_block i (p @ q) = Some (i2, outs, rv) \<and>
    (if rv1 \<noteq> 0 then rv = rv1 \<and> outs = outs1
     else \<exists>k outs2. read_header_block i1 q = Some (k, outs2, rv) \<and> outs = outs1 @ outs2)"
proof (induction "length p" arbitrary: i p rule: less_induct)
  case less
  obtain i1 fl nv rv where h: "nghttp2_hd_inflate_hd3 i p False = Some (i1, fl, nv, rv)" "nv \<noteq> None \<longleftrightarrow> fl = NGHTTP2_HD_INFLATE_EMIT"
    "answer_ok i p i1 fl rv"
    using hd3_safe [of i p False] less.prems by (auto simp: steady_def)
  note s = hd3_split [OF less.prems h(1), of q True]
  have st: "steady i1" using s by simp
  obtain i2 outs rv2 where whole: "read_header_block i (p @ q) = Some (i2, outs, rv2)"
    using read_block_ends [of i "p @ q"] less.prems by (auto simp: steady_def)
  consider (bad) "rv < 0" | (emit) "\<not> rv < 0" "fl = NGHTTP2_HD_INFLATE_EMIT" | (plain) "\<not> rv < 0" "fl \<noteq> NGHTTP2_HD_INFLATE_EMIT" by blast
  then show ?case
  proof cases
    case bad
    then obtain j fl' where "nghttp2_hd_inflate_hd3 i (p @ q) True = Some (j, fl', None, rv)" using s by auto
    then have "read_header_block i (p @ q) = Some (j, [], -1)" using bad by (subst read_header_block.simps) simp
    moreover have "read_part i p = Some (i1, [], -1)" using bad h(1) by (subst read_part.simps) simp
    ultimately show ?thesis using st by simp
  next
    case emit
    then have rv: "0 < rv" "rv \<le> int (length p)" using h(3) by (simp_all add: answer_ok_def)
    then have shorter: "length (drop (nat rv) p) < length p" by (cases p) simp_all
    have dr: "drop (nat rv) (p @ q) = drop (nat rv) p @ q" using rv(2) by simp
    obtain x where x: "nv = Some x" using h(2) emit by auto
    have w: "nghttp2_hd_inflate_hd3 i (p @ q) True = Some (i1, fl, nv, rv)" using s emit by simp
    obtain j outs1 rv1 i3 outs3 rv3 where r: "read_part i1 (drop (nat rv) p) = Some (j, outs1, rv1)" "steady j"
      "read_header_block i1 (drop (nat rv) p @ q) = Some (i3, outs3, rv3)"
      "if rv1 \<noteq> 0 then rv3 = rv1 \<and> outs3 = outs1 else \<exists>k outs2. read_header_block j q = Some (k, outs2, rv3) \<and> outs3 = outs1 @ outs2"
      using less.hyps [OF shorter st] by blast
    have "read_part i p = Some (j, x # outs1, rv1)" using h(1) emit x r(1) by (subst read_part.simps) simp
    moreover have "read_header_block i (p @ q) = Some (i3, x # outs3, rv3)"
      using w emit x r(3) unfolding dr [symmetric] by (subst read_header_block.simps) (simp del: drop_append)
    ultimately show ?thesis using r(2,4) by (cases "rv1 = 0") auto
  next
    case plain
    then have rv: "rv = int (length p)" "fl = NGHTTP2_HD_INFLATE_NONE \<or> fl = NGHTTP2_HD_INFLATE_FINAL" "nv = None"
      using h(2,3) by (auto simp: answer_ok_def split: if_splits)
    have part: "read_part i p = Some (i1, [], 0)" using h(1) plain rv by (subst read_part.simps) auto
    have r: "rest_answer (length p) (nghttp2_hd_inflate_hd3 i (p @ q) True) (nghttp2_hd_inflate_hd3 i1 q True)" using s plain by simp
    obtain k fl2 nv2 rv3 where l: "nghttp2_hd_inflate_hd3 i1 q True = Some (k, fl2, nv2, rv3)" "answer_ok i1 q k fl2 rv3"
      using hd3_safe [of i1 q True] st by (auto simp: steady_def)
    have "\<exists>k' outs2. read_header_block i1 q = Some (k', outs2, rv2) \<and> outs = outs2"
    proof (cases "rv3 < 0")
      case True
      then obtain j f' n' where w: "nghttp2_hd_inflate_hd3 i (p @ q) True = Some (j, f', n', rv3)"
        using r l(1) by (cases "nghttp2_hd_inflate_hd3 i (p @ q) True") auto
      have "read_header_block i (p @ q) = Some (j, [], -1)" using w True by (subst read_header_block.simps) simp
      moreover have "read_header_block i1 q = Some (k, [], -1)" using l(1) True by (subst read_header_block.simps) simp
      ultimately show ?thesis using whole by simp
    next
      case False
      then have w: "nghttp2_hd_inflate_hd3 i (p @ q) True = Some (k, fl2, nv2, rv3 + int (length p))"
        using r l(1) by (cases "nghttp2_hd_inflate_hd3 i (p @ q) True") auto
      have ge: "\<not> rv3 + int (length p) < 0" using False by simp
      have dr: "drop (nat (rv3 + int (length p))) (p @ q) = drop (nat rv3) q" by (rule drop_later [OF False])
      have "read_header_block i (p @ q) = read_header_block i1 q"
        by (subst (1 2) read_header_block.simps) (simp add: w l(1) ge False dr del: drop_append)
      then have "read_header_block i1 q = Some (i2, outs, rv2)" using whole by metis
      then show ?thesis by blast
    qed
    then show ?thesis using part st whole by auto
  qed
qed

lemma pieces_ok: "steady i \<Longrightarrow> read_pieces i ps tail = map_option snd (read_header_block i (concat ps @ tail))"
proof (induction ps arbitrary: i)
  case (Cons p ps)
  obtain i1 outs1 rv1 i2 outs rv where r: "read_part i p = Some (i1, outs1, rv1)" "steady i1"
    "read_header_block i (p @ concat ps @ tail) = Some (i2, outs, rv)"
    "if rv1 \<noteq> 0 then rv = rv1 \<and> outs = outs1
     else \<exists>k outs2. read_header_block i1 (concat ps @ tail) = Some (k, outs2, rv) \<and> outs = outs1 @ outs2"
    using read_part_split [OF Cons.prems, of p "concat ps @ tail"] by blast
  show ?case
  proof (cases "rv1 = 0")
    case True
    then obtain k outs2 where "read_header_block i1 (concat ps @ tail) = Some (k, outs2, rv)" "outs = outs1 @ outs2" using r(4) by auto
    then show ?thesis using Cons.IH [OF r(2)] r(1,3) True by simp
  next
    case False
    then show ?thesis using r by simp
  qed
qed simp

lemma hd_nv_steady:
  assumes i: "steady i" and p: "nghttp2_hd_inflate_hd_nv i p in_final = Some (i1, fl, nv, rv)"
  shows "steady i1"
proof (cases "ctx_bad (i_ctx i)")
  case True
  then show ?thesis using i p by (auto simp: nghttp2_hd_inflate_hd_nv_def)
next
  case False
  let ?i = "hd_inflate_keep_free i"
  have ok: "inflater_ok ?i" "len_ok ?i" "in_value ?i \<and> \<not> False \<longrightarrow> 0 < i_left ?i"
    using i False by (simp_all add: steady_def inflater_safe_def inflater_ok_def)
  obtain r where r: "inflate_loop ?i p False = Some r" "loop_result ?i p r" using loop_ends [OF ok(1) _ ok(3), of p] by auto
  have a: "(i1, fl, nv, rv) = answer i p in_final r" using p r(1) unfolding hd_nv_answer [OF False] by simp
  have g: "loop_goes_on [] r (inflate_loop ?i (p @ []) False)" by (rule loop_goes_on [OF ok(1,2) _ r(1)]) simp
  have bad: "steady (i_bad j)" if "ctx_safe j" for j
    using that by (auto simp: steady_def inflater_safe_def i_bad_def ctx_safe_def ctx_ok_def ctx_repr_def)
  have good: "steady j" if "inflater_ok j" "in_value j \<longrightarrow> 0 < i_left j" "len_ok j" for j
    using that by (simp add: steady_def inflater_safe_def inflater_ok_def)
  show ?thesis
  proof (cases r)
    case (Go j ins1 b)
    then have "steady j" "ctx_safe j" using r(2) g good by (simp_all add: inflater_ok_def)
    then show ?thesis using a Go bad by (auto simp: answer_def split: if_splits)
  next
    case (Almost j ins1)
    then have "steady j" "ctx_safe j" using r(2) g good by (simp_all add: inflater_ok_def)
    then show ?thesis using a Almost bad by (auto simp: answer_def split: if_splits)
  next
    case (Fail j e)
    then show ?thesis using a r(2) bad by (auto simp: answer_def)
  next
    case (Emit j ins1 x)
    then have "steady j" using r(2) good by (simp add: in_value_def len_ok_def)
    then show ?thesis using a Emit by (auto simp: answer_def)
  qed
qed

lemma calls_steady: "steady i \<Longrightarrow> list_all call_ok cs \<Longrightarrow> inflate_calls cs i = Some (i', rvs) \<Longrightarrow> steady i'"
proof (induction cs arbitrary: i rvs)
  case (Cons c cs)
  show ?case
  proof (cases c)
    case (Feed ins fin)
    then obtain i1 fl nv rv rvs1 where h: "nghttp2_hd_inflate_hd3 i ins fin = Some (i1, fl, nv, rv)" "inflate_calls cs i1 = Some (i', rvs1)"
      using Cons.prems(3) by (auto simp: bind_eq_Some_conv)
    obtain nv0 where "nghttp2_hd_inflate_hd_nv i ins fin = Some (i1, fl, nv0, rv)"
      using h(1) by (auto simp: nghttp2_hd_inflate_hd3_def bind_eq_Some_conv split: if_splits)
    from Cons.IH [OF hd_nv_steady [OF Cons.prems(1) this] _ h(2)] show ?thesis using Cons.prems(2) by simp
  next
    case (New_size n)
    then obtain i1 rv rvs1 where h: "nghttp2_hd_inflate_change_table_size i n = Some (i1, rv)" "inflate_calls cs i1 = Some (i', rvs1)"
      using Cons.prems(3) by (auto simp: bind_eq_Some_conv)
    have "inflater_safe i1" using resize_safe [of i n] Cons.prems(1,2) New_size h(1) by (auto simp: steady_def)
    moreover have "i1 = i \<or> i_state i1 = i_state i \<and> (i_state i = NGHTTP2_HD_STATE_EXPECT_TABLE_SIZE \<or> i_state i = NGHTTP2_HD_STATE_INFLATE_START) \<or>
        i_state i1 = NGHTTP2_HD_STATE_EXPECT_TABLE_SIZE"
      using h(1) by (auto simp: nghttp2_hd_inflate_change_table_size_def Let_def bind_eq_Some_conv split: if_splits)
    then have "i1 = i \<or> len_ok i1" by (auto simp: len_ok_def)
    ultimately have "steady i1" using Cons.prems(1) by (auto simp: steady_def)
    from Cons.IH [OF this _ h(2)] show ?thesis using Cons.prems(2) by simp
  next
    case End_headers
    let ?i = "fst (nghttp2_hd_inflate_end_headers i)"
    obtain rvs1 where h: "inflate_calls cs ?i = Some (i', rvs1)"
      using Cons.prems(3) End_headers by (auto simp: bind_eq_Some_conv nghttp2_hd_inflate_end_headers_def)
    have "steady ?i"
      using Cons.prems(1) by (auto simp: nghttp2_hd_inflate_end_headers_def steady_def inflater_safe_def ctx_safe_def in_value_def len_ok_def)
    from Cons.IH [OF this _ h] show ?thesis using Cons.prems(2) by simp
  qed
qed simp

lemma steady_init: "nghttp2_hd_inflate_init m = (Some i, m', 0) \<Longrightarrow> steady i"
  using safe_init [of m i m' 0] inflate_init_ok [of m "Some i" m' 0] by (simp add: steady_def len_ok_def)

text \<open>
  C3. Where the frames cut a header block makes no difference to the HPACK decoder: whatever it has
  been fed before, a block given in any number of pieces, cut anywhere (inside an integer, a string,
  a Huffman code), yields the same fields and the same code as the whole block at once.
\<close>

theorem inflate_cut_anywhere:
  assumes "nghttp2_hd_inflate_init m = (Some i, m', 0)" "list_all call_ok cs" "inflate_calls cs i = Some (i1, rvs)"
  shows "read_pieces i1 ps tail = map_option snd (read_header_block i1 (concat ps @ tail))"
  by (rule pieces_ok [OF calls_steady [OF steady_init [OF assms(1)] assms(2,3)]])

theorem inflate_cut_anywhere_witness:
  "\<exists>i. fst (nghttp2_hd_inflate_init \<lparr>mem_answers = [], mem_fill = \<lambda>_. 0, mem_live = 0\<rparr>) = Some i \<and>
     (\<exists>i1 rvs. inflate_calls [Feed [0x82] True, End_headers] i = Some (i1, rvs) \<and>
       read_pieces i1 [[0x40, 0x01], [0x61, 0x7f]] [0x00] = map_option snd (read_header_block i1 (concat [[0x40, 0x01], [0x61, 0x7f]] @ [0x00])))"
proof -
  obtain i m' where i: "nghttp2_hd_inflate_init \<lparr>mem_answers = [], mem_fill = \<lambda>_. 0, mem_live = 0\<rparr> = (Some i, m', 0)"
    using init_enough by blast
  have c: "list_all call_ok [Feed [0x82] True, End_headers]" by simp
  have "inflater_safe i" using steady_init [OF i] by (simp add: steady_def)
  then obtain i1 rvs where r: "inflate_calls [Feed [0x82] True, End_headers] i = Some (i1, rvs)" using calls_safe [OF _ c] by blast
  from inflate_cut_anywhere [OF i c r, of "[[0x40, 0x01], [0x61, 0x7f]]" "[0x00]"] show ?thesis
    unfolding i using r by auto
qed

end
