(* ===== verification/Ng_Frame.thy ===== *)
theory Ng_Frame
  imports Ng_Hd_Session "HOL-Library.Multiset"
begin

unbundle bit_operations_syntax

text \<open>
  The frames of HTTP/2, from \<^verbatim>\<open>nghttp2_frame.c\<close>: their records, how each is put into a chain
  of buffers and taken out of the payload that was received, the padding, and the copies of
  settings and header fields a frame owns. The priorities of \<^verbatim>\<open>nghttp2_priority_spec.c\<close>
  belong to them.

  The frames share their first member, so their records extend the one of the common header, and
  the payload of an extension frame is one of three. A pointer with a length is the bytes it
  stands for. An assertion of the code is a branch to \<open>None\<close>.
\<close>

section \<open>Frames\<close>

abbreviation NGHTTP2_DATA :: u8 where "NGHTTP2_DATA \<equiv> 0"
abbreviation NGHTTP2_HEADERS :: u8 where "NGHTTP2_HEADERS \<equiv> 1"
abbreviation NGHTTP2_PRIORITY :: u8 where "NGHTTP2_PRIORITY \<equiv> 2"
abbreviation NGHTTP2_RST_STREAM :: u8 where "NGHTTP2_RST_STREAM \<equiv> 3"
abbreviation NGHTTP2_SETTINGS :: u8 where "NGHTTP2_SETTINGS \<equiv> 4"
abbreviation NGHTTP2_PUSH_PROMISE :: u8 where "NGHTTP2_PUSH_PROMISE \<equiv> 5"
abbreviation NGHTTP2_PING :: u8 where "NGHTTP2_PING \<equiv> 6"
abbreviation NGHTTP2_GOAWAY :: u8 where "NGHTTP2_GOAWAY \<equiv> 7"
abbreviation NGHTTP2_WINDOW_UPDATE :: u8 where "NGHTTP2_WINDOW_UPDATE \<equiv> 8"
abbreviation NGHTTP2_CONTINUATION :: u8 where "NGHTTP2_CONTINUATION \<equiv> 9"
abbreviation NGHTTP2_ALTSVC :: u8 where "NGHTTP2_ALTSVC \<equiv> 10"
abbreviation NGHTTP2_ORIGIN :: u8 where "NGHTTP2_ORIGIN \<equiv> 12"
abbreviation NGHTTP2_PRIORITY_UPDATE :: u8 where "NGHTTP2_PRIORITY_UPDATE \<equiv> 16"

abbreviation NGHTTP2_FLAG_NONE :: u8 where "NGHTTP2_FLAG_NONE \<equiv> 0"
abbreviation NGHTTP2_FLAG_END_HEADERS :: u8 where "NGHTTP2_FLAG_END_HEADERS \<equiv> 4"
abbreviation NGHTTP2_FLAG_PADDED :: u8 where "NGHTTP2_FLAG_PADDED \<equiv> 8"
abbreviation NGHTTP2_FLAG_PRIORITY :: u8 where "NGHTTP2_FLAG_PRIORITY \<equiv> 32"

abbreviation NGHTTP2_FRAME_HDLEN :: nat where "NGHTTP2_FRAME_HDLEN \<equiv> 9"
abbreviation NGHTTP2_PRIORITY_SPECLEN :: nat where "NGHTTP2_PRIORITY_SPECLEN \<equiv> 5"
abbreviation NGHTTP2_FRAME_SETTINGS_ENTRY_LENGTH :: nat where "NGHTTP2_FRAME_SETTINGS_ENTRY_LENGTH \<equiv> 6"
abbreviation NGHTTP2_STREAM_ID_MASK :: u32 where "NGHTTP2_STREAM_ID_MASK \<equiv> 0x7fffffff"
abbreviation NGHTTP2_WINDOW_SIZE_INCREMENT_MASK :: u32 where "NGHTTP2_WINDOW_SIZE_INCREMENT_MASK \<equiv> 0x7fffffff"
abbreviation NGHTTP2_MAX_FRAME_SIZE_MIN :: u32 where "NGHTTP2_MAX_FRAME_SIZE_MIN \<equiv> 16384"
abbreviation NGHTTP2_MAX_FRAME_SIZE_MAX :: u32 where "NGHTTP2_MAX_FRAME_SIZE_MAX \<equiv> 16777215"
abbreviation NGHTTP2_DEFAULT_WEIGHT :: int where "NGHTTP2_DEFAULT_WEIGHT \<equiv> 16"
abbreviation NGHTTP2_MIN_WEIGHT :: int where "NGHTTP2_MIN_WEIGHT \<equiv> 1"
abbreviation NGHTTP2_MAX_WEIGHT :: int where "NGHTTP2_MAX_WEIGHT \<equiv> 256"

abbreviation NGHTTP2_NV_FLAG_NO_COPY_NAME :: u8 where "NGHTTP2_NV_FLAG_NO_COPY_NAME \<equiv> 2"
abbreviation NGHTTP2_NV_FLAG_NO_COPY_VALUE :: u8 where "NGHTTP2_NV_FLAG_NO_COPY_VALUE \<equiv> 4"

text \<open>The code of the protocol, which is not one of the library's errors.\<close>

abbreviation NGHTTP2_FRAME_SIZE_ERROR :: int where "NGHTTP2_FRAME_SIZE_ERROR \<equiv> 6"

record nghttp2_frame_hd =
  hd_length :: nat
  hd_stream_id :: int
  hd_type :: u8
  hd_flags :: u8
  hd_reserved :: u8

record nghttp2_priority_spec =
  dep_stream_id :: int
  spec_weight :: int
  exclusive :: u8

record nghttp2_settings_entry =
  settings_id :: int
  settings_value :: u32

record nghttp2_ext_altsvc =
  alt_origin :: bytes
  alt_field_value :: bytes

record nghttp2_ext_priority_update =
  upd_stream_id :: int
  upd_field_value :: bytes

text \<open>The entries of an ORIGIN frame are strings.\<close>

datatype nghttp2_ext_frame_payload =
    altsvc nghttp2_ext_altsvc
  | origin "bytes list"
  | priority_update nghttp2_ext_priority_update

datatype nghttp2_headers_category =
    NGHTTP2_HCAT_REQUEST
  | NGHTTP2_HCAT_RESPONSE
  | NGHTTP2_HCAT_PUSH_RESPONSE
  | NGHTTP2_HCAT_HEADERS

record nghttp2_frame_common =
  frame_hd :: nghttp2_frame_hd

record nghttp2_data = nghttp2_frame_common +
  data_padlen :: nat

record nghttp2_headers = nghttp2_frame_common +
  headers_padlen :: nat
  headers_pri_spec :: nghttp2_priority_spec
  headers_nva :: "nghttp2_nv list"
  headers_cat :: nghttp2_headers_category

record nghttp2_priority = nghttp2_frame_common +
  priority_spec :: nghttp2_priority_spec

record nghttp2_rst_stream = nghttp2_frame_common +
  rst_error_code :: u32

record nghttp2_settings = nghttp2_frame_common +
  settings_iv :: "nghttp2_settings_entry list"

record nghttp2_push_promise = nghttp2_frame_common +
  push_padlen :: nat
  push_nva :: "nghttp2_nv list"
  promised_stream_id :: int
  push_reserved :: u8

record nghttp2_ping = nghttp2_frame_common +
  ping_opaque_data :: bytes

record nghttp2_goaway = nghttp2_frame_common +
  last_stream_id :: int
  goaway_error_code :: u32
  goaway_opaque_data :: bytes
  goaway_reserved :: u8

record nghttp2_window_update = nghttp2_frame_common +
  window_size_increment :: int
  window_reserved :: u8

record nghttp2_extension = nghttp2_frame_common +
  ext_payload :: nghttp2_ext_frame_payload

datatype nghttp2_frame =
    data nghttp2_data
  | headers nghttp2_headers
  | priority nghttp2_priority
  | rst_stream nghttp2_rst_stream
  | settings nghttp2_settings
  | push_promise nghttp2_push_promise
  | ping nghttp2_ping
  | goaway nghttp2_goaway
  | window_update nghttp2_window_update
  | ext nghttp2_extension

section \<open>Making a frame\<close>

definition nghttp2_priority_spec_init :: "int \<Rightarrow> int \<Rightarrow> int \<Rightarrow> nghttp2_priority_spec" where
  "nghttp2_priority_spec_init sid weight excl =
     \<lparr>dep_stream_id = sid, spec_weight = weight, exclusive = (if excl \<noteq> 0 then 1 else 0)\<rparr>"

definition nghttp2_priority_spec_default_init :: nghttp2_priority_spec where
  "nghttp2_priority_spec_default_init = \<lparr>dep_stream_id = 0, spec_weight = NGHTTP2_DEFAULT_WEIGHT, exclusive = 0\<rparr>"

definition nghttp2_priority_spec_check_default :: "nghttp2_priority_spec \<Rightarrow> bool" where
  "nghttp2_priority_spec_check_default p \<longleftrightarrow>
     dep_stream_id p = 0 \<and> spec_weight p = NGHTTP2_DEFAULT_WEIGHT \<and> exclusive p = 0"

definition nghttp2_priority_spec_normalize_weight :: "nghttp2_priority_spec \<Rightarrow> nghttp2_priority_spec" where
  "nghttp2_priority_spec_normalize_weight p =
     (if spec_weight p < NGHTTP2_MIN_WEIGHT then p\<lparr>spec_weight := NGHTTP2_MIN_WEIGHT\<rparr>
      else if NGHTTP2_MAX_WEIGHT < spec_weight p then p\<lparr>spec_weight := NGHTTP2_MAX_WEIGHT\<rparr> else p)"

definition nghttp2_frame_hd_init :: "nat \<Rightarrow> u8 \<Rightarrow> u8 \<Rightarrow> int \<Rightarrow> nghttp2_frame_hd" where
  "nghttp2_frame_hd_init len ty flags sid =
     \<lparr>hd_length = len, hd_stream_id = sid, hd_type = ty, hd_flags = flags, hd_reserved = 0\<rparr>"

definition nghttp2_frame_headers_init ::
  "u8 \<Rightarrow> int \<Rightarrow> nghttp2_headers_category \<Rightarrow> nghttp2_priority_spec option \<Rightarrow> nghttp2_nv list \<Rightarrow> nghttp2_headers" where
  "nghttp2_frame_headers_init flags sid ct spec nva =
     \<lparr>frame_hd = nghttp2_frame_hd_init 0 NGHTTP2_HEADERS flags sid, headers_padlen = 0,
      headers_pri_spec = (case spec of Some p \<Rightarrow> p | None \<Rightarrow> nghttp2_priority_spec_default_init),
      headers_nva = nva, headers_cat = ct\<rparr>"

definition nghttp2_frame_priority_init :: "int \<Rightarrow> nghttp2_priority_spec \<Rightarrow> nghttp2_priority" where
  "nghttp2_frame_priority_init sid spec =
     \<lparr>frame_hd = nghttp2_frame_hd_init NGHTTP2_PRIORITY_SPECLEN NGHTTP2_PRIORITY NGHTTP2_FLAG_NONE sid,
      priority_spec = spec\<rparr>"

definition nghttp2_frame_rst_stream_init :: "int \<Rightarrow> u32 \<Rightarrow> nghttp2_rst_stream" where
  "nghttp2_frame_rst_stream_init sid code =
     \<lparr>frame_hd = nghttp2_frame_hd_init 4 NGHTTP2_RST_STREAM NGHTTP2_FLAG_NONE sid, rst_error_code = code\<rparr>"

definition nghttp2_frame_settings_init :: "u8 \<Rightarrow> nghttp2_settings_entry list \<Rightarrow> nghttp2_settings" where
  "nghttp2_frame_settings_init flags iv =
     \<lparr>frame_hd = nghttp2_frame_hd_init (length iv * NGHTTP2_FRAME_SETTINGS_ENTRY_LENGTH) NGHTTP2_SETTINGS flags 0,
      settings_iv = iv\<rparr>"

definition nghttp2_frame_push_promise_init :: "u8 \<Rightarrow> int \<Rightarrow> int \<Rightarrow> nghttp2_nv list \<Rightarrow> nghttp2_push_promise" where
  "nghttp2_frame_push_promise_init flags sid promised nva =
     \<lparr>frame_hd = nghttp2_frame_hd_init 0 NGHTTP2_PUSH_PROMISE flags sid, push_padlen = 0, push_nva = nva,
      promised_stream_id = promised, push_reserved = 0\<rparr>"

text \<open>Of the data of a PING the first eight bytes are copied; they must be there.\<close>

definition nghttp2_frame_ping_init :: "u8 \<Rightarrow> bytes option \<Rightarrow> nghttp2_ping option" where
  "nghttp2_frame_ping_init flags opaque = do {
     d \<leftarrow> (case opaque of None \<Rightarrow> Some (replicate 8 0) | Some xs \<Rightarrow> rd_block xs 0 8);
     Some \<lparr>frame_hd = nghttp2_frame_hd_init 8 NGHTTP2_PING flags 0, ping_opaque_data = d\<rparr>
   }"

definition nghttp2_frame_goaway_init :: "int \<Rightarrow> u32 \<Rightarrow> bytes \<Rightarrow> nghttp2_goaway" where
  "nghttp2_frame_goaway_init last_id code opaque =
     \<lparr>frame_hd = nghttp2_frame_hd_init (8 + length opaque) NGHTTP2_GOAWAY NGHTTP2_FLAG_NONE 0,
      last_stream_id = last_id, goaway_error_code = code, goaway_opaque_data = opaque, goaway_reserved = 0\<rparr>"

definition nghttp2_frame_window_update_init :: "u8 \<Rightarrow> int \<Rightarrow> int \<Rightarrow> nghttp2_window_update" where
  "nghttp2_frame_window_update_init flags sid inc =
     \<lparr>frame_hd = nghttp2_frame_hd_init 4 NGHTTP2_WINDOW_UPDATE flags sid, window_size_increment = inc,
      window_reserved = 0\<rparr>"

definition nghttp2_frame_data_init :: "u8 \<Rightarrow> int \<Rightarrow> nghttp2_data" where
  "nghttp2_frame_data_init flags sid = \<lparr>frame_hd = nghttp2_frame_hd_init 0 NGHTTP2_DATA flags sid, data_padlen = 0\<rparr>"

definition nghttp2_frame_extension_init :: "u8 \<Rightarrow> u8 \<Rightarrow> int \<Rightarrow> nghttp2_ext_frame_payload \<Rightarrow> nghttp2_extension" where
  "nghttp2_frame_extension_init ty flags sid p =
     \<lparr>frame_hd = nghttp2_frame_hd_init 0 ty flags sid, ext_payload = p\<rparr>"

definition nghttp2_frame_altsvc_init :: "int \<Rightarrow> bytes \<Rightarrow> bytes \<Rightarrow> nghttp2_extension" where
  "nghttp2_frame_altsvc_init sid orig value =
     \<lparr>frame_hd = nghttp2_frame_hd_init (2 + length orig + length value) NGHTTP2_ALTSVC NGHTTP2_FLAG_NONE sid,
      ext_payload = altsvc \<lparr>alt_origin = orig, alt_field_value = value\<rparr>\<rparr>"

definition nghttp2_frame_origin_init :: "bytes list \<Rightarrow> nghttp2_extension" where
  "nghttp2_frame_origin_init ov =
     \<lparr>frame_hd = nghttp2_frame_hd_init (foldl (\<lambda>n o'. n + (2 + length o')) 0 ov) NGHTTP2_ORIGIN NGHTTP2_FLAG_NONE 0,
      ext_payload = origin ov\<rparr>"

definition nghttp2_frame_priority_update_init :: "int \<Rightarrow> bytes \<Rightarrow> nghttp2_extension" where
  "nghttp2_frame_priority_update_init sid value =
     \<lparr>frame_hd = nghttp2_frame_hd_init (4 + length value) NGHTTP2_PRIORITY_UPDATE NGHTTP2_FLAG_NONE 0,
      ext_payload = priority_update \<lparr>upd_stream_id = sid, upd_field_value = value\<rparr>\<rparr>"

section \<open>Putting a frame into buffers\<close>

definition nghttp2_frame_pack_frame_hd :: "bytes \<Rightarrow> nat \<Rightarrow> nghttp2_frame_hd \<Rightarrow> bytes option" where
  "nghttp2_frame_pack_frame_hd buf i h = do {
     b1 \<leftarrow> nghttp2_put_uint32be buf i (word_of_nat (hd_length h * 256));
     b2 \<leftarrow> wr b1 (i + 3) (hd_type h);
     b3 \<leftarrow> wr b2 (i + 4) (hd_flags h);
     nghttp2_put_uint32be b3 (i + 5) (word_of_int (hd_stream_id h))
   }"

definition nghttp2_frame_unpack_frame_hd :: "bytes \<Rightarrow> nat \<Rightarrow> nghttp2_frame_hd option" where
  "nghttp2_frame_unpack_frame_hd buf i = do {
     len \<leftarrow> nghttp2_get_uint32 buf i;
     ty \<leftarrow> rd buf (i + 3);
     flags \<leftarrow> rd buf (i + 4);
     sid \<leftarrow> nghttp2_get_uint32 buf (i + 5);
     Some \<lparr>hd_length = unat (drop_bit 8 len), hd_stream_id = uint (sid AND NGHTTP2_STREAM_ID_MASK), hd_type = ty,
           hd_flags = flags, hd_reserved = 0\<rparr>
   }"

text \<open>The header goes in front of the payload: \<^verbatim>\<open>pos\<close> moves to the left.\<close>

definition pack_hd_before :: "nghttp2_frame_hd \<Rightarrow> nghttp2_buf \<Rightarrow> nghttp2_buf option" where
  "pack_hd_before h b =
     (if buf_pos b < NGHTTP2_FRAME_HDLEN then None
      else map_option (\<lambda>d. b\<lparr>bytes_of := d, buf_pos := buf_pos b - NGHTTP2_FRAME_HDLEN\<rparr>)
             (nghttp2_frame_pack_frame_hd (bytes_of b) (buf_pos b - NGHTTP2_FRAME_HDLEN) h))"

definition put_be16 :: "u16 \<Rightarrow> nghttp2_buf \<Rightarrow> nghttp2_buf option" where
  "put_be16 n b =
     map_option (\<lambda>d. b\<lparr>bytes_of := d, buf_last := buf_last b + 2\<rparr>) (nghttp2_put_uint16be (bytes_of b) (buf_last b) n)"

definition put_be32 :: "u32 \<Rightarrow> nghttp2_buf \<Rightarrow> nghttp2_buf option" where
  "put_be32 n b =
     map_option (\<lambda>d. b\<lparr>bytes_of := d, buf_last := buf_last b + 4\<rparr>) (nghttp2_put_uint32be (bytes_of b) (buf_last b) n)"

definition put_copy :: "bytes \<Rightarrow> nghttp2_buf \<Rightarrow> nghttp2_buf option" where
  "put_copy src b =
     map_option (\<lambda>(d, i). b\<lparr>bytes_of := d, buf_last := i\<rparr>) (nghttp2_cpymem (bytes_of b) (buf_last b) src)"

definition at_buf :: "nat \<Rightarrow> (nghttp2_buf \<Rightarrow> nghttp2_buf option) \<Rightarrow> nghttp2_bufs \<Rightarrow> nghttp2_bufs option" where
  "at_buf i f bs = do {
     b \<leftarrow> rd (chunks bs) i;
     b1 \<leftarrow> f b;
     cs \<leftarrow> wr (chunks bs) i b1;
     Some (bs\<lparr>chunks := cs\<rparr>)
   }"

definition assert_that :: "bool \<Rightarrow> unit option" where
  "assert_that p = (if p then Some () else None)"

definition nghttp2_frame_pack_priority_spec :: "bytes \<Rightarrow> nat \<Rightarrow> nghttp2_priority_spec \<Rightarrow> bytes option" where
  "nghttp2_frame_pack_priority_spec buf i p = do {
     b1 \<leftarrow> nghttp2_put_uint32be buf i (word_of_int (dep_stream_id p));
     b2 \<leftarrow> (if exclusive p \<noteq> 0 then do { x \<leftarrow> rd b1 i; wr b1 i (x OR 0x80) } else Some b1);
     wr b2 (i + 4) (word_of_int (spec_weight p - 1))
   }"

definition nghttp2_frame_pack_priority :: "nghttp2_bufs \<Rightarrow> nghttp2_priority \<Rightarrow> nghttp2_bufs option" where
  "nghttp2_frame_pack_priority bs f = do {
     assert_that (bufs_cur bs = 0);
     at_buf 0 (\<lambda>b. do {
       assert_that (NGHTTP2_PRIORITY_SPECLEN \<le> nghttp2_buf_avail b);
       b1 \<leftarrow> pack_hd_before (frame_hd f) b;
       d \<leftarrow> nghttp2_frame_pack_priority_spec (bytes_of b1) (buf_last b1) (priority_spec f);
       Some (b1\<lparr>bytes_of := d, buf_last := buf_last b1 + NGHTTP2_PRIORITY_SPECLEN\<rparr>)
     }) bs
   }"

definition nghttp2_frame_pack_rst_stream :: "nghttp2_bufs \<Rightarrow> nghttp2_rst_stream \<Rightarrow> nghttp2_bufs option" where
  "nghttp2_frame_pack_rst_stream bs f = do {
     assert_that (bufs_cur bs = 0);
     at_buf 0 (\<lambda>b. do {
       assert_that (4 \<le> nghttp2_buf_avail b);
       b1 \<leftarrow> pack_hd_before (frame_hd f) b;
       put_be32 (rst_error_code f) b1
     }) bs
   }"

fun pack_settings_entries :: "bytes \<Rightarrow> nat \<Rightarrow> nghttp2_settings_entry list \<Rightarrow> bytes option" where
  "pack_settings_entries buf i [] = Some buf"
| "pack_settings_entries buf i (e # es) = do {
     b1 \<leftarrow> nghttp2_put_uint16be buf i (word_of_int (settings_id e));
     b2 \<leftarrow> nghttp2_put_uint32be b1 (i + 2) (settings_value e);
     pack_settings_entries b2 (i + NGHTTP2_FRAME_SETTINGS_ENTRY_LENGTH) es
   }"

definition nghttp2_frame_pack_settings_payload :: "bytes \<Rightarrow> nat \<Rightarrow> nghttp2_settings_entry list \<Rightarrow> (bytes \<times> nat) option" where
  "nghttp2_frame_pack_settings_payload buf i iv =
     map_option (\<lambda>d. (d, NGHTTP2_FRAME_SETTINGS_ENTRY_LENGTH * length iv)) (pack_settings_entries buf i iv)"

definition nghttp2_frame_pack_settings :: "nghttp2_bufs \<Rightarrow> nghttp2_settings \<Rightarrow> (nghttp2_bufs \<times> int) option" where
  "nghttp2_frame_pack_settings bs f = do {
     assert_that (bufs_cur bs = 0);
     h \<leftarrow> rd (chunks bs) 0;
     if nghttp2_buf_avail h < hd_length (frame_hd f) then Some (bs, NGHTTP2_ERR_FRAME_SIZE_ERROR)
     else do {
       bs1 \<leftarrow> at_buf 0 (\<lambda>b. do {
         b1 \<leftarrow> pack_hd_before (frame_hd f) b;
         (d, n) \<leftarrow> nghttp2_frame_pack_settings_payload (bytes_of b1) (buf_last b1) (settings_iv f);
         Some (b1\<lparr>bytes_of := d, buf_last := buf_last b1 + n\<rparr>)
       }) bs;
       Some (bs1, 0)
     }
   }"

definition nghttp2_frame_pack_ping :: "nghttp2_bufs \<Rightarrow> nghttp2_ping \<Rightarrow> nghttp2_bufs option" where
  "nghttp2_frame_pack_ping bs f = do {
     assert_that (bufs_cur bs = 0);
     at_buf 0 (\<lambda>b. do {
       assert_that (8 \<le> nghttp2_buf_avail b);
       b1 \<leftarrow> pack_hd_before (frame_hd f) b;
       put_copy (ping_opaque_data f) b1
     }) bs
   }"

definition nghttp2_frame_pack_goaway :: "nghttp2_bufs \<Rightarrow> nghttp2_goaway \<Rightarrow> (nghttp2_bufs \<times> int) option" where
  "nghttp2_frame_pack_goaway bs f = do {
     assert_that (bufs_cur bs = 0);
     bs1 \<leftarrow> at_buf 0 (\<lambda>b. do {
       b1 \<leftarrow> pack_hd_before (frame_hd f) b;
       b2 \<leftarrow> put_be32 (word_of_int (last_stream_id f)) b1;
       put_be32 (goaway_error_code f) b2
     }) bs;
     (bs2, rv) \<leftarrow> nghttp2_bufs_add bs1 (goaway_opaque_data f);
     Some (bs2, if rv = NGHTTP2_ERR_BUFFER_ERROR then NGHTTP2_ERR_FRAME_SIZE_ERROR else rv)
   }"

definition nghttp2_frame_pack_window_update :: "nghttp2_bufs \<Rightarrow> nghttp2_window_update \<Rightarrow> nghttp2_bufs option" where
  "nghttp2_frame_pack_window_update bs f = do {
     assert_that (bufs_cur bs = 0);
     at_buf 0 (\<lambda>b. do {
       assert_that (4 \<le> nghttp2_buf_avail b);
       b1 \<leftarrow> pack_hd_before (frame_hd f) b;
       put_be32 (word_of_int (window_size_increment f)) b1
     }) bs
   }"

text \<open>The payload of an extension frame is not of the kind its packing expects.\<close>

fun altsvc_of :: "nghttp2_ext_frame_payload \<Rightarrow> nghttp2_ext_altsvc option" where
  "altsvc_of (altsvc a) = Some a"
| "altsvc_of _ = None"

fun origin_of :: "nghttp2_ext_frame_payload \<Rightarrow> bytes list option" where
  "origin_of (origin ov) = Some ov"
| "origin_of _ = None"

fun priority_update_of :: "nghttp2_ext_frame_payload \<Rightarrow> nghttp2_ext_priority_update option" where
  "priority_update_of (priority_update p) = Some p"
| "priority_update_of _ = None"

definition nghttp2_frame_pack_altsvc :: "nghttp2_bufs \<Rightarrow> nghttp2_extension \<Rightarrow> nghttp2_bufs option" where
  "nghttp2_frame_pack_altsvc bs f = do {
     a \<leftarrow> altsvc_of (ext_payload f);
     bs1 \<leftarrow> at_buf 0 (\<lambda>b. do {
       assert_that (2 + length (alt_origin a) + length (alt_field_value a) \<le> nghttp2_buf_avail b);
       b1 \<leftarrow> pack_hd_before (frame_hd f) b;
       put_be16 (word_of_nat (length (alt_origin a))) b1
     }) bs;
     (bs2, rv) \<leftarrow> nghttp2_bufs_add bs1 (alt_origin a);
     assert_that (rv = 0);
     (bs3, rv1) \<leftarrow> nghttp2_bufs_add bs2 (alt_field_value a);
     assert_that (rv1 = 0);
     Some bs3
   }"

fun put_origins :: "bytes list \<Rightarrow> nghttp2_buf \<Rightarrow> nghttp2_buf option" where
  "put_origins [] b = Some b"
| "put_origins (orig # ov) b = do {
     b1 \<leftarrow> put_be16 (word_of_nat (length orig)) b;
     b2 \<leftarrow> put_copy orig b1;
     put_origins ov b2
   }"

definition nghttp2_frame_pack_origin :: "nghttp2_bufs \<Rightarrow> nghttp2_extension \<Rightarrow> (nghttp2_bufs \<times> int) option" where
  "nghttp2_frame_pack_origin bs f = do {
     ov \<leftarrow> origin_of (ext_payload f);
     h \<leftarrow> rd (chunks bs) 0;
     if nghttp2_buf_avail h < hd_length (frame_hd f) then Some (bs, NGHTTP2_ERR_FRAME_SIZE_ERROR)
     else do {
       bs1 \<leftarrow> at_buf 0 (\<lambda>b. do {
         b1 \<leftarrow> pack_hd_before (frame_hd f) b;
         b2 \<leftarrow> put_origins ov b1;
         assert_that (nghttp2_buf_len b2 = NGHTTP2_FRAME_HDLEN + hd_length (frame_hd f));
         Some b2
       }) bs;
       Some (bs1, 0)
     }
   }"

definition nghttp2_frame_pack_priority_update :: "nghttp2_bufs \<Rightarrow> nghttp2_extension \<Rightarrow> nghttp2_bufs option" where
  "nghttp2_frame_pack_priority_update bs f = do {
     p \<leftarrow> priority_update_of (ext_payload f);
     bs1 \<leftarrow> at_buf 0 (\<lambda>b. do {
       assert_that (4 + length (upd_field_value p) \<le> nghttp2_buf_avail b);
       b1 \<leftarrow> pack_hd_before (frame_hd f) b;
       put_be32 (word_of_int (upd_stream_id p)) b1
     }) bs;
     (bs2, rv) \<leftarrow> nghttp2_bufs_add bs1 (upd_field_value p);
     assert_that (rv = 0);
     Some bs2
   }"

section \<open>Header blocks\<close>

definition nghttp2_frame_priority_len :: "u8 \<Rightarrow> nat" where
  "nghttp2_frame_priority_len flags = (if flags AND NGHTTP2_FLAG_PRIORITY \<noteq> 0 then NGHTTP2_PRIORITY_SPECLEN else 0)"

definition nghttp2_frame_headers_payload_nv_offset :: "nghttp2_headers \<Rightarrow> nat" where
  "nghttp2_frame_headers_payload_nv_offset f = nghttp2_frame_priority_len (hd_flags (frame_hd f))"

text \<open>The header of one frame of several: its length is what its buffer holds.\<close>

definition pack_hd_at :: "nat \<Rightarrow> nghttp2_frame_hd \<Rightarrow> nghttp2_bufs \<Rightarrow> nghttp2_bufs option" where
  "pack_hd_at i h = at_buf i (\<lambda>b. pack_hd_before (h\<lparr>hd_length := nghttp2_buf_len b\<rparr>) b)"

fun pack_hds :: "nat list \<Rightarrow> nghttp2_frame_hd \<Rightarrow> nghttp2_bufs \<Rightarrow> nghttp2_bufs option" where
  "pack_hds [] h bs = Some bs"
| "pack_hds (i # is) h bs = Option.bind (pack_hd_at i h bs) (pack_hds is h)"

definition frame_pack_headers_shared :: "nghttp2_bufs \<Rightarrow> nghttp2_frame_hd \<Rightarrow> nghttp2_bufs option" where
  "frame_pack_headers_shared bs h = do {
     let more = bufs_cur bs \<noteq> 0;
     bs1 \<leftarrow> pack_hd_at 0 (if more then h\<lparr>hd_flags := hd_flags h AND NOT NGHTTP2_FLAG_END_HEADERS\<rparr> else h) bs;
     if more
     then do {
       let c = h\<lparr>hd_type := NGHTTP2_CONTINUATION, hd_flags := NGHTTP2_FLAG_NONE\<rparr>;
       bs2 \<leftarrow> pack_hds [1..<bufs_cur bs] c bs1;
       pack_hd_at (bufs_cur bs) (c\<lparr>hd_flags := NGHTTP2_FLAG_END_HEADERS\<rparr>) bs2
     }
     else Some bs1
   }"

text \<open>Room for what comes before the header block is left free, and taken back afterwards.\<close>

definition skip_head :: "nat \<Rightarrow> nghttp2_buf \<Rightarrow> nghttp2_buf option" where
  "skip_head n b = Some (b\<lparr>buf_pos := buf_pos b + n, buf_last := buf_pos b + n\<rparr>)"

definition take_back :: "nat \<Rightarrow> nghttp2_buf \<Rightarrow> nghttp2_buf option" where
  "take_back n b = Some (b\<lparr>buf_pos := buf_pos b - n\<rparr>)"

definition nghttp2_frame_pack_headers ::
  "nghttp2_bufs \<Rightarrow> nghttp2_headers \<Rightarrow> nghttp2_hd_deflater \<Rightarrow>
   (nghttp2_bufs \<times> nghttp2_headers \<times> nghttp2_hd_deflater \<times> int) option" where
  "nghttp2_frame_pack_headers bs f d = do {
     assert_that (bufs_cur bs = 0);
     let nv_offset = nghttp2_frame_headers_payload_nv_offset f;
     bs1 \<leftarrow> at_buf 0 (skip_head nv_offset) bs;
     (d1, bs2, rv) \<leftarrow> nghttp2_hd_deflate_hd_bufs d bs1 (headers_nva f);
     let rv = (if rv = NGHTTP2_ERR_BUFFER_ERROR then NGHTTP2_ERR_HEADER_COMP else rv);
     bs3 \<leftarrow> at_buf 0 (take_back nv_offset) bs2;
     if rv \<noteq> 0 then Some (bs3, f, d1, rv)
     else do {
       bs4 \<leftarrow> (if hd_flags (frame_hd f) AND NGHTTP2_FLAG_PRIORITY \<noteq> 0
               then at_buf 0 (\<lambda>b. map_option (\<lambda>x. b\<lparr>bytes_of := x\<rparr>)
                      (nghttp2_frame_pack_priority_spec (bytes_of b) (buf_pos b) (headers_pri_spec f))) bs3
               else Some bs3);
       let f1 = f\<lparr>headers_padlen := 0, frame_hd := (frame_hd f)\<lparr>hd_length := nghttp2_bufs_len bs4\<rparr>\<rparr>;
       bs5 \<leftarrow> frame_pack_headers_shared bs4 (frame_hd f1);
       Some (bs5, f1, d1, 0)
     }
   }"

definition nghttp2_frame_pack_push_promise ::
  "nghttp2_bufs \<Rightarrow> nghttp2_push_promise \<Rightarrow> nghttp2_hd_deflater \<Rightarrow>
   (nghttp2_bufs \<times> nghttp2_push_promise \<times> nghttp2_hd_deflater \<times> int) option" where
  "nghttp2_frame_pack_push_promise bs f d = do {
     assert_that (bufs_cur bs = 0);
     let nv_offset = 4;
     bs1 \<leftarrow> at_buf 0 (skip_head nv_offset) bs;
     (d1, bs2, rv) \<leftarrow> nghttp2_hd_deflate_hd_bufs d bs1 (push_nva f);
     let rv = (if rv = NGHTTP2_ERR_BUFFER_ERROR then NGHTTP2_ERR_HEADER_COMP else rv);
     bs3 \<leftarrow> at_buf 0 (take_back nv_offset) bs2;
     if rv \<noteq> 0 then Some (bs3, f, d1, rv)
     else do {
       bs4 \<leftarrow> at_buf 0 (\<lambda>b. map_option (\<lambda>x. b\<lparr>bytes_of := x\<rparr>)
                (nghttp2_put_uint32be (bytes_of b) (buf_pos b) (word_of_int (promised_stream_id f)))) bs3;
       let f1 = f\<lparr>push_padlen := 0, frame_hd := (frame_hd f)\<lparr>hd_length := nghttp2_bufs_len bs4\<rparr>\<rparr>;
       bs5 \<leftarrow> frame_pack_headers_shared bs4 (frame_hd f1);
       Some (bs5, f1, d1, 0)
     }
   }"

section \<open>Taking a frame out of its payload\<close>

definition nghttp2_frame_unpack_priority_spec :: "bytes \<Rightarrow> nghttp2_priority_spec option" where
  "nghttp2_frame_unpack_priority_spec payload = do {
     sid \<leftarrow> nghttp2_get_uint32 payload 0;
     x \<leftarrow> rd payload 0;
     w \<leftarrow> rd payload 4;
     Some (nghttp2_priority_spec_init (uint (sid AND NGHTTP2_STREAM_ID_MASK)) (uint w + 1)
             (if 0 < x AND 0x80 then 1 else 0))
   }"

definition nghttp2_frame_unpack_headers_payload :: "nghttp2_headers \<Rightarrow> bytes \<Rightarrow> nghttp2_headers option" where
  "nghttp2_frame_unpack_headers_payload f payload = do {
     spec \<leftarrow> (if hd_flags (frame_hd f) AND NGHTTP2_FLAG_PRIORITY \<noteq> 0 then nghttp2_frame_unpack_priority_spec payload
             else Some nghttp2_priority_spec_default_init);
     Some (f\<lparr>headers_pri_spec := spec, headers_nva := []\<rparr>)
   }"

definition nghttp2_frame_unpack_priority_payload :: "nghttp2_priority \<Rightarrow> bytes \<Rightarrow> nghttp2_priority option" where
  "nghttp2_frame_unpack_priority_payload f payload =
     map_option (\<lambda>spec. f\<lparr>priority_spec := spec\<rparr>) (nghttp2_frame_unpack_priority_spec payload)"

definition nghttp2_frame_unpack_rst_stream_payload :: "nghttp2_rst_stream \<Rightarrow> bytes \<Rightarrow> nghttp2_rst_stream option" where
  "nghttp2_frame_unpack_rst_stream_payload f payload =
     map_option (\<lambda>c. f\<lparr>rst_error_code := c\<rparr>) (nghttp2_get_uint32 payload 0)"

definition nghttp2_frame_unpack_settings_payload :: "nghttp2_settings \<Rightarrow> nghttp2_settings_entry list \<Rightarrow> nghttp2_settings" where
  "nghttp2_frame_unpack_settings_payload f iv = f\<lparr>settings_iv := iv\<rparr>"

definition nghttp2_frame_unpack_settings_entry :: "bytes \<Rightarrow> nat \<Rightarrow> nghttp2_settings_entry option" where
  "nghttp2_frame_unpack_settings_entry payload i = do {
     x \<leftarrow> nghttp2_get_uint16 payload i;
     v \<leftarrow> nghttp2_get_uint32 payload (i + 2);
     Some \<lparr>settings_id = uint x, settings_value = v\<rparr>
   }"

text \<open>The entries, the allocator and the code; without entries there is no allocation.\<close>

definition nghttp2_frame_unpack_settings_payload2 ::
  "bytes \<Rightarrow> nghttp2_mem \<Rightarrow> (nghttp2_settings_entry list \<times> nghttp2_mem \<times> int) option" where
  "nghttp2_frame_unpack_settings_payload2 payload m =
     (let niv = length payload div NGHTTP2_FRAME_SETTINGS_ENTRY_LENGTH in
      if niv = 0 then Some ([], m, 0)
      else (case nghttp2_mem_malloc m of
              (False, m1) \<Rightarrow> Some ([], m1, NGHTTP2_ERR_NOMEM)
            | (True, m1) \<Rightarrow>
                map_option (\<lambda>iv. (iv, m1, 0))
                  (those (map (\<lambda>i. nghttp2_frame_unpack_settings_entry payload (i * NGHTTP2_FRAME_SETTINGS_ENTRY_LENGTH)) [0..<niv]))))"

definition nghttp2_frame_unpack_push_promise_payload :: "nghttp2_push_promise \<Rightarrow> bytes \<Rightarrow> nghttp2_push_promise option" where
  "nghttp2_frame_unpack_push_promise_payload f payload =
     map_option (\<lambda>x. f\<lparr>promised_stream_id := uint (x AND NGHTTP2_STREAM_ID_MASK), push_nva := []\<rparr>) (nghttp2_get_uint32 payload 0)"

definition nghttp2_frame_unpack_ping_payload :: "nghttp2_ping \<Rightarrow> bytes \<Rightarrow> nghttp2_ping option" where
  "nghttp2_frame_unpack_ping_payload f payload = map_option (\<lambda>d. f\<lparr>ping_opaque_data := d\<rparr>) (rd_block payload 0 8)"

definition nghttp2_frame_unpack_goaway_payload :: "nghttp2_goaway \<Rightarrow> bytes \<Rightarrow> bytes \<Rightarrow> nghttp2_goaway option" where
  "nghttp2_frame_unpack_goaway_payload f payload gift = do {
     sid \<leftarrow> nghttp2_get_uint32 payload 0;
     c \<leftarrow> nghttp2_get_uint32 payload 4;
     Some (f\<lparr>last_stream_id := uint (sid AND NGHTTP2_STREAM_ID_MASK), goaway_error_code := c, goaway_opaque_data := gift\<rparr>)
   }"

definition nghttp2_frame_unpack_goaway_payload2 ::
  "nghttp2_goaway \<Rightarrow> bytes \<Rightarrow> nghttp2_mem \<Rightarrow> (nghttp2_goaway \<times> nghttp2_mem \<times> int) option" where
  "nghttp2_frame_unpack_goaway_payload2 f payload m =
     (if length payload \<le> 8 then map_option (\<lambda>g. (g, m, 0)) (nghttp2_frame_unpack_goaway_payload f payload [])
      else (case nghttp2_mem_malloc m of
              (False, m1) \<Rightarrow> Some (f, m1, NGHTTP2_ERR_NOMEM)
            | (True, m1) \<Rightarrow> map_option (\<lambda>g. (g, m1, 0)) (nghttp2_frame_unpack_goaway_payload f payload (drop 8 payload))))"

definition nghttp2_frame_unpack_window_update_payload :: "nghttp2_window_update \<Rightarrow> bytes \<Rightarrow> nghttp2_window_update option" where
  "nghttp2_frame_unpack_window_update_payload f payload =
     map_option (\<lambda>x. f\<lparr>window_size_increment := uint (x AND NGHTTP2_WINDOW_SIZE_INCREMENT_MASK)\<rparr>) (nghttp2_get_uint32 payload 0)"

text \<open>An origin that reaches beyond the payload is a pointer outside of it.\<close>

definition nghttp2_frame_unpack_altsvc_payload :: "nghttp2_extension \<Rightarrow> nat \<Rightarrow> bytes \<Rightarrow> nghttp2_extension option" where
  "nghttp2_frame_unpack_altsvc_payload f origin_len payload =
     (if length payload < origin_len then None
      else Some (f\<lparr>ext_payload := altsvc \<lparr>alt_origin = take origin_len payload, alt_field_value = drop origin_len payload\<rparr>\<rparr>))"

definition nghttp2_frame_unpack_altsvc_payload2 ::
  "nghttp2_extension \<Rightarrow> bytes \<Rightarrow> nghttp2_mem \<Rightarrow> (nghttp2_extension \<times> nghttp2_mem \<times> int) option" where
  "nghttp2_frame_unpack_altsvc_payload2 f payload m =
     (if length payload < 2 then Some (f, m, NGHTTP2_FRAME_SIZE_ERROR)
      else do {
        n \<leftarrow> nghttp2_get_uint16 payload 0;
        (case nghttp2_mem_malloc m of
           (False, m1) \<Rightarrow> Some (f, m1, NGHTTP2_ERR_NOMEM)
         | (True, m1) \<Rightarrow> map_option (\<lambda>g. (g, m1, 0)) (nghttp2_frame_unpack_altsvc_payload f (unat n) (drop 2 payload)))
      })"

text \<open>The first pass over the entries counts them and the bytes their copies take.\<close>

function count_origins :: "bytes \<Rightarrow> nat \<Rightarrow> nat \<Rightarrow> (nat \<times> nat) option" where
  "count_origins p nov len =
     (if p = [] then Some (nov, len)
      else if length p < 2 then None
      else
        (let n = unat (of_be16 (take 2 p)); q = drop 2 p in
         if n = 0 then count_origins q nov len
         else if length q < n then None
         else count_origins (drop n q) (nov + 1) (len + (n + 1))))"
  by pat_completeness auto

termination by (relation "measure (\<lambda>(p, nov, len). length p)") auto

text \<open>The second pass copies them into the block, each with a NUL behind it; \<open>i\<close> is where the next
  goes. An entry is where it begins and its length.\<close>

function copy_origins :: "bytes \<Rightarrow> bytes \<Rightarrow> nat \<Rightarrow> (bytes \<times> (nat \<times> nat) list) option" where
  "copy_origins p blk i =
     (if p = [] then Some (blk, [])
      else if length p < 2 then None
      else
        (let n = unat (of_be16 (take 2 p)); q = drop 2 p in
         if n = 0 then copy_origins q blk i
         else if length q < n then None
         else do {
           (b1, j) \<leftarrow> nghttp2_cpymem blk i (take n q);
           b2 \<leftarrow> wr b1 j 0;
           (b3, ov) \<leftarrow> copy_origins (drop n q) b2 (j + 1);
           Some (b3, (i, n) # ov)
         }))"
  by pat_completeness auto

termination by (relation "measure (\<lambda>(p, blk, i). length p)") auto

text \<open>The block is one allocation for the entries and their strings; only the part for the strings
  is written byte by byte.\<close>

definition nghttp2_frame_unpack_origin_payload ::
  "nghttp2_extension \<Rightarrow> bytes \<Rightarrow> nghttp2_mem \<Rightarrow> (nghttp2_extension \<times> nghttp2_mem \<times> int) option" where
  "nghttp2_frame_unpack_origin_payload f payload m =
     (case count_origins payload 0 0 of
        None \<Rightarrow> Some (f, m, NGHTTP2_ERR_FRAME_SIZE_ERROR)
      | Some (nov, len) \<Rightarrow>
          if nov = 0 then Some (f\<lparr>ext_payload := origin []\<rparr>, m, 0)
          else (case nghttp2_mem_malloc m of
                  (False, m1) \<Rightarrow> Some (f, m1, NGHTTP2_ERR_NOMEM)
                | (True, m1) \<Rightarrow> do {
                    (blk, ov) \<leftarrow> copy_origins payload (map (mem_fill m) [0..<len]) 0;
                    assert_that (length ov \<le> nov);
                    orig \<leftarrow> those (map (\<lambda>(i, n). rd_block blk i n) ov);
                    Some (f\<lparr>ext_payload := origin orig\<rparr>, m1, 0)
                  }))"

definition nghttp2_frame_unpack_priority_update_payload :: "nghttp2_extension \<Rightarrow> bytes \<Rightarrow> nghttp2_extension option" where
  "nghttp2_frame_unpack_priority_update_payload f payload = do {
     assert_that (4 \<le> length payload);
     sid \<leftarrow> nghttp2_get_uint32 payload 0;
     Some (f\<lparr>ext_payload := priority_update \<lparr>upd_stream_id = uint (sid AND NGHTTP2_STREAM_ID_MASK),
             upd_field_value = drop 4 payload\<rparr>\<rparr>)
   }"

section \<open>Padding\<close>

text \<open>The header moves one byte to the left, which makes room for the length of the padding.\<close>

definition frame_set_pad :: "nghttp2_buf \<Rightarrow> nat \<Rightarrow> bool \<Rightarrow> nghttp2_buf option" where
  "frame_set_pad b padlen framehd_only =
     (if buf_pos b = 0 then None
      else do {
        let pos = buf_pos b - 1;
        h \<leftarrow> rd_block (bytes_of b) (buf_pos b) NGHTTP2_FRAME_HDLEN;
        d1 \<leftarrow> wr_block (bytes_of b) pos h;
        flags \<leftarrow> rd d1 (pos + 4);
        d2 \<leftarrow> wr d1 (pos + 4) (flags OR NGHTTP2_FLAG_PADDED);
        w \<leftarrow> nghttp2_get_uint32 d2 pos;
        ty \<leftarrow> rd d2 (pos + 3);
        d3 \<leftarrow> nghttp2_put_uint32be d2 pos (word_of_nat ((unat (drop_bit 8 w) + padlen) * 256 + unat ty));
        let b1 = b\<lparr>bytes_of := d3, buf_pos := pos\<rparr>;
        if framehd_only then Some b1
        else do {
          d4 \<leftarrow> wr d3 (pos + NGHTTP2_FRAME_HDLEN) (word_of_nat (padlen - 1));
          buf_put (replicate (padlen - 1) 0) (b1\<lparr>bytes_of := d4\<rparr>)
        }
      })"

definition nghttp2_frame_add_pad ::
  "nghttp2_bufs \<Rightarrow> nghttp2_frame_hd \<Rightarrow> nat \<Rightarrow> bool \<Rightarrow> (nghttp2_bufs \<times> nghttp2_frame_hd) option" where
  "nghttp2_frame_add_pad bs h padlen framehd_only =
     (if padlen = 0 then Some (bs, h)
      else do {
        bs1 \<leftarrow> at_buf 0 (\<lambda>b. do {
          assert_that (padlen - 1 \<le> nghttp2_buf_avail b);
          frame_set_pad b padlen framehd_only
        }) bs;
        Some (bs1, h\<lparr>hd_length := hd_length h + padlen, hd_flags := hd_flags h OR NGHTTP2_FLAG_PADDED\<rparr>)
      })"

definition nghttp2_frame_trail_padlen :: "'a nghttp2_frame_common_scheme \<Rightarrow> nat \<Rightarrow> nat" where
  "nghttp2_frame_trail_padlen f padlen =
     (if padlen = 0 then 0
      else padlen - (if 0 < hd_flags (frame_hd f) AND NGHTTP2_FLAG_PADDED then 1 else 0))"

text \<open>
  The receiver's side, from \<^verbatim>\<open>nghttp2_session.c\<close>: the first byte of the payload says how long the
  padding is, and of each piece that is read the padding is left out.
\<close>

definition inbound_frame_compute_pad :: "bytes \<Rightarrow> nat \<Rightarrow> int option" where
  "inbound_frame_compute_pad sbuf payloadleft = do {
     x \<leftarrow> rd sbuf 0;
     let padlen = unat x + 1;
     Some (if payloadleft < padlen - 1 then -1 else int padlen)
   }"

definition inbound_frame_effective_readlen :: "'a nghttp2_frame_common_scheme \<Rightarrow> nat \<Rightarrow> nat \<Rightarrow> nat \<Rightarrow> int" where
  "inbound_frame_effective_readlen f padlen payloadleft readlen =
     (let trail_padlen = nghttp2_frame_trail_padlen f padlen in
      if payloadleft < trail_padlen
      then let n = trail_padlen - payloadleft in (if readlen < n then -1 else int (readlen - n))
      else int readlen)"

section \<open>Settings and header fields a frame owns\<close>

definition nghttp2_frame_iv_copy :: "nghttp2_settings_entry list \<Rightarrow> nghttp2_mem \<Rightarrow> nghttp2_settings_entry list option \<times> nghttp2_mem" where
  "nghttp2_frame_iv_copy iv m =
     (if iv = [] then (None, m)
      else (case nghttp2_mem_malloc m of
              (False, m1) \<Rightarrow> (None, m1)
            | (True, m1) \<Rightarrow> (Some iv, m1)))"

definition setting_ok :: "nghttp2_settings_entry \<Rightarrow> bool" where
  "setting_ok e \<longleftrightarrow>
     (if settings_id e = 2 then settings_value e = 0 \<or> settings_value e = 1
      else if settings_id e = 4 then settings_value e \<le> 0x7fffffff
      else if settings_id e = 5 then
        \<not> (settings_value e < NGHTTP2_MAX_FRAME_SIZE_MIN \<or> NGHTTP2_MAX_FRAME_SIZE_MAX < settings_value e)
      else if settings_id e = 8 then settings_value e = 0 \<or> settings_value e = 1
      else if settings_id e = 9 then settings_value e = 0 \<or> settings_value e = 1
      else True)"

fun nghttp2_iv_check :: "nghttp2_settings_entry list \<Rightarrow> bool" where
  "nghttp2_iv_check [] = True"
| "nghttp2_iv_check (e # iv) = (if \<not> setting_ok e then False else nghttp2_iv_check iv)"

definition nghttp2_nv_equal :: "nghttp2_nv \<Rightarrow> nghttp2_nv \<Rightarrow> bool" where
  "nghttp2_nv_equal a b \<longleftrightarrow>
     \<not> (length (h_name a) \<noteq> length (h_name b) \<or> length (h_value a) \<noteq> length (h_value b)) \<and>
     h_name a = h_name b \<and> h_value a = h_value b"

text \<open>The sign of \<^verbatim>\<open>memcmp\<close> over the first \<open>n\<close> bytes of both.\<close>

fun memcmp :: "bytes \<Rightarrow> bytes \<Rightarrow> nat \<Rightarrow> int" where
  "memcmp (x # xs) (y # ys) (Suc n) = (if x < y then -1 else if y < x then 1 else memcmp xs ys n)"
| "memcmp _ _ _ = 0"

definition bytes_compar :: "bytes \<Rightarrow> bytes \<Rightarrow> int" where
  "bytes_compar a b =
     (if length a = length b then memcmp a b (length a)
      else if length a < length b then (let rv = memcmp a b (length a) in if rv = 0 then -1 else rv)
      else (let rv = memcmp a b (length b) in if rv = 0 then 1 else rv))"

definition nghttp2_nv_compare_name :: "nghttp2_nv \<Rightarrow> nghttp2_nv \<Rightarrow> int" where
  "nghttp2_nv_compare_name l r = bytes_compar (h_name l) (h_name r)"

definition nv_compar :: "nghttp2_nv \<Rightarrow> nghttp2_nv \<Rightarrow> int" where
  "nv_compar a b =
     (let rv = bytes_compar (h_name a) (h_name b) in
      if rv = 0 then bytes_compar (h_value a) (h_value b) else rv)"

text \<open>\<^verbatim>\<open>qsort\<close> orders the array; how it orders what the comparison calls equal is its own affair.\<close>

definition nghttp2_nv_array_sort :: "nghttp2_nv list \<Rightarrow> nghttp2_nv list \<Rightarrow> bool" where
  "nghttp2_nv_array_sort nva nva' \<longleftrightarrow> mset nva' = mset nva \<and> sorted_wrt (\<lambda>a b. nv_compar a b \<le> 0) nva'"

text \<open>A string of a copied field is the caller's, or a part of the block of the copy.\<close>

datatype nv_string = Given bytes | Copied nat nat

record nv_copy =
  copy_name :: nv_string
  copy_value :: nv_string
  copy_flags :: u8

text \<open>
  The room of a string in the block, in \<^verbatim>\<open>size_t\<close>, which has 32 bits on the chip; an
  \<^verbatim>\<open>nghttp2_nv\<close> takes 20 bytes there.
\<close>

definition copied_room :: "u8 \<Rightarrow> u8 \<Rightarrow> bytes \<Rightarrow> u32" where
  "copied_room flags no_copy s = (if flags AND no_copy = 0 then word_of_nat (length s) + 1 else 0)"

abbreviation sizeof_nv :: nat where "sizeof_nv \<equiv> 20"

definition copy_string :: "u8 \<Rightarrow> u8 \<Rightarrow> bytes \<Rightarrow> (bytes \<Rightarrow> bytes) \<Rightarrow> bytes \<Rightarrow> nat \<Rightarrow> (nv_string \<times> bytes \<times> nat) option" where
  "copy_string flags no_copy s g blk i =
     (if flags AND no_copy \<noteq> 0 then Some (Given s, blk, i)
      else do {
        b1 \<leftarrow> wr_block blk i s;
        b2 \<leftarrow> wr b1 (i + length s) 0;
        x \<leftarrow> rd_block b2 i (length s);
        b3 \<leftarrow> wr_block b2 i (g x);
        Some (Copied i (length s), b3, i + length s + 1)
      })"

text \<open>
  The block begins with the array of the copies. An entry of it is an element of the list that is
  returned; that it lies in the block is checked when it is written, at offset \<open>p\<close>.
\<close>

fun copy_fields :: "nghttp2_nv list \<Rightarrow> bytes \<Rightarrow> nat \<Rightarrow> nat \<Rightarrow> (nv_copy list \<times> bytes) option" where
  "copy_fields [] blk p i = Some ([], blk)"
| "copy_fields (nv # nva) blk p i =
     (if length blk < p + sizeof_nv then None
      else do {
        (n, b1, j) \<leftarrow> copy_string (h_flags nv) NGHTTP2_NV_FLAG_NO_COPY_NAME (h_name nv) nghttp2_downcase blk i;
        (v, b2, k) \<leftarrow> copy_string (h_flags nv) NGHTTP2_NV_FLAG_NO_COPY_VALUE (h_value nv) (\<lambda>x. x) b1 j;
        (ps, b3) \<leftarrow> copy_fields nva b2 (p + sizeof_nv) k;
        Some (\<lparr>copy_name = n, copy_value = v, copy_flags = h_flags nv\<rparr> # ps, b3)
      })"

text \<open>The copies with the block that holds their strings, the allocator and the code.\<close>

definition nghttp2_nv_array_copy ::
  "nghttp2_nv list \<Rightarrow> nghttp2_mem \<Rightarrow> ((nv_copy list \<times> bytes) option \<times> nghttp2_mem \<times> int) option" where
  "nghttp2_nv_array_copy nva m =
     (if nva = [] then Some (None, m, 0)
      else
        (let buflen = foldl (\<lambda>n nv. n + copied_room (h_flags nv) NGHTTP2_NV_FLAG_NO_COPY_NAME (h_name nv)
                                      + copied_room (h_flags nv) NGHTTP2_NV_FLAG_NO_COPY_VALUE (h_value nv)) 0 nva;
             buflen = buflen + word_of_nat (sizeof_nv * length nva)
         in
         case nghttp2_mem_malloc m of
           (False, m1) \<Rightarrow> Some (None, m1, NGHTTP2_ERR_NOMEM)
         | (True, m1) \<Rightarrow>
             map_option (\<lambda>r. (Some r, m1, 0))
               (copy_fields nva (map (mem_fill m) [0..<unat buflen]) 0 (sizeof_nv * length nva))))"

end
