(* ===== verification/Ng_Frame_Props.thy ===== *)
theory Ng_Frame_Props
  imports Ng_Frame
begin

unbundle bit_operations_syntax

text \<open>
  What the frames look like on the wire, and that the other side reads what was sent: control
  frames, header blocks over several frames, and padding.
\<close>

section \<open>Writing bytes one behind the other\<close>

lemma wr_block_seq:
  assumes "j = i + length xs"
  shows "Option.bind (wr_block a i xs) (\<lambda>b. wr_block b j ys) = wr_block a i (xs @ ys)"
proof (cases "i + length xs \<le> length a")
  case True
  then have "min (length a) i = i" by simp
  then show ?thesis using True assms by (auto simp: wr_block_def ac_simps)
qed (auto simp: wr_block_def)

lemma wr_as_block: "wr a i x = wr_block a i [x]"
  by (auto simp: wr_def wr_block_def upd_conv_take_nth_drop)

lemma wr_in_block:
  assumes "k < length xs"
  shows "Option.bind (wr_block a i xs) (\<lambda>b. wr b (i + k) x) = wr_block a i (xs[k := x])"
  using assms by (auto simp: wr_block_def wr_def list_update_append)

lemma put_be_block:
  "nghttp2_put_uint16be a i n = wr_block a i (be_bytes16 n)" "nghttp2_put_uint32be a i m = wr_block a i (be_bytes32 m)"
  by (simp_all add: nghttp2_put_uint16be_def nghttp2_put_uint32be_def)

text \<open>The header of a frame as the protocol describes it: 24 bits of length.\<close>

definition hd_bytes :: "nat \<Rightarrow> u8 \<Rightarrow> u8 \<Rightarrow> int \<Rightarrow> bytes" where
  "hd_bytes n ty flags sid =
     [word_of_nat (n div 65536), word_of_nat (n div 256), word_of_nat n, ty, flags] @ be_bytes32 (word_of_int sid)"

lemma length_hd_bytes [simp]: "length (hd_bytes n ty flags sid) = 9"
  by (simp add: hd_bytes_def)

lemma be_bytes_length:
  "be_bytes32 (word_of_nat n * 256) = [word_of_nat (n div 65536), word_of_nat (n div 256), word_of_nat n, 0]"
proof -
  have n: "word_of_nat n * 256 = (word_of_nat (push_bit 8 n) :: u32)" "n div 65536 = drop_bit 16 n" "n div 256 = drop_bit 8 n"
    by (simp_all add: push_bit_eq_mult drop_bit_eq_div)
  show ?thesis unfolding n be_bytes32_def list.inject
    by (intro conjI refl; rule bit_word_eqI) (auto simp: bit_simps)
qed

lemma pack_frame_hd_block:
  "nghttp2_frame_pack_frame_hd a i h = wr_block a i (hd_bytes (hd_length h) (hd_type h) (hd_flags h) (hd_stream_id h))"
proof -
  let ?n = "hd_length h" and ?l = "[word_of_nat (hd_length h div 65536), word_of_nat (hd_length h div 256), word_of_nat (hd_length h)]"
  have "Option.bind (wr_block a i (be_bytes32 (word_of_nat ?n * 256))) (\<lambda>b. wr b (i + 3) (hd_type h)) =
      wr_block a i (?l @ [hd_type h])"
    by (subst wr_in_block) (simp_all add: be_bytes_length)
  moreover have "Option.bind (wr_block a i (?l @ [hd_type h])) (\<lambda>b. wr b (i + 4) (hd_flags h)) = wr_block a i (?l @ [hd_type h, hd_flags h])"
    unfolding wr_as_block by (subst wr_block_seq) simp_all
  moreover have "Option.bind (wr_block a i (?l @ [hd_type h, hd_flags h])) (\<lambda>b. wr_block b (i + 5) (be_bytes32 (word_of_int (hd_stream_id h)))) =
      wr_block a i (hd_bytes ?n (hd_type h) (hd_flags h) (hd_stream_id h))"
    by (subst wr_block_seq) (simp_all add: hd_bytes_def)
  ultimately show ?thesis
    unfolding nghttp2_frame_pack_frame_hd_def put_be_block of_nat_mult of_nat_numeral bind_assoc [symmetric] by (metis bind_assoc)
qed

lemma id_masked:
  assumes "0 \<le> x" "x < 2 ^ 31"
  shows "uint ((word_of_int x :: u32) AND 0x7fffffff) = x"
proof -
  have mask: "(0x7fffffff :: u32) = mask 31" by (simp add: mask_eq_exp_minus_1)
  have x: "(word_of_int x :: u32) AND mask 31 = word_of_int x" using assms by (simp add: and_mask_wi take_bit_int_eq_self)
  show ?thesis unfolding mask x using assms by (simp add: unsigned_of_int take_bit_int_eq_self)
qed

lemma length_field:
  assumes "n < 2 ^ 24"
  shows "unat (drop_bit 8 (of_be32 [word_of_nat (n div 65536), word_of_nat (n div 256), word_of_nat n, ty])) = n"
proof -
  have "drop_bit 8 (of_be32 [a, b, c, ty]) = drop_bit 8 (of_be32 [a, b, c, 0])" for a b c :: u8
    by (rule bit_word_eqI) (auto simp: bit_simps)
  then have "drop_bit 8 (of_be32 [word_of_nat (n div 65536), word_of_nat (n div 256), word_of_nat n, ty]) =
      drop_bit 8 (of_be32 (be_bytes32 (word_of_nat n * 256)))" unfolding be_bytes_length .
  also have "\<dots> = (drop_bit 8 (word_of_nat (n * 256)) :: u32)" by simp
  finally have "unat (drop_bit 8 (of_be32 [word_of_nat (n div 65536), word_of_nat (n div 256), word_of_nat n, ty])) =
      unat (drop_bit 8 (word_of_nat (n * 256) :: u32))" by (rule arg_cong)
  also have "\<dots> = drop_bit 8 (unat (word_of_nat (n * 256) :: u32))" by (rule unat_drop_bit_eq)
  also have "unat (word_of_nat (n * 256) :: u32) = n * 256" using assms by (simp del: of_nat_mult add: word_of_nat_unat_le)
  finally show ?thesis by (simp add: drop_bit_eq_div)
qed

lemma unpack_hd_bytes:
  assumes "n < 2 ^ 24" "0 \<le> sid" "sid < 2 ^ 31"
  shows "nghttp2_frame_unpack_frame_hd (hd_bytes n ty flags sid @ rest) 0 = Some (nghttp2_frame_hd_init n ty flags sid)"
proof -
  let ?x = "hd_bytes n ty flags sid @ rest"
  have "nghttp2_get_uint32 ?x 0 = Some (of_be32 [word_of_nat (n div 65536), word_of_nat (n div 256), word_of_nat n, ty])"
    "rd ?x 3 = Some ty" "rd ?x 4 = Some flags"
    by (simp_all add: nghttp2_get_uint32_def rd_block_def hd_bytes_def rd_def)
  moreover have "nghttp2_get_uint32 ?x 5 = Some (word_of_int sid)"
    using rd_block_append [of "take 5 ?x" 5 "be_bytes32 (word_of_int sid)" 4 rest]
    by (simp add: nghttp2_get_uint32_def hd_bytes_def)
  ultimately show ?thesis
    using length_field [OF assms(1)] id_masked [OF assms(2,3)]
    by (simp add: nghttp2_frame_unpack_frame_hd_def nghttp2_frame_hd_init_def)
qed

section \<open>Buffers with a header in front\<close>

lemma write_before:
  assumes "buf_ok b" "length x \<le> buf_pos b"
  shows "\<exists>d. wr_block (bytes_of b) (buf_pos b - length x) x = Some d \<and> length d = length (bytes_of b) \<and>
    drop (buf_pos b - length x) (take (buf_last b) d) = x @ present b"
proof -
  let ?p = "buf_pos b" and ?n = "length x"
  have le: "?p \<le> buf_last b" "buf_last b \<le> length (bytes_of b)" using assms(1) by (simp_all add: buf_ok_def nghttp2_buf_cap_def)
  let ?d = "take (?p - ?n) (bytes_of b) @ x @ drop ?p (bytes_of b)"
  have "wr_block (bytes_of b) (?p - ?n) x = Some ?d" using assms(2) le by (simp add: wr_block_def)
  moreover have "drop (?p - ?n) (take (buf_last b) ?d) = x @ drop ?p (take (buf_last b) (bytes_of b))"
  proof -
    have "take (buf_last b) ?d = take (?p - ?n) (bytes_of b) @ x @ take (buf_last b - ?p) (drop ?p (bytes_of b))"
      using assms(2) le by simp
    then show ?thesis using assms(2) le by (simp add: drop_take)
  qed
  ultimately show ?thesis using assms(2) le by (simp add: present_def)
qed

lemma pack_hd_before_ok:
  assumes "buf_ok b" "9 \<le> buf_pos b"
  shows "\<exists>b'. pack_hd_before h b = Some b' \<and> buf_ok b' \<and> buf_pos b' = buf_pos b - 9 \<and> buf_last b' = buf_last b \<and>
    nghttp2_buf_cap b' = nghttp2_buf_cap b \<and>
    present b' = hd_bytes (hd_length h) (hd_type h) (hd_flags h) (hd_stream_id h) @ present b"
proof -
  let ?x = "hd_bytes (hd_length h) (hd_type h) (hd_flags h) (hd_stream_id h)"
  obtain d where "wr_block (bytes_of b) (buf_pos b - 9) ?x = Some d" "length d = length (bytes_of b)"
    "drop (buf_pos b - 9) (take (buf_last b) d) = ?x @ present b"
    using write_before [OF assms(1), of ?x] assms(2) by auto
  then show ?thesis
    using assms by (auto simp: pack_hd_before_def pack_frame_hd_block present_def buf_ok_def nghttp2_buf_cap_def)
qed

lemma puts_are_put:
  "put_be16 n b = buf_put (be_bytes16 n) b" "put_be32 m b = buf_put (be_bytes32 m) b"
  "buf_ok b \<Longrightarrow> put_copy s b = buf_put s b"
proof -
  show "put_be16 n b = buf_put (be_bytes16 n) b" "put_be32 m b = buf_put (be_bytes32 m) b"
    by (simp_all add: put_be16_def put_be32_def buf_put_def put_be_block)
  show "buf_ok b \<Longrightarrow> put_copy s b = buf_put s b"
    by (auto simp: put_copy_def buf_put_def nghttp2_cpymem_def wr_block_def buf_ok_def nghttp2_buf_cap_def)
qed

lemma buf_put_seq: "Option.bind (buf_put xs b) (buf_put ys) = buf_put (xs @ ys) b"
proof -
  have "Option.bind (buf_put xs b) (buf_put ys) =
      map_option (\<lambda>d. b\<lparr>bytes_of := d, buf_last := buf_last b + length (xs @ ys)\<rparr>)
        (Option.bind (wr_block (bytes_of b) (buf_last b) xs) (\<lambda>d. wr_block d (buf_last b + length xs) ys))"
    by (cases "wr_block (bytes_of b) (buf_last b) xs") (simp_all add: buf_put_def option.map_comp comp_def add.assoc)
  then show ?thesis by (simp add: wr_block_seq buf_put_def)
qed

text \<open>A frame that fits into the first buffer: its header, and its payload behind it.\<close>

definition fresh :: "nghttp2_bufs \<Rightarrow> bool" where
  "fresh bs \<longleftrightarrow> bufs_ok bs \<and> bufs_cur bs = 0 \<and> content bs = [] \<and> 9 \<le> buf_pos (chunks bs ! 0)"

definition holds_frame :: "nghttp2_bufs \<Rightarrow> nghttp2_frame_hd \<Rightarrow> bytes \<Rightarrow> nghttp2_bufs \<Rightarrow> bool" where
  "holds_frame bs h p bs' \<longleftrightarrow> bufs_ok bs' \<and> bufs_cur bs' = 0 \<and> length (chunks bs') = length (chunks bs) \<and>
     content bs' = hd_bytes (hd_length h) (hd_type h) (hd_flags h) (hd_stream_id h) @ p \<and>
     nghttp2_buf_avail (chunks bs' ! 0) = nghttp2_buf_avail (chunks bs ! 0) - length p"

lemma at_head:
  assumes fresh: "fresh bs" and fits: "length p \<le> nghttp2_buf_avail (chunks bs ! 0)"
    and f: "\<And>b b1. b = chunks bs ! 0 \<Longrightarrow> pack_hd_before h b = Some b1 \<Longrightarrow> buf_ok b1 \<Longrightarrow> nghttp2_buf_len b1 = 9 \<Longrightarrow> f b = buf_put p b1"
  shows "\<exists>bs'. at_buf 0 f bs = Some bs' \<and> holds_frame bs h p bs'"
proof -
  let ?b = "chunks bs ! 0"
  have ok: "bufs_ok bs" "bufs_cur bs = 0" "content bs = []" using fresh by (simp_all add: fresh_def)
  then have len: "0 < length (chunks bs)" and b: "buf_ok ?b" "9 \<le> buf_pos ?b"
    using fresh by (auto simp: fresh_def bufs_ok_def list_all_length)
  have empty: "present ?b = []" using content_split [OF ok(1)] ok(2,3) by simp
  obtain b1 where b1: "pack_hd_before h ?b = Some b1" "buf_ok b1" "buf_last b1 = buf_last ?b"
    "nghttp2_buf_cap b1 = nghttp2_buf_cap ?b" "present b1 = hd_bytes (hd_length h) (hd_type h) (hd_flags h) (hd_stream_id h)"
    using pack_hd_before_ok [OF b, of h] empty by auto
  have nine: "nghttp2_buf_len b1 = 9"
    using b1(2) arg_cong [OF b1(5), of length] by (simp add: present_def nghttp2_buf_len_def buf_ok_def nghttp2_buf_cap_def)
  have avail: "nghttp2_buf_avail b1 = nghttp2_buf_avail ?b" using b1(3,4) by (simp add: nghttp2_buf_avail_def)
  obtain b2 where b2: "buf_put p b1 = Some b2" "buf_ok b2" "present b2 = present b1 @ p"
    "nghttp2_buf_avail b2 = nghttp2_buf_avail b1 - length p"
    using present_put [OF b1(2), of p] fits avail by auto
  let ?bs = "bs\<lparr>chunks := (chunks bs)[0 := b2]\<rparr>"
  have "at_buf 0 f bs = Some ?bs" using len f [OF refl b1(1,2) nine] b2(1) by (simp add: at_buf_def)
  moreover have ok': "bufs_ok ?bs"
    using ok(1) b2(2) by (auto simp: bufs_ok_def list_all_iff dest!: set_update_subset_insert [THEN subsetD])
  moreover have "content ?bs = present b2" using content_split [OF ok'] ok(2) len by simp
  ultimately show ?thesis using ok(2) b1(5) b2(3,4) avail len by (simp add: holds_frame_def)
qed

lemma add_fits:
  assumes ok: "bufs_ok bs" and len: "length p \<le> nghttp2_buf_avail (chunks bs ! bufs_cur bs)"
  shows "\<exists>bs'. nghttp2_bufs_add bs p = Some (bs', 0) \<and> bufs_ok bs' \<and> content bs' = content bs @ p \<and>
    bufs_cur bs' = bufs_cur bs \<and> length (chunks bs') = length (chunks bs) \<and>
    nghttp2_buf_avail (chunks bs' ! bufs_cur bs') = nghttp2_buf_avail (chunks bs ! bufs_cur bs) - length p"
proof (cases "p = []")
  case True
  then show ?thesis using ok by (simp add: nghttp2_bufs_add.simps)
next
  case False
  obtain bs' where b: "put_cur p bs = Some bs'" "bufs_ok bs'" "content bs' = content bs @ p"
    "bufs_cur bs' = bufs_cur bs" "length (chunks bs') = length (chunks bs)"
    "nghttp2_bufs_cur_avail bs' = Some (nghttp2_buf_avail (chunks bs ! bufs_cur bs) - length p)"
    using put_cur_ok [OF ok len] by blast
  have "nghttp2_bufs_add bs' [] = Some (bs', 0)" by (simp add: nghttp2_bufs_add.simps)
  moreover have "nghttp2_bufs_add bs p = Some (bs', 0)"
    using False len b(1) calculation
    by (subst nghttp2_bufs_add.simps) (simp add: cur_avail_ok [OF ok] Let_def min_absorb2)
  ultimately show ?thesis using b cur_avail_ok [OF b(2)] by auto
qed

section \<open>Control frames\<close>

text \<open>Payloads as the protocol describes them.\<close>

definition spec_bytes :: "nghttp2_priority_spec \<Rightarrow> bytes" where
  "spec_bytes p = be_bytes32 (word_of_int (dep_stream_id p) OR (if exclusive p \<noteq> 0 then 0x80000000 else 0)) @
     [word_of_int (spec_weight p - 1)]"

definition entry_bytes :: "nghttp2_settings_entry \<Rightarrow> bytes" where
  "entry_bytes e = be_bytes16 (word_of_int (settings_id e)) @ be_bytes32 (settings_value e)"

definition origin_bytes :: "bytes \<Rightarrow> bytes" where
  "origin_bytes o' = be_bytes16 (word_of_nat (length o')) @ o'"

definition id_ok :: "int \<Rightarrow> bool" where
  "id_ok x \<longleftrightarrow> 0 \<le> x \<and> x < 2 ^ 31"

definition spec_ok :: "nghttp2_priority_spec \<Rightarrow> bool" where
  "spec_ok p \<longleftrightarrow> id_ok (dep_stream_id p) \<and> 1 \<le> spec_weight p \<and> spec_weight p \<le> 256 \<and> exclusive p \<le> 1"

text \<open>The frames without a header block, with their payloads.\<close>

inductive control_frame :: "nghttp2_frame \<Rightarrow> nghttp2_frame_hd \<Rightarrow> bytes \<Rightarrow> bool" where
  "f = nghttp2_frame_priority_init sid p \<Longrightarrow> id_ok sid \<Longrightarrow> spec_ok p \<Longrightarrow>
     control_frame (priority f) (frame_hd f) (spec_bytes p)"
| "f = nghttp2_frame_rst_stream_init sid c \<Longrightarrow> id_ok sid \<Longrightarrow>
     control_frame (rst_stream f) (frame_hd f) (be_bytes32 c)"
| "f = nghttp2_frame_settings_init fl iv \<Longrightarrow> \<forall>e \<in> set iv. 0 \<le> settings_id e \<and> settings_id e < 2 ^ 16 \<Longrightarrow>
     control_frame (settings f) (frame_hd f) (concat (map entry_bytes iv))"
| "nghttp2_frame_ping_init fl (Some d) = Some f \<Longrightarrow> length d = 8 \<Longrightarrow> control_frame (ping f) (frame_hd f) d"
| "nghttp2_frame_ping_init fl None = Some f \<Longrightarrow> control_frame (ping f) (frame_hd f) (replicate 8 0)"
| "f = nghttp2_frame_goaway_init sid c d \<Longrightarrow> id_ok sid \<Longrightarrow>
     control_frame (goaway f) (frame_hd f) (be_bytes32 (word_of_int sid) @ be_bytes32 c @ d)"
| "f = nghttp2_frame_window_update_init fl sid n \<Longrightarrow> id_ok sid \<Longrightarrow> id_ok n \<Longrightarrow>
     control_frame (window_update f) (frame_hd f) (be_bytes32 (word_of_int n))"
| "f = nghttp2_frame_altsvc_init sid o' v \<Longrightarrow> id_ok sid \<Longrightarrow> length o' < 2 ^ 16 \<Longrightarrow>
     control_frame (ext f) (frame_hd f) (origin_bytes o' @ v)"
| "f = nghttp2_frame_origin_init ov \<Longrightarrow> \<forall>o' \<in> set ov. o' \<noteq> [] \<and> length o' < 2 ^ 16 \<Longrightarrow>
     control_frame (ext f) (frame_hd f) (concat (map origin_bytes ov))"
| "f = nghttp2_frame_priority_update_init sid v \<Longrightarrow> id_ok sid \<Longrightarrow>
     control_frame (ext f) (frame_hd f) (be_bytes32 (word_of_int sid) @ v)"

text \<open>The packing of each, chosen as \<^verbatim>\<open>session_prep_frame\<close> does, and the reverse.\<close>

fun pack_control :: "nghttp2_bufs \<Rightarrow> nghttp2_frame \<Rightarrow> (nghttp2_bufs \<times> int) option" where
  "pack_control bs (priority f) = map_option (\<lambda>b. (b, 0)) (nghttp2_frame_pack_priority bs f)"
| "pack_control bs (rst_stream f) = map_option (\<lambda>b. (b, 0)) (nghttp2_frame_pack_rst_stream bs f)"
| "pack_control bs (settings f) = nghttp2_frame_pack_settings bs f"
| "pack_control bs (ping f) = map_option (\<lambda>b. (b, 0)) (nghttp2_frame_pack_ping bs f)"
| "pack_control bs (goaway f) = nghttp2_frame_pack_goaway bs f"
| "pack_control bs (window_update f) = map_option (\<lambda>b. (b, 0)) (nghttp2_frame_pack_window_update bs f)"
| "pack_control bs (ext f) =
     (if hd_type (frame_hd f) = NGHTTP2_ALTSVC then map_option (\<lambda>b. (b, 0)) (nghttp2_frame_pack_altsvc bs f)
      else if hd_type (frame_hd f) = NGHTTP2_ORIGIN then nghttp2_frame_pack_origin bs f
      else map_option (\<lambda>b. (b, 0)) (nghttp2_frame_pack_priority_update bs f))"
| "pack_control _ _ = None"

definition unpack_control :: "nghttp2_mem \<Rightarrow> bytes \<Rightarrow> nghttp2_frame option" where
  "unpack_control m xs = do {
     h \<leftarrow> nghttp2_frame_unpack_frame_hd xs 0;
     let p = take (hd_length h) (drop NGHTTP2_FRAME_HDLEN xs);
     let e = \<lparr>frame_hd = h, ext_payload = origin []\<rparr>;
     if hd_type h = NGHTTP2_PRIORITY
     then map_option priority (nghttp2_frame_unpack_priority_payload
            \<lparr>frame_hd = h, priority_spec = nghttp2_priority_spec_default_init\<rparr> p)
     else if hd_type h = NGHTTP2_RST_STREAM
     then map_option rst_stream (nghttp2_frame_unpack_rst_stream_payload \<lparr>frame_hd = h, rst_error_code = 0\<rparr> p)
     else if hd_type h = NGHTTP2_SETTINGS
     then map_option (\<lambda>(iv, m1, rv). settings (nghttp2_frame_unpack_settings_payload \<lparr>frame_hd = h, settings_iv = []\<rparr> iv))
            (nghttp2_frame_unpack_settings_payload2 p m)
     else if hd_type h = NGHTTP2_PING
     then map_option ping (nghttp2_frame_unpack_ping_payload \<lparr>frame_hd = h, ping_opaque_data = []\<rparr> p)
     else if hd_type h = NGHTTP2_GOAWAY
     then map_option (\<lambda>(g, m1, rv). goaway g) (nghttp2_frame_unpack_goaway_payload2
            \<lparr>frame_hd = h, last_stream_id = 0, goaway_error_code = 0, goaway_opaque_data = [], goaway_reserved = 0\<rparr> p m)
     else if hd_type h = NGHTTP2_WINDOW_UPDATE
     then map_option window_update (nghttp2_frame_unpack_window_update_payload
            \<lparr>frame_hd = h, window_size_increment = 0, window_reserved = 0\<rparr> p)
     else if hd_type h = NGHTTP2_ALTSVC then map_option (\<lambda>(g, m1, rv). ext g) (nghttp2_frame_unpack_altsvc_payload2 e p m)
     else if hd_type h = NGHTTP2_ORIGIN then map_option (\<lambda>(g, m1, rv). ext g) (nghttp2_frame_unpack_origin_payload e p m)
     else map_option ext (nghttp2_frame_unpack_priority_update_payload e p)
   }"

lemma bit_top: "bit (0x80000000 :: u32) n \<longleftrightarrow> n = 31" "bit (0x80 :: u8) n \<longleftrightarrow> n = 7"
  using bit_exp_iff [where 'a = "32 word", of 31 n] bit_exp_iff [where 'a = "8 word", of 7 n] by (auto simp: possible_bit_def)

lemma length_payload_bytes [simp]: "length (entry_bytes e) = 6" "length (spec_bytes p) = 5"
  by (simp_all add: entry_bytes_def spec_bytes_def)

lemma spec_block: "nghttp2_frame_pack_priority_spec a i p = wr_block a i (spec_bytes p)"
proof -
  let ?w = "word_of_int (dep_stream_id p) :: u32"
  obtain x0 x1 x2 x3 where w: "be_bytes32 ?w = [x0, x1, x2, x3]" by (simp add: be_bytes32_def)
  have top: "be_bytes32 (?w OR 0x80000000) = [x0 OR 0x80, x1, x2, x3]"
  proof -
    have "ucast (drop_bit 24 (?w OR 0x80000000)) = (ucast (drop_bit 24 ?w) OR 0x80 :: u8)"
      by (rule bit_word_eqI) (auto simp: bit_simps bit_top)
    moreover have "ucast (drop_bit k (?w OR 0x80000000)) = (ucast (drop_bit k ?w) :: u8)" if "k < 24" for k
    proof (rule bit_word_eqI)
      fix n assume "n < LENGTH(8)"
      then have "\<not> bit (0x80000000 :: u32) (k + n)" unfolding bit_top using that by simp
      then show "bit (ucast (drop_bit k (?w OR 0x80000000)) :: u8) n = bit (ucast (drop_bit k ?w) :: u8) n"
        by (simp only: bit_ucast_iff bit_drop_bit_eq bit_or_iff comp_def simp_thms)
    qed
    from this [of 16] this [of 8] this [of 0] show ?thesis
      using w calculation by (simp add: be_bytes32_def)
  qed
  have "Option.bind (wr_block a i [x0, x1, x2, x3]) (\<lambda>b. Option.bind (rd b i) (\<lambda>x. wr b i (x OR 0x80))) =
      wr_block a i [x0 OR 0x80, x1, x2, x3]"
    by (auto simp: wr_block_def rd_def wr_def nth_append list_update_append)
  then show ?thesis
    unfolding nghttp2_frame_pack_priority_spec_def put_be_block spec_bytes_def
    using wr_block_seq [of "i + 4" i "[x0, x1, x2, x3]" a] wr_block_seq [of "i + 4" i "[x0 OR 0x80, x1, x2, x3]" a] w top
    by (simp add: wr_as_block flip: bind_assoc)
qed

lemma entries_block: "i \<le> length a \<Longrightarrow> pack_settings_entries a i es = wr_block a i (concat (map entry_bytes es))"
proof (induction es arbitrary: a i)
  case (Cons e es)
  have "Option.bind (wr_block a i (be_bytes16 (word_of_int (settings_id e)))) (\<lambda>b. wr_block b (i + 2) (be_bytes32 (settings_value e))) =
      wr_block a i (entry_bytes e)"
    by (simp add: wr_block_seq entry_bytes_def)
  then have "pack_settings_entries a i (e # es) = Option.bind (wr_block a i (entry_bytes e)) (\<lambda>b. pack_settings_entries b (i + 6) es)"
    by (simp add: put_be_block flip: bind_assoc)
  also have "\<dots> = Option.bind (wr_block a i (entry_bytes e)) (\<lambda>b. wr_block b (i + 6) (concat (map entry_bytes es)))"
    using Cons.IH by (cases "wr_block a i (entry_bytes e)") (auto simp: wr_block_def split: if_splits)
  finally show ?case by (simp add: wr_block_seq)
qed (simp add: wr_block_def)

lemma put_origins_put: "buf_ok b \<Longrightarrow> put_origins ov b = buf_put (concat (map origin_bytes ov)) b"
proof (induction ov arbitrary: b)
  case Nil
  then show ?case by (simp add: buf_put_def wr_block_def buf_ok_def nghttp2_buf_cap_def)
next
  case (Cons o' ov)
  have ok: "buf_ok b'" if "buf_put xs b = Some b'" for xs b'
    using that Cons.prems by (auto simp: buf_put_def buf_ok_def nghttp2_buf_cap_def wr_block_def split: if_splits)
  have ok2: "buf_ok b''" if "buf_put xs b = Some b'" "buf_put ys b' = Some b''" for xs ys b' b''
    using ok [OF that(1)] that(2) by (auto simp: buf_put_def buf_ok_def nghttp2_buf_cap_def wr_block_def split: if_splits)
  have "put_origins (o' # ov) b = Option.bind (buf_put (be_bytes16 (word_of_nat (length o'))) b)
      (\<lambda>b1. Option.bind (buf_put o' b1) (buf_put (concat (map origin_bytes ov))))"
    using Cons.IH ok ok2
    by (cases "buf_put (be_bytes16 (word_of_nat (length o'))) b"; cases "buf_put o' (the (buf_put (be_bytes16 (word_of_nat (length o'))) b))")
      (auto simp: puts_are_put)
  then show ?case by (simp add: buf_put_seq origin_bytes_def [of o'])
qed

lemma length_origin_bytes: "length (origin_bytes o') = 2 + length o'"
  by (simp add: origin_bytes_def)

lemma length_origins: "foldl (\<lambda>n o'. n + (2 + length o')) k ov = k + length (concat (map origin_bytes ov))"
  by (induction ov arbitrary: k) (simp_all add: origin_bytes_def)

lemma length_entries [simp]: "length (concat (map entry_bytes iv)) = 6 * length iv"
  by (induction iv) simp_all

lemma control_length: "control_frame f h p \<Longrightarrow> hd_length h = length p"
  by (induction rule: control_frame.induct)
    (auto simp: nghttp2_frame_priority_init_def nghttp2_frame_rst_stream_init_def nghttp2_frame_settings_init_def
      nghttp2_frame_ping_init_def nghttp2_frame_goaway_init_def nghttp2_frame_window_update_init_def
      nghttp2_frame_altsvc_init_def nghttp2_frame_origin_init_def nghttp2_frame_priority_update_init_def
      nghttp2_frame_hd_init_def length_origins [of 0, simplified] length_origin_bytes rd_block_def split: if_splits)

lemma holds_more:
  assumes "holds_frame bs h p bs1" "length p + length q \<le> nghttp2_buf_avail (chunks bs ! 0)"
  shows "\<exists>bs2. nghttp2_bufs_add bs1 q = Some (bs2, 0) \<and> holds_frame bs h (p @ q) bs2"
proof -
  have b: "bufs_ok bs1" "bufs_cur bs1 = 0" "nghttp2_buf_avail (chunks bs1 ! 0) = nghttp2_buf_avail (chunks bs ! 0) - length p"
    using assms(1) by (simp_all add: holds_frame_def)
  obtain bs2 where "nghttp2_bufs_add bs1 q = Some (bs2, 0)" "bufs_ok bs2" "content bs2 = content bs1 @ q"
    "bufs_cur bs2 = 0" "length (chunks bs2) = length (chunks bs1)"
    "nghttp2_buf_avail (chunks bs2 ! 0) = nghttp2_buf_avail (chunks bs1 ! 0) - length q"
  proof -
    have "length q \<le> nghttp2_buf_avail (chunks bs1 ! bufs_cur bs1)" using assms(2) b(2,3) by simp
    from add_fits [OF b(1) this] show thesis using that b(2) by auto
  qed
  then show ?thesis using assms(1) b(3) by (auto simp: holds_frame_def)
qed

lemma assert_bind [simp]: "Option.bind (assert_that p) f = (if p then f () else None)"
  by (simp add: assert_that_def)

lemma put_be32_twice: "Option.bind (put_be32 a b) (put_be32 c) = buf_put (be_bytes32 a @ be_bytes32 c) b"
proof -
  have "put_be32 c = buf_put (be_bytes32 c)" by (rule ext) (simp add: puts_are_put)
  then show ?thesis by (simp add: puts_are_put buf_put_seq)
qed

lemma pack_control_ok:
  assumes "control_frame f h p" "fresh bs" "length p \<le> nghttp2_buf_avail (chunks bs ! 0)"
  shows "\<exists>bs'. pack_control bs f = Some (bs', 0) \<and> holds_frame bs h p bs'"
proof -
  have cur: "bufs_cur bs = 0" using assms(2) by (simp add: fresh_def)
  have b0: "rd (chunks bs) 0 = Some (chunks bs ! 0)" using assms(2) by (auto simp: fresh_def bufs_ok_def rd_def)
  have len: "hd_length h = length p" by (rule control_length [OF assms(1)])
  note head = at_head [OF assms(2), where h = h]
  have one: "pack_control bs f = map_option (\<lambda>b. (b, 0)) (at_buf 0 g bs) \<Longrightarrow>
      (\<And>b b1. b = chunks bs ! 0 \<Longrightarrow> pack_hd_before h b = Some b1 \<Longrightarrow> buf_ok b1 \<Longrightarrow> nghttp2_buf_len b1 = 9 \<Longrightarrow> g b = buf_put p b1) \<Longrightarrow> ?thesis" for g
    using head [OF assms(3)] by (metis (no_types, lifting) option.simps(9))
  note packs = nghttp2_frame_pack_priority_def nghttp2_frame_pack_rst_stream_def nghttp2_frame_pack_settings_def
    nghttp2_frame_pack_ping_def nghttp2_frame_pack_window_update_def nghttp2_frame_pack_origin_def map_conv_bind_option
  have ping: ?thesis if "f = ping f'" "frame_hd f' = h" "ping_opaque_data f' = p" "length p = 8" for f'
    by (rule one) (use that assms(3) cur in \<open>simp add: packs, simp add: puts_are_put\<close>)
  from assms(1) show ?thesis
  proof (cases rule: control_frame.cases)
    case (1 f' sid p')
    show ?thesis
      by (rule one) (use 1 assms(3) cur in \<open>simp add: packs, simp add: packs spec_block buf_put_def nghttp2_frame_priority_init_def comp_def\<close>)
  next
    case (2 f' sid c)
    show ?thesis
      by (rule one) (use 2 assms(3) cur in \<open>simp add: packs, simp add: packs puts_are_put nghttp2_frame_rst_stream_init_def comp_def\<close>)
  next
    case (3 f' fl iv)
    have fits: "\<not> nghttp2_buf_avail (chunks bs ! 0) < hd_length (frame_hd f')" using 3 assms(3) len by simp
    show ?thesis
    proof (rule one)
      show "pack_control bs f = map_option (\<lambda>b. (b, 0)) (at_buf 0 (\<lambda>b. do {
         b1 \<leftarrow> pack_hd_before (frame_hd f') b;
         (d, n) \<leftarrow> nghttp2_frame_pack_settings_payload (bytes_of b1) (buf_last b1) (settings_iv f');
         Some (b1\<lparr>bytes_of := d, buf_last := buf_last b1 + n\<rparr>)
       }) bs)" using 3 cur b0 fits by (simp add: packs comp_def)
    qed (use 3 in \<open>auto simp: nghttp2_frame_pack_settings_payload_def entries_block nghttp2_frame_settings_init_def buf_put_def
          map_conv_bind_option comp_def buf_ok_def nghttp2_buf_cap_def\<close>)
  next
    case (4 fl f')
    then show ?thesis by (intro ping) (auto simp: nghttp2_frame_ping_init_def rd_block_def)
  next
    case (5 fl f')
    then show ?thesis by (intro ping) (auto simp: nghttp2_frame_ping_init_def)
  next
    case (6 f' sid c d)
    let ?q = "be_bytes32 (word_of_int sid) @ be_bytes32 c"
    have f': "last_stream_id f' = sid" "goaway_error_code f' = c" "goaway_opaque_data f' = d" "length ?q \<le> nghttp2_buf_avail (chunks bs ! 0)"
      using 6 assms(3) by (simp_all add: nghttp2_frame_goaway_init_def)
    have "\<exists>bs1. at_buf 0 (\<lambda>b. do {
       b1 \<leftarrow> pack_hd_before (frame_hd f') b;
       b2 \<leftarrow> put_be32 (word_of_int (last_stream_id f')) b1;
       put_be32 (goaway_error_code f') b2
     }) bs = Some bs1 \<and> holds_frame bs h ?q bs1"
      by (rule head [OF f'(4)]) (use 6(2) f'(1,2) in \<open>simp add: put_be32_twice\<close>)
    then obtain bs1 where bs1: "at_buf 0 (\<lambda>b. do {
       b1 \<leftarrow> pack_hd_before (frame_hd f') b;
       b2 \<leftarrow> put_be32 (word_of_int (last_stream_id f')) b1;
       put_be32 (goaway_error_code f') b2
     }) bs = Some bs1" "holds_frame bs h ?q bs1" by blast
    obtain bs2 where "nghttp2_bufs_add bs1 d = Some (bs2, 0)" "holds_frame bs h (?q @ d) bs2"
      using holds_more [OF bs1(2), of d] assms(3) 6(3) by auto
    then show ?thesis using bs1(1) 6(1,3) f'(3) cur by (simp add: nghttp2_frame_pack_goaway_def)
  next
    case (7 f' fl sid n)
    show ?thesis
      by (rule one) (use 7 assms(3) cur in \<open>simp add: packs, simp add: packs puts_are_put nghttp2_frame_window_update_init_def comp_def\<close>)
  next
    case (8 f' sid o' v)
    let ?a = "\<lparr>alt_origin = o', alt_field_value = v\<rparr>"
    have f': "ext_payload f' = altsvc ?a" "hd_type (frame_hd f') = NGHTTP2_ALTSVC" "2 + length o' + length v \<le> nghttp2_buf_avail (chunks bs ! 0)"
      using 8 assms(3) by (simp_all add: nghttp2_frame_altsvc_init_def nghttp2_frame_hd_init_def length_origin_bytes)
    have "\<exists>bs1. at_buf 0 (\<lambda>b. do {
       assert_that (2 + length (alt_origin ?a) + length (alt_field_value ?a) \<le> nghttp2_buf_avail b);
       b1 \<leftarrow> pack_hd_before (frame_hd f') b;
       put_be16 (word_of_nat (length (alt_origin ?a))) b1
     }) bs = Some bs1 \<and> holds_frame bs h (be_bytes16 (word_of_nat (length o'))) bs1"
      by (rule head) (use 8(2) f'(3) in \<open>simp_all add: puts_are_put\<close>)
    then obtain bs1 where bs1: "at_buf 0 (\<lambda>b. do {
       assert_that (2 + length (alt_origin ?a) + length (alt_field_value ?a) \<le> nghttp2_buf_avail b);
       b1 \<leftarrow> pack_hd_before (frame_hd f') b;
       put_be16 (word_of_nat (length (alt_origin ?a))) b1
     }) bs = Some bs1" "holds_frame bs h (be_bytes16 (word_of_nat (length o'))) bs1" by blast
    obtain bs2 where bs2: "nghttp2_bufs_add bs1 o' = Some (bs2, 0)" "holds_frame bs h (be_bytes16 (word_of_nat (length o')) @ o') bs2"
      using holds_more [OF bs1(2), of o'] f'(3) by auto
    obtain bs3 where "nghttp2_bufs_add bs2 v = Some (bs3, 0)" "holds_frame bs h ((be_bytes16 (word_of_nat (length o')) @ o') @ v) bs3"
      using holds_more [OF bs2(2), of v] f'(3) by auto
    then show ?thesis using bs1(1) bs2(1) f'(1,2) 8(1,3) by (simp cong: if_cong add: nghttp2_frame_pack_altsvc_def origin_bytes_def)
  next
    case (9 f' ov)
    have f': "ext_payload f' = origin ov" "hd_type (frame_hd f') = NGHTTP2_ORIGIN"
      using 9 by (simp_all add: nghttp2_frame_origin_init_def nghttp2_frame_hd_init_def)
    have fits: "\<not> nghttp2_buf_avail (chunks bs ! 0) < hd_length (frame_hd f')" using 9 assms(3) len by simp
    show ?thesis
    proof (rule one)
      show "pack_control bs f = map_option (\<lambda>b. (b, 0)) (at_buf 0 (\<lambda>b. do {
         b1 \<leftarrow> pack_hd_before (frame_hd f') b;
         b2 \<leftarrow> put_origins ov b1;
         assert_that (nghttp2_buf_len b2 = NGHTTP2_FRAME_HDLEN + hd_length (frame_hd f'));
         Some b2
       }) bs)" using 9 f' b0 fits by (simp add: packs comp_def)
    next
      fix b b1 assume "b = chunks bs ! 0" and b1: "pack_hd_before h b = Some b1" "buf_ok b1" "nghttp2_buf_len b1 = 9"
      have "nghttp2_buf_len b2 = 9 + length p" if "buf_put p b1 = Some b2" for b2
        using that b1(2,3) by (auto simp: buf_put_def nghttp2_buf_len_def buf_ok_def)
      then show "do {
         b1 \<leftarrow> pack_hd_before (frame_hd f') b;
         b2 \<leftarrow> put_origins ov b1;
         assert_that (nghttp2_buf_len b2 = NGHTTP2_FRAME_HDLEN + hd_length (frame_hd f'));
         Some b2
       } = buf_put p b1"
        using 9 b1(1) len by (cases "buf_put p b1") (simp_all add: put_origins_put [OF b1(2)])
    qed
  next
    case (10 f' sid v)
    let ?p = "\<lparr>upd_stream_id = sid, upd_field_value = v\<rparr>"
    have f': "ext_payload f' = priority_update ?p" "hd_type (frame_hd f') = NGHTTP2_PRIORITY_UPDATE" "4 + length v \<le> nghttp2_buf_avail (chunks bs ! 0)"
      using 10 assms(3) by (simp_all add: nghttp2_frame_priority_update_init_def nghttp2_frame_hd_init_def)
    have "\<exists>bs1. at_buf 0 (\<lambda>b. do {
       assert_that (4 + length (upd_field_value ?p) \<le> nghttp2_buf_avail b);
       b1 \<leftarrow> pack_hd_before (frame_hd f') b;
       put_be32 (word_of_int (upd_stream_id ?p)) b1
     }) bs = Some bs1 \<and> holds_frame bs h (be_bytes32 (word_of_int sid)) bs1"
      by (rule head) (use 10(2) f'(3) in \<open>simp_all add: puts_are_put\<close>)
    then obtain bs1 where bs1: "at_buf 0 (\<lambda>b. do {
       assert_that (4 + length (upd_field_value ?p) \<le> nghttp2_buf_avail b);
       b1 \<leftarrow> pack_hd_before (frame_hd f') b;
       put_be32 (word_of_int (upd_stream_id ?p)) b1
     }) bs = Some bs1" "holds_frame bs h (be_bytes32 (word_of_int sid)) bs1" by blast
    obtain bs2 where "nghttp2_bufs_add bs1 v = Some (bs2, 0)" "holds_frame bs h (be_bytes32 (word_of_int sid) @ v) bs2"
      using holds_more [OF bs1(2), of v] f'(3) by auto
    then show ?thesis using bs1(1) f'(1,2) 10(1,3) by (simp cong: if_cong add: nghttp2_frame_pack_priority_update_def)
  qed
qed

section \<open>Reading control frames\<close>

lemma get_be [simp]:
  "nghttp2_get_uint32 (be_bytes32 w @ xs) 0 = Some w" "nghttp2_get_uint32 (be_bytes32 w) 0 = Some w"
  "nghttp2_get_uint16 (be_bytes16 v @ xs) 0 = Some v"
  "nghttp2_get_uint32 (be_bytes32 u @ be_bytes32 w @ xs) 4 = Some w" "nghttp2_get_uint32 (be_bytes32 u @ be_bytes32 w) 4 = Some w"
  by (simp_all add: nghttp2_get_uint32_def nghttp2_get_uint16_def rd_block_def)

lemma top_bit_and: "0 < x AND 0x80 \<longleftrightarrow> bit (x :: u8) 7"
proof -
  have "x AND 0x80 = (if bit x 7 then 0x80 else 0)"
    by (rule bit_word_eqI) (auto simp: bit_and_iff bit_top simp del: bit_numeral_word_iff)
  then show ?thesis by simp
qed

lemma unpack_spec_bytes:
  assumes "spec_ok p"
  shows "nghttp2_frame_unpack_priority_spec (spec_bytes p @ rest) = Some p"
proof -
  let ?sid = "dep_stream_id p" and ?top = "if exclusive p \<noteq> 0 then 0x80000000 else 0 :: u32"
  have sid: "0 \<le> ?sid" "?sid < 2 ^ 31" using assms by (simp_all add: spec_ok_def id_ok_def)
  have small: "\<not> bit (word_of_int ?sid :: u32) 31"
  proof -
    have "uint (word_of_int ?sid :: u32) = ?sid" using sid by (simp add: unsigned_of_int take_bit_int_eq_self)
    then have "bit (word_of_int ?sid :: u32) 31 \<longleftrightarrow> bit ?sid 31" by (simp add: bit_word_of_int_iff)
    then show ?thesis using sid by (simp add: bit_iff_odd)
  qed
  have "(word_of_int ?sid OR ?top) AND 0x7fffffff = (word_of_int ?sid AND 0x7fffffff :: u32)"
  proof -
    have "(0x80000000 :: u32) AND 0x7fffffff = 0" by simp
    then show ?thesis by (simp add: and.commute bit.conj_disj_distrib del: word_and_def)
  qed
  then have id: "uint ((word_of_int ?sid OR ?top) AND 0x7fffffff) = ?sid" using id_masked [OF sid] by simp
  have x: "rd (spec_bytes p @ rest) 0 = Some (ucast (drop_bit 24 (word_of_int ?sid OR ?top)))"
    by (simp add: spec_bytes_def rd_def be_bytes32_def)
  have excl: "bit (ucast (drop_bit 24 (word_of_int ?sid OR ?top)) :: u8) 7 \<longleftrightarrow> exclusive p \<noteq> 0"
    using small by (simp add: bit_ucast_iff bit_drop_bit_eq bit_or_iff bit_top)
  have "uint (word_of_int (spec_weight p - 1) :: u8) + 1 = spec_weight p"
    using assms by (simp del: of_int_diff add: spec_ok_def unsigned_of_int take_bit_int_eq_self)
  moreover have "rd (spec_bytes p @ rest) 4 = Some (word_of_int (spec_weight p - 1))" by (simp add: spec_bytes_def rd_def nth_append)
  moreover have "exclusive p = (if exclusive p \<noteq> 0 then 1 else 0)"
    using assms by (cases "exclusive p = 0") (auto simp: spec_ok_def word_le_nat_alt word_unat_eq_iff le_Suc_eq)
  moreover have "nghttp2_get_uint32 (spec_bytes p @ rest) 0 = Some (word_of_int ?sid OR ?top)" by (simp add: spec_bytes_def)
  ultimately show ?thesis
    using id excl x unfolding nghttp2_frame_unpack_priority_spec_def top_bit_and nghttp2_priority_spec_init_def
    by (cases p) auto
qed

lemma unpack_entry:
  assumes "0 \<le> settings_id e" "settings_id e < 2 ^ 16" "length pre = i"
  shows "nghttp2_frame_unpack_settings_entry (pre @ entry_bytes e @ post) i = Some e"
proof -
  have "nghttp2_get_uint16 (pre @ entry_bytes e @ post) i = Some (word_of_int (settings_id e))"
    "nghttp2_get_uint32 (pre @ entry_bytes e @ post) (i + 2) = Some (settings_value e)"
    using assms(3) by (simp_all add: nghttp2_get_uint16_def nghttp2_get_uint32_def rd_block_def entry_bytes_def)
  then show ?thesis
    using assms by (simp add: nghttp2_frame_unpack_settings_entry_def unsigned_of_int take_bit_int_eq_self)
qed

lemma unpack_entries:
  assumes "\<forall>e \<in> set iv. 0 \<le> settings_id e \<and> settings_id e < 2 ^ 16"
  shows "those (map (\<lambda>i. nghttp2_frame_unpack_settings_entry (concat (map entry_bytes iv)) (i * 6)) [0..<length iv]) = Some iv"
proof -
  have "nghttp2_frame_unpack_settings_entry (concat (map entry_bytes iv)) (i * 6) = Some (iv ! i)" if "i < length iv" for i
  proof -
    have "concat (map entry_bytes iv) = concat (map entry_bytes (take i iv)) @ entry_bytes (iv ! i) @ concat (map entry_bytes (drop (Suc i) iv))"
      using that by (metis append_take_drop_id concat.simps(2) concat_append id_take_nth_drop list.simps(9) map_append)
    then show ?thesis using that assms unpack_entry [of "iv ! i" "concat (map entry_bytes (take i iv))" "i * 6"] by simp
  qed
  then have "map (\<lambda>i. nghttp2_frame_unpack_settings_entry (concat (map entry_bytes iv)) (i * 6)) [0..<length iv] = map Some iv"
    by (intro nth_equalityI) simp_all
  moreover have "those (map Some iv) = Some iv" by (induction iv) simp_all
  ultimately show ?thesis by (simp only:)
qed

text \<open>The entries of an ORIGIN payload, without the empty ones; \<open>None\<close> when it is malformed.\<close>

function origins_in :: "bytes \<Rightarrow> bytes list option" where
  "origins_in p =
     (if p = [] then Some []
      else if length p < 2 then None
      else
        (let n = unat (of_be16 (take 2 p)); q = drop 2 p in
         if length q < n then None
         else map_option (\<lambda>ov. if n = 0 then ov else take n q # ov) (origins_in (drop n q))))"
  by pat_completeness auto

termination by (relation "measure length") auto

declare count_origins.simps [simp del] copy_origins.simps [simp del] origins_in.simps [simp del]

definition copied_length :: "bytes list \<Rightarrow> nat" where
  "copied_length ov = sum_list (map (\<lambda>o'. length o' + 1) ov)"

lemma copied_length_simps [simp]: "copied_length [] = 0" "copied_length (o' # ov) = length o' + 1 + copied_length ov"
  by (simp_all add: copied_length_def)

lemma origins_nil [simp]: "copy_origins [] blk i = Some (blk, [])" "origins_in [] = Some []"
  by (simp_all add: copy_origins.simps [of "[]"] origins_in.simps [of "[]"])

lemma count_origins_exact:
  "count_origins p nov len = map_option (\<lambda>ov. (nov + length ov, len + copied_length ov)) (origins_in p)"
proof (induction p nov len rule: count_origins.induct)
  case (1 p nov len)
  let ?n = "unat (of_be16 (take 2 p))" and ?q = "drop 2 p"
  show ?case
  proof (cases "p = [] \<or> length p < 2 \<or> length ?q < ?n")
    case True
    then show ?thesis by (subst count_origins.simps, subst origins_in.simps) (auto simp: Let_def)
  next
    case False
    then have p: "p \<noteq> []" "\<not> length p < 2" "\<not> length ?q < ?n" by simp_all
    note unfold = count_origins.simps [of p nov len] origins_in.simps [of p]
    show ?thesis
    proof (cases "?n = 0")
      case True
      then show ?thesis using p 1(1) [OF p(1,2) refl refl True] by (simp add: unfold Let_def option.map_ident)
    next
      case n: False
      have "count_origins p nov len = count_origins (drop ?n ?q) (nov + 1) (len + (?n + 1))"
        using p n by (simp only: unfold Let_def if_False)
      moreover have "origins_in p = map_option (\<lambda>ov. take ?n ?q # ov) (origins_in (drop ?n ?q))"
        using p n by (simp only: unfold Let_def if_False)
      ultimately show ?thesis
        using p(3) 1(2) [OF p(1,2) refl refl n p(3)] by (simp add: option.map_comp comp_def add.assoc)
    qed
  qed
qed

lemma copy_origins_ok:
  assumes "origins_in p = Some ov" "i + copied_length ov \<le> length blk"
  shows "\<exists>blk' es. copy_origins p blk i = Some (blk', es) \<and> length blk' = length blk \<and> take i blk' = take i blk \<and>
    length es = length ov \<and> those (map (\<lambda>(j, n). rd_block blk' j n) es) = Some ov"
  using assms
proof (induction p blk i arbitrary: ov rule: copy_origins.induct)
  case (1 p blk i)
  let ?n = "unat (of_be16 (take 2 p))" and ?q = "drop 2 p"
  show ?case
  proof (cases "p = []")
    case True
    then show ?thesis using 1(3) by simp
  next
    case p: False
    have p2: "\<not> length p < 2" and q: "\<not> length ?q < ?n"
      using 1(3) p by (auto simp: origins_in.simps [of p] Let_def split: if_splits)
    obtain ov' where ov': "origins_in (drop ?n ?q) = Some ov'" "ov = (if ?n = 0 then ov' else take ?n ?q # ov')"
      using 1(3) p p2 q by (auto simp: origins_in.simps [of p] Let_def)
    show ?thesis
    proof (cases "?n = 0")
      case True
      have "copy_origins p blk i = copy_origins ?q blk i" using p p2 True by (subst copy_origins.simps) (simp add: Let_def)
      then show ?thesis using 1(1) [OF p p2 refl refl True, of ov] 1(4) ov' True by auto
    next
      case False
      let ?b1 = "take i blk @ take ?n ?q @ drop (i + ?n) blk"
      have fits: "i + ?n + 1 + copied_length ov' \<le> length blk" using 1(4) ov'(2) False q by simp
      let ?b2 = "?b1[i + ?n := 0]"
      have b1: "nghttp2_cpymem blk i (take ?n ?q) = Some (?b1, i + ?n)"
        using fits False q by (auto simp: nghttp2_cpymem_def)
      have b2: "wr ?b1 (i + ?n) 0 = Some ?b2" "length ?b2 = length blk" using fits q by simp_all
      obtain b3 es where r: "copy_origins (drop ?n ?q) ?b2 (i + ?n + 1) = Some (b3, es)" "length b3 = length ?b2"
        "take (i + ?n + 1) b3 = take (i + ?n + 1) ?b2" "length es = length ov'"
        "those (map (\<lambda>(j, n). rd_block b3 j n) es) = Some ov'"
        using 1(2) [OF p p2 refl refl False q b1 refl b2(1) ov'(1)] fits b2(2) by auto
      have copy: "copy_origins p blk i = Some (b3, (i, ?n) # es)"
        using p p2 False q b1 b2(1) r(1) by (subst copy_origins.simps) (simp add: Let_def)
      have "take (i + ?n) b3 = take (i + ?n) ?b1"
        using arg_cong [OF r(3), of "take (i + ?n)"] by (simp add: min_def)
      also have "\<dots> = take i blk @ take ?n ?q" using fits q by simp
      finally have b3: "take (i + ?n) b3 = take i blk @ take ?n ?q" .
      have "rd_block b3 i ?n = Some (take ?n ?q)"
        using arg_cong [OF b3, of "drop i"] fits r(2) b2(2) by (simp add: rd_block_def drop_take)
      moreover have "take i b3 = take i blk"
        using arg_cong [OF b3, of "take i"] fits by (simp add: min_def)
      ultimately show ?thesis using copy r(2,4,5) b2(2) ov'(2) False by simp
    qed
  qed
qed

lemma unpack_origin_exact:
  "nghttp2_frame_unpack_origin_payload f p m =
     (case origins_in p of
        None \<Rightarrow> Some (f, m, NGHTTP2_ERR_FRAME_SIZE_ERROR)
      | Some ov \<Rightarrow>
          if ov = [] then Some (f\<lparr>ext_payload := origin []\<rparr>, m, 0)
          else (case nghttp2_mem_malloc m of
                  (False, m1) \<Rightarrow> Some (f, m1, NGHTTP2_ERR_NOMEM)
                | (True, m1) \<Rightarrow> Some (f\<lparr>ext_payload := origin ov\<rparr>, m1, 0)))"
proof (cases "origins_in p")
  case (Some ov)
  obtain blk es where "copy_origins p (map (mem_fill m) [0..<copied_length ov]) 0 = Some (blk, es)" "length es = length ov"
    "those (map (\<lambda>(j, n). rd_block blk j n) es) = Some ov"
    using copy_origins_ok [OF Some, of 0 "map (mem_fill m) [0..<copied_length ov]"] by auto
  then show ?thesis
    using Some by (auto simp: nghttp2_frame_unpack_origin_payload_def count_origins_exact split: prod.splits bool.splits)
qed (simp add: nghttp2_frame_unpack_origin_payload_def count_origins_exact)

lemma origins_in_bytes: "\<forall>o' \<in> set ov. o' \<noteq> [] \<and> length o' < 2 ^ 16 \<Longrightarrow> origins_in (concat (map origin_bytes ov)) = Some ov"
proof (induction ov)
  case Nil
  then show ?case by (simp add: origins_in.simps)
next
  case (Cons o' ov)
  have "unat (word_of_nat (length o') :: u16) = length o'" using Cons.prems by (simp add: word_of_nat_unat_le)
  moreover have "length o' \<noteq> 0" using Cons.prems by simp
  ultimately show ?case using Cons by (subst origins_in.simps) (simp add: origin_bytes_def [of o'] Let_def)
qed

lemma control_hd:
  "control_frame f h p \<Longrightarrow> h = nghttp2_frame_hd_init (length p) (hd_type h) (hd_flags h) (hd_stream_id h) \<and> id_ok (hd_stream_id h)"
  by (frule control_length, induction rule: control_frame.induct)
    (auto simp: nghttp2_frame_priority_init_def nghttp2_frame_rst_stream_init_def nghttp2_frame_settings_init_def
      nghttp2_frame_ping_init_def nghttp2_frame_goaway_init_def nghttp2_frame_window_update_init_def
      nghttp2_frame_altsvc_init_def nghttp2_frame_origin_init_def nghttp2_frame_priority_update_init_def
      nghttp2_frame_hd_init_def id_ok_def split: bind_splits)

lemma malloc_all: "all_succeed m \<Longrightarrow> \<exists>m'. nghttp2_mem_malloc m = (True, m')"
  by (cases "mem_answers m") (auto simp: all_succeed_def nghttp2_mem_malloc_def mem_alloc_def)

lemma unpack_control_ok:
  assumes f: "control_frame f h p" and len: "length p < 2 ^ 24" and m: "all_succeed m"
  shows "unpack_control m (hd_bytes (hd_length h) (hd_type h) (hd_flags h) (hd_stream_id h) @ p) = Some f"
proof -
  obtain m' where m': "nghttp2_mem_malloc m = (True, m')" using malloc_all [OF m] by blast
  let ?x = "hd_bytes (hd_length h) (hd_type h) (hd_flags h) (hd_stream_id h) @ p"
  have h: "nghttp2_frame_unpack_frame_hd ?x 0 = Some h" "take (hd_length h) (drop 9 ?x) = p"
    using unpack_hd_bytes [of "length p" "hd_stream_id h" "hd_type h" "hd_flags h" p] control_hd [OF f] control_length [OF f] len
    by (auto simp: id_ok_def)
  note inits = nghttp2_frame_hd_init_def unpack_control_def h(1) Let_def h(2)
  from f show ?thesis
  proof (cases rule: control_frame.cases)
    case (1 f' sid p')
    then have "hd_type h = NGHTTP2_PRIORITY" by (simp add: nghttp2_frame_priority_init_def nghttp2_frame_hd_init_def)
    then show ?thesis
      using 1 h unpack_spec_bytes [OF 1(6), of "[]"]
      by (simp add: unpack_control_def nghttp2_frame_unpack_priority_payload_def nghttp2_frame_priority_init_def)
  next
    case (2 f' sid c)
    then have "hd_type h = NGHTTP2_RST_STREAM" by (simp add: nghttp2_frame_rst_stream_init_def nghttp2_frame_hd_init_def)
    then show ?thesis
      using 2 h by (simp add: unpack_control_def nghttp2_frame_unpack_rst_stream_payload_def nghttp2_frame_rst_stream_init_def)
  next
    case (3 f' fl iv)
    then have "hd_type h = NGHTTP2_SETTINGS" by (simp add: nghttp2_frame_settings_init_def nghttp2_frame_hd_init_def)
    moreover have "map_option fst (nghttp2_frame_unpack_settings_payload2 p m) = Some iv"
      using unpack_entries [OF 3(5)] m' 3(3) by (simp add: nghttp2_frame_unpack_settings_payload2_def)
    ultimately show ?thesis
      using 3 h by (auto simp: unpack_control_def nghttp2_frame_unpack_settings_payload_def nghttp2_frame_settings_init_def)
  next
    case (4 fl f')
    then have "hd_type h = NGHTTP2_PING" "ping_opaque_data f' = p"
      by (auto simp: nghttp2_frame_ping_init_def nghttp2_frame_hd_init_def rd_block_def)
    then show ?thesis
      using 4 h by (cases f') (simp add: unpack_control_def nghttp2_frame_unpack_ping_payload_def rd_block_def)
  next
    case (5 fl f')
    then have "hd_type h = NGHTTP2_PING" "ping_opaque_data f' = p"
      by (auto simp: nghttp2_frame_ping_init_def nghttp2_frame_hd_init_def)
    then show ?thesis
      using 5 h by (cases f') (simp add: unpack_control_def nghttp2_frame_unpack_ping_payload_def rd_block_def)
  next
    case (6 f' sid c d)
    then have "hd_type h = NGHTTP2_GOAWAY" by (simp add: nghttp2_frame_goaway_init_def nghttp2_frame_hd_init_def)
    moreover have "uint ((word_of_int sid :: u32) AND 0x7fffffff) = sid" using 6(5) id_masked by (simp add: id_ok_def)
    ultimately show ?thesis
      using 6 h m' by (cases "d = []") (simp_all add: unpack_control_def nghttp2_frame_unpack_goaway_payload2_def nghttp2_frame_unpack_goaway_payload_def
          nghttp2_frame_goaway_init_def)
  next
    case (7 f' fl sid n)
    then have "hd_type h = NGHTTP2_WINDOW_UPDATE" by (simp add: nghttp2_frame_window_update_init_def nghttp2_frame_hd_init_def)
    moreover have "uint ((word_of_int n :: u32) AND 0x7fffffff) = n" using 7(6) id_masked by (simp add: id_ok_def)
    ultimately show ?thesis
      using 7 h by (simp add: unpack_control_def nghttp2_frame_unpack_window_update_payload_def nghttp2_frame_window_update_init_def)
  next
    case (8 f' sid o' v)
    then have "hd_type h = NGHTTP2_ALTSVC" by (simp add: nghttp2_frame_altsvc_init_def nghttp2_frame_hd_init_def)
    moreover have "unat (word_of_nat (length o') :: u16) = length o'" using 8(6) by (simp add: word_of_nat_unat_le)
    ultimately show ?thesis
      using 8 h m' by (simp add: unpack_control_def nghttp2_frame_unpack_altsvc_payload2_def nghttp2_frame_unpack_altsvc_payload_def
          nghttp2_frame_altsvc_init_def origin_bytes_def)
  next
    case (9 f' ov)
    then have "hd_type h = NGHTTP2_ORIGIN" by (simp add: nghttp2_frame_origin_init_def nghttp2_frame_hd_init_def)
    moreover have "map_option fst (nghttp2_frame_unpack_origin_payload \<lparr>frame_hd = h, ext_payload = origin []\<rparr> p m) =
        Some \<lparr>frame_hd = h, ext_payload = origin ov\<rparr>"
      using origins_in_bytes [OF 9(5)] m' 9(3) by (simp add: unpack_origin_exact)
    ultimately show ?thesis
      using 9 h by (auto simp: unpack_control_def nghttp2_frame_origin_init_def)
  next
    case (10 f' sid v)
    then have "hd_type h = NGHTTP2_PRIORITY_UPDATE" by (simp add: nghttp2_frame_priority_update_init_def nghttp2_frame_hd_init_def)
    moreover have "uint ((word_of_int sid :: u32) AND 0x7fffffff) = sid" using 10(5) id_masked by (simp add: id_ok_def)
    ultimately show ?thesis
      using 10 h by (simp add: unpack_control_def nghttp2_frame_unpack_priority_update_payload_def nghttp2_frame_priority_update_init_def)
  qed
qed

text \<open>
  C6. A control frame, made with the library's own functions and packed into a fresh chain with room
  for it, is on the wire as the protocol says: a header with the length of 24 bits, type, flags and
  stream, and the payload. Who takes the header and the payload apart gets the same frame.
\<close>

theorem frames_roundtrip:
  assumes "control_frame f h p" "fresh bs" "length p \<le> nghttp2_buf_avail (chunks bs ! 0)" "length p < 2 ^ 24" "all_succeed m"
  shows "\<exists>bs'. pack_control bs f = Some (bs', 0) \<and>
    content bs' = hd_bytes (length p) (hd_type h) (hd_flags h) (hd_stream_id h) @ p \<and> unpack_control m (content bs') = Some f"
  using pack_control_ok [OF assms(1-3)] unpack_control_ok [OF assms(1,4,5)] control_length [OF assms(1)]
  by (auto simp: holds_frame_def)


lemma init_fresh:
  assumes "nghttp2_bufs_init3 len mx kp off m = (r, m', rv)" "all_succeed m" "0 < kp" "kp \<le> mx" "9 \<le> off" "off < len"
  shows "\<exists>bs. r = Some bs \<and> fresh bs \<and> roomy bs \<and> sized bs \<and> chunk_length bs = len \<and> bufs_offset bs = off \<and>
    length (chunks bs) = 1 \<and> buf_pos (chunks bs ! 0) = off \<and> nghttp2_buf_avail (chunks bs ! 0) = len - off"
proof -
  obtain bs where bs: "r = Some bs" "bufs_ok bs" "sized bs" "roomy bs" "content bs = []" "chunk_length bs = len" "bufs_offset bs = off"
    using init3_cases [OF assms(1)] assms(2-6) by (cases r) (auto simp: all_succeed_def)
  obtain b m1 rv1 where b: "buf_chain_new len m = (b, m1, rv1)" by (cases "buf_chain_new len m")
  then obtain c where c: "b = Some c" "buf_pos c = 0" "buf_last c = 0" "length (bytes_of c) = len"
    using buf_chain_new_cases [OF b] assms(1) bs(1) assms(3-6) by (auto simp: nghttp2_bufs_init3_def split: if_splits)
  then have "chunks bs = [nghttp2_buf_shift_right off c]" "bufs_cur bs = 0"
    using assms(1) bs(1) b assms(3-6) by (auto simp: nghttp2_bufs_init3_def)
  then show ?thesis
    using bs c assms(5) by (simp add: fresh_def nghttp2_buf_shift_right_def nghttp2_buf_avail_def nghttp2_buf_cap_def)
qed

theorem frames_roundtrip_witness:
  "let m = \<lparr>mem_answers = [], mem_fill = \<lambda>_. 0, mem_live = 0\<rparr>;
     f = nghttp2_frame_settings_init 0 [\<lparr>settings_id = 4, settings_value = 0xFFFF\<rparr>] in
   \<exists>bs bs'. fst (nghttp2_bufs_init3 100 2 1 10 m) = Some bs \<and> pack_control bs (settings f) = Some (bs', 0) \<and>
     content bs' = [0, 0, 6, 4, 0, 0, 0, 0, 0, 0, 4, 0, 0, 0xFF, 0xFF] \<and> unpack_control m (content bs') = Some (settings f)"
proof -
  define m where "m = \<lparr>mem_answers = [], mem_fill = \<lambda>_. 0 :: u8, mem_live = 0\<rparr>"
  define f where "f = nghttp2_frame_settings_init 0 [\<lparr>settings_id = 4, settings_value = 0xFFFF\<rparr>]"
  have mem: "all_succeed m" by (simp add: m_def all_succeed_def)
  obtain r m' rv where i: "nghttp2_bufs_init3 100 2 1 10 m = (r, m', rv)" by (cases "nghttp2_bufs_init3 100 2 1 10 m")
  then obtain bs where bs: "r = Some bs" "fresh bs" "nghttp2_buf_avail (chunks bs ! 0) = 90" using init_fresh [OF i mem] by auto
  have f: "control_frame (settings f) (frame_hd f) (concat (map entry_bytes [\<lparr>settings_id = 4, settings_value = 0xFFFF\<rparr>]))"
    by (rule control_frame.intros(3) [OF f_def]) simp
  have bytes: "hd_bytes 6 4 0 0 @ concat (map entry_bytes [\<lparr>settings_id = 4, settings_value = 0xFFFF\<rparr>]) =
      [0, 0, 6, 4, 0, 0, 0, 0, 0, 0, 4, 0, 0, 0xFF, 0xFF]"
    by (simp add: hd_bytes_def entry_bytes_def be_bytes16_def be_bytes32_def)
  have h: "hd_type (frame_hd f) = 4" "hd_flags (frame_hd f) = 0" "hd_stream_id (frame_hd f) = 0"
    by (simp_all add: f_def nghttp2_frame_settings_init_def nghttp2_frame_hd_init_def)
  have "\<exists>bs'. pack_control bs (settings f) = Some (bs', 0) \<and>
      content bs' = [0, 0, 6, 4, 0, 0, 0, 0, 0, 0, 4, 0, 0, 0xFF, 0xFF] \<and> unpack_control m (content bs') = Some (settings f)"
    using frames_roundtrip [OF f bs(2) _ _ mem] bs(3) bytes h by simp
  then show ?thesis unfolding m_def [symmetric] f_def [symmetric] Let_def using i bs(1) by auto
qed


section \<open>The order of header fields\<close>

lemma bytes_compar_Cons [simp]:
  "bytes_compar (x # xs) (y # ys) = (if x < y then -1 else if y < x then 1 else bytes_compar xs ys)"
  by (auto simp: bytes_compar_def Let_def)

lemma bytes_compar_Nil [simp]: "bytes_compar [] [] = 0" "bytes_compar [] (y # ys) = -1" "bytes_compar (x # xs) [] = 1"
  by (simp_all add: bytes_compar_def)

lemma bytes_compar_lex: "bytes_compar a b = (if a = b then 0 else if ord_class.lexordp a b then -1 else 1)"
proof (induction a arbitrary: b)
  case Nil
  then show ?case by (cases b) simp_all
next
  case (Cons x xs)
  then show ?case by (cases b) auto
qed

text \<open>The array is put in the order of names and, for one name, of values; the order is total, so
  however it is sorted, the sequence of names and values is the same.\<close>

definition nv_key :: "nghttp2_nv \<Rightarrow> bytes \<times> bytes" where
  "nv_key nv = (h_name nv, h_value nv)"

lemma nv_compar_eq: "nv_compar a b = 0 \<longleftrightarrow> nv_key a = nv_key b"
  by (auto simp: nv_compar_def nv_key_def bytes_compar_lex)

lemma nv_compar_trans: "nv_compar a b \<le> 0 \<Longrightarrow> nv_compar b c \<le> 0 \<Longrightarrow> nv_compar a c \<le> 0"
  by (auto simp: nv_compar_def bytes_compar_lex Let_def split: if_splits dest: lexordp_trans lexordp_antisym)

lemma nv_compar_total: "nv_compar a b \<le> 0 \<or> nv_compar b a \<le> 0"
  using lexordp_linear [of "h_name a" "h_name b"] lexordp_linear [of "h_value a" "h_value b"]
  by (auto simp: nv_compar_def bytes_compar_lex Let_def split: if_splits)

lemma sorted_unique:
  assumes "sorted_wrt R xs" "sorted_wrt R ys" "mset xs = mset ys" "\<And>x y. R x y \<Longrightarrow> R y x \<Longrightarrow> x = y"
  shows "xs = ys"
  using assms(1-3)
proof (induction xs arbitrary: ys)
  case (Cons x xs)
  then obtain y zs where ys: "ys = y # zs" by (cases ys) auto
  have "x \<in> set ys" "y \<in> set (x # xs)" using Cons.prems(3) ys mset_eq_setD by (metis list.set_intros(1))+
  then have "x = y" using Cons.prems(1,2) ys assms(4) by auto
  then show ?case using Cons.IH [of zs] Cons.prems ys by auto
qed simp

lemma sort_unique:
  assumes "nghttp2_nv_array_sort nva xs" "nghttp2_nv_array_sort nva ys"
  shows "map nv_key xs = map nv_key ys"
proof -
  define R where "R k l \<longleftrightarrow> (let rv = bytes_compar (fst k) (fst l) in if rv = 0 then bytes_compar (snd k) (snd l) else rv) \<le> 0" for k l
  have le: "nv_compar a b \<le> 0 \<longleftrightarrow> R (nv_key a) (nv_key b)" for a b by (simp add: R_def nv_compar_def nv_key_def Let_def)
  have anti: "k = l" if "R k l" "R l k" for k l
    using that lexordp_antisym by (cases k; cases l) (auto simp: R_def bytes_compar_lex Let_def split: if_splits)
  have "mset (map nv_key xs) = mset (map nv_key ys)" using assms by (simp add: nghttp2_nv_array_sort_def)
  then show ?thesis
    using assms by (intro sorted_unique [of R, OF _ _ _ anti]) (simp_all add: nghttp2_nv_array_sort_def sorted_wrt_map le)
qed

section \<open>Copies of header fields\<close>

text \<open>A copied string lies in the block with a NUL behind it.\<close>

definition string_copied :: "bytes \<Rightarrow> u8 \<Rightarrow> u8 \<Rightarrow> bytes \<Rightarrow> bytes \<Rightarrow> nv_string \<Rightarrow> bool" where
  "string_copied blk flags no_copy s t r \<longleftrightarrow>
     (if flags AND no_copy \<noteq> 0 then r = Given s
      else \<exists>i. r = Copied i (length s) \<and> rd_block blk i (length s) = Some t \<and> rd blk (i + length s) = Some 0)"

definition field_copied :: "bytes \<Rightarrow> nghttp2_nv \<Rightarrow> nv_copy \<Rightarrow> bool" where
  "field_copied blk nv p \<longleftrightarrow> copy_flags p = h_flags nv \<and>
     string_copied blk (h_flags nv) NGHTTP2_NV_FLAG_NO_COPY_NAME (h_name nv) (nghttp2_downcase (h_name nv)) (copy_name p) \<and>
     string_copied blk (h_flags nv) NGHTTP2_NV_FLAG_NO_COPY_VALUE (h_value nv) (h_value nv) (copy_value p)"

text \<open>The part of the block up to \<open>i\<close> is settled.\<close>

definition settled :: "nat \<Rightarrow> bytes \<Rightarrow> bytes \<Rightarrow> bool" where
  "settled i b b' \<longleftrightarrow> length b' = length b \<and> take i b' = take i b"

lemma settled_trans: "settled i a b \<Longrightarrow> settled j b c \<Longrightarrow> i \<le> j \<Longrightarrow> settled i a c"
  unfolding settled_def by (metis min.absorb1 take_take)

lemma settled_rd:
  assumes "settled j b b'"
  shows "k < j \<Longrightarrow> rd b' k = rd b k" "k + n \<le> j \<Longrightarrow> rd_block b' k n = rd_block b k n"
proof -
  have l: "length b' = length b" and t: "take j b' = take j b" using assms by (simp_all add: settled_def)
  show "k < j \<Longrightarrow> rd b' k = rd b k" using l arg_cong [OF t, of "\<lambda>x. x ! k"] by (simp add: rd_def)
  show "rd_block b' k n = rd_block b k n" if "k + n \<le> j"
  proof -
    have "take (k + n) b' = take (k + n) b" using arg_cong [OF t, of "take (k + n)"] that by (simp add: min_def)
    then have "drop k (take (k + n) b') = drop k (take (k + n) b)" by (rule arg_cong)
    then have "take n (drop k b') = take n (drop k b)" by (simp add: drop_take)
    then show ?thesis using l by (simp add: rd_block_def)
  qed
qed

lemma string_copied_later:
  assumes "string_copied b flags no_copy s t r" "settled j b b'" "\<And>i n. r = Copied i n \<Longrightarrow> i + n < j"
  shows "string_copied b' flags no_copy s t r"
  using assms settled_rd [OF assms(2)] unfolding string_copied_def by (metis less_imp_le)

text \<open>What a string takes in the block, without a bound.\<close>

definition string_room :: "u8 \<Rightarrow> u8 \<Rightarrow> bytes \<Rightarrow> nat" where
  "string_room flags no_copy s = (if flags AND no_copy = 0 then length s + 1 else 0)"

lemma copied_room_word: "copied_room flags no_copy s = word_of_nat (string_room flags no_copy s)"
  by (simp add: copied_room_def string_room_def)

lemma copy_string_ok:
  assumes "i + string_room flags no_copy s \<le> length blk" "length (g s) = length s"
  shows "\<exists>r b. copy_string flags no_copy s g blk i = Some (r, b, i + string_room flags no_copy s) \<and> settled i blk b \<and>
    string_copied b flags no_copy s (g s) r \<and> (\<forall>k n. r = Copied k n \<longrightarrow> k + n < i + string_room flags no_copy s)"
proof (cases "flags AND no_copy = 0")
  case False
  then show ?thesis by (simp add: copy_string_def string_room_def string_copied_def settled_def)
next
  case True
  have fits: "i + length s + 1 \<le> length blk" using assms(1) True by (simp add: string_room_def)
  obtain c where c: "drop (i + length s) blk = c # drop (i + length s + 1) blk"
    using fits by (metis Cons_nth_drop_Suc Suc_eq_plus1 less_eq_Suc_le)
  let ?R = "drop (i + length s + 1) blk" and ?A = "take i blk"
  have A: "length ?A = i" using fits by simp
  have b1: "wr_block blk i s = Some (?A @ s @ c # ?R)" using fits c by (simp add: wr_block_def)
  have b2: "wr (?A @ s @ c # ?R) (i + length s) 0 = Some (?A @ s @ 0 # ?R)"
    using A by (simp add: wr_def list_update_append)
  have x: "rd_block (?A @ s @ 0 # ?R) i (length s) = Some s" by (rule rd_block_append [OF A refl])
  have b3: "wr_block (?A @ s @ 0 # ?R) i (g s) = Some (?A @ g s @ 0 # ?R)"
    using A assms(2) by (simp add: wr_block_def)
  have "copy_string flags no_copy s g blk i = Some (Copied i (length s), ?A @ g s @ 0 # ?R, i + length s + 1)"
    using True b1 b2 x b3 by (simp add: copy_string_def)
  moreover have "settled i blk (?A @ g s @ 0 # ?R)" using fits assms(2) by (simp add: settled_def)
  moreover have "rd_block (?A @ g s @ 0 # ?R) i (length s) = Some (g s)" by (rule rd_block_append [OF A assms(2)])
  moreover have "rd (?A @ g s @ 0 # ?R) (i + length s) = Some 0" using A assms(2) by (simp add: rd_def nth_append)
  ultimately show ?thesis using True by (simp add: string_room_def string_copied_def)
qed

text \<open>A string that does not fit is written outside the block.\<close>

lemma copy_string_outside:
  "i \<le> length blk \<Longrightarrow> length blk < i + string_room flags no_copy s \<Longrightarrow> copy_string flags no_copy s g blk i = None"
  by (auto simp: copy_string_def string_room_def wr_block_def wr_def split: if_splits)

abbreviation name_room :: "nghttp2_nv \<Rightarrow> nat" where
  "name_room nv \<equiv> string_room (h_flags nv) NGHTTP2_NV_FLAG_NO_COPY_NAME (h_name nv)"

abbreviation value_room :: "nghttp2_nv \<Rightarrow> nat" where
  "value_room nv \<equiv> string_room (h_flags nv) NGHTTP2_NV_FLAG_NO_COPY_VALUE (h_value nv)"

definition fields_room :: "nghttp2_nv list \<Rightarrow> nat" where
  "fields_room nva = sum_list (map (\<lambda>nv. name_room nv + value_room nv) nva)"

lemma copy_fields_ok:
  "i + fields_room nva \<le> length blk \<Longrightarrow> p + sizeof_nv * length nva \<le> length blk \<Longrightarrow>
   \<exists>ps b. copy_fields nva blk p i = Some (ps, b) \<and> settled i blk b \<and> list_all2 (field_copied b) nva ps"
proof (induction nva arbitrary: blk p i)
  case Nil
  then show ?case by (simp add: settled_def)
next
  case (Cons nv nva)
  let ?n = "name_room nv" and ?v = "value_room nv"
  have room: "i + ?n + ?v + fields_room nva \<le> length blk" using Cons.prems by (simp add: fields_room_def)
  obtain n b1 where n: "copy_string (h_flags nv) NGHTTP2_NV_FLAG_NO_COPY_NAME (h_name nv) nghttp2_downcase blk i = Some (n, b1, i + ?n)"
    "settled i blk b1" "string_copied b1 (h_flags nv) NGHTTP2_NV_FLAG_NO_COPY_NAME (h_name nv) (nghttp2_downcase (h_name nv)) n"
    "\<And>k l. n = Copied k l \<Longrightarrow> k + l < i + ?n"
    using copy_string_ok [of i "h_flags nv" NGHTTP2_NV_FLAG_NO_COPY_NAME "h_name nv" blk nghttp2_downcase] room
    by (auto simp: nghttp2_downcase_def)
  have l1: "length b1 = length blk" using n(2) by (simp add: settled_def)
  obtain v b2 where v: "copy_string (h_flags nv) NGHTTP2_NV_FLAG_NO_COPY_VALUE (h_value nv) (\<lambda>x. x) b1 (i + ?n) = Some (v, b2, i + ?n + ?v)"
    "settled (i + ?n) b1 b2" "string_copied b2 (h_flags nv) NGHTTP2_NV_FLAG_NO_COPY_VALUE (h_value nv) (h_value nv) v"
    "\<And>k l. v = Copied k l \<Longrightarrow> k + l < i + ?n + ?v"
    using copy_string_ok [of "i + ?n" "h_flags nv" NGHTTP2_NV_FLAG_NO_COPY_VALUE "h_value nv" b1 "\<lambda>x. x"] room l1 by auto
  have l2: "length b2 = length blk" using v(2) l1 by (simp add: settled_def)
  obtain ps b3 where r: "copy_fields nva b2 (p + sizeof_nv) (i + ?n + ?v) = Some (ps, b3)" "settled (i + ?n + ?v) b2 b3" "list_all2 (field_copied b3) nva ps"
    using Cons.IH [of "i + ?n + ?v" b2 "p + sizeof_nv"] Cons.prems(2) room l2 by auto
  have "string_copied b3 (h_flags nv) NGHTTP2_NV_FLAG_NO_COPY_NAME (h_name nv) (nghttp2_downcase (h_name nv)) n"
    using string_copied_later [OF n(3) settled_trans [OF v(2) r(2)]] n(4) by simp
  moreover have "string_copied b3 (h_flags nv) NGHTTP2_NV_FLAG_NO_COPY_VALUE (h_value nv) (h_value nv) v"
    using string_copied_later [OF v(3) r(2)] v(4) by blast
  moreover have "settled i blk b3"
    using settled_trans [OF n(2) settled_trans [OF v(2) r(2)]] by simp
  ultimately show ?case using n(1) v(1) r(1,3) Cons.prems(2) by (simp add: field_copied_def [of _ nv])
qed

text \<open>When the block is too small for the array or for the strings, something is written outside it.\<close>

lemma array_outside:
  "nva \<noteq> [] \<Longrightarrow> length blk < p + sizeof_nv * length nva \<Longrightarrow> copy_fields nva blk p i = None"
proof (induction nva arbitrary: blk p i)
  case (Cons nv nva)
  have kept: "length b = length blk" if "copy_string f c s g blk i = Some (r, b, j)" for f c s g r b j blk i
    using that by (auto simp: copy_string_def bind_eq_Some_conv wr_eq_Some_iff dest!: length_wr_block split: if_splits)
  show ?case
  proof (cases "length blk < p + sizeof_nv \<or> copy_string (h_flags nv) NGHTTP2_NV_FLAG_NO_COPY_NAME (h_name nv) nghttp2_downcase blk i = None")
    case False
    then obtain n b1 j where n: "\<not> length blk < p + sizeof_nv"
        "copy_string (h_flags nv) NGHTTP2_NV_FLAG_NO_COPY_NAME (h_name nv) nghttp2_downcase blk i = Some (n, b1, j)"
      by auto
    show ?thesis
    proof (cases "copy_string (h_flags nv) NGHTTP2_NV_FLAG_NO_COPY_VALUE (h_value nv) (\<lambda>x. x) b1 j")
      case (Some r)
      then obtain v b2 k where v: "copy_string (h_flags nv) NGHTTP2_NV_FLAG_NO_COPY_VALUE (h_value nv) (\<lambda>x. x) b1 j = Some (v, b2, k)"
        by (cases r) auto
      have "length b2 = length blk" using kept [OF n(2)] kept [OF v] by simp
      moreover have "nva \<noteq> []" using Cons.prems(2) n(1) by auto
      ultimately have "copy_fields nva b2 (p + sizeof_nv) k = None" using Cons.IH Cons.prems(2) by simp
      then show ?thesis using n v by simp
    qed (use n in simp)
  qed auto
qed simp

lemma strings_outside:
  "i \<le> length blk \<Longrightarrow> length blk < i + fields_room nva \<Longrightarrow> copy_fields nva blk p i = None"
proof (induction nva arbitrary: blk p i)
  case (Cons nv nva)
  let ?n = "name_room nv" and ?v = "value_room nv"
  show ?case
  proof (cases "i + ?n \<le> length blk")
    case False
    then show ?thesis using copy_string_outside [OF Cons.prems(1)] by simp
  next
    case n: True
    obtain r b1 where b1: "copy_string (h_flags nv) NGHTTP2_NV_FLAG_NO_COPY_NAME (h_name nv) nghttp2_downcase blk i = Some (r, b1, i + ?n)"
        "length b1 = length blk"
      using copy_string_ok [OF n, of nghttp2_downcase] by (auto simp: nghttp2_downcase_def settled_def)
    show ?thesis
    proof (cases "i + ?n + ?v \<le> length blk")
      case False
      then show ?thesis using copy_string_outside [of "i + ?n" b1] n b1 by simp
    next
      case v: True
      then obtain s b2 where b2: "copy_string (h_flags nv) NGHTTP2_NV_FLAG_NO_COPY_VALUE (h_value nv) (\<lambda>x. x) b1 (i + ?n) = Some (s, b2, i + ?n + ?v)"
          "length b2 = length blk"
        using copy_string_ok [of "i + ?n" _ _ "h_value nv" b1 "\<lambda>x. x"] b1 by (fastforce simp: settled_def)
      have "copy_fields nva b2 (p + sizeof_nv) (i + ?n + ?v) = None"
        using Cons.IH [of "i + ?n + ?v" b2] v b2 Cons.prems(2) by (simp add: fields_room_def)
      then show ?thesis using b1 b2 by simp
    qed
  qed
qed (simp add: fields_room_def)

text \<open>The size of the block as it should be: the array and the strings.\<close>

definition block_size :: "nghttp2_nv list \<Rightarrow> nat" where
  "block_size nva = sizeof_nv * length nva + fields_room nva"

lemma fold_room:
  "foldl (\<lambda>n nv. n + copied_room (h_flags nv) NGHTTP2_NV_FLAG_NO_COPY_NAME (h_name nv) +
     copied_room (h_flags nv) NGHTTP2_NV_FLAG_NO_COPY_VALUE (h_value nv)) (word_of_nat k) nva = word_of_nat (k + fields_room nva)"
proof (induction nva arbitrary: k)
  case (Cons nv nva)
  have "word_of_nat k + copied_room (h_flags nv) NGHTTP2_NV_FLAG_NO_COPY_NAME (h_name nv) +
      copied_room (h_flags nv) NGHTTP2_NV_FLAG_NO_COPY_VALUE (h_value nv) = word_of_nat (k + name_room nv + value_room nv)"
    by (simp add: copied_room_word)
  then show ?case using Cons.IH [of "k + name_room nv + value_room nv"] by (simp add: fields_room_def add.assoc)
qed (simp add: fields_room_def)

text \<open>
  C40. The copy of an array of header fields is safe exactly while its size can be computed. When the
  array and the strings take less than \<open>2 ^ 32\<close> bytes, the copy stays inside its one block, whose size
  was computed in a separate pass, and leaves every string as it should be: names in lower case, values
  as they were, each with a NUL behind it; strings whose flag forbids it are not copied. The only error
  is the lack of memory, and then nothing is left allocated. From \<open>2 ^ 32\<close> bytes on the size wraps
  around, and the copy writes outside the block it was given.
\<close>

theorem nv_array_copy_safe:
  "if block_size nva < 2 ^ 32
   then \<exists>r m' rv. nghttp2_nv_array_copy nva m = Some (r, m', rv) \<and>
     (case r of
        None \<Rightarrow> mem_live m' = mem_live m \<and> (rv = 0 \<and> nva = [] \<or> rv = NGHTTP2_ERR_NOMEM \<and> \<not> all_succeed m)
      | Some (ps, blk) \<Rightarrow> rv = 0 \<and> mem_live m' = mem_live m + 1 \<and> list_all2 (field_copied blk) nva ps)
   else nghttp2_nv_array_copy nva m =
     (if fst (nghttp2_mem_malloc m) then None else Some (None, snd (nghttp2_mem_malloc m), NGHTTP2_ERR_NOMEM))"
proof (cases "nva = []")
  case False
  let ?size = "block_size nva mod 2 ^ 32"
  let ?blk = "map (mem_fill m) [0..<?size]"
  have len: "unat (foldl (\<lambda>n nv. n + copied_room (h_flags nv) NGHTTP2_NV_FLAG_NO_COPY_NAME (h_name nv) +
      copied_room (h_flags nv) NGHTTP2_NV_FLAG_NO_COPY_VALUE (h_value nv)) 0 nva + word_of_nat (sizeof_nv * length nva)) = ?size"
  proof -
    have f: "foldl (\<lambda>n nv. n + copied_room (h_flags nv) NGHTTP2_NV_FLAG_NO_COPY_NAME (h_name nv) +
        copied_room (h_flags nv) NGHTTP2_NV_FLAG_NO_COPY_VALUE (h_value nv)) 0 nva = word_of_nat (fields_room nva)"
      using fold_room [of 0 nva] by simp
    have "unat (word_of_nat (fields_room nva) + word_of_nat (sizeof_nv * length nva) :: u32) =
        (fields_room nva + sizeof_nv * length nva) mod 2 ^ 32"
      unfolding of_nat_add [symmetric] by (simp only: unsigned_of_nat take_bit_eq_mod) simp
    then show ?thesis unfolding f by (simp only: block_size_def add.commute)
  qed
  obtain ok m' where m': "nghttp2_mem_malloc m = (ok, m')" by fastforce
  have copy: "nghttp2_nv_array_copy nva m =
      (if ok then map_option (\<lambda>r. (Some r, m', 0)) (copy_fields nva ?blk 0 (sizeof_nv * length nva))
       else Some (None, m', NGHTTP2_ERR_NOMEM))"
    by (cases ok) (simp_all only: nghttp2_nv_array_copy_def Let_def len False m' if_False if_True prod.case bool.case)
  show ?thesis
  proof (cases "block_size nva < 2 ^ 32")
    case True
    obtain used where used: "mem_answers m = used @ mem_answers m'" "ok \<or> False \<in> set used" "mem_live m' = mem_live m + (if ok then 1 else 0)"
      using malloc_cases [OF m'] by blast
    have blk: "length ?blk = block_size nva" using True by simp
    obtain ps b where "copy_fields nva ?blk 0 (sizeof_nv * length nva) = Some (ps, b)" "list_all2 (field_copied b) nva ps"
      using copy_fields_ok [of "sizeof_nv * length nva" nva ?blk 0] blk by (auto simp: block_size_def)
    then show ?thesis
      using True copy used False by (cases ok) (auto simp: all_succeed_def list_all_iff)
  next
    case over: False
    have blk: "length ?blk < block_size nva"
      using over by (simp add: less_le_trans [OF mod_less_divisor])
    have "copy_fields nva ?blk 0 (sizeof_nv * length nva) = None"
    proof (cases "sizeof_nv * length nva \<le> length ?blk")
      case True
      then show ?thesis using strings_outside blk unfolding block_size_def by blast
    next
      case small: False
      then show ?thesis by (intro array_outside False) simp
    qed
    then show ?thesis using over copy m' by simp
  qed
qed (simp add: nghttp2_nv_array_copy_def block_size_def fields_room_def)

end
