(* ===== verification/Ng_Frame_Wire.thy ===== *)
theory Ng_Frame_Wire
  imports Ng_Frame_Props
begin

unbundle bit_operations_syntax

text \<open>
  Header blocks on the wire: a block that does not fit into one frame goes on in CONTINUATION
  frames, and who reads the frames and puts the fragments together decodes what was sent. Padding
  is taken off again.
\<close>

section \<open>A sequence of frames\<close>

type_synonym wire_frame = "nghttp2_frame_hd \<times> bytes"

definition frame_bytes :: "wire_frame \<Rightarrow> bytes" where
  "frame_bytes f = hd_bytes (hd_length (fst f)) (hd_type (fst f)) (hd_flags (fst f)) (hd_stream_id (fst f)) @ snd f"

definition frame_ok :: "wire_frame \<Rightarrow> bool" where
  "frame_ok f \<longleftrightarrow> fst f = nghttp2_frame_hd_init (length (snd f)) (hd_type (fst f)) (hd_flags (fst f)) (hd_stream_id (fst f)) \<and>
     length (snd f) < 2 ^ 24 \<and> id_ok (hd_stream_id (fst f))"

text \<open>The reader of frames: a header, then as many bytes as it says.\<close>

function read_frames :: "bytes \<Rightarrow> wire_frame list option" where
  "read_frames xs =
     (if xs = [] then Some []
      else
        (case nghttp2_frame_unpack_frame_hd xs 0 of
           None \<Rightarrow> None
         | Some h \<Rightarrow>
             (let p = drop NGHTTP2_FRAME_HDLEN xs in
              if length p < hd_length h then None
              else map_option (\<lambda>fs. (h, take (hd_length h) p) # fs) (read_frames (drop (hd_length h) p)))))"
  by pat_completeness auto

termination by (relation "measure length") auto

declare read_frames.simps [simp del]

lemma hd_init_simps [simp]:
  "hd_length (nghttp2_frame_hd_init n ty fl sid) = n" "hd_type (nghttp2_frame_hd_init n ty fl sid) = ty"
  "hd_flags (nghttp2_frame_hd_init n ty fl sid) = fl" "hd_stream_id (nghttp2_frame_hd_init n ty fl sid) = sid"
  by (simp_all add: nghttp2_frame_hd_init_def)

lemma unpack_frame_bytes:
  assumes "frame_ok f"
  shows "nghttp2_frame_unpack_frame_hd (frame_bytes f @ rest) 0 = Some (fst f)"
  using assms unpack_hd_bytes [of "length (snd f)" "hd_stream_id (fst f)" "hd_type (fst f)" "hd_flags (fst f)" "snd f @ rest"]
  unfolding frame_ok_def frame_bytes_def id_ok_def by (metis append_assoc hd_init_simps(1))

lemma read_frames_bytes: "list_all frame_ok fs \<Longrightarrow> read_frames (concat (map frame_bytes fs)) = Some fs"
proof (induction fs)
  case Nil
  then show ?case by (simp add: read_frames.simps)
next
  case (Cons f fs)
  have len: "hd_length (fst f) = length (snd f)" using Cons.prems by (simp add: frame_ok_def) (metis hd_init_simps(1))
  have "drop 9 (frame_bytes f @ xs) = snd f @ xs" for xs by (simp add: frame_bytes_def)
  moreover have "frame_bytes f \<noteq> []" by (simp add: frame_bytes_def hd_bytes_def)
  ultimately show ?case
    using Cons unpack_frame_bytes [of f "concat (map frame_bytes fs)"] len
    by (subst read_frames.simps) (simp add: Let_def)
qed

text \<open>What the protocol demands of the frames of one header block.\<close>

definition ends_headers :: "wire_frame \<Rightarrow> bool" where
  "ends_headers f \<longleftrightarrow> hd_flags (fst f) AND NGHTTP2_FLAG_END_HEADERS \<noteq> 0"

definition header_sequence :: "wire_frame list \<Rightarrow> bool" where
  "header_sequence fs \<longleftrightarrow> fs \<noteq> [] \<and> ends_headers (last fs) \<and> list_all (\<lambda>f. \<not> ends_headers f) (butlast fs) \<and>
     list_all (\<lambda>f. hd_type (fst f) = NGHTTP2_CONTINUATION \<and> hd_stream_id (fst f) = hd_stream_id (fst (hd fs))) (tl fs)"

section \<open>The headers of the frames\<close>

definition framed :: "nghttp2_frame_hd \<Rightarrow> bytes \<Rightarrow> wire_frame" where
  "framed h p = (h\<lparr>hd_length := length p\<rparr>, p)"

definition room_before :: "nghttp2_buf \<Rightarrow> bool" where
  "room_before b \<longleftrightarrow> buf_ok b \<and> 9 \<le> buf_pos b"

lemma pack_hd_at_ok:
  assumes "i < length (chunks bs)" "room_before (chunks bs ! i)"
  shows "\<exists>b. pack_hd_at i h bs = Some (bs\<lparr>chunks := (chunks bs)[i := b]\<rparr>) \<and>
    present b = frame_bytes (framed h (present (chunks bs ! i)))"
proof -
  let ?b = "chunks bs ! i"
  have "length (present ?b) = nghttp2_buf_len ?b"
    using assms(2) by (simp add: room_before_def present_def nghttp2_buf_len_def buf_ok_def nghttp2_buf_cap_def)
  then show ?thesis
    using pack_hd_before_ok [of ?b "h\<lparr>hd_length := nghttp2_buf_len ?b\<rparr>"] assms
    by (auto simp: pack_hd_at_def at_buf_def room_before_def frame_bytes_def framed_def)
qed

lemma pack_hds_ok:
  "distinct is \<Longrightarrow> \<forall>i \<in> set is. i < length (chunks bs) \<and> room_before (chunks bs ! i) \<Longrightarrow>
   \<exists>cs. pack_hds is h bs = Some (bs\<lparr>chunks := cs\<rparr>) \<and> length cs = length (chunks bs) \<and>
     (\<forall>j. j \<notin> set is \<longrightarrow> cs ! j = chunks bs ! j) \<and>
     (\<forall>j \<in> set is. present (cs ! j) = frame_bytes (framed h (present (chunks bs ! j))))"
proof (induction "is" arbitrary: bs)
  case Nil
  then show ?case by (auto intro: exI [of _ "chunks bs"])
next
  case (Cons i "is")
  obtain b where b: "pack_hd_at i h bs = Some (bs\<lparr>chunks := (chunks bs)[i := b]\<rparr>)"
    "present b = frame_bytes (framed h (present (chunks bs ! i)))"
    using pack_hd_at_ok [of i bs h] Cons.prems(2) by auto
  let ?bs = "bs\<lparr>chunks := (chunks bs)[i := b]\<rparr>"
  have "\<forall>j \<in> set is. j < length (chunks ?bs) \<and> room_before (chunks ?bs ! j)" using Cons.prems by (auto simp: nth_list_update)
  then obtain cs where cs: "pack_hds is h ?bs = Some (?bs\<lparr>chunks := cs\<rparr>)" "length cs = length (chunks ?bs)"
    "\<forall>j. j \<notin> set is \<longrightarrow> cs ! j = chunks ?bs ! j"
    "\<forall>j \<in> set is. present (cs ! j) = frame_bytes (framed h (present (chunks ?bs ! j)))"
    using Cons.IH [of ?bs] Cons.prems(1) by auto
  have "pack_hds (i # is) h bs = Some (bs\<lparr>chunks := cs\<rparr>)" using b(1) cs(1) by simp
  moreover have "\<forall>j. j \<notin> set (i # is) \<longrightarrow> cs ! j = chunks bs ! j" using cs(3) by auto
  moreover have "\<forall>j \<in> set (i # is). present (cs ! j) = frame_bytes (framed h (present (chunks bs ! j)))"
    using cs(3,4) b(2) Cons.prems by (auto simp: nth_list_update)
  ultimately show ?case using cs(2) by auto
qed


definition ready_chain :: "nghttp2_bufs \<Rightarrow> bool" where
  "ready_chain bs \<longleftrightarrow> bufs_ok bs \<and> list_all (\<lambda>b. room_before b \<and> length (present b) < 2 ^ 24) (chunks bs)"

text \<open>The frames of a chain: the first, those between, and the last.\<close>

definition frames_of :: "nghttp2_frame_hd \<Rightarrow> nghttp2_bufs \<Rightarrow> wire_frame list" where
  "frames_of h bs =
     (let c = h\<lparr>hd_type := NGHTTP2_CONTINUATION, hd_flags := NGHTTP2_FLAG_NONE\<rparr>; p = (\<lambda>i. present (chunks bs ! i)); k = bufs_cur bs in
      if k = 0 then [framed h (p 0)]
      else framed (h\<lparr>hd_flags := hd_flags h AND NOT NGHTTP2_FLAG_END_HEADERS\<rparr>) (p 0) #
        map (\<lambda>i. framed c (p i)) [1..<k] @ [framed (c\<lparr>hd_flags := NGHTTP2_FLAG_END_HEADERS\<rparr>) (p k)])"

lemma content_upto:
  assumes "k < length (chunks bs)" "\<And>j. k < j \<Longrightarrow> j < length (chunks bs) \<Longrightarrow> present (chunks bs ! j) = []"
  shows "content bs = concat (map (\<lambda>i. present (chunks bs ! i)) [0..<Suc k])"
proof -
  have "drop (Suc k) (map present (chunks bs)) = replicate (length (chunks bs) - Suc k) []"
    using assms(2) by (intro nth_equalityI) auto
  then have "concat (drop (Suc k) (map present (chunks bs))) = []" by simp
  moreover have "take (Suc k) (map present (chunks bs)) = map (\<lambda>i. present (chunks bs ! i)) [0..<Suc k]"
    using assms(1) by (intro nth_equalityI) (auto simp: nth_append less_Suc_eq simp del: upt_Suc)
  moreover have "content bs = concat (take (Suc k) (map present (chunks bs))) @ concat (drop (Suc k) (map present (chunks bs)))"
    unfolding content_def concat_append [symmetric] by simp
  ultimately show ?thesis by simp
qed

lemma behind_cur_empty:
  assumes "bufs_ok bs" "bufs_cur bs < j" "j < length (chunks bs)"
  shows "present (chunks bs ! j) = []"
  using assms by (intro present_empty) (auto simp: bufs_ok_def list_all_length dest!: spec [of _ "j - Suc (bufs_cur bs)"])

lemma shared_ok:
  assumes "ready_chain bs"
  shows "\<exists>bs'. frame_pack_headers_shared bs h = Some bs' \<and> content bs' = concat (map frame_bytes (frames_of h bs))"
proof -
  let ?cs = "chunks bs" and ?k = "bufs_cur bs" and ?p = "\<lambda>i. present (chunks bs ! i)"
  let ?c = "h\<lparr>hd_type := NGHTTP2_CONTINUATION, hd_flags := NGHTTP2_FLAG_NONE\<rparr>"
  have ok: "bufs_ok bs" "?k < length ?cs" "0 < length ?cs" and before: "i < length ?cs \<Longrightarrow> room_before (?cs ! i)" for i
    using assms by (auto simp: ready_chain_def bufs_ok_def list_all_length)
  note empty = behind_cur_empty [OF ok(1)]
  show ?thesis
  proof (cases "?k = 0")
    case True
    obtain b where b: "pack_hd_at 0 h bs = Some (bs\<lparr>chunks := ?cs[0 := b]\<rparr>)" "present b = frame_bytes (framed h (?p 0))"
      using pack_hd_at_ok [OF ok(3) before [OF ok(3)]] by blast
    have "content (bs\<lparr>chunks := ?cs[0 := b]\<rparr>) = present b"
      using content_upto [of 0 "bs\<lparr>chunks := ?cs[0 := b]\<rparr>"] ok(3) empty True by (simp add: nth_list_update)
    then show ?thesis using b True by (simp add: frame_pack_headers_shared_def frames_of_def)
  next
    case False
    let ?h0 = "h\<lparr>hd_flags := hd_flags h AND NOT NGHTTP2_FLAG_END_HEADERS\<rparr>"
    obtain b where b: "pack_hd_at 0 ?h0 bs = Some (bs\<lparr>chunks := ?cs[0 := b]\<rparr>)" "present b = frame_bytes (framed ?h0 (?p 0))"
      using pack_hd_at_ok [OF ok(3) before [OF ok(3)]] by blast
    let ?bs1 = "bs\<lparr>chunks := ?cs[0 := b]\<rparr>"
    have "\<forall>i \<in> set [1..<?k]. i < length (chunks ?bs1) \<and> room_before (chunks ?bs1 ! i)" using ok(2) before by simp
    then obtain cs where cs: "pack_hds [1..<?k] ?c ?bs1 = Some (?bs1\<lparr>chunks := cs\<rparr>)" "length cs = length ?cs"
      "\<forall>j. j \<notin> set [1..<?k] \<longrightarrow> cs ! j = chunks ?bs1 ! j"
      "\<forall>j \<in> set [1..<?k]. present (cs ! j) = frame_bytes (framed ?c (present (chunks ?bs1 ! j)))"
      using pack_hds_ok [of "[1..<?k]" ?bs1 ?c] by auto
    let ?bs2 = "bs\<lparr>chunks := cs\<rparr>"
    have last: "chunks ?bs2 ! ?k = ?cs ! ?k" using cs(3) False by (simp add: nth_list_update)
    obtain b2 where b2: "pack_hd_at ?k (?c\<lparr>hd_flags := NGHTTP2_FLAG_END_HEADERS\<rparr>) ?bs2 = Some (?bs2\<lparr>chunks := cs[?k := b2]\<rparr>)"
      "present b2 = frame_bytes (framed (?c\<lparr>hd_flags := NGHTTP2_FLAG_END_HEADERS\<rparr>) (?p ?k))"
      using pack_hd_at_ok [of ?k ?bs2 "?c\<lparr>hd_flags := NGHTTP2_FLAG_END_HEADERS\<rparr>"] cs(2) ok(2) before [OF ok(2)] last by auto
    let ?bs3 = "bs\<lparr>chunks := cs[?k := b2]\<rparr>"
    have run: "frame_pack_headers_shared bs h = Some ?bs3"
      using b(1) cs(1) b2(1) False by (simp add: frame_pack_headers_shared_def Let_def)
    have p0: "present (chunks ?bs3 ! 0) = frame_bytes (framed ?h0 (?p 0))"
      using b(2) cs(3) False ok(3) by (simp add: nth_list_update)
    have pi: "present (chunks ?bs3 ! i) = frame_bytes (framed ?c (?p i))" if "1 \<le> i" "i < ?k" for i
      using cs(4) that by (simp add: nth_list_update)
    have "present (chunks ?bs3 ! j) = []" if "?k < j" "j < length (chunks ?bs3)" for j
      using cs(2,3) that empty [of j] by (simp add: nth_list_update)
    then have "content ?bs3 = concat (map (\<lambda>i. present (chunks ?bs3 ! i)) [0..<Suc ?k])"
      using cs(2) ok(2) by (intro content_upto) simp_all
    also have "[0..<Suc ?k] = 0 # [1..<?k] @ [?k]" using False by (simp add: upt_conv_Cons)
    also have "concat (map (\<lambda>i. present (chunks ?bs3 ! i)) (0 # [1..<?k] @ [?k])) = concat (map frame_bytes (frames_of h bs))"
    proof -
      have "present (chunks ?bs3 ! ?k) = frame_bytes (framed (?c\<lparr>hd_flags := NGHTTP2_FLAG_END_HEADERS\<rparr>) (?p ?k))"
        using b2(2) cs(2) ok(2) by simp
      then have "map (\<lambda>i. present (chunks ?bs3 ! i)) (0 # [1..<?k] @ [?k]) = map frame_bytes (frames_of h bs)"
        using p0 pi False by (simp add: frames_of_def Let_def)
      then show ?thesis by (rule arg_cong)
    qed
    finally show ?thesis using run by blast
  qed
qed

lemma frames_of_sequence:
  assumes "ready_chain bs" "hd_flags h AND NGHTTP2_FLAG_END_HEADERS \<noteq> 0" "id_ok (hd_stream_id h)" "hd_reserved h = 0"
  shows "list_all frame_ok (frames_of h bs)" "header_sequence (frames_of h bs)" "concat (map snd (frames_of h bs)) = content bs"
    "hd_type (fst (hd (frames_of h bs))) = hd_type h" "hd_stream_id (fst (hd (frames_of h bs))) = hd_stream_id h"
    "hd_flags (fst (hd (frames_of h bs))) = (if bufs_cur bs = 0 then hd_flags h else hd_flags h AND NOT NGHTTP2_FLAG_END_HEADERS)"
    "snd (hd (frames_of h bs)) = present (chunks bs ! 0)"
proof -
  let ?k = "bufs_cur bs"
  have ok: "bufs_ok bs" "?k < length (chunks bs)" and small: "i < length (chunks bs) \<Longrightarrow> length (present (chunks bs ! i)) < 2 ^ 24" for i
    using assms(1) by (auto simp: ready_chain_def bufs_ok_def list_all_length)
  have framed: "frame_ok (framed h' p)" if "hd_stream_id h' = hd_stream_id h" "hd_reserved h' = 0" "length p < 2 ^ 24" for h' p
    using that assms(3) by (cases h') (simp add: frame_ok_def framed_def nghttp2_frame_hd_init_def)
  show "list_all frame_ok (frames_of h bs)"
    using ok(2) assms(4) by (auto simp: frames_of_def Let_def list_all_iff intro!: framed small [simplified])
  have clear: "(x AND NOT NGHTTP2_FLAG_END_HEADERS) AND NGHTTP2_FLAG_END_HEADERS = 0" for x :: u8
    by (rule bit_word_eqI) (auto simp: bit_simps simp del: bit_numeral_word_iff)
  show "header_sequence (frames_of h bs)"
    using assms(2) clear by (auto simp: frames_of_def Let_def header_sequence_def ends_headers_def framed_def list_all_iff butlast_append)
  have "[0..<Suc ?k] = 0 # [1..<?k] @ [?k]" if "?k \<noteq> 0" using that by (simp add: upt_conv_Cons)
  moreover have "content bs = concat (map (\<lambda>i. present (chunks bs ! i)) [0..<Suc ?k])"
    by (rule content_upto [OF ok(2) behind_cur_empty [OF ok(1)]])
  ultimately show "concat (map snd (frames_of h bs)) = content bs"
    by (cases "?k = 0") (simp_all add: frames_of_def Let_def framed_def comp_def upt_rec [of 0 "Suc 0"] del: upt_Suc)
qed (simp_all add: frames_of_def Let_def framed_def)


section \<open>Header blocks\<close>

definition fresh_chain :: "nghttp2_bufs \<Rightarrow> bool" where
  "fresh_chain bs \<longleftrightarrow> fresh bs \<and> roomy bs \<and> sized bs \<and> chunk_length bs < 2 ^ 24 \<and> 9 \<le> bufs_offset bs \<and>
     list_all (\<lambda>b. 9 \<le> buf_pos b) (chunks bs)"

lemma head_buf_ok:
  assumes "bufs_ok bs"
  shows "0 < length (chunks bs) \<and> buf_ok (chunks bs ! 0)"
proof -
  have "0 < length (chunks bs)" using assms by (auto simp: bufs_ok_def)
  then show ?thesis using assms by (simp add: bufs_ok_def list_all_length)
qed

lemma skip_ok:
  assumes "fresh_chain bs" "n \<le> nghttp2_buf_avail (chunks bs ! 0)"
  shows "\<exists>bs1. at_buf 0 (skip_head n) bs = Some bs1 \<and> bufs_ok bs1 \<and> roomy bs1 \<and> sized bs1 \<and> content bs1 = [] \<and> bufs_cur bs1 = 0 \<and>
    chunk_length bs1 = chunk_length bs \<and> bufs_offset bs1 = bufs_offset bs \<and>
    list_all (\<lambda>b. 9 \<le> buf_pos b) (chunks bs1) \<and> 9 + n \<le> buf_pos (chunks bs1 ! 0)"
proof -
  let ?b = "chunks bs ! 0"
  have f: "bufs_ok bs" "bufs_cur bs = 0" "content bs = []" "9 \<le> buf_pos ?b" "roomy bs" "sized bs"
    "list_all (\<lambda>b. 9 \<le> buf_pos b) (chunks bs)"
    using assms(1) by (simp_all add: fresh_chain_def fresh_def)
  have len: "0 < length (chunks bs)" and ok: "buf_ok ?b" using head_buf_ok [OF f(1)] by simp_all
  have "length (present ?b) = nghttp2_buf_len ?b"
    using ok by (simp add: present_def nghttp2_buf_len_def buf_ok_def nghttp2_buf_cap_def)
  then have last: "buf_last ?b = buf_pos ?b" using content_split [OF f(1)] f(2,3) ok by (simp add: nghttp2_buf_len_def buf_ok_def)
  let ?b1 = "?b\<lparr>buf_pos := buf_pos ?b + n, buf_last := buf_pos ?b + n\<rparr>"
  let ?bs1 = "bs\<lparr>chunks := (chunks bs)[0 := ?b1]\<rparr>"
  have ok1: "buf_ok ?b1" using ok assms(2) last by (simp add: buf_ok_def nghttp2_buf_avail_def nghttp2_buf_cap_def)
  have upd: "list_all P ((chunks bs)[0 := ?b1])" if "list_all P (chunks bs)" "P ?b1" for P
    using that by (auto simp: list_all_iff dest!: set_update_subset_insert [THEN subsetD])
  have "bufs_ok ?bs1" using f(1) upd [of buf_ok] ok1 by (simp add: bufs_ok_def)
  moreover have "present ?b1 = []" by (simp add: present_def)
  ultimately have "content ?bs1 = []" using content_split [of ?bs1] f(2) len by simp
  moreover have "sized ?bs1"
    using f(6) upd [of "\<lambda>b. nghttp2_buf_cap b = chunk_length bs"] len by (auto simp: sized_def nghttp2_buf_cap_def list_all_length)
  moreover have "roomy ?bs1" using f(5) by (simp add: roomy_def)
  ultimately show ?thesis
    using \<open>bufs_ok ?bs1\<close> len f(2,4) upd [OF f(7)] by (simp add: at_buf_def skip_head_def)
qed

lemma take_back_ok:
  assumes "bufs_ok bs" "sized bs" "chunk_length bs < 2 ^ 24" "list_all (\<lambda>b. 9 \<le> buf_pos b) (chunks bs)"
    and "9 + length q \<le> buf_pos (chunks bs ! 0)"
  shows "\<exists>bs1 bs2. at_buf 0 (take_back (length q)) bs = Some bs1 \<and> (q = [] \<longrightarrow> bs2 = bs1) \<and>
    at_buf 0 (\<lambda>b. map_option (\<lambda>x. b\<lparr>bytes_of := x\<rparr>) (wr_block (bytes_of b) (buf_pos b) q)) bs1 = Some bs2 \<and>
    ready_chain bs2 \<and> content bs2 = q @ content bs \<and> prefix q (present (chunks bs2 ! 0))"
proof -
  let ?b = "chunks bs ! 0"
  have len: "0 < length (chunks bs)" and ok: "buf_ok ?b" using head_buf_ok [OF assms(1)] by simp_all
  let ?b1 = "?b\<lparr>buf_pos := buf_pos ?b - length q\<rparr>"
  obtain d where d: "wr_block (bytes_of ?b) (buf_pos ?b - length q) q = Some d" "length d = length (bytes_of ?b)"
    "drop (buf_pos ?b - length q) (take (buf_last ?b) d) = q @ present ?b"
    using write_before [OF ok, of q] assms(5) by auto
  let ?b2 = "?b1\<lparr>bytes_of := d\<rparr>"
  let ?bs1 = "bs\<lparr>chunks := (chunks bs)[0 := ?b1]\<rparr>" and ?bs2 = "bs\<lparr>chunks := (chunks bs)[0 := ?b2]\<rparr>"
  have p2: "present ?b2 = q @ present ?b" using d(3) by (simp add: present_def)
  have b2: "buf_ok ?b2" "9 \<le> buf_pos ?b2" "nghttp2_buf_cap ?b2 = nghttp2_buf_cap ?b"
    using ok assms(5) d(2) by (auto simp: buf_ok_def nghttp2_buf_cap_def)
  have small: "length (present b) \<le> nghttp2_buf_cap b" for b by (simp add: present_def nghttp2_buf_cap_def)
  have upd: "list_all P ((chunks bs)[0 := ?b2])" if "list_all P (chunks bs)" "P ?b2" for P
    using that by (auto simp: list_all_iff dest!: set_update_subset_insert [THEN subsetD])
  have "list_all (\<lambda>b. nghttp2_buf_cap b = chunk_length bs) ((chunks bs)[0 := ?b2])"
    using assms(2) b2(3) len by (intro upd) (auto simp: sized_def list_all_length)
  then have caps: "list_all (\<lambda>b. length (present b) < 2 ^ 24) ((chunks bs)[0 := ?b2])"
    unfolding list_all_iff using assms(3) small by (metis le_less_trans)
  have ok2: "bufs_ok ?bs2" using assms(1) upd [of buf_ok] b2(1) by (simp add: bufs_ok_def)
  have "list_all buf_ok ((chunks bs)[0 := ?b2])" using ok2 by (simp add: bufs_ok_def)
  then have ready: "ready_chain ?bs2"
    using ok2 caps upd [OF assms(4)] b2(2) by (simp add: ready_chain_def room_before_def list_all_iff)
  have "content ?bs2 = q @ content bs"
  proof -
    obtain c cs where cs: "chunks bs = c # cs" using len by (cases "chunks bs") auto
    then show ?thesis using p2 by (simp add: content_def)
  qed
  moreover have "q = [] \<longrightarrow> ?bs2 = ?bs1" using d(1,2) by (auto simp: wr_block_def split: if_splits)
  moreover have "at_buf 0 (take_back (length q)) bs = Some ?bs1" using len by (simp add: at_buf_def take_back_def)
  moreover have "at_buf 0 (\<lambda>b. map_option (\<lambda>x. b\<lparr>bytes_of := x\<rparr>) (wr_block (bytes_of b) (buf_pos b) q)) ?bs1 = Some ?bs2"
    using len d(1) by (simp add: at_buf_def)
  ultimately show ?thesis using ready p2 len by auto
qed


lemma block_framed:
  assumes sync: "sync d ds i is" and nva: "list_all nv_fits nva" and bs: "fresh_chain bs"
    and q: "length q \<le> nghttp2_buf_avail (chunks bs ! 0)"
  shows "\<exists>bs1 d' bs2 rv bs3 bs4. at_buf 0 (skip_head (length q)) bs = Some bs1 \<and>
    nghttp2_hd_deflate_hd_bufs d bs1 nva = Some (d', bs2, rv) \<and> at_buf 0 (take_back (length q)) bs2 = Some bs3 \<and>
    (rv \<noteq> 0 \<longrightarrow> rv \<in> emit_errors) \<and>
    (rv = 0 \<longrightarrow> (q = [] \<longrightarrow> bs4 = bs3) \<and>
      at_buf 0 (\<lambda>b. map_option (\<lambda>x. b\<lparr>bytes_of := x\<rparr>) (wr_block (bytes_of b) (buf_pos b) q)) bs3 = Some bs4 \<and>
      ready_chain bs4 \<and> prefix q (present (chunks bs4 ! 0)) \<and>
      (\<exists>block i' ds' is'. content bs4 = q @ block \<and> read_header_block i block = Some (i', map delivered nva, 0) \<and> sync d' ds' i' is'))"
proof -
  obtain bs1 where s: "at_buf 0 (skip_head (length q)) bs = Some bs1" "bufs_ok bs1" "roomy bs1" "sized bs1" "content bs1 = []"
    "chunk_length bs1 = chunk_length bs" "bufs_offset bs1 = bufs_offset bs" "list_all (\<lambda>b. 9 \<le> buf_pos b) (chunks bs1)"
    "9 + length q \<le> buf_pos (chunks bs1 ! 0)"
    using skip_ok [OF bs q] by blast
  have d: "deflater_ok d ds" "\<not> ctx_bad (d_ctx d)" using sync by (simp_all add: sync_def)
  have len: "list_all nv_lengths nva" using nva by (auto simp: nv_fits_def nv_lengths_def list_all_iff)
  obtain d' bs2 rv where e: "nghttp2_hd_deflate_hd_bufs d bs1 nva = Some (d', bs2, rv)" "bufs_ok bs2" "rv \<noteq> 0 \<longrightarrow> rv \<in> emit_errors"
    "rv = 0 \<longrightarrow> (\<exists>x. added bs1 x bs2 0)"
    using deflate_block_ok [OF d s(2,3) len] by blast
  have b: "rv = 0 \<longrightarrow> (\<exists>i' ds' is'. read_header_block i (content bs2) = Some (i', map delivered nva, 0) \<and> sync d' ds' i' is')"
    using sync_block [OF sync s(2,3,5) nva] e(1) by auto
  show ?thesis
  proof (cases "rv = 0")
    case True
    obtain x where x: "added bs1 x bs2 0" using e(4) True by blast
    obtain n where n: "map buf_pos (chunks bs2) = map buf_pos (chunks bs1) @ replicate n (bufs_offset bs1)"
      using x by (auto simp: added_def same_places_def)
    have "sized bs2" "chunk_length bs2 = chunk_length bs1" using x s(4) by (auto simp: added_def same_chain_def)
    moreover have "chunk_length bs < 2 ^ 24" "9 \<le> bufs_offset bs" using bs by (simp_all add: fresh_chain_def)
    moreover have "list_all (\<lambda>p. 9 \<le> p) (map buf_pos (chunks bs2))"
      using s(7,8) calculation(4) unfolding n by (auto simp: list_all_iff)
    moreover have "map buf_pos (chunks bs2) ! 0 = map buf_pos (chunks bs1) ! 0"
      using head_buf_ok [OF s(2)] unfolding n by (simp add: nth_append)
    then have "9 + length q \<le> buf_pos (chunks bs2 ! 0)" using s(9) head_buf_ok [OF s(2)] head_buf_ok [OF e(2)] by simp
    ultimately obtain bs3 bs4 where t: "at_buf 0 (take_back (length q)) bs2 = Some bs3" "q = [] \<longrightarrow> bs4 = bs3"
      "at_buf 0 (\<lambda>b. map_option (\<lambda>x. b\<lparr>bytes_of := x\<rparr>) (wr_block (bytes_of b) (buf_pos b) q)) bs3 = Some bs4"
      "ready_chain bs4" "content bs4 = q @ content bs2" "prefix q (present (chunks bs4 ! 0))"
      using take_back_ok [OF e(2), of q] s(6) by (auto simp: list_all_iff)
    show ?thesis using s(1) e(1) t b True by blast
  next
    case False
    have "at_buf 0 (take_back (length q)) bs2 \<noteq> None"
      using head_buf_ok [OF e(2)] by (simp add: at_buf_def take_back_def)
    then show ?thesis using s(1) e(1,3) False by blast
  qed
qed

text \<open>The frames of one header block as the receiver takes them: they follow each other as the protocol
  demands, and the fragments are put together.\<close>

definition receive_headers :: "bytes \<Rightarrow> (nghttp2_headers \<times> bytes) option" where
  "receive_headers xs = do {
     fs \<leftarrow> read_frames xs;
     assert_that (header_sequence fs \<and> hd_type (fst (hd fs)) = NGHTTP2_HEADERS);
     let p = snd (hd fs);
     f \<leftarrow> nghttp2_frame_unpack_headers_payload
           (nghttp2_frame_headers_init 0 0 NGHTTP2_HCAT_HEADERS None [] \<lparr>frame_hd := fst (hd fs)\<rparr>) p;
     Some (f, drop (nghttp2_frame_headers_payload_nv_offset f) p @ concat (map snd (tl fs)))
   }"

definition receive_push_promise :: "bytes \<Rightarrow> (nghttp2_push_promise \<times> bytes) option" where
  "receive_push_promise xs = do {
     fs \<leftarrow> read_frames xs;
     assert_that (header_sequence fs \<and> hd_type (fst (hd fs)) = NGHTTP2_PUSH_PROMISE);
     let p = snd (hd fs);
     f \<leftarrow> nghttp2_frame_unpack_push_promise_payload
           (nghttp2_frame_push_promise_init 0 0 0 [] \<lparr>frame_hd := fst (hd fs)\<rparr>) p;
     Some (f, drop 4 p @ concat (map snd (tl fs)))
   }"

text \<open>What the receiver finds: \<open>q\<close> is what comes before the header block.\<close>

lemma frames_read:
  assumes "ready_chain bs" "prefix q (present (chunks bs ! 0))" "content bs = q @ blk"
    and "hd_flags h AND NGHTTP2_FLAG_END_HEADERS \<noteq> 0" "id_ok (hd_stream_id h)" "hd_reserved h = 0"
  shows "\<exists>bs' fs rest. frame_pack_headers_shared bs h = Some bs' \<and> read_frames (content bs') = Some fs \<and> header_sequence fs \<and>
    hd_type (fst (hd fs)) = hd_type h \<and> hd_stream_id (fst (hd fs)) = hd_stream_id h \<and>
    hd_flags (fst (hd fs)) AND NGHTTP2_FLAG_PRIORITY = hd_flags h AND NGHTTP2_FLAG_PRIORITY \<and>
    snd (hd fs) = q @ rest \<and> rest @ concat (map snd (tl fs)) = blk"
proof -
  let ?fs = "frames_of h bs"
  note fs = frames_of_sequence [OF assms(1,4,5,6)]
  obtain bs' where bs': "frame_pack_headers_shared bs h = Some bs'" "content bs' = concat (map frame_bytes ?fs)"
    using shared_ok [OF assms(1)] by blast
  obtain rest where rest: "snd (hd ?fs) = q @ rest" using assms(2) fs(7) by (auto simp: prefix_def)
  have "?fs \<noteq> []" by (simp add: frames_of_def Let_def)
  then have "concat (map snd ?fs) = snd (hd ?fs) @ concat (map snd (tl ?fs))" by (cases ?fs) simp_all
  then have "rest @ concat (map snd (tl ?fs)) = blk" using fs(3) assms(3) rest by simp
  moreover have "(x AND NOT NGHTTP2_FLAG_END_HEADERS) AND NGHTTP2_FLAG_PRIORITY = x AND NGHTTP2_FLAG_PRIORITY" for x :: u8
    by (simp add: and.assoc)
  ultimately show ?thesis using bs' rest fs read_frames_bytes [OF fs(1)] by auto
qed


definition pack_errors :: "int set" where
  "pack_errors = {NGHTTP2_ERR_NOMEM, NGHTTP2_ERR_HEADER_COMP}"

text \<open>
  C4. A HEADERS frame over the wire. Its header block may need several frames; the receiver that takes
  them from the byte stream finds one HEADERS frame and CONTINUATION frames as the protocol demands,
  the stream and the priority that were sent, and a block from which its decoder gets exactly the
  fields, whereupon both ends are in step for the next block. Otherwise the packing says that it has no
  memory or that the fields do not fit.
\<close>

theorem headers_on_the_wire:
  assumes "sync d ds i is" "list_all nv_fits nva" "fresh_chain bs" "5 \<le> nghttp2_buf_avail (chunks bs ! 0)"
    and "flags AND NGHTTP2_FLAG_END_HEADERS \<noteq> 0" "id_ok sid" "spec_ok spec"
  shows "\<exists>bs' f d' rv. nghttp2_frame_pack_headers bs (nghttp2_frame_headers_init flags sid ct (Some spec) nva) d = Some (bs', f, d', rv) \<and>
    (if rv \<noteq> 0 then rv \<in> pack_errors
     else \<exists>g blk i' ds' is'. receive_headers (content bs') = Some (g, blk) \<and> hd_stream_id (frame_hd g) = sid \<and>
       headers_pri_spec g = (if flags AND NGHTTP2_FLAG_PRIORITY \<noteq> 0 then spec else nghttp2_priority_spec_default_init) \<and>
       read_header_block i blk = Some (i', map delivered nva, 0) \<and> sync d' ds' i' is')"
proof -
  let ?f = "nghttp2_frame_headers_init flags sid ct (Some spec) nva"
  define q where "q = (if flags AND NGHTTP2_FLAG_PRIORITY \<noteq> 0 then spec_bytes spec else [])"
  have q: "length q = nghttp2_frame_headers_payload_nv_offset ?f" "length q \<le> nghttp2_buf_avail (chunks bs ! 0)"
    using assms(4) by (simp_all add: q_def nghttp2_frame_headers_payload_nv_offset_def nghttp2_frame_priority_len_def nghttp2_frame_headers_init_def)
  have cur: "bufs_cur bs = 0" using assms(3) by (simp add: fresh_chain_def fresh_def)
  obtain bs1 d' bs2 rv bs3 bs4 where r: "at_buf 0 (skip_head (length q)) bs = Some bs1"
    "nghttp2_hd_deflate_hd_bufs d bs1 nva = Some (d', bs2, rv)" "at_buf 0 (take_back (length q)) bs2 = Some bs3"
    "rv \<noteq> 0 \<longrightarrow> rv \<in> emit_errors"
    "rv = 0 \<longrightarrow> (q = [] \<longrightarrow> bs4 = bs3) \<and>
      at_buf 0 (\<lambda>b. map_option (\<lambda>x. b\<lparr>bytes_of := x\<rparr>) (wr_block (bytes_of b) (buf_pos b) q)) bs3 = Some bs4 \<and>
      ready_chain bs4 \<and> prefix q (present (chunks bs4 ! 0)) \<and>
      (\<exists>blk i' ds' is'. content bs4 = q @ blk \<and> read_header_block i blk = Some (i', map delivered nva, 0) \<and> sync d' ds' i' is')"
    using block_framed [OF assms(1-3) q(2)] by blast
  have nva: "headers_nva ?f = nva" by (simp add: nghttp2_frame_headers_init_def)
  show ?thesis
  proof (cases "rv = 0")
    case False
    then have "rv \<in> emit_errors" using r(4) by simp
    then show ?thesis
      using False r(1-3) cur q(1)
      by (auto simp: nghttp2_frame_pack_headers_def Let_def emit_errors_def pack_errors_def nghttp2_frame_headers_init_def)
  next
    case True
    obtain blk i' ds' is' where b: "ready_chain bs4" "prefix q (present (chunks bs4 ! 0))" "content bs4 = q @ blk"
      "read_header_block i blk = Some (i', map delivered nva, 0)" "sync d' ds' i' is'"
      using r(5) True by blast
    let ?h = "(frame_hd ?f)\<lparr>hd_length := nghttp2_bufs_len bs4\<rparr>"
    have h: "hd_type ?h = NGHTTP2_HEADERS" "hd_flags ?h = flags" "hd_stream_id ?h = sid" "hd_reserved ?h = 0"
      by (simp_all add: nghttp2_frame_headers_init_def nghttp2_frame_hd_init_def)
    obtain bs' fs rest where w: "frame_pack_headers_shared bs4 ?h = Some bs'" "read_frames (content bs') = Some fs" "header_sequence fs"
      "hd_type (fst (hd fs)) = NGHTTP2_HEADERS" "hd_stream_id (fst (hd fs)) = sid"
      "hd_flags (fst (hd fs)) AND NGHTTP2_FLAG_PRIORITY = flags AND NGHTTP2_FLAG_PRIORITY"
      "snd (hd fs) = q @ rest" "rest @ concat (map snd (tl fs)) = blk"
      using frames_read [OF b(1-3), of ?h] assms(5,6) h by auto
    have wrote: "(if hd_flags (frame_hd ?f) AND NGHTTP2_FLAG_PRIORITY \<noteq> 0
        then at_buf 0 (\<lambda>b. map_option (\<lambda>x. b\<lparr>bytes_of := x\<rparr>)
               (nghttp2_frame_pack_priority_spec (bytes_of b) (buf_pos b) (headers_pri_spec ?f))) bs3
        else Some bs3) = Some bs4"
      using r(5) True by (auto simp: q_def spec_block nghttp2_frame_headers_init_def nghttp2_frame_hd_init_def split: if_splits)
    have "\<exists>f'. nghttp2_frame_pack_headers bs ?f d = Some (bs', f', d', 0)"
      using r(1-3) True cur q(1) wrote w(1)
      by (simp add: nghttp2_frame_pack_headers_def Let_def nva split del: if_split)
    moreover have "\<exists>g. receive_headers (content bs') = Some (g, blk) \<and> hd_stream_id (frame_hd g) = sid \<and>
       headers_pri_spec g = (if flags AND NGHTTP2_FLAG_PRIORITY \<noteq> 0 then spec else nghttp2_priority_spec_default_init)"
      using w unpack_spec_bytes [OF assms(7), of rest]
      by (auto simp: receive_headers_def nghttp2_frame_unpack_headers_payload_def q_def nghttp2_frame_headers_payload_nv_offset_def
          nghttp2_frame_priority_len_def nghttp2_frame_headers_init_def)
    ultimately show ?thesis using b(4,5) by fastforce
  qed
qed


theorem push_promise_on_the_wire:
  assumes "sync d ds i is" "list_all nv_fits nva" "fresh_chain bs" "4 \<le> nghttp2_buf_avail (chunks bs ! 0)"
    and "flags AND NGHTTP2_FLAG_END_HEADERS \<noteq> 0" "id_ok sid" "id_ok promised"
  shows "\<exists>bs' f d' rv. nghttp2_frame_pack_push_promise bs (nghttp2_frame_push_promise_init flags sid promised nva) d = Some (bs', f, d', rv) \<and>
    (if rv \<noteq> 0 then rv \<in> pack_errors
     else \<exists>g blk i' ds' is'. receive_push_promise (content bs') = Some (g, blk) \<and> hd_stream_id (frame_hd g) = sid \<and>
       promised_stream_id g = promised \<and> read_header_block i blk = Some (i', map delivered nva, 0) \<and> sync d' ds' i' is')"
proof -
  let ?f = "nghttp2_frame_push_promise_init flags sid promised nva" and ?q = "be_bytes32 (word_of_int promised)"
  have cur: "bufs_cur bs = 0" using assms(3) by (simp add: fresh_chain_def fresh_def)
  have f: "push_nva ?f = nva" "promised_stream_id ?f = promised" by (simp_all add: nghttp2_frame_push_promise_init_def)
  obtain bs1 d' bs2 rv bs3 bs4 where r: "at_buf 0 (skip_head 4) bs = Some bs1"
    "nghttp2_hd_deflate_hd_bufs d bs1 nva = Some (d', bs2, rv)" "at_buf 0 (take_back 4) bs2 = Some bs3"
    "rv \<noteq> 0 \<longrightarrow> rv \<in> emit_errors"
    "rv = 0 \<longrightarrow>
      at_buf 0 (\<lambda>b. map_option (\<lambda>x. b\<lparr>bytes_of := x\<rparr>) (wr_block (bytes_of b) (buf_pos b) ?q)) bs3 = Some bs4 \<and>
      ready_chain bs4 \<and> prefix ?q (present (chunks bs4 ! 0)) \<and>
      (\<exists>blk i' ds' is'. content bs4 = ?q @ blk \<and> read_header_block i blk = Some (i', map delivered nva, 0) \<and> sync d' ds' i' is')"
    using block_framed [OF assms(1-3), of ?q] assms(4) unfolding length_be_bytes by blast
  show ?thesis
  proof (cases "rv = 0")
    case False
    then have "rv \<in> emit_errors" using r(4) by simp
    then show ?thesis
      using False r(1-3) cur f by (auto simp: nghttp2_frame_pack_push_promise_def Let_def emit_errors_def pack_errors_def)
  next
    case True
    obtain blk i' ds' is' where b: "ready_chain bs4" "prefix ?q (present (chunks bs4 ! 0))" "content bs4 = ?q @ blk"
      "read_header_block i blk = Some (i', map delivered nva, 0)" "sync d' ds' i' is'"
      using r(5) True by blast
    let ?h = "(frame_hd ?f)\<lparr>hd_length := nghttp2_bufs_len bs4\<rparr>"
    have h: "hd_type ?h = NGHTTP2_PUSH_PROMISE" "hd_flags ?h = flags" "hd_stream_id ?h = sid" "hd_reserved ?h = 0"
      by (simp_all add: nghttp2_frame_push_promise_init_def nghttp2_frame_hd_init_def)
    obtain bs' fs rest where w: "frame_pack_headers_shared bs4 ?h = Some bs'" "read_frames (content bs') = Some fs" "header_sequence fs"
      "hd_type (fst (hd fs)) = NGHTTP2_PUSH_PROMISE" "hd_stream_id (fst (hd fs)) = sid"
      "snd (hd fs) = ?q @ rest" "rest @ concat (map snd (tl fs)) = blk"
      using frames_read [OF b(1-3), of ?h] assms(5,6) h by auto
    have "\<exists>f'. nghttp2_frame_pack_push_promise bs ?f d = Some (bs', f', d', 0)"
      using r(1-3,5) True cur f w(1) by (simp add: nghttp2_frame_pack_push_promise_def Let_def put_be_block)
    moreover have "\<exists>g. receive_push_promise (content bs') = Some (g, blk) \<and> hd_stream_id (frame_hd g) = sid \<and> promised_stream_id g = promised"
      using w id_masked [of promised] assms(7)
      by (simp add: receive_push_promise_def nghttp2_frame_unpack_push_promise_payload_def id_ok_def)
    ultimately show ?thesis using b(4,5) by fastforce
  qed
qed

section \<open>Padding\<close>

lemma be_bytes_length_type:
  "be_bytes32 (word_of_nat (n * 256 + unat ty)) = [word_of_nat (n div 65536), word_of_nat (n div 256), word_of_nat n, ty]"
proof -
  let ?a = "word_of_nat n * 256 :: u32" and ?b = "ucast ty :: u32"
  have a: "?a = push_bit 8 (word_of_nat n)" by (simp add: push_bit_eq_mult)
  have "(word_of_nat (n * 256 + unat ty) :: u32) = ?a + ?b" by simp
  also have "\<dots> = ?a OR ?b" unfolding a by (rule disjunctive_add) (auto simp: bit_simps)
  finally have "(word_of_nat (n * 256 + unat ty) :: u32) = ?a OR ?b" .
  moreover have "ucast (drop_bit k (?a OR ?b)) = (ucast (drop_bit k ?a) :: u8)" if "8 \<le> k" for k
    unfolding a using that by (intro bit_word_eqI) (auto simp: bit_simps)
  moreover have "ucast (?a OR ?b) = ty" unfolding a by (rule bit_word_eqI) (auto simp: bit_simps)
  moreover have "[ucast (drop_bit 24 ?a), ucast (drop_bit 16 ?a), ucast (drop_bit 8 ?a), ucast ?a] =
      [word_of_nat (n div 65536), word_of_nat (n div 256), word_of_nat n, 0 :: u8]"
    using be_bytes_length [of n] unfolding be_bytes32_def .
  ultimately show ?thesis unfolding be_bytes32_def by simp
qed

text \<open>The padded frame: the length of the padding in front, the padding behind.\<close>

definition padded :: "wire_frame \<Rightarrow> nat \<Rightarrow> wire_frame" where
  "padded f n = ((fst f)\<lparr>hd_length := hd_length (fst f) + n, hd_flags := hd_flags (fst f) OR NGHTTP2_FLAG_PADDED\<rparr>,
     word_of_nat (n - 1) # snd f @ replicate (n - 1) 0)"

text \<open>Access behind a known part of an array.\<close>

lemma at_offset:
  "rd (A @ xs) (length A + k) = rd xs k" "rd (A @ xs) (length A) = rd xs 0"
  "wr (A @ xs) (length A + k) x = map_option ((@) A) (wr xs k x)"
  "wr_block (A @ xs) (length A) ys = map_option ((@) A) (wr_block xs 0 ys)"
  "rd_block (A @ xs) (length A + k) n = rd_block xs k n" "rd_block (A @ xs) (length A) n = rd_block xs 0 n"
  "rd_block (A @ xs) (Suc (length A)) n = rd_block xs 1 n"
  by (auto simp: rd_def wr_def wr_block_def rd_block_def nth_append list_update_append)

lemma at_cons:
  "rd (y # ys) k = (if k < Suc (length ys) then Some ((y # ys) ! k) else None)"
  "wr (y # ys) k x = (if k < Suc (length ys) then Some ((y # ys)[k := x]) else None)"
  "wr_block (y # ys) 0 zs = (if length zs \<le> Suc (length ys) then Some (zs @ drop (length zs) (y # ys)) else None)"
  "rd_block (y # ys) k n = (if k + n \<le> Suc (length ys) then Some (take n (drop k (y # ys))) else None)"
  by (simp_all add: rd_def wr_def wr_block_def rd_block_def)

lemma present_middle:
  "bytes_of b = A @ w @ B \<Longrightarrow> buf_pos b = length A \<Longrightarrow> buf_last b = length A + length w \<Longrightarrow> present b = w"
  by (simp add: present_def)

lemma set_pad_ok:
  assumes b: "buf_ok b" "1 \<le> buf_pos b" and f: "present b = frame_bytes f" "frame_ok f"
    and n: "1 \<le> n" "n - 1 \<le> nghttp2_buf_avail b"
  shows "\<exists>b'. frame_set_pad b n False = Some b' \<and> buf_ok b' \<and> present b' = frame_bytes (padded f n)"
proof -
  obtain l2 l1 l0 ty fl s3 s2 s1 s0 where h: "hd_bytes (hd_length (fst f)) (hd_type (fst f)) (hd_flags (fst f)) (hd_stream_id (fst f)) =
      [l2, l1, l0, ty, fl, s3, s2, s1, s0]" and ty: "ty = hd_type (fst f)" and fl: "fl = hd_flags (fst f)"
    by (simp add: hd_bytes_def be_bytes32_def)
  let ?p = "buf_pos b" and ?a = "bytes_of b" and ?n = "hd_length (fst f)"
  define A where "A = take (?p - 1) ?a"
  define B where "B = drop (buf_last b) ?a"
  have le: "?p \<le> buf_last b" "buf_last b \<le> length ?a" using b(1) by (simp_all add: buf_ok_def nghttp2_buf_cap_def)
  have A: "?p = length A + 1" using le b(2) by (simp add: A_def)
  have q: "take (buf_last b - ?p) (drop ?p ?a) = [l2, l1, l0, ty, fl, s3, s2, s1, s0] @ snd f"
    using f(1) h by (simp add: present_def frame_bytes_def drop_take)
  then have last: "buf_last b = length A + 10 + length (snd f)"
  proof -
    have "length (take (buf_last b - ?p) (drop ?p ?a)) = buf_last b - ?p" using le by simp
    then show ?thesis using le(1) A unfolding q by simp
  qed
  have "?a = take (?p - 1) ?a @ ?a ! (?p - 1) # drop ?p ?a"
    using id_take_nth_drop [of "?p - 1" ?a] le b(2) Suc_diff_1 [of ?p] by simp
  moreover have "drop ?p ?a = take (buf_last b - ?p) (drop ?p ?a) @ B" using le unfolding B_def
    by (metis append_take_drop_id drop_drop le_add_diff_inverse2)
  ultimately obtain x where a: "?a = A @ [x, l2, l1, l0, ty, fl, s3, s2, s1, s0] @ snd f @ B"
    unfolding q A_def by simp
  have B: "n - 1 \<le> length B" using n(2) by (simp add: B_def nghttp2_buf_avail_def nghttp2_buf_cap_def)
  have len: "?n = length (snd f)" "?n < 2 ^ 24" using f(2) by (simp_all add: frame_ok_def) (metis hd_init_simps(1))+
  have l: "l2 = word_of_nat (?n div 65536)" "l1 = word_of_nat (?n div 256)" "l0 = word_of_nat ?n"
    "be_bytes32 (word_of_int (hd_stream_id (fst f))) = [s3, s2, s1, s0]" using h by (simp_all add: hd_bytes_def)
  have old: "unat (drop_bit 8 (of_be32 [l2, l1, l0, ty])) = ?n" unfolding l(1-3) by (rule length_field [OF len(2)])
  let ?m = "?n + n"
  let ?new = "[word_of_nat (?m div 65536), word_of_nat (?m div 256), word_of_nat ?m, ty, fl OR NGHTTP2_FLAG_PADDED, s3, s2, s1, s0]"
  let ?d = "A @ ?new @ word_of_nat (n - 1) # snd f @ B"
  have new: "be_bytes32 (word_of_nat (?m * 256 + unat ty)) = [word_of_nat (?m div 65536), word_of_nat (?m div 256), word_of_nat ?m, ty]"
    by (rule be_bytes_length_type)
  have pad: "frame_set_pad b n False = buf_put (replicate (n - 1) 0) (b\<lparr>buf_pos := length A, bytes_of := ?d\<rparr>)"
    using A old new
    by (simp add: frame_set_pad_def a at_offset at_cons Let_def put_be_block nghttp2_get_uint32_def del: of_nat_add of_nat_mult of_be32.simps)
  let ?b1 = "b\<lparr>buf_pos := length A, bytes_of := ?d\<rparr>"
  have b1: "buf_ok ?b1" using last by (simp add: buf_ok_def nghttp2_buf_cap_def)
  have "n - 1 \<le> nghttp2_buf_avail ?b1" using B last by (simp add: nghttp2_buf_avail_def nghttp2_buf_cap_def)
  then obtain b' where b': "buf_put (replicate (n - 1) 0) ?b1 = Some b'" "buf_ok b'" "present b' = present ?b1 @ replicate (n - 1) 0"
    using present_put [OF b1, of "replicate (n - 1) 0"] by auto
  have "present ?b1 = ?new @ word_of_nat (n - 1) # snd f"
    by (rule present_middle [of _ A _ B]) (use last in simp_all)
  moreover have "frame_bytes (padded f n) = ?new @ word_of_nat (n - 1) # snd f @ replicate (n - 1) 0"
    using l(4) by (simp add: frame_bytes_def padded_def hd_bytes_def ty fl)
  ultimately show ?thesis using pad b' by simp
qed


text \<open>The pieces in which a padded payload is read, without what the receiver takes for padding.\<close>

fun effective_parts :: "'a nghttp2_frame_common_scheme \<Rightarrow> nat \<Rightarrow> nat \<Rightarrow> bytes list \<Rightarrow> bytes" where
  "effective_parts f padlen payloadleft [] = []"
| "effective_parts f padlen payloadleft (c # cs) =
     take (nat (inbound_frame_effective_readlen f padlen (payloadleft - length c) (length c))) c @
     effective_parts f padlen (payloadleft - length c) cs"

lemma effective_parts_ok:
  "nghttp2_frame_trail_padlen f k \<le> length p \<Longrightarrow> concat cs = p \<Longrightarrow>
   effective_parts f k (length p) cs = take (length p - nghttp2_frame_trail_padlen f k) p"
proof -
  let ?t = "nghttp2_frame_trail_padlen f k"
  have "concat cs = p \<Longrightarrow> effective_parts f k (length p) cs = take (length p - ?t) p" for p
  proof (induction cs arbitrary: p)
    case (Cons c cs)
    have p: "p = c @ concat cs" using Cons.prems by simp
    have "nat (inbound_frame_effective_readlen f k (length (concat cs)) (length c)) =
        (if length (concat cs) < ?t then length c - (?t - length (concat cs)) else length c)"
      by (simp add: inbound_frame_effective_readlen_def Let_def del: of_nat_diff)
    moreover have "take (length p - ?t) p = take (length p - ?t) c @ take (length (concat cs) - ?t) (concat cs)"
      unfolding p by auto
    ultimately show ?case using Cons.IH [OF refl] unfolding p by auto
  qed simp
  then show "?t \<le> length p \<Longrightarrow> concat cs = p \<Longrightarrow> ?thesis" by blast
qed

text \<open>
  C11. Padding comes off again. When it is added to the first frame of a chain, the wire has that frame
  with the flag and a length that counts the padding, all else in its header unchanged, with the
  number of padding bytes, the payload and as many zeros as content, and the other frames as they
  were; and the receiver, who learns from the first byte how much is padding, gets exactly the
  payload, in whatever pieces it is read.
\<close>

theorem padding_comes_off:
  assumes "bufs_ok bs" "1 \<le> buf_pos (chunks bs ! 0)" "present (chunks bs ! 0) = frame_bytes f"
    and "content bs = frame_bytes f @ concat (map frame_bytes fs)" "list_all frame_ok (f # fs)"
    and "1 \<le> n" "n \<le> 256" "n - 1 \<le> nghttp2_buf_avail (chunks bs ! 0)" "length (snd f) + n < 2 ^ 24"
  shows "\<exists>bs' h p. nghttp2_frame_add_pad bs (fst f) n False = Some (bs', h) \<and> read_frames (content bs') = Some ((h, p) # fs) \<and>
    h = (fst f)\<lparr>hd_length := length (snd f) + n, hd_flags := hd_flags (fst f) OR NGHTTP2_FLAG_PADDED\<rparr> \<and>
    p = word_of_nat (n - 1) # snd f @ replicate (n - 1) 0 \<and>
    inbound_frame_compute_pad p (length p - 1) = Some (int n) \<and>
    (\<forall>cs. concat cs = tl p \<longrightarrow> effective_parts \<lparr>frame_hd = h\<rparr> n (length p - 1) cs = snd f)"
proof -
  let ?g = "padded f n" and ?b = "chunks bs ! 0"
  have len: "0 < length (chunks bs)" and ok: "buf_ok ?b" using head_buf_ok [OF assms(1)] by simp_all
  have f: "frame_ok f" "list_all frame_ok fs" using assms(5) by simp_all
  have lf: "hd_length (fst f) = length (snd f)" using f(1) by (simp add: frame_ok_def) (metis hd_init_simps(1))
  obtain b' where b': "frame_set_pad ?b n False = Some b'" "buf_ok b'" "present b' = frame_bytes ?g"
    using set_pad_ok [OF ok assms(2,3) f(1) assms(6,8)] by blast
  let ?bs = "bs\<lparr>chunks := (chunks bs)[0 := b']\<rparr>"
  have add: "nghttp2_frame_add_pad bs (fst f) n False = Some (?bs, fst ?g)"
    using assms(6,8) b'(1) len by (simp add: nghttp2_frame_add_pad_def at_buf_def padded_def)
  have content: "content ?bs = concat (map frame_bytes (?g # fs))"
  proof -
    obtain c cs where "chunks bs = c # cs" using len by (cases "chunks bs") auto
    then show ?thesis using assms(3,4) b'(3) by (simp add: content_def)
  qed
  have g: "frame_ok ?g" using f(1) lf assms(6,9) by (cases "fst f") (auto simp: frame_ok_def padded_def nghttp2_frame_hd_init_def)
  have "read_frames (content ?bs) = Some (?g # fs)" unfolding content using f(2) g by (intro read_frames_bytes) simp
  moreover have "unat (word_of_nat (n - 1) :: u8) = n - 1" using assms(7) by (intro word_of_nat_unat_le) simp
  then have "inbound_frame_compute_pad (snd ?g) (length (snd ?g) - 1) = Some (int n)"
    using assms(6) by (simp add: inbound_frame_compute_pad_def padded_def rd_def)
  moreover have "effective_parts \<lparr>frame_hd = fst ?g\<rparr> n (length (snd ?g) - 1) cs = snd f" if "concat cs = tl (snd ?g)" for cs
  proof -
    have "(x OR NGHTTP2_FLAG_PADDED) AND NGHTTP2_FLAG_PADDED = NGHTTP2_FLAG_PADDED" for x :: u8
      by (rule bit_word_eqI) (auto simp: bit_and_iff bit_or_iff simp del: bit_numeral_word_iff)
    then have "nghttp2_frame_trail_padlen \<lparr>frame_hd = fst ?g\<rparr> n = n - 1"
      using assms(6) by (simp add: nghttp2_frame_trail_padlen_def padded_def)
    then show ?thesis using effective_parts_ok [of "\<lparr>frame_hd = fst ?g\<rparr>" n "tl (snd ?g)" cs] that by (simp add: padded_def)
  qed
  moreover have "Suc (n - Suc 0) = n" using assms(6) by simp
  ultimately show ?thesis using add lf by (intro exI [of _ ?bs] exI [of _ "fst ?g"] exI [of _ "snd ?g"]) (simp_all add: padded_def)
qed


lemma init_fresh_chain:
  assumes "nghttp2_bufs_init3 len mx kp off m = (r, m', rv)" "all_succeed m" "0 < kp" "kp \<le> mx" "9 \<le> off" "off < len" "len < 2 ^ 24"
  shows "\<exists>bs. r = Some bs \<and> fresh_chain bs \<and> nghttp2_buf_avail (chunks bs ! 0) = len - off"
proof -
  obtain bs where "r = Some bs" "fresh bs" "roomy bs" "sized bs" "chunk_length bs = len" "bufs_offset bs = off"
    "length (chunks bs) = 1" "buf_pos (chunks bs ! 0) = off" "nghttp2_buf_avail (chunks bs ! 0) = len - off"
    using init_fresh [OF assms(1-6)] by blast
  then show ?thesis using assms(5-7) by (simp add: fresh_chain_def list_all_length)
qed

theorem headers_on_the_wire_witness:
  "let m = \<lparr>mem_answers = [], mem_fill = \<lambda>_. 0, mem_live = 0\<rparr>; nv = \<lparr>h_name = [0x61, 0x62], h_value = [0x63], h_flags = 0\<rparr>;
     spec = \<lparr>dep_stream_id = 3, spec_weight = 256, exclusive = 1\<rparr>; f = nghttp2_frame_headers_init 0x24 5 NGHTTP2_HCAT_REQUEST (Some spec) [nv, nv] in
   \<exists>d i bs bs' f' d' rv. fst (nghttp2_hd_deflate_init2 100 m) = Some d \<and> fst (nghttp2_hd_inflate_init m) = Some i \<and>
     fst (nghttp2_bufs_init3 16 9 1 10 m) = Some bs \<and> nghttp2_frame_pack_headers bs f d = Some (bs', f', d', rv) \<and>
     (rv \<in> pack_errors \<or> (\<exists>g blk i'. receive_headers (content bs') = Some (g, blk) \<and> hd_stream_id (frame_hd g) = 5 \<and>
       headers_pri_spec g = spec \<and> read_header_block i blk = Some (i', [delivered nv, delivered nv], 0)))"
proof -
  define m where "m = \<lparr>mem_answers = [], mem_fill = \<lambda>_. 0 :: u8, mem_live = 0\<rparr>"
  define nv where "nv = \<lparr>h_name = [0x61, 0x62], h_value = [0x63], h_flags = (0 :: u8)\<rparr>"
  define spec where "spec = \<lparr>dep_stream_id = 3, spec_weight = 256, exclusive = 1\<rparr>"
  have mem: "all_succeed m" by (simp add: m_def all_succeed_def)
  obtain d0 m1 rv1 where d0: "nghttp2_hd_deflate_init2 100 m = (d0, m1, rv1)" by (cases "nghttp2_hd_deflate_init2 100 m")
  obtain i0 m2 rv2 where i0: "nghttp2_hd_inflate_init m = (i0, m2, rv2)" by (cases "nghttp2_hd_inflate_init m")
  obtain b0 m3 rv3 where b0: "nghttp2_bufs_init3 16 9 1 10 m = (b0, m3, rv3)" by (cases "nghttp2_bufs_init3 16 9 1 10 m")
  have "rv1 = 0 \<and> d0 \<noteq> None" "rv2 = 0 \<and> i0 \<noteq> None"
    using deflate_init_ok [OF d0] inflate_init_ok [OF i0] mem by (auto simp: all_succeed_def split: if_splits)
  then obtain d i where d: "nghttp2_hd_deflate_init2 100 m = (Some d, m1, 0)" and i: "nghttp2_hd_inflate_init m = (Some i, m2, 0)"
    using d0 i0 by auto
  obtain bs where bs: "b0 = Some bs" "fresh_chain bs" "nghttp2_buf_avail (chunks bs ! 0) = 6"
    using init_fresh_chain [OF b0 mem] by auto
  have nva: "list_all nv_fits [nv, nv]" "spec_ok spec" by (simp_all add: nv_fits_def nv_def spec_ok_def spec_def id_ok_def)
  have "\<exists>bs' f d' rv. nghttp2_frame_pack_headers bs (nghttp2_frame_headers_init 0x24 5 NGHTTP2_HCAT_REQUEST (Some spec) [nv, nv]) d = Some (bs', f, d', rv) \<and>
    (if rv \<noteq> 0 then rv \<in> pack_errors
     else \<exists>g blk i' ds' is'. receive_headers (content bs') = Some (g, blk) \<and> hd_stream_id (frame_hd g) = 5 \<and>
       headers_pri_spec g = (if (0x24 :: u8) AND NGHTTP2_FLAG_PRIORITY \<noteq> 0 then spec else nghttp2_priority_spec_default_init) \<and>
       read_header_block i blk = Some (i', map delivered [nv, nv], 0) \<and> sync d' ds' i' is')"
    by (rule headers_on_the_wire [OF sync_init [OF d _ i mem]]) (use bs nva in \<open>simp_all add: id_ok_def\<close>)
  then have "\<exists>bs' f' d' rv. nghttp2_frame_pack_headers bs (nghttp2_frame_headers_init 0x24 5 NGHTTP2_HCAT_REQUEST (Some spec) [nv, nv]) d = Some (bs', f', d', rv) \<and>
     (rv \<in> pack_errors \<or> (\<exists>g blk i'. receive_headers (content bs') = Some (g, blk) \<and> hd_stream_id (frame_hd g) = 5 \<and>
       headers_pri_spec g = spec \<and> read_header_block i blk = Some (i', [delivered nv, delivered nv], 0)))"
    by (auto split: if_splits)
  then show ?thesis unfolding m_def [symmetric] nv_def [symmetric] spec_def [symmetric] Let_def using d i b0 bs(1) by auto
qed

theorem padding_comes_off_witness:
  "let f = (nghttp2_frame_hd_init 2 NGHTTP2_DATA 1 7, [0x68, 0x69]);
     b = \<lparr>bytes_of = 0 # frame_bytes f @ [9, 9, 9, 9], buf_pos = 1, buf_last = 12, buf_mark = 0\<rparr>;
     bs = \<lparr>chunks = [b], bufs_cur = 0, bufs_mem = \<lparr>mem_answers = [], mem_fill = \<lambda>_. 0, mem_live = 0\<rparr>, chunk_length = 16,
           max_chunk = 1, chunk_used = 1, chunk_keep = 1, bufs_offset = 10\<rparr> in
   \<exists>bs' h p. nghttp2_frame_add_pad bs (fst f) 4 False = Some (bs', h) \<and> read_frames (content bs') = Some [(h, p)] \<and>
     hd_length h = 6 \<and> p = [3, 0x68, 0x69, 0, 0, 0] \<and> inbound_frame_compute_pad p 5 = Some 4 \<and> effective_parts \<lparr>frame_hd = h\<rparr> 4 5 [take 3 (tl p), drop 3 (tl p)] = [0x68, 0x69]"
proof -
  define f where "f = (nghttp2_frame_hd_init 2 NGHTTP2_DATA 1 7, [0x68, 0x69 :: u8])"
  define b where "b = \<lparr>bytes_of = 0 # frame_bytes f @ [9, 9, 9, 9], buf_pos = 1, buf_last = 12, buf_mark = 0\<rparr>"
  define bs where "bs = \<lparr>chunks = [b], bufs_cur = 0, bufs_mem = \<lparr>mem_answers = [], mem_fill = \<lambda>_. 0 :: u8, mem_live = 0\<rparr>, chunk_length = 16,
    max_chunk = 1, chunk_used = 1, chunk_keep = 1, bufs_offset = 10\<rparr>"
  have len: "length (frame_bytes f) = 11" by (simp add: frame_bytes_def f_def)
  then have p: "present b = frame_bytes f" by (simp add: present_def b_def)
  have ok: "bufs_ok bs" "frame_ok f" using len by (simp_all add: bufs_ok_def bs_def buf_ok_def b_def nghttp2_buf_cap_def frame_ok_def f_def id_ok_def nghttp2_frame_hd_init_def)
  have c: "chunks bs ! 0 = b" "content bs = frame_bytes f" "nghttp2_buf_avail b = 4"
    using p len by (simp_all add: bs_def content_def) (simp add: b_def nghttp2_buf_avail_def nghttp2_buf_cap_def)
  obtain bs' h p' where r: "nghttp2_frame_add_pad bs (fst f) 4 False = Some (bs', h)" "read_frames (content bs') = Some [(h, p')]"
    "hd_length h = length (snd f) + 4" "p' = word_of_nat 3 # snd f @ replicate 3 0" "inbound_frame_compute_pad p' (length p' - 1) = Some (int 4)"
    "\<forall>cs. concat cs = tl p' \<longrightarrow> effective_parts \<lparr>frame_hd = h\<rparr> 4 (length p' - 1) cs = snd f"
    using padding_comes_off [OF ok(1), of f "[]" 4] p ok(2) c by (auto simp: b_def f_def)
  have f2: "snd f = [0x68, 0x69]" by (simp add: f_def)
  then have len: "length p' = 6" and p': "p' = [3, 0x68, 0x69, 0, 0, 0]" using r(4) by (simp_all add: numeral_eq_Suc)
  have "concat [take 3 (tl p'), drop 3 (tl p')] = tl p'" by simp
  then have "effective_parts \<lparr>frame_hd = h\<rparr> 4 (length p' - 1) [take 3 (tl p'), drop 3 (tl p')] = snd f" using r(6) by blast
  then have "effective_parts \<lparr>frame_hd = h\<rparr> 4 5 [take 3 (tl p'), drop 3 (tl p')] = [0x68, 0x69]"
    by (simp add: len f2 del: effective_parts.simps)
  moreover have "inbound_frame_compute_pad p' 5 = Some 4" using r(5) by (simp add: len)
  moreover have "hd_length h = 6" using r(3) by (simp add: f2)
  ultimately have "nghttp2_frame_add_pad bs (fst f) 4 False = Some (bs', h) \<and> read_frames (content bs') = Some [(h, p')] \<and>
     hd_length h = 6 \<and> p' = [3, 0x68, 0x69, 0, 0, 0] \<and> inbound_frame_compute_pad p' 5 = Some 4 \<and>
     effective_parts \<lparr>frame_hd = h\<rparr> 4 5 [take 3 (tl p'), drop 3 (tl p')] = [0x68, 0x69]"
    using r(1,2) p' by blast
  then show ?thesis unfolding f_def [symmetric] b_def [symmetric] bs_def [symmetric] Let_def by blast
qed

end
