(* ===== verification/Ng_Map.thy ===== *)
theory Ng_Map
  imports Ng_Base
begin

text \<open>
  The map of the HTTP/2 library, \<^verbatim>\<open>nghttp2_map.c\<close>: an open hash table in which an entry
  that is farther from its base than the one it meets takes that one's bucket. An empty bucket has
  no data (\<^verbatim>\<open>bkt->data == NULL\<close>). The keys are the values of \<^verbatim>\<open>int32_t\<close>; the
  base of a bucket is the top bits of its hash, and a shift by the width of the word is undefined.
  The loops are partial functions: \<open>None\<close> is an access outside the table, an undefined shift, a
  failed assertion, or a loop that does not end.

  The loops end because the order of the distances in the table (\<open>rh_ok\<close>) survives
  insertion, growth and removal.
\<close>

section \<open>Buckets and tables\<close>

record 'a nghttp2_map_bucket =
  bkt_hash :: u32
  bkt_key :: int
  bkt_data :: "'a option"

record 'a nghttp2_map =
  map_table :: "'a nghttp2_map_bucket list"
  map_count :: nat
  map_tablelen :: u32
  map_tablelenbits :: u32

abbreviation NGHTTP2_INITIAL_TABLE_LENBITS :: u32 where "NGHTTP2_INITIAL_TABLE_LENBITS \<equiv> 4"

definition empty_bucket :: "'a nghttp2_map_bucket" where
  "empty_bucket = \<lparr>bkt_hash = 0, bkt_key = 0, bkt_data = None\<rparr>"

definition nghttp2_map_init :: "'a nghttp2_map" where
  "nghttp2_map_init = \<lparr>map_table = [], map_count = 0, map_tablelen = 0, map_tablelenbits = 0\<rparr>"

definition map_hash :: "int \<Rightarrow> u32" where
  "map_hash key = word_of_int key * 2654435769"

definition h2idx :: "u32 \<Rightarrow> u32 \<Rightarrow> nat option" where
  "h2idx h bits = (if unat (32 - bits) < 32 then Some (unat (drop_bit (unat (32 - bits)) h)) else None)"

text \<open>The mask has 32 bits, so the difference is written with 32 bits.\<close>

definition map_distance :: "u32 \<Rightarrow> u32 \<Rightarrow> 'a nghttp2_map_bucket \<Rightarrow> nat \<Rightarrow> nat option" where
  "map_distance tablelen tablelenbits bkt idx = do {
     h \<leftarrow> h2idx (bkt_hash bkt) tablelenbits;
     Some (unat ((word_of_nat idx - word_of_nat h) AND (tablelen - 1)))
   }"

definition next_bucket :: "u32 \<Rightarrow> nat \<Rightarrow> nat" where
  "next_bucket tablelen idx = unat ((word_of_nat idx + 1) AND (tablelen - 1))"

section \<open>Insertion\<close>

text \<open>The entry on its way is \<open>e\<close>; the swap of the C code puts it down and takes the other.\<close>

partial_function (option) insert_probe ::
  "'a nghttp2_map_bucket list \<Rightarrow> u32 \<Rightarrow> u32 \<Rightarrow> 'a nghttp2_map_bucket \<Rightarrow> nat \<Rightarrow> nat \<Rightarrow>
     ('a nghttp2_map_bucket list \<times> int) option" where
  "insert_probe table tablelen bits e idx d = do {
     bkt \<leftarrow> rd table idx;
     if bkt_data bkt = None then do { table' \<leftarrow> wr table idx e; Some (table', 0) }
     else do {
       dd \<leftarrow> map_distance tablelen bits bkt idx;
       if dd < d then do {
         table' \<leftarrow> wr table idx e;
         insert_probe table' tablelen bits bkt (next_bucket tablelen idx) (dd + 1)
       }
       else if bkt_key bkt = bkt_key e then Some (table, NGHTTP2_ERR_INVALID_ARGUMENT)
       else insert_probe table tablelen bits e (next_bucket tablelen idx) (d + 1)
     }
   }"

definition map_insert_table ::
  "'a nghttp2_map_bucket list \<Rightarrow> u32 \<Rightarrow> u32 \<Rightarrow> u32 \<Rightarrow> int \<Rightarrow> 'a option \<Rightarrow>
     ('a nghttp2_map_bucket list \<times> int) option" where
  "map_insert_table table tablelen bits h key data = do {
     idx \<leftarrow> h2idx h bits;
     insert_probe table tablelen bits \<lparr>bkt_hash = h, bkt_key = key, bkt_data = data\<rparr> idx 0
   }"

fun rehash_into :: "'a nghttp2_map_bucket list \<Rightarrow> u32 \<Rightarrow> u32 \<Rightarrow> 'a nghttp2_map_bucket list \<Rightarrow>
    'a nghttp2_map_bucket list option" where
  "rehash_into [] tablelen bits new_table = Some new_table"
| "rehash_into (bkt # bs) tablelen bits new_table =
     (if bkt_data bkt = None then rehash_into bs tablelen bits new_table
      else do {
        (new_table', rv) \<leftarrow> map_insert_table new_table tablelen bits (bkt_hash bkt) (bkt_key bkt) (bkt_data bkt);
        if rv = 0 then rehash_into bs tablelen bits new_table' else None
      })"

text \<open>
  \<^verbatim>\<open>calloc\<close> gives zeros, and fails when the product of its arguments is more than the
  address space holds; a bucket of the device has 12 bytes.
\<close>

definition calloc_buckets :: "mem \<Rightarrow> u32 \<Rightarrow> 'a nghttp2_map_bucket list option \<times> mem" where
  "calloc_buckets m n =
     (case mem_alloc m of
        (ok, m') \<Rightarrow> (if ok \<and> unat n * 12 < 2 ^ 32 then Some (replicate (unat n) empty_bucket) else None, m'))"

definition map_resize :: "'a nghttp2_map \<Rightarrow> mem \<Rightarrow> u32 \<Rightarrow> u32 \<Rightarrow> ('a nghttp2_map \<times> mem \<times> int) option" where
  "map_resize mp m new_tablelen new_tablelenbits =
     (case calloc_buckets m new_tablelen of
        (None, m') \<Rightarrow> Some (mp, m', NGHTTP2_ERR_NOMEM)
      | (Some new_table, m') \<Rightarrow> do {
          table \<leftarrow> rehash_into (map_table mp) new_tablelen new_tablelenbits new_table;
          Some (mp\<lparr>map_tablelen := new_tablelen, map_tablelenbits := new_tablelenbits, map_table := table\<rparr>, m', 0)
        })"

definition nghttp2_map_insert :: "'a nghttp2_map \<Rightarrow> mem \<Rightarrow> int \<Rightarrow> 'a \<Rightarrow> ('a nghttp2_map \<times> mem \<times> int) option" where
  "nghttp2_map_insert mp m key data = do {
     (map1, m1, rv) \<leftarrow>
       (if unat (map_tablelen mp * 3) < (map_count mp + 1) * 4
        then if map_tablelen mp \<noteq> 0
             then map_resize mp m (map_tablelen mp * 2) (map_tablelenbits mp + 1)
             else map_resize mp m (push_bit (unat NGHTTP2_INITIAL_TABLE_LENBITS) 1) NGHTTP2_INITIAL_TABLE_LENBITS
        else Some (mp, m, 0));
     if rv \<noteq> 0 then Some (map1, m1, rv)
     else do {
       (table, rv2) \<leftarrow> map_insert_table (map_table map1) (map_tablelen map1) (map_tablelenbits map1)
                        (map_hash key) key (Some data);
       if rv2 \<noteq> 0 then Some (map1\<lparr>map_table := table\<rparr>, m1, rv2)
       else Some (map1\<lparr>map_table := table, map_count := map_count map1 + 1\<rparr>, m1, 0)
     }
   }"

section \<open>Finding and removing\<close>

text \<open>Both loops look for the bucket of the key; its index is the answer.\<close>

partial_function (option) find_probe ::
  "'a nghttp2_map_bucket list \<Rightarrow> u32 \<Rightarrow> u32 \<Rightarrow> int \<Rightarrow> nat \<Rightarrow> nat \<Rightarrow> nat option option" where
  "find_probe table tablelen bits key idx d = do {
     bkt \<leftarrow> rd table idx;
     if bkt_data bkt = None then Some None
     else do {
       dd \<leftarrow> map_distance tablelen bits bkt idx;
       if dd < d then Some None
       else if bkt_key bkt = key then Some (Some idx)
       else find_probe table tablelen bits key (next_bucket tablelen idx) (d + 1)
     }
   }"

definition nghttp2_map_find :: "'a nghttp2_map \<Rightarrow> int \<Rightarrow> 'a option option" where
  "nghttp2_map_find mp key =
     (if map_count mp = 0 then Some None
      else do {
        idx \<leftarrow> h2idx (map_hash key) (map_tablelenbits mp);
        found \<leftarrow> find_probe (map_table mp) (map_tablelen mp) (map_tablelenbits mp) key idx 0;
        (case found of None \<Rightarrow> Some None
         | Some i \<Rightarrow> do { bkt \<leftarrow> rd (map_table mp) i; Some (bkt_data bkt) })
      })"

partial_function (option) shift_back ::
  "'a nghttp2_map_bucket list \<Rightarrow> u32 \<Rightarrow> u32 \<Rightarrow> nat \<Rightarrow> nat \<Rightarrow> 'a nghttp2_map_bucket list option" where
  "shift_back table tablelen bits didx idx = do {
     bkt \<leftarrow> rd table idx;
     if bkt_data bkt = None then Some table
     else do {
       dd \<leftarrow> map_distance tablelen bits bkt idx;
       if dd = 0 then Some table
       else do {
         table1 \<leftarrow> wr table didx bkt;
         table2 \<leftarrow> wr table1 idx empty_bucket;
         shift_back table2 tablelen bits idx (next_bucket tablelen idx)
       }
     }
   }"

definition nghttp2_map_remove :: "'a nghttp2_map \<Rightarrow> int \<Rightarrow> ('a nghttp2_map \<times> int) option" where
  "nghttp2_map_remove mp key =
     (if map_count mp = 0 then Some (mp, NGHTTP2_ERR_INVALID_ARGUMENT)
      else do {
        idx \<leftarrow> h2idx (map_hash key) (map_tablelenbits mp);
        found \<leftarrow> find_probe (map_table mp) (map_tablelen mp) (map_tablelenbits mp) key idx 0;
        (case found of
           None \<Rightarrow> Some (mp, NGHTTP2_ERR_INVALID_ARGUMENT)
         | Some i \<Rightarrow> do {
             table \<leftarrow> wr (map_table mp) i empty_bucket;
             table' \<leftarrow> shift_back table (map_tablelen mp) (map_tablelenbits mp) i
                         (next_bucket (map_tablelen mp) i);
             Some (mp\<lparr>map_table := table', map_count := map_count mp - 1\<rparr>, 0)
           })
      })"

definition nghttp2_map_clear :: "'a nghttp2_map \<Rightarrow> 'a nghttp2_map" where
  "nghttp2_map_clear mp =
     (if map_tablelen mp = 0 then mp
      else mp\<lparr>map_table := replicate (unat (map_tablelen mp)) empty_bucket, map_count := 0\<rparr>)"

definition nghttp2_map_size :: "'a nghttp2_map \<Rightarrow> nat" where
  "nghttp2_map_size mp = map_count mp"

text \<open>
  The callback threads a state of its own; the loop ends at its first answer that is not zero. The
  loop of \<^verbatim>\<open>nghttp2_map_each_free\<close> ignores the answers.
\<close>

fun each_bucket :: "('a \<Rightarrow> 's \<Rightarrow> int \<times> 's) \<Rightarrow> 'a nghttp2_map_bucket list \<Rightarrow> 's \<Rightarrow> int \<times> 's" where
  "each_bucket func [] s = (0, s)"
| "each_bucket func (bkt # bs) s =
     (case bkt_data bkt of
        None \<Rightarrow> each_bucket func bs s
      | Some data \<Rightarrow>
          (case func data s of (rv, s') \<Rightarrow> if rv \<noteq> 0 then (rv, s') else each_bucket func bs s'))"

definition nghttp2_map_each :: "'a nghttp2_map \<Rightarrow> ('a \<Rightarrow> 's \<Rightarrow> int \<times> 's) \<Rightarrow> 's \<Rightarrow> int \<times> 's" where
  "nghttp2_map_each mp func s = (if map_count mp = 0 then (0, s) else each_bucket func (map_table mp) s)"

fun each_free_bucket :: "('a \<Rightarrow> 's \<Rightarrow> int \<times> 's) \<Rightarrow> 'a nghttp2_map_bucket list \<Rightarrow> 's \<Rightarrow> 's" where
  "each_free_bucket func [] s = s"
| "each_free_bucket func (bkt # bs) s =
     (case bkt_data bkt of
        None \<Rightarrow> each_free_bucket func bs s
      | Some data \<Rightarrow> each_free_bucket func bs (snd (func data s)))"

definition nghttp2_map_each_free :: "'a nghttp2_map \<Rightarrow> ('a \<Rightarrow> 's \<Rightarrow> int \<times> 's) \<Rightarrow> 's \<Rightarrow> 's" where
  "nghttp2_map_each_free mp func s = each_free_bucket func (map_table mp) s"

end
