(* ===== verification/Ng_Map_Ring.thy ===== *)
theory Ng_Map_Ring
  imports Ng_Map "HOL-Library.Multiset"
begin

text \<open>
  The order of the entries in an open hash table, for any number of buckets and any assignment of
  bases (locale \<open>robin_table\<close>): what lies between the base of an entry and its bucket, and that
  the steps of insertion and removal keep the order.
\<close>

section \<open>Distances on a ring\<close>

definition ring_suc :: "nat \<Rightarrow> nat \<Rightarrow> nat" where
  "ring_suc n i = (i + 1) mod n"

definition gap :: "nat \<Rightarrow> nat \<Rightarrow> nat \<Rightarrow> nat" where
  "gap n h i = (i + n - h) mod n"

lemma ring_suc_cases: "i < n \<Longrightarrow> ring_suc n i = (if i + 1 = n then 0 else i + 1)"
  by (simp add: ring_suc_def)

lemma gap_cases: "h < n \<Longrightarrow> i < n \<Longrightarrow> gap n h i = (if h \<le> i then i - h else i + n - h)"
proof (cases "h \<le> i")
  case True
  assume "h < n" "i < n"
  then have "i + n - h = (i - h) + n" using True by simp
  then show ?thesis using True \<open>i < n\<close> by (simp add: gap_def mod_add_self2 del: Nat.add_diff_assoc Nat.add_diff_assoc2)
qed (simp add: gap_def)

lemma ring_suc_lt [simp]: "i < n \<Longrightarrow> ring_suc n i < n"
  by (auto simp: ring_suc_cases)

lemma ring_suc_inj: "i < n \<Longrightarrow> j < n \<Longrightarrow> ring_suc n i = ring_suc n j \<Longrightarrow> i = j"
  by (auto simp: ring_suc_cases split: if_splits)

lemma gap_lt [simp]: "i < n \<Longrightarrow> gap n h i < n"
  by (simp add: gap_def)

lemma gap_refl [simp]: "h < n \<Longrightarrow> gap n h h = 0"
  by (simp add: gap_def)

lemma gap_inj: "h < n \<Longrightarrow> i < n \<Longrightarrow> j < n \<Longrightarrow> gap n h i = gap n h j \<Longrightarrow> i = j"
  by (auto simp: gap_cases split: if_splits)

lemma gap_ring_suc:
  "h < n \<Longrightarrow> i < n \<Longrightarrow> gap n h (ring_suc n i) = (if gap n h i + 1 = n then 0 else gap n h i + 1)"
  by (auto simp: gap_cases ring_suc_cases split: if_splits)

lemma gap_from_suc: "i < n \<Longrightarrow> z < n \<Longrightarrow> i \<noteq> z \<Longrightarrow> gap n (ring_suc n i) z + 1 = gap n i z"
  by (auto simp: gap_cases ring_suc_cases split: if_splits)

lemma gap_pos_suc: "h < n \<Longrightarrow> p < n \<Longrightarrow> 0 < gap n h (ring_suc n p) \<Longrightarrow> gap n h (ring_suc n p) = gap n h p + 1"
  by (simp add: gap_ring_suc split: if_splits)

section \<open>The order of a table\<close>

abbreviation occ :: "'a nghttp2_map_bucket \<Rightarrow> bool" where "occ b \<equiv> bkt_data b \<noteq> None"

text \<open>
  An entry with base \<open>h\<close> may be in bucket \<open>j\<close> when that is its base or the bucket before is
  taken by an entry that is at most one nearer to its own base.
\<close>

definition in_reach :: "nat \<Rightarrow> ('a nghttp2_map_bucket \<Rightarrow> nat) \<Rightarrow> 'a nghttp2_map_bucket list \<Rightarrow> nat \<Rightarrow> nat \<Rightarrow> bool" where
  "in_reach n base t h j \<longleftrightarrow>
     (\<forall>p<n. ring_suc n p = j \<longrightarrow> 0 < gap n h j \<longrightarrow>
        occ (t ! p) \<and> gap n h j \<le> gap n (base (t ! p)) p + 1)"

definition rh_ok :: "nat \<Rightarrow> ('a nghttp2_map_bucket \<Rightarrow> nat) \<Rightarrow> 'a nghttp2_map_bucket list \<Rightarrow> bool" where
  "rh_ok n base t \<longleftrightarrow>
     length t = n \<and> (\<forall>j<n. occ (t ! j) \<longrightarrow> in_reach n base t (base (t ! j)) j)"

lemma fitsD:
  "in_reach n base t h j \<Longrightarrow> p < n \<Longrightarrow> ring_suc n p = j \<Longrightarrow> 0 < gap n h j \<Longrightarrow>
   occ (t ! p) \<and> gap n h j \<le> gap n (base (t ! p)) p + 1"
  by (simp add: in_reach_def)

lemma rh_okD: "rh_ok n base t \<Longrightarrow> j < n \<Longrightarrow> occ (t ! j) \<Longrightarrow> in_reach n base t (base (t ! j)) j"
  by (simp add: rh_ok_def)

lemma rh_ok_length: "rh_ok n base t \<Longrightarrow> length t = n"
  by (simp add: rh_ok_def)

lemma fits_at_base [simp]: "h < n \<Longrightarrow> in_reach n base t h h"
  by (simp add: in_reach_def)

text \<open>
  While entries move back, one bucket is the hole. The entry behind it would fit into it; all others
  are in order.
\<close>

definition hole_ok :: "nat \<Rightarrow> ('a nghttp2_map_bucket \<Rightarrow> nat) \<Rightarrow> 'a nghttp2_map_bucket list \<Rightarrow> nat \<Rightarrow> bool" where
  "hole_ok n base t hole \<longleftrightarrow>
     length t = n \<and> \<not> occ (t ! hole) \<and>
     (\<forall>j<n. j \<noteq> ring_suc n hole \<longrightarrow> occ (t ! j) \<longrightarrow> in_reach n base t (base (t ! j)) j) \<and>
     (let b = t ! ring_suc n hole
      in occ b \<longrightarrow> 0 < gap n (base b) (ring_suc n hole) \<longrightarrow> in_reach n base t (base b) hole)"

locale robin_table =
  fixes n :: nat and base :: "'a nghttp2_map_bucket \<Rightarrow> nat"
  assumes base_lt: "base b < n"
begin

lemma fits_path:
  assumes "rh_ok n base t" "in_reach n base t h j" "h < n" "j < n" "i < n" "gap n h i < gap n h j"
  shows "occ (t ! i) \<and> gap n h i \<le> gap n (base (t ! i)) i"
  using assms(5,6)
proof (induction "gap n h j - gap n h i" arbitrary: i rule: less_induct)
  case less
  let ?s = "ring_suc n i"
  have lt: "gap n h j < n" using assms(4) by simp
  have s: "gap n h ?s = gap n h i + 1" "?s < n"
    using gap_ring_suc [OF assms(3) less.prems(1)] less.prems lt by simp_all
  show ?case
  proof (cases "?s = j")
    case True
    then show ?thesis using fitsD [OF assms(2) less.prems(1) True] s by auto
  next
    case False
    then have "gap n h ?s \<noteq> gap n h j" using gap_inj [OF assms(3) s(2) assms(4)] by auto
    then have later: "gap n h ?s < gap n h j" using s(1) less.prems(2) by simp
    have "occ (t ! ?s) \<and> gap n h ?s \<le> gap n (base (t ! ?s)) ?s"
      by (rule less.hyps) (use later s less.prems in simp_all)
    then show ?thesis
      using fitsD [OF rh_okD [OF assms(1) s(2)] less.prems(1) refl] s(1) by auto
  qed
qed

lemma no_entry_left_of_base:
  assumes "rh_ok n base t" "j < n" "occ (t ! j)" "i < n" "gap n (base (t ! j)) i \<le> gap n (base (t ! j)) j"
  shows "occ (t ! i) \<and> gap n (base (t ! j)) i \<le> gap n (base (t ! i)) i"
proof (cases "gap n (base (t ! j)) i = gap n (base (t ! j)) j")
  case True
  then have "i = j" using gap_inj [OF base_lt assms(4,2)] by simp
  then show ?thesis using assms by simp
next
  case False
  then show ?thesis using fits_path [OF assms(1) rh_okD [OF assms(1-3)] base_lt assms(2,4)] assms(5) by simp
qed

lemma room_ahead:
  assumes "rh_ok n base t" "in_reach n base t h j" "h < n" "j < n" "occ (t ! j)" "z < n" "\<not> occ (t ! z)"
  shows "gap n h j + 1 < n"
proof (rule ccontr)
  assume full: "\<not> gap n h j + 1 < n"
  have "z \<noteq> j" using assms(5,7) by auto
  then have "gap n h z \<noteq> gap n h j" using gap_inj [OF assms(3,6,4)] by auto
  moreover have "gap n h z < n" using assms(6) by simp
  ultimately have "gap n h z < gap n h j" using full by simp
  then show False using fits_path [OF assms(1-4,6)] assms(7) by simp
qed

lemma fits_ahead:
  assumes "in_reach n base t h j" "h < n" "j < n" "occ (t ! j)" "gap n h j \<le> gap n (base (t ! j)) j"
  shows "in_reach n base t h (ring_suc n j)"
  unfolding in_reach_def
proof (intro allI impI)
  fix p assume p: "p < n" "ring_suc n p = ring_suc n j" "0 < gap n h (ring_suc n j)"
  then have "p = j" using ring_suc_inj [of p n j] assms(3) by simp
  then show "occ (t ! p) \<and> gap n h (ring_suc n j) \<le> gap n (base (t ! p)) p + 1"
    using gap_pos_suc [OF assms(2,3) p(3)] assms(4,5) by simp
qed

lemma not_own_successor: "h < n \<Longrightarrow> p < n \<Longrightarrow> ring_suc n p = j \<Longrightarrow> 0 < gap n h j \<Longrightarrow> p \<noteq> j"
  using gap_pos_suc [of h n p] by auto

lemma put_down:
  assumes ok: "rh_ok n base t" and e: "in_reach n base t (base e) j" "j < n" "occ e"
    and lower: "occ (t ! j) \<Longrightarrow> gap n (base (t ! j)) j \<le> gap n (base e) j"
  shows "rh_ok n base (t[j := e])"
  unfolding rh_ok_def
proof (intro conjI allI impI)
  show "length (t[j := e]) = n" using rh_ok_length [OF ok] by simp
  fix i assume i: "i < n" "occ (t[j := e] ! i)"
  show "in_reach n base (t[j := e]) (base (t[j := e] ! i)) i"
    unfolding in_reach_def
  proof (intro allI impI)
    fix p assume p: "p < n" "ring_suc n p = i" "0 < gap n (base (t[j := e] ! i)) i"
    have pi: "p \<noteq> i" using not_own_successor [OF base_lt p] .
    show "occ (t[j := e] ! p) \<and> gap n (base (t[j := e] ! i)) i \<le> gap n (base (t[j := e] ! p)) p + 1"
    proof (cases "i = j")
      case True
      then show ?thesis using fitsD [OF e(1) p(1)] p pi rh_ok_length [OF ok] i by simp
    next
      case False
      then have ti: "t[j := e] ! i = t ! i" by simp
      then have "occ (t ! p) \<and> gap n (base (t ! i)) i \<le> gap n (base (t ! p)) p + 1"
        using fitsD [OF rh_okD [OF ok i(1)] p(1,2)] i(2) p(3) by simp
      then show ?thesis
        using ti lower e(2,3) rh_ok_length [OF ok] by (cases "p = j") auto
    qed
  qed
qed

lemma picked_up_fits:
  assumes ok: "rh_ok n base t" and j: "j < n" "occ (t ! j)" "occ e"
    and far: "gap n (base (t ! j)) j \<le> gap n (base e) j"
  shows "in_reach n base (t[j := e]) (base (t ! j)) (ring_suc n j)"
  unfolding in_reach_def
proof (intro allI impI)
  fix p assume p: "p < n" "ring_suc n p = ring_suc n j" "0 < gap n (base (t ! j)) (ring_suc n j)"
  then have "p = j" using ring_suc_inj [of p n j] j(1) by simp
  then show "occ (t[j := e] ! p) \<and> gap n (base (t ! j)) (ring_suc n j) \<le> gap n (base (t[j := e] ! p)) p + 1"
    using gap_pos_suc [OF base_lt j(1) p(3)] j far rh_ok_length [OF ok] by simp
qed

lemma hole_made:
  assumes ok: "rh_ok n base t" and j: "j < n" "\<not> occ e"
  shows "hole_ok n base (t[j := e]) j"
proof -
  let ?t = "t[j := e]" and ?s = "ring_suc n j"
  have len: "length t = n" using ok by (rule rh_ok_length)
  have others: "in_reach n base ?t (base (?t ! i)) i" if i: "i < n" "i \<noteq> ?s" "occ (?t ! i)" for i
    unfolding in_reach_def
  proof (intro allI impI)
    fix p assume p: "p < n" "ring_suc n p = i" "0 < gap n (base (?t ! i)) i"
    have "i \<noteq> j" "p \<noteq> j" using i p j len by auto
    then show "occ (?t ! p) \<and> gap n (base (?t ! i)) i \<le> gap n (base (?t ! p)) p + 1"
      using fitsD [OF rh_okD [OF ok i(1)] p(1,2)] i(3) p(3) len j by simp
  qed
  have behind: "in_reach n base ?t (base b) j" if b: "b = ?t ! ?s" "occ b" "0 < gap n (base b) ?s" for b
    unfolding in_reach_def
  proof (intro allI impI)
    fix p assume p: "p < n" "ring_suc n p = j" "0 < gap n (base b) j"
    have sj: "?s \<noteq> j" using b j len by auto
    then have bs: "b = t ! ?s" using b by simp
    have "occ (t ! j) \<and> gap n (base b) ?s \<le> gap n (base (t ! j)) j + 1"
      using fitsD [OF rh_okD [OF ok, of ?s] j(1) refl] b bs j by simp
    then have tj: "occ (t ! j)" "gap n (base b) j \<le> gap n (base (t ! j)) j"
      using gap_pos_suc [OF base_lt j(1) b(3)] by simp_all
    have "p \<noteq> j" using not_own_successor [OF base_lt p] .
    moreover have "occ (t ! p) \<and> gap n (base (t ! j)) j \<le> gap n (base (t ! p)) p + 1"
      using fitsD [OF rh_okD [OF ok j(1) tj(1)] p(1,2)] tj p by simp
    ultimately show "occ (?t ! p) \<and> gap n (base b) j \<le> gap n (base (?t ! p)) p + 1" using tj by simp
  qed
  show ?thesis unfolding hole_ok_def Let_def using len j others behind by simp
qed

lemma hole_closed:
  assumes ok: "hole_ok n base t hole" and hole: "hole < n"
    and stop: "occ (t ! ring_suc n hole) \<Longrightarrow> gap n (base (t ! ring_suc n hole)) (ring_suc n hole) = 0"
  shows "rh_ok n base t"
  unfolding rh_ok_def
proof (intro conjI allI impI)
  show "length t = n" using ok by (simp add: hole_ok_def)
  fix j assume j: "j < n" "occ (t ! j)"
  show "in_reach n base t (base (t ! j)) j"
  proof (cases "j = ring_suc n hole")
    case True
    then show ?thesis using stop j by (simp add: in_reach_def)
  next
    case False
    then show ?thesis using ok j by (simp add: hole_ok_def)
  qed
qed

lemma hole_moved:
  assumes ok: "hole_ok n base t hole" and hole: "hole < n"
    and idx: "idx = ring_suc n hole" "occ (t ! idx)" "0 < gap n (base (t ! idx)) idx"
    and z: "z < n" "z \<noteq> hole" "\<not> occ (t ! z)" and e: "\<not> occ e"
  shows "hole_ok n base (t[hole := t ! idx, idx := e]) idx"
proof -
  let ?t = "t[hole := t ! idx, idx := e]" and ?s = "ring_suc n idx"
  have len: "length t = n" and th: "\<not> occ (t ! hole)" using ok by (auto simp: hole_ok_def)
  have idxn: "idx < n" and ih: "idx \<noteq> hole" using hole idx th by auto
  have iz: "idx \<noteq> z" using idx z by auto
  have two: "?s \<noteq> hole" using hole z(1,2) iz by (auto simp: idx(1) ring_suc_cases split: if_splits)
  have s: "?s < n" "?s \<noteq> idx"
    using idxn hole ih by (auto simp: ring_suc_cases split: if_splits)
  have ordered: "in_reach n base t (base (t ! j)) j" if "j < n" "j \<noteq> idx" "occ (t ! j)" for j
    using ok that by (simp add: hole_ok_def idx(1))
  have mover: "in_reach n base t (base (t ! idx)) hole" "gap n (base (t ! idx)) idx = gap n (base (t ! idx)) hole + 1"
    using ok idx gap_pos_suc [OF base_lt hole] by (auto simp: hole_ok_def Let_def)
  have others: "in_reach n base ?t (base (?t ! j)) j" if j: "j < n" "j \<noteq> ?s" "occ (?t ! j)" for j
    unfolding in_reach_def
  proof (intro allI impI)
    fix p assume p: "p < n" "ring_suc n p = j" "0 < gap n (base (?t ! j)) j"
    have ji: "j \<noteq> idx" using j e idxn len by auto
    then have pn: "p \<noteq> idx" "p \<noteq> hole" using p j idx by auto
    show "occ (?t ! p) \<and> gap n (base (?t ! j)) j \<le> gap n (base (?t ! p)) p + 1"
    proof (cases "j = hole")
      case True
      then have "?t ! j = t ! idx" using ih hole len by simp
      then show ?thesis using fitsD [OF mover(1) p(1)] True p pn by simp
    next
      case False
      then show ?thesis using fitsD [OF ordered p(1,2)] ji j p pn by simp
    qed
  qed
  have behind: "in_reach n base ?t (base b) idx" if b: "b = ?t ! ?s" "occ b" "0 < gap n (base b) ?s" for b
    unfolding in_reach_def
  proof (intro allI impI)
    fix p assume p: "p < n" "ring_suc n p = idx" "0 < gap n (base b) idx"
    have ph: "p = hole" using ring_suc_inj [OF p(1) hole] p(2) idx(1) by simp
    have bs: "b = t ! ?s" using b s two by simp
    have "gap n (base b) ?s \<le> gap n (base (t ! idx)) idx + 1"
      using fitsD [OF ordered [OF s] idxn refl] b bs by simp
    then have "gap n (base b) idx \<le> gap n (base (t ! idx)) hole + 1"
      using gap_pos_suc [OF base_lt idxn b(3)] mover(2) by simp
    then show "occ (?t ! p) \<and> gap n (base b) idx \<le> gap n (base (?t ! p)) p + 1"
      using ph ih hole len idx(2) by simp
  qed
  show ?thesis unfolding hole_ok_def Let_def using len e idxn others behind by simp
qed

end

section \<open>The entries of a table\<close>

definition live :: "'a nghttp2_map_bucket list \<Rightarrow> 'a nghttp2_map_bucket list" where
  "live t = filter occ t"

lemma mset_live: "mset (live t) = filter_mset occ (mset t)"
  by (simp add: live_def mset_filter)

lemma live_put:
  "j < length t \<Longrightarrow> occ e \<Longrightarrow> \<not> occ (t ! j) \<Longrightarrow> mset (live (t[j := e])) = add_mset e (mset (live t))"
  by (simp add: mset_live mset_update)

lemma live_swap:
  "j < length t \<Longrightarrow> occ e \<Longrightarrow> occ (t ! j) \<Longrightarrow>
   add_mset (t ! j) (mset (live (t[j := e]))) = add_mset e (mset (live t))"
  by (simp add: mset_live mset_update)

lemma live_remove:
  "j < length t \<Longrightarrow> \<not> occ e \<Longrightarrow> occ (t ! j) \<Longrightarrow>
   add_mset (t ! j) (mset (live (t[j := e]))) = mset (live t)"
  by (simp add: mset_live mset_update)

lemma live_move:
  "j < length t \<Longrightarrow> i < length t \<Longrightarrow> \<not> occ e \<Longrightarrow> occ (t ! i) \<Longrightarrow> \<not> occ (t ! j) \<Longrightarrow>
   mset (live (t[j := t ! i, i := e])) = mset (live t)"
proof -
  assume a: "j < length t" "i < length t" "\<not> occ e" "occ (t ! i)" "\<not> occ (t ! j)"
  then have ij: "i \<noteq> j" by auto
  have "add_mset (t ! i) (mset (live (t[j := t ! i, i := e]))) = mset (live (t[j := t ! i]))"
    using live_remove [of i "t[j := t ! i]" e] a ij by simp
  also have "\<dots> = add_mset (t ! i) (mset (live t))" using a by (simp add: live_put)
  finally show ?thesis by simp
qed

lemma one_bucket_per_key:
  "distinct (map bkt_key (live t)) \<Longrightarrow> i < length t \<Longrightarrow> j < length t \<Longrightarrow> occ (t ! i) \<Longrightarrow> occ (t ! j) \<Longrightarrow>
   bkt_key (t ! i) = bkt_key (t ! j) \<Longrightarrow> i = j"
proof (induction t arbitrary: i j)
  case (Cons b t)
  have tail: "bkt_key (t ! k) \<in> bkt_key ` set (live t)" if "k < length t" "occ (t ! k)" for k
    using that by (auto simp: live_def)
  have d: "distinct (map bkt_key (live t))" using Cons.prems(1) by (simp add: live_def split: if_splits)
  have head: "occ b \<Longrightarrow> bkt_key b \<notin> bkt_key ` set (live t)" using Cons.prems(1) by (simp add: live_def)
  show ?case
    using Cons.prems Cons.IH [OF d, of "i - 1" "j - 1"] tail [of "i - 1"] tail [of "j - 1"] head
    by (cases i; cases j) auto
qed simp

end
