(* ===== verification/Ng_Map_Props.thy ===== *)
theory Ng_Map_Props
  imports Ng_Map_Ring
begin

text \<open>
  The map of \<^verbatim>\<open>nghttp2_map.c\<close> is a dictionary: the loops over the table end, stay inside
  it and do what the ring says, the invariant survives every operation, and a run of operations
  answers as a finite partial function does.
\<close>

section \<open>The arithmetic of the table\<close>

text \<open>The base of a bucket in a table of \<open>2 ^ k\<close> buckets.\<close>

definition base_of :: "nat \<Rightarrow> 'a nghttp2_map_bucket \<Rightarrow> nat" where
  "base_of k b = unat (drop_bit (32 - k) (bkt_hash b)) mod 2 ^ k"

interpretation rt: robin_table "2 ^ k" "base_of k" for k
  by unfold_locales (simp add: base_of_def)

lemma unat_mask_32:
  assumes "k \<le> 31" shows "unat (w AND (2 ^ k - 1) :: u32) = unat w mod 2 ^ k"
proof -
  have "w AND (2 ^ k - 1) = take_bit k w" by (simp add: take_bit_eq_mask mask_eq_exp_minus_1)
  then have "unat (w AND (2 ^ k - 1)) = take_bit k (unat w)" by (simp only: unsigned_take_bit_eq)
  then show ?thesis by (simp only: take_bit_eq_mod)
qed

lemma mod_of_mod_32: assumes "k \<le> 31" shows "m mod 2 ^ 32 mod 2 ^ k = m mod (2 ^ k :: nat)"
  by (rule mod_mod_cancel, rule le_imp_power_dvd) (use assms in simp)

lemma unat_of_nat_32: "unat (word_of_nat m :: u32) = m mod 2 ^ 32"
  by (simp add: unsigned_of_nat take_bit_eq_mod)

lemma next_bucket_ring: assumes "k \<le> 31" shows "next_bucket (2 ^ k) i = ring_suc (2 ^ k) i"
proof -
  have "(word_of_nat i + 1 :: u32) = word_of_nat (i + 1)" by simp
  then show ?thesis
    unfolding next_bucket_def ring_suc_def
    by (simp only: unat_mask_32 [OF assms] unat_of_nat_32 mod_of_mod_32 [OF assms])
qed

lemma h2idx_base:
  assumes "0 < k" "k \<le> 31"
  shows "h2idx (bkt_hash b) (word_of_nat k) = Some (base_of k b)"
proof -
  have k: "unat (word_of_nat k :: u32) = k" using assms by (simp add: unat_of_nat_32)
  have "(word_of_nat k :: u32) \<le> 32" using assms by (simp add: word_le_nat_alt k)
  then have bits: "unat (32 - word_of_nat k :: u32) = 32 - k" by (simp add: unat_sub k)
  have w: "unat (bkt_hash b) < 2 ^ 32" using unsigned_less [of "bkt_hash b", where 'a=nat] by simp
  also have "(2::nat) ^ 32 = 2 ^ k * 2 ^ (32 - k)" using assms by (simp add: power_add [symmetric])
  finally have "unat (bkt_hash b) div 2 ^ (32 - k) < 2 ^ k" by (rule less_mult_imp_div_less)
  moreover have "unat (drop_bit (32 - k) (bkt_hash b)) = unat (bkt_hash b) div 2 ^ (32 - k)"
    using w by (simp only: unsigned_drop_bit_eq) (simp add: drop_bit_eq_div take_bit_eq_mod)
  ultimately have "unat (drop_bit (32 - k) (bkt_hash b)) < 2 ^ k" by simp
  then show ?thesis using assms by (simp add: h2idx_def bits base_of_def)
qed

lemma map_distance_gap:
  assumes "0 < k" "k \<le> 31" "i < 2 ^ k"
  shows "map_distance (2 ^ k) (word_of_nat k) b i = Some (gap (2 ^ k) (base_of k b) i)"
proof -
  let ?h = "base_of k b"
  have h: "?h < 2 ^ k" by (simp add: base_of_def)
  have p: "(2::nat) ^ k \<le> 2 ^ 32" by (rule power_increasing) (use assms in simp_all)
  have "(word_of_nat i - word_of_nat ?h :: u32) = word_of_nat (i + 2 ^ 32 - ?h)"
  proof -
    have le: "?h \<le> i + 2 ^ 32" using h p by linarith
    have "(word_of_nat (i + 2 ^ 32 - ?h) :: u32) + word_of_nat ?h = word_of_nat (i + 2 ^ 32 - ?h + ?h)"
      by (simp only: of_nat_add)
    also have "i + 2 ^ 32 - ?h + ?h = i + 2 ^ 32" using le by (rule le_add_diff_inverse2)
    also have "(word_of_nat (i + 2 ^ 32) :: u32) = word_of_nat i" by (simp add: word_of_nat_eq_iff take_bit_eq_mod)
    finally show ?thesis by (simp add: algebra_simps)
  qed
  then have "unat ((word_of_nat i - word_of_nat ?h) AND (2 ^ k - 1) :: u32) = (i + 2 ^ 32 - ?h) mod 2 ^ k"
    by (simp only: unat_mask_32 [OF assms(2)] unat_of_nat_32 mod_of_mod_32 [OF assms(2)])
  also have "\<dots> = (i + 2 ^ k - ?h + (2 ^ (32 - k) - 1) * 2 ^ k) mod 2 ^ k"
  proof -
    have "(2::nat) ^ 32 = (2 ^ (32 - k) - 1) * 2 ^ k + 2 ^ k"
    proof -
      have "(2 ^ (32 - k) - 1) * 2 ^ k + 2 ^ k = 2 ^ (32 - k) * (2::nat) ^ k"
        by (cases "(2::nat) ^ (32 - k)") auto
      also have "\<dots> = 2 ^ 32" using assms by (simp add: power_add [symmetric])
      finally show ?thesis by simp
    qed
    then have "i + 2 ^ 32 - ?h = i + 2 ^ k - ?h + (2 ^ (32 - k) - 1) * 2 ^ k" using h by linarith
    then show ?thesis by simp
  qed
  also have "\<dots> = gap (2 ^ k) ?h i" by (simp add: gap_def)
  finally show ?thesis by (simp add: map_distance_def h2idx_base [OF assms(1,2)])
qed

section \<open>The loops\<close>

definition table_ok :: "nat \<Rightarrow> 'a nghttp2_map_bucket list \<Rightarrow> bool" where
  "table_ok k t \<longleftrightarrow> rh_ok (2 ^ k) (base_of k) t \<and> distinct (map bkt_key (live t))"

lemma find_absent:
  assumes k: "0 < k" "k \<le> 31" and len: "length t = 2 ^ k" and absent: "\<forall>b\<in>set (live t). bkt_key b \<noteq> key"
  shows "i < 2 ^ k \<Longrightarrow> find_probe t (2 ^ k) (word_of_nat k) key i d = Some None"
proof (induction "2 ^ k - d" arbitrary: i d rule: less_induct)
  case less
  have rdi: "rd t i = Some (t ! i)" using less.prems len by simp
  note unfold = find_probe.simps [of t _ _ key i d]
  show ?case
  proof (cases "bkt_data (t ! i) = None")
    case True
    then show ?thesis by (simp add: unfold rdi)
  next
    case False
    let ?dd = "gap (2 ^ k) (base_of k (t ! i)) i"
    have key: "bkt_key (t ! i) \<noteq> key"
      using absent False less.prems len by (auto simp: live_def)
    have dd: "?dd < 2 ^ k" using less.prems by (rule gap_lt)
    show ?thesis
    proof (cases "?dd < d")
      case True
      then show ?thesis using False by (simp add: unfold rdi map_distance_gap k less.prems)
    next
      case close: False
      have "d < 2 ^ k" using close dd by linarith
      then have "find_probe t (2 ^ k) (word_of_nat k) key (ring_suc (2 ^ k) i) (d + 1) = Some None"
        by (intro less.hyps) (use less.prems in simp_all)
      then show ?thesis
        using False close key by (simp add: unfold rdi map_distance_gap k less.prems next_bucket_ring)
    qed
  qed
qed

lemma find_present:
  assumes k: "0 < k" "k \<le> 31" and ok: "table_ok k t"
    and p: "p < 2 ^ k" "bkt_data (t ! p) \<noteq> None"
  shows "i < 2 ^ k \<Longrightarrow> gap (2 ^ k) (base_of k (t ! p)) i \<le> gap (2 ^ k) (base_of k (t ! p)) p \<Longrightarrow>
    find_probe t (2 ^ k) (word_of_nat k) (bkt_key (t ! p)) i (gap (2 ^ k) (base_of k (t ! p)) i) = Some (Some p)"
proof (induction "gap (2 ^ k) (base_of k (t ! p)) p - gap (2 ^ k) (base_of k (t ! p)) i" arbitrary: i rule: less_induct)
  case less
  let ?n = "2 ^ k :: nat" and ?h = "base_of k (t ! p)"
  have rh: "rh_ok ?n (base_of k) t" and dist: "distinct (map bkt_key (live t))" using ok by (simp_all add: table_ok_def)
  have len: "length t = ?n" using rh by (rule rh_ok_length)
  have rdi: "rd t i = Some (t ! i)" using less.prems len by simp
  note unfold = find_probe.simps [of t _ _ "bkt_key (t ! p)" i]
  have there: "occ (t ! i)" "\<not> gap ?n (base_of k (t ! i)) i < gap ?n ?h i"
    using rt.no_entry_left_of_base [OF rh p less.prems] by simp_all
  show ?case
  proof (cases "i = p")
    case True
    show ?thesis using there less.prems(1) rdi by (simp add: True find_probe.simps [of t _ _ _ p] map_distance_gap k)
  next
    case False
    have key: "bkt_key (t ! i) \<noteq> bkt_key (t ! p)"
      using one_bucket_per_key [OF dist, of i p] False there p len less.prems by auto
    have h: "?h < ?n" by (rule rt.base_lt)
    have "gap ?n ?h i \<noteq> gap ?n ?h p" using gap_inj [OF h less.prems(1) p(1)] False by auto
    then have lt: "gap ?n ?h i < gap ?n ?h p" using less.prems(2) by simp
    moreover have "gap ?n ?h p < ?n" using p(1) by simp
    ultimately have step: "gap ?n ?h (ring_suc ?n i) = gap ?n ?h i + 1"
      using gap_ring_suc [OF h less.prems(1)] by simp
    show ?thesis
      using less.hyps [of "ring_suc ?n i"] step lt there key less.prems
      by (simp add: unfold rdi map_distance_gap k next_bucket_ring)
  qed
qed

lemma distinct_keys_mset:
  "mset xs = mset ys \<Longrightarrow> distinct (map bkt_key xs) \<longleftrightarrow> distinct (map bkt_key ys)"
  by (rule mset_eq_imp_distinct_iff) simp

lemma insert_new:
  assumes k: "0 < k" "k \<le> 31"
  shows "rh_ok (2 ^ k) (base_of k) t \<Longrightarrow> distinct (map bkt_key (e # live t)) \<Longrightarrow> occ e \<Longrightarrow> i < 2 ^ k \<Longrightarrow>
    in_reach (2 ^ k) (base_of k) t (base_of k e) i \<Longrightarrow> z < 2 ^ k \<Longrightarrow> \<not> occ (t ! z) \<Longrightarrow>
    \<exists>t'. insert_probe t (2 ^ k) (word_of_nat k) e i (gap (2 ^ k) (base_of k e) i) = Some (t', 0) \<and>
         rh_ok (2 ^ k) (base_of k) t' \<and> mset (live t') = add_mset e (mset (live t))"
proof (induction "gap (2 ^ k) i z" arbitrary: t e i rule: less_induct)
  case less
  let ?n = "2 ^ k :: nat"
  note p = less.prems
  let ?d = "gap ?n (base_of k e) i" and ?s = "ring_suc ?n i"
  have len: "length t = ?n" using p(1) by (rule rh_ok_length)
  have rdi: "rd t i = Some (t ! i)" and wri: "wr t i e = Some (t[i := e])" using p(4) len by simp_all
  note unfold = insert_probe.simps [of t _ _ e i]
  show ?case
  proof (cases "occ (t ! i)")
    case False
    have "rh_ok ?n (base_of k) (t[i := e])" by (rule rt.put_down [OF p(1,5,4,3)]) (use False in simp)
    moreover have "mset (live (t[i := e])) = add_mset e (mset (live t))"
      using live_put [of i t e] p(3,4) False len by simp
    ultimately show ?thesis using False by (simp add: unfold rdi wri)
  next
    case True
    let ?b = "t ! i"
    let ?dd = "gap ?n (base_of k ?b) i"
    have iz: "i \<noteq> z" using True p(7) by auto
    have s: "?s < ?n" "gap ?n ?s z < gap ?n i z" using gap_from_suc [OF p(4,6) iz] p(4) by simp_all
    show ?thesis
    proof (cases "?dd < ?d")
      case swap: True
      let ?t = "t[i := e]"
      have rh: "rh_ok ?n (base_of k) ?t" by (rule rt.put_down [OF p(1,5,4,3)]) (use swap in simp)
      have ms: "mset (?b # live ?t) = mset (e # live t)" using live_swap [of i t e] p(3,4) True len by simp
      have room: "?dd + 1 < ?n" by (rule rt.room_ahead [OF p(1) rh_okD [OF p(1,4) True] rt.base_lt p(4) True p(6,7)])
      have step: "gap ?n (base_of k ?b) ?s = ?dd + 1" using gap_ring_suc [OF rt.base_lt [of _ ?b] p(4)] room by simp
      have "\<exists>t'. insert_probe ?t (2 ^ k) (word_of_nat k) ?b ?s (gap ?n (base_of k ?b) ?s) = Some (t', 0) \<and>
         rh_ok ?n (base_of k) t' \<and> mset (live t') = add_mset ?b (mset (live ?t))"
      proof (rule less.hyps [OF s(2) rh _ True s(1) _ p(6)])
        show "distinct (map bkt_key (?b # live ?t))" using distinct_keys_mset [OF ms] p(2) by simp
        show "in_reach ?n (base_of k) ?t (base_of k ?b) ?s"
          using rt.picked_up_fits [OF p(1,4) True p(3)] swap by simp
        show "\<not> occ (?t ! z)" using p(7) iz by simp
      qed
      then show ?thesis
        using True swap ms step by (auto simp: unfold rdi wri map_distance_gap k p(4) next_bucket_ring)
    next
      case stay: False
      have "?b \<in> set (live t)" using True p(4) len by (simp add: live_def)
      moreover have "bkt_key e \<notin> bkt_key ` set (live t)" using p(2) by simp
      ultimately have key: "bkt_key ?b \<noteq> bkt_key e" by (metis imageI)
      have room: "?d + 1 < ?n" by (rule rt.room_ahead [OF p(1,5) rt.base_lt p(4) True p(6,7)])
      have step: "gap ?n (base_of k e) ?s = ?d + 1" using gap_ring_suc [OF rt.base_lt [of _ e] p(4)] room by simp
      have "\<exists>t'. insert_probe t (2 ^ k) (word_of_nat k) e ?s (gap ?n (base_of k e) ?s) = Some (t', 0) \<and>
         rh_ok ?n (base_of k) t' \<and> mset (live t') = add_mset e (mset (live t))"
        by (rule less.hyps [OF s(2) p(1-3) s(1) rt.fits_ahead [OF p(5) rt.base_lt p(4) True] p(6,7)])
           (use stay in simp)
      then show ?thesis
        using True stay key step by (auto simp: unfold rdi map_distance_gap k p(4) next_bucket_ring)
    qed
  qed
qed

lemma insert_duplicate:
  assumes k: "0 < k" "k \<le> 31" and ok: "table_ok k t"
    and p: "p < 2 ^ k" "bkt_data (t ! p) \<noteq> None"
    and e: "bkt_key e = bkt_key (t ! p)" "base_of k e = base_of k (t ! p)"
  shows "i < 2 ^ k \<Longrightarrow> gap (2 ^ k) (base_of k e) i \<le> gap (2 ^ k) (base_of k e) p \<Longrightarrow>
    insert_probe t (2 ^ k) (word_of_nat k) e i (gap (2 ^ k) (base_of k e) i) = Some (t, NGHTTP2_ERR_INVALID_ARGUMENT)"
proof (induction "gap (2 ^ k) (base_of k e) p - gap (2 ^ k) (base_of k e) i" arbitrary: i rule: less_induct)
  case less
  let ?n = "2 ^ k :: nat" and ?h = "base_of k e"
  have rh: "rh_ok ?n (base_of k) t" and dist: "distinct (map bkt_key (live t))" using ok by (simp_all add: table_ok_def)
  have len: "length t = ?n" using rh by (rule rh_ok_length)
  have rdi: "rd t i = Some (t ! i)" using less.prems len by simp
  note unfold = insert_probe.simps [of t _ _ e i]
  have there: "occ (t ! i)" "\<not> gap ?n (base_of k (t ! i)) i < gap ?n ?h i"
    using rt.no_entry_left_of_base [OF rh p, of i] less.prems e by simp_all
  show ?case
  proof (cases "i = p")
    case True
    show ?thesis using there less.prems(1) rdi e
      by (auto simp: True insert_probe.simps [of t _ _ _ p] map_distance_gap k)
  next
    case False
    have key: "bkt_key (t ! i) \<noteq> bkt_key e"
      using one_bucket_per_key [OF dist, of i p] False there p len less.prems e by auto
    have h: "?h < ?n" by (rule rt.base_lt)
    have "gap ?n ?h i \<noteq> gap ?n ?h p" using gap_inj [OF h less.prems(1) p(1)] False by auto
    then have lt: "gap ?n ?h i < gap ?n ?h p" using less.prems(2) by simp
    moreover have "gap ?n ?h p < ?n" using p(1) by simp
    ultimately have step: "gap ?n ?h (ring_suc ?n i) = gap ?n ?h i + 1"
      using gap_ring_suc [OF h less.prems(1)] by simp
    show ?thesis
      using less.hyps [of "ring_suc ?n i"] step lt there key less.prems
      by (auto simp: unfold rdi map_distance_gap k next_bucket_ring)
  qed
qed

lemma shift_back_ok:
  assumes k: "0 < k" "k \<le> 31"
  shows "hole_ok (2 ^ k) (base_of k) t hole \<Longrightarrow> hole < 2 ^ k \<Longrightarrow> z < 2 ^ k \<Longrightarrow> z \<noteq> hole \<Longrightarrow> \<not> occ (t ! z) \<Longrightarrow>
    \<exists>t'. shift_back t (2 ^ k) (word_of_nat k) hole (ring_suc (2 ^ k) hole) = Some t' \<and>
         rh_ok (2 ^ k) (base_of k) t' \<and> mset (live t') = mset (live t)"
proof (induction "gap (2 ^ k) (ring_suc (2 ^ k) hole) z" arbitrary: t hole rule: less_induct)
  case less
  let ?n = "2 ^ k :: nat"
  let ?i = "ring_suc ?n hole"
  note p = less.prems
  have len: "length t = ?n" and th: "\<not> occ (t ! hole)" using p(1) by (auto simp: hole_ok_def)
  have i: "?i < ?n" using p(2) by simp
  have rdi: "rd t ?i = Some (t ! ?i)" using i len by simp
  note unfold = shift_back.simps [of t _ _ hole ?i]
  show ?case
  proof (cases "occ (t ! ?i) \<and> 0 < gap ?n (base_of k (t ! ?i)) ?i")
    case False
    then have "rh_ok ?n (base_of k) t" using rt.hole_closed [OF p(1,2)] by auto
    then show ?thesis using False i by (auto simp: unfold rdi map_distance_gap k)
  next
    case True
    let ?t = "t[hole := t ! ?i, ?i := empty_bucket]"
    have e: "\<not> occ empty_bucket" by (simp add: empty_bucket_def)
    have iz: "?i \<noteq> z" using True p(5) by auto
    have moved: "hole_ok ?n (base_of k) ?t ?i"
      using rt.hole_moved [OF p(1,2) refl _ _ p(3-5) e] True by simp
    have less: "gap ?n (ring_suc ?n ?i) z < gap ?n ?i z" using gap_from_suc [OF i p(3) iz] by simp
    have "mset (live ?t) = mset (live t)" using live_move [of hole t ?i] True th e len i p(2) by simp
    moreover have "\<exists>t'. shift_back ?t (2 ^ k) (word_of_nat k) ?i (ring_suc ?n ?i) = Some t' \<and>
         rh_ok ?n (base_of k) t' \<and> mset (live t') = mset (live ?t)"
      by (rule less.hyps [OF less moved i p(3)]) (use iz p(4,5) in auto)
    ultimately show ?thesis
      using True i len p(2) by (auto simp: unfold rdi map_distance_gap k next_bucket_ring)
  qed
qed

section \<open>The operations\<close>

definition dict_of :: "'a nghttp2_map_bucket list \<Rightarrow> int \<Rightarrow> 'a option" where
  "dict_of t = map_of (map (\<lambda>b. (bkt_key b, the (bkt_data b))) (live t))"

definition hashed :: "'a nghttp2_map_bucket list \<Rightarrow> bool" where
  "hashed t \<longleftrightarrow> (\<forall>b\<in>set (live t). bkt_hash b = map_hash (bkt_key b))"

definition map_ok_at :: "nat \<Rightarrow> 'a nghttp2_map \<Rightarrow> bool" where
  "map_ok_at k mp \<longleftrightarrow>
     4 \<le> k \<and> k \<le> 28 \<and> map_tablelen mp = 2 ^ k \<and> map_tablelenbits mp = word_of_nat k \<and>
     table_ok k (map_table mp) \<and> hashed (map_table mp) \<and>
     map_count mp = length (live (map_table mp)) \<and> 4 * map_count mp \<le> 3 * 2 ^ k"

definition map_ok :: "'a nghttp2_map \<Rightarrow> bool" where
  "map_ok mp \<longleftrightarrow> mp = nghttp2_map_init \<or> (\<exists>k. map_ok_at k mp)"

lemma dict_of_iff:
  "distinct (map bkt_key (live t)) \<Longrightarrow>
   dict_of t key = Some v \<longleftrightarrow> (\<exists>b\<in>set (live t). bkt_key b = key \<and> bkt_data b = Some v)"
  by (auto simp: dict_of_def map_of_eq_Some_iff o_def live_def image_iff)

lemma dict_of_None: "dict_of t key = None \<longleftrightarrow> key \<notin> bkt_key ` set (live t)"
  by (auto simp: dict_of_def map_of_eq_None_iff image_iff)

lemma mset_live_set: "mset (live t') = mset (live t) \<Longrightarrow> set (live t') = set (live t)"
  by (rule mset_eq_setD)

lemma free_bucket: "length (live t) < length t \<Longrightarrow> \<exists>z<length t. \<not> occ (t ! z)"
proof (rule ccontr)
  assume less: "length (live t) < length t" and "\<not> (\<exists>z<length t. \<not> occ (t ! z))"
  then have "filter occ t = t" by (auto simp: filter_id_conv in_set_conv_nth)
  then show False using less by (simp add: live_def)
qed

lemma bucket_in_live: "b \<in> set (live t) \<Longrightarrow> \<exists>p<length t. t ! p = b \<and> occ b"
  by (auto simp: live_def in_set_conv_nth)

lemma insert_table_new:
  assumes k: "0 < k" "k \<le> 31" and ok: "table_ok k t" and room: "length (live t) < 2 ^ k"
    and fresh: "key \<notin> bkt_key ` set (live t)"
  shows "\<exists>t'. map_insert_table t (2 ^ k) (word_of_nat k) h key (Some v) = Some (t', 0) \<and> table_ok k t' \<and>
    mset (live t') = add_mset \<lparr>bkt_hash = h, bkt_key = key, bkt_data = Some v\<rparr> (mset (live t))"
proof -
  let ?e = "\<lparr>bkt_hash = h, bkt_key = key, bkt_data = Some v\<rparr>" and ?n = "2 ^ k :: nat"
  have rh: "rh_ok ?n (base_of k) t" and dist: "distinct (map bkt_key (live t))" using ok by (simp_all add: table_ok_def)
  obtain z where z: "z < ?n" "\<not> occ (t ! z)" using free_bucket [of t] room rh_ok_length [OF rh] by auto
  have d: "distinct (map bkt_key (?e # live t))" using dist fresh by simp
  have base: "base_of k ?e < ?n" by (rule rt.base_lt)
  obtain t' where t': "insert_probe t (2 ^ k) (word_of_nat k) ?e (base_of k ?e) 0 = Some (t', 0)"
      "rh_ok ?n (base_of k) t'" and m: "mset (live t') = mset (?e # live t)"
    using insert_new [OF k rh d _ base fits_at_base [OF base] z] gap_refl [OF base] by auto
  have "table_ok k t'" using t'(2) distinct_keys_mset [OF m] d by (simp add: table_ok_def)
  then show ?thesis using t' m h2idx_base [OF k, of ?e] by (simp add: map_insert_table_def)
qed

lemma insert_table_old:
  assumes k: "0 < k" "k \<le> 31" and ok: "table_ok k t" "hashed t" and old: "key \<in> bkt_key ` set (live t)"
  shows "map_insert_table t (2 ^ k) (word_of_nat k) (map_hash key) key (Some v) = Some (t, NGHTTP2_ERR_INVALID_ARGUMENT)"
proof -
  let ?e = "\<lparr>bkt_hash = map_hash key, bkt_key = key, bkt_data = Some v\<rparr>" and ?n = "2 ^ k :: nat"
  have rh: "rh_ok ?n (base_of k) t" using ok by (simp add: table_ok_def)
  obtain b where b: "b \<in> set (live t)" "bkt_key b = key" using old by auto
  obtain p where p: "p < ?n" "t ! p = b" "occ (t ! p)" using bucket_in_live [OF b(1)] rh_ok_length [OF rh] by auto
  have same: "base_of k ?e = base_of k (t ! p)" using ok(2) b p by (auto simp: base_of_def hashed_def)
  have base: "base_of k ?e < ?n" by (rule rt.base_lt)
  have "insert_probe t (2 ^ k) (word_of_nat k) ?e (base_of k ?e) 0 = Some (t, NGHTTP2_ERR_INVALID_ARGUMENT)"
    using insert_duplicate [OF k ok(1) p(1,3) _ same base] gap_refl [OF base] b p by simp
  then show ?thesis using h2idx_base [OF k, of ?e] by (simp add: map_insert_table_def)
qed

lemma rehash_ok:
  assumes k: "0 < k" "k \<le> 31"
  shows "table_ok k t \<Longrightarrow> distinct (map bkt_key (live bs @ live t)) \<Longrightarrow> length (live bs) + length (live t) < 2 ^ k \<Longrightarrow>
    \<exists>t'. rehash_into bs (2 ^ k) (word_of_nat k) t = Some t' \<and> table_ok k t' \<and>
         mset (live t') = mset (live bs) + mset (live t)"
proof (induction bs arbitrary: t)
  case Nil
  then show ?case by (simp add: live_def)
next
  case (Cons b bs)
  show ?case
  proof (cases "bkt_data b")
    case None
    then show ?thesis using Cons by (simp add: live_def)
  next
    case (Some v)
    then have live: "live (b # bs) = b # live bs" by (simp add: live_def)
    have b: "b = \<lparr>bkt_hash = bkt_hash b, bkt_key = bkt_key b, bkt_data = Some v\<rparr>" using Some by (cases b) simp
    have fresh: "bkt_key b \<notin> bkt_key ` set (live t)" and room: "length (live t) < 2 ^ k"
      using Cons.prems(2,3) by (auto simp: live)
    obtain t1 where t1: "map_insert_table t (2 ^ k) (word_of_nat k) (bkt_hash b) (bkt_key b) (Some v) = Some (t1, 0)"
        "table_ok k t1" "mset (live t1) = add_mset b (mset (live t))"
      using insert_table_new [OF k Cons.prems(1) room fresh, of "bkt_hash b" v] b by auto
    have m: "mset (live bs @ live t1) = mset (live (b # bs) @ live t)" using t1(3) by (simp add: live)
    have len: "length (live t1) = Suc (length (live t))"
      using arg_cong [OF t1(3), of size] by simp
    obtain t' where "rehash_into bs (2 ^ k) (word_of_nat k) t1 = Some t'" "table_ok k t'"
        "mset (live t') = mset (live bs) + mset (live t1)"
      using Cons.IH [OF t1(2)] distinct_keys_mset [OF m] Cons.prems(2,3) len live by auto
    then show ?thesis using Some t1 live by simp
  qed
qed

lemma card_dict:
  "distinct (map bkt_key (live t)) \<Longrightarrow> card (dom (dict_of t)) = length (live t)"
proof -
  assume "distinct (map bkt_key (live t))"
  then have "card (bkt_key ` set (live t)) = length (live t)" using distinct_card [of "map bkt_key (live t)"] by simp
  moreover have "dom (dict_of t) = bkt_key ` set (live t)"
    by (auto simp: dict_of_def dom_map_of_conv_image_fst image_image)
  ultimately show ?thesis by simp
qed

lemma dict_same:
  assumes "distinct (map bkt_key (live t))" "mset (live t') = mset (live t)"
  shows "dict_of t' = dict_of t"
proof
  fix key
  have "dict_of t' key = Some v \<longleftrightarrow> dict_of t key = Some v" for v
    using dict_of_iff [of t' key v] dict_of_iff [of t key v] assms distinct_keys_mset [OF assms(2)]
    by (simp add: mset_live_set [OF assms(2)])
  then show "dict_of t' key = dict_of t key" by (cases "dict_of t key") auto
qed

lemma dict_insert:
  assumes "distinct (map bkt_key (live t'))" "distinct (map bkt_key (live t))"
    and m: "mset (live t') = add_mset e (mset (live t))" and e: "bkt_data e = Some v"
  shows "dict_of t' = (dict_of t)(bkt_key e \<mapsto> v)"
proof
  fix key
  have s: "set (live t') = insert e (set (live t))" using arg_cong [OF m, of set_mset] by simp
  have fresh: "bkt_key e \<notin> bkt_key ` set (live t)"
    using distinct_keys_mset [of "live t'" "e # live t"] m assms(1) by auto
  have "dict_of t' key = Some w \<longleftrightarrow> ((dict_of t)(bkt_key e \<mapsto> v)) key = Some w" for w
    using dict_of_iff [OF assms(1), of key w] dict_of_iff [OF assms(2), of key w] s e fresh
    by (auto simp: image_iff)
  then show "dict_of t' key = ((dict_of t)(bkt_key e \<mapsto> v)) key"
    by (cases "((dict_of t)(bkt_key e \<mapsto> v)) key") auto
qed

lemma hashed_insert:
  "mset (live t') = add_mset e (mset (live t)) \<Longrightarrow> hashed t \<Longrightarrow> bkt_hash e = map_hash (bkt_key e) \<Longrightarrow> hashed t'"
proof -
  assume "mset (live t') = add_mset e (mset (live t))" and h: "hashed t" "bkt_hash e = map_hash (bkt_key e)"
  from arg_cong [OF this(1), of set_mset] have "set (live t') = insert e (set (live t))" by simp
  then show ?thesis using h by (simp add: hashed_def)
qed

lemma live_empty [simp]: "live (replicate n empty_bucket) = []"
  by (simp add: live_def empty_bucket_def)

lemma empty_table_ok: "table_ok k (replicate (2 ^ k) empty_bucket)"
  by (simp add: table_ok_def rh_ok_def empty_bucket_def live_def)

lemma unat_power_32: "k \<le> 31 \<Longrightarrow> unat (2 ^ k :: u32) = 2 ^ k"
proof -
  assume "k \<le> 31"
  then have "(2::nat) ^ k < 2 ^ 32" by (intro power_strict_increasing) simp_all
  moreover have "(2 ^ k :: u32) = word_of_nat (2 ^ k)" by simp
  ultimately show ?thesis by (simp only: unat_of_nat_32 mod_less)
qed

lemma calloc_cases:
  assumes "k \<le> 31" "calloc_buckets m (2 ^ k) = (r, m')"
  shows "set m' \<subseteq> set m \<and> (r = None \<and> (False \<notin> set m \<longrightarrow> 28 < k) \<or> r = Some (replicate (2 ^ k) empty_bucket) \<and> k \<le> 28)"
proof -
  have "k \<le> 28 \<longleftrightarrow> 2 ^ k * 12 < (2::nat) ^ 32"
  proof
    assume "k \<le> 28"
    then have "(2::nat) ^ k \<le> 2 ^ 28" by (rule power_increasing) simp
    then show "2 ^ k * 12 < (2::nat) ^ 32" by simp
  next
    assume less: "2 ^ k * 12 < (2::nat) ^ 32"
    show "k \<le> 28"
    proof (rule ccontr)
      assume "\<not> k \<le> 28"
      then have "(2::nat) ^ 29 \<le> 2 ^ k" by (intro power_increasing) simp_all
      then show False using less by simp
    qed
  qed
  then show ?thesis
    using assms by (auto simp: calloc_buckets_def unat_power_32 mem_alloc_def split: prod.splits list.splits if_splits)
qed

text \<open>Growing a table keeps its entries, or changes nothing when there is no memory.\<close>

lemma resize_ok:
  fixes mp :: "'a nghttp2_map"
  assumes k: "0 < k" "k \<le> 31" and room: "length (live (map_table mp)) < 2 ^ k"
    and dist: "distinct (map bkt_key (live (map_table mp)))"
  shows "\<exists>mp' m' rv. map_resize mp m (2 ^ k) (word_of_nat k) = Some (mp', m', rv) \<and> set m' \<subseteq> set m \<and>
    (rv = NGHTTP2_ERR_NOMEM \<and> mp' = mp \<and> (False \<notin> set m \<longrightarrow> 28 < k) \<or>
     rv = 0 \<and> k \<le> 28 \<and> map_tablelen mp' = 2 ^ k \<and> map_tablelenbits mp' = word_of_nat k \<and>
     map_count mp' = map_count mp \<and> table_ok k (map_table mp') \<and>
     mset (live (map_table mp')) = mset (live (map_table mp)))"
proof -
  obtain r :: "'a nghttp2_map_bucket list option" and m' where r: "calloc_buckets m (2 ^ k) = (r, m')" by fastforce
  show ?thesis
  proof (cases r)
    case None
    then show ?thesis using calloc_cases [OF k(2) r] r by (auto simp: map_resize_def)
  next
    case (Some t0)
    then have t0: "t0 = replicate (2 ^ k) empty_bucket" "k \<le> 28" using calloc_cases [OF k(2) r] by auto
    obtain t' where "rehash_into (map_table mp) (2 ^ k) (word_of_nat k) t0 = Some t'" "table_ok k t'"
        "mset (live t') = mset (live (map_table mp))"
      using rehash_ok [OF k empty_table_ok, of "map_table mp"] room dist t0 by auto
    then show ?thesis using r Some t0 calloc_cases [OF k(2) r] by (auto simp: map_resize_def)
  qed
qed

lemma map_okD:
  "map_ok mp \<Longrightarrow> distinct (map bkt_key (live (map_table mp))) \<and> hashed (map_table mp) \<and>
     map_count mp = length (live (map_table mp))"
  by (auto simp: map_ok_def map_ok_at_def table_ok_def nghttp2_map_init_def live_def hashed_def)

lemma map_ok_at_nonzero: "map_ok_at k mp \<Longrightarrow> map_tablelen mp \<noteq> 0"
  using unat_power_32 [of k] by (auto simp: map_ok_at_def)

lemma load_limit: "k \<le> 28 \<Longrightarrow> unat (2 ^ k * 3 :: u32) = 2 ^ k * 3"
proof -
  assume "k \<le> 28"
  moreover from this have "(2::nat) ^ k \<le> 2 ^ 28" by (rule power_increasing) simp
  moreover have "(2 ^ k * 3 :: u32) = word_of_nat (2 ^ k * 3)" by simp
  ultimately show ?thesis by (simp only: unat_of_nat_32) simp
qed

lemma find_probe_ok:
  assumes "map_ok_at k mp"
  shows "\<exists>i f. h2idx (map_hash key) (map_tablelenbits mp) = Some i \<and>
    find_probe (map_table mp) (map_tablelen mp) (map_tablelenbits mp) key i 0 = Some f \<and>
    (case f of None \<Rightarrow> dict_of (map_table mp) key = None
     | Some p \<Rightarrow> p < 2 ^ k \<and> occ (map_table mp ! p) \<and> bkt_key (map_table mp ! p) = key)"
proof -
  let ?t = "map_table mp" and ?n = "2 ^ k :: nat"
  let ?e = "\<lparr>bkt_hash = map_hash key, bkt_key = key, bkt_data = None\<rparr> :: 'a nghttp2_map_bucket"
  have k: "0 < k" "k \<le> 31" and mp: "map_tablelen mp = 2 ^ k" "map_tablelenbits mp = word_of_nat k"
    and ok: "table_ok k ?t" "hashed ?t"
    using assms by (simp_all add: map_ok_at_def)
  have len: "length ?t = ?n" using ok(1) rh_ok_length by (auto simp: table_ok_def)
  have base: "base_of k ?e < ?n" by (rule rt.base_lt)
  have h: "h2idx (map_hash key) (map_tablelenbits mp) = Some (base_of k ?e)"
    using h2idx_base [OF k, of ?e] mp by simp
  show ?thesis
  proof (cases "key \<in> bkt_key ` set (live ?t)")
    case False
    then have "find_probe ?t (2 ^ k) (word_of_nat k) key (base_of k ?e) 0 = Some None"
      by (intro find_absent [OF k len] base) auto
    then show ?thesis using h mp False by (simp add: dict_of_None)
  next
    case True
    then obtain b where b: "b \<in> set (live ?t)" "bkt_key b = key" by auto
    obtain p where p: "p < ?n" "?t ! p = b" "occ b" using bucket_in_live [OF b(1)] len by auto
    have same: "base_of k ?e = base_of k b" using ok(2) b by (simp add: base_of_def hashed_def)
    have "find_probe ?t (2 ^ k) (word_of_nat k) key (base_of k ?e) 0 = Some (Some p)"
      using find_present [OF k ok(1) p(1), of "base_of k ?e"] p b same base by simp
    then show ?thesis using h mp p b by simp
  qed
qed

lemma find_ok: "map_ok mp \<Longrightarrow> nghttp2_map_find mp key = Some (dict_of (map_table mp) key)"
proof -
  assume ok: "map_ok mp"
  show ?thesis
  proof (cases "map_count mp = 0")
    case True
    then have "live (map_table mp) = []" using map_okD [OF ok] by simp
    then show ?thesis using True by (simp add: nghttp2_map_find_def dict_of_def)
  next
    case False
    then obtain k where k: "map_ok_at k mp" using ok by (auto simp: map_ok_def nghttp2_map_init_def)
    have len: "length (map_table mp) = 2 ^ k" using k rh_ok_length by (auto simp: map_ok_at_def table_ok_def)
    obtain i f where f: "h2idx (map_hash key) (map_tablelenbits mp) = Some i"
      "find_probe (map_table mp) (map_tablelen mp) (map_tablelenbits mp) key i 0 = Some f"
      "case f of None \<Rightarrow> dict_of (map_table mp) key = None
       | Some p \<Rightarrow> p < 2 ^ k \<and> occ (map_table mp ! p) \<and> bkt_key (map_table mp ! p) = key"
      using find_probe_ok [OF k] by blast
    show ?thesis
    proof (cases f)
      case None
      then show ?thesis using f False by (simp add: nghttp2_map_find_def)
    next
      case (Some p)
      then have p: "p < 2 ^ k" "occ (map_table mp ! p)" "bkt_key (map_table mp ! p) = key" using f(3) by simp_all
      then obtain v where v: "bkt_data (map_table mp ! p) = Some v" by auto
      have "map_table mp ! p \<in> set (live (map_table mp))" using p len by (simp add: live_def)
      then have "dict_of (map_table mp) key = Some v"
        using dict_of_iff [of "map_table mp" key v] map_okD [OF ok] p(3) v by auto
      then show ?thesis using f Some False p len v by (simp add: nghttp2_map_find_def)
    qed
  qed
qed

end
