(* ===== verification/Ng_Map_Dict.thy ===== *)
theory Ng_Map_Dict
  imports Ng_Map_Props
begin

text \<open>
  The map of \<^verbatim>\<open>nghttp2_map.c\<close> refines a finite partial function: every operation keeps the
  invariant \<open>map_ok\<close> and answers as the partial function does, whatever the allocator says.
\<close>

section \<open>Insertion\<close>

lemma put_new:
  assumes "map_ok_at k mp" "4 * (map_count mp + 1) \<le> 3 * 2 ^ k" "dict_of (map_table mp) key = None"
  shows "\<exists>t. map_insert_table (map_table mp) (map_tablelen mp) (map_tablelenbits mp) (map_hash key) key (Some v) = Some (t, 0) \<and>
    map_ok_at k (mp\<lparr>map_table := t, map_count := map_count mp + 1\<rparr>) \<and>
    dict_of t = (dict_of (map_table mp))(key \<mapsto> v)"
proof -
  let ?t = "map_table mp" and ?e = "\<lparr>bkt_hash = map_hash key, bkt_key = key, bkt_data = Some v\<rparr>"
  have k: "0 < k" "k \<le> 31" and mp: "map_tablelen mp = 2 ^ k" "map_tablelenbits mp = word_of_nat k"
    and ok: "table_ok k ?t" "hashed ?t" "map_count mp = length (live ?t)"
    using assms(1) by (simp_all add: map_ok_at_def)
  have "4 * map_count mp < 3 * 2 ^ k" using assms(2) by simp
  then have room: "length (live ?t) < 2 ^ k" using ok(3) by simp
  have fresh: "key \<notin> bkt_key ` set (live ?t)" using assms(3) by (simp add: dict_of_None)
  obtain t where t: "map_insert_table ?t (2 ^ k) (word_of_nat k) (map_hash key) key (Some v) = Some (t, 0)"
    "table_ok k t" and m: "mset (live t) = add_mset ?e (mset (live ?t))"
    using insert_table_new [OF k ok(1) room fresh, of "map_hash key" v] by blast
  have "dict_of t = (dict_of ?t)(bkt_key ?e \<mapsto> v)"
    using dict_insert [OF _ _ m, of v] t(2) ok(1) by (simp add: table_ok_def)
  moreover have "hashed t" using hashed_insert [OF m ok(2)] by simp
  moreover have "length (live t) = map_count mp + 1" using arg_cong [OF m, of size] ok(3) by simp
  ultimately show ?thesis
    using assms(1,2) t mp by (simp add: map_ok_at_def)
qed

lemma put_old:
  assumes "map_ok_at k mp" "dict_of (map_table mp) key \<noteq> None"
  shows "map_insert_table (map_table mp) (map_tablelen mp) (map_tablelenbits mp) (map_hash key) key (Some v) =
    Some (map_table mp, NGHTTP2_ERR_INVALID_ARGUMENT)"
proof -
  have "key \<in> bkt_key ` set (live (map_table mp))" using assms(2) unfolding dict_of_None by simp
  moreover have "0 < k" "k \<le> 31" "map_tablelen mp = 2 ^ k" "map_tablelenbits mp = word_of_nat k"
    "table_ok k (map_table mp)" "hashed (map_table mp)"
    using assms(1) by (simp_all add: map_ok_at_def)
  ultimately show ?thesis by (simp only: insert_table_old)
qed

text \<open>Before the insertion: the table is as it was, or has grown, or could not grow.\<close>

definition grown :: "'a nghttp2_map \<Rightarrow> mem \<Rightarrow> ('a nghttp2_map \<times> mem \<times> int) option" where
  "grown mp m =
     (if unat (map_tablelen mp * 3) < (map_count mp + 1) * 4
      then if map_tablelen mp \<noteq> 0
           then map_resize mp m (map_tablelen mp * 2) (map_tablelenbits mp + 1)
           else map_resize mp m (push_bit (unat NGHTTP2_INITIAL_TABLE_LENBITS) 1) NGHTTP2_INITIAL_TABLE_LENBITS
      else Some (mp, m, 0))"

lemma grown_ok:
  assumes "map_ok mp"
  shows "\<exists>mp' m' rv. grown mp m = Some (mp', m', rv) \<and> set m' \<subseteq> set m \<and>
    (rv = NGHTTP2_ERR_NOMEM \<and> mp' = mp \<and> (False \<notin> set m \<longrightarrow> 3 * 2 ^ 26 \<le> map_count mp) \<or>
     rv = 0 \<and> (\<exists>k. map_ok_at k mp' \<and> 4 * (map_count mp' + 1) \<le> 3 * 2 ^ k) \<and>
     map_count mp' = map_count mp \<and> dict_of (map_table mp') = dict_of (map_table mp))"
proof (cases "mp = nghttp2_map_init")
  case True
  have live: "live (map_table mp) = []" "map_count mp = 0" using True by (simp_all add: nghttp2_map_init_def live_def)
  have "grown mp m = map_resize mp m (2 ^ 4) (word_of_nat 4)"
    using True by (simp add: grown_def nghttp2_map_init_def push_bit_eq_mult)
  then obtain mp' m' rv where r: "grown mp m = Some (mp', m', rv)" "set m' \<subseteq> set m"
    "rv = NGHTTP2_ERR_NOMEM \<and> mp' = mp \<and> False \<in> set m \<or>
     rv = 0 \<and> map_tablelen mp' = 2 ^ 4 \<and> map_tablelenbits mp' = word_of_nat 4 \<and>
     map_count mp' = map_count mp \<and> table_ok 4 (map_table mp') \<and>
     mset (live (map_table mp')) = mset (live (map_table mp))"
    using resize_ok [of 4 mp m] live by auto
  from r(3) show ?thesis
  proof
    assume "rv = NGHTTP2_ERR_NOMEM \<and> mp' = mp \<and> False \<in> set m"
    then show ?thesis using r(1,2) by blast
  next
    assume a: "rv = 0 \<and> map_tablelen mp' = 2 ^ 4 \<and> map_tablelenbits mp' = word_of_nat 4 \<and>
     map_count mp' = map_count mp \<and> table_ok 4 (map_table mp') \<and>
     mset (live (map_table mp')) = mset (live (map_table mp))"
    then have l: "live (map_table mp') = []" using live by simp
    then have "map_ok_at 4 mp'" using a live by (simp add: map_ok_at_def hashed_def)
    moreover have "dict_of (map_table mp') = dict_of (map_table mp)" using l live by (simp add: dict_of_def)
    moreover have "4 * (map_count mp' + 1) \<le> 3 * 2 ^ 4" using a live by simp
    ultimately show ?thesis using r(1,2) a by blast
  qed
next
  case False
  then obtain k where ok: "map_ok_at k mp" using assms by (auto simp: map_ok_def)
  have k: "4 \<le> k" "k \<le> 28" and mp: "map_tablelen mp = 2 ^ k" "map_tablelenbits mp = word_of_nat k"
    "table_ok k (map_table mp)" "hashed (map_table mp)" "map_count mp = length (live (map_table mp))"
    "4 * map_count mp \<le> 3 * 2 ^ k"
    using ok by (simp_all add: map_ok_at_def)
  have limit: "unat (map_tablelen mp * 3) = 2 ^ k * 3" using load_limit [OF k(2)] mp by simp
  show ?thesis
  proof (cases "2 ^ k * 3 < (map_count mp + 1) * 4")
    case False
    then have "grown mp m = Some (mp, m, 0)" using limit by (simp add: grown_def)
    moreover have "4 * (map_count mp + 1) \<le> 3 * 2 ^ k" using False by simp
    ultimately show ?thesis using ok by blast
  next
    case True
    have "map_tablelen mp \<noteq> 0" by (rule map_ok_at_nonzero [OF ok])
    then have g: "grown mp m = map_resize mp m (2 ^ (k + 1)) (word_of_nat (k + 1))"
      using True limit mp by (simp add: grown_def add.commute mult.commute)
    have room: "length (live (map_table mp)) < 2 ^ (k + 1)"
    proof -
      have "map_count mp \<le> 2 ^ k" using mp(6) by simp
      also have "(2::nat) ^ k < 2 ^ (k + 1)" by simp
      finally show ?thesis using mp(5) by simp
    qed
    have dist: "distinct (map bkt_key (live (map_table mp)))" using mp(3) by (simp add: table_ok_def)
    have k': "0 < k + 1" "k + 1 \<le> 31" using k by simp_all
    obtain mp' m' rv where r: "grown mp m = Some (mp', m', rv)" "set m' \<subseteq> set m"
      "rv = NGHTTP2_ERR_NOMEM \<and> mp' = mp \<and> (False \<notin> set m \<longrightarrow> 28 < k + 1) \<or>
       rv = 0 \<and> k + 1 \<le> 28 \<and> map_tablelen mp' = 2 ^ (k + 1) \<and> map_tablelenbits mp' = word_of_nat (k + 1) \<and>
       map_count mp' = map_count mp \<and> table_ok (k + 1) (map_table mp') \<and>
       mset (live (map_table mp')) = mset (live (map_table mp))"
      using resize_ok [OF k' room dist, of m] unfolding g by blast
    from r(3) show ?thesis
    proof
      assume a: "rv = NGHTTP2_ERR_NOMEM \<and> mp' = mp \<and> (False \<notin> set m \<longrightarrow> 28 < k + 1)"
      have "3 * 2 ^ 26 \<le> map_count mp" if "False \<notin> set m"
      proof -
        have "k = 28" using a that k by simp
        then show ?thesis using True by simp
      qed
      then show ?thesis using r(1,2) a by blast
    next
      assume a: "rv = 0 \<and> k + 1 \<le> 28 \<and> map_tablelen mp' = 2 ^ (k + 1) \<and> map_tablelenbits mp' = word_of_nat (k + 1) \<and>
       map_count mp' = map_count mp \<and> table_ok (k + 1) (map_table mp') \<and>
       mset (live (map_table mp')) = mset (live (map_table mp))"
      then have s: "mset (live (map_table mp')) = mset (live (map_table mp))" by blast
      have "hashed (map_table mp')" using mp(4) mset_live_set [OF s] by (simp add: hashed_def)
      moreover have "length (live (map_table mp')) = map_count mp'"
        using s a mp(5) by (metis size_mset)
      moreover have load: "4 * (map_count mp' + 1) \<le> 3 * 2 ^ (k + 1)"
      proof -
        have "(2::nat) ^ 4 \<le> 2 ^ k" using k by (intro power_increasing) simp_all
        then show ?thesis using mp(6) a by simp
      qed
      ultimately have "map_ok_at (k + 1) mp'" using a k by (simp add: map_ok_at_def)
      moreover have "dict_of (map_table mp') = dict_of (map_table mp)" by (rule dict_same [OF dist s])
      ultimately show ?thesis using r(1,2) a load by blast
    qed
  qed
qed

lemma insert_ok:
  assumes "map_ok mp"
  shows "\<exists>mp' m' rv. nghttp2_map_insert mp m key v = Some (mp', m', rv) \<and> map_ok mp' \<and> set m' \<subseteq> set m \<and>
    (rv = 0 \<and> dict_of (map_table mp) key = None \<and> dict_of (map_table mp') = (dict_of (map_table mp))(key \<mapsto> v) \<or>
     rv = NGHTTP2_ERR_INVALID_ARGUMENT \<and> dict_of (map_table mp) key \<noteq> None \<and>
       dict_of (map_table mp') = dict_of (map_table mp) \<or>
     rv = NGHTTP2_ERR_NOMEM \<and> mp' = mp \<and> (False \<notin> set m \<longrightarrow> 3 * 2 ^ 26 \<le> map_count mp))"
proof -
  obtain mp1 m1 rv1 where g: "grown mp m = Some (mp1, m1, rv1)" "set m1 \<subseteq> set m"
    "rv1 = NGHTTP2_ERR_NOMEM \<and> mp1 = mp \<and> (False \<notin> set m \<longrightarrow> 3 * 2 ^ 26 \<le> map_count mp) \<or>
     rv1 = 0 \<and> (\<exists>k. map_ok_at k mp1 \<and> 4 * (map_count mp1 + 1) \<le> 3 * 2 ^ k) \<and>
     map_count mp1 = map_count mp \<and> dict_of (map_table mp1) = dict_of (map_table mp)"
    using grown_ok [OF assms, of m] by blast
  note ins = nghttp2_map_insert_def [of mp m key v, folded grown_def, unfolded g(1)]
  from g(3) show ?thesis
  proof
    assume "rv1 = NGHTTP2_ERR_NOMEM \<and> mp1 = mp \<and> (False \<notin> set m \<longrightarrow> 3 * 2 ^ 26 \<le> map_count mp)"
    then show ?thesis using ins assms g(2) by simp
  next
    assume a: "rv1 = 0 \<and> (\<exists>k. map_ok_at k mp1 \<and> 4 * (map_count mp1 + 1) \<le> 3 * 2 ^ k) \<and>
     map_count mp1 = map_count mp \<and> dict_of (map_table mp1) = dict_of (map_table mp)"
    then obtain k where k: "map_ok_at k mp1" "4 * (map_count mp1 + 1) \<le> 3 * 2 ^ k" by blast
    show ?thesis
    proof (cases "dict_of (map_table mp) key")
      case None
      then obtain t where t: "map_insert_table (map_table mp1) (map_tablelen mp1) (map_tablelenbits mp1)
          (map_hash key) key (Some v) = Some (t, 0)"
        "map_ok_at k (mp1\<lparr>map_table := t, map_count := map_count mp1 + 1\<rparr>)"
        "dict_of t = (dict_of (map_table mp1))(key \<mapsto> v)"
        using put_new [OF k, of key v] a by auto
      have "nghttp2_map_insert mp m key v = Some (mp1\<lparr>map_table := t, map_count := map_count mp1 + 1\<rparr>, m1, 0)"
        using ins a t(1) by simp
      moreover have "map_ok (mp1\<lparr>map_table := t, map_count := map_count mp1 + 1\<rparr>)"
        using t(2) by (auto simp only: map_ok_def)
      ultimately show ?thesis using g(2) None t(3) a by auto
    next
      case (Some old)
      then have "nghttp2_map_insert mp m key v = Some (mp1, m1, NGHTTP2_ERR_INVALID_ARGUMENT)"
        using ins a put_old [OF k(1), of key v] by simp
      moreover have "map_ok mp1" using k(1) by (auto simp only: map_ok_def)
      ultimately show ?thesis using g(2) Some a by auto
    qed
  qed
qed

section \<open>Removal, clearing and traversal\<close>

lemma dict_remove:
  assumes "distinct (map bkt_key (live t))" and m: "add_mset e (mset (live t')) = mset (live t)"
  shows "dict_of t' = (dict_of t)(bkt_key e := None)" "distinct (map bkt_key (live t'))"
proof -
  have d: "distinct (map bkt_key (e # live t'))" using distinct_keys_mset [of "e # live t'" "live t"] m assms(1) by simp
  then show d': "distinct (map bkt_key (live t'))" by simp
  have s: "set (live t) = insert e (set (live t'))" using arg_cong [OF m, of set_mset] by simp
  show "dict_of t' = (dict_of t)(bkt_key e := None)"
  proof
    fix key
    have "dict_of t' key = Some w \<longleftrightarrow> ((dict_of t)(bkt_key e := None)) key = Some w" for w
      using dict_of_iff [OF d', of key w] dict_of_iff [OF assms(1), of key w] s d by (auto simp: image_iff)
    then show "dict_of t' key = ((dict_of t)(bkt_key e := None)) key"
      by (cases "((dict_of t)(bkt_key e := None)) key") auto
  qed
qed

lemma map_remove_ok:
  assumes "map_ok mp"
  shows "\<exists>mp' rv. nghttp2_map_remove mp key = Some (mp', rv) \<and> map_ok mp' \<and>
    dict_of (map_table mp') = (dict_of (map_table mp))(key := None) \<and>
    rv = (if dict_of (map_table mp) key = None then NGHTTP2_ERR_INVALID_ARGUMENT else 0)"
proof (cases "map_count mp = 0")
  case True
  then have "live (map_table mp) = []" using map_okD [OF assms] by simp
  then have "dict_of (map_table mp) = Map.empty" by (simp add: dict_of_def)
  then show ?thesis using True assms by (simp add: nghttp2_map_remove_def)
next
  case False
  then obtain k where ok: "map_ok_at k mp" using assms by (auto simp: map_ok_def nghttp2_map_init_def)
  have k: "0 < k" "k \<le> 31" and mp: "map_tablelen mp = 2 ^ k" "map_tablelenbits mp = word_of_nat k"
    "rh_ok (2 ^ k) (base_of k) (map_table mp)" "distinct (map bkt_key (live (map_table mp)))"
    "hashed (map_table mp)" "map_count mp = length (live (map_table mp))" "4 * map_count mp \<le> 3 * 2 ^ k"
    using ok by (simp_all add: map_ok_at_def table_ok_def)
  have len: "length (map_table mp) = 2 ^ k" using mp(3) by (rule rh_ok_length)
  obtain i f where f: "h2idx (map_hash key) (map_tablelenbits mp) = Some i"
    "find_probe (map_table mp) (map_tablelen mp) (map_tablelenbits mp) key i 0 = Some f"
    "case f of None \<Rightarrow> dict_of (map_table mp) key = None
     | Some p \<Rightarrow> p < 2 ^ k \<and> occ (map_table mp ! p) \<and> bkt_key (map_table mp ! p) = key"
    using find_probe_ok [OF ok] by blast
  show ?thesis
  proof (cases f)
    case None
    then have "dict_of (map_table mp) key = None" using f(3) by simp
    moreover from this have "(dict_of (map_table mp))(key := None) = dict_of (map_table mp)" by auto
    ultimately show ?thesis using f None False assms by (simp add: nghttp2_map_remove_def)
  next
    case (Some p)
    then have p: "p < 2 ^ k" "occ (map_table mp ! p)" "bkt_key (map_table mp ! p) = key" using f(3) by simp_all
    let ?t = "(map_table mp)[p := empty_bucket]"
    have hole: "hole_ok (2 ^ k) (base_of k) ?t p" by (rule rt.hole_made [OF mp(3) p(1)]) (simp add: empty_bucket_def)
    have out: "add_mset (map_table mp ! p) (mset (live ?t)) = mset (live (map_table mp))"
      using live_remove [of p "map_table mp" empty_bucket] p len by (simp add: empty_bucket_def)
    have "(0::nat) < 2 ^ k" by simp
    then have "length (live (map_table mp)) < 2 ^ k" using mp(6,7) by linarith
    then obtain z where z: "z < 2 ^ k" "\<not> occ (map_table mp ! z)" using free_bucket [of "map_table mp"] len by auto
    have zp: "z \<noteq> p" using z(2) p(2) by auto
    obtain t' where t': "shift_back ?t (2 ^ k) (word_of_nat k) p (ring_suc (2 ^ k) p) = Some t'"
      "rh_ok (2 ^ k) (base_of k) t'" "mset (live t') = mset (live ?t)"
      using shift_back_ok [OF k hole p(1) z(1) zp] z zp by auto
    have m: "add_mset (map_table mp ! p) (mset (live t')) = mset (live (map_table mp))" using out t'(3) by simp
    note d = dict_remove [OF mp(4) m]
    have "hashed t'" using mp(5) arg_cong [OF m, of set_mset] by (auto simp: hashed_def)
    moreover have "length (live t') = map_count mp - 1" using arg_cong [OF m, of size] mp(6) by simp
    ultimately have "map_ok_at k (mp\<lparr>map_table := t', map_count := map_count mp - 1\<rparr>)"
      using ok t'(2) d(2) mp(7) by (simp add: map_ok_at_def table_ok_def)
    then have ok': "map_ok (mp\<lparr>map_table := t', map_count := map_count mp - 1\<rparr>)" by (auto simp only: map_ok_def)
    have wr: "wr (map_table mp) p empty_bucket = Some ?t" using p(1) len by simp
    have "map_table mp ! p \<in> set (live (map_table mp))" using p len by (simp add: live_def)
    then have "dict_of (map_table mp) key \<noteq> None" unfolding dict_of_None using p(3) by blast
    moreover have "nghttp2_map_remove mp key = Some (mp\<lparr>map_table := t', map_count := map_count mp - 1\<rparr>, 0)"
      using f(1,2) Some False wr t'(1) mp(1,2) by (simp add: nghttp2_map_remove_def next_bucket_ring [OF k(2)])
    ultimately show ?thesis using ok' d(1) p(3) by simp
  qed
qed

lemma clear_ok:
  assumes "map_ok mp"
  shows "map_ok (nghttp2_map_clear mp)" "dict_of (map_table (nghttp2_map_clear mp)) = Map.empty"
proof -
  have "map_ok (nghttp2_map_clear mp) \<and> dict_of (map_table (nghttp2_map_clear mp)) = Map.empty"
  proof (cases "mp = nghttp2_map_init")
    case True
    then show ?thesis using assms by (simp add: nghttp2_map_clear_def nghttp2_map_init_def dict_of_def live_def)
  next
    case False
    then obtain k where ok: "map_ok_at k mp" using assms by (auto simp: map_ok_def)
    have c: "nghttp2_map_clear mp = mp\<lparr>map_table := replicate (2 ^ k) empty_bucket, map_count := 0\<rparr>"
      using map_ok_at_nonzero [OF ok] ok unat_power_32 [of k] by (simp add: nghttp2_map_clear_def map_ok_at_def)
    have "map_ok_at k (nghttp2_map_clear mp)"
      using ok empty_table_ok [of k] by (simp add: c map_ok_at_def hashed_def)
    then show ?thesis unfolding map_ok_def by (auto simp: c dict_of_def)
  qed
  then show "map_ok (nghttp2_map_clear mp)" "dict_of (map_table (nghttp2_map_clear mp)) = Map.empty" by simp_all
qed

lemma map_size_ok: "map_ok mp \<Longrightarrow> nghttp2_map_size mp = card (dom (dict_of (map_table mp)))"
  using card_dict [of "map_table mp"] map_okD [of mp] by (simp add: nghttp2_map_size_def)

text \<open>The traversal calls the function for each entry, in some order, until it answers other than zero.\<close>

fun until_nonzero :: "('a \<Rightarrow> 's \<Rightarrow> int \<times> 's) \<Rightarrow> 'a list \<Rightarrow> 's \<Rightarrow> int \<times> 's" where
  "until_nonzero func [] s = (0, s)"
| "until_nonzero func (x # xs) s =
     (case func x s of (rv, s') \<Rightarrow> if rv \<noteq> 0 then (rv, s') else until_nonzero func xs s')"

lemma each_bucket_live: "each_bucket func t s = until_nonzero func (map (the \<circ> bkt_data) (live t)) s"
  by (induction t arbitrary: s) (auto simp: live_def split: option.split prod.split)

lemma each_free_live: "each_free_bucket func t s = fold (\<lambda>x. snd \<circ> func x) (map (the \<circ> bkt_data) (live t)) s"
  by (induction t arbitrary: s) (auto simp: live_def split: option.split)

lemma live_dict_mset:
  assumes "distinct (map bkt_key (live t))"
  shows "mset (map (the \<circ> bkt_data) (live t)) = image_mset (\<lambda>k. the (dict_of t k)) (mset_set (dom (dict_of t)))"
proof -
  have "dict_of t (bkt_key b) = bkt_data b" if b: "b \<in> set (live t)" for b
  proof -
    obtain v where v: "bkt_data b = Some v" using b by (auto simp: live_def)
    then show ?thesis using dict_of_iff [OF assms, of "bkt_key b" v] b by auto
  qed
  then have "map (the \<circ> bkt_data) (live t) = map (\<lambda>k. the (dict_of t k)) (map bkt_key (live t))" by simp
  moreover have "mset (map bkt_key (live t)) = mset_set (set (map bkt_key (live t)))"
    using assms by (simp only: mset_set_set)
  moreover have "set (map bkt_key (live t)) = dom (dict_of t)"
    by (auto simp: dict_of_def dom_map_of_conv_image_fst image_image)
  ultimately show ?thesis by (metis mset_map)
qed

lemma each_ok:
  assumes "map_ok mp"
  shows "\<exists>xs. mset xs = image_mset (\<lambda>k. the (dict_of (map_table mp) k)) (mset_set (dom (dict_of (map_table mp)))) \<and>
    nghttp2_map_each mp func s = until_nonzero func xs s \<and>
    nghttp2_map_each_free mp func s = fold (\<lambda>x. snd \<circ> func x) xs s"
proof -
  let ?xs = "map (the \<circ> bkt_data) (live (map_table mp))"
  have "map_count mp = 0 \<Longrightarrow> ?xs = []" using map_okD [OF assms] by simp
  then have "nghttp2_map_each mp func s = until_nonzero func ?xs s"
    by (auto simp: nghttp2_map_each_def each_bucket_live)
  moreover have "mset ?xs = image_mset (\<lambda>k. the (dict_of (map_table mp) k)) (mset_set (dom (dict_of (map_table mp))))"
    by (rule live_dict_mset) (simp add: map_okD [OF assms])
  ultimately show ?thesis using each_free_live [of func "map_table mp" s] by (intro exI [of _ ?xs]) (simp add: nghttp2_map_each_free_def)
qed

section \<open>Runs\<close>

text \<open>The operations on a map, with what they answer; a traversal collects the entries.\<close>

datatype 'a map_op = Insert int 'a | Find int | Remove int | Clear | Size | Each

datatype 'a map_answer = Code int | Found "'a option" | Number nat | Entries "'a list" | Nothing

fun map_do :: "'a map_op \<Rightarrow> 'a nghttp2_map \<times> mem \<Rightarrow> (('a nghttp2_map \<times> mem) \<times> 'a map_answer) option" where
  "map_do (Insert key v) (mp, m) =
     map_option (\<lambda>(mp', m', rv). ((mp', m'), Code rv)) (nghttp2_map_insert mp m key v)"
| "map_do (Find key) (mp, m) = map_option (\<lambda>r. ((mp, m), Found r)) (nghttp2_map_find mp key)"
| "map_do (Remove key) (mp, m) = map_option (\<lambda>(mp', rv). ((mp', m), Code rv)) (nghttp2_map_remove mp key)"
| "map_do Clear (mp, m) = Some ((nghttp2_map_clear mp, m), Nothing)"
| "map_do Size (mp, m) = Some ((mp, m), Number (nghttp2_map_size mp))"
| "map_do Each (mp, m) = Some ((mp, m), Entries (snd (nghttp2_map_each mp (\<lambda>x xs. (0, x # xs)) [])))"

inductive map_run :: "('a map_op \<times> 'a map_answer) list \<Rightarrow> 'a nghttp2_map \<times> mem \<Rightarrow> bool" where
  start: "map_run [] (nghttp2_map_init, m)"
| step: "map_run tr s \<Longrightarrow> map_do x s = Some (s', a) \<Longrightarrow> map_run (tr @ [(x, a)]) s'"

text \<open>The dictionary. Only a failing allocation keeps a new key out.\<close>

inductive dict_step :: "'a map_op \<Rightarrow> (int \<Rightarrow> 'a option) \<Rightarrow> 'a map_answer \<Rightarrow> (int \<Rightarrow> 'a option) \<Rightarrow> bool" where
  insert_new: "D key = None \<Longrightarrow> dict_step (Insert key v) D (Code 0) (D(key \<mapsto> v))"
| insert_old: "D key \<noteq> None \<Longrightarrow> dict_step (Insert key v) D (Code NGHTTP2_ERR_INVALID_ARGUMENT) D"
| insert_no_memory: "dict_step (Insert key v) D (Code NGHTTP2_ERR_NOMEM) D"
| find: "dict_step (Find key) D (Found (D key)) D"
| remove: "D key \<noteq> None \<Longrightarrow> dict_step (Remove key) D (Code 0) (D(key := None))"
| remove_absent: "D key = None \<Longrightarrow> dict_step (Remove key) D (Code NGHTTP2_ERR_INVALID_ARGUMENT) D"
| clear: "dict_step Clear D Nothing Map.empty"
| number: "dict_step Size D (Number (card (dom D))) D"
| entries: "mset xs = image_mset (\<lambda>k. the (D k)) (mset_set (dom D)) \<Longrightarrow> dict_step Each D (Entries xs) D"

inductive dict_run :: "('a map_op \<times> 'a map_answer) list \<Rightarrow> (int \<Rightarrow> 'a option) \<Rightarrow> bool" where
  start: "dict_run [] Map.empty"
| step: "dict_run tr D \<Longrightarrow> dict_step x D a D' \<Longrightarrow> dict_run (tr @ [(x, a)]) D'"

lemma collect_all: "until_nonzero (\<lambda>x xs. (0, x # xs)) ys s = (0, rev ys @ s)"
  by (induction ys arbitrary: s) auto

lemma map_step:
  assumes "map_ok mp"
  shows "\<exists>mp' m' a. map_do x (mp, m) = Some ((mp', m'), a) \<and> map_ok mp' \<and> set m' \<subseteq> set m \<and>
    dict_step x (dict_of (map_table mp)) a (dict_of (map_table mp')) \<and>
    (False \<notin> set m \<and> card (dom (dict_of (map_table mp))) < 3 * 2 ^ 26 \<longrightarrow> a \<noteq> Code NGHTTP2_ERR_NOMEM)"
proof (cases x)
  case (Insert key v)
  have count: "map_count mp = card (dom (dict_of (map_table mp)))"
    using map_size_ok [OF assms] by (simp add: nghttp2_map_size_def)
  obtain mp' m' rv where i: "nghttp2_map_insert mp m key v = Some (mp', m', rv)" "map_ok mp'" "set m' \<subseteq> set m"
    "rv = 0 \<and> dict_of (map_table mp) key = None \<and> dict_of (map_table mp') = (dict_of (map_table mp))(key \<mapsto> v) \<or>
     rv = NGHTTP2_ERR_INVALID_ARGUMENT \<and> dict_of (map_table mp) key \<noteq> None \<and>
       dict_of (map_table mp') = dict_of (map_table mp) \<or>
     rv = NGHTTP2_ERR_NOMEM \<and> mp' = mp \<and> (False \<notin> set m \<longrightarrow> 3 * 2 ^ 26 \<le> map_count mp)"
    using insert_ok [OF assms, of m key v] by blast
  have "map_do x (mp, m) = Some ((mp', m'), Code rv)" using Insert i(1) by simp
  moreover have "dict_step x (dict_of (map_table mp)) (Code rv) (dict_of (map_table mp'))"
    using i(4) Insert dict_step.insert_old [of "dict_of (map_table mp)" key v]
    by (auto intro: dict_step.insert_new dict_step.insert_no_memory)
  moreover have "False \<notin> set m \<and> card (dom (dict_of (map_table mp))) < 3 * 2 ^ 26 \<longrightarrow> rv \<noteq> NGHTTP2_ERR_NOMEM"
    using i(4) unfolding count by auto
  ultimately show ?thesis using i(2,3) by blast
next
  case (Find key)
  then show ?thesis using assms find_ok [OF assms, of key] by (auto intro: dict_step.find)
next
  case (Remove key)
  obtain mp' rv where r: "nghttp2_map_remove mp key = Some (mp', rv)" "map_ok mp'"
    "dict_of (map_table mp') = (dict_of (map_table mp))(key := None)"
    "rv = (if dict_of (map_table mp) key = None then NGHTTP2_ERR_INVALID_ARGUMENT else 0)"
    using map_remove_ok [OF assms, of key] by blast
  show ?thesis
  proof (cases "dict_of (map_table mp) key = None")
    case True
    then have "dict_of (map_table mp') = dict_of (map_table mp)" using r(3) by auto
    then show ?thesis using Remove r True dict_step.remove_absent by auto
  next
    case False
    then have "dict_step x (dict_of (map_table mp)) (Code 0) (dict_of (map_table mp'))"
      using Remove dict_step.remove [of "dict_of (map_table mp)" key] False r(3) by simp
    then show ?thesis using Remove r False by auto
  qed
next
  case Clear
  then show ?thesis using clear_ok [OF assms] by (auto intro: dict_step.clear)
next
  case Size
  then show ?thesis using assms map_size_ok [OF assms] by (auto intro: dict_step.number)
next
  case Each
  obtain xs where xs: "mset xs = image_mset (\<lambda>k. the (dict_of (map_table mp) k)) (mset_set (dom (dict_of (map_table mp))))"
    "nghttp2_map_each mp (\<lambda>x xs. (0, x # xs)) [] = until_nonzero (\<lambda>x xs. (0, x # xs)) xs []"
    using each_ok [OF assms, of "\<lambda>x xs. (0, x # xs)" "[]"] by blast
  have "map_do x (mp, m) = Some ((mp, m), Entries (rev xs))" using Each xs(2) by (simp add: collect_all)
  moreover have "dict_step x (dict_of (map_table mp)) (Entries (rev xs)) (dict_of (map_table mp))"
    using Each dict_step.entries [of "rev xs"] xs(1) by simp
  ultimately show ?thesis using assms by auto
qed

lemma map_run_ok: "map_run tr s \<Longrightarrow> map_ok (fst s) \<and> dict_run tr (dict_of (map_table (fst s)))"
proof (induction rule: map_run.induct)
  case (start m)
  then show ?case by (simp add: map_ok_def nghttp2_map_init_def dict_of_def live_def dict_run.start)
next
  case (step tr s x s' a)
  obtain mp m where s: "s = (mp, m)" by fastforce
  show ?case using map_step [of mp x m] step s by (auto intro: dict_run.step)
qed

section \<open>Properties\<close>

text \<open>
  C37. The map of streams is a dictionary. A run of insertions, look-ups, removals, clearings and
  traversals from the empty map, with any answers of the allocator, answers as a finite partial
  function does: a look-up finds what was inserted last under its key and not removed since, a key
  in use is refused and a traversal meets every entry once. Each further operation returns, and while
  allocations succeed and fewer than \<open>3 * 2 ^ 26\<close> entries are in the map, none is refused for lack
  of memory.
\<close>

theorem map_refines:
  assumes "map_run tr (mp, m)"
  shows "\<exists>D. dict_run tr D \<and> nghttp2_map_find mp = Some \<circ> D \<and> finite (dom D) \<and>
    (\<forall>x. \<exists>s a. map_do x (mp, m) = Some (s, a) \<and>
       (False \<notin> set m \<and> card (dom D) < 3 * 2 ^ 26 \<longrightarrow> a \<noteq> Code NGHTTP2_ERR_NOMEM))"
proof (rule exI [of _ "dict_of (map_table mp)"], intro conjI allI)
  have ok: "map_ok mp" "dict_run tr (dict_of (map_table mp))" using map_run_ok [OF assms] by simp_all
  show "dict_run tr (dict_of (map_table mp))" by (rule ok(2))
  show "nghttp2_map_find mp = Some \<circ> dict_of (map_table mp)" by (rule ext) (simp add: find_ok [OF ok(1)])
  show "finite (dom (dict_of (map_table mp)))" by (simp add: dict_of_def finite_dom_map_of)
  show "\<exists>s a. map_do x (mp, m) = Some (s, a) \<and>
       (False \<notin> set m \<and> card (dom (dict_of (map_table mp))) < 3 * 2 ^ 26 \<longrightarrow> a \<noteq> Code NGHTTP2_ERR_NOMEM)" for x
    using map_step [OF ok(1), of x m] by blast
qed

text \<open>One insertion into the empty map, evaluated: the entry is in the second of sixteen buckets.\<close>

definition map_of_five :: "bool nghttp2_map" where
  "map_of_five = \<lparr>map_table = (replicate 16 empty_bucket)[1 := \<lparr>bkt_hash = 387276957, bkt_key = 5, bkt_data = Some True\<rparr>],
     map_count = 1, map_tablelen = 16, map_tablelenbits = 4\<rparr>"

lemma five_inserted:
  "map_do (Insert 5 True) (nghttp2_map_init, [True]) = Some ((map_of_five, []), Code 0)"
proof -
  have h: "map_hash 5 = 387276957" by (simp add: map_hash_def)
  have i: "h2idx 387276957 4 = Some 1" by (simp add: h2idx_def)
  have "insert_probe (replicate 16 empty_bucket) 16 4 \<lparr>bkt_hash = 387276957, bkt_key = 5, bkt_data = Some True\<rparr> 1 0 =
    Some ((replicate 16 empty_bucket)[1 := \<lparr>bkt_hash = 387276957, bkt_key = 5, bkt_data = Some True\<rparr>], 0)"
    by (subst insert_probe.simps) (simp add: empty_bucket_def)
  then show ?thesis
    by (simp add: nghttp2_map_insert_def map_resize_def calloc_buckets_def mem_alloc_def nghttp2_map_init_def
        map_insert_table_def h i map_of_five_def)
qed

lemma five_found: "map_do (Find 5) (map_of_five, []) = Some ((map_of_five, []), Found (Some True))"
proof -
  have h: "map_hash 5 = 387276957" by (simp add: map_hash_def)
  have i: "h2idx 387276957 4 = Some 1" by (simp add: h2idx_def)
  have "find_probe (map_table map_of_five) 16 4 5 1 0 = Some (Some 1)"
    by (subst find_probe.simps) (simp add: map_of_five_def map_distance_def i)
  then show ?thesis by (simp add: nghttp2_map_find_def h i) (simp add: map_of_five_def h i)
qed

theorem map_refines_witness:
  "\<exists>D. dict_run [(Insert 5 True, Code 0), (Find 5, Found (Some True))] D \<and> nghttp2_map_find map_of_five = Some \<circ> D"
proof -
  have "map_run ([] @ [(Insert 5 True, Code 0)]) (map_of_five, [])"
    by (rule map_run.step [OF map_run.start five_inserted])
  from map_run.step [OF this five_found]
  have "map_run [(Insert 5 True, Code 0), (Find 5, Found (Some True))] (map_of_five, [])" by simp
  from map_refines [OF this] show ?thesis by blast
qed

end
