(* ===== verification/Spec2Isabelle.thy ===== *)
theory Spec2Isabelle
  imports Download_Props System_Props Ble_App Board Ng_Flow Ng_Pq Ng_Huff_Props Ng_Queue Ng_Hd_Split Ng_Frame_Wire Ng_Map_Dict
begin

text \<open>
  Verification of the firmware of a toy player (an ESP32 that plays audio files for the toy placed
  on it), of its board support, and of the HTTP/2 library it vendors.

  \<^bold>\<open>The program.\<close> Two tasks share the device's state. The bus task talks to a second
  processor over a UART: \<^verbatim>\<open>qbus_s.cpp\<close> receives and answers frames,
  \<^verbatim>\<open>iot_qbus.cpp\<close> maps registers to operations of the player, the LEDs and the system.
  The system task runs the state machine of \<^verbatim>\<open>system.cpp\<close>, which plays files
  (\<^verbatim>\<open>player.cpp\<close>), connects (\<^verbatim>\<open>wifi.cpp\<close>) and downloads
  (\<^verbatim>\<open>downloader.cpp\<close>) to the card (\<^verbatim>\<open>sdcard.cpp\<close>). A phone configures the box
  over BLE (\<^verbatim>\<open>ble_app.cpp\<close>).

  \<^bold>\<open>Theories of the firmware\<close> (sources under \<^verbatim>\<open>src/main\<close>).
  \<^item> \<open>Prelude\<close>: C integer types, bounds-checked arrays, NUL-terminated strings.
  \<^item> \<open>Crc16\<close>, \<open>Time_Spent\<close>, \<open>Led\<close>: \<^verbatim>\<open>crc16.cpp\<close>,
    \<^verbatim>\<open>time_spent.cpp\<close>, \<^verbatim>\<open>led_app.cpp\<close>. The checksum is linear, detects damage within two
    bytes, and a frame followed by its checksum has checksum 0.
  \<^item> \<open>Cstdio\<close>: the conversions of printf and scanf the code uses, with their round trips.
  \<^item> \<open>Firmware\<close>: the global state as one record (\<open>world\<close>), the card as a map from paths to
    contents, cJSON as a record of functions (a parameter), the calls to outside libraries as a
    recorded list, and the accessors of \<^verbatim>\<open>System\<close>.
  \<^item> \<open>Player_App\<close>, \<open>Wifi_App\<close>, \<open>Sd_Card\<close>, \<open>Downloader_App\<close>,
    \<open>System_App\<close>, \<open>Ble_App\<close>: one theory per source file, one definition per function; the
    handler of the state machine has one definition per state.
  \<^item> \<open>Qbus_Slave\<close>, \<open>Iot_Qbus\<close>, \<open>Bus_Protocol\<close>: the bus. The locale
    \<open>register_callbacks\<close> is what the slave relies on, interpreted on the callbacks of
    \<^verbatim>\<open>iot_qbus.cpp\<close>; \<open>bus_step\<close> interleaves the reception of bytes with the polls.
  \<^item> \<open>Download_Lemmas\<close>, \<open>Download_Props\<close>, \<open>System_Props\<close>: lemmas and properties
    of the downloads and of the state machine (\<open>dev_reach\<close> interleaves it with the bus and BLE
    and counts how often the current question has been asked).
  \<^item> \<open>Board\<close>: \<^verbatim>\<open>src/components/my_board\<close>.

  \<^bold>\<open>Theories of the HTTP/2 library\<close> (sources under
  \<^verbatim>\<open>src/managed_components/espressif__nghttp/nghttp2/lib\<close>, from which the component builds).
  \<^item> \<open>Ng_Base\<close>: \<^verbatim>\<open>nghttp2_helper.c\<close>: integers in network order, the character tables and
    the checks of header fields, which accept exactly what \<^verbatim>\<open>nghttp2.h\<close> documents.
  \<^item> \<open>Ng_Flow\<close>: the accounting of windows (\<^verbatim>\<open>nghttp2_helper.c\<close>) and the token bucket of
    \<^verbatim>\<open>nghttp2_ratelim.c\<close>; no overflow in signed arithmetic, and what a bucket can give at most.
  \<^item> \<open>Ng_Pq\<close>: the heap of \<^verbatim>\<open>nghttp2_pq.c\<close>, generic in its order (locale
    \<open>entry_order\<close>), interpreted on the cyclic order of streams; it refines a multiset.
  \<^item> \<open>Ng_Buf\<close>: buffers and chains of buffers (\<^verbatim>\<open>nghttp2_buf.c\<close>) with an allocator
    that can fail: what is collected, where the capacity ends, and that nothing leaks.
  \<^item> \<open>Ng_Huff_Data\<close>, \<open>Ng_Huffman\<close>, \<open>Ng_Huff_Check\<close>, \<open>Ng_Huff_Props\<close>:
    the tables of \<^verbatim>\<open>nghttp2_hd_huffman_data.c\<close>, the coder of \<^verbatim>\<open>nghttp2_hd_huffman.c\<close>, the
    check of all 4112 entries of the decoder's table against the code, and that the decoder accepts
    exactly the encodings.
  \<^item> \<open>Ng_Queue\<close>: the linked queues (\<^verbatim>\<open>nghttp2_queue.c\<close>, \<^verbatim>\<open>nghttp2_outbound_item.c\<close>)
    on an explicit store, both instances of the locale \<open>fifo\<close>, and counted buffers
    (\<^verbatim>\<open>nghttp2_rcbuf.c\<close>).
  \<^item> \<open>Ng_Map\<close>, \<open>Ng_Map_Ring\<close>, \<open>Ng_Map_Props\<close>, \<open>Ng_Map_Dict\<close>: the open
    hash table of \<^verbatim>\<open>nghttp2_map.c\<close>; the order of its entries (locale \<open>robin_table\<close>,
    interpreted on the code's arithmetic for every size), why its loops end, and that it is a dictionary.
  \<^item> \<open>Ng_Hd_Table\<close>, \<open>Ng_Hd_Int\<close>, \<open>Ng_Hd_Deflate\<close>, \<open>Ng_Hd_Inflate\<close>:
    the HPACK coder of \<^verbatim>\<open>nghttp2_hd.c\<close>: tables, integers, encoder and decoder; the decoder has one
    definition per state and a turn of its loop is \<open>inflate_step\<close>.
  \<^item> \<open>Ng_Hd_Table_Props\<close>, \<open>Ng_Hd_Deflate_Props\<close>, \<open>Ng_Hd_Roundtrip\<close>,
    \<open>Ng_Hd_Session\<close>: what the tables hold; each header field becomes a representation that
    stands for it; the decoder understands each; over a session the two stay in step.
  \<^item> \<open>Ng_Hd_Inflate_Props\<close>, \<open>Ng_Hd_Split\<close>: the decoder on arbitrary input, and that it
    makes no difference where the input is cut.
  \<^item> \<open>Ng_Frame\<close>: packing, unpacking and copying of frames (\<^verbatim>\<open>nghttp2_frame.c\<close>,
    \<^verbatim>\<open>nghttp2_priority_spec.c\<close>) and the two padding functions of \<^verbatim>\<open>nghttp2_session.c\<close>.
  \<^item> \<open>Ng_Frame_Props\<close>, \<open>Ng_Frame_Wire\<close>: what is packed is unpacked as it was; copies of
    header fields stay inside their memory while its size fits 32 bits; a header block split over CONTINUATION frames reaches the
    decoder of the peer as the header fields that were packed; padding comes off.

  \<^bold>\<open>Conventions.\<close> \<open>None\<close> is an access outside an array or a null dereference. A
  function that waits for an event takes it as an argument; the audio pipeline, the HTTP client, the
  WiFi driver and NimBLE are outside, and what they answer is an argument (\<open>sys_inputs\<close>,
  \<open>http_event\<close> lists). The allocator of the HTTP/2 library is a list of answers and the
  content of fresh memory. Loops of the C code that no structural recursion gives are partial
  functions, whose \<open>None\<close> stands for not returning too; no fuel is used, and each such loop is
  proved to return (\<open>bufs_collect\<close>, \<open>inflate_safe\<close>, \<open>inflate_loop_terminates\<close>, \<open>map_refines\<close>).

  \<^bold>\<open>Not modelled.\<close> \<^verbatim>\<open>initializer.cpp\<close> is not part of the build. Logging is left out.
  Of the HTTP/2 library the session (\<^verbatim>\<open>nghttp2_session.c\<close> but for its padding,
  \<^verbatim>\<open>nghttp2_submit.c\<close>), most of the streams, the HTTP messaging rules and the structured fields are not modelled: the firmware only reaches them through the framework's client. The tools and the proxy under
  \<^verbatim>\<open>nghttp2/src\<close> are not built, and the remaining vendored code (the DSP routines, the JSON
  tokenizer) is not called by the firmware.
\<close>

end
